(* ===== verification/Prelude.thy ===== *)
theory Prelude
  imports Complex_Main "HOL-Library.Word" "HOL-Library.Multiset" "HOL-Library.List_Lexorder"
    "HOL-Library.Char_ord" "HOL-Library.Product_Lexorder"
begin

section \<open>Shared vocabulary of the development\<close>

text \<open>
  What the component theories share: the JavaScript values and operators the sources use
  (BigInt division, hex buffers, array reads past the end, stable sorting), the types the
  components exchange (byte buffers, payout leaves), and the generic lemmas on lists, sums and
  sorting their proofs rest on.

  Conventions.  A JavaScript \<open>BigInt\<close> is an \<open>int\<close>.  A \<open>throw\<close> is the \<open>Inl\<close> of a sum whose
  error type is a datatype of the component.  \<open>null\<close> and \<open>undefined\<close> are \<open>None\<close>.  A
  \<open>Buffer\<close> is a list of bytes.  Strings are ASCII.  Console output is not modelled.
\<close>

named_theorems money_simps \<open>sums of leaf amounts\<close>
named_theorems js_simps \<open>evaluation of the JavaScript operators\<close>

subsection \<open>Types the components exchange\<close>

type_synonym byte = "8 word"
type_synonym buf = "byte list"
type_synonym hexstr = string
type_synonym leaf = "hexstr \<times> int"  \<comment> \<open>\<open>{ pk, amount }\<close>\<close>

abbreviation leaf_sum :: "leaf list \<Rightarrow> int" where
  "leaf_sum ls \<equiv> sum_list (map snd ls)"

subsection \<open>JavaScript operators\<close>

text \<open>BigInt \<open>/\<close> truncates towards zero.\<close>

definition bigdiv :: "int \<Rightarrow> int \<Rightarrow> int" where
  "bigdiv a b = sgn a * sgn b * (\<bar>a\<bar> div \<bar>b\<bar>)"

lemma bigdiv_nonneg [js_simps]: "0 \<le> a \<Longrightarrow> 0 < b \<Longrightarrow> bigdiv a b = a div b"
  by (cases "a = 0") (auto simp: bigdiv_def)

lemma bigdiv_ge_0: "0 \<le> a \<Longrightarrow> 0 \<le> b \<Longrightarrow> 0 \<le> bigdiv a b"
  by (cases "b = 0"; cases "a = 0")
    (auto simp: bigdiv_nonneg pos_imp_zdiv_nonneg_iff, simp_all add: bigdiv_def)

text \<open>Reading an array: past the end gives \<open>undefined\<close>.\<close>

definition js_idx :: "'a list \<Rightarrow> nat \<Rightarrow> 'a option" where
  "js_idx xs i = (if i < length xs then Some (xs ! i) else None)"

lemma js_idx_Some [js_simps]: "i < length xs \<Longrightarrow> js_idx xs i = Some (xs ! i)"
  by (simp add: js_idx_def)

text \<open>\<open>toLowerCase\<close> on an ASCII string.\<close>

definition lower_char :: "char \<Rightarrow> char" where
  "lower_char c = (if 65 \<le> (of_char c :: nat) \<and> (of_char c :: nat) \<le> 90
     then char_of ((of_char c :: nat) + 32) else c)"

definition toLowerCase :: "string \<Rightarrow> string" where
  "toLowerCase s = map lower_char s"

lemma lower_char_idem [simp]: "lower_char (lower_char c) = lower_char c"
  by (auto simp: lower_char_def of_char_of)

lemma toLowerCase_idem [simp]: "toLowerCase (toLowerCase s) = toLowerCase s"
  by (simp add: toLowerCase_def)

lemma length_toLowerCase [simp]: "length (toLowerCase s) = length s"
  by (simp add: toLowerCase_def)

text \<open>\<open>Buffer.from(s, 'hex')\<close>: pairs of digits up to the first pair that is not hexadecimal,
  a trailing single digit dropped.\<close>

definition hexval :: "char \<Rightarrow> nat option" where
  "hexval c = (let n = of_char c :: nat in
     if 48 \<le> n \<and> n \<le> 57 then Some (n - 48)
     else if 97 \<le> n \<and> n \<le> 102 then Some (n - 87)
     else if 65 \<le> n \<and> n \<le> 70 then Some (n - 55) else None)"

fun hex_decode :: "string \<Rightarrow> buf" where
  "hex_decode (a # b # r) = (case (hexval a, hexval b) of
       (Some x, Some y) \<Rightarrow> of_nat (16 * x + y) # hex_decode r
     | _ \<Rightarrow> [])"
| "hex_decode _ = []"

definition hexdigit :: "nat \<Rightarrow> char" where
  "hexdigit n = (if n < 10 then char_of (n + 48) else char_of (n + 87))"

definition hex_encode :: "buf \<Rightarrow> string" where
  "hex_encode bs = concat (map (\<lambda>b. [hexdigit (unat b div 16), hexdigit (unat b mod 16)]) bs)"

text \<open>The test \<open>/^[0-9a-f]{64}$/\<close>.\<close>

definition is_hex_lower :: "char \<Rightarrow> bool" where
  "is_hex_lower c = (let n = of_char c :: nat in (48 \<le> n \<and> n \<le> 57) \<or> (97 \<le> n \<and> n \<le> 102))"

definition hex64 :: "string \<Rightarrow> bool" where
  "hex64 s = (length s = 64 \<and> list_all is_hex_lower s)"

lemma hexval_hexdigit: "n < 16 \<Longrightarrow> hexval (hexdigit n) = Some n"
  by (auto simp: hexval_def hexdigit_def Let_def of_char_of)

lemma hex_decode_encode [simp]: "hex_decode (hex_encode bs) = bs"
proof (induction bs)
  case Nil
  then show ?case by (simp add: hex_encode_def)
next
  case (Cons b bs)
  have "unat b < 256" using unsigned_less [of b, where ?'a = nat] by simp
  then have "unat b div 16 < 16" by simp
  with Cons show ?case by (simp add: hex_encode_def hexval_hexdigit)
qed

lemma hex_encode_inj: "hex_encode a = hex_encode b \<longleftrightarrow> a = b"
  by (metis hex_decode_encode)

lemma length_hex_decode:
  "list_all is_hex_lower s \<Longrightarrow> length (hex_decode s) = length s div 2"
proof (induction s rule: hex_decode.induct)
  case (1 a b r)
  then show ?case by (auto simp: is_hex_lower_def hexval_def Let_def)
qed auto

subsection \<open>Sums over lists\<close>

lemma sum_list_nonneg_int: "(\<And>x. x \<in> set xs \<Longrightarrow> 0 \<le> f x) \<Longrightarrow> 0 \<le> (\<Sum>x\<leftarrow>xs. f x :: int)"
  by (rule sum_list_nonneg) auto

lemma foldl_sum_list [money_simps]: "foldl (\<lambda>s x. s + f x) (a::int) xs = a + (\<Sum>x\<leftarrow>xs. f x)"
  by (induction xs arbitrary: a) auto

lemma sum_list_member_le:
  "x \<in> set xs \<Longrightarrow> (\<And>y. y \<in> set xs \<Longrightarrow> 0 \<le> f y) \<Longrightarrow> (f x :: int) \<le> (\<Sum>y\<leftarrow>xs. f y)"
  by (induction xs) (auto intro: add_increasing add_increasing2 sum_list_nonneg_int)

lemma sum_list_sub_mset:
  assumes "mset xs \<subseteq># mset ys" and "\<And>y. y \<in> set ys \<Longrightarrow> 0 \<le> (f y :: int)"
  shows "(\<Sum>x\<leftarrow>xs. f x) \<le> (\<Sum>y\<leftarrow>ys. f y)"
proof -
  obtain M where M: "mset ys = mset xs + M"
    using assms(1) by (metis subset_mset.le_iff_add)
  obtain zs where zs: "M = mset zs"
    using ex_mset by metis
  have "mset ys = mset (xs @ zs)"
    using M zs by simp
  then have "(\<Sum>y\<leftarrow>ys. f y) = (\<Sum>y\<leftarrow>xs @ zs. f y)"
    by (metis mset_map sum_mset_sum_list)
  moreover have "0 \<le> (\<Sum>y\<leftarrow>zs. f y)"
  proof (rule sum_list_nonneg_int)
    fix z assume "z \<in> set zs"
    then have "z \<in># mset ys" using M zs by simp
    then show "0 \<le> f z" using assms(2) by simp
  qed
  ultimately show ?thesis by simp
qed

subsection \<open>Proportional shares\<close>

text \<open>Flooring every share of \<open>d\<close> loses less than one unit per share.\<close>

lemma floor_shares_le:
  assumes "\<And>x. x \<in> set xs \<Longrightarrow> 0 \<le> (w x :: int)" and "0 \<le> d" and "0 < t"
  shows "(\<Sum>x\<leftarrow>xs. (w x * d) div t) * t \<le> (\<Sum>x\<leftarrow>xs. w x) * d"
  using assms(1)
proof (induction xs)
  case Nil
  then show ?case by simp
next
  case (Cons x xs)
  have "(w x * d) div t * t \<le> w x * d"
    using assms(3) by (metis div_mult_mod_eq le_add_same_cancel1 pos_mod_sign)
  with Cons show ?case by (auto simp: distrib_right)
qed

lemma floor_share_gt: "0 < t \<Longrightarrow> (v::int) < v div t * t + t"
  using pos_mod_bound [of t v] div_mult_mod_eq [of v t] by linarith

lemma floor_shares_gt:
  assumes "xs \<noteq> []" and "0 < t"
  shows "(\<Sum>x\<leftarrow>xs. (w x :: int)) * d < (\<Sum>x\<leftarrow>xs. (w x * d) div t) * t + int (length xs) * t"
  using assms(1)
proof (induction xs rule: list_nonempty_induct)
  case (single x)
  then show ?case
    using floor_share_gt [OF assms(2), of "w x * d"] by simp
next
  case (cons x xs)
  then show ?case
    using floor_share_gt [OF assms(2), of "w x * d"] by (simp add: distrib_right)
qed

text \<open>The three splitters of the sources floor each share and give the remainder to the first
  entry (\<open>payouts[0].amount += dust\<close>).\<close>

fun add_to_first :: "int \<Rightarrow> leaf list \<Rightarrow> leaf list" where
  "add_to_first d [] = []"
| "add_to_first d ((p, a) # ls) = (p, a + d) # ls"

lemma leaf_sum_add_to_first [money_simps]:
  "ls \<noteq> [] \<Longrightarrow> leaf_sum (add_to_first d ls) = leaf_sum ls + d"
  by (cases ls) auto

lemma length_add_to_first [simp]: "length (add_to_first d ls) = length ls"
  by (cases ls) auto

lemma map_fst_add_to_first [simp]: "map fst (add_to_first d ls) = map fst ls"
  by (cases ls) auto

lemma add_to_first_eq_Nil [simp]: "add_to_first d ls = [] \<longleftrightarrow> ls = []"
  by (cases ls) auto

lemma add_to_first_ge:
  assumes "0 \<le> d" and "i < length ls"
  shows "snd (ls ! i) \<le> snd (add_to_first d ls ! i)"
  using assms by (cases ls; cases i) (auto split: prod.splits)

lemma add_to_first_nonneg:
  assumes "0 \<le> d" and nn: "\<And>l. l \<in> set ls \<Longrightarrow> 0 \<le> snd l" and l: "l \<in> set (add_to_first d ls)"
  shows "0 \<le> snd l"
proof (cases ls)
  case Nil
  with l show ?thesis by simp
next
  case (Cons a r)
  obtain p v where a: "a = (p, v)" by fastforce
  have "0 \<le> v" using nn [of a] Cons a by simp
  moreover have "l = (p, v + d) \<or> l \<in> set r" using l Cons a by simp
  ultimately show ?thesis using nn [of l] assms(1) Cons by auto
qed

subsection \<open>Sorting\<close>

text \<open>JavaScript's \<open>sort\<close> is stable, so it is \<open>sort_key\<close>; with distinct keys the result depends
  on the multiset only, which is what makes a canonical order canonical.\<close>

lemma sort_key_eq_Nil [simp]: "sort_key f xs = [] \<longleftrightarrow> xs = []"
  by (metis length_0_conv length_sort)

lemma filter_eq_single: "distinct zs \<Longrightarrow> k \<in> set zs \<Longrightarrow> filter (\<lambda>x. x = k) zs = [k]"
  by (induction zs) (auto simp: filter_empty_conv)

lemma sort_key_perm_eq:
  assumes "mset xs = mset ys" and "distinct (map f xs)"
  shows "sort_key f ys = sort_key f xs"
proof (rule properties_for_sort_key)
  show "mset (sort_key f xs) = mset ys"
    using assms(1) by simp
  show "sorted (map f (sort_key f xs))"
    by simp
  fix k assume "k \<in> set (sort_key f xs)"
  then have k: "k \<in> set xs" by simp
  have inj: "inj_on f (set xs)" using assms(2) by (simp add: distinct_map)
  have set_eq: "set xs = set ys" using assms(1) by (metis set_mset_mset)
  have dx: "distinct xs" using assms(2) by (simp add: distinct_map)
  then have dy: "distinct ys" using assms(1) mset_eq_imp_distinct_iff by blast
  have one: "filter (\<lambda>x. f k = f x) zs = [k]" if "set zs = set xs" "distinct zs" for zs
  proof -
    have "filter (\<lambda>x. f k = f x) zs = filter (\<lambda>x. x = k) zs"
      using that(1) inj k by (intro filter_cong) (auto dest: inj_onD)
    also have "filter (\<lambda>x. x = k) zs = [k]"
      using that k by (intro filter_eq_single) auto
    finally show ?thesis .
  qed
  show "filter (\<lambda>x. f k = f x) (sort_key f xs) = filter (\<lambda>x. f k = f x) ys"
    using one [of "sort_key f xs"] one [of ys] dx dy set_eq by simp
qed

subsection \<open>Mapping a function that may throw\<close>

fun mapE :: "('a \<Rightarrow> 'e + 'b) \<Rightarrow> 'a list \<Rightarrow> 'e + 'b list" where
  "mapE f [] = Inr []"
| "mapE f (x # xs) = (case f x of Inl e \<Rightarrow> Inl e
     | Inr y \<Rightarrow> (case mapE f xs of Inl e \<Rightarrow> Inl e | Inr ys \<Rightarrow> Inr (y # ys)))"

lemma mapE_Inr_iff: "mapE f xs = Inr ys \<longleftrightarrow> list_all2 (\<lambda>x y. f x = Inr y) xs ys"
proof (induction xs arbitrary: ys)
  case (Cons x xs)
  have "mapE f (x # xs) = Inr ys \<longleftrightarrow> (\<exists>z zs. f x = Inr z \<and> mapE f xs = Inr zs \<and> ys = z # zs)"
    by (auto split: sum.splits)
  then show ?case by (auto simp: Cons.IH list_all2_Cons1 simp del: mapE.simps)
qed auto

lemma mapE_Inr_nth: "mapE f xs = Inr ys \<Longrightarrow> i < length xs \<Longrightarrow> f (xs ! i) = Inr (ys ! i)"
  using list_all2_nthD [of "\<lambda>x y. f x = Inr y" xs ys i] by (simp add: mapE_Inr_iff)

lemma mapE_Inr_length: "mapE f xs = Inr ys \<Longrightarrow> length ys = length xs"
  by (simp add: mapE_Inr_iff list_all2_lengthD)

lemma mapE_Inr_set: "mapE f xs = Inr ys \<Longrightarrow> y \<in> set ys \<Longrightarrow> \<exists>x \<in> set xs. f x = Inr y"
  by (metis in_set_conv_nth mapE_Inr_length mapE_Inr_nth)

text \<open>The number of a byte list, the most and the least significant byte first.\<close>

definition le_val :: "buf \<Rightarrow> nat" where
  "le_val bs = foldr (\<lambda>b n. unat b + 256 * n) bs 0"

lemma le_val_simps [simp]: "le_val [] = 0" "le_val (b # bs) = unat b + 256 * le_val bs"
  by (simp_all add: le_val_def)

lemma le_val_append: "le_val (bs @ cs) = le_val bs + 256 ^ length bs * le_val cs"
  by (induction bs) (auto simp: algebra_simps)

lemma le_val_zeros [simp]: "le_val (replicate n 0) = 0"
  by (induction n) auto

lemma le_val_less: "le_val bs < 256 ^ length bs"
proof (induction bs)
  case (Cons b bs)
  have "unat b < 256" using unsigned_less [of b, where ?'a = nat] by simp
  then show ?case using Cons by simp
qed simp

definition be_val :: "buf \<Rightarrow> nat" where
  "be_val bs = le_val (rev bs)"

end
