(* ===== verification/Json.thy ===== *)
theory Json
  imports Prelude
begin

section \<open>JSON values and their canonical text\<close>

text \<open>
  The JSON values rules and predicates are made of, the JavaScript operators the sources apply to
  them (\<open>v[k]\<close>, truthiness, \<open>Object.keys\<close>, \<open>String(v)\<close>), and the two copies of the canonical
  serialiser: \<open>canonicalPredicate\<close> of \<open>pool-shard-settle.mjs\<close> and \<open>_canonicalJson\<close> of
  \<open>fee-split.mjs\<close>.  The lemmas show that the two agree and that the canonical text is unambiguous:
  two values with the same text have the same normal form (objects sorted by key).

  \<open>JInt\<close> is a number whose text is a decimal integer, \<open>JFrac t\<close> any other finite number, given by the
  text \<open>JSON.stringify\<close> prints for it.  An object is its list of members; its keys are distinct.
\<close>

datatype json = JNull | JBool bool | JInt int | JFrac string | JStr string
  | JArr "json list" | JObj "(string \<times> json) list"

subsection \<open>Operators\<close>

text \<open>\<open>v[k]\<close> for a member name \<open>k\<close>; \<open>None\<close> is \<open>undefined\<close>.\<close>

fun js_get :: "json \<Rightarrow> string \<Rightarrow> json option" where
  "js_get (JObj kvs) k = map_of kvs k"
| "js_get _ k = None"

text \<open>\<open>x != null\<close>.\<close>

definition js_present :: "json option \<Rightarrow> bool" where
  "js_present x = (x \<noteq> None \<and> x \<noteq> Some JNull)"

fun js_truthy :: "json option \<Rightarrow> bool" where
  "js_truthy None = False"
| "js_truthy (Some JNull) = False"
| "js_truthy (Some (JBool b)) = b"
| "js_truthy (Some (JInt i)) = (i \<noteq> 0)"
| "js_truthy (Some (JStr s)) = (s \<noteq> [])"
| "js_truthy (Some _) = True"

fun nat_str :: "nat \<Rightarrow> string" where
  "nat_str n = (if n < 10 then [char_of (n + 48)] else nat_str (n div 10) @ [char_of (n mod 10 + 48)])"

declare nat_str.simps [simp del]

definition int_str :: "int \<Rightarrow> string" where
  "int_str i = (if i < 0 then CHR ''-'' # nat_str (nat (- i)) else nat_str (nat i))"

text \<open>\<open>Object.keys\<close>: an array's keys are its indices.\<close>

fun js_keys :: "json \<Rightarrow> string list" where
  "js_keys (JObj kvs) = map fst kvs"
| "js_keys (JArr xs) = map nat_str [0..<length xs]"
| "js_keys _ = []"

fun js_join :: "string \<Rightarrow> string list \<Rightarrow> string" where
  "js_join sep [] = []"
| "js_join sep [x] = x"
| "js_join sep (x # y # r) = x @ sep @ js_join sep (y # r)"

text \<open>\<open>String(v)\<close>.\<close>

fun js_String :: "json \<Rightarrow> string" where
  "js_String JNull = ''null''"
| "js_String (JBool b) = (if b then ''true'' else ''false'')"
| "js_String (JInt i) = int_str i"
| "js_String (JFrac t) = t"
| "js_String (JStr s) = s"
| "js_String (JArr xs) = js_join '','' (map (\<lambda>x. if x = JNull then [] else js_String x) xs)"
| "js_String (JObj _) = ''[object Object]''"

subsection \<open>\<open>JSON.stringify\<close> of strings\<close>

definition js_esc :: "char \<Rightarrow> string" where
  "js_esc c = (let n = of_char c :: nat in
     if n = 34 then [CHR 0x5C, CHR 0x22]
     else if n = 92 then [CHR 0x5C, CHR 0x5C]
     else if n = 8 then [CHR 0x5C, CHR ''b'']
     else if n = 9 then [CHR 0x5C, CHR ''t'']
     else if n = 10 then [CHR 0x5C, CHR ''n'']
     else if n = 12 then [CHR 0x5C, CHR ''f'']
     else if n = 13 then [CHR 0x5C, CHR ''r'']
     else if n < 32 then [CHR 0x5C, CHR ''u'', CHR ''0'', CHR ''0'', hexdigit (n div 16), hexdigit (n mod 16)]
     else [c])"

definition js_quote :: "string \<Rightarrow> string" where
  "js_quote s = CHR 0x22 # concat (map js_esc s) @ [CHR 0x22]"

subsection \<open>The canonical serialisers\<close>

fun canonicalPredicate :: "json \<Rightarrow> string" where
  "canonicalPredicate JNull = ''null''"
| "canonicalPredicate (JBool b) = (if b then ''true'' else ''false'')"
| "canonicalPredicate (JInt i) = int_str i"
| "canonicalPredicate (JFrac t) = t"
| "canonicalPredicate (JStr s) = js_quote s"
| "canonicalPredicate (JArr xs) = ''['' @ js_join '','' (map canonicalPredicate xs) @ '']''"
| "canonicalPredicate (JObj kvs) = ''{'' @ js_join '',''
     (map (\<lambda>(k, t). js_quote k @ '':'' @ t)
       (sort_key fst (map (map_prod id canonicalPredicate) kvs))) @ ''}''"

fun canonicalJson :: "json \<Rightarrow> string" where
  "canonicalJson (JArr xs) = ''['' @ js_join '','' (map canonicalJson xs) @ '']''"
| "canonicalJson (JObj kvs) = ''{'' @ js_join '',''
     (map (\<lambda>(k, t). js_quote k @ '':'' @ t)
       (sort_key fst (map (map_prod id canonicalJson) kvs))) @ ''}''"
| "canonicalJson JNull = ''null''"
| "canonicalJson (JBool b) = (if b then ''true'' else ''false'')"
| "canonicalJson (JInt i) = int_str i"
| "canonicalJson (JFrac t) = t"
| "canonicalJson (JStr s) = js_quote s"

lemma canonicalJson_eq: "canonicalJson v = canonicalPredicate v"
proof (induction v)
  case (JArr xs)
  then have eq: "map canonicalJson xs = map canonicalPredicate xs" by simp
  show ?case by (simp only: canonicalJson.simps canonicalPredicate.simps eq)
next
  case (JObj kvs)
  then have eq: "map (map_prod id canonicalJson) kvs = map (map_prod id canonicalPredicate) kvs"
    by (auto simp: prod_set_simps)
  show ?case by (simp only: canonicalJson.simps canonicalPredicate.simps eq)
qed simp_all

subsection \<open>Numbers and strings can be read back\<close>

definition digit_char :: "char \<Rightarrow> bool" where
  "digit_char c = (let n = of_char c :: nat in 48 \<le> n \<and> n \<le> 57)"

definition num_char :: "char \<Rightarrow> bool" where
  "num_char c = (digit_char c \<or> c \<in> set ''+-.eE'')"

lemma digit_num_char: "digit_char c \<Longrightarrow> num_char c"
  by (simp add: num_char_def)

lemma nat_str_nonempty [simp]: "nat_str n \<noteq> []"
  by (subst nat_str.simps) simp

lemma nat_str_digits: "c \<in> set (nat_str n) \<Longrightarrow> digit_char c"
proof (induction n arbitrary: c rule: nat_str.induct)
  case (1 n)
  have "digit_char (char_of (n mod 10 + 48))"
    using mod_less_divisor [of 10 n] by (auto simp: digit_char_def of_char_of)
  with 1 show ?case by (subst (asm) (2) nat_str.simps) (auto split: if_splits)
qed

fun str_val :: "nat \<Rightarrow> string \<Rightarrow> nat" where
  "str_val a [] = a"
| "str_val a (c # s) = str_val (10 * a + (of_char c - 48)) s"

lemma str_val_append: "str_val a (s @ t) = str_val (str_val a s) t"
  by (induction s arbitrary: a) auto

lemma str_val_nat_str: "str_val 0 (nat_str n) = n"
proof (induction n rule: nat_str.induct)
  case (1 n)
  have "(n mod 10 + 48) mod 256 = n mod 10 + 48" by simp
  with 1 show ?case by (subst nat_str.simps) (auto simp: str_val_append of_char_of)
qed

lemma nat_str_inj: "nat_str m = nat_str n \<Longrightarrow> m = n"
  by (metis str_val_nat_str)

lemma minus_not_digit: "\<not> digit_char (CHR ''-'')"
  by (simp add: digit_char_def of_char_def)

lemma nat_str_not_minus: "nat_str n \<noteq> CHR ''-'' # s"
  using nat_str_digits [of "CHR ''-''" n] minus_not_digit by (metis list.set_intros(1))

lemma int_str_inj: "int_str i = int_str j \<Longrightarrow> i = j"
  by (auto simp: int_str_def nat_str_not_minus nat_str_not_minus [symmetric] dest: nat_str_inj
      split: if_splits)

lemma int_str_chars: "c \<in> set (int_str i) \<Longrightarrow> digit_char c \<or> c = CHR ''-''"
  by (auto simp: int_str_def dest: nat_str_digits split: if_splits)

text \<open>Reading one escaped character back.\<close>

definition js_unesc :: "string \<Rightarrow> char \<times> string" where
  "js_unesc s = (case s of c # r \<Rightarrow>
     if c \<noteq> CHR 0x5C then (c, r)
     else (let d = hd r; q = tl r in
       if d = CHR ''b'' then (CHR 0x08, q) else if d = CHR ''t'' then (CHR 0x09, q)
       else if d = CHR ''n'' then (CHR 0x0A, q) else if d = CHR ''f'' then (CHR 0x0C, q)
       else if d = CHR ''r'' then (CHR 0x0D, q)
       else if d = CHR ''u'' then
         (char_of (16 * the (hexval (q ! 2)) + the (hexval (q ! 3))), drop 4 q)
       else (d, q)))"

lemma js_unesc_esc: "js_unesc (js_esc c @ x) = (c, x)"
proof -
  define n :: nat where "n = of_char c"
  have c: "c = char_of n" by (simp add: n_def)
  have esc: "js_esc c = (if n = 34 then [CHR 0x5C, CHR 0x22]
     else if n = 92 then [CHR 0x5C, CHR 0x5C]
     else if n = 8 then [CHR 0x5C, CHR ''b'']
     else if n = 9 then [CHR 0x5C, CHR ''t'']
     else if n = 10 then [CHR 0x5C, CHR ''n'']
     else if n = 12 then [CHR 0x5C, CHR ''f'']
     else if n = 13 then [CHR 0x5C, CHR ''r'']
     else if n < 32 then [CHR 0x5C, CHR ''u'', CHR ''0'', CHR ''0'', hexdigit (n div 16), hexdigit (n mod 16)]
     else [c])" by (simp add: js_esc_def n_def Let_def)
  have plain: "c \<noteq> CHR 0x5C" if "n \<noteq> 92" using that n_def by auto
  have eqs: "char_of (34::nat) = CHR 0x22" "char_of (92::nat) = CHR 0x5C" "char_of (8::nat) = CHR 0x08"
    "char_of (9::nat) = CHR 0x09" "char_of (10::nat) = CHR 0x0A" "char_of (12::nat) = CHR 0x0C"
    "char_of (13::nat) = CHR 0x0D" by (simp_all add: char_of_def bit_0)
  consider "n \<in> {34, 92, 8, 9, 10, 12, 13}" | "n \<notin> {34, 92, 8, 9, 10, 12, 13}" "n < 32"
    | "n \<notin> {34, 92, 8, 9, 10, 12, 13}" "\<not> n < 32" by blast
  then show ?thesis
  proof cases
    case 1
    then show ?thesis using eqs c unfolding esc by (auto simp: js_unesc_def Let_def)
  next
    case 2
    then have "n div 16 < 16" by simp
    with 2 have "js_unesc (js_esc c @ x) = (char_of n, x)"
      unfolding esc by (simp add: js_unesc_def Let_def hexval_hexdigit numeral_3_eq_3 numeral_2_eq_2)
    then show ?thesis using c by simp
  next
    case 3
    then show ?thesis using plain by (simp add: esc js_unesc_def Let_def)
  qed
qed

lemma js_esc_prefix: "js_esc c @ x = js_esc d @ y \<Longrightarrow> c = d \<and> x = y"
  by (metis js_unesc_esc prod.inject)

lemma js_esc_hd: "js_esc c \<noteq> [] \<and> hd (js_esc c) \<noteq> CHR 0x22"
  by (auto simp: js_esc_def Let_def)

lemma js_quote_prefix: "js_quote s @ x = js_quote t @ y \<Longrightarrow> s = t \<and> x = y"
proof -
  have "concat (map js_esc s) @ CHR 0x22 # x = concat (map js_esc t) @ CHR 0x22 # y \<Longrightarrow> s = t \<and> x = y"
  proof (induction s arbitrary: t)
    case Nil
    show ?case
    proof (cases t)
      case Nil
      with \<open>concat (map js_esc []) @ CHR 0x22 # x = _\<close> show ?thesis by simp
    next
      case (Cons d t')
      with Nil.prems show ?thesis using js_esc_hd [of d] by (cases "js_esc d") auto
    qed
  next
    case (Cons c s)
    show ?case
    proof (cases t)
      case Nil
      with Cons.prems show ?thesis using js_esc_hd [of c] by (cases "js_esc c") auto
    next
      case (Cons d t')
      with Cons.prems have "js_esc c @ (concat (map js_esc s) @ CHR 0x22 # x)
          = js_esc d @ (concat (map js_esc t') @ CHR 0x22 # y)" by simp
      then show ?thesis using Cons.IH [of t'] Cons by (auto dest: js_esc_prefix)
    qed
  qed
  moreover assume "js_quote s @ x = js_quote t @ y"
  ultimately show ?thesis by (simp add: js_quote_def)
qed

subsection \<open>The canonical text is unambiguous\<close>

text \<open>\<open>json_norm\<close> sorts the members of every object by key, \<open>json_text\<close> prints a value as it stands;
  the canonical text prints the normal form.\<close>

fun json_norm :: "json \<Rightarrow> json" where
  "json_norm (JArr xs) = JArr (map json_norm xs)"
| "json_norm (JObj kvs) = JObj (sort_key fst (map (map_prod id json_norm) kvs))"
| "json_norm v = v"

fun json_text :: "json \<Rightarrow> string" where
  "json_text JNull = ''null''"
| "json_text (JBool b) = (if b then ''true'' else ''false'')"
| "json_text (JInt i) = int_str i"
| "json_text (JFrac t) = t"
| "json_text (JStr s) = js_quote s"
| "json_text (JArr xs) = ''['' @ js_join '','' (map json_text xs) @ '']''"
| "json_text (JObj kvs) = ''{'' @ js_join '','' (map (\<lambda>(k, v). js_quote k @ '':'' @ json_text v) kvs) @ ''}''"

text \<open>The text of a \<open>JFrac\<close> is a number and not a decimal integer.\<close>

fun json_wf :: "json \<Rightarrow> bool" where
  "json_wf (JFrac t) = (list_all num_char t \<and> (CHR ''.'' \<in> set t \<or> CHR ''e'' \<in> set t))"
| "json_wf (JArr xs) = list_all json_wf xs"
| "json_wf (JObj kvs) = list_all (\<lambda>(k, v). json_wf v) kvs"
| "json_wf _ = True"

lemma insort_key_map_prod:
  "insort_key fst (map_prod id f x) (map (map_prod id f) ys) = map (map_prod id f) (insort_key fst x ys)"
  by (induction ys) auto

lemma sort_key_map_prod:
  "sort_key fst (map (map_prod id f) xs) = map (map_prod id f) (sort_key fst xs)"
  by (induction xs) (simp_all add: sort_key_def insort_key_map_prod [unfolded id_def])

lemma canonicalPredicate_norm: "canonicalPredicate v = json_text (json_norm v)"
proof (induction v)
  case (JArr xs)
  then have eq: "map canonicalPredicate xs = map json_text (map json_norm xs)" by simp
  show ?case by (simp only: canonicalPredicate.simps json_norm.simps json_text.simps eq)
next
  case (JObj kvs)
  then have "map (map_prod id canonicalPredicate) kvs
      = map (map_prod id json_text) (map (map_prod id json_norm) kvs)"
    by (auto simp: prod_set_simps)
  then have eq: "sort_key fst (map (map_prod id canonicalPredicate) kvs)
      = map (map_prod id json_text) (sort_key fst (map (map_prod id json_norm) kvs))"
    by (simp only: sort_key_map_prod)
  have "(\<lambda>(k, t). js_quote k @ '':'' @ t) \<circ> map_prod id json_text
      = (\<lambda>(k, v). js_quote k @ '':'' @ json_text v)" by auto
  then show ?case by (simp only: canonicalPredicate.simps json_norm.simps json_text.simps eq map_map)
qed simp_all

lemma js_join_Cons: "js_join sep (x # xs) = x @ concat (map (\<lambda>y. sep @ y) xs)"
  by (induction xs arbitrary: x) auto

lemma nat_str_Cons: "\<exists>c s. nat_str n = c # s \<and> digit_char c"
  by (metis list.set_intros(1) nat_str_digits nat_str_nonempty neq_Nil_conv)

definition stops :: "string \<Rightarrow> bool" where
  "stops r = (r = [] \<or> \<not> num_char (hd r))"

lemma num_text_split:
  assumes "list_all num_char s" "list_all num_char t" "stops x" "stops y" "s @ x = t @ y"
  shows "s = t \<and> x = y"
proof -
  have tw: "takeWhile num_char (u @ z) = u" if "list_all num_char u" "stops z" for u z
    using that by (auto simp: takeWhile_append stops_def list_all_iff) (cases z; simp)
  show ?thesis using tw [of s x] tw [of t y] assms by simp
qed

lemma int_str_num: "list_all num_char (int_str i)"
  using int_str_chars by (auto simp: list_all_iff num_char_def)

lemma int_str_not_frac [simp]: "CHR ''.'' \<notin> set (int_str i)" "CHR ''e'' \<notin> set (int_str i)"
  using int_str_chars [of "CHR ''.''" i] int_str_chars [of "CHR ''e''" i]
  by (auto simp: digit_char_def of_char_def Let_def)

text \<open>The first character of a text tells the constructor.\<close>

fun json_kind :: "json \<Rightarrow> nat" where
  "json_kind JNull = 0"
| "json_kind (JBool b) = (if b then 1 else 2)"
| "json_kind (JInt _) = 3"
| "json_kind (JFrac _) = 3"
| "json_kind (JStr _) = 4"
| "json_kind (JArr _) = 5"
| "json_kind (JObj _) = 6"

definition char_kind :: "char \<Rightarrow> nat" where
  "char_kind c = (if num_char c then 3 else if c = CHR ''n'' then 0 else if c = CHR ''t'' then 1
     else if c = CHR ''f'' then 2 else if c = CHR 0x22 then 4 else if c = CHR ''['' then 5
     else if c = CHR ''{'' then 6 else 7)"

lemma char_kind_simps [simp]:
  "char_kind (CHR ''n'') = 0" "char_kind (CHR ''t'') = 1" "char_kind (CHR ''f'') = 2"
  "char_kind (CHR 0x22) = 4" "char_kind (CHR ''['') = 5" "char_kind (CHR ''{'') = 6"
  "char_kind (CHR '']'') = 7" "char_kind (CHR ''}'') = 7"
  by (simp_all add: char_kind_def num_char_def digit_char_def of_char_def)

lemma num_text_kind: "list_all num_char t \<Longrightarrow> t \<noteq> [] \<Longrightarrow> char_kind (hd t) = 3"
  by (cases t) (auto simp: char_kind_def)

lemma json_text_kind: "json_wf v \<Longrightarrow> json_text v \<noteq> [] \<and> char_kind (hd (json_text v)) = json_kind v"
proof (cases v)
  case (JInt i)
  then show ?thesis using num_text_kind [OF int_str_num [of i]] by (auto simp: int_str_def)
next
  case (JFrac t)
  moreover assume "json_wf v"
  ultimately show ?thesis using num_text_kind [of t] by (cases t) auto
qed (auto simp: js_quote_def)

lemma json_kind_le: "json_kind v < 7"
  by (cases v) auto

lemma json_text_hd: "json_wf v \<Longrightarrow> json_text v \<noteq> [] \<and> hd (json_text v) \<noteq> CHR '']''"
  using json_text_kind [of v] json_kind_le [of v] by (metis char_kind_simps(7) less_irrefl)

lemma json_text_same_kind:
  "json_wf v \<Longrightarrow> json_wf w \<Longrightarrow> json_text v @ r = json_text w @ r' \<Longrightarrow> json_kind v = json_kind w"
  using json_text_kind [of v] json_text_kind [of w] by (metis hd_append2)

lemma json_list_text_prefix:
  assumes IH: "\<And>x y r r'. x \<in> set xs \<Longrightarrow> P y \<Longrightarrow> stops r \<Longrightarrow> stops r' \<Longrightarrow> f x @ r = f y @ r' \<Longrightarrow> x = y \<and> r = r'"
    and ne: "\<And>x. P x \<Longrightarrow> f x \<noteq> [] \<and> hd (f x) \<noteq> e"
    and P: "list_all P xs" "list_all P ys"
    and e: "\<not> num_char e" "e \<noteq> CHR '',''"
    and eq: "js_join '','' (map f xs) @ e # r = js_join '','' (map f ys) @ e # r'"
  shows "xs = ys \<and> r = r'"
proof -
  have comma: "\<not> num_char (CHR '','')" by (simp add: num_char_def digit_char_def of_char_def)
  have stp: "stops (concat (map (\<lambda>y. '','' @ f y) zs) @ e # q)" for zs q
    using e comma by (cases zs) (auto simp: stops_def)
  have tl: "zs = ws \<and> r = r'"
    if "concat (map (\<lambda>y. '','' @ f y) zs) @ e # r = concat (map (\<lambda>y. '','' @ f y) ws) @ e # r'"
      "set zs \<subseteq> set xs" "list_all P ws" for zs ws
    using that
  proof (induction zs arbitrary: ws)
    case Nil
    then show ?case using e by (cases ws) auto
  next
    case (Cons z zs)
    show ?case
    proof (cases ws)
      case Nil
      with Cons.prems e show ?thesis by auto
    next
      case (Cons w ws')
      have "f z @ (concat (map (\<lambda>y. '','' @ f y) zs) @ e # r) = f w @ (concat (map (\<lambda>y. '','' @ f y) ws') @ e # r')"
        using Cons.prems(1) Cons by simp
      then have "z = w \<and> concat (map (\<lambda>y. '','' @ f y) zs) @ e # r = concat (map (\<lambda>y. '','' @ f y) ws') @ e # r'"
        using Cons.prems Cons stp by (intro IH) auto
      then show ?thesis using Cons.IH [of ws'] Cons.prems Cons by simp
    qed
  qed
  show ?thesis
  proof (cases xs)
    case Nil
    with eq ne P show ?thesis
      by (cases ys) (auto simp: js_join_Cons, metis append_is_Nil_conv hd_append2 list.sel(1))
  next
    case (Cons x xs')
    then obtain y ys' where ys: "ys = y # ys'"
      using eq ne P by (cases ys) (auto simp: js_join_Cons, metis append_is_Nil_conv hd_append2 list.sel(1))
    have "f x @ (concat (map (\<lambda>y. '','' @ f y) xs') @ e # r) = f y @ (concat (map (\<lambda>y. '','' @ f y) ys') @ e # r')"
      using eq Cons ys by (simp add: js_join_Cons comp_def)
    then have "x = y \<and> concat (map (\<lambda>y. '','' @ f y) xs') @ e # r = concat (map (\<lambda>y. '','' @ f y) ys') @ e # r'"
      using Cons ys stp P by (intro IH) auto
    then show ?thesis using tl [of xs' ys'] Cons ys P by auto
  qed
qed

lemma json_number_text:
  assumes "json_kind v = 3" "json_wf v"
  shows "list_all num_char (json_text v)"
  using assms by (cases v) (auto simp: int_str_num split: if_splits)

lemma json_number_inj:
  assumes "json_kind v = 3" "json_kind w = 3" "json_wf v" "json_wf w" "json_text v = json_text w"
  shows "v = w"
  using assms
  by (cases v; cases w)
    (auto dest: int_str_inj split: if_splits)

definition member_text :: "string \<times> json \<Rightarrow> string" where
  "member_text = (\<lambda>(k, v). js_quote k @ '':'' @ json_text v)"

lemma json_text_prefix:
  "json_wf v \<Longrightarrow> json_wf w \<Longrightarrow> stops r \<Longrightarrow> stops r' \<Longrightarrow> json_text v @ r = json_text w @ r'
    \<Longrightarrow> v = w \<and> r = r'"
proof (induction v arbitrary: w r r')
  case (JStr s)
  then obtain t where "w = JStr t"
    using json_text_same_kind [OF JStr.prems(1,2,5)] by (cases w) (auto split: if_splits)
  with JStr.prems(5) show ?case by (auto dest: js_quote_prefix)
next
  case (JArr xs)
  then obtain ys where w: "w = JArr ys"
    using json_text_same_kind [OF JArr.prems(1,2,5)] by (cases w) (auto split: if_splits)
  have "xs = ys \<and> r = r'"
  proof (rule json_list_text_prefix [where P = json_wf and f = json_text and e = "CHR '']''"])
    show "\<And>x y q q'. x \<in> set xs \<Longrightarrow> json_wf y \<Longrightarrow> stops q \<Longrightarrow> stops q' \<Longrightarrow>
        json_text x @ q = json_text y @ q' \<Longrightarrow> x = y \<and> q = q'"
      using JArr.IH JArr.prems(1) by (simp add: list_all_iff)
    show "\<not> num_char (CHR '']'')" by (simp add: num_char_def digit_char_def of_char_def)
  qed (use JArr.prems w json_text_hd in auto)
  with w show ?case by simp
next
  case (JObj kvs)
  then obtain mvs where w: "w = JObj mvs"
    using json_text_same_kind [OF JObj.prems(1,2,5)] by (cases w) (auto split: if_splits)
  have "kvs = mvs \<and> r = r'"
  proof (rule json_list_text_prefix [where P = "\<lambda>(k, v). json_wf v" and f = member_text and e = "CHR ''}''"])
    fix x y q q'
    assume x: "x \<in> set kvs" and y: "(\<lambda>(k, v). json_wf v) y" and q: "stops q" "stops q'"
      and eq: "member_text x @ q = member_text y @ q'"
    obtain k v l u where xy: "x = (k, v)" "y = (l, u)" by fastforce
    have "js_quote k @ ('':'' @ json_text v @ q) = js_quote l @ ('':'' @ json_text u @ q')"
      using eq xy by (simp add: member_text_def)
    then have "k = l \<and> '':'' @ json_text v @ q = '':'' @ json_text u @ q'"
      by (rule js_quote_prefix)
    moreover have "json_wf v" using x xy JObj.prems(1) by (auto simp: list_all_iff)
    ultimately show "x = y \<and> q = q'"
      using JObj.IH [of x v u q q'] x y q xy by auto
  next
    show "\<not> num_char (CHR ''}'')" by (simp add: num_char_def digit_char_def of_char_def)
    show "\<And>x. (\<lambda>(k, v). json_wf v) x \<Longrightarrow> member_text x \<noteq> [] \<and> hd (member_text x) \<noteq> CHR ''}''"
      by (auto simp: member_text_def js_quote_def)
  qed (use JObj.prems w in \<open>auto simp: member_text_def\<close>)
  with w show ?case by simp
next
  case (JInt i)
  then show ?case
    using json_text_same_kind [OF JInt.prems(1,2,5)] num_text_split json_number_text json_number_inj
    by (metis json_kind.simps(3))
next
  case (JFrac t)
  then show ?case
    using json_text_same_kind [OF JFrac.prems(1,2,5)] num_text_split json_number_text json_number_inj
    by (metis json_kind.simps(4))
next
  case JNull
  then show ?case
    using json_text_same_kind [OF JNull.prems(1,2,5)] by (cases w) (auto split: if_splits)
next
  case (JBool b)
  then show ?case
    using json_text_same_kind [OF JBool.prems(1,2,5)] by (cases w) (auto split: if_splits)
qed

lemma json_wf_norm: "json_wf v \<Longrightarrow> json_wf (json_norm v)"
proof (induction v)
  case (JObj kvs)
  then show ?case by (auto simp: list_all_iff)
qed (auto simp: list_all_iff)

lemma canonicalPredicate_inj:
  assumes "json_wf v" "json_wf w" "canonicalPredicate v = canonicalPredicate w"
  shows "json_norm v = json_norm w"
proof -
  have "stops []" by (simp add: stops_def)
  then show ?thesis
    using json_text_prefix [OF json_wf_norm [OF assms(1)] json_wf_norm [OF assms(2)], of "[]" "[]"] assms(3)
    by (simp add: canonicalPredicate_norm)
qed

text \<open>Reordering the members of an object does not change its canonical text.\<close>

lemma canonicalPredicate_perm:
  assumes "mset kvs = mset mvs" "distinct (map fst kvs)"
  shows "canonicalPredicate (JObj kvs) = canonicalPredicate (JObj mvs)"
proof -
  let ?g = "map (map_prod id canonicalPredicate)"
  have "mset (?g kvs) = mset (?g mvs)" by (simp only: mset_map assms(1))
  moreover have "distinct (map fst (?g kvs))" using assms(2) by (simp add: comp_def)
  ultimately have "sort_key fst (?g mvs) = sort_key fst (?g kvs)"
    by (rule sort_key_perm_eq)
  then show ?thesis by simp
qed

end
