(* ===== verification/Fee_Rules.thy ===== *)
theory Fee_Rules
  imports Json
begin

section \<open>Fee rules: validation, canonical text, commitment\<close>

text \<open>
  \<open>kasia-console/src/lib/fee-split.mjs\<close>, the part about the rules themselves: the schema check every
  entry point runs, the canonical serialisation that is committed on chain, and the interim preset.
  The hash \<open>blake2b\<close> (package \<open>@noble/hashes\<close>) is the parameter \<open>H\<close>.
\<close>

definition FEE_RULES_SCHEMA_V :: int where "FEE_RULES_SCHEMA_V = 1"
definition SUPPORTED_SCHEMA_VERSIONS :: "int list" where "SUPPORTED_SCHEMA_VERSIONS = [1]"
definition PROVIDER_MIN_BPS :: int where "PROVIDER_MIN_BPS = 5000"
definition ROLE_MAX_BPS :: int where "ROLE_MAX_BPS = 5000"

definition TOP_KEYS :: "string list" where "TOP_KEYS = [''schema_v'', ''preset'', ''roles'']"
definition ROLE_KEYS :: "string list" where
  "ROLE_KEYS = [''name'', ''bps'', ''address'', ''derive'', ''optional'']"

datatype fee_error = RulesNotObject | UnknownTopKey string | SchemaVersionNotInt
  | SchemaVersionUnsupported int | RolesNotArray | RoleNotObject | UnknownRoleKey string
  | RoleNameMissing | RoleNameDuplicate string | RoleBpsInvalid string | ProviderHasPayee
  | ProviderBpsTooLow int | RoleBpsTooHigh string int | RoleDeriveUnsupported string
  | RoleDeriveWithAddress string | RoleAddressInvalid string | RoleAddressMissing string
  | ProviderCount nat | BpsSum int | PoolNotPositive int | BrokerPkMissing

text \<open>A role as the rest of the component reads it (\<open>r.name\<close>, \<open>r.bps\<close>, \<open>String(r.address).toLowerCase()\<close>,
  \<open>r.derive === 'committee'\<close>, \<open>r.optional\<close>).\<close>

record fee_role =
  role_name :: string
  role_bps :: int
  role_address :: "hexstr option"
  role_committee :: bool
  role_optional :: bool

text \<open>The loop body of \<open>validateFeeRules\<close>: the checks on one role, given the names seen so far.\<close>

definition role_str :: "json \<Rightarrow> string \<Rightarrow> string" where
  "role_str r k = (case js_get r k of Some (JStr s) \<Rightarrow> s | _ \<Rightarrow> [])"

definition role_int :: "json \<Rightarrow> string \<Rightarrow> int" where
  "role_int r k = (case js_get r k of Some (JInt i) \<Rightarrow> i | _ \<Rightarrow> 0)"

definition is_js_object :: "json \<Rightarrow> bool" where
  "is_js_object r = (case r of JObj _ \<Rightarrow> True | JArr _ \<Rightarrow> True | _ \<Rightarrow> False)"

definition check_payee :: "json \<Rightarrow> fee_error option" where
  "check_payee r = (let name = role_str r ''name''; bps = role_int r ''bps'';
       address = js_get r ''address''; derive = js_get r ''derive'' in
     if name = ''provider'' then
       (if js_present address \<or> js_present derive then Some ProviderHasPayee
        else if bps < PROVIDER_MIN_BPS then Some (ProviderBpsTooLow bps) else None)
     else if bps > ROLE_MAX_BPS then Some (RoleBpsTooHigh name bps)
     else if js_present derive then
       (if derive \<noteq> Some (JStr ''committee'') then Some (RoleDeriveUnsupported name)
        else if js_present address then Some (RoleDeriveWithAddress name) else None)
     else if js_present address then
       (case address of Some (JStr a) \<Rightarrow> (if hex64 (toLowerCase a) then None else Some (RoleAddressInvalid name))
        | _ \<Rightarrow> Some (RoleAddressInvalid name))
     else if \<not> js_truthy (js_get r ''optional'') then Some (RoleAddressMissing name) else None)"

definition check_role :: "string list \<Rightarrow> json \<Rightarrow> fee_error option" where
  "check_role names r =
    (if \<not> is_js_object r then Some RoleNotObject
     else case filter (\<lambda>k. k \<notin> set ROLE_KEYS) (js_keys r) of
       k # _ \<Rightarrow> Some (UnknownRoleKey k)
     | [] \<Rightarrow>
       (if role_str r ''name'' = [] then Some RoleNameMissing
        else if role_str r ''name'' \<in> set names then Some (RoleNameDuplicate (role_str r ''name''))
        else case js_get r ''bps'' of
          Some (JInt b) \<Rightarrow> (if b < 0 then Some (RoleBpsInvalid (role_str r ''name'')) else check_payee r)
        | _ \<Rightarrow> Some (RoleBpsInvalid (role_str r ''name''))))"

fun check_roles :: "string list \<Rightarrow> json list \<Rightarrow> fee_error option" where
  "check_roles names [] = None"
| "check_roles names (r # rs) = (case check_role names r of
     Some e \<Rightarrow> Some e | None \<Rightarrow> check_roles (role_str r ''name'' # names) rs)"

definition rules_roles :: "json \<Rightarrow> json list" where
  "rules_roles fr = (case js_get fr ''roles'' of Some (JArr rs) \<Rightarrow> rs | _ \<Rightarrow> [])"

definition validateFeeRules :: "json \<Rightarrow> fee_error option" where
  "validateFeeRules fr = (case fr of
     JObj kvs \<Rightarrow>
       (case filter (\<lambda>k. k \<notin> set TOP_KEYS) (js_keys fr) of
          k # _ \<Rightarrow> Some (UnknownTopKey k)
        | [] \<Rightarrow>
          (case js_get fr ''schema_v'' of
             Some (JInt v) \<Rightarrow>
               (if v \<notin> set SUPPORTED_SCHEMA_VERSIONS then Some (SchemaVersionUnsupported v)
                else if rules_roles fr = [] then Some RolesNotArray
                else case check_roles [] (rules_roles fr) of
                  Some e \<Rightarrow> Some e
                | None \<Rightarrow>
                  (let providers = length (filter (\<lambda>r. role_str r ''name'' = ''provider'') (rules_roles fr));
                       sumBps = (\<Sum>r\<leftarrow>rules_roles fr. role_int r ''bps'') in
                   if providers \<noteq> 1 then Some (ProviderCount providers)
                   else if sumBps \<noteq> 10000 then Some (BpsSum sumBps) else None))
           | _ \<Rightarrow> Some SchemaVersionNotInt))
   | _ \<Rightarrow> Some RulesNotObject)"

text \<open>Reading a validated role.\<close>

definition read_role :: "json \<Rightarrow> fee_role" where
  "read_role r = \<lparr> role_name = role_str r ''name'', role_bps = role_int r ''bps'',
     role_address = (if js_present (js_get r ''address'')
        then Some (toLowerCase (role_str r ''address'')) else None),
     role_committee = (js_get r ''derive'' = Some (JStr ''committee'')),
     role_optional = js_truthy (js_get r ''optional'') \<rparr>"

definition read_roles :: "json \<Rightarrow> fee_role list" where
  "read_roles fr = map read_role (rules_roles fr)"

text \<open>\<open>canonicalizeFeeRules\<close>: roles by name, absent members stripped, addresses in lower case.\<close>

definition canonical_role :: "json \<Rightarrow> json" where
  "canonical_role r = JObj ([(''name'', JStr (role_str r ''name'')), (''bps'', JInt (role_int r ''bps''))]
     @ (if js_present (js_get r ''address'') then [(''address'', JStr (toLowerCase (role_str r ''address'')))] else [])
     @ (if js_present (js_get r ''derive'') then [(''derive'', the (js_get r ''derive''))] else [])
     @ (if js_truthy (js_get r ''optional'') then [(''optional'', JBool True)] else []))"

definition canonical_rules :: "json \<Rightarrow> json" where
  "canonical_rules fr = JObj ([(''schema_v'', the (js_get fr ''schema_v'')),
      (''roles'', JArr (sort_key (\<lambda>c. role_str c ''name'') (map canonical_role (rules_roles fr))))]
     @ (if js_present (js_get fr ''preset'') then [(''preset'', JStr (js_String (the (js_get fr ''preset''))))] else []))"

definition canonicalizeFeeRules :: "json \<Rightarrow> fee_error + string" where
  "canonicalizeFeeRules fr = (case validateFeeRules fr of Some e \<Rightarrow> Inl e
     | None \<Rightarrow> Inr (canonicalJson (canonical_rules fr)))"

definition str_bytes :: "string \<Rightarrow> buf" where
  "str_bytes s = map (\<lambda>c. of_nat (of_char c)) s"

definition computeFeeRulesCommit :: "(buf \<Rightarrow> buf) \<Rightarrow> json \<Rightarrow> fee_error + hexstr" where
  "computeFeeRulesCommit H fr = map_sum id (\<lambda>s. hex_encode (H (str_bytes s))) (canonicalizeFeeRules fr)"

text \<open>\<open>buildPredictionV1InterimRules\<close>: the rules it returns have passed \<open>validateFeeRules\<close>.  A missing
  argument is \<open>None\<close>; the empty string is falsy as well.\<close>

definition interim_rules :: "string \<Rightarrow> string option \<Rightarrow> json" where
  "interim_rules brokerPk introducerPk = (let hasIntro = (introducerPk \<noteq> None \<and> introducerPk \<noteq> Some []) in
     JObj [(''schema_v'', JInt FEE_RULES_SCHEMA_V), (''preset'', JStr ''prediction-v1-interim''),
       (''roles'', JArr ([JObj [(''name'', JStr ''provider''), (''bps'', JInt (if hasIntro then 9820 else 9840))],
          JObj [(''name'', JStr ''broker''), (''bps'', JInt 160), (''address'', JStr (toLowerCase brokerPk))]]
        @ (if hasIntro then [JObj [(''name'', JStr ''introducer''), (''bps'', JInt 20),
              (''optional'', JBool True), (''address'', JStr (toLowerCase (the introducerPk)))]] else [])
        @ [JObj [(''name'', JStr ''oracle''), (''bps'', JInt 0), (''derive'', JStr ''committee'')],
           JObj [(''name'', JStr ''node''), (''bps'', JInt 0), (''derive'', JStr ''committee'')]]))])"

definition buildPredictionV1InterimRules :: "string option \<Rightarrow> string option \<Rightarrow> fee_error + json" where
  "buildPredictionV1InterimRules brokerPk introducerPk =
    (case brokerPk of None \<Rightarrow> Inl BrokerPkMissing
     | Some b \<Rightarrow> if b = [] then Inl BrokerPkMissing
       else (case validateFeeRules (interim_rules b introducerPk) of Some e \<Rightarrow> Inl e
         | None \<Rightarrow> Inr (interim_rules b introducerPk)))"

subsection \<open>What a validated rule set guarantees\<close>

definition valid_role :: "fee_role \<Rightarrow> bool" where
  "valid_role r = (role_name r \<noteq> [] \<and> 0 \<le> role_bps r \<and>
     (if role_name r = ''provider''
      then PROVIDER_MIN_BPS \<le> role_bps r \<and> role_address r = None \<and> \<not> role_committee r
      else role_bps r \<le> ROLE_MAX_BPS \<and> (role_committee r \<longrightarrow> role_address r = None)
        \<and> (\<not> role_committee r \<and> role_address r = None \<longrightarrow> role_optional r)
        \<and> (\<forall>a. role_address r = Some a \<longrightarrow> hex64 a)))"

lemma read_role_simps [simp]:
  "role_name (read_role r) = role_str r ''name''"
  "role_bps (read_role r) = role_int r ''bps''"
  "role_committee (read_role r) = (js_get r ''derive'' = Some (JStr ''committee''))"
  "role_optional (read_role r) = js_truthy (js_get r ''optional'')"
  "role_address (read_role r) = (if js_present (js_get r ''address'')
     then Some (toLowerCase (role_str r ''address'')) else None)"
  by (simp_all add: read_role_def)

lemma check_payee_None:
  assumes "check_payee r = None" "role_str r ''name'' \<noteq> []" "0 \<le> role_int r ''bps''"
  shows "valid_role (read_role r)"
    and "js_present (js_get r ''derive'') \<Longrightarrow> js_get r ''derive'' = Some (JStr ''committee'')"
proof -
  have a: "hex64 (toLowerCase (role_str r ''address''))"
    if "check_payee r = None" "role_str r ''name'' \<noteq> ''provider''" "js_present (js_get r ''address'')"
  proof -
    have np: "\<not> js_present (js_get r ''derive'')" and m: "\<not> ROLE_MAX_BPS < role_int r ''bps''"
      using that by (auto simp: check_payee_def Let_def split: if_splits)
    from that(3) obtain v where v: "js_get r ''address'' = Some v" by (auto simp: js_present_def)
    show ?thesis using that np m v
      by (cases v) (simp_all add: check_payee_def Let_def role_str_def split: if_splits)
  qed
  show "js_present (js_get r ''derive'') \<Longrightarrow> js_get r ''derive'' = Some (JStr ''committee'')"
    using assms(1) by (simp add: check_payee_def Let_def split: if_splits)
  then show "valid_role (read_role r)"
    using assms a by (auto simp: check_payee_def Let_def valid_role_def js_present_def split: if_splits)
qed

lemma check_role_None:
  assumes "check_role names r = None"
  shows "role_str r ''name'' \<noteq> []" "role_str r ''name'' \<notin> set names" "0 \<le> role_int r ''bps''"
    "check_payee r = None"
proof -
  have q: "filter (\<lambda>k. k \<notin> set ROLE_KEYS) (js_keys r) = []"
    using assms by (cases "filter (\<lambda>k. k \<notin> set ROLE_KEYS) (js_keys r)") (simp_all add: check_role_def split: if_splits)
  show n: "role_str r ''name'' \<noteq> []" "role_str r ''name'' \<notin> set names"
    using assms by (simp_all add: check_role_def q split: if_splits)
  obtain b where b: "js_get r ''bps'' = Some (JInt b)" "\<not> b < 0" "check_payee r = None"
    using assms n by (simp add: check_role_def q split: if_splits option.splits json.splits)
  then show "0 \<le> role_int r ''bps''" "check_payee r = None" by (simp_all add: role_int_def)
qed

lemma check_role_valid:
  assumes "check_role names r = None"
  shows "valid_role (read_role r)" and "role_str r ''name'' \<notin> set names"
    and "js_present (js_get r ''derive'') \<Longrightarrow> js_get r ''derive'' = Some (JStr ''committee'')"
  using check_payee_None [of r] check_role_None [OF assms] by blast+

lemma check_roles_valid:
  assumes "check_roles names rs = None"
  shows "\<forall>r \<in> set rs. valid_role (read_role r) \<and>
      (js_present (js_get r ''derive'') \<longrightarrow> js_get r ''derive'' = Some (JStr ''committee''))"
    and "distinct (map (\<lambda>r. role_str r ''name'') rs)"
    and "set (map (\<lambda>r. role_str r ''name'') rs) \<inter> set names = {}"
  using assms
proof (induction rs arbitrary: names)
  case Nil
  { case 1 show ?case by simp }
  { case 2 show ?case by simp }
  { case 3 show ?case by simp }
next
  case (Cons r rs)
  { case 1
    then have "check_role names r = None" "check_roles (role_str r ''name'' # names) rs = None"
      by (simp_all split: option.splits)
    then show ?case using Cons.IH(1) check_role_valid [of names r] by simp }
  { case 2
    then have "check_role names r = None" "check_roles (role_str r ''name'' # names) rs = None"
      by (simp_all split: option.splits)
    then show ?case using Cons.IH(2,3) [of "role_str r ''name'' # names"] by (simp add: comp_def) }
  { case 3
    then have "check_role names r = None" "check_roles (role_str r ''name'' # names) rs = None"
      by (simp_all split: option.splits)
    then show ?case
      using Cons.IH(3) [of "role_str r ''name'' # names"] check_role_valid(2) [of names r]
      by (simp add: disjoint_iff) }
qed

lemma validateFeeRules_None:
  assumes "validateFeeRules fr = None"
  shows "check_roles [] (rules_roles fr) = None"
    and "length (filter (\<lambda>r. role_str r ''name'' = ''provider'') (rules_roles fr)) = 1"
    and "(\<Sum>r\<leftarrow>rules_roles fr. role_int r ''bps'') = 10000"
    and "js_get fr ''schema_v'' = Some (JInt 1)"
  using assms
  by (auto simp: validateFeeRules_def Let_def SUPPORTED_SCHEMA_VERSIONS_def
      split: json.splits list.splits option.splits if_splits)

lemma validated_roles:
  assumes "validateFeeRules fr = None"
  shows "\<And>r. r \<in> set (read_roles fr) \<Longrightarrow> valid_role r"
    and "distinct (map role_name (read_roles fr))"
    and "length (filter (\<lambda>r. role_name r = ''provider'') (read_roles fr)) = 1"
    and "(\<Sum>r\<leftarrow>read_roles fr. role_bps r) = 10000"
  using check_roles_valid [OF validateFeeRules_None(1) [OF assms]] validateFeeRules_None(2,3) [OF assms]
  by (auto simp: read_roles_def comp_def filter_map)

text \<open>At most half of the pool can be levied as fees.\<close>

lemma validated_fee_bps:
  assumes "validateFeeRules fr = None"
  shows "(\<Sum>r\<leftarrow>filter (\<lambda>r. role_name r \<noteq> ''provider'') (read_roles fr). role_bps r) \<le> 10000 - PROVIDER_MIN_BPS"
proof -
  let ?rs = "read_roles fr" and ?P = "\<lambda>r. role_name r = ''provider''"
  have split: "(\<Sum>r\<leftarrow>rs. role_bps r) = (\<Sum>r\<leftarrow>filter ?P rs. role_bps r) + (\<Sum>r\<leftarrow>filter (\<lambda>r. \<not> ?P r) rs. role_bps r)" for rs
    by (induction rs) auto
  obtain p where p: "filter ?P ?rs = [p]"
    using validated_roles(3) [OF assms] by (auto simp: length_Suc_conv)
  have "p \<in> set (filter ?P ?rs)" by (simp only: p) simp
  then have "p \<in> set ?rs" "role_name p = ''provider''" by simp_all
  then have "PROVIDER_MIN_BPS \<le> role_bps p"
    using validated_roles(1) [OF assms, of p] by (simp add: valid_role_def)
  then show ?thesis using split [of ?rs] validated_roles(4) [OF assms] p by simp
qed

subsection \<open>The canonical text identifies the rules\<close>

lemma distinct_sort_fst: "distinct (map fst (sort_key fst xs)) = distinct (map fst xs)"
  by (rule mset_eq_imp_distinct_iff) simp

lemma js_get_norm:
  assumes "distinct (map fst kvs)"
  shows "js_get (json_norm (JObj kvs)) k = map_option json_norm (js_get (JObj kvs) k)"
proof -
  have "distinct (map fst (map (map_prod id json_norm) kvs))" using assms by (simp add: comp_def)
  then have "map_of (sort_key fst (map (map_prod id json_norm) kvs)) = map_of (map (map_prod id json_norm) kvs)"
    by (intro map_of_inject_set [THEN iffD2]) (auto simp: distinct_sort_fst)
  moreover have "map_of (map (map_prod id json_norm) kvs) k = map_option json_norm (map_of kvs k)"
    by (induction kvs) auto
  ultimately show ?thesis by simp
qed

lemma canonical_role_get:
  "js_get (canonical_role r) ''name'' = Some (JStr (role_str r ''name''))"
  "js_get (canonical_role r) ''bps'' = Some (JInt (role_int r ''bps''))"
  "js_get (canonical_role r) ''address'' = (if js_present (js_get r ''address'')
     then Some (JStr (toLowerCase (role_str r ''address''))) else None)"
  "js_get (canonical_role r) ''derive'' = (if js_present (js_get r ''derive'') then js_get r ''derive'' else None)"
  "js_get (canonical_role r) ''optional'' = (if js_truthy (js_get r ''optional'') then Some (JBool True) else None)"
  by (auto simp: canonical_role_def js_present_def split: option.splits)

lemma canonical_role_norm_get:
  "js_get (json_norm (canonical_role r)) k = map_option json_norm (js_get (canonical_role r) k)"
  unfolding canonical_role_def by (rule js_get_norm) auto

lemma role_str_canonical_norm [simp]: "role_str (json_norm (canonical_role r)) ''name'' = role_str r ''name''"
  "role_str (canonical_role r) ''name'' = role_str r ''name''"
  by (simp_all add: role_str_def canonical_role_norm_get canonical_role_get(1))

lemma read_canonical_role:
  assumes "js_present (js_get r ''derive'') \<longrightarrow> js_get r ''derive'' = Some (JStr ''committee'')"
  shows "read_role (json_norm (canonical_role r)) = read_role r"
proof -
  have "role_int (json_norm (canonical_role r)) ''bps'' = role_int r ''bps''"
    "role_str (json_norm (canonical_role r)) ''address''
       = (if js_present (js_get r ''address'') then toLowerCase (role_str r ''address'') else [])"
    by (simp_all add: role_int_def role_str_def canonical_role_norm_get canonical_role_get)
  moreover have "js_present (js_get (json_norm (canonical_role r)) ''address'') = js_present (js_get r ''address'')"
    "js_truthy (js_get (json_norm (canonical_role r)) ''optional'') = js_truthy (js_get r ''optional'')"
    by (simp_all add: canonical_role_norm_get canonical_role_get js_present_def)
  moreover have "(js_get (json_norm (canonical_role r)) ''derive'' = Some (JStr ''committee''))
      = (js_get r ''derive'' = Some (JStr ''committee''))"
    using assms by (auto simp: canonical_role_norm_get canonical_role_get js_present_def)
  ultimately show ?thesis by (simp add: read_role_def)
qed

lemma sort_key_map: "sort_key f (map g xs) = map g (sort_key (f \<circ> g) xs)"
proof -
  have "insort_key f (g x) (map g ys) = map g (insort_key (f \<circ> g) x ys)" for x ys
    by (induction ys) auto
  then show ?thesis by (induction xs) (simp_all add: sort_key_def)
qed

lemma canonical_rules_roles:
  "js_get (json_norm (canonical_rules fr)) ''roles''
     = Some (JArr (map json_norm (sort_key (\<lambda>c. role_str c ''name'') (map canonical_role (rules_roles fr)))))"
proof -
  have "js_get (json_norm (canonical_rules fr)) ''roles'' = map_option json_norm (js_get (canonical_rules fr) ''roles'')"
    unfolding canonical_rules_def by (rule js_get_norm) auto
  then show ?thesis by (simp add: canonical_rules_def)
qed

text \<open>Reading the roles back out of the canonical form gives the roles in name order.\<close>

lemma read_canonical_rules:
  assumes "validateFeeRules fr = None"
  shows "read_roles (json_norm (canonical_rules fr)) = sort_key role_name (read_roles fr)"
proof -
  let ?n = "\<lambda>c. role_str c ''name''"
  have "read_roles (json_norm (canonical_rules fr))
      = map (\<lambda>r. read_role (json_norm (canonical_role r))) (sort_key ?n (rules_roles fr))"
    by (simp add: read_roles_def rules_roles_def [of "json_norm _"] canonical_rules_roles sort_key_map comp_def)
  also have "\<dots> = map read_role (sort_key ?n (rules_roles fr))"
    using check_roles_valid(1) [OF validateFeeRules_None(1) [OF assms]] by (auto intro: read_canonical_role)
  also have "\<dots> = sort_key role_name (read_roles fr)"
    by (simp add: read_roles_def sort_key_map comp_def)
  finally show ?thesis .
qed

lemma json_wf_canonical_rules:
  assumes "validateFeeRules fr = None"
  shows "json_wf (canonical_rules fr)"
proof -
  have "json_wf (canonical_role r)" if "r \<in> set (rules_roles fr)" for r
  proof (cases "js_present (js_get r ''derive'')")
    case True
    then have "js_get r ''derive'' = Some (JStr ''committee'')"
      using check_roles_valid(1) [OF validateFeeRules_None(1) [OF assms]] that by blast
    then show ?thesis by (simp add: canonical_role_def)
  next
    case False
    then show ?thesis by (simp add: canonical_role_def)
  qed
  then show ?thesis
    using validateFeeRules_None(4) [OF assms] by (auto simp: canonical_rules_def list_all_iff)
qed

lemma canonicalizeFeeRules_Inr:
  "canonicalizeFeeRules fr = Inr s \<longleftrightarrow> validateFeeRules fr = None \<and> s = canonicalPredicate (canonical_rules fr)"
  by (auto simp: canonicalizeFeeRules_def canonicalJson_eq split: option.splits)

lemma canonical_text_roles:
  assumes "canonicalizeFeeRules fr = Inr s" "canonicalizeFeeRules fr' = Inr s"
  shows "sort_key role_name (read_roles fr) = sort_key role_name (read_roles fr')"
proof -
  have v: "validateFeeRules fr = None" "validateFeeRules fr' = None"
    and "canonicalPredicate (canonical_rules fr) = canonicalPredicate (canonical_rules fr')"
    using assms by (auto simp: canonicalizeFeeRules_Inr)
  then have "json_norm (canonical_rules fr) = json_norm (canonical_rules fr')"
    by (intro canonicalPredicate_inj json_wf_canonical_rules)
  then show ?thesis
    using read_canonical_rules [OF v(1)] read_canonical_rules [OF v(2)] by simp
qed

text \<open>Equal commits: the same text, or two distinct preimages of one hash.\<close>

lemma str_bytes_inj: "str_bytes s = str_bytes t \<longleftrightarrow> s = t"
proof
  have "map (\<lambda>b. char_of (unat (b :: 8 word))) (str_bytes u) = u" for u
    by (induction u) (auto simp: str_bytes_def unat_of_nat of_char_mod_256)
  then show "str_bytes s = str_bytes t \<Longrightarrow> s = t" by metis
qed simp

lemma fee_commit_eq:
  assumes "computeFeeRulesCommit H fr = Inr c" "computeFeeRulesCommit H fr' = Inr c"
  obtains s where "canonicalizeFeeRules fr = Inr s" "canonicalizeFeeRules fr' = Inr s"
  | s s' where "canonicalizeFeeRules fr = Inr s" "canonicalizeFeeRules fr' = Inr s'"
      "str_bytes s \<noteq> str_bytes s'" "H (str_bytes s) = H (str_bytes s')"
proof -
  obtain s s' where s: "canonicalizeFeeRules fr = Inr s" "canonicalizeFeeRules fr' = Inr s'"
    and h: "hex_encode (H (str_bytes s)) = c" "hex_encode (H (str_bytes s')) = c"
    using assms by (cases "canonicalizeFeeRules fr"; cases "canonicalizeFeeRules fr'") (auto simp: computeFeeRulesCommit_def)
  have eq: "H (str_bytes s) = H (str_bytes s')" using h by (metis hex_encode_inj)
  show ?thesis
  proof (cases "s = s'")
    case True then show ?thesis using that(1) s by blast
  next
    case False then show ?thesis using that(2) s eq str_bytes_inj by blast
  qed
qed

lemma interim_valid:
  assumes "hex64 (toLowerCase b)" "\<And>i. introducer = Some i \<Longrightarrow> i = [] \<or> hex64 (toLowerCase i)"
  shows "validateFeeRules (interim_rules b introducer) = None"
  using assms by (cases introducer) (auto simp: interim_rules_def validateFeeRules_def check_role_def check_payee_def
    rules_roles_def role_str_def role_int_def is_js_object_def js_present_def TOP_KEYS_def ROLE_KEYS_def
    SUPPORTED_SCHEMA_VERSIONS_def PROVIDER_MIN_BPS_def ROLE_MAX_BPS_def FEE_RULES_SCHEMA_V_def Let_def)

lemma interim_accepted:
  assumes "hex64 (toLowerCase b)" "\<And>i. introducer = Some i \<Longrightarrow> i = [] \<or> hex64 (toLowerCase i)"
  shows "buildPredictionV1InterimRules (Some b) introducer = Inr (interim_rules b introducer)"
proof -
  have "b \<noteq> []" using assms(1) by (auto simp: hex64_def toLowerCase_def)
  then show ?thesis using interim_valid [OF assms] by (simp add: buildPredictionV1InterimRules_def)
qed

subsection \<open>Properties\<close>

abbreviation ex_pk :: "char \<Rightarrow> hexstr" where
  "ex_pk c \<equiv> replicate 64 c"

abbreviation ex_rules :: json where
  "ex_rules \<equiv> interim_rules (replicate 64 (CHR ''A'')) (Some (replicate 64 (CHR ''b'')))"

lemma lower_ex:
  "lower_char (CHR ''A'') = CHR ''a''" "lower_char (CHR ''B'') = CHR ''b''"
  "lower_char (CHR ''a'') = CHR ''a''" "lower_char (CHR ''b'') = CHR ''b''"
  "lower_char (CHR ''c'') = CHR ''c''" "lower_char (CHR ''d'') = CHR ''d''"
  by code_simp+

lemma hex64_replicate: "is_hex_lower (lower_char c) \<Longrightarrow> hex64 (toLowerCase (replicate 64 c))"
  by (simp add: hex64_def toLowerCase_def list_all_iff)

lemma hex_ex: "is_hex_lower (CHR ''a'')" "is_hex_lower (CHR ''b'')"
  by code_simp+

lemma ex_rules_valid: "validateFeeRules ex_rules = None"
  by (rule interim_valid) (auto intro!: hex64_replicate simp: lower_ex hex_ex)

text \<open>C24: rules that pass validation name each role once, have exactly one provider, shares in basis
  points that add up to 10000, and so levy at most half of the pool from the winners.\<close>

theorem validateFeeRules_sound:
  assumes "validateFeeRules fr = None"
  shows "distinct (map role_name (read_roles fr))
    \<and> length (filter (\<lambda>r. role_name r = ''provider'') (read_roles fr)) = 1
    \<and> (\<Sum>r\<leftarrow>read_roles fr. role_bps r) = 10000
    \<and> (\<Sum>r\<leftarrow>filter (\<lambda>r. role_name r \<noteq> ''provider'') (read_roles fr). role_bps r) \<le> 5000
    \<and> (\<forall>r \<in> set (read_roles fr). valid_role r)"
  using validated_roles [OF assms] validated_fee_bps [OF assms] by (simp add: PROVIDER_MIN_BPS_def)

theorem validateFeeRules_sound_witness:
  "distinct (map role_name (read_roles ex_rules)) \<and> (\<Sum>r\<leftarrow>read_roles ex_rules. role_bps r) = 10000"
  using validateFeeRules_sound [OF ex_rules_valid] by simp

end
