(* ===== verification/Solvency.thy ===== *)
theory Solvency
  imports Prelude
begin

section \<open>Paying out a pool\<close>

text \<open>
  Every settlement path of the program ends in a list of payout leaves against a pool of known value.
  A winner claims a leaf on its own, in any order.  The interface a splitter must meet is the locale
  \<open>pool_split\<close>: its leaves sum to the pool exactly, and no leaf is negative.  From it follows, once for
  all splitters, that the vault is never overdrawn whatever claims arrive first, and that it is empty
  when all have been paid.
\<close>

text \<open>The vault: a claim is paid when the vault holds its amount.\<close>

fun pay_claims :: "int \<Rightarrow> leaf list \<Rightarrow> int option" where
  "pay_claims v [] = Some v"
| "pay_claims v (l # ls) = (if 0 \<le> snd l \<and> snd l \<le> v then pay_claims (v - snd l) ls else None)"

lemma pay_claims_enough:
  "(\<And>l. l \<in> set ls \<Longrightarrow> 0 \<le> snd l) \<Longrightarrow> leaf_sum ls \<le> v \<Longrightarrow> pay_claims v ls = Some (v - leaf_sum ls)"
proof (induction ls arbitrary: v)
  case Nil
  then show ?case by simp
next
  case (Cons l ls)
  have "0 \<le> leaf_sum ls" using Cons.prems(1) by (intro sum_list_nonneg) auto
  with Cons show ?case by simp
qed

text \<open>Floored proportional shares, the remainder to the first entry: what all splitters compute.\<close>

definition floor_shares :: "(hexstr \<Rightarrow> hexstr) \<Rightarrow> int \<Rightarrow> int \<Rightarrow> leaf list \<Rightarrow> leaf list" where
  "floor_shares g d t ws = map (\<lambda>(pk, stake). (g pk, bigdiv (stake * d) t)) ws"

lemma floor_shares_eq_Nil [simp]: "floor_shares g d t ws = [] \<longleftrightarrow> ws = []"
  by (simp add: floor_shares_def)

lemma length_floor_shares [simp]: "length (floor_shares g d t ws) = length ws"
  by (simp add: floor_shares_def)

lemma dusted_sum [money_simps]:
  "ws \<noteq> [] \<Longrightarrow> leaf_sum (add_to_first (d - leaf_sum (floor_shares g d t ws)) (floor_shares g d t ws)) = d"
  by (simp add: leaf_sum_add_to_first)

lemma leaf_sum_floor_shares:
  assumes "\<forall>w \<in> set ws. 0 \<le> snd w" "0 \<le> d" "0 < t"
  shows "leaf_sum (floor_shares g d t ws) = (\<Sum>w\<leftarrow>ws. (snd w * d) div t)"
  using assms by (induction ws) (auto simp: floor_shares_def bigdiv_nonneg)

lemma dust_bounds:
  assumes "\<forall>w \<in> set ws. 0 \<le> snd w" "0 \<le> d" "0 < leaf_sum ws" "ws \<noteq> []"
  shows "0 \<le> d - leaf_sum (floor_shares g d (leaf_sum ws) ws)"
    and "d - leaf_sum (floor_shares g d (leaf_sum ws) ws) < int (length ws)"
proof -
  let ?t = "leaf_sum ws" and ?s = "\<Sum>w\<leftarrow>ws. (snd w * d) div leaf_sum ws"
  have eq: "leaf_sum (floor_shares g d ?t ws) = ?s" by (rule leaf_sum_floor_shares [OF assms(1-3)])
  have "?s * ?t \<le> ?t * d" using floor_shares_le [of ws snd d ?t] assms by simp
  then show "0 \<le> d - leaf_sum (floor_shares g d ?t ws)" using assms(3) eq by (simp add: mult.commute)
  have "?t * d < ?s * ?t + int (length ws) * ?t"
    using floor_shares_gt [OF assms(4,3), of snd d] by simp
  then have "?t * d < ?t * (?s + int (length ws))" by (simp add: algebra_simps)
  then show "d - leaf_sum (floor_shares g d ?t ws) < int (length ws)" using assms(3) eq by simp
qed

lemma floor_shares_nonneg:
  assumes "\<forall>w \<in> set ws. 0 \<le> snd w" "0 \<le> d" "0 \<le> t" "l \<in> set (floor_shares g d t ws)"
  shows "0 \<le> snd l"
proof -
  obtain p v where "(p, v) \<in> set ws" "snd l = bigdiv (v * d) t"
    using assms(4) by (auto simp: floor_shares_def)
  then show ?thesis using assms(1-3) by (fastforce intro: bigdiv_ge_0)
qed

lemma dusted_nonneg:
  assumes "\<forall>w \<in> set ws. 0 \<le> snd w" "0 \<le> d" "0 < leaf_sum ws" "ws \<noteq> []"
    "l \<in> set (add_to_first (d - leaf_sum (floor_shares g d (leaf_sum ws) ws)) (floor_shares g d (leaf_sum ws) ws))"
  shows "0 \<le> snd l"
proof (rule add_to_first_nonneg [OF _ _ assms(5)])
  show "0 \<le> d - leaf_sum (floor_shares g d (leaf_sum ws) ws)" by (rule dust_bounds(1) [OF assms(1-4)])
  show "0 \<le> snd k" if "k \<in> set (floor_shares g d (leaf_sum ws) ws)" for k
    using floor_shares_nonneg [OF assms(1,2) _ that] assms(3) by simp
qed

text \<open>Every winner receives at least the floor of its share.\<close>

lemma dusted_at_least:
  assumes "\<forall>w \<in> set ws. 0 \<le> snd w" "0 \<le> d" "0 < leaf_sum ws" "i < length ws"
  shows "(snd (ws ! i) * d) div leaf_sum ws
    \<le> snd (add_to_first (d - leaf_sum (floor_shares g d (leaf_sum ws) ws)) (floor_shares g d (leaf_sum ws) ws) ! i)"
proof -
  have "ws \<noteq> []" using assms(4) by auto
  then have "snd (floor_shares g d (leaf_sum ws) ws ! i)
      \<le> snd (add_to_first (d - leaf_sum (floor_shares g d (leaf_sum ws) ws)) (floor_shares g d (leaf_sum ws) ws) ! i)"
    using add_to_first_ge dust_bounds(1) assms by simp
  moreover have "snd (floor_shares g d (leaf_sum ws) ws ! i) = (snd (ws ! i) * d) div leaf_sum ws"
  proof -
    have "0 \<le> snd (ws ! i)" using assms(1,4) by simp
    then show ?thesis using assms(2-4) by (simp add: floor_shares_def bigdiv_nonneg case_prod_beta)
  qed
  ultimately show ?thesis by simp
qed

locale pool_split =
  fixes split :: "'i \<Rightarrow> leaf list option" and pool :: "'i \<Rightarrow> int" and sane :: "'i \<Rightarrow> bool"
  assumes conserved: "split x = Some ls \<Longrightarrow> sane x \<Longrightarrow> leaf_sum ls = pool x"
    and nonneg: "split x = Some ls \<Longrightarrow> sane x \<Longrightarrow> l \<in> set ls \<Longrightarrow> 0 \<le> snd l"
begin

lemma leaf_le_pool: "split x = Some ls \<Longrightarrow> sane x \<Longrightarrow> l \<in> set ls \<Longrightarrow> snd l \<le> pool x"
  using sum_list_member_le [of l ls snd] conserved nonneg by metis

lemma claims_solvent:
  assumes "split x = Some ls" "sane x" "mset cs \<subseteq># mset ls"
  shows "pay_claims (pool x) cs = Some (pool x - leaf_sum cs)"
proof (rule pay_claims_enough)
  fix l assume "l \<in> set cs"
  then have "l \<in> set ls" using assms(3) by (metis mset_subset_eqD set_mset_mset)
  then show "0 \<le> snd l" using assms nonneg by blast
next
  have "leaf_sum cs \<le> leaf_sum ls"
    using assms nonneg by (intro sum_list_sub_mset) auto
  then show "leaf_sum cs \<le> pool x" using conserved [OF assms(1,2)] by simp
qed

lemma claims_complete:
  assumes "split x = Some ls" "sane x" "mset cs = mset ls"
  shows "pay_claims (pool x) cs = Some 0"
proof -
  have "leaf_sum cs = leaf_sum ls" using assms(3) by (metis mset_map sum_mset_sum_list)
  then show ?thesis
    using claims_solvent [OF assms(1,2), of cs] conserved [OF assms(1,2)] assms(3) by simp
qed

end

end
