(* ===== verification/Fee_Split.thy ===== *)
theory Fee_Split
  imports Fee_Rules Solvency
begin

section \<open>Fee leaves and the split of a pool\<close>

text \<open>
  \<open>kasia-console/src/lib/fee-split.mjs\<close>, the arithmetic part: the fee leaves a validated rule set
  derives from a pool, and \<open>feeSplit\<close>, which gives the rest to the winners in proportion to their
  stakes.  Amounts are BigInt and hence \<open>int\<close>.
\<close>

record fee_leaf =
  fl_pk :: hexstr
  fl_amount :: int
  fl_type :: string

abbreviation fee_sum :: "fee_leaf list \<Rightarrow> int" where
  "fee_sum ls \<equiv> (\<Sum>l\<leftarrow>ls. fl_amount l)"

definition bps_amt :: "int \<Rightarrow> int \<Rightarrow> int" where
  "bps_amt pool bps = bigdiv (pool * bps) 10000"

text \<open>The loop over the roles in name order: leaves of addressed roles, and the bps of the roles
  paid to the committee.\<close>

fun role_loop :: "int \<Rightarrow> fee_role list \<Rightarrow> fee_leaf list \<times> int \<Rightarrow> fee_leaf list \<times> int" where
  "role_loop pool [] acc = acc"
| "role_loop pool (r # rs) (leaves, committeeBps) =
    (if role_name r = ''provider'' \<or> role_bps r \<le> 0 then role_loop pool rs (leaves, committeeBps)
     else if role_committee r then role_loop pool rs (leaves, committeeBps + role_bps r)
     else case role_address r of
       None \<Rightarrow> role_loop pool rs (leaves, committeeBps)
     | Some a \<Rightarrow> role_loop pool rs
         (leaves @ [\<lparr> fl_pk = a, fl_amount = bps_amt pool (role_bps r), fl_type = role_name r \<rparr>], committeeBps))"

text \<open>The committee's total is split evenly over the sorted keys, the remainder to the first.\<close>

definition committee_leaves :: "int \<Rightarrow> hexstr list \<Rightarrow> fee_leaf list" where
  "committee_leaves tot committeePks =
    (let pks = sort (map toLowerCase committeePks); n = int (length pks); each = bigdiv tot n in
     map (\<lambda>(i, pk). \<lparr> fl_pk = pk, fl_amount = each + (if i = 0 then tot - each * n else 0),
        fl_type = ''committee'' \<rparr>) (zip [0..<length pks] pks))"

definition deriveRoleFeeLeaves :: "json \<Rightarrow> int \<Rightarrow> hexstr list \<Rightarrow> fee_error + fee_leaf list \<times> int" where
  "deriveRoleFeeLeaves feeRules pool committeePks =
    (case validateFeeRules feeRules of
       Some e \<Rightarrow> Inl e
     | None \<Rightarrow> if pool \<le> 0 then Inl (PoolNotPositive pool)
       else (let (leaves, committeeBps) = role_loop pool (sort_key role_name (read_roles feeRules)) ([], 0);
                 leaves' = (if 0 < committeeBps \<and> committeePks \<noteq> []
                   then leaves @ committee_leaves (bps_amt pool committeeBps) committeePks else leaves)
             in Inr (leaves', fee_sum leaves')))"

record split_result =
  sr_degenerate :: bool
  sr_winners :: "leaf list"
  sr_feeLeaves :: "fee_leaf list"
  sr_payoutLeaves :: "leaf list"
  sr_poolTotal :: int
  sr_distributable :: int
  sr_feeSompi :: int

definition plain_leaf :: "fee_leaf \<Rightarrow> leaf" where
  "plain_leaf l = (fl_pk l, fl_amount l)"

definition feeSplit :: "json \<Rightarrow> int \<Rightarrow> leaf list \<Rightarrow> hexstr list \<Rightarrow> fee_error + split_result" where
  "feeSplit feeRules pool winners committeePks =
    (case deriveRoleFeeLeaves feeRules pool committeePks of
       Inl e \<Rightarrow> Inl e
     | Inr (feeLeaves, feeSompi) \<Rightarrow>
       (let distributable = pool - feeSompi; totalWinStake = leaf_sum winners in
        if winners = [] \<or> totalWinStake = 0 then
          Inr \<lparr> sr_degenerate = True, sr_winners = [], sr_feeLeaves = [], sr_payoutLeaves = [],
            sr_poolTotal = pool, sr_distributable = pool, sr_feeSompi = 0 \<rparr>
        else
          (let payouts = floor_shares toLowerCase distributable totalWinStake winners;
               assigned = leaf_sum payouts;
               winnerLeaves = add_to_first (distributable - assigned) payouts
           in Inr \<lparr> sr_degenerate = False, sr_winners = winnerLeaves, sr_feeLeaves = feeLeaves,
                sr_payoutLeaves = winnerLeaves @ map plain_leaf feeLeaves,
                sr_poolTotal = pool, sr_distributable = distributable, sr_feeSompi = feeSompi \<rparr>)))"

subsection \<open>Fee leaves\<close>

lemma fee_sum_eq_leaf_sum [money_simps]: "leaf_sum (map plain_leaf ls) = fee_sum ls"
  by (simp add: plain_leaf_def comp_def)

lemma snd_plain_leaf [simp]: "snd \<circ> plain_leaf = fl_amount" "snd (plain_leaf l) = fl_amount l"
  by (auto simp: plain_leaf_def)

text \<open>What the loop pays out is at most the pool's share of the non-provider bps.\<close>

definition levied :: "fee_role list \<Rightarrow> int" where
  "levied rs = (\<Sum>r\<leftarrow>filter (\<lambda>r. role_name r \<noteq> ''provider'') rs. role_bps r)"

lemma bps_amt_nonneg: "0 \<le> pool \<Longrightarrow> 0 \<le> b \<Longrightarrow> 0 \<le> bps_amt pool b"
  by (simp add: bps_amt_def bigdiv_ge_0)

lemma div_mult_le_int: "0 < (n::int) \<Longrightarrow> t div n * n \<le> t"
  using div_mult_mod_eq [of t n] pos_mod_sign [of n t] by linarith

lemma bps_amt_le: "0 \<le> pool \<Longrightarrow> 0 \<le> b \<Longrightarrow> bps_amt pool b * 10000 \<le> pool * b"
  by (simp add: bps_amt_def bigdiv_nonneg div_mult_le_int)

lemma role_loop_bound:
  assumes "0 \<le> pool" "\<forall>r \<in> set rs. 0 \<le> role_bps r"
    "\<forall>l \<in> set ls. 0 \<le> fl_amount l" "0 \<le> cb" "role_loop pool rs (ls, cb) = (ls', cb')"
  shows "(\<forall>l \<in> set ls'. 0 \<le> fl_amount l) \<and> 0 \<le> cb' \<and>
     fee_sum ls' * 10000 + pool * cb' \<le> fee_sum ls * 10000 + pool * cb + pool * levied rs"
  using assms
proof (induction pool rs "(ls, cb)" arbitrary: ls cb rule: role_loop.induct)
  case (1 pool)
  then show ?case by (simp add: levied_def)
next
  case (2 pool r rs ls cb)
  have b: "0 \<le> role_bps r" and rest: "\<forall>r \<in> set rs. 0 \<le> role_bps r" using "2.prems"(2) by auto
  consider "role_name r = ''provider'' \<or> role_bps r \<le> 0"
    | "\<not> (role_name r = ''provider'' \<or> role_bps r \<le> 0)" "role_committee r"
    | "\<not> (role_name r = ''provider'' \<or> role_bps r \<le> 0)" "\<not> role_committee r" "role_address r = None"
    | a where "\<not> (role_name r = ''provider'' \<or> role_bps r \<le> 0)" "\<not> role_committee r" "role_address r = Some a"
    by fastforce
  then show ?case
  proof cases
    case 1
    then have "levied (r # rs) = levied rs" using b by (auto simp: levied_def)
    then show ?thesis using 1 "2.hyps"(1) "2.prems" rest by simp
  next
    case 2
    then have "levied (r # rs) = role_bps r + levied rs" by (simp add: levied_def)
    then show ?thesis using 2 "2.hyps"(2) "2.prems" rest b by (simp add: distrib_left)
  next
    case 3
    then have "levied (r # rs) = role_bps r + levied rs" by (simp add: levied_def)
    moreover have "0 \<le> pool * role_bps r" using b "2.prems"(1) by simp
    moreover have "role_loop pool rs (ls, cb) = (ls', cb')" using 3 "2.prems"(5) by simp
    ultimately show ?thesis
      using "2.hyps"(3) [OF 3] "2.prems"(1,3,4) rest by (fastforce simp: distrib_left)
  next
    case (4 a)
    then have "levied (r # rs) = role_bps r + levied rs" by (simp add: levied_def)
    then show ?thesis
      using 4 "2.hyps"(4) [OF 4(1,2,3)] "2.prems" rest bps_amt_nonneg [OF "2.prems"(1) b] bps_amt_le [OF "2.prems"(1) b]
      by (simp add: distrib_left)
  qed
qed

lemma sum_first_extra:
  "0 < n \<Longrightarrow> (\<Sum>i\<leftarrow>[0..<n]. (c::int) + (if i = 0 then d else 0)) = c * int n + d"
proof (induction n)
  case (Suc n)
  then show ?case by (cases "n = 0") (auto simp: algebra_simps)
qed simp

lemma map_fst_zip_upt: "map f (map fst (zip [0..<length ys] ys)) = map f [0..<length ys]"
  by simp

lemma committee_leaves_sum:
  assumes "pks \<noteq> []" shows "fee_sum (committee_leaves tot pks) = tot"
proof -
  let ?pks = "sort (map toLowerCase pks)"
  let ?n = "int (length ?pks)" and ?each = "bigdiv tot (int (length ?pks))"
  let ?g = "\<lambda>i. ?each + (if i = (0::nat) then tot - ?each * ?n else 0)"
  have "map fl_amount (committee_leaves tot pks) = map (?g \<circ> fst) (zip [0..<length ?pks] ?pks)"
    by (auto simp: committee_leaves_def Let_def)
  also have "\<dots> = map ?g [0..<length ?pks]" by (simp flip: map_map)
  finally show ?thesis using sum_first_extra [of "length ?pks" ?each "tot - ?each * ?n"] assms by simp
qed

lemma committee_leaves_nonneg:
  assumes "0 \<le> tot" "pks \<noteq> []" "l \<in> set (committee_leaves tot pks)" shows "0 \<le> fl_amount l"
proof -
  let ?n = "int (length pks)"
  have n: "0 < ?n" using assms(2) by simp
  then have "0 \<le> bigdiv tot ?n" "bigdiv tot ?n * ?n \<le> tot"
    using assms(1) by (simp_all add: bigdiv_nonneg div_mult_le_int pos_imp_zdiv_nonneg_iff)
  then show ?thesis using assms(3) by (auto simp: committee_leaves_def Let_def split: if_splits)
qed

lemma deriveRoleFeeLeaves_Inr:
  assumes "deriveRoleFeeLeaves fr pool pks = Inr (fl, fee)"
  obtains ls cb where "validateFeeRules fr = None" "0 < pool"
    "role_loop pool (sort_key role_name (read_roles fr)) ([], 0) = (ls, cb)"
    "fl = (if 0 < cb \<and> pks \<noteq> [] then ls @ committee_leaves (bps_amt pool cb) pks else ls)" "fee = fee_sum fl"
  using assms
  by (cases "role_loop pool (sort_key role_name (read_roles fr)) ([], 0)")
    (auto simp: deriveRoleFeeLeaves_def Let_def split: option.splits if_splits)

lemma levied_sort: "levied (sort_key f rs) = levied rs"
  unfolding levied_def by (metis (no_types) mset_filter mset_map mset_sort sum_mset_sum_list)

lemma fee_leaves_bound:
  assumes "deriveRoleFeeLeaves fr pool pks = Inr (fl, fee)"
  shows "fee = fee_sum fl" "\<And>l. l \<in> set fl \<Longrightarrow> 0 \<le> fl_amount l" "fee * 10000 \<le> pool * (10000 - PROVIDER_MIN_BPS)" "0 < pool"
proof -
  from assms obtain ls cb where v: "validateFeeRules fr = None" and p: "0 < pool"
    and loop: "role_loop pool (sort_key role_name (read_roles fr)) ([], 0) = (ls, cb)"
    and fl: "fl = (if 0 < cb \<and> pks \<noteq> [] then ls @ committee_leaves (bps_amt pool cb) pks else ls)"
    and fee: "fee = fee_sum fl" by (rule deriveRoleFeeLeaves_Inr)
  have bound: "(\<forall>l \<in> set ls. 0 \<le> fl_amount l) \<and> 0 \<le> cb \<and>
     fee_sum ls * 10000 + pool * cb \<le> 0 * 10000 + pool * 0 + pool * levied (sort_key role_name (read_roles fr))"
    using role_loop_bound [OF _ _ _ _ loop] p validated_roles(1) [OF v] by (auto simp: valid_role_def)
  moreover have "levied (read_roles fr) \<le> 10000 - PROVIDER_MIN_BPS"
    using validated_fee_bps [OF v] by (simp add: levied_def)
  then have "pool * levied (read_roles fr) \<le> pool * (10000 - PROVIDER_MIN_BPS)"
    using p by (intro mult_left_mono) auto
  ultimately have *: "fee_sum ls * 10000 + pool * cb \<le> pool * (10000 - PROVIDER_MIN_BPS)"
    by (simp add: levied_sort)
  show "fee = fee_sum fl" "0 < pool" by (fact fee, fact p)
  show "0 \<le> fl_amount l" if "l \<in> set fl" for l
    using that bound bps_amt_nonneg [of pool cb] p committee_leaves_nonneg [of "bps_amt pool cb" pks l]
    by (auto simp: fl split: if_splits)
  show "fee * 10000 \<le> pool * (10000 - PROVIDER_MIN_BPS)"
  proof (cases "0 < cb \<and> pks \<noteq> []")
    case True
    then have "fee = fee_sum ls + bps_amt pool cb" by (simp add: fee fl committee_leaves_sum)
    then show ?thesis using * bps_amt_le [of pool cb] True p by simp
  next
    case False
    have "fee = fee_sum ls" by (simp only: fee fl False if_False)
    moreover have "0 \<le> pool * cb" using bound p by simp
    ultimately show ?thesis using * by simp
  qed
qed

subsection \<open>The split\<close>

definition winners_sane :: "leaf list \<Rightarrow> bool" where
  "winners_sane ws = list_all (\<lambda>w. 0 \<le> snd w) ws"

lemma feeSplit_Inr:
  assumes "feeSplit fr pool ws pks = Inr r" "\<not> sr_degenerate r"
  obtains fl fee where "deriveRoleFeeLeaves fr pool pks = Inr (fl, fee)" "ws \<noteq> []" "leaf_sum ws \<noteq> 0"
    "sr_winners r = add_to_first (pool - fee - leaf_sum (floor_shares toLowerCase (pool - fee) (leaf_sum ws) ws))
        (floor_shares toLowerCase (pool - fee) (leaf_sum ws) ws)"
    "sr_feeLeaves r = fl" "sr_payoutLeaves r = sr_winners r @ map plain_leaf fl" "sr_feeSompi r = fee"
    "sr_distributable r = pool - fee"
  using assms by (auto simp: feeSplit_def Let_def split: sum.splits prod.splits if_splits)

definition fee_split_leaves :: "json \<times> int \<times> leaf list \<times> hexstr list \<Rightarrow> leaf list option" where
  "fee_split_leaves = (\<lambda>(fr, pool, ws, pks). case feeSplit fr pool ws pks of
     Inr r \<Rightarrow> if sr_degenerate r then None else Some (sr_payoutLeaves r) | Inl _ \<Rightarrow> None)"

lemma winners_positive: "winners_sane ws \<Longrightarrow> leaf_sum ws \<noteq> 0 \<Longrightarrow> 0 < leaf_sum ws"
  using sum_list_nonneg_int [of ws snd] by (force simp: winners_sane_def list_all_iff)

interpretation fs: pool_split fee_split_leaves "\<lambda>(fr, pool, ws, pks). pool" "\<lambda>(fr, pool, ws, pks). winners_sane ws"
proof
  fix x :: "json \<times> int \<times> leaf list \<times> hexstr list" and ls
  obtain fr pool ws pks where x: "x = (fr, pool, ws, pks)" by (cases x)
  assume "fee_split_leaves x = Some ls"
  then obtain r where r: "feeSplit fr pool ws pks = Inr r" "\<not> sr_degenerate r" "ls = sr_payoutLeaves r"
    by (auto simp: fee_split_leaves_def x split: sum.splits if_splits)
  obtain fl fee where f: "deriveRoleFeeLeaves fr pool pks = Inr (fl, fee)" and ws: "ws \<noteq> []" "leaf_sum ws \<noteq> 0"
    and w: "sr_winners r = add_to_first (pool - fee - leaf_sum (floor_shares toLowerCase (pool - fee) (leaf_sum ws) ws))
        (floor_shares toLowerCase (pool - fee) (leaf_sum ws) ws)"
    and ls: "sr_payoutLeaves r = sr_winners r @ map plain_leaf fl"
    using r(1,2) by (rule feeSplit_Inr)
  note fee = fee_leaves_bound [OF f]
  assume sane: "case x of (fr, pool, ws, pks) \<Rightarrow> winners_sane ws"
  show "leaf_sum ls = (case x of (fr, pool, ws, pks) \<Rightarrow> pool)"
    using fee(1) by (simp add: x r(3) ls w money_simps ws)
  show "0 \<le> snd l" if l: "l \<in> set ls" for l
  proof -
    have ws0: "winners_sane ws" using sane x by simp
    have "0 \<le> pool - fee" using fee(3,4) by (simp add: PROVIDER_MIN_BPS_def)
    moreover have "0 < leaf_sum ws" using winners_positive ws0 ws by simp
    ultimately have "0 \<le> snd l" if "l \<in> set (sr_winners r)"
      using that dusted_nonneg [of ws "pool - fee" l toLowerCase] ws0 ws by (simp add: w winners_sane_def list_all_iff)
    moreover have "0 \<le> snd l" if "l \<in> set (map plain_leaf fl)"
      using that fee(2) by (auto simp: plain_leaf_def)
    ultimately show ?thesis using l by (auto simp: r(3) ls)
  qed
qed

subsection \<open>Equal commits, equal behaviour\<close>

lemma derive_same_text:
  assumes "canonicalizeFeeRules fr = Inr s" "canonicalizeFeeRules fr' = Inr s"
  shows "deriveRoleFeeLeaves fr pool pks = deriveRoleFeeLeaves fr' pool pks"
  using assms canonical_text_roles [OF assms]
  by (simp add: deriveRoleFeeLeaves_def canonicalizeFeeRules_Inr)

lemma feeSplit_same_text:
  assumes "canonicalizeFeeRules fr = Inr s" "canonicalizeFeeRules fr' = Inr s"
  shows "feeSplit fr pool ws pks = feeSplit fr' pool ws pks"
  using derive_same_text [OF assms] by (simp add: feeSplit_def)

subsection \<open>Properties\<close>

lemma feeSplit_solvency:
  assumes "feeSplit fr pool ws pks = Inr r" "\<not> sr_degenerate r" "winners_sane ws"
    and "mset claims \<subseteq># mset (sr_payoutLeaves r)"
  shows "pay_claims pool claims = Some (pool - leaf_sum claims)"
    and "leaf_sum (sr_payoutLeaves r) = pool"
    and "2 * sr_feeSompi r \<le> pool"
    and "\<forall>i < length ws. (snd (ws ! i) * (pool - sr_feeSompi r)) div leaf_sum ws \<le> snd (sr_winners r ! i)"
proof -
  have s: "fee_split_leaves (fr, pool, ws, pks) = Some (sr_payoutLeaves r)"
    using assms(1,2) by (simp add: fee_split_leaves_def)
  show "pay_claims pool claims = Some (pool - leaf_sum claims)"
    using fs.claims_solvent [OF s _ assms(4)] assms(3) by simp
  show "leaf_sum (sr_payoutLeaves r) = pool" using fs.conserved [OF s] assms(3) by simp
  obtain fl fee where f: "deriveRoleFeeLeaves fr pool pks = Inr (fl, fee)" and ws: "ws \<noteq> []" "leaf_sum ws \<noteq> 0"
    and w: "sr_winners r = add_to_first (pool - fee - leaf_sum (floor_shares toLowerCase (pool - fee) (leaf_sum ws) ws))
        (floor_shares toLowerCase (pool - fee) (leaf_sum ws) ws)"
    and fee: "sr_feeSompi r = fee"
    using assms(1,2) by (rule feeSplit_Inr)
  note b = fee_leaves_bound [OF f]
  show le: "2 * sr_feeSompi r \<le> pool" using b(3) fee by (simp add: PROVIDER_MIN_BPS_def)
  have "0 \<le> pool - fee" using le fee b(4) by linarith
  then show "\<forall>i < length ws. (snd (ws ! i) * (pool - sr_feeSompi r)) div leaf_sum ws \<le> snd (sr_winners r ! i)"
    using dusted_at_least [of ws "pool - fee" _ toLowerCase] winners_positive [OF assms(3) ws(2)] assms(3)
    by (simp add: fee w winners_sane_def list_all_iff)
qed

text \<open>C1: a split pays out exactly the pool.  Whatever subset of the payout leaves is claimed, in
  whatever order, the vault covers it and what remains is the unclaimed rest; the fees are at most half
  of the pool, and each winner gets at least the floor of its share of the rest.\<close>

theorem feeSplit_solvent:
  assumes "feeSplit fr pool ws pks = Inr r" "\<not> sr_degenerate r" "winners_sane ws"
    and "mset claims \<subseteq># mset (sr_payoutLeaves r)"
  shows "pay_claims pool claims = Some (pool - leaf_sum claims) \<and> leaf_sum (sr_payoutLeaves r) = pool
    \<and> 2 * sr_feeSompi r \<le> pool
    \<and> (\<forall>i < length ws. (snd (ws ! i) * (pool - sr_feeSompi r)) div leaf_sum ws \<le> snd (sr_winners r ! i))"
  using feeSplit_solvency [OF assms] by blast

lemma ex_rules_roles:
  "sort_key role_name (read_roles ex_rules) =
    [\<lparr> role_name = ''broker'', role_bps = 160, role_address = Some (ex_pk (CHR ''a'')), role_committee = False, role_optional = False \<rparr>,
     \<lparr> role_name = ''introducer'', role_bps = 20, role_address = Some (ex_pk (CHR ''b'')), role_committee = False, role_optional = True \<rparr>,
     \<lparr> role_name = ''node'', role_bps = 0, role_address = None, role_committee = True, role_optional = False \<rparr>,
     \<lparr> role_name = ''oracle'', role_bps = 0, role_address = None, role_committee = True, role_optional = False \<rparr>,
     \<lparr> role_name = ''provider'', role_bps = 9820, role_address = None, role_committee = False, role_optional = False \<rparr>]"
  by (simp add: interim_rules_def read_roles_def read_role_def rules_roles_def role_str_def role_int_def js_present_def
      sort_key_def less_eq_char_def less_char_def toLowerCase_def lower_ex)

definition ex_split :: split_result where
  "ex_split = \<lparr> sr_degenerate = False, sr_winners = [(''a'', 654669), (''b'', 327334)],
     sr_feeLeaves = [\<lparr> fl_pk = ex_pk (CHR ''a''), fl_amount = 16000, fl_type = ''broker'' \<rparr>,
       \<lparr> fl_pk = ex_pk (CHR ''b''), fl_amount = 2000, fl_type = ''introducer'' \<rparr>],
     sr_payoutLeaves = [(''a'', 654669), (''b'', 327334), (ex_pk (CHR ''a''), 16000), (ex_pk (CHR ''b''), 2000)],
     sr_poolTotal = 1000003, sr_distributable = 982003, sr_feeSompi = 18000 \<rparr>"

lemma ex_derive: "deriveRoleFeeLeaves ex_rules 1000003 pks = Inr (sr_feeLeaves ex_split, 18000)"
  unfolding deriveRoleFeeLeaves_def ex_rules_valid ex_rules_roles
  by (simp add: ex_split_def bps_amt_def bigdiv_nonneg)

lemma ex_split: "feeSplit ex_rules 1000003 [(''A'', 2), (''b'', 1)] pks = Inr ex_split"
  by (simp add: feeSplit_def ex_derive, simp add: ex_split_def plain_leaf_def floor_shares_def bigdiv_nonneg toLowerCase_def lower_ex)

theorem feeSplit_solvent_witness: "pay_claims 1000003 [(''b'', 327334)] = Some (1000003 - 327334)"
proof -
  have "pay_claims 1000003 [(''b'', 327334)] = Some (1000003 - leaf_sum [(''b'', 327334)])"
    by (rule feeSplit_solvent [OF ex_split, THEN conjunct1]) (simp_all add: ex_split_def winners_sane_def)
  then show ?thesis by simp
qed

text \<open>The commit fixes the behaviour.  Two rule sets with the same commit split every pool in the
  same way, unless the two canonical texts are an explicit collision of the hash function.\<close>

theorem fee_commit_binds:
  assumes "computeFeeRulesCommit H fr = Inr c" "computeFeeRulesCommit H fr' = Inr c"
  shows "(\<exists>s s'. canonicalizeFeeRules fr = Inr s \<and> canonicalizeFeeRules fr' = Inr s'
      \<and> str_bytes s \<noteq> str_bytes s' \<and> H (str_bytes s) = H (str_bytes s'))
    \<or> (\<forall>pool ws pks. feeSplit fr pool ws pks = feeSplit fr' pool ws pks)"
  using fee_commit_eq [OF assms] feeSplit_same_text by metis

theorem fee_commit_binds_witness:
  "(\<exists>s s'. canonicalizeFeeRules ex_rules = Inr s \<and> canonicalizeFeeRules (interim_rules (replicate 64 (CHR ''a'')) (Some (replicate 64 (CHR ''B'')))) = Inr s'
      \<and> str_bytes s \<noteq> str_bytes s' \<and> id (str_bytes s) = id (str_bytes s'))
    \<or> (\<forall>pool ws pks. feeSplit ex_rules pool ws pks
        = feeSplit (interim_rules (replicate 64 (CHR ''a'')) (Some (replicate 64 (CHR ''B'')))) pool ws pks)"
proof -
  have "canonical_rules ex_rules = canonical_rules (interim_rules (replicate 64 (CHR ''a'')) (Some (replicate 64 (CHR ''B''))))"
    by (simp add: canonical_rules_def canonical_role_def interim_rules_def rules_roles_def role_str_def role_int_def
        js_present_def toLowerCase_def lower_ex)
  moreover have "validateFeeRules (interim_rules (replicate 64 (CHR ''a'')) (Some (replicate 64 (CHR ''B'')))) = None"
    by (rule interim_valid) (auto intro!: hex64_replicate simp: lower_ex hex_ex)
  ultimately have "canonicalizeFeeRules ex_rules = canonicalizeFeeRules (interim_rules (replicate 64 (CHR ''a'')) (Some (replicate 64 (CHR ''B''))))"
    using ex_rules_valid by (simp add: canonicalizeFeeRules_def)
  moreover obtain c where c: "computeFeeRulesCommit id ex_rules = Inr c"
    using ex_rules_valid by (simp add: computeFeeRulesCommit_def canonicalizeFeeRules_def)
  ultimately show ?thesis by (intro fee_commit_binds [OF c]) (simp add: computeFeeRulesCommit_def)
qed

end
