(* ===== verification/Payout.thy ===== *)
theory Payout
  imports Fee_Split
begin

section \<open>Pari-mutuel payouts\<close>

text \<open>
  The payout functions of \<open>kasia-console/src/lib/pool-shard-settle.mjs\<close> (\<open>computePariMutuelPayout\<close>,
  \<open>deriveFeeLeaves\<close>, \<open>deriveSettlementFeeLeaves\<close>, \<open>computeRefundPayout\<close>) and of
  \<open>pool-payout-parimutuel.mjs\<close> (\<open>computeParimutuelPayouts\<close>, \<open>computeClaimablePoolTotals\<close>).
\<close>

record bettor =
  b_pk :: hexstr
  b_direction :: int
  b_stake :: int

record fee_config =
  brokerBps :: int
  oracleBps :: int
  introBps :: int
  nodeBps :: int
  winnersBps :: int
  totalFeeBps :: int

definition FEE_CONFIG :: fee_config where
  "FEE_CONFIG = \<lparr> brokerBps = 160, oracleBps = 100, introBps = 20, nodeBps = 20, winnersBps = 9700, totalFeeBps = 300 \<rparr>"

datatype payout_error = BadDirection int | WinnerPoolNotPositive int | PoolToSplitNotPositive int
  | NoWinners | DuplicateWinner hexstr | StakeNotPositive hexstr | OverDistributed int

record pm_result =
  pm_degenerate :: bool
  pm_winners :: "leaf list"
  pm_payoutLeaves :: "leaf list"
  pm_poolTotal :: int
  pm_distributable :: int
  pm_feeSompi :: int

definition winner_stakes :: "bettor list \<Rightarrow> int \<Rightarrow> leaf list" where
  "winner_stakes bettors winningDirection =
     map (\<lambda>b. (b_pk b, b_stake b)) (filter (\<lambda>b. b_direction b = winningDirection) bettors)"

definition computePariMutuelPayout ::
  "bettor list \<Rightarrow> int \<Rightarrow> int option \<Rightarrow> int \<Rightarrow> fee_leaf list \<Rightarrow> payout_error + pm_result" where
  "computePariMutuelPayout bettors winningDirection poolTotalSompi feeBps feeLeaves =
    (if winningDirection \<noteq> 0 \<and> winningDirection \<noteq> 1 then Inl (BadDirection winningDirection)
     else
      (let pool = (case poolTotalSompi of Some p \<Rightarrow> p | None \<Rightarrow> (\<Sum>b\<leftarrow>bettors. b_stake b));
           feeFromLeaves = fee_sum feeLeaves;
           feeSompi = (if 0 < feeFromLeaves then feeFromLeaves else bigdiv (pool * feeBps) 10000);
           distributable = pool - feeSompi;
           winners = winner_stakes bettors winningDirection;
           totalWinStake = leaf_sum winners
       in if winners = [] \<or> totalWinStake = 0 then
            Inr \<lparr> pm_degenerate = True, pm_winners = [], pm_payoutLeaves = [], pm_poolTotal = pool,
              pm_distributable = distributable, pm_feeSompi = feeSompi \<rparr>
          else
            (let payouts = floor_shares id distributable totalWinStake winners;
                 assigned = leaf_sum payouts;
                 winnerLeaves = add_to_first (distributable - assigned) payouts
             in Inr \<lparr> pm_degenerate = False, pm_winners = winnerLeaves,
                  pm_payoutLeaves = winnerLeaves @ map plain_leaf feeLeaves, pm_poolTotal = pool,
                  pm_distributable = distributable, pm_feeSompi = feeSompi \<rparr>)))"

text \<open>An absent key (\<open>null\<close> or the empty string) is falsy.\<close>

definition truthy_pk :: "hexstr option \<Rightarrow> bool" where
  "truthy_pk pk = (pk \<noteq> None \<and> pk \<noteq> Some [])"

definition deriveFeeLeaves :: "int \<Rightarrow> fee_config \<Rightarrow> hexstr option \<Rightarrow> hexstr option \<Rightarrow> hexstr list \<Rightarrow> fee_leaf list \<times> int" where
  "deriveFeeLeaves pool feeConfig brokerPk introducerPk committeePks =
    (let broker = (if 0 < brokerBps feeConfig \<and> truthy_pk brokerPk
           then [\<lparr> fl_pk = toLowerCase (the brokerPk), fl_amount = bps_amt pool (brokerBps feeConfig), fl_type = ''broker'' \<rparr>] else []);
         intro = (if 0 < introBps feeConfig \<and> truthy_pk introducerPk
           then [\<lparr> fl_pk = toLowerCase (the introducerPk), fl_amount = bps_amt pool (introBps feeConfig), fl_type = ''introducer'' \<rparr>] else []);
         commBps = oracleBps feeConfig + nodeBps feeConfig;
         comm = (if 0 < commBps \<and> committeePks \<noteq> [] then committee_leaves (bps_amt pool commBps) committeePks else []);
         leaves = broker @ intro @ comm
     in (leaves, fee_sum leaves))"

text \<open>The rules \<open>deriveSettlementFeeLeaves\<close> maps a market to, and the derivation itself.\<close>

definition settlement_rules :: "hexstr option \<Rightarrow> int \<Rightarrow> json" where
  "settlement_rules brokerPk bps = JObj [(''schema_v'', JInt FEE_RULES_SCHEMA_V), (''preset'', JStr ''prediction-v2-market''),
     (''roles'', JArr (if 0 < bps \<and> truthy_pk brokerPk
        then [JObj [(''name'', JStr ''provider''), (''bps'', JInt (10000 - bps))],
              JObj [(''name'', JStr ''broker''), (''address'', JStr (toLowerCase (the brokerPk))), (''bps'', JInt bps)]]
        else [JObj [(''name'', JStr ''provider''), (''bps'', JInt 10000)]]))]"

definition deriveSettlementFeeLeaves :: "hexstr option \<Rightarrow> int \<Rightarrow> int \<Rightarrow> fee_error + fee_leaf list \<times> int" where
  "deriveSettlementFeeLeaves brokerPk brokerFeePctBps consolidatedPool =
    (if consolidatedPool \<le> 0 then Inl (PoolNotPositive consolidatedPool)
     else deriveRoleFeeLeaves (settlement_rules brokerPk brokerFeePctBps) consolidatedPool [])"

definition computeRefundPayout :: "bettor list \<Rightarrow> leaf list" where
  "computeRefundPayout bettors = map (\<lambda>b. (b_pk b, b_stake b)) bettors"

subsection \<open>\<open>pool-payout-parimutuel.mjs\<close>\<close>

fun adjacent_dup :: "leaf list \<Rightarrow> hexstr option" where
  "adjacent_dup (a # b # r) = (if fst b = fst a then Some (fst b) else adjacent_dup (b # r))"
| "adjacent_dup _ = None"

definition computeParimutuelPayouts :: "leaf list \<Rightarrow> int \<Rightarrow> int \<Rightarrow> payout_error + leaf list" where
  "computeParimutuelPayouts winners poolToSplit winnerPool =
    (if winnerPool \<le> 0 then Inl (WinnerPoolNotPositive winnerPool)
     else if poolToSplit \<le> 0 then Inl (PoolToSplitNotPositive poolToSplit)
     else if winners = [] then Inl NoWinners
     else
      (let sorted = sort_key fst winners in
       case adjacent_dup sorted of
         Some pk \<Rightarrow> Inl (DuplicateWinner pk)
       | None \<Rightarrow>
         (case find (\<lambda>w. snd w \<le> 0) sorted of
            Some w \<Rightarrow> Inl (StakeNotPositive (fst w))
          | None \<Rightarrow>
            (let payouts = floor_shares id poolToSplit winnerPool sorted;
                 dust = poolToSplit - leaf_sum payouts
             in if dust < 0 then Inl (OverDistributed dust) else Inr (add_to_first dust payouts)))))"

record pool_side =
  ps_direction :: int
  ps_stake :: int
  ps_spine :: hexstr

record pool_totals =
  yesPool :: int
  noPool :: int
  excluded :: nat

fun claimable_loop :: "pool_side list \<Rightarrow> hexstr \<Rightarrow> pool_totals \<Rightarrow> payout_error + pool_totals" where
  "claimable_loop [] spine t = Inr t"
| "claimable_loop (s # ss) spine t =
    (if ps_spine s \<noteq> spine then claimable_loop ss spine (t\<lparr> excluded := Suc (excluded t) \<rparr>)
     else if ps_stake s \<le> 0 then Inl (StakeNotPositive [])
     else if ps_direction s = 0 then claimable_loop ss spine (t\<lparr> yesPool := yesPool t + ps_stake s \<rparr>)
     else claimable_loop ss spine (t\<lparr> noPool := noPool t + ps_stake s \<rparr>))"

definition computeClaimablePoolTotals :: "pool_side list \<Rightarrow> hexstr \<Rightarrow> payout_error + pool_totals \<times> int" where
  "computeClaimablePoolTotals poolSides spine =
     map_sum id (\<lambda>t. (t, yesPool t + noPool t))
       (claimable_loop poolSides spine \<lparr> yesPool = 0, noPool = 0, excluded = 0 \<rparr>)"

subsection \<open>Lemmas\<close>

lemma adjacent_dup_sorted:
  "sorted (map fst ls) \<Longrightarrow> adjacent_dup ls = None \<longleftrightarrow> distinct (map fst ls)"
  by (induction ls rule: adjacent_dup.induct) (auto simp: order.antisym)

lemma adjacent_dup_map: "map fst ls = map fst ks \<Longrightarrow> adjacent_dup ls = adjacent_dup ks"
proof (induction ls arbitrary: ks)
  case Nil
  then show ?case by simp
next
  case (Cons a r)
  obtain a' r' where ks: "ks = a' # r'" "fst a' = fst a" "map fst r = map fst r'"
    using Cons.prems by (auto simp: map_eq_Cons_conv Cons_eq_map_conv)
  show ?case
  proof (cases r)
    case Nil
    then show ?thesis using ks by simp
  next
    case r: (Cons b q)
    then obtain b' q' where "r' = b' # q'" "fst b' = fst b" using ks(3) by (auto simp: Cons_eq_map_conv)
    then show ?thesis using ks r Cons.IH [OF ks(3)] by simp
  qed
qed

lemma sort_fst_keys: "map fst (sort_key fst ls) = sort (map fst ls)"
  by (simp add: sort_key_map comp_def)

lemma computeParimutuelPayouts_perm:
  assumes "mset ws = mset ws'"
  shows "computeParimutuelPayouts ws p t = computeParimutuelPayouts ws' p t"
proof -
  have nil: "ws = [] \<longleftrightarrow> ws' = []" using assms by auto
  have "mset (map fst ws) = mset (map fst ws')" using assms by (simp only: mset_map)
  then have keys: "map fst (sort_key fst ws) = map fst (sort_key fst ws')"
    unfolding sort_fst_keys by (metis mset_sort properties_for_sort sorted_sort)
  then have dup: "adjacent_dup (sort_key fst ws) = adjacent_dup (sort_key fst ws')"
    by (rule adjacent_dup_map)
  have "sort_key fst ws = sort_key fst ws'" if "adjacent_dup (sort_key fst ws) = None"
  proof -
    have "distinct (map fst ws)"
      using that adjacent_dup_sorted [of "sort_key fst ws"] by (simp add: distinct_sort_fst)
    then show ?thesis using sort_key_perm_eq [OF assms] by metis
  qed
  then show ?thesis
    by (simp add: computeParimutuelPayouts_def nil dup Let_def split: option.split)
qed

lemma computeParimutuelPayouts_Inr:
  assumes "computeParimutuelPayouts ws p t = Inr ls"
  shows "0 < t" "0 < p" "ws \<noteq> []" "distinct (map fst ws)" "\<forall>w \<in> set ws. 0 < snd w"
    "leaf_sum (floor_shares id p t (sort_key fst ws)) \<le> p"
    "ls = add_to_first (p - leaf_sum (floor_shares id p t (sort_key fst ws))) (floor_shares id p t (sort_key fst ws))"
proof -
  have r: "\<not> t \<le> 0" "\<not> p \<le> 0" "ws \<noteq> []" "adjacent_dup (sort_key fst ws) = None"
    "find (\<lambda>w. snd w \<le> 0) (sort_key fst ws) = None"
    "\<not> p - leaf_sum (floor_shares id p t (sort_key fst ws)) < 0"
    "ls = add_to_first (p - leaf_sum (floor_shares id p t (sort_key fst ws))) (floor_shares id p t (sort_key fst ws))"
    using assms by (auto simp: computeParimutuelPayouts_def Let_def split: if_splits option.splits)
  then show "0 < t" "0 < p" "ws \<noteq> []" "leaf_sum (floor_shares id p t (sort_key fst ws)) \<le> p"
    "ls = add_to_first (p - leaf_sum (floor_shares id p t (sort_key fst ws))) (floor_shares id p t (sort_key fst ws))"
    by simp_all
  show "distinct (map fst ws)"
    using r(4) adjacent_dup_sorted [of "sort_key fst ws"] by (simp add: distinct_sort_fst)
  show "\<forall>w \<in> set ws. 0 < snd w" using r(5) by (auto simp: find_None_iff not_le)
qed

lemma computeParimutuelPayouts_total:
  assumes "0 < p" "ws \<noteq> []" "distinct (map fst ws)" "\<forall>w \<in> set ws. 0 < snd w" "leaf_sum ws \<le> t"
  shows "\<exists>ls. computeParimutuelPayouts ws p t = Inr ls"
proof -
  let ?ws = "sort_key fst ws"
  have t: "0 < t"
  proof -
    obtain w where "w \<in> set ws" using assms(2) by (meson list.set_sel(1))
    then have "0 < snd w" "snd w \<le> leaf_sum ws" using assms(4) sum_list_member_le [of w ws snd] by (auto simp: less_imp_le)
    then show ?thesis using assms(5) by simp
  qed
  have dup: "adjacent_dup ?ws = None" using assms(3) adjacent_dup_sorted [of ?ws] by (simp add: distinct_sort_fst)
  have pos: "find (\<lambda>w. snd w \<le> 0) ?ws = None" using assms(4) by (auto simp: find_None_iff not_le)
  have nn: "\<forall>w \<in> set ?ws. 0 \<le> snd w" using assms(4) by (auto simp: less_imp_le)
  have sums: "leaf_sum ?ws = leaf_sum ws" by (metis mset_map mset_sort sum_mset_sum_list)
  have "leaf_sum (floor_shares id p t ?ws) * t \<le> leaf_sum ?ws * p"
    using floor_shares_le [of ?ws snd p t] leaf_sum_floor_shares [OF nn, of p t id] nn assms(1) t by simp
  also have "\<dots> \<le> t * p" using sums assms(1,5) by (simp add: mult_right_mono)
  finally have "leaf_sum (floor_shares id p t ?ws) \<le> p" using t by (simp add: mult.commute)
  then show ?thesis using dup pos t assms(1,2) by (simp add: computeParimutuelPayouts_def Let_def)
qed

definition parimutuel_leaves :: "leaf list \<times> int \<times> int \<Rightarrow> leaf list option" where
  "parimutuel_leaves = (\<lambda>(ws, p, t). case computeParimutuelPayouts ws p t of Inr ls \<Rightarrow> Some ls | Inl _ \<Rightarrow> None)"

interpretation pmw: pool_split parimutuel_leaves "\<lambda>(ws, p, t). p" "\<lambda>_. True"
proof
  fix x :: "leaf list \<times> int \<times> int" and ls
  obtain ws p t where x: "x = (ws, p, t)" by (cases x)
  assume "parimutuel_leaves x = Some ls"
  then have r: "computeParimutuelPayouts ws p t = Inr ls" by (auto simp: parimutuel_leaves_def x split: sum.splits)
  note f = computeParimutuelPayouts_Inr [OF r]
  show "leaf_sum ls = (case x of (ws, p, t) \<Rightarrow> p)"
    using f(3) by (simp add: x f(7) money_simps)
  show "0 \<le> snd l" if "l \<in> set ls" for l
    using that add_to_first_nonneg [of "p - leaf_sum (floor_shares id p t (sort_key fst ws))" "floor_shares id p t (sort_key fst ws)" l]
      floor_shares_nonneg [of "sort_key fst ws" p t _ id] f by (auto simp: less_imp_le)
qed

text \<open>The settle path: \<open>computePariMutuelPayout\<close> as a splitter of its pool.\<close>

definition settle_leaves :: "bettor list \<times> int \<times> int option \<times> fee_leaf list \<Rightarrow> leaf list option" where
  "settle_leaves = (\<lambda>(bs, d, pool, fl). case computePariMutuelPayout bs d pool 0 fl of
     Inr r \<Rightarrow> if pm_degenerate r then None else Some (pm_payoutLeaves r) | Inl _ \<Rightarrow> None)"

definition settle_pool :: "bettor list \<Rightarrow> int option \<Rightarrow> int" where
  "settle_pool bs pool = (case pool of Some p \<Rightarrow> p | None \<Rightarrow> (\<Sum>b\<leftarrow>bs. b_stake b))"

definition settle_sane :: "bettor list \<times> int \<times> int option \<times> fee_leaf list \<Rightarrow> bool" where
  "settle_sane = (\<lambda>(bs, d, pool, fl). list_all (\<lambda>b. 0 \<le> b_stake b) bs \<and> list_all (\<lambda>l. 0 \<le> fl_amount l) fl
     \<and> fee_sum fl \<le> settle_pool bs pool)"

lemma computePariMutuelPayout_Inr:
  assumes "computePariMutuelPayout bs d pool 0 fl = Inr r" "\<not> pm_degenerate r" "0 \<le> fee_sum fl"
  defines "w \<equiv> winner_stakes bs d" and "dd \<equiv> settle_pool bs pool - fee_sum fl"
  shows "w \<noteq> []" "leaf_sum w \<noteq> 0" "d = 0 \<or> d = 1" "pm_feeSompi r = fee_sum fl" "pm_distributable r = dd"
    "pm_winners r = add_to_first (dd - leaf_sum (floor_shares id dd (leaf_sum w) w)) (floor_shares id dd (leaf_sum w) w)"
    "pm_payoutLeaves r = pm_winners r @ map plain_leaf fl"
proof -
  have fee: "(if 0 < fee_sum fl then fee_sum fl else bigdiv (p * 0) 10000) = fee_sum fl" for p
    using assms(3) by (simp add: bigdiv_def)
  show "w \<noteq> []" "leaf_sum w \<noteq> 0" "d = 0 \<or> d = 1" "pm_feeSompi r = fee_sum fl" "pm_distributable r = dd"
    "pm_winners r = add_to_first (dd - leaf_sum (floor_shares id dd (leaf_sum w) w)) (floor_shares id dd (leaf_sum w) w)"
    "pm_payoutLeaves r = pm_winners r @ map plain_leaf fl"
    using assms(1,2) unfolding computePariMutuelPayout_def Let_def fee w_def dd_def settle_pool_def
    by (auto split: if_splits)
qed

lemma fee_sum_nonneg: "list_all (\<lambda>l. 0 \<le> fl_amount l) fl \<Longrightarrow> 0 \<le> fee_sum fl"
  by (intro sum_list_nonneg_int) (auto simp: list_all_iff)

interpretation st: pool_split settle_leaves "\<lambda>(bs, d, pool, fl). settle_pool bs pool" settle_sane
proof
  fix x :: "bettor list \<times> int \<times> int option \<times> fee_leaf list" and ls
  obtain bs d pool fl where x: "x = (bs, d, pool, fl)" by (cases x)
  assume "settle_leaves x = Some ls" and "settle_sane x"
  then obtain r where r: "computePariMutuelPayout bs d pool 0 fl = Inr r" "\<not> pm_degenerate r" "ls = pm_payoutLeaves r"
    and bs: "list_all (\<lambda>b. 0 \<le> b_stake b) bs" and fl: "list_all (\<lambda>l. 0 \<le> fl_amount l) fl"
    and le: "fee_sum fl \<le> settle_pool bs pool"
    by (auto simp: settle_leaves_def settle_sane_def x split: sum.splits if_splits)
  note f = computePariMutuelPayout_Inr [OF r(1,2) fee_sum_nonneg [OF fl]]
  show "leaf_sum ls = (case x of (bs, d, pool, fl) \<Rightarrow> settle_pool bs pool)"
    by (simp add: x r(3) f(6,7) money_simps f(1))
  have w: "winners_sane (winner_stakes bs d)"
    using bs by (auto simp: winners_sane_def winner_stakes_def list_all_iff)
  show "0 \<le> snd l" if "l \<in> set ls" for l
  proof -
    have "0 \<le> snd l" if "l \<in> set (pm_winners r)"
      using that dusted_nonneg [of "winner_stakes bs d" "settle_pool bs pool - fee_sum fl" l id] w
        winners_positive [OF w f(2)] f(1) le
      by (simp add: f(6) winners_sane_def list_all_iff)
    moreover have "0 \<le> snd l" if "l \<in> set (map plain_leaf fl)"
      using that fl by (auto simp: list_all_iff)
    ultimately show ?thesis using that by (auto simp: r(3) f(7))
  qed
qed

subsection \<open>The two splitters agree\<close>

definition lower_leaf :: "leaf \<Rightarrow> leaf" where
  "lower_leaf l = (toLowerCase (fst l), snd l)"

lemma floor_shares_lower_leaf: "map lower_leaf (floor_shares id d t ws) = floor_shares toLowerCase d t ws"
  by (auto simp: floor_shares_def lower_leaf_def)

lemma add_to_first_lower_leaf: "map lower_leaf (add_to_first x ls) = add_to_first x (map lower_leaf ls)"
  by (cases ls) (auto simp: lower_leaf_def)

lemma snd_lower_leaf [simp]: "snd \<circ> lower_leaf = snd"
  by (auto simp: lower_leaf_def)

lemma lower_leaf_lower: "\<forall>l \<in> set ls. toLowerCase (fst l) = fst l \<Longrightarrow> map lower_leaf ls = ls"
  by (simp add: lower_leaf_def map_idI)

lemma feeSplit_degenerate:
  assumes "feeSplit fr pool ws pks = Inr r" "sr_degenerate r"
  shows "ws = [] \<or> leaf_sum ws = 0" "sr_feeLeaves r = []" "sr_winners r = []" "sr_payoutLeaves r = []" "sr_feeSompi r = 0"
  using assms by (auto simp: feeSplit_def Let_def split: sum.splits prod.splits if_splits)

lemma feeSplit_settle:
  assumes split: "feeSplit fr pool (winner_stakes bs d) pks = Inr r" and d: "d = 0 \<or> d = 1"
  shows "\<exists>q. computePariMutuelPayout bs d (Some pool) 0 (sr_feeLeaves r) = Inr q \<and> pm_degenerate q = sr_degenerate r
    \<and> sr_winners r = map lower_leaf (pm_winners q)
    \<and> pm_payoutLeaves q = pm_winners q @ map plain_leaf (sr_feeLeaves r)
    \<and> sr_payoutLeaves r = sr_winners r @ map plain_leaf (sr_feeLeaves r) \<and> pm_feeSompi q = sr_feeSompi r"
proof (cases "sr_degenerate r")
  case True
  then show ?thesis using feeSplit_degenerate [OF split True] d
    by (fastforce simp: computePariMutuelPayout_def Let_def bigdiv_nonneg)
next
  case False
  let ?w = "winner_stakes bs d"
  obtain fl fee where f: "deriveRoleFeeLeaves fr pool pks = Inr (fl, fee)" and w: "?w \<noteq> []" "leaf_sum ?w \<noteq> 0"
    and s: "sr_winners r = add_to_first (pool - fee - leaf_sum (floor_shares toLowerCase (pool - fee) (leaf_sum ?w) ?w))
        (floor_shares toLowerCase (pool - fee) (leaf_sum ?w) ?w)"
    "sr_feeLeaves r = fl" "sr_payoutLeaves r = sr_winners r @ map plain_leaf fl" "sr_feeSompi r = fee"
    using split False by (rule feeSplit_Inr)
  note fee = fee_leaves_bound [OF f]
  have nn: "0 \<le> fee_sum fl" using fee(2) by (intro sum_list_nonneg_int) auto
  obtain q where q: "computePariMutuelPayout bs d (Some pool) 0 fl = Inr q" "\<not> pm_degenerate q"
    using d w by (fastforce simp: computePariMutuelPayout_def Let_def)
  note g = computePariMutuelPayout_Inr [OF q nn]
  have "sr_winners r = map lower_leaf (pm_winners q)"
    using g s(1) fee(1) by (simp add: add_to_first_lower_leaf settle_pool_def flip: floor_shares_lower_leaf)
  then show ?thesis using q g s fee(1) False by (simp add: settle_pool_def)
qed

text \<open>The role-based derivation on the prediction preset, with its addresses filled in, is the
  derivation of the settle path with \<open>FEE_CONFIG\<close>.\<close>

definition prediction_rules :: "hexstr \<Rightarrow> hexstr option \<Rightarrow> json" where
  "prediction_rules broker intro = JObj [(''schema_v'', JInt FEE_RULES_SCHEMA_V), (''preset'', JStr ''prediction''),
     (''roles'', JArr [JObj [(''name'', JStr ''provider''), (''bps'', JInt 9700)],
        JObj [(''name'', JStr ''broker''), (''bps'', JInt 160), (''address'', JStr broker)],
        JObj ([(''name'', JStr ''introducer''), (''bps'', JInt 20), (''optional'', JBool True)]
          @ (case intro of None \<Rightarrow> [] | Some i \<Rightarrow> [(''address'', JStr i)])),
        JObj [(''name'', JStr ''oracle''), (''bps'', JInt 100), (''derive'', JStr ''committee'')],
        JObj [(''name'', JStr ''node''), (''bps'', JInt 20), (''derive'', JStr ''committee'')]])]"

lemmas rule_eval = validateFeeRules_def check_role_def check_payee_def rules_roles_def role_str_def role_int_def
  is_js_object_def js_present_def TOP_KEYS_def ROLE_KEYS_def SUPPORTED_SCHEMA_VERSIONS_def
  PROVIDER_MIN_BPS_def ROLE_MAX_BPS_def FEE_RULES_SCHEMA_V_def Let_def

lemma prediction_rules_valid:
  assumes "hex64 (toLowerCase broker)" "\<And>i. intro = Some i \<Longrightarrow> hex64 (toLowerCase i)"
  shows "validateFeeRules (prediction_rules broker intro) = None"
  using assms by (cases intro) (simp_all add: prediction_rules_def rule_eval)

lemma prediction_rules_roles:
  "sort_key role_name (read_roles (prediction_rules broker intro)) =
    [\<lparr> role_name = ''broker'', role_bps = 160, role_address = Some (toLowerCase broker), role_committee = False, role_optional = False \<rparr>,
     \<lparr> role_name = ''introducer'', role_bps = 20, role_address = map_option toLowerCase intro, role_committee = False, role_optional = True \<rparr>,
     \<lparr> role_name = ''node'', role_bps = 20, role_address = None, role_committee = True, role_optional = False \<rparr>,
     \<lparr> role_name = ''oracle'', role_bps = 100, role_address = None, role_committee = True, role_optional = False \<rparr>,
     \<lparr> role_name = ''provider'', role_bps = 9700, role_address = None, role_committee = False, role_optional = False \<rparr>]"
  by (cases intro) (simp_all add: prediction_rules_def read_roles_def read_role_def rule_eval sort_key_def less_eq_char_def less_char_def)

lemma derive_paths_agree:
  assumes "hex64 (toLowerCase broker)" "\<And>i. intro = Some i \<Longrightarrow> hex64 (toLowerCase i)" "0 < pool"
  shows "deriveRoleFeeLeaves (prediction_rules broker intro) pool pks
    = Inr (deriveFeeLeaves pool FEE_CONFIG (Some broker) intro pks)"
proof -
  have ne: "broker \<noteq> []" "\<And>i. intro = Some i \<Longrightarrow> i \<noteq> []"
    using assms(1,2) by (auto simp: hex64_def toLowerCase_def)
  have v: "validateFeeRules (prediction_rules broker intro) = None"
    by (rule prediction_rules_valid [OF assms(1,2)])
  show ?thesis
    unfolding deriveRoleFeeLeaves_def v prediction_rules_roles using ne assms(3)
    by (cases intro) (simp_all add: deriveFeeLeaves_def FEE_CONFIG_def truthy_pk_def Let_def)
qed

lemma settlement_fee:
  assumes "0 < pool" "0 < bps" "bps \<le> 5000" "hex64 (toLowerCase b)"
  shows "deriveSettlementFeeLeaves (Some b) bps pool
    = Inr ([\<lparr> fl_pk = toLowerCase b, fl_amount = pool * bps div 10000, fl_type = ''broker'' \<rparr>], pool * bps div 10000)"
proof -
  have b: "b \<noteq> []" using assms(4) by (auto simp: hex64_def toLowerCase_def)
  have "validateFeeRules (settlement_rules (Some b) bps) = None"
    using assms b by (simp add: settlement_rules_def truthy_pk_def rule_eval)
  moreover have "sort_key role_name (read_roles (settlement_rules (Some b) bps)) =
     [\<lparr> role_name = ''broker'', role_bps = bps, role_address = Some (toLowerCase b), role_committee = False, role_optional = False \<rparr>,
      \<lparr> role_name = ''provider'', role_bps = 10000 - bps, role_address = None, role_committee = False, role_optional = False \<rparr>]"
    using assms b
    by (simp add: settlement_rules_def truthy_pk_def read_roles_def read_role_def rule_eval sort_key_def less_eq_char_def less_char_def)
  ultimately show ?thesis
    using assms b by (simp add: deriveSettlementFeeLeaves_def deriveRoleFeeLeaves_def bps_amt_def bigdiv_nonneg)
qed

subsection \<open>Properties\<close>

text \<open>C40: the settle path and the fee component compute the same split: whenever \<open>feeSplit\<close> accepts the
  winning side of a list of bettors, \<open>computePariMutuelPayout\<close>, fed with its fee leaves, succeeds, calls
  the same pools degenerate, takes the same fee, and pays the same amounts in the same order: the same fee
  leaves after the winners' leaves, which differ at most in the letter case of their keys (\<open>feeSplit\<close>
  lower-cases them, the settle path keeps them) and are the same where the winners' keys are in lower case.\<close>

theorem settle_paths_agree:
  assumes "feeSplit fr pool (winner_stakes bs d) pks = Inr r" and "d = 0 \<or> d = 1"
  shows "\<exists>q. computePariMutuelPayout bs d (Some pool) 0 (sr_feeLeaves r) = Inr q \<and> pm_degenerate q = sr_degenerate r
    \<and> pm_feeSompi q = sr_feeSompi r
    \<and> (\<exists>ws. pm_payoutLeaves q = ws @ map plain_leaf (sr_feeLeaves r)
        \<and> sr_payoutLeaves r = map (\<lambda>w. (toLowerCase (fst w), snd w)) ws @ map plain_leaf (sr_feeLeaves r)
        \<and> ((\<forall>w \<in> set ws. toLowerCase (fst w) = fst w) \<longrightarrow> pm_payoutLeaves q = sr_payoutLeaves r))"
proof -
  obtain q where q: "computePariMutuelPayout bs d (Some pool) 0 (sr_feeLeaves r) = Inr q" "pm_degenerate q = sr_degenerate r"
    "sr_winners r = map lower_leaf (pm_winners q)" "pm_payoutLeaves q = pm_winners q @ map plain_leaf (sr_feeLeaves r)"
    "sr_payoutLeaves r = sr_winners r @ map plain_leaf (sr_feeLeaves r)" "pm_feeSompi q = sr_feeSompi r"
    using feeSplit_settle [OF assms] by blast
  have "\<forall>w \<in> set (pm_winners q). toLowerCase (fst w) = fst w \<Longrightarrow> pm_payoutLeaves q = sr_payoutLeaves r"
    using q(3-5) lower_leaf_lower by simp
  moreover have "map lower_leaf (pm_winners q) = map (\<lambda>w. (toLowerCase (fst w), snd w)) (pm_winners q)"
    by (simp add: lower_leaf_def)
  ultimately show ?thesis
    by (intro exI [of _ q] exI [of _ "pm_winners q"] conjI impI) (simp_all only: q)
qed

definition ex_bettors :: "bettor list" where
  "ex_bettors = [\<lparr> b_pk = ''Aa'', b_direction = 0, b_stake = 5 \<rparr>, \<lparr> b_pk = ''bb'', b_direction = 1, b_stake = 7 \<rparr>,
     \<lparr> b_pk = ''cc'', b_direction = 0, b_stake = 2 \<rparr>]"

definition ex_settle :: split_result where
  "ex_settle = \<lparr> sr_degenerate = False, sr_winners = [(''aa'', 701431), (''cc'', 280572)], sr_feeLeaves = sr_feeLeaves ex_split,
     sr_payoutLeaves = [(''aa'', 701431), (''cc'', 280572), (ex_pk (CHR ''a''), 16000), (ex_pk (CHR ''b''), 2000)],
     sr_poolTotal = 1000003, sr_distributable = 982003, sr_feeSompi = 18000 \<rparr>"

lemma ex_settle: "feeSplit ex_rules 1000003 (winner_stakes ex_bettors 0) pks = Inr ex_settle"
  by (simp add: feeSplit_def ex_derive, simp add: ex_split_def ex_settle_def ex_bettors_def winner_stakes_def
      plain_leaf_def floor_shares_def bigdiv_nonneg toLowerCase_def lower_ex)

theorem settle_paths_agree_witness:
  "\<exists>q ws. computePariMutuelPayout ex_bettors 0 (Some 1000003) 0 (sr_feeLeaves ex_settle) = Inr q
    \<and> sr_payoutLeaves ex_settle = map (\<lambda>w. (toLowerCase (fst w), snd w)) ws @ map plain_leaf (sr_feeLeaves ex_settle)
    \<and> pm_payoutLeaves q = ws @ map plain_leaf (sr_feeLeaves ex_settle)"
  using settle_paths_agree [OF ex_settle] by blast

text \<open>\<open>computeParimutuelPayouts\<close> does not depend on the order in which the winners are listed,
  errors included.\<close>

theorem parimutuel_order_free:
  assumes "mset ws = mset ws'"
  shows "computeParimutuelPayouts ws p t = computeParimutuelPayouts ws' p t"
  by (rule computeParimutuelPayouts_perm [OF assms])

theorem parimutuel_order_free_witness:
  "computeParimutuelPayouts [(''b'', 2), (''a'', 5)] 100 7 = computeParimutuelPayouts [(''a'', 5), (''b'', 2)] 100 7"
  by (rule parimutuel_order_free) simp

text \<open>C35: for distinct winners with positive stakes inside the winner pool, \<open>computeParimutuelPayouts\<close>
  returns a list of payouts, which add up to the pool and can be claimed in any order.\<close>

theorem parimutuel_total_solvent:
  assumes "0 < p" "ws \<noteq> []" "distinct (map fst ws)" "\<forall>w \<in> set ws. 0 < snd w" "leaf_sum ws \<le> t"
  shows "\<exists>ls. computeParimutuelPayouts ws p t = Inr ls \<and> leaf_sum ls = p
    \<and> (\<forall>cs. mset cs \<subseteq># mset ls \<longrightarrow> pay_claims p cs = Some (p - leaf_sum cs))"
proof -
  obtain ls where ls: "computeParimutuelPayouts ws p t = Inr ls"
    using computeParimutuelPayouts_total [OF assms] by blast
  then have s: "parimutuel_leaves (ws, p, t) = Some ls" by (simp add: parimutuel_leaves_def)
  show ?thesis using ls pmw.conserved [OF s] pmw.claims_solvent [OF s] by auto
qed

theorem parimutuel_total_solvent_witness:
  "\<exists>ls. computeParimutuelPayouts [(''b'', 2), (''a'', 5)] 100 7 = Inr ls \<and> leaf_sum ls = 100"
  using parimutuel_total_solvent [of 100 "[(''b'', 2), (''a'', 5)]" 7] by auto

text \<open>The older fee derivation with \<open>FEE_CONFIG\<close> is the role-based derivation on the prediction
  preset with its addresses filled in, with and without an introducer.\<close>

theorem fee_derivations_agree:
  assumes "hex64 (toLowerCase broker)" "\<And>i. intro = Some i \<Longrightarrow> hex64 (toLowerCase i)" "0 < pool"
  shows "deriveRoleFeeLeaves (prediction_rules broker intro) pool pks
    = Inr (deriveFeeLeaves pool FEE_CONFIG (Some broker) intro pks)"
  by (rule derive_paths_agree [OF assms])

theorem fee_derivations_agree_witness:
  "deriveRoleFeeLeaves (prediction_rules (ex_pk (CHR ''a'')) None) 1000003 [''d'', ''c'']
    = Inr (deriveFeeLeaves 1000003 FEE_CONFIG (Some (ex_pk (CHR ''a''))) None [''d'', ''c''])"
  by (rule fee_derivations_agree) (code_simp, simp_all)

end
