(* ===== verification/Merkle.thy ===== *)
theory Merkle
  imports Prelude
begin

section \<open>Merkle trees over a hash parameter\<close>

text \<open>
  The tree-building loop the three Merkle modules share (a level of nodes is folded pairwise into the
  next one), the siblings of a leaf, and the climb that the contracts and the off-chain verifiers run.
  The hash \<open>H\<close> stands for \<open>blake2b(\<sqdot>, { dkLen: 32 })\<close> of the library \<open>@noble/hashes\<close>; it is an
  argument everywhere.  What a commitment scheme must offer is the locale \<open>commitment_tree\<close>: honest
  openings verify, and a dishonest opening exhibits a collision of \<open>H\<close> among inputs that were really
  hashed while climbing and while building the tree.
\<close>

definition ZERO32 :: buf where
  "ZERO32 = replicate 32 0"

text \<open>The inputs hashed for one level, and the level they give.  Levels have even length (a power of
  two), so the last two equations are never reached from the program.\<close>

fun pair_cat :: "buf list \<Rightarrow> buf list" where
  "pair_cat (a # b # r) = (a @ b) # pair_cat r"
| "pair_cat [a] = []"
| "pair_cat [] = []"

definition pair_up :: "(buf \<Rightarrow> buf) \<Rightarrow> buf list \<Rightarrow> buf list" where
  "pair_up H l = map H (pair_cat l)"

fun build_levels :: "(buf \<Rightarrow> buf) \<Rightarrow> nat \<Rightarrow> buf list \<Rightarrow> buf list list" where
  "build_levels H 0 l = [l]"
| "build_levels H (Suc d) l = l # build_levels H d (pair_up H l)"

text \<open>\<open>for lvl: sibs.push(levels[lvl][pos ^ 1]); pos >>= 1\<close>\<close>

fun siblings_from :: "buf list list \<Rightarrow> nat \<Rightarrow> buf option list" where
  "siblings_from [] pos = []"
| "siblings_from (l # ls) pos = js_idx l (if even pos then pos + 1 else pos - 1) # siblings_from ls (pos div 2)"

text \<open>\<open>b = (idx >> lvl) & 1; cur = b === 0 ? H(cur, sib) : H(sib, cur)\<close>\<close>

definition climb_cat :: "buf \<Rightarrow> nat \<Rightarrow> buf \<Rightarrow> buf" where
  "climb_cat cur idx sib = (if even idx then cur @ sib else sib @ cur)"

fun climb :: "(buf \<Rightarrow> buf) \<Rightarrow> buf \<Rightarrow> nat \<Rightarrow> buf list \<Rightarrow> buf" where
  "climb H cur idx [] = cur"
| "climb H cur idx (s # ss) = climb H (H (climb_cat cur idx s)) (idx div 2) ss"

text \<open>The inputs a climb and a construction hash.\<close>

fun climb_inputs :: "(buf \<Rightarrow> buf) \<Rightarrow> buf \<Rightarrow> nat \<Rightarrow> buf list \<Rightarrow> buf list" where
  "climb_inputs H cur idx [] = []"
| "climb_inputs H cur idx (s # ss) = climb_cat cur idx s # climb_inputs H (H (climb_cat cur idx s)) (idx div 2) ss"

fun tree_inputs :: "(buf \<Rightarrow> buf) \<Rightarrow> nat \<Rightarrow> buf list \<Rightarrow> buf list" where
  "tree_inputs H 0 l = []"
| "tree_inputs H (Suc d) l = pair_cat l @ tree_inputs H d (pair_up H l)"

definition tree_root :: "(buf \<Rightarrow> buf) \<Rightarrow> nat \<Rightarrow> buf list \<Rightarrow> buf" where
  "tree_root H d l = build_levels H d l ! d ! 0"

subsection \<open>Shape\<close>

lemma length_pair_cat: "length (pair_cat l) = length l div 2"
  by (induction l rule: pair_cat.induct) auto

lemma length_pair_up [simp]: "length (pair_up H l) = length l div 2"
  by (simp add: pair_up_def length_pair_cat)

lemma pair_cat_nth: "2 * j + 1 < length l \<Longrightarrow> pair_cat l ! j = l ! (2 * j) @ l ! (2 * j + 1)"
proof (induction l arbitrary: j rule: pair_cat.induct)
  case (1 a b r)
  then show ?case by (cases j) auto
qed auto

lemma pair_up_nth: "2 * j + 1 < length l \<Longrightarrow> pair_up H l ! j = H (l ! (2 * j) @ l ! (2 * j + 1))"
  by (simp add: pair_up_def length_pair_cat pair_cat_nth)

lemma length_build_levels [simp]: "length (build_levels H d l) = Suc d"
  by (induction d arbitrary: l) auto

lemma build_levels_hd: "build_levels H d l ! 0 = l"
  by (cases d) auto

lemma tree_root_0: "tree_root H 0 l = l ! 0"
  by (simp add: tree_root_def)

lemma tree_root_Suc: "tree_root H (Suc d) l = tree_root H d (pair_up H l)"
  by (simp add: tree_root_def)

lemma length_climb_inputs [simp]: "length (climb_inputs H x i ss) = length ss"
  by (induction ss arbitrary: x i) auto

definition hash32 :: "(buf \<Rightarrow> buf) \<Rightarrow> bool" where
  "hash32 H = (\<forall>x. length (H x) = 32)"

lemma hash32_pair_up: "hash32 H \<Longrightarrow> x \<in> set (pair_up H l) \<Longrightarrow> length x = 32"
  by (auto simp: pair_up_def hash32_def)

subsection \<open>Honest proofs verify\<close>

definition siblings :: "(buf \<Rightarrow> buf) \<Rightarrow> nat \<Rightarrow> buf list \<Rightarrow> nat \<Rightarrow> buf option list" where
  "siblings H d l i = siblings_from (take d (build_levels H d l)) i"

lemma siblings_Suc:
  "siblings H (Suc d) l i = js_idx l (if even i then i + 1 else i - 1) # siblings H d (pair_up H l) (i div 2)"
  by (simp add: siblings_def)

lemma sibling_in_range: "i < 2 * n \<Longrightarrow> (if even i then i + 1 else i - 1) < 2 * (n::nat)"
  by (auto elim!: evenE)

lemma pair_parent:
  assumes "length l = 2 * n" "i < 2 * n"
  shows "pair_up H l ! (i div 2) = H (climb_cat (l ! i) i (l ! (if even i then i + 1 else i - 1)))"
    and "pair_cat l ! (i div 2) = climb_cat (l ! i) i (l ! (if even i then i + 1 else i - 1))"
    and "pair_cat l ! (i div 2) \<in> set (pair_cat l)"
proof -
  have k: "2 * (i div 2) + 1 < length l" using assms by presburger
  show c: "pair_cat l ! (i div 2) = climb_cat (l ! i) i (l ! (if even i then i + 1 else i - 1))"
    using pair_cat_nth [OF k] by (auto simp: climb_cat_def elim!: evenE oddE)
  have len: "i div 2 < length (pair_cat l)" using assms by (simp add: length_pair_cat less_mult_imp_div_less)
  then show "pair_up H l ! (i div 2) = H (climb_cat (l ! i) i (l ! (if even i then i + 1 else i - 1)))"
    by (simp only: pair_up_def nth_map c)
  show "pair_cat l ! (i div 2) \<in> set (pair_cat l)" using len by simp
qed

lemma siblings_climb:
  assumes "length l = 2 ^ d" "i < 2 ^ d"
  shows "\<exists>ss. siblings H d l i = map Some ss \<and> length ss = d \<and> climb H (l ! i) i ss = tree_root H d l"
  using assms
proof (induction d arbitrary: l i)
  case 0
  then show ?case by (simp add: siblings_def tree_root_0)
next
  case (Suc d)
  let ?j = "if even i then i + 1 else i - 1"
  have "length (pair_up H l) = 2 ^ d" "i div 2 < 2 ^ d" using Suc.prems by auto
  then obtain ss where ss: "siblings H d (pair_up H l) (i div 2) = map Some ss" "length ss = d"
    "climb H (pair_up H l ! (i div 2)) (i div 2) ss = tree_root H d (pair_up H l)"
    using Suc.IH by blast
  have "js_idx l ?j = Some (l ! ?j)" using sibling_in_range [of i "2 ^ d"] Suc.prems by (simp add: js_idx_Some)
  then have "siblings H (Suc d) l i = map Some (l ! ?j # ss)" by (simp only: siblings_Suc ss(1) list.map)
  moreover have "climb H (l ! i) i (l ! ?j # ss) = tree_root H (Suc d) l"
    using ss(3) pair_parent(1) [of l "2 ^ d" i H] Suc.prems by (simp add: tree_root_Suc)
  ultimately show ?case using ss(2) by (intro exI [of _ "l ! ?j # ss"]) simp
qed

subsection \<open>A dishonest proof is a collision\<close>

definition collides :: "(buf \<Rightarrow> buf) \<Rightarrow> buf list \<Rightarrow> buf list \<Rightarrow> bool" where
  "collides H as bs = (\<exists>a \<in> set as. \<exists>b \<in> set bs. a \<noteq> b \<and> H a = H b)"

lemma collides_in: "a \<in> set as \<Longrightarrow> b \<in> set bs \<Longrightarrow> a \<noteq> b \<Longrightarrow> H a = H b \<Longrightarrow> collides H as bs"
  by (auto simp: collides_def)

lemma collides_mono: "collides H as bs \<Longrightarrow> collides H (as @ as') (bs @ bs')"
  by (auto simp: collides_def)

lemma climb_cat_inj:
  assumes "climb_cat x i s = climb_cat y i t" "length x = length y"
  shows "x = y"
proof (cases "even i")
  case True
  then show ?thesis using assms by (simp add: climb_cat_def)
next
  case False
  then have "s @ x = t @ y" using assms(1) by (simp add: climb_cat_def)
  moreover have "length s = length t" using calculation assms(2) by (metis add_right_cancel length_append)
  ultimately show ?thesis by simp
qed

lemma climb_binds:
  assumes "hash32 H" "length l = 2 ^ d" "i < 2 ^ d" "\<forall>y \<in> set l. length y = 32" "length x = 32" "length ss = d"
    and "climb H x i ss = tree_root H d l" "x \<noteq> l ! i"
  shows "collides H (climb_inputs H x i ss) (tree_inputs H d l)"
  using assms(2-8)
proof (induction d arbitrary: l i x ss)
  case 0
  then show ?case by (simp add: tree_root_0)
next
  case (Suc d)
  obtain s rs where ss: "ss = s # rs" "length rs = d" using Suc.prems(5) by (cases ss) auto
  let ?p = "climb_cat x i s" and ?q = "climb_cat (l ! i) i (l ! (if even i then i + 1 else i - 1))"
  have l2: "length l = 2 * 2 ^ d" "i < 2 * 2 ^ d" using Suc.prems(1,2) by simp_all
  note par = pair_parent [OF l2]
  have "i < length l" using Suc.prems(1,2) by simp
  then have "length (l ! i) = 32" using Suc.prems(3) by simp
  then have ne: "?p \<noteq> ?q" using climb_cat_inj [of x i s "l ! i"] Suc.prems(4,7) by metis
  have q: "?q \<in> set (tree_inputs H (Suc d) l)" using par(2,3) by simp
  show ?case
  proof (cases "H ?p = H ?q")
    case True
    then show ?thesis using ne q by (auto simp: collides_def ss(1))
  next
    case False
    have "collides H (climb_inputs H (H ?p) (i div 2) rs) (tree_inputs H d (pair_up H l))"
    proof (rule Suc.IH)
      show "length (pair_up H l) = 2 ^ d" "i div 2 < 2 ^ d" using Suc.prems(1,2) by auto
      show "\<forall>y \<in> set (pair_up H l). length y = 32" using hash32_pair_up [OF assms(1)] by blast
      show "length (H ?p) = 32" using assms(1) by (simp add: hash32_def)
      show "length rs = d" by (fact ss(2))
      show "climb H (H ?p) (i div 2) rs = tree_root H d (pair_up H l)"
        using Suc.prems(6) by (simp add: ss(1) tree_root_Suc)
      show "H ?p \<noteq> pair_up H l ! (i div 2)" using False par(1) [of H] by simp
    qed
    then show ?thesis by (auto simp: collides_def ss(1))
  qed
qed

subsection \<open>The interface of a commitment\<close>

locale commitment_tree =
  fixes commit :: "(buf \<Rightarrow> buf) \<Rightarrow> 'i \<Rightarrow> buf option"
    and leaf_at :: "(buf \<Rightarrow> buf) \<Rightarrow> 'i \<Rightarrow> nat \<Rightarrow> buf"
    and proof_of :: "(buf \<Rightarrow> buf) \<Rightarrow> 'i \<Rightarrow> nat \<Rightarrow> buf option list"
    and depth :: "'i \<Rightarrow> nat"
    and inputs :: "(buf \<Rightarrow> buf) \<Rightarrow> 'i \<Rightarrow> buf list"
  assumes opens: "commit H x = Some r \<Longrightarrow> i < 2 ^ depth x \<Longrightarrow>
      \<exists>ss. proof_of H x i = map Some ss \<and> length ss = depth x \<and> climb H (leaf_at H x i) i ss = r"
    and binds: "hash32 H \<Longrightarrow> commit H x = Some r \<Longrightarrow> i < 2 ^ depth x \<Longrightarrow> length y = 32 \<Longrightarrow> length ss = depth x \<Longrightarrow>
      climb H y i ss = r \<Longrightarrow> y \<noteq> leaf_at H x i \<Longrightarrow> collides H (climb_inputs H y i ss) (inputs H x)"
begin

text \<open>One root opens to one leaf per position.\<close>

lemma two_openings:
  assumes "hash32 H" "commit H x = Some r" "i < 2 ^ depth x" "length y = 32" "length y' = 32"
    and "length ss = depth x" "length ss' = depth x" "climb H y i ss = r" "climb H y' i ss' = r" "y \<noteq> y'"
  shows "collides H (climb_inputs H y i ss) (inputs H x) \<or> collides H (climb_inputs H y' i ss') (inputs H x)"
  using binds [OF assms(1-4) assms(6,8)] binds [OF assms(1-3) assms(5,7,9)] assms(10) by metis

text \<open>Two trees of one depth with the same root have the same leaves.\<close>

lemma same_root:
  assumes "hash32 H" "commit H x = Some r" "commit H x' = Some r" "depth x = depth x'" "i < 2 ^ depth x"
    and "length (leaf_at H x' i) = 32" "leaf_at H x i \<noteq> leaf_at H x' i"
  shows "\<exists>ss. proof_of H x' i = map Some ss \<and> collides H (climb_inputs H (leaf_at H x' i) i ss) (inputs H x)"
proof -
  obtain ss where ss: "proof_of H x' i = map Some ss" "length ss = depth x'" "climb H (leaf_at H x' i) i ss = r"
    using opens [OF assms(3)] assms(4,5) by metis
  then show ?thesis using binds [OF assms(1,2,5,6) _ ss(3)] assms(4,7) by metis
qed

end

end
