(* ===== verification/Payout_Root.thy ===== *)
theory Payout_Root
  imports Merkle
begin

unbundle bit_operations_syntax

section \<open>Payout roots and the bet chain\<close>

text \<open>
  \<open>kasia-console/src/lib/pool-payout-root.mjs\<close> and the tree half of \<open>pool-payout-parimutuel.mjs\<close>:
  the byte encoding of an amount, leaves, the depth-10 payout tree of a payout shard, the tree of
  variable depth of a logical market, and the hash chain over the bets.
\<close>

datatype merkle_error = NumberTooLong int nat | PkLength nat | AmountNotPositive int | BadDir int
  | TooManyWinners nat | NoPayouts | SiblingMissing | BetNotAnchored hexstr | PoolEmpty | PoolTooLarge nat
  | LeafIndexRange | SiblingCount nat | BadPkHex hexstr | CommitteeNotFive nat

subsection \<open>\<open>serializeI64\<close>\<close>

text \<open>The loop over the magnitude: little endian, one more zero byte when the top bit is taken.\<close>

fun ser_bytes :: "nat \<Rightarrow> bool \<Rightarrow> buf" where
  "ser_bytes p lastSaturated =
    (if p = 0 then (if lastSaturated then [0] else [])
     else of_nat (p mod 256) # ser_bytes (p div 256) (128 \<le> p mod 256))"

declare ser_bytes.simps [simp del]

definition serializeI64 :: "int \<Rightarrow> nat option \<Rightarrow> merkle_error + buf" where
  "serializeI64 num sz =
    (let bytes = ser_bytes (nat \<bar>num\<bar>) False in
     case sz of
       Some k \<Rightarrow>
         (if length bytes > k then Inl (NumberTooLong num k)
          else (let padded = bytes @ replicate (k - length bytes) 0 in
            Inr (if num < 0 then padded[length padded - 1 := last padded OR 0x80] else padded)))
     | None \<Rightarrow> Inr (if num < 0 then bytes[length bytes - 1 := last bytes OR 0x80] else bytes))"

text \<open>The reading of sign-magnitude bytes.\<close>

definition i64_val :: "buf \<Rightarrow> int" where
  "i64_val bs = (if bs = [] then 0
     else (let m = le_val (butlast bs) + 256 ^ (length bs - 1) * (unat (last bs) mod 128) in
       if 128 \<le> unat (last bs) then - int m else int m))"

lemma ser_bytes_0 [simp]: "ser_bytes 0 s = (if s then [0] else [])"
  by (simp add: ser_bytes.simps)

lemma ser_bytes_val: "le_val (ser_bytes p s) = p"
proof (induction p s rule: ser_bytes.induct)
  case (1 p s)
  show ?case
  proof (cases "p = 0")
    case False
    then have "le_val (ser_bytes p s) = p mod 256 + 256 * (p div 256)"
      using "1.IH" by (simp add: ser_bytes.simps [of p] unat_of_nat)
    then show ?thesis by simp
  qed simp
qed

lemma ser_bytes_last: "ser_bytes p s \<noteq> [] \<Longrightarrow> unat (last (ser_bytes p s)) < 128"
proof (induction p s rule: ser_bytes.induct)
  case (1 p s)
  show ?case
  proof (cases "p = 0")
    case True
    then show ?thesis using "1.prems" by (simp split: if_splits)
  next
    case False
    let ?r = "ser_bytes (p div 256) (128 \<le> p mod 256)"
    show ?thesis
    proof (cases "?r = []")
      case True
      then have "p div 256 = 0" "p mod 256 < 128"
        using ser_bytes_val [of "p div 256" "128 \<le> p mod 256"] by (auto split: if_splits)
      then show ?thesis using False by (simp add: ser_bytes.simps [of p] True unat_of_nat)
    next
      case r: False
      then show ?thesis using "1.IH" [OF False r] False by (simp add: ser_bytes.simps [of p s])
    qed
  qed
qed

lemma ser_bytes_length: "length (ser_bytes p s) \<le> Suc k" if "p < 128 * 256 ^ k"
  using that
proof (induction p s arbitrary: k rule: ser_bytes.induct)
  case (1 p s)
  show ?case
  proof (cases "p = 0")
    case False
    show ?thesis
    proof (cases k)
      case 0
      then have "p < 128" using "1.prems" by simp
      then show ?thesis using False by (simp add: ser_bytes.simps [of p])
    next
      case (Suc j)
      then have "p div 256 < 128 * 256 ^ j" using "1.prems" by (simp add: less_mult_imp_div_less mult.assoc mult.commute)
      then show ?thesis using "1.IH" [OF False] False Suc by (simp add: ser_bytes.simps [of p])
    qed
  qed simp
qed

lemma or_128: "unat w < 128 \<Longrightarrow> unat ((w :: byte) OR 128) = unat w + 128"
proof -
  have all: "list_all (\<lambda>n. unat ((of_nat n :: byte) OR 128) = n + 128) [0..<128]" by code_simp
  assume "unat w < 128"
  then have "unat ((of_nat (unat w) :: byte) OR 128) = unat w + 128"
    using all unfolding list_all_iff by (metis atLeastLessThan_iff le0 set_upt)
  then show ?thesis by simp
qed

lemma i64_val_plain: "bs \<noteq> [] \<Longrightarrow> unat (last bs) < 128 \<Longrightarrow> i64_val bs = int (le_val bs)"
  using le_val_append [of "butlast bs" "[last bs]"] by (simp add: i64_val_def Let_def)

lemma i64_val_signed:
  assumes "bs \<noteq> []" "unat (last bs) < 128"
  shows "i64_val (bs[length bs - 1 := last bs OR 0x80]) = - int (le_val bs)"
proof -
  have "bs[length bs - 1 := last bs OR 0x80] = butlast bs @ [last bs OR 0x80]"
    using assms(1) by (metis append_butlast_last_id length_butlast list_update_length)
  then show ?thesis
    using or_128 [OF assms(2)] assms le_val_append [of "butlast bs" "[last bs]"] by (simp add: i64_val_def Let_def)
qed

lemma serializeI64_roundtrip:
  assumes "serializeI64 num (Some k) = Inr bs"
  shows "length bs = k" "i64_val bs = num"
proof -
  let ?b = "ser_bytes (nat \<bar>num\<bar>) False"
  let ?p = "?b @ replicate (k - length ?b) 0"
  have le: "length ?b \<le> k" and bs: "bs = (if num < 0 then ?p[length ?p - 1 := last ?p OR 0x80] else ?p)"
    using assms by (auto simp: serializeI64_def Let_def split: if_splits)
  show "length bs = k"
    unfolding bs using le by (cases "num < 0") simp_all
  have val: "le_val ?p = nat \<bar>num\<bar>" by (simp add: le_val_append ser_bytes_val)
  show "i64_val bs = num"
  proof (cases "?p = []")
    case True
    then show ?thesis using val by (simp add: bs i64_val_def)
  next
    case False
    then have "unat (last ?p) < 128" using ser_bytes_last [of "nat \<bar>num\<bar>" False] le by (cases "?b = []") (auto simp: last_append)
    then show ?thesis using i64_val_plain [OF False] i64_val_signed [OF False] val by (cases "num < 0") (simp_all add: bs)
  qed
qed

lemma serializeI64_fits:
  assumes "\<bar>num\<bar> < 2 ^ (8 * k + 7)"
  shows "\<exists>bs. serializeI64 num (Some (Suc k)) = Inr bs"
proof -
  have "nat \<bar>num\<bar> < 128 * 256 ^ k"
    using assms by (simp add: nat_less_iff power_add power_mult)
  then show ?thesis using ser_bytes_length [of "nat \<bar>num\<bar>" k False] by (auto simp: serializeI64_def Let_def)
qed

lemma serializeI64_inj:
  "serializeI64 m (Some k) = Inr bs \<Longrightarrow> serializeI64 n (Some k) = Inr bs \<Longrightarrow> m = n"
  using serializeI64_roundtrip(2) by metis

subsection \<open>Leaves\<close>

definition pk_amount_bytes :: "hexstr \<Rightarrow> int \<Rightarrow> merkle_error + buf" where
  "pk_amount_bytes pkHex amount =
    (let pk = hex_decode pkHex in
     if length pk \<noteq> 32 then Inl (PkLength (length pk))
     else if amount \<le> 0 then Inl (AmountNotPositive amount)
     else map_sum id (\<lambda>b. pk @ b) (serializeI64 amount (Some 8)))"

definition payoutLeaf :: "(buf \<Rightarrow> buf) \<Rightarrow> hexstr \<Rightarrow> int \<Rightarrow> merkle_error + buf" where
  "payoutLeaf H pkHex amountSompi = map_sum id H (pk_amount_bytes pkHex amountSompi)"

definition bet_bytes :: "hexstr \<Rightarrow> int \<Rightarrow> int \<Rightarrow> merkle_error + buf" where
  "bet_bytes pkHex stake dir =
    (case pk_amount_bytes pkHex stake of Inl e \<Rightarrow> Inl e
     | Inr b \<Rightarrow> if dir \<noteq> 0 \<and> dir \<noteq> 1 then Inl (BadDir dir)
        else map_sum id (\<lambda>c. b @ c) (serializeI64 dir (Some 1)))"

definition betsLeaf :: "(buf \<Rightarrow> buf) \<Rightarrow> hexstr \<Rightarrow> int \<Rightarrow> int \<Rightarrow> merkle_error + buf" where
  "betsLeaf H pkHex stakeSompi dir = map_sum id H (bet_bytes pkHex stakeSompi dir)"

lemma pk_amount_bytes_Inr:
  assumes "pk_amount_bytes pk a = Inr b"
  obtains c where "b = hex_decode pk @ c" "length (hex_decode pk) = 32" "0 < a" "serializeI64 a (Some 8) = Inr c"
  using assms by (cases "serializeI64 a (Some 8)") (auto simp: pk_amount_bytes_def Let_def split: if_splits)

lemma pk_amount_bytes_inj:
  assumes "pk_amount_bytes pk a = Inr b" "pk_amount_bytes pk' a' = Inr b"
  shows "hex_decode pk = hex_decode pk'" "a = a'"
  using assms by (auto elim!: pk_amount_bytes_Inr dest: serializeI64_inj)

lemma pk_amount_bytes_length: "pk_amount_bytes pk a = Inr b \<Longrightarrow> length b = 40"
  by (auto elim!: pk_amount_bytes_Inr dest: serializeI64_roundtrip)

lemma pk_amount_bytes_ok:
  assumes "length (hex_decode pk) = 32" "0 < a" "a < 2 ^ 63"
  shows "\<exists>b. pk_amount_bytes pk a = Inr b"
  using serializeI64_fits [of a 7] assms by (auto simp: pk_amount_bytes_def)

lemma payoutLeaf_Inr: "payoutLeaf H pk a = Inr l \<longleftrightarrow> (\<exists>b. pk_amount_bytes pk a = Inr b \<and> l = H b)"
  by (cases "pk_amount_bytes pk a") (auto simp: payoutLeaf_def)

lemma bet_bytes_inj:
  assumes "bet_bytes pk a d = Inr b" "bet_bytes pk' a' d' = Inr b"
  shows "hex_decode pk = hex_decode pk' \<and> a = a' \<and> d = d'"
proof -
  have split: "\<exists>x y. pk_amount_bytes pk a = Inr x \<and> serializeI64 d (Some 1) = Inr y \<and> b = x @ y"
    if "bet_bytes pk a d = Inr b" for pk a d
    using that by (cases "serializeI64 d (Some 1)") (auto simp: bet_bytes_def split: sum.splits if_splits)
  obtain x y x' y' where e: "pk_amount_bytes pk a = Inr x" "serializeI64 d (Some 1) = Inr y" "b = x @ y"
    "pk_amount_bytes pk' a' = Inr x'" "serializeI64 d' (Some 1) = Inr y'" "b = x' @ y'"
    using split [OF assms(1)] split [OF assms(2)] by blast
  then have "x = x'" "y = y'" using pk_amount_bytes_length by (metis append_eq_append_conv)+
  then show ?thesis using e pk_amount_bytes_inj serializeI64_inj by metis
qed

subsection \<open>The payout tree of depth ten\<close>

definition DEPTH :: nat where "DEPTH = 10"
definition CAP :: nat where "CAP = 2 ^ DEPTH"

text \<open>\<open>new Array(cap).fill(ZERO32)\<close> with the leaves written in front.\<close>

definition fill_leaves :: "nat \<Rightarrow> buf list \<Rightarrow> buf list" where
  "fill_leaves cap ls = ls @ replicate (cap - length ls) ZERO32"

definition levelsOf :: "(buf \<Rightarrow> buf) \<Rightarrow> leaf list \<Rightarrow> merkle_error + buf list list" where
  "levelsOf H winners =
    (if length winners > CAP then Inl (TooManyWinners (length winners))
     else map_sum id (\<lambda>ls. build_levels H DEPTH (fill_leaves CAP ls))
       (mapE (\<lambda>w. payoutLeaf H (fst w) (snd w)) winners))"

definition payoutRoot :: "(buf \<Rightarrow> buf) \<Rightarrow> leaf list \<Rightarrow> merkle_error + buf" where
  "payoutRoot H winners = map_sum id (\<lambda>levels. levels ! DEPTH ! 0) (levelsOf H winners)"

definition merkleProof :: "(buf \<Rightarrow> buf) \<Rightarrow> leaf list \<Rightarrow> nat \<Rightarrow> merkle_error + buf option list" where
  "merkleProof H winners idx = map_sum id (\<lambda>levels. siblings_from (take DEPTH levels) idx) (levelsOf H winners)"

definition climbProof :: "(buf \<Rightarrow> buf) \<Rightarrow> buf \<Rightarrow> nat \<Rightarrow> buf list \<Rightarrow> merkle_error + buf" where
  "climbProof H leaf idx sibs =
    (if length sibs < DEPTH then Inl SiblingMissing else Inr (climb H leaf idx (take DEPTH sibs)))"

definition settlePayoutRoot :: "(buf \<Rightarrow> buf) \<Rightarrow> leaf list \<Rightarrow> merkle_error + hexstr" where
  "settlePayoutRoot H winners = map_sum id hex_encode (payoutRoot H winners)"

subsection \<open>The tree of variable depth\<close>

function depth_loop :: "nat \<Rightarrow> nat \<Rightarrow> nat" where
  "depth_loop n d = (if 2 ^ d < n then depth_loop n (Suc d) else d)"
  by pat_completeness auto
termination
proof (relation "measure (\<lambda>(n, d). n - d)")
  fix n d :: nat assume "2 ^ d < n"
  then have "d < n" using less_trans [OF less_exp [of d]] by blast
  then show "((n, Suc d), (n, d)) \<in> measure (\<lambda>(n, d). n - d)" by simp
qed simp

declare depth_loop.simps [simp del]

definition depthFor :: "nat \<Rightarrow> nat" where
  "depthFor n = max 1 (depth_loop n 0)"

record payout_tree =
  pt_levels :: "buf list list"
  pt_depth :: nat
  pt_root :: buf

definition buildPayoutTree :: "(buf \<Rightarrow> buf) \<Rightarrow> leaf list \<Rightarrow> merkle_error + payout_tree" where
  "buildPayoutTree H payouts =
    (if payouts = [] then Inl NoPayouts
     else (let depth = depthFor (length payouts) in
       map_sum id (\<lambda>ls. let levels = build_levels H depth (fill_leaves (2 ^ depth) ls) in
           \<lparr> pt_levels = levels, pt_depth = depth, pt_root = levels ! depth ! 0 \<rparr>)
         (mapE (\<lambda>w. payoutLeaf H (fst w) (snd w)) payouts)))"

definition payoutTreeRoot :: "(buf \<Rightarrow> buf) \<Rightarrow> leaf list \<Rightarrow> merkle_error + buf" where
  "payoutTreeRoot H payouts = map_sum id pt_root (buildPayoutTree H payouts)"

definition payoutRootHex :: "(buf \<Rightarrow> buf) \<Rightarrow> leaf list \<Rightarrow> merkle_error + hexstr" where
  "payoutRootHex H payouts = map_sum id hex_encode (payoutTreeRoot H payouts)"

definition payoutMerkleProof :: "(buf \<Rightarrow> buf) \<Rightarrow> leaf list \<Rightarrow> nat \<Rightarrow> merkle_error + buf option list" where
  "payoutMerkleProof H payouts idx =
    map_sum id (\<lambda>t. siblings_from (take (pt_depth t) (pt_levels t)) idx) (buildPayoutTree H payouts)"

definition climbPayoutProof :: "(buf \<Rightarrow> buf) \<Rightarrow> hexstr \<Rightarrow> int \<Rightarrow> nat \<Rightarrow> buf list \<Rightarrow> merkle_error + buf" where
  "climbPayoutProof H pkHex payout idx sibs = map_sum id (\<lambda>l. climb H l idx sibs) (payoutLeaf H pkHex payout)"

lemma depth_loop_ge: "n \<le> 2 ^ depth_loop n d"
proof (induction n d rule: depth_loop.induct)
  case (1 n d)
  then show ?case by (cases "2 ^ d < n") (simp_all add: depth_loop.simps [of n d])
qed

lemma depthFor_ge: "n \<le> 2 ^ depthFor n"
  using depth_loop_ge [of n 0] order_trans [of n "2 ^ depth_loop n 0" "2 ^ depthFor n"]
  by (simp add: depthFor_def)

lemma depth_loop_least: "depth_loop n d = d \<or> d < depth_loop n d \<and> 2 ^ (depth_loop n d - 1) < n"
proof (induction n d rule: depth_loop.induct)
  case (1 n d)
  show ?case
  proof (cases "2 ^ d < n")
    case True
    then have "depth_loop n d = depth_loop n (Suc d)" by (simp add: depth_loop.simps [of n d])
    then show ?thesis using "1.IH" [OF True] True by auto
  next
    case False
    then show ?thesis by (simp add: depth_loop.simps [of n d])
  qed
qed

subsection \<open>Both trees are commitments\<close>

lemma length_fill_leaves: "length ls \<le> c \<Longrightarrow> length (fill_leaves c ls) = c"
  by (simp add: fill_leaves_def)

lemma fill_leaves_32: "\<forall>l \<in> set ls. length l = 32 \<Longrightarrow> y \<in> set (fill_leaves c ls) \<Longrightarrow> length y = 32"
  by (auto simp: fill_leaves_def ZERO32_def)

lemma fill_leaves_nth: "i < length ls \<Longrightarrow> fill_leaves c ls ! i = ls ! i"
  "length ls \<le> i \<Longrightarrow> i < c \<Longrightarrow> fill_leaves c ls ! i = ZERO32"
  by (simp_all add: fill_leaves_def nth_append)

text \<open>The leaves of a winners list, and the inputs hashed for a tree over it.\<close>

definition winner_leaves :: "(buf \<Rightarrow> buf) \<Rightarrow> leaf list \<Rightarrow> buf list" where
  "winner_leaves H ws = (case mapE (\<lambda>w. payoutLeaf H (fst w) (snd w)) ws of Inr ls \<Rightarrow> ls | Inl _ \<Rightarrow> [])"

definition winner_inputs :: "leaf list \<Rightarrow> buf list" where
  "winner_inputs ws = (case mapE (\<lambda>w. pk_amount_bytes (fst w) (snd w)) ws of Inr bs \<Rightarrow> bs | Inl _ \<Rightarrow> [])"

definition tree_leaf :: "nat \<Rightarrow> (buf \<Rightarrow> buf) \<Rightarrow> leaf list \<Rightarrow> nat \<Rightarrow> buf" where
  "tree_leaf d H ws i = fill_leaves (2 ^ d) (winner_leaves H ws) ! i"

definition payout_inputs :: "nat \<Rightarrow> (buf \<Rightarrow> buf) \<Rightarrow> leaf list \<Rightarrow> buf list" where
  "payout_inputs d H ws = tree_inputs H d (fill_leaves (2 ^ d) (winner_leaves H ws))"

lemma winner_leaves_Inr:
  assumes "mapE (\<lambda>w. payoutLeaf H (fst w) (snd w)) ws = Inr ls"
  shows "winner_leaves H ws = ls" "length ls = length ws" "hash32 H \<Longrightarrow> \<forall>l \<in> set ls. length l = 32"
proof -
  show "winner_leaves H ws = ls" by (simp add: winner_leaves_def assms)
  show "length ls = length ws" using assms by (rule mapE_Inr_length)
  show "\<forall>l \<in> set ls. length l = 32" if "hash32 H"
    using mapE_Inr_set [OF assms] that by (fastforce simp: payoutLeaf_Inr hash32_def)
qed

lemma fill_tree:
  assumes "mapE (\<lambda>w. payoutLeaf H (fst w) (snd w)) ws = Inr ls" "length ws \<le> 2 ^ d"
  shows "length (fill_leaves (2 ^ d) (winner_leaves H ws)) = 2 ^ d"
    and "hash32 H \<Longrightarrow> \<forall>y \<in> set (fill_leaves (2 ^ d) (winner_leaves H ws)). length y = 32"
proof -
  note w = winner_leaves_Inr [OF assms(1)]
  show "length (fill_leaves (2 ^ d) (winner_leaves H ws)) = 2 ^ d"
    using assms(2) by (simp add: w(1,2) length_fill_leaves)
  show "\<forall>y \<in> set (fill_leaves (2 ^ d) (winner_leaves H ws)). length y = 32" if "hash32 H"
    using fill_leaves_32 w(3) [OF that] unfolding w(1) by blast
qed

lemma payoutRoot_Inr:
  assumes "payoutRoot H ws = Inr r"
  obtains ls where "mapE (\<lambda>w. payoutLeaf H (fst w) (snd w)) ws = Inr ls" "length ws \<le> 2 ^ DEPTH"
    "r = tree_root H DEPTH (fill_leaves (2 ^ DEPTH) (winner_leaves H ws))"
    "\<forall>i. merkleProof H ws i = Inr (siblings H DEPTH (fill_leaves (2 ^ DEPTH) (winner_leaves H ws)) i)"
proof (cases "mapE (\<lambda>w. payoutLeaf H (fst w) (snd w)) ws")
  case (Inl e)
  then show ?thesis using assms by (auto simp: payoutRoot_def levelsOf_def split: if_splits)
next
  case (Inr ls)
  then show ?thesis
    using assms winner_leaves_Inr(1) [OF Inr]
    by (intro that [OF Inr]) (auto simp: payoutRoot_def levelsOf_def merkleProof_def CAP_def tree_root_def siblings_def split: if_splits)
qed

definition right_opt :: "'e + 'a \<Rightarrow> 'a option" where
  "right_opt x = (case x of Inr y \<Rightarrow> Some y | Inl _ \<Rightarrow> None)"

lemma right_opt_Some [simp]: "right_opt x = Some y \<longleftrightarrow> x = Inr y"
  by (simp add: right_opt_def split: sum.split)

interpretation shard: commitment_tree "\<lambda>H ws. right_opt (payoutRoot H ws)" "tree_leaf DEPTH"
  "\<lambda>H ws i. the (right_opt (merkleProof H ws i))" "\<lambda>_. DEPTH" "payout_inputs DEPTH"
proof
  fix H ws r and i :: nat
  assume a: "right_opt (payoutRoot H ws) = Some r" and i: "i < 2 ^ DEPTH"
  from a have "payoutRoot H ws = Inr r" by simp
  then obtain ls where ls: "mapE (\<lambda>w. payoutLeaf H (fst w) (snd w)) ws = Inr ls" "length ws \<le> 2 ^ DEPTH"
    and r: "r = tree_root H DEPTH (fill_leaves (2 ^ DEPTH) (winner_leaves H ws))"
    and pf: "\<forall>i. merkleProof H ws i = Inr (siblings H DEPTH (fill_leaves (2 ^ DEPTH) (winner_leaves H ws)) i)"
    by (rule payoutRoot_Inr)
  note f = fill_tree [OF ls]
  show "\<exists>ss. the (right_opt (merkleProof H ws i)) = map Some ss \<and> length ss = DEPTH \<and> climb H (tree_leaf DEPTH H ws i) i ss = r"
    using siblings_climb [OF f(1) i] by (simp add: pf right_opt_def r tree_leaf_def)
  fix y ss
  assume "hash32 H" "length y = 32" "length ss = DEPTH" "climb H y i ss = r" "y \<noteq> tree_leaf DEPTH H ws i"
  then show "collides H (climb_inputs H y i ss) (payout_inputs DEPTH H ws)"
    using climb_binds [OF _ f(1) i f(2)] by (simp add: r payout_inputs_def tree_leaf_def)
qed

lemma buildPayoutTree_Inr:
  assumes "buildPayoutTree H ws = Inr t"
  defines "d \<equiv> depthFor (length ws)"
  obtains ls where "mapE (\<lambda>w. payoutLeaf H (fst w) (snd w)) ws = Inr ls" "length ws \<le> 2 ^ d" "pt_depth t = d"
    "pt_root t = tree_root H d (fill_leaves (2 ^ d) (winner_leaves H ws))"
    "\<forall>i. payoutMerkleProof H ws i = Inr (siblings H d (fill_leaves (2 ^ d) (winner_leaves H ws)) i)"
proof (cases "mapE (\<lambda>w. payoutLeaf H (fst w) (snd w)) ws")
  case (Inl e)
  then show ?thesis using assms by (auto simp: buildPayoutTree_def Let_def split: if_splits)
next
  case (Inr ls)
  have t: "t = (let levels = build_levels H d (fill_leaves (2 ^ d) ls) in
      \<lparr> pt_levels = levels, pt_depth = d, pt_root = levels ! d ! 0 \<rparr>)"
    using assms Inr by (auto simp: buildPayoutTree_def Let_def split: if_splits)
  show ?thesis
    by (rule that [OF Inr])
      (use depthFor_ge in \<open>simp_all add: d_def t Let_def tree_root_def siblings_def payoutMerkleProof_def assms(1)
        winner_leaves_Inr(1) [OF Inr]\<close>)
qed

interpretation market: commitment_tree "\<lambda>H ws. right_opt (payoutTreeRoot H ws)" "\<lambda>H ws. tree_leaf (depthFor (length ws)) H ws"
  "\<lambda>H ws i. the (right_opt (payoutMerkleProof H ws i))" "\<lambda>ws. depthFor (length ws)"
  "\<lambda>H ws. payout_inputs (depthFor (length ws)) H ws"
proof
  fix H and ws :: "leaf list" and r and i :: nat
  let ?d = "depthFor (length ws)"
  assume a: "right_opt (payoutTreeRoot H ws) = Some r" and i: "i < 2 ^ ?d"
  from a obtain t where t: "buildPayoutTree H ws = Inr t" "r = pt_root t"
    by (cases "buildPayoutTree H ws") (auto simp: payoutTreeRoot_def)
  obtain ls where ls: "mapE (\<lambda>w. payoutLeaf H (fst w) (snd w)) ws = Inr ls" "length ws \<le> 2 ^ ?d"
    and "pt_depth t = ?d" and r: "pt_root t = tree_root H ?d (fill_leaves (2 ^ ?d) (winner_leaves H ws))"
    and pf: "\<forall>i. payoutMerkleProof H ws i = Inr (siblings H ?d (fill_leaves (2 ^ ?d) (winner_leaves H ws)) i)"
    using t(1) by (rule buildPayoutTree_Inr)
  note f = fill_tree [OF ls]
  show "\<exists>ss. the (right_opt (payoutMerkleProof H ws i)) = map Some ss \<and> length ss = ?d \<and> climb H (tree_leaf ?d H ws i) i ss = r"
    using siblings_climb [OF f(1) i] by (simp add: pf right_opt_def r t(2) tree_leaf_def)
  fix y ss
  assume "hash32 H" "length y = 32" "length ss = ?d" "climb H y i ss = r" "y \<noteq> tree_leaf ?d H ws i"
  then show "collides H (climb_inputs H y i ss) (payout_inputs ?d H ws)"
    using climb_binds [OF _ f(1) i f(2)] by (simp add: r t(2) payout_inputs_def tree_leaf_def)
qed

text \<open>What a leaf says: two openings of one position agree on key and amount, unless the leaf inputs
  collide or the padding leaf has a preimage.\<close>

definition leaf_input :: "hexstr \<Rightarrow> int \<Rightarrow> buf" where
  "leaf_input pk a = (case pk_amount_bytes pk a of Inr b \<Rightarrow> b | Inl _ \<Rightarrow> [])"

lemma tree_leaf_meaning:
  assumes "mapE (\<lambda>w. payoutLeaf H (fst w) (snd w)) ws = Inr ls" "length ws \<le> 2 ^ d" "i < 2 ^ d"
    and "payoutLeaf H pk a = Inr (tree_leaf d H ws i)"
  shows "(i < length ws \<and> hex_decode pk = hex_decode (fst (ws ! i)) \<and> a = snd (ws ! i))
    \<or> (i < length ws \<and> collides H [leaf_input pk a] [leaf_input (fst (ws ! i)) (snd (ws ! i))])
    \<or> H (leaf_input pk a) = ZERO32"
proof -
  note w = winner_leaves_Inr [OF assms(1)]
  obtain b where b: "pk_amount_bytes pk a = Inr b" "tree_leaf d H ws i = H b"
    using assms(4) by (auto simp: payoutLeaf_Inr)
  show ?thesis
  proof (cases "i < length ws")
    case True
    then have "payoutLeaf H (fst (ws ! i)) (snd (ws ! i)) = Inr (tree_leaf d H ws i)"
      using mapE_Inr_nth [OF assms(1) True] w(2) by (simp add: tree_leaf_def w(1) fill_leaves_nth)
    then obtain c where c: "pk_amount_bytes (fst (ws ! i)) (snd (ws ! i)) = Inr c" "tree_leaf d H ws i = H c"
      by (auto simp: payoutLeaf_Inr)
    show ?thesis
    proof (cases "b = c")
      case True
      then show ?thesis using b(1) c(1) pk_amount_bytes_inj \<open>i < length ws\<close> by metis
    next
      case False
      then show ?thesis using b c \<open>i < length ws\<close> by (simp add: collides_def leaf_input_def)
    qed
  next
    case False
    then have "tree_leaf d H ws i = ZERO32" using assms(3) w(2) by (simp add: tree_leaf_def w(1) fill_leaves_nth)
    then show ?thesis using b by (simp add: leaf_input_def)
  qed
qed

subsection \<open>The bets: canonical order and hash chain\<close>

text \<open>A row of \<open>pool_bettor_sides\<close> as far as the order reads it.  \<open>coll\<close> is the collation key behind
  \<open>localeCompare\<close>, which the source leaves to the platform.\<close>

record bet_row =
  br_pk :: hexstr
  br_stake :: int
  br_direction :: int
  br_daa :: "nat option"
  br_tx :: "string option"

definition bet_key :: "(string \<Rightarrow> 'k::linorder) \<Rightarrow> bet_row \<Rightarrow> nat \<times> 'k" where
  "bet_key coll r = (the (br_daa r), coll (the (br_tx r)))"

definition canonicalBetOrder :: "(string \<Rightarrow> 'k::linorder) \<Rightarrow> bet_row list \<Rightarrow> merkle_error + bet_row list" where
  "canonicalBetOrder coll rows =
    (case find (\<lambda>r. br_daa r = None \<or> br_tx r = None) rows of
       Some r \<Rightarrow> Inl (BetNotAnchored (br_pk r))
     | None \<Rightarrow> Inr (sort_key (bet_key coll) rows))"

fun bets_chain :: "(buf \<Rightarrow> buf) \<Rightarrow> buf \<Rightarrow> bet_row list \<Rightarrow> merkle_error + buf" where
  "bets_chain H acc [] = Inr acc"
| "bets_chain H acc (b # bs) = (case betsLeaf H (br_pk b) (br_stake b) (br_direction b) of
     Inl e \<Rightarrow> Inl e | Inr l \<Rightarrow> bets_chain H (H (acc @ l)) bs)"

definition computeBetsRoot :: "(buf \<Rightarrow> buf) \<Rightarrow> bet_row list \<Rightarrow> merkle_error + buf" where
  "computeBetsRoot H orderedBets = bets_chain H ZERO32 orderedBets"

lemma canonicalBetOrder_Inr:
  assumes "canonicalBetOrder coll rows = Inr o'"
  shows "o' = sort_key (bet_key coll) rows" "mset o' = mset rows" "sorted (map (bet_key coll) o')"
    "\<forall>r \<in> set rows. br_daa r \<noteq> None \<and> br_tx r \<noteq> None"
  using assms by (auto simp: canonicalBetOrder_def find_None_iff split: option.splits)

lemma canonicalBetOrder_perm:
  assumes "mset rows = mset rows'" "distinct (map (bet_key coll) rows)" "canonicalBetOrder coll rows = Inr o'"
  shows "canonicalBetOrder coll rows' = Inr o'"
proof -
  have "set rows' = set rows" using assms(1) by (metis set_mset_mset)
  then have "find (\<lambda>r. br_daa r = None \<or> br_tx r = None) rows' = None"
    using canonicalBetOrder_Inr(4) [OF assms(3)] by (auto simp: find_None_iff)
  then show ?thesis
    using sort_key_perm_eq [OF assms(1,2)] canonicalBetOrder_Inr(1) [OF assms(3)] by (simp add: canonicalBetOrder_def)
qed

text \<open>The inputs the chain hashes, latest last.\<close>

fun chain_inputs :: "(buf \<Rightarrow> buf) \<Rightarrow> buf \<Rightarrow> bet_row list \<Rightarrow> buf list" where
  "chain_inputs H acc [] = []"
| "chain_inputs H acc (b # bs) = (case betsLeaf H (br_pk b) (br_stake b) (br_direction b) of
     Inl _ \<Rightarrow> [] | Inr l \<Rightarrow> (case bet_bytes (br_pk b) (br_stake b) (br_direction b) of Inr p \<Rightarrow> p | Inl _ \<Rightarrow> [])
       # (acc @ l) # chain_inputs H (H (acc @ l)) bs)"

definition same_bet :: "bet_row \<Rightarrow> bet_row \<Rightarrow> bool" where
  "same_bet a b = (hex_decode (br_pk a) = hex_decode (br_pk b) \<and> br_stake a = br_stake b \<and> br_direction a = br_direction b)"

lemma bets_chain_snoc:
  "bets_chain H acc (bs @ [b]) = (case bets_chain H acc bs of Inl e \<Rightarrow> Inl e
     | Inr a \<Rightarrow> (case betsLeaf H (br_pk b) (br_stake b) (br_direction b) of Inl e \<Rightarrow> Inl e | Inr l \<Rightarrow> Inr (H (a @ l))))"
  by (induction bs arbitrary: acc) (auto split: sum.splits)

lemma chain_inputs_snoc:
  assumes "bets_chain H acc bs = Inr a" "bet_bytes (br_pk b) (br_stake b) (br_direction b) = Inr p"
  shows "chain_inputs H acc (bs @ [b]) = chain_inputs H acc bs @ [p, a @ H p]"
  using assms by (induction bs arbitrary: acc) (auto simp: betsLeaf_def split: sum.splits)

lemma bets_chain_length: "hash32 H \<Longrightarrow> length acc = 32 \<Longrightarrow> bets_chain H acc bs = Inr a \<Longrightarrow> length a = 32"
  by (induction bs arbitrary: acc) (auto simp: hash32_def split: sum.splits)

lemma betsLeaf_Inr: "betsLeaf H pk s d = Inr l \<longleftrightarrow> (\<exists>p. bet_bytes pk s d = Inr p \<and> l = H p)"
  by (cases "bet_bytes pk s d") (auto simp: betsLeaf_def)

lemma bets_chain_snoc_Inr:
  assumes "bets_chain H acc (bs @ [b]) = Inr r"
  obtains x p where "bets_chain H acc bs = Inr x" "bet_bytes (br_pk b) (br_stake b) (br_direction b) = Inr p" "r = H (x @ H p)"
proof (cases "bets_chain H acc bs")
  case (Inl e)
  then show ?thesis using assms by (simp add: bets_chain_snoc)
next
  case x: (Inr x)
  show ?thesis
  proof (cases "bet_bytes (br_pk b) (br_stake b) (br_direction b)")
    case (Inl e)
    then show ?thesis using assms x by (simp add: bets_chain_snoc betsLeaf_def)
  next
    case (Inr p)
    then show ?thesis using assms x by (intro that [of x p]) (simp_all add: bets_chain_snoc betsLeaf_def)
  qed
qed

lemma bets_chain_binds:
  assumes "hash32 H" "length acc = 32" "length bs = length cs" "bets_chain H acc bs = Inr r" "bets_chain H acc cs = Inr r"
  shows "list_all2 same_bet bs cs \<or> collides H (chain_inputs H acc bs) (chain_inputs H acc cs)"
  using assms(3-5)
proof (induction bs arbitrary: cs r rule: rev_induct)
  case Nil
  then show ?case by simp
next
  case (snoc b bs)
  obtain c ds where cs: "cs = ds @ [c]" "length bs = length ds"
    using snoc.prems(1) by (cases cs rule: rev_cases) auto
  obtain x p where x: "bets_chain H acc bs = Inr x" "bet_bytes (br_pk b) (br_stake b) (br_direction b) = Inr p" "r = H (x @ H p)"
    using snoc.prems(2) by (rule bets_chain_snoc_Inr)
  have "bets_chain H acc (ds @ [c]) = Inr r" using snoc.prems(3) cs(1) by simp
  then obtain y q where y: "bets_chain H acc ds = Inr y" "bet_bytes (br_pk c) (br_stake c) (br_direction c) = Inr q" "r = H (y @ H q)"
    by (rule bets_chain_snoc_Inr)
  note in1 = chain_inputs_snoc [OF x(1,2)] and in2 = chain_inputs_snoc [OF y(1,2)]
  have len: "length x = length y"
    using bets_chain_length [OF assms(1,2) x(1)] bets_chain_length [OF assms(1,2) y(1)] by simp
  have eq: "H (x @ H p) = H (y @ H q)" using x(3) y(3) by simp
  consider "x @ H p \<noteq> y @ H q" | "x = y" "H p = H q" "p \<noteq> q" | "x = y" "p = q"
    using append_eq_append_conv [of x y "H p" "H q"] len by blast
  then show ?case
  proof cases
    case 1
    then have "collides H (chain_inputs H acc (bs @ [b])) (chain_inputs H acc (ds @ [c]))"
      by (intro collides_in [OF _ _ 1 eq]) (simp_all add: in1 in2)
    then show ?thesis by (simp add: cs(1))
  next
    case 2
    then have "collides H (chain_inputs H acc (bs @ [b])) (chain_inputs H acc (ds @ [c]))"
      by (intro collides_in [OF _ _ 2(3,2)]) (simp_all add: in1 in2)
    then show ?thesis by (simp add: cs(1))
  next
    case 3
    then have same: "same_bet b c" using bet_bytes_inj [OF x(2)] y(2) by (simp add: same_bet_def)
    have "bets_chain H acc ds = Inr x" using y(1) 3 by simp
    then consider "list_all2 same_bet bs ds" | "collides H (chain_inputs H acc bs) (chain_inputs H acc ds)"
      using snoc.IH [OF cs(2) x(1)] by blast
    then show ?thesis
    proof cases
      case 1
      then show ?thesis using same by (simp add: cs(1) list_all2_appendI)
    next
      case 2
      then show ?thesis unfolding cs(1) in1 in2 using collides_mono by blast
    qed
  qed
qed

subsection \<open>Claims against a root\<close>

lemma payoutTreeRoot_Inr:
  assumes "payoutTreeRoot H ws = Inr r"
  obtains ls where "mapE (\<lambda>w. payoutLeaf H (fst w) (snd w)) ws = Inr ls" "length ws \<le> 2 ^ depthFor (length ws)"
  using assms by (cases "buildPayoutTree H ws") (auto simp: payoutTreeRoot_def elim: buildPayoutTree_Inr)

lemma winner_leaves_ok:
  assumes "\<forall>w \<in> set ws. length (hex_decode (fst w)) = 32 \<and> 0 < snd w \<and> snd w < 2 ^ 63"
  shows "\<exists>ls. mapE (\<lambda>w. payoutLeaf H (fst w) (snd w)) ws = Inr ls"
  using assms
proof (induction ws)
  case (Cons w ws)
  obtain b where "pk_amount_bytes (fst w) (snd w) = Inr b"
    using Cons.prems pk_amount_bytes_ok [of "fst w" "snd w"] by auto
  then have "payoutLeaf H (fst w) (snd w) = Inr (H b)" by (simp add: payoutLeaf_def)
  moreover obtain ls where "mapE (\<lambda>w. payoutLeaf H (fst w) (snd w)) ws = Inr ls" using Cons by auto
  ultimately show ?case by simp
qed simp

lemma payoutTreeRoot_ok:
  assumes "ws \<noteq> []" "\<forall>w \<in> set ws. length (hex_decode (fst w)) = 32 \<and> 0 < snd w \<and> snd w < 2 ^ 63"
  shows "\<exists>r. payoutTreeRoot H ws = Inr r"
  using winner_leaves_ok [OF assms(2), of H] assms(1) by (auto simp: payoutTreeRoot_def buildPayoutTree_def Let_def)

lemma payoutRoot_ok:
  assumes "length ws \<le> CAP" "\<forall>w \<in> set ws. length (hex_decode (fst w)) = 32 \<and> 0 < snd w \<and> snd w < 2 ^ 63"
  shows "\<exists>r. payoutRoot H ws = Inr r"
  using winner_leaves_ok [OF assms(2), of H] assms(1) by (auto simp: payoutRoot_def levelsOf_def)

lemma shard_opens:
  assumes "payoutRoot H ws = Inr r" "i < length ws"
  shows "\<exists>l ss. payoutLeaf H (fst (ws ! i)) (snd (ws ! i)) = Inr l \<and> merkleProof H ws i = Inr (map Some ss)
    \<and> climbProof H l i ss = Inr r"
proof -
  obtain ls where ls: "mapE (\<lambda>w. payoutLeaf H (fst w) (snd w)) ws = Inr ls" "length ws \<le> 2 ^ DEPTH"
    and pf: "\<forall>i. merkleProof H ws i = Inr (siblings H DEPTH (fill_leaves (2 ^ DEPTH) (winner_leaves H ws)) i)"
    using assms(1) by (rule payoutRoot_Inr)
  have leaf: "payoutLeaf H (fst (ws ! i)) (snd (ws ! i)) = Inr (tree_leaf DEPTH H ws i)"
    using mapE_Inr_nth [OF ls(1) assms(2)] winner_leaves_Inr(1,2) [OF ls(1)] assms(2)
    by (simp add: tree_leaf_def fill_leaves_nth)
  have i: "i < 2 ^ DEPTH" using assms(2) ls(2) by simp
  obtain ss where ss: "the (right_opt (merkleProof H ws i)) = map Some ss" "length ss = DEPTH"
    "climb H (tree_leaf DEPTH H ws i) i ss = r"
    using shard.opens [of H ws r i] assms(1) i by auto
  then have "merkleProof H ws i = Inr (map Some ss)" using pf by (simp add: right_opt_def)
  then show ?thesis using leaf ss by (auto simp: climbProof_def)
qed

lemma market_opens:
  assumes "payoutTreeRoot H ws = Inr r" "i < length ws"
  shows "\<exists>ss. payoutMerkleProof H ws i = Inr (map Some ss) \<and> length ss = depthFor (length ws)
    \<and> climbPayoutProof H (fst (ws ! i)) (snd (ws ! i)) i ss = Inr r"
proof -
  obtain ls where ls: "mapE (\<lambda>w. payoutLeaf H (fst w) (snd w)) ws = Inr ls" "length ws \<le> 2 ^ depthFor (length ws)"
    using assms(1) by (rule payoutTreeRoot_Inr)
  have i: "i < 2 ^ depthFor (length ws)" using assms(2) ls(2) by simp
  obtain t where t: "buildPayoutTree H ws = Inr t"
    using assms(1) by (cases "buildPayoutTree H ws") (auto simp: payoutTreeRoot_def)
  have leaf: "payoutLeaf H (fst (ws ! i)) (snd (ws ! i)) = Inr (tree_leaf (depthFor (length ws)) H ws i)"
    using mapE_Inr_nth [OF ls(1) assms(2)] winner_leaves_Inr(1,2) [OF ls(1)] assms(2)
    by (simp add: tree_leaf_def fill_leaves_nth)
  obtain ss where ss: "the (right_opt (payoutMerkleProof H ws i)) = map Some ss" "length ss = depthFor (length ws)"
    "climb H (tree_leaf (depthFor (length ws)) H ws i) i ss = r"
    using market.opens [of H ws r i] assms(1) i by auto
  have "payoutMerkleProof H ws i = Inr (map Some ss)"
    using ss(1) t by (simp add: payoutMerkleProof_def right_opt_def)
  then show ?thesis using ss leaf by (auto simp: climbPayoutProof_def)
qed

text \<open>The explicit collision a false claim exhibits.\<close>

definition claim_collision :: "(buf \<Rightarrow> buf) \<Rightarrow> nat \<Rightarrow> leaf list \<Rightarrow> hexstr \<Rightarrow> int \<Rightarrow> nat \<Rightarrow> buf list \<Rightarrow> bool" where
  "claim_collision H d ws pk a i ss =
    (collides H [leaf_input pk a] (map (\<lambda>w. leaf_input (fst w) (snd w)) ws)
     \<or> collides H (climb_inputs H (H (leaf_input pk a)) i ss) (payout_inputs d H ws)
     \<or> H (leaf_input pk a) = ZERO32)"

lemma payoutLeaf_input: "payoutLeaf H pk a = Inr l \<Longrightarrow> l = H (leaf_input pk a)"
  by (auto simp: payoutLeaf_Inr leaf_input_def)

lemma claim_binds:
  assumes ls: "mapE (\<lambda>w. payoutLeaf H (fst w) (snd w)) ws = Inr ls" "length ws \<le> 2 ^ d" and i: "i < 2 ^ d"
    and leaf: "payoutLeaf H pk a = Inr l"
    and binds: "l \<noteq> tree_leaf d H ws i \<Longrightarrow> collides H (climb_inputs H l i ss) (payout_inputs d H ws)"
  shows "(i < length ws \<and> hex_decode pk = hex_decode (fst (ws ! i)) \<and> a = snd (ws ! i)) \<or> claim_collision H d ws pk a i ss"
proof (cases "l = tree_leaf d H ws i")
  case True
  have sub: "collides H [x] (map (\<lambda>w. leaf_input (fst w) (snd w)) ws)"
    if "i < length ws" "collides H [x] [leaf_input (fst (ws ! i)) (snd (ws ! i))]" for x
    using that by (auto simp: collides_def)
  have "payoutLeaf H pk a = Inr (tree_leaf d H ws i)" using leaf True by simp
  then show ?thesis
    using tree_leaf_meaning [OF ls i, of pk a] sub unfolding claim_collision_def by blast
next
  case False
  then show ?thesis using binds payoutLeaf_input [OF leaf] by (simp add: claim_collision_def)
qed

subsection \<open>Properties\<close>

text \<open>Every number of the right size has an encoding, of exactly that many bytes, that reads back
  as the number: eight bytes hold every amount below 2 to the 63.\<close>

theorem serializeI64_exact:
  assumes "\<bar>num\<bar> < 2 ^ (8 * k + 7)"
  shows "\<exists>bs. serializeI64 num (Some (Suc k)) = Inr bs \<and> length bs = Suc k \<and> i64_val bs = num"
  using serializeI64_fits [OF assms] serializeI64_roundtrip by blast

theorem serializeI64_exact_witness:
  "\<exists>bs. serializeI64 (- 300) (Some (Suc 1)) = Inr bs \<and> length bs = Suc 1 \<and> i64_val bs = - 300"
  by (rule serializeI64_exact) simp

text \<open>Every winner of a payout tree can claim: the proof the module gives for its index climbs from
  its key and amount to the root.\<close>

theorem market_claim_complete:
  assumes "payoutTreeRoot H ws = Inr r" "i < length ws"
  shows "\<exists>ss. payoutMerkleProof H ws i = Inr (map Some ss)
    \<and> climbPayoutProof H (fst (ws ! i)) (snd (ws ! i)) i ss = Inr r"
  using market_opens [OF assms] by blast

definition ex_hash :: "buf \<Rightarrow> buf" where
  "ex_hash x = take 32 (rev x @ replicate 32 1)"

abbreviation ex_winners :: "leaf list" where
  "ex_winners \<equiv> [(replicate 64 (CHR ''a''), 700), (replicate 64 (CHR ''b''), 300), (replicate 64 (CHR ''c''), 5)]"

lemma ex_winners_ok: "\<forall>w \<in> set ex_winners. length (hex_decode (fst w)) = 32 \<and> 0 < snd w \<and> snd w < 2 ^ 63"
proof -
  have "list_all (\<lambda>w. length (hex_decode (fst w)) = 32 \<and> 0 < snd w \<and> snd w < 2 ^ 63) ex_winners" by code_simp
  then show ?thesis by (simp add: list_all_iff)
qed

lemma ex_hash32: "hash32 ex_hash"
  by (auto simp: hash32_def ex_hash_def min_def)

theorem market_claim_complete_witness:
  "\<exists>r ss. payoutTreeRoot ex_hash ex_winners = Inr r
    \<and> climbPayoutProof ex_hash (fst (ex_winners ! 2)) (snd (ex_winners ! 2)) 2 ss = Inr r"
proof -
  obtain r where r: "payoutTreeRoot ex_hash ex_winners = Inr r"
    using payoutTreeRoot_ok [OF _ ex_winners_ok] by blast
  then show ?thesis using market_claim_complete [OF r, of 2] by auto
qed

text \<open>C23: a claim that climbs to the root of a payout tree names the key and the amount of the winner
  at its index, or it exhibits a collision of the hash: between leaf inputs, between an input of its
  climb and an input of the tree, or with the padding leaf.\<close>

theorem market_claim_binds:
  assumes "hash32 H" "payoutTreeRoot H ws = Inr r" "i < 2 ^ depthFor (length ws)" "length ss = depthFor (length ws)"
    and "climbPayoutProof H pk a i ss = Inr r"
  shows "(i < length ws \<and> hex_decode pk = hex_decode (fst (ws ! i)) \<and> a = snd (ws ! i))
    \<or> claim_collision H (depthFor (length ws)) ws pk a i ss"
proof -
  obtain ls where ls: "mapE (\<lambda>w. payoutLeaf H (fst w) (snd w)) ws = Inr ls" "length ws \<le> 2 ^ depthFor (length ws)"
    using assms(2) by (rule payoutTreeRoot_Inr)
  obtain l where l: "payoutLeaf H pk a = Inr l" "climb H l i ss = r"
    using assms(5) by (cases "payoutLeaf H pk a") (auto simp: climbPayoutProof_def)
  have "length l = 32" using assms(1) l(1) by (auto simp: payoutLeaf_Inr hash32_def)
  then show ?thesis
    using claim_binds [OF ls assms(3) l(1)] market.binds [OF assms(1) _ assms(3), of r l ss] assms(2,4) l(2) by simp
qed

theorem market_claim_binds_witness:
  "\<exists>ss. length ss = depthFor (length ex_winners) \<and> ((2 < length ex_winners \<and> hex_decode (fst (ex_winners ! 2)) = hex_decode (fst (ex_winners ! 2)) \<and> 5 = snd (ex_winners ! 2))
    \<or> claim_collision ex_hash (depthFor (length ex_winners)) ex_winners (fst (ex_winners ! 2)) 5 2 ss)"
proof -
  obtain r where r: "payoutTreeRoot ex_hash ex_winners = Inr r"
    using payoutTreeRoot_ok [OF _ ex_winners_ok] by blast
  obtain ss where ss: "length ss = depthFor (length ex_winners)" "climbPayoutProof ex_hash (fst (ex_winners ! 2)) 5 2 ss = Inr r"
    using market_opens [OF r, of 2] by auto
  have "length ex_winners \<le> 2 ^ depthFor (length ex_winners)" by (rule depthFor_ge)
  then have "2 < (2::nat) ^ depthFor (length ex_winners)" by simp
  then show ?thesis using market_claim_binds [OF ex_hash32 r _ ss] ss(1) by auto
qed

text \<open>The same for the depth-ten tree of a payout shard: a leaf that climbs to its root is a leaf of
  the winner at that index, or a collision.\<close>

theorem shard_claim_binds:
  assumes "hash32 H" "payoutRoot H ws = Inr r" "i < CAP" "payoutLeaf H pk a = Inr l" "climbProof H l i ss = Inr r"
  shows "(i < length ws \<and> hex_decode pk = hex_decode (fst (ws ! i)) \<and> a = snd (ws ! i))
    \<or> claim_collision H DEPTH ws pk a i (take DEPTH ss)"
proof -
  obtain ls where ls: "mapE (\<lambda>w. payoutLeaf H (fst w) (snd w)) ws = Inr ls" "length ws \<le> 2 ^ DEPTH"
    using assms(2) by (rule payoutRoot_Inr)
  have c: "climb H l i (take DEPTH ss) = r" "length (take DEPTH ss) = DEPTH"
    using assms(5) by (auto simp: climbProof_def split: if_splits)
  have i: "i < 2 ^ DEPTH" using assms(3) by (simp add: CAP_def)
  have "length l = 32" using assms(1,4) by (auto simp: payoutLeaf_Inr hash32_def)
  then show ?thesis
    using claim_binds [OF ls i assms(4)] shard.binds [OF assms(1) _ i _ c(2,1)] assms(2) by simp
qed

lemma ex_shard: "\<exists>r l ss. payoutRoot ex_hash ex_winners = Inr r \<and> payoutLeaf ex_hash (fst (ex_winners ! 1)) (snd (ex_winners ! 1)) = Inr l
    \<and> climbProof ex_hash l 1 ss = Inr r"
proof -
  obtain r where r: "payoutRoot ex_hash ex_winners = Inr r"
    using payoutRoot_ok [OF _ ex_winners_ok] by (auto simp: CAP_def DEPTH_def)
  then show ?thesis using shard_opens [OF r, of 1] by auto
qed

theorem shard_claim_binds_witness:
  "\<exists>ss. (1 < length ex_winners \<and> hex_decode (fst (ex_winners ! 1)) = hex_decode (fst (ex_winners ! 1)) \<and> snd (ex_winners ! 1) = 300)
    \<or> claim_collision ex_hash DEPTH ex_winners (fst (ex_winners ! 1)) (snd (ex_winners ! 1)) 1 (take DEPTH ss)"
proof -
  obtain r l ss where e: "payoutRoot ex_hash ex_winners = Inr r"
    "payoutLeaf ex_hash (fst (ex_winners ! 1)) (snd (ex_winners ! 1)) = Inr l" "climbProof ex_hash l 1 ss = Inr r"
    using ex_shard by blast
  have "1 < CAP" by (simp add: CAP_def DEPTH_def)
  then show ?thesis using shard_claim_binds [OF ex_hash32 e(1) _ e(2,3)] by auto
qed

text \<open>The bets root fixes the bets: two canonically ordered lists of equally many bets with the same
  root have the same keys, stakes and directions, position by position, or the chains collide.\<close>

theorem bets_root_binds:
  assumes "hash32 H" "length bs = length cs" "computeBetsRoot H bs = Inr r" "computeBetsRoot H cs = Inr r"
  shows "list_all2 same_bet bs cs \<or> collides H (chain_inputs H ZERO32 bs) (chain_inputs H ZERO32 cs)"
  using bets_chain_binds [OF assms(1) _ assms(2)] assms(3,4) by (simp add: computeBetsRoot_def ZERO32_def)

abbreviation ex_bet :: "char \<Rightarrow> int \<Rightarrow> nat \<Rightarrow> bet_row" where
  "ex_bet c d n \<equiv> \<lparr> br_pk = replicate 64 c, br_stake = 300, br_direction = d, br_daa = Some n, br_tx = Some [c] \<rparr>"

lemma ex_bet_chain: "length acc = 32 \<Longrightarrow> d = 0 \<or> d = 1 \<Longrightarrow> c \<in> {CHR ''a'', CHR ''b''} \<Longrightarrow>
    \<exists>a. betsLeaf ex_hash (br_pk (ex_bet c d n)) (br_stake (ex_bet c d n)) (br_direction (ex_bet c d n)) = Inr a"
proof -
  assume "d = 0 \<or> d = 1" "c \<in> {CHR ''a'', CHR ''b''}"
  moreover have "list_all (\<lambda>c. length (hex_decode (replicate 64 c)) = 32) [CHR ''a'', CHR ''b'']" by code_simp
  ultimately have "length (hex_decode (replicate 64 c)) = 32" "\<bar>d\<bar> < 2 ^ (8 * 0 + 7)" by auto
  then show ?thesis
    using pk_amount_bytes_ok [of "replicate 64 c" 300] serializeI64_fits [of d 0] \<open>d = 0 \<or> d = 1\<close>
    by (auto simp: betsLeaf_def bet_bytes_def)
qed

theorem bets_root_binds_witness:
  "\<exists>r. computeBetsRoot ex_hash [ex_bet (CHR ''a'') 0 3, ex_bet (CHR ''b'') 1 3] = Inr r
    \<and> (list_all2 same_bet [ex_bet (CHR ''a'') 0 3, ex_bet (CHR ''b'') 1 3] [ex_bet (CHR ''a'') 0 3, ex_bet (CHR ''b'') 1 3]
      \<or> collides ex_hash (chain_inputs ex_hash ZERO32 [ex_bet (CHR ''a'') 0 3, ex_bet (CHR ''b'') 1 3])
          (chain_inputs ex_hash ZERO32 [ex_bet (CHR ''a'') 0 3, ex_bet (CHR ''b'') 1 3]))"
proof -
  obtain x y where "betsLeaf ex_hash (br_pk (ex_bet (CHR ''a'') 0 3)) 300 0 = Inr x" "betsLeaf ex_hash (br_pk (ex_bet (CHR ''b'') 1 3)) 300 1 = Inr y"
    using ex_bet_chain [of ZERO32 0 "CHR ''a''" 3] ex_bet_chain [of ZERO32 1 "CHR ''b''" 3] by (auto simp: ZERO32_def)
  then obtain r where "computeBetsRoot ex_hash [ex_bet (CHR ''a'') 0 3, ex_bet (CHR ''b'') 1 3] = Inr r"
    by (simp add: computeBetsRoot_def)
  then show ?thesis using bets_root_binds [OF ex_hash32 refl] by blast
qed

text \<open>The canonical order of the bets does not depend on the order of the rows: any rearrangement of
  rows with distinct (block, transaction) keys gives the same list, sorted and with the same rows.\<close>

theorem bet_order_canonical:
  assumes "mset rows = mset rows'" "distinct (map (bet_key coll) rows)" "canonicalBetOrder coll rows = Inr ordered"
  shows "canonicalBetOrder coll rows' = Inr ordered \<and> sorted (map (bet_key coll) ordered) \<and> mset ordered = mset rows'"
  using canonicalBetOrder_perm [OF assms] canonicalBetOrder_Inr(2,3) [OF assms(3)] assms(1) by simp

theorem bet_order_canonical_witness:
  "canonicalBetOrder id [ex_bet (CHR ''b'') 1 3, ex_bet (CHR ''a'') 0 3] = Inr [ex_bet (CHR ''a'') 0 3, ex_bet (CHR ''b'') 1 3]"
proof -
  have "canonicalBetOrder id [ex_bet (CHR ''a'') 0 3, ex_bet (CHR ''b'') 1 3] = Inr [ex_bet (CHR ''a'') 0 3, ex_bet (CHR ''b'') 1 3]"
    "distinct (map (bet_key id) [ex_bet (CHR ''a'') 0 3, ex_bet (CHR ''b'') 1 3])"
    by (simp_all add: canonicalBetOrder_def bet_key_def sort_key_def less_eq_char_def less_char_def)
  then show ?thesis
    using bet_order_canonical [of "[ex_bet (CHR ''a'') 0 3, ex_bet (CHR ''b'') 1 3]" "[ex_bet (CHR ''b'') 1 3, ex_bet (CHR ''a'') 0 3]" id]
    by simp
qed

end
