(* ===== verification/Committee.thy ===== *)
theory Committee
  imports Payout_Root Payout
begin

section \<open>The oracle pool and its committee\<close>

text \<open>
  \<open>kasia-console/src/services/pool-merkle-v06.mjs\<close> (the depth-8 tree over the oracle keys of a
  market, padded with its last leaf), \<open>services/pool-committee-sampler.mjs\<close> (the stake-weighted draw
  of five committee members without replacement) and \<open>deriveFeeLeavesForMarket\<close> of
  \<open>pool-shard-settle.mjs\<close>.
\<close>

definition POOL_DEPTH :: nat where "POOL_DEPTH = 8"
definition POOL_MAX_SIZE :: nat where "POOL_MAX_SIZE = 2 ^ POOL_DEPTH"

definition strip_0x :: "string \<Rightarrow> string" where
  "strip_0x s = (if take 2 s = ''0x'' then drop 2 s else s)"

text \<open>The test \<open>/^[0-9a-fA-F]{64}$/\<close>.\<close>

definition is_hex_char :: "char \<Rightarrow> bool" where
  "is_hex_char c = (hexval c \<noteq> None)"

definition pkToBytes :: "hexstr \<Rightarrow> merkle_error + buf" where
  "pkToBytes pkHex = (let clean = strip_0x pkHex in
     if length clean = 64 \<and> list_all is_hex_char clean then Inr (hex_decode clean) else Inl (BadPkHex pkHex))"

definition hashPoolLeaf :: "(buf \<Rightarrow> buf) \<Rightarrow> hexstr \<Rightarrow> merkle_error + buf" where
  "hashPoolLeaf H pkHex = map_sum id H (pkToBytes pkHex)"

record pool_tree =
  tr_root :: buf
  tr_levels :: "buf list list"
  tr_sortedPks :: "hexstr list"

definition pad_last :: "nat \<Rightarrow> buf list \<Rightarrow> buf list" where
  "pad_last n ls = ls @ replicate (n - length ls) (last ls)"

definition buildPoolMerkleTree :: "(buf \<Rightarrow> buf) \<Rightarrow> hexstr list \<Rightarrow> merkle_error + pool_tree" where
  "buildPoolMerkleTree H pkHexList =
    (if pkHexList = [] then Inl PoolEmpty
     else if length pkHexList > POOL_MAX_SIZE then Inl (PoolTooLarge (length pkHexList))
     else (let sortedPks = sort (map (\<lambda>s. toLowerCase (strip_0x s)) pkHexList) in
       map_sum id (\<lambda>leaves. let levels = build_levels H POOL_DEPTH (pad_last POOL_MAX_SIZE leaves) in
           \<lparr> tr_root = levels ! POOL_DEPTH ! 0, tr_levels = levels, tr_sortedPks = sortedPks \<rparr>)
         (mapE (hashPoolLeaf H) sortedPks)))"

definition getPoolMerkleProof :: "pool_tree \<Rightarrow> int \<Rightarrow> merkle_error + buf option list" where
  "getPoolMerkleProof tree leafIndex =
    (if leafIndex < 0 \<or> leafIndex \<ge> int POOL_MAX_SIZE then Inl LeafIndexRange
     else Inr (siblings_from (take POOL_DEPTH (tr_levels tree)) (nat leafIndex)))"

definition verifyPoolMerkleProof :: "(buf \<Rightarrow> buf) \<Rightarrow> hexstr \<Rightarrow> nat \<Rightarrow> buf list \<Rightarrow> buf \<Rightarrow> merkle_error + bool" where
  "verifyPoolMerkleProof H leafPkHex leafIndex sibs expectedRoot =
    (if length sibs \<noteq> POOL_DEPTH then Inl (SiblingCount (length sibs))
     else map_sum id (\<lambda>l. climb H l leafIndex sibs = expectedRoot) (hashPoolLeaf H leafPkHex))"

definition deriveCommitteePkHash :: "(buf \<Rightarrow> buf) \<Rightarrow> hexstr list \<Rightarrow> merkle_error + buf" where
  "deriveCommitteePkHash H pks =
    (if length pks \<noteq> 5 then Inl (CommitteeNotFive (length pks))
     else map_sum id (\<lambda>bs. H (concat bs)) (mapE pkToBytes pks))"

subsection \<open>Sampling\<close>

datatype committee_error = MarketIdMissing | EndHashLength nat | RootLength nat | SeedLength nat
  | PoolTooSmall nat | StakeInvalid hexstr | NoMemberHit nat

record member =
  m_pk :: hexstr
  m_stake :: int

definition COMMITTEE_SIZE :: nat where "COMMITTEE_SIZE = 5"

definition deriveCommitteeSeed :: "(buf \<Rightarrow> buf) \<Rightarrow> string \<Rightarrow> hexstr \<Rightarrow> hexstr \<Rightarrow> committee_error + buf" where
  "deriveCommitteeSeed H marketId endBlockHashHex poolMerkleRootHex =
    (if marketId = [] then Inl MarketIdMissing
     else (let endBuf = hex_decode (strip_0x endBlockHashHex); rootBuf = hex_decode (strip_0x poolMerkleRootHex) in
       if length endBuf \<noteq> 32 then Inl (EndHashLength (length endBuf))
       else if length rootBuf \<noteq> 32 then Inl (RootLength (length rootBuf))
       else Inr (H (str_bytes marketId @ endBuf @ rootBuf))))"

text \<open>The scan for the member whose cumulative stake first exceeds \<open>hit\<close>.\<close>

fun find_hit :: "int \<Rightarrow> int \<Rightarrow> nat \<Rightarrow> member list \<Rightarrow> nat option" where
  "find_hit hit cum j [] = None"
| "find_hit hit cum j (m # ms) =
    (if hit < cum + m_stake m then Some j else find_hit hit (cum + m_stake m) (Suc j) ms)"

definition u32_be :: "nat \<Rightarrow> buf" where
  "u32_be i = [of_nat (i div 256 ^ 3), of_nat (i div 256 ^ 2), of_nat (i div 256), of_nat i]"

record sample_round =
  rd_round :: nat
  rd_rand_hash :: buf
  rd_hit :: int
  rd_total :: int
  rd_hit_pk :: hexstr
  rd_remaining :: nat

text \<open>\<open>n\<close> rounds starting with number \<open>i\<close>.\<close>

fun sample_rounds :: "(buf \<Rightarrow> buf) \<Rightarrow> buf \<Rightarrow> nat \<Rightarrow> nat \<Rightarrow> member list
    \<Rightarrow> committee_error + (member list \<times> sample_round list)" where
  "sample_rounds H seed 0 i remaining = Inr ([], [])"
| "sample_rounds H seed (Suc n) i remaining =
    (let randHash = H (seed @ u32_be i); rand = int (be_val randHash);
         totalStake = (\<Sum>m\<leftarrow>remaining. m_stake m); hit = rand mod totalStake in
     case find_hit hit 0 0 remaining of
       None \<Rightarrow> Inl (NoMemberHit i)
     | Some k \<Rightarrow>
       (let drawn = remaining ! k;
            rd = \<lparr> rd_round = i, rd_rand_hash = randHash, rd_hit = hit, rd_total = totalStake,
                   rd_hit_pk = m_pk drawn, rd_remaining = length remaining \<rparr> in
        case sample_rounds H seed n (Suc i) (take k remaining @ drop (Suc k) remaining) of
          Inl e \<Rightarrow> Inl e
        | Inr (sel, rds) \<Rightarrow> Inr (drawn # sel, rd # rds)))"

definition sorted_members :: "member list \<Rightarrow> hexstr list \<Rightarrow> member list" where
  "sorted_members members excludePks =
    sort_key m_pk (filter (\<lambda>m. m_pk m \<notin> set (map toLowerCase excludePks))
      (map (\<lambda>m. \<lparr> m_pk = toLowerCase (m_pk m), m_stake = m_stake m \<rparr>) members))"

definition selectCommittee :: "(buf \<Rightarrow> buf) \<Rightarrow> member list \<Rightarrow> buf \<Rightarrow> hexstr list
    \<Rightarrow> committee_error + (member list \<times> sample_round list)" where
  "selectCommittee H members seed excludePks =
    (if length seed \<noteq> 32 then Inl (SeedLength (length seed))
     else (let sorted = sorted_members members excludePks in
       if length sorted < COMMITTEE_SIZE then Inl (PoolTooSmall (length sorted))
       else (case find (\<lambda>m. m_stake m \<le> 0) sorted of
          Some m \<Rightarrow> Inl (StakeInvalid (m_pk m))
        | None \<Rightarrow> sample_rounds H seed COMMITTEE_SIZE 0 sorted)))"

text \<open>The result is the reason of refusal, or \<open>None\<close> for \<open>{ valid: true }\<close>.\<close>

datatype verify_reason = ClaimedSize nat | SelectThrew committee_error | PositionDiffers nat

fun first_diff :: "nat \<Rightarrow> hexstr list \<Rightarrow> hexstr list \<Rightarrow> nat option" where
  "first_diff i (e # es) (c # cs) = (if e \<noteq> toLowerCase c then Some i else first_diff (Suc i) es cs)"
| "first_diff i _ _ = None"

definition verifyCommitteeSelection :: "(buf \<Rightarrow> buf) \<Rightarrow> member list \<Rightarrow> buf \<Rightarrow> hexstr list \<Rightarrow> verify_reason option" where
  "verifyCommitteeSelection H members seed claimedSelected =
    (if length claimedSelected \<noteq> COMMITTEE_SIZE then Some (ClaimedSize (length claimedSelected))
     else (case selectCommittee H members seed [] of
       Inl e \<Rightarrow> Some (SelectThrew e)
     | Inr (sel, _) \<Rightarrow> map_option PositionDiffers (first_diff 0 (map m_pk sel) claimedSelected)))"

text \<open>\<open>deriveFeeLeavesForMarket\<close>: the committee never includes the broker.\<close>

record market_leaves =
  ml_feeLeaves :: "fee_leaf list"
  ml_feeSompi :: int
  ml_committeePks :: "hexstr list"

definition deriveFeeLeavesForMarket :: "(buf \<Rightarrow> buf) \<Rightarrow> string \<Rightarrow> hexstr \<Rightarrow> hexstr \<Rightarrow> member list \<Rightarrow> fee_config
    \<Rightarrow> hexstr option \<Rightarrow> hexstr option \<Rightarrow> hexstr list \<Rightarrow> int \<Rightarrow> committee_error + market_leaves" where
  "deriveFeeLeavesForMarket H marketId poolMerkleRoot endBlockHash poolMembers feeConfig brokerPk introducerPk excludePks poolSompi =
    (case deriveCommitteeSeed H marketId endBlockHash poolMerkleRoot of
       Inl e \<Rightarrow> Inl e
     | Inr seed \<Rightarrow>
       (let exclude = map toLowerCase (filter (\<lambda>p. p \<noteq> []) (excludePks @ (case brokerPk of Some b \<Rightarrow> [b] | None \<Rightarrow> []))) in
        case selectCommittee H poolMembers seed exclude of
          Inl e \<Rightarrow> Inl e
        | Inr (sel, _) \<Rightarrow>
          (let committeePks = map m_pk sel; r = deriveFeeLeaves poolSompi feeConfig brokerPk introducerPk committeePks in
           Inr \<lparr> ml_feeLeaves = fst r, ml_feeSompi = snd r, ml_committeePks = committeePks \<rparr>)))"

subsection \<open>The pool tree is a commitment\<close>

definition pool_leaves :: "(buf \<Rightarrow> buf) \<Rightarrow> hexstr list \<Rightarrow> buf list" where
  "pool_leaves H pks = pad_last POOL_MAX_SIZE
     (case mapE (hashPoolLeaf H) (sort (map (\<lambda>s. toLowerCase (strip_0x s)) pks)) of Inr ls \<Rightarrow> ls | Inl _ \<Rightarrow> [])"

lemma hashPoolLeaf_Inr: "hashPoolLeaf H pk = Inr l \<longleftrightarrow> (\<exists>b. pkToBytes pk = Inr b \<and> l = H b)"
  by (cases "pkToBytes pk") (auto simp: hashPoolLeaf_def)

lemma buildPoolMerkleTree_Inr:
  assumes "buildPoolMerkleTree H pks = Inr t"
  obtains ls where "mapE (hashPoolLeaf H) (tr_sortedPks t) = Inr ls" "ls \<noteq> []" "length ls \<le> POOL_MAX_SIZE"
    "tr_sortedPks t = sort (map (\<lambda>s. toLowerCase (strip_0x s)) pks)" "length ls = length (tr_sortedPks t)"
    "pool_leaves H pks = pad_last POOL_MAX_SIZE ls"
    "tr_root t = tree_root H POOL_DEPTH (pool_leaves H pks)"
    "tr_levels t = build_levels H POOL_DEPTH (pool_leaves H pks)"
proof -
  let ?s = "sort (map (\<lambda>s. toLowerCase (strip_0x s)) pks)"
  have sz: "pks \<noteq> []" "length pks \<le> POOL_MAX_SIZE" using assms by (auto simp: buildPoolMerkleTree_def split: if_splits)
  obtain ls where ls: "mapE (hashPoolLeaf H) ?s = Inr ls"
    using assms sz by (cases "mapE (hashPoolLeaf H) ?s") (auto simp: buildPoolMerkleTree_def Let_def)
  have t: "tr_sortedPks t = ?s" "tr_levels t = build_levels H POOL_DEPTH (pad_last POOL_MAX_SIZE ls)"
    "tr_root t = tree_root H POOL_DEPTH (pad_last POOL_MAX_SIZE ls)"
    using assms sz ls by (auto simp: buildPoolMerkleTree_def Let_def tree_root_def)
  have len: "length ls = length pks" using mapE_Inr_length [OF ls] by simp
  then have "ls \<noteq> []" using sz(1) by auto
  moreover have "pool_leaves H pks = pad_last POOL_MAX_SIZE ls" by (simp add: pool_leaves_def ls)
  ultimately show ?thesis using that t ls len sz by simp
qed

lemma pad_last_props:
  assumes "ls \<noteq> []" "length ls \<le> n"
  shows "length (pad_last n ls) = n" "set (pad_last n ls) = set ls" "i < length ls \<Longrightarrow> pad_last n ls ! i = ls ! i"
    "length ls \<le> i \<Longrightarrow> i < n \<Longrightarrow> pad_last n ls ! i = last ls"
  using assms by (auto simp: pad_last_def nth_append)

definition pool_root :: "(buf \<Rightarrow> buf) \<Rightarrow> hexstr list \<Rightarrow> buf option" where
  "pool_root H pks = map_option tr_root (right_opt (buildPoolMerkleTree H pks))"

interpretation opool: commitment_tree pool_root "\<lambda>H pks i. pool_leaves H pks ! i"
  "\<lambda>H pks i. the (right_opt (getPoolMerkleProof (the (right_opt (buildPoolMerkleTree H pks))) (int i)))"
  "\<lambda>_. POOL_DEPTH" "\<lambda>H pks. tree_inputs H POOL_DEPTH (pool_leaves H pks)"
proof
  fix H pks r and i :: nat
  assume a: "pool_root H pks = Some r" and i: "i < 2 ^ POOL_DEPTH"
  from a obtain t where t: "buildPoolMerkleTree H pks = Inr t" and r: "r = tr_root t" by (auto simp: pool_root_def)
  obtain ls where ls: "mapE (hashPoolLeaf H) (tr_sortedPks t) = Inr ls" "ls \<noteq> []" "length ls \<le> POOL_MAX_SIZE"
    and "tr_sortedPks t = sort (map (\<lambda>s. toLowerCase (strip_0x s)) pks)" "length ls = length (tr_sortedPks t)"
    and pl: "pool_leaves H pks = pad_last POOL_MAX_SIZE ls"
    and root: "tr_root t = tree_root H POOL_DEPTH (pool_leaves H pks)"
    and lev: "tr_levels t = build_levels H POOL_DEPTH (pool_leaves H pks)"
    using t by (rule buildPoolMerkleTree_Inr)
  note p = pad_last_props [OF ls(2,3), folded pl]
  have len: "length (pool_leaves H pks) = 2 ^ POOL_DEPTH" using p(1) by (simp add: POOL_MAX_SIZE_def)
  have g: "getPoolMerkleProof t (int i) = Inr (siblings H POOL_DEPTH (pool_leaves H pks) i)"
    using i by (simp add: getPoolMerkleProof_def lev siblings_def POOL_MAX_SIZE_def)
  show "\<exists>ss. the (right_opt (getPoolMerkleProof (the (right_opt (buildPoolMerkleTree H pks))) (int i))) = map Some ss
      \<and> length ss = POOL_DEPTH \<and> climb H (pool_leaves H pks ! i) i ss = r"
    using siblings_climb [OF len i, of H] by (simp add: right_opt_def t g r root)
  fix y ss
  assume "hash32 H" "length y = 32" "length ss = POOL_DEPTH" "climb H y i ss = r" "y \<noteq> pool_leaves H pks ! i"
  moreover have "\<forall>y \<in> set (pool_leaves H pks). length y = 32" if "hash32 H"
    using mapE_Inr_set [OF ls(1)] that by (auto simp: p(2) hashPoolLeaf_Inr hash32_def)
  ultimately show "collides H (climb_inputs H y i ss) (tree_inputs H POOL_DEPTH (pool_leaves H pks))"
    using climb_binds [OF _ len i] by (simp add: r root)
qed

subsection \<open>The draw\<close>

abbreviation stake_sum :: "member list \<Rightarrow> int" where
  "stake_sum ms \<equiv> (\<Sum>m\<leftarrow>ms. m_stake m)"

lemma stake_sum_nonneg: "\<forall>m \<in> set ms. 0 < m_stake m \<Longrightarrow> 0 \<le> stake_sum ms"
  by (intro sum_list_nonneg_int) (auto simp: less_imp_le)

lemma find_hit_iff:
  assumes "\<forall>m \<in> set ms. 0 < m_stake m" "cum \<le> hit"
  shows "find_hit hit cum j ms = Some k \<longleftrightarrow> j \<le> k \<and> k - j < length ms
    \<and> cum + stake_sum (take (k - j) ms) \<le> hit \<and> hit < cum + stake_sum (take (Suc (k - j)) ms)"
  using assms
proof (induction hit cum j ms arbitrary: k rule: find_hit.induct)
  case (1 hit cum j)
  then show ?case by simp
next
  case (2 hit cum j m ms)
  have pos: "\<forall>m \<in> set ms. 0 < m_stake m" "0 < m_stake m" using "2.prems"(1) by auto
  show ?case
  proof (cases "hit < cum + m_stake m")
    case True
    have "k = j" if jk: "j \<le> k" "cum + stake_sum (take (k - j) (m # ms)) \<le> hit"
    proof (rule ccontr)
      assume "k \<noteq> j"
      then obtain i where "k - j = Suc i" using jk(1) by (cases "k - j") auto
      moreover have "0 \<le> stake_sum (take i ms)" using pos(1) by (intro stake_sum_nonneg) (auto dest: in_set_takeD)
      ultimately show False using jk(2) True by simp
    qed
    then show ?thesis using True "2.prems"(2) by auto
  next
    case False
    then have IH: "find_hit hit (cum + m_stake m) (Suc j) ms = Some k \<longleftrightarrow> Suc j \<le> k \<and> k - Suc j < length ms
        \<and> cum + m_stake m + stake_sum (take (k - Suc j) ms) \<le> hit \<and> hit < cum + m_stake m + stake_sum (take (Suc (k - Suc j)) ms)"
      using "2.IH" pos by simp
    show ?thesis
    proof (cases "Suc j \<le> k")
      case True
      then have "k - j = Suc (k - Suc j)" by simp
      then show ?thesis using IH False True by (simp add: add.assoc)
    next
      case notle: False
      then show ?thesis using IH False by (cases "k = j") auto
    qed
  qed
qed

lemma find_hit_total:
  assumes "\<forall>m \<in> set ms. 0 < m_stake m" "cum \<le> hit" "hit < cum + stake_sum ms"
  shows "\<exists>k. find_hit hit cum j ms = Some k \<and> k < j + length ms"
  using assms by (induction hit cum j ms rule: find_hit.induct) auto

text \<open>The hits that select member \<open>k\<close> are as many as its stake.\<close>

lemma hits_of_member:
  assumes "\<forall>m \<in> set ms. 0 < m_stake m" "k < length ms"
  shows "{hit. 0 \<le> hit \<and> hit < stake_sum ms \<and> find_hit hit 0 0 ms = Some k}
    = {stake_sum (take k ms) ..< stake_sum (take k ms) + m_stake (ms ! k)}"
proof -
  have step: "stake_sum (take (Suc k) ms) = stake_sum (take k ms) + m_stake (ms ! k)"
    using assms(2) by (simp add: take_Suc_conv_app_nth)
  have "0 \<le> stake_sum (take k ms)" using assms(1) by (intro stake_sum_nonneg) (auto dest: in_set_takeD)
  moreover have "stake_sum (take (Suc k) ms) \<le> stake_sum ms"
  proof -
    have "stake_sum ms = stake_sum (take (Suc k) ms) + stake_sum (drop (Suc k) ms)"
      by (metis append_take_drop_id map_append sum_list_append)
    moreover have "0 \<le> stake_sum (drop (Suc k) ms)" using assms(1) by (intro stake_sum_nonneg) (auto dest: in_set_dropD)
    ultimately show ?thesis by simp
  qed
  ultimately show ?thesis
    using find_hit_iff [OF assms(1), of 0 _ 0 k] assms(2) step by auto
qed

lemma remove_nth_mset: "k < length xs \<Longrightarrow> add_mset (xs ! k) (mset (take k xs @ drop (Suc k) xs)) = mset xs"
  by (metis (no_types, lifting) id_take_nth_drop mset.simps(2) mset_append union_mset_add_mset_right)

lemma sample_rounds_total:
  assumes "\<forall>m \<in> set ms. 0 < m_stake m" "n \<le> length ms"
  shows "\<exists>sel rds. sample_rounds H seed n i ms = Inr (sel, rds) \<and> length sel = n \<and> mset sel \<subseteq># mset ms"
  using assms
proof (induction n arbitrary: i ms)
  case 0
  then show ?case by simp
next
  case (Suc n)
  let ?hit = "int (be_val (H (seed @ u32_be i))) mod stake_sum ms"
  obtain m where "m \<in> set ms" using Suc.prems(2) by (cases ms) auto
  then have "0 < stake_sum ms"
    using Suc.prems(1) sum_list_member_le [of m ms m_stake] by (fastforce simp: less_imp_le)
  then have "0 \<le> ?hit" "?hit < 0 + stake_sum ms" by simp_all
  then obtain k where k: "find_hit ?hit 0 0 ms = Some k" "k < length ms"
    using find_hit_total [OF Suc.prems(1), of 0 ?hit 0] by auto
  let ?ms = "take k ms @ drop (Suc k) ms"
  have "\<forall>m \<in> set ?ms. 0 < m_stake m" using Suc.prems(1) by (auto dest: in_set_takeD in_set_dropD)
  moreover have "n \<le> length ?ms" using k(2) Suc.prems(2) by simp
  ultimately obtain sel rds where r: "sample_rounds H seed n (Suc i) ?ms = Inr (sel, rds)" "length sel = n" "mset sel \<subseteq># mset ?ms"
    using Suc.IH by blast
  have "mset (ms ! k # sel) \<subseteq># mset ms"
    using r(3) remove_nth_mset [OF k(2)] by (metis mset.simps(2) mset_subset_eq_add_mset_cancel)
  then show ?case using r k by (simp add: Let_def)
qed

lemma sorted_members_set:
  "m \<in> set (sorted_members ms ex) \<longleftrightarrow> (\<exists>m' \<in> set ms. m = \<lparr> m_pk = toLowerCase (m_pk m'), m_stake = m_stake m' \<rparr>
    \<and> toLowerCase (m_pk m') \<notin> set (map toLowerCase ex))"
  by (auto simp: sorted_members_def)

lemma sorted_members_key: "m \<in> set (sorted_members ms ex) \<Longrightarrow> m_pk m \<notin> set (map toLowerCase ex)"
  unfolding sorted_members_set by force

lemma find_none_pos: "find (\<lambda>m. m_stake m \<le> 0) ms = None \<longleftrightarrow> (\<forall>m \<in> set ms. 0 < m_stake m)"
  by (auto simp: find_None_iff not_le)

lemma selectCommittee_cases:
  "selectCommittee H members seed ex = (
     if length seed \<noteq> 32 then Inl (SeedLength (length seed))
     else if length (sorted_members members ex) < COMMITTEE_SIZE then Inl (PoolTooSmall (length (sorted_members members ex)))
     else case find (\<lambda>m. m_stake m \<le> 0) (sorted_members members ex) of Some m \<Rightarrow> Inl (StakeInvalid (m_pk m))
       | None \<Rightarrow> sample_rounds H seed COMMITTEE_SIZE 0 (sorted_members members ex))"
  by (simp add: selectCommittee_def Let_def)

text \<open>The draw as it is meant: round \<open>i\<close> hashes the seed with its number, takes the value modulo the stake that remains, and draws the member
  whose share of the line of stakes, one behind the other, the value falls into; the members before it and after it remain.\<close>

fun drawn_by_stake :: "(buf \<Rightarrow> buf) \<Rightarrow> buf \<Rightarrow> nat \<Rightarrow> member list \<Rightarrow> member list \<Rightarrow> bool" where
  "drawn_by_stake H seed i ms [] \<longleftrightarrow> True"
| "drawn_by_stake H seed i ms (m # sel) \<longleftrightarrow>
    (let v = int (be_val (H (seed @ u32_be i))) mod (\<Sum>x\<leftarrow>ms. m_stake x) in
     \<exists>k < length ms. ms ! k = m \<and> (\<Sum>x\<leftarrow>take k ms. m_stake x) \<le> v \<and> v < (\<Sum>x\<leftarrow>take (Suc k) ms. m_stake x)
       \<and> drawn_by_stake H seed (Suc i) (take k ms @ drop (Suc k) ms) sel)"

lemma hit_interval:
  assumes "\<forall>m \<in> set ms. 0 < m_stake m" "find_hit v 0 0 ms = Some k" "0 \<le> v" "v < stake_sum ms"
  shows "k < length ms" "stake_sum (take k ms) \<le> v" "v < stake_sum (take (Suc k) ms)"
proof -
  show k: "k < length ms" using find_hit_iff [OF assms(1), of 0 v 0 k] assms(2,3) by simp
  have "v \<in> {hit. 0 \<le> hit \<and> hit < stake_sum ms \<and> find_hit hit 0 0 ms = Some k}" using assms(2-4) by simp
  then have "v \<in> {stake_sum (take k ms) ..< stake_sum (take k ms) + m_stake (ms ! k)}" unfolding hits_of_member [OF assms(1) k] .
  then show "stake_sum (take k ms) \<le> v" "v < stake_sum (take (Suc k) ms)" using k by (simp_all add: take_Suc_conv_app_nth)
qed

lemma sample_rounds_drawn:
  assumes "\<forall>m \<in> set ms. 0 < m_stake m" "n \<le> length ms" "sample_rounds H seed n i ms = Inr (sel, rds)"
  shows "drawn_by_stake H seed i ms sel"
  using assms
proof (induction n arbitrary: i ms sel rds)
  case (Suc n)
  define v where "v = int (be_val (H (seed @ u32_be i))) mod stake_sum ms"
  obtain m where "m \<in> set ms" using Suc.prems(2) by (cases ms) auto
  then have "0 < stake_sum ms"
    using Suc.prems(1) sum_list_member_le [of m ms m_stake] by (fastforce simp: less_imp_le)
  then have v: "0 \<le> v" "v < stake_sum ms" by (simp_all add: v_def)
  obtain k where k: "find_hit v 0 0 ms = Some k"
    using Suc.prems(3) by (auto simp: v_def Let_def split: option.splits)
  note h = hit_interval [OF Suc.prems(1) k v]
  obtain sel' rds' where s: "sample_rounds H seed n (Suc i) (take k ms @ drop (Suc k) ms) = Inr (sel', rds')" "sel = ms ! k # sel'"
    using Suc.prems(3) k by (auto simp: v_def Let_def split: sum.splits)
  have "drawn_by_stake H seed (Suc i) (take k ms @ drop (Suc k) ms) sel'"
    by (rule Suc.IH [OF _ _ s(1)]) (use Suc.prems(1,2) h(1) in \<open>auto dest: in_set_takeD in_set_dropD\<close>)
  then show ?case using h s(2) by (auto simp: v_def Let_def)
qed simp

lemma selectCommittee_total:
  assumes "length seed = 32" "COMMITTEE_SIZE \<le> length (sorted_members members ex)" "\<forall>m \<in> set members. 0 < m_stake m"
  shows "\<exists>sel rds. selectCommittee H members seed ex = Inr (sel, rds) \<and> length sel = COMMITTEE_SIZE
    \<and> mset sel \<subseteq># mset (sorted_members members ex)"
proof -
  have pos: "\<forall>m \<in> set (sorted_members members ex). 0 < m_stake m"
    using assms(3) by (auto simp: sorted_members_set)
  then show ?thesis
    using sample_rounds_total [OF pos assms(2)] assms(1,2) find_none_pos [of "sorted_members members ex"]
    by (simp add: selectCommittee_cases)
qed

lemma selectCommittee_Inr:
  assumes "selectCommittee H members seed ex = Inr (sel, rds)"
  shows "length seed = 32" "length sel = COMMITTEE_SIZE" "mset sel \<subseteq># mset (sorted_members members ex)"
proof -
  have a: "length seed = 32" "COMMITTEE_SIZE \<le> length (sorted_members members ex)"
    "find (\<lambda>m. m_stake m \<le> 0) (sorted_members members ex) = None"
    "sample_rounds H seed COMMITTEE_SIZE 0 (sorted_members members ex) = Inr (sel, rds)"
    using assms by (auto simp: selectCommittee_cases not_less split: if_splits option.splits)
  then show "length seed = 32" by simp
  show "length sel = COMMITTEE_SIZE" "mset sel \<subseteq># mset (sorted_members members ex)"
    using sample_rounds_total [of "sorted_members members ex" COMMITTEE_SIZE H seed 0] a find_none_pos by auto
qed

lemma sorted_members_perm:
  assumes "mset ms = mset ms'" "distinct (map (\<lambda>m. toLowerCase (m_pk m)) ms)"
  shows "sorted_members ms ex = sorted_members ms' ex"
proof -
  let ?f = "\<lambda>ms. filter (\<lambda>m. m_pk m \<notin> set (map toLowerCase ex)) (map (\<lambda>m. \<lparr> m_pk = toLowerCase (m_pk m), m_stake = m_stake m \<rparr>) ms)"
  have "mset (?f ms) = mset (?f ms')" using assms(1) by (simp only: mset_filter mset_map)
  moreover have "distinct (map m_pk (?f ms))"
    using assms(2) by (intro distinct_map_filter) (simp add: comp_def)
  ultimately show ?thesis unfolding sorted_members_def by (rule sort_key_perm_eq [symmetric])
qed

lemma first_diff_None: "length es = length cs \<Longrightarrow> first_diff i es cs = None \<longleftrightarrow> es = map toLowerCase cs"
  by (induction i es cs rule: first_diff.induct) auto

lemma verify_exact:
  "verifyCommitteeSelection H members seed claimed = None
    \<longleftrightarrow> (\<exists>sel rds. selectCommittee H members seed [] = Inr (sel, rds) \<and> map m_pk sel = map toLowerCase claimed)"
proof
  assume v: "verifyCommitteeSelection H members seed claimed = None"
  then obtain sel rds where s: "selectCommittee H members seed [] = Inr (sel, rds)" and l: "length claimed = COMMITTEE_SIZE"
    by (auto simp: verifyCommitteeSelection_def split: if_splits sum.splits)
  then show "\<exists>sel rds. selectCommittee H members seed [] = Inr (sel, rds) \<and> map m_pk sel = map toLowerCase claimed"
    using v first_diff_None [of "map m_pk sel" claimed 0] selectCommittee_Inr(2) [OF s]
    by (simp add: verifyCommitteeSelection_def)
next
  assume "\<exists>sel rds. selectCommittee H members seed [] = Inr (sel, rds) \<and> map m_pk sel = map toLowerCase claimed"
  then obtain sel rds where s: "selectCommittee H members seed [] = Inr (sel, rds)" "map m_pk sel = map toLowerCase claimed"
    by blast
  then have "length claimed = COMMITTEE_SIZE" using selectCommittee_Inr(2) [OF s(1)] by (metis length_map)
  then show "verifyCommitteeSelection H members seed claimed = None"
    using s first_diff_None [of "map m_pk sel" claimed 0] selectCommittee_Inr(2) [OF s(1)]
    by (simp add: verifyCommitteeSelection_def)
qed

lemma distinct_mset_sub: "mset xs \<subseteq># mset ys \<Longrightarrow> distinct (map f ys) \<Longrightarrow> distinct (map f xs)"
proof -
  assume a: "mset xs \<subseteq># mset ys" "distinct (map f ys)"
  obtain zs where "mset ys = mset (xs @ zs)"
    using a(1) by (metis ex_mset mset_append subset_mset.add_diff_inverse)
  then have "mset (map f ys) = mset (map f (xs @ zs))" by (simp only: mset_map)
  then have "distinct (map f (xs @ zs))" using a(2) mset_eq_imp_distinct_iff by blast
  then show "distinct (map f xs)" by simp
qed

subsection \<open>Properties\<close>


abbreviation ex_members :: "member list" where
  "ex_members \<equiv> map (\<lambda>c. \<lparr> m_pk = [c], m_stake = 100 \<rparr>) ''cAbdeFg''"


text \<open>The draw does not depend on the order in which the pool lists its members.\<close>

theorem committee_order_free:
  assumes "mset ms = mset ms'" "distinct (map (\<lambda>m. toLowerCase (m_pk m)) ms)"
  shows "selectCommittee H ms seed ex = selectCommittee H ms' seed ex"
  unfolding selectCommittee_cases sorted_members_perm [OF assms] ..

theorem committee_order_free_witness:
  "selectCommittee ex_hash [\<lparr> m_pk = ''a'', m_stake = 3 \<rparr>, \<lparr> m_pk = ''b'', m_stake = 4 \<rparr>] (replicate 32 7) []
    = selectCommittee ex_hash [\<lparr> m_pk = ''b'', m_stake = 4 \<rparr>, \<lparr> m_pk = ''a'', m_stake = 3 \<rparr>] (replicate 32 7) []"
  by (rule committee_order_free) (simp_all add: toLowerCase_def lower_ex)

text \<open>Each round is weighted by stake: of the values a round's hit can take, exactly as many select a
  member as its stake, for every pool with positive stakes.\<close>

theorem draw_stake_weighted:
  assumes "\<forall>m \<in> set ms. 0 < m_stake m" "k < length ms"
  shows "int (card {hit. 0 \<le> hit \<and> hit < (\<Sum>m\<leftarrow>ms. m_stake m) \<and> find_hit hit 0 0 ms = Some k}) = m_stake (ms ! k)"
  using hits_of_member [OF assms] assms by (simp add: less_imp_le)

theorem draw_stake_weighted_witness:
  "int (card {hit. 0 \<le> hit \<and> hit < (\<Sum>m\<leftarrow>[\<lparr> m_pk = ''a'', m_stake = 3 \<rparr>, \<lparr> m_pk = ''b'', m_stake = 4 \<rparr>]. m_stake m)
      \<and> find_hit hit 0 0 [\<lparr> m_pk = ''a'', m_stake = 3 \<rparr>, \<lparr> m_pk = ''b'', m_stake = 4 \<rparr>] = Some 1}) = 4"
  using draw_stake_weighted [of "[\<lparr> m_pk = ''a'', m_stake = 3 \<rparr>, \<lparr> m_pk = ''b'', m_stake = 4 \<rparr>]" 1] by simp

text \<open>The verifier accepts a claimed committee exactly when the draw returns it, in the same order.\<close>

theorem committee_verified_iff:
  "verifyCommitteeSelection H members seed claimed = None
    \<longleftrightarrow> (\<exists>sel rds. selectCommittee H members seed [] = Inr (sel, rds) \<and> map m_pk sel = map toLowerCase claimed)"
  by (rule verify_exact)

text \<open>A key that verifies against the root of an oracle pool is, as bytes, a key of the pool, or the
  proof exhibits a collision of the hash.\<close>

theorem pool_membership:
  assumes "hash32 H" "buildPoolMerkleTree H pks = Inr t" "i < POOL_MAX_SIZE"
    and "verifyPoolMerkleProof H pk i sibs (tr_root t) = Inr True"
  shows "(\<exists>q \<in> set (tr_sortedPks t). pkToBytes pk = pkToBytes q)
    \<or> (\<exists>b q c. pkToBytes pk = Inr b \<and> q \<in> set (tr_sortedPks t) \<and> pkToBytes q = Inr c \<and> b \<noteq> c \<and> H b = H c)
    \<or> (\<exists>b. pkToBytes pk = Inr b \<and> collides H (climb_inputs H (H b) i sibs) (tree_inputs H POOL_DEPTH (pool_leaves H pks)))"
proof -
  obtain ls where ls: "mapE (hashPoolLeaf H) (tr_sortedPks t) = Inr ls" "ls \<noteq> []" "length ls \<le> POOL_MAX_SIZE"
    and "tr_sortedPks t = sort (map (\<lambda>s. toLowerCase (strip_0x s)) pks)" "length ls = length (tr_sortedPks t)"
    and pl: "pool_leaves H pks = pad_last POOL_MAX_SIZE ls"
    and "tr_root t = tree_root H POOL_DEPTH (pool_leaves H pks)" "tr_levels t = build_levels H POOL_DEPTH (pool_leaves H pks)"
    using assms(2) by (rule buildPoolMerkleTree_Inr)
  obtain b where b: "pkToBytes pk = Inr b" "length sibs = POOL_DEPTH" "climb H (H b) i sibs = tr_root t"
    using assms(4) by (cases "pkToBytes pk") (auto simp: verifyPoolMerkleProof_def hashPoolLeaf_def split: if_splits)
  have i: "i < 2 ^ POOL_DEPTH" using assms(3) by (simp add: POOL_MAX_SIZE_def)
  have root: "pool_root H pks = Some (tr_root t)" using assms(2) by (simp add: pool_root_def right_opt_def)
  show ?thesis
  proof (cases "H b = pool_leaves H pks ! i")
    case True
    have "H b \<in> set ls" using pad_last_props(1,2) [OF ls(2,3)] assms(3) unfolding True pl by (metis nth_mem)
    then obtain q where q: "q \<in> set (tr_sortedPks t)" "hashPoolLeaf H q = Inr (H b)"
      using mapE_Inr_set [OF ls(1)] by blast
    then obtain c where "pkToBytes q = Inr c" "H b = H c" unfolding hashPoolLeaf_Inr by blast
    with q(1)
    have "\<exists>q c. q \<in> set (tr_sortedPks t) \<and> pkToBytes q = Inr c \<and> H b = H c" by blast
    then obtain q c where "q \<in> set (tr_sortedPks t)" "pkToBytes q = Inr c" "H b = H c" by blast
    then have "\<exists>q \<in> set (tr_sortedPks t). pkToBytes pk = pkToBytes q" if "b = c" using b(1) that by metis
    moreover have "\<exists>b q c. pkToBytes pk = Inr b \<and> q \<in> set (tr_sortedPks t) \<and> pkToBytes q = Inr c \<and> b \<noteq> c \<and> H b = H c"
      if "b \<noteq> c" using b(1) that \<open>q \<in> set (tr_sortedPks t)\<close> \<open>pkToBytes q = Inr c\<close> \<open>H b = H c\<close> by blast
    ultimately show ?thesis by blast
  next
    case False
    have "length (H b) = 32" using assms(1) by (simp add: hash32_def)
    then show ?thesis using opool.binds [OF assms(1) root i _ b(2,3) False] b(1) by blast
  qed
qed

lemma ex_pool: "\<exists>t ss. buildPoolMerkleTree ex_hash [replicate 64 (CHR ''A'')] = Inr t
    \<and> verifyPoolMerkleProof ex_hash (replicate 64 (CHR ''a'')) 7 ss (tr_root t) = Inr True"
proof -
  have "hex_decode (replicate (n + n) (CHR ''a'')) = replicate n 170" for n by (induction n) (simp_all add: hexval_def)
  from this [of 32] have pk: "pkToBytes (replicate 64 (CHR ''a'')) = Inr (replicate 32 170)"
    by (simp add: pkToBytes_def strip_0x_def list_all_iff is_hex_char_def hexval_def numeral_2_eq_2)
  have low: "toLowerCase (strip_0x (replicate 64 (CHR ''A''))) = replicate 64 (CHR ''a'')" by code_simp
  have "\<exists>t. buildPoolMerkleTree ex_hash [replicate 64 (CHR ''A'')] = Inr t"
    unfolding buildPoolMerkleTree_def by (simp only: list.map low sort_key_def foldr.simps comp_def insort_key.simps id_apply)
      (simp add: hashPoolLeaf_def pk POOL_MAX_SIZE_def POOL_DEPTH_def)
  then obtain t where t: "buildPoolMerkleTree ex_hash [replicate 64 (CHR ''A'')] = Inr t" by blast
  obtain ls where ls: "mapE (hashPoolLeaf ex_hash) (tr_sortedPks t) = Inr ls" "ls \<noteq> []" "length ls \<le> POOL_MAX_SIZE"
    and srt: "tr_sortedPks t = sort (map (\<lambda>s. toLowerCase (strip_0x s)) [replicate 64 (CHR ''A'')])" "length ls = length (tr_sortedPks t)"
    and pl: "pool_leaves ex_hash [replicate 64 (CHR ''A'')] = pad_last POOL_MAX_SIZE ls"
    and "tr_root t = tree_root ex_hash POOL_DEPTH (pool_leaves ex_hash [replicate 64 (CHR ''A'')])"
    and "tr_levels t = build_levels ex_hash POOL_DEPTH (pool_leaves ex_hash [replicate 64 (CHR ''A'')])"
    using t by (rule buildPoolMerkleTree_Inr)
  have s1: "tr_sortedPks t = [replicate 64 (CHR ''a'')]" unfolding srt(1) list.map low by simp
  have ls1: "ls = [ex_hash (replicate 32 170)]"
    using ls(1) unfolding s1 mapE.simps hashPoolLeaf_def pk by simp
  have leaf: "pool_leaves ex_hash [replicate 64 (CHR ''A'')] ! 7 = ex_hash (replicate 32 170)"
    unfolding pl ls1 by (simp add: pad_last_def POOL_MAX_SIZE_def POOL_DEPTH_def)
  have "pool_root ex_hash [replicate 64 (CHR ''A'')] = Some (tr_root t)" by (simp add: pool_root_def t right_opt_def)
  then obtain ss where "length ss = POOL_DEPTH" "climb ex_hash (pool_leaves ex_hash [replicate 64 (CHR ''A'')] ! 7) 7 ss = tr_root t"
    using opool.opens [of ex_hash "[replicate 64 (CHR ''A'')]" "tr_root t" 7] by (auto simp: POOL_DEPTH_def)
  then have "verifyPoolMerkleProof ex_hash (replicate 64 (CHR ''a'')) 7 ss (tr_root t) = Inr True"
    unfolding leaf by (simp add: verifyPoolMerkleProof_def hashPoolLeaf_def pk)
  then show ?thesis using t by blast
qed

theorem pool_membership_witness:
  "\<exists>(t :: pool_tree) ss. (\<exists>q \<in> set (tr_sortedPks t). pkToBytes (replicate 64 (CHR ''a'')) = pkToBytes q)
    \<or> (\<exists>b q c. pkToBytes (replicate 64 (CHR ''a'')) = Inr b \<and> q \<in> set (tr_sortedPks t) \<and> pkToBytes q = Inr c \<and> b \<noteq> c \<and> ex_hash b = ex_hash c)
    \<or> (\<exists>b. pkToBytes (replicate 64 (CHR ''a'')) = Inr b \<and> collides ex_hash (climb_inputs ex_hash (ex_hash b) 7 ss)
        (tree_inputs ex_hash POOL_DEPTH (pool_leaves ex_hash [replicate 64 (CHR ''A'')])))"
proof -
  obtain t ss where e: "buildPoolMerkleTree ex_hash [replicate 64 (CHR ''A'')] = Inr t"
    "verifyPoolMerkleProof ex_hash (replicate 64 (CHR ''a'')) 7 ss (tr_root t) = Inr True"
    using ex_pool by blast
  have "7 < POOL_MAX_SIZE" by (simp add: POOL_MAX_SIZE_def POOL_DEPTH_def)
  from pool_membership [OF ex_hash32 e(1) this e(2)] show ?thesis
    by (intro exI [of _ t] exI [of _ ss])
qed

lemma deriveFeeLeaves_sum:
  "snd (deriveFeeLeaves pool cfg b i pks) = fee_sum (fst (deriveFeeLeaves pool cfg b i pks))"
  by (simp add: deriveFeeLeaves_def Let_def)

lemma deriveFeeLeavesForMarket_Inr:
  assumes "deriveFeeLeavesForMarket H mid poolRoot endHash members cfg (Some broker) intro ex pool = Inr r"
  obtains seed sel rds where
    "selectCommittee H members seed (map toLowerCase (filter (\<lambda>p. p \<noteq> []) (ex @ [broker]))) = Inr (sel, rds)"
    "ml_committeePks r = map m_pk sel" "ml_feeSompi r = (\<Sum>l\<leftarrow>ml_feeLeaves r. fl_amount l)"
proof (cases "deriveCommitteeSeed H mid endHash poolRoot")
  case (Inl e)
  then show ?thesis using assms by (simp add: deriveFeeLeavesForMarket_def)
next
  case seed: (Inr seed)
  show ?thesis
  proof (cases "selectCommittee H members seed (map toLowerCase (filter (\<lambda>p. p \<noteq> []) (ex @ [broker])))")
    case (Inl e)
    then show ?thesis using assms by (simp add: deriveFeeLeavesForMarket_def seed Let_def)
  next
    case (Inr x)
    obtain sel rds where x: "x = (sel, rds)" by fastforce
    have "r = \<lparr> ml_feeLeaves = fst (deriveFeeLeaves pool cfg (Some broker) intro (map m_pk sel)),
        ml_feeSompi = snd (deriveFeeLeaves pool cfg (Some broker) intro (map m_pk sel)), ml_committeePks = map m_pk sel \<rparr>"
      using assms Inr unfolding deriveFeeLeavesForMarket_def seed Let_def x by simp
    then show ?thesis using that [OF Inr [unfolded x]] by (simp add: deriveFeeLeaves_sum)
  qed
qed

lemma broker_excluded:
  assumes "selectCommittee H members seed (map toLowerCase (filter (\<lambda>p. p \<noteq> []) (ex @ [broker]))) = Inr (sel, rds)" "broker \<noteq> []"
  shows "toLowerCase broker \<notin> set (map m_pk sel)"
proof
  let ?ex = "map toLowerCase (filter (\<lambda>p. p \<noteq> []) (ex @ [broker]))"
  assume "toLowerCase broker \<in> set (map m_pk sel)"
  then obtain m where m: "m \<in> set sel" "m_pk m = toLowerCase broker" by auto
  have "set sel \<subseteq> set (sorted_members members ?ex)"
    using selectCommittee_Inr(3) [OF assms(1)] by (metis set_mset_mono set_mset_mset)
  then have "m_pk m \<notin> set (map toLowerCase ?ex)" using m(1) by (intro sorted_members_key) (rule subsetD)
  moreover have "toLowerCase broker \<in> set ?ex" using assms(2) by simp
  then have "toLowerCase (toLowerCase broker) \<in> set (map toLowerCase ?ex)" unfolding set_map [of toLowerCase ?ex] by (rule imageI)
  ultimately show False using m(2) by (metis toLowerCase_idem)
qed

text \<open>The fee leaves of a market pay a committee of five drawn without the broker, and the reported
  fee is the sum of the leaves.\<close>

theorem market_fee_leaves:
  assumes "deriveFeeLeavesForMarket H mid poolRoot endHash members cfg (Some broker) intro ex pool = Inr r" "broker \<noteq> []"
  shows "length (ml_committeePks r) = 5 \<and> toLowerCase broker \<notin> set (ml_committeePks r)
    \<and> ml_feeSompi r = (\<Sum>l\<leftarrow>ml_feeLeaves r. fl_amount l)"
  using assms(1)
proof (rule deriveFeeLeavesForMarket_Inr)
  fix seed sel rds
  assume s: "selectCommittee H members seed (map toLowerCase (filter (\<lambda>p. p \<noteq> []) (ex @ [broker]))) = Inr (sel, rds)"
    and r: "ml_committeePks r = map m_pk sel" "ml_feeSompi r = (\<Sum>l\<leftarrow>ml_feeLeaves r. fl_amount l)"
  show ?thesis
    using broker_excluded [OF s assms(2)] selectCommittee_Inr(2) [OF s] r by (simp add: COMMITTEE_SIZE_def)
qed

theorem market_fee_leaves_witness:
  "\<exists>r. deriveFeeLeavesForMarket ex_hash ''m1'' (replicate 64 (CHR ''a'')) (replicate 64 (CHR ''b'')) ex_members FEE_CONFIG
      (Some ''a'') None [] 1000 = Inr r \<and> toLowerCase ''a'' \<notin> set (ml_committeePks r)"
proof -
  let ?b = "ex_hash (str_bytes ''m1'' @ hex_decode (strip_0x (replicate 64 (CHR ''b''))) @ hex_decode (strip_0x (replicate 64 (CHR ''a''))))"
  have "length (hex_decode (strip_0x (replicate 64 (CHR ''a'')))) = 32" "length (hex_decode (strip_0x (replicate 64 (CHR ''b'')))) = 32"
    by code_simp+
  then have seed: "deriveCommitteeSeed ex_hash ''m1'' (replicate 64 (CHR ''b'')) (replicate 64 (CHR ''a'')) = Inr ?b"
    by (simp add: deriveCommitteeSeed_def)
  have sz: "COMMITTEE_SIZE \<le> length (sorted_members ex_members [toLowerCase ''a''])" by code_simp
  obtain s where s: "deriveCommitteeSeed ex_hash ''m1'' (replicate 64 (CHR ''b'')) (replicate 64 (CHR ''a'')) = Inr s" "length s = 32"
    using seed ex_hash32 by (simp add: hash32_def)
  obtain sel rds where "selectCommittee ex_hash ex_members s [toLowerCase ''a''] = Inr (sel, rds)"
    using selectCommittee_total [OF s(2) sz, of ex_hash] by auto
  then obtain r where "deriveFeeLeavesForMarket ex_hash ''m1'' (replicate 64 (CHR ''a'')) (replicate 64 (CHR ''b'')) ex_members FEE_CONFIG
      (Some ''a'') None [] 1000 = Inr r"
    using s(1) by (simp add: deriveFeeLeavesForMarket_def Let_def)
  then show ?thesis using market_fee_leaves by blast
qed

end
