(* ===== verification/Mass.thy ===== *)
theory Mass
  imports Prelude
begin

section \<open>Transaction mass and settle chunks\<close>

text \<open>
  \<open>kasia-console/src/lib/kip9-mass.mjs\<close> and \<open>pool-settle-chunks.mjs\<close>: the storage-mass estimates, the
  fee of a settle transaction, and the planner that cuts a settlement into a chain of transactions.

  Amounts are integers.  The estimate \<open>estimateMultiOutputStorageMass\<close> works on JavaScript numbers; here it
  is exact rational arithmetic, so results can differ from the floating-point ones in the last place before
  rounding.  \<open>Math.ceil(1e12 / v)\<close> for an integer \<open>v\<close> is exact: the quotient is further from the next
  integer than a rounding error.
\<close>

definition STORAGE_MASS_C :: int where "STORAGE_MASS_C = 1000000000000"
definition SOMPI_PER_MASS :: int where "SOMPI_PER_MASS = 110"
definition MIN_BROKER_FEE_FLOOR :: int where "MIN_BROKER_FEE_FLOOR = 5000000"
definition STORAGE_MASS_CAP :: int where "STORAGE_MASS_CAP = 500000"
definition STORAGE_MASS_SAFE_THRESHOLD :: int where "STORAGE_MASS_SAFE_THRESHOLD = 470000"
definition MAX_TX_FEE_SOMPI :: int where "MAX_TX_FEE_SOMPI = 100000000"

definition ceil_div :: "int \<Rightarrow> int \<Rightarrow> int" where
  "ceil_div a b = - ((- a) div b)"

definition estimateStorageMass :: "int \<Rightarrow> int" where
  "estimateStorageMass v = ceil_div STORAGE_MASS_C (max 1000 v)"

definition estimateMultiOutputStorageMass :: "int list \<Rightarrow> int list \<Rightarrow> int" where
  "estimateMultiOutputStorageMass inputValues outputValues =
    (let sumOutInv = (\<Sum>v\<leftarrow>outputValues. if 0 < v then 1 / rat_of_int v else 0);
         sumIn = sum_list inputValues;
         inputsTerm = (if 0 < sumIn then rat_of_nat (length inputValues * length inputValues) / rat_of_int sumIn else 0)
     in max 0 \<lfloor>rat_of_int STORAGE_MASS_C * (sumOutInv - inputsTerm) + 1 / 2\<rfloor>)"

definition computeDynamicMinBrokerFee :: "int \<Rightarrow> int" where
  "computeDynamicMinBrokerFee computeMassEst = max MIN_BROKER_FEE_FLOOR (ceil_div STORAGE_MASS_C (max 1000 computeMassEst))"

record fee_quote =
  fq_storageMass :: int
  fq_totalMass :: int
  fq_dynamicFee :: int

definition computeSingleOutputFee :: "int \<Rightarrow> int \<Rightarrow> int \<Rightarrow> int \<Rightarrow> fee_quote" where
  "computeSingleOutputFee computeMassEst v minFee maxFee =
    (let storageMass = estimateStorageMass v; totalMass = computeMassEst + storageMass;
         fee = max minFee (totalMass * SOMPI_PER_MASS)
     in \<lparr> fq_storageMass = storageMass, fq_totalMass = totalMass, fq_dynamicFee = (if maxFee < fee then maxFee else fee) \<rparr>)"

definition computeMultiOutputFee :: "int \<Rightarrow> int \<Rightarrow> int \<Rightarrow> int \<Rightarrow> int \<Rightarrow> fee_quote" where
  "computeMultiOutputFee computeMassEst v smallOutputCount minFee maxFee =
    (let storageMass = estimateStorageMass v * max 0 smallOutputCount; totalMass = computeMassEst + storageMass;
         fee = max minFee (totalMass * SOMPI_PER_MASS)
     in \<lparr> fq_storageMass = storageMass, fq_totalMass = totalMass, fq_dynamicFee = (if maxFee < fee then maxFee else fee) \<rparr>)"

subsection \<open>\<open>pool-settle-chunks.mjs\<close>\<close>

definition COMPUTE_CAP :: int where "COMPUTE_CAP = 500000"
definition TRANSIENT_CAP :: int where "TRANSIENT_CAP = 1000000"
definition MAX_WINNERS_PER_CHUNK :: nat where "MAX_WINNERS_PER_CHUNK = 47"
definition STORAGE_PAYOUT_FLOOR :: int where "STORAGE_PAYOUT_FLOOR = 100000000"
definition SETTLE_FEE_MIN :: int where "SETTLE_FEE_MIN = 2000000"

text \<open>\<open>(compute, transient)\<close>\<close>

definition chunkComputeMass :: "nat \<Rightarrow> nat \<Rightarrow> bool \<Rightarrow> int \<times> int" where
  "chunkComputeMass nWinners nFixedOut hasChange =
    (let nOut = int nFixedOut + int nWinners + (if hasChange then 1 else 0);
         txBytes = 564 + 2878 + int nWinners * 601 + int nWinners * 314 + nOut * 35
     in (txBytes + nOut * 35 * 10 + 5 * 1000, txBytes))"

definition computeChunkFee :: "nat \<Rightarrow> nat \<Rightarrow> bool \<Rightarrow> int" where
  "computeChunkFee nWinners nFixedOut hasChange =
    (let nOut = int nFixedOut + int nWinners + (if hasChange then 1 else 0);
         storageAllowance = nOut * ceil_div STORAGE_MASS_C STORAGE_PAYOUT_FLOOR;
         totalMass = fst (chunkComputeMass nWinners nFixedOut hasChange) + storageAllowance
     in min MAX_TX_FEE_SOMPI (max SETTLE_FEE_MIN (totalMass * SOMPI_PER_MASS)))"

definition fits :: "int list \<Rightarrow> int list \<Rightarrow> nat \<Rightarrow> nat \<Rightarrow> bool \<Rightarrow> bool \<Rightarrow> bool" where
  "fits inputVals outVals nWinners nFixedOut hasChange applyKCap =
    (if applyKCap \<and> nWinners > MAX_WINNERS_PER_CHUNK then False
     else if estimateMultiOutputStorageMass inputVals outVals > STORAGE_MASS_SAFE_THRESHOLD then False
     else (let cm = chunkComputeMass nWinners nFixedOut hasChange in fst cm \<le> COMPUTE_CAP \<and> snd cm \<le> TRANSIENT_CAP))"

datatype chunk_error = CannotFit nat | NegativeChange nat int

record settle_chunk =
  ck_kind :: string
  ck_chunk_kind :: nat
  ck_lo :: nat
  ck_hi :: nat
  ck_winners :: "leaf list"
  ck_change :: int

record settle_plan =
  sp_route :: string
  sp_numChunks :: nat
  sp_payoutRoot :: hexstr
  sp_chunks :: "settle_chunk list"

text \<open>The inner loop: how far the segment starting at \<open>lo\<close> can be extended.  A try that is not the last
  winner carries a change output, for which the code takes the whole incoming value.\<close>

definition seg_fits :: "int list \<Rightarrow> int list \<Rightarrow> int \<Rightarrow> nat \<Rightarrow> nat \<Rightarrow> bool" where
  "seg_fits amts segFixed prevChange lo hi =
    (let seg = drop lo (take (hi + 1) amts); isFinalTry = (hi + 1 = length amts);
         outVals = (if isFinalTry then segFixed @ seg else segFixed @ seg @ [prevChange])
     in fits [prevChange] outVals (hi + 1 - lo) (length segFixed) (\<not> isFinalTry) True)"

function pack_hi :: "int list \<Rightarrow> int list \<Rightarrow> int \<Rightarrow> nat \<Rightarrow> nat \<Rightarrow> nat" where
  "pack_hi amts segFixed prevChange lo hi =
    (if hi < length amts then (if seg_fits amts segFixed prevChange lo hi then pack_hi amts segFixed prevChange lo (hi + 1) else hi)
     else hi)"
  by pat_completeness auto
termination by (relation "measure (\<lambda>(amts, segFixed, prevChange, lo, hi). length amts - hi)") auto

declare pack_hi.simps [simp del]

lemma pack_hi_step:
  "pack_hi amts sf p lo hi = (if hi < length amts \<and> seg_fits amts sf p lo hi then pack_hi amts sf p lo (hi + 1) else hi)"
  by (subst pack_hi.simps) simp

lemma pack_hi_ge: "hi \<le> pack_hi amts sf p lo hi"
proof (induction amts sf p lo hi rule: pack_hi.induct)
  case (1 amts sf p lo hi)
  then show ?case by (subst pack_hi_step) auto
qed

lemma pack_hi_le: "hi \<le> length amts \<Longrightarrow> pack_hi amts sf p lo hi \<le> length amts"
proof (induction amts sf p lo hi rule: pack_hi.induct)
  case (1 amts sf p lo hi)
  then show ?case by (subst pack_hi_step) auto
qed

text \<open>The outer loop.  One pass: the end of the segment, the change it leaves, and the chunk.\<close>

definition seg_hi :: "leaf list \<Rightarrow> int list \<Rightarrow> int \<Rightarrow> nat \<Rightarrow> nat" where
  "seg_hi winners segFixed prevChange lo = pack_hi (map snd winners) segFixed prevChange lo lo"

definition seg_change :: "leaf list \<Rightarrow> int list \<Rightarrow> int \<Rightarrow> nat \<Rightarrow> int" where
  "seg_change winners segFixed prevChange lo =
    (let hi = seg_hi winners segFixed prevChange lo in
     if hi = length winners then 0
     else prevChange - sum_list (drop lo (take hi (map snd winners))) - sum_list segFixed)"

definition seg_chunk :: "leaf list \<Rightarrow> int list \<Rightarrow> int \<Rightarrow> bool \<Rightarrow> nat \<Rightarrow> settle_chunk" where
  "seg_chunk winners segFixed prevChange isFirst lo =
    (let hi = seg_hi winners segFixed prevChange lo; isLast = (hi = length winners) in
     \<lparr> ck_kind = (if isFirst then ''chunk_0'' else if isLast then ''chunk_last'' else ''chunk_mid''),
       ck_chunk_kind = (if isFirst then 0 else if isLast then 2 else 1), ck_lo = lo, ck_hi = hi,
       ck_winners = drop lo (take hi winners), ck_change = seg_change winners segFixed prevChange lo \<rparr>)"

lemma seg_hi_bounds: "lo \<le> seg_hi ws sf p lo" "lo \<le> length ws \<Longrightarrow> seg_hi ws sf p lo \<le> length ws"
  using pack_hi_ge [of lo "map snd ws" sf p lo] pack_hi_le [of lo "map snd ws" sf p lo] by (simp_all add: seg_hi_def)

text \<open>Only the first pass has fixed outputs: \<open>segFixed\<close> is empty from the second one on.\<close>

function chunk_loop :: "leaf list \<Rightarrow> int list \<Rightarrow> int \<Rightarrow> bool \<Rightarrow> nat \<Rightarrow> chunk_error + settle_chunk list" where
  "chunk_loop winners segFixed prevChange isFirst lo =
    (if lo < length winners then
       (if seg_hi winners segFixed prevChange lo = lo then Inl (CannotFit lo)
        else if seg_change winners segFixed prevChange lo < 0
        then Inl (NegativeChange lo (seg_change winners segFixed prevChange lo))
        else map_sum id (\<lambda>cs. seg_chunk winners segFixed prevChange isFirst lo # cs)
          (chunk_loop winners [] (seg_change winners segFixed prevChange lo) False (seg_hi winners segFixed prevChange lo)))
     else Inr [])"
  by pat_completeness auto
termination
proof (relation "measure (\<lambda>(winners, segFixed, prevChange, isFirst, lo). length winners - lo)", goal_cases)
  case 1
  then show ?case by simp
next
  case (2 winners segFixed prevChange isFirst lo)
  then show ?case using seg_hi_bounds(1) [of lo winners segFixed prevChange] by simp
qed

declare chunk_loop.simps [simp del]

definition computeSettleChunks :: "leaf list \<Rightarrow> int list \<Rightarrow> int \<Rightarrow> hexstr \<Rightarrow> chunk_error + settle_plan" where
  "computeSettleChunks winners fixedVals poolValue payoutRootHex =
    (if fits [poolValue] (fixedVals @ map snd winners) (length winners) (length fixedVals) False False
     then Inr \<lparr> sp_route = ''aggregate'', sp_numChunks = 1, sp_payoutRoot = payoutRootHex,
       sp_chunks = [\<lparr> ck_kind = ''aggregate'', ck_chunk_kind = 0, ck_lo = 0, ck_hi = length winners,
         ck_winners = winners, ck_change = 0 \<rparr>] \<rparr>
     else map_sum id (\<lambda>cs. \<lparr> sp_route = ''chunk'', sp_numChunks = length cs, sp_payoutRoot = payoutRootHex, sp_chunks = cs \<rparr>)
       (chunk_loop winners fixedVals poolValue True 0))"

subsection \<open>What a plan promises\<close>

text \<open>A chain of chunks that starts at winner \<open>lo\<close> with \<open>prev\<close> sompi, of which \<open>fixed\<close> go to fixed outputs
  first: it covers the winners contiguously, and each change is what the chunk leaves over.\<close>

fun chain_ok :: "leaf list \<Rightarrow> int \<Rightarrow> int \<Rightarrow> nat \<Rightarrow> settle_chunk list \<Rightarrow> bool" where
  "chain_ok ws prev fixedSum lo [] \<longleftrightarrow> lo = length ws"
| "chain_ok ws prev fixedSum lo (c # cs) \<longleftrightarrow> ck_lo c = lo \<and> lo < ck_hi c \<and> ck_hi c \<le> length ws
     \<and> ck_hi c - lo \<le> MAX_WINNERS_PER_CHUNK \<and> ck_winners c = drop lo (take (ck_hi c) ws) \<and> 0 \<le> ck_change c
     \<and> ck_change c = (if cs = [] then 0 else prev - leaf_sum (ck_winners c) - fixedSum)
     \<and> chain_ok ws (ck_change c) 0 (ck_hi c) cs"

lemma ceil_div_bounds: "0 < b \<Longrightarrow> a \<le> ceil_div a b * b" "0 < b \<Longrightarrow> (ceil_div a b - 1) * b < a"
proof -
  assume "0 < b"
  then have "(- a) div b * b \<le> - a" "- a < (- a) div b * b + b"
    using div_mult_mod_eq [of "- a" b] pos_mod_sign [of b "- a"] pos_mod_bound [of b "- a"] by linarith+
  then show "a \<le> ceil_div a b * b" "(ceil_div a b - 1) * b < a" by (simp_all add: ceil_div_def algebra_simps)
qed

lemma pack_hi_cap: "pack_hi amts sf p lo hi = hi \<or> pack_hi amts sf p lo hi - lo \<le> MAX_WINNERS_PER_CHUNK"
proof (induction amts sf p lo hi rule: pack_hi.induct)
  case (1 amts sf p lo hi)
  show ?case
  proof (cases "hi < length amts \<and> seg_fits amts sf p lo hi")
    case True
    then have "hi + 1 - lo \<le> MAX_WINNERS_PER_CHUNK" by (auto simp: seg_fits_def fits_def Let_def split: if_splits)
    moreover have "pack_hi amts sf p lo hi = pack_hi amts sf p lo (hi + 1)" using True by (subst pack_hi_step) simp
    ultimately show ?thesis using "1.IH" True by auto
  next
    case False
    then show ?thesis by (subst (1) pack_hi_step) auto
  qed
qed

lemma chunk_loop_nil: "chunk_loop ws sf p i lo = Inr [] \<longleftrightarrow> length ws \<le> lo"
  by (auto simp: chunk_loop.simps [of ws sf p i lo] map_sum_def split: sum.splits if_splits)

lemma chunk_loop_step:
  assumes "chunk_loop ws sf p i lo = Inr cs" "lo < length ws"
  obtains ds where "cs = seg_chunk ws sf p i lo # ds" "seg_hi ws sf p lo \<noteq> lo" "0 \<le> seg_change ws sf p lo"
    "chunk_loop ws [] (seg_change ws sf p lo) False (seg_hi ws sf p lo) = Inr ds"
  using assms
  by (cases "chunk_loop ws [] (seg_change ws sf p lo) False (seg_hi ws sf p lo)")
    (auto simp: chunk_loop.simps [of ws sf p i lo] split: if_splits)

lemma chunk_loop_ok:
  assumes "chunk_loop ws sf prev isFirst lo = Inr cs" "lo \<le> length ws"
  shows "chain_ok ws prev (sum_list sf) lo cs"
  using assms
proof (induction ws sf prev isFirst lo arbitrary: cs rule: chunk_loop.induct)
  case (1 ws sf prev isFirst lo)
  let ?hi = "seg_hi ws sf prev lo" and ?ch = "seg_change ws sf prev lo"
  show ?case
  proof (cases "lo < length ws")
    case False
    then show ?thesis using "1.prems" by (simp add: chunk_loop.simps [of ws])
  next
    case True
    obtain ds where cs: "cs = seg_chunk ws sf prev isFirst lo # ds" and hi: "?hi \<noteq> lo" and ch: "0 \<le> ?ch"
      and ds: "chunk_loop ws [] ?ch False ?hi = Inr ds"
      using "1.prems"(1) True by (rule chunk_loop_step)
    have le: "?hi \<le> length ws" using seg_hi_bounds(2) True by simp
    have lt: "lo < ?hi" using hi seg_hi_bounds(1) [of lo ws sf prev] by simp
    have cap: "?hi - lo \<le> MAX_WINNERS_PER_CHUNK" using pack_hi_cap [of "map snd ws" sf prev lo lo] hi by (simp add: seg_hi_def)
    have ok: "chain_ok ws ?ch 0 ?hi ds" using "1.IH" [OF True hi _ ds le] ch by simp
    have last: "ds = [] \<longleftrightarrow> ?hi = length ws" using chunk_loop_nil [of ws "[]" ?ch False ?hi] ds le by auto
    have "?ch = (if ds = [] then 0 else prev - leaf_sum (drop lo (take ?hi ws)) - sum_list sf)"
      by (simp add: seg_change_def Let_def last drop_map take_map)
    then show ?thesis using ok lt le cap ch by (simp add: cs seg_chunk_def Let_def)
  qed
qed

lemma chain_ok_tl: "chain_ok ws prev f lo (c # cs) \<Longrightarrow> chain_ok ws (ck_change c) 0 (ck_hi c) cs"
  unfolding chain_ok.simps by blast

lemma chain_ok_covers: "chain_ok ws prev f lo cs \<Longrightarrow> concat (map ck_winners cs) = drop lo ws"
proof (induction cs arbitrary: prev f lo)
  case (Cons c cs)
  have "concat (map ck_winners (c # cs)) = ck_winners c @ drop (ck_hi c) ws"
    using Cons.IH [OF chain_ok_tl [OF Cons.prems]] by simp
  also have "\<dots> = drop lo (take (ck_hi c) ws) @ drop (ck_hi c) ws" using Cons.prems by simp
  also have "\<dots> = drop lo ws"
  proof -
    have "lo \<le> length (take (ck_hi c) ws)" using Cons.prems by simp
    then show ?thesis by (metis append_take_drop_id drop_append diff_is_0_eq drop0)
  qed
  finally show ?case .
qed simp

lemma chain_ok_change:
  "chain_ok ws prev f lo (cs @ [c]) \<Longrightarrow> cs \<noteq> [] \<Longrightarrow> ck_change (last cs) = prev - f - leaf_sum (concat (map ck_winners cs))"
proof (induction cs arbitrary: prev f lo)
  case (Cons d ds)
  have d: "ck_change d = prev - leaf_sum (ck_winners d) - f" using Cons.prems(1) by simp
  show ?case
  proof (cases "ds = []")
    case False
    have "chain_ok ws (ck_change d) 0 (ck_hi d) (ds @ [c])" using Cons.prems(1) chain_ok_tl by fastforce
    then have "ck_change (last ds) = ck_change d - 0 - leaf_sum (concat (map ck_winners ds))" using Cons.IH False by blast
    then show ?thesis using d False by simp
  qed (use d in simp)
qed simp

subsection \<open>The fee bound\<close>

lemma sum_inv_le:
  assumes "\<forall>v \<in> set vs. (f::int) \<le> v" "0 < f"
  shows "(\<Sum>v\<leftarrow>vs. if 0 < v then 1 / rat_of_int v else 0) \<le> rat_of_nat (length vs) / rat_of_int f"
  using assms(1)
proof (induction vs)
  case (Cons v vs)
  have "1 / rat_of_int v \<le> 1 / rat_of_int f" using Cons.prems assms(2) by (intro divide_left_mono) auto
  moreover have "0 < v" using Cons.prems assms(2) by force
  ultimately show ?case using Cons by (simp add: add_divide_distrib)
qed simp

lemma storage_allowance_enough:
  assumes "\<forall>v \<in> set outs. STORAGE_PAYOUT_FLOOR \<le> v" "0 \<le> sum_list ins"
  shows "estimateMultiOutputStorageMass ins outs \<le> int (length outs) * ceil_div STORAGE_MASS_C STORAGE_PAYOUT_FLOOR"
proof -
  let ?S = "\<Sum>v\<leftarrow>outs. if 0 < v then 1 / rat_of_int v else 0"
  let ?T = "if 0 < sum_list ins then rat_of_nat (length ins * length ins) / rat_of_int (sum_list ins) else 0"
  have "0 \<le> ?T" by simp
  moreover have "?S \<le> rat_of_nat (length outs) / rat_of_int STORAGE_PAYOUT_FLOOR"
    using assms(1) by (intro sum_inv_le) (simp_all add: STORAGE_PAYOUT_FLOOR_def)
  ultimately have "?S - ?T \<le> rat_of_nat (length outs) / rat_of_int STORAGE_PAYOUT_FLOOR" by linarith
  then have "rat_of_int STORAGE_MASS_C * (?S - ?T)
      \<le> rat_of_int STORAGE_MASS_C * (rat_of_nat (length outs) / rat_of_int STORAGE_PAYOUT_FLOOR)"
    by (intro mult_left_mono) (simp_all add: STORAGE_MASS_C_def)
  also have "\<dots> = rat_of_int (10000 * int (length outs))"
    by (simp add: STORAGE_MASS_C_def STORAGE_PAYOUT_FLOOR_def)
  finally have "\<lfloor>rat_of_int STORAGE_MASS_C * (?S - ?T) + 1 / 2\<rfloor> \<le> 10000 * int (length outs)"
    by (simp add: floor_le_iff)
  then show ?thesis
    by (simp add: estimateMultiOutputStorageMass_def Let_def ceil_div_def STORAGE_MASS_C_def STORAGE_PAYOUT_FLOOR_def)
qed

subsection \<open>Properties\<close>

text \<open>A settle plan pays every winner exactly once and in order.  On the chunk route no transaction
  pays more than 47 winners, every change is non-negative, and the last transaction is funded with the pool
  less the fixed outputs and everything the earlier transactions paid.\<close>

theorem settle_plan_conserves:
  assumes "computeSettleChunks winners fixedVals pool rootHex = Inr p"
  shows "concat (map ck_winners (sp_chunks p)) = winners \<and> sp_numChunks p = length (sp_chunks p)
    \<and> (sp_route p = ''chunk'' \<longrightarrow> (\<forall>c \<in> set (sp_chunks p). length (ck_winners c) \<le> 47 \<and> 0 \<le> ck_change c)
      \<and> (\<forall>cs c. sp_chunks p = cs @ [c] \<and> cs \<noteq> [] \<longrightarrow>
          ck_change (last cs) = pool - sum_list fixedVals - leaf_sum (concat (map ck_winners cs)) \<and> ck_change c = 0))"
proof (cases "fits [pool] (fixedVals @ map snd winners) (length winners) (length fixedVals) False False")
  case True
  then show ?thesis using assms by (auto simp: computeSettleChunks_def)
next
  case False
  then obtain cs where cs: "chunk_loop winners fixedVals pool True 0 = Inr cs" and p: "sp_chunks p = cs" "sp_numChunks p = length cs"
    using assms by (cases "chunk_loop winners fixedVals pool True 0") (auto simp: computeSettleChunks_def)
  have ok: "chain_ok winners pool (sum_list fixedVals) 0 cs" using chunk_loop_ok [OF cs] by simp
  have each: "length (ck_winners c) \<le> 47 \<and> 0 \<le> ck_change c" if "chain_ok winners q f lo cs" "c \<in> set cs" for c q f lo cs
    using that by (induction cs arbitrary: q f lo) (auto simp: MAX_WINNERS_PER_CHUNK_def dest: chain_ok_tl)
  have lastz: "chain_ok winners q f lo (cs @ [c]) \<Longrightarrow> ck_change c = 0" for c q f lo cs
    by (induction cs arbitrary: q f lo) (auto dest: chain_ok_tl)
  show ?thesis
    using chain_ok_covers [OF ok] each [OF ok] chain_ok_change [of winners pool "sum_list fixedVals" 0] lastz ok p by auto
qed

text \<open>The fee of a settle transaction stays between the floor and the ceiling, never falls when winners
  are added, and, unless the ceiling cuts it, pays for the compute mass and for the storage mass of every
  transaction whose outputs are at least one KAS.\<close>

theorem chunk_fee_covers:
  assumes "\<forall>v \<in> set outs. STORAGE_PAYOUT_FLOOR \<le> v" "0 \<le> sum_list ins"
    and "length outs = nFixedOut + nWinners + (if hasChange then 1 else 0)"
    and "computeChunkFee nWinners nFixedOut hasChange < MAX_TX_FEE_SOMPI"
  shows "SETTLE_FEE_MIN \<le> computeChunkFee nWinners nFixedOut hasChange
    \<and> computeChunkFee nWinners nFixedOut hasChange \<le> computeChunkFee (Suc nWinners) nFixedOut hasChange
    \<and> (fst (chunkComputeMass nWinners nFixedOut hasChange) + estimateMultiOutputStorageMass ins outs) * SOMPI_PER_MASS
        \<le> computeChunkFee nWinners nFixedOut hasChange"
proof -
  let ?n = "int nFixedOut + int nWinners + (if hasChange then 1 else 0)"
  have "int (length outs) = ?n" using assms(3) by auto
  then have "estimateMultiOutputStorageMass ins outs \<le> ?n * ceil_div STORAGE_MASS_C STORAGE_PAYOUT_FLOOR"
    using storage_allowance_enough [OF assms(1,2)] by simp
  then show ?thesis
    using assms(4) by (auto simp: computeChunkFee_def chunkComputeMass_def Let_def SETTLE_FEE_MIN_def MAX_TX_FEE_SOMPI_def
        SOMPI_PER_MASS_def ceil_div_def STORAGE_MASS_C_def STORAGE_PAYOUT_FLOOR_def min_def max_def split: if_splits)
qed

theorem chunk_fee_covers_witness:
  "SETTLE_FEE_MIN \<le> computeChunkFee 2 1 False"
  using chunk_fee_covers [of "[100000000, 200000000, 300000000]" "[600000000]" 1 2 False]
  by (simp add: STORAGE_PAYOUT_FLOOR_def computeChunkFee_def chunkComputeMass_def ceil_div_def STORAGE_MASS_C_def
      MAX_TX_FEE_SOMPI_def SETTLE_FEE_MIN_def SOMPI_PER_MASS_def)

lemma storage_mass_eq:
  assumes "(\<Sum>v\<leftarrow>outs. if 0 < v then 1 / rat_of_int v else 0) = S" "0 < sum_list ins"
    and "rat_of_int STORAGE_MASS_C * (S - rat_of_nat (length ins * length ins) / rat_of_int (sum_list ins)) = rat_of_int k" "0 \<le> k"
  shows "estimateMultiOutputStorageMass ins outs = k"
proof -
  have "\<lfloor>rat_of_int k + 1 / 2\<rfloor> = k" by (simp add: floor_eq_iff)
  then show ?thesis
    unfolding estimateMultiOutputStorageMass_def Let_def assms(1) using assms(2-4) by simp
qed

text \<open>A concrete plan: 46 winners of one KAS and one of 0.03 KAS.  The planner checks the first transaction
  with a change output of the whole pool, but the change it leaves is 0.03 KAS.\<close>

definition ex_tail :: "leaf list" where
  "ex_tail = replicate 46 (''a'', 100000000) @ [(''b'', 3000000)]"

definition ex_tail_pool :: int where "ex_tail_pool = 4603000000"

lemma ex_tail_seg: "hi < 46 \<Longrightarrow> seg_fits (map snd ex_tail) [] ex_tail_pool 0 hi"
proof -
  assume hi: "hi < 46"
  then have t: "take (hi + 1) (map snd ex_tail) = replicate (hi + 1) 100000000"
    by (simp add: ex_tail_def min_def flip: replicate_Suc)
  have "estimateMultiOutputStorageMass [ex_tail_pool] (replicate (hi + 1) 100000000 @ [ex_tail_pool]) = 10000 * int (hi + 1)"
  proof (rule storage_mass_eq)
    show "(\<Sum>v\<leftarrow>replicate (hi + 1) 100000000 @ [ex_tail_pool]. if 0 < v then 1 / rat_of_int v else 0)
        = rat_of_nat (hi + 1) / 100000000 + 1 / rat_of_int ex_tail_pool"
      unfolding map_append map_replicate sum_list_append sum_list_replicate by (simp add: ex_tail_pool_def)
    show "rat_of_int STORAGE_MASS_C * (rat_of_nat (hi + 1) / 100000000 + 1 / rat_of_int ex_tail_pool
        - rat_of_nat (length [ex_tail_pool] * length [ex_tail_pool]) / rat_of_int (sum_list [ex_tail_pool]))
        = rat_of_int (10000 * int (hi + 1))"
      by (simp add: STORAGE_MASS_C_def)
  qed (simp_all add: ex_tail_pool_def)
  then show ?thesis
    using hi by (simp add: seg_fits_def t fits_def Let_def ex_tail_def MAX_WINNERS_PER_CHUNK_def chunkComputeMass_def
        STORAGE_MASS_SAFE_THRESHOLD_def COMPUTE_CAP_def TRANSIENT_CAP_def)
qed

lemma ex_tail_sum: "(\<Sum>v\<leftarrow>map snd ex_tail. if 0 < v then 1 / rat_of_int v else 0) = 46 / 100000000 + 1 / 3000000"
  "length ex_tail = 47" "sum_list (map snd ex_tail) = ex_tail_pool"
  by (simp_all add: ex_tail_def sum_list_replicate ex_tail_pool_def)

lemma ex_tail_heavy: "STORAGE_MASS_SAFE_THRESHOLD < estimateMultiOutputStorageMass [ex_tail_pool] (map snd ex_tail)"
  unfolding estimateMultiOutputStorageMass_def ex_tail_sum(1) Let_def
  by (simp add: STORAGE_MASS_C_def ex_tail_pool_def STORAGE_MASS_SAFE_THRESHOLD_def less_max_iff_disj le_floor_iff less_floor_iff)

lemma ex_tail_hi: "seg_hi ex_tail [] ex_tail_pool 0 = 46"
proof -
  let ?a = "map snd ex_tail"
  have "\<not> seg_fits ?a [] ex_tail_pool 0 46"
    using ex_tail_heavy ex_tail_sum(2) by (simp add: seg_fits_def fits_def Let_def)
  then have end46: "pack_hi ?a [] ex_tail_pool 0 46 = 46" by (subst pack_hi_step) simp
  have "pack_hi ?a [] ex_tail_pool 0 hi = 46" if "hi \<le> 46" for hi
    using that
  proof (induction rule: inc_induct)
    case base
    show ?case by (fact end46)
  next
    case (step n)
    then show ?case using ex_tail_seg [of n] ex_tail_sum(2) by (subst pack_hi_step) simp
  qed
  then show ?thesis by (simp add: seg_hi_def)
qed

lemma ex_tail_drop: "drop 46 (map snd ex_tail) = [3000000]" "take 46 ex_tail = replicate 46 (''a'', 100000000)"
  by (simp_all add: ex_tail_def)

lemma ex_tail_second: "seg_hi ex_tail [] 3000000 46 = 47"
proof -
  have t: "take 47 (map snd ex_tail) = map snd ex_tail" using ex_tail_sum(2) by simp
  have "estimateMultiOutputStorageMass [3000000] [3000000] = 0"
    by (simp add: estimateMultiOutputStorageMass_def)
  then have "seg_fits (map snd ex_tail) [] 3000000 46 46"
    using ex_tail_sum(2) ex_tail_drop(1)
    by (simp add: seg_fits_def fits_def Let_def t chunkComputeMass_def MAX_WINNERS_PER_CHUNK_def
        STORAGE_MASS_SAFE_THRESHOLD_def COMPUTE_CAP_def TRANSIENT_CAP_def)
  then have "pack_hi (map snd ex_tail) [] 3000000 46 46 = pack_hi (map snd ex_tail) [] 3000000 46 47"
    using ex_tail_sum(2) by (subst pack_hi_step) simp
  also have "\<dots> = 47" using ex_tail_sum(2) by (subst pack_hi_step) simp
  finally show ?thesis by (simp add: seg_hi_def)
qed

abbreviation ex_tail_chunks :: "settle_chunk list" where
  "ex_tail_chunks \<equiv> [seg_chunk ex_tail [] ex_tail_pool True 0, seg_chunk ex_tail [] 3000000 False 46]"

lemma ex_tail_change: "seg_change ex_tail [] ex_tail_pool 0 = 3000000"
  unfolding seg_change_def ex_tail_hi by (simp add: Let_def ex_tail_sum(2) take_map ex_tail_drop(2) sum_list_replicate ex_tail_pool_def)

lemma ex_tail_plan: "computeSettleChunks ex_tail [] ex_tail_pool rootHex
    = Inr \<lparr> sp_route = ''chunk'', sp_numChunks = 2, sp_payoutRoot = rootHex, sp_chunks = ex_tail_chunks \<rparr>"
proof -
  have "chunk_loop ex_tail [] 0 False 47 = Inr []"
    using ex_tail_sum(2) by (simp add: chunk_loop.simps [of ex_tail])
  moreover have "seg_change ex_tail [] 3000000 46 = 0" by (simp add: seg_change_def ex_tail_second ex_tail_sum(2))
  ultimately have "chunk_loop ex_tail [] 3000000 False 46 = Inr [seg_chunk ex_tail [] 3000000 False 46]"
    using ex_tail_sum(2) by (subst chunk_loop.simps) (simp add: ex_tail_second)
  then have "chunk_loop ex_tail [] ex_tail_pool True 0 = Inr ex_tail_chunks"
    using ex_tail_sum(2) by (subst chunk_loop.simps) (simp add: ex_tail_hi ex_tail_change)
  moreover have "\<not> fits [ex_tail_pool] ([] @ map snd ex_tail) (length ex_tail) (length ([] :: int list)) False False"
    using ex_tail_heavy by (simp add: fits_def)
  ultimately show ?thesis by (simp add: computeSettleChunks_def)
qed

theorem settle_plan_conserves_witness:
  "concat (map ck_winners ex_tail_chunks) = ex_tail \<and> list_all (\<lambda>c. length (ck_winners c) \<le> 47 \<and> 0 \<le> ck_change c) ex_tail_chunks"
  using settle_plan_conserves [OF ex_tail_plan [of "[]"]] by (simp add: list_all_iff)

text \<open>The planner accepts a transaction the network refuses: on this input its first transaction has a
  storage mass above the cap, because the fit was tested with the incoming value in place of the change.\<close>

theorem chunk_change_underestimated:
  "\<exists>p c cs. computeSettleChunks ex_tail [] ex_tail_pool rootHex = Inr p \<and> sp_chunks p = c # cs
    \<and> STORAGE_MASS_CAP < estimateMultiOutputStorageMass [ex_tail_pool] (map snd (ck_winners c) @ [ck_change c])"
proof -
  have "STORAGE_MASS_CAP < estimateMultiOutputStorageMass [ex_tail_pool] (replicate 46 100000000 @ [3000000])"
    by (simp add: estimateMultiOutputStorageMass_def sum_list_replicate Let_def STORAGE_MASS_C_def ex_tail_pool_def
        STORAGE_MASS_CAP_def less_max_iff_disj less_floor_iff)
  then show ?thesis
    using ex_tail_plan [of rootHex] by (simp add: seg_chunk_def Let_def ex_tail_hi ex_tail_change ex_tail_drop(2))
qed

end
