(* ===== verification/Status_Machine.thy ===== *)
theory Status_Machine
  imports Prelude
begin

section \<open>Rows with a status\<close>

text \<open>
  Orders, executions, fund locks, shards and broker orders are rows of database tables whose status
  only ever moves along a fixed graph.  The locale states the contract every such component keeps: one
  step of the component leaves a row's status alone or moves it along an edge, and no step deletes a
  row.  Terminal states are then absorbing, and every history is a path of the graph.
\<close>

locale status_machine =
  fixes status_of :: "'db \<Rightarrow> 'id \<Rightarrow> 's option" and step :: "'db \<Rightarrow> 'db \<Rightarrow> bool" and edge :: "'s \<Rightarrow> 's \<Rightarrow> bool"
  assumes moves: "step d d' \<Longrightarrow> status_of d i = Some s \<Longrightarrow> \<exists>s'. status_of d' i = Some s' \<and> edge\<^sup>*\<^sup>* s s'"
begin

lemma path: "step\<^sup>*\<^sup>* d d' \<Longrightarrow> status_of d i = Some s \<Longrightarrow> \<exists>s'. status_of d' i = Some s' \<and> edge\<^sup>*\<^sup>* s s'"
proof (induction rule: rtranclp_induct)
  case base
  then show ?case by blast
next
  case (step y z)
  then obtain s' where s': "status_of y i = Some s'" "edge\<^sup>*\<^sup>* s s'" by blast
  obtain s'' where "status_of z i = Some s''" "edge\<^sup>*\<^sup>* s' s''" using moves [OF step.hyps(2) s'(1)] by blast
  then show ?case using rtranclp_trans [OF s'(2)] by blast
qed

lemma stuck: "edge\<^sup>*\<^sup>* s s' \<Longrightarrow> (\<And>t. \<not> edge s t) \<Longrightarrow> s' = s"
  by (induction rule: converse_rtranclp_induct) auto

lemma terminal_absorbing:
  assumes "step\<^sup>*\<^sup>* d d'" "status_of d i = Some s" "\<And>t. \<not> edge s t"
  shows "status_of d' i = Some s"
  using path [OF assms(1,2)] stuck [OF _ assms(3)] by auto

text \<open>A set of states that no edge leaves is never left.\<close>

lemma closed_set:
  assumes "step\<^sup>*\<^sup>* d d'" "status_of d i = Some s" "s \<in> S" "\<And>t u. t \<in> S \<Longrightarrow> edge t u \<Longrightarrow> u \<in> S"
  shows "\<exists>s'. status_of d' i = Some s' \<and> s' \<in> S"
proof -
  obtain s' where s': "status_of d' i = Some s'" "edge\<^sup>*\<^sup>* s s'" using path [OF assms(1,2)] by blast
  from s'(2) have "s' \<in> S" by (induction rule: rtranclp_induct) (use assms(3,4) in auto)
  then show ?thesis using s'(1) by blast
qed

end

subsection \<open>Updating rows of a table\<close>

text \<open>\<open>UPDATE t SET ... WHERE p\<close> on a table kept as a list of rows, with the number of changed rows.\<close>

definition update_where :: "('r \<Rightarrow> bool) \<Rightarrow> ('r \<Rightarrow> 'r) \<Rightarrow> 'r list \<Rightarrow> 'r list" where
  "update_where p f rows = map (\<lambda>r. if p r then f r else r) rows"

definition count_where :: "('r \<Rightarrow> bool) \<Rightarrow> 'r list \<Rightarrow> nat" where
  "count_where p rows = length (filter p rows)"

lemma update_where_simps [simp]:
  "update_where p f [] = []"
  "update_where p f (r # rs) = (if p r then f r else r) # update_where p f rs"
  by (simp_all add: update_where_def)

lemma length_update_where [simp]: "length (update_where p f rows) = length rows"
  by (simp add: update_where_def)

lemma update_where_append: "update_where p f (a @ b) = update_where p f a @ update_where p f b"
  by (simp add: update_where_def)

lemma set_update_where: "r \<in> set (update_where p f rows) \<longleftrightarrow> (\<exists>q \<in> set rows. r = (if p q then f q else q))"
  by (auto simp: update_where_def)

lemma map_update_where: "(\<And>r. p r \<Longrightarrow> k (f r) = k r) \<Longrightarrow> map k (update_where p f rows) = map k rows"
  by (simp add: update_where_def)

lemma count_where_0: "count_where p rows = 0 \<longleftrightarrow> (\<forall>r \<in> set rows. \<not> p r)"
  by (auto simp: count_where_def filter_empty_conv)

text \<open>\<open>SELECT ... WHERE key = k\<close> on a unique key.\<close>

lemma find_map_keys:
  "(\<And>r. r \<in> set rows \<Longrightarrow> key (f r) = key r) \<Longrightarrow> find (\<lambda>r. key r = k) (map f rows) = map_option f (find (\<lambda>r. key r = k) rows)"
  by (induction rows) auto

lemma find_update_where:
  "(\<And>r. p r \<Longrightarrow> key (f r) = key r) \<Longrightarrow>
    find (\<lambda>r. key r = k) (update_where p f rows) = map_option (\<lambda>r. if p r then f r else r) (find (\<lambda>r. key r = k) rows)"
  by (induction rows) auto

lemma find_key_Some: "find (\<lambda>r. key r = k) rows = Some r \<Longrightarrow> r \<in> set rows \<and> key r = k"
  by (induction rows) (auto split: if_splits)

lemma find_key_unique:
  "distinct (map key rows) \<Longrightarrow> r \<in> set rows \<Longrightarrow> key r = k \<Longrightarrow> find (\<lambda>r. key r = k) rows = Some r"
proof (induction rows)
  case (Cons a rows)
  show ?case
  proof (cases "key a = k")
    case True
    have "r = a"
    proof (rule ccontr)
      assume "r \<noteq> a"
      then have "key r \<in> key ` set rows" using Cons.prems(2) by simp
      then show False using Cons.prems(1,3) True by simp
    qed
    then show ?thesis using True by simp
  next
    case False
    then have "r \<in> set rows" using Cons.prems(2,3) by auto
    then show ?thesis using Cons.IH Cons.prems(1,3) False by simp
  qed
qed simp

lemma find_append: "find P (xs @ ys) = (case find P xs of Some x \<Rightarrow> Some x | None \<Rightarrow> find P ys)"
  by (induction xs) auto

end
