(* ===== verification/Shards.thy ===== *)
theory Shards
  imports Payout_Root Mass Json Status_Machine
begin

section \<open>Shards of a market\<close>

text \<open>
  The rolling shards of a logical market: \<open>pool-fold.mjs\<close> (the fold of the shard totals),
  \<open>pool-shard-state-serialize.mjs\<close> and \<open>spliceLeafState\<close> (the state bytes spliced into a redeem
  script) and \<open>shard-allocator.mjs\<close> (which shard a new bet goes to, when a shard is sealed).  The two
  tables the allocator works on, \<open>market_shards\<close> and \<open>pool_bettor_sides\<close>, are lists of rows.
\<close>

subsection \<open>The fold commitment\<close>

datatype shard_error = Serialize merkle_error | MarketIdLength nat | FieldMissing string | FieldNegative string int
  | ClosedRange int | Root32 nat | StateLength nat | FanInTooSmall nat | NoLeaves | UniqueViolation | NoRegistryRow string

definition FOLD_FANIN :: nat where "FOLD_FANIN = 4"

definition ser :: "int \<Rightarrow> nat \<Rightarrow> shard_error + buf" where
  "ser v k = map_sum Serialize id (serializeI64 v (Some k))"

text \<open>\<open>Buffer.concat\<close> of parts that may throw.\<close>

definition concatE :: "(shard_error + buf) list \<Rightarrow> shard_error + buf" where
  "concatE ps = map_sum id concat (mapE id ps)"

definition fold_preimage :: "int \<Rightarrow> int \<Rightarrow> hexstr \<Rightarrow> int \<Rightarrow> shard_error + buf" where
  "fold_preimage yes no marketIdHex32 shardCount =
    (let mid = hex_decode marketIdHex32 in
     concatE [ser yes 8, ser no 8, if length mid \<noteq> 32 then Inl (MarketIdLength (length mid)) else Inr mid, ser shardCount 4])"

definition foldRootCommit :: "(buf \<Rightarrow> buf) \<Rightarrow> int \<Rightarrow> int \<Rightarrow> hexstr \<Rightarrow> int \<Rightarrow> shard_error + buf" where
  "foldRootCommit H yes no marketIdHex32 shardCount = map_sum id H (fold_preimage yes no marketIdHex32 shardCount)"

definition foldRootCommitHex :: "(buf \<Rightarrow> buf) \<Rightarrow> int \<Rightarrow> int \<Rightarrow> hexstr \<Rightarrow> int \<Rightarrow> shard_error + hexstr" where
  "foldRootCommitHex H yes no marketIdHex32 shardCount = map_sum id hex_encode (foldRootCommit H yes no marketIdHex32 shardCount)"

lemma ser_Inr: "ser v k = Inr b \<longleftrightarrow> serializeI64 v (Some k) = Inr b"
  by (cases "serializeI64 v (Some k)") (auto simp: ser_def)

lemma ser_length: "ser v k = Inr b \<Longrightarrow> length b = k"
  using serializeI64_roundtrip(1) by (simp add: ser_Inr)

lemma ser_val: "ser v k = Inr b \<Longrightarrow> i64_val b = v"
  using serializeI64_roundtrip(2) by (simp add: ser_Inr)

lemma concatE_Cons: "concatE (p # ps) = Inr b \<longleftrightarrow> (\<exists>x y. p = Inr x \<and> concatE ps = Inr y \<and> b = x @ y)"
  by (cases p; cases "mapE id ps") (auto simp: concatE_def)

lemma concatE_Nil [simp]: "concatE [] = Inr b \<longleftrightarrow> b = []"
  by (auto simp: concatE_def)

lemma append_split: "length (a :: 'a list) = length a' \<Longrightarrow> a @ b = a' @ b' \<longleftrightarrow> a = a' \<and> b = b'"
  by simp

lemma fold_preimage_Inr:
  assumes "fold_preimage yes no mid cnt = Inr b"
  obtains y n c where "ser yes 8 = Inr y" "ser no 8 = Inr n" "ser cnt 4 = Inr c" "length (hex_decode mid) = 32"
    "b = y @ n @ hex_decode mid @ c"
  using assms by (auto simp: fold_preimage_def Let_def concatE_Cons split: if_splits)

lemma fold_preimage_inj:
  assumes "fold_preimage yes no mid cnt = Inr b" "fold_preimage yes' no' mid' cnt' = Inr b"
  shows "yes = yes' \<and> no = no' \<and> hex_decode mid = hex_decode mid' \<and> cnt = cnt'"
proof -
  obtain y n c where 1: "ser yes 8 = Inr y" "ser no 8 = Inr n" "ser cnt 4 = Inr c" "length (hex_decode mid) = 32"
    "b = y @ n @ hex_decode mid @ c" using assms(1) by (rule fold_preimage_Inr)
  obtain y' n' c' where 2: "ser yes' 8 = Inr y'" "ser no' 8 = Inr n'" "ser cnt' 4 = Inr c'" "length (hex_decode mid') = 32"
    "b = y' @ n' @ hex_decode mid' @ c'" using assms(2) by (rule fold_preimage_Inr)
  have "y = y'" "n = n'" "hex_decode mid = hex_decode mid'" "c = c'"
    using 1 2 ser_length [OF 1(1)] ser_length [OF 2(1)] ser_length [OF 1(2)] ser_length [OF 2(2)] by auto
  then show ?thesis using 1 2 ser_val by metis
qed

subsection \<open>The fold plan\<close>

record fold_op =
  fo_node :: string
  fo_inputs :: "string list"

record fold_plan =
  fp_levels :: "fold_op list list"
  fp_rootId :: string
  fp_txCount :: nat

definition fold_node :: "nat \<Rightarrow> nat \<Rightarrow> string" where
  "fold_node levelNo j = ''fold:L'' @ nat_str levelNo @ '':'' @ nat_str j"

function fold_ops :: "nat \<Rightarrow> nat \<Rightarrow> nat \<Rightarrow> string list \<Rightarrow> fold_op list" where
  "fold_ops k levelNo j cur =
    (if cur = [] \<or> k = 0 then []
     else \<lparr> fo_node = fold_node levelNo j, fo_inputs = take k cur \<rparr> # fold_ops k levelNo (Suc j) (drop k cur))"
  by pat_completeness auto
termination by (relation "measure (\<lambda>(k, levelNo, j, cur). length cur)") auto

declare fold_ops.simps [simp del]

text \<open>Number of groups of \<open>k\<close> among \<open>n\<close>.\<close>

definition groups :: "nat \<Rightarrow> nat \<Rightarrow> nat" where
  "groups n k = (n + k - 1) div k"

lemma groups_step: "0 < k \<Longrightarrow> 0 < n \<Longrightarrow> groups n k = Suc (groups (n - k) k)"
proof (cases "n \<le> k")
  assume k: "0 < k" and n: "0 < n" and le: "n \<le> k"
  then have "n + k - 1 = (n - 1) + k" "n - 1 < k" by auto
  then have "groups n k = 1" using k unfolding groups_def by (metis Suc_eq_plus1 add_0 div_add_self2 div_less not_gr_zero)
  moreover have "groups (n - k) k = 0" using k le by (simp add: groups_def)
  ultimately show ?thesis by simp
next
  assume k: "0 < k" and "\<not> n \<le> k"
  then show ?thesis by (simp add: groups_def le_div_geq)
qed

lemma length_fold_ops: "0 < k \<Longrightarrow> length (fold_ops k lv j cur) = groups (length cur) k"
proof (induction k lv j cur rule: fold_ops.induct)
  case (1 k lv j cur)
  show ?case
  proof (cases "cur = []")
    case True
    then show ?thesis using "1.prems" by (subst fold_ops.simps) (simp add: groups_def)
  next
    case False
    then have "length (fold_ops k lv (Suc j) (drop k cur)) = groups (length cur - k) k" using 1 by simp
    then show ?thesis using groups_step [OF "1.prems", of "length cur"] False "1.prems" by (subst fold_ops.simps) simp
  qed
qed

lemma groups_less: "1 < n \<Longrightarrow> 1 < k \<Longrightarrow> groups n k < n"
proof -
  assume "1 < n" "1 < k"
  then have "n + k - 1 < n * k" using mult_le_mono [of 2 n 2 k] by (cases n; cases k) auto
  then show ?thesis unfolding groups_def by (rule less_mult_imp_div_less)
qed

text \<open>The loop over the levels; \<open>k \<ge> 2\<close> has been checked before it starts.\<close>

function fold_levels :: "nat \<Rightarrow> nat \<Rightarrow> string list \<Rightarrow> fold_op list list \<times> string list" where
  "fold_levels k levelNo cur =
    (if 1 < length cur \<and> 1 < k then
       (let ops = fold_ops k levelNo 0 cur; (levels, last) = fold_levels k (Suc levelNo) (map fo_node ops)
        in (ops # levels, last))
     else ([], cur))"
  by pat_completeness auto
termination
  by (relation "measure (\<lambda>(k, levelNo, cur). length cur)") (auto simp: length_fold_ops groups_less)

declare fold_levels.simps [simp del]

definition buildFoldTree :: "string list \<Rightarrow> nat \<Rightarrow> shard_error + fold_plan" where
  "buildFoldTree ids k =
    (if k < 2 then Inl (FanInTooSmall k)
     else case ids of
       [] \<Rightarrow> Inl NoLeaves
     | [a] \<Rightarrow> Inr \<lparr> fp_levels = [], fp_rootId = a, fp_txCount = 0 \<rparr>
     | _ \<Rightarrow> (let (levels, last) = fold_levels k 0 ids in
         Inr \<lparr> fp_levels = levels, fp_rootId = hd last, fp_txCount = sum_list (map length levels) \<rparr>))"

text \<open>\<open>foldTxCount\<close>: its loop does not check the fan-in, and with \<open>k = 1\<close> it never ends.\<close>

partial_function (option) fold_tx_loop :: "nat \<Rightarrow> nat \<Rightarrow> nat \<Rightarrow> nat option" where
  "fold_tx_loop k n acc = (if 1 < n then fold_tx_loop k (groups n k) (acc + groups n k) else Some acc)"

definition foldTxCount :: "nat \<Rightarrow> nat \<Rightarrow> nat option" where
  "foldTxCount nShards k = (if nShards \<le> 1 then Some 0 else fold_tx_loop k nShards 0)"

lemma fold_levels_step:
  assumes "1 < length cur" "1 < k"
  shows "fst (fold_levels k lv cur) = fold_ops k lv 0 cur # fst (fold_levels k (Suc lv) (map fo_node (fold_ops k lv 0 cur)))"
    and "snd (fold_levels k lv cur) = snd (fold_levels k (Suc lv) (map fo_node (fold_ops k lv 0 cur)))"
  using assms by (simp_all add: fold_levels.simps [of k lv cur] Let_def case_prod_beta)

lemma fold_levels_stop: "length cur \<le> 1 \<Longrightarrow> fold_levels k lv cur = ([], cur)"
  by (simp add: fold_levels.simps [of k lv cur])

lemma fold_tx_loop_levels:
  assumes "1 < k"
  shows "fold_tx_loop k (length cur) acc = Some (acc + sum_list (map length (fst (fold_levels k lv cur))))"
  using assms
proof (induction k lv cur arbitrary: acc rule: fold_levels.induct)
  case (1 k lv cur)
  show ?case
  proof (cases "1 < length cur")
    case True
    let ?ops = "fold_ops k lv 0 cur"
    have len: "length (map fo_node ?ops) = groups (length cur) k" using "1.prems" by (simp add: length_fold_ops)
    have "fold_tx_loop k (length cur) acc = fold_tx_loop k (groups (length cur) k) (acc + groups (length cur) k)"
      using True by (subst fold_tx_loop.simps) simp
    also have "\<dots> = Some (acc + groups (length cur) k + sum_list (map length (fst (fold_levels k (Suc lv) (map fo_node ?ops)))))"
      using "1.IH" [of ?ops "acc + groups (length cur) k"] True "1.prems" len by simp
    finally show ?thesis using fold_levels_step(1) [OF True "1.prems", of lv] len by simp
  next
    case False
    then show ?thesis by (subst fold_tx_loop.simps) (simp add: fold_levels_stop)
  qed
qed

text \<open>Each level consumes the nodes of the level below, in order, in groups of at most \<open>k\<close>.\<close>

lemma fold_ops_inputs: "0 < k \<Longrightarrow> concat (map fo_inputs (fold_ops k lv j cur)) = cur"
proof (induction k lv j cur rule: fold_ops.induct)
  case (1 k lv j cur)
  show ?case
  proof (cases "cur = []")
    case True
    then show ?thesis by (subst fold_ops.simps) simp
  next
    case False
    then show ?thesis using 1 by (subst fold_ops.simps) simp
  qed
qed

lemma fold_ops_group: "o' \<in> set (fold_ops k lv j cur) \<Longrightarrow> fo_inputs o' \<noteq> [] \<and> length (fo_inputs o') \<le> k"
proof (induction k lv j cur rule: fold_ops.induct)
  case (1 k lv j cur)
  then show ?case by (cases "cur = [] \<or> k = 0") (auto simp: fold_ops.simps [of k lv j cur])
qed

fun levels_ok :: "nat \<Rightarrow> string list \<Rightarrow> fold_op list list \<Rightarrow> string list \<Rightarrow> bool" where
  "levels_ok k cur [] fin \<longleftrightarrow> cur = fin"
| "levels_ok k cur (ops # levels) fin \<longleftrightarrow> concat (map fo_inputs ops) = cur
     \<and> list_all (\<lambda>x. fo_inputs x \<noteq> [] \<and> length (fo_inputs x) \<le> k) ops \<and> levels_ok k (map fo_node ops) levels fin"

lemma fold_levels_ok: "1 < k \<Longrightarrow> cur \<noteq> [] \<Longrightarrow> levels_ok k cur (fst (fold_levels k lv cur)) (snd (fold_levels k lv cur)) \<and> length (snd (fold_levels k lv cur)) = 1"
proof (induction k lv cur rule: fold_levels.induct)
  case (1 k lv cur)
  show ?case
  proof (cases "1 < length cur")
    case True
    let ?ops = "fold_ops k lv 0 cur"
    have "length ?ops \<noteq> 0" using True "1.prems" by (simp add: fold_ops.simps [of k lv 0 cur])
    then have ne: "map fo_node ?ops \<noteq> []" by auto
    have "levels_ok k (map fo_node ?ops) (fst (fold_levels k (Suc lv) (map fo_node ?ops))) (snd (fold_levels k (Suc lv) (map fo_node ?ops)))
        \<and> length (snd (fold_levels k (Suc lv) (map fo_node ?ops))) = 1"
      using "1.IH" [OF _ refl _ ne] True "1.prems"(1) by simp
    then show ?thesis
      using fold_levels_step [OF True "1.prems"(1), of lv] fold_ops_inputs [of k lv 0 cur] "1.prems"(1)
      by (auto simp: list_all_iff dest: fold_ops_group)
  next
    case False
    then show ?thesis using "1.prems" by (cases cur) (simp_all add: fold_levels_stop)
  qed
qed

lemma fold_tx_loop_one: "1 < n \<Longrightarrow> fold_tx_loop 1 n acc = None"
proof (rule ccontr)
  assume n: "1 < n" and "fold_tx_loop 1 n acc \<noteq> None"
  then obtain r where r: "fold_tx_loop 1 n acc = Some r" by auto
  have "(1::nat) = 1 \<longrightarrow> \<not> 1 < n"
    by (rule fold_tx_loop.raw_induct [where P = "\<lambda>k n acc r. k = 1 \<longrightarrow> \<not> 1 < n", OF _ r])
      (auto simp: groups_def split: if_splits)
  then show False using n by simp
qed

subsection \<open>State bytes\<close>

record leaf_state =
  local_yes :: int
  local_no :: int
  ls_count :: int
  pool_value :: int

text \<open>The argument of the serialiser: absent fields are \<open>None\<close>.\<close>

record shard_state =
  st_local_yes :: "int option"
  st_local_no :: "int option"
  st_count :: "int option"
  st_pool_value :: "int option"
  st_closed :: "int option"
  st_winningSide :: "int option"
  st_payoutRoot :: buf

fun check_ints :: "(string \<times> int option) list \<Rightarrow> shard_error option" where
  "check_ints [] = None"
| "check_ints ((k, v) # r) = (case v of None \<Rightarrow> Some (FieldMissing k)
     | Some i \<Rightarrow> if i < 0 then Some (FieldNegative k i) else check_ints r)"

definition push8 :: "int \<Rightarrow> shard_error + buf" where
  "push8 v = map_sum id (\<lambda>b. 0x08 # b) (ser v 8)"

definition serializePoolShardState :: "shard_state \<Rightarrow> shard_error + buf" where
  "serializePoolShardState s =
    (case check_ints [(''local_yes'', st_local_yes s), (''local_no'', st_local_no s), (''count'', st_count s),
        (''pool_value'', st_pool_value s), (''closed'', st_closed s), (''winningSide'', st_winningSide s)] of
       Some e \<Rightarrow> Inl e
     | None \<Rightarrow>
       (if the (st_closed s) > 2 then Inl (ClosedRange (the (st_closed s)))
        else concatE [push8 (the (st_local_yes s)), push8 (the (st_local_no s)), push8 (the (st_count s)),
          push8 (the (st_pool_value s)), push8 (the (st_closed s)), push8 (the (st_winningSide s)), Inr [0x20],
          if length (st_payoutRoot s) \<noteq> 32 then Inl (Root32 (length (st_payoutRoot s))) else Inr (st_payoutRoot s)]))"

definition serializeLeafState :: "int option \<Rightarrow> int option \<Rightarrow> int option \<Rightarrow> int option \<Rightarrow> shard_error + buf" where
  "serializeLeafState yes no cnt pool =
    (case check_ints [(''local_yes'', yes), (''local_no'', no), (''count'', cnt), (''pool_value'', pool)] of
       Some e \<Rightarrow> Inl e
     | None \<Rightarrow> concatE [push8 (the yes), push8 (the no), push8 (the cnt), push8 (the pool)])"

text \<open>\<open>POOL_SHARD_STATE_LAYOUT\<close>: offset and length of each value.\<close>

definition POOL_SHARD_STATE_LAYOUT :: "(string \<times> nat \<times> nat) list" where
  "POOL_SHARD_STATE_LAYOUT = [(''local_yes'', 1, 8), (''local_no'', 10, 8), (''count'', 19, 8), (''pool_value'', 28, 8),
     (''closed'', 37, 8), (''winningSide'', 46, 8), (''payoutRoot'', 55, 32)]"

definition layout_field :: "string \<Rightarrow> buf \<Rightarrow> buf" where
  "layout_field k b = (case map_of POOL_SHARD_STATE_LAYOUT k of Some (off, len) \<Rightarrow> take len (drop off b) | None \<Rightarrow> [])"

text \<open>Splicing a new state into a redeem script.\<close>

definition splice :: "buf \<Rightarrow> nat \<Rightarrow> nat \<Rightarrow> buf \<Rightarrow> buf" where
  "splice redeem start len stateBytes = take start redeem @ stateBytes @ drop (start + len) redeem"

definition computeContinuationScriptHash :: "buf \<Rightarrow> shard_state \<Rightarrow> (buf \<Rightarrow> buf) \<Rightarrow> nat \<Rightarrow> nat \<Rightarrow> shard_error + buf" where
  "computeContinuationScriptHash inputRedeem newState blake2b32 start len =
    (case serializePoolShardState newState of
       Inl e \<Rightarrow> Inl e
     | Inr b \<Rightarrow> if length b \<noteq> len then Inl (StateLength (length b)) else Inr (blake2b32 (splice inputRedeem start len b)))"

text \<open>\<open>spliceLeafState\<close> of \<open>pool-shard-register.mjs\<close>: four pushes of little-endian two's complement
  64-bit integers; \<open>writeBigInt64LE\<close> refuses what does not fit.\<close>

definition i64LE :: "int \<Rightarrow> buf option" where
  "i64LE n = (if - (2 ^ 63) \<le> n \<and> n < 2 ^ 63
     then Some (map (\<lambda>i. word_of_int (n div 256 ^ i)) [0..<8]) else None)"

definition spliceLeafState :: "hexstr \<Rightarrow> leaf_state \<Rightarrow> hexstr option" where
  "spliceLeafState baseRedeemHex st =
    (case (i64LE (local_yes st), i64LE (local_no st), i64LE (ls_count st), i64LE (pool_value st)) of
       (Some y, Some n, Some c, Some p) \<Rightarrow>
         (let stateBytes = (8 # y) @ (8 # n) @ (8 # c) @ (8 # p); redeem = hex_decode baseRedeemHex
          in Some (hex_encode (splice redeem 1 (length stateBytes) stateBytes)))
     | _ \<Rightarrow> None)"

lemma push8_Inr: "push8 v = Inr b \<longleftrightarrow> (\<exists>c. ser v 8 = Inr c \<and> b = 0x08 # c)"
  by (cases "ser v 8") (auto simp: push8_def)

lemma serializePoolShardState_Inr:
  assumes "serializePoolShardState s = Inr b"
  obtains y n c p d w where "ser (the (st_local_yes s)) 8 = Inr y" "ser (the (st_local_no s)) 8 = Inr n"
    "ser (the (st_count s)) 8 = Inr c" "ser (the (st_pool_value s)) 8 = Inr p" "ser (the (st_closed s)) 8 = Inr d"
    "ser (the (st_winningSide s)) 8 = Inr w" "length (st_payoutRoot s) = 32"
    "b = (8 # y) @ (8 # n) @ (8 # c) @ (8 # p) @ (8 # d) @ (8 # w) @ [0x20] @ st_payoutRoot s"
  using assms by (auto simp: serializePoolShardState_def concatE_Cons push8_Inr split: option.splits if_splits)

lemma state_fields:
  assumes "serializePoolShardState s = Inr b"
  shows "length b = 87" "i64_val (layout_field ''local_yes'' b) = the (st_local_yes s)"
    "i64_val (layout_field ''local_no'' b) = the (st_local_no s)" "i64_val (layout_field ''count'' b) = the (st_count s)"
    "i64_val (layout_field ''pool_value'' b) = the (st_pool_value s)" "i64_val (layout_field ''closed'' b) = the (st_closed s)"
    "i64_val (layout_field ''winningSide'' b) = the (st_winningSide s)" "layout_field ''payoutRoot'' b = st_payoutRoot s"
proof -
  obtain y n c p d w where f: "ser (the (st_local_yes s)) 8 = Inr y" "ser (the (st_local_no s)) 8 = Inr n"
    "ser (the (st_count s)) 8 = Inr c" "ser (the (st_pool_value s)) 8 = Inr p" "ser (the (st_closed s)) 8 = Inr d"
    "ser (the (st_winningSide s)) 8 = Inr w" "length (st_payoutRoot s) = 32"
    and b: "b = (8 # y) @ (8 # n) @ (8 # c) @ (8 # p) @ (8 # d) @ (8 # w) @ [0x20] @ st_payoutRoot s"
    using assms by (rule serializePoolShardState_Inr)
  note len = f(1-6) [THEN ser_length]
  note v = f(1-6) [THEN ser_val]
  show "length b = 87" using len f(7) by (simp add: b)
  show "i64_val (layout_field ''local_yes'' b) = the (st_local_yes s)"
    "i64_val (layout_field ''local_no'' b) = the (st_local_no s)" "i64_val (layout_field ''count'' b) = the (st_count s)"
    "i64_val (layout_field ''pool_value'' b) = the (st_pool_value s)" "i64_val (layout_field ''closed'' b) = the (st_closed s)"
    "i64_val (layout_field ''winningSide'' b) = the (st_winningSide s)" "layout_field ''payoutRoot'' b = st_payoutRoot s"
    using len v f(7) by (simp_all add: layout_field_def POOL_SHARD_STATE_LAYOUT_def b drop_Cons')
qed

lemma length_splice: "length b = len \<Longrightarrow> start + len \<le> length r \<Longrightarrow> length (splice r start len b) = length r"
  by (simp add: splice_def)

lemma splice_inside: "length b = len \<Longrightarrow> start + len \<le> length r \<Longrightarrow> take len (drop start (splice r start len b)) = b"
  by (simp add: splice_def)

lemma splice_outside: "length b = len \<Longrightarrow> start + len \<le> length r \<Longrightarrow> i < start \<or> start + len \<le> i \<Longrightarrow> i < length r \<Longrightarrow>
    splice r start len b ! i = r ! i"
  by (auto simp: splice_def nth_append)

lemma splice_twice: "length b = len \<Longrightarrow> start + len \<le> length r \<Longrightarrow> splice (splice r start len b) start len c = splice r start len c"
  by (simp add: splice_def)

subsection \<open>Two encoders of the leaf state\<close>

text \<open>The serialiser uses the sign-magnitude encoding of the script engine, the splice two's
  complement: on the non-negative integers of the state they are the same bytes.\<close>

lemma le_val_inj: "length bs = length cs \<Longrightarrow> le_val bs = le_val cs \<Longrightarrow> bs = cs"
proof (induction bs cs rule: list_induct2)
  case (Cons x xs y ys)
  have e: "unat x + 256 * le_val xs = unat y + 256 * le_val ys" using Cons.prems by simp
  have b: "unat x < 256" "unat y < 256" using unsigned_less [of x] unsigned_less [of y] by simp_all
  have xy: "unat x = unat y" using arg_cong [OF e, of "\<lambda>n. n mod 256"] b by simp
  then have "x = y" by (simp add: word_unat_eq_iff)
  moreover have "le_val xs = le_val ys" using e xy by simp
  ultimately show ?case using Cons.IH by simp
qed simp

lemma le_val_digits:
  "0 \<le> n \<Longrightarrow> n < 256 ^ k \<Longrightarrow> le_val (map (\<lambda>i. word_of_int (n div 256 ^ i)) [0..<k]) = nat n"
proof (induction k arbitrary: n)
  case (Suc k)
  have "map (\<lambda>i. word_of_int (n div 256 ^ i) :: 8 word) [0..<Suc k]
      = word_of_int n # map (\<lambda>i. word_of_int (n div 256 div 256 ^ i)) [0..<k]"
    by (simp add: upt_conv_Cons map_Suc_upt [symmetric] zdiv_zmult2_eq del: upt_Suc)
  moreover have "le_val (map (\<lambda>i. word_of_int (n div 256 div 256 ^ i)) [0..<k]) = nat (n div 256)"
    using Suc.prems by (intro Suc.IH) auto
  moreover have "unat (word_of_int n :: 8 word) = nat (n mod 256)"
    by (simp add: unat_eq_nat_uint uint_word_of_int)
  moreover have "nat (n mod 256) + 256 * nat (n div 256) = nat n"
    using Suc.prems(1) by (simp add: nat_mod_distrib nat_div_distrib)
  ultimately show ?case by simp
qed simp

lemma i64_range: "i64_val bs < 128 * 256 ^ (length bs - 1)"
proof (cases "bs = []")
  case False
  have "le_val (butlast bs) < 256 ^ (length bs - 1)" using le_val_less [of "butlast bs"] by simp
  moreover have "unat (last bs) mod 128 \<le> 127" by (simp add: less_Suc_eq_le [symmetric])
  then have "256 ^ (length bs - 1) * (unat (last bs) mod 128) \<le> 256 ^ (length bs - 1) * 127" by (rule mult_le_mono2)
  ultimately have "le_val (butlast bs) + 256 ^ (length bs - 1) * (unat (last bs) mod 128) < 128 * 256 ^ (length bs - 1)" by linarith
  then have "int (le_val (butlast bs) + 256 ^ (length bs - 1) * (unat (last bs) mod 128)) < int (128 * 256 ^ (length bs - 1))"
    by (simp only: of_nat_less_iff)
  moreover have "i64_val bs \<le> int (le_val (butlast bs) + 256 ^ (length bs - 1) * (unat (last bs) mod 128))"
    using False by (simp add: i64_val_def Let_def)
  ultimately show ?thesis by simp
qed (simp add: i64_val_def)

lemma ser_i64LE:
  assumes "ser n 8 = Inr b" "0 \<le> n"
  shows "i64LE n = Some b"
proof -
  have len: "length b = 8" using assms(1) by (rule ser_length)
  then have hi: "n < 2 ^ 63" using i64_range [of b] ser_val [OF assms(1)] by simp
  have "le_val b = nat n"
    using assms by (auto simp: ser_Inr serializeI64_def Let_def le_val_append ser_bytes_val split: if_splits)
  then have "le_val b = le_val (map (\<lambda>i. word_of_int (n div 256 ^ i)) [0..<8])"
    using assms(2) hi by (subst le_val_digits) auto
  then have "b = map (\<lambda>i. word_of_int (n div 256 ^ i)) [0..<8]" by (intro le_val_inj) (simp_all add: len)
  then show ?thesis using assms(2) hi by (simp add: i64LE_def)
qed

lemma serializeLeafState_Inr:
  assumes "serializeLeafState (Some yes) (Some no) (Some cnt) (Some pool) = Inr b"
  obtains y n c p where "ser yes 8 = Inr y" "ser no 8 = Inr n" "ser cnt 8 = Inr c" "ser pool 8 = Inr p"
    "0 \<le> yes" "0 \<le> no" "0 \<le> cnt" "0 \<le> pool" "b = (8 # y) @ (8 # n) @ (8 # c) @ (8 # p)"
  using assms by (auto simp: serializeLeafState_def concatE_Cons push8_Inr split: option.splits if_splits)

subsection \<open>Properties\<close>

text \<open>C39: the fold plan of any non-empty list of shards exists for a fan-in of at least two; its levels
  consume the shards, then the nodes of the level before, in order and in groups of at most \<open>k\<close>, down to
  the root, and \<open>foldTxCount\<close> is its number of transactions.\<close>

theorem fold_plan_correct:
  assumes "2 \<le> k" "ids \<noteq> []"
  shows "\<exists>p. buildFoldTree ids k = Inr p \<and> levels_ok k ids (fp_levels p) [fp_rootId p]
    \<and> foldTxCount (length ids) k = Some (fp_txCount p)"
proof (cases "length ids = 1")
  case True
  then obtain a where "ids = [a]" by (cases ids) auto
  then show ?thesis using assms by (simp add: buildFoldTree_def foldTxCount_def)
next
  case False
  then have 1: "1 < length ids" using assms(2) by (cases ids) auto
  then obtain a b r where ids: "ids = a # b # r" by (cases ids rule: remdups_adj.cases) auto
  have k: "1 < k" using assms(1) by simp
  define levels fin where "levels = fst (fold_levels k 0 ids)" and "fin = snd (fold_levels k 0 ids)"
  have "levels_ok k ids levels fin" "length fin = 1"
    using fold_levels_ok [OF k assms(2), of 0] by (simp_all add: levels_def fin_def)
  moreover have "buildFoldTree ids k = Inr \<lparr> fp_levels = levels, fp_rootId = hd fin, fp_txCount = sum_list (map length levels) \<rparr>"
    using k by (simp add: buildFoldTree_def ids levels_def fin_def Let_def case_prod_beta)
  moreover have "foldTxCount (length ids) k = Some (sum_list (map length levels))"
    using fold_tx_loop_levels [OF k, of ids 0 0] 1 by (simp add: foldTxCount_def levels_def)
  moreover have "fin = [hd fin]" using \<open>length fin = 1\<close> by (cases fin) auto
  ultimately show ?thesis by auto
qed

theorem fold_plan_correct_witness:
  "\<exists>p. buildFoldTree [''s0'', ''s1'', ''s2'', ''s3'', ''s4''] FOLD_FANIN = Inr p
     \<and> levels_ok FOLD_FANIN [''s0'', ''s1'', ''s2'', ''s3'', ''s4''] (fp_levels p) [fp_rootId p]
     \<and> foldTxCount (length [''s0'', ''s1'', ''s2'', ''s3'', ''s4'']) FOLD_FANIN = Some (fp_txCount p)"
  by (rule fold_plan_correct) (simp_all add: FOLD_FANIN_def)

text \<open>\<open>foldTxCount\<close> does not check the fan-in as \<open>buildFoldTree\<close> does: for two shards or more and
  a fan-in of one its loop never ends.\<close>

theorem fold_tx_count_unguarded:
  "foldTxCount (Suc (Suc n)) 1 = None \<and> buildFoldTree ids 1 = Inl (FanInTooSmall 1)"
  using fold_tx_loop_one [of "Suc (Suc n)" 0] by (simp add: foldTxCount_def buildFoldTree_def)

text \<open>The fold commitment binds the totals, the market and the number of shards: two argument lists
  with the same commitment are the same, or their preimages are a collision of the hash.\<close>

theorem fold_commit_binds:
  assumes "foldRootCommit H yes no mid cnt = Inr h" "foldRootCommit H yes' no' mid' cnt' = Inr h"
  shows "(yes = yes' \<and> no = no' \<and> hex_decode mid = hex_decode mid' \<and> cnt = cnt')
    \<or> (\<exists>a b. fold_preimage yes no mid cnt = Inr a \<and> fold_preimage yes' no' mid' cnt' = Inr b \<and> a \<noteq> b \<and> H a = H b)"
proof -
  obtain a b where ab: "fold_preimage yes no mid cnt = Inr a" "fold_preimage yes' no' mid' cnt' = Inr b" "H a = H b"
    using assms by (cases "fold_preimage yes no mid cnt"; cases "fold_preimage yes' no' mid' cnt'") (auto simp: foldRootCommit_def)
  show ?thesis
  proof (cases "a = b")
    case True
    then show ?thesis using fold_preimage_inj ab by metis
  next
    case False
    then show ?thesis using ab by blast
  qed
qed

abbreviation ex_market :: hexstr where "ex_market \<equiv> replicate 64 (CHR ''1'')"

lemma ex_market_length: "length (hex_decode ex_market) = 32"
  by (simp add: length_hex_decode is_hex_lower_def list_all_iff)

lemma fold_preimage_ok:
  assumes "0 \<le> y" "y < 2 ^ 63" "0 \<le> n" "n < 2 ^ 63" "length (hex_decode mid) = 32" "0 \<le> c" "c < 2 ^ 31"
  shows "\<exists>b. fold_preimage y n mid c = Inr b"
  using serializeI64_fits [of y 7] serializeI64_fits [of n 7] serializeI64_fits [of c 3] assms
  by (auto simp: fold_preimage_def concatE_Cons Let_def ser_Inr)

theorem fold_commit_binds_witness:
  "\<exists>h. foldRootCommit ex_hash 700 300 ex_market 2 = Inr h
     \<and> ((700::int) = 700 \<and> (300::int) = 300 \<and> hex_decode ex_market = hex_decode ex_market \<and> (2::int) = 2
       \<or> (\<exists>a b. fold_preimage 700 300 ex_market 2 = Inr a \<and> fold_preimage 700 300 ex_market 2 = Inr b \<and> a \<noteq> b \<and> ex_hash a = ex_hash b))"
proof -
  obtain b where "fold_preimage 700 300 ex_market 2 = Inr b"
    using fold_preimage_ok [of 700 300 ex_market 2] ex_market_length by auto
  then have "foldRootCommit ex_hash 700 300 ex_market 2 = Inr (ex_hash b)" by (simp add: foldRootCommit_def)
  then show ?thesis using fold_commit_binds [of ex_hash 700 300 ex_market 2 "ex_hash b" 700 300 ex_market 2] by blast
qed

text \<open>The layout reads every field of a serialised pool state back, from its 87 bytes.\<close>

theorem shard_state_roundtrip:
  assumes "serializePoolShardState s = Inr b"
  shows "length b = 87 \<and> i64_val (layout_field ''local_yes'' b) = the (st_local_yes s)
    \<and> i64_val (layout_field ''local_no'' b) = the (st_local_no s) \<and> i64_val (layout_field ''count'' b) = the (st_count s)
    \<and> i64_val (layout_field ''pool_value'' b) = the (st_pool_value s) \<and> i64_val (layout_field ''closed'' b) = the (st_closed s)
    \<and> i64_val (layout_field ''winningSide'' b) = the (st_winningSide s) \<and> layout_field ''payoutRoot'' b = st_payoutRoot s"
  using state_fields [OF assms] by blast

lemma push8_ok: "0 \<le> v \<Longrightarrow> v < 2 ^ 63 \<Longrightarrow> \<exists>b. push8 v = Inr b"
  using serializeI64_fits [of v 7] by (auto simp: push8_Inr ser_Inr)

definition ex_state :: shard_state where
  "ex_state = \<lparr> st_local_yes = Some 999, st_local_no = Some 1, st_count = Some 2, st_pool_value = Some 1000,
     st_closed = Some 0, st_winningSide = Some 0, st_payoutRoot = replicate 32 7 \<rparr>"

theorem shard_state_roundtrip_witness:
  "\<exists>b. serializePoolShardState ex_state = Inr b \<and> length b = 87 \<and> i64_val (layout_field ''local_yes'' b) = 999
     \<and> layout_field ''payoutRoot'' b = replicate 32 7"
proof -
  obtain b where b: "serializePoolShardState ex_state = Inr b"
    using push8_ok [of 999] push8_ok [of 1] push8_ok [of 2] push8_ok [of 1000] push8_ok [of 0]
    by (auto simp: serializePoolShardState_def ex_state_def concatE_Cons)
  then show ?thesis using shard_state_roundtrip [OF b] by (auto simp: ex_state_def)
qed

text \<open>Wherever the serialiser accepts a leaf state, the splice of the register path writes exactly
  its 36 bytes after the first byte of the redeem script and leaves the rest as it is.\<close>

theorem leaf_state_encoders_agree:
  assumes "serializeLeafState (Some (local_yes st)) (Some (local_no st)) (Some (ls_count st)) (Some (pool_value st)) = Inr b"
  shows "length b = 36 \<and> spliceLeafState redeem st = Some (hex_encode (splice (hex_decode redeem) 1 36 b))"
proof -
  obtain y n c p where 1: "ser (local_yes st) 8 = Inr y" "ser (local_no st) 8 = Inr n" "ser (ls_count st) 8 = Inr c" "ser (pool_value st) 8 = Inr p"
    "0 \<le> local_yes st" "0 \<le> local_no st" "0 \<le> ls_count st" "0 \<le> pool_value st" "b = (8 # y) @ (8 # n) @ (8 # c) @ (8 # p)"
    using assms by (rule serializeLeafState_Inr)
  have "length b = 36" using 1 ser_length by simp
  moreover have "i64LE (local_yes st) = Some y" "i64LE (local_no st) = Some n" "i64LE (ls_count st) = Some c" "i64LE (pool_value st) = Some p"
    using 1 ser_i64LE by blast+
  then have "spliceLeafState redeem st = Some (hex_encode (splice (hex_decode redeem) 1 (length b) b))"
    by (simp add: spliceLeafState_def Let_def 1(9))
  ultimately show ?thesis by simp
qed

theorem leaf_state_encoders_agree_witness:
  "\<exists>b. serializeLeafState (Some 5) (Some 6) (Some 2) (Some 11) = Inr b
     \<and> spliceLeafState ex_market \<lparr> local_yes = 5, local_no = 6, ls_count = 2, pool_value = 11 \<rparr>
       = Some (hex_encode (splice (hex_decode ex_market) 1 36 b))"
proof -
  let ?st = "\<lparr> local_yes = 5, local_no = 6, ls_count = 2, pool_value = 11 \<rparr>"
  obtain b where "serializeLeafState (Some 5) (Some 6) (Some 2) (Some 11) = Inr b"
    using push8_ok [of 5] push8_ok [of 6] push8_ok [of 2] push8_ok [of 11] by (auto simp: serializeLeafState_def concatE_Cons)
  then show ?thesis using leaf_state_encoders_agree [of ?st b ex_market] by auto
qed

end
