(* ===== verification/Allocator.thy ===== *)
theory Allocator
  imports Shards
begin

section \<open>The shard allocator\<close>

text \<open>
  \<open>kasia-console/src/lib/shard-allocator.mjs\<close>.  The tables \<open>market_shards\<close> (unique on the pair of logical
  market and index, and on the shard's market id) and \<open>pool_bettor_sides\<close> are lists of rows.
\<close>

definition SHARD_SEAL_COUNT :: int where "SHARD_SEAL_COUNT = 32"
definition SHARD_MASS_CEILING :: int where "SHARD_MASS_CEILING = 380000"

text \<open>The column \<open>current_leaf_state\<close>: absent, not parseable, a state, or JSON without a finite count.\<close>

datatype leaf_json = NoLeaf | BadLeaf | Leaf leaf_state | LeafWithoutCount

datatype shard_status = ShOpen | ShSealed | ShOther string

record shard_row =
  sh_logical :: string
  sh_index :: nat
  sh_id :: string
  sh_p2sh :: string
  sh_outpoint :: "string option"
  sh_leaf :: leaf_json
  sh_redeem :: "hexstr option"
  sh_status :: shard_status
  sh_bettors :: int
  sh_mass :: int
  sh_created_at :: "int option"
  sh_sealed_at :: "int option"

record side_row =
  sd_market :: string
  sd_stake :: int

record shard_db =
  db_shards :: "shard_row list"
  db_sides :: "side_row list"

definition projectShardSettleMass :: "int list \<Rightarrow> int" where
  "projectShardSettleMass stakes = foldl (\<lambda>mass s. mass + estimateStorageMass s) 0 stakes"

definition leaf_count :: "shard_row \<Rightarrow> int" where
  "leaf_count sh = (case sh_leaf sh of Leaf st \<Rightarrow> max (sh_bettors sh) (ls_count st) | _ \<Rightarrow> sh_bettors sh)"

definition shardHasRoom :: "shard_row \<Rightarrow> int list \<Rightarrow> int \<Rightarrow> bool" where
  "shardHasRoom sh currentStakes nextStake =
    (if leaf_count sh + 1 > SHARD_SEAL_COUNT then False
     else if projectShardSettleMass (currentStakes @ [nextStake]) > SHARD_MASS_CEILING then False else True)"

text \<open>\<open>ORDER BY shard_index DESC LIMIT 1\<close>\<close>

definition findOpenShard :: "shard_db \<Rightarrow> string \<Rightarrow> shard_row option" where
  "findOpenShard db lm =
    (case sort_key sh_index (filter (\<lambda>s. sh_logical s = lm \<and> sh_status s = ShOpen) (db_shards db)) of
       [] \<Rightarrow> None | s # ss \<Rightarrow> Some (last (s # ss)))"

definition maxShardIndex :: "shard_db \<Rightarrow> string \<Rightarrow> int" where
  "maxShardIndex db lm = foldl (\<lambda>m s. max m (int (sh_index s))) (-1) (filter (\<lambda>s. sh_logical s = lm) (db_shards db))"

definition shardStakes :: "shard_db \<Rightarrow> string \<Rightarrow> int list" where
  "shardStakes db sid = map sd_stake (filter (\<lambda>r. sd_market r = sid) (db_sides db))"

datatype alloc = UseShard shard_row | OpenNew int "string option"

definition allocateForRegister :: "shard_db \<Rightarrow> string \<Rightarrow> int \<Rightarrow> alloc" where
  "allocateForRegister db lm nextStake =
    (case findOpenShard db lm of
       Some sh \<Rightarrow> if shardHasRoom sh (shardStakes db (sh_id sh)) nextStake then UseShard sh
         else OpenNew (maxShardIndex db lm + 1) (Some (sh_id sh))
     | None \<Rightarrow> OpenNew (maxShardIndex db lm + 1) None)"

text \<open>\<open>registerShard\<close>: the row has the column defaults; both unique constraints can fail.\<close>

definition registerShard :: "shard_db \<Rightarrow> string \<Rightarrow> nat \<Rightarrow> string \<Rightarrow> string \<Rightarrow> string option \<Rightarrow> leaf_state option
    \<Rightarrow> hexstr option \<Rightarrow> int option \<Rightarrow> shard_error + shard_db" where
  "registerShard db lm idx sid p2sh outpoint leaf redeem nowSec =
    (if list_ex (\<lambda>s. sh_logical s = lm \<and> sh_index s = idx \<or> sh_id s = sid) (db_shards db) then Inl UniqueViolation
     else Inr (db\<lparr> db_shards := db_shards db @
       [\<lparr> sh_logical = lm, sh_index = idx, sh_id = sid, sh_p2sh = p2sh, sh_outpoint = outpoint,
          sh_leaf = (case leaf of None \<Rightarrow> NoLeaf | Some st \<Rightarrow> Leaf st), sh_redeem = redeem, sh_status = ShOpen,
          sh_bettors = 0, sh_mass = 0, sh_created_at = nowSec, sh_sealed_at = None \<rparr>] \<rparr>))"

definition sealShard :: "shard_db \<Rightarrow> string \<Rightarrow> int option \<Rightarrow> shard_db" where
  "sealShard db sid nowSec =
    db\<lparr> db_shards := update_where (\<lambda>s. sh_id s = sid \<and> sh_status s = ShOpen)
       (\<lambda>s. s\<lparr> sh_status := ShSealed, sh_sealed_at := nowSec \<rparr>) (db_shards db) \<rparr>"

record bettor_registered =
  bt_sealed :: bool
  bt_count :: int
  bt_mass :: int

definition coalesce :: "'a option \<Rightarrow> 'a option \<Rightarrow> 'a option" where
  "coalesce a b = (case a of None \<Rightarrow> b | Some _ \<Rightarrow> a)"

definition onBettorRegistered :: "shard_db \<Rightarrow> string \<Rightarrow> string option \<Rightarrow> leaf_state option \<Rightarrow> int option
    \<Rightarrow> shard_error + shard_db \<times> bettor_registered" where
  "onBettorRegistered db sid outpoint leaf nowSec =
    (case find (\<lambda>s. sh_id s = sid) (db_shards db) of
       None \<Rightarrow> Inl (NoRegistryRow sid)
     | Some s \<Rightarrow>
       (let stakes = shardStakes db sid; newCount = int (length stakes); projMass = projectShardSettleMass stakes;
            sealing = (newCount \<ge> SHARD_SEAL_COUNT \<or> projMass > SHARD_MASS_CEILING)
        in Inr (db\<lparr> db_shards := update_where (\<lambda>r. sh_id r = sid)
             (\<lambda>r. r\<lparr> sh_bettors := newCount, sh_mass := projMass, sh_status := (if sealing then ShSealed else sh_status s),
               sh_sealed_at := (if sealing then nowSec else sh_sealed_at s), sh_outpoint := coalesce outpoint (sh_outpoint r),
               sh_leaf := (case leaf of None \<Rightarrow> sh_leaf r | Some st \<Rightarrow> Leaf st) \<rparr>) (db_shards db) \<rparr>,
             \<lparr> bt_sealed = sealing, bt_count = newCount, bt_mass = projMass \<rparr>)))"

definition listShards :: "shard_db \<Rightarrow> string \<Rightarrow> shard_row list" where
  "listShards db lm = sort_key sh_index (filter (\<lambda>s. sh_logical s = lm) (db_shards db))"

subsection \<open>Registration\<close>

text \<open>What \<open>registerBettorOnShard\<close> does to the two tables once its transactions have landed: a bet goes
  to the shard the allocator names (\<open>recordBettor\<close>, then \<open>onBettorRegistered\<close>), or a new shard is opened
  and the previous one sealed (\<open>sealShard\<close>, then \<open>registerShard\<close>), after which the bet is tried again.\<close>

definition record_bet :: "shard_db \<Rightarrow> string \<Rightarrow> int \<Rightarrow> shard_db" where
  "record_bet db sid stake = db\<lparr> db_sides := db_sides db @ [\<lparr> sd_market = sid, sd_stake = stake \<rparr>] \<rparr>"

inductive register_step :: "shard_db \<Rightarrow> shard_db \<Rightarrow> bool" where
  bet: "allocateForRegister db lm stake = UseShard sh \<Longrightarrow>
    onBettorRegistered (record_bet db (sh_id sh) stake) (sh_id sh) outpoint leaf now = Inr (db', r) \<Longrightarrow> register_step db db'"
| open_new: "allocateForRegister db lm stake = OpenNew idx prev \<Longrightarrow>
    registerShard (case prev of Some p \<Rightarrow> sealShard db p now | None \<Rightarrow> db) lm (nat idx) sid p2sh outpoint leaf redeem now = Inr db'
    \<Longrightarrow> register_step db db'"

inductive_cases register_stepE: "register_step db db'"

definition shard_ok :: "shard_db \<Rightarrow> shard_row \<Rightarrow> bool" where
  "shard_ok db s \<longleftrightarrow> int (length (shardStakes db (sh_id s))) = sh_bettors s \<and> sh_bettors s \<le> SHARD_SEAL_COUNT
     \<and> projectShardSettleMass (shardStakes db (sh_id s)) \<le> SHARD_MASS_CEILING"

definition shards_inv :: "shard_db \<Rightarrow> bool" where
  "shards_inv db \<longleftrightarrow> distinct (map sh_id (db_shards db))
     \<and> distinct (map (\<lambda>s. (sh_logical s, sh_index s)) (db_shards db))
     \<and> (\<forall>s \<in> set (db_shards db). shard_ok db s)
     \<and> (\<forall>r \<in> set (db_sides db). sd_market r \<in> set (map sh_id (db_shards db)))
     \<and> (\<forall>lm. length (filter (\<lambda>s. sh_logical s = lm \<and> sh_status s = ShOpen) (db_shards db)) \<le> 1)"

lemma findOpenShard_Some:
  assumes "findOpenShard db lm = Some s"
  shows "s \<in> set (db_shards db)" "sh_logical s = lm" "sh_status s = ShOpen"
proof -
  let ?l = "sort_key sh_index (filter (\<lambda>s. sh_logical s = lm \<and> sh_status s = ShOpen) (db_shards db))"
  have "?l \<noteq> [] \<and> s = last ?l" using assms by (auto simp: findOpenShard_def split: list.splits)
  then have "s \<in> set ?l" using last_in_set by metis
  then show "s \<in> set (db_shards db)" "sh_logical s = lm" "sh_status s = ShOpen" by auto
qed

lemma findOpenShard_None: "findOpenShard db lm = None \<Longrightarrow> filter (\<lambda>s. sh_logical s = lm \<and> sh_status s = ShOpen) (db_shards db) = []"
  using sort_key_eq_Nil [of sh_index "filter (\<lambda>s. sh_logical s = lm \<and> sh_status s = ShOpen) (db_shards db)"]
  by (simp add: findOpenShard_def split: list.splits)

lemma allocate_Use:
  assumes "allocateForRegister db lm stake = UseShard sh"
  shows "sh \<in> set (db_shards db)" "sh_status sh = ShOpen" "sh_logical sh = lm" "leaf_count sh < SHARD_SEAL_COUNT"
    "projectShardSettleMass (shardStakes db (sh_id sh) @ [stake]) \<le> SHARD_MASS_CEILING"
  using assms findOpenShard_Some [of db lm sh]
  by (auto simp: allocateForRegister_def shardHasRoom_def split: option.splits if_splits)

lemma shardStakes_record: "shardStakes (record_bet db sid stake) k = shardStakes db k @ (if sid = k then [stake] else [])"
  by (simp add: shardStakes_def record_bet_def)

lemma record_bet_shards [simp]: "db_shards (record_bet db sid stake) = db_shards db"
  "db_sides (record_bet db sid stake) = db_sides db @ [\<lparr> sd_market = sid, sd_stake = stake \<rparr>]"
  by (simp_all add: record_bet_def)

lemma open_after_update:
  fixes f :: "shard_row \<Rightarrow> shard_row" and p :: "shard_row \<Rightarrow> bool" and rows :: "shard_row list"
  assumes "\<And>r. r \<in> set rows \<Longrightarrow> p r \<Longrightarrow> sh_logical (f r) = sh_logical r \<and> (sh_status (f r) = ShOpen \<longrightarrow> sh_status r = ShOpen)"
  shows "length (filter (\<lambda>s. sh_logical s = lm \<and> sh_status s = ShOpen) (update_where p f rows))
    \<le> length (filter (\<lambda>s. sh_logical s = lm \<and> sh_status s = ShOpen) rows)"
  using assms
proof (induction rows)
  case (Cons r rows)
  have "length (filter (\<lambda>s. sh_logical s = lm \<and> sh_status s = ShOpen) (update_where p f rows))
      \<le> length (filter (\<lambda>s. sh_logical s = lm \<and> sh_status s = ShOpen) rows)" using Cons by simp
  then show ?case using Cons.prems [of r] by auto
qed simp

lemma bet_keeps:
  assumes inv: "shards_inv db" and al: "allocateForRegister db lm stake = UseShard sh"
    and on: "onBettorRegistered (record_bet db (sh_id sh) stake) (sh_id sh) outpoint leaf now = Inr (db', r)"
  shows "shards_inv db'"
proof -
  note use = allocate_Use [OF al]
  let ?db = "record_bet db (sh_id sh) stake"
  obtain s where s: "find (\<lambda>s. sh_id s = sh_id sh) (db_shards db) = Some s"
    using on by (auto simp: onBettorRegistered_def split: option.splits)
  have "s = sh"
    using s use(1) inv find_key_unique [of sh_id "db_shards db" sh "sh_id sh"] by (simp add: shards_inv_def)
  define p :: "shard_row \<Rightarrow> bool" where "p = (\<lambda>r. sh_id r = sh_id sh)"
  define stakes where "stakes = shardStakes ?db (sh_id sh)"
  define sealing where "sealing = (int (length stakes) \<ge> SHARD_SEAL_COUNT \<or> projectShardSettleMass stakes > SHARD_MASS_CEILING)"
  define f :: "shard_row \<Rightarrow> shard_row" where "f = (\<lambda>r. r\<lparr> sh_bettors := int (length stakes), sh_mass := projectShardSettleMass stakes,
      sh_status := (if sealing then ShSealed else sh_status sh), sh_sealed_at := (if sealing then now else sh_sealed_at sh),
      sh_outpoint := coalesce outpoint (sh_outpoint r), sh_leaf := (case leaf of None \<Rightarrow> sh_leaf r | Some st \<Rightarrow> Leaf st) \<rparr>)"
  have db': "db' = ?db\<lparr> db_shards := update_where p f (db_shards db) \<rparr>"
    using on by (simp add: onBettorRegistered_def s \<open>s = sh\<close> Let_def p_def f_def stakes_def sealing_def)
  have keep: "sh_id (f r) = sh_id r" "sh_logical (f r) = sh_logical r" "sh_index (f r) = sh_index r" for r
    by (simp_all add: f_def)
  have stk: "shardStakes db' k = shardStakes ?db k" for k by (simp add: shardStakes_def db')
  have st: "stakes = shardStakes db (sh_id sh) @ [stake]" by (simp add: stakes_def shardStakes_record)
  have old: "shard_ok db sh" using inv use(1) by (simp add: shards_inv_def)
  have cnt: "int (length stakes) \<le> SHARD_SEAL_COUNT"
    using old use(4) by (auto simp: shard_ok_def st leaf_count_def split: leaf_json.splits)
  have mass: "projectShardSettleMass stakes \<le> SHARD_MASS_CEILING" using use(5) by (simp add: st)
  show ?thesis
    unfolding shards_inv_def
  proof (intro conjI ballI allI)
    show "distinct (map sh_id (db_shards db'))"
      using inv by (simp add: db' map_update_where keep shards_inv_def)
    show "distinct (map (\<lambda>s. (sh_logical s, sh_index s)) (db_shards db'))"
      using inv by (simp add: db' map_update_where keep shards_inv_def)
    show "sd_market r \<in> set (map sh_id (db_shards db'))" if "r \<in> set (db_sides db')" for r
    proof -
      have ids: "map sh_id (db_shards db') = map sh_id (db_shards db)" by (simp add: db' map_update_where keep)
      have "r \<in> set (db_sides db) \<or> sd_market r = sh_id sh" using that by (auto simp: db')
      then show ?thesis unfolding ids using inv use(1) by (auto simp: shards_inv_def)
    qed
    show "shard_ok db' t" if t: "t \<in> set (db_shards db')" for t
    proof -
      obtain q where q: "q \<in> set (db_shards db)" "t = (if p q then f q else q)"
        using t by (auto simp: db' set_update_where)
      show ?thesis
      proof (cases "p q")
        case True
        then show ?thesis using q cnt mass by (simp add: shard_ok_def stk p_def f_def flip: stakes_def)
      next
        case False
        then have "shardStakes db' (sh_id t) = shardStakes db (sh_id q)"
          using q(2) by (simp add: stk shardStakes_record p_def)
        then show ?thesis using False q inv by (simp add: shard_ok_def shards_inv_def)
      qed
    qed
    show "length (filter (\<lambda>s. sh_logical s = l \<and> sh_status s = ShOpen) (db_shards db')) \<le> 1" for l
    proof -
      have "r = sh" if "p r" "r \<in> set (db_shards db)" for r
        using that use(1) inv by (auto simp: p_def shards_inv_def distinct_map dest: inj_onD)
      then have "length (filter (\<lambda>s. sh_logical s = l \<and> sh_status s = ShOpen) (update_where p f (db_shards db)))
          \<le> length (filter (\<lambda>s. sh_logical s = l \<and> sh_status s = ShOpen) (db_shards db))"
        using use(2) by (intro open_after_update) (simp add: keep)
      also have "\<dots> \<le> 1" using inv by (simp add: shards_inv_def)
      finally show ?thesis by (simp add: db')
    qed
  qed
qed

lemma maxShardIndex_ge: "-1 \<le> maxShardIndex db lm"
  and maxShardIndex_bound: "s \<in> set (db_shards db) \<Longrightarrow> sh_logical s = lm \<Longrightarrow> int (sh_index s) \<le> maxShardIndex db lm"
proof -
  have *: "a \<le> foldl (\<lambda>m s. max m (int (sh_index s))) a xs \<and> (\<forall>s \<in> set xs. int (sh_index s) \<le> foldl (\<lambda>m s. max m (int (sh_index s))) a xs)" for a xs
  proof (induction xs arbitrary: a)
    case (Cons x xs)
    from Cons [of "max a (int (sh_index x))"] show ?case by auto
  qed simp
  show "-1 \<le> maxShardIndex db lm" unfolding maxShardIndex_def by (rule * [THEN conjunct1])
  show "int (sh_index s) \<le> maxShardIndex db lm" if "s \<in> set (db_shards db)" "sh_logical s = lm"
    unfolding maxShardIndex_def using that by (intro * [THEN conjunct2, rule_format]) simp
qed

lemma seal_facts:
  shows "map sh_id (db_shards (sealShard db p now)) = map sh_id (db_shards db)"
    "map (\<lambda>s. (sh_logical s, sh_index s)) (db_shards (sealShard db p now)) = map (\<lambda>s. (sh_logical s, sh_index s)) (db_shards db)"
    "db_sides (sealShard db p now) = db_sides db"
    "shardStakes (sealShard db p now) k = shardStakes db k"
    "t \<in> set (db_shards (sealShard db p now)) \<Longrightarrow> \<exists>q \<in> set (db_shards db). sh_id t = sh_id q \<and> sh_bettors t = sh_bettors q"
  by (auto simp: sealShard_def map_update_where shardStakes_def set_update_where)

lemma seal_keeps: "shards_inv db \<Longrightarrow> shards_inv (sealShard db p now)"
  unfolding shards_inv_def
proof (elim conjE, intro conjI ballI allI)
  assume inv: "distinct (map sh_id (db_shards db))" "distinct (map (\<lambda>s. (sh_logical s, sh_index s)) (db_shards db))"
    "\<forall>s \<in> set (db_shards db). shard_ok db s" "\<forall>r \<in> set (db_sides db). sd_market r \<in> set (map sh_id (db_shards db))"
    "\<forall>lm. length (filter (\<lambda>s. sh_logical s = lm \<and> sh_status s = ShOpen) (db_shards db)) \<le> 1"
  show "distinct (map sh_id (db_shards (sealShard db p now)))"
    "distinct (map (\<lambda>s. (sh_logical s, sh_index s)) (db_shards (sealShard db p now)))"
    using inv(1,2) by (simp_all only: seal_facts)
  show "sd_market r \<in> set (map sh_id (db_shards (sealShard db p now)))" if "r \<in> set (db_sides (sealShard db p now))" for r
    using that inv(4) unfolding seal_facts by blast
  show "shard_ok (sealShard db p now) t" if t: "t \<in> set (db_shards (sealShard db p now))" for t
    using seal_facts(5) [OF t] inv(3) by (auto simp: shard_ok_def seal_facts(4))
  show "length (filter (\<lambda>s. sh_logical s = lm \<and> sh_status s = ShOpen) (db_shards (sealShard db p now))) \<le> 1" for lm
  proof -
    have "length (filter (\<lambda>s. sh_logical s = lm \<and> sh_status s = ShOpen) (db_shards (sealShard db p now)))
        \<le> length (filter (\<lambda>s. sh_logical s = lm \<and> sh_status s = ShOpen) (db_shards db))"
      using open_after_update [of "db_shards db" "\<lambda>s. sh_id s = p \<and> sh_status s = ShOpen" "\<lambda>s. s\<lparr> sh_status := ShSealed, sh_sealed_at := now \<rparr>" lm]
      unfolding sealShard_def by simp
    then show ?thesis using inv(5) order_trans by blast
  qed
qed

lemma seal_closes:
  assumes "shards_inv db" "findOpenShard db lm = Some sh"
  shows "filter (\<lambda>s. sh_logical s = lm \<and> sh_status s = ShOpen) (db_shards (sealShard db (sh_id sh) now)) = []"
proof -
  let ?P = "\<lambda>s. sh_logical s = lm \<and> sh_status s = ShOpen"
  note f = findOpenShard_Some [OF assms(2)]
  have "length (filter ?P (db_shards db)) \<le> 1" using assms(1) by (simp add: shards_inv_def)
  moreover have "sh \<in> set (filter ?P (db_shards db))" using f by simp
  ultimately have one: "filter ?P (db_shards db) = [sh]" by (cases "filter ?P (db_shards db)") auto
  have "\<not> ?P t" if t: "t \<in> set (db_shards (sealShard db (sh_id sh) now))" for t
  proof
    assume P: "?P t"
    obtain q where q: "q \<in> set (db_shards db)"
      "t = (if sh_id q = sh_id sh \<and> sh_status q = ShOpen then q\<lparr> sh_status := ShSealed, sh_sealed_at := now \<rparr> else q)"
      using t by (auto simp: sealShard_def set_update_where)
    have no: "\<not> (sh_id q = sh_id sh \<and> sh_status q = ShOpen)"
    proof
      assume c: "sh_id q = sh_id sh \<and> sh_status q = ShOpen"
      have "sh_status t = ShSealed" unfolding q(2) if_P [OF c] by simp
      then show False using P by simp
    qed
    have "t = q" using q(2) unfolding if_not_P [OF no] .
    then have "q \<in> set (filter ?P (db_shards db))" using P q(1) by simp
    then have "q = sh" by (simp add: one)
    then show False using no f(3) by simp
  qed
  then show ?thesis by (auto simp: filter_empty_conv)
qed

lemma register_keeps:
  assumes inv: "shards_inv db" and none: "filter (\<lambda>s. sh_logical s = lm \<and> sh_status s = ShOpen) (db_shards db) = []"
    and reg: "registerShard db lm idx sid p2sh outpoint leaf redeem now = Inr db'"
  shows "shards_inv db'"
proof -
  let ?new = "\<lparr> sh_logical = lm, sh_index = idx, sh_id = sid, sh_p2sh = p2sh, sh_outpoint = outpoint,
      sh_leaf = (case leaf of None \<Rightarrow> NoLeaf | Some st \<Rightarrow> Leaf st), sh_redeem = redeem, sh_status = ShOpen,
      sh_bettors = 0, sh_mass = 0, sh_created_at = now, sh_sealed_at = None \<rparr>"
  have db': "db' = db\<lparr> db_shards := db_shards db @ [?new] \<rparr>"
    and fresh: "\<forall>s \<in> set (db_shards db). \<not> (sh_logical s = lm \<and> sh_index s = idx \<or> sh_id s = sid)"
    using reg by (auto simp: registerShard_def list_ex_iff split: if_splits)
  have "sid \<notin> set (map sh_id (db_shards db))" using fresh by auto
  then have "\<forall>r \<in> set (db_sides db). sd_market r \<noteq> sid" using inv by (auto simp: shards_inv_def simp del: set_map)
  then have "shardStakes db' sid = []" by (auto simp: shardStakes_def db' filter_empty_conv)
  then have new: "shard_ok db' ?new"
    by (simp add: shard_ok_def projectShardSettleMass_def SHARD_SEAL_COUNT_def SHARD_MASS_CEILING_def)
  have old: "shard_ok db' s = shard_ok db s" for s by (simp add: shard_ok_def shardStakes_def db')
  have "\<forall>s \<in> set (db_shards db'). shard_ok db' s" using inv new old by (auto simp: db' shards_inv_def)
  moreover have "distinct (map sh_id (db_shards db'))" using inv fresh by (auto simp: db' shards_inv_def)
  moreover have "distinct (map (\<lambda>s. (sh_logical s, sh_index s)) (db_shards db'))" using inv fresh by (auto simp: db' shards_inv_def)
  moreover have "\<forall>r \<in> set (db_sides db'). sd_market r \<in> set (map sh_id (db_shards db'))" using inv by (auto simp: db' shards_inv_def)
  moreover have "length (filter (\<lambda>s. sh_logical s = l \<and> sh_status s = ShOpen) (db_shards db')) \<le> 1" for l
    using inv none by (cases "l = lm") (simp_all add: db' shards_inv_def)
  ultimately show ?thesis by (simp add: shards_inv_def)
qed

lemma register_step_inv: "register_step db db' \<Longrightarrow> shards_inv db \<Longrightarrow> shards_inv db'"
proof (elim register_stepE)
  fix lm stake sh outpoint leaf now r
  assume "shards_inv db" "allocateForRegister db lm stake = UseShard sh"
    "onBettorRegistered (record_bet db (sh_id sh) stake) (sh_id sh) outpoint leaf now = Inr (db', r)"
  then show "shards_inv db'" by (rule bet_keeps)
next
  fix lm stake idx prev now sid p2sh outpoint leaf redeem
  assume inv: "shards_inv db" and al: "allocateForRegister db lm stake = OpenNew idx prev"
    and reg: "registerShard (case prev of Some p \<Rightarrow> sealShard db p now | None \<Rightarrow> db) lm (nat idx) sid p2sh outpoint leaf redeem now = Inr db'"
  show "shards_inv db'"
  proof (cases "findOpenShard db lm")
    case None
    then have "prev = None" using al by (simp add: allocateForRegister_def)
    then show ?thesis using register_keeps [OF inv findOpenShard_None [OF None]] reg by simp
  next
    case (Some sh)
    then have "prev = Some (sh_id sh)" using al by (simp add: allocateForRegister_def split: if_splits)
    then show ?thesis using register_keeps [OF seal_keeps [OF inv] seal_closes [OF inv Some]] reg by simp
  qed
qed

text \<open>Opening never violates the unique index on the pair of market and index: only a concurrent opener can.\<close>

lemma open_index_fresh:
  assumes "allocateForRegister db lm stake = OpenNew idx prev" "s \<in> set (db_shards db)" "sh_logical s = lm"
  shows "sh_index s < nat idx"
  using maxShardIndex_bound [OF assms(2,3)] maxShardIndex_ge [of db lm] assms(1)
  by (auto simp: allocateForRegister_def split: option.splits if_splits)

subsection \<open>Sealing is one-way\<close>

definition status_in :: "shard_db \<Rightarrow> string \<Rightarrow> shard_status option" where
  "status_in db sid = map_option sh_status (find (\<lambda>s. sh_id s = sid) (db_shards db))"

fun seal_edge :: "shard_status \<Rightarrow> shard_status \<Rightarrow> bool" where
  "seal_edge ShOpen ShSealed = True"
| "seal_edge _ _ = False"

lemma seal_edge_iff: "seal_edge a b \<longleftrightarrow> a = ShOpen \<and> b = ShSealed"
  by (cases a; cases b) auto

lemma status_sealShard: "status_in (sealShard db p now) i = map_option (\<lambda>s. if i = p \<and> s = ShOpen then ShSealed else s) (status_in db i)"
  using find_key_Some [of sh_id i "db_shards db"]
  by (cases "find (\<lambda>s. sh_id s = i) (db_shards db)") (auto simp: status_in_def sealShard_def find_update_where)

lemma status_registerShard: "registerShard db lm idx sid p2sh outpoint leaf redeem now = Inr db' \<Longrightarrow>
    status_in db i = Some s \<Longrightarrow> status_in db' i = Some s"
  by (auto simp: registerShard_def status_in_def find_append split: if_splits)

lemma status_onBettor: "onBettorRegistered db sid outpoint leaf now = Inr (db', r) \<Longrightarrow> status_in db i = Some s \<Longrightarrow>
    status_in db' i = Some (if i = sid \<and> bt_sealed r then ShSealed else s)"
  using find_key_Some [of sh_id i "db_shards db"]
  by (auto simp: onBettorRegistered_def status_in_def find_update_where Let_def split: option.splits)

lemma bet_status_open:
  assumes "shards_inv db" "allocateForRegister db lm stake = UseShard sh" "find (\<lambda>s. sh_id s = sh_id sh) (db_shards db) = Some q"
  shows "sh_status q = ShOpen"
proof -
  have "q = sh" using assms find_key_unique [of sh_id "db_shards db" sh "sh_id sh"] allocate_Use(1) [OF assms(2)]
    by (simp add: shards_inv_def)
  then show ?thesis using allocate_Use(2) [OF assms(2)] by simp
qed

lemma register_step_edge:
  assumes inv: "shards_inv db" and "register_step db db'" "status_in db i = Some s"
  shows "\<exists>s'. status_in db' i = Some s' \<and> seal_edge\<^sup>*\<^sup>* s s'"
  using assms(2)
proof (cases rule: register_step.cases)
  case (bet lm stake sh outpoint leaf now r)
  have same: "status_in (record_bet db (sh_id sh) stake) i = Some s" using assms(3) by (simp add: status_in_def)
  note on = status_onBettor [OF bet(2) same]
  show ?thesis
  proof (cases "i = sh_id sh \<and> bt_sealed r")
    case True
    obtain q where q: "find (\<lambda>s. sh_id s = i) (db_shards db) = Some q" "sh_status q = s"
      using assms(3) by (auto simp: status_in_def)
    then have "seal_edge s ShSealed" using bet_status_open [OF inv bet(1), of q] True by (simp add: seal_edge_iff)
    then show ?thesis using on True by auto
  qed (use on in auto)
next
  case (open_new lm stake idx prev now sid p2sh outpoint leaf redeem)
  show ?thesis
  proof (cases prev)
    case None
    then show ?thesis using status_registerShard open_new(2) assms(3) by fastforce
  next
    case (Some p)
    have "status_in (sealShard db p now) i = Some (if i = p \<and> s = ShOpen then ShSealed else s)"
      using assms(3) by (simp add: status_sealShard)
    then have "status_in db' i = Some (if i = p \<and> s = ShOpen then ShSealed else s)"
      using status_registerShard [of "sealShard db p now"] open_new(2) Some by simp
    then show ?thesis by (auto simp: seal_edge_iff)
  qed
qed

definition shard_step :: "shard_db \<Rightarrow> shard_db \<Rightarrow> bool" where
  "shard_step db db' \<longleftrightarrow> shards_inv db \<and> register_step db db'"

interpretation shardm: status_machine status_in shard_step seal_edge
  by unfold_locales (auto simp: shard_step_def intro: register_step_edge)

lemma register_steps_inv: "register_step\<^sup>*\<^sup>* db db' \<Longrightarrow> shards_inv db \<Longrightarrow> shards_inv db' \<and> shard_step\<^sup>*\<^sup>* db db'"
proof (induction rule: rtranclp_induct)
  case (step y z)
  then have "shard_step y z" "shards_inv z" using register_step_inv by (auto simp: shard_step_def)
  then show ?case using step rtranclp.rtrancl_into_rtrancl [of shard_step db y z] by blast
qed simp

abbreviation empty_shards :: shard_db where "empty_shards \<equiv> \<lparr> db_shards = [], db_sides = [] \<rparr>"

lemma empty_shards_inv: "shards_inv empty_shards"
  by (simp add: shards_inv_def)

subsection \<open>The mass of stakes above the policy floor\<close>

lemma projectShardSettleMass_eq: "projectShardSettleMass xs = (\<Sum>s\<leftarrow>xs. estimateStorageMass s)"
proof -
  have "foldl (\<lambda>mass s. mass + estimateStorageMass s) a xs = a + (\<Sum>s\<leftarrow>xs. estimateStorageMass s)" for a
    by (induction xs arbitrary: a) simp_all
  then show ?thesis by (simp add: projectShardSettleMass_def)
qed

lemma storage_mass_nonneg: "0 \<le> estimateStorageMass v"
  unfolding estimateStorageMass_def ceil_div_def STORAGE_MASS_C_def by (simp add: div_nonpos_pos_le0 pos_imp_zdiv_nonneg_iff)

lemma storage_mass_antimono: "v \<le> w \<Longrightarrow> estimateStorageMass w \<le> estimateStorageMass v"
  unfolding estimateStorageMass_def ceil_div_def STORAGE_MASS_C_def
  by (simp add: zdiv_mono2_neg)

lemma mass_of_policy_stakes:
  assumes "\<forall>s \<in> set xs. 100000000 \<le> s"
  shows "projectShardSettleMass xs \<le> 10000 * int (length xs)"
proof -
  have "estimateStorageMass s \<le> 10000" if "100000000 \<le> s" for s
    using storage_mass_antimono [OF that] by (simp add: estimateStorageMass_def ceil_div_def STORAGE_MASS_C_def)
  then have "(\<Sum>s\<leftarrow>xs. estimateStorageMass s) \<le> (\<Sum>s\<leftarrow>xs. 10000)" using assms by (intro sum_list_mono) simp
  then show ?thesis by (simp add: projectShardSettleMass_eq sum_list_triv)
qed

lemma mass_of_small_stake:
  assumes "stake \<le> 2631578"
  shows "SHARD_MASS_CEILING < projectShardSettleMass (xs @ [stake])"
proof -
  have "estimateStorageMass 2631578 \<le> estimateStorageMass stake" by (rule storage_mass_antimono [OF assms])
  then have "380000 < estimateStorageMass stake" by (simp add: estimateStorageMass_def ceil_div_def STORAGE_MASS_C_def)
  moreover have "0 \<le> (\<Sum>s\<leftarrow>xs. estimateStorageMass s)" by (induction xs) (simp_all add: storage_mass_nonneg)
  ultimately show ?thesis by (simp add: projectShardSettleMass_eq SHARD_MASS_CEILING_def)
qed

subsection \<open>Properties\<close>

text \<open>C9: whatever bets and openings happen, no shard has more than 32 bets or more storage mass than
  the ceiling, ids and market indices stay unique and a market never has two open shards.\<close>

theorem shard_caps_hold:
  assumes "register_step\<^sup>*\<^sup>* empty_shards db"
  shows "distinct (map sh_id (db_shards db)) \<and> distinct (map (\<lambda>s. (sh_logical s, sh_index s)) (db_shards db))
    \<and> list_all (\<lambda>s. int (length (shardStakes db (sh_id s))) \<le> SHARD_SEAL_COUNT
        \<and> projectShardSettleMass (shardStakes db (sh_id s)) \<le> SHARD_MASS_CEILING) (db_shards db)
    \<and> length (filter (\<lambda>s. sh_logical s = lm \<and> sh_status s = ShOpen) (db_shards db)) \<le> 1"
  using conjunct1 [OF register_steps_inv [OF assms empty_shards_inv]]
  by (auto simp: shards_inv_def shard_ok_def list_all_iff)

abbreviation ex_shard :: shard_row where
  "ex_shard \<equiv> \<lparr> sh_logical = ''m'', sh_index = 0, sh_id = ''m-0'', sh_p2sh = ''p'', sh_outpoint = None, sh_leaf = NoLeaf,
     sh_redeem = None, sh_status = ShOpen, sh_bettors = 0, sh_mass = 0, sh_created_at = None, sh_sealed_at = None \<rparr>"

abbreviation ex_shards1 :: shard_db where "ex_shards1 \<equiv> \<lparr> db_shards = [ex_shard], db_sides = [] \<rparr>"
abbreviation ex_shards2 :: shard_db where
  "ex_shards2 \<equiv> \<lparr> db_shards = [ex_shard\<lparr> sh_bettors := 1, sh_mass := 10000 \<rparr>],
     db_sides = [\<lparr> sd_market = ''m-0'', sd_stake = 100000000 \<rparr>] \<rparr>"

lemma ex_open_step: "register_step empty_shards ex_shards1"
proof (rule register_step.open_new)
  show "allocateForRegister empty_shards ''m'' 100000000 = OpenNew 0 None"
    by (simp add: allocateForRegister_def findOpenShard_def maxShardIndex_def)
  show "registerShard (case None of Some p \<Rightarrow> sealShard empty_shards p None | None \<Rightarrow> empty_shards) ''m'' (nat 0) ''m-0'' ''p'' None None None None
      = Inr ex_shards1"
    by (simp add: registerShard_def)
qed

lemma ex_find: "findOpenShard ex_shards1 ''m'' = Some ex_shard"
  by (simp add: findOpenShard_def)

lemma ex_bet_step: "register_step ex_shards1 ex_shards2"
proof (rule register_step.bet)
  show "allocateForRegister ex_shards1 ''m'' 100000000 = UseShard ex_shard"
    by (simp add: allocateForRegister_def ex_find shardHasRoom_def leaf_count_def shardStakes_def projectShardSettleMass_eq
        estimateStorageMass_def ceil_div_def STORAGE_MASS_C_def SHARD_SEAL_COUNT_def SHARD_MASS_CEILING_def)
  show "onBettorRegistered (record_bet ex_shards1 (sh_id ex_shard) 100000000) (sh_id ex_shard) None None None
      = Inr (ex_shards2, \<lparr> bt_sealed = False, bt_count = 1, bt_mass = 10000 \<rparr>)"
    by (simp add: onBettorRegistered_def record_bet_def shardStakes_def projectShardSettleMass_eq estimateStorageMass_def
        ceil_div_def STORAGE_MASS_C_def SHARD_SEAL_COUNT_def SHARD_MASS_CEILING_def coalesce_def Let_def)
qed

lemma ex_shards_reachable: "register_step\<^sup>*\<^sup>* empty_shards ex_shards2"
  using ex_open_step ex_bet_step by (meson converse_rtranclp_into_rtranclp rtranclp.rtrancl_refl)

theorem shard_caps_hold_witness:
  "register_step\<^sup>*\<^sup>* empty_shards ex_shards2 \<and> shardStakes ex_shards2 ''m-0'' = [100000000]
     \<and> distinct (map sh_id (db_shards ex_shards2))"
  using shard_caps_hold [OF ex_shards_reachable] ex_shards_reachable by (simp add: shardStakes_def)

text \<open>A sealed shard stays sealed for ever and no later bet is routed to it.\<close>

theorem sealed_shard_final:
  assumes "shards_inv db" "register_step\<^sup>*\<^sup>* db db'" "status_in db sid = Some ShSealed"
  shows "status_in db' sid = Some ShSealed \<and> allocateForRegister db' lm stake \<noteq> UseShard (sh\<lparr> sh_id := sid \<rparr>)"
proof -
  have db': "shards_inv db'" "shard_step\<^sup>*\<^sup>* db db'" using register_steps_inv [OF assms(2,1)] by auto
  have "status_in db' sid = Some ShSealed"
    by (rule shardm.terminal_absorbing [OF db'(2) assms(3)]) (simp add: seal_edge_iff)
  moreover have "allocateForRegister db' lm stake \<noteq> UseShard (sh\<lparr> sh_id := sid \<rparr>)"
  proof
    assume al: "allocateForRegister db' lm stake = UseShard (sh\<lparr> sh_id := sid \<rparr>)"
    obtain q where "find (\<lambda>s. sh_id s = sid) (db_shards db') = Some q" "sh_status q = ShSealed"
      using \<open>status_in db' sid = Some ShSealed\<close> by (auto simp: status_in_def)
    then show False using bet_status_open [OF db'(1) al, of q] by simp
  qed
  ultimately show ?thesis ..
qed

abbreviation ex_sealed :: shard_db where "ex_sealed \<equiv> sealShard ex_shards2 ''m-0'' (Some 7)"

theorem sealed_shard_final_witness:
  "status_in ex_sealed ''m-0'' = Some ShSealed
     \<and> allocateForRegister ex_sealed ''m'' 100000000 \<noteq> UseShard (ex_shard\<lparr> sh_id := ''m-0'' \<rparr>)"
proof (rule sealed_shard_final [OF _ rtranclp.rtrancl_refl])
  show "shards_inv ex_sealed"
    using register_steps_inv [OF ex_shards_reachable empty_shards_inv] by (intro seal_keeps) simp
  show "status_in ex_sealed ''m-0'' = Some ShSealed" by (simp add: status_sealShard) (simp add: status_in_def)
qed

text \<open>With stakes of at least the policy floor of one KAS the count is the only cap that binds, while
  a stake below 2631579 sompi fits into no shard, not even an empty one, and always asks for a new one.\<close>

theorem shard_room:
  "((\<forall>s \<in> set (stake # stakes). 100000000 \<le> s) \<and> int (length stakes) \<le> leaf_count sh
      \<longrightarrow> shardHasRoom sh stakes stake = (leaf_count sh < SHARD_SEAL_COUNT))
   \<and> (small \<le> 2631578 \<longrightarrow> (\<exists>prev. allocateForRegister db lm small = OpenNew (maxShardIndex db lm + 1) prev))"
proof (intro conjI impI)
  assume a: "(\<forall>s \<in> set (stake # stakes). 100000000 \<le> s) \<and> int (length stakes) \<le> leaf_count sh"
  then have "projectShardSettleMass (stakes @ [stake]) \<le> 10000 * int (length (stakes @ [stake]))"
    by (intro mass_of_policy_stakes) auto
  then show "shardHasRoom sh stakes stake = (leaf_count sh < SHARD_SEAL_COUNT)"
    using a by (auto simp: shardHasRoom_def SHARD_SEAL_COUNT_def SHARD_MASS_CEILING_def)
next
  assume "small \<le> 2631578"
  then show "\<exists>prev. allocateForRegister db lm small = OpenNew (maxShardIndex db lm + 1) prev"
    using mass_of_small_stake by (auto simp: allocateForRegister_def shardHasRoom_def split: option.splits)
qed

theorem shard_room_witness:
  "shardHasRoom ex_shard [] 100000000
   \<and> (\<exists>prev. allocateForRegister ex_shards1 ''m'' 100000 = OpenNew (maxShardIndex ex_shards1 ''m'' + 1) prev)"
  using shard_room [of 100000000 "[]" ex_shard 100000 ex_shards1 "''m''"]
  by (simp add: leaf_count_def SHARD_SEAL_COUNT_def)

end
