(* ===== verification/Chain_Event.thy ===== *)
theory Chain_Event
  imports Json Status_Machine
begin

section \<open>The archive of chain events\<close>

text \<open>
  \<open>kasia-console/src/services/chain-event.js\<close>: the table \<open>chain_events\<close>, unique on the transaction
  and the event type, and \<open>reputation_summary\<close>, which every newly archived settlement event updates.
  A payload is nothing, JSON text (kept as its value) or text that does not parse.  Volumes are
  rationals, times milliseconds.
\<close>

subsection \<open>\<open>parseFloat\<close>\<close>

definition space_char :: "char \<Rightarrow> bool" where
  "space_char c = (let n = of_char c :: nat in n = 32 \<or> (9 \<le> n \<and> n \<le> 13))"

definition strip_sign :: "string \<Rightarrow> bool \<times> string" where
  "strip_sign s = (case s of c # r \<Rightarrow> if c = CHR ''-'' then (True, r) else if c = CHR ''+'' then (False, r) else (False, s) | [] \<Rightarrow> (False, []))"

text \<open>The exponent at the front of a text, if there is one.\<close>

definition exponent_of :: "string \<Rightarrow> int" where
  "exponent_of s = (case s of
       c # r \<Rightarrow> if c = CHR ''e'' \<or> c = CHR ''E'' then
           (let (neg, t) = strip_sign r; v = int (str_val 0 (takeWhile digit_char t)) in if neg then - v else v)
         else 0
     | [] \<Rightarrow> 0)"

text \<open>The number at the front of a text; \<open>None\<close> is \<open>NaN\<close>.  The texts of infinities are not covered.\<close>

definition parseFloat :: "string \<Rightarrow> rat option" where
  "parseFloat s =
    (let (neg, r) = strip_sign (dropWhile space_char s); d1 = takeWhile digit_char r; r1 = dropWhile digit_char r;
         d2 = (case r1 of c # t \<Rightarrow> if c = CHR ''.'' then takeWhile digit_char t else [] | [] \<Rightarrow> []);
         r2 = (case r1 of c # t \<Rightarrow> if c = CHR ''.'' then dropWhile digit_char t else r1 | [] \<Rightarrow> []);
         m = of_nat (str_val 0 (d1 @ d2)) / 10 ^ length d2; v = m * 10 powi exponent_of r2
     in if d1 = [] \<and> d2 = [] then None else Some (if neg then - v else v))"

definition upper_char :: "char \<Rightarrow> char" where
  "upper_char c = (let n = of_char c :: nat in if 97 \<le> n \<and> n \<le> 122 then char_of (n - 32) else c)"

text \<open>\<open>a || b\<close> on values that may be undefined.\<close>

definition js_or :: "json option \<Rightarrow> json option \<Rightarrow> json option" where
  "js_or a b = (if js_truthy a then a else b)"

subsection \<open>Tables\<close>

datatype payload = NoPayload | JsonPayload json | TextPayload string

record chain_event =
  ev_id :: string
  ev_txid :: string
  ev_from :: "string option"
  ev_to :: "string option"
  ev_type :: string
  ev_payload :: payload
  ev_observed_by :: string
  ev_observed_at :: nat

record reputation =
  rp_address :: string
  rp_completed :: nat
  rp_disputed :: nat
  rp_timed_out :: nat
  rp_kas :: rat
  rp_usd :: rat
  rp_last_event_at :: nat
  rp_last_updated_at :: nat

record event_db =
  db_events :: "chain_event list"
  db_reputation :: "reputation list"

record event_in =
  in_txid :: string
  in_type :: string
  in_from :: "string option"
  in_to :: "string option"
  in_observed_by :: string
  in_payload :: payload
  in_observed_at :: "nat option"

subsection \<open>Operations\<close>

definition SETTLEMENT_EVENTS :: "string list" where
  "SETTLEMENT_EVENTS = [''exchange_completed'', ''exchange_disputed'', ''exchange_timed_out'']"

definition volumes :: "payload \<Rightarrow> rat \<times> rat" where
  "volumes p =
    (let v = (case p of NoPayload \<Rightarrow> Some (JObj []) | JsonPayload j \<Rightarrow> Some j | TextPayload _ \<Rightarrow> None) in
     case v of None \<Rightarrow> (0, 0)
     | Some j \<Rightarrow>
       (let amt = (case js_or (js_get j ''give_amount'') (js_or (js_get j ''amount'') (Some (JInt 0))) of
               Some x \<Rightarrow> (case parseFloat (js_String x) of Some a \<Rightarrow> a | None \<Rightarrow> 0) | None \<Rightarrow> 0) in
        case js_or (js_get j ''give_asset'') (js_or (js_get j ''asset'') (Some (JStr []))) of
          Some (JStr t) \<Rightarrow>
            (let asset = map upper_char t in
             if asset = ''KAS'' then (amt, 0)
             else if asset \<in> {''USDT'', ''USDC'', ''USD''} then (0, amt) else (0, 0))
        | _ \<Rightarrow> (0, 0)))"

definition bump :: "string \<Rightarrow> rat \<Rightarrow> rat \<Rightarrow> nat \<Rightarrow> reputation \<Rightarrow> reputation" where
  "bump eventType kasVol usdVol ts r =
    (let r' = (if eventType = ''exchange_completed'' then r\<lparr> rp_completed := rp_completed r + 1 \<rparr>
               else if eventType = ''exchange_disputed'' then r\<lparr> rp_disputed := rp_disputed r + 1 \<rparr>
               else r\<lparr> rp_timed_out := rp_timed_out r + 1 \<rparr>)
     in r'\<lparr> rp_kas := rp_kas r + kasVol, rp_usd := rp_usd r + usdVol, rp_last_event_at := ts, rp_last_updated_at := ts \<rparr>)"

definition blank :: "string \<Rightarrow> reputation" where
  "blank a = \<lparr> rp_address = a, rp_completed = 0, rp_disputed = 0, rp_timed_out = 0, rp_kas = 0, rp_usd = 0,
     rp_last_event_at = 0, rp_last_updated_at = 0 \<rparr>"

definition upsert :: "(reputation \<Rightarrow> reputation) \<Rightarrow> string option \<Rightarrow> reputation list \<Rightarrow> reputation list" where
  "upsert f address rows = (case address of
      None \<Rightarrow> rows
    | Some a \<Rightarrow> if a = [] then rows
        else if find (\<lambda>r. rp_address r = a) rows = None then rows @ [f (blank a)]
        else update_where (\<lambda>r. rp_address r = a) f rows)"

definition maybeUpdateReputationSummary :: "string \<Rightarrow> string option \<Rightarrow> string option \<Rightarrow> payload \<Rightarrow> nat \<Rightarrow> reputation list \<Rightarrow> reputation list" where
  "maybeUpdateReputationSummary eventType fromAddress toAddress p ts rows =
    (if eventType \<notin> set SETTLEMENT_EVENTS then rows
     else (let (kasVol, usdVol) = volumes p; f = bump eventType kasVol usdVol ts
           in upsert f toAddress (upsert f fromAddress rows)))"

text \<open>\<open>uuid\<close> and \<open>now\<close> stand for \<open>randomUUID()\<close> and the clock; an empty payload text is none.\<close>

definition recordChainEvent :: "event_db \<Rightarrow> string \<Rightarrow> nat \<Rightarrow> event_in \<Rightarrow> event_db" where
  "recordChainEvent db uuid now e =
    (if in_txid e = [] \<or> in_type e = [] then db
     else if list_ex (\<lambda>x. (ev_txid x = in_txid e \<and> ev_type x = in_type e) \<or> ev_id x = uuid) (db_events db) then db
     else (let p = (if in_payload e = TextPayload [] then NoPayload else in_payload e);
               ts = (case in_observed_at e of Some t \<Rightarrow> t | None \<Rightarrow> now)
       in \<lparr> db_events = db_events db @ [\<lparr> ev_id = uuid, ev_txid = in_txid e, ev_from = in_from e, ev_to = in_to e,
               ev_type = in_type e, ev_payload = p, ev_observed_by = in_observed_by e, ev_observed_at = ts \<rparr>],
            db_reputation = maybeUpdateReputationSummary (in_type e) (in_from e) (in_to e) p ts (db_reputation db) \<rparr>))"

subsection \<open>The summary is a function of the archive\<close>

text \<open>What one event adds to an address: a counted settlement and its volumes, once for each end of the
  event that is the address.\<close>

type_synonym tally = "nat \<times> nat \<times> nat \<times> rat \<times> rat"

fun tally_add :: "tally \<Rightarrow> tally \<Rightarrow> tally" where
  "tally_add (a, b, c, k, u) (a', b', c', k', u') = (a + a', b + b', c + c', k + k', u + u')"

definition event_tally :: "chain_event \<Rightarrow> tally" where
  "event_tally e = (case volumes (ev_payload e) of (k, u) \<Rightarrow>
     if ev_type e = ''exchange_completed'' then (1, 0, 0, k, u)
     else if ev_type e = ''exchange_disputed'' then (0, 1, 0, k, u)
     else if ev_type e = ''exchange_timed_out'' then (0, 0, 1, k, u) else (0, 0, 0, 0, 0))"

definition end_tally :: "string \<Rightarrow> string option \<Rightarrow> chain_event \<Rightarrow> tally" where
  "end_tally a x e = (if x = Some a \<and> a \<noteq> [] then event_tally e else (0, 0, 0, 0, 0))"

fun log_tally :: "string \<Rightarrow> chain_event list \<Rightarrow> tally" where
  "log_tally a [] = (0, 0, 0, 0, 0)"
| "log_tally a (e # es) = tally_add (tally_add (end_tally a (ev_from e) e) (end_tally a (ev_to e) e)) (log_tally a es)"

definition row_tally :: "reputation \<Rightarrow> tally" where
  "row_tally r = (rp_completed r, rp_disputed r, rp_timed_out r, rp_kas r, rp_usd r)"

definition summary :: "string \<Rightarrow> reputation list \<Rightarrow> tally" where
  "summary a rows = (case find (\<lambda>r. rp_address r = a) rows of None \<Rightarrow> (0, 0, 0, 0, 0) | Some r \<Rightarrow> row_tally r)"

lemma tally_zero [simp]: "tally_add (0, 0, 0, 0, 0) t = t" "tally_add t (0, 0, 0, 0, 0) = t"
  by (cases t; simp)+

lemma tally_assoc: "tally_add (tally_add s t) u = tally_add s (tally_add t u)"
  by (cases s; cases t; cases u) simp

lemma tally_commute: "tally_add s t = tally_add t s"
  by (cases s; cases t) simp

lemma log_tally_append: "log_tally a (es @ fs) = tally_add (log_tally a es) (log_tally a fs)"
  by (induction es) (simp_all add: tally_assoc)

lemma bump_address [simp]: "rp_address (bump ty k u ts r) = rp_address r"
  by (simp add: bump_def Let_def)

lemma bump_tally: "ty \<in> set SETTLEMENT_EVENTS \<Longrightarrow> ev_type e = ty \<Longrightarrow> volumes (ev_payload e) = (k, u) \<Longrightarrow>
    row_tally (bump ty k u ts r) = tally_add (row_tally r) (event_tally e)"
  by (auto simp: row_tally_def bump_def Let_def event_tally_def SETTLEMENT_EVENTS_def)

lemma summary_upsert:
  assumes "\<And>r. rp_address (f r) = rp_address r" "\<And>r. row_tally (f r) = tally_add (row_tally r) t"
  shows "summary a (upsert f x rows) = (if x = Some a \<and> a \<noteq> [] then tally_add (summary a rows) t else summary a rows)"
proof (cases "x = None \<or> x = Some []")
  case True
  then show ?thesis by (auto simp: upsert_def)
next
  case False
  then obtain b where b: "x = Some b" "b \<noteq> []" by auto
  have bl: "row_tally (f (blank b)) = t" "rp_address (f (blank b)) = b"
    using assms [of "blank b"] by (simp_all add: blank_def row_tally_def)
  show ?thesis
  proof (cases "find (\<lambda>r. rp_address r = b) rows")
    case None
    then have up: "upsert f x rows = rows @ [f (blank b)]" using b by (simp add: upsert_def)
    show ?thesis
    proof (cases "a = b")
      case True
      then show ?thesis unfolding up using b None bl by (simp add: summary_def find_append)
    next
      case False
      then show ?thesis unfolding up using b bl by (cases "find (\<lambda>r. rp_address r = a) rows") (simp_all add: summary_def find_append)
    qed
  next
    case (Some r)
    have up: "upsert f x rows = update_where (\<lambda>r. rp_address r = b) f rows" using b Some by (simp add: upsert_def)
    have upd: "find (\<lambda>r. rp_address r = a) (update_where (\<lambda>r. rp_address r = b) f rows)
        = map_option (\<lambda>r. if rp_address r = b then f r else r) (find (\<lambda>r. rp_address r = a) rows)"
      by (rule find_update_where) (rule assms(1))
    show ?thesis
    proof (cases "find (\<lambda>r. rp_address r = a) rows")
      case None
      then have "a \<noteq> b" using Some by auto
      then show ?thesis unfolding up using b None by (simp add: summary_def upd)
    next
      case r: (Some r)
      then have "rp_address r = a" using find_key_Some [of rp_address a rows] by blast
      then show ?thesis unfolding up summary_def upd r using b assms(2) [of r] by (cases "a = b") simp_all
    qed
  qed
qed

lemma record_keeps_summary:
  assumes "\<And>a. summary a (db_reputation db) = log_tally a (db_events db)"
  shows "summary a (db_reputation (recordChainEvent db uuid now e)) = log_tally a (db_events (recordChainEvent db uuid now e))"
proof (cases "in_txid e = [] \<or> in_type e = []
    \<or> list_ex (\<lambda>x. (ev_txid x = in_txid e \<and> ev_type x = in_type e) \<or> ev_id x = uuid) (db_events db)")
  case True
  then show ?thesis using assms by (auto simp: recordChainEvent_def)
next
  case False
  define p where "p = (if in_payload e = TextPayload [] then NoPayload else in_payload e)"
  define ts where "ts = (case in_observed_at e of Some t \<Rightarrow> t | None \<Rightarrow> now)"
  define row where "row = \<lparr> ev_id = uuid, ev_txid = in_txid e, ev_from = in_from e, ev_to = in_to e,
      ev_type = in_type e, ev_payload = p, ev_observed_by = in_observed_by e, ev_observed_at = ts \<rparr>"
  have db': "db_events (recordChainEvent db uuid now e) = db_events db @ [row]"
    "db_reputation (recordChainEvent db uuid now e) = maybeUpdateReputationSummary (in_type e) (in_from e) (in_to e) p ts (db_reputation db)"
    using False by (auto simp: recordChainEvent_def Let_def p_def ts_def row_def)
  obtain k u where v: "volumes p = (k, u)" by fastforce
  have "summary a (maybeUpdateReputationSummary (in_type e) (in_from e) (in_to e) p ts (db_reputation db))
      = tally_add (summary a (db_reputation db)) (tally_add (end_tally a (in_from e) row) (end_tally a (in_to e) row))"
  proof (cases "in_type e \<in> set SETTLEMENT_EVENTS")
    case True
    have "row_tally (bump (in_type e) k u ts r) = tally_add (row_tally r) (event_tally row)" for r
      using True v by (intro bump_tally) (simp_all add: row_def)
    then show ?thesis using True v
      by (simp add: maybeUpdateReputationSummary_def Let_def summary_upsert [where t = "event_tally row"] end_tally_def tally_assoc)
  next
    case no: False
    then have "event_tally row = (0, 0, 0, 0, 0)" using v by (auto simp: event_tally_def row_def SETTLEMENT_EVENTS_def)
    then show ?thesis using no by (simp add: maybeUpdateReputationSummary_def end_tally_def)
  qed
  then show ?thesis using assms by (simp add: db' log_tally_append row_def)
qed

definition keys_unique :: "event_db \<Rightarrow> bool" where
  "keys_unique db \<longleftrightarrow> distinct (map (\<lambda>e. (ev_txid e, ev_type e)) (db_events db))"

lemma record_keeps_keys: "keys_unique db \<Longrightarrow> keys_unique (recordChainEvent db uuid now e)"
  by (auto simp: keys_unique_def recordChainEvent_def Let_def list_ex_iff)

text \<open>Any sequence of calls.\<close>

definition record_all :: "event_db \<Rightarrow> (string \<times> nat \<times> event_in) list \<Rightarrow> event_db" where
  "record_all db cs = fold (\<lambda>(u, t, e) d. recordChainEvent d u t e) cs db"

abbreviation no_events :: event_db where "no_events \<equiv> \<lparr> db_events = [], db_reputation = [] \<rparr>"

lemma record_all_inv:
  "keys_unique db \<and> (\<forall>a. summary a (db_reputation db) = log_tally a (db_events db)) \<Longrightarrow>
    keys_unique (record_all db cs) \<and> (\<forall>a. summary a (db_reputation (record_all db cs)) = log_tally a (db_events (record_all db cs)))"
proof (induction cs arbitrary: db)
  case (Cons c cs)
  obtain u t e where c: "c = (u, t, e)" by (cases c)
  have "keys_unique (recordChainEvent db u t e)
      \<and> (\<forall>a. summary a (db_reputation (recordChainEvent db u t e)) = log_tally a (db_events (recordChainEvent db u t e)))"
    using record_keeps_keys record_keeps_summary Cons.prems by blast
  then show ?case using Cons.IH [of "recordChainEvent db u t e"] by (simp add: record_all_def c)
qed (simp add: record_all_def)

subsection \<open>Properties\<close>

text \<open>After any calls in any order the archive has one row per transaction and event type, and the
  reputation of every address is exactly the tally of the archived settlement events it took part in.\<close>

theorem reputation_is_log_tally:
  "distinct (map (\<lambda>e. (ev_txid e, ev_type e)) (db_events (record_all no_events cs)))
   \<and> summary a (db_reputation (record_all no_events cs)) = log_tally a (db_events (record_all no_events cs))"
  using record_all_inv [of no_events cs] by (auto simp: keys_unique_def summary_def)

text \<open>Recording is idempotent: a second observation of the same transaction and event type, by
  whoever and whenever, changes neither table.\<close>

theorem recordChainEvent_idempotent:
  assumes "in_txid e' = in_txid e" "in_type e' = in_type e" "u \<notin> set (map ev_id (db_events db))"
  shows "recordChainEvent (recordChainEvent db u t e) u' t' e' = recordChainEvent db u t e"
proof (cases "in_txid e = [] \<or> in_type e = []")
  case True
  then show ?thesis using assms by (simp add: recordChainEvent_def)
next
  case False
  then have "list_ex (\<lambda>x. ev_txid x = in_txid e \<and> ev_type x = in_type e) (db_events (recordChainEvent db u t e))"
    using assms(3) by (auto simp: recordChainEvent_def Let_def list_ex_iff)
  then have "list_ex (\<lambda>x. (ev_txid x = in_txid e' \<and> ev_type x = in_type e') \<or> ev_id x = u') (db_events (recordChainEvent db u t e))"
    using assms(1,2) by (auto simp: list_ex_iff)
  then show ?thesis by (simp add: recordChainEvent_def [of "recordChainEvent db u t e"])
qed

abbreviation ex_event :: event_in where
  "ex_event \<equiv> \<lparr> in_txid = ''t'', in_type = ''exchange_completed'', in_from = Some ''a'', in_to = Some ''b'',
     in_observed_by = ''scout'', in_payload = JsonPayload (JObj [(''give_amount'', JInt 5), (''give_asset'', JStr ''kas'')]),
     in_observed_at = None \<rparr>"

theorem recordChainEvent_idempotent_witness:
  "recordChainEvent (recordChainEvent no_events ''u1'' 3 ex_event) ''u2'' 4 (ex_event\<lparr> in_observed_by := ''relay'' \<rparr>)
     = recordChainEvent no_events ''u1'' 3 ex_event
   \<and> db_events (recordChainEvent no_events ''u1'' 3 ex_event) \<noteq> []"
proof
  show "recordChainEvent (recordChainEvent no_events ''u1'' 3 ex_event) ''u2'' 4 (ex_event\<lparr> in_observed_by := ''relay'' \<rparr>)
     = recordChainEvent no_events ''u1'' 3 ex_event"
    by (rule recordChainEvent_idempotent) simp_all
  show "db_events (recordChainEvent no_events ''u1'' 3 ex_event) \<noteq> []" by (simp add: recordChainEvent_def Let_def)
qed

end
