(* ===== verification/Fund_Lock.thy ===== *)
theory Fund_Lock
  imports Status_Machine
begin

section \<open>Fund locks\<close>

text \<open>
  \<open>kasia-console/src/services/fund-lock.js\<close> over the table \<open>fund_locks\<close>, a list of rows in
  insertion order.  Amounts are rationals (the columns are doubles, whose rounding is not modelled),
  times are milliseconds since the epoch, which order like the ISO texts the code stores.  The id and
  the time of a new row are arguments (\<open>randomUUID()\<close> and the clock).
\<close>

datatype lock_status = Locked | Released | Spent

record lock_row =
  lk_id :: string
  lk_agent :: string
  lk_order :: string
  lk_asset :: string
  lk_amount :: rat
  lk_status :: lock_status
  lk_created_at :: nat
  lk_released_at :: "nat option"

text \<open>\<open>LockFailed\<close> stands for the exception of the primary key, which a fresh id excludes.\<close>

datatype lock_result = LockInvalid | LockAlready string | LockClosed lock_status
  | LockInsufficient rat rat rat | LockOk string | LockFailed

definition getLockedTotal :: "lock_row list \<Rightarrow> string \<Rightarrow> string \<Rightarrow> rat" where
  "getLockedTotal locks agentAddress asset =
    (\<Sum>l\<leftarrow>filter (\<lambda>l. lk_agent l = agentAddress \<and> lk_asset l = asset \<and> lk_status l = Locked) locks. lk_amount l)"

definition lockFunds :: "lock_row list \<Rightarrow> string \<Rightarrow> nat \<Rightarrow> string \<Rightarrow> string \<Rightarrow> string \<Rightarrow> rat \<Rightarrow> rat
    \<Rightarrow> lock_row list \<times> lock_result" where
  "lockFunds locks uuid now agentAddress orderId asset amount currentBalance =
    (if agentAddress = [] \<or> orderId = [] \<or> asset = [] \<or> amount \<le> 0 then (locks, LockInvalid)
     else case find (\<lambda>l. lk_order l = orderId \<and> lk_asset l = asset) locks of
       Some l \<Rightarrow> if lk_status l = Locked then (locks, LockAlready (lk_id l)) else (locks, LockClosed (lk_status l))
     | None \<Rightarrow>
       (let lockedTotal = getLockedTotal locks agentAddress asset; available = currentBalance - lockedTotal in
        if available < amount then (locks, LockInsufficient (max 0 available) amount lockedTotal)
        else if uuid \<in> set (map lk_id locks) then (locks, LockFailed)
        else (locks @ [\<lparr> lk_id = uuid, lk_agent = agentAddress, lk_order = orderId, lk_asset = asset,
                lk_amount = amount, lk_status = Locked, lk_created_at = now, lk_released_at = None \<rparr>], LockOk uuid)))"

definition of_order :: "string \<Rightarrow> lock_row \<Rightarrow> bool" where
  "of_order orderId l \<longleftrightarrow> lk_order l = orderId \<and> lk_status l = Locked"

definition releaseFunds :: "lock_row list \<Rightarrow> nat \<Rightarrow> string \<Rightarrow> lock_row list \<times> nat" where
  "releaseFunds locks now orderId =
    (update_where (of_order orderId) (\<lambda>l. l\<lparr> lk_status := Released, lk_released_at := Some now \<rparr>) locks,
     count_where (of_order orderId) locks)"

definition spendFunds :: "lock_row list \<Rightarrow> nat \<Rightarrow> string \<Rightarrow> lock_row list \<times> nat" where
  "spendFunds locks now orderId =
    (update_where (of_order orderId) (\<lambda>l. l\<lparr> lk_status := Spent, lk_released_at := Some now \<rparr>) locks,
     count_where (of_order orderId) locks)"

record balance =
  bal_available :: rat
  bal_locked :: rat
  bal_balance :: rat

definition getAvailableBalance :: "lock_row list \<Rightarrow> string \<Rightarrow> string \<Rightarrow> rat \<Rightarrow> balance" where
  "getAvailableBalance locks agentAddress asset currentBalance =
    (let locked = getLockedTotal locks agentAddress asset in
     \<lparr> bal_available = max 0 (currentBalance - locked), bal_locked = locked, bal_balance = currentBalance \<rparr>)"

definition getOrderLocks :: "lock_row list \<Rightarrow> string \<Rightarrow> lock_row list" where
  "getOrderLocks locks orderId = filter (\<lambda>l. lk_order l = orderId) locks"

definition getActiveLocks :: "lock_row list \<Rightarrow> string \<Rightarrow> lock_row list" where
  "getActiveLocks locks agentAddress =
    rev (sort_key lk_created_at (filter (\<lambda>l. lk_agent l = agentAddress \<and> lk_status l = Locked) (rev locks)))"

subsection \<open>The ledger interface\<close>

text \<open>What the order machine relies on: closing an order leaves it no active lock, touches no other
  order's, and never re-activates one.\<close>

locale fund_ledger =
  fixes active :: "'l \<Rightarrow> string \<Rightarrow> 'k set" and close :: "'l \<Rightarrow> string \<Rightarrow> 'l"
  assumes active_close: "active (close l i) j = (if i = j then {} else active l j)"
begin

fun close_all :: "'l \<Rightarrow> string list \<Rightarrow> 'l" where
  "close_all l [] = l"
| "close_all l (i # is) = close_all (close l i) is"

lemma active_close_all: "active (close_all l is) j = (if j \<in> set is then {} else active l j)"
  by (induction l "is" rule: close_all.induct) (auto simp: active_close)

lemma close_twice: "active (close (close l i) i) j = active (close l i) j"
  by (simp add: active_close)

lemma close_commute: "active (close (close l i) j) k = active (close (close l j) i) k"
  by (simp add: active_close)

end

definition active_assets :: "lock_row list \<Rightarrow> string \<Rightarrow> (string \<times> rat) set" where
  "active_assets locks orderId = (\<lambda>l. (lk_asset l, lk_amount l)) ` set (filter (of_order orderId) locks)"

lemma filter_close:
  assumes "\<And>l. lk_order (f l) = lk_order l \<and> lk_status (f l) \<noteq> Locked"
  shows "filter (of_order j) (update_where (of_order i) f locks) = (if i = j then [] else filter (of_order j) locks)"
proof (induction locks)
  case (Cons l locks)
  have "of_order j (if of_order i l then f l else l) = (i \<noteq> j \<and> of_order j l)" "of_order j l \<Longrightarrow> i \<noteq> j \<Longrightarrow> \<not> of_order i l"
    using assms [of l] by (auto simp: of_order_def)
  then show ?case using Cons by (cases "i = j") auto
qed simp

lemma active_assets_close:
  "(\<And>l. lk_order (f l) = lk_order l \<and> lk_status (f l) \<noteq> Locked) \<Longrightarrow>
    active_assets (update_where (of_order i) f locks) j = (if i = j then {} else active_assets locks j)"
  by (simp add: active_assets_def filter_close)

interpretation released: fund_ledger active_assets "\<lambda>l i. fst (releaseFunds l now i)" for now
  by unfold_locales (simp add: releaseFunds_def active_assets_close)

interpretation spent: fund_ledger active_assets "\<lambda>l i. fst (spendFunds l now i)" for now
  by unfold_locales (simp add: spendFunds_def active_assets_close)

subsection \<open>Well-formed lock tables\<close>

text \<open>Ids are unique, so is the pair of order and asset, and amounts are positive.\<close>

definition locks_inv :: "lock_row list \<Rightarrow> bool" where
  "locks_inv locks \<longleftrightarrow> distinct (map lk_id locks) \<and> distinct (map (\<lambda>l. (lk_order l, lk_asset l)) locks)
     \<and> list_all (\<lambda>l. 0 < lk_amount l) locks"

lemma lockFunds_cases:
  assumes "lockFunds locks uuid now ag oid asset amt bal = (locks', r)"
  shows "(locks' = locks \<and> r \<noteq> LockOk uuid) \<or>
    (r = LockOk uuid \<and> locks' = locks @ [\<lparr> lk_id = uuid, lk_agent = ag, lk_order = oid, lk_asset = asset,
        lk_amount = amt, lk_status = Locked, lk_created_at = now, lk_released_at = None \<rparr>]
      \<and> 0 < amt \<and> uuid \<notin> set (map lk_id locks) \<and> find (\<lambda>l. lk_order l = oid \<and> lk_asset l = asset) locks = None
      \<and> getLockedTotal locks ag asset + amt \<le> bal)"
  using assms by (auto simp: lockFunds_def Let_def split: if_splits option.splits)

lemma lockFunds_inv: "locks_inv locks \<Longrightarrow> locks_inv (fst (lockFunds locks uuid now ag oid asset amt bal))"
  using lockFunds_cases [of locks uuid now ag oid asset amt bal]
  by (cases "lockFunds locks uuid now ag oid asset amt bal") (auto simp: locks_inv_def find_None_iff)

lemma close_inv:
  assumes "\<And>l. lk_id (f l) = lk_id l \<and> lk_order (f l) = lk_order l \<and> lk_asset (f l) = lk_asset l \<and> lk_amount (f l) = lk_amount l"
    and "locks_inv locks"
  shows "locks_inv (update_where p f locks)"
  using assms by (simp add: locks_inv_def map_update_where list_all_iff) (auto simp: update_where_def)

lemma total_append: "getLockedTotal (locks @ [l]) ag asset =
    getLockedTotal locks ag asset + (if lk_agent l = ag \<and> lk_asset l = asset \<and> lk_status l = Locked then lk_amount l else 0)"
  by (simp add: getLockedTotal_def)

lemma total_close:
  assumes "\<And>l. lk_status (f l) \<noteq> Locked" "list_all (\<lambda>l. 0 < lk_amount l) locks"
  shows "getLockedTotal (update_where p f locks) ag asset \<le> getLockedTotal locks ag asset"
  using assms(2)
proof (induction locks)
  case (Cons l locks)
  then show ?case using assms(1) [of l] by (auto simp: getLockedTotal_def)
qed (simp add: getLockedTotal_def)

subsection \<open>Refinement of a ledger of reservations\<close>

text \<open>The specification: a map from order and asset to who reserved how much and in which state.\<close>

type_synonym ledger = "string \<times> string \<Rightarrow> (string \<times> rat \<times> lock_status) option"

definition ledger_of :: "lock_row list \<Rightarrow> ledger" where
  "ledger_of locks = (\<lambda>k. map_option (\<lambda>l. (lk_agent l, lk_amount l, lk_status l)) (find (\<lambda>l. (lk_order l, lk_asset l) = k) locks))"

definition reserve :: "ledger \<Rightarrow> string \<times> string \<Rightarrow> string \<Rightarrow> rat \<Rightarrow> ledger" where
  "reserve L k agent amount = L(k \<mapsto> (agent, amount, Locked))"

definition settle :: "lock_status \<Rightarrow> ledger \<Rightarrow> string \<Rightarrow> ledger" where
  "settle st L orderId = (\<lambda>k. map_option (\<lambda>(ag, am, s). (ag, am, if fst k = orderId \<and> s = Locked then st else s)) (L k))"

lemma ledger_append: "find (\<lambda>l. (lk_order l, lk_asset l) = (lk_order r, lk_asset r)) locks = None \<Longrightarrow>
    ledger_of (locks @ [r]) = reserve (ledger_of locks) (lk_order r, lk_asset r) (lk_agent r) (lk_amount r)" if "lk_status r = Locked"
  using that by (auto simp: ledger_of_def reserve_def find_append fun_eq_iff split: option.splits)

lemma ledger_close:
  assumes "\<And>l. lk_order (f l) = lk_order l \<and> lk_asset (f l) = lk_asset l \<and> lk_agent (f l) = lk_agent l
      \<and> lk_amount (f l) = lk_amount l \<and> lk_status (f l) = st"
  shows "ledger_of (update_where (of_order i) f locks) = settle st (ledger_of locks) i"
proof
  fix k
  have "find (\<lambda>l. (lk_order l, lk_asset l) = k) (update_where (of_order i) f locks)
      = map_option (\<lambda>r. if of_order i r then f r else r) (find (\<lambda>l. (lk_order l, lk_asset l) = k) locks)"
    using assms by (intro find_update_where) simp
  then show "ledger_of (update_where (of_order i) f locks) k = settle st (ledger_of locks) i k"
    using find_key_Some [of "\<lambda>l. (lk_order l, lk_asset l)" k locks] assms
    by (cases "find (\<lambda>l. (lk_order l, lk_asset l) = k) locks") (auto simp: ledger_of_def settle_def of_order_def)
qed

subsection \<open>Runs of the service\<close>

text \<open>The operations in any order.  The balance a caller passes changes from call to call; \<open>cap\<close> bounds those of the history.\<close>

inductive lock_step :: "(string \<Rightarrow> string \<Rightarrow> rat) \<Rightarrow> lock_row list \<Rightarrow> lock_row list \<Rightarrow> bool" for cap where
  lock: "lockFunds locks uuid now ag oid asset amt b = (locks', r) \<Longrightarrow> b \<le> cap ag asset \<Longrightarrow> lock_step cap locks locks'"
| release: "releaseFunds locks now oid = (locks', n) \<Longrightarrow> lock_step cap locks locks'"
| spend: "spendFunds locks now oid = (locks', n) \<Longrightarrow> lock_step cap locks locks'"

definition solvent_locks :: "(string \<Rightarrow> string \<Rightarrow> rat) \<Rightarrow> lock_row list \<Rightarrow> bool" where
  "solvent_locks bal locks \<longleftrightarrow> locks_inv locks \<and> (\<forall>ag asset. getLockedTotal locks ag asset \<le> max 0 (bal ag asset))"

lemma close_solvent:
  assumes "\<And>l. lk_id (f l) = lk_id l \<and> lk_order (f l) = lk_order l \<and> lk_asset (f l) = lk_asset l \<and> lk_amount (f l) = lk_amount l"
    and "\<And>l. lk_status (f l) \<noteq> Locked" "solvent_locks bal locks"
  shows "solvent_locks bal (update_where p f locks)"
proof -
  have "locks_inv locks" using assms(3) by (simp add: solvent_locks_def)
  then have "locks_inv (update_where p f locks)" "list_all (\<lambda>l. 0 < lk_amount l) locks"
    using close_inv [OF assms(1)] by (auto simp: locks_inv_def)
  then show ?thesis using total_close [OF assms(2)] assms(3) by (meson solvent_locks_def order_trans)
qed

lemma lock_step_solvent: "lock_step bal locks locks' \<Longrightarrow> solvent_locks bal locks \<Longrightarrow> solvent_locks bal locks'"
proof (induction rule: lock_step.induct)
  case (lock locks uuid now ag oid asset amt b locks' r)
  have "locks_inv locks'" using lockFunds_inv [of locks] lock by (metis fst_conv solvent_locks_def)
  moreover have "getLockedTotal locks' a s \<le> max 0 (bal a s)" for a s
    using lockFunds_cases [OF lock(1)] lock(2,3) by (fastforce simp: solvent_locks_def total_append le_max_iff_disj)
  ultimately show ?case by (simp add: solvent_locks_def)
next
  case (release locks now oid locks' n)
  then show ?case by (auto simp: releaseFunds_def intro!: close_solvent)
next
  case (spend locks now oid locks' n)
  then show ?case by (auto simp: spendFunds_def intro!: close_solvent)
qed

lemma lock_fits: "lockFunds locks uuid now ag oid asset amt b = (locks', r) \<Longrightarrow> r = LockOk uuid \<Longrightarrow> getLockedTotal locks' ag asset \<le> b"
  using lockFunds_cases [of locks uuid now ag oid asset amt b locks' r] by (auto simp: total_append)

lemma lock_steps_solvent: "(lock_step bal)\<^sup>*\<^sup>* locks locks' \<Longrightarrow> solvent_locks bal locks \<Longrightarrow> solvent_locks bal locks'"
  by (induction rule: rtranclp_induct) (auto intro: lock_step_solvent)

text \<open>A lock only ever leaves the state \<open>Locked\<close>.\<close>

definition lock_state :: "lock_row list \<Rightarrow> string \<times> string \<Rightarrow> lock_status option" where
  "lock_state locks k = map_option lk_status (find (\<lambda>l. (lk_order l, lk_asset l) = k) locks)"

lemma lock_state_ledger: "lock_state locks k = map_option (\<lambda>(ag, am, s). s) (ledger_of locks k)"
  by (simp add: lock_state_def ledger_of_def option.map_comp comp_def)

fun lock_edge :: "lock_status \<Rightarrow> lock_status \<Rightarrow> bool" where
  "lock_edge Locked s = (s \<noteq> Locked)"
| "lock_edge _ _ = False"

lemma lock_edge_iff: "lock_edge s t \<longleftrightarrow> s = Locked \<and> t \<noteq> Locked"
  by (cases s) auto

lemma lockFunds_state: "lockFunds locks uuid now ag oid asset amt b = (locks', r) \<Longrightarrow> lock_state locks k = Some s \<Longrightarrow> lock_state locks' k = Some s"
  using lockFunds_cases [of locks uuid now ag oid asset amt b locks' r]
  by (auto simp: lock_state_def find_append)

lemma settle_state: "ledger_of locks' = settle st (ledger_of locks) oid \<Longrightarrow> lock_state locks k = Some s \<Longrightarrow>
    lock_state locks' k = Some (if fst k = oid \<and> s = Locked then st else s)"
  by (auto simp: lock_state_ledger settle_def)

lemma release_ledger: "ledger_of (fst (releaseFunds locks now oid)) = settle Released (ledger_of locks) oid"
  and spend_ledger: "ledger_of (fst (spendFunds locks now oid)) = settle Spent (ledger_of locks) oid"
  by (simp_all add: releaseFunds_def spendFunds_def ledger_close)

lemma lock_step_edge:
  assumes "lock_step bal locks locks'" "lock_state locks k = Some s"
  shows "\<exists>s'. lock_state locks' k = Some s' \<and> lock_edge\<^sup>*\<^sup>* s s'"
  using assms
proof (cases rule: lock_step.cases)
  case (lock uuid now ag oid asset amt r)
  then show ?thesis using lockFunds_state assms(2) by blast
next
  case (release now oid n)
  then have "ledger_of locks' = settle Released (ledger_of locks) oid" using release_ledger by (metis fst_conv)
  then show ?thesis using settle_state [OF _ assms(2)] by (auto simp: lock_edge_iff)
next
  case (spend now oid n)
  then have "ledger_of locks' = settle Spent (ledger_of locks) oid" using spend_ledger by (metis fst_conv)
  then show ?thesis using settle_state [OF _ assms(2)] by (auto simp: lock_edge_iff)
qed

interpretation lockm: status_machine lock_state "lock_step bal" lock_edge for bal
  by unfold_locales (rule lock_step_edge)

subsection \<open>Properties\<close>

text \<open>C8: however locks, releases and spends follow one another, and however the balance that callers report changes, an agent
  never has more locked of an asset than the largest balance reported for it in the history, no order locks the same asset twice, and
  every lock that succeeds leaves no more locked than the balance reported with it.  Nothing is said of locks that stand while the
  balance falls.\<close>

theorem locks_never_overcommit:
  assumes "(lock_step cap)\<^sup>*\<^sup>* [] locks"
  shows "getLockedTotal locks agent asset \<le> max 0 (cap agent asset) \<and> distinct (map (\<lambda>l. (lk_order l, lk_asset l)) locks)
     \<and> (snd (lockFunds locks uuid now agent oid asset amt b) = LockOk uuid
        \<longrightarrow> getLockedTotal (fst (lockFunds locks uuid now agent oid asset amt b)) agent asset \<le> b)"
proof -
  have "solvent_locks cap []" by (simp add: solvent_locks_def locks_inv_def getLockedTotal_def)
  then have s: "solvent_locks cap locks" using lock_steps_solvent [OF assms(1)] by simp
  obtain locks' r where l: "lockFunds locks uuid now agent oid asset amt b = (locks', r)" by fastforce
  have "r = LockOk uuid \<Longrightarrow> getLockedTotal locks' agent asset \<le> b" using lock_fits [OF l] .
  then show ?thesis using s l by (simp add: solvent_locks_def locks_inv_def)
qed

abbreviation ex_locks :: "lock_row list" where
  "ex_locks \<equiv> [\<lparr> lk_id = ''u1'', lk_agent = ''a'', lk_order = ''o1'', lk_asset = ''kas'', lk_amount = 60,
     lk_status = Locked, lk_created_at = 5, lk_released_at = None \<rparr>]"

lemma ex_lock: "lockFunds [] ''u1'' 5 ''a'' ''o1'' ''kas'' 60 100 = (ex_locks, LockOk ''u1'')"
  by (simp add: lockFunds_def getLockedTotal_def)

theorem locks_never_overcommit_witness:
  "(lock_step (\<lambda>_ _. 100))\<^sup>*\<^sup>* [] ex_locks \<and> getLockedTotal ex_locks ''a'' ''kas'' \<le> 100
     \<and> snd (lockFunds ex_locks ''u2'' 6 ''a'' ''o2'' ''kas'' 60 90) = LockInsufficient 30 60 60"
proof -
  have "(lock_step (\<lambda>_ _. 100))\<^sup>*\<^sup>* [] ex_locks"
    using lock_step.lock [of "[]" "''u1''" 5 "''a''" "''o1''" "''kas''" 60 100 ex_locks _ "\<lambda>_ _. 100"] ex_lock by blast
  then show ?thesis using locks_never_overcommit [of "\<lambda>_ _. 100" ex_locks "''a''" "''kas''"]
    by (simp add: lockFunds_def getLockedTotal_def)
qed

text \<open>C38: the table implements the ledger of reservations: each operation on the rows is the
  specified one on the ledger they stand for, and a refused lock changes nothing.\<close>

theorem locks_refine_ledger:
  "ledger_of (fst (releaseFunds locks now oid)) = settle Released (ledger_of locks) oid
   \<and> ledger_of (fst (spendFunds locks now oid)) = settle Spent (ledger_of locks) oid
   \<and> ledger_of (fst (lockFunds locks uuid now ag oid asset amt bal)) =
       (if snd (lockFunds locks uuid now ag oid asset amt bal) = LockOk uuid
        then reserve (ledger_of locks) (oid, asset) ag amt else ledger_of locks)"
proof -
  obtain locks' r where l: "lockFunds locks uuid now ag oid asset amt bal = (locks', r)" by fastforce
  from lockFunds_cases [OF l] have "ledger_of locks' = (if r = LockOk uuid then reserve (ledger_of locks) (oid, asset) ag amt else ledger_of locks)"
  proof (elim disjE conjE)
    assume *: "r = LockOk uuid" "locks' = locks @ [\<lparr> lk_id = uuid, lk_agent = ag, lk_order = oid, lk_asset = asset,
        lk_amount = amt, lk_status = Locked, lk_created_at = now, lk_released_at = None \<rparr>]"
      "find (\<lambda>l. lk_order l = oid \<and> lk_asset l = asset) locks = None"
    show ?thesis unfolding *(2) using *(1,3) by (subst ledger_append) simp_all
  qed simp
  then show ?thesis by (simp add: l release_ledger spend_ledger)
qed

text \<open>A closed lock is final: once released or spent, no later call of the service changes it, and
  the same order can never lock that asset again.\<close>

theorem closed_lock_final:
  assumes "(lock_step bal)\<^sup>*\<^sup>* locks locks'" "lock_state locks (oid, asset) = Some s" "s \<noteq> Locked"
  shows "lock_state locks' (oid, asset) = Some s \<and> (\<forall>u. snd (lockFunds locks' uuid now ag oid asset amt b) \<noteq> LockOk u)"
proof -
  have st: "lock_state locks' (oid, asset) = Some s"
    using lockm.terminal_absorbing [OF assms(1,2)] assms(3) by (simp add: lock_edge_iff)
  then obtain l where "find (\<lambda>l. lk_order l = oid \<and> lk_asset l = asset) locks' = Some l" "lk_status l = s"
    by (auto simp: lock_state_def)
  then show ?thesis using st assms(3) by (simp add: lockFunds_def)
qed

theorem closed_lock_final_witness:
  "lock_state (fst (spendFunds ex_locks 9 ''o1'')) (''o1'', ''kas'') = Some Spent
     \<and> snd (lockFunds (fst (spendFunds ex_locks 9 ''o1'')) ''u2'' 6 ''a'' ''o1'' ''kas'' 60 100) \<noteq> LockOk ''u2''"
proof -
  have "lock_state (fst (spendFunds ex_locks 9 ''o1'')) (''o1'', ''kas'') = Some Spent"
    by (simp add: spendFunds_def lock_state_def of_order_def)
  then show ?thesis using closed_lock_final [OF rtranclp.rtrancl_refl [of "lock_step (\<lambda>_ _. 100)"]] by blast
qed

end
