(* ===== verification/Execution.thy ===== *)
theory Execution
  imports Status_Machine
begin

section \<open>Execution states\<close>

text \<open>
  \<open>kasia-console/src/services/execution-state.js\<close>: every operation that spends money is a row of
  \<open>execution_states\<close> that is approved, started and completed, or failed or rejected.  The id and the time
  are arguments.
\<close>

datatype exec_status = Pending | Approved | Executing | ExecCompleted | Failed | Rejected

record exec_row =
  ex_id :: string
  ex_intent :: "string option"
  ex_type :: string
  ex_source :: string
  ex_agent :: string
  ex_permission :: string
  ex_status :: exec_status
  ex_input_txid :: "string option"
  ex_output_txid :: "string option"
  ex_error_text :: "string option"
  ex_order :: "string option"
  ex_amount :: "rat option"
  ex_asset :: "string option"
  ex_approval_timeout :: int
  ex_display_summary :: "string option"
  ex_action_details :: "string option"
  ex_approval_deadline :: "nat option"
  ex_created_at :: nat
  ex_updated_at :: nat

record exec_args =
  ea_order :: "string option"
  ea_type :: string
  ea_source :: string
  ea_agent :: string
  ea_permission :: string
  ea_amount :: "rat option"
  ea_asset :: "string option"
  ea_intent :: "string option"
  ea_input_txid :: "string option"
  ea_approval_timeout :: int
  ea_display_summary :: "string option"
  ea_action_details :: "string option"
  ea_approval_deadline :: "nat option"

record exec_handle =
  eh_id :: string
  eh_status :: exec_status
  eh_isNew :: bool

datatype exec_error = MissingArguments | DuplicateExecutionId | ExecutionNotFound
  | AlreadyTerminal exec_status | UnexpectedStatus exec_status exec_status

definition TERMINAL :: "exec_status list" where
  "TERMINAL = [ExecCompleted, Failed, Rejected]"

definition live_for :: "string \<Rightarrow> string \<Rightarrow> exec_row \<Rightarrow> bool" where
  "live_for orderId ty r \<longleftrightarrow> ex_order r = Some orderId \<and> ex_type r = ty \<and> ex_status r \<notin> set TERMINAL"

text \<open>The row \<open>createExecution\<close> inserts.\<close>

definition new_execution :: "string \<Rightarrow> nat \<Rightarrow> exec_args \<Rightarrow> exec_row" where
  "new_execution uuid now a =
    \<lparr> ex_id = uuid, ex_intent = ea_intent a, ex_type = ea_type a, ex_source = ea_source a, ex_agent = ea_agent a,
      ex_permission = ea_permission a, ex_status = Pending, ex_input_txid = ea_input_txid a, ex_output_txid = None,
      ex_error_text = None, ex_order = ea_order a, ex_amount = ea_amount a, ex_asset = ea_asset a,
      ex_approval_timeout = ea_approval_timeout a, ex_display_summary = ea_display_summary a,
      ex_action_details = ea_action_details a,
      ex_approval_deadline = (if ea_approval_deadline a = None \<and> 0 < ea_approval_timeout a
        then Some (now + nat (ea_approval_timeout a) * 60000) else ea_approval_deadline a),
      ex_created_at = now, ex_updated_at = now \<rparr>"

definition createExecution :: "exec_row list \<Rightarrow> string \<Rightarrow> nat \<Rightarrow> exec_args \<Rightarrow> exec_error + exec_row list \<times> exec_handle" where
  "createExecution rows uuid now a =
    (if ea_type a = [] \<or> ea_source a = [] \<or> ea_agent a = [] then Inl MissingArguments
     else case (case ea_order a of Some oid \<Rightarrow> if oid = [] then None else find (live_for oid (ea_type a)) rows | None \<Rightarrow> None) of
       Some r \<Rightarrow> Inr (rows, \<lparr> eh_id = ex_id r, eh_status = ex_status r, eh_isNew = False \<rparr>)
     | None \<Rightarrow>
       if uuid \<in> set (map ex_id rows) then Inl DuplicateExecutionId
       else Inr (rows @ [new_execution uuid now a], \<lparr> eh_id = uuid, eh_status = Pending, eh_isNew = True \<rparr>))"

subsection \<open>Transitions\<close>

datatype exec_field = OutputTxid string | DisplaySummary string | ErrorText string

fun set_field :: "exec_field \<Rightarrow> exec_row \<Rightarrow> exec_row" where
  "set_field (OutputTxid t) r = r\<lparr> ex_output_txid := Some t \<rparr>"
| "set_field (DisplaySummary t) r = r\<lparr> ex_display_summary := Some t \<rparr>"
| "set_field (ErrorText t) r = r\<lparr> ex_error_text := Some t \<rparr>"

definition exec_transition :: "exec_row list \<Rightarrow> nat \<Rightarrow> string \<Rightarrow> exec_status \<Rightarrow> exec_status option \<Rightarrow> exec_field list
    \<Rightarrow> exec_row list \<times> (exec_error + exec_status)" where
  "exec_transition rows now eid newStatus expectedFrom extra =
    (case find (\<lambda>r. ex_id r = eid) rows of
       None \<Rightarrow> (rows, Inl ExecutionNotFound)
     | Some r \<Rightarrow>
       if ex_status r \<in> set TERMINAL then (rows, Inl (AlreadyTerminal (ex_status r)))
       else if expectedFrom \<noteq> None \<and> ex_status r \<noteq> the expectedFrom \<and> newStatus \<noteq> Failed
         then (rows, Inl (UnexpectedStatus (the expectedFrom) (ex_status r)))
       else (update_where (\<lambda>r. ex_id r = eid)
               (\<lambda>r. fold set_field extra (r\<lparr> ex_status := newStatus, ex_updated_at := now \<rparr>)) rows,
             Inr newStatus))"

definition approveExecution :: "exec_row list \<Rightarrow> nat \<Rightarrow> string \<Rightarrow> exec_row list \<times> (exec_error + exec_status)" where
  "approveExecution rows now eid = exec_transition rows now eid Approved (Some Pending) []"

definition startExecution :: "exec_row list \<Rightarrow> nat \<Rightarrow> string \<Rightarrow> exec_row list \<times> (exec_error + exec_status)" where
  "startExecution rows now eid = exec_transition rows now eid Executing (Some Approved) []"

definition given :: "(string \<Rightarrow> exec_field) \<Rightarrow> string option \<Rightarrow> exec_field list" where
  "given c x = (case x of Some t \<Rightarrow> if t = [] then [] else [c t] | None \<Rightarrow> [])"

definition completeExecution :: "exec_row list \<Rightarrow> nat \<Rightarrow> string \<Rightarrow> string option \<Rightarrow> string option \<Rightarrow> exec_row list \<times> (exec_error + exec_status)" where
  "completeExecution rows now eid outputTxid summary =
    exec_transition rows now eid ExecCompleted (Some Executing) (given OutputTxid outputTxid @ given DisplaySummary summary)"

definition error_field :: "string option \<Rightarrow> exec_field list" where
  "error_field x = (case x of Some t \<Rightarrow> [ErrorText t] | None \<Rightarrow> [])"

definition failExecution :: "exec_row list \<Rightarrow> nat \<Rightarrow> string \<Rightarrow> string option \<Rightarrow> exec_row list \<times> (exec_error + exec_status)" where
  "failExecution rows now eid errorText = exec_transition rows now eid Failed None (error_field errorText)"

definition rejectExecution :: "exec_row list \<Rightarrow> nat \<Rightarrow> string \<Rightarrow> string option \<Rightarrow> exec_row list \<times> (exec_error + exec_status)" where
  "rejectExecution rows now eid errorText = exec_transition rows now eid Rejected (Some Pending) (error_field errorText)"

definition getExecution :: "exec_row list \<Rightarrow> string \<Rightarrow> exec_row option" where
  "getExecution rows eid = find (\<lambda>r. ex_id r = eid) rows"

definition getOrderExecutions :: "exec_row list \<Rightarrow> string \<Rightarrow> exec_row list" where
  "getOrderExecutions rows oid = rev (sort_key ex_created_at (filter (\<lambda>r. ex_order r = Some oid) (rev rows)))"

definition getPendingExecutions :: "exec_row list \<Rightarrow> string \<Rightarrow> exec_row list" where
  "getPendingExecutions rows ag = sort_key ex_created_at (filter (\<lambda>r. ex_agent r = ag \<and> ex_status r = Pending) rows)"

definition quickStart :: "exec_row list \<Rightarrow> string \<Rightarrow> nat \<Rightarrow> exec_args \<Rightarrow> exec_error + exec_row list \<times> string" where
  "quickStart rows uuid now a =
    (case createExecution rows uuid now (a\<lparr> ea_approval_timeout := 15, ea_approval_deadline := None \<rparr>) of
       Inl e \<Rightarrow> Inl e
     | Inr (rows1, h) \<Rightarrow>
       if eh_isNew h \<or> eh_status h = Pending
       then Inr (fst (startExecution (fst (approveExecution rows1 now (eh_id h))) now (eh_id h)), eh_id h)
       else if eh_status h = Approved then Inr (fst (startExecution rows1 now (eh_id h)), eh_id h)
       else Inr (rows1, eh_id h))"

subsection \<open>Every operation moves a row along one graph\<close>

fun exec_edge :: "exec_status \<Rightarrow> exec_status \<Rightarrow> bool" where
  "exec_edge Pending s = (s \<in> {Approved, Rejected, Failed})"
| "exec_edge Approved s = (s \<in> {Executing, Failed})"
| "exec_edge Executing s = (s \<in> {ExecCompleted, Failed})"
| "exec_edge _ _ = False"

definition exec_status_of :: "exec_row list \<Rightarrow> string \<Rightarrow> exec_status option" where
  "exec_status_of rows eid = map_option ex_status (find (\<lambda>r. ex_id r = eid) rows)"

inductive exec_step :: "exec_row list \<Rightarrow> exec_row list \<Rightarrow> bool" where
  create: "createExecution rows uuid now a = Inr (rows', h) \<Longrightarrow> exec_step rows rows'"
| approve: "approveExecution rows now eid = (rows', r) \<Longrightarrow> exec_step rows rows'"
| start: "startExecution rows now eid = (rows', r) \<Longrightarrow> exec_step rows rows'"
| complete: "completeExecution rows now eid t s = (rows', r) \<Longrightarrow> exec_step rows rows'"
| fail: "failExecution rows now eid e = (rows', r) \<Longrightarrow> exec_step rows rows'"
| reject: "rejectExecution rows now eid e = (rows', r) \<Longrightarrow> exec_step rows rows'"

lemma set_field_keeps [simp]: "ex_id (set_field f r) = ex_id r" "ex_status (set_field f r) = ex_status r"
  "ex_order (set_field f r) = ex_order r" "ex_type (set_field f r) = ex_type r"
  by (cases f; simp)+

lemma set_fields_keep [simp]: "ex_id (fold set_field fs r) = ex_id r" "ex_status (fold set_field fs r) = ex_status r"
  "ex_order (fold set_field fs r) = ex_order r" "ex_type (fold set_field fs r) = ex_type r"
  by (induction fs arbitrary: r) simp_all

lemma exec_transition_status:
  "exec_status_of (fst (exec_transition rows now eid s from fs)) i =
    (if i = eid then (case exec_status_of rows eid of None \<Rightarrow> None | Some c \<Rightarrow>
        if c \<in> set TERMINAL \<or> (from \<noteq> None \<and> c \<noteq> the from \<and> s \<noteq> Failed) then Some c else Some s)
     else exec_status_of rows i)"
proof (cases "find (\<lambda>r. ex_id r = eid) rows")
  case None
  then show ?thesis by (simp add: exec_transition_def exec_status_of_def)
next
  case (Some r)
  let ?g = "\<lambda>r. fold set_field fs (r\<lparr> ex_status := s, ex_updated_at := now \<rparr>)"
  let ?refused = "ex_status r \<in> set TERMINAL \<or> (from \<noteq> None \<and> ex_status r \<noteq> the from \<and> s \<noteq> Failed)"
  have st: "exec_status_of rows eid = Some (ex_status r)" using Some by (simp add: exec_status_of_def)
  show ?thesis
  proof (cases ?refused)
    case True
    then show ?thesis using Some by (auto simp: exec_transition_def st)
  next
    case False
    then have tr: "fst (exec_transition rows now eid s from fs) = update_where (\<lambda>r. ex_id r = eid) ?g rows"
      using Some by (auto simp: exec_transition_def)
    have upd: "find (\<lambda>r. ex_id r = i) (update_where (\<lambda>r. ex_id r = eid) ?g rows)
        = map_option (\<lambda>r. if ex_id r = eid then ?g r else r) (find (\<lambda>r. ex_id r = i) rows)"
      by (intro find_update_where) simp
    show ?thesis
    proof (cases "i = eid")
      case True
      have "ex_id r = eid" using Some find_key_Some [of ex_id eid rows] by blast
      then show ?thesis unfolding tr using True False Some by (auto simp: exec_status_of_def upd [unfolded True])
    next
      case ne: False
      have "find (\<lambda>r. ex_id r = i) (update_where (\<lambda>r. ex_id r = eid) ?g rows) = find (\<lambda>r. ex_id r = i) rows"
        using ne find_key_Some [of ex_id i rows] by (cases "find (\<lambda>r. ex_id r = i) rows") (auto simp: upd)
      then show ?thesis unfolding tr using ne by (simp add: exec_status_of_def)
    qed
  qed
qed

lemma transition_edge:
  assumes "exec_status_of rows i = Some c" "\<And>c. c \<notin> set TERMINAL \<Longrightarrow> from = None \<or> c = the from \<or> s = Failed \<Longrightarrow> exec_edge c s"
  shows "\<exists>s'. exec_status_of (fst (exec_transition rows now eid s from fs)) i = Some s' \<and> exec_edge\<^sup>*\<^sup>* c s'"
proof (cases "i = eid \<and> \<not> (c \<in> set TERMINAL \<or> (from \<noteq> None \<and> c \<noteq> the from \<and> s \<noteq> Failed))")
  case True
  then show ?thesis using assms by (auto simp: exec_transition_status)
next
  case False
  then show ?thesis using assms(1) by (auto simp: exec_transition_status)
qed

lemma edge_cases:
  "exec_edge Pending Approved" "exec_edge Approved Executing" "exec_edge Executing ExecCompleted" "exec_edge Pending Rejected"
  "c \<notin> set TERMINAL \<Longrightarrow> exec_edge c Failed"
  by (cases c; simp add: TERMINAL_def)+

lemma create_status: "createExecution rows uuid now a = Inr (rows', h) \<Longrightarrow> exec_status_of rows i = Some c \<Longrightarrow> exec_status_of rows' i = Some c"
  by (auto simp: createExecution_def exec_status_of_def find_append split: if_splits option.splits)

lemma exec_step_edge:
  assumes "exec_step rows rows'" "exec_status_of rows i = Some c"
  shows "\<exists>s'. exec_status_of rows' i = Some s' \<and> exec_edge\<^sup>*\<^sup>* c s'"
  using assms
proof (cases rule: exec_step.cases)
  case (create uuid now a h)
  then show ?thesis using create_status assms(2) by blast
next
  case (approve now eid r)
  then show ?thesis using transition_edge [OF assms(2), of "Some Pending" Approved now eid "[]"] edge_cases
    unfolding approveExecution_def by (metis approve fst_conv option.sel option.distinct(1) approveExecution_def exec_status.distinct)
next
  case (start now eid r)
  then show ?thesis using transition_edge [OF assms(2), of "Some Approved" Executing now eid "[]"] edge_cases
    unfolding startExecution_def by (metis start fst_conv option.sel option.distinct(1) startExecution_def exec_status.distinct)
next
  case (complete now eid t s r)
  then show ?thesis using transition_edge [OF assms(2), of "Some Executing" ExecCompleted now eid] edge_cases
    unfolding completeExecution_def by (metis complete fst_conv option.sel option.distinct(1) completeExecution_def exec_status.distinct)
next
  case (fail now eid e r)
  then show ?thesis using transition_edge [OF assms(2), of None Failed now eid] edge_cases
    unfolding failExecution_def by (metis fail fst_conv option.sel option.distinct(1) failExecution_def exec_status.distinct)
next
  case (reject now eid e r)
  then show ?thesis using transition_edge [OF assms(2), of "Some Pending" Rejected now eid] edge_cases
    unfolding rejectExecution_def by (metis reject fst_conv option.sel option.distinct(1) rejectExecution_def exec_status.distinct)
qed

interpretation execm: status_machine exec_status_of exec_step exec_edge
  by unfold_locales (rule exec_step_edge)

subsection \<open>At most one live execution per order and type\<close>

definition execs_inv :: "exec_row list \<Rightarrow> bool" where
  "execs_inv rows \<longleftrightarrow> distinct (map ex_id rows)
     \<and> (\<forall>oid ty. oid \<noteq> [] \<longrightarrow> length (filter (live_for oid ty) rows) \<le> 1)"

lemma update_fewer:
  assumes "\<And>r. r \<in> set rows \<Longrightarrow> p r \<Longrightarrow> P (f r) \<Longrightarrow> P r"
  shows "length (filter P (update_where p f rows)) \<le> length (filter P rows)"
  using assms by (induction rows) auto

lemma create_keeps:
  assumes "execs_inv rows" "createExecution rows uuid now a = Inr (rows', h)"
  shows "execs_inv rows'"
proof -
  have "rows' = rows \<or> (rows' = rows @ [new_execution uuid now a] \<and> uuid \<notin> set (map ex_id rows)
      \<and> (\<forall>oid. ea_order a = Some oid \<and> oid \<noteq> [] \<longrightarrow> find (live_for oid (ea_type a)) rows = None))"
    using assms(2) by (auto simp: createExecution_def split: if_splits option.splits)
  then show ?thesis
  proof (elim disjE conjE)
    assume *: "rows' = rows @ [new_execution uuid now a]" "uuid \<notin> set (map ex_id rows)"
      "\<forall>oid. ea_order a = Some oid \<and> oid \<noteq> [] \<longrightarrow> find (live_for oid (ea_type a)) rows = None"
    have new: "ex_id (new_execution uuid now a) = uuid" "live_for oid ty (new_execution uuid now a) = (ea_order a = Some oid \<and> ea_type a = ty)" for oid ty
      by (auto simp: new_execution_def live_for_def TERMINAL_def)
    have "length (filter (live_for oid ty) rows') \<le> 1" if "oid \<noteq> []" for oid ty
    proof (cases "ea_order a = Some oid \<and> ea_type a = ty")
      case True
      then have "filter (live_for oid ty) rows = []" using *(3) that by (auto simp: find_None_iff filter_empty_conv)
      then show ?thesis by (simp add: *(1))
    next
      case False
      then have "filter (live_for oid ty) rows' = filter (live_for oid ty) rows" using new by (auto simp: *(1))
      then show ?thesis using assms(1) that by (simp add: execs_inv_def)
    qed
    then show ?thesis using assms(1) *(2) new(1) by (simp add: *(1) execs_inv_def)
  qed (use assms(1) in simp)
qed

lemma transition_keeps:
  assumes inv: "execs_inv rows"
  shows "execs_inv (fst (exec_transition rows now eid s from fs))"
proof (cases "find (\<lambda>r. ex_id r = eid) rows")
  case None
  then show ?thesis using inv by (simp add: exec_transition_def)
next
  case (Some r)
  let ?g = "\<lambda>r. fold set_field fs (r\<lparr> ex_status := s, ex_updated_at := now \<rparr>)"
  have r: "r \<in> set rows" "ex_id r = eid" using find_key_Some [OF Some] by auto
  have only: "q = r" if "q \<in> set rows" "ex_id q = eid" for q
    using that r inv by (auto simp: execs_inv_def distinct_map dest: inj_onD)
  show ?thesis
  proof (cases "ex_status r \<in> set TERMINAL \<or> (from \<noteq> None \<and> ex_status r \<noteq> the from \<and> s \<noteq> Failed)")
    case True
    then show ?thesis using Some inv by (auto simp: exec_transition_def)
  next
    case False
    then have tr: "fst (exec_transition rows now eid s from fs) = update_where (\<lambda>r. ex_id r = eid) ?g rows"
      using Some by (auto simp: exec_transition_def)
    have "live_for oid ty (?g q) \<Longrightarrow> live_for oid ty q" if "q \<in> set rows" "ex_id q = eid" for q oid ty
      using only [OF that] False by (simp add: live_for_def)
    then have "length (filter (live_for oid ty) (update_where (\<lambda>r. ex_id r = eid) ?g rows)) \<le> length (filter (live_for oid ty) rows)" for oid ty
      by (intro update_fewer)
    then have "length (filter (live_for oid ty) (update_where (\<lambda>r. ex_id r = eid) ?g rows)) \<le> 1" if "oid \<noteq> []" for oid ty
      using inv that order_trans unfolding execs_inv_def by blast
    then show ?thesis using inv unfolding tr execs_inv_def by (simp add: map_update_where)
  qed
qed

lemma exec_step_inv: "exec_step rows rows' \<Longrightarrow> execs_inv rows \<Longrightarrow> execs_inv rows'"
  by (erule exec_step.cases; simp only: approveExecution_def startExecution_def completeExecution_def failExecution_def rejectExecution_def)
    (blast intro: create_keeps, (metis fst_conv transition_keeps)+)

lemma exec_steps_inv: "exec_step\<^sup>*\<^sup>* rows rows' \<Longrightarrow> execs_inv rows \<Longrightarrow> execs_inv rows'"
  by (induction rule: rtranclp_induct) (auto intro: exec_step_inv)

subsection \<open>Properties\<close>

lemma transition_single:
  assumes "exec_status_of rows i = Some c" "exec_status_of (fst (exec_transition rows now eid s from fs)) i = Some s'" "s' \<noteq> c"
  shows "s' = s \<and> c \<notin> set TERMINAL \<and> (from = None \<or> c = the from \<or> s = Failed)"
  using assms by (auto simp: exec_transition_status split: if_splits)

lemma exec_step_completed:
  assumes "exec_step rows rows'" "exec_status_of rows i = Some c" "exec_status_of rows' i = Some s'" "c \<noteq> s'"
  shows "exec_edge c s'"
  using assms(1)
proof (cases rule: exec_step.cases)
  case (create uuid now a h)
  then show ?thesis using create_status assms by fastforce
next
  case (approve now eid r)
  then have "rows' = fst (exec_transition rows now eid Approved (Some Pending) [])" by (simp add: approveExecution_def)
  then show ?thesis using transition_single [OF assms(2), of now eid Approved "Some Pending" "[]" s'] assms edge_cases by auto
next
  case (start now eid r)
  then have "rows' = fst (exec_transition rows now eid Executing (Some Approved) [])" by (simp add: startExecution_def)
  then show ?thesis using transition_single [OF assms(2), of now eid Executing "Some Approved" "[]" s'] assms edge_cases by auto
next
  case (complete now eid t s r)
  then have "rows' = fst (exec_transition rows now eid ExecCompleted (Some Executing) (given OutputTxid t @ given DisplaySummary s))"
    by (simp add: completeExecution_def)
  then show ?thesis using transition_single [OF assms(2), of now eid ExecCompleted "Some Executing" _ s'] assms edge_cases by auto
next
  case (fail now eid e r)
  then have "rows' = fst (exec_transition rows now eid Failed None (error_field e))" by (simp add: failExecution_def)
  then show ?thesis using transition_single [OF assms(2), of now eid Failed None _ s'] assms edge_cases by auto
next
  case (reject now eid e r)
  then have "rows' = fst (exec_transition rows now eid Rejected (Some Pending) (error_field e))" by (simp add: rejectExecution_def)
  then show ?thesis using transition_single [OF assms(2), of now eid Rejected "Some Pending" _ s'] assms edge_cases by auto
qed

text \<open>The gate of every spending: an operation changes the status of an execution only along the
  graph, so it is completed only out of executing and executing only out of approved; a completed, failed
  or rejected execution never changes again.\<close>

theorem execution_gate:
  assumes "exec_step rows rows'" "exec_status_of rows i = Some c"
  shows "\<exists>s'. exec_status_of rows' i = Some s' \<and> (s' = c \<or> exec_edge c s')
    \<and> (s' = ExecCompleted \<longrightarrow> c = Executing \<or> c = ExecCompleted) \<and> (s' = Executing \<longrightarrow> c = Approved \<or> c = Executing)
    \<and> (c \<in> set TERMINAL \<longrightarrow> (\<forall>later. exec_step\<^sup>*\<^sup>* rows' later \<longrightarrow> exec_status_of later i = Some c))"
proof -
  obtain s' where s': "exec_status_of rows' i = Some s'" using exec_step_edge [OF assms] by blast
  have e: "s' = c \<or> exec_edge c s'" using exec_step_completed [OF assms s'] by blast
  have "exec_status_of later i = Some c" if "c \<in> set TERMINAL" "exec_step\<^sup>*\<^sup>* rows' later" for later
    using execm.terminal_absorbing [OF converse_rtranclp_into_rtranclp [of exec_step, OF assms(1) that(2)] assms(2)] that(1) by (auto simp: TERMINAL_def)
  then show ?thesis using s' e by (cases c) auto
qed

abbreviation ex_args :: exec_args where
  "ex_args \<equiv> \<lparr> ea_order = Some ''o'', ea_type = ''pay_usdt'', ea_source = ''system'', ea_agent = ''a'', ea_permission = ''owner'',
     ea_amount = None, ea_asset = None, ea_intent = None, ea_input_txid = None, ea_approval_timeout = 15,
     ea_display_summary = None, ea_action_details = None, ea_approval_deadline = None \<rparr>"

theorem execution_gate_witness:
  "\<exists>s'. exec_status_of (fst (rejectExecution [new_execution ''u'' 0 ex_args] 1 ''u'' None)) ''u'' = Some s' \<and> exec_edge Pending s'"
proof -
  let ?rows = "[new_execution ''u'' 0 ex_args]"
  have st: "exec_status_of ?rows ''u'' = Some Pending" by (simp add: exec_status_of_def new_execution_def)
  have "exec_step ?rows (fst (rejectExecution ?rows 1 ''u'' None))" by (rule exec_step.reject) (rule prod.collapse [symmetric])
  from execution_gate [OF this st] show ?thesis
    using exec_transition_status [of ?rows 1 "''u''" Rejected "Some Pending" "[]" "''u''"] st
    by (auto simp: rejectExecution_def error_field_def TERMINAL_def)
qed

text \<open>In every reachable table an order has at most one live execution of each type.\<close>

theorem one_live_execution:
  assumes "exec_step\<^sup>*\<^sup>* [] rows" "oid \<noteq> []"
  shows "length (filter (live_for oid ty) rows) \<le> 1 \<and> distinct (map ex_id rows)"
proof -
  have "execs_inv []" by (simp add: execs_inv_def)
  then have "execs_inv rows" using exec_steps_inv [OF assms(1)] by simp
  then show ?thesis using assms(2) unfolding execs_inv_def by blast
qed

lemma ex_create: "createExecution [] ''u'' 0 ex_args = Inr ([new_execution ''u'' 0 ex_args], \<lparr> eh_id = ''u'', eh_status = Pending, eh_isNew = True \<rparr>)"
  by (simp add: createExecution_def)

theorem one_live_execution_witness:
  "exec_step\<^sup>*\<^sup>* [] [new_execution ''u'' 0 ex_args] \<and> length (filter (live_for ''o'' ''pay_usdt'') [new_execution ''u'' 0 ex_args]) \<le> 1"
proof -
  have "exec_step\<^sup>*\<^sup>* [] [new_execution ''u'' 0 ex_args]"
    by (rule r_into_rtranclp [of exec_step], rule exec_step.create, rule ex_create)
  then show ?thesis using one_live_execution [of "[new_execution ''u'' 0 ex_args]" "''o''" "''pay_usdt''"] by blast
qed

lemma inv_status: "execs_inv rows \<Longrightarrow> r \<in> set rows \<Longrightarrow> exec_status_of rows (ex_id r) = Some (ex_status r)"
  using find_key_unique [of ex_id rows r] by (simp add: execs_inv_def exec_status_of_def)

lemma create_handle:
  assumes "execs_inv rows" "createExecution rows u now a = Inr (rows', h)"
  shows "exec_status_of rows' (eh_id h) = Some (eh_status h) \<and> eh_status h \<notin> set TERMINAL
    \<and> (\<forall>oid. ea_order a = Some oid \<and> oid \<noteq> [] \<longrightarrow> (\<exists>r \<in> set rows'. ex_id r = eh_id h \<and> live_for oid (ea_type a) r))"
proof -
  have "(\<exists>r oid. ea_order a = Some oid \<and> find (live_for oid (ea_type a)) rows = Some r \<and> rows' = rows \<and> eh_id h = ex_id r \<and> eh_status h = ex_status r)
      \<or> (rows' = rows @ [new_execution u now a] \<and> u \<notin> set (map ex_id rows) \<and> eh_id h = u \<and> eh_status h = Pending)"
    using assms(2) by (auto simp: createExecution_def split: if_splits option.splits)
  then show ?thesis
  proof (elim disjE exE conjE)
    fix r oid assume *: "ea_order a = Some oid" "find (live_for oid (ea_type a)) rows = Some r" "rows' = rows" "eh_id h = ex_id r" "eh_status h = ex_status r"
    have "r \<in> set rows" "live_for oid (ea_type a) r" using *(2) by (auto simp: find_Some_iff)
    then show ?thesis using inv_status [OF assms(1), of r] * by (auto simp: live_for_def)
  next
    assume *: "rows' = rows @ [new_execution u now a]" "u \<notin> set (map ex_id rows)" "eh_id h = u" "eh_status h = Pending"
    have "execs_inv rows'" by (rule create_keeps [OF assms])
    then show ?thesis using inv_status [of rows' "new_execution u now a"] *
      by (auto simp: new_execution_def live_for_def TERMINAL_def)
  qed
qed

lemma transition_live:
  assumes "r \<in> set rows" "live_for oid ty r" "s \<notin> set TERMINAL"
  shows "\<exists>r' \<in> set (fst (exec_transition rows now eid s from fs)). ex_id r' = ex_id r \<and> live_for oid ty r'"
proof (cases "fst (exec_transition rows now eid s from fs) = rows")
  case True
  then show ?thesis using assms by auto
next
  case False
  let ?g = "\<lambda>r. fold set_field fs (r\<lparr> ex_status := s, ex_updated_at := now \<rparr>)"
  have tr: "fst (exec_transition rows now eid s from fs) = update_where (\<lambda>r. ex_id r = eid) ?g rows"
    using False by (auto simp: exec_transition_def split: option.splits if_splits)
  have "live_for oid ty (?g r)" using assms(2,3) by (simp add: live_for_def)
  moreover have "(if ex_id r = eid then ?g r else r) \<in> set (update_where (\<lambda>r. ex_id r = eid) ?g rows)"
    using assms(1) unfolding update_where_def by (simp only: set_map image_eqI)
  ultimately show ?thesis unfolding tr using assms(2)
    by (intro bexI [of _ "if ex_id r = eid then ?g r else r"]) simp_all
qed

lemma start_live:
  "\<exists>x \<in> set l. ex_id x = i \<and> live_for oid ty x \<Longrightarrow> \<exists>x \<in> set (fst (startExecution l now eid)). ex_id x = i \<and> live_for oid ty x"
  and approve_live:
  "\<exists>x \<in> set l. ex_id x = i \<and> live_for oid ty x \<Longrightarrow> \<exists>x \<in> set (fst (approveExecution l now eid)). ex_id x = i \<and> live_for oid ty x"
proof -
  have "Executing \<notin> set TERMINAL" "Approved \<notin> set TERMINAL" by (simp_all add: TERMINAL_def)
  note t = this [THEN transition_live [rotated 2]]
  show "\<exists>x \<in> set l. ex_id x = i \<and> live_for oid ty x \<Longrightarrow> \<exists>x \<in> set (fst (startExecution l now eid)). ex_id x = i \<and> live_for oid ty x"
    "\<exists>x \<in> set l. ex_id x = i \<and> live_for oid ty x \<Longrightarrow> \<exists>x \<in> set (fst (approveExecution l now eid)). ex_id x = i \<and> live_for oid ty x"
    unfolding startExecution_def approveExecution_def using t by blast+
qed

text \<open>\<open>quickStart\<close> leaves the execution it returns executing, whatever live state it found, and for
  an order a second call finds it again and changes nothing.\<close>

theorem quickStart_executes_once:
  assumes "execs_inv rows" "quickStart rows u now a = Inr (rows', eid)"
  shows "exec_status_of rows' eid = Some Executing
    \<and> (\<forall>oid. ea_order a = Some oid \<and> oid \<noteq> [] \<longrightarrow> quickStart rows' u' now' a = Inr (rows', eid))"
proof -
  let ?a = "a\<lparr> ea_approval_timeout := 15, ea_approval_deadline := None \<rparr>"
  obtain rows1 h where c: "createExecution rows u now ?a = Inr (rows1, h)"
    using assms(2) by (auto simp: quickStart_def split: sum.splits)
  note ch = create_handle [OF assms(1) c]
  define r2 where "r2 = fst (approveExecution rows1 now (eh_id h))"
  have inv1: "execs_inv rows1" by (rule create_keeps [OF assms(1) c])
  have eid: "eid = eh_id h" using assms(2) c by (auto simp: quickStart_def split: if_splits)
  have rows': "rows' = (if eh_isNew h \<or> eh_status h = Pending then fst (startExecution r2 now eid)
      else if eh_status h = Approved then fst (startExecution rows1 now eid) else rows1)"
    using assms(2) c by (auto simp: quickStart_def r2_def split: if_splits)
  have new: "eh_isNew h \<Longrightarrow> eh_status h = Pending" using c by (auto simp: createExecution_def split: if_splits option.splits)
  have st: "exec_status_of rows' eid = Some Executing"
    using ch new unfolding rows' r2_def eid startExecution_def approveExecution_def
    by (cases "eh_status h") (auto simp: exec_transition_status TERMINAL_def)
  have "quickStart rows' u' now' a = Inr (rows', eid)" if oid: "ea_order a = Some oid" "oid \<noteq> []" for oid
  proof -
    have "\<exists>x \<in> set rows1. ex_id x = eid \<and> live_for oid (ea_type a) x" using ch oid by (auto simp: eid)
    then have "\<exists>x \<in> set rows'. ex_id x = eid \<and> live_for oid (ea_type a) x"
      unfolding rows' r2_def by (simp add: start_live approve_live)
    then obtain q where q: "q \<in> set rows'" "ex_id q = eid" "live_for oid (ea_type a) q" by blast
    have inv': "execs_inv rows'"
      unfolding rows' r2_def startExecution_def approveExecution_def using inv1 by (simp add: transition_keeps)
    obtain p where p: "find (live_for oid (ea_type a)) rows' = Some p"
      using q by (metis find_None_iff not_None_eq)
    have "p \<in> set (filter (live_for oid (ea_type a)) rows')" "q \<in> set (filter (live_for oid (ea_type a)) rows')"
      using p q by (auto simp: find_Some_iff)
    moreover have "length (filter (live_for oid (ea_type a)) rows') \<le> 1" using inv' oid(2) unfolding execs_inv_def by blast
    ultimately have "p = q" by (cases "filter (live_for oid (ea_type a)) rows'") auto
    have "ex_status q = Executing" using inv_status [OF inv' q(1)] st q(2) by simp
    moreover have "\<not> (ea_type a = [] \<or> ea_source a = [] \<or> ea_agent a = [])"
      using c by (auto simp: createExecution_def split: if_splits)
    ultimately show ?thesis using oid p \<open>p = q\<close> q(2) by (simp add: quickStart_def createExecution_def)
  qed
  then show ?thesis using st by blast
qed

theorem quickStart_executes_once_witness:
  "\<exists>rows'. quickStart [] ''u'' 0 ex_args = Inr (rows', ''u'') \<and> exec_status_of rows' ''u'' = Some Executing
     \<and> quickStart rows' ''v'' 5 ex_args = Inr (rows', ''u'')"
proof -
  have "execs_inv []" by (simp add: execs_inv_def)
  moreover obtain rows' where "quickStart [] ''u'' 0 ex_args = Inr (rows', ''u'')"
    by (simp add: quickStart_def createExecution_def)
  ultimately show ?thesis using quickStart_executes_once [of "[]" "''u''" 0 ex_args rows' "''u''" "''v''" 5] by auto
qed

end
