(* ===== verification/Orders.thy ===== *)
theory Orders
  imports Chain_Event Fund_Lock Execution
begin

section \<open>The order machine\<close>

text \<open>
  \<open>kasia-console/src/services/order-machine.js\<close>: orders of the free market, their transitions with the
  linked effects (fund locks, chain events, the counterparty's order, the next automatic action) and the
  sweep of timed-out orders.  The database is a record of the tables the machine touches.  \<open>env\<close> holds what
  the code takes from outside: the clock, random ids, the JSON text of a number, the SQL \<open>LIKE\<close> on a
  stored payload and the wording of the approval summary.  The HTTP calls \<open>_autoAdvance\<close> schedules are
  appended to an outbox.
\<close>

datatype order_status = OPublished | OAccepted | OPaying | OPaid | OVerified | ODelivering | OCompleted
  | OCancelled | OExpired | ODisputed | OEscalated | OResolved | OLegacy string

text \<open>\<open>OLegacy\<close> is a status of an older schema, which the transition table does not list.\<close>

fun VALID_TRANSITIONS :: "order_status \<Rightarrow> order_status list" where
  "VALID_TRANSITIONS OPublished = [OAccepted, OCancelled, OExpired]"
| "VALID_TRANSITIONS OAccepted = [OPaying, OPublished, OCancelled, OExpired]"
| "VALID_TRANSITIONS OPaying = [OPaid, OAccepted, OCancelled, OExpired]"
| "VALID_TRANSITIONS OPaid = [OVerified, ODisputed]"
| "VALID_TRANSITIONS OVerified = [ODelivering, ODisputed]"
| "VALID_TRANSITIONS ODelivering = [OCompleted, OVerified, ODisputed]"
| "VALID_TRANSITIONS OCompleted = []"
| "VALID_TRANSITIONS OCancelled = []"
| "VALID_TRANSITIONS OExpired = []"
| "VALID_TRANSITIONS ODisputed = [OResolved, OCancelled, OCompleted, OEscalated]"
| "VALID_TRANSITIONS OEscalated = [OResolved, OCancelled]"
| "VALID_TRANSITIONS OResolved = []"
| "VALID_TRANSITIONS (OLegacy _) = []"

definition TERMINAL_STATES :: "order_status list" where
  "TERMINAL_STATES = [OCompleted, OCancelled, OExpired, OResolved, OEscalated]"

fun status_text :: "order_status \<Rightarrow> string" where
  "status_text OPublished = ''published''"
| "status_text OAccepted = ''accepted''"
| "status_text OPaying = ''paying''"
| "status_text OPaid = ''paid''"
| "status_text OVerified = ''verified''"
| "status_text ODelivering = ''delivering''"
| "status_text OCompleted = ''completed''"
| "status_text OCancelled = ''cancelled''"
| "status_text OExpired = ''expired''"
| "status_text ODisputed = ''disputed''"
| "status_text OEscalated = ''escalated''"
| "status_text OResolved = ''resolved''"
| "status_text (OLegacy t) = t"

record order =
  od_id :: string
  od_relay :: string
  od_agent :: string
  od_side :: string
  od_kas :: rat
  od_usdt :: rat
  od_price :: rat
  od_chain :: string
  od_peer :: "string option"
  od_counter :: "string option"
  od_broadcast :: "string option"
  od_mode :: string
  od_status :: order_status
  od_timeout :: int
  od_created_at :: nat
  od_accepted_at :: "nat option"
  od_paid_at :: "nat option"
  od_verified_at :: "nat option"
  od_delivered_at :: "nat option"
  od_completed_at :: "nat option"
  od_payment_txhash :: "string option"
  od_kas_txhash :: "string option"
  od_cancel_reason :: "string option"

record trade_db =
  td_orders :: "order list"
  td_locks :: "lock_row list"
  td_events :: event_db
  td_execs :: "exec_row list"
  td_mode :: "string option"
  td_outbox :: "(string \<times> string) list"
  td_draws :: nat

record env =
  env_now :: nat
  env_uuid :: "nat \<Rightarrow> string"
  env_num :: "rat \<Rightarrow> json"
  env_like :: "payload \<Rightarrow> string \<Rightarrow> bool"
  env_summary :: "string \<Rightarrow> order \<Rightarrow> string"

record opts =
  op_txHash :: "string option"
  op_reason :: "string option"
  op_force :: bool

datatype order_error = OrderNotFound | BadTransition order_status order_status | OptimisticLock string | DuplicateOrder

subsection \<open>Creating and linking\<close>

record order_args =
  oa_id :: "string option"
  oa_relay :: string
  oa_agent :: string
  oa_side :: string
  oa_kas :: rat
  oa_price :: rat
  oa_chain :: string
  oa_peer :: "string option"
  oa_counter :: "string option"
  oa_broadcast :: "string option"
  oa_mode :: string
  oa_timeout :: int

definition new_order :: "string \<Rightarrow> nat \<Rightarrow> order_args \<Rightarrow> order" where
  "new_order oid now a =
    \<lparr> od_id = oid, od_relay = oa_relay a, od_agent = oa_agent a, od_side = oa_side a, od_kas = oa_kas a,
      od_usdt = oa_kas a * oa_price a, od_price = oa_price a, od_chain = oa_chain a, od_peer = oa_peer a,
      od_counter = oa_counter a, od_broadcast = oa_broadcast a, od_mode = oa_mode a, od_status = OPublished,
      od_timeout = oa_timeout a, od_created_at = now, od_accepted_at = None, od_paid_at = None, od_verified_at = None,
      od_delivered_at = None, od_completed_at = None, od_payment_txhash = None, od_kas_txhash = None, od_cancel_reason = None \<rparr>"

definition createOrder :: "env \<Rightarrow> trade_db \<Rightarrow> order_args \<Rightarrow> order_error + trade_db \<times> string" where
  "createOrder env db a =
    (let (oid, db1) = (case oa_id a of
           Some i \<Rightarrow> if i = [] then (env_uuid env (td_draws db), db\<lparr> td_draws := td_draws db + 1 \<rparr>) else (i, db)
         | None \<Rightarrow> (env_uuid env (td_draws db), db\<lparr> td_draws := td_draws db + 1 \<rparr>))
     in if oid \<in> set (map od_id (td_orders db)) then Inl DuplicateOrder
        else Inr (db1\<lparr> td_orders := td_orders db @ [new_order oid (env_now env) a] \<rparr>, oid))"

definition linkOrders :: "trade_db \<Rightarrow> string \<Rightarrow> string \<Rightarrow> trade_db" where
  "linkOrders db i j =
    db\<lparr> td_orders := update_where (\<lambda>r. od_id r = j) (\<lambda>r. r\<lparr> od_counter := Some i \<rparr>)
        (update_where (\<lambda>r. od_id r = i) (\<lambda>r. r\<lparr> od_counter := Some j \<rparr>) (td_orders db)) \<rparr>"

definition find_order :: "trade_db \<Rightarrow> string \<Rightarrow> order option" where
  "find_order db oid = find (\<lambda>r. od_id r = oid) (td_orders db)"

definition getOrder :: "trade_db \<Rightarrow> string \<Rightarrow> (order \<times> order option) option" where
  "getOrder db oid = (case find_order db oid of None \<Rightarrow> None
     | Some r \<Rightarrow> Some (r, case od_counter r of Some c \<Rightarrow> if c = [] then None else find_order db c | None \<Rightarrow> None))"

record order_filter =
  of_agent :: "string option"
  of_relay :: "string option"
  of_status :: "string option"
  of_limit :: nat

definition given_text :: "string option \<Rightarrow> (string \<Rightarrow> bool) \<Rightarrow> bool" where
  "given_text x p = (case x of Some t \<Rightarrow> t = [] \<or> p t | None \<Rightarrow> True)"

definition listOrders :: "trade_db \<Rightarrow> order_filter \<Rightarrow> order list" where
  "listOrders db f = take (of_limit f) (rev (sort_key od_created_at (rev (filter
     (\<lambda>r. given_text (of_agent f) (\<lambda>a. od_agent r = a) \<and> given_text (of_relay f) (\<lambda>a. od_relay r = a)
        \<and> given_text (of_status f) (\<lambda>t. if t = ''active'' then od_status r \<notin> {OCompleted, OCancelled, OExpired}
            else status_text (od_status r) = t)) (td_orders db)))))"

subsection \<open>One transition\<close>

definition set_timestamp :: "order_status \<Rightarrow> nat \<Rightarrow> order \<Rightarrow> order" where
  "set_timestamp s now r = (case s of
      OAccepted \<Rightarrow> r\<lparr> od_accepted_at := Some now \<rparr>
    | OPaying \<Rightarrow> r\<lparr> od_paid_at := Some now \<rparr>
    | OPaid \<Rightarrow> r\<lparr> od_paid_at := Some now \<rparr>
    | OVerified \<Rightarrow> r\<lparr> od_verified_at := Some now \<rparr>
    | ODelivering \<Rightarrow> r\<lparr> od_delivered_at := Some now \<rparr>
    | OPublished \<Rightarrow> r
    | OLegacy _ \<Rightarrow> r
    | _ \<Rightarrow> r\<lparr> od_completed_at := Some now \<rparr>)"

definition truthy :: "string option \<Rightarrow> bool" where
  "truthy x = (x \<noteq> None \<and> x \<noteq> Some [])"

text \<open>The \<open>SET\<close> list of the \<open>UPDATE\<close>.\<close>

definition order_update :: "nat \<Rightarrow> order_status \<Rightarrow> opts \<Rightarrow> order \<Rightarrow> order" where
  "order_update now s op r0 =
    (let r1 = set_timestamp s now (r0\<lparr> od_status := s \<rparr>);
         r2 = (if s = OPublished then r1\<lparr> od_accepted_at := None, od_peer := None, od_counter := None \<rparr> else r1);
         r3 = (if \<not> truthy (op_txHash op) then r2
               else if s \<in> {OPaid, OPaying} then r2\<lparr> od_payment_txhash := op_txHash op \<rparr>
               else if s \<in> {ODelivering, OCompleted} then r2\<lparr> od_kas_txhash := op_txHash op \<rparr> else r2)
     in if truthy (op_reason op) \<and> s \<in> {OCancelled, OExpired, ODisputed} then r3\<lparr> od_cancel_reason := op_reason op \<rparr> else r3)"

definition settle_locks :: "nat \<Rightarrow> string \<Rightarrow> order_status \<Rightarrow> lock_row list \<Rightarrow> lock_row list" where
  "settle_locks now oid s locks =
    (if s \<in> {OCompleted, OResolved} then fst (spendFunds locks now oid)
     else if s \<in> {OCancelled, OExpired, OPublished} then fst (releaseFunds locks now oid) else locks)"

text \<open>Everything \<open>_transitionTx\<close> writes for the order itself: the row, the fund locks, the chain event.\<close>

definition apply_transition :: "env \<Rightarrow> trade_db \<Rightarrow> order \<Rightarrow> order_status \<Rightarrow> opts \<Rightarrow> trade_db" where
  "apply_transition env db order s op =
    (let db1 = db\<lparr> td_orders := update_where (\<lambda>r. od_id r = od_id order \<and> od_status r = od_status order)
                     (order_update (env_now env) s op) (td_orders db),
                   td_locks := settle_locks (env_now env) (od_id order) s (td_locks db) \<rparr>
     in if truthy (op_txHash op)
        then db1\<lparr> td_draws := td_draws db1 + 1,
               td_events := recordChainEvent (td_events db1) (env_uuid env (td_draws db1)) (env_now env)
                 \<lparr> in_txid = the (op_txHash op), in_type = (if s \<in> {OPaying, OPaid} then ''payment'' else ''kas_delivery''),
                   in_from = Some (od_agent order), in_to = od_peer order, in_observed_by = ''system'',
                   in_payload = JsonPayload (JObj [(''orderId'', JStr (od_id order)), (''side'', JStr (od_side order)),
                     (''kasAmount'', env_num env (od_kas order)), (''status'', JStr (status_text s))]),
                   in_observed_at = None \<rparr> \<rparr>
        else db1)"

definition SYNC_STATES :: "order_status list" where
  "SYNC_STATES = [OPaid, OVerified, OCompleted, OCancelled, OExpired, ODisputed]"

text \<open>The order \<open>_syncCounterparty\<close> moves to the same status, if any.\<close>

definition sync_target :: "trade_db \<Rightarrow> order \<Rightarrow> order_status \<Rightarrow> string option" where
  "sync_target db order s =
    (if \<not> truthy (od_counter order) then None
     else case find_order db (the (od_counter order)) of
       None \<Rightarrow> None
     | Some c \<Rightarrow> if od_status c \<in> set TERMINAL_STATES then None
         else if s \<in> set SYNC_STATES \<and> od_status c \<noteq> s then Some (od_id c) else None)"

definition sync_opts :: "order \<Rightarrow> opts \<Rightarrow> opts" where
  "sync_opts order op = \<lparr> op_txHash = op_txHash op,
     op_reason = Some (''Synced from counterparty '' @ take 8 (od_id order)), op_force = True \<rparr>"

subsection \<open>The next automatic step\<close>

text \<open>\<open>observed_at > datetime('now', '-1 hour')\<close> compares an ISO text (\<open>2026-01-01T...Z\<close>) with SQLite's
  (\<open>2026-01-01 ...\<close>) as texts: on the same day the \<open>T\<close> is greater than the blank whatever the times.\<close>

definition DAY :: nat where "DAY = 86400000"
definition HOUR :: nat where "HOUR = 3600000"

definition iso_after_sqlite :: "nat \<Rightarrow> nat \<Rightarrow> bool" where
  "iso_after_sqlite t u = (t div DAY \<ge> u div DAY)"

definition recent_failures :: "env \<Rightarrow> trade_db \<Rightarrow> string \<Rightarrow> nat" where
  "recent_failures env db oid = count_where (\<lambda>e. env_like env (ev_payload e) oid \<and> ev_type e = ''payment_failed''
     \<and> iso_after_sqlite (ev_observed_at e) (env_now env - HOUR)) (db_events (td_events db))"

definition MAX_AUTO_FAILURES :: nat where "MAX_AUTO_FAILURES = 3"

definition next_action :: "order \<Rightarrow> string option" where
  "next_action r = (if od_status r = OVerified \<and> od_side r = ''sell'' then Some ''send_kas''
     else if od_status r = OAccepted \<and> od_side r = ''buy'' then Some ''pay_usdt'' else None)"

definition trade_mode :: "trade_db \<Rightarrow> order \<Rightarrow> string" where
  "trade_mode db r = (if od_mode r \<noteq> [] then od_mode r
     else if truthy (td_mode db) then the (td_mode db) else ''manual'')"

definition approval_args :: "env \<Rightarrow> order \<Rightarrow> string \<Rightarrow> exec_args" where
  "approval_args env r action =
    (let usdtAmt = (if od_usdt r \<noteq> 0 then od_usdt r else od_kas r * od_price r)
     in \<lparr> ea_order = Some (od_id r), ea_type = action, ea_source = ''system'', ea_agent = od_agent r,
          ea_permission = ''owner'', ea_amount = Some (if action = ''send_kas'' then od_kas r else usdtAmt),
          ea_asset = Some (if action = ''send_kas'' then ''kas'' else ''usdt_'' @ (if od_chain r = [] then ''bnb'' else od_chain r)),
          ea_intent = None, ea_input_txid = None, ea_approval_timeout = 15,
          ea_display_summary = Some (env_summary env action r), ea_action_details = None, ea_approval_deadline = None \<rparr>)"

definition autoAdvance :: "env \<Rightarrow> trade_db \<Rightarrow> order option \<Rightarrow> trade_db" where
  "autoAdvance env db order =
    (case order of None \<Rightarrow> db
     | Some r \<Rightarrow>
       (let mode = trade_mode db r in
        if mode = ''manual'' then db
        else case next_action r of
          None \<Rightarrow> db
        | Some action \<Rightarrow>
          if MAX_AUTO_FAILURES \<le> recent_failures env db (od_id r) then db
          else if mode = ''auto'' then db\<lparr> td_outbox := td_outbox db @ [(od_id r, action)] \<rparr>
          else if mode = ''approval'' then
            (case createExecution (td_execs db) (env_uuid env (td_draws db)) (env_now env) (approval_args env r action) of
               Inl e \<Rightarrow> db
             | Inr (execs, h) \<Rightarrow> db\<lparr> td_execs := execs, td_draws := td_draws db + 1 \<rparr>)
          else db))"

subsection \<open>The transition with its cascade\<close>

text \<open>The measure: twice the orders not in the target status, plus one when the order itself is in it.\<close>

definition off_target :: "order list \<Rightarrow> order_status \<Rightarrow> nat" where
  "off_target rows s = length (filter (\<lambda>r. od_status r \<noteq> s) rows)"

definition cascade_measure :: "trade_db \<Rightarrow> string \<Rightarrow> order_status \<Rightarrow> nat" where
  "cascade_measure db oid s = 2 * off_target (td_orders db) s
     + (case find_order db oid of Some r \<Rightarrow> if od_status r = s then 1 else 0 | None \<Rightarrow> 0)"

lemma set_timestamp_keeps [simp]: "od_id (set_timestamp s now r) = od_id r" "od_status (set_timestamp s now r) = od_status r"
  "od_counter (set_timestamp s now r) = od_counter r" "od_timeout (set_timestamp s now r) = od_timeout r"
  by (cases s; simp add: set_timestamp_def)+

lemma order_update_keeps [simp]: "od_id (order_update now s op r) = od_id r" "od_status (order_update now s op r) = s"
  by (simp_all add: order_update_def Let_def)

lemma apply_orders [simp]: "td_orders (apply_transition env db order s op) =
    update_where (\<lambda>r. od_id r = od_id order \<and> od_status r = od_status order) (order_update (env_now env) s op) (td_orders db)"
  by (simp add: apply_transition_def Let_def)

lemma off_target_le: "off_target (update_where p (order_update now s op) rows) s \<le> off_target rows s"
  by (induction rows) (auto simp: off_target_def)

lemma off_target_less:
  "r \<in> set rows \<Longrightarrow> p r \<Longrightarrow> od_status r \<noteq> s \<Longrightarrow> off_target (update_where p (order_update now s op) rows) s < off_target rows s"
proof (induction rows)
  case (Cons q rows)
  show ?case
  proof (cases "r = q")
    case True
    then show ?thesis using Cons.prems off_target_le [of p now s op rows] by (simp add: off_target_def less_Suc_eq_le)
  next
    case False
    then have "off_target (update_where p (order_update now s op) rows) s < off_target rows s" using Cons by simp
    then show ?thesis by (auto simp: off_target_def)
  qed
qed simp

lemma find_order_Some: "find_order db oid = Some r \<Longrightarrow> r \<in> set (td_orders db) \<and> od_id r = oid"
  unfolding find_order_def by (rule find_key_Some)

lemma sync_target_Some:
  assumes "sync_target db order s = Some cid"
  obtains c where "find_order db cid = Some c" "od_status c \<noteq> s" "od_status c \<notin> set TERMINAL_STATES" "s \<in> set SYNC_STATES"
    "od_counter order = Some cid"
proof -
  obtain c where c: "find_order db (the (od_counter order)) = Some c" "od_id c = cid" "od_status c \<notin> set TERMINAL_STATES"
    "s \<in> set SYNC_STATES" "od_status c \<noteq> s" "truthy (od_counter order)"
    using assms by (auto simp: sync_target_def split: if_splits option.splits)
  have "the (od_counter order) = cid" using find_order_Some [OF c(1)] c(2) by simp
  then show ?thesis using that c by (auto simp: truthy_def)
qed

lemma cascade_decreases:
  assumes "find_order db oid = Some order" "sync_target (apply_transition env db order s op) order s = Some cid"
  shows "cascade_measure (apply_transition env db order s op) cid s < cascade_measure db oid s"
proof -
  let ?db1 = "apply_transition env db order s op"
  obtain c where "find_order ?db1 cid = Some c" "od_status c \<noteq> s" using assms(2) by (rule sync_target_Some)
  then have m: "cascade_measure ?db1 cid s = 2 * off_target (td_orders ?db1) s" by (simp add: cascade_measure_def)
  show ?thesis
  proof (cases "od_status order = s")
    case True
    then show ?thesis unfolding m using assms(1) off_target_le
      by (simp add: cascade_measure_def less_Suc_eq_le)
  next
    case False
    then show ?thesis unfolding m using off_target_less [of order "td_orders db"] find_order_Some [OF assms(1)] assms(1)
      by (simp add: cascade_measure_def)
  qed
qed

function transition :: "env \<Rightarrow> trade_db \<Rightarrow> string \<Rightarrow> order_status \<Rightarrow> opts \<Rightarrow> trade_db \<times> (order_error + order option)" where
  "transition env db oid s op =
    (case find_order db oid of
       None \<Rightarrow> (db, Inl OrderNotFound)
     | Some order \<Rightarrow>
       if \<not> op_force op \<and> s \<notin> set (VALID_TRANSITIONS (od_status order)) then (db, Inl (BadTransition (od_status order) s))
       else if count_where (\<lambda>r. od_id r = oid \<and> od_status r = od_status order) (td_orders db) = 0
         then (db, Inl (OptimisticLock oid))
       else
         (let db1 = apply_transition env db order s op;
              db2 = (case sync_target db1 order s of
                  None \<Rightarrow> db1 | Some cid \<Rightarrow> fst (transition env db1 cid s (sync_opts order op)));
              updated = find_order db2 oid
          in (autoAdvance env db2 updated, Inr updated)))"
  by pat_completeness auto
termination
  by (relation "measure (\<lambda>(env, db, oid, s, op). cascade_measure db oid s)") (auto intro: cascade_decreases)

declare transition.simps [simp del]

subsection \<open>The sweep of timed-out orders\<close>

definition POST_PAYMENT_STATUSES :: "order_status list" where
  "POST_PAYMENT_STATUSES = [OPaid, OVerified, ODelivering]"

definition sweep_candidates :: "trade_db \<Rightarrow> order list" where
  "sweep_candidates db = filter (\<lambda>r. od_status r \<notin> {OCompleted, OCancelled, OExpired, OResolved, ODisputed} \<and> 0 < od_timeout r) (td_orders db)"

definition timed_out :: "nat \<Rightarrow> order \<Rightarrow> bool" where
  "timed_out now r \<longleftrightarrow> int now - int (case od_accepted_at r of Some t \<Rightarrow> t | None \<Rightarrow> od_created_at r) \<ge> od_timeout r * 60000"

definition timeout_opts :: "order \<Rightarrow> opts" where
  "timeout_opts r = \<lparr> op_txHash = None, op_reason = Some (''Timeout after '' @ int_str (od_timeout r) @ '' minutes''
     @ (if od_status r \<in> set POST_PAYMENT_STATUSES then '' (post-payment protection)'' else [])), op_force = False \<rparr>"

definition sweep_status :: "order \<Rightarrow> order_status" where
  "sweep_status r = (if od_status r \<in> set POST_PAYMENT_STATUSES then ODisputed else OExpired)"

definition sweep_one :: "env \<Rightarrow> order \<Rightarrow> trade_db \<times> nat \<Rightarrow> trade_db \<times> nat" where
  "sweep_one env r = (\<lambda>(db, n).
     if timed_out (env_now env) r
     then (case transition env db (od_id r) (sweep_status r) (timeout_opts r) of
             (db', Inr _) \<Rightarrow> (db', n + 1) | (db', Inl _) \<Rightarrow> (db', n))
     else (db, n))"

definition expireTimedOut :: "env \<Rightarrow> trade_db \<Rightarrow> trade_db \<times> nat" where
  "expireTimedOut env db = fold (sweep_one env) (sweep_candidates db) (db, 0)"

end
