(* ===== verification/Order_Safety.thy ===== *)
theory Order_Safety
  imports Orders
begin

section \<open>Safety of the order machine\<close>

text \<open>
  What one transition with its cascade does to every order and every fund lock, and what follows for all
  histories: final states, funds of closed orders, the sweep of timed-out orders, and where the
  protection of paid orders has a hole.
\<close>

definition order_state :: "trade_db \<Rightarrow> string \<Rightarrow> order_status option" where
  "order_state db i = map_option od_status (find_order db i)"

definition closing :: "order_status \<Rightarrow> bool" where
  "closing s \<longleftrightarrow> s \<in> {OCompleted, OResolved, OCancelled, OExpired, OPublished}"

lemma autoAdvance_keeps [simp]:
  "td_orders (autoAdvance env db r) = td_orders db" "td_locks (autoAdvance env db r) = td_locks db"
  "td_events (autoAdvance env db r) = td_events db"
  by (auto simp: autoAdvance_def Let_def split: option.splits sum.splits)

lemma find_autoAdvance [simp]: "find_order (autoAdvance env db r) i = find_order db i"
  by (simp add: find_order_def)

lemma state_autoAdvance [simp]: "order_state (autoAdvance env db r) i = order_state db i"
  by (simp add: order_state_def)

lemma apply_state:
  assumes "find_order db oid = Some order"
  shows "order_state (apply_transition env db order s op) i = (if i = oid then Some s else order_state db i)"
proof -
  let ?p = "\<lambda>r. od_id r = od_id order \<and> od_status r = od_status order"
  have oid: "od_id order = oid" using find_order_Some [OF assms] by simp
  have upd: "find (\<lambda>r. od_id r = i) (update_where ?p (order_update (env_now env) s op) (td_orders db))
      = map_option (\<lambda>r. if ?p r then order_update (env_now env) s op r else r) (find (\<lambda>r. od_id r = i) (td_orders db))"
    by (rule find_update_where) simp
  show ?thesis
  proof (cases "i = oid")
    case True
    then show ?thesis using assms upd oid by (simp add: order_state_def find_order_def)
  next
    case False
    then have "\<not> ?p r" if "find (\<lambda>r. od_id r = i) (td_orders db) = Some r" for r
      using find_key_Some [OF that] oid by simp
    then show ?thesis using False upd
      by (cases "find (\<lambda>r. od_id r = i) (td_orders db)") (auto simp: order_state_def find_order_def)
  qed
qed

lemma apply_locks: "td_locks (apply_transition env db order s op) = settle_locks (env_now env) (od_id order) s (td_locks db)"
  by (simp add: apply_transition_def Let_def)

lemma settle_locks_active:
  "active_assets (settle_locks now oid s locks) i = (if i = oid \<and> closing s then {} else active_assets locks i)"
  using released.active_close [of locks now oid i] spent.active_close [of locks now oid i]
  by (auto simp: settle_locks_def closing_def)

lemma found_count: "find_order db oid = Some r \<Longrightarrow> count_where (\<lambda>q. od_id q = oid \<and> od_status q = od_status r) (td_orders db) \<noteq> 0"
  using find_order_Some [of db oid r] by (auto simp: count_where_0)

text \<open>The lock on the status cannot fail inside one transaction, so a transition is refused exactly when the
  order is missing or the move is not in the table.\<close>

lemma transition_step:
  assumes "find_order db oid = Some order" "op_force op \<or> s \<in> set (VALID_TRANSITIONS (od_status order))"
  shows "transition env db oid s op =
    (let db1 = apply_transition env db order s op;
         db2 = (case sync_target db1 order s of None \<Rightarrow> db1 | Some cid \<Rightarrow> fst (transition env db1 cid s (sync_opts order op)))
     in (autoAdvance env db2 (find_order db2 oid), Inr (find_order db2 oid)))"
  using assms found_count [OF assms(1)] by (subst transition.simps) (auto simp: Let_def)

lemma transition_refused:
  "find_order db oid = None \<Longrightarrow> transition env db oid s op = (db, Inl OrderNotFound)"
  "find_order db oid = Some order \<Longrightarrow> \<not> op_force op \<Longrightarrow> s \<notin> set (VALID_TRANSITIONS (od_status order)) \<Longrightarrow>
    transition env db oid s op = (db, Inl (BadTransition (od_status order) s))"
  by (subst transition.simps, simp)+

definition accepted :: "trade_db \<Rightarrow> string \<Rightarrow> order_status \<Rightarrow> opts \<Rightarrow> bool" where
  "accepted db oid s op \<longleftrightarrow> (\<exists>c. order_state db oid = Some c \<and> (op_force op \<or> s \<in> set (VALID_TRANSITIONS c)))"

lemma not_accepted: "\<not> accepted db oid s op \<Longrightarrow> fst (transition env db oid s op) = db \<and> (\<exists>e. snd (transition env db oid s op) = Inl e)"
  using transition_refused by (cases "find_order db oid") (auto simp: accepted_def order_state_def)

text \<open>The effect of the whole cascade.\<close>

definition synced :: "order_status \<Rightarrow> order_status \<Rightarrow> bool" where
  "synced c s \<longleftrightarrow> c \<notin> set TERMINAL_STATES \<and> s \<in> set SYNC_STATES \<and> c \<noteq> s"

definition cascade_ok :: "trade_db \<Rightarrow> trade_db \<Rightarrow> string \<Rightarrow> order_status \<Rightarrow> bool" where
  "cascade_ok db db' oid s \<longleftrightarrow> order_state db' oid = Some s
     \<and> (\<forall>i. i \<noteq> oid \<longrightarrow> order_state db' i = order_state db i
          \<or> (order_state db' i = Some s \<and> (\<exists>c. order_state db i = Some c \<and> synced c s)))
     \<and> (\<forall>i. active_assets (td_locks db') i = (if closing s \<and> (i = oid \<or> order_state db' i \<noteq> order_state db i) then {} else active_assets (td_locks db) i))"

lemma cascade:
  "accepted db oid s op \<Longrightarrow> cascade_ok db (fst (transition env db oid s op)) oid s
     \<and> (\<exists>r. snd (transition env db oid s op) = Inr (Some r) \<and> od_id r = oid \<and> od_status r = s)"
proof (induction env db oid s op rule: transition.induct)
  case (1 env db oid s op)
  obtain order where o: "find_order db oid = Some order" "op_force op \<or> s \<in> set (VALID_TRANSITIONS (od_status order))"
    using "1.prems" by (auto simp: accepted_def order_state_def)
  let ?db1 = "apply_transition env db order s op"
  have oid: "od_id order = oid" using find_order_Some [OF o(1)] by simp
  note st = apply_state [OF o(1), of env s op]
  have lk: "active_assets (td_locks ?db1) i = (if i = oid \<and> closing s then {} else active_assets (td_locks db) i)" for i
    by (simp add: apply_locks settle_locks_active oid)
  have "cascade_ok db (fst (transition env db oid s op)) oid s"
  proof (cases "sync_target ?db1 order s")
    case None
    then show ?thesis unfolding transition_step [OF o] Let_def using st lk by (auto simp: cascade_ok_def)
  next
    case (Some cid)
    let ?db2 = "fst (transition env ?db1 cid s (sync_opts order op))"
    obtain c where c: "find_order ?db1 cid = Some c" "od_status c \<noteq> s" "od_status c \<notin> set TERMINAL_STATES" "s \<in> set SYNC_STATES"
      using Some by (rule sync_target_Some)
    have cst: "order_state ?db1 cid = Some (od_status c)" using c(1) by (simp add: order_state_def)
    then have ne: "cid \<noteq> oid" using c(2) st by auto
    have "accepted ?db1 cid s (sync_opts order op)" using cst by (simp add: accepted_def sync_opts_def)
    then have ok: "cascade_ok ?db1 ?db2 cid s"
      using "1.IH" [OF o(1) _ _ refl Some] o(2) found_count [OF o(1)] by auto
    have two: "order_state ?db2 i = (if i = oid then Some s else order_state ?db2 i)" for i
      using ok ne st [of oid] by (auto simp: cascade_ok_def synced_def)
    have other: "order_state ?db2 i = order_state db i \<or> (order_state ?db2 i = Some s \<and> (\<exists>c. order_state db i = Some c \<and> synced c s))"
      if "i \<noteq> oid" for i
    proof (cases "i = cid")
      case True
      then show ?thesis using ok cst c st [of cid] ne by (auto simp: cascade_ok_def synced_def)
    next
      case False
      then show ?thesis using ok st [of i] that by (auto simp: cascade_ok_def)
    qed
    have locks: "active_assets (td_locks ?db2) i = (if closing s \<and> (i = oid \<or> order_state ?db2 i \<noteq> order_state db i) then {} else active_assets (td_locks db) i)" for i
    proof (cases "i = oid")
      case True
      then show ?thesis using ok lk [of oid] two [of oid] st [of oid] ne by (auto simp: cascade_ok_def)
    next
      case False
      then have "order_state ?db1 i = order_state db i" using st [of i] by simp
      moreover have "order_state db cid \<noteq> Some s" "order_state ?db2 cid = Some s" using cst c(2) st [of cid] ne ok by (auto simp: cascade_ok_def)
      ultimately show ?thesis using ok lk [of i] False by (auto simp: cascade_ok_def)
    qed
    show ?thesis unfolding transition_step [OF o] Let_def Some option.case fst_conv
      using two [of oid] other locks by (simp add: cascade_ok_def)
  qed
  moreover have "snd (transition env db oid s op) = Inr (find_order (fst (transition env db oid s op)) oid)"
    unfolding transition_step [OF o] by (simp add: Let_def)
  ultimately show ?case by (auto simp: cascade_ok_def order_state_def dest: find_order_Some)
qed

lemma count_where_mono: "(\<And>r. p r \<Longrightarrow> q r) \<Longrightarrow> count_where p rows \<le> count_where q rows"
  by (induction rows) (auto simp: count_where_def)

subsection \<open>Histories\<close>

definition order_edge :: "order_status \<Rightarrow> order_status \<Rightarrow> bool" where
  "order_edge c s \<longleftrightarrow> s \<in> set (VALID_TRANSITIONS c) \<or> synced c s"

lemma transition_moves_along:
  assumes "op_force op = False \<or> i \<noteq> oid" "order_state db i = Some c"
  shows "\<exists>c'. order_state (fst (transition env db oid s op)) i = Some c' \<and> (c' = c \<or> (c' = s \<and> order_edge c s))"
proof (cases "accepted db oid s op")
  case True
  then have ok: "cascade_ok db (fst (transition env db oid s op)) oid s" using cascade by blast
  show ?thesis
  proof (cases "i = oid")
    case True
    then show ?thesis using ok \<open>accepted db oid s op\<close> assms by (auto simp: cascade_ok_def accepted_def order_edge_def)
  next
    case False
    then show ?thesis using ok assms(2) by (auto simp: cascade_ok_def order_edge_def)
  qed
next
  case False
  then show ?thesis using not_accepted assms(2) by auto
qed

lemma sweep_one_fst: "fst (sweep_one env r (db, n)) = (if timed_out (env_now env) r then fst (transition env db (od_id r) (sweep_status r) (timeout_opts r)) else db)"
  by (auto simp: sweep_one_def split: prod.splits sum.splits)

lemma timeout_opts_force [simp]: "op_force (timeout_opts r) = False"
  by (simp add: timeout_opts_def)

lemma sweep_edge:
  "order_state db i = Some c \<Longrightarrow> \<exists>c'. order_state (fst (fold (sweep_one env) rs (db, n))) i = Some c' \<and> order_edge\<^sup>*\<^sup>* c c'"
proof (induction rs arbitrary: db n c)
  case (Cons r rs)
  obtain db1 n1 where s1: "sweep_one env r (db, n) = (db1, n1)" by fastforce
  obtain c1 where c1: "order_state db1 i = Some c1" "order_edge\<^sup>*\<^sup>* c c1"
    using transition_moves_along [of "timeout_opts r" i "od_id r" db c env "sweep_status r"] Cons.prems sweep_one_fst [of env r db n] s1
    by (auto split: if_splits)
  obtain c2 where "order_state (fst (fold (sweep_one env) rs (db1, n1))) i = Some c2" "order_edge\<^sup>*\<^sup>* c1 c2"
    using Cons.IH [OF c1(1)] by blast
  then show ?case using c1(2) s1 by (auto intro: rtranclp_trans)
qed simp

text \<open>The orders in \<open>F\<close> may be forced, as the mind manager and the endpoints of \<open>api/trading.js\<close> do; the others are not.\<close>

inductive market_step :: "string set \<Rightarrow> trade_db \<Rightarrow> trade_db \<Rightarrow> bool" for F where
  create: "createOrder env db a = Inr (db', i) \<Longrightarrow> market_step F db db'"
| link: "market_step F db (linkOrders db i j)"
| move: "op_force op = False \<or> oid \<in> F \<Longrightarrow> transition env db oid s op = (db', r) \<Longrightarrow> market_step F db db'"
| sweep: "expireTimedOut env db = (db', n) \<Longrightarrow> market_step F db db'"
| locks: "lock_step cap (td_locks db) locks \<Longrightarrow> market_step F db (db\<lparr> td_locks := locks \<rparr>)"
| execs: "exec_step (td_execs db) rows \<Longrightarrow> market_step F db (db\<lparr> td_execs := rows \<rparr>)"

lemma create_state: "createOrder env db a = Inr (db', j) \<Longrightarrow> order_state db i = Some c \<Longrightarrow> order_state db' i = Some c"
  by (auto simp: createOrder_def order_state_def find_order_def find_append split: option.splits if_splits)

lemma link_state [simp]: "order_state (linkOrders db i j) k = order_state db k"
proof -
  have "find (\<lambda>r. od_id r = k) (update_where (\<lambda>r. od_id r = a) (\<lambda>r. r\<lparr> od_counter := b \<rparr>) rows)
      = map_option (\<lambda>r. if od_id r = a then r\<lparr> od_counter := b \<rparr> else r) (find (\<lambda>r. od_id r = k) rows)" for a b and rows :: "order list"
    by (rule find_update_where) simp
  then show ?thesis by (auto simp: linkOrders_def order_state_def find_order_def option.map_comp comp_def intro!: option.map_cong0)
qed

lemma market_step_edge:
  assumes "market_step F db db'" "i \<notin> F" "order_state db i = Some c"
  shows "\<exists>c'. order_state db' i = Some c' \<and> order_edge\<^sup>*\<^sup>* c c'"
  using assms(1)
proof (cases rule: market_step.cases)
  case (create env a j)
  then show ?thesis using create_state assms(3) by blast
next
  case (link j k)
  then show ?thesis using assms(3) by simp
next
  case (move op oid env s r)
  have "op_force op = False \<or> i \<noteq> oid" using move(1) assms(2) by auto
  from transition_moves_along [OF this assms(3), of env s] show ?thesis using move(2) by auto
next
  case (sweep env n)
  then show ?thesis using sweep_edge [OF assms(3), of env "sweep_candidates db" 0] by (simp add: expireTimedOut_def)
next
  case (locks cap l)
  then show ?thesis using assms(3) by (auto simp: order_state_def find_order_def)
next
  case (execs rows)
  then show ?thesis using assms(3) by (auto simp: order_state_def find_order_def)
qed

definition unforced_state :: "string set \<Rightarrow> trade_db \<Rightarrow> string \<Rightarrow> order_status option" where
  "unforced_state F db i = (if i \<in> F then None else order_state db i)"

interpretation orderm: status_machine "unforced_state F" "market_step F" order_edge for F
  by unfold_locales (use market_step_edge in \<open>auto simp: unforced_state_def split: if_splits\<close>)

lemma partner_follows:
  assumes "find_order db oid = Some order" "accepted db oid s op" "s \<in> set SYNC_STATES" "od_counter order = Some c" "c \<noteq> []"
    and "order_state db c = Some t" "t \<notin> set TERMINAL_STATES"
  shows "order_state (fst (transition env db oid s op)) c = Some s"
proof (cases "c = oid")
  case True
  then show ?thesis using cascade [OF assms(2), of env] by (simp add: cascade_ok_def)
next
  case False
  have o: "op_force op \<or> s \<in> set (VALID_TRANSITIONS (od_status order))"
    using assms(1,2) by (auto simp: accepted_def order_state_def)
  let ?db1 = "apply_transition env db order s op"
  have st: "order_state ?db1 c = Some t" using False assms(6) by (simp add: apply_state [OF assms(1)])
  then obtain q where q: "find_order ?db1 c = Some q" "od_status q = t" by (auto simp: order_state_def)
  have id: "od_id q = c" using find_order_Some [OF q(1)] by simp
  show ?thesis
  proof (cases "t = s")
    case True
    have "cascade_ok db (fst (transition env db oid s op)) oid s" using cascade [OF assms(2)] by blast
    then show ?thesis using assms(6) True False by (auto simp: cascade_ok_def)
  next
    case ne: False
    then have tgt: "sync_target ?db1 order s = Some c"
      using assms(3,4,5,7) q id by (auto simp: sync_target_def truthy_def)
    have "accepted ?db1 c s (sync_opts order op)" using st by (simp add: accepted_def sync_opts_def)
    then have "order_state (fst (transition env ?db1 c s (sync_opts order op))) c = Some s"
      using cascade by (auto simp: cascade_ok_def)
    then show ?thesis unfolding transition_step [OF assms(1) o] Let_def tgt by simp
  qed
qed

subsection \<open>Properties\<close>

text \<open>A completed, cancelled, expired or resolved order that nobody forces never changes its status again, whatever
  orders are created, linked, moved, forced or swept afterwards.\<close>

theorem closed_orders_final:
  assumes "(market_step F)\<^sup>*\<^sup>* db db'" "i \<notin> F" "order_state db i = Some c" "c \<in> {OCompleted, OCancelled, OExpired, OResolved}"
  shows "order_state db' i = Some c"
proof -
  have "unforced_state F db i = Some c" using assms(2,3) by (simp add: unforced_state_def)
  then have "unforced_state F db' i = Some c"
    by (rule orderm.terminal_absorbing [OF assms(1)]) (use assms(4) in \<open>auto simp: order_edge_def synced_def TERMINAL_STATES_def\<close>)
  then show ?thesis by (simp add: unforced_state_def split: if_splits)
qed

text \<open>A transition is accepted exactly when the order exists and the move is forced or in the table;
  otherwise nothing in the database changes.  Accepted, it returns the order in the new status.\<close>

theorem transition_accepts_iff:
  "(case snd (transition env db oid s op) of
      Inl e \<Rightarrow> \<not> accepted db oid s op \<and> fst (transition env db oid s op) = db
    | Inr r \<Rightarrow> accepted db oid s op \<and> order_state (fst (transition env db oid s op)) oid = Some s
        \<and> map_option od_status r = Some s)"
proof (cases "accepted db oid s op")
  case True
  then show ?thesis using cascade [OF True, of env] by (auto simp: cascade_ok_def)
next
  case False
  then show ?thesis using not_accepted [OF False, of env] by auto
qed

text \<open>C7: whatever order a transition moves into a closed state, itself or along the chain of
  counterparties, keeps no active fund lock, and no other order's locks are touched.\<close>

theorem transition_settles_funds:
  assumes "accepted db oid s op"
  shows "active_assets (td_locks (fst (transition env db oid s op))) i =
    (if closing s \<and> (i = oid \<or> order_state (fst (transition env db oid s op)) i \<noteq> order_state db i)
     then {} else active_assets (td_locks db) i)"
  using cascade [OF assms, of env] by (simp add: cascade_ok_def)

text \<open>After a move to a shared status the linked order follows: it is in the same status unless it was
  already final or escalated.\<close>

theorem counterparty_follows:
  assumes "find_order db oid = Some order" "accepted db oid s op" "s \<in> set SYNC_STATES" "od_counter order = Some c" "c \<noteq> []"
    and "order_state db c = Some t" "t \<notin> set TERMINAL_STATES"
  shows "order_state (fst (transition env db oid s op)) c = Some s"
  using partner_follows assms .

subsection \<open>A small market\<close>

definition ex_order :: "string \<Rightarrow> order_status \<Rightarrow> string option \<Rightarrow> order" where
  "ex_order i s c = \<lparr> od_id = i, od_relay = ''r'', od_agent = ''agent'', od_side = ''buy'', od_kas = 10, od_usdt = 1, od_price = 1/10,
     od_chain = ''bnb'', od_peer = None, od_counter = c, od_broadcast = None, od_mode = ''manual'', od_status = s,
     od_timeout = 30, od_created_at = 0, od_accepted_at = None, od_paid_at = None, od_verified_at = None,
     od_delivered_at = None, od_completed_at = None, od_payment_txhash = None, od_kas_txhash = None, od_cancel_reason = None \<rparr>"

definition ex_env :: env where
  "ex_env = \<lparr> env_now = 100000000, env_uuid = nat_str, env_num = (\<lambda>_. JInt 10), env_like = (\<lambda>_ _. True), env_summary = (\<lambda>_ _. []) \<rparr>"

definition ex_market :: "order list \<Rightarrow> trade_db" where
  "ex_market rows = \<lparr> td_orders = rows, td_locks = [\<lparr> lk_id = ''l'', lk_agent = ''agent'', lk_order = ''A'', lk_asset = ''kas'',
     lk_amount = 10, lk_status = Locked, lk_created_at = 0, lk_released_at = None \<rparr>],
     td_events = no_events, td_execs = [], td_mode = None, td_outbox = [], td_draws = 0 \<rparr>"

definition plain :: opts where "plain = \<lparr> op_txHash = None, op_reason = None, op_force = False \<rparr>"

lemma ex_state: "order_state (ex_market [ex_order ''A'' s c, ex_order ''B'' t d]) ''A'' = Some s"
  "order_state (ex_market [ex_order ''A'' s c, ex_order ''B'' t d]) ''B'' = Some t"
  by (simp_all add: order_state_def find_order_def ex_market_def ex_order_def)

lemma order_found_iff: "find_order (ex_market [ex_order ''A'' s c, ex_order ''B'' t d]) ''B'' = Some (ex_order ''B'' t d)"
  by (simp add: find_order_def ex_market_def ex_order_def)

lemma ex_accepted: "t = OAccepted \<Longrightarrow> accepted (ex_market [ex_order ''A'' s c, ex_order ''B'' t d]) ''B'' OCancelled plain"
  by (simp add: accepted_def ex_state)

theorem closed_orders_final_witness:
  "(market_step {''B''})\<^sup>*\<^sup>* (ex_market [ex_order ''A'' OCompleted None, ex_order ''B'' OAccepted (Some ''A'')])
      (linkOrders (ex_market [ex_order ''A'' OCompleted None, ex_order ''B'' OAccepted (Some ''A'')]) ''A'' ''B'')
   \<and> order_state (linkOrders (ex_market [ex_order ''A'' OCompleted None, ex_order ''B'' OAccepted (Some ''A'')]) ''A'' ''B'') ''A'' = Some OCompleted"
proof -
  let ?m = "ex_market [ex_order ''A'' OCompleted None, ex_order ''B'' OAccepted (Some ''A'')]"
  have steps: "(market_step {''B''})\<^sup>*\<^sup>* ?m (linkOrders ?m ''A'' ''B'')" by (rule r_into_rtranclp [of "market_step {''B''}"]) (rule market_step.link)
  show ?thesis using closed_orders_final [OF steps, of "''A''" OCompleted] steps by (simp add: ex_state)
qed

theorem transition_settles_funds_witness:
  "active_assets (td_locks (ex_market [ex_order ''A'' OAccepted None, ex_order ''B'' OAccepted (Some ''A'')])) ''A'' \<noteq> {}
   \<and> active_assets (td_locks (fst (transition ex_env (ex_market [ex_order ''A'' OAccepted None, ex_order ''B'' OAccepted (Some ''A'')]) ''B'' OCancelled plain))) ''A'' = {}"
proof -
  let ?m = "ex_market [ex_order ''A'' OAccepted None, ex_order ''B'' OAccepted (Some ''A'')]"
  have acc: "accepted ?m ''B'' OCancelled plain" by (rule ex_accepted) simp
  have "order_state (fst (transition ex_env ?m ''B'' OCancelled plain)) ''A'' = Some OCancelled"
    using partner_follows [OF order_found_iff acc, of "''A''" OAccepted ex_env] by (simp add: ex_order_def ex_state [unfolded ex_order_def] SYNC_STATES_def TERMINAL_STATES_def)
  then have "active_assets (td_locks (fst (transition ex_env ?m ''B'' OCancelled plain))) ''A'' = {}"
    using transition_settles_funds [OF acc, of ex_env "''A''"] by (simp add: ex_state closing_def)
  moreover have "active_assets (td_locks ?m) ''A'' \<noteq> {}" by (simp add: active_assets_def ex_market_def of_order_def)
  ultimately show ?thesis by blast
qed

theorem counterparty_follows_witness:
  "order_state (fst (transition ex_env (ex_market [ex_order ''A'' OPublished None, ex_order ''B'' OAccepted (Some ''A'')]) ''B'' OCancelled plain)) ''A'' = Some OCancelled"
  by (rule counterparty_follows [OF order_found_iff]) (simp_all add: ex_accepted ex_state SYNC_STATES_def TERMINAL_STATES_def, simp_all add: ex_order_def)

text \<open>The protection of the paying side has a hole: a published or accepted order that names a paid
  order as its counterparty cancels, and the paid order is cancelled with it and its funds are released,
  although the table allows a paid order only verification or dispute.\<close>

theorem paid_order_cancelled_by_partner:
  assumes "t \<in> {OPublished, OAccepted}"
  shows "OCancelled \<notin> set (VALID_TRANSITIONS OPaid)
    \<and> order_state (fst (transition ex_env (ex_market [ex_order ''A'' OPaid None, ex_order ''B'' t (Some ''A'')]) ''B'' OCancelled plain)) ''A'' = Some OCancelled
    \<and> active_assets (td_locks (fst (transition ex_env (ex_market [ex_order ''A'' OPaid None, ex_order ''B'' t (Some ''A'')]) ''B'' OCancelled plain))) ''A'' = {}"
proof -
  let ?m = "ex_market [ex_order ''A'' OPaid None, ex_order ''B'' t (Some ''A'')]"
  have acc: "accepted ?m ''B'' OCancelled plain" using assms by (auto simp: accepted_def ex_state)
  have st: "order_state (fst (transition ex_env ?m ''B'' OCancelled plain)) ''A'' = Some OCancelled"
    by (rule partner_follows [OF order_found_iff acc]) (simp_all add: ex_state SYNC_STATES_def TERMINAL_STATES_def, simp_all add: ex_order_def)
  then show ?thesis using cascade [OF acc, of ex_env] by (auto simp: cascade_ok_def ex_state closing_def)
qed

theorem paid_order_cancelled_by_partner_witness:
  "order_state (fst (transition ex_env (ex_market [ex_order ''A'' OPaid None, ex_order ''B'' OAccepted (Some ''A'')]) ''B'' OCancelled plain)) ''A'' = Some OCancelled"
  using paid_order_cancelled_by_partner [of OAccepted] by simp

subsection \<open>The sweep\<close>

definition in_progress :: "order_status option \<Rightarrow> bool" where
  "in_progress c \<longleftrightarrow> c \<in> Some ` {OPublished, OAccepted, OPaying, OPaid, OVerified, ODelivering}"

lemma sweep_target: "sweep_status r \<in> {ODisputed, OExpired}"
  by (simp add: sweep_status_def)

lemma sweep_keeps_out:
  assumes "order_state db i = Some c"
  shows "\<exists>c'. order_state (fst (sweep_one env r (db, n))) i = Some c' \<and> (c' = c \<or> \<not> in_progress (Some c'))"
proof -
  obtain c' where "order_state (fst (transition env db (od_id r) (sweep_status r) (timeout_opts r))) i = Some c'" "c' = c \<or> c' = sweep_status r"
    using transition_moves_along [of "timeout_opts r" i "od_id r" db c env] assms by auto
  then show ?thesis using assms sweep_target [of r] by (auto simp: sweep_one_fst in_progress_def)
qed

lemma sweep_fold:
  "order_state db i = Some c \<Longrightarrow> \<exists>c'. order_state (fst (fold (sweep_one env) rs (db, n))) i = Some c' \<and> (c' = c \<or> \<not> in_progress (Some c'))"
proof (induction rs arbitrary: db n c)
  case (Cons r rs)
  obtain db1 n1 where s1: "sweep_one env r (db, n) = (db1, n1)" by fastforce
  obtain c1 where c1: "order_state db1 i = Some c1" "c1 = c \<or> \<not> in_progress (Some c1)"
    using sweep_keeps_out [OF Cons.prems, of env r n] s1 by auto
  obtain c2 where c2: "order_state (fst (fold (sweep_one env) rs (db1, n1))) i = Some c2" "c2 = c1 \<or> \<not> in_progress (Some c2)"
    using Cons.IH [OF c1(1)] by blast
  then show ?case using c1(2) s1 by auto
qed simp

lemma sweep_one_done:
  assumes "timed_out (env_now env) r" "order_state db (od_id r) = Some c" "c = od_status r \<or> \<not> in_progress (Some c)"
  shows "\<not> in_progress (order_state (fst (sweep_one env r (db, n))) (od_id r))"
proof (cases "in_progress (Some c)")
  case True
  then have "sweep_status r \<in> set (VALID_TRANSITIONS c)"
    using assms(3) by (auto simp: in_progress_def sweep_status_def POST_PAYMENT_STATUSES_def)
  then have "accepted db (od_id r) (sweep_status r) (timeout_opts r)" using assms(2) by (simp add: accepted_def)
  then have "order_state (fst (sweep_one env r (db, n))) (od_id r) = Some (sweep_status r)"
    using cascade assms(1) by (auto simp: sweep_one_fst cascade_ok_def)
  then show ?thesis using sweep_target [of r] by (auto simp: in_progress_def)
next
  case False
  then show ?thesis using sweep_keeps_out [OF assms(2), of env r n] by auto
qed

text \<open>After the sweep no order that had timed out is still in progress: it is expired, or disputed when
  its payment had been made, or was moved out of the market by its counterparty's sweep.\<close>

theorem sweep_clears_timed_out:
  assumes "distinct (map od_id (td_orders db))" "r \<in> set (td_orders db)" "0 < od_timeout r" "timed_out (env_now env) r"
  shows "\<not> in_progress (order_state (fst (expireTimedOut env db)) (od_id r))"
proof -
  have st: "order_state db (od_id r) = Some (od_status r)"
    using find_key_unique [OF assms(1,2) refl] by (simp add: order_state_def find_order_def)
  show ?thesis
  proof (cases "r \<in> set (sweep_candidates db)")
    case True
    then obtain xs ys where split: "sweep_candidates db = xs @ r # ys" by (auto simp: in_set_conv_decomp)
    obtain db1 n1 where s1: "fold (sweep_one env) xs (db, 0) = (db1, n1)" by fastforce
    obtain db2 n2 where s2: "sweep_one env r (db1, n1) = (db2, n2)" by fastforce
    obtain c where c: "order_state db1 (od_id r) = Some c" "c = od_status r \<or> \<not> in_progress (Some c)"
      using sweep_fold [OF st, of env xs 0] s1 by auto
    have out: "\<not> in_progress (order_state db2 (od_id r))" using sweep_one_done [OF assms(4) c, of n1] s2 by simp
    obtain c2 where c2: "order_state db2 (od_id r) = Some c2" using sweep_keeps_out [OF c(1), of env r n1] s2 by auto
    then obtain c3 where "order_state (fst (fold (sweep_one env) ys (db2, n2))) (od_id r) = Some c3" "c3 = c2 \<or> \<not> in_progress (Some c3)"
      using sweep_fold [OF c2, of env ys n2] by auto
    then show ?thesis using out c2 by (auto simp: expireTimedOut_def split s1 s2)
  next
    case False
    then have "od_status r \<in> {OCompleted, OCancelled, OExpired, OResolved, ODisputed}" using assms(2,3) by (auto simp: sweep_candidates_def)
    then have "\<not> in_progress (Some (od_status r))" by (auto simp: in_progress_def)
    then show ?thesis using sweep_fold [OF st, of env "sweep_candidates db" 0] by (auto simp: expireTimedOut_def)
  qed
qed

theorem sweep_clears_timed_out_witness:
  "\<not> in_progress (order_state (fst (expireTimedOut ex_env (ex_market [ex_order ''A'' OPaid None, ex_order ''B'' OAccepted None]))) ''A'')"
  using sweep_clears_timed_out [of "ex_market [ex_order ''A'' OPaid None, ex_order ''B'' OAccepted None]" "ex_order ''A'' OPaid None" ex_env]
  by (simp add: ex_market_def ex_order_def timed_out_def ex_env_def)

text \<open>The circuit breaker of the automatic payments looks back over the whole day instead of one hour:
  any three failures archived since midnight stop an order's automatic steps for the rest of the day.\<close>

theorem breaker_counts_whole_day:
  assumes "HOUR \<le> env_now env mod DAY"
    and "3 \<le> count_where (\<lambda>e. env_like env (ev_payload e) (od_id r) \<and> ev_type e = ''payment_failed''
      \<and> ev_observed_at e div DAY = env_now env div DAY) (db_events (td_events db))"
  shows "autoAdvance env db (Some r) = db"
proof -
  have "env_now env - HOUR = DAY * (env_now env div DAY) + (env_now env mod DAY - HOUR)"
    using assms(1) mult_div_mod_eq [of DAY "env_now env"] by linarith
  moreover have "env_now env mod DAY - HOUR < DAY" by (simp add: DAY_def less_imp_diff_less)
  ultimately have "(env_now env - HOUR) div DAY = env_now env div DAY" by simp
  then have "count_where (\<lambda>e. env_like env (ev_payload e) (od_id r) \<and> ev_type e = ''payment_failed''
      \<and> ev_observed_at e div DAY = env_now env div DAY) (db_events (td_events db)) \<le> recent_failures env db (od_id r)"
    unfolding recent_failures_def by (intro count_where_mono) (simp add: iso_after_sqlite_def)
  then have "MAX_AUTO_FAILURES \<le> recent_failures env db (od_id r)" using assms(2) by (simp add: MAX_AUTO_FAILURES_def)
  then show ?thesis by (auto simp: autoAdvance_def Let_def split: option.splits)
qed

definition ex_failure :: "nat \<Rightarrow> chain_event" where
  "ex_failure t = \<lparr> ev_id = nat_str t, ev_txid = nat_str t, ev_from = None, ev_to = None, ev_type = ''payment_failed'', ev_payload = NoPayload,
     ev_observed_by = ''system'', ev_observed_at = t \<rparr>"

definition ex_auto :: order where "ex_auto = ex_order ''A'' OAccepted None \<lparr> od_mode := ''auto'' \<rparr>"

text \<open>Three failures in the first second of the day stop the payment of an order at ten in the evening.\<close>

theorem breaker_counts_whole_day_witness:
  "next_action ex_auto = Some ''pay_usdt'' \<and> trade_mode (ex_market []) ex_auto = ''auto''
   \<and> autoAdvance (ex_env\<lparr> env_now := 22 * HOUR \<rparr>)
       ((ex_market [])\<lparr> td_events := \<lparr> db_events = [ex_failure 1, ex_failure 2, ex_failure 3], db_reputation = [] \<rparr> \<rparr>) (Some ex_auto)
     = (ex_market [])\<lparr> td_events := \<lparr> db_events = [ex_failure 1, ex_failure 2, ex_failure 3], db_reputation = [] \<rparr> \<rparr>"
proof (intro conjI)
  show "next_action ex_auto = Some ''pay_usdt''" "trade_mode (ex_market []) ex_auto = ''auto''"
    by (simp_all add: next_action_def trade_mode_def ex_auto_def ex_order_def)
  show "autoAdvance (ex_env\<lparr> env_now := 22 * HOUR \<rparr>)
       ((ex_market [])\<lparr> td_events := \<lparr> db_events = [ex_failure 1, ex_failure 2, ex_failure 3], db_reputation = [] \<rparr> \<rparr>) (Some ex_auto)
     = (ex_market [])\<lparr> td_events := \<lparr> db_events = [ex_failure 1, ex_failure 2, ex_failure 3], db_reputation = [] \<rparr> \<rparr>"
    by (rule breaker_counts_whole_day)
      (simp_all add: ex_env_def HOUR_def DAY_def count_where_def ex_failure_def)
qed

end
