(* ===== verification/Trade_Limits.thy ===== *)
theory Trade_Limits
  imports Orders
begin

section \<open>Trade limits\<close>

text \<open>
  \<open>kasia-console/src/services/trade-limits.js\<close>: limits from the table \<open>config_entries\<close> (a list of key and
  text), the usage of a day, the check of one order, the check of a configuration and the drawdown
  breakers.  A JavaScript number is \<open>Some q\<close> or \<open>None\<close>, which is \<open>NaN\<close>: every comparison with it is
  false.  A reason is given by the percentage its text shows.
\<close>

type_synonym jsnum = "rat option"
type_synonym config = "(string \<times> string) list"

definition js_gt :: "jsnum \<Rightarrow> jsnum \<Rightarrow> bool" where
  "js_gt x y = (case (x, y) of (Some a, Some b) \<Rightarrow> b < a | _ \<Rightarrow> False)"

definition js_add :: "jsnum \<Rightarrow> jsnum \<Rightarrow> jsnum" where
  "js_add x y = (case (x, y) of (Some a, Some b) \<Rightarrow> Some (a + b) | _ \<Rightarrow> None)"

definition js_scale :: "rat \<Rightarrow> jsnum \<Rightarrow> jsnum" where
  "js_scale k x = map_option ((*) k) x"

text \<open>\<open>x ?? d\<close>: the outer option is \<open>null\<close> or \<open>undefined\<close>.\<close>

definition nullish :: "'a option \<Rightarrow> 'a \<Rightarrow> 'a" where
  "nullish x d = (case x of Some v \<Rightarrow> v | None \<Rightarrow> d)"

definition getLimit :: "config \<Rightarrow> string \<Rightarrow> jsnum option" where
  "getLimit cfg key = map_option parseFloat (map_of cfg key)"

record limits =
  per_order_max_kas :: jsnum
  per_order_max_usdt :: jsnum
  daily_total_max_kas :: jsnum
  daily_total_max_usdt :: jsnum
  auto_mode_max_kas :: jsnum
  auto_mode_max_usdt :: jsnum

definition getLimits :: "config \<Rightarrow> limits" where
  "getLimits cfg =
    \<lparr> per_order_max_kas = nullish (getLimit cfg ''per_order_max_kas'') (Some 1000),
      per_order_max_usdt = nullish (getLimit cfg ''per_order_max_usdt'') (Some 100),
      daily_total_max_kas = nullish (getLimit cfg ''daily_total_max_kas'') (Some 5000),
      daily_total_max_usdt = nullish (getLimit cfg ''daily_total_max_usdt'') (Some 500),
      auto_mode_max_kas = nullish (getLimit cfg ''auto_mode_max_kas'') (Some 200),
      auto_mode_max_usdt = nullish (getLimit cfg ''auto_mode_max_usdt'') (Some 20) \<rparr>"

text \<open>\<open>since\<close> is the local midnight the code computes from the clock.\<close>

definition of_today :: "string \<Rightarrow> nat \<Rightarrow> order \<Rightarrow> bool" where
  "of_today agent since r \<longleftrightarrow> od_agent r = agent \<and> since \<le> od_created_at r \<and> od_status r \<notin> {OCancelled, OExpired}"

definition getDailyUsage :: "order list \<Rightarrow> nat \<Rightarrow> string \<Rightarrow> rat \<times> rat" where
  "getDailyUsage rows since agent =
    ((\<Sum>r\<leftarrow>filter (of_today agent since) rows. od_kas r), (\<Sum>r\<leftarrow>filter (of_today agent since) rows. od_usdt r))"

datatype limit_error = PerOrderKas | PerOrderUsdt | AutoKas | AutoUsdt | DailyKas | DailyUsdt

definition checkLimits :: "config \<Rightarrow> order list \<Rightarrow> nat \<Rightarrow> string \<Rightarrow> rat \<Rightarrow> rat \<Rightarrow> string \<Rightarrow> limit_error option" where
  "checkLimits cfg rows since agent kasAmount usdtAmount mode =
    (let l = getLimits cfg; usage = getDailyUsage rows since agent in
     if js_gt (Some kasAmount) (per_order_max_kas l) then Some PerOrderKas
     else if js_gt (Some usdtAmount) (per_order_max_usdt l) then Some PerOrderUsdt
     else if mode = ''auto'' \<and> js_gt (Some kasAmount) (auto_mode_max_kas l) then Some AutoKas
     else if mode = ''auto'' \<and> js_gt (Some usdtAmount) (auto_mode_max_usdt l) then Some AutoUsdt
     else if js_gt (Some (fst usage + kasAmount)) (daily_total_max_kas l) then Some DailyKas
     else if js_gt (Some (snd usage + usdtAmount)) (daily_total_max_usdt l) then Some DailyUsdt
     else None)"

subsection \<open>Configurations\<close>

text \<open>The proposed configuration: the outer option says whether a field is given.\<close>

record limit_config =
  lc_per_kas :: "jsnum option"
  lc_per_usdt :: "jsnum option"
  lc_auto_kas :: "jsnum option"
  lc_auto_usdt :: "jsnum option"
  lc_daily_kas :: "jsnum option"
  lc_daily_usdt :: "jsnum option"

datatype config_error = PerKasNotPositive | PerUsdtNotPositive | AutoKasExceeds | AutoUsdtExceeds
  | PerKasAboveDaily | PerUsdtAboveDaily

definition effective :: "config \<Rightarrow> jsnum option \<Rightarrow> string \<Rightarrow> rat \<Rightarrow> jsnum" where
  "effective cfg proposed key d = nullish proposed (nullish (getLimit cfg key) (Some d))"

definition validateLimitConfig :: "config \<Rightarrow> limit_config \<Rightarrow> config_error list" where
  "validateLimitConfig cfg c =
    (let perKas = effective cfg (lc_per_kas c) ''per_order_max_kas'' 1000;
         perUsdt = effective cfg (lc_per_usdt c) ''per_order_max_usdt'' 100;
         autoKas = effective cfg (lc_auto_kas c) ''auto_mode_max_kas'' 200;
         autoUsdt = effective cfg (lc_auto_usdt c) ''auto_mode_max_usdt'' 20;
         dailyKas = effective cfg (lc_daily_kas c) ''daily_total_max_kas'' 5000;
         dailyUsdt = effective cfg (lc_daily_usdt c) ''daily_total_max_usdt'' 500
     in (case lc_per_kas c of Some (Some v) \<Rightarrow> if v \<le> 0 then [PerKasNotPositive] else [] | _ \<Rightarrow> [])
        @ (case lc_per_usdt c of Some (Some v) \<Rightarrow> if v \<le> 0 then [PerUsdtNotPositive] else [] | _ \<Rightarrow> [])
        @ (if js_gt autoKas (js_scale (3/10) perKas) then [AutoKasExceeds] else [])
        @ (if js_gt autoUsdt (js_scale (3/10) perUsdt) then [AutoUsdtExceeds] else [])
        @ (if js_gt perKas dailyKas then [PerKasAboveDaily] else [])
        @ (if js_gt perUsdt dailyUsdt then [PerUsdtAboveDaily] else []))"

subsection \<open>Drawdown\<close>

record risk =
  rk_allowed :: bool
  rk_half :: bool
  rk_freeze :: bool
  rk_reason :: "rat option"

definition checkDrawdown :: "rat \<Rightarrow> rat \<Rightarrow> risk" where
  "checkDrawdown todayPnl totalValue =
    (if totalValue \<le> 0 then \<lparr> rk_allowed = True, rk_half = False, rk_freeze = False, rk_reason = None \<rparr>
     else (let drawdownPct = \<bar>min 0 todayPnl\<bar> / totalValue * 100 in
       if 10 \<le> drawdownPct then \<lparr> rk_allowed = False, rk_half = False, rk_freeze = False, rk_reason = Some drawdownPct \<rparr>
       else if 5 \<le> drawdownPct then \<lparr> rk_allowed = True, rk_half = True, rk_freeze = False, rk_reason = Some drawdownPct \<rparr>
       else \<lparr> rk_allowed = True, rk_half = False, rk_freeze = False, rk_reason = None \<rparr>))"

definition checkVolatility :: "rat \<Rightarrow> risk" where
  "checkVolatility volatilitySignal =
    (if 80 < volatilitySignal then \<lparr> rk_allowed = False, rk_half = False, rk_freeze = False, rk_reason = Some volatilitySignal \<rparr>
     else \<lparr> rk_allowed = True, rk_half = False, rk_freeze = False, rk_reason = None \<rparr>)"

definition checkTotalDrawdown :: "rat \<Rightarrow> rat \<Rightarrow> risk" where
  "checkTotalDrawdown currentValue peakValue =
    (if peakValue \<le> 0 then \<lparr> rk_allowed = True, rk_half = False, rk_freeze = False, rk_reason = None \<rparr>
     else (let drawdownPct = (peakValue - currentValue) / peakValue * 100 in
       if 15 \<le> drawdownPct then \<lparr> rk_allowed = False, rk_half = False, rk_freeze = True, rk_reason = Some drawdownPct \<rparr>
       else \<lparr> rk_allowed = True, rk_half = False, rk_freeze = False, rk_reason = None \<rparr>))"

lemma js_gt_False: "\<not> js_gt (Some a) (Some b) \<longleftrightarrow> a \<le> b"
  by (auto simp: js_gt_def)

lemma usage_create:
  assumes "createOrder env db a = Inr (db', i)" "oa_agent a = agent" "since \<le> env_now env"
  shows "getDailyUsage (td_orders db') since agent =
    (fst (getDailyUsage (td_orders db) since agent) + oa_kas a, snd (getDailyUsage (td_orders db) since agent) + oa_kas a * oa_price a)"
proof -
  obtain oid where "td_orders db' = td_orders db @ [new_order oid (env_now env) a]"
    using assms(1) by (auto simp: createOrder_def split: option.splits if_splits)
  then show ?thesis using assms(2,3) by (simp add: getDailyUsage_def of_today_def new_order_def)
qed

subsection \<open>Properties\<close>

text \<open>An order that passes the check respects every limit, and once it is created the usage of the day
  is still within the daily totals.\<close>

theorem checked_orders_within_limits:
  assumes "checkLimits cfg (td_orders db) since (oa_agent a) (oa_kas a) (oa_kas a * oa_price a) mode = None"
    and "createOrder env db a = Inr (db', i)" "since \<le> env_now env"
    and "getLimits cfg = \<lparr> per_order_max_kas = Some pk, per_order_max_usdt = Some pu, daily_total_max_kas = Some dk,
      daily_total_max_usdt = Some du, auto_mode_max_kas = Some ak, auto_mode_max_usdt = Some au \<rparr>"
  shows "oa_kas a \<le> pk \<and> oa_kas a * oa_price a \<le> pu \<and> (mode = ''auto'' \<longrightarrow> oa_kas a \<le> ak \<and> oa_kas a * oa_price a \<le> au)
    \<and> fst (getDailyUsage (td_orders db') since (oa_agent a)) \<le> dk \<and> snd (getDailyUsage (td_orders db') since (oa_agent a)) \<le> du"
  using assms(1) usage_create [OF assms(2) refl assms(3)]
  by (auto simp: checkLimits_def assms(4) js_gt_False Let_def split: if_splits)

abbreviation ex_oargs :: order_args where
  "ex_oargs \<equiv> \<lparr> oa_id = Some ''o'', oa_relay = ''r'', oa_agent = ''a'', oa_side = ''buy'', oa_kas = 100, oa_price = 1/10, oa_chain = ''bnb'',
     oa_peer = None, oa_counter = None, oa_broadcast = None, oa_mode = [], oa_timeout = 30 \<rparr>"

abbreviation ex_tenv :: env where
  "ex_tenv \<equiv> \<lparr> env_now = 5, env_uuid = nat_str, env_num = (\<lambda>_. JNull), env_like = (\<lambda>_ _. True), env_summary = (\<lambda>_ _. []) \<rparr>"

abbreviation ex_tdb :: trade_db where
  "ex_tdb \<equiv> \<lparr> td_orders = [], td_locks = [], td_events = no_events, td_execs = [], td_mode = None, td_outbox = [], td_draws = 0 \<rparr>"

lemma ex_default_limits: "getLimits [] = \<lparr> per_order_max_kas = Some 1000, per_order_max_usdt = Some 100, daily_total_max_kas = Some 5000,
    daily_total_max_usdt = Some 500, auto_mode_max_kas = Some 200, auto_mode_max_usdt = Some 20 \<rparr>"
  by (simp add: getLimits_def getLimit_def nullish_def)

theorem checked_orders_within_limits_witness:
  "checkLimits [] [] 0 ''a'' 100 10 ''auto'' = None
   \<and> (\<exists>db'. createOrder ex_tenv ex_tdb ex_oargs = Inr (db', ''o'') \<and> fst (getDailyUsage (td_orders db') 0 ''a'') \<le> 5000)"
proof -
  have ck: "checkLimits [] [] 0 ''a'' 100 10 ''auto'' = None"
    by (simp add: checkLimits_def ex_default_limits js_gt_def getDailyUsage_def Let_def)
  obtain db' where "createOrder ex_tenv ex_tdb ex_oargs = Inr (db', ''o'')" by (simp add: createOrder_def)
  then show ?thesis
    using checked_orders_within_limits [of "[]" ex_tdb 0 ex_oargs "''auto''" ex_tenv db' "''o''"] ck by (auto simp: ex_default_limits)
qed

text \<open>A limit whose stored text is not a number limits nothing: comparisons with \<open>NaN\<close> are false, so
  with such per-order and daily entries every amount passes the check.\<close>

theorem unparsable_limits_unbounded:
  assumes "\<forall>k \<in> {''per_order_max_kas'', ''per_order_max_usdt'', ''daily_total_max_kas'', ''daily_total_max_usdt''}.
      \<exists>t. map_of cfg k = Some t \<and> parseFloat t = None"
  shows "checkLimits cfg rows since agent kas usdt ''manual'' = None"
  using assms by (auto simp: checkLimits_def getLimits_def getLimit_def nullish_def js_gt_def Let_def)

theorem unparsable_limits_unbounded_witness:
  "checkLimits (map (\<lambda>k. (k, ''unset'')) [''per_order_max_kas'', ''per_order_max_usdt'', ''daily_total_max_kas'', ''daily_total_max_usdt''])
     [] 0 ''a'' 1000000000 1000000000 ''manual'' = None"
proof (rule unparsable_limits_unbounded)
  have "parseFloat ''unset'' = None"
    by (simp add: parseFloat_def strip_sign_def) (code_simp)
  then show "\<forall>k \<in> {''per_order_max_kas'', ''per_order_max_usdt'', ''daily_total_max_kas'', ''daily_total_max_usdt''}.
      \<exists>t. map_of (map (\<lambda>k. (k, ''unset'')) [''per_order_max_kas'', ''per_order_max_usdt'', ''daily_total_max_kas'', ''daily_total_max_usdt'']) k = Some t
        \<and> parseFloat t = None"
    by simp
qed

text \<open>A configuration without errors keeps the automatic limits within 30 percent of the limit per order, and
  that within the daily total.\<close>

lemma validated_config:
  assumes "validateLimitConfig cfg c = []"
    and "effective cfg (lc_per_kas c) ''per_order_max_kas'' 1000 = Some pk" "effective cfg (lc_auto_kas c) ''auto_mode_max_kas'' 200 = Some ak"
    and "effective cfg (lc_daily_kas c) ''daily_total_max_kas'' 5000 = Some dk"
  shows "ak \<le> 3/10 * pk \<and> pk \<le> dk"
  using assms by (auto simp: validateLimitConfig_def Let_def js_scale_def js_gt_False split: if_splits)

text \<open>A larger loss is never treated more kindly.\<close>

lemma drawdown_monotone:
  assumes "p \<le> q" "rk_allowed (checkDrawdown p v)"
  shows "rk_allowed (checkDrawdown q v)"
proof (cases "v \<le> 0")
  case False
  then have "\<bar>min 0 q\<bar> / v * 100 \<le> \<bar>min 0 p\<bar> / v * 100" using assms(1) by (intro mult_right_mono divide_right_mono) auto
  then show ?thesis using assms(2) False by (auto simp: checkDrawdown_def Let_def split: if_splits)
qed (simp add: checkDrawdown_def)

end
