(* ===== verification/Broker_Orders.thy ===== *)
theory Broker_Orders
  imports Chain_Event
begin

section \<open>Retail orders of the broker\<close>

text \<open>
  \<open>kasia-console/src/services/broker-state-machine.js\<close> (the only legal mover of an order's state, with the
  chain evidence it demands), \<open>db/state-transitions.js\<close> (the refund wrapper) and
  \<open>services/broker-v2/state.js\<close> (drafts), over the tables \<open>retail_dex_orders\<close>, \<open>chain_events\<close>,
  \<open>broker_workflow_markers\<close> and \<open>kaspa_tx_log\<close> with the constraints of \<open>db/migrate.js\<close>.
\<close>

subsection \<open>Times as texts\<close>

text \<open>The columns hold ISO texts (milliseconds) or the texts of \<open>datetime('now')\<close> (seconds), and SQL compares
  texts: by day first, and on the same day the blank of the second form is less than the \<open>T\<close> of the first.\<close>

datatype stamp = Iso nat | Sql nat

fun stamp_day :: "stamp \<Rightarrow> nat" where
  "stamp_day (Iso ms) = ms div 86400000"
| "stamp_day (Sql s) = s div 86400"

fun stamp_ms :: "stamp \<Rightarrow> nat" where
  "stamp_ms (Iso ms) = ms"
| "stamp_ms (Sql s) = s * 1000"

fun same_day_le :: "stamp \<Rightarrow> stamp \<Rightarrow> bool" where
  "same_day_le (Iso x) (Iso y) = (x \<le> y)"
| "same_day_le (Sql x) (Sql y) = (x \<le> y)"
| "same_day_le (Sql _) (Iso _) = True"
| "same_day_le (Iso _) (Sql _) = False"

definition stamp_le :: "stamp \<Rightarrow> stamp \<Rightarrow> bool" where
  "stamp_le a b = (stamp_day a < stamp_day b \<or> (stamp_day a = stamp_day b \<and> same_day_le a b))"

definition stamp_less :: "stamp \<Rightarrow> stamp \<Rightarrow> bool" where
  "stamp_less a b = (\<not> stamp_le b a)"

subsection \<open>Tables\<close>

datatype rstate = Aligning | AwaitingPayment | RPaid | RCompleted | RRefunded | RFailed | RExpired
  | Confirming | RExecuting | Refunding | OtherState string

record retail =
  rt_id :: string
  rt_user :: string
  rt_side :: string
  rt_qty :: "string option"
  rt_price :: "string option"
  rt_pay_chain :: "string option"
  rt_pay_address :: "string option"
  rt_receive_address :: "string option"
  rt_agent_pay_addr :: "string option"
  rt_state :: rstate
  rt_pay_tx :: "string option"
  rt_refund_tx :: "string option"
  rt_deliver_tx :: "string option"
  rt_offer :: "string option"
  rt_created_at :: stamp
  rt_updated_at :: stamp
  rt_expires_at :: "stamp option"

record marker =
  mk_id :: string
  mk_type :: string
  mk_src :: "string option"
  mk_payload :: payload
  mk_created_at :: stamp

record tx_row =
  tx_id :: string
  tx_block_time :: nat
  tx_from :: "string option"
  tx_to :: string
  tx_amount :: rat
  tx_observed_at :: stamp

record audit_row =
  au_id :: "string option"
  au_txid :: string
  au_to :: "string option"
  au_type :: string
  au_payload :: payload
  au_observed_by :: string
  au_observed_at :: stamp

record broker_db =
  bd_orders :: "retail list"
  bd_events :: "audit_row list"
  bd_markers :: "marker list"
  bd_txs :: "tx_row list"
  bd_alerts :: "(string \<times> string) list"

text \<open>The \<open>CHECK\<close> on the column \<open>state\<close>.\<close>

fun state_text :: "rstate \<Rightarrow> string" where
  "state_text Aligning = ''aligning''"
| "state_text AwaitingPayment = ''awaiting_payment''"
| "state_text RPaid = ''paid''"
| "state_text RCompleted = ''completed''"
| "state_text RRefunded = ''refunded''"
| "state_text RFailed = ''failed''"
| "state_text RExpired = ''expired''"
| "state_text Confirming = ''confirming''"
| "state_text RExecuting = ''executing''"
| "state_text Refunding = ''refunding''"
| "state_text (OtherState t) = t"

definition state_check :: "rstate \<Rightarrow> bool" where
  "state_check s = (case s of OtherState _ \<Rightarrow> False | _ \<Rightarrow> True)"

text \<open>The partial unique index on \<open>refund_tx_hash\<close>.\<close>

definition refund_tx_taken :: "broker_db \<Rightarrow> string \<Rightarrow> string \<Rightarrow> bool" where
  "refund_tx_taken db oid h = list_ex (\<lambda>r. rt_refund_tx r = Some h \<and> rt_id r \<noteq> oid) (bd_orders db)"

subsection \<open>The state machine\<close>

definition STATES :: "rstate list" where
  "STATES = [Aligning, AwaitingPayment, RPaid, RCompleted, RRefunded, RFailed, RExpired]"

definition ACTIVE_STATES :: "rstate list" where
  "ACTIVE_STATES = [Aligning, AwaitingPayment, RPaid]"

definition TERMINAL_RSTATES :: "rstate list" where
  "TERMINAL_RSTATES = [RCompleted, RRefunded, RFailed, RExpired]"

fun ALLOWED_TRANSITIONS :: "rstate \<Rightarrow> rstate list option" where
  "ALLOWED_TRANSITIONS Aligning = Some [AwaitingPayment, RExpired, RFailed]"
| "ALLOWED_TRANSITIONS AwaitingPayment = Some [RPaid, RRefunded, RFailed, RExpired]"
| "ALLOWED_TRANSITIONS RPaid = Some [RCompleted, RFailed]"
| "ALLOWED_TRANSITIONS RCompleted = Some []"
| "ALLOWED_TRANSITIONS RRefunded = Some []"
| "ALLOWED_TRANSITIONS RFailed = Some []"
| "ALLOWED_TRANSITIONS RExpired = Some []"
| "ALLOWED_TRANSITIONS _ = None"

datatype tx_rule = NoTx | PaymentTx | RefundTx | RefundTxOrNoEscrow | RefundTxOrAligning | DeliveryTx

fun TX_REQUIRED :: "rstate \<Rightarrow> tx_rule" where
  "TX_REQUIRED RPaid = PaymentTx"
| "TX_REQUIRED RRefunded = RefundTx"
| "TX_REQUIRED RFailed = RefundTxOrNoEscrow"
| "TX_REQUIRED RExpired = RefundTxOrAligning"
| "TX_REQUIRED RCompleted = DeliveryTx"
| "TX_REQUIRED _ = NoTx"

text \<open>An absent or empty hash is \<open>None\<close>.\<close>

record move_opts =
  mo_paymentTxHash :: "string option"
  mo_refundTxHash :: "string option"
  mo_deliveryTxHash :: "string option"
  mo_reason :: "string option"
  mo_no_escrow :: bool
  mo_triggeredBy :: "string option"

datatype move_error = UnknownFromState rstate | IllegalTransition rstate rstate | MissingTx tx_rule
  | UniqueRefundTx | UniqueEvent | UniqueMarker | CheckState rstate | RefundTxRequired | RetailNotFound

datatype move_outcome = Moved | StateMismatch | Threw move_error

text \<open>Is the evidence for a move missing?\<close>

definition missing_tx :: "rstate \<Rightarrow> rstate \<Rightarrow> move_opts \<Rightarrow> bool" where
  "missing_tx from to mo = (case TX_REQUIRED to of
      NoTx \<Rightarrow> False
    | PaymentTx \<Rightarrow> mo_paymentTxHash mo = None
    | RefundTx \<Rightarrow> mo_refundTxHash mo = None
    | RefundTxOrNoEscrow \<Rightarrow> mo_refundTxHash mo = None \<and> \<not> mo_no_escrow mo
    | RefundTxOrAligning \<Rightarrow> from = AwaitingPayment \<and> mo_refundTxHash mo = None
    | DeliveryTx \<Rightarrow> mo_deliveryTxHash mo = None)"

definition or_else :: "'a option \<Rightarrow> 'a option \<Rightarrow> 'a option" where
  "or_else a b = (case a of None \<Rightarrow> b | Some _ \<Rightarrow> a)"

definition is_real_hash :: "string \<Rightarrow> bool" where
  "is_real_hash h = (length h = 64 \<and> list_all (\<lambda>c. hexval c \<noteq> None) h)"

definition json_opt :: "string option \<Rightarrow> json" where
  "json_opt x = (case x of Some t \<Rightarrow> if t = [] then JNull else JStr t | None \<Rightarrow> JNull)"

definition audit_payload :: "string \<Rightarrow> rstate \<Rightarrow> rstate \<Rightarrow> move_opts \<Rightarrow> payload" where
  "audit_payload oid from to mo = JsonPayload (JObj [(''order_id'', JStr oid), (''from'', JStr (state_text from)),
     (''to'', JStr (state_text to)), (''reason'', json_opt (mo_reason mo)), (''triggered_by'', json_opt (mo_triggeredBy mo)),
     (''no_escrow'', JBool (mo_no_escrow mo))])"

definition move_row :: "nat \<Rightarrow> rstate \<Rightarrow> move_opts \<Rightarrow> retail \<Rightarrow> retail" where
  "move_row now to mo r = r\<lparr> rt_state := to, rt_pay_tx := or_else (mo_paymentTxHash mo) (rt_pay_tx r),
     rt_refund_tx := or_else (mo_refundTxHash mo) (rt_refund_tx r),
     rt_deliver_tx := or_else (mo_deliveryTxHash mo) (rt_deliver_tx r), rt_updated_at := Sql now \<rparr>"

text \<open>\<open>uuid\<close> is the random part of the audit row's id, \<open>now\<close> the clock in seconds.  The audit row is inserted
  after the update and outside a transaction: when it fails, the update stays.\<close>

definition retail_move :: "broker_db \<Rightarrow> string \<Rightarrow> nat \<Rightarrow> string \<Rightarrow> rstate \<Rightarrow> rstate \<Rightarrow> move_opts \<Rightarrow> broker_db \<times> move_outcome" where
  "retail_move db uuid now oid from to mo =
    (case ALLOWED_TRANSITIONS from of
       None \<Rightarrow> (db, Threw (UnknownFromState from))
     | Some allowed \<Rightarrow>
       if to \<notin> set allowed then (db, Threw (IllegalTransition from to))
       else if missing_tx from to mo then (db, Threw (MissingTx (TX_REQUIRED to)))
       else if count_where (\<lambda>r. rt_id r = oid \<and> rt_state r = from) (bd_orders db) = 0 then (db, StateMismatch)
       else if (case mo_refundTxHash mo of Some h \<Rightarrow> refund_tx_taken db oid h | None \<Rightarrow> False) then (db, Threw UniqueRefundTx)
       else
         (let db1 = db\<lparr> bd_orders := update_where (\<lambda>r. rt_id r = oid \<and> rt_state r = from) (move_row now to mo) (bd_orders db) \<rparr>;
              txHash = or_else (mo_refundTxHash mo) (or_else (mo_paymentTxHash mo) (mo_deliveryTxHash mo))
          in if txHash \<noteq> None \<and> is_real_hash (the txHash)
             then (if list_ex (\<lambda>e. au_txid e = the txHash \<and> au_type e = ''broker_state_'' @ state_text to) (bd_events db1)
                   then (db1, Threw UniqueEvent)
                   else (db1\<lparr> bd_events := bd_events db1 @ [\<lparr> au_id = Some uuid, au_txid = the txHash, au_to = None,
                           au_type = ''broker_state_'' @ state_text to, au_payload = audit_payload oid from to mo,
                           au_observed_by = ''broker-state-machine.transition'', au_observed_at = Sql now \<rparr>] \<rparr>, Moved))
             else (if list_ex (\<lambda>m. mk_id m = ''transition_'' @ take 16 oid @ uuid) (bd_markers db1)
                   then (db1, Threw UniqueMarker)
                   else (db1\<lparr> bd_markers := bd_markers db1 @ [\<lparr> mk_id = ''transition_'' @ take 16 oid @ uuid,
                           mk_type = ''state_'' @ state_text to, mk_src = Some oid, mk_payload = audit_payload oid from to mo,
                           mk_created_at = Sql now \<rparr>] \<rparr>, Moved))))"

definition getOrderState :: "broker_db \<Rightarrow> string \<Rightarrow> retail option" where
  "getOrderState db oid = find (\<lambda>r. rt_id r = oid) (bd_orders db)"

text \<open>The latest by creation time, compared as text.\<close>

fun latest :: "retail list \<Rightarrow> retail option" where
  "latest [] = None"
| "latest (r # rs) = (case latest rs of None \<Rightarrow> Some r
     | Some q \<Rightarrow> if stamp_less (rt_created_at r) (rt_created_at q) then Some q else Some r)"

definition findActiveOrder :: "broker_db \<Rightarrow> string \<Rightarrow> retail option" where
  "findActiveOrder db peerAddr = latest (filter (\<lambda>r. rt_user r = peerAddr \<and> rt_state r \<in> set ACTIVE_STATES) (bd_orders db))"

definition TRADER_B_KAS_ADDR :: string where
  "TRADER_B_KAS_ADDR = ''kaspa:qrxw764gez624hfkfvpmzfx8a4mg2vze5n6vsgu8fymewrkuphy65lxur9c5l''"

definition checkBrokerEscrow :: "broker_db \<Rightarrow> string \<Rightarrow> rat \<Rightarrow> stamp \<Rightarrow> bool" where
  "checkBrokerEscrow db peerAddr qty createdAt =
    (let inAmt = (\<Sum>t\<leftarrow>filter (\<lambda>t. tx_to t = TRADER_B_KAS_ADDR \<and> stamp_le createdAt (tx_observed_at t)
             \<and> qty - 1/2 \<le> tx_amount t \<and> tx_amount t \<le> qty + 1/2) (bd_txs db). tx_amount t);
         outAmt = (\<Sum>t\<leftarrow>filter (\<lambda>t. tx_from t = Some TRADER_B_KAS_ADDR \<and> tx_to t = peerAddr
             \<and> stamp_le createdAt (tx_observed_at t)) (bd_txs db). tx_amount t)
     in if inAmt = 0 then False else qty - 1/2 \<le> inAmt - outAmt)"

subsection \<open>The reconciliation sweep\<close>

definition STARTUP_GRACE_MS :: nat where "STARTUP_GRACE_MS = 3600000"

text \<open>\<open>LIKE '%paid%'\<close>\<close>

fun has_paid :: "string \<Rightarrow> bool" where
  "has_paid [] = False"
| "has_paid (c # s) = (toLowerCase (take 4 (c # s)) = ''paid'' \<or> has_paid s)"

text \<open>\<open>id NOT IN (SELECT src_event_id ...)\<close> is not true when the selection contains a \<open>NULL\<close>.\<close>

definition sql_not_in :: "string \<Rightarrow> string option list \<Rightarrow> bool" where
  "sql_not_in x ys = (None \<notin> set ys \<and> Some x \<notin> set ys)"

definition is_stale :: "broker_db \<Rightarrow> nat \<Rightarrow> nat \<Rightarrow> retail \<Rightarrow> bool" where
  "is_stale db startMs now r =
    (let cutoff = Iso (startMs + STARTUP_GRACE_MS) in
     rt_state r = AwaitingPayment \<and> stamp_ms (rt_created_at r) + 30 * 60000 < now * 1000
     \<and> sql_not_in (rt_id r) (map mk_src (filter (\<lambda>m. has_paid (mk_type m)) (bd_markers db)))
     \<and> (stamp_less cutoff (Sql now) \<or> stamp_le cutoff (rt_created_at r)))"

definition reconcile_opts :: move_opts where
  "reconcile_opts = \<lparr> mo_paymentTxHash = None, mo_refundTxHash = None, mo_deliveryTxHash = None,
     mo_reason = Some ''reconcile_no_escrow'', mo_no_escrow = True, mo_triggeredBy = Some ''reconcileStaleOrders'' \<rparr>"

text \<open>\<open>parseFloat(row.qty)\<close> of an absent quantity is \<open>NaN\<close>: no row is between its bounds, so no escrow is found.\<close>

definition escrow_found :: "broker_db \<Rightarrow> retail \<Rightarrow> bool" where
  "escrow_found db r = (case rt_qty r of None \<Rightarrow> False
     | Some t \<Rightarrow> (case parseFloat t of None \<Rightarrow> False | Some q \<Rightarrow> checkBrokerEscrow db (rt_user r) q (rt_created_at r)))"

text \<open>An exception of a move ends the sweep; \<open>uuid\<close> gives the random part for each row.\<close>

fun reconcile_rows :: "broker_db \<Rightarrow> (string \<Rightarrow> string) \<Rightarrow> nat \<Rightarrow> retail list \<Rightarrow> nat \<Rightarrow> broker_db \<times> (move_error + nat)" where
  "reconcile_rows db uuid now [] n = (db, Inr n)"
| "reconcile_rows db uuid now (r # rs) n =
    (if escrow_found db r then reconcile_rows db uuid now rs n
     else (case retail_move db (uuid (rt_id r)) now (rt_id r) AwaitingPayment RFailed reconcile_opts of
         (db1, Moved) \<Rightarrow> reconcile_rows db1 uuid now rs (n + 1)
       | (db1, StateMismatch) \<Rightarrow> reconcile_rows db1 uuid now rs n
       | (db1, Threw e) \<Rightarrow> (db1, Inl e)))"

definition reconcileStaleOrders :: "broker_db \<Rightarrow> (string \<Rightarrow> string) \<Rightarrow> nat \<Rightarrow> nat \<Rightarrow> broker_db \<times> (move_error + nat \<times> nat)" where
  "reconcileStaleOrders db uuid startMs now =
    (let stale = take 10 (filter (is_stale db startMs now) (bd_orders db)) in
     case reconcile_rows db uuid now stale 0 of
       (db', Inl e) \<Rightarrow> (db', Inl e) | (db', Inr n) \<Rightarrow> (db', Inr (length stale, n)))"

text \<open>The guard against registering the timer twice: whether it is started, and how many timers run.\<close>

record cron =
  cr_started :: bool
  cr_timers :: nat

definition startReconcileCron :: "cron \<Rightarrow> cron" where
  "startReconcileCron c = (if cr_started c then c else \<lparr> cr_started = True, cr_timers = cr_timers c + 1 \<rparr>)"

definition stopReconcileCron :: "cron \<Rightarrow> cron" where
  "stopReconcileCron c = (if 0 < cr_timers c then \<lparr> cr_started = False, cr_timers = cr_timers c - 1 \<rparr> else c)"

subsection \<open>The refund wrapper\<close>

definition markOrderRefunded :: "broker_db \<Rightarrow> (rat \<Rightarrow> json) \<Rightarrow> nat \<Rightarrow> string \<Rightarrow> string \<Rightarrow> string \<Rightarrow> broker_db \<times> (move_error + rstate)" where
  "markOrderRefunded db num nowMs oid refundTxHash source =
    (if refundTxHash = [] then (db, Inl RefundTxRequired)
     else case getOrderState db oid of
       None \<Rightarrow> (db, Inl RetailNotFound)
     | Some order \<Rightarrow>
       (let target = OtherState (if source = ''timeout_sweep'' then ''timed_out_refunded'' else ''cancelled_refunded'') in
        if \<not> state_check target then (db, Inl (CheckState target))
        else if refund_tx_taken db oid refundTxHash then (db, Inl UniqueRefundTx)
        else
          (let db1 = db\<lparr> bd_orders := update_where (\<lambda>r. rt_id r = oid)
                  (\<lambda>r. r\<lparr> rt_state := target, rt_refund_tx := Some refundTxHash, rt_updated_at := Iso nowMs \<rparr>) (bd_orders db) \<rparr>
           in if \<not> is_real_hash refundTxHash \<or> list_ex (\<lambda>e. au_txid e = refundTxHash \<and> au_type e = ''broker_kas_refunded'') (bd_events db1)
              then (db1, Inl UniqueEvent)
              else (db1\<lparr> bd_events := bd_events db1 @ [\<lparr> au_id = None, au_txid = refundTxHash, au_to = Some (rt_user order),
                        au_type = ''broker_kas_refunded'',
                        au_payload = JsonPayload (JObj [(''offer_id'', json_opt (rt_offer order)), (''order_id'', JStr (rt_id order)),
                          (''user_kasia_address'', JStr (rt_user order)),
                          (''amount'', case rt_qty order of Some t \<Rightarrow> (case parseFloat t of Some q \<Rightarrow> num q | None \<Rightarrow> JNull) | None \<Rightarrow> JNull),
                          (''tx'', JStr refundTxHash), (''source'', JStr source)]),
                        au_observed_by = ''state-transitions:'' @ source, au_observed_at = Sql (nowMs div 1000) \<rparr>],
                      bd_alerts := bd_alerts db1 @ [(''order_refunded'', oid)] \<rparr>, Inr target))))"

definition markRefundFailed :: "broker_db \<Rightarrow> string \<Rightarrow> broker_db \<times> bool" where
  "markRefundFailed db oid = (case getOrderState db oid of
      None \<Rightarrow> (db, False)
    | Some _ \<Rightarrow> (db\<lparr> bd_alerts := bd_alerts db @ [(''refund_failed'', oid)] \<rparr>, True))"

end
