(* ===== verification/Broker_Drafts.thy ===== *)
theory Broker_Drafts
  imports Broker_Orders
begin

section \<open>Drafts of the broker\<close>

text \<open>
  \<open>services/broker-v2/state.js\<close>: a draft is a retail order in the state \<open>aligning\<close>; its fields are
  written one by one, the side and the payment address only once.  \<open>services/broker-refund-dedup.js\<close>: has
  the chain already paid a refund?
\<close>

subsection \<open>Reading\<close>

definition live_draft :: "nat \<Rightarrow> string \<Rightarrow> retail \<Rightarrow> bool" where
  "live_draft now peer r = (rt_user r = peer \<and> rt_state r = Aligning
     \<and> (case rt_expires_at r of None \<Rightarrow> True | Some t \<Rightarrow> stamp_less (Sql now) t))"

text \<open>The latest live draft, and whether it is complete.\<close>

definition truthy_text :: "string option \<Rightarrow> bool" where
  "truthy_text t = (t \<noteq> None \<and> t \<noteq> Some [])"

definition draft_complete :: "retail \<Rightarrow> bool" where
  "draft_complete r = (rt_side r \<noteq> [] \<and> truthy_text (rt_qty r) \<and> truthy_text (rt_pay_chain r)
     \<and> (rt_side r = ''buy_kas'' \<or> truthy_text (rt_pay_address r)))"

definition getActiveDraft :: "broker_db \<Rightarrow> nat \<Rightarrow> string \<Rightarrow> (retail \<times> bool) option" where
  "getActiveDraft db now peer =
    (if peer = [] then None
     else map_option (\<lambda>r. (r, draft_complete r)) (latest (filter (live_draft now peer) (bd_orders db))))"

definition getActiveOrder :: "broker_db \<Rightarrow> string \<Rightarrow> retail option" where
  "getActiveOrder db peer =
    (if peer = [] then None
     else latest (filter (\<lambda>r. rt_user r = peer \<and> rt_state r \<in> {Aligning, AwaitingPayment, RPaid, RExecuting, Refunding}) (bd_orders db)))"

subsection \<open>Writing\<close>

datatype seed_result = SeedRefused | SeedExisting string | Seeded string | SeedThrew

definition last_12 :: "string \<Rightarrow> string" where
  "last_12 s = drop (length s - 12) s"

definition draft_row :: "string \<Rightarrow> string \<Rightarrow> string \<Rightarrow> nat \<Rightarrow> retail" where
  "draft_row i peer side now = \<lparr> rt_id = i, rt_user = peer, rt_side = side, rt_qty = None, rt_price = None, rt_pay_chain = None,
     rt_pay_address = None, rt_receive_address = None, rt_agent_pay_addr = None, rt_state = Aligning, rt_pay_tx = None,
     rt_refund_tx = None, rt_deliver_tx = None, rt_offer = None, rt_created_at = Sql now, rt_updated_at = Sql now,
     rt_expires_at = Some (Sql (now + 1800)) \<rparr>"

definition seedDraft :: "broker_db \<Rightarrow> nat \<Rightarrow> string \<Rightarrow> string \<Rightarrow> broker_db \<times> seed_result" where
  "seedDraft db nowMs peer side =
    (if peer = [] \<or> side = [] then (db, SeedRefused)
     else if side \<noteq> ''buy_kas'' \<and> side \<noteq> ''sell_kas'' then (db, SeedRefused)
     else case getActiveDraft db (nowMs div 1000) peer of
       Some (r, _) \<Rightarrow> (db, SeedExisting (rt_id r))
     | None \<Rightarrow>
       (let i = ''bv2_'' @ last_12 peer @ ''_'' @ nat_str nowMs in
        if list_ex (\<lambda>r. rt_id r = i) (bd_orders db) then (db, SeedThrew)
        else (db\<lparr> bd_orders := bd_orders db @ [draft_row i peer side (nowMs div 1000)] \<rparr>, Seeded i)))"

datatype draft_field = FSide | FQty | FPrice | FPayChain | FPayAddress | FReceiveAddress | FAgentPayAddr

definition LOCKED_FIELDS :: "draft_field list" where "LOCKED_FIELDS = [FSide, FPayAddress]"

fun read_field :: "draft_field \<Rightarrow> retail \<Rightarrow> string option" where
  "read_field FSide r = Some (rt_side r)"
| "read_field FQty r = rt_qty r"
| "read_field FPrice r = rt_price r"
| "read_field FPayChain r = rt_pay_chain r"
| "read_field FPayAddress r = rt_pay_address r"
| "read_field FReceiveAddress r = rt_receive_address r"
| "read_field FAgentPayAddr r = rt_agent_pay_addr r"

fun write_field :: "draft_field \<Rightarrow> string \<Rightarrow> retail \<Rightarrow> retail" where
  "write_field FSide v r = r\<lparr> rt_side := v \<rparr>"
| "write_field FQty v r = r\<lparr> rt_qty := Some v \<rparr>"
| "write_field FPrice v r = r\<lparr> rt_price := Some v \<rparr>"
| "write_field FPayChain v r = r\<lparr> rt_pay_chain := Some v \<rparr>"
| "write_field FPayAddress v r = r\<lparr> rt_pay_address := Some v \<rparr>"
| "write_field FReceiveAddress v r = r\<lparr> rt_receive_address := Some v \<rparr>"
| "write_field FAgentPayAddr v r = r\<lparr> rt_agent_pay_addr := Some v \<rparr>"

datatype field_result = NoPeer | NothingSet | QtyTooSmall | FieldLocked draft_field | FieldSet

definition writable :: "string \<Rightarrow> draft_field \<Rightarrow> string \<Rightarrow> retail \<Rightarrow> bool" where
  "writable peer f v r = (rt_user r = peer \<and> rt_state r = Aligning
     \<and> (f \<in> set LOCKED_FIELDS \<longrightarrow> read_field f r = None \<or> read_field f r = Some v))"

definition setField :: "broker_db \<Rightarrow> nat \<Rightarrow> string \<Rightarrow> draft_field \<Rightarrow> string \<Rightarrow> broker_db \<times> field_result" where
  "setField db now peer f v =
    (if peer = [] then (db, NoPeer)
     else if v = [] then (db, NothingSet)
     else if f = FQty \<and> (case parseFloat v of None \<Rightarrow> True | Some n \<Rightarrow> n < 99 / 100) then (db, QtyTooSmall)
     else (let changes = count_where (writable peer f v) (bd_orders db);
               db' = db\<lparr> bd_orders := update_where (writable peer f v) (\<lambda>r. (write_field f v r)\<lparr> rt_updated_at := Sql now \<rparr>) (bd_orders db) \<rparr>
       in if changes = 0 \<and> f \<in> set LOCKED_FIELDS then (db', FieldLocked f)
          else (db', if 0 < changes then FieldSet else NothingSet)))"

definition draft_of :: "string \<Rightarrow> retail \<Rightarrow> bool" where
  "draft_of peer r = (rt_user r = peer \<and> rt_state r = Aligning)"

text \<open>The \<open>CHECK\<close> constraints of the table make a forbidden state an exception.\<close>

definition advance :: "broker_db \<Rightarrow> nat \<Rightarrow> string \<Rightarrow> rstate \<Rightarrow> broker_db \<times> (move_error + bool)" where
  "advance db now peer newState =
    (if peer = [] \<or> state_text newState = [] then (db, Inr False)
     else if list_ex (\<lambda>r. draft_of peer r \<and> (\<not> state_check newState \<or> (newState = RRefunded \<and> rt_refund_tx r = None))) (bd_orders db)
       then (db, Inl (CheckState newState))
     else (db\<lparr> bd_orders := update_where (draft_of peer) (\<lambda>r. r\<lparr> rt_state := newState, rt_updated_at := Sql now \<rparr>) (bd_orders db) \<rparr>,
           Inr (0 < count_where (draft_of peer) (bd_orders db))))"

definition clearDraft :: "broker_db \<Rightarrow> string \<Rightarrow> broker_db \<times> nat" where
  "clearDraft db peer =
    (if peer = [] then (db, 0)
     else (db\<lparr> bd_orders := filter (\<lambda>r. \<not> draft_of peer r) (bd_orders db) \<rparr>, count_where (draft_of peer) (bd_orders db)))"

subsection \<open>Writers outside the state machine\<close>

text \<open>Two updates that do not go through the state machine: the router of \<open>broker-v2\<close> marks the recent purchases of a peer paid when
  it takes the peer's word for the last payment (\<open>awaiting_payment\<close> to \<open>paid\<close>, no transaction is written), and \<open>resetConvoState\<close> of
  \<open>broker-state-authority.js\<close> closes all open orders of a peer.\<close>

definition markPurchasesPaid :: "broker_db \<Rightarrow> nat \<Rightarrow> string \<Rightarrow> broker_db" where
  "markPurchasesPaid db now peer = db\<lparr> bd_orders := update_where (\<lambda>r. rt_user r = peer \<and> rt_side r = ''buy_kas'' \<and> rt_state r = AwaitingPayment
       \<and> stamp_less (Sql (now - 7200)) (rt_created_at r))
     (\<lambda>r. r\<lparr> rt_state := RPaid, rt_updated_at := Sql now \<rparr>) (bd_orders db) \<rparr>"

definition resetConvoState :: "broker_db \<Rightarrow> nat \<Rightarrow> string \<Rightarrow> string \<Rightarrow> broker_db" where
  "resetConvoState db now peer reason = db\<lparr> bd_orders := update_where (\<lambda>r. rt_user r = peer
       \<and> rt_state r \<in> {Aligning, Confirming, AwaitingPayment, RPaid, RExecuting, Refunding})
     (\<lambda>r. r\<lparr> rt_state := (if reason = ''completed'' then RCompleted else RFailed), rt_updated_at := Sql now \<rparr>) (bd_orders db) \<rparr>"

subsection \<open>Refunds already on the chain\<close>

text \<open>\<open>sinceMs\<close> is the time of the ISO text, if there is one; the rows come by block time.\<close>

definition findPriorRefundTxs :: "broker_db \<Rightarrow> string \<Rightarrow> rat \<Rightarrow> nat option \<Rightarrow> rat \<Rightarrow> tx_row list" where
  "findPriorRefundTxs db userKasiaAddr refundAmount sinceMs tolerance =
    (if userKasiaAddr = [] then []
     else (let sinceUnix = (case sinceMs of None \<Rightarrow> 0 | Some ms \<Rightarrow> ms div 1000) in
       sort_key tx_block_time (filter (\<lambda>t. tx_to t = userKasiaAddr \<and> refundAmount - tolerance \<le> tx_amount t
          \<and> tx_amount t \<le> refundAmount + tolerance \<and> sinceUnix < tx_block_time t) (bd_txs db))))"

text \<open>An exchange offer as the check reads it: its metadata, when the text parses, and its times.\<close>

record refund_offer =
  ro_id :: string
  ro_give_amount :: "string option"
  ro_broadcast_at :: "nat option"
  ro_created_at :: "nat option"
  ro_metadata :: "json option"

datatype prior_tx = OfferEvent string | ChainTx tx_row

record refund_check =
  rc_already :: bool
  rc_prior :: "prior_tx list"
  rc_expected :: "rat option"
  rc_user :: "string option"

definition meta_text :: "refund_offer \<Rightarrow> string \<Rightarrow> json option" where
  "meta_text oo k = (case ro_metadata oo of None \<Rightarrow> None | Some j \<Rightarrow> js_get j k)"

definition expected_refund :: "refund_offer \<Rightarrow> rat option" where
  "expected_refund oo = (let n = meta_text oo ''net_kas'' in
     if js_truthy n then (case n of Some j \<Rightarrow> parseFloat (js_String j) | None \<Rightarrow> None)
     else (case ro_give_amount oo of Some (c # t) \<Rightarrow> parseFloat (c # t) | _ \<Rightarrow> Some 0))"

text \<open>\<open>like\<close> tells whether the text of a payload contains the offer's id as \<open>"offer_id":"..."\<close>.\<close>

definition offer_event :: "(payload \<Rightarrow> string \<Rightarrow> bool) \<Rightarrow> broker_db \<Rightarrow> string \<Rightarrow> audit_row option" where
  "offer_event like db i = find (\<lambda>e. au_type e = ''broker_kas_refunded'' \<and> like (au_payload e) i
     \<and> list_ex (\<lambda>t. tx_id t = au_txid e) (bd_txs db)) (bd_events db)"

definition isOfferAlreadyRefunded :: "(payload \<Rightarrow> string \<Rightarrow> bool) \<Rightarrow> broker_db \<Rightarrow> refund_offer option \<Rightarrow> refund_check" where
  "isOfferAlreadyRefunded like db offer =
    (case offer of None \<Rightarrow> \<lparr> rc_already = False, rc_prior = [], rc_expected = Some 0, rc_user = None \<rparr>
     | Some oo \<Rightarrow>
       (case meta_text oo ''user_kasia_address'' of
          Some (JStr (c # u)) \<Rightarrow>
            (case offer_event like db (ro_id oo) of
               Some e \<Rightarrow> \<lparr> rc_already = True, rc_prior = [OfferEvent (au_txid e)], rc_expected = expected_refund oo, rc_user = Some (c # u) \<rparr>
             | None \<Rightarrow>
               (case expected_refund oo of
                  None \<Rightarrow> \<lparr> rc_already = False, rc_prior = [], rc_expected = None, rc_user = Some (c # u) \<rparr>
                | Some q \<Rightarrow>
                  if q = 0 then \<lparr> rc_already = False, rc_prior = [], rc_expected = Some 0, rc_user = Some (c # u) \<rparr>
                  else (let prior = findPriorRefundTxs db (c # u) q (or_else (ro_broadcast_at oo) (ro_created_at oo)) (1/100)
                    in \<lparr> rc_already = prior \<noteq> [], rc_prior = map ChainTx prior, rc_expected = Some q, rc_user = Some (c # u) \<rparr>)))
        | _ \<Rightarrow> \<lparr> rc_already = False, rc_prior = [], rc_expected = Some 0, rc_user = None \<rparr>))"

end
