(* ===== verification/Broker_Safety.thy ===== *)
theory Broker_Safety
  imports Broker_Drafts
begin

section \<open>Safety of retail orders\<close>

text \<open>
  Histories of the broker's orders under the state machine: its moves and sweeps, the refund wrapper and the
  operations on drafts.  Code that writes the orders past the state machine (\<open>broker-v2/router.js\<close>, \<open>exchange-machine.js\<close>,
  \<open>broker-state-authority.js\<close>, a test endpoint of \<open>api/conversations.js\<close>) is not part of these histories; two such writers
  are \<open>markPurchasesPaid\<close> and \<open>resetConvoState\<close>.  Finished orders stay finished, no order is paid, completed or refunded without
  the transaction that proves it, and a refund transaction belongs to one order.
\<close>

subsection \<open>One move\<close>

definition move_result :: "broker_db \<Rightarrow> nat \<Rightarrow> string \<Rightarrow> rstate \<Rightarrow> rstate \<Rightarrow> move_opts \<Rightarrow> retail list" where
  "move_result db now oid from to mo = update_where (\<lambda>r. rt_id r = oid \<and> rt_state r = from) (move_row now to mo) (bd_orders db)"

definition legal_move :: "broker_db \<Rightarrow> string \<Rightarrow> rstate \<Rightarrow> rstate \<Rightarrow> move_opts \<Rightarrow> bool" where
  "legal_move db oid from to mo = ((\<exists>allowed. ALLOWED_TRANSITIONS from = Some allowed \<and> to \<in> set allowed) \<and> \<not> missing_tx from to mo
     \<and> (\<exists>r \<in> set (bd_orders db). rt_id r = oid \<and> rt_state r = from)
     \<and> (\<forall>h. mo_refundTxHash mo = Some h \<longrightarrow> \<not> refund_tx_taken db oid h))"

definition audit_rows :: "broker_db \<Rightarrow> nat" where
  "audit_rows db = length (bd_events db) + length (bd_markers db)"

lemma retail_move_cases:
  assumes "retail_move db uuid now oid from to mo = (db', out)"
  obtains "legal_move db oid from to mo" "bd_orders db' = move_result db now oid from to mo" "out = Moved" "audit_rows db' = audit_rows db + 1"
  | "legal_move db oid from to mo" "bd_orders db' = move_result db now oid from to mo" "out \<in> {Threw UniqueEvent, Threw UniqueMarker}" "audit_rows db' = audit_rows db"
  | "db' = db" "\<not> legal_move db oid from to mo" "out \<notin> {Moved, Threw UniqueEvent, Threw UniqueMarker}"
proof (cases "legal_move db oid from to mo")
  case True
  then obtain allowed where al: "ALLOWED_TRANSITIONS from = Some allowed" "to \<in> set allowed" "\<not> missing_tx from to mo"
    "count_where (\<lambda>r. rt_id r = oid \<and> rt_state r = from) (bd_orders db) \<noteq> 0"
    "(case mo_refundTxHash mo of Some h \<Rightarrow> refund_tx_taken db oid h | None \<Rightarrow> False) = False"
    by (auto simp: legal_move_def count_where_0 split: option.split)
  show ?thesis using assms that(1,2) True al
    by (auto simp: retail_move_def Let_def move_result_def audit_rows_def split: if_splits)
next
  case False
  then show ?thesis using assms that(3)
    by (auto simp: retail_move_def legal_move_def count_where_0 Let_def split: option.splits if_splits)
qed

lemma move_outcomes:
  "case retail_move db uuid now oid from to mo of (db', out) \<Rightarrow>
     (out \<in> {Moved, Threw UniqueEvent, Threw UniqueMarker} \<longleftrightarrow> legal_move db oid from to mo)
     \<and> bd_orders db' = (if legal_move db oid from to mo then move_result db now oid from to mo else bd_orders db)
     \<and> audit_rows db' = audit_rows db + (if out = Moved then 1 else 0)"
  by (cases "retail_move db uuid now oid from to mo") (auto elim!: retail_move_cases)

subsection \<open>Histories\<close>

inductive move_step :: "broker_db \<Rightarrow> broker_db \<Rightarrow> bool" where
  move: "retail_move db uuid now oid from to mo = (db', out) \<Longrightarrow> move_step db db'"

text \<open>The operations of \<open>broker-state-machine.js\<close> and of the drafts in \<open>broker-v2/state.js\<close>, and the rows the node indexes from the
  chain.  \<open>sane\<close> restricts \<open>advance\<close> to the target its caller uses, \<open>keep\<close> excludes the deletion of drafts.\<close>

inductive retail_step :: "bool \<Rightarrow> bool \<Rightarrow> broker_db \<Rightarrow> broker_db \<Rightarrow> bool" for sane keep where
  moved: "retail_move db uuid now oid from to mo = (db', out) \<Longrightarrow> retail_step sane keep db db'"
| swept: "reconcileStaleOrders db uuids startMs now = (db', res) \<Longrightarrow> retail_step sane keep db db'"
| wrapped: "markOrderRefunded db num nowMs oid h src = (db', out) \<Longrightarrow> retail_step sane keep db db'"
| alerted: "markRefundFailed db oid = (db', b) \<Longrightarrow> retail_step sane keep db db'"
| seeded: "seedDraft db nowMs peer side = (db', sr) \<Longrightarrow> retail_step sane keep db db'"
| field_set: "setField db now peer f v = (db', fr) \<Longrightarrow> retail_step sane keep db db'"
| advanced: "advance db now peer st = (db', ar) \<Longrightarrow> (sane \<longrightarrow> st = AwaitingPayment) \<Longrightarrow> retail_step sane keep db db'"
| cleared: "clearDraft db peer = (db', n) \<Longrightarrow> \<not> keep \<Longrightarrow> retail_step sane keep db db'"
| observed: "retail_step sane keep db (db\<lparr> bd_txs := txs \<rparr>)"

lemma reconcile_moves: "reconcile_rows db uuid now rs n = (db', res) \<Longrightarrow> move_step\<^sup>*\<^sup>* db db'"
proof (induction db uuid now rs n arbitrary: db' res rule: reconcile_rows.induct)
  case (2 db uuid now r rs n)
  show ?case
  proof (cases "escrow_found db r")
    case True
    then show ?thesis using 2 by simp
  next
    case False
    obtain db1 out where m: "retail_move db (uuid (rt_id r)) now (rt_id r) AwaitingPayment RFailed reconcile_opts = (db1, out)" by fastforce
    then have "move_step db db1" by (rule move)
    moreover have "move_step\<^sup>*\<^sup>* db1 db'" using 2 False m by (cases out) auto
    ultimately show ?thesis by (rule converse_rtranclp_into_rtranclp)
  qed
qed simp

lemma sweep_moves: "reconcileStaleOrders db uuid startMs now = (db', res) \<Longrightarrow> move_step\<^sup>*\<^sup>* db db'"
  by (auto simp: reconcileStaleOrders_def Let_def intro: reconcile_moves split: prod.splits sum.splits)

text \<open>The refund wrapper asks for a state the table refuses, so it never writes.\<close>

lemma wrapper_keeps: "fst (markOrderRefunded db num nowMs oid h src) = db"
  by (simp add: markOrderRefunded_def state_check_def Let_def split: option.split)

subsection \<open>What a step does to a row\<close>

definition evidence :: "retail \<Rightarrow> bool" where
  "evidence r = ((rt_state r = RPaid \<longrightarrow> rt_pay_tx r \<noteq> None)
     \<and> (rt_state r = RCompleted \<longrightarrow> rt_pay_tx r \<noteq> None \<and> rt_deliver_tx r \<noteq> None)
     \<and> (rt_state r = RRefunded \<longrightarrow> rt_refund_tx r \<noteq> None))"

definition retail_edge :: "rstate \<Rightarrow> rstate \<Rightarrow> bool" where
  "retail_edge s t = (s = Aligning \<or> (\<exists>allowed. ALLOWED_TRANSITIONS s = Some allowed \<and> t \<in> set allowed))"

definition row_change :: "bool \<Rightarrow> retail \<Rightarrow> retail \<Rightarrow> bool" where
  "row_change sane r q = (rt_id q = rt_id r \<and> rt_user q = rt_user r \<and> rt_side q = rt_side r
     \<and> (rt_pay_address r \<noteq> None \<longrightarrow> rt_pay_address q = rt_pay_address r)
     \<and> (rt_state q = rt_state r \<or> retail_edge (rt_state r) (rt_state q)) \<and> (sane \<longrightarrow> evidence r \<longrightarrow> evidence q))"

definition rows_change :: "bool \<Rightarrow> bool \<Rightarrow> retail list \<Rightarrow> retail list \<Rightarrow> bool" where
  "rows_change sane keep rows rows' = (list_all2 (row_change sane) rows rows'
     \<or> (\<not> keep \<and> (\<exists>peer. rows' = filter (\<lambda>r. \<not> draft_of peer r) rows))
     \<or> (\<exists>i peer side now. i \<notin> rt_id ` set rows \<and> rows' = rows @ [draft_row i peer side now]))"

lemma row_change_refl [simp]: "row_change sane r r"
  by (simp add: row_change_def)

lemma rows_change_update:
  "(\<And>r. r \<in> set rows \<Longrightarrow> p r \<Longrightarrow> row_change sane r (f r)) \<Longrightarrow> rows_change sane keep rows (update_where p f rows)"
  unfolding rows_change_def by (rule disjI1) (induction rows, auto)

lemma rows_change_refl [simp]: "rows_change sane keep rows rows"
  by (simp add: rows_change_def list.rel_refl)

lemma move_changes:
  assumes "legal_move db oid from to mo"
  shows "rows_change sane keep (bd_orders db) (move_result db now oid from to mo)"
  unfolding move_result_def
proof (rule rows_change_update)
  fix r assume r: "r \<in> set (bd_orders db)" "rt_id r = oid \<and> rt_state r = from"
  have e: "retail_edge from to" using assms by (auto simp: legal_move_def retail_edge_def)
  have "evidence (move_row now to mo r)" if "evidence r"
    using assms that r(2) unfolding legal_move_def missing_tx_def
    by (cases "from"; cases to) (auto simp: evidence_def move_row_def or_else_def split: option.splits)
  then show "row_change sane r (move_row now to mo r)"
    using e r(2) by (simp add: row_change_def move_row_def)
qed

lemma move_step_changes: "move_step db db' \<Longrightarrow> rows_change sane keep (bd_orders db) (bd_orders db')"
  by (erule move_step.cases) (auto elim!: retail_move_cases intro: move_changes)

lemma write_field_changes:
  assumes "writable peer f v r"
  shows "row_change sane r ((write_field f v r)\<lparr> rt_updated_at := Sql now \<rparr>)"
  using assms by (cases f) (auto simp: row_change_def writable_def LOCKED_FIELDS_def evidence_def)

lemma advance_changes:
  assumes "sane \<longrightarrow> st = AwaitingPayment"
  shows "rows_change sane keep (bd_orders db) (bd_orders (fst (advance db now peer st)))"
proof -
  have "rows_change sane keep (bd_orders db) (update_where (draft_of peer) (\<lambda>r. r\<lparr> rt_state := st, rt_updated_at := Sql now \<rparr>) (bd_orders db))"
    using assms by (intro rows_change_update) (auto simp: row_change_def draft_of_def retail_edge_def evidence_def)
  then show ?thesis by (simp add: advance_def)
qed

lemma seed_changes: "rows_change sane keep (bd_orders db) (bd_orders (fst (seedDraft db nowMs peer side)))"
proof -
  have "rows_change sane keep rows (rows @ [draft_row i p t now])" if "\<not> list_ex (\<lambda>r. rt_id r = i) rows" for i p t now rows
    using that unfolding rows_change_def list_ex_iff by (intro disjI2 exI conjI) auto
  then show ?thesis unfolding seedDraft_def Let_def by (simp split: option.split)
qed

lemma set_changes: "rows_change sane keep (bd_orders db) (bd_orders (fst (setField db now peer f v)))"
  using rows_change_update [of "bd_orders db" "writable peer f v" sane "\<lambda>r. (write_field f v r)\<lparr> rt_updated_at := Sql now \<rparr>"] write_field_changes
  by (simp add: setField_def Let_def)

lemma clear_changes: "\<not> keep \<Longrightarrow> rows_change sane keep (bd_orders db) (bd_orders (fst (clearDraft db peer)))"
  by (auto simp: clearDraft_def rows_change_def list.rel_refl)

lemma step_changes:
  assumes "retail_step sane keep db db'"
  shows "(\<lambda>rows rows'. rows_change sane keep rows rows')\<^sup>*\<^sup>* (bd_orders db) (bd_orders db')"
  using assms
proof (cases rule: retail_step.cases)
  case (moved uuid now oid a b mo out)
  then show ?thesis using move_step_changes [OF move] by (blast intro: r_into_rtranclp)
next
  case (swept uuids startMs now res)
  have "move_step\<^sup>*\<^sup>* db db'" using swept by (rule sweep_moves)
  then show ?thesis by (induction rule: rtranclp_induct) (auto dest: move_step_changes intro: rtranclp.rtrancl_into_rtrancl)
next
  case (wrapped num nowMs oid h src out)
  then show ?thesis using wrapper_keeps [of db num nowMs oid h src] by simp
next
  case (alerted oid b)
  then show ?thesis by (auto simp: markRefundFailed_def split: option.splits)
next
  case (seeded nowMs peer side sr)
  then show ?thesis using seed_changes [of sane keep db nowMs peer side] by (auto intro: r_into_rtranclp)
next
  case (field_set now peer f v fr)
  then show ?thesis using set_changes [of sane keep db now peer f v] by (auto intro: r_into_rtranclp)
next
  case (advanced now peer st ar)
  then show ?thesis using advance_changes [of sane st keep db now peer] by (auto intro: r_into_rtranclp)
next
  case (cleared peer n)
  then show ?thesis using clear_changes [of keep sane db peer] by (auto intro: r_into_rtranclp)
next
  case (observed txs)
  then show ?thesis by simp
qed


subsection \<open>Finished orders\<close>

definition settled_state :: "broker_db \<Rightarrow> string \<Rightarrow> rstate option" where
  "settled_state db oid = (case getOrderState db oid of None \<Rightarrow> None
     | Some r \<Rightarrow> if rt_state r = Aligning then None else Some (rt_state r))"

lemma find_filter_kept: "find P rows = Some r \<Longrightarrow> Q r \<Longrightarrow> find P (filter Q rows) = Some r"
  by (induction rows) (auto split: if_splits)

lemma find_list_all2:
  "list_all2 R rows rows' \<Longrightarrow> (\<And>a b. R a b \<Longrightarrow> key b = key a) \<Longrightarrow> find (\<lambda>r. key r = k) rows = Some r \<Longrightarrow>
    \<exists>q. find (\<lambda>r. key r = k) rows' = Some q \<and> R r q"
  by (induction rule: list_all2_induct) (auto split: if_splits)

lemma rows_change_find:
  assumes "rows_change sane keep rows rows'" "find (\<lambda>r. rt_id r = i) rows = Some r" "rt_state r \<noteq> Aligning"
  shows "\<exists>q. find (\<lambda>r. rt_id r = i) rows' = Some q \<and> row_change sane r q"
  using assms(1) unfolding rows_change_def
proof (elim disjE exE conjE)
  assume "list_all2 (row_change sane) rows rows'"
  then show ?thesis using find_list_all2 [of "row_change sane" rows rows' rt_id i r] assms(2) by (auto simp: row_change_def)
next
  fix peer assume "rows' = filter (\<lambda>r. \<not> draft_of peer r) rows"
  then show ?thesis using find_filter_kept [OF assms(2)] assms(3) by (auto simp: draft_of_def)
next
  fix j peer side now assume "rows' = rows @ [draft_row j peer side now]"
  then show ?thesis using assms(2) by (auto simp: find_append)
qed

lemma row_change_left: "row_change sane r q \<Longrightarrow> rt_state r \<noteq> Aligning \<Longrightarrow> rt_state q \<noteq> Aligning"
  by (cases "rt_state r") (auto simp: row_change_def retail_edge_def)

lemma settled_moves:
  assumes "retail_step sane keep db db'" "settled_state db i = Some s"
  shows "\<exists>s'. settled_state db' i = Some s' \<and> retail_edge\<^sup>*\<^sup>* s s'"
proof -
  have st: "settled_state d i = Some t \<longleftrightarrow> (\<exists>r. find (\<lambda>r. rt_id r = i) (bd_orders d) = Some r \<and> rt_state r = t \<and> t \<noteq> Aligning)" for d t
    by (auto simp: settled_state_def getOrderState_def split: option.splits if_splits)
  have "\<exists>q. find (\<lambda>r. rt_id r = i) rows' = Some q \<and> rt_state q \<noteq> Aligning \<and> retail_edge\<^sup>*\<^sup>* s (rt_state q)"
    if "(\<lambda>rows rows'. rows_change sane keep rows rows')\<^sup>*\<^sup>* (bd_orders db) rows'" for rows'
    using that
  proof (induction rule: rtranclp_induct)
    case base
    then show ?case using assms(2) by (auto simp: st)
  next
    case (step y z)
    then obtain q where q: "find (\<lambda>r. rt_id r = i) y = Some q" "rt_state q \<noteq> Aligning" "retail_edge\<^sup>*\<^sup>* s (rt_state q)" by blast
    obtain p where p: "find (\<lambda>r. rt_id r = i) z = Some p" "row_change sane q p"
      using rows_change_find [OF step.hyps(2) q(1,2)] by blast
    have "rt_state p = rt_state q \<or> retail_edge (rt_state q) (rt_state p)" using p(2) by (auto simp: row_change_def)
    then show ?case using p row_change_left [OF p(2) q(2)] q(3) by (auto intro: rtranclp.rtrancl_into_rtrancl)
  qed
  from this [OF step_changes [OF assms(1)]] obtain q where
    "find (\<lambda>r. rt_id r = i) (bd_orders db') = Some q" "rt_state q \<noteq> Aligning" "retail_edge\<^sup>*\<^sup>* s (rt_state q)" by blast
  then show ?thesis by (intro exI [of _ "rt_state q"]) (simp add: st)
qed

interpretation retailm: status_machine settled_state "retail_step sane keep" retail_edge
  by unfold_locales (rule settled_moves)

lemma finished_edge: "s \<in> set TERMINAL_RSTATES \<Longrightarrow> \<not> retail_edge s t"
  by (auto simp: TERMINAL_RSTATES_def retail_edge_def)

text \<open>A completed, refunded, failed or expired order keeps its state through every history of moves,
  sweeps, refund attempts and operations on drafts.\<close>
theorem finished_orders_final:
  assumes "(retail_step sane keep)\<^sup>*\<^sup>* db db'" "getOrderState db oid = Some r" "rt_state r \<in> set TERMINAL_RSTATES"
  shows "map_option rt_state (getOrderState db' oid) = Some (rt_state r)"
proof -
  have "settled_state db oid = Some (rt_state r)" using assms(2,3) by (auto simp: settled_state_def TERMINAL_RSTATES_def)
  then have "settled_state db' oid = Some (rt_state r)"
    using retailm.terminal_absorbing [OF assms(1)] finished_edge [OF assms(3)] by blast
  then show ?thesis by (auto simp: settled_state_def split: option.splits if_splits)
qed

subsection \<open>No transaction, no state\<close>

definition proven :: "broker_db \<Rightarrow> bool" where
  "proven db = (\<forall>r \<in> set (bd_orders db). evidence r)"

lemma rows_change_proven:
  assumes "rows_change True keep rows rows'" "\<forall>r \<in> set rows. evidence r"
  shows "\<forall>r \<in> set rows'. evidence r"
  using assms(1) unfolding rows_change_def
proof (elim disjE exE conjE)
  assume "list_all2 (row_change True) rows rows'"
  then show ?thesis using assms(2) by (induction rule: list_all2_induct) (auto simp: row_change_def)
qed (use assms(2) in \<open>auto simp: evidence_def draft_row_def\<close>)

lemma step_proven: "retail_step True keep db db' \<Longrightarrow> proven db \<Longrightarrow> proven db'"
  unfolding proven_def
proof (drule step_changes)
  assume "(\<lambda>rows rows'. rows_change True keep rows rows')\<^sup>*\<^sup>* (bd_orders db) (bd_orders db')" "\<forall>r \<in> set (bd_orders db). evidence r"
  then show "\<forall>r \<in> set (bd_orders db'). evidence r"
    by (induction rule: rtranclp_induct) (auto dest: rows_change_proven)
qed

lemma history_proven: "(retail_step True keep)\<^sup>*\<^sup>* db db' \<Longrightarrow> proven db \<Longrightarrow> proven db'"
  by (induction rule: rtranclp_induct) (auto dest: step_proven)

text \<open>C14: as long as orders are written by the state machine and the drafts only, and drafts are only advanced to
  \<open>awaiting_payment\<close>, as their caller does, a paid order has a payment transaction, a completed one a payment and a delivery,
  a refunded one a refund, whatever the order of the operations.\<close>

theorem no_tx_no_state:
  assumes "(retail_step True keep)\<^sup>*\<^sup>* db db'" "bd_orders db = []" "getOrderState db' oid = Some r"
  shows "(rt_state r = RPaid \<longrightarrow> rt_pay_tx r \<noteq> None)
     \<and> (rt_state r = RCompleted \<longrightarrow> rt_pay_tx r \<noteq> None \<and> rt_deliver_tx r \<noteq> None)
     \<and> (rt_state r = RRefunded \<longrightarrow> rt_refund_tx r \<noteq> None)"
proof -
  have "proven db'" using history_proven [OF assms(1)] assms(2) by (simp add: proven_def)
  then have "evidence r" using assms(3) find_key_Some [of rt_id oid] by (fastforce simp: proven_def getOrderState_def)
  then show ?thesis by (simp add: evidence_def)
qed

text \<open>Past the state machine this fails: the router marks a purchase paid that has no payment transaction.\<close>

theorem paid_without_transaction:
  assumes "getOrderState db oid = Some r" "rt_side r = ''buy_kas''" "rt_state r = AwaitingPayment" "rt_pay_tx r = None"
    and "stamp_less (Sql (now - 7200)) (rt_created_at r)"
  shows "\<exists>q. getOrderState (markPurchasesPaid db now (rt_user r)) oid = Some q \<and> rt_state q = RPaid \<and> rt_pay_tx q = None"
proof -
  let ?p = "\<lambda>q. rt_user q = rt_user r \<and> rt_side q = ''buy_kas'' \<and> rt_state q = AwaitingPayment \<and> stamp_less (Sql (now - 7200)) (rt_created_at q)"
  have "find (\<lambda>q. rt_id q = oid) (update_where ?p (\<lambda>r. r\<lparr> rt_state := RPaid, rt_updated_at := Sql now \<rparr>) (bd_orders db))
      = map_option (\<lambda>q. if ?p q then q\<lparr> rt_state := RPaid, rt_updated_at := Sql now \<rparr> else q) (find (\<lambda>q. rt_id q = oid) (bd_orders db))"
    by (rule find_update_where) simp
  then show ?thesis using assms by (simp add: getOrderState_def markPurchasesPaid_def)
qed

subsection \<open>Locked fields\<close>

lemma keeping_find:
  assumes "retail_step sane True db db'" "getOrderState db i = Some r"
  shows "\<exists>q. getOrderState db' i = Some q \<and> rt_side q = rt_side r \<and> rt_user q = rt_user r
     \<and> (rt_pay_address r \<noteq> None \<longrightarrow> rt_pay_address q = rt_pay_address r)"
  using step_changes [OF assms(1)] unfolding getOrderState_def
proof (induction rule: rtranclp_induct)
  case base
  then show ?case using assms(2) by (simp add: getOrderState_def)
next
  case (step y z)
  then obtain q where q: "find (\<lambda>r. rt_id r = i) y = Some q" "rt_side q = rt_side r" "rt_user q = rt_user r"
     "rt_pay_address r \<noteq> None \<longrightarrow> rt_pay_address q = rt_pay_address r" by blast
  from step.hyps(2) show ?case unfolding rows_change_def
  proof (elim disjE exE conjE)
    assume "list_all2 (row_change sane) y z"
    then obtain p where "find (\<lambda>r. rt_id r = i) z = Some p" "row_change sane q p"
      using find_list_all2 [of "row_change sane" y z rt_id i q] q(1) by (auto simp: row_change_def)
    then show ?thesis using q by (auto simp: row_change_def)
  next
    fix j peer side now assume "z = y @ [draft_row j peer side now]"
    then show ?thesis using q by (simp add: find_append)
  qed simp
qed

text \<open>A draft's side never changes and its payment address is written at most once: whatever the history,
  as long as the peer's drafts are not cleared, the order has the same side and the same address.\<close>
theorem locked_fields_stay:
  assumes "(retail_step sane True)\<^sup>*\<^sup>* db db'" "getOrderState db oid = Some r"
  shows "\<exists>q. getOrderState db' oid = Some q \<and> rt_side q = rt_side r \<and> rt_user q = rt_user r
     \<and> (rt_pay_address r \<noteq> None \<longrightarrow> rt_pay_address q = rt_pay_address r)"
  using assms
proof (induction rule: rtranclp_induct)
  case (step y z)
  then obtain q where q: "getOrderState y oid = Some q" "rt_side q = rt_side r" "rt_user q = rt_user r"
    "rt_pay_address r \<noteq> None \<longrightarrow> rt_pay_address q = rt_pay_address r" by blast
  show ?case using keeping_find [OF step.hyps(2) q(1)] q by auto
qed simp

subsection \<open>A refund transaction belongs to one order\<close>

definition refund_keys :: "retail list \<Rightarrow> (string \<times> string option) list" where
  "refund_keys rows = map (\<lambda>r. (rt_id r, rt_refund_tx r)) rows"

definition refunds_ok :: "retail list \<Rightarrow> bool" where
  "refunds_ok rows = (\<forall>i j h. (i, Some h) \<in> set (refund_keys rows) \<longrightarrow> (j, Some h) \<in> set (refund_keys rows) \<longrightarrow> j = i)"

lemma refund_keys_same: "(\<And>r. rt_id (f r) = rt_id r) \<Longrightarrow> (\<And>r. rt_refund_tx (f r) = rt_refund_tx r) \<Longrightarrow>
    refund_keys (update_where p f rows) = refund_keys rows"
  by (simp add: refund_keys_def update_where_def)

lemma refund_keys_move:
  assumes "(i, Some h) \<in> set (refund_keys (move_result db now oid from to mo))"
  shows "(i, Some h) \<in> set (refund_keys (bd_orders db)) \<or> (i = oid \<and> mo_refundTxHash mo = Some h)"
proof -
  obtain r where r: "r \<in> set (bd_orders db)" "(i, Some h) = (\<lambda>r. (rt_id r, rt_refund_tx r)) (if rt_id r = oid \<and> rt_state r = from then move_row now to mo r else r)"
    using assms unfolding refund_keys_def move_result_def update_where_def by auto
  then show ?thesis
    by (cases "mo_refundTxHash mo") (auto simp: refund_keys_def move_row_def or_else_def split: if_splits)
qed

lemma move_refunds:
  assumes ok: "refunds_ok (bd_orders db)" and mv: "legal_move db oid from to mo"
  shows "refunds_ok (move_result db now oid from to mo)"
  unfolding refunds_ok_def
proof (intro allI impI)
  fix i j h assume *: "(i, Some h) \<in> set (refund_keys (move_result db now oid from to mo))" "(j, Some h) \<in> set (refund_keys (move_result db now oid from to mo))"
  have free: "k = oid" if "mo_refundTxHash mo = Some h" "(k, Some h) \<in> set (refund_keys (bd_orders db))" for k
    using mv that by (auto simp: legal_move_def refund_tx_taken_def list_ex_iff refund_keys_def)
  show "j = i"
    using refund_keys_move [OF *(1)] refund_keys_move [OF *(2)] free ok unfolding refunds_ok_def by blast
qed

lemma move_step_refunds: "move_step db db' \<Longrightarrow> refunds_ok (bd_orders db) \<Longrightarrow> refunds_ok (bd_orders db')"
  by (erule move_step.cases) (auto elim!: retail_move_cases intro: move_refunds)

lemma write_field_refund [simp]: "rt_refund_tx (write_field f v r) = rt_refund_tx r" "rt_id (write_field f v r) = rt_id r"
  by (cases f; simp)+

lemma seed_orders: "bd_orders (fst (seedDraft db nowMs peer side))
    \<in> {bd_orders db, bd_orders db @ [draft_row (''bv2_'' @ last_12 peer @ ''_'' @ nat_str nowMs) peer side (nowMs div 1000)]}"
  unfolding seedDraft_def Let_def by (simp split: option.split)

lemma step_refunds:
  assumes "retail_step sane keep db db'" "refunds_ok (bd_orders db)"
  shows "refunds_ok (bd_orders db')"
  using assms(1)
proof (cases rule: retail_step.cases)
  case (moved uuid now oid a b mo out)
  then show ?thesis using move_step_refunds [OF move] assms(2) by blast
next
  case (swept uuids startMs now res)
  have "move_step\<^sup>*\<^sup>* db db'" using swept by (rule sweep_moves)
  then show ?thesis using assms(2) by (induction rule: rtranclp_induct) (auto dest: move_step_refunds)
next
  case (wrapped num nowMs oid h src out)
  then show ?thesis using wrapper_keeps [of db num nowMs oid h src] assms(2) by simp
next
  case (alerted oid b)
  then show ?thesis using assms(2) by (auto simp: markRefundFailed_def split: option.splits)
next
  case (seeded nowMs peer side sr)
  then have "bd_orders db' \<in> {bd_orders db, bd_orders db @ [draft_row (''bv2_'' @ last_12 peer @ ''_'' @ nat_str nowMs) peer side (nowMs div 1000)]}"
    using seed_orders [of db nowMs peer side] by simp
  then have "(k, Some h) \<in> set (refund_keys (bd_orders db')) \<Longrightarrow> (k, Some h) \<in> set (refund_keys (bd_orders db))" for k h
    unfolding refund_keys_def by (elim insertE) (simp_all add: draft_row_def)
  then show ?thesis using assms(2) unfolding refunds_ok_def by blast
next
  case (field_set now peer f v fr)
  then have "refund_keys (bd_orders db') = refund_keys (bd_orders db)"
    using refund_keys_same [of "\<lambda>r. (write_field f v r)\<lparr> rt_updated_at := Sql now \<rparr>" "writable peer f v" "bd_orders db"]
    by (auto simp: setField_def Let_def split: if_splits)
  then show ?thesis using assms(2) by (simp add: refunds_ok_def)
next
  case (advanced now peer st ar)
  then have "refund_keys (bd_orders db') = refund_keys (bd_orders db)"
    using refund_keys_same [of "\<lambda>r. r\<lparr> rt_state := st, rt_updated_at := Sql now \<rparr>" "draft_of peer" "bd_orders db"]
    by (auto simp: advance_def split: if_splits)
  then show ?thesis using assms(2) by (simp add: refunds_ok_def)
next
  case (cleared peer n)
  then have "set (refund_keys (bd_orders db')) \<subseteq> set (refund_keys (bd_orders db))"
    by (auto simp: clearDraft_def refund_keys_def split: if_splits)
  then show ?thesis using assms(2) unfolding refunds_ok_def by blast
next
  case (observed txs)
  then show ?thesis using assms(2) by simp
qed

lemma history_refunds: "(retail_step sane keep)\<^sup>*\<^sup>* db db' \<Longrightarrow> refunds_ok (bd_orders db) \<Longrightarrow> refunds_ok (bd_orders db')"
  by (induction rule: rtranclp_induct) (auto dest: step_refunds)

text \<open>In every history that starts without orders, a refund transaction is recorded on one order only.\<close>
theorem refund_tx_of_one_order:
  assumes "(retail_step sane keep)\<^sup>*\<^sup>* db db'" "bd_orders db = []"
    and "r \<in> set (bd_orders db')" "q \<in> set (bd_orders db')" "rt_refund_tx r = Some h" "rt_refund_tx q = Some h"
  shows "rt_id q = rt_id r"
proof -
  have "refunds_ok (bd_orders db')" using history_refunds [OF assms(1)] assms(2) by (simp add: refunds_ok_def refund_keys_def)
  moreover have "(rt_id r, Some h) \<in> set (refund_keys (bd_orders db'))" "(rt_id q, Some h) \<in> set (refund_keys (bd_orders db'))"
    using assms(3-6) by (auto simp: refund_keys_def image_iff intro!: bexI)
  ultimately show ?thesis unfolding refunds_ok_def by blast
qed

subsection \<open>Outcomes of a move\<close>

text \<open>A move writes exactly when it is legal, the order is in the expected state and the refund
  transaction is free; a reported success has its audit row, and the only failure after the write is an audit
  row that clashes, which leaves the order moved without one.\<close>
theorem move_writes_iff_legal:
  "case retail_move db uuid now oid from to mo of (db', out) \<Rightarrow>
     (out \<in> {Moved, Threw UniqueEvent, Threw UniqueMarker} \<longleftrightarrow> legal_move db oid from to mo)
     \<and> bd_orders db' = (if legal_move db oid from to mo then move_result db now oid from to mo else bd_orders db)
     \<and> audit_rows db' = audit_rows db + (if out = Moved then 1 else 0)"
  by (rule move_outcomes)

text \<open>The refund wrapper can refund no order: it asks for a state the table does not admit, so it fails and
  writes nothing, whatever its arguments.\<close>
theorem refund_wrapper_never_refunds:
  "\<exists>e. markOrderRefunded db num nowMs oid refundTxHash source = (db, Inl e)"
  by (simp add: markOrderRefunded_def state_check_def Let_def split: option.split)

text \<open>The grace period of the sweep does not end after the hour but with the day: on the day of the cut-off
  (and before) an order created before the cut-off is never swept, however stale it is.\<close>
theorem sweep_waits_for_next_day:
  assumes "now div 86400 \<le> (startMs + STARTUP_GRACE_MS) div 86400000"
    and "\<forall>r \<in> set (bd_orders db). stamp_less (rt_created_at r) (Iso (startMs + STARTUP_GRACE_MS))"
  shows "reconcileStaleOrders db uuid startMs now = (db, Inr (0, 0))"
proof -
  have "stamp_le (Sql now) (Iso (startMs + STARTUP_GRACE_MS))" using assms(1) by (auto simp: stamp_le_def)
  then have "filter (is_stale db startMs now) (bd_orders db) = []"
    using assms(2) by (auto simp: filter_empty_conv is_stale_def Let_def stamp_less_def)
  then show ?thesis by (simp add: reconcileStaleOrders_def)
qed

text \<open>Confirming the current draft also publishes every expired one of the peer: \<open>advance\<close> moves each
  aligning row, also those that are no active draft any more.\<close>
theorem advance_revives_expired:
  assumes "getOrderState db oid = Some r" "draft_of peer r" "peer \<noteq> []"
    and "rt_expires_at r = Some t" "stamp_le t (Sql now)"
  shows "\<not> live_draft now peer r \<and> map_option rt_state (getOrderState (fst (advance db now peer AwaitingPayment)) oid) = Some AwaitingPayment"
proof -
  have "fst (advance db now peer AwaitingPayment)
      = db\<lparr> bd_orders := update_where (draft_of peer) (\<lambda>r. r\<lparr> rt_state := AwaitingPayment, rt_updated_at := Sql now \<rparr>) (bd_orders db) \<rparr>"
    using assms(3) by (simp add: advance_def state_check_def list_ex_iff)
  moreover have "find (\<lambda>r. rt_id r = oid) (update_where (draft_of peer) (\<lambda>r. r\<lparr> rt_state := AwaitingPayment, rt_updated_at := Sql now \<rparr>) (bd_orders db))
      = map_option (\<lambda>r. if draft_of peer r then r\<lparr> rt_state := AwaitingPayment, rt_updated_at := Sql now \<rparr> else r) (find (\<lambda>r. rt_id r = oid) (bd_orders db))"
    by (rule find_update_where) simp
  ultimately show ?thesis using assms by (auto simp: getOrderState_def live_draft_def stamp_less_def)
qed

subsection \<open>An example history\<close>

definition ex_empty :: broker_db where
  "ex_empty = \<lparr> bd_orders = [], bd_events = [], bd_markers = [], bd_txs = [], bd_alerts = [] \<rparr>"

definition ex_opts :: "string option \<Rightarrow> string option \<Rightarrow> string option \<Rightarrow> move_opts" where
  "ex_opts p r d = \<lparr> mo_paymentTxHash = p, mo_refundTxHash = r, mo_deliveryTxHash = d, mo_reason = None, mo_no_escrow = False, mo_triggeredBy = None \<rparr>"

definition ex_id :: string where "ex_id = ''bv2_kaspa:u_5''"

definition ex_seeded :: broker_db where "ex_seeded = fst (seedDraft ex_empty 5 ''kaspa:u'' ''sell_kas'')"
definition ex_address :: broker_db where "ex_address = fst (setField ex_seeded 6 ''kaspa:u'' FPayAddress ''0xa'')"
definition ex_waiting :: broker_db where "ex_waiting = fst (advance ex_address 7 ''kaspa:u'' AwaitingPayment)"
definition ex_refunded :: broker_db where
  "ex_refunded = fst (retail_move ex_waiting ''u1'' 8 ex_id AwaitingPayment RRefunded (ex_opts None (Some ''t1'') None))"

lemma ex_step_seed: "retail_step True True ex_empty ex_seeded"
  unfolding ex_seeded_def by (rule retail_step.seeded [OF surjective_pairing])

lemma ex_step_address: "retail_step True True ex_seeded ex_address"
  unfolding ex_address_def by (rule retail_step.field_set [OF surjective_pairing])

lemma ex_step_wait: "retail_step True True ex_address ex_waiting"
  unfolding ex_waiting_def by (rule retail_step.advanced [OF surjective_pairing]) simp

lemma ex_step_refund: "retail_step True True ex_waiting ex_refunded"
  unfolding ex_refunded_def by (rule retail_step.moved [OF surjective_pairing])

lemma ex_history: "(retail_step True True)\<^sup>*\<^sup>* ex_empty ex_refunded"
  by (rule converse_rtranclp_into_rtranclp [where r = "retail_step True True", OF ex_step_seed],
      rule converse_rtranclp_into_rtranclp [where r = "retail_step True True", OF ex_step_address],
      rule converse_rtranclp_into_rtranclp [where r = "retail_step True True", OF ex_step_wait],
      rule r_into_rtranclp [where r = "retail_step True True", OF ex_step_refund])

lemma ex_5: "nat_str 5 = ''5''"
  by code_simp

lemma ex_seeded_rows: "bd_orders ex_seeded = [draft_row ex_id ''kaspa:u'' ''sell_kas'' 0]"
  by (simp add: ex_seeded_def ex_empty_def seedDraft_def getActiveDraft_def last_12_def ex_id_def Let_def ex_5)

lemma ex_address_rows: "bd_orders ex_address = [(draft_row ex_id ''kaspa:u'' ''sell_kas'' 0)\<lparr> rt_pay_address := Some ''0xa'', rt_updated_at := Sql 6 \<rparr>]"
  by (simp add: ex_address_def setField_def Let_def ex_seeded_rows writable_def LOCKED_FIELDS_def draft_row_def)

lemma ex_waiting_rows: "bd_orders ex_waiting = [(draft_row ex_id ''kaspa:u'' ''sell_kas'' 0)\<lparr> rt_pay_address := Some ''0xa'', rt_updated_at := Sql 7,
    rt_state := AwaitingPayment \<rparr>]"
  by (simp add: ex_waiting_def advance_def ex_address_rows draft_of_def draft_row_def state_check_def)

lemma ex_legal: "legal_move ex_waiting ex_id AwaitingPayment RRefunded (ex_opts None (Some ''t1'') None)"
  by (simp add: legal_move_def missing_tx_def ex_opts_def ex_waiting_rows draft_row_def refund_tx_taken_def)

lemma ex_refunded_rows: "bd_orders ex_refunded = [(draft_row ex_id ''kaspa:u'' ''sell_kas'' 0)\<lparr> rt_pay_address := Some ''0xa'', rt_updated_at := Sql 8,
    rt_state := RRefunded, rt_refund_tx := Some ''t1'' \<rparr>]"
proof -
  have "bd_orders ex_refunded = move_result ex_waiting 8 ex_id AwaitingPayment RRefunded (ex_opts None (Some ''t1'') None)"
    using move_outcomes [of ex_waiting ex_id AwaitingPayment RRefunded "ex_opts None (Some ''t1'') None" 8 "''u1''"] ex_legal
    unfolding ex_refunded_def by (simp split: prod.splits)
  then show ?thesis by (simp add: move_result_def ex_waiting_rows draft_row_def move_row_def ex_opts_def or_else_def)
qed

lemma ex_refunded_order: "getOrderState ex_refunded ex_id = Some ((draft_row ex_id ''kaspa:u'' ''sell_kas'' 0)\<lparr> rt_pay_address := Some ''0xa'',
    rt_updated_at := Sql 8, rt_state := RRefunded, rt_refund_tx := Some ''t1'' \<rparr>)"
  by (simp add: getOrderState_def ex_refunded_rows draft_row_def)

lemma ex_late_step: "(retail_step False False)\<^sup>*\<^sup>* ex_refunded (fst (advance ex_refunded 9 ''kaspa:u'' AwaitingPayment))"
  by (rule r_into_rtranclp [where r = "retail_step False False"], rule retail_step.advanced [OF surjective_pairing]) simp

lemma ex_relock_step: "(retail_step True True)\<^sup>*\<^sup>* ex_address (fst (setField ex_address 8 ''kaspa:u'' FPayAddress ''0xb''))"
  by (rule r_into_rtranclp [where r = "retail_step True True"], rule retail_step.field_set [OF surjective_pairing])

lemma finished_orders_final_witness:
  "map_option rt_state (getOrderState (fst (advance ex_refunded 9 ''kaspa:u'' AwaitingPayment)) ex_id) = Some RRefunded"
  using finished_orders_final [OF ex_late_step ex_refunded_order]
  by (simp add: TERMINAL_RSTATES_def draft_row_def)

lemma no_tx_no_state_witness: "rt_refund_tx (the (getOrderState ex_refunded ex_id)) \<noteq> None"
  using no_tx_no_state [OF ex_history _ ex_refunded_order] by (simp add: ex_empty_def ex_refunded_order draft_row_def)

abbreviation ex_purchase :: retail where
  "ex_purchase \<equiv> (draft_row ''o'' ''kaspa:u'' ''buy_kas'' 10000)\<lparr> rt_state := AwaitingPayment, rt_created_at := Sql 10000 \<rparr>"

lemma paid_without_transaction_witness:
  "\<exists>q. getOrderState (markPurchasesPaid (ex_empty\<lparr> bd_orders := [ex_purchase] \<rparr>) 10600 ''kaspa:u'') ''o'' = Some q \<and> rt_state q = RPaid \<and> rt_pay_tx q = None"
proof -
  have g: "getOrderState (ex_empty\<lparr> bd_orders := [ex_purchase] \<rparr>) ''o'' = Some ex_purchase" by (simp add: getOrderState_def draft_row_def)
  from paid_without_transaction [OF this, of 10600] show ?thesis by (simp add: draft_row_def stamp_less_def stamp_le_def)
qed

lemma locked_fields_stay_witness:
  "\<exists>q. getOrderState (fst (setField ex_address 8 ''kaspa:u'' FPayAddress ''0xb'')) ex_id = Some q \<and> rt_pay_address q = Some ''0xa''"
proof -
  have "getOrderState ex_address ex_id = Some ((draft_row ex_id ''kaspa:u'' ''sell_kas'' 0)\<lparr> rt_pay_address := Some ''0xa'', rt_updated_at := Sql 6 \<rparr>)"
    by (simp add: getOrderState_def ex_address_rows draft_row_def)
  from locked_fields_stay [OF ex_relock_step this]
  show ?thesis by (auto simp: draft_row_def)
qed

lemma refund_tx_of_one_order_witness: "map rt_id (filter (\<lambda>q. rt_refund_tx q = Some ''t1'') (bd_orders ex_refunded)) = [ex_id]"
proof -
  have "\<forall>q \<in> set (bd_orders ex_refunded). rt_refund_tx q = Some ''t1'' \<longrightarrow> rt_id q = ex_id"
    using refund_tx_of_one_order [OF ex_history, of "(draft_row ex_id ''kaspa:u'' ''sell_kas'' 0)\<lparr> rt_pay_address := Some ''0xa'', rt_updated_at := Sql 8,
      rt_state := RRefunded, rt_refund_tx := Some ''t1'' \<rparr>" _ "''t1''"]
    by (auto simp: ex_empty_def ex_refunded_rows draft_row_def)
  then show ?thesis by (simp add: ex_refunded_rows)
qed

text \<open>Started at ten, a payment outstanding since nine is still not swept at eight in the evening.\<close>

lemma sweep_waits_for_next_day_witness:
  "reconcileStaleOrders (ex_waiting\<lparr> bd_orders := [(draft_row ex_id ''kaspa:u'' ''sell_kas'' 32400)\<lparr> rt_state := AwaitingPayment \<rparr>] \<rparr>)
     (\<lambda>i. i) 36000000 72000
   = (ex_waiting\<lparr> bd_orders := [(draft_row ex_id ''kaspa:u'' ''sell_kas'' 32400)\<lparr> rt_state := AwaitingPayment \<rparr>] \<rparr>, Inr (0, 0))"
  by (rule sweep_waits_for_next_day) (simp_all add: STARTUP_GRACE_MS_def draft_row_def stamp_less_def stamp_le_def)

lemma advance_revives_expired_witness:
  "map_option rt_state (getOrderState (fst (advance ex_seeded 90000 ''kaspa:u'' AwaitingPayment)) ex_id) = Some AwaitingPayment"
proof -
  have "getOrderState ex_seeded ex_id = Some (draft_row ex_id ''kaspa:u'' ''sell_kas'' 0)"
    by (simp add: getOrderState_def ex_seeded_rows draft_row_def)
  from advance_revives_expired [OF this, of "''kaspa:u''" "Sql 1800" 90000] show ?thesis
    by (simp add: draft_of_def draft_row_def stamp_le_def)
qed

end
