(* ===== verification/Broker_Menu.thy ===== *)
theory Broker_Menu
  imports Broker_Drafts "HOL-Library.AList"
begin

section \<open>The broker's menu\<close>

text \<open>
  \<open>services/broker-v3/state-machine.js\<close> (the menu: one state per user in memory) and
  \<open>services/broker-v3/router.js\<close> (which messages it takes, and the calls its triggers make).  A message is
  its list of UTF-16 code units; the texts of the replies are represented by constructors with their data.  The
  exchange client and the table of wallets are parameters.
\<close>

subsection \<open>Messages\<close>

type_synonym utext = "nat list"

definition u :: "string \<Rightarrow> utext" where "u s = map of_char s"

definition js_space :: "nat \<Rightarrow> bool" where
  "js_space c = ((9 \<le> c \<and> c \<le> 13) \<or> c = 32 \<or> c = 160 \<or> c = 5760 \<or> (8192 \<le> c \<and> c \<le> 8202)
     \<or> c \<in> {8232, 8233, 8239, 8287, 12288, 65279})"

text \<open>\<open>trim\<close>, and the first word.\<close>

definition trim :: "utext \<Rightarrow> utext" where
  "trim m = rev (dropWhile js_space (rev (dropWhile js_space m)))"

definition head_word :: "utext \<Rightarrow> utext" where
  "head_word m = takeWhile (\<lambda>c. \<not> js_space c) (trim m)"

definition lower_unit :: "nat \<Rightarrow> nat" where
  "lower_unit c = (if 65 \<le> c \<and> c \<le> 90 then c + 32 else c)"

text \<open>\<open>/^(...)$/i\<close> with literal alternatives.\<close>

definition is_word :: "utext list \<Rightarrow> utext \<Rightarrow> bool" where
  "is_word ws h = (map lower_unit h \<in> set ws)"

definition unit_digit :: "nat \<Rightarrow> bool" where "unit_digit c = (48 \<le> c \<and> c \<le> 57)"

definition unit_hex :: "nat \<Rightarrow> bool" where
  "unit_hex c = (unit_digit c \<or> (97 \<le> c \<and> c \<le> 102) \<or> (65 \<le> c \<and> c \<le> 70))"

definition units_val :: "utext \<Rightarrow> nat" where "units_val ds = foldl (\<lambda>a c. 10 * a + (c - 48)) 0 ds"

text \<open>\<open>parseInt(s, 10)\<close> of a word without leading space; \<open>None\<close> is \<open>NaN\<close>.\<close>

definition parseInt10 :: "utext \<Rightarrow> int option" where
  "parseInt10 h =
    (let (neg, r) = (case h of c # t \<Rightarrow> if c = 45 then (True, t) else if c = 43 then (False, t) else (False, h) | [] \<Rightarrow> (False, []));
         ds = takeWhile unit_digit r
     in if ds = [] then None else Some (if neg then - int (units_val ds) else int (units_val ds)))"

definition unit_char :: "nat \<Rightarrow> char" where "unit_char c = (if c < 128 then char_of c else CHR 0x80)"

definition parseFloat_u :: "utext \<Rightarrow> rat option" where "parseFloat_u h = parseFloat (map unit_char h)"

text \<open>The Chinese words of the menu, as code units.\<close>

definition w_cancel :: utext where "w_cancel = [21462, 28040]"
definition w_back :: utext where "w_back = [36820, 22238]"
definition w_confirm :: utext where "w_confirm = [30830, 35748]"
definition w_good :: utext where "w_good = [22909]"
definition w_publish :: utext where "w_publish = [21457, 24067]"
definition w_forget :: utext where "w_forget = [31639, 20102]"
definition w_no :: utext where "w_no = [19981]"

subsection \<open>States\<close>

datatype flow = MENU_TOP | BUY_FLOW | SELL_FLOW | BROWSE_MARKET | ACCEPT_OFFER | MY_ORDERS | CANCEL_ORDER | WAIT_PAYMENT

datatype flow_step = CHAIN_SELECT | QTY_SELECT | ADDR_INPUT | CONFIRM | LIST_STEP | OFFER_ID_INPUT | ORDER_ID_INPUT
  | CONFIRM_CANCEL | PAID_STEP

text \<open>Absent fields are \<open>undefined\<close>.\<close>

record menu_draft =
  md_side :: "string option"
  md_pay_chain :: "string option"
  md_qty :: "rat option"
  md_pay_address :: "utext option"
  md_offer_id :: "utext option"
  md_selected_chain :: "string option"

record flow_state =
  fs_flow :: flow
  fs_step :: flow_step
  fs_draft :: "menu_draft option"
  fs_page :: nat
  fs_offers :: "utext list option"
  fs_orders :: "utext list option"

type_synonym menu = "(string \<times> flow_state) list"

definition MIN_QTY_KAS :: rat where "MIN_QTY_KAS = 1"
definition MAX_QTY_KAS :: rat where "MAX_QTY_KAS = 5000"

text \<open>\<open>/^0x[a-fA-F0-9]{40}$/\<close>\<close>

definition evm_address :: "utext \<Rightarrow> bool" where
  "evm_address h = (length h = 42 \<and> take 2 h = [48, 120] \<and> list_all unit_hex (drop 2 h))"

definition getFlowState :: "menu \<Rightarrow> string \<Rightarrow> flow_state option" where
  "getFlowState m p = map_of m p"

definition setFlowState :: "menu \<Rightarrow> string \<Rightarrow> flow_state \<Rightarrow> menu" where
  "setFlowState m p s = AList.update p s m"

definition clearFlowState :: "menu \<Rightarrow> string \<Rightarrow> menu" where
  "clearFlowState m p = AList.delete p m"

definition no_draft :: menu_draft where
  "no_draft = \<lparr> md_side = None, md_pay_chain = None, md_qty = None, md_pay_address = None, md_offer_id = None, md_selected_chain = None \<rparr>"

definition flow_at :: "flow \<Rightarrow> flow_step \<Rightarrow> menu_draft option \<Rightarrow> flow_state" where
  "flow_at f st d = \<lparr> fs_flow = f, fs_step = st, fs_draft = d, fs_page = 0, fs_offers = None, fs_orders = None \<rparr>"

subsection \<open>Replies\<close>

datatype reply = RNoMessage | RMenu | RCancelledMenu | RChainSelect string | RLoadingMarket | RAskOffer | RLoadingOrders
  | RAskCancel | ROutOfRange | RChainChosen string | RQtyRange | RAskAddress rat string | RPreview menu_draft
  | RBadAddress | RPublishing | RConfirmHelp | RConfused | ROfferChosen utext | RNextPage | RBrowseHelp | RIdTooShort
  | RLookup utext | RAcceptChain string | RAccepting | RAcceptHelp | ROrderDetails utext | ROrdersHelp
  | RConfirmCancel utext | RCancelling | RKept | RCancelHelp | RStatus

datatype trigger = NoTrigger | TPreview | TPublish menu_draft | TAccept "menu_draft option" | TCancel "menu_draft option"
  | TBrowse | TBrowseNext | TMyOrders | TOfferLookup menu_draft | TOfferStatus "menu_draft option"

text \<open>The new states, and \<open>None\<close> for a \<open>TypeError\<close> or the reply with its trigger.\<close>

type_synonym outcome = "menu \<times> (reply \<times> trigger) option"

definition chains :: "string list" where "chains = [''bsc'', ''eth'', ''polygon'', ''arbitrum'']"

text \<open>Is \<open>num < 1 || num > chains.length\<close>?  Not for \<open>NaN\<close>.  And \<open>chains[num - 1]\<close>.\<close>

definition chain_out_of_range :: "int option \<Rightarrow> bool" where
  "chain_out_of_range n = (case n of None \<Rightarrow> False | Some i \<Rightarrow> i < 1 \<or> int (length chains) < i)"

definition chain_at :: "int option \<Rightarrow> string option" where
  "chain_at n = (case n of None \<Rightarrow> None | Some i \<Rightarrow> if 1 \<le> i then js_idx chains (nat (i - 1)) else None)"

subsection \<open>The handlers\<close>

definition handleMenuTop :: "menu \<Rightarrow> string \<Rightarrow> utext \<Rightarrow> outcome" where
  "handleMenuTop m p h =
    (let num = parseInt10 h in
     if num = Some 1 then (setFlowState m p (flow_at BUY_FLOW CHAIN_SELECT (Some (no_draft\<lparr> md_side := Some ''buy_kas'' \<rparr>))),
       Some (RChainSelect ''buy'', NoTrigger))
     else if num = Some 2 then (setFlowState m p (flow_at SELL_FLOW CHAIN_SELECT (Some (no_draft\<lparr> md_side := Some ''sell_kas'' \<rparr>))),
       Some (RChainSelect ''sell'', NoTrigger))
     else if num = Some 3 then (setFlowState m p (flow_at BROWSE_MARKET LIST_STEP None), Some (RLoadingMarket, TBrowse))
     else if num = Some 4 then (setFlowState m p (flow_at ACCEPT_OFFER OFFER_ID_INPUT None), Some (RAskOffer, NoTrigger))
     else if num = Some 5 then (setFlowState m p (flow_at MY_ORDERS LIST_STEP None), Some (RLoadingOrders, TMyOrders))
     else if num = Some 6 then (setFlowState m p (flow_at CANCEL_ORDER ORDER_ID_INPUT None), Some (RAskCancel, NoTrigger))
     else (m, Some (RMenu, NoTrigger)))"

text \<open>The preview needs the chain's name in capitals.\<close>

definition preview :: "menu \<Rightarrow> menu_draft \<Rightarrow> outcome" where
  "preview m d = (m, case md_pay_chain d of None \<Rightarrow> None | Some _ \<Rightarrow> Some (RPreview d, TPreview))"

definition handleTradeFlow :: "menu \<Rightarrow> string \<Rightarrow> utext \<Rightarrow> flow_state \<Rightarrow> bool \<Rightarrow> outcome" where
  "handleTradeFlow m p h cur buying =
    (let d = (case fs_draft cur of Some d \<Rightarrow> d | None \<Rightarrow> no_draft\<lparr> md_side := Some (if buying then ''buy_kas'' else ''sell_kas'') \<rparr>) in
     case fs_step cur of
       CHAIN_SELECT \<Rightarrow>
         (let num = parseInt10 h in
          if chain_out_of_range num then (m, Some (ROutOfRange, NoTrigger))
          else (setFlowState m p (cur\<lparr> fs_step := QTY_SELECT, fs_draft := Some (d\<lparr> md_pay_chain := chain_at num \<rparr>) \<rparr>),
                case chain_at num of None \<Rightarrow> None | Some ch \<Rightarrow> Some (RChainChosen ch, NoTrigger)))
     | QTY_SELECT \<Rightarrow>
         (case parseFloat_u h of
            None \<Rightarrow> (m, Some (RQtyRange, NoTrigger))
          | Some qty \<Rightarrow>
            if qty < MIN_QTY_KAS \<or> MAX_QTY_KAS < qty then (m, Some (RQtyRange, NoTrigger))
            else (let d' = d\<lparr> md_qty := Some qty \<rparr> in
              if \<not> buying then (setFlowState m p (cur\<lparr> fs_step := ADDR_INPUT, fs_draft := Some d' \<rparr>),
                 case md_pay_chain d' of None \<Rightarrow> None | Some ch \<Rightarrow> Some (RAskAddress qty ch, NoTrigger))
              else preview (setFlowState m p (cur\<lparr> fs_step := CONFIRM, fs_draft := Some d' \<rparr>)) d'))
     | ADDR_INPUT \<Rightarrow>
         if \<not> evm_address h then (m, Some (RBadAddress, NoTrigger))
         else (let d' = d\<lparr> md_pay_address := Some h \<rparr> in
           preview (setFlowState m p (cur\<lparr> fs_step := CONFIRM, fs_draft := Some d' \<rparr>)) d')
     | CONFIRM \<Rightarrow>
         if is_word [u ''yes'', w_confirm, u ''ok'', w_good, w_publish] h then (m, Some (RPublishing, TPublish d))
         else if is_word [u ''no'', w_cancel] h then (clearFlowState m p, Some (RCancelledMenu, NoTrigger))
         else (m, Some (RConfirmHelp, NoTrigger))
     | _ \<Rightarrow> (m, Some (RConfused, NoTrigger)))"

text \<open>\<open>list?.[num - 1]\<close> for a number between one and five.\<close>

definition pick :: "utext list option \<Rightarrow> int option \<Rightarrow> utext option" where
  "pick l n = (case (l, n) of (Some xs, Some i) \<Rightarrow> if 1 \<le> i \<and> i \<le> 5 then js_idx xs (nat (i - 1)) else None | _ \<Rightarrow> None)"

definition handleBrowse :: "menu \<Rightarrow> string \<Rightarrow> utext \<Rightarrow> flow_state \<Rightarrow> outcome" where
  "handleBrowse m p h cur =
    (if fs_step cur = LIST_STEP then
       (case pick (fs_offers cur) (parseInt10 h) of
          Some i \<Rightarrow> (setFlowState m p (flow_at ACCEPT_OFFER CHAIN_SELECT (Some (no_draft\<lparr> md_offer_id := Some i \<rparr>))), Some (ROfferChosen i, NoTrigger))
        | None \<Rightarrow> if h = u ''next'' then (m, Some (RNextPage, TBrowseNext)) else (m, Some (RBrowseHelp, NoTrigger)))
     else (m, Some (RBrowseHelp, NoTrigger)))"

definition menu_handleAccept :: "menu \<Rightarrow> string \<Rightarrow> utext \<Rightarrow> flow_state \<Rightarrow> outcome" where
  "menu_handleAccept m p h cur =
    (case fs_step cur of
       OFFER_ID_INPUT \<Rightarrow>
         if length h < 8 then (m, Some (RIdTooShort, NoTrigger))
         else (let d = no_draft\<lparr> md_offer_id := Some h \<rparr> in
           (setFlowState m p (cur\<lparr> fs_step := CHAIN_SELECT, fs_draft := Some d \<rparr>), Some (RLookup h, TOfferLookup d)))
     | CHAIN_SELECT \<Rightarrow>
         (let num = parseInt10 h in
          if chain_out_of_range num then (m, Some (ROutOfRange, NoTrigger))
          else (case fs_draft cur of
              None \<Rightarrow> (m, None)
            | Some d \<Rightarrow> (setFlowState m p (cur\<lparr> fs_step := CONFIRM, fs_draft := Some (d\<lparr> md_selected_chain := chain_at num \<rparr>) \<rparr>),
                case chain_at num of None \<Rightarrow> None | Some ch \<Rightarrow> Some (RAcceptChain ch, NoTrigger))))
     | CONFIRM \<Rightarrow>
         if is_word [u ''yes'', w_confirm, u ''ok'', w_good] h then (m, Some (RAccepting, TAccept (fs_draft cur)))
         else if is_word [u ''no'', w_cancel] h then (clearFlowState m p, Some (RCancelledMenu, NoTrigger))
         else (m, Some (RAcceptHelp, NoTrigger))
     | _ \<Rightarrow> (m, Some (RConfused, NoTrigger)))"

definition handleMyOrders :: "menu \<Rightarrow> utext \<Rightarrow> flow_state \<Rightarrow> outcome" where
  "handleMyOrders m h cur =
    (m, Some (case (if fs_step cur = LIST_STEP then pick (fs_orders cur) (parseInt10 h) else None) of
       Some i \<Rightarrow> (ROrderDetails i, NoTrigger) | None \<Rightarrow> (ROrdersHelp, NoTrigger)))"

definition menu_handleCancel :: "menu \<Rightarrow> string \<Rightarrow> utext \<Rightarrow> flow_state \<Rightarrow> outcome" where
  "menu_handleCancel m p h cur =
    (case fs_step cur of
       ORDER_ID_INPUT \<Rightarrow>
         if length h < 8 then (m, Some (RIdTooShort, NoTrigger))
         else (setFlowState m p (cur\<lparr> fs_step := CONFIRM_CANCEL, fs_draft := Some (no_draft\<lparr> md_offer_id := Some h \<rparr>) \<rparr>),
               Some (RConfirmCancel h, NoTrigger))
     | CONFIRM_CANCEL \<Rightarrow>
         if is_word [u ''yes'', w_confirm, u ''ok'', w_good] h then (m, Some (RCancelling, TCancel (fs_draft cur)))
         else if is_word [u ''no'', w_forget] h then (clearFlowState m p, Some (RKept, NoTrigger))
         else (m, Some (RCancelHelp, NoTrigger))
     | _ \<Rightarrow> (m, Some (RCancelHelp, NoTrigger)))"

definition processInput :: "menu \<Rightarrow> string \<Rightarrow> utext \<Rightarrow> outcome" where
  "processInput m p msg =
    (let h = head_word msg in
     if h = [] then (m, Some (RNoMessage, NoTrigger))
     else if is_word [u ''back'', w_cancel, w_back, u ''menu''] h then (clearFlowState m p, Some (RMenu, NoTrigger))
     else case getFlowState m p of
       None \<Rightarrow> handleMenuTop m p h
     | Some cur \<Rightarrow>
       (case fs_flow cur of
          MENU_TOP \<Rightarrow> handleMenuTop m p h
        | BUY_FLOW \<Rightarrow> handleTradeFlow m p h cur True
        | SELL_FLOW \<Rightarrow> handleTradeFlow m p h cur False
        | BROWSE_MARKET \<Rightarrow> handleBrowse m p h cur
        | ACCEPT_OFFER \<Rightarrow> menu_handleAccept m p h cur
        | MY_ORDERS \<Rightarrow> handleMyOrders m h cur
        | CANCEL_ORDER \<Rightarrow> menu_handleCancel m p h cur
        | WAIT_PAYMENT \<Rightarrow> (m, Some (RStatus, TOfferStatus (fs_draft cur)))))"

subsection \<open>Which messages the menu takes\<close>

definition isLanguageA :: "utext \<Rightarrow> bool" where
  "isLanguageA msg =
    (if msg = [] then False
     else (let h = head_word msg in
       (length h = 1 \<and> list_all (\<lambda>c. 49 \<le> c \<and> c \<le> 54) h)
       \<or> is_word [u ''back'', w_cancel, w_back, u ''menu'', u ''next''] h
       \<or> is_word [u ''yes'', u ''y'', w_confirm, u ''ok'', w_good, w_publish, w_forget, u ''no'', u ''n'', w_no] h
       \<or> evm_address h
       \<or> (8 \<le> length h \<and> list_all (\<lambda>c. unit_hex c \<or> c = 45) h)
       \<or> (let ds = takeWhile unit_digit h; r = dropWhile unit_digit h
          in ds \<noteq> [] \<and> (r = [] \<or> (hd r = 46 \<and> tl r \<noteq> [] \<and> list_all unit_digit (tl r))))))"

definition normalizeChainKey :: "string option \<Rightarrow> string option" where
  "normalizeChainKey s = (case s of None \<Rightarrow> None | Some t \<Rightarrow>
     if t = [] then Some []
     else (let l = toLowerCase t in
       if l \<in> {''bsc'', ''bep20'', ''binance-smart-chain''} then Some ''bnb''
       else if l = ''solana'' then Some ''sol'' else if l = ''ethereum'' then Some ''eth'' else Some l))"

definition FALLBACK_MID_PRICE :: rat where "FALLBACK_MID_PRICE = 4 / 100"

subsection \<open>What the triggers do\<close>

text \<open>The decimal text of a rational rounded to \<open>n\<close> places, ties upwards.\<close>

definition pad_left :: "nat \<Rightarrow> string \<Rightarrow> string" where
  "pad_left n s = replicate (n - length s) (CHR ''0'') @ s"

definition toFixed :: "nat \<Rightarrow> rat \<Rightarrow> string" where
  "toFixed n q = (let k = \<lfloor>q * 10 ^ n + 1 / 2\<rfloor>; i = nat \<bar>k\<bar> in
     (if k < 0 then ''-'' else []) @ nat_str (i div 10 ^ n) @ (if n = 0 then [] else ''.'' @ pad_left n (nat_str (i mod 10 ^ n))))"

record offer_body =
  ob_relay :: string
  ob_give_amount :: string
  ob_want_amount :: string
  ob_want_chain :: "string option"
  ob_accepted :: "string option \<times> utext option"
  ob_receive_chain :: "string option"
  ob_expires_minutes :: nat
  ob_user :: string
  ob_side :: string
  ob_mid_price :: rat

text \<open>The exchange's answers: \<open>None\<close> is a call that throws, \<open>Some None\<close> a refusal.\<close>

record client =
  cl_price :: "rat option"
  cl_wallet :: "string \<Rightarrow> string \<Rightarrow> utext option"
  cl_publish :: "offer_body \<Rightarrow> utext option option"
  cl_accept :: "utext \<Rightarrow> string \<Rightarrow> unit option option"
  cl_cancel :: "utext \<Rightarrow> unit option option"
  cl_list :: "string option \<Rightarrow> nat \<Rightarrow> utext list option option"
  cl_offer :: "utext \<Rightarrow> string option option"

datatype answer = Said reply | ASentError | ANoDraft | ANoWallet string | APublished utext | APublishFailed
  | AAccepted utext | AAcceptFailed | ACancelled utext | ACancelFailed | AOffers "utext list" | ANoOffers
  | ANoMoreOffers | AOrders "utext list" | ANoOrders | ALookupFailed | AOffer utext string

definition publish_body :: "string \<Rightarrow> string \<Rightarrow> menu_draft \<Rightarrow> rat \<Rightarrow> rat \<Rightarrow> utext option \<Rightarrow> offer_body" where
  "publish_body relay p d qty midPrice walletAddr =
    (let chainKey = normalizeChainKey (md_pay_chain d); buying = (md_side d = Some ''buy_kas'') in
     \<lparr> ob_relay = relay, ob_give_amount = toFixed 8 qty, ob_want_amount = toFixed 4 (qty * midPrice), ob_want_chain = chainKey,
       ob_accepted = (chainKey, if buying then walletAddr else md_pay_address d),
       ob_receive_chain = (if buying then chainKey else None), ob_expires_minutes = 30, ob_user = p,
       ob_side = (if buying then ''buy_kas'' else ''sell_kas''), ob_mid_price = midPrice \<rparr>)"

text \<open>The error reply of \<open>handleMessage\<close> is \<open>ASentError\<close>.  An absent quantity would be \<open>NaN\<close>; the menu never
  publishes without one.\<close>

definition doPublish :: "client \<Rightarrow> menu \<Rightarrow> string \<Rightarrow> menu_draft \<Rightarrow> string \<Rightarrow> menu \<times> answer" where
  "doPublish cl m p d relay =
    (case md_qty d of None \<Rightarrow> (m, ANoDraft) | Some qty \<Rightarrow>
      (let midPrice = (case cl_price cl of Some x \<Rightarrow> if x = 0 then FALLBACK_MID_PRICE else x | None \<Rightarrow> FALLBACK_MID_PRICE);
           buying = (md_side d = Some ''buy_kas''); chainKey = normalizeChainKey (md_pay_chain d);
           walletAddr = (case chainKey of None \<Rightarrow> None | Some k \<Rightarrow> cl_wallet cl relay k)
       in if buying \<and> chainKey = None then (m, ASentError)
          else if buying \<and> (walletAddr = None \<or> walletAddr = Some []) then (clearFlowState m p, ANoWallet (the (md_pay_chain d)))
          else (case cl_publish cl (publish_body relay p d qty midPrice walletAddr) of
              None \<Rightarrow> (m, ASentError)
            | Some None \<Rightarrow> (clearFlowState m p, APublishFailed)
            | Some (Some offer_id) \<Rightarrow> (clearFlowState m p, APublished offer_id))))"

definition doAccept :: "client \<Rightarrow> menu \<Rightarrow> string \<Rightarrow> menu_draft option \<Rightarrow> menu \<times> answer" where
  "doAccept cl m p d =
    (case (case d of None \<Rightarrow> None | Some x \<Rightarrow> (case (md_offer_id x, md_selected_chain x) of (Some i, Some c) \<Rightarrow> Some (i, c) | _ \<Rightarrow> None)) of
       None \<Rightarrow> (m, ANoDraft)
     | Some (i, c) \<Rightarrow>
       (case cl_accept cl i c of
          None \<Rightarrow> (m, ASentError)
        | Some None \<Rightarrow> (clearFlowState m p, AAcceptFailed)
        | Some (Some _) \<Rightarrow> (case cl_offer cl i of
             None \<Rightarrow> (m, ASentError)
           | Some _ \<Rightarrow> (setFlowState m p (flow_at WAIT_PAYMENT PAID_STEP
                 (Some (no_draft\<lparr> md_offer_id := Some i, md_selected_chain := Some c \<rparr>))), AAccepted i))))"

definition draft_offer :: "menu_draft option \<Rightarrow> utext option" where
  "draft_offer d = (case d of None \<Rightarrow> None | Some x \<Rightarrow> (case md_offer_id x of Some [] \<Rightarrow> None | i \<Rightarrow> i))"

definition doCancel :: "client \<Rightarrow> menu \<Rightarrow> string \<Rightarrow> menu_draft option \<Rightarrow> menu \<times> answer" where
  "doCancel cl m p d = (case draft_offer d of None \<Rightarrow> (m, ANoDraft) | Some i \<Rightarrow>
     (case cl_cancel cl i of None \<Rightarrow> (m, ASentError)
      | Some r \<Rightarrow> (clearFlowState m p, if r = None then ACancelFailed else ACancelled i)))"

text \<open>\<open>{ ...cur, flow, step }\<close>, where \<open>cur\<close> may be absent.\<close>

definition relisted :: "flow_state option \<Rightarrow> flow \<Rightarrow> flow_state" where
  "relisted cur f = (case cur of None \<Rightarrow> flow_at f LIST_STEP None | Some s \<Rightarrow> s\<lparr> fs_flow := f, fs_step := LIST_STEP \<rparr>)"

definition doBrowse :: "client \<Rightarrow> menu \<Rightarrow> string \<Rightarrow> menu \<times> answer" where
  "doBrowse cl m p = (case cl_list cl None 0 of None \<Rightarrow> (m, ASentError)
     | Some (Some (x # xs)) \<Rightarrow> (setFlowState m p ((relisted (getFlowState m p) BROWSE_MARKET)\<lparr> fs_page := 0, fs_offers := Some (x # xs) \<rparr>), AOffers (x # xs))
     | Some _ \<Rightarrow> (m, ANoOffers))"

definition doBrowseNext :: "client \<Rightarrow> menu \<Rightarrow> string \<Rightarrow> menu \<times> answer" where
  "doBrowseNext cl m p =
    (let cur = (case getFlowState m p of None \<Rightarrow> flow_at MENU_TOP LIST_STEP None | Some s \<Rightarrow> s); pg = fs_page cur + 1 in
     case cl_list cl None (pg * 5) of None \<Rightarrow> (m, ASentError)
     | Some (Some (x # xs)) \<Rightarrow> (setFlowState m p (cur\<lparr> fs_page := pg, fs_offers := Some (x # xs) \<rparr>), AOffers (x # xs))
     | Some _ \<Rightarrow> (m, ANoMoreOffers))"

definition doMyOrders :: "client \<Rightarrow> menu \<Rightarrow> string \<Rightarrow> menu \<times> answer" where
  "doMyOrders cl m p = (case cl_list cl (Some p) 0 of None \<Rightarrow> (m, ASentError)
     | Some (Some (x # xs)) \<Rightarrow> (setFlowState m p ((relisted (getFlowState m p) MY_ORDERS)\<lparr> fs_orders := Some (x # xs) \<rparr>), AOrders (x # xs))
     | Some _ \<Rightarrow> (m, ANoOrders))"

definition doOfferLookup :: "client \<Rightarrow> menu_draft option \<Rightarrow> answer" where
  "doOfferLookup cl d = (case draft_offer d of None \<Rightarrow> ANoDraft | Some i \<Rightarrow>
     (case cl_offer cl i of None \<Rightarrow> ASentError | Some None \<Rightarrow> ALookupFailed | Some (Some st) \<Rightarrow> AOffer i st))"

text \<open>The text of the reply names the stage of the status.\<close>

definition doOfferStatus :: "client \<Rightarrow> menu_draft option \<Rightarrow> answer" where
  "doOfferStatus cl d = (case draft_offer d of None \<Rightarrow> ANoDraft | Some i \<Rightarrow>
     (case cl_offer cl i of None \<Rightarrow> ASentError | Some None \<Rightarrow> ALookupFailed | Some (Some st) \<Rightarrow> AOffer i st))"

text \<open>\<open>handleMessage\<close>: \<open>None\<close> passes the message on to the other path, an exception of the menu itself reaches
  the caller (\<open>Some None\<close>).  \<open>pending\<close> tells whether the peer has a live retail order.\<close>

definition v2_pending :: "broker_db \<Rightarrow> nat \<Rightarrow> string \<Rightarrow> bool" where
  "v2_pending db now p = list_ex (\<lambda>r. rt_user r = p \<and> rt_state r \<in> {Aligning, AwaitingPayment, RPaid, RExecuting, Refunding}
     \<and> (case rt_expires_at r of None \<Rightarrow> True | Some t \<Rightarrow> stamp_less (Sql now) t)) (bd_orders db)"

definition handleMessage :: "client \<Rightarrow> broker_db \<Rightarrow> nat \<Rightarrow> menu \<Rightarrow> string \<Rightarrow> utext \<Rightarrow> string \<Rightarrow> menu \<times> answer option option" where
  "handleMessage cl db now m p msg relay =
    (if relay = [] then (m, None)
     else if \<not> isLanguageA (trim msg) then (m, None)
     else if getFlowState m p = None \<and> v2_pending db now p then (m, None)
     else case processInput m p (trim msg) of
       (m', None) \<Rightarrow> (m', Some None)
     | (m', Some (r, t)) \<Rightarrow>
       (let (m'', a) = (case t of
            TPublish d \<Rightarrow> doPublish cl m' p d relay
          | TAccept d \<Rightarrow> doAccept cl m' p d
          | TCancel d \<Rightarrow> doCancel cl m' p d
          | TBrowse \<Rightarrow> doBrowse cl m' p
          | TBrowseNext \<Rightarrow> doBrowseNext cl m' p
          | TMyOrders \<Rightarrow> doMyOrders cl m' p
          | TOfferLookup d \<Rightarrow> (m', doOfferLookup cl (Some d))
          | TOfferStatus d \<Rightarrow> (m', doOfferStatus cl d)
          | _ \<Rightarrow> (m', Said r))
        in (m'', Some (Some a))))"

subsection \<open>A published order is complete\<close>

definition draft_ready :: "bool \<Rightarrow> flow_step \<Rightarrow> menu_draft \<Rightarrow> bool" where
  "draft_ready buying st d =
    ((st \<noteq> CHAIN_SELECT \<longrightarrow> (\<exists>ch \<in> set chains. md_pay_chain d = Some ch))
     \<and> (st \<in> {ADDR_INPUT, CONFIRM} \<longrightarrow> (\<exists>q. md_qty d = Some q \<and> MIN_QTY_KAS \<le> q \<and> q \<le> MAX_QTY_KAS))
     \<and> (st = CONFIRM \<longrightarrow> \<not> buying \<longrightarrow> (\<exists>a. md_pay_address d = Some a \<and> evm_address a))
     \<and> md_side d = Some (if buying then ''buy_kas'' else ''sell_kas''))"

definition state_ready :: "flow_state \<Rightarrow> bool" where
  "state_ready s = ((fs_flow s = BUY_FLOW \<longrightarrow> fs_step s \<in> {CHAIN_SELECT, QTY_SELECT, CONFIRM} \<and> (\<exists>d. fs_draft s = Some d \<and> draft_ready True (fs_step s) d))
     \<and> (fs_flow s = SELL_FLOW \<longrightarrow> fs_step s \<in> {CHAIN_SELECT, QTY_SELECT, ADDR_INPUT, CONFIRM} \<and> (\<exists>d. fs_draft s = Some d \<and> draft_ready False (fs_step s) d)))"

definition menu_ready :: "menu \<Rightarrow> bool" where
  "menu_ready m = (\<forall>p s. getFlowState m p = Some s \<longrightarrow> state_ready s)"

lemma get_set: "getFlowState (setFlowState m p s) q = (if q = p then Some s else getFlowState m q)"
  by (simp add: getFlowState_def setFlowState_def update_conv')

lemma get_clear: "getFlowState (clearFlowState m p) q = (if q = p then None else getFlowState m q)"
  by (simp add: getFlowState_def clearFlowState_def delete_conv')

lemma ready_set: "menu_ready m \<Longrightarrow> state_ready s \<Longrightarrow> menu_ready (setFlowState m p s)"
  by (simp add: menu_ready_def get_set)

lemma ready_clear: "menu_ready m \<Longrightarrow> menu_ready (clearFlowState m p)"
  by (simp add: menu_ready_def get_clear)

lemma ready_get: "menu_ready m \<Longrightarrow> getFlowState m p = Some s \<Longrightarrow> state_ready s"
  by (simp add: menu_ready_def)

lemma chain_at_chains: "chain_at n = Some ch \<Longrightarrow> ch \<in> set chains"
  by (auto simp: chain_at_def js_idx_def split: option.splits if_splits)

lemma top_ready: "menu_ready m \<Longrightarrow> menu_ready (fst (handleMenuTop m p h))"
  by (auto simp: handleMenuTop_def Let_def intro!: ready_set) (simp_all add: state_ready_def flow_at_def draft_ready_def no_draft_def)

lemma trade_ready:
  assumes "menu_ready m" "getFlowState m p = Some cur" "fs_flow cur = (if buying then BUY_FLOW else SELL_FLOW)"
    and "handleTradeFlow m p h cur buying = (m', Some rt)"
  shows "menu_ready m' \<and> (\<forall>d. snd rt = TPublish d \<longrightarrow> draft_ready buying CONFIRM d)"
proof -
  have cur: "state_ready cur" using ready_get assms(1,2) by blast
  then obtain d where d: "fs_draft cur = Some d" "draft_ready buying (fs_step cur) d"
    using assms(3) by (cases buying) (auto simp: state_ready_def)
  have st: "fs_step cur \<in> {CHAIN_SELECT, QTY_SELECT, ADDR_INPUT, CONFIRM}"
    using cur assms(3) by (cases buying) (auto simp: state_ready_def)
  have set_ok: "menu_ready (setFlowState m p (cur\<lparr> fs_step := st', fs_draft := Some d' \<rparr>))"
    if "draft_ready buying st' d'" "st' \<in> {QTY_SELECT, CONFIRM} \<or> (\<not> buying \<and> st' = ADDR_INPUT)" for st' d'
    using that assms(1,3) by (intro ready_set) (auto simp: state_ready_def split: if_splits)
  note defs = handleTradeFlow_def d(1) Let_def
  show ?thesis
  proof (cases "fs_step cur")
    case CHAIN_SELECT
    then show ?thesis using assms(4) d(2) assms(1) chain_at_chains
      by (auto simp: defs draft_ready_def intro!: set_ok split: if_splits option.splits)
  next
    case QTY_SELECT
    then show ?thesis using assms(4) d(2) assms(1)
      by (auto simp: defs draft_ready_def preview_def intro!: set_ok split: if_splits option.splits)
  next
    case ADDR_INPUT
    then have "\<not> buying" using cur assms(3) by (auto simp: state_ready_def)
    then show ?thesis using assms(4) d(2) assms(1) ADDR_INPUT
      by (auto simp: defs draft_ready_def preview_def intro!: set_ok split: if_splits option.splits)
  next
    case CONFIRM
    then show ?thesis using assms(4) d(2) assms(1) by (auto simp: defs intro: ready_clear split: if_splits)
  qed (use st in auto)
qed

lemma not_publish: "snd (the (snd (handleMenuTop m p h))) \<noteq> TPublish d"
  by (simp add: handleMenuTop_def Let_def)

lemma other_flow_ready: "fs_flow s \<notin> {BUY_FLOW, SELL_FLOW} \<Longrightarrow> state_ready s"
  by (simp add: state_ready_def)

lemma browse_ready: "menu_ready m \<Longrightarrow> menu_ready (fst (handleBrowse m p h cur)) \<and> snd (the (snd (handleBrowse m p h cur))) \<noteq> TPublish d"
  by (auto simp: handleBrowse_def intro!: ready_set other_flow_ready split: option.split) (simp_all add: flow_at_def)

lemma accept_ready: "menu_ready m \<Longrightarrow> fs_flow cur = ACCEPT_OFFER \<Longrightarrow> menu_handleAccept m p h cur = (m', Some rt) \<Longrightarrow>
    menu_ready m' \<and> snd rt \<noteq> TPublish d"
  by (auto simp: menu_handleAccept_def Let_def intro!: ready_set ready_clear other_flow_ready split: flow_step.splits if_splits option.splits)

lemma cancel_ready: "menu_ready m \<Longrightarrow> fs_flow cur = CANCEL_ORDER \<Longrightarrow> menu_handleCancel m p h cur = (m', Some rt) \<Longrightarrow>
    menu_ready m' \<and> snd rt \<noteq> TPublish d"
  by (auto simp: menu_handleCancel_def intro!: ready_set ready_clear other_flow_ready split: flow_step.splits if_splits)

lemma process_ready:
  assumes "menu_ready m" "processInput m p msg = (m', Some rt)"
  shows "menu_ready m' \<and> (\<forall>d. snd rt = TPublish d \<longrightarrow> (\<exists>buying. draft_ready buying CONFIRM d))"
proof -
  let ?h = "head_word msg"
  consider "?h = []" | "?h \<noteq> []" "is_word [u ''back'', w_cancel, w_back, u ''menu''] ?h"
    | "?h \<noteq> []" "\<not> is_word [u ''back'', w_cancel, w_back, u ''menu''] ?h" by blast
  then show ?thesis
  proof cases
    case 3
    note p = assms(2) [unfolded processInput_def Let_def if_not_P [OF 3(1)] if_not_P [OF 3(2)]]
    show ?thesis
    proof (cases "getFlowState m p")
      case None
      then show ?thesis using p top_ready [OF assms(1), of p ?h] not_publish [of m p ?h] by auto
    next
      case (Some cur)
      show ?thesis
      proof (cases "fs_flow cur")
        case MENU_TOP
        then show ?thesis using p Some top_ready [OF assms(1), of p ?h] not_publish [of m p ?h] by auto
      next
        case BUY_FLOW
        then have "handleTradeFlow m p ?h cur True = (m', Some rt)" using p Some by simp
        then show ?thesis using trade_ready [OF assms(1) Some, of True ?h m' rt] BUY_FLOW by auto
      next
        case SELL_FLOW
        then have "handleTradeFlow m p ?h cur False = (m', Some rt)" using p Some by simp
        then show ?thesis using trade_ready [OF assms(1) Some, of False ?h m' rt] SELL_FLOW by auto
      next
        case BROWSE_MARKET
        then show ?thesis using p Some browse_ready [OF assms(1), of p ?h cur] by auto
      next
        case ACCEPT_OFFER
        then show ?thesis using p Some accept_ready [OF assms(1)] by auto
      next
        case MY_ORDERS
        then show ?thesis using p Some assms(1) by (auto simp: handleMyOrders_def split: option.splits)
      next
        case CANCEL_ORDER
        then show ?thesis using p Some cancel_ready [OF assms(1)] by auto
      next
        case WAIT_PAYMENT
        then show ?thesis using p Some assms(1) by auto
      qed
    qed
  qed (use assms ready_clear in \<open>auto simp: processInput_def\<close>)
qed

text \<open>Histories in which no message made the menu throw.\<close>

inductive menu_step :: "menu \<Rightarrow> menu \<Rightarrow> bool" where
  "handleMessage cl db now m p msg relay = (m', res) \<Longrightarrow> res \<noteq> Some None \<Longrightarrow> menu_step m m'"

lemma relisted_ready: "f \<notin> {BUY_FLOW, SELL_FLOW} \<Longrightarrow> fs_flow (relisted c f) = f"
  by (auto simp: relisted_def flow_at_def split: option.split)

lemma dispatch_ready:
  assumes "menu_ready m"
  shows "menu_ready (fst (doPublish cl m p d relay))" "menu_ready (fst (doAccept cl m p e))" "menu_ready (fst (doCancel cl m p e))"
    "menu_ready (fst (doBrowse cl m p))" "menu_ready (fst (doMyOrders cl m p))" "menu_ready (fst (doBrowseNext cl m p))"
proof -
  show "menu_ready (fst (doPublish cl m p d relay))"
    using assms ready_clear by (simp add: doPublish_def Let_def split: option.split)
  show "menu_ready (fst (doAccept cl m p e))"
    using assms ready_clear by (auto simp: doAccept_def intro!: ready_set other_flow_ready split: option.split) (simp_all add: flow_at_def)
  show "menu_ready (fst (doCancel cl m p e))"
    using assms ready_clear by (simp add: doCancel_def split: option.split)
  show "menu_ready (fst (doBrowse cl m p))"
    using assms by (auto simp: doBrowse_def relisted_ready intro!: ready_set other_flow_ready split: option.split list.split)
  show "menu_ready (fst (doMyOrders cl m p))"
    using assms by (auto simp: doMyOrders_def relisted_ready intro!: ready_set other_flow_ready split: option.split list.split)
  have next_ok: "state_ready ((case getFlowState m p of None \<Rightarrow> flow_at MENU_TOP LIST_STEP None | Some s \<Rightarrow> s)\<lparr> fs_page := n, fs_offers := os \<rparr>)" for n os
    using ready_get [OF assms] by (auto simp: state_ready_def flow_at_def split: option.split)
  show "menu_ready (fst (doBrowseNext cl m p))"
    using assms next_ok by (auto simp: doBrowseNext_def Let_def intro!: ready_set split: option.split list.split)
qed

definition passed_on :: "broker_db \<Rightarrow> nat \<Rightarrow> menu \<Rightarrow> string \<Rightarrow> utext \<Rightarrow> string \<Rightarrow> bool" where
  "passed_on db now m p msg relay = (relay = [] \<or> \<not> isLanguageA (trim msg) \<or> (getFlowState m p = None \<and> v2_pending db now p))"

lemma handle_passes: "passed_on db now m p msg relay \<Longrightarrow> handleMessage cl db now m p msg relay = (m, None)"
  unfolding passed_on_def handleMessage_def by (elim disjE) simp_all

lemma handle_throws: "\<not> passed_on db now m p msg relay \<Longrightarrow> processInput m p (trim msg) = (m1, None) \<Longrightarrow>
    handleMessage cl db now m p msg relay = (m1, Some None)"
  unfolding passed_on_def handleMessage_def by simp

lemma handle_keeps:
  assumes "\<not> passed_on db now m p msg relay" "processInput m p (trim msg) = (m1, Some (r, t))" "menu_ready m1"
  shows "menu_ready (fst (handleMessage cl db now m p msg relay))"
  using assms dispatch_ready [OF assms(3)] unfolding passed_on_def handleMessage_def
  by (cases t) (auto simp: case_prod_beta)

lemma step_ready: "menu_step m m' \<Longrightarrow> menu_ready m \<Longrightarrow> menu_ready m'"
proof (erule menu_step.cases)
  fix cl db now n p msg relay n' res
  assume *: "m = n" "m' = n'" "handleMessage cl db now n p msg relay = (n', res)" "res \<noteq> Some None" "menu_ready m"
  show "menu_ready m'"
  proof (cases "passed_on db now n p msg relay")
    case True
    then show ?thesis using * handle_passes by auto
  next
    case False
    obtain m1 o1 where p: "processInput n p (trim msg) = (m1, o1)" by fastforce
    then obtain r t where o1: "o1 = Some (r, t)" using * False handle_throws by (cases o1) auto
    have "menu_ready m1" using process_ready [of n p "trim msg" m1 "(r, t)"] * p o1 by auto
    then show ?thesis using handle_keeps [OF False p [unfolded o1], of cl] * by simp
  qed
qed

lemma history_ready: "menu_step\<^sup>*\<^sup>* [] m \<Longrightarrow> menu_ready m"
proof (induction rule: rtranclp_induct)
  case base
  show ?case by (simp add: menu_ready_def getFlowState_def)
qed (rule step_ready)

text \<open>In every history in which no message makes the menu throw, an order that is published has a chain, a
  quantity between 1 and 5000 and, when it sells, a well-formed address to be paid at.\<close>
theorem published_order_complete:
  assumes "menu_step\<^sup>*\<^sup>* [] m" "processInput m p msg = (m', Some (r, TPublish d))"
  shows "(\<exists>ch \<in> set chains. md_pay_chain d = Some ch) \<and> (\<exists>q. md_qty d = Some q \<and> 1 \<le> q \<and> q \<le> 5000)
     \<and> (md_side d = Some ''sell_kas'' \<longrightarrow> (\<exists>a. md_pay_address d = Some a \<and> evm_address a))"
proof -
  obtain buying where "draft_ready buying CONFIRM d" using process_ready [OF history_ready [OF assms(1)] assms(2)] by auto
  then show ?thesis by (cases buying) (auto simp: draft_ready_def MIN_QTY_KAS_def MAX_QTY_KAS_def)
qed

subsection \<open>An order without a chain\<close>

definition ex_addr :: utext where "ex_addr = u ''0x'' @ replicate 40 97"

definition ex_chat :: "utext list" where
  "ex_chat = [u ''2'', u ''yes'', u ''5'', ex_addr]"

fun chat :: "menu \<Rightarrow> string \<Rightarrow> utext list \<Rightarrow> menu" where
  "chat m p [] = m"
| "chat m p (x # xs) = chat (fst (processInput m p x)) p xs"

lemma u_code: "u ''1'' = [49]" "u ''2'' = [50]" "u ''5'' = [53]" "u ''yes'' = [121, 101, 115]" "u ''0x'' = [48, 120]" "u ''no'' = [110, 111]" "u ''ok'' = [111, 107]"
  "u ''back'' = [98, 97, 99, 107]" "u ''menu'' = [109, 101, 110, 117]"
  by (simp_all add: u_def)

lemmas ex_defs = processInput_def head_word_def trim_def js_space_def is_word_def lower_unit_def u_code w_cancel_def w_back_def w_confirm_def w_good_def w_publish_def
  getFlowState_def setFlowState_def Let_def parseInt10_def unit_digit_def units_val_def


lemma ex_sell: "processInput [] p [50] = ([(p, flow_at SELL_FLOW CHAIN_SELECT (Some (no_draft\<lparr> md_side := Some ''sell_kas'' \<rparr>)))], Some (RChainSelect ''sell'', NoTrigger))"
  by (simp add: ex_defs handleMenuTop_def)

lemma ex_bad_chain: "processInput [(p, flow_at SELL_FLOW CHAIN_SELECT (Some d))] p [121, 101, 115] = ([(p, flow_at SELL_FLOW QTY_SELECT (Some (d\<lparr> md_pay_chain := None \<rparr>)))], None)"
  by (simp add: ex_defs handleTradeFlow_def chain_out_of_range_def chain_at_def flow_at_def)

lemma ex_five: "parseFloat_u [53] = Some 5"
  by code_simp

lemma ex_qty: "md_pay_chain d = None \<Longrightarrow> processInput [(p, flow_at SELL_FLOW QTY_SELECT (Some d))] p [53] = ([(p, flow_at SELL_FLOW ADDR_INPUT (Some (d\<lparr> md_qty := Some 5 \<rparr>)))], None)"
  by (simp add: ex_defs handleTradeFlow_def flow_at_def ex_five MIN_QTY_KAS_def MAX_QTY_KAS_def)

lemma plain_head: "list_all (\<lambda>c. \<not> js_space c) h \<Longrightarrow> head_word h = h"
proof -
  assume "list_all (\<lambda>c. \<not> js_space c) h"
  then have h: "\<forall>c \<in> set h. \<not> js_space c" by (simp add: list_all_iff)
  have id: "dropWhile js_space xs = xs" if "\<forall>c \<in> set xs. \<not> js_space c" for xs using that by (cases xs) auto
  show ?thesis using h id [of h] id [of "rev h"] by (simp add: head_word_def trim_def takeWhile_eq_all_conv)
qed

lemma ex_addr_head: "head_word ex_addr = ex_addr" "ex_addr \<noteq> []" "evm_address ex_addr"
  by (rule plain_head, simp add: ex_addr_def u_code js_space_def list_all_iff)
    (simp_all add: ex_addr_def u_code evm_address_def unit_hex_def unit_digit_def list_all_iff)

lemma ex_addr_word: "\<not> is_word [u ''back'', w_cancel, w_back, u ''menu''] ex_addr"
proof -
  have l: "length (map lower_unit ex_addr) = 42" by (simp add: ex_addr_def u_code)
  have "length w \<noteq> 42" if "w \<in> set [u ''back'', w_cancel, w_back, u ''menu'']" for w
    using that by (simp only: u_code w_cancel_def w_back_def list.set insert_iff) (elim disjE; simp)
  then show ?thesis using l unfolding is_word_def by blast
qed

lemma ex_address_step: "md_pay_chain d = None \<Longrightarrow> processInput [(p, flow_at SELL_FLOW ADDR_INPUT (Some d))] p ex_addr = ([(p, flow_at SELL_FLOW CONFIRM (Some (d\<lparr> md_pay_address := Some ex_addr \<rparr>)))], None)"
  unfolding processInput_def Let_def ex_addr_head(1) if_not_P [OF ex_addr_head(2)] if_not_P [OF ex_addr_word]
  by (simp add: getFlowState_def setFlowState_def handleTradeFlow_def flow_at_def ex_addr_head preview_def)

lemma ex_yes: "processInput [(p, flow_at SELL_FLOW CONFIRM (Some d))] p [121, 101, 115] = ([(p, flow_at SELL_FLOW CONFIRM (Some d))], Some (RPublishing, TPublish d))"
  by (simp add: ex_defs handleTradeFlow_def flow_at_def)

lemma ex_chat_language: "list_all isLanguageA (ex_chat @ [u ''yes''])"
proof -
  have "isLanguageA ex_addr" unfolding isLanguageA_def Let_def if_not_P [OF ex_addr_head(2)] using ex_addr_head by simp
  moreover have "isLanguageA [50]" "isLanguageA [53]" "isLanguageA [121, 101, 115]"
    by (simp_all add: isLanguageA_def Let_def plain_head js_space_def is_word_def lower_unit_def u_code)
  ultimately show ?thesis by (simp add: ex_chat_def u_code)
qed

lemma ex_chat_end: "chat [] p ex_chat
    = [(p, flow_at SELL_FLOW CONFIRM (Some (no_draft\<lparr> md_side := Some ''sell_kas'', md_qty := Some 5, md_pay_address := Some ex_addr \<rparr>)))]"
  by (simp add: ex_chat_def u_code ex_sell ex_bad_chain ex_qty ex_address_step) (simp add: no_draft_def)

text \<open>A word that is no number passes the test of the chain's range: after \<open>2\<close>, \<open>yes\<close>, \<open>5\<close>, an address and
  \<open>yes\<close>, all of which the menu takes, a sell order is published that names no chain.\<close>
theorem chainless_order_published:
  "list_all isLanguageA (ex_chat @ [u ''yes'']) \<and>
   (\<exists>d. snd (processInput (chat [] ''kaspa:u'' ex_chat) ''kaspa:u'' (u ''yes'')) = Some (RPublishing, TPublish d)
     \<and> (\<forall>relay price. ob_side (publish_body relay ''kaspa:u'' d 5 price None) = ''sell_kas''
          \<and> ob_want_chain (publish_body relay ''kaspa:u'' d 5 price None) = None))"
  unfolding ex_chat_end u_code ex_yes
  using ex_chat_language by (simp add: publish_body_def Let_def normalizeChainKey_def no_draft_def u_code)

lemma trade_publish: "handleTradeFlow m p h cur b = (m', Some (r, TPublish d)) \<Longrightarrow> m' = m"
  by (cases "fs_step cur") (auto simp: handleTradeFlow_def Let_def preview_def split: option.splits if_splits)

lemma others_publish:
  "handleMenuTop m p h = (m', Some (r, TPublish d)) \<Longrightarrow> m' = m"
  "handleBrowse m p h cur = (m', Some (r, TPublish d)) \<Longrightarrow> m' = m"
  "handleMyOrders m h cur = (m', Some (r, TPublish d)) \<Longrightarrow> m' = m"
  by (auto simp: handleMenuTop_def handleBrowse_def handleMyOrders_def Let_def split: option.splits if_splits)

lemma accept_publish:
  "menu_handleAccept m p h cur = (m', Some (r, TPublish d)) \<Longrightarrow> m' = m"
  "menu_handleCancel m p h cur = (m', Some (r, TPublish d)) \<Longrightarrow> m' = m"
  by (cases "fs_step cur"; auto simp: menu_handleAccept_def menu_handleCancel_def Let_def split: option.splits if_splits)+

lemma publish_keeps_menu: "processInput m p msg = (m', Some (r, TPublish d)) \<Longrightarrow> m' = m"
  by (auto simp: processInput_def Let_def split: if_splits option.splits flow.splits dest: trade_publish others_publish accept_publish)

text \<open>A confirmation is not consumed: until the exchange has answered, the menu is as before, so a second
  \<open>yes\<close> publishes the same order again.\<close>
theorem second_yes_publishes_again:
  assumes "processInput m p (u ''yes'') = (m', Some (r, TPublish d))"
  shows "processInput m' p (u ''yes'') = (m', Some (r, TPublish d))"
  using publish_keeps_menu [OF assms] assms by simp

subsection \<open>A complete order\<close>

lemma processed_step:
  assumes "processInput m p (trim msg) = (m', Some (r, NoTrigger)) \<or> processInput m p (trim msg) = (m', Some (r, TPreview))"
    and "isLanguageA (trim msg)" "getFlowState m p \<noteq> None \<or> \<not> v2_pending db now p" "relay \<noteq> ([] :: string)"
  shows "menu_step m m'"
proof -
  have "handleMessage cl db now m p msg relay = (m', Some (Some (Said r)))" for cl
    using assms unfolding handleMessage_def by (elim disjE) simp_all
  then show ?thesis by (rule menu_step.intros) simp
qed

definition ex_buy :: "flow_step \<Rightarrow> menu_draft \<Rightarrow> menu" where
  "ex_buy st d = [(''kaspa:u'', flow_at BUY_FLOW st (Some d))]"

definition ex_orders :: broker_db where
  "ex_orders = \<lparr> bd_orders = [], bd_events = [], bd_markers = [], bd_txs = [], bd_alerts = [] \<rparr>"

definition ex_bought :: menu_draft where
  "ex_bought = no_draft\<lparr> md_side := Some ''buy_kas'', md_pay_chain := Some ''bsc'', md_qty := Some 5 \<rparr>"

lemma ex_trim: "trim [49] = [49]" "trim [53] = [53]"
  by (simp_all add: trim_def js_space_def)

lemma ex_language: "isLanguageA [49]" "isLanguageA [53]"
  by (simp_all add: isLanguageA_def Let_def plain_head js_space_def is_word_def lower_unit_def u_code)

lemma ex_buy_history: "menu_step\<^sup>*\<^sup>* [] (ex_buy CONFIRM ex_bought)"
proof -
  let ?d = "no_draft\<lparr> md_side := Some ''buy_kas'' \<rparr>"
  have pass: "\<not> v2_pending ex_orders 0 ''kaspa:u''" by (simp add: v2_pending_def ex_orders_def)
  have "processInput [] ''kaspa:u'' [49] = (ex_buy CHAIN_SELECT ?d, Some (RChainSelect ''buy'', NoTrigger))"
    by (simp add: ex_defs handleMenuTop_def ex_buy_def)
  then have 1: "menu_step [] (ex_buy CHAIN_SELECT ?d)"
    using processed_step [of "[]" "''kaspa:u''" "[49]"] ex_trim ex_language pass by (metis list.distinct(1))
  have "processInput (ex_buy CHAIN_SELECT ?d) ''kaspa:u'' [49] = (ex_buy QTY_SELECT (?d\<lparr> md_pay_chain := Some ''bsc'' \<rparr>), Some (RChainChosen ''bsc'', NoTrigger))"
    by (simp add: ex_defs handleTradeFlow_def flow_at_def ex_buy_def chain_out_of_range_def chain_at_def chains_def js_idx_def)
  then have 2: "menu_step (ex_buy CHAIN_SELECT ?d) (ex_buy QTY_SELECT (?d\<lparr> md_pay_chain := Some ''bsc'' \<rparr>))"
    using processed_step [of "ex_buy CHAIN_SELECT ?d" "''kaspa:u''" "[49]"] ex_trim ex_language pass by (metis list.distinct(1))
  have "processInput (ex_buy QTY_SELECT (?d\<lparr> md_pay_chain := Some ''bsc'' \<rparr>)) ''kaspa:u'' [53] = (ex_buy CONFIRM ex_bought, Some (RPreview ex_bought, TPreview))"
    by (simp add: ex_defs handleTradeFlow_def flow_at_def ex_buy_def ex_five MIN_QTY_KAS_def MAX_QTY_KAS_def preview_def ex_bought_def no_draft_def)
  then have 3: "menu_step (ex_buy QTY_SELECT (?d\<lparr> md_pay_chain := Some ''bsc'' \<rparr>)) (ex_buy CONFIRM ex_bought)"
    using processed_step [of "ex_buy QTY_SELECT (?d\<lparr> md_pay_chain := Some ''bsc'' \<rparr>)" "''kaspa:u''" "[53]"] ex_trim ex_language pass by (metis list.distinct(1))
  show ?thesis
    by (rule converse_rtranclp_into_rtranclp [where r = menu_step, OF 1], rule converse_rtranclp_into_rtranclp [where r = menu_step, OF 2],
        rule r_into_rtranclp [where r = menu_step, OF 3])
qed

lemma ex_buy_yes: "processInput (ex_buy CONFIRM ex_bought) ''kaspa:u'' (u ''yes'') = (ex_buy CONFIRM ex_bought, Some (RPublishing, TPublish ex_bought))"
  by (simp add: ex_defs handleTradeFlow_def flow_at_def ex_buy_def)

lemma published_order_complete_witness: "\<exists>q. md_qty ex_bought = Some q \<and> 1 \<le> q \<and> q \<le> 5000"
  using published_order_complete [OF ex_buy_history ex_buy_yes] by blast

lemma second_yes_publishes_again_witness:
  "snd (processInput (fst (processInput (ex_buy CONFIRM ex_bought) ''kaspa:u'' (u ''yes''))) ''kaspa:u'' (u ''yes'')) = Some (RPublishing, TPublish ex_bought)"
  using second_yes_publishes_again [OF ex_buy_yes] by (simp add: ex_buy_yes)

end
