(* ===== verification/Judgeline.thy ===== *)
theory Judgeline
  imports Chain_Event
begin

section \<open>Judging a line\<close>

text \<open>
  \<open>kasia-console/src/lib/judgeline.mjs\<close>: the pure function every committee member judges a market with, the
  check of a predicate when the market is created, and the construction of predicates from betting lines.
  Predicates and fields are JSON values; integers are exact (the scores and operands of the code stay below
  \<open>2 ^ 53\<close>), and the white space \<open>trim\<close> removes is that of ASCII.
\<close>

datatype verdict = YES | NO | ABSTAIN

definition METRICS :: "string list" where "METRICS = [''winner'', ''margin'', ''total'', ''score'']"
definition NUM_OPS :: "string list" where "NUM_OPS = [''=='', ''>='', ''<='', ''>'', ''<'']"
definition TIE_TOKEN :: string where "TIE_TOKEN = ''TIE''"

definition pow10 :: "json option \<Rightarrow> int option" where
  "pow10 scale = (case scale of Some (JInt i) \<Rightarrow> if 0 \<le> i \<and> i \<le> 6 then Some (10 ^ nat i) else None | _ \<Rightarrow> None)"

definition get_int :: "json \<Rightarrow> string \<Rightarrow> int option" where
  "get_int v k = (case js_get v k of Some (JInt i) \<Rightarrow> Some i | _ \<Rightarrow> None)"

definition get_str :: "json \<Rightarrow> string \<Rightarrow> string option" where
  "get_str v k = (case js_get v k of Some (JStr s) \<Rightarrow> Some s | _ \<Rightarrow> None)"

text \<open>The subject's score and the other's.\<close>

definition subjectScore :: "string \<Rightarrow> int \<Rightarrow> string \<Rightarrow> int \<Rightarrow> string \<Rightarrow> (int \<times> int) option" where
  "subjectScore home hs away as subject =
    (if subject = home then Some (hs, as) else if subject = away then Some (as, hs) else None)"

definition applyNumOp :: "string \<Rightarrow> int \<Rightarrow> int \<Rightarrow> bool option" where
  "applyNumOp op lhs rhs =
    (if op = ''=='' then Some (lhs = rhs) else if op = ''>='' then Some (rhs \<le> lhs) else if op = ''<='' then Some (lhs \<le> rhs)
     else if op = ''>'' then Some (rhs < lhs) else if op = ''<'' then Some (lhs < rhs) else None)"

text \<open>\<open>x && typeof x === 'object'\<close>\<close>

definition is_object :: "json option \<Rightarrow> bool" where
  "is_object v = (case v of Some (JObj _) \<Rightarrow> True | Some (JArr _) \<Rightarrow> True | _ \<Rightarrow> False)"

definition scale_of :: "json \<Rightarrow> json option" where
  "scale_of p = (case js_get p ''scale'' of None \<Rightarrow> Some (JInt 0) | s \<Rightarrow> s)"

definition field_value :: "string \<Rightarrow> json \<Rightarrow> json \<Rightarrow> int option" where
  "field_value metric p f =
    (if metric = ''total'' then
       (case (get_int f ''home_score'', get_int f ''away_score'') of (Some h, Some a) \<Rightarrow> Some (h + a) | _ \<Rightarrow> None)
     else
       (case (get_str p ''subject'', get_int f ''home_score'', get_int f ''away_score'', get_str f ''home_team'', get_str f ''away_team'') of
          (Some s, Some h, Some a, Some ht, Some awt) \<Rightarrow>
            if s = [] then None
            else (case subjectScore ht h awt a s of None \<Rightarrow> None
                  | Some (self, other) \<Rightarrow> Some (if metric = ''score'' then self else self - other))
        | _ \<Rightarrow> None))"

definition judge_winner :: "json \<Rightarrow> json \<Rightarrow> verdict" where
  "judge_winner p f =
    (if js_get p ''op'' \<noteq> Some (JStr ''=='') then ABSTAIN
     else case get_str p ''operand'' of None \<Rightarrow> ABSTAIN | Some operand \<Rightarrow>
       if operand = [] then ABSTAIN
       else case get_str f ''winner_side'' of None \<Rightarrow> ABSTAIN | Some w \<Rightarrow>
         if w = [] then ABSTAIN else if w = TIE_TOKEN then NO else if w = operand then YES else NO)"

definition judgeLine :: "json option \<Rightarrow> json option \<Rightarrow> verdict" where
  "judgeLine predicate flds =
    (if \<not> is_object predicate \<or> \<not> is_object flds then ABSTAIN
     else (let p = the predicate; f = the flds in
       case get_str p ''metric'' of None \<Rightarrow> ABSTAIN | Some metric \<Rightarrow>
       if metric \<notin> set METRICS then ABSTAIN
       else if metric = ''winner'' then judge_winner p f
       else case get_str p ''op'' of None \<Rightarrow> ABSTAIN | Some op \<Rightarrow>
       if op \<notin> set NUM_OPS then ABSTAIN
       else case get_int p ''operand'' of None \<Rightarrow> ABSTAIN | Some operand \<Rightarrow>
       case pow10 (scale_of p) of None \<Rightarrow> ABSTAIN | Some mul \<Rightarrow>
       case field_value metric p f of None \<Rightarrow> ABSTAIN | Some v \<Rightarrow>
       case applyNumOp op (v * mul) operand of None \<Rightarrow> ABSTAIN | Some True \<Rightarrow> YES | Some False \<Rightarrow> NO))"

subsection \<open>Checking a predicate\<close>

datatype pred_error = PredNotObject | BadMetric "json option" | WinnerOp | WinnerOperand | WinnerTie | BadOp "json option"
  | OperandNotInt | BadScale | IntegerLine int | TotalSubject | SubjectMissing | BadOpts | BadLine "json option" | BadKind "json option"

definition strip :: "string \<Rightarrow> string" where
  "strip s = rev (dropWhile space_char (rev (dropWhile space_char s)))"

definition blank_str :: "json option \<Rightarrow> bool" where
  "blank_str v = (case v of Some (JStr s) \<Rightarrow> strip s = [] | _ \<Rightarrow> True)"

definition check_winner :: "json \<Rightarrow> pred_error option" where
  "check_winner p =
    (if js_get p ''op'' \<noteq> Some (JStr ''=='') then Some WinnerOp
     else if blank_str (js_get p ''operand'') then Some WinnerOperand
     else if js_get p ''operand'' = Some (JStr TIE_TOKEN) then Some WinnerTie else None)"

definition validateResolutionPredicate :: "json option \<Rightarrow> pred_error option" where
  "validateResolutionPredicate predicate =
    (if \<not> is_object predicate then Some PredNotObject
     else (let p = the predicate in
       case get_str p ''metric'' of None \<Rightarrow> Some (BadMetric (js_get p ''metric'')) | Some metric \<Rightarrow>
       if metric \<notin> set METRICS then Some (BadMetric (js_get p ''metric''))
       else if metric = ''winner'' then check_winner p
       else case get_str p ''op'' of None \<Rightarrow> Some (BadOp (js_get p ''op'')) | Some op \<Rightarrow>
       if op \<notin> set NUM_OPS then Some (BadOp (js_get p ''op''))
       else case get_int p ''operand'' of None \<Rightarrow> Some OperandNotInt | Some operand \<Rightarrow>
       case pow10 (scale_of p) of None \<Rightarrow> Some BadScale | Some mul \<Rightarrow>
       if mul dvd operand then Some (IntegerLine operand)
       else if metric = ''total'' then (if js_present (js_get p ''subject'') then Some TotalSubject else None)
       else if blank_str (js_get p ''subject'') then Some SubjectMissing else None))"

subsection \<open>From lines to predicates\<close>

definition parseLineToFixedPoint :: "json option \<Rightarrow> (int \<times> nat) option" where
  "parseLineToFixedPoint line = (case line of
     Some (JStr t) \<Rightarrow>
       (let s = strip t; neg = (case s of c # _ \<Rightarrow> c = CHR ''-'' | [] \<Rightarrow> False); body = (if neg then tl s else s);
            intPart = takeWhile digit_char body; r = dropWhile digit_char body;
            fracPart = (case r of [] \<Rightarrow> [] | _ # x \<Rightarrow> x)
        in if intPart = [] then None
           else if r \<noteq> [] \<and> (hd r \<noteq> CHR ''.'' \<or> fracPart = [] \<or> \<not> list_all digit_char fracPart) then None
           else if pow10 (Some (JInt (int (length fracPart)))) = None then None
           else (let mag = int (str_val 0 (intPart @ fracPart)) in
             if 2 ^ 53 \<le> mag then None else Some (if neg then - mag else mag, length fracPart)))
   | _ \<Rightarrow> None)"

definition opt_member :: "string \<Rightarrow> json option \<Rightarrow> (string \<times> json) list" where
  "opt_member k v = (case v of None \<Rightarrow> [] | Some x \<Rightarrow> [(k, x)])"

definition checked :: "json \<Rightarrow> pred_error + json" where
  "checked p = (case validateResolutionPredicate (Some p) of None \<Rightarrow> Inr p | Some e \<Rightarrow> Inl e)"

definition buildResolutionPredicate :: "json option \<Rightarrow> pred_error + json" where
  "buildResolutionPredicate opts =
    (if \<not> is_object opts then Inl BadOpts
     else (let oo = the opts; kind = js_get oo ''kind'' in
       if kind = Some (JStr ''winner'') then
         checked (JObj ([(''metric'', JStr ''winner''), (''op'', JStr ''=='')] @ opt_member ''operand'' (js_get oo ''winner'')))
       else if kind = Some (JStr ''spread'') \<or> kind = Some (JStr ''total'') then
         (case parseLineToFixedPoint (js_get oo ''line'') of
            None \<Rightarrow> Inl (BadLine (js_get oo ''line''))
          | Some (operand, scale) \<Rightarrow>
            (let spread = (kind = Some (JStr ''spread'')); op = (if js_truthy (js_get oo ''op'') then the (js_get oo ''op'') else JStr ''>'')
             in checked (JObj ([(''metric'', JStr (if spread then ''margin'' else ''total'')), (''op'', op),
                  (''operand'', JInt (if spread then - operand else operand)), (''scale'', JInt (int scale))]
                @ (if spread then opt_member ''subject'' (js_get oo ''subject'') else [])))))
       else Inl (BadKind kind)))"

subsection \<open>Validated predicates are decided\<close>

lemma applyNumOp_total: "op \<in> set NUM_OPS \<Longrightarrow> \<exists>b. applyNumOp op x y = Some b"
  by (auto simp: NUM_OPS_def applyNumOp_def)

definition fields_ok :: "json \<Rightarrow> bool" where
  "fields_ok f = (is_object (Some f) \<and> get_int f ''home_score'' \<noteq> None \<and> get_int f ''away_score'' \<noteq> None
     \<and> get_str f ''home_team'' \<noteq> None \<and> get_str f ''away_team'' \<noteq> None \<and> get_str f ''winner_side'' \<notin> {None, Some []})"

definition about_game :: "json \<Rightarrow> json \<Rightarrow> bool" where
  "about_game p f = (get_str p ''metric'' \<in> {Some ''margin'', Some ''score''} \<longrightarrow>
     get_str p ''subject'' \<in> {get_str f ''home_team'', get_str f ''away_team''})"

text \<open>The parts of a validated predicate on numbers.\<close>

lemma valid_numeric:
  assumes "validateResolutionPredicate (Some p) = None" "get_str p ''metric'' \<noteq> Some ''winner''"
  obtains metric op operand mul where "get_str p ''metric'' = Some metric" "metric \<in> {''margin'', ''total'', ''score''}"
    "get_str p ''op'' = Some op" "op \<in> set NUM_OPS" "get_int p ''operand'' = Some operand" "pow10 (scale_of p) = Some mul"
    "\<not> mul dvd operand" "metric \<noteq> ''total'' \<longrightarrow> (\<exists>s. get_str p ''subject'' = Some s \<and> s \<noteq> [])" "is_object (Some p)"
proof -
  from assms obtain metric op operand mul where p: "is_object (Some p)" "get_str p ''metric'' = Some metric" "metric \<in> set METRICS" "metric \<noteq> ''winner''"
    "get_str p ''op'' = Some op" "op \<in> set NUM_OPS" "get_int p ''operand'' = Some operand" "pow10 (scale_of p) = Some mul" "\<not> mul dvd operand"
    "metric \<noteq> ''total'' \<Longrightarrow> \<not> blank_str (js_get p ''subject'')"
    by (auto simp: validateResolutionPredicate_def Let_def split: if_splits option.splits)
  have "\<exists>s. get_str p ''subject'' = Some s \<and> s \<noteq> []" if "metric \<noteq> ''total''"
    using p(10) [OF that] by (auto simp: blank_str_def get_str_def strip_def split: option.splits json.splits)
  then show thesis using that p by (auto simp: METRICS_def)
qed

lemma field_value_defined:
  assumes "fields_ok f" "metric = ''total'' \<or> (\<exists>s. get_str p ''subject'' = Some s \<and> s \<noteq> [] \<and> Some s \<in> {get_str f ''home_team'', get_str f ''away_team''})"
  shows "\<exists>v. field_value metric p f = Some v"
  using assms by (auto simp: fields_ok_def field_value_def subjectScore_def)

lemma game_value:
  assumes "fields_ok f" "about_game p f" "get_str p ''metric'' = Some metric" "metric \<in> {''margin'', ''total'', ''score''}"
    and "metric \<noteq> ''total'' \<longrightarrow> (\<exists>s. get_str p ''subject'' = Some s \<and> s \<noteq> [])"
  shows "\<exists>v. field_value metric p f = Some v"
proof (cases "metric = ''total''")
  case True
  then show ?thesis using field_value_defined [OF assms(1)] by blast
next
  case False
  then have "get_str p ''subject'' \<in> {get_str f ''home_team'', get_str f ''away_team''}"
    using assms(2-4) unfolding about_game_def by (simp only: insert_iff) blast
  then show ?thesis using field_value_defined [OF assms(1)] assms(5) False by metis
qed

lemma judge_numeric:
  assumes "is_object (Some p)" "is_object (Some f)" "get_str p ''metric'' = Some metric" "metric \<in> {''margin'', ''total'', ''score''}"
    and "get_str p ''op'' = Some op" "op \<in> set NUM_OPS" "get_int p ''operand'' = Some operand" "pow10 (scale_of p) = Some mul"
    and "field_value metric p f = Some v"
  shows "judgeLine (Some p) (Some f) = (if applyNumOp op (v * mul) operand = Some True then YES else NO)"
  using assms applyNumOp_total [OF assms(6), of "v * mul" operand]
  by (auto simp: judgeLine_def Let_def METRICS_def split: option.splits bool.splits)

lemma valid_winner:
  assumes "validateResolutionPredicate (Some p) = None" "get_str p ''metric'' = Some ''winner''"
  obtains t where "is_object (Some p)" "js_get p ''op'' = Some (JStr ''=='')" "get_str p ''operand'' = Some t" "t \<noteq> []" "t \<noteq> TIE_TOKEN"
proof -
  from assms have p: "is_object (Some p)" "js_get p ''op'' = Some (JStr ''=='')" "\<not> blank_str (js_get p ''operand'')" "js_get p ''operand'' \<noteq> Some (JStr TIE_TOKEN)"
    by (auto simp: validateResolutionPredicate_def METRICS_def check_winner_def split: if_splits)
  then obtain t where "js_get p ''operand'' = Some (JStr t)" "strip t \<noteq> []" by (auto simp: blank_str_def split: option.splits json.splits)
  then have "t \<noteq> []" by (auto simp: strip_def)
  then show thesis using that [of t] p \<open>js_get p ''operand'' = Some (JStr t)\<close> by (simp add: get_str_def)
qed

lemma judge_winner_decides:
  assumes "js_get p ''op'' = Some (JStr ''=='')" "get_str p ''operand'' = Some t" "t \<noteq> []" "get_str f ''winner_side'' \<notin> {None, Some []}"
  shows "judge_winner p f \<noteq> ABSTAIN"
  using assms by (auto simp: judge_winner_def split: if_splits)

lemma validated_decides:
  assumes "validateResolutionPredicate (Some p) = None" "fields_ok f" "about_game p f"
  shows "judgeLine (Some p) (Some f) \<noteq> ABSTAIN"
proof (cases "get_str p ''metric'' = Some ''winner''")
  case True
  obtain t where t: "is_object (Some p)" "js_get p ''op'' = Some (JStr ''=='')" "get_str p ''operand'' = Some t" "t \<noteq> []" "t \<noteq> TIE_TOKEN"
    by (rule valid_winner [OF assms(1) True])
  then show ?thesis using assms(2) True judge_winner_decides [OF t(2-4)] by (auto simp: judgeLine_def METRICS_def fields_ok_def)
next
  case False
  obtain metric op operand mul where p: "get_str p ''metric'' = Some metric" "metric \<in> {''margin'', ''total'', ''score''}"
    "get_str p ''op'' = Some op" "op \<in> set NUM_OPS" "get_int p ''operand'' = Some operand" "pow10 (scale_of p) = Some mul"
    "\<not> mul dvd operand" "metric \<noteq> ''total'' \<longrightarrow> (\<exists>s. get_str p ''subject'' = Some s \<and> s \<noteq> [])" "is_object (Some p)"
    by (rule valid_numeric [OF assms(1) False])
  obtain v where "field_value metric p f = Some v" using game_value [OF assms(2,3) p(1,2,8)] by blast
  then have "judgeLine (Some p) (Some f) = (if applyNumOp op (v * mul) operand = Some True then YES else NO)"
    using judge_numeric [OF p(9) _ p(1-6)] assms(2) by (simp add: fields_ok_def)
  then show ?thesis by simp
qed

text \<open>A predicate that passes the check when the market is created is decided by every complete result of a
  game its subject plays in: the judge answers yes or no and never abstains.\<close>
theorem validated_predicate_decided:
  assumes "validateResolutionPredicate (Some p) = None" "fields_ok f" "about_game p f"
  shows "judgeLine (Some p) (Some f) \<in> {YES, NO}"
  using validated_decides [OF assms] by (cases "judgeLine (Some p) (Some f)") auto

subsection \<open>No push\<close>

definition with_op :: "string \<Rightarrow> json \<Rightarrow> json" where
  "with_op op p = (case p of JObj kvs \<Rightarrow> JObj ((''op'', JStr op) # kvs) | _ \<Rightarrow> p)"

lemma with_op_get: "js_get (with_op op (JObj kvs)) k = (if k = ''op'' then Some (JStr op) else js_get (JObj kvs) k)"
  by (simp add: with_op_def)

lemma with_op_value: "field_value metric (with_op op (JObj kvs)) f = field_value metric (JObj kvs) f"
  by (simp add: field_value_def get_str_def with_op_get)

definition opposite :: "verdict \<Rightarrow> verdict" where
  "opposite v = (case v of YES \<Rightarrow> NO | NO \<Rightarrow> YES | ABSTAIN \<Rightarrow> ABSTAIN)"

text \<open>Half lines leave no push: on a checked numeric predicate the verdict for ``more than the line'' is the
  opposite of the verdict for ``less than the line'', and ``equal to the line'' is never won.\<close>
theorem half_line_no_push:
  assumes "validateResolutionPredicate (Some (JObj kvs)) = None" "get_str (JObj kvs) ''metric'' \<noteq> Some ''winner''"
    and "fields_ok f" "about_game (JObj kvs) f"
  shows "judgeLine (Some (with_op ''>'' (JObj kvs))) (Some f) = opposite (judgeLine (Some (with_op ''<'' (JObj kvs))) (Some f))
     \<and> judgeLine (Some (with_op ''=='' (JObj kvs))) (Some f) = NO"
proof -
  let ?p = "JObj kvs"
  obtain metric op operand mul where p: "get_str ?p ''metric'' = Some metric" "metric \<in> {''margin'', ''total'', ''score''}"
    "get_str ?p ''op'' = Some op" "op \<in> set NUM_OPS" "get_int ?p ''operand'' = Some operand" "pow10 (scale_of ?p) = Some mul"
    "\<not> mul dvd operand" "metric \<noteq> ''total'' \<longrightarrow> (\<exists>s. get_str ?p ''subject'' = Some s \<and> s \<noteq> [])" "is_object (Some ?p)"
    by (rule valid_numeric [OF assms(1,2)])
  obtain v where v: "field_value metric ?p f = Some v" using game_value [OF assms(3,4) p(1,2,8)] by blast
  have f: "is_object (Some f)" using assms(3) by (simp add: fields_ok_def)
  have judged: "judgeLine (Some (with_op o' ?p)) (Some f) = (if applyNumOp o' (v * mul) operand = Some True then YES else NO)"
    if "o' \<in> set NUM_OPS" for o'
  proof (rule judge_numeric)
    show "is_object (Some (with_op o' ?p))" by (simp add: with_op_def is_object_def)
    show "is_object (Some f)" by (rule f)
    show "get_str (with_op o' ?p) ''metric'' = Some metric" using p(1) by (simp add: get_str_def with_op_get del: js_get.simps)
    show "get_str (with_op o' ?p) ''op'' = Some o'" by (simp add: get_str_def with_op_get del: js_get.simps)
    show "get_int (with_op o' ?p) ''operand'' = Some operand" using p(5) by (simp add: get_int_def with_op_get del: js_get.simps)
    show "pow10 (scale_of (with_op o' ?p)) = Some mul" using p(6) by (simp add: scale_of_def with_op_get del: js_get.simps)
    show "field_value metric (with_op o' ?p) f = Some v" using v by (simp add: with_op_value)
  qed (use p(2) that in auto)
  have "v * mul \<noteq> operand" using p(7) by auto
  then show ?thesis using judged [of "''>''"] judged [of "''<''"] judged [of "''==''"]
    by (auto simp: NUM_OPS_def applyNumOp_def opposite_def)
qed

subsection \<open>Lines mean what they say\<close>

lemma digit_not_space: "digit_char c \<Longrightarrow> \<not> space_char c"
  by (simp add: digit_char_def space_char_def Let_def)

lemma digit_plain: "digit_char c \<Longrightarrow> c \<noteq> CHR ''-'' \<and> c \<noteq> CHR ''+'' \<and> c \<noteq> CHR ''.'' \<and> c \<noteq> CHR ''e'' \<and> c \<noteq> CHR ''E''"
  by (auto simp: digit_char_def)

lemma parse_line_shape:
  assumes "parseLineToFixedPoint (Some (JStr t)) = Some (l, sc)" "strip t = t"
  obtains neg d1 d2 where "t = (if neg then ''-'' else []) @ d1 @ (if d2 = [] then [] else CHR ''.'' # d2)" "d1 \<noteq> []"
    "list_all digit_char d1" "list_all digit_char d2" "sc = length d2" "sc \<le> 6"
    "l = (if neg then - int (str_val 0 (d1 @ d2)) else int (str_val 0 (d1 @ d2)))"
proof -
  define neg where "neg = (case t of c # _ \<Rightarrow> c = CHR ''-'' | [] \<Rightarrow> False)"
  define body where "body = (if neg then tl t else t)"
  define d1 where "d1 = takeWhile digit_char body"
  define r where "r = dropWhile digit_char body"
  define d2 where "d2 = (case r of [] \<Rightarrow> [] | _ # x \<Rightarrow> x)"
  have p: "d1 \<noteq> []" "r = [] \<or> (hd r = CHR ''.'' \<and> d2 \<noteq> [] \<and> list_all digit_char d2)" "pow10 (Some (JInt (int (length d2)))) \<noteq> None"
    "sc = length d2" "l = (if neg then - int (str_val 0 (d1 @ d2)) else int (str_val 0 (d1 @ d2)))"
    using assms unfolding parseLineToFixedPoint_def neg_def body_def d1_def d2_def r_def by (auto simp: Let_def split: if_splits)
  have t: "t = (if neg then ''-'' else []) @ body"
    unfolding body_def neg_def by (cases t) auto
  have b: "body = d1 @ r" by (simp add: d1_def r_def)
  have r: "r = (if d2 = [] then [] else CHR ''.'' # d2)" using p(2) unfolding d2_def by (cases r) auto
  have "list_all digit_char d1" unfolding d1_def by (auto simp: list_all_iff dest: set_takeWhileD)
  moreover have "list_all digit_char d2" using p(2) unfolding d2_def by (cases r) auto
  moreover have "sc \<le> 6" using p(3,4) by (auto simp: pow10_def split: if_splits)
  ultimately show thesis using that [of neg d1 d2] t b r p by simp
qed

lemma takeWhile_digits: "list_all digit_char d \<Longrightarrow> r = [] \<or> \<not> digit_char (hd r) \<Longrightarrow> takeWhile digit_char (d @ r) = d \<and> dropWhile digit_char (d @ r) = r"
  by (induction d) (cases r; auto)+

lemma parse_line_exact:
  assumes "parseLineToFixedPoint (Some (JStr t)) = Some (l, sc)" "strip t = t"
  shows "parseFloat t = Some (of_int l / 10 ^ sc)"
proof -
  obtain neg d1 d2 where t: "t = (if neg then ''-'' else []) @ d1 @ (if d2 = [] then [] else CHR ''.'' # d2)" "d1 \<noteq> []"
    "list_all digit_char d1" "list_all digit_char d2" "sc = length d2" "sc \<le> 6"
    "l = (if neg then - int (str_val 0 (d1 @ d2)) else int (str_val 0 (d1 @ d2)))"
    by (rule parse_line_shape [OF assms])
  let ?r = "if d2 = [] then [] else CHR ''.'' # d2"
  obtain c d where d1: "d1 = c # d" "digit_char c" using t(2,3) by (cases d1) auto
  have sp: "dropWhile space_char t = t" using t(1) d1 digit_not_space [OF d1(2)] by (auto simp: space_char_def Let_def)
  have sign: "strip_sign t = (neg, d1 @ ?r)" using t(1) d1 digit_plain [OF d1(2)] by (auto simp: strip_sign_def)
  have dot: "\<not> digit_char (CHR ''.'')" by (simp add: digit_char_def)
  have w1: "takeWhile digit_char (d1 @ ?r) = d1" "dropWhile digit_char (d1 @ ?r) = ?r"
    using takeWhile_digits [OF t(3), of ?r] dot by auto
  have w2: "takeWhile digit_char d2 = d2" "dropWhile digit_char d2 = []"
    using t(4) takeWhile_digits [OF t(4), of "[]"] by auto
  show ?thesis
    unfolding parseFloat_def Let_def sp sign prod.case w1
    using t(2,5,7) by (cases "d2 = []") (simp_all add: exponent_of_def w2)
qed

lemma built_line:
  assumes "buildResolutionPredicate (Some opts) = Inr p" "js_get opts ''kind'' = Some (JStr kind)" "kind \<in> {''spread'', ''total''}"
    and "\<not> js_truthy (js_get opts ''op'')" "parseLineToFixedPoint (js_get opts ''line'') = Some (l, sc)"
  shows "validateResolutionPredicate (Some p) = None
    \<and> p = JObj ([(''metric'', JStr (if kind = ''spread'' then ''margin'' else ''total'')), (''op'', JStr ''>''),
         (''operand'', JInt (if kind = ''spread'' then - l else l)), (''scale'', JInt (int sc))]
       @ (if kind = ''spread'' then opt_member ''subject'' (js_get opts ''subject'') else []))"
  using assms by (auto simp: buildResolutionPredicate_def Let_def checked_def split: if_splits option.splits)

lemma parse_scale: "parseLineToFixedPoint v = Some (l, sc) \<Longrightarrow> sc \<le> 6"
  by (auto simp: parseLineToFixedPoint_def pow10_def Let_def split: option.splits json.splits if_splits)

lemma scaled_less: "(of_int a :: rat) < of_int b + of_int l / 10 ^ n \<longleftrightarrow> a * 10 ^ n < b * 10 ^ n + l"
proof -
  have "(of_int a :: rat) < of_int b + of_int l / 10 ^ n \<longleftrightarrow> of_int a * 10 ^ n < of_int b * 10 ^ n + (of_int l :: rat)"
    by (simp add: field_simps)
  also have "\<dots> \<longleftrightarrow> (of_int (a * 10 ^ n) :: rat) < of_int (b * 10 ^ n + l)" by simp
  also have "\<dots> \<longleftrightarrow> a * 10 ^ n < b * 10 ^ n + l" by (rule of_int_less_iff)
  finally show ?thesis .
qed

text \<open>A spread means what it says: the predicate built from the line ``\<open>t\<close>'' for a team is judged yes exactly
  when the team's score plus the line, read as a decimal number, beats the other score.\<close>
theorem spread_covers:
  assumes "buildResolutionPredicate (Some opts) = Inr p" "js_get opts ''kind'' = Some (JStr ''spread'')"
    and "\<not> js_truthy (js_get opts ''op'')" "js_get opts ''line'' = Some (JStr t)" "strip t = t" "parseFloat t = Some line"
    and "js_get opts ''subject'' = Some (JStr s)" "is_object (Some f)"
    and "get_int f ''home_score'' = Some hs" "get_int f ''away_score'' = Some as" "get_str f ''home_team'' = Some home"
    and "get_str f ''away_team'' = Some away" "subjectScore home hs away as s = Some (self, other)"
  shows "judgeLine (Some p) (Some f) = (if of_int other < of_int self + line then YES else NO)"
proof -
  obtain l sc where l: "parseLineToFixedPoint (Some (JStr t)) = Some (l, sc)"
    using assms(1,2,4) by (auto simp: buildResolutionPredicate_def Let_def split: if_splits option.splits)
  have "Some line = Some (of_int l / 10 ^ sc)" using parse_line_exact [OF l assms(5)] assms(6) by simp
  then have line: "line = of_int l / 10 ^ sc" by simp
  have k: "''spread'' \<in> {''spread'', ''total''}" and l': "parseLineToFixedPoint (js_get opts ''line'') = Some (l, sc)"
    using l assms(4) by simp_all
  note b = built_line [OF assms(1,2) k assms(3) l']
  have "p = JObj [(''metric'', JStr ''margin''), (''op'', JStr ''>''), (''operand'', JInt (- l)), (''scale'', JInt (int sc)), (''subject'', JStr s)]"
    using conjunct2 [OF b] assms(7) by (simp add: opt_member_def)
  note p = conjunct1 [OF b] this
  have s: "s \<noteq> []" using p(1) unfolding p(2) by (auto simp: validateResolutionPredicate_def Let_def is_object_def get_str_def METRICS_def blank_str_def strip_def split: if_splits option.splits)
  have v: "field_value ''margin'' p f = Some (self - other)"
    using assms(9-13) s unfolding p(2) field_value_def by (simp add: get_str_def)
  have "judgeLine (Some p) (Some f) = (if applyNumOp ''>'' ((self - other) * 10 ^ sc) (- l) = Some True then YES else NO)"
    using parse_scale [OF l] by (intro judge_numeric [OF _ assms(8) _ _ _ _ _ _ v])
      (simp_all add: p(2) is_object_def get_str_def get_int_def NUM_OPS_def scale_of_def pow10_def)
  then show ?thesis unfolding line scaled_less by (auto simp: applyNumOp_def left_diff_distrib)
qed

subsection \<open>Examples\<close>

definition ex_spread :: json where
  "ex_spread = JObj [(''kind'', JStr ''spread''), (''line'', JStr ''-3.5''), (''subject'', JStr ''LAL'')]"

definition ex_fields :: json where
  "ex_fields = JObj [(''winner_side'', JStr ''LAL''), (''home_team'', JStr ''LAL''), (''away_team'', JStr ''BOS''),
     (''home_score'', JInt 110), (''away_score'', JInt 106)]"

definition ex_pred :: json where
  "ex_pred = JObj [(''metric'', JStr ''margin''), (''op'', JStr ''>''), (''operand'', JInt 35), (''scale'', JInt 1), (''subject'', JStr ''LAL'')]"

lemma ex_build: "buildResolutionPredicate (Some ex_spread) = Inr ex_pred"
  by code_simp

lemma ex_valid: "validateResolutionPredicate (Some ex_pred) = None"
  by code_simp

lemma ex_fields_ok: "fields_ok ex_fields" "about_game ex_pred ex_fields"
  by code_simp+

lemma ex_line: "parseFloat ''-3.5'' = Some (- 7 / 2)" "strip ''-3.5'' = ''-3.5''"
  by code_simp+

lemma validated_predicate_decided_witness: "judgeLine (Some ex_pred) (Some ex_fields) \<in> {YES, NO}"
  by (rule validated_predicate_decided [OF ex_valid ex_fields_ok])

lemma half_line_no_push_witness: "judgeLine (Some (with_op ''=='' ex_pred)) (Some ex_fields) = NO"
proof -
  have "get_str ex_pred ''metric'' \<noteq> Some ''winner''" by (simp add: ex_pred_def get_str_def)
  then show ?thesis using half_line_no_push [OF ex_valid [unfolded ex_pred_def] _ ex_fields_ok(1) ex_fields_ok(2) [unfolded ex_pred_def]]
    by (simp add: ex_pred_def)
qed

text \<open>Giving 3.5 points and winning by 4 covers.\<close>

lemma spread_covers_witness: "judgeLine (Some ex_pred) (Some ex_fields) = YES"
  using spread_covers [OF ex_build, of "''-3.5''" "- 7 / 2" "''LAL''" ex_fields 110 106 "''LAL''" "''BOS''" 110 106] ex_line
  by (simp add: ex_spread_def ex_fields_def get_int_def get_str_def is_object_def subjectScore_def)

end
