(* ===== verification/Market_Commit.thy ===== *)
theory Market_Commit
  imports Judgeline Payout_Root Committee
begin

section \<open>What a market commits to\<close>

text \<open>
  The commit functions of \<open>kasia-console/src/lib/pool-shard-settle.mjs\<close>: a market's predicate, fee
  recipients and fee rules are hashed into one slot of its redeem script.  \<open>H\<close> is blake2b with 32 bytes.  The
  slot is read from the script that is spent, so that a settler cannot replace what the members judge by.
\<close>

definition json_hash :: "(buf \<Rightarrow> buf) \<Rightarrow> json \<Rightarrow> hexstr" where
  "json_hash H j = hex_encode (H (str_bytes (canonicalPredicate j)))"

text \<open>\<open>x ? String(x).toLowerCase() : null\<close>\<close>

definition lower_or_null :: "string option \<Rightarrow> json" where
  "lower_or_null x = (case x of None \<Rightarrow> JNull | Some t \<Rightarrow> if t = [] then JNull else JStr (toLowerCase t))"

definition or_null :: "json option \<Rightarrow> json" where
  "or_null x = (case x of None \<Rightarrow> JNull | Some j \<Rightarrow> j)"

definition market_preimage :: "json option \<Rightarrow> string option \<Rightarrow> string option \<Rightarrow> json" where
  "market_preimage predicate brokerPk introducerPk =
    JObj [(''fee_recipients'', JObj [(''broker'', lower_or_null brokerPk), (''introducer'', lower_or_null introducerPk)]),
          (''predicate'', or_null predicate)]"

definition computeMarketCommit :: "(buf \<Rightarrow> buf) \<Rightarrow> json option \<Rightarrow> string option \<Rightarrow> string option \<Rightarrow> hexstr" where
  "computeMarketCommit H predicate brokerPk introducerPk = json_hash H (market_preimage predicate brokerPk introducerPk)"

text \<open>Of an absent predicate there is no text, and the hash throws (\<open>None\<close>).\<close>

definition computePredicateCommit :: "(buf \<Rightarrow> buf) \<Rightarrow> json option \<Rightarrow> hexstr option" where
  "computePredicateCommit H predicate = map_option (json_hash H) predicate"

datatype commit_error = BadRules fee_error | HashMissing | RulesNotJson

definition v2_preimage :: "hexstr \<Rightarrow> json option \<Rightarrow> string \<Rightarrow> json" where
  "v2_preimage feeRulesCommit predicate marketMetadataHash =
    (if js_present predicate then JObj [(''fee_rules_commit'', JStr feeRulesCommit), (''predicate'', the predicate)]
     else JObj [(''fee_rules_commit'', JStr feeRulesCommit), (''market_metadata_hash'', JStr (toLowerCase marketMetadataHash))])"

definition computeMarketCommitV2 :: "(buf \<Rightarrow> buf) \<Rightarrow> json \<Rightarrow> json option \<Rightarrow> string option \<Rightarrow> commit_error + hexstr" where
  "computeMarketCommitV2 H feeRules predicate marketMetadataHash =
    (case computeFeeRulesCommit H feeRules of
       Inl e \<Rightarrow> Inl (BadRules e)
     | Inr c \<Rightarrow>
       if js_present predicate then Inr (json_hash H (v2_preimage c predicate []))
       else (case marketMetadataHash of
           Some (a # h) \<Rightarrow> Inr (json_hash H (v2_preimage c predicate (a # h)))
         | _ \<Rightarrow> Inl HashMissing))"

text \<open>A JSON column: absent (or the empty text), not parseable, or its value.\<close>

datatype json_col = Absent | Malformed | Parsed json

record market_row =
  mr_rule_spec :: json_col
  mr_fee_rules :: json_col
  mr_broker_pk :: "string option"
  mr_introducer_pk :: "string option"
  mr_metadata_hash :: "string option"

definition market_predicate :: "market_row \<Rightarrow> json option" where
  "market_predicate m = (case mr_rule_spec m of
     Parsed j \<Rightarrow> (let p = js_get j ''resolution_predicate'' in if js_truthy p then p else None)
   | _ \<Rightarrow> None)"

definition deriveMarketPredicateCommit :: "(buf \<Rightarrow> buf) \<Rightarrow> market_row \<Rightarrow> commit_error + hexstr option" where
  "deriveMarketPredicateCommit H m =
    (let predicate = market_predicate m in
     case mr_fee_rules m of
       Parsed fr \<Rightarrow> map_sum id Some (computeMarketCommitV2 H fr predicate (mr_metadata_hash m))
     | Malformed \<Rightarrow> Inl RulesNotJson
     | Absent \<Rightarrow>
       if predicate = None then Inr (mr_metadata_hash m)
       else Inr (Some (computeMarketCommit H predicate (mr_broker_pk m) (mr_introducer_pk m))))"

subsection \<open>The commit identifies its preimage\<close>

lemma json_hash_eq:
  assumes "json_hash H a = json_hash H b"
  shows "canonicalPredicate a = canonicalPredicate b \<or> collides H [str_bytes (canonicalPredicate a)] [str_bytes (canonicalPredicate b)]"
proof -
  have "H (str_bytes (canonicalPredicate a)) = H (str_bytes (canonicalPredicate b))"
    using assms unfolding json_hash_def by (simp add: hex_encode_inj)
  then show ?thesis using str_bytes_inj by (auto simp: collides_def)
qed

text \<open>The collision that two different preimages of one commit are.\<close>

definition commit_collision :: "(buf \<Rightarrow> buf) \<Rightarrow> json \<Rightarrow> json \<Rightarrow> bool" where
  "commit_collision H a b = collides H [str_bytes (canonicalPredicate a)] [str_bytes (canonicalPredicate b)]"

lemma json_hash_norm:
  assumes "json_hash H a = json_hash H b" "json_wf a" "json_wf b"
  shows "json_norm a = json_norm b \<or> commit_collision H a b"
  using json_hash_eq [OF assms(1)] canonicalPredicate_inj [OF assms(2,3)] by (auto simp: commit_collision_def)

text \<open>Objects with equal normal forms have equal members up to normal form.\<close>

lemma norm_members:
  assumes "json_norm (JObj xs) = json_norm (JObj ys)" "distinct (map fst xs)" "distinct (map fst ys)"
  shows "map_option json_norm (js_get (JObj xs) k) = map_option json_norm (js_get (JObj ys) k)"
  using js_get_norm [OF assms(2), of k] js_get_norm [OF assms(3), of k] assms(1) by simp

lemma lower_or_null_norm [simp]: "json_norm (lower_or_null x) = lower_or_null x"
  by (simp add: lower_or_null_def split: option.split)

lemma lower_or_null_wf [simp]: "json_wf (lower_or_null x)"
  by (simp add: lower_or_null_def split: option.split)

lemma market_preimage_wf: "json_wf (or_null p) \<Longrightarrow> json_wf (market_preimage p b i)"
  by (simp add: market_preimage_def)

lemma market_preimage_norm:
  assumes "json_norm (market_preimage p b i) = json_norm (market_preimage p' b' i')"
  shows "json_norm (or_null p) = json_norm (or_null p') \<and> lower_or_null b = lower_or_null b' \<and> lower_or_null i = lower_or_null i'"
proof -
  note m = norm_members [OF assms [unfolded market_preimage_def]]
  have "json_norm (or_null p) = json_norm (or_null p')" using m [of "''predicate''"] by simp
  moreover have f: "json_norm (JObj [(''broker'', lower_or_null b), (''introducer'', lower_or_null i)])
      = json_norm (JObj [(''broker'', lower_or_null b'), (''introducer'', lower_or_null i')])"
    using m [of "''fee_recipients''"] by simp
  note n = norm_members [OF f]
  have "lower_or_null b = lower_or_null b'" using n [of "''broker''"] by simp
  moreover have "lower_or_null i = lower_or_null i'" using n [of "''introducer''"] by simp
  ultimately show ?thesis by blast
qed

subsection \<open>The judge sees the normal form only\<close>

fun plain_keys :: "json \<Rightarrow> bool" where
  "plain_keys (JObj kvs) = distinct (map fst kvs)"
| "plain_keys _ = True"

lemma norm_object: "json_norm a = json_norm b \<Longrightarrow> is_object (Some a) = is_object (Some b)"
  by (cases a; cases b) (simp_all add: is_object_def)

lemma get_str_norm: "map_option json_norm (js_get a k) = map_option json_norm (js_get b k) \<Longrightarrow> get_str a k = get_str b k"
  unfolding get_str_def
  by (cases "js_get a k"; cases "js_get b k"; simp; rename_tac x y; case_tac x; case_tac y; simp)

lemma get_int_norm: "map_option json_norm (js_get a k) = map_option json_norm (js_get b k) \<Longrightarrow> get_int a k = get_int b k"
  unfolding get_int_def
  by (cases "js_get a k"; cases "js_get b k"; simp; rename_tac x y; case_tac x; case_tac y; simp)

lemma pow10_norm: "map_option json_norm x = map_option json_norm y \<Longrightarrow> pow10 x = pow10 y"
  by (cases x; cases y; simp; rename_tac v w; case_tac v; case_tac w; simp add: pow10_def)

lemma norm_get:
  assumes "json_norm a = json_norm b" "plain_keys a" "plain_keys b"
  shows "map_option json_norm (js_get a k) = map_option json_norm (js_get b k)"
proof (cases a)
  case (JObj xs)
  then obtain ys where "b = JObj ys" using assms(1) by (cases b) simp_all
  then show ?thesis using norm_members [of xs ys k] assms JObj by simp
next
  case (JArr xs)
  then show ?thesis using assms(1) by (cases b) simp_all
qed (use assms(1) in \<open>cases b; simp\<close>)+

lemma get_str_iff: "js_get p k = Some (JStr s) \<longleftrightarrow> get_str p k = Some s"
  by (simp add: get_str_def split: option.splits json.splits)

lemma scale_norm:
  assumes "json_norm a = json_norm b" "plain_keys a" "plain_keys b"
  shows "pow10 (scale_of a) = pow10 (scale_of b)"
proof (rule pow10_norm)
  show "map_option json_norm (scale_of a) = map_option json_norm (scale_of b)"
    using norm_get [OF assms, of "''scale''"]
    by (cases "js_get a ''scale''"; cases "js_get b ''scale''") (simp_all add: scale_of_def)
qed

lemma judgeLine_norm:
  assumes "json_norm a = json_norm b" "plain_keys a" "plain_keys b"
  shows "judgeLine (Some a) f = judgeLine (Some b) f"
proof -
  note n = norm_get [OF assms]
  have o: "is_object (Some a) = is_object (Some b)" by (rule norm_object [OF assms(1)])
  have st: "get_str a = get_str b" by (rule ext) (rule get_str_norm [OF n])
  have it: "get_int a = get_int b" by (rule ext) (rule get_int_norm [OF n])
  have fv: "field_value m a g = field_value m b g" for m g by (simp add: field_value_def st)
  have jw: "judge_winner a g = judge_winner b g" for g by (simp add: judge_winner_def st get_str_iff)
  show ?thesis
    by (simp only: judgeLine_def Let_def o st it fv jw scale_norm [OF assms] option.sel)
qed

subsection \<open>What passes the hash check\<close>

lemma get_str_obj: "get_str (JObj kvs) k = (case map_of kvs k of Some (JStr s) \<Rightarrow> Some s | _ \<Rightarrow> None)"
  by (simp add: get_str_def)

lemma judge_no_metric: "get_str p ''metric'' = None \<Longrightarrow> judgeLine (Some p) f = ABSTAIN"
  by (simp add: judgeLine_def Let_def)

lemma judge_preimages:
  "judgeLine (Some (market_preimage p b i)) f = ABSTAIN" "judgeLine (Some (v2_preimage c q h)) f = ABSTAIN"
  by (simp_all add: judge_no_metric market_preimage_def v2_preimage_def get_str_obj)

lemma market_binds:
  assumes "computeMarketCommit H (Some p) b i = computeMarketCommit H (Some q) b' i'" "json_wf p" "json_wf q"
  shows "json_norm p = json_norm q \<and> lower_or_null b = lower_or_null b' \<and> lower_or_null i = lower_or_null i'
    \<or> commit_collision H (market_preimage (Some p) b i) (market_preimage (Some q) b' i')"
proof -
  have wf: "json_wf (market_preimage (Some p) b i)" "json_wf (market_preimage (Some q) b' i')"
    using assms(2,3) by (simp_all add: market_preimage_wf or_null_def)
  from json_hash_norm [OF assms(1) [unfolded computeMarketCommit_def] wf] show ?thesis
  proof
    assume "json_norm (market_preimage (Some p) b i) = json_norm (market_preimage (Some q) b' i')"
    from market_preimage_norm [OF this] show ?thesis by (simp only: or_null_def option.case) simp
  qed simp
qed

text \<open>A preimage with other member names is never a market's preimage.\<close>

lemma preimage_kinds: "json_norm (market_preimage p b i) \<noteq> json_norm (v2_preimage c q h)"
proof
  assume e: "json_norm (market_preimage p b i) = json_norm (v2_preimage c q h)"
  have "plain_keys (market_preimage p b i)" "plain_keys (v2_preimage c q h)"
    by (simp_all add: market_preimage_def v2_preimage_def)
  from norm_get [OF e this, of "''fee_recipients''"] show False
    by (simp add: market_preimage_def v2_preimage_def split: if_splits)
qed

subsection \<open>Properties\<close>

text \<open>The commit of a fee market binds what its members judge and pay: two predicates with one commit give the same
  verdict on every evidence, with the same broker and introducer, or their preimages collide.\<close>
theorem market_commit_binds:
  assumes "computeMarketCommit H (Some p) b i = computeMarketCommit H (Some q) b' i'" "json_wf p" "json_wf q" "plain_keys p" "plain_keys q"
  shows "(\<forall>f. judgeLine (Some p) f = judgeLine (Some q) f) \<and> lower_or_null b = lower_or_null b' \<and> lower_or_null i = lower_or_null i'
    \<or> commit_collision H (market_preimage (Some p) b i) (market_preimage (Some q) b' i')"
  using market_binds [OF assms(1-3)] judgeLine_norm [OF _ assms(4,5)] by blast

theorem market_commit_binds_witness:
  "\<forall>f. judgeLine (Some (JObj [(''metric'', JStr ''total''), (''op'', JStr ''>''), (''operand'', JInt 395), (''scale'', JInt 1)])) f
     = judgeLine (Some (JObj [(''scale'', JInt 1), (''operand'', JInt 395), (''op'', JStr ''>''), (''metric'', JStr ''total'')])) f"
proof -
  let ?p = "JObj [(''metric'', JStr ''total''), (''op'', JStr ''>''), (''operand'', JInt 395), (''scale'', JInt 1)]"
  let ?q = "JObj [(''scale'', JInt 1), (''operand'', JInt 395), (''op'', JStr ''>''), (''metric'', JStr ''total'')]"
  have "canonicalPredicate (market_preimage (Some ?p) (Some ''aB'') None) = canonicalPredicate (market_preimage (Some ?q) (Some ''Ab'') None)"
    by code_simp
  then have "computeMarketCommit (\<lambda>x. x) (Some ?p) (Some ''aB'') None = computeMarketCommit (\<lambda>x. x) (Some ?q) (Some ''Ab'') None"
    by (simp only: computeMarketCommit_def json_hash_def)
  from market_commit_binds [OF this] show ?thesis by (simp add: commit_collision_def collides_def)
qed

text \<open>Hiding the fee recipients or the fee rules of a market never yields a verdict: a bare predicate with the commit of
  a market that has them makes the judge abstain, or its text and the market's preimage collide.\<close>
theorem hidden_rules_abstain:
  assumes "computePredicateCommit H (Some w) = Some (json_hash H x)" "x = market_preimage (Some p) b i \<or> x = v2_preimage c (Some p) h"
    and "json_wf w" "json_wf p" "plain_keys w"
  shows "(\<forall>f. judgeLine (Some w) f = ABSTAIN) \<or> commit_collision H w x"
proof -
  have x: "json_wf x" "plain_keys x" using assms(2,4) by (auto simp: market_preimage_def v2_preimage_def or_null_def)
  have "json_hash H w = json_hash H x" using assms(1) by (simp add: computePredicateCommit_def)
  from json_hash_norm [OF this assms(3) x(1)] show ?thesis
  proof
    assume "json_norm w = json_norm x"
    from judgeLine_norm [OF this assms(5) x(2)] show ?thesis using assms(2) judge_preimages by auto
  qed blast
qed

theorem hidden_rules_abstain_witness:
  "\<forall>f. judgeLine (Some (market_preimage (Some (JObj [])) (Some ''ab'') None)) f = ABSTAIN"
proof -
  let ?w = "market_preimage (Some (JObj [])) (Some ''ab'') None"
  have "json_wf ?w" "plain_keys ?w" by (simp_all add: market_preimage_def or_null_def)
  then show ?thesis
    using hidden_rules_abstain [of "\<lambda>x. x" ?w ?w "JObj []" "Some ''ab''" None] by (simp add: computePredicateCommit_def commit_collision_def collides_def)
qed

end
