(* ===== verification/Close_Binding.thy ===== *)
theory Close_Binding
  imports Shards Market_Commit
begin

section \<open>What a signed close transaction commits to\<close>

text \<open>
  The byte level of \<open>kasia-console/src/lib/bshard-close-enforce.mjs\<close>: the state of a payout shard lives at
  fixed offsets of its redeem script, a close is a splice of the new state into the script that is spent,
  and an output commits to the splice by the hash in its script public key.  The offsets are those of the
  compiled \<open>PayoutShard\<close> and \<open>PayoutShardV2\<close> contracts that the code pins.  \<open>JP\<close> is \<open>JSON.parse\<close> (\<open>None\<close> where it
  throws), \<open>H\<close> is blake2b with 32 bytes.
\<close>

subsection \<open>Integers\<close>

text \<open>\<open>_i64LE\<close>: eight bytes of the magnitude, the sign in the top bit of the last.\<close>

definition mag_i64LE :: "int \<Rightarrow> buf option" where
  "mag_i64LE n = (let mag = \<bar>n\<bar> in
     if 2 ^ 63 \<le> mag then None
     else (let b = map (\<lambda>i. word_of_int (mag div 256 ^ i)) [0..<8] in
       Some (if n < 0 then b[7 := b ! 7 OR 0x80] else b)))"

text \<open>\<open>readBigInt64LE\<close>: two's complement.\<close>

definition readBigInt64LE :: "buf \<Rightarrow> nat \<Rightarrow> int" where
  "readBigInt64LE b off = (let u = int (le_val (take 8 (drop off b))) in if u < 2 ^ 63 then u else u - 2 ^ 64)"

definition push_data :: "buf \<Rightarrow> buf" where
  "push_data b = of_nat (length b) # b"

definition enforce_spliceLeafState :: "hexstr \<Rightarrow> leaf_state \<Rightarrow> hexstr option" where
  "enforce_spliceLeafState baseRedeemHex st =
    (case (mag_i64LE (local_yes st), mag_i64LE (local_no st), mag_i64LE (ls_count st), mag_i64LE (pool_value st)) of
       (Some y, Some n, Some c, Some p) \<Rightarrow>
         (let stateBytes = push_data y @ push_data n @ push_data c @ push_data p; redeem = hex_decode baseRedeemHex
          in Some (hex_encode (take 1 redeem @ stateBytes @ drop (1 + length stateBytes) redeem)))
     | _ \<Rightarrow> None)"

subsection \<open>Splices of the payout state\<close>

datatype splice_error = RootNot32 nat | BetsRootNot32 nat | RefundRootNot32 nat | RedeemTooShort nat | Int64Range

definition PS_STATE_START :: nat where "PS_STATE_START = 1"

definition i64_push :: "int \<Rightarrow> splice_error + buf" where
  "i64_push v = (case mag_i64LE v of None \<Rightarrow> Inl Int64Range | Some b \<Rightarrow> Inr (0x08 # b))"

definition seg :: "buf \<Rightarrow> nat \<Rightarrow> nat \<Rightarrow> buf" where
  "seg b i j = take (j - i) (drop i b)"

definition splicePayoutCloseRedeem :: "hexstr \<Rightarrow> hexstr \<Rightarrow> splice_error + hexstr" where
  "splicePayoutCloseRedeem psRedeemHex newRootHex =
    (let redeem = hex_decode psRedeemHex; r = hex_decode (strip_0x newRootHex);
         closedOff = PS_STATE_START + 9; rootOff = PS_STATE_START + 18 in
     if length r \<noteq> 32 then Inl (RootNot32 (length r))
     else if length redeem < rootOff + 33 then Inl (RedeemTooShort (length redeem))
     else (case i64_push 1 of Inl e \<Rightarrow> Inl e | Inr closedField \<Rightarrow>
       Inr (hex_encode (take closedOff redeem @ closedField @ seg redeem (closedOff + 9) rootOff @ (0x20 # r)
         @ drop (rootOff + 33) redeem))))"

definition p2shSpkHex :: "(buf \<Rightarrow> buf) \<Rightarrow> hexstr \<Rightarrow> hexstr" where
  "p2shSpkHex H redeemHex = toLowerCase (''0000aa20'' @ hex_encode (H (hex_decode redeemHex)) @ ''87'')"

definition readPsConsolidatedPool :: "hexstr \<Rightarrow> int option" where
  "readPsConsolidatedPool psRedeemHex = (let b = hex_decode psRedeemHex in
     if length b < PS_STATE_START + 9 then None else Some (readBigInt64LE b (PS_STATE_START + 1)))"

definition PSV2_CLOSED_OFF :: nat where "PSV2_CLOSED_OFF = PS_STATE_START + 9"
definition PSV2_PAYOUTROOT_OFF :: nat where "PSV2_PAYOUTROOT_OFF = PS_STATE_START + 18"
definition PSV2_ATTESTEDWINNER_OFF :: nat where "PSV2_ATTESTEDWINNER_OFF = PS_STATE_START + 204"
definition PSV2_ATTESTEDATMS_OFF :: nat where "PSV2_ATTESTEDATMS_OFF = PS_STATE_START + 213"
definition PSV2_BETSROOT_OFF :: nat where "PSV2_BETSROOT_OFF = PS_STATE_START + 222"
definition PSV2_REFUNDROOT_OFF :: nat where "PSV2_REFUNDROOT_OFF = PS_STATE_START + 255"
definition PSV2_STATE_END_OFF :: nat where "PSV2_STATE_END_OFF = PS_STATE_START + 288"

lemmas psv2_offs = PS_STATE_START_def PSV2_CLOSED_OFF_def PSV2_PAYOUTROOT_OFF_def PSV2_ATTESTEDWINNER_OFF_def
  PSV2_ATTESTEDATMS_OFF_def PSV2_BETSROOT_OFF_def PSV2_REFUNDROOT_OFF_def PSV2_STATE_END_OFF_def

record close_v2 =
  cv_payoutRoot :: hexstr
  cv_winner :: int
  cv_betsRoot :: hexstr
  cv_refundRoot :: hexstr
  cv_atMs :: int

definition splicePayoutV2CloseRedeem :: "hexstr \<Rightarrow> close_v2 \<Rightarrow> splice_error + hexstr" where
  "splicePayoutV2CloseRedeem psv2RedeemHex c =
    (let redeem = hex_decode psv2RedeemHex; r = hex_decode (strip_0x (cv_payoutRoot c));
         betsRoot = hex_decode (strip_0x (cv_betsRoot c)); refundRoot = hex_decode (strip_0x (cv_refundRoot c)) in
     if length r \<noteq> 32 then Inl (RootNot32 (length r))
     else if length betsRoot \<noteq> 32 then Inl (BetsRootNot32 (length betsRoot))
     else if length refundRoot \<noteq> 32 then Inl (RefundRootNot32 (length refundRoot))
     else if length redeem < PSV2_STATE_END_OFF then Inl (RedeemTooShort (length redeem))
     else (case (i64_push 1, i64_push (cv_winner c), i64_push (cv_atMs c)) of
       (Inr closedField, Inr winnerField, Inr atMsField) \<Rightarrow>
         Inr (hex_encode (take PSV2_CLOSED_OFF redeem @ closedField
           @ seg redeem (PSV2_CLOSED_OFF + 9) PSV2_PAYOUTROOT_OFF @ (0x20 # r)
           @ seg redeem (PSV2_PAYOUTROOT_OFF + 33) PSV2_ATTESTEDWINNER_OFF @ winnerField
           @ seg redeem (PSV2_ATTESTEDWINNER_OFF + 9) PSV2_ATTESTEDATMS_OFF @ atMsField
           @ seg redeem (PSV2_ATTESTEDATMS_OFF + 9) PSV2_BETSROOT_OFF @ (0x20 # betsRoot)
           @ seg redeem (PSV2_BETSROOT_OFF + 33) PSV2_REFUNDROOT_OFF @ (0x20 # refundRoot)
           @ drop (PSV2_REFUNDROOT_OFF + 33) redeem))
     | _ \<Rightarrow> Inl Int64Range))"

subsection \<open>Reading an attested state\<close>

definition ATTESTED_AT_MS_MIN :: int where "ATTESTED_AT_MS_MIN = 1099511627776"
definition ATTESTED_AT_MS_MAX :: int where "ATTESTED_AT_MS_MAX = 140737488355328"

datatype read_error = ReadTooShort nat | NotClosed int | WinnerInvalid int | AtMsRange int

record attested_state =
  as_pool :: int
  as_payoutRoot :: hexstr
  as_winner :: int
  as_atMs :: int
  as_betsRoot :: hexstr
  as_refundRoot :: hexstr

definition readPayoutShardV2AttestedState :: "hexstr \<Rightarrow> read_error + attested_state" where
  "readPayoutShardV2AttestedState psv2RedeemHex =
    (let b = hex_decode psv2RedeemHex in
     if length b < PSV2_STATE_END_OFF then Inl (ReadTooShort (length b))
     else (let closed = readBigInt64LE b (PSV2_CLOSED_OFF + 1);
               winner = readBigInt64LE b (PSV2_ATTESTEDWINNER_OFF + 1);
               atMs = readBigInt64LE b (PSV2_ATTESTEDATMS_OFF + 1) in
       if closed \<noteq> 1 then Inl (NotClosed closed)
       else if winner \<noteq> 0 \<and> winner \<noteq> 1 then Inl (WinnerInvalid winner)
       else if atMs < ATTESTED_AT_MS_MIN \<or> ATTESTED_AT_MS_MAX \<le> atMs then Inl (AtMsRange atMs)
       else Inr \<lparr> as_pool = readBigInt64LE b (PS_STATE_START + 1),
         as_payoutRoot = hex_encode (seg b (PSV2_PAYOUTROOT_OFF + 1) (PSV2_PAYOUTROOT_OFF + 1 + 32)),
         as_winner = winner, as_atMs = atMs,
         as_betsRoot = hex_encode (seg b (PSV2_BETSROOT_OFF + 1) (PSV2_BETSROOT_OFF + 1 + 32)),
         as_refundRoot = hex_encode (seg b (PSV2_REFUNDROOT_OFF + 1) (PSV2_REFUNDROOT_OFF + 1 + 32)) \<rparr>))"

subsection \<open>The outputs of the signed transaction\<close>

datatype bind_error = TxParse | TxNull | TxVersion "json option" | SpliceFails splice_error | NoCovenantOutput | OutputDiffers "json option"

definition cov_outputs :: "json \<Rightarrow> json list" where
  "cov_outputs tx = (case js_get tx ''outputs'' of
     Some (JArr os) \<Rightarrow> filter (\<lambda>o'. js_truthy (Some o') \<and> js_truthy (js_get o' ''covenant'')
         \<and> js_truthy (js_get (the (js_get o' ''covenant'')) ''covenantId'')) os
   | _ \<Rightarrow> [])"

text \<open>\<open>String(o.scriptPublicKey || '').toLowerCase()\<close>\<close>

definition out_spk :: "json \<Rightarrow> string" where
  "out_spk o' = (let s = js_get o' ''scriptPublicKey'' in toLowerCase (if js_truthy s then js_String (the s) else []))"

text \<open>\<open>Number.isInteger(v) && v >= 1\<close>: JavaScript prints the integers from \<open>1e+21\<close> on with a positive
  exponent, and every number it prints so is an integer.\<close>

definition version_ok :: "json \<Rightarrow> bool" where
  "version_ok tx = (case js_get tx ''version'' of
     Some (JInt v) \<Rightarrow> 1 \<le> v
   | Some (JFrac t) \<Rightarrow> CHR ''+'' \<in> set t \<and> hd t \<noteq> CHR ''-''
   | _ \<Rightarrow> False)"

text \<open>The common tail of the two bindings: every covenant output carries the expected script.\<close>

definition bind_outputs :: "(buf \<Rightarrow> buf) \<Rightarrow> (string \<Rightarrow> json option) \<Rightarrow> string \<Rightarrow> splice_error + hexstr \<Rightarrow> bind_error + (hexstr \<times> nat)" where
  "bind_outputs H JP txSafeJson spliced =
    (case JP txSafeJson of None \<Rightarrow> Inl TxParse | Some JNull \<Rightarrow> Inl TxNull | Some tx \<Rightarrow>
       if \<not> version_ok tx then Inl (TxVersion (js_get tx ''version''))
       else (case spliced of Inl e \<Rightarrow> Inl (SpliceFails e) | Inr redeem \<Rightarrow>
         (let expectedSpk = p2shSpkHex H redeem; covOuts = cov_outputs tx in
          if covOuts = [] then Inl NoCovenantOutput
          else (case find (\<lambda>o'. out_spk o' \<noteq> expectedSpk) covOuts of
              Some o' \<Rightarrow> Inl (OutputDiffers (js_get o' ''scriptPublicKey''))
            | None \<Rightarrow> Inr (expectedSpk, length covOuts)))))"

definition verifyClosePayoutRootBinding ::
  "(buf \<Rightarrow> buf) \<Rightarrow> (string \<Rightarrow> json option) \<Rightarrow> string \<Rightarrow> hexstr \<Rightarrow> hexstr \<Rightarrow> bind_error + (hexstr \<times> nat)" where
  "verifyClosePayoutRootBinding H JP txSafeJson psRedeemHex reDerivedRoot =
    bind_outputs H JP txSafeJson (splicePayoutCloseRedeem psRedeemHex reDerivedRoot)"

definition verifyClosePayoutV2Binding ::
  "(buf \<Rightarrow> buf) \<Rightarrow> (string \<Rightarrow> json option) \<Rightarrow> string \<Rightarrow> hexstr \<Rightarrow> close_v2 \<Rightarrow> bind_error + (hexstr \<times> nat)" where
  "verifyClosePayoutV2Binding H JP txSafeJson psv2RedeemHex c =
    bind_outputs H JP txSafeJson (splicePayoutV2CloseRedeem psv2RedeemHex c)"

subsection \<open>The two integer encoders agree\<close>

lemma serializeI64_abs:
  "serializeI64 n (Some k) = (case serializeI64 \<bar>n\<bar> (Some k) of Inl _ \<Rightarrow> Inl (NumberTooLong n k)
     | Inr b \<Rightarrow> Inr (if n < 0 then b[length b - 1 := last b OR 0x80] else b))"
  by (simp add: serializeI64_def Let_def)

lemma serializeI64_nonneg:
  assumes "0 \<le> n"
  shows "serializeI64 n (Some 8) = (if 2 ^ 63 \<le> n then Inl (NumberTooLong n 8)
    else Inr (map (\<lambda>i. word_of_int (n div 256 ^ i)) [0..<8]))"
proof (cases "2 ^ 63 \<le> n")
  case True
  have "serializeI64 n (Some 8) \<noteq> Inr b" for b
  proof
    assume b: "serializeI64 n (Some 8) = Inr b"
    then have "n < 2 ^ 63" using i64_range [of b] serializeI64_roundtrip [OF b] by simp
    then show False using True by simp
  qed
  then show ?thesis using True by (cases "serializeI64 n (Some 8)") (auto simp: serializeI64_def Let_def split: if_splits)
next
  case False
  then obtain b where b: "serializeI64 n (Some 8) = Inr b"
    using serializeI64_fits [of n 7] assms by (auto simp: numeral_eq_Suc)
  then have "i64LE n = Some b" using ser_i64LE [of n b] assms by (simp add: ser_Inr)
  then show ?thesis using b False by (simp add: i64LE_def split: if_splits)
qed

lemma last_map8: "last (map f [0..<8]) = f (7::nat)"
proof -
  have "[0..<8] \<noteq> ([] :: nat list)" by simp
  then show ?thesis by (simp add: last_map last_upt)
qed

lemma mag_i64LE_serialize: "mag_i64LE n = right_opt (serializeI64 n (Some 8))"
proof -
  let ?b = "map (\<lambda>i. word_of_int (\<bar>n\<bar> div 256 ^ i)) [0..<8] :: buf"
  have "length ?b = 8" by simp
  then show ?thesis
    by (subst serializeI64_abs) (simp add: serializeI64_nonneg mag_i64LE_def Let_def right_opt_def last_map8 del: upt_Suc)
qed

lemma i64_push_Inr: "i64_push v = Inr f \<longleftrightarrow> (\<exists>b. serializeI64 v (Some 8) = Inr b \<and> f = 8 # b)"
  by (auto simp: i64_push_def mag_i64LE_serialize right_opt_def split: sum.splits)

lemma i64_push_length: "i64_push v = Inr f \<Longrightarrow> length f = 9"
  using serializeI64_roundtrip(1) by (auto simp: i64_push_Inr)

lemma le_val_nonneg:
  assumes "serializeI64 v (Some 8) = Inr b" "0 \<le> v"
  shows "int (le_val b) = v" "v < 2 ^ 63"
proof -
  show "v < 2 ^ 63" using assms by (simp add: serializeI64_nonneg split: if_splits)
  show "int (le_val b) = v"
    using assms by (auto simp: serializeI64_def Let_def le_val_append ser_bytes_val split: if_splits)
qed

lemma read_pushed:
  assumes "b = pre @ f @ post" "i64_push v = Inr f" "0 \<le> v" "off = Suc (length pre)"
  shows "readBigInt64LE b off = v"
proof -
  obtain c where c: "serializeI64 v (Some 8) = Inr c" "f = 8 # c" using assms(2) by (auto simp: i64_push_Inr)
  have "take 8 (drop off b) = c" using serializeI64_roundtrip(1) [OF c(1)] by (simp add: assms(1,4) c(2))
  then show ?thesis using le_val_nonneg [OF c(1) assms(3)] by (simp add: readBigInt64LE_def Let_def)
qed

text \<open>A negative integer is written with its sign bit, so what is read is negative as well, though not the same.\<close>

lemma read_pushed_neg:
  assumes "b = pre @ f @ post" "i64_push v = Inr f" "v < 0" "off = Suc (length pre)"
  shows "readBigInt64LE b off < 0"
proof -
  obtain c where c: "serializeI64 v (Some 8) = Inr c" "f = 8 # c" using assms(2) by (auto simp: i64_push_Inr)
  note r = serializeI64_roundtrip [OF c(1)]
  have t: "take 8 (drop off b) = c" using r(1) by (simp add: assms(1,4) c(2))
  have ne: "c \<noteq> []" using r(1) by auto
  have "\<not> unat (last c) < 128" using i64_val_plain [OF ne] r(2) assms(3) by auto
  then have l: "128 \<le> unat (last c)" by simp
  have "le_val c = le_val (butlast c) + 256 ^ 7 * unat (last c)"
    using le_val_append [of "butlast c" "[last c]"] ne r(1) by simp
  then have "256 ^ 7 * 128 \<le> le_val c" using l by simp
  moreover have "le_val c < 256 ^ 8" using le_val_less [of c] r(1) by simp
  ultimately show ?thesis by (simp add: readBigInt64LE_def t Let_def)
qed

lemma seg_at: "b = pre @ x @ post \<Longrightarrow> i = length pre \<Longrightarrow> j = i + length x \<Longrightarrow> seg b i j = x"
  by (simp add: seg_def)

subsection \<open>The bytes of a splice\<close>

lemma splice_v1_bytes:
  assumes "splicePayoutCloseRedeem red r = Inr s"
  obtains one e where "i64_push 1 = Inr one" "length (hex_decode (strip_0x r)) = 32" "52 \<le> length (hex_decode red)"
    "hex_decode s = take 10 (hex_decode red) @ one @ (0x20 # hex_decode (strip_0x r)) @ drop 52 (hex_decode red)"
  using assms by (auto simp: splicePayoutCloseRedeem_def Let_def PS_STATE_START_def seg_def split: if_splits sum.splits)

lemma splice_v2_bytes:
  assumes "splicePayoutV2CloseRedeem red c = Inr s"
  obtains one w m where "i64_push 1 = Inr one" "i64_push (cv_winner c) = Inr w" "i64_push (cv_atMs c) = Inr m"
    "length (hex_decode (strip_0x (cv_payoutRoot c))) = 32" "length (hex_decode (strip_0x (cv_betsRoot c))) = 32"
    "length (hex_decode (strip_0x (cv_refundRoot c))) = 32" "289 \<le> length (hex_decode red)"
    "hex_decode s = take 10 (hex_decode red) @ one @ (0x20 # hex_decode (strip_0x (cv_payoutRoot c))) @ seg (hex_decode red) 52 205
       @ w @ m @ (0x20 # hex_decode (strip_0x (cv_betsRoot c))) @ (0x20 # hex_decode (strip_0x (cv_refundRoot c)))
       @ drop 289 (hex_decode red)"
proof -
  have *: "seg (hex_decode red) x x = []" for x by (simp add: seg_def)
  show ?thesis
    using assms * that by (auto simp: splicePayoutV2CloseRedeem_def Let_def psv2_offs split: if_splits sum.splits)
qed

definition low_root :: "hexstr \<Rightarrow> hexstr" where
  "low_root r = hex_encode (hex_decode (strip_0x r))"

lemma take_read:
  assumes "8 + off \<le> k" "k \<le> length b"
  shows "readBigInt64LE (take k b @ x) off = readBigInt64LE b off"
proof -
  have "take 8 (drop off (take k b @ x)) = take 8 (take (k - off) (drop off b) @ x)" using assms by (simp add: drop_take)
  also have "\<dots> = take 8 (drop off b)" using assms by (cases "length b - off \<le> k - off") (simp_all add: min_def)
  finally show ?thesis by (simp add: readBigInt64LE_def)
qed

text \<open>Reading the state a splice wrote.\<close>

lemma read_splice_v2:
  assumes s: "splicePayoutV2CloseRedeem red c = Inr s"
  shows "readPayoutShardV2AttestedState s = Inr st \<longleftrightarrow> (cv_winner c = 0 \<or> cv_winner c = 1)
    \<and> ATTESTED_AT_MS_MIN \<le> cv_atMs c \<and> cv_atMs c < ATTESTED_AT_MS_MAX
    \<and> st = \<lparr> as_pool = the (readPsConsolidatedPool red),
    as_payoutRoot = low_root (cv_payoutRoot c), as_winner = cv_winner c, as_atMs = cv_atMs c,
    as_betsRoot = low_root (cv_betsRoot c), as_refundRoot = low_root (cv_refundRoot c) \<rparr>"
proof -
  let ?b = "hex_decode s"
  obtain one w' m where f: "i64_push 1 = Inr one" "i64_push (cv_winner c) = Inr w'" "i64_push (cv_atMs c) = Inr m"
    and l: "length (hex_decode (strip_0x (cv_payoutRoot c))) = 32" "length (hex_decode (strip_0x (cv_betsRoot c))) = 32"
      "length (hex_decode (strip_0x (cv_refundRoot c))) = 32" "289 \<le> length (hex_decode red)"
    and b: "?b = take 10 (hex_decode red) @ one @ (0x20 # hex_decode (strip_0x (cv_payoutRoot c))) @ seg (hex_decode red) 52 205
       @ w' @ m @ (0x20 # hex_decode (strip_0x (cv_betsRoot c))) @ (0x20 # hex_decode (strip_0x (cv_refundRoot c)))
       @ drop 289 (hex_decode red)"
    using s by (rule splice_v2_bytes)
  note fl = f [THEN i64_push_length]
  have sg: "length (seg (hex_decode red) 52 205) = 153" using l(4) by (simp add: seg_def)
  have t10: "min (length (hex_decode red)) 10 = 10" using l(4) by simp
  note len = fl l sg t10
  have closed: "readBigInt64LE ?b 11 = 1" by (rule read_pushed [OF b f(1)]) (simp_all add: len)
  let ?R = "hex_decode (strip_0x (cv_payoutRoot c))" and ?S = "hex_decode (strip_0x (cv_betsRoot c))"
  let ?p = "take 10 (hex_decode red) @ one @ (0x20 # ?R) @ seg (hex_decode red) 52 205"
  let ?q = "(0x20 # ?S) @ (0x20 # hex_decode (strip_0x (cv_refundRoot c))) @ drop 289 (hex_decode red)"
  have b1: "?b = ?p @ w' @ (m @ ?q)" and b2: "?b = (?p @ w') @ m @ ?q" by (simp_all add: b)
  have winner: "0 \<le> cv_winner c \<Longrightarrow> readBigInt64LE ?b 206 = cv_winner c" by (rule read_pushed [OF b1 f(2)]) (simp_all add: len)
  have atMs: "0 \<le> cv_atMs c \<Longrightarrow> readBigInt64LE ?b 215 = cv_atMs c" by (rule read_pushed [OF b2 f(3)]) (simp_all add: len)
  have winner': "cv_winner c < 0 \<Longrightarrow> readBigInt64LE ?b 206 < 0" by (rule read_pushed_neg [OF b1 f(2)]) (simp_all add: len)
  have atMs': "cv_atMs c < 0 \<Longrightarrow> readBigInt64LE ?b 215 < 0" by (rule read_pushed_neg [OF b2 f(3)]) (simp_all add: len)
  have w: "readBigInt64LE ?b 206 = 0 \<or> readBigInt64LE ?b 206 = 1 \<longleftrightarrow> cv_winner c = 0 \<or> cv_winner c = 1"
    "cv_winner c = 0 \<or> cv_winner c = 1 \<Longrightarrow> readBigInt64LE ?b 206 = cv_winner c"
    using winner winner' by (cases "0 \<le> cv_winner c"; auto)+
  have t: "ATTESTED_AT_MS_MIN \<le> readBigInt64LE ?b 215 \<and> readBigInt64LE ?b 215 < ATTESTED_AT_MS_MAX
      \<longleftrightarrow> ATTESTED_AT_MS_MIN \<le> cv_atMs c \<and> cv_atMs c < ATTESTED_AT_MS_MAX"
    "ATTESTED_AT_MS_MIN \<le> cv_atMs c \<Longrightarrow> readBigInt64LE ?b 215 = cv_atMs c"
    using atMs atMs' by (cases "0 \<le> cv_atMs c"; auto simp: ATTESTED_AT_MS_MIN_def)+
  have pool: "readBigInt64LE ?b 2 = the (readPsConsolidatedPool red)"
    unfolding b using take_read [of 2 10 "hex_decode red"] l(4) by (simp add: readPsConsolidatedPool_def Let_def PS_STATE_START_def numeral_2_eq_2)
  have "seg ?b 20 52 = hex_decode (strip_0x (cv_payoutRoot c))"
    by (rule seg_at [where pre = "take 10 (hex_decode red) @ one @ [0x20]"]) (simp add: b, simp_all add: len)
  moreover have "seg ?b 224 256 = hex_decode (strip_0x (cv_betsRoot c))"
    by (rule seg_at [where pre = "take 10 (hex_decode red) @ one @ (0x20 # hex_decode (strip_0x (cv_payoutRoot c)))
        @ seg (hex_decode red) 52 205 @ w' @ m @ [0x20]"]) (simp add: b, simp_all add: len)
  moreover have "seg ?b 257 289 = hex_decode (strip_0x (cv_refundRoot c))"
    by (rule seg_at [where pre = "take 10 (hex_decode red) @ one @ (0x20 # hex_decode (strip_0x (cv_payoutRoot c)))
        @ seg (hex_decode red) 52 205 @ w' @ m @ (0x20 # hex_decode (strip_0x (cv_betsRoot c))) @ [0x20]"]) (simp add: b, simp_all add: len)
  moreover have "289 \<le> length ?b" unfolding b using l(4) sg fl l(1-3) by simp
  ultimately have e: "readPayoutShardV2AttestedState s =
     (if \<not> (readBigInt64LE ?b 206 = 0 \<or> readBigInt64LE ?b 206 = 1) then Inl (WinnerInvalid (readBigInt64LE ?b 206))
      else if \<not> (ATTESTED_AT_MS_MIN \<le> readBigInt64LE ?b 215 \<and> readBigInt64LE ?b 215 < ATTESTED_AT_MS_MAX) then Inl (AtMsRange (readBigInt64LE ?b 215))
      else Inr \<lparr> as_pool = the (readPsConsolidatedPool red), as_payoutRoot = low_root (cv_payoutRoot c), as_winner = readBigInt64LE ?b 206,
        as_atMs = readBigInt64LE ?b 215, as_betsRoot = low_root (cv_betsRoot c), as_refundRoot = low_root (cv_refundRoot c) \<rparr>)"
    by (auto simp add: readPayoutShardV2AttestedState_def Let_def psv2_offs closed pool [unfolded numeral_2_eq_2] low_root_def)
  show ?thesis unfolding e w(1) t(1) using w(2) t(2) by auto
qed

subsection \<open>One transaction, one state\<close>

lemma lower_hexdigit: "n < 16 \<Longrightarrow> lower_char (hexdigit n) = hexdigit n"
  by (auto simp: lower_char_def hexdigit_def of_char_of)

lemma lower_hex_encode [simp]: "toLowerCase (hex_encode b) = hex_encode b"
proof (induction b)
  case (Cons x b)
  have "unat x < 256" using unsigned_less [of x, where ?'a = nat] by simp
  then have "unat x div 16 < 16" by simp
  then show ?case using Cons by (simp add: hex_encode_def toLowerCase_def lower_hexdigit)
qed (simp add: hex_encode_def toLowerCase_def)

lemma p2shSpkHex_eq: "p2shSpkHex H a = p2shSpkHex H b \<longleftrightarrow> H (hex_decode a) = H (hex_decode b)"
proof -
  have app: "toLowerCase (x @ y) = toLowerCase x @ toLowerCase y" for x y by (simp add: toLowerCase_def)
  show ?thesis unfolding p2shSpkHex_def app lower_hex_encode by (simp only: append_same_eq same_append_eq hex_encode_inj)
qed

lemma bind_outputs_Inr:
  "bind_outputs H JP t sp = Inr (spk, n) \<longleftrightarrow> (\<exists>tx red. JP t = Some tx \<and> tx \<noteq> JNull \<and> version_ok tx \<and> sp = Inr red
     \<and> spk = p2shSpkHex H red \<and> cov_outputs tx \<noteq> [] \<and> n = length (cov_outputs tx) \<and> (\<forall>o' \<in> set (cov_outputs tx). out_spk o' = spk))"
  unfolding bind_outputs_def
  by (cases "JP t"; simp; rename_tac tx; case_tac tx; cases sp; simp add: Let_def find_None_iff split: option.split)
    (auto simp: find_None_iff find_Some_iff)

text \<open>Two acceptances of one transaction.\<close>

lemma bind_twice:
  assumes "bind_outputs H JP t sp = Inr x" "bind_outputs H JP t sp' = Inr y"
  obtains s s' where "sp = Inr s" "sp' = Inr s'" "H (hex_decode s) = H (hex_decode s')"
proof -
  obtain tx s where 1: "JP t = Some tx" "sp = Inr s" "cov_outputs tx \<noteq> []" "\<forall>o' \<in> set (cov_outputs tx). out_spk o' = p2shSpkHex H s"
    using assms(1) bind_outputs_Inr [of H JP t sp "fst x" "snd x"] by auto
  obtain s' where 2: "sp' = Inr s'" "\<forall>o' \<in> set (cov_outputs tx). out_spk o' = p2shSpkHex H s'"
    using assms(2) bind_outputs_Inr [of H JP t sp' "fst y" "snd y"] 1(1) by auto
  have "p2shSpkHex H s = p2shSpkHex H s'" using 1(3,4) 2(2) by (metis list.set_sel(1))
  then show ?thesis using that 1(2) 2(1) by (simp add: p2shSpkHex_eq)
qed

definition same_close :: "close_v2 \<Rightarrow> close_v2 \<Rightarrow> bool" where
  "same_close c d = (low_root (cv_payoutRoot c) = low_root (cv_payoutRoot d) \<and> low_root (cv_betsRoot c) = low_root (cv_betsRoot d)
     \<and> low_root (cv_refundRoot c) = low_root (cv_refundRoot d) \<and> cv_winner c = cv_winner d \<and> cv_atMs c = cv_atMs d)"

lemma splice_v1_inj:
  assumes "splicePayoutCloseRedeem red r = Inr s" "splicePayoutCloseRedeem red r' = Inr s'" "hex_decode s = hex_decode s'"
  shows "low_root r = low_root r'"
proof -
  obtain one where 1: "i64_push 1 = Inr one" "length (hex_decode (strip_0x r)) = 32"
    "hex_decode s = take 10 (hex_decode red) @ one @ (0x20 # hex_decode (strip_0x r)) @ drop 52 (hex_decode red)"
    using assms(1) by (rule splice_v1_bytes)
  obtain one' where 2: "i64_push 1 = Inr one'" "length (hex_decode (strip_0x r')) = 32"
    "hex_decode s' = take 10 (hex_decode red) @ one' @ (0x20 # hex_decode (strip_0x r')) @ drop 52 (hex_decode red)"
    using assms(2) by (rule splice_v1_bytes)
  show ?thesis using assms(3) 1 2 by (simp add: low_root_def)
qed

lemma splice_v2_inj:
  assumes "splicePayoutV2CloseRedeem red c = Inr s" "splicePayoutV2CloseRedeem red d = Inr s'" "hex_decode s = hex_decode s'"
  shows "same_close c d"
proof -
  obtain one w m where 1: "i64_push 1 = Inr one" "i64_push (cv_winner c) = Inr w" "i64_push (cv_atMs c) = Inr m"
    "length (hex_decode (strip_0x (cv_payoutRoot c))) = 32" "length (hex_decode (strip_0x (cv_betsRoot c))) = 32"
    "length (hex_decode (strip_0x (cv_refundRoot c))) = 32"
    "hex_decode s = take 10 (hex_decode red) @ one @ (0x20 # hex_decode (strip_0x (cv_payoutRoot c))) @ seg (hex_decode red) 52 205
       @ w @ m @ (0x20 # hex_decode (strip_0x (cv_betsRoot c))) @ (0x20 # hex_decode (strip_0x (cv_refundRoot c)))
       @ drop 289 (hex_decode red)"
    using assms(1) by (rule splice_v2_bytes)
  obtain one' w' m' where 2: "i64_push 1 = Inr one'" "i64_push (cv_winner d) = Inr w'" "i64_push (cv_atMs d) = Inr m'"
    "length (hex_decode (strip_0x (cv_payoutRoot d))) = 32" "length (hex_decode (strip_0x (cv_betsRoot d))) = 32"
    "length (hex_decode (strip_0x (cv_refundRoot d))) = 32"
    "hex_decode s' = take 10 (hex_decode red) @ one' @ (0x20 # hex_decode (strip_0x (cv_payoutRoot d))) @ seg (hex_decode red) 52 205
       @ w' @ m' @ (0x20 # hex_decode (strip_0x (cv_betsRoot d))) @ (0x20 # hex_decode (strip_0x (cv_refundRoot d)))
       @ drop 289 (hex_decode red)"
    using assms(2) by (rule splice_v2_bytes)
  have l: "length w = length w'" "length m = length m'" using 1(2,3) 2(2,3) i64_push_length by metis+
  have "hex_decode (strip_0x (cv_payoutRoot c)) = hex_decode (strip_0x (cv_payoutRoot d))"
    "hex_decode (strip_0x (cv_betsRoot c)) = hex_decode (strip_0x (cv_betsRoot d))"
    "hex_decode (strip_0x (cv_refundRoot c)) = hex_decode (strip_0x (cv_refundRoot d))" "w = w'" "m = m'"
    using assms(3) 1(1,4-7) 2(1,4-7) l by simp_all
  moreover have "cv_winner c = cv_winner d" "cv_atMs c = cv_atMs d"
    using 1(2,3) 2(2,3) calculation(4,5) serializeI64_inj by (auto simp: i64_push_Inr)
  ultimately show ?thesis by (simp add: same_close_def low_root_def)
qed

lemma splice_v2_ok:
  assumes "length (hex_decode (strip_0x (cv_payoutRoot c))) = 32" "length (hex_decode (strip_0x (cv_betsRoot c))) = 32"
    "length (hex_decode (strip_0x (cv_refundRoot c))) = 32" "289 \<le> length (hex_decode red)"
    "\<bar>cv_winner c\<bar> < 2 ^ 63" "\<bar>cv_atMs c\<bar> < 2 ^ 63"
  shows "\<exists>s. splicePayoutV2CloseRedeem red c = Inr s"
proof -
  have p: "\<exists>f. i64_push v = Inr f" if "\<bar>v\<bar> < 2 ^ 63" for v
    using that by (simp add: i64_push_def mag_i64LE_def Let_def)
  obtain one w m where "i64_push 1 = Inr one" "i64_push (cv_winner c) = Inr w" "i64_push (cv_atMs c) = Inr m"
    using p [of 1] p [OF assms(5)] p [OF assms(6)] by auto
  then show ?thesis using assms(1-4) by (simp add: splicePayoutV2CloseRedeem_def psv2_offs Let_def)
qed

lemma splice_v2_lower:
  assumes "low_root (cv_payoutRoot c) = low_root (cv_payoutRoot d)" "low_root (cv_betsRoot c) = low_root (cv_betsRoot d)"
    "low_root (cv_refundRoot c) = low_root (cv_refundRoot d)" "cv_winner c = cv_winner d" "cv_atMs c = cv_atMs d"
  shows "splicePayoutV2CloseRedeem red c = splicePayoutV2CloseRedeem red d"
proof -
  have e: "hex_decode (strip_0x (cv_payoutRoot c)) = hex_decode (strip_0x (cv_payoutRoot d))"
    "hex_decode (strip_0x (cv_betsRoot c)) = hex_decode (strip_0x (cv_betsRoot d))"
    "hex_decode (strip_0x (cv_refundRoot c)) = hex_decode (strip_0x (cv_refundRoot d))"
    using assms(1-3) by (simp_all add: low_root_def hex_encode_inj)
  show ?thesis unfolding splicePayoutV2CloseRedeem_def e assms(4,5) by (rule refl)
qed

subsection \<open>Properties\<close>

text \<open>The fixed-width encoder of the close agrees with the serialiser of the payout trees on every integer, negative
  ones included, and both refuse the same integers.\<close>
theorem close_integer_encoders_agree: "mag_i64LE n = right_opt (serializeI64 n (Some 8))"
  by (rule mag_i64LE_serialize)

text \<open>C37: a payout state that a close wrote reads back exactly when its winner is 0 or 1 and its time lies in the accepted range, and
  then as what was written: the roots, the winner and the time of the attestation, and the pool of the script that was spent.\<close>
theorem close_state_roundtrip:
  assumes "splicePayoutV2CloseRedeem red c = Inr s"
  shows "readPayoutShardV2AttestedState s = Inr st \<longleftrightarrow> (cv_winner c = 0 \<or> cv_winner c = 1)
    \<and> ATTESTED_AT_MS_MIN \<le> cv_atMs c \<and> cv_atMs c < ATTESTED_AT_MS_MAX
    \<and> st = \<lparr> as_pool = the (readPsConsolidatedPool red),
    as_payoutRoot = low_root (cv_payoutRoot c), as_winner = cv_winner c, as_atMs = cv_atMs c,
    as_betsRoot = low_root (cv_betsRoot c), as_refundRoot = low_root (cv_refundRoot c) \<rparr>"
  by (rule read_splice_v2 [OF assms])

definition ex_root :: "char \<Rightarrow> hexstr" where
  "ex_root c = replicate 64 c"

definition ex_redeem :: hexstr where
  "ex_redeem = hex_encode (replicate 300 0)"

definition ex_close :: "hexstr \<Rightarrow> close_v2" where
  "ex_close r = \<lparr> cv_payoutRoot = r, cv_winner = 1, cv_betsRoot = ex_root (CHR ''2''), cv_refundRoot = ex_root (CHR ''3''), cv_atMs = 1751800000000 \<rparr>"

lemma ex_root_32: "length (hex_decode (strip_0x (ex_root (CHR ''1'')))) = 32" "length (hex_decode (strip_0x (ex_root (CHR ''2'')))) = 32"
  "length (hex_decode (strip_0x (ex_root (CHR ''3'')))) = 32" "length (hex_decode (strip_0x (''0x'' @ ex_root (CHR ''1'')))) = 32"
  unfolding ex_root_def by code_simp+

lemma ex_splice: "r = ex_root (CHR ''1'') \<or> r = ''0x'' @ ex_root (CHR ''1'') \<Longrightarrow> \<exists>s. splicePayoutV2CloseRedeem ex_redeem (ex_close r) = Inr s"
  by (intro splice_v2_ok) (auto simp: ex_close_def ex_redeem_def ex_root_32 [simplified])

theorem close_state_roundtrip_witness:
  "\<exists>s. splicePayoutV2CloseRedeem ex_redeem (ex_close (ex_root (CHR ''1''))) = Inr s
    \<and> map_sum id as_winner (readPayoutShardV2AttestedState s) = Inr 1 \<and> map_sum id as_atMs (readPayoutShardV2AttestedState s) = Inr 1751800000000"
proof -
  obtain s where s: "splicePayoutV2CloseRedeem ex_redeem (ex_close (ex_root (CHR ''1''))) = Inr s" using ex_splice by blast
  have "\<exists>st. readPayoutShardV2AttestedState s = Inr st \<and> as_winner st = 1 \<and> as_atMs st = 1751800000000"
    unfolding close_state_roundtrip [OF s] by (simp add: ex_close_def ATTESTED_AT_MS_MIN_def ATTESTED_AT_MS_MAX_def)
  then show ?thesis using s by force
qed

text \<open>One transaction closes one way: if a member accepts the same transaction on the same script for two closes,
  the closes agree in both roots of bets, in the payout root, the winner and the time, or two different scripts collide.\<close>
theorem close_tx_one_state:
  assumes "verifyClosePayoutV2Binding H JP tx red c = Inr x" "verifyClosePayoutV2Binding H JP tx red d = Inr y"
  shows "same_close c d \<or> (\<exists>s s'. splicePayoutV2CloseRedeem red c = Inr s \<and> splicePayoutV2CloseRedeem red d = Inr s'
    \<and> hex_decode s \<noteq> hex_decode s' \<and> H (hex_decode s) = H (hex_decode s'))"
proof -
  obtain s s' where s: "splicePayoutV2CloseRedeem red c = Inr s" "splicePayoutV2CloseRedeem red d = Inr s'" "H (hex_decode s) = H (hex_decode s')"
    using assms unfolding verifyClosePayoutV2Binding_def by (rule bind_twice)
  then show ?thesis using splice_v2_inj [OF s(1,2)] by blast
qed

definition ex_tx :: "hexstr \<Rightarrow> json" where
  "ex_tx spk = JObj [(''version'', JInt 1), (''outputs'', JArr [JObj [(''scriptPublicKey'', JStr spk),
     (''covenant'', JObj [(''covenantId'', JStr ''c'')])], JObj [(''scriptPublicKey'', JStr ''ab'')]])]"

lemma ex_bind: "bind_outputs H (\<lambda>_. Some (ex_tx (p2shSpkHex H s))) tx (Inr s) = Inr (p2shSpkHex H s, 1)"
proof -
  have "p2shSpkHex H s \<noteq> []" "toLowerCase (p2shSpkHex H s) = p2shSpkHex H s" by (simp_all add: p2shSpkHex_def toLowerCase_def)
  then show ?thesis by (simp add: bind_outputs_def ex_tx_def version_ok_def cov_outputs_def out_spk_def)
qed

theorem close_tx_one_state_witness:
  "same_close (ex_close (ex_root (CHR ''1''))) (ex_close (''0x'' @ ex_root (CHR ''1'')))"
proof -
  have st: "strip_0x (''0x'' @ ex_root (CHR ''1'')) = ex_root (CHR ''1'')" by (simp add: strip_0x_def)
  have st': "strip_0x (ex_root (CHR ''1'')) = ex_root (CHR ''1'')" unfolding ex_root_def by code_simp
  have low: "low_root (''0x'' @ ex_root (CHR ''1'')) = low_root (ex_root (CHR ''1''))" by (simp only: low_root_def st st')
  obtain s where s: "splicePayoutV2CloseRedeem ex_redeem (ex_close (ex_root (CHR ''1''))) = Inr s" using ex_splice by blast
  have s': "splicePayoutV2CloseRedeem ex_redeem (ex_close (''0x'' @ ex_root (CHR ''1''))) = Inr s"
    unfolding s [symmetric] by (rule splice_v2_lower) (simp_all only: ex_close_def close_v2.select_convs low)
  let ?H = "\<lambda>b :: buf. b"
  have b: "verifyClosePayoutV2Binding ?H (\<lambda>_. Some (ex_tx (p2shSpkHex ?H s))) [] ex_redeem (ex_close (ex_root (CHR ''1''))) = Inr (p2shSpkHex ?H s, 1)"
    "verifyClosePayoutV2Binding ?H (\<lambda>_. Some (ex_tx (p2shSpkHex ?H s))) [] ex_redeem (ex_close (''0x'' @ ex_root (CHR ''1''))) = Inr (p2shSpkHex ?H s, 1)"
    unfolding verifyClosePayoutV2Binding_def s s' by (rule ex_bind)+
  show ?thesis using close_tx_one_state [OF b] by auto
qed

end
