(* ===== verification/Evidence.thy ===== *)
theory Evidence
  imports Judgeline
begin

section \<open>Evidence of a result\<close>

text \<open>
  \<open>kasia-console/src/lib/oracle-evidence-extractors.mjs\<close>: which sources a member reads and how the final result
  of a game becomes the five fields the judge sees.  \<open>JP\<close> is \<open>JSON.parse\<close> (\<open>None\<close> where it throws), \<open>URL\<close> the
  protocol and host name of the runtime's URL parser, \<open>S\<close> SHA-256.  The texts for the language model
  (\<open>extractEspnEvidence\<close>, \<open>extractCoinGeckoPrice\<close>) and the diagnosis of a source are not modelled.
\<close>

definition normalizeAbbr :: "json option \<Rightarrow> string option" where
  "normalizeAbbr abbr = (case abbr of
     Some (JStr s) \<Rightarrow> (let t = map upper_char (strip s) in if t = [] then None else Some t)
   | _ \<Rightarrow> None)"

subsection \<open>\<open>Number\<close>\<close>

text \<open>The text of a decimal number, whole; hexadecimal texts and infinities are not covered.\<close>

definition numeric_text :: "string \<Rightarrow> bool" where
  "numeric_text t =
    (let (neg, r) = strip_sign t; d1 = takeWhile digit_char r; r1 = dropWhile digit_char r;
         d2 = (case r1 of c # x \<Rightarrow> if c = CHR ''.'' then takeWhile digit_char x else [] | [] \<Rightarrow> []);
         r2 = (case r1 of c # x \<Rightarrow> if c = CHR ''.'' then dropWhile digit_char x else r1 | [] \<Rightarrow> [])
     in (d1 \<noteq> [] \<or> d2 \<noteq> []) \<and> (case r2 of [] \<Rightarrow> True
          | c # x \<Rightarrow> (c = CHR ''e'' \<or> c = CHR ''E'') \<and> (let (n, y) = strip_sign x in y \<noteq> [] \<and> list_all digit_char y)))"

definition number_of_text :: "string \<Rightarrow> rat option" where
  "number_of_text s = (let t = strip s in if t = [] then Some 0 else if numeric_text t then parseFloat t else None)"

text \<open>\<open>Number(v)\<close>; \<open>None\<close> is \<open>NaN\<close>.\<close>

definition js_Number :: "json option \<Rightarrow> rat option" where
  "js_Number v = (case v of None \<Rightarrow> None | Some JNull \<Rightarrow> Some 0 | Some (JBool b) \<Rightarrow> Some (if b then 1 else 0)
     | Some (JInt i) \<Rightarrow> Some (of_int i) | Some (JFrac t) \<Rightarrow> parseFloat t | Some (JStr s) \<Rightarrow> number_of_text s
     | Some (JArr xs) \<Rightarrow> number_of_text (js_String (JArr xs)) | Some (JObj _) \<Rightarrow> None)"

text \<open>\<open>Number.isInteger(Number(v))\<close>, with the integer.\<close>

definition js_Integer :: "json option \<Rightarrow> int option" where
  "js_Integer v = (case js_Number v of Some q \<Rightarrow> if of_int \<lfloor>q\<rfloor> = q then Some \<lfloor>q\<rfloor> else None | None \<Rightarrow> None)"

subsection \<open>The fields\<close>

record game_fields =
  gf_winner_side :: string
  gf_home_team :: string
  gf_away_team :: string
  gf_home_score :: int
  gf_away_score :: int

definition fields_json :: "game_fields \<Rightarrow> json" where
  "fields_json g = JObj [(''winner_side'', JStr (gf_winner_side g)), (''home_team'', JStr (gf_home_team g)),
     (''away_team'', JStr (gf_away_team g)), (''home_score'', JInt (gf_home_score g)), (''away_score'', JInt (gf_away_score g))]"

definition stableStringifyFields :: "game_fields \<Rightarrow> string" where
  "stableStringifyFields g = canonicalPredicate (JArr [JArr [JStr ''winner_side'', JStr (gf_winner_side g)],
     JArr [JStr ''home_team'', JStr (gf_home_team g)], JArr [JStr ''away_team'', JStr (gf_away_team g)],
     JArr [JStr ''home_score'', JInt (gf_home_score g)], JArr [JStr ''away_score'', JInt (gf_away_score g)]])"

definition canonicalFieldHash :: "(string \<Rightarrow> hexstr) \<Rightarrow> game_fields \<Rightarrow> hexstr" where
  "canonicalFieldHash S g = S (stableStringifyFields g)"

subsection \<open>The summary of a game\<close>

text \<open>\<open>v?.[k]\<close> and \<open>v?.[0]\<close>.\<close>

definition opt_get :: "json option \<Rightarrow> string \<Rightarrow> json option" where
  "opt_get v k = (case v of None \<Rightarrow> None | Some j \<Rightarrow> js_get j k)"

definition opt_first :: "json option \<Rightarrow> json option" where
  "opt_first v = (case v of Some (JArr (x # _)) \<Rightarrow> Some x | Some (JObj kvs) \<Rightarrow> map_of kvs ''0''
     | Some (JStr (c # _)) \<Rightarrow> Some (JStr [c]) | _ \<Rightarrow> None)"

record espn_game =
  eg_competitors :: "json list"
  eg_home :: json
  eg_away :: json

definition side_of :: "string \<Rightarrow> json \<Rightarrow> bool" where
  "side_of s c = (js_get c ''homeAway'' = Some (JStr s))"

text \<open>A competitor that is null makes \<open>find\<close> throw; like the answer null this yields no evidence (\<open>None\<close>).\<close>

definition parseEspnSummary :: "(string \<Rightarrow> json option) \<Rightarrow> string \<Rightarrow> espn_game option" where
  "parseEspnSummary JP rawText = (case JP rawText of None \<Rightarrow> None | Some d \<Rightarrow>
     (let comp = opt_first (opt_get (js_get d ''header'') ''competitions'') in
      if \<not> js_truthy comp then None
      else (let ty = opt_get (js_get (the comp) ''status'') ''type'' in
        if opt_get ty ''completed'' \<noteq> Some (JBool True) \<or> opt_get ty ''state'' \<noteq> Some (JStr ''post'') then None
        else (case js_get (the comp) ''competitors'' of
          Some (JArr cs) \<Rightarrow>
            if length cs \<noteq> 2 then None
            else (case (find (side_of ''home'') cs, find (side_of ''away'') cs) of
              (Some h, Some a) \<Rightarrow> Some \<lparr> eg_competitors = cs, eg_home = h, eg_away = a \<rparr>
            | _ \<Rightarrow> None)
        | _ \<Rightarrow> None))))"

definition winner_of :: "espn_game \<Rightarrow> string \<Rightarrow> string \<Rightarrow> string option" where
  "winner_of g home_team away_team =
    (case find (\<lambda>c. js_get c ''winner'' = Some (JBool True)) (eg_competitors g) of
       None \<Rightarrow> Some TIE_TOKEN
     | Some c \<Rightarrow> if side_of ''home'' c then Some home_team else if side_of ''away'' c then Some away_team else None)"

definition extractEspnFields :: "(string \<Rightarrow> json option) \<Rightarrow> (string \<Rightarrow> hexstr) \<Rightarrow> string \<Rightarrow> (game_fields \<times> hexstr) option" where
  "extractEspnFields JP S rawText =
    (case parseEspnSummary JP rawText of None \<Rightarrow> None | Some g \<Rightarrow>
     (case (normalizeAbbr (opt_get (js_get (eg_home g) ''team'') ''abbreviation''), normalizeAbbr (opt_get (js_get (eg_away g) ''team'') ''abbreviation'')) of
        (Some home_team, Some away_team) \<Rightarrow>
          if home_team = away_team \<or> home_team = TIE_TOKEN \<or> away_team = TIE_TOKEN then None
          else (case (js_Integer (js_get (eg_home g) ''score''), js_Integer (js_get (eg_away g) ''score'')) of
            (Some home_score, Some away_score) \<Rightarrow>
              (case winner_of g home_team away_team of None \<Rightarrow> None | Some w \<Rightarrow>
                 if w \<noteq> TIE_TOKEN \<and> w \<noteq> home_team \<and> w \<noteq> away_team then None
                 else (let f = \<lparr> gf_winner_side = w, gf_home_team = home_team, gf_away_team = away_team,
                         gf_home_score = home_score, gf_away_score = away_score \<rparr> in Some (f, canonicalFieldHash S f)))
          | _ \<Rightarrow> None)
      | _ \<Rightarrow> None))"

subsection \<open>Sources\<close>

datatype source_kind = Espn | CoinGecko

definition label_char :: "char \<Rightarrow> bool" where
  "label_char c = (digit_char c \<or> c = CHR ''-'' \<or> (let n = of_char (lower_char c) :: nat in 97 \<le> n \<and> n \<le> 122))"

text \<open>\<open>([a-z0-9-]+\.)*\<close>; the flag says whether the current label has a character.\<close>

fun labels_ok :: "bool \<Rightarrow> string \<Rightarrow> bool" where
  "labels_ok ne [] = (\<not> ne)"
| "labels_ok ne (c # r) = (if c = CHR ''.'' then ne \<and> labels_ok False r else label_char c \<and> labels_ok True r)"

definition host_under :: "string \<Rightarrow> string \<Rightarrow> bool" where
  "host_under d h = (length d \<le> length h \<and> drop (length h - length d) h = d \<and> labels_ok False (take (length h - length d) h))"

definition has_prefix :: "string \<Rightarrow> string \<Rightarrow> bool" where
  "has_prefix p s = (take (length p) s = p)"

definition has_suffix :: "string \<Rightarrow> string \<Rightarrow> bool" where
  "has_suffix p s = (length p \<le> length s \<and> drop (length s - length p) s = p)"

definition strip_brackets :: "string \<Rightarrow> string" where
  "strip_brackets h = (let a = (if has_prefix ''['' h then tl h else h) in if has_suffix '']'' a then butlast a else a)"

definition isPrivateOrLocalHost :: "string \<Rightarrow> bool" where
  "isPrivateOrLocalHost host = (host = [] \<or>
    (let h = strip_brackets (toLowerCase host) in
     h = ''localhost'' \<or> has_suffix ''.local'' h \<or> has_suffix ''.internal'' h
     \<or> h = ''::1'' \<or> has_prefix ''fc'' h \<or> has_prefix ''fd'' h \<or> has_prefix ''fe80'' h
     \<or> has_prefix ''127.'' h \<or> has_prefix ''10.'' h \<or> has_prefix ''192.168.'' h \<or> has_prefix ''169.254.'' h \<or> has_prefix ''0.'' h
     \<or> list_ex (\<lambda>n. has_prefix (''172.'' @ nat_str n @ ''.'') h) [16..<32]))"

definition findExtractor :: "(string \<Rightarrow> (string \<times> string) option) \<Rightarrow> string \<Rightarrow> source_kind option" where
  "findExtractor URL url =
    (if url = [] then None
     else (case URL url of None \<Rightarrow> None | Some (protocol, hostname) \<Rightarrow>
       if protocol \<noteq> ''https:'' then None
       else (let host = toLowerCase hostname in
         if isPrivateOrLocalHost host then None
         else if host_under ''espn.com'' host then Some Espn
         else if host_under ''coingecko.com'' host then Some CoinGecko else None)))"

definition extractStructuredFields ::
  "(string \<Rightarrow> json option) \<Rightarrow> (string \<Rightarrow> hexstr) \<Rightarrow> (string \<Rightarrow> (string \<times> string) option) \<Rightarrow> string \<Rightarrow> string \<Rightarrow> (game_fields \<times> hexstr) option" where
  "extractStructuredFields JP S URL url rawText =
    (if url = [] \<or> rawText = [] then None
     else if findExtractor URL url \<noteq> Some Espn then None else extractEspnFields JP S rawText)"

definition isVoterSupportedSource :: "string option \<Rightarrow> bool" where
  "isVoterSupportedSource source = (case source of None \<Rightarrow> False | Some s \<Rightarrow>
     s \<noteq> [] \<and> (s = ''polymarket'' \<or> s = ''kanet_native'' \<or> has_prefix ''kanet_'' s \<or> s = ''coingecko''))"

subsection \<open>Extracted fields are complete\<close>

lemma extract_ok:
  assumes "extractEspnFields JP S raw = Some (g, h)"
  shows "gf_home_team g \<noteq> []" "gf_away_team g \<noteq> []" "gf_home_team g \<noteq> gf_away_team g" "gf_winner_side g \<noteq> []"
    "gf_winner_side g = TIE_TOKEN \<or> gf_winner_side g = gf_home_team g \<or> gf_winner_side g = gf_away_team g" "h = canonicalFieldHash S g"
proof -
  have n: "(\<exists>x. normalizeAbbr x = Some (gf_home_team g)) \<and> (\<exists>x. normalizeAbbr x = Some (gf_away_team g))"
    and e: "gf_home_team g \<noteq> gf_away_team g"
      "gf_winner_side g = TIE_TOKEN \<or> gf_winner_side g = gf_home_team g \<or> gf_winner_side g = gf_away_team g" "h = canonicalFieldHash S g"
    using assms by (auto simp: extractEspnFields_def Let_def split: option.splits if_splits)
  have ne: "normalizeAbbr x = Some t \<Longrightarrow> t \<noteq> []" for x t
    by (auto simp: normalizeAbbr_def Let_def split: option.splits json.splits if_splits)
  show "gf_home_team g \<noteq> []" "gf_away_team g \<noteq> []" "gf_home_team g \<noteq> gf_away_team g" "gf_winner_side g \<noteq> []"
    "gf_winner_side g = TIE_TOKEN \<or> gf_winner_side g = gf_home_team g \<or> gf_winner_side g = gf_away_team g" "h = canonicalFieldHash S g"
    using e ne n by (auto simp: TIE_TOKEN_def)
qed

lemma fields_json_ok: "gf_winner_side g \<noteq> [] \<Longrightarrow> fields_ok (fields_json g)"
  by (simp add: fields_ok_def fields_json_def is_object_def get_int_def get_str_def)

text \<open>A predicate that passed the check when its market was created is decided by every result the extractor
  accepts of a game its subject plays in.\<close>
theorem evidence_decides:
  assumes "validateResolutionPredicate (Some p) = None" "extractEspnFields JP S raw = Some (g, h)" "about_game p (fields_json g)"
  shows "judgeLine (Some p) (Some (fields_json g)) \<in> {YES, NO}"
  using validated_decides [OF assms(1) fields_json_ok [OF extract_ok(4) [OF assms(2)]] assms(3)]
  by (cases "judgeLine (Some p) (Some (fields_json g))") auto

definition ex_competitor :: "string \<Rightarrow> string \<Rightarrow> json \<Rightarrow> bool \<Rightarrow> json" where
  "ex_competitor side abbr score won = JObj [(''homeAway'', JStr side), (''team'', JObj [(''abbreviation'', JStr abbr)]),
     (''score'', score), (''winner'', JBool won)]"

definition ex_summary :: "json \<Rightarrow> json \<Rightarrow> json" where
  "ex_summary hs as = JObj [(''header'', JObj [(''competitions'', JArr [JObj [
     (''status'', JObj [(''type'', JObj [(''completed'', JBool True), (''state'', JStr ''post'')])]),
     (''competitors'', JArr [ex_competitor ''home'' ''NO'' hs False, ex_competitor ''away'' ''Wsh'' as True])]])])]"

lemma ex_norm: "normalizeAbbr (Some (JStr ''NO'')) = Some ''NO''" "normalizeAbbr (Some (JStr ''Wsh'')) = Some ''WSH''"
  by code_simp+

lemma ex_extract:
  assumes "js_Integer (Some hs) = Some i" "js_Integer (Some as) = Some j"
  shows "extractEspnFields (\<lambda>_. Some (ex_summary hs as)) S raw = Some (\<lparr> gf_winner_side = ''WSH'', gf_home_team = ''NO'', gf_away_team = ''WSH'',
     gf_home_score = i, gf_away_score = j \<rparr>, canonicalFieldHash S \<lparr> gf_winner_side = ''WSH'', gf_home_team = ''NO'', gf_away_team = ''WSH'',
     gf_home_score = i, gf_away_score = j \<rparr>)"
proof -
  have p: "parseEspnSummary (\<lambda>_. Some (ex_summary hs as)) raw = Some \<lparr> eg_competitors = [ex_competitor ''home'' ''NO'' hs False, ex_competitor ''away'' ''Wsh'' as True],
     eg_home = ex_competitor ''home'' ''NO'' hs False, eg_away = ex_competitor ''away'' ''Wsh'' as True \<rparr>"
    by (simp add: parseEspnSummary_def ex_summary_def ex_competitor_def opt_get_def opt_first_def side_of_def)
  show ?thesis
    unfolding extractEspnFields_def p
    by (simp add: ex_competitor_def opt_get_def ex_norm assms winner_of_def side_of_def TIE_TOKEN_def Let_def)
qed

lemma js_Integer_int [simp]: "js_Integer (Some (JInt i)) = Some i" and js_Integer_null [simp]: "js_Integer (Some JNull) = Some 0"
  by (simp_all add: js_Integer_def js_Number_def)

abbreviation ex_over :: json where
  "ex_over \<equiv> JObj [(''metric'', JStr ''total''), (''op'', JStr ''>''), (''operand'', JInt 395), (''scale'', JInt 1)]"

theorem evidence_decides_witness:
  "judgeLine (Some ex_over) (Some (fields_json \<lparr> gf_winner_side = ''WSH'', gf_home_team = ''NO'', gf_away_team = ''WSH'',
     gf_home_score = 19, gf_away_score = 20 \<rparr>)) \<in> {YES, NO}"
proof (rule evidence_decides)
  show "validateResolutionPredicate (Some ex_over) = None" by code_simp
  show "extractEspnFields (\<lambda>_. Some (ex_summary (JInt 19) (JInt 20))) (\<lambda>t. t) [] = Some (\<lparr> gf_winner_side = ''WSH'', gf_home_team = ''NO'',
      gf_away_team = ''WSH'', gf_home_score = 19, gf_away_score = 20 \<rparr>, canonicalFieldHash (\<lambda>t. t) \<lparr> gf_winner_side = ''WSH'', gf_home_team = ''NO'',
      gf_away_team = ''WSH'', gf_home_score = 19, gf_away_score = 20 \<rparr>)"
    by (rule ex_extract) simp_all
  show "about_game ex_over (fields_json \<lparr> gf_winner_side = ''WSH'', gf_home_team = ''NO'', gf_away_team = ''WSH'',
     gf_home_score = 19, gf_away_score = 20 \<rparr>)" by (simp add: about_game_def get_str_def)
qed

text \<open>A score that is null counts as zero: the extractor accepts the summary of a final game without a score and
  hands the judge a zero, where a missing score is refused.\<close>
theorem null_score_is_zero:
  "\<exists>g h. extractEspnFields (\<lambda>_. Some (ex_summary JNull (JInt 20))) S raw = Some (g, h) \<and> gf_home_score g = 0
     \<and> judgeLine (Some ex_over) (Some (fields_json g)) = NO"
proof -
  have "judgeLine (Some ex_over) (Some (fields_json \<lparr> gf_winner_side = ''WSH'', gf_home_team = ''NO'', gf_away_team = ''WSH'',
     gf_home_score = 0, gf_away_score = 20 \<rparr>)) = NO" by code_simp
  then show ?thesis using ex_extract [of JNull 0 "JInt 20" 20 S raw] by simp
qed

end
