(* ===== verification/Close_Chain.thy ===== *)
theory Close_Chain
  imports Close_Binding Evidence
begin

section \<open>What a committee member reads for itself\<close>

text \<open>
  The readers of \<open>kasia-console/src/lib/bshard-close-enforce.mjs\<close>: the canonical evidence with its cache, the
  comparison with the proposed evidence, the oracle pool root in the redeem script, the committee that follows
  from it, and the check that the loaded bets are the bets of the chain (\<open>verifyBettorsCompleteFromChain\<close>).
  What the member's services answer (fetches, the database, the node) are arguments.
\<close>

subsection \<open>Canonical evidence\<close>

definition FINAL_CACHE_TTL_MS :: int where "FINAL_CACHE_TTL_MS = 21600000"

record cache_entry =
  ce_fields :: json
  ce_hash :: hexstr
  ce_at :: int

type_synonym ev_cache = "string \<rightharpoonup> cache_entry"

text \<open>The answer of the fetch: it may throw.\<close>

datatype http = HttpThrows | HttpStatus nat | HttpOk string

datatype fetch_error = NoSource | NoExtractor | FetchThrows | BadStatus nat

record evidence =
  ed_fields :: "json option"
  ed_hash :: "hexstr option"
  ed_cached :: bool

definition fetch_fresh ::
  "(string \<Rightarrow> string \<Rightarrow> (game_fields \<times> hexstr) option) \<Rightarrow> (string \<Rightarrow> http) \<Rightarrow> int \<Rightarrow> string \<Rightarrow> ev_cache
    \<Rightarrow> (fetch_error + evidence) \<times> ev_cache" where
  "fetch_fresh extract get nowMs url cache =
    (case get url of HttpThrows \<Rightarrow> (Inl FetchThrows, cache) | HttpStatus n \<Rightarrow> (Inl (BadStatus n), cache)
     | HttpOk rawText \<Rightarrow> (case extract url rawText of
         None \<Rightarrow> (Inr \<lparr> ed_fields = None, ed_hash = None, ed_cached = False \<rparr>, cache)
       | Some (g, h) \<Rightarrow> (Inr \<lparr> ed_fields = Some (fields_json g), ed_hash = Some h, ed_cached = False \<rparr>,
           cache(url \<mapsto> \<lparr> ce_fields = fields_json g, ce_hash = h, ce_at = nowMs \<rparr>))))"

definition fetchCanonicalEvidence ::
  "(string \<Rightarrow> source_kind option) \<Rightarrow> (string \<Rightarrow> string \<Rightarrow> (game_fields \<times> hexstr) option) \<Rightarrow> (string \<Rightarrow> http) \<Rightarrow> int
    \<Rightarrow> json option \<Rightarrow> ev_cache \<Rightarrow> (fetch_error + evidence) \<times> ev_cache" where
  "fetchCanonicalEvidence find_ex extract get nowMs predicate cache =
    (case Option.bind predicate (\<lambda>p. get_str p ''data_source_canonical'') of
       None \<Rightarrow> (Inl NoSource, cache)
     | Some url \<Rightarrow>
       if url = [] then (Inl NoSource, cache)
       else if find_ex url = None then (Inl NoExtractor, cache)
       else (case cache url of
          Some e \<Rightarrow> if nowMs - ce_at e < FINAL_CACHE_TTL_MS
            then (Inr \<lparr> ed_fields = Some (ce_fields e), ed_hash = Some (ce_hash e), ed_cached = True \<rparr>, cache)
            else fetch_fresh extract get nowMs url cache
        | None \<Rightarrow> fetch_fresh extract get nowMs url cache))"

datatype ev_refusal = FetchFails | NoFields | EvidenceDiffers

text \<open>\<open>own\<close> is what the member fetched itself: \<open>None\<close> where it threw.\<close>

definition verifyFrozenEvidence :: "json option \<Rightarrow> json option option \<Rightarrow> ev_refusal + json" where
  "verifyFrozenEvidence proposedSnapshot own =
    (case own of None \<Rightarrow> Inl FetchFails
     | Some flds \<Rightarrow> if \<not> js_truthy flds then Inl NoFields
       else (let prop = (if js_truthy proposedSnapshot then the proposedSnapshot else JNull) in
         if canonicalPredicate prop \<noteq> canonicalPredicate (the flds) then Inl EvidenceDiffers else Inr (the flds)))"

subsection \<open>The committee of the chain\<close>

definition PMR_COMMITTEE_CHECK_OFFSETS :: "nat list" where
  "PMR_COMMITTEE_CHECK_OFFSETS = [1002, 1266, 1530, 1794, 2058]"

definition PMR_COMMITTEE_CHECK_OFFSETS_V2 :: "nat list" where
  "PMR_COMMITTEE_CHECK_OFFSETS_V2 = [1126, 1390, 1654, 1918, 2182]"

datatype root_error = NotPush32 nat | CopiesDiffer

definition extractOnChainPoolMerkleRoot :: "hexstr \<Rightarrow> bool \<Rightarrow> root_error + hexstr" where
  "extractOnChainPoolMerkleRoot psRedeemHex isV2 =
    (let redeem = hex_decode psRedeemHex;
         offsets = (if isV2 then PMR_COMMITTEE_CHECK_OFFSETS_V2 else PMR_COMMITTEE_CHECK_OFFSETS) in
     case find (\<lambda>off. length redeem < off + 32 \<or> redeem ! (off - 1) \<noteq> 0x20) offsets of
       Some off \<Rightarrow> Inl (NotPush32 off)
     | None \<Rightarrow> (let reads = map (\<lambda>off. hex_encode (seg redeem off (off + 32))) offsets in
         if list_all (\<lambda>r. r = hd reads) reads then Inr (hd reads) else Inl CopiesDiffer))"

record pool_snapshot =
  sn_root :: "string option"
  sn_members :: "member list"
  sn_maker_pk :: "string option"
  sn_broker_pk :: "string option"
  sn_deadline :: "int option"

datatype rederive_error = EmptyPool | RootUnreadable root_error | DbRootDiffers | PoolTree merkle_error | PoolIncomplete
  | EndHashThrows | SeedFails committee_error | DeadlineInvalid | NotAnchored hexstr | DrawFails committee_error

definition opt_pk :: "string option \<Rightarrow> hexstr list" where
  "opt_pk x = (case x of Some (c # s) \<Rightarrow> [toLowerCase (c # s)] | _ \<Rightarrow> [])"

definition excluded_bettors :: "int \<Rightarrow> bet_row list \<Rightarrow> rederive_error + hexstr list" where
  "excluded_bettors deadlineDaa bettors =
    (case find (\<lambda>b. br_daa b = None) bettors of
       Some b \<Rightarrow> Inl (NotAnchored (br_pk b))
     | None \<Rightarrow> Inr (map (\<lambda>b. toLowerCase (br_pk b)) (filter (\<lambda>b. int (the (br_daa b)) \<le> deadlineDaa) bettors)))"

text \<open>\<open>endHash\<close> is the canonical end block of a deadline (\<open>None\<close> where the reader throws), \<open>rowsOf\<close> the loaded
  bets; \<open>ctxRoot\<close> and \<open>ctxDeadline\<close> are the fields of the context.\<close>

definition reDeriveCommittee ::
  "(buf \<Rightarrow> buf) \<Rightarrow> string \<Rightarrow> pool_snapshot \<Rightarrow> string option \<Rightarrow> bool \<Rightarrow> int option \<Rightarrow> (int option \<Rightarrow> hexstr option)
    \<Rightarrow> bet_row list \<Rightarrow> hexstr \<Rightarrow> rederive_error + hexstr list" where
  "reDeriveCommittee H marketId snap ctxRoot isV2 ctxDeadline endHash rows psRedeemHex =
    (if sn_members snap = [] then Inl EmptyPool
     else (case (case ctxRoot of Some (c # r) \<Rightarrow> Inr (toLowerCase (c # r)) | _ \<Rightarrow> extractOnChainPoolMerkleRoot psRedeemHex isV2) of
       Inl e \<Rightarrow> Inl (RootUnreadable e)
     | Inr onChainRoot \<Rightarrow>
       (let dbRoot = (case sn_root snap of Some r \<Rightarrow> toLowerCase r | None \<Rightarrow> []) in
        if dbRoot \<noteq> [] \<and> dbRoot \<noteq> onChainRoot then Inl DbRootDiffers
        else (case buildPoolMerkleTree H (map m_pk (sn_members snap)) of
          Inl e \<Rightarrow> Inl (PoolTree e)
        | Inr built \<Rightarrow>
          if hex_encode (tr_root built) \<noteq> onChainRoot then Inl PoolIncomplete
          else (let deadlineDaa = (case ctxDeadline of Some d \<Rightarrow> Some d | None \<Rightarrow> sn_deadline snap) in
            case endHash deadlineDaa of None \<Rightarrow> Inl EndHashThrows
          | Some endBlockHash \<Rightarrow>
            (case deriveCommitteeSeed H marketId endBlockHash onChainRoot of Inl e \<Rightarrow> Inl (SeedFails e)
             | Inr seed \<Rightarrow>
               (case deadlineDaa of None \<Rightarrow> Inl DeadlineInvalid | Some d \<Rightarrow>
                 if d \<le> 0 then Inl DeadlineInvalid
                 else (case excluded_bettors d rows of Inl e \<Rightarrow> Inl e
                   | Inr ex \<Rightarrow>
                     (case selectCommittee H (sn_members snap) seed (opt_pk (sn_maker_pk snap) @ opt_pk (sn_broker_pk snap) @ ex) of
                        Inl e \<Rightarrow> Inl (DrawFails e)
                      | Inr (sel, rds) \<Rightarrow> Inr (map m_pk sel))))))))))"

subsection \<open>The bets of the chain\<close>

text \<open>A shard as the snapshot of a request or the table lists it.  \<open>sh_state\<close> is the parsed leaf state (\<open>None\<close> where
  it is missing, does not parse or lacks a number), \<open>sh_rows\<close> the rows a snapshot carries.\<close>

record ticket_row =
  tk_pk :: hexstr
  tk_direction :: int
  tk_stake :: int
  tk_lock_tx :: "string option"

record shard_info =
  sh_index :: nat
  sh_market_id :: string
  sh_redeem :: hexstr
  sh_state :: "leaf_state option"
  sh_outpoint :: "string option"
  sh_pool_id :: "string option"
  sh_status :: string
  sh_rows :: "ticket_row list option"

record shard_db =
  sd_shards :: "shard_info list"
  sd_payout_shard :: bool
  sd_rows :: "string \<Rightarrow> ticket_row list"

record chain_ctx =
  cx_shards :: "shard_info list option"
  cx_db :: "shard_db option"
  cx_p2sh :: "(hexstr \<Rightarrow> string) option"
  cx_created_addr :: "(string \<Rightarrow> string option) option"
  cx_landed :: "(string \<Rightarrow> string option \<Rightarrow> bool) option"
  cx_ticket_addr :: "(hexstr \<Rightarrow> int \<Rightarrow> string \<Rightarrow> string \<Rightarrow> string) option"
  cx_exclude :: "string list"
  cx_ps_pool :: "int option"
  cx_ps_seed :: "int option"

datatype complete_error = NoShardSource | ShardsMissing | NoChainHooks | NoLeafState nat | NoAnchor nat | LeafRange nat
  | LeafNotAnchored nat | NoPk | DirectionInvalid | StakeInvalidBet | CountDiffers | PoolDiffers | YesDiffers | NoSideDiffers
  | PsPoolDiffers | TicketMissing hexstr | TicketCount | NoTicketHook

record aggregate =
  ag_count :: int
  ag_yes :: int
  ag_no :: int
  ag_pool :: int

text \<open>The shards: those of the request where it brings a list, otherwise those of the table.\<close>

definition ctx_shards :: "chain_ctx \<Rightarrow> shard_info list option" where
  "ctx_shards c = (case cx_shards c of Some l \<Rightarrow> Some l
     | None \<Rightarrow> map_option (\<lambda>d. filter (\<lambda>s. sh_status s \<noteq> ''manual_recovery_refunded'') (sd_shards d)) (cx_db c))"

definition outpoint_txid :: "string \<Rightarrow> string" where
  "outpoint_txid s = takeWhile (\<lambda>c. c \<noteq> CHR '':'') s"

text \<open>Whether a leaf state is the one at the shard's outpoint.\<close>

definition leaf_anchored :: "(hexstr \<Rightarrow> string) \<Rightarrow> (string \<Rightarrow> string option \<Rightarrow> bool) \<Rightarrow> chain_ctx \<Rightarrow> string \<Rightarrow> hexstr \<Rightarrow> bool" where
  "leaf_anchored p2sh landed c outpoint leafRedeem =
    (let leafAddr = p2sh leafRedeem in case cx_created_addr c of
       Some created \<Rightarrow> (case created outpoint of Some a \<Rightarrow> a \<noteq> [] \<and> toLowerCase a = toLowerCase leafAddr | None \<Rightarrow> False)
     | None \<Rightarrow> landed leafAddr (Some (outpoint_txid outpoint)))"

definition add_leaf :: "aggregate \<Rightarrow> leaf_state \<Rightarrow> aggregate" where
  "add_leaf a st = \<lparr> ag_count = ag_count a + ls_count st, ag_yes = ag_yes a + local_yes st,
     ag_no = ag_no a + local_no st, ag_pool = ag_pool a + pool_value st \<rparr>"

fun sum_shards :: "(hexstr \<Rightarrow> string) \<Rightarrow> (string \<Rightarrow> string option \<Rightarrow> bool) \<Rightarrow> chain_ctx \<Rightarrow> aggregate \<Rightarrow> shard_info list
    \<Rightarrow> complete_error + aggregate" where
  "sum_shards p2sh landed c a [] = Inr a"
| "sum_shards p2sh landed c a (sh # shs) =
    (case sh_state sh of None \<Rightarrow> Inl (NoLeafState (sh_index sh)) | Some st \<Rightarrow>
     if sh_redeem sh = [] \<or> sh_outpoint sh = None \<or> sh_outpoint sh = Some [] then Inl (NoAnchor (sh_index sh))
     else if sh_status sh = ''settling'' then sum_shards p2sh landed c (add_leaf a st) shs
     else (case enforce_spliceLeafState (sh_redeem sh) st of None \<Rightarrow> Inl (LeafRange (sh_index sh))
       | Some leafRedeem \<Rightarrow>
         if \<not> leaf_anchored p2sh landed c (the (sh_outpoint sh)) leafRedeem then Inl (LeafNotAnchored (sh_index sh))
         else sum_shards p2sh landed c (add_leaf a st) shs))"

fun sum_bets :: "aggregate \<Rightarrow> bet_row list \<Rightarrow> complete_error + aggregate" where
  "sum_bets a [] = Inr a"
| "sum_bets a (b # bs) =
    (if br_pk b = [] then Inl NoPk
     else if br_direction b \<noteq> 0 \<and> br_direction b \<noteq> 1 then Inl DirectionInvalid
     else if br_stake b \<le> 0 then Inl StakeInvalidBet
     else sum_bets \<lparr> ag_count = ag_count a + 1, ag_yes = ag_yes a + (if br_direction b = 0 then br_stake b else 0),
       ag_no = ag_no a + (if br_direction b = 0 then 0 else br_stake b), ag_pool = ag_pool a + br_stake b \<rparr> bs)"

definition PS_SEED :: int where "PS_SEED = 20000000"

definition compare_sums :: "chain_ctx \<Rightarrow> aggregate \<Rightarrow> aggregate \<Rightarrow> complete_error option" where
  "compare_sums c loaded chain =
    (if ag_count loaded \<noteq> ag_count chain then Some CountDiffers
     else if ag_pool loaded \<noteq> ag_pool chain then Some PoolDiffers
     else if ag_yes loaded \<noteq> ag_yes chain then Some YesDiffers
     else if ag_no loaded \<noteq> ag_no chain then Some NoSideDiffers
     else (case cx_ps_pool c of
         Some p \<Rightarrow> if p \<noteq> (case cx_ps_seed c of Some s \<Rightarrow> s | None \<Rightarrow> PS_SEED) + ag_pool loaded then Some PsPoolDiffers else None
       | None \<Rightarrow> None))"

text \<open>The rows of a shard whose tickets are looked up; \<open>H\<close> names a shard without a pool id.\<close>

definition ticket_rows :: "chain_ctx \<Rightarrow> shard_info \<Rightarrow> ticket_row list" where
  "ticket_rows c sh = filter (\<lambda>r. cx_exclude c = [] \<or> tk_lock_tx r = None \<or> the (tk_lock_tx r) \<notin> set (cx_exclude c))
     (case sh_rows sh of Some rs \<Rightarrow> rs | None \<Rightarrow> (case cx_db c of Some d \<Rightarrow> sd_rows d (sh_market_id sh) | None \<Rightarrow> []))"

definition shard_pool_id :: "(buf \<Rightarrow> buf) \<Rightarrow> string \<Rightarrow> shard_info \<Rightarrow> string" where
  "shard_pool_id H logicalMarketId sh = (case sh_pool_id sh of Some (c # s) \<Rightarrow> c # s
     | _ \<Rightarrow> hex_encode (H (str_bytes (logicalMarketId @ ''-shard-'' @ nat_str (sh_index sh)))))"

definition market_tickets :: "(buf \<Rightarrow> buf) \<Rightarrow> string \<Rightarrow> chain_ctx \<Rightarrow> shard_info list \<Rightarrow> (string \<times> ticket_row) list" where
  "market_tickets H logicalMarketId c shs =
    concat (map (\<lambda>sh. map (Pair (shard_pool_id H logicalMarketId sh)) (ticket_rows c sh)) shs)"

definition check_tickets :: "(buf \<Rightarrow> buf) \<Rightarrow> (string \<Rightarrow> string option \<Rightarrow> bool) \<Rightarrow> string \<Rightarrow> chain_ctx \<Rightarrow> shard_info list \<Rightarrow> int
    \<Rightarrow> complete_error option" where
  "check_tickets H landed logicalMarketId c shs chainCount =
    (case cx_ticket_addr c of None \<Rightarrow> Some NoTicketHook | Some addr \<Rightarrow>
      (let ts = market_tickets H logicalMarketId c shs in
       case find (\<lambda>(i, r). \<not> landed (addr (tk_pk r) (tk_direction r) (int_str (tk_stake r)) i) None) ts of
         Some (i, r) \<Rightarrow> Some (TicketMissing (tk_pk r))
       | None \<Rightarrow> if int (length ts) \<noteq> chainCount then Some TicketCount else None))"

text \<open>\<open>Inr None\<close>: the market has no shards, the check does not apply.\<close>

definition verifyBettorsCompleteFromChain ::
  "(buf \<Rightarrow> buf) \<Rightarrow> string \<Rightarrow> bet_row list \<Rightarrow> chain_ctx \<Rightarrow> complete_error + aggregate option" where
  "verifyBettorsCompleteFromChain H logicalMarketId bettors c =
    (case ctx_shards c of None \<Rightarrow> Inl NoShardSource
     | Some [] \<Rightarrow> if (case cx_db c of Some d \<Rightarrow> sd_payout_shard d | None \<Rightarrow> False) then Inl ShardsMissing else Inr None
     | Some shs \<Rightarrow>
       (case (cx_p2sh c, cx_landed c) of
          (Some p2sh, Some landed) \<Rightarrow>
            (case sum_shards p2sh landed c \<lparr> ag_count = 0, ag_yes = 0, ag_no = 0, ag_pool = 0 \<rparr> shs of Inl e \<Rightarrow> Inl e
             | Inr chain \<Rightarrow>
               (case sum_bets \<lparr> ag_count = 0, ag_yes = 0, ag_no = 0, ag_pool = 0 \<rparr> bettors of Inl e \<Rightarrow> Inl e
                | Inr loaded \<Rightarrow>
                  (case compare_sums c loaded chain of Some e \<Rightarrow> Inl e
                   | None \<Rightarrow>
                     (case check_tickets H landed logicalMarketId c shs (ag_count chain) of Some e \<Rightarrow> Inl e
                      | None \<Rightarrow> Inr (Some chain)))))
        | _ \<Rightarrow> Inl NoChainHooks))"

subsection \<open>The sums of the loaded bets\<close>

definition bet_ok :: "bet_row \<Rightarrow> bool" where
  "bet_ok b = (br_pk b \<noteq> [] \<and> (br_direction b = 0 \<or> br_direction b = 1) \<and> 0 < br_stake b)"

definition side_sum :: "int \<Rightarrow> bet_row list \<Rightarrow> int" where
  "side_sum d bs = (\<Sum>b\<leftarrow>filter (\<lambda>b. br_direction b = d) bs. br_stake b)"

lemma side_sum_Cons: "side_sum d (b # bs) = (if br_direction b = d then br_stake b else 0) + side_sum d bs"
  by (simp add: side_sum_def)

lemma sum_bets_Inr:
  "sum_bets a bs = Inr r \<longleftrightarrow> list_all bet_ok bs \<and> r = \<lparr> ag_count = ag_count a + int (length bs), ag_yes = ag_yes a + side_sum 0 bs,
     ag_no = ag_no a + side_sum 1 bs, ag_pool = ag_pool a + (\<Sum>b\<leftarrow>bs. br_stake b) \<rparr>"
proof (induction bs arbitrary: a)
  case Nil
  then show ?case by (cases a) (auto simp: side_sum_def)
next
  case (Cons b bs)
  show ?case
  proof (cases "bet_ok b")
    case True
    then have e: "sum_bets a (b # bs) = sum_bets \<lparr> ag_count = ag_count a + 1, ag_yes = ag_yes a + (if br_direction b = 0 then br_stake b else 0),
       ag_no = ag_no a + (if br_direction b = 0 then 0 else br_stake b), ag_pool = ag_pool a + br_stake b \<rparr> bs"
      by (auto simp: bet_ok_def)
    have "br_direction b = 0 \<or> br_direction b = 1" using True by (simp add: bet_ok_def)
    then show ?thesis using True unfolding e Cons.IH by (elim disjE) (simp_all add: side_sum_Cons add.assoc)
  next
    case False
    then show ?thesis by (auto simp: bet_ok_def)
  qed
qed

lemma complete_same_sums:
  assumes "verifyBettorsCompleteFromChain H m bs c = Inr r" "list_all bet_ok bs'" "length bs' = length bs"
    and "side_sum 0 bs' = side_sum 0 bs" "side_sum 1 bs' = side_sum 1 bs"
  shows "ctx_shards c = Some [] \<or> verifyBettorsCompleteFromChain H m bs' c = Inr r"
proof -
  let ?z = "\<lparr> ag_count = 0, ag_yes = 0, ag_no = 0, ag_pool = 0 \<rparr>"
  have split: "(\<Sum>b\<leftarrow>xs. br_stake b) = side_sum 0 xs + side_sum 1 xs" if "list_all bet_ok xs" for xs
    using that by (induction xs) (auto simp: side_sum_def bet_ok_def)
  have eq: "sum_bets ?z bs' = sum_bets ?z bs" if "sum_bets ?z bs = Inr l" for l
  proof -
    have l: "list_all bet_ok bs" "l = \<lparr> ag_count = int (length bs), ag_yes = side_sum 0 bs, ag_no = side_sum 1 bs, ag_pool = (\<Sum>b\<leftarrow>bs. br_stake b) \<rparr>"
      using that unfolding sum_bets_Inr by simp_all
    have "sum_bets ?z bs' = Inr l" unfolding sum_bets_Inr using assms(2-5) l split [OF l(1)] split [OF assms(2)] by simp
    then show ?thesis using that by simp
  qed
  have "sum_bets ?z bs' = sum_bets ?z bs" if "ctx_shards c \<noteq> Some []"
    using assms(1) that eq unfolding verifyBettorsCompleteFromChain_def
    by (cases "sum_bets ?z bs") (auto simp del: sum_shards.simps split: option.splits list.splits sum.splits)
  note E = this
  have "verifyBettorsCompleteFromChain H m bs' c = verifyBettorsCompleteFromChain H m bs c" if "ctx_shards c \<noteq> Some []"
    unfolding verifyBettorsCompleteFromChain_def E [OF that] by (rule refl)
  then show ?thesis using assms(1) by auto
qed

lemma complete_Inr:
  assumes "verifyBettorsCompleteFromChain H m bs c = Inr r" "ctx_shards c \<noteq> Some []"
  obtains p2sh landed shs chain where "ctx_shards c = Some shs" "cx_p2sh c = Some p2sh" "cx_landed c = Some landed" "r = Some chain"
    "sum_shards p2sh landed c \<lparr> ag_count = 0, ag_yes = 0, ag_no = 0, ag_pool = 0 \<rparr> shs = Inr chain" "list_all bet_ok bs"
    "ag_count chain = int (length bs)" "ag_yes chain = side_sum 0 bs" "ag_no chain = side_sum 1 bs" "ag_pool chain = (\<Sum>b\<leftarrow>bs. br_stake b)"
    "\<And>p. cx_ps_pool c = Some p \<Longrightarrow> p = (case cx_ps_seed c of Some s \<Rightarrow> s | None \<Rightarrow> PS_SEED) + (\<Sum>b\<leftarrow>bs. br_stake b)"
    "check_tickets H landed m c shs (int (length bs)) = None"
proof -
  let ?z = "\<lparr> ag_count = 0, ag_yes = 0, ag_no = 0, ag_pool = 0 \<rparr>"
  obtain p2sh landed shs chain loaded where *: "ctx_shards c = Some shs" "cx_p2sh c = Some p2sh" "cx_landed c = Some landed" "r = Some chain"
    "sum_shards p2sh landed c ?z shs = Inr chain" "sum_bets ?z bs = Inr loaded" "compare_sums c loaded chain = None"
    "check_tickets H landed m c shs (ag_count chain) = None"
    using assms by (auto simp: verifyBettorsCompleteFromChain_def simp del: sum_shards.simps split: option.splits list.splits sum.splits)
  have l: "list_all bet_ok bs" "loaded = \<lparr> ag_count = int (length bs), ag_yes = side_sum 0 bs, ag_no = side_sum 1 bs, ag_pool = (\<Sum>b\<leftarrow>bs. br_stake b) \<rparr>"
    using *(6) unfolding sum_bets_Inr by simp_all
  show ?thesis
    by (rule that [OF *(1-5) l(1)]) (use *(7,8) in \<open>auto simp: compare_sums_def l(2) split: if_splits option.splits\<close>)
qed

subsection \<open>The committee\<close>

lemma excluded_bettors_Inr:
  "excluded_bettors d rows = Inr ex \<longleftrightarrow> (\<forall>b \<in> set rows. br_daa b \<noteq> None)
     \<and> ex = map (\<lambda>b. toLowerCase (br_pk b)) (filter (\<lambda>b. int (the (br_daa b)) \<le> d) rows)"
  by (auto simp: excluded_bettors_def find_None_iff find_Some_iff split: option.splits)

lemma reDeriveCommittee_Inr:
  assumes "reDeriveCommittee H m snap cr isV2 dl endHash rows red = Inr pks"
  obtains root' built d e seed sel rds where
    "(case cr of Some (c # r) \<Rightarrow> Inr (toLowerCase (c # r)) | _ \<Rightarrow> extractOnChainPoolMerkleRoot red isV2) = Inr root'"
    "buildPoolMerkleTree H (map m_pk (sn_members snap)) = Inr built" "hex_encode (tr_root built) = root'"
    "(case dl of Some d \<Rightarrow> Some d | None \<Rightarrow> sn_deadline snap) = Some d" "0 < d" "endHash (Some d) = Some e"
    "deriveCommitteeSeed H m e root' = Inr seed" "\<forall>b \<in> set rows. br_daa b \<noteq> None"
    "selectCommittee H (sn_members snap) seed (opt_pk (sn_maker_pk snap) @ opt_pk (sn_broker_pk snap)
       @ map (\<lambda>b. toLowerCase (br_pk b)) (filter (\<lambda>b. int (the (br_daa b)) \<le> d) rows)) = Inr (sel, rds)"
    "pks = map m_pk sel"
  using assms unfolding reDeriveCommittee_def Let_def
  by (auto simp: excluded_bettors_Inr not_le split: if_splits sum.splits option.splits)

lemma opt_pk_mem: "x \<noteq> [] \<Longrightarrow> toLowerCase x \<in> set (opt_pk (Some x))"
  by (cases x) (simp_all add: opt_pk_def)

lemma committee_excludes:
  assumes "selectCommittee H ms seed ex = Inr (sel, rds)" "m \<in> set sel"
  shows "m_pk m \<notin> set (map toLowerCase ex)"
proof -
  have "set sel \<subseteq> set (sorted_members ms ex)"
    using selectCommittee_Inr(3) [OF assms(1)] by (metis set_mset_mono set_mset_mset)
  then show ?thesis using assms(2) sorted_members_key by blast
qed

subsection \<open>Copies in the pool\<close>

lemma mapE_total: "\<forall>x \<in> set xs. \<exists>y. f x = Inr y \<Longrightarrow> \<exists>ys. mapE f xs = Inr ys"
  by (induction xs) fastforce+

lemma mapE_append: "mapE f (xs @ ys) = (case mapE f xs of Inl e \<Rightarrow> Inl e | Inr a \<Rightarrow> (case mapE f ys of Inl e \<Rightarrow> Inl e | Inr b \<Rightarrow> Inr (a @ b)))"
  by (induction xs) (auto split: sum.splits)

lemma mapE_replicate: "f x = Inr y \<Longrightarrow> mapE f (replicate k x) = Inr (replicate k y)"
  by (induction k) auto

lemma sort_max:
  assumes "\<forall>y \<in> set xs. y \<le> (x :: 'a::linorder)"
  shows "sort (xs @ replicate k x) = sort xs @ replicate k x"
  by (rule properties_for_sort) (use assms in \<open>auto simp: sorted_append\<close>)

lemma pool_copies:
  assumes "buildPoolMerkleTree H pks = Inr t" "pk \<in> set pks" "length pks + k \<le> POOL_MAX_SIZE"
    and "\<forall>q \<in> set pks. toLowerCase (strip_0x q) \<le> toLowerCase (strip_0x pk)"
  shows "\<exists>t'. buildPoolMerkleTree H (pks @ replicate k pk) = Inr t' \<and> tr_root t' = tr_root t"
proof -
  let ?n = "\<lambda>s. toLowerCase (strip_0x s)" and ?x = "toLowerCase (strip_0x pk)"
  obtain ls where ls: "mapE (hashPoolLeaf H) (tr_sortedPks t) = Inr ls" "ls \<noteq> []" "length ls \<le> POOL_MAX_SIZE"
    "tr_sortedPks t = sort (map ?n pks)" "length ls = length (tr_sortedPks t)" "pool_leaves H pks = pad_last POOL_MAX_SIZE ls"
    "tr_root t = tree_root H POOL_DEPTH (pool_leaves H pks)"
    using assms(1) by (rule buildPoolMerkleTree_Inr)
  have lt: "last (sort (map ?n pks)) = ?x"
  proof (rule antisym)
    have ne: "sort (map ?n pks) \<noteq> []" using ls(2,4,5) by auto
    then have "last (sort (map ?n pks)) \<in> set (map ?n pks)" by (metis last_in_set set_sort)
    then show "last (sort (map ?n pks)) \<le> ?x" using assms(4) by auto
    have "?x \<in> set (sort (map ?n pks))" using assms(2) by simp
    then show "?x \<le> last (sort (map ?n pks))" using sorted_sort [of "map ?n pks"] ne
      by (metis sorted_iff_nth_mono last_conv_nth in_set_conv_nth diff_less length_greater_0_conv less_Suc_eq_le Suc_pred' zero_less_one Suc_pred)
  qed
  have bl: "map ?n pks \<noteq> []" using assms(2) by auto
  have srt: "sort (map ?n pks) = butlast (sort (map ?n pks)) @ [?x]"
    using lt bl by (metis append_butlast_last_id set_empty set_sort)
  have l: "hashPoolLeaf H ?x = Inr (last ls)"
    using ls(1) unfolding ls(4) by (subst (asm) srt) (auto simp: mapE_append split: sum.splits)
  have srt': "sort (map ?n (pks @ replicate k pk)) = sort (map ?n pks) @ replicate k ?x"
    using sort_max [of "map ?n pks" ?x k] assms(4) by simp
  have m: "mapE (hashPoolLeaf H) (sort (map ?n (pks @ replicate k pk))) = Inr (ls @ replicate k (last ls))"
    unfolding srt' using ls(1,4) by (simp add: mapE_append mapE_replicate [of "hashPoolLeaf H", OF l])
  have "length ls + k \<le> POOL_MAX_SIZE" using assms(3) ls(4,5) by simp
  then have pad: "pad_last POOL_MAX_SIZE (ls @ replicate k (last ls)) = pad_last POOL_MAX_SIZE ls"
    by (cases "k = 0") (simp_all add: pad_last_def replicate_add [symmetric] diff_diff_left)
  have "pks \<noteq> []" using assms(2) by auto
  then have "buildPoolMerkleTree H (pks @ replicate k pk) = Inr \<lparr> tr_root = build_levels H POOL_DEPTH (pad_last POOL_MAX_SIZE ls) ! POOL_DEPTH ! 0,
      tr_levels = build_levels H POOL_DEPTH (pad_last POOL_MAX_SIZE ls), tr_sortedPks = sort (map ?n (pks @ replicate k pk)) \<rparr>"
    using m assms(3) unfolding buildPoolMerkleTree_def Let_def by (simp add: pad)
  then show ?thesis using ls(6,7) by (simp add: tree_root_def)
qed

lemma hexdigit_not_x: "n < 16 \<Longrightarrow> hexdigit n \<noteq> CHR ''x''"
proof -
  have "list_all (\<lambda>n. hexdigit n \<noteq> CHR ''x'') [0..<16]" by code_simp
  then show "n < 16 \<Longrightarrow> hexdigit n \<noteq> CHR ''x''" by (auto simp: list_all_iff)
qed

lemma strip_hex_encode [simp]: "strip_0x (hex_encode b) = hex_encode b"
proof (cases b)
  case (Cons x r)
  have "hexdigit (unat x mod 16) \<noteq> CHR ''x''" by (rule hexdigit_not_x) simp
  then show ?thesis by (simp add: Cons strip_0x_def hex_encode_def)
qed (simp add: strip_0x_def hex_encode_def)

lemma pool_tree_ok:
  assumes "pks \<noteq> []" "length pks \<le> POOL_MAX_SIZE" "\<forall>pk \<in> set pks. length pk = 64 \<and> list_all is_hex_lower pk" "hash32 H"
  shows "\<exists>t. buildPoolMerkleTree H pks = Inr t"
proof -
  have hx: "is_hex_lower c \<Longrightarrow> lower_char c = c \<and> c \<noteq> CHR ''x'' \<and> is_hex_char c" for c
    by (auto simp: is_hex_lower_def lower_char_def is_hex_char_def hexval_def Let_def)
  have st: "strip_0x pk = pk" if "list_all is_hex_lower pk" for pk
    using that hx by (cases pk rule: hex_decode.cases) (auto simp: strip_0x_def)
  have low: "toLowerCase (strip_0x pk) = pk" if "pk \<in> set pks" for pk
  proof -
    have "list_all is_hex_lower pk" using assms(3) that by blast
    then show ?thesis using hx by (simp add: st toLowerCase_def list_all_iff map_idI)
  qed
  then have m: "map (\<lambda>s. toLowerCase (strip_0x s)) pks = pks" by (simp add: map_idI)
  have "\<exists>ls. mapE (hashPoolLeaf H) (sort pks) = Inr ls"
  proof -
    have "\<exists>l. hashPoolLeaf H pk = Inr l" if "pk \<in> set pks" for pk
    proof -
      have a: "length pk = 64" "list_all is_hex_lower pk" using assms(3) that by blast+
      then have "list_all is_hex_char pk" using hx by (simp add: list_all_iff)
      then show ?thesis using a(1) st [OF a(2)] by (simp add: hashPoolLeaf_def pkToBytes_def)
    qed
    then show ?thesis by (intro mapE_total) simp
  qed
  then obtain ls where "mapE (hashPoolLeaf H) (sort pks) = Inr ls" by blast
  then show ?thesis unfolding buildPoolMerkleTree_def m using assms(1,2) by (simp add: Let_def)
qed

subsection \<open>Properties\<close>

text \<open>C22: the members of a re-derived committee have no stake in the market: there are five of them, each a key of
  the pool, and none is the key of the maker, of the broker or of a bet placed up to the deadline.\<close>
theorem committee_disinterested:
  assumes "reDeriveCommittee H m snap cr isV2 (Some d) endHash rows red = Inr pks" "pk \<in> set pks"
  shows "length pks = 5 \<and> (\<forall>x. sn_maker_pk snap = Some x \<or> sn_broker_pk snap = Some x \<longrightarrow> x \<noteq> [] \<longrightarrow> pk \<noteq> toLowerCase x)
    \<and> (\<forall>b \<in> set rows. \<forall>n. br_daa b = Some n \<longrightarrow> int n \<le> d \<longrightarrow> pk \<noteq> toLowerCase (br_pk b))"
proof -
  obtain root' built d' e seed sel rds where *: "(case Some d of Some d \<Rightarrow> Some d | None \<Rightarrow> sn_deadline snap) = Some d'"
    and s: "selectCommittee H (sn_members snap) seed (opt_pk (sn_maker_pk snap) @ opt_pk (sn_broker_pk snap)
       @ map (\<lambda>b. toLowerCase (br_pk b)) (filter (\<lambda>b. int (the (br_daa b)) \<le> d') rows)) = Inr (sel, rds)"
    and pks: "pks = map m_pk sel"
    using assms(1) by (rule reDeriveCommittee_Inr)
  have d: "d' = d" using * by simp
  obtain mm where mm: "mm \<in> set sel" "pk = m_pk mm" using assms(2) pks by auto
  note ex = committee_excludes [OF s mm(1), folded mm(2), unfolded d]
  have "length pks = 5" using selectCommittee_Inr(2) [OF s] by (simp add: pks COMMITTEE_SIZE_def)
  moreover have "pk \<noteq> toLowerCase x" if "sn_maker_pk snap = Some x \<or> sn_broker_pk snap = Some x" "x \<noteq> []" for x
    using ex that opt_pk_mem [OF that(2)] toLowerCase_idem [of x] by (auto intro: rev_image_eqI)
  moreover have "pk \<noteq> toLowerCase (br_pk b)" if "b \<in> set rows" "br_daa b = Some n" "int n \<le> d" for b n
  proof -
    have "toLowerCase (br_pk b) \<in> toLowerCase ` (\<lambda>b. toLowerCase (br_pk b)) ` set (filter (\<lambda>b. int (the (br_daa b)) \<le> d) rows)"
      using that toLowerCase_idem [of "br_pk b"] by (auto intro!: rev_image_eqI)
    then show ?thesis using ex by (auto simp del: set_filter)
  qed
  ultimately show ?thesis by blast
qed

definition ex_key :: "char \<Rightarrow> hexstr" where
  "ex_key c = replicate 64 c"

definition ex_pool_members :: "member list" where
  "ex_pool_members = map (\<lambda>c. \<lparr> m_pk = ex_key c, m_stake = 100 \<rparr>) ''abcdef''"

lemma ex_key_simps [simp]: "length (ex_key c) = 64" "ex_key c = ex_key d \<longleftrightarrow> c = d" "toLowerCase (ex_key c) = ex_key (lower_char c)"
  by (simp_all add: ex_key_def toLowerCase_def)

lemma ex_lower: "lower_char (CHR ''a'') = CHR ''a''" "lower_char (CHR ''b'') = CHR ''b''" "lower_char (CHR ''c'') = CHR ''c''"
  "lower_char (CHR ''d'') = CHR ''d''" "lower_char (CHR ''e'') = CHR ''e''" "lower_char (CHR ''f'') = CHR ''f''"
  by code_simp+

lemma tree_root_32:
  assumes "hash32 H" "length l = 2 ^ Suc d"
  shows "length (tree_root H (Suc d) l) = 32"
  using assms(2)
proof (induction d arbitrary: l)
  case 0
  then have "length l = 2" by simp
  then obtain a b where "l = [a, b]" by (cases l) (auto simp: length_Suc_conv numeral_2_eq_2)
  then show ?case using assms(1) by (simp add: tree_root_Suc tree_root_0 pair_up_def hash32_def)
next
  case (Suc d)
  then show ?case by (subst tree_root_Suc) simp
qed

lemma ex_pool_tree: "\<exists>t. buildPoolMerkleTree ex_hash (map m_pk ex_pool_members) = Inr t \<and> length (tr_root t) = 32"
proof -
  have "is_hex_lower c" if "c \<in> set ''abcdef''" for c using that by (auto simp: is_hex_lower_def)
  then have "\<forall>pk \<in> set (map m_pk ex_pool_members). length pk = 64 \<and> list_all is_hex_lower pk"
    by (auto simp: ex_pool_members_def ex_key_def list_all_iff)
  then obtain t where t: "buildPoolMerkleTree ex_hash (map m_pk ex_pool_members) = Inr t"
    using pool_tree_ok [OF _ _ _ ex_hash32, of "map m_pk ex_pool_members"]
    by (auto simp: ex_pool_members_def POOL_MAX_SIZE_def POOL_DEPTH_def)
  have "tr_root t = tree_root ex_hash POOL_DEPTH (pool_leaves ex_hash (map m_pk ex_pool_members))"
    using t by (rule buildPoolMerkleTree_Inr)
  moreover obtain ls where "ls \<noteq> []" "length ls \<le> POOL_MAX_SIZE" "pool_leaves ex_hash (map m_pk ex_pool_members) = pad_last POOL_MAX_SIZE ls"
    using t by (rule buildPoolMerkleTree_Inr)
  ultimately show ?thesis using t pad_last_props(1) [of ls POOL_MAX_SIZE] tree_root_32 [OF ex_hash32, of _ 7] by (simp add: POOL_DEPTH_def POOL_MAX_SIZE_def)
qed

theorem committee_disinterested_witness:
  "\<exists>snap pks. reDeriveCommittee ex_hash ''m'' snap (sn_root snap) False (Some 9) (\<lambda>_. Some (ex_key (CHR ''1''))) [] [] = Inr pks
    \<and> sn_maker_pk snap = Some (ex_key (CHR ''a'')) \<and> length pks = 5 \<and> ex_key (CHR ''a'') \<notin> set pks"
proof -
  obtain t where t: "buildPoolMerkleTree ex_hash (map m_pk ex_pool_members) = Inr t" "length (tr_root t) = 32" using ex_pool_tree by blast
  let ?r = "hex_encode (tr_root t)"
  let ?s = "\<lparr> sn_root = Some ?r, sn_members = ex_pool_members, sn_maker_pk = Some (ex_key (CHR ''a'')), sn_broker_pk = None, sn_deadline = None \<rparr>"
  obtain x y where r: "?r = x # y" using t(2) by (cases "tr_root t") (auto simp: hex_encode_def)
  have low: "toLowerCase ?r = ?r" by simp
  have "length (hex_decode (strip_0x (ex_key (CHR ''1'')))) = 32" unfolding ex_key_def by code_simp
  then obtain seed where seed: "deriveCommitteeSeed ex_hash ''m'' (ex_key (CHR ''1'')) ?r = Inr seed" "length seed = 32"
    using t(2) ex_hash32 by (auto simp: deriveCommitteeSeed_def hash32_def)
  have mk: "opt_pk (Some (ex_key (CHR ''a''))) = [ex_key (CHR ''a'')]"
    by (simp add: opt_pk_def ex_key_def numeral_eq_Suc toLowerCase_def ex_lower)
  have "COMMITTEE_SIZE \<le> length (sorted_members ex_pool_members [ex_key (CHR ''a'')])"
    by (simp add: sorted_members_def COMMITTEE_SIZE_def ex_pool_members_def ex_lower)
  then obtain sel rds where sel: "selectCommittee ex_hash ex_pool_members seed [ex_key (CHR ''a'')] = Inr (sel, rds)"
    using selectCommittee_total [OF seed(2), of ex_pool_members "[ex_key (CHR ''a'')]" ex_hash] by (auto simp: ex_pool_members_def)
  have "reDeriveCommittee ex_hash ''m'' ?s (sn_root ?s) False (Some 9) (\<lambda>_. Some (ex_key (CHR ''1''))) [] [] = Inr (map m_pk sel)"
    using t(1) seed(1) sel low
    by (simp add: reDeriveCommittee_def r excluded_bettors_def mk) (simp add: opt_pk_def ex_pool_members_def)
  moreover have "pk \<noteq> ex_key (CHR ''a'')" "length (map m_pk sel) = 5" if "pk \<in> set (map m_pk sel)" for pk
    using committee_disinterested [OF calculation that] ex_key_simps(1) [of "CHR ''a''"] by (auto simp: ex_lower simp del: ex_key_simps(1))
  moreover have "set (map m_pk sel) \<noteq> {}" using selectCommittee_Inr(2) [OF sel] by (auto simp: COMMITTEE_SIZE_def)
  ultimately show ?thesis by (metis (no_types, lifting) ex_in_conv pool_snapshot.select_convs(3))
qed

text \<open>The pool root does not count its members: copies of the last key leave the root unchanged, so that a member
  list with copies passes as the list of the pool.\<close>
theorem pool_root_ignores_copies:
  assumes "buildPoolMerkleTree H pks = Inr t" "pk \<in> set pks" "length pks + k \<le> POOL_MAX_SIZE"
    and "\<forall>q \<in> set pks. toLowerCase (strip_0x q) \<le> toLowerCase (strip_0x pk)"
  shows "\<exists>t'. buildPoolMerkleTree H (pks @ replicate k pk) = Inr t' \<and> tr_root t' = tr_root t"
  by (rule pool_copies [OF assms])

theorem pool_root_ignores_copies_witness:
  "\<exists>t t'. buildPoolMerkleTree ex_hash [ex_key (CHR ''a'')] = Inr t
    \<and> buildPoolMerkleTree ex_hash ([ex_key (CHR ''a'')] @ replicate 3 (ex_key (CHR ''a''))) = Inr t' \<and> tr_root t' = tr_root t"
proof -
  obtain t where t: "buildPoolMerkleTree ex_hash [ex_key (CHR ''a'')] = Inr t"
    using pool_tree_ok [OF _ _ _ ex_hash32, of "[ex_key (CHR ''a'')]"]
    by (auto simp: POOL_MAX_SIZE_def POOL_DEPTH_def ex_key_def is_hex_lower_def list_all_iff)
  show ?thesis using t pool_root_ignores_copies [OF t, of "ex_key (CHR ''a'')" 3] by (auto simp: POOL_MAX_SIZE_def POOL_DEPTH_def)
qed

text \<open>The check against the chain sees sums only: any other list of bets with as many bets and the same stakes on
  both sides passes as well.  The tickets that are looked up are those of the shard rows, not of the bets that are paid.\<close>
theorem complete_sees_sums_only:
  assumes "verifyBettorsCompleteFromChain H m bs c = Inr r" "list_all bet_ok bs'" "length bs' = length bs"
    and "side_sum 0 bs' = side_sum 0 bs" "side_sum 1 bs' = side_sum 1 bs" "ctx_shards c \<noteq> Some []"
  shows "verifyBettorsCompleteFromChain H m bs' c = Inr r"
  using complete_same_sums [OF assms(1-5)] assms(6) by blast

definition ex_shard_info :: shard_info where
  "ex_shard_info = \<lparr> sh_index = 0, sh_market_id = ''m'', sh_redeem = ''00'',
     sh_state = Some \<lparr> local_yes = 5, local_no = 7, ls_count = 2, pool_value = 12 \<rparr>, sh_outpoint = Some ''t:0'',
     sh_pool_id = Some ''p'', sh_status = ''settling'',
     sh_rows = Some [\<lparr> tk_pk = ''a'', tk_direction = 0, tk_stake = 5, tk_lock_tx = None \<rparr>,
                    \<lparr> tk_pk = ''b'', tk_direction = 1, tk_stake = 7, tk_lock_tx = None \<rparr>] \<rparr>"

definition ex_chain_ctx :: chain_ctx where
  "ex_chain_ctx = \<lparr> cx_shards = Some [ex_shard_info], cx_db = None, cx_p2sh = Some (\<lambda>r. r), cx_created_addr = None,
     cx_landed = Some (\<lambda>a t. a = ''a'' \<or> a = ''b''), cx_ticket_addr = Some (\<lambda>pk d s i. pk), cx_exclude = [],
     cx_ps_pool = Some 20000012, cx_ps_seed = None \<rparr>"

definition ex_bet_row :: "string \<Rightarrow> int \<Rightarrow> int \<Rightarrow> bet_row" where
  "ex_bet_row pk st d = \<lparr> br_pk = pk, br_stake = st, br_direction = d, br_daa = Some 1, br_tx = Some ''x'' \<rparr>"

lemma ex_complete: "verifyBettorsCompleteFromChain H ''m'' [ex_bet_row ''a'' 5 0, ex_bet_row ''b'' 7 1] ex_chain_ctx
    = Inr (Some \<lparr> ag_count = 2, ag_yes = 5, ag_no = 7, ag_pool = 12 \<rparr>)"
  by (simp add: verifyBettorsCompleteFromChain_def ctx_shards_def ex_chain_ctx_def ex_shard_info_def ex_bet_row_def add_leaf_def
    compare_sums_def PS_SEED_def check_tickets_def market_tickets_def ticket_rows_def shard_pool_id_def)

theorem complete_sees_sums_only_witness:
  "verifyBettorsCompleteFromChain H ''m'' [ex_bet_row ''x'' 5 0, ex_bet_row ''y'' 7 1] ex_chain_ctx
    = Inr (Some \<lparr> ag_count = 2, ag_yes = 5, ag_no = 7, ag_pool = 12 \<rparr>)"
  by (rule complete_sees_sums_only [OF ex_complete])
    (simp_all add: bet_ok_def ex_bet_row_def side_sum_def ctx_shards_def ex_chain_ctx_def)

end
