(* ===== verification/Close_Enforce.thy ===== *)
theory Close_Enforce
  imports Close_Chain Payout
begin

section \<open>The close a committee member signs\<close>

text \<open>
  \<open>kasia-console/src/lib/bshard-close-enforce.mjs\<close>: \<open>_enforceCloseAttestCore\<close>, \<open>enforceCloseAttest\<close> and
  \<open>enforceCloseAttestV2\<close>.  A member takes a request of the settler and signs only what it derives itself.
  The request is the settler's; the context holds what the member reads from its own chain and tables.
  A result is a refusal, a skip (not a member) or a pass; an uncaught exception of the code is the refusal \<open>Throws\<close>.
\<close>

record close_request =
  rq_market :: string
  rq_predicate :: "json option"
  rq_evidence :: "json option"
  rq_psRedeem :: hexstr
  rq_committee_pk :: hexstr
  rq_broker_pk :: "string option"
  rq_introducer_pk :: "string option"
  rq_source :: "string option"
  rq_fee_rules :: json_col
  rq_claimedRoot :: string
  rq_tx :: string
  rq_winner :: int
  rq_betsRoot :: hexstr
  rq_refundRoot :: hexstr
  rq_atMs :: "int option"

record enforce_ctx =
  ec_keys :: "hexstr list"
  ec_metadata_hash :: "string option"
  ec_rule_spec :: "json option"
  ec_daa :: "int option"
  ec_block_hash :: "int \<Rightarrow> string"
  ec_fetch :: "json option \<Rightarrow> json option option"
  ec_snapshot :: pool_snapshot
  ec_root :: "string option"
  ec_deadline :: "int option"
  ec_end_hash :: "int option \<Rightarrow> hexstr option"
  ec_bettors :: "bet_row list"
  ec_chain :: chain_ctx
  ec_fee_pct :: int
  ec_now :: int

datatype refusal = Skip | FeeRulesJson | MetadataHashMissing | CommitFails commit_error | HintDiffers | CommitDiffers
  | TargetInvalid | ReaderMissing | TooEarly | BlockHashUnreadable | EvidenceRefused ev_refusal | Abstained
  | CommitteeFails rederive_error | NotMember | NoBettors | BetNotLocked hexstr | BetTooLate | Incomplete complete_error
  | Degenerate | BindFails bind_error | RootDiffers | PoolUnread | WinnerDiffers | AtMsInvalid | ClockDiffers
  | BetsUnordered merkle_error | BetsRootFails merkle_error | BetsRootDiffers | RefundRootFails merkle_error | RefundRootDiffers
  | ThrowsFee fee_error | ThrowsPayout payout_error | ThrowsRoot merkle_error

definition PREDICATE_COMMIT_REDEEM_OFFSET :: nat where "PREDICATE_COMMIT_REDEEM_OFFSET = 518"
definition PREDICATE_COMMIT_REDEEM_OFFSET_V2 :: nat where "PREDICATE_COMMIT_REDEEM_OFFSET_V2 = 642"

definition is_v2 :: "enforce_ctx \<Rightarrow> bool" where
  "is_v2 c = (opt_get (ec_rule_spec c) ''zk_native'' = Some (JBool True))"

definition on_chain_commit :: "enforce_ctx \<Rightarrow> hexstr \<Rightarrow> string" where
  "on_chain_commit c psRedeemHex =
    (let off = (if is_v2 c then PREDICATE_COMMIT_REDEEM_OFFSET_V2 else PREDICATE_COMMIT_REDEEM_OFFSET)
     in take 64 (drop (off * 2) psRedeemHex))"

subsection \<open>The commit\<close>

definition rules_address :: "json \<Rightarrow> string \<Rightarrow> json" where
  "rules_address rules name = (case find (\<lambda>r. js_get r ''name'' = Some (JStr name)) (rules_roles rules) of
     Some r \<Rightarrow> or_null (js_get r ''address'') | None \<Rightarrow> JNull)"

text \<open>Without fee rules: the bare hash of the market's metadata, the predicate with the fee recipients, or the
  predicate alone.\<close>

definition legacy_commit :: "(buf \<Rightarrow> buf) \<Rightarrow> enforce_ctx \<Rightarrow> close_request \<Rightarrow> refusal + hexstr" where
  "legacy_commit H c rq =
    (if \<not> js_present (rq_predicate rq) then
       (case ec_metadata_hash c of Some (x # h) \<Rightarrow> Inr (toLowerCase (x # h)) | _ \<Rightarrow> Inl MetadataHashMissing)
     else if truthy_pk (rq_broker_pk rq) then Inr (computeMarketCommit H (rq_predicate rq) (rq_broker_pk rq) (rq_introducer_pk rq))
     else Inr (the (computePredicateCommit H (rq_predicate rq))))"

text \<open>The commit the request must match, and the fee rules it carries.\<close>

definition expected_commit :: "(buf \<Rightarrow> buf) \<Rightarrow> enforce_ctx \<Rightarrow> close_request \<Rightarrow> refusal + hexstr \<times> json option" where
  "expected_commit H c rq =
    (case rq_fee_rules rq of
       Malformed \<Rightarrow> Inl FeeRulesJson
     | Absent \<Rightarrow> map_sum id (\<lambda>h. (h, None)) (legacy_commit H c rq)
     | Parsed rules \<Rightarrow>
       if rules = JNull then map_sum id (\<lambda>h. (h, None)) (legacy_commit H c rq)
       else if \<not> js_present (rq_predicate rq) \<and> (ec_metadata_hash c = None \<or> ec_metadata_hash c = Some []) then Inl MetadataHashMissing
       else (case computeMarketCommitV2 H rules (rq_predicate rq) (ec_metadata_hash c) of Inl e \<Rightarrow> Inl (CommitFails e)
         | Inr h \<Rightarrow>
           if lower_or_null (rq_broker_pk rq) \<noteq> rules_address rules ''broker'' then Inl HintDiffers
           else if lower_or_null (rq_introducer_pk rq) \<noteq> rules_address rules ''introducer'' then Inl HintDiffers
           else Inr (h, Some rules)))"

subsection \<open>The winning side\<close>

text \<open>\<open>parseInt(s.slice(-2), 16)\<close> of a block hash.\<close>

definition last_byte :: "string \<Rightarrow> nat option" where
  "last_byte hash = (case rev hash of
     b # a # _ \<Rightarrow> (case (hexval a, hexval b) of (Some x, Some y) \<Rightarrow> Some (16 * x + y) | _ \<Rightarrow> None)
   | [b] \<Rightarrow> hexval b | [] \<Rightarrow> None)"

text \<open>\<open>Number(target_daa)\<close>, for whole numbers.\<close>

definition target_daa :: "enforce_ctx \<Rightarrow> int option" where
  "target_daa c = js_Integer (opt_get (ec_rule_spec c) ''target_daa'')"

definition judge_block :: "enforce_ctx \<Rightarrow> refusal + int" where
  "judge_block c =
    (case target_daa c of None \<Rightarrow> Inl TargetInvalid | Some targetDaa \<Rightarrow>
     if targetDaa \<le> 0 then Inl TargetInvalid
     else (case ec_daa c of None \<Rightarrow> Inl ReaderMissing | Some curDaa \<Rightarrow>
       if curDaa < targetDaa then Inl TooEarly
       else (case last_byte (ec_block_hash c targetDaa) of None \<Rightarrow> Inl BlockHashUnreadable
         | Some b \<Rightarrow> Inr (if even b then 0 else 1))))"

definition spread_source :: "json option \<Rightarrow> string \<Rightarrow> json" where
  "spread_source p src = (case p of
     Some (JObj kvs) \<Rightarrow> JObj (filter (\<lambda>(k, v). k \<noteq> ''data_source_canonical'') kvs @ [(''data_source_canonical'', JStr src)])
   | _ \<Rightarrow> JObj [(''data_source_canonical'', JStr src)])"

definition evidence_predicate :: "close_request \<Rightarrow> json option" where
  "evidence_predicate rq = (case rq_source rq of
     Some (x # src) \<Rightarrow> if js_truthy (opt_get (rq_predicate rq) ''data_source_canonical'') then rq_predicate rq
       else Some (spread_source (rq_predicate rq) (x # src))
   | _ \<Rightarrow> rq_predicate rq)"

definition judge_evidence :: "enforce_ctx \<Rightarrow> close_request \<Rightarrow> refusal + int" where
  "judge_evidence c rq =
    (case verifyFrozenEvidence (rq_evidence rq) (ec_fetch c (evidence_predicate rq)) of Inl e \<Rightarrow> Inl (EvidenceRefused e)
     | Inr own \<Rightarrow> (case judgeLine (rq_predicate rq) (Some own) of YES \<Rightarrow> Inr 0 | NO \<Rightarrow> Inr 1 | ABSTAIN \<Rightarrow> Inl Abstained))"

definition judge_direction :: "enforce_ctx \<Rightarrow> close_request \<Rightarrow> refusal + int" where
  "judge_direction c rq = (if opt_get (ec_rule_spec c) ''judge_type'' = Some (JStr ''blockhash_parity'') then judge_block c else judge_evidence c rq)"

subsection \<open>The core\<close>

record core_result =
  cr_direction :: int
  cr_committee :: "hexstr list"
  cr_bettors :: "bet_row list"
  cr_ps_pool :: "int option"
  cr_fee_rules :: "json option"

fun bets_locked :: "int option \<Rightarrow> bet_row list \<Rightarrow> refusal option" where
  "bets_locked deadline [] = None"
| "bets_locked deadline (b # bs) = (case br_daa b of None \<Rightarrow> Some (BetNotLocked (br_pk b))
     | Some d \<Rightarrow> if (case deadline of Some x \<Rightarrow> x < int d | None \<Rightarrow> False) then Some BetTooLate else bets_locked deadline bs)"

text \<open>The pool of the redeem script, where the context does not bring one.\<close>

definition complete_ctx :: "enforce_ctx \<Rightarrow> close_request \<Rightarrow> chain_ctx" where
  "complete_ctx c rq = (if cx_ps_pool (ec_chain c) = None
     then (ec_chain c) \<lparr> cx_ps_pool := readPsConsolidatedPool (rq_psRedeem rq) \<rparr> else ec_chain c)"

definition enforceCloseAttestCore :: "(buf \<Rightarrow> buf) \<Rightarrow> enforce_ctx \<Rightarrow> close_request \<Rightarrow> refusal + core_result" where
  "enforceCloseAttestCore H c rq =
    (let myPk = toLowerCase (rq_committee_pk rq) in
     if myPk \<notin> set (map toLowerCase (ec_keys c)) then Inl Skip
     else (case expected_commit H c rq of Inl e \<Rightarrow> Inl e
     | Inr (expectedCommit, feeRules) \<Rightarrow>
       if expectedCommit \<noteq> on_chain_commit c (rq_psRedeem rq) then Inl CommitDiffers
       else (case judge_direction c rq of Inl e \<Rightarrow> Inl e
       | Inr winningDirection \<Rightarrow>
         (case reDeriveCommittee H (rq_market rq) (ec_snapshot c) (ec_root c) (is_v2 c) (ec_deadline c) (ec_end_hash c)
             (ec_bettors c) (rq_psRedeem rq) of Inl e \<Rightarrow> Inl (CommitteeFails e)
         | Inr committee \<Rightarrow>
           if myPk \<notin> set (map toLowerCase committee) then Inl NotMember
           else if ec_bettors c = [] then Inl NoBettors
           else (case bets_locked (ec_deadline c) (ec_bettors c) of Some e \<Rightarrow> Inl e
             | None \<Rightarrow>
               (case verifyBettorsCompleteFromChain H (rq_market rq) (ec_bettors c) (complete_ctx c rq) of Inl e \<Rightarrow> Inl (Incomplete e)
                | Inr _ \<Rightarrow> Inr \<lparr> cr_direction = winningDirection, cr_committee = committee, cr_bettors = ec_bettors c,
                    cr_ps_pool = cx_ps_pool (complete_ctx c rq), cr_fee_rules = feeRules \<rparr>))))))"

subsection \<open>The two closes\<close>

definition pay_bettor :: "bet_row \<Rightarrow> bettor" where
  "pay_bettor b = \<lparr> b_pk = br_pk b, b_direction = br_direction b, b_stake = br_stake b \<rparr>"

definition bets_pool :: "bet_row list \<Rightarrow> int" where
  "bets_pool bs = (\<Sum>b\<leftarrow>bs. br_stake b)"

definition v1_fee_leaves :: "close_request \<Rightarrow> core_result \<Rightarrow> refusal + fee_leaf list" where
  "v1_fee_leaves rq core =
    (let pool = bets_pool (cr_bettors core) in
     case cr_fee_rules core of
       Some rules \<Rightarrow> (case deriveRoleFeeLeaves rules pool (cr_committee core) of Inl e \<Rightarrow> Inl (ThrowsFee e) | Inr (ls, _) \<Rightarrow> Inr ls)
     | None \<Rightarrow> Inr (fst (deriveFeeLeaves pool FEE_CONFIG (rq_broker_pk rq) (rq_introducer_pk rq) (cr_committee core))))"

text \<open>The payout root of a derivation.\<close>

definition derived_root :: "(buf \<Rightarrow> buf) \<Rightarrow> payout_error + pm_result \<Rightarrow> refusal + hexstr" where
  "derived_root H pm = (case pm of Inl e \<Rightarrow> Inl (ThrowsPayout e)
     | Inr r \<Rightarrow> if pm_degenerate r then Inl Degenerate
       else (case settlePayoutRoot H (if pm_payoutLeaves r \<noteq> [] then pm_payoutLeaves r else pm_winners r) of
           Inl e \<Rightarrow> Inl (ThrowsRoot e) | Inr x \<Rightarrow> Inr x))"

record close_pass =
  cp_direction :: int
  cp_tx_hash :: hexstr
  cp_root :: hexstr

definition tx_hash :: "(buf \<Rightarrow> buf) \<Rightarrow> string \<Rightarrow> hexstr" where
  "tx_hash H txSafeJson = hex_encode (H (str_bytes txSafeJson))"

definition enforceCloseAttest :: "(buf \<Rightarrow> buf) \<Rightarrow> (string \<Rightarrow> json option) \<Rightarrow> enforce_ctx \<Rightarrow> close_request \<Rightarrow> refusal + close_pass" where
  "enforceCloseAttest H JP c rq =
    (case enforceCloseAttestCore H c rq of Inl e \<Rightarrow> Inl e
     | Inr core \<Rightarrow>
       (case v1_fee_leaves rq core of Inl e \<Rightarrow> Inl e
        | Inr feeLeaves \<Rightarrow>
          (case derived_root H (computePariMutuelPayout (map pay_bettor (cr_bettors core)) (cr_direction core) None 0 feeLeaves) of Inl e \<Rightarrow> Inl e
           | Inr reDerivedRoot \<Rightarrow>
             (case verifyClosePayoutRootBinding H JP (rq_tx rq) (rq_psRedeem rq) reDerivedRoot of Inl e \<Rightarrow> Inl (BindFails e)
              | Inr _ \<Rightarrow>
                if rq_claimedRoot rq \<noteq> reDerivedRoot then Inl RootDiffers
                else Inr \<lparr> cp_direction = cr_direction core, cp_tx_hash = tx_hash H (rq_tx rq), cp_root = reDerivedRoot \<rparr>))))"

definition CLOCK_TOLERANCE_MS :: int where "CLOCK_TOLERANCE_MS = 600000"

definition check_at_ms :: "enforce_ctx \<Rightarrow> int option \<Rightarrow> refusal + int" where
  "check_at_ms c at' = (case at' of None \<Rightarrow> Inl AtMsInvalid | Some t \<Rightarrow>
     if t < ATTESTED_AT_MS_MIN \<or> ATTESTED_AT_MS_MAX \<le> t then Inl AtMsInvalid
     else if CLOCK_TOLERANCE_MS < \<bar>t - ec_now c\<bar> then Inl ClockDiffers else Inr t)"

definition given_root :: "hexstr \<Rightarrow> hexstr" where
  "given_root r = toLowerCase (strip_0x r)"

text \<open>The bets root and the refund root, over the bets in the order of the chain.\<close>

definition check_bet_roots :: "(buf \<Rightarrow> buf) \<Rightarrow> (string \<Rightarrow> 'k::linorder) \<Rightarrow> close_request \<Rightarrow> bet_row list \<Rightarrow> refusal + hexstr \<times> hexstr" where
  "check_bet_roots H coll rq bettors =
    (case canonicalBetOrder coll bettors of Inl e \<Rightarrow> Inl (BetsUnordered e)
     | Inr ordered \<Rightarrow>
       (case computeBetsRoot H ordered of Inl e \<Rightarrow> Inl (BetsRootFails e)
        | Inr betsRoot \<Rightarrow>
          if hex_encode betsRoot \<noteq> given_root (rq_betsRoot rq) then Inl BetsRootDiffers
          else (case payoutRoot H (map (\<lambda>b. (br_pk b, br_stake b)) ordered) of Inl e \<Rightarrow> Inl (RefundRootFails e)
            | Inr refundRoot \<Rightarrow>
              if hex_encode refundRoot \<noteq> given_root (rq_refundRoot rq) then Inl RefundRootDiffers
              else Inr (hex_encode betsRoot, hex_encode refundRoot))))"

definition enforceCloseAttestV2 ::
  "(buf \<Rightarrow> buf) \<Rightarrow> (string \<Rightarrow> json option) \<Rightarrow> (string \<Rightarrow> 'k::linorder) \<Rightarrow> enforce_ctx \<Rightarrow> close_request \<Rightarrow> refusal + close_pass" where
  "enforceCloseAttestV2 H JP coll c rq =
    (case enforceCloseAttestCore H c rq of Inl e \<Rightarrow> Inl e
     | Inr core \<Rightarrow>
       (case cr_ps_pool core of None \<Rightarrow> Inl PoolUnread
        | Some pool \<Rightarrow>
          (case deriveSettlementFeeLeaves (rq_broker_pk rq) (ec_fee_pct c) pool of Inl e \<Rightarrow> Inl (ThrowsFee e)
           | Inr (feeLeaves, _) \<Rightarrow>
             (case derived_root H (computePariMutuelPayout (map pay_bettor (cr_bettors core)) (cr_direction core) (Some pool) 0 feeLeaves) of Inl e \<Rightarrow> Inl e
              | Inr reDerivedRoot \<Rightarrow>
                if rq_winner rq \<noteq> cr_direction core then Inl WinnerDiffers
                else (case check_at_ms c (rq_atMs rq) of Inl e \<Rightarrow> Inl e
                  | Inr atMs \<Rightarrow>
                    (case check_bet_roots H coll rq (cr_bettors core) of Inl e \<Rightarrow> Inl e
                     | Inr (betsRootHex, refundRootHex) \<Rightarrow>
                       (case verifyClosePayoutV2Binding H JP (rq_tx rq) (rq_psRedeem rq)
                           \<lparr> cv_payoutRoot = reDerivedRoot, cv_winner = rq_winner rq, cv_betsRoot = betsRootHex,
                             cv_refundRoot = refundRootHex, cv_atMs = atMs \<rparr> of Inl e \<Rightarrow> Inl (BindFails e)
                        | Inr _ \<Rightarrow>
                          if rq_claimedRoot rq \<noteq> reDerivedRoot then Inl RootDiffers
                          else Inr \<lparr> cp_direction = cr_direction core, cp_tx_hash = tx_hash H (rq_tx rq), cp_root = reDerivedRoot \<rparr>)))))))"

subsection \<open>What a passed close pays\<close>

lemma enforce_core_Inr:
  assumes "enforceCloseAttestCore H c rq = Inr core"
  obtains h where "expected_commit H c rq = Inr (h, cr_fee_rules core)" "h = on_chain_commit c (rq_psRedeem rq)"
    "judge_direction c rq = Inr (cr_direction core)"
    "reDeriveCommittee H (rq_market rq) (ec_snapshot c) (ec_root c) (is_v2 c) (ec_deadline c) (ec_end_hash c)
       (ec_bettors c) (rq_psRedeem rq) = Inr (cr_committee core)"
    "cr_bettors core = ec_bettors c" "ec_bettors c \<noteq> []"
    "\<exists>a. verifyBettorsCompleteFromChain H (rq_market rq) (ec_bettors c) (complete_ctx c rq) = Inr a"
    "cr_ps_pool core = cx_ps_pool (complete_ctx c rq)"
  using assms unfolding enforceCloseAttestCore_def Let_def
  by (auto split: if_splits sum.splits option.splits prod.splits)

lemma ctx_shards_ps_pool [simp]: "ctx_shards (c\<lparr>cx_ps_pool := x\<rparr>) = ctx_shards c"
  by (cases "cx_shards c") (simp_all add: ctx_shards_def)

text \<open>The pool a close is compared with is the one the member was given, or else the one in the spent script; it is the
  bets and the seed.\<close>

definition close_pool :: "enforce_ctx \<Rightarrow> close_request \<Rightarrow> int option" where
  "close_pool c rq = (case cx_ps_pool (ec_chain c) of Some p \<Rightarrow> Some p | None \<Rightarrow> readPsConsolidatedPool (rq_psRedeem rq))"

definition close_seed :: "enforce_ctx \<Rightarrow> int" where
  "close_seed c = (case cx_ps_seed (ec_chain c) of Some s \<Rightarrow> s | None \<Rightarrow> PS_SEED)"

lemma complete_ctx_pool: "cx_ps_pool (complete_ctx c rq) = close_pool c rq" "cx_ps_seed (complete_ctx c rq) = cx_ps_seed (ec_chain c)"
    "ctx_shards (complete_ctx c rq) = ctx_shards (ec_chain c)"
  by (simp_all add: complete_ctx_def close_pool_def split: option.splits)

lemma core_pool:
  assumes "enforceCloseAttestCore H c rq = Inr core" "ctx_shards (ec_chain c) \<noteq> Some []"
  shows "list_all bet_ok (ec_bettors c)" "cr_bettors core = ec_bettors c" "cr_ps_pool core = close_pool c rq"
    "\<And>p. close_pool c rq = Some p \<Longrightarrow> p = close_seed c + bets_pool (ec_bettors c)"
proof -
  let ?c = "complete_ctx c rq"
  obtain a where v: "verifyBettorsCompleteFromChain H (rq_market rq) (ec_bettors c) ?c = Inr a" and b: "cr_bettors core = ec_bettors c"
    and p: "cr_ps_pool core = cx_ps_pool ?c"
    by (rule enforce_core_Inr [OF assms(1)]) blast
  have "ctx_shards ?c \<noteq> Some []" using assms(2) by (simp add: complete_ctx_pool)
  from complete_Inr [OF v this] have "list_all bet_ok (ec_bettors c)"
    "\<forall>q. cx_ps_pool ?c = Some q \<longrightarrow> q = (case cx_ps_seed ?c of Some s \<Rightarrow> s | None \<Rightarrow> PS_SEED) + (\<Sum>b\<leftarrow>ec_bettors c. br_stake b)"
    by blast+
  then show "list_all bet_ok (ec_bettors c)" "\<And>p. close_pool c rq = Some p \<Longrightarrow> p = close_seed c + bets_pool (ec_bettors c)"
    by (simp_all add: complete_ctx_pool close_seed_def bets_pool_def)
  show "cr_bettors core = ec_bettors c" "cr_ps_pool core = close_pool c rq" using b p by (simp_all add: complete_ctx_pool)
qed

lemma derived_root_pays:
  assumes "derived_root H (computePariMutuelPayout bs d pool 0 fl) = Inr r" "settle_sane (bs, d, pool, fl)"
  shows "\<exists>ls. settlePayoutRoot H ls = Inr r \<and> leaf_sum ls = settle_pool bs pool \<and> (\<forall>l \<in> set ls. 0 \<le> snd l)"
proof -
  obtain pm where pm: "computePariMutuelPayout bs d pool 0 fl = Inr pm" "\<not> pm_degenerate pm"
    and r: "settlePayoutRoot H (if pm_payoutLeaves pm \<noteq> [] then pm_payoutLeaves pm else pm_winners pm) = Inr r"
    using assms(1) by (auto simp: derived_root_def split: sum.splits if_splits)
  have nn: "0 \<le> fee_sum fl" using assms(2) by (intro fee_sum_nonneg) (simp add: settle_sane_def)
  note f = computePariMutuelPayout_Inr [OF pm nn]
  have ne: "pm_payoutLeaves pm \<noteq> []" using f(1) by (simp add: f(6,7))
  have s: "settle_leaves (bs, d, pool, fl) = Some (pm_payoutLeaves pm)" using pm by (simp add: settle_leaves_def)
  show ?thesis using r ne st.conserved [OF s assms(2)] st.nonneg [OF s assms(2)] by auto
qed

lemma feeconfig_sane:
  assumes "0 \<le> pool"
  shows "list_all (\<lambda>l. 0 \<le> fl_amount l) (fst (deriveFeeLeaves pool FEE_CONFIG b i pks)) \<and> fee_sum (fst (deriveFeeLeaves pool FEE_CONFIG b i pks)) \<le> pool"
proof -
  have am: "bps_amt pool 160 * 10000 \<le> pool * 160" "bps_amt pool 20 * 10000 \<le> pool * 20" "bps_amt pool 120 * 10000 \<le> pool * 120"
    "0 \<le> bps_amt pool 160" "0 \<le> bps_amt pool 20" "0 \<le> bps_amt pool 120"
    using assms by (simp_all add: bps_amt_le bps_amt_nonneg)
  have c: "pks \<noteq> [] \<Longrightarrow> fee_sum (committee_leaves (bps_amt pool 120) pks) = bps_amt pool 120" by (rule committee_leaves_sum)
  have cn: "list_all (\<lambda>l. 0 \<le> fl_amount l) (committee_leaves (bps_amt pool 120) pks)" if "pks \<noteq> []"
    using committee_leaves_nonneg [OF am(6) that] by (simp add: list_all_iff)
  show ?thesis
    using am c cn by (cases "truthy_pk b"; cases "truthy_pk i"; cases "pks = []") (simp_all add: deriveFeeLeaves_def FEE_CONFIG_def)
qed

lemma rules_sane:
  assumes "deriveRoleFeeLeaves rules pool pks = Inr (ls, fee)"
  shows "list_all (\<lambda>l. 0 \<le> fl_amount l) ls \<and> fee_sum ls \<le> pool"
proof -
  note b = fee_leaves_bound [OF assms]
  have "fee * 10000 \<le> pool * 5000" using b(3) by (simp add: PROVIDER_MIN_BPS_def)
  then show ?thesis using b by (auto simp: list_all_iff)
qed

lemma pay_bettor_stakes: "sum_list (map (b_stake \<circ> pay_bettor) bs) = bets_pool bs"
  by (simp add: pay_bettor_def bets_pool_def comp_def)

lemma bets_pool_pos: "list_all bet_ok bs \<Longrightarrow> 0 \<le> bets_pool bs \<and> list_all (\<lambda>b. 0 \<le> b_stake b) (map pay_bettor bs)"
  unfolding bets_pool_def by (induction bs) (auto simp: bet_ok_def pay_bettor_def)

lemma v1_pays:
  assumes "enforceCloseAttest H JP c rq = Inr p" "ctx_shards (ec_chain c) \<noteq> Some []"
  shows "\<exists>pool ls s tx. close_pool c rq = Some pool \<and> settlePayoutRoot H ls = Inr (cp_root p)
    \<and> leaf_sum ls = pool - close_seed c \<and> (\<forall>l \<in> set ls. 0 \<le> snd l)
    \<and> splicePayoutCloseRedeem (rq_psRedeem rq) (cp_root p) = Inr s \<and> JP (rq_tx rq) = Some tx
    \<and> cov_outputs tx \<noteq> [] \<and> (\<forall>o' \<in> set (cov_outputs tx). out_spk o' = p2shSpkHex H s)"
proof -
  obtain core fl b where core: "enforceCloseAttestCore H c rq = Inr core" and fl: "v1_fee_leaves rq core = Inr fl"
    and d: "derived_root H (computePariMutuelPayout (map pay_bettor (cr_bettors core)) (cr_direction core) None 0 fl) = Inr (cp_root p)"
    and bd: "verifyClosePayoutRootBinding H JP (rq_tx rq) (rq_psRedeem rq) (cp_root p) = Inr b"
    using assms(1) by (auto simp: enforceCloseAttest_def split: sum.splits if_splits)
  note cp = core_pool [OF core assms(2)]
  note bp = bets_pool_pos [OF cp(1)]
  have "list_all (\<lambda>l. 0 \<le> fl_amount l) fl \<and> fee_sum fl \<le> bets_pool (ec_bettors c)"
    using fl rules_sane feeconfig_sane [of "bets_pool (ec_bettors c)"] bp
    by (auto simp: v1_fee_leaves_def Let_def cp(2) split: option.splits sum.splits)
  then have sane: "settle_sane (map pay_bettor (ec_bettors c), cr_direction core, None, fl)"
    using bp by (simp add: settle_sane_def settle_pool_def pay_bettor_stakes)
  obtain ls where ls: "settlePayoutRoot H ls = Inr (cp_root p)" "leaf_sum ls = bets_pool (ec_bettors c)" "\<forall>l \<in> set ls. 0 \<le> snd l"
    using derived_root_pays [OF d [unfolded cp(2)] sane] by (auto simp: settle_pool_def pay_bettor_stakes)
  obtain tx s where bs: "JP (rq_tx rq) = Some tx" "splicePayoutCloseRedeem (rq_psRedeem rq) (cp_root p) = Inr s"
    "cov_outputs tx \<noteq> []" "\<forall>o' \<in> set (cov_outputs tx). out_spk o' = p2shSpkHex H s"
    using bd bind_outputs_Inr [of H JP "rq_tx rq" "splicePayoutCloseRedeem (rq_psRedeem rq) (cp_root p)" "fst b" "snd b"]
    by (auto simp: verifyClosePayoutRootBinding_def)
  have "52 \<le> length (hex_decode (rq_psRedeem rq))" using bs(2) by (rule splice_v1_bytes)
  then obtain pool where pool: "close_pool c rq = Some pool"
    by (cases "cx_ps_pool (ec_chain c)") (simp_all add: close_pool_def readPsConsolidatedPool_def PS_STATE_START_def)
  have "leaf_sum ls = pool - close_seed c" using cp(4) [OF pool] ls(2) by simp
  then show ?thesis using pool ls(1,3) bs by blast
qed

lemma v2_pays:
  assumes "enforceCloseAttestV2 H JP coll c rq = Inr p" "ctx_shards (ec_chain c) \<noteq> Some []"
  shows "\<exists>pool ls cl s tx. close_pool c rq = Some pool \<and> settlePayoutRoot H ls = Inr (cv_payoutRoot cl)
    \<and> leaf_sum ls = pool \<and> (\<forall>l \<in> set ls. 0 \<le> snd l) \<and> cv_winner cl = cp_direction p \<and> \<bar>cv_atMs cl - ec_now c\<bar> \<le> CLOCK_TOLERANCE_MS
    \<and> splicePayoutV2CloseRedeem (rq_psRedeem rq) cl = Inr s \<and> JP (rq_tx rq) = Some tx
    \<and> cov_outputs tx \<noteq> [] \<and> (\<forall>o' \<in> set (cov_outputs tx). out_spk o' = p2shSpkHex H s)"
proof -
  obtain core pool fl fee bets refund atMs b where core: "enforceCloseAttestCore H c rq = Inr core" and pool: "cr_ps_pool core = Some pool"
    and fl: "deriveSettlementFeeLeaves (rq_broker_pk rq) (ec_fee_pct c) pool = Inr (fl, fee)"
    and d: "derived_root H (computePariMutuelPayout (map pay_bettor (cr_bettors core)) (cr_direction core) (Some pool) 0 fl) = Inr (cp_root p)"
    and w: "rq_winner rq = cr_direction core" "cp_direction p = cr_direction core" and t: "check_at_ms c (rq_atMs rq) = Inr atMs"
    and bd: "verifyClosePayoutV2Binding H JP (rq_tx rq) (rq_psRedeem rq) \<lparr> cv_payoutRoot = cp_root p, cv_winner = rq_winner rq,
       cv_betsRoot = bets, cv_refundRoot = refund, cv_atMs = atMs \<rparr> = Inr b"
    using assms(1) by (auto simp: enforceCloseAttestV2_def split: sum.splits option.splits prod.splits if_splits)
  note cp = core_pool [OF core assms(2)]
  note bp = bets_pool_pos [OF cp(1)]
  have "list_all (\<lambda>l. 0 \<le> fl_amount l) fl \<and> fee_sum fl \<le> pool"
    using fl rules_sane by (auto simp: deriveSettlementFeeLeaves_def split: if_splits)
  then have sane: "settle_sane (map pay_bettor (ec_bettors c), cr_direction core, Some pool, fl)"
    using bp by (simp add: settle_sane_def settle_pool_def)
  obtain ls where ls: "settlePayoutRoot H ls = Inr (cp_root p)" "leaf_sum ls = pool" "\<forall>l \<in> set ls. 0 \<le> snd l"
    using derived_root_pays [OF d [unfolded cp(2)] sane] by (auto simp: settle_pool_def)
  let ?cl = "\<lparr> cv_payoutRoot = cp_root p, cv_winner = rq_winner rq, cv_betsRoot = bets, cv_refundRoot = refund, cv_atMs = atMs \<rparr>"
  obtain tx s where bs: "JP (rq_tx rq) = Some tx" "splicePayoutV2CloseRedeem (rq_psRedeem rq) ?cl = Inr s"
    "cov_outputs tx \<noteq> []" "\<forall>o' \<in> set (cov_outputs tx). out_spk o' = p2shSpkHex H s"
    using bd bind_outputs_Inr [of H JP "rq_tx rq" "splicePayoutV2CloseRedeem (rq_psRedeem rq) ?cl" "fst b" "snd b"]
    by (auto simp: verifyClosePayoutV2Binding_def)
  have "\<bar>atMs - ec_now c\<bar> \<le> CLOCK_TOLERANCE_MS" using t by (auto simp: check_at_ms_def split: option.splits if_splits)
  then show ?thesis using pool cp(3) ls w bs by (intro exI [of _ pool] exI [of _ ls] exI [of _ ?cl] exI [of _ s] exI [of _ tx]) simp
qed

subsection \<open>What is not bound\<close>

text \<open>The core of a market without predicate and fee rules reads neither the broker nor the introducer, nor what the
  request claims to sign.\<close>

lemma core_ignores_broker:
  assumes "\<not> js_present (rq_predicate rq)" "rq_fee_rules rq = Absent"
  shows "enforceCloseAttestCore H c (rq \<lparr> rq_broker_pk := b, rq_introducer_pk := i, rq_claimedRoot := r, rq_tx := t \<rparr>) = enforceCloseAttestCore H c rq"
proof -
  let ?q = "rq \<lparr> rq_broker_pk := b, rq_introducer_pk := i, rq_claimedRoot := r, rq_tx := t \<rparr>"
  have e: "expected_commit H c ?q = expected_commit H c rq" using assms by (simp add: expected_commit_def legacy_commit_def)
  have q: "rq_predicate ?q = rq_predicate rq" "rq_evidence ?q = rq_evidence rq" "rq_source ?q = rq_source rq"
    "rq_psRedeem ?q = rq_psRedeem rq" "rq_market ?q = rq_market rq" "rq_committee_pk ?q = rq_committee_pk rq" by simp_all
  have j: "judge_direction c ?q = judge_direction c rq"
    unfolding judge_direction_def judge_evidence_def evidence_predicate_def q by (rule refl)
  have x: "complete_ctx c ?q = complete_ctx c rq" by (simp add: complete_ctx_def)
  show ?thesis unfolding enforceCloseAttestCore_def e j x q by (rule refl)
qed

lemma any_broker:
  assumes "\<not> js_present (rq_predicate rq)" "rq_fee_rules rq = Absent" "enforceCloseAttestCore H c rq = Inr core"
    and "derived_root H (computePariMutuelPayout (map pay_bettor (cr_bettors core)) (cr_direction core) None 0
       (fst (deriveFeeLeaves (bets_pool (cr_bettors core)) FEE_CONFIG b i (cr_committee core)))) = Inr r"
    and "verifyClosePayoutRootBinding H JP t (rq_psRedeem rq) r = Inr x"
  shows "enforceCloseAttest H JP c (rq \<lparr> rq_broker_pk := b, rq_introducer_pk := i, rq_claimedRoot := r, rq_tx := t \<rparr>)
    = Inr \<lparr> cp_direction = cr_direction core, cp_tx_hash = tx_hash H t, cp_root = r \<rparr>"
proof -
  have "cr_fee_rules core = None"
    by (rule enforce_core_Inr [OF assms(3)], cases "legacy_commit H c rq") (auto simp: expected_commit_def assms(2))
  then show ?thesis
    using assms(3-5) unfolding enforceCloseAttest_def core_ignores_broker [OF assms(1,2)] by (simp add: v1_fee_leaves_def Let_def)
qed

subsection \<open>An example\<close>

lemma hex_encode_append: "hex_encode (a @ b) = hex_encode a @ hex_encode b"
  by (simp add: hex_encode_def)

lemma hex_encode_zeros: "hex_encode (replicate n 0) = replicate (2 * n) (CHR ''0'')"
proof -
  have "hexdigit 0 = CHR ''0''" by code_simp
  then show ?thesis by (induction n) (simp_all add: hex_encode_def)
qed

text \<open>A script with the pool of two bets and the seed, and zeros where the commit is.\<close>

definition ex_head :: buf where
  "ex_head = [0, 8, 0x80, 0xB1, 0x4F, 0x01, 0, 0, 0, 0]"

definition ex_red :: hexstr where
  "ex_red = hex_encode (ex_head @ replicate 600 0)"

lemma ex_red_commit: "take 64 (drop 1036 ex_red) = replicate 64 (CHR ''0'')"
proof -
  have "length (hex_encode ex_head) = 20" unfolding ex_head_def by code_simp
  then show ?thesis unfolding ex_red_def hex_encode_append hex_encode_zeros by simp
qed

lemma ex_red_pool: "readPsConsolidatedPool ex_red = Some 22000000"
proof -
  have "take 8 (drop 2 (ex_head @ replicate 600 0)) = [0x80, 0xB1, 0x4F, 0x01, 0, 0, 0, 0]" by (simp add: ex_head_def)
  moreover have "le_val [0x80, 0xB1, 0x4F, 0x01, 0, 0, 0, 0] = 22000000" by simp
  ultimately have "readBigInt64LE (ex_head @ replicate 600 0) 2 = 22000000" by (simp add: readBigInt64LE_def)
  then show ?thesis by (simp add: readPsConsolidatedPool_def ex_red_def PS_STATE_START_def numeral_2_eq_2)
qed

definition ex_bets :: "bet_row list" where
  "ex_bets = [ex_bet_row (ex_key (CHR ''1'')) 1000000 0, ex_bet_row (ex_key (CHR ''2'')) 1000000 1]"

definition ex_chain :: chain_ctx where
  "ex_chain = \<lparr> cx_shards = Some [ex_shard_info \<lparr> sh_state := Some \<lparr> local_yes = 1000000, local_no = 1000000, ls_count = 2, pool_value = 2000000 \<rparr> \<rparr>],
     cx_db = None, cx_p2sh = Some (\<lambda>r. r), cx_created_addr = None,
     cx_landed = Some (\<lambda>a t. True), cx_ticket_addr = Some (\<lambda>pk d s i. pk), cx_exclude = [], cx_ps_pool = None, cx_ps_seed = None \<rparr>"

definition ex_ctx :: "hexstr \<Rightarrow> hexstr \<Rightarrow> enforce_ctx" where
  "ex_ctx key r = \<lparr> ec_keys = [key], ec_metadata_hash = Some (replicate 64 (CHR ''0'')),
     ec_rule_spec = Some (JObj [(''judge_type'', JStr ''blockhash_parity''), (''target_daa'', JInt 5)]), ec_daa = Some 7, ec_block_hash = (\<lambda>_. ''00''),
     ec_fetch = (\<lambda>_. None), ec_snapshot = \<lparr> sn_root = None, sn_members = ex_pool_members, sn_maker_pk = None, sn_broker_pk = None, sn_deadline = None \<rparr>,
     ec_root = Some r, ec_deadline = Some 9, ec_end_hash = (\<lambda>_. Some (ex_key (CHR ''1''))), ec_bettors = ex_bets, ec_chain = ex_chain,
     ec_fee_pct = 0, ec_now = 0 \<rparr>"

definition ex_request :: "hexstr \<Rightarrow> close_request" where
  "ex_request key = \<lparr> rq_market = ''m'', rq_predicate = None, rq_evidence = None, rq_psRedeem = ex_red, rq_committee_pk = key,
     rq_broker_pk = None, rq_introducer_pk = None, rq_source = None, rq_fee_rules = Absent, rq_claimedRoot = [], rq_tx = [],
     rq_winner = 0, rq_betsRoot = [], rq_refundRoot = [], rq_atMs = None \<rparr>"

lemma ex_complete_close: "verifyBettorsCompleteFromChain H ''m'' ex_bets (ex_chain \<lparr> cx_ps_pool := Some 22000000 \<rparr>)
    = Inr (Some \<lparr> ag_count = 2, ag_yes = 1000000, ag_no = 1000000, ag_pool = 2000000 \<rparr>)"
  by (simp add: verifyBettorsCompleteFromChain_def ctx_shards_def ex_chain_def ex_shard_info_def ex_bets_def ex_bet_row_def add_leaf_def
    compare_sums_def PS_SEED_def check_tickets_def market_tickets_def ticket_rows_def shard_pool_id_def ex_key_def)

lemma ex_core:
  "\<exists>key r comm. enforceCloseAttestCore ex_hash (ex_ctx key r) (ex_request key) = Inr \<lparr> cr_direction = 0, cr_committee = comm, cr_bettors = ex_bets,
     cr_ps_pool = Some 22000000, cr_fee_rules = None \<rparr> \<and> length comm = 5 \<and> set comm \<subseteq> ex_key ` set ''abcdef''"
proof -
  obtain t where t: "buildPoolMerkleTree ex_hash (map m_pk ex_pool_members) = Inr t" "length (tr_root t) = 32" using ex_pool_tree by blast
  let ?r = "hex_encode (tr_root t)"
  obtain x y where r: "?r = x # y" using t(2) by (cases "tr_root t") (auto simp: hex_encode_def)
  have low: "toLowerCase ?r = ?r" by simp
  have "length (hex_decode (strip_0x (ex_key (CHR ''1'')))) = 32" unfolding ex_key_def by code_simp
  then obtain seed where seed: "deriveCommitteeSeed ex_hash ''m'' (ex_key (CHR ''1'')) ?r = Inr seed" "length seed = 32"
    using t(2) ex_hash32 by (auto simp: deriveCommitteeSeed_def hash32_def)
  let ?ex = "[ex_key (CHR ''1''), ex_key (CHR ''2'')]"
  have lo: "lower_char (CHR ''1'') = CHR ''1''" "lower_char (CHR ''2'') = CHR ''2''" by code_simp+
  have "COMMITTEE_SIZE \<le> length (sorted_members ex_pool_members ?ex)"
    by (simp add: sorted_members_def COMMITTEE_SIZE_def ex_pool_members_def ex_lower lo)
  then obtain sel rds where sel: "selectCommittee ex_hash ex_pool_members seed ?ex = Inr (sel, rds)"
    using selectCommittee_total [OF seed(2), of ex_pool_members ?ex ex_hash] by (auto simp: ex_pool_members_def)
  have len: "length sel = 5" using selectCommittee_Inr(2) [OF sel] by (simp add: COMMITTEE_SIZE_def)
  have "set sel \<subseteq> set (sorted_members ex_pool_members ?ex)"
    using selectCommittee_Inr(3) [OF sel] by (metis set_mset_mono set_mset_mset)
  then have sub: "set (map m_pk sel) \<subseteq> ex_key ` set ''abcdef''"
    by (fastforce simp: sorted_members_set ex_pool_members_def ex_lower)
  let ?key = "m_pk (hd sel)"
  have ex: "excluded_bettors 9 ex_bets = Inr ?ex"
    by (simp add: excluded_bettors_def ex_bets_def ex_bet_row_def lo)
  have red: "reDeriveCommittee ex_hash ''m'' (ec_snapshot (ex_ctx ?key ?r)) (Some ?r) False (Some 9) (\<lambda>_. Some (ex_key (CHR ''1''))) ex_bets ex_red = Inr (map m_pk sel)"
    using t(1) seed(1) sel low by (simp add: reDeriveCommittee_def ex_ctx_def r ex opt_pk_def) (simp add: ex_pool_members_def)
  have mem: "toLowerCase ?key \<in> set (map toLowerCase (map m_pk sel))" using len by (cases sel) auto
  have v2: "is_v2 (ex_ctx k q) = False" for k q by (simp add: is_v2_def opt_get_def ex_ctx_def)
  have f: "ec_keys (ex_ctx k q) = [k]" "ec_root (ex_ctx k q) = Some q" "ec_deadline (ex_ctx k q) = Some 9"
    "ec_end_hash (ex_ctx k q) = (\<lambda>_. Some (ex_key (CHR ''1'')))" "ec_bettors (ex_ctx k q) = ex_bets" "rq_market (ex_request k) = ''m''"
    "rq_psRedeem (ex_request k) = ex_red" "rq_committee_pk (ex_request k) = k" for k q
    by (simp_all add: ex_ctx_def ex_request_def)
  have ne: "ex_bets \<noteq> []" by (simp add: ex_bets_def)
  have commit: "expected_commit ex_hash (ex_ctx ?key ?r) (ex_request ?key) = Inr (replicate 64 (CHR ''0''), None)"
  proof -
    have "toLowerCase (replicate 64 (CHR ''0'')) = replicate 64 (CHR ''0'')" by (simp add: toLowerCase_def) code_simp
    moreover have "replicate 64 (CHR ''0'') = CHR ''0'' # replicate 63 (CHR ''0'')" by (simp add: numeral_eq_Suc)
    ultimately show ?thesis by (simp add: expected_commit_def legacy_commit_def ex_request_def ex_ctx_def js_present_def)
  qed
  have on: "on_chain_commit (ex_ctx ?key ?r) ex_red = replicate 64 (CHR ''0'')"
    using ex_red_commit by (simp add: on_chain_commit_def v2 PREDICATE_COMMIT_REDEEM_OFFSET_def)
  have j: "judge_direction (ex_ctx ?key ?r) (ex_request ?key) = Inr 0"
    by (simp add: judge_direction_def judge_block_def target_daa_def ex_ctx_def opt_get_def last_byte_def hexval_def)
  have bl: "bets_locked (Some 9) ex_bets = None" by (simp add: ex_bets_def ex_bet_row_def)
  have cc: "complete_ctx (ex_ctx ?key ?r) (ex_request ?key) = ex_chain \<lparr> cx_ps_pool := Some 22000000 \<rparr>"
    by (simp add: complete_ctx_def ex_ctx_def ex_request_def ex_red_pool ex_chain_def)
  have "enforceCloseAttestCore ex_hash (ex_ctx ?key ?r) (ex_request ?key) = Inr \<lparr> cr_direction = 0, cr_committee = map m_pk sel, cr_bettors = ex_bets,
     cr_ps_pool = Some 22000000, cr_fee_rules = None \<rparr>"
    unfolding enforceCloseAttestCore_def commit j cc f v2
    using mem ne by (simp add: on red bl ex_complete_close)
  then show ?thesis using len sub by (metis length_map)
qed

lemma ex_hex: "c \<in> set ''12abcdef'' \<Longrightarrow> length (hex_decode (ex_key c)) = 32"
proof -
  assume "c \<in> set ''12abcdef''"
  moreover have "list_all is_hex_lower ''12abcdef''" by code_simp
  ultimately have "is_hex_lower c" by (simp only: list_all_iff)
  then show ?thesis using length_hex_decode [of "ex_key c"] by (simp add: ex_key_def list_all_iff)
qed

lemma ex_committee_leaves:
  assumes "length comm = 5" "set comm \<subseteq> ex_key ` set ''abcdef''" "l \<in> set (committee_leaves 24000 comm)"
  shows "fl_pk l \<in> ex_key ` set ''abcdef'' \<and> fl_amount l = 4800"
proof -
  have low: "toLowerCase x \<in> ex_key ` set ''abcdef''" if "x \<in> set comm" for x
    using assms(2) that by (fastforce simp: ex_lower)
  have "fl_pk l \<in> set (map toLowerCase comm)" "fl_amount l = 4800"
    using assms(1,3) by (auto simp: committee_leaves_def Let_def bigdiv_nonneg dest: set_zip_rightD)
  moreover obtain x where "x \<in> set comm" "fl_pk l = toLowerCase x" using calculation(1) by (simp only: set_map image_iff) blast
  ultimately show ?thesis using low [of x] by simp
qed

lemma ex_passes:
  assumes "br = ex_key (CHR ''1'') \<or> br = ex_key (CHR ''2'')"
  shows "\<exists>key r core root' s. enforceCloseAttestCore ex_hash (ex_ctx key r) (ex_request key) = Inr core
    \<and> derived_root ex_hash (computePariMutuelPayout (map pay_bettor (cr_bettors core)) (cr_direction core) None 0
       (fst (deriveFeeLeaves (bets_pool (cr_bettors core)) FEE_CONFIG (Some br) None (cr_committee core)))) = Inr root'
    \<and> verifyClosePayoutRootBinding ex_hash (\<lambda>_. Some (ex_tx (p2shSpkHex ex_hash s))) ''t'' ex_red root' = Inr (p2shSpkHex ex_hash s, 1)"
proof -
  obtain key r comm where core: "enforceCloseAttestCore ex_hash (ex_ctx key r) (ex_request key) = Inr \<lparr> cr_direction = 0, cr_committee = comm,
     cr_bettors = ex_bets, cr_ps_pool = Some 22000000, cr_fee_rules = None \<rparr>" and comm: "length comm = 5" "set comm \<subseteq> ex_key ` set ''abcdef''"
    using ex_core by blast
  let ?b = "\<lparr> fl_pk = br, fl_amount = 32000, fl_type = ''broker'' \<rparr>" and ?c = "committee_leaves 24000 comm"
  have cne: "comm \<noteq> []" using comm(1) by auto
  have lob: "toLowerCase br = br" using assms by (auto simp: lower_char_def)
  have pool: "bets_pool ex_bets = 2000000" by (simp add: bets_pool_def ex_bets_def ex_bet_row_def)
  have brne: "br \<noteq> []" using assms by (auto simp: ex_key_def)
  have fl: "fst (deriveFeeLeaves (bets_pool ex_bets) FEE_CONFIG (Some br) None comm) = ?b # ?c"
    using cne brne by (simp add: pool deriveFeeLeaves_def FEE_CONFIG_def truthy_pk_def bps_amt_def bigdiv_def lob Let_def)
  have fs: "fee_sum (?b # ?c) = 56000" using committee_leaves_sum [OF cne, of 24000] by simp
  let ?ls = "(ex_key (CHR ''1''), 1944000) # map plain_leaf (?b # ?c)"
  have pm: "computePariMutuelPayout (map pay_bettor ex_bets) 0 None 0 (?b # ?c) = Inr \<lparr> pm_degenerate = False, pm_winners = [(ex_key (CHR ''1''), 1944000)],
      pm_payoutLeaves = ?ls, pm_poolTotal = 2000000, pm_distributable = 1944000, pm_feeSompi = 56000 \<rparr>"
    using fs by (simp add: computePariMutuelPayout_def winner_stakes_def ex_bets_def ex_bet_row_def pay_bettor_def floor_shares_def bigdiv_def)
  have len: "length ?c = 5" using comm(1) by (simp add: committee_leaves_def Let_def)
  have ok: "\<forall>w \<in> set ?ls. length (hex_decode (fst w)) = 32 \<and> 0 < snd w \<and> snd w < 2 ^ 63"
    using ex_committee_leaves [OF comm] assms ex_hex by (fastforce simp: plain_leaf_def)
  have "length ?ls \<le> CAP" using len by (simp add: CAP_def DEPTH_def)
  then obtain rt where rt: "payoutRoot ex_hash ?ls = Inr rt" using payoutRoot_ok [OF _ ok] by blast
  obtain ls where "rt = tree_root ex_hash DEPTH (fill_leaves (2 ^ DEPTH) (winner_leaves ex_hash ?ls))"
     "mapE (\<lambda>w. payoutLeaf ex_hash (fst w) (snd w)) ?ls = Inr ls" "length ?ls \<le> 2 ^ DEPTH"
    using rt by (rule payoutRoot_Inr)
  then have "length rt = 32" using fill_tree(1) [of ex_hash ?ls ls DEPTH] tree_root_32 [of ex_hash _ 9] ex_hash32 by (simp add: DEPTH_def)
  then obtain s where s: "splicePayoutCloseRedeem ex_red (hex_encode rt) = Inr s"
    by (auto simp: splicePayoutCloseRedeem_def Let_def ex_red_def ex_head_def PS_STATE_START_def i64_push_def mag_i64LE_def)
  have "derived_root ex_hash (computePariMutuelPayout (map pay_bettor ex_bets) 0 None 0 (?b # ?c)) = Inr (hex_encode rt)"
    unfolding pm derived_root_def settlePayoutRoot_def using rt by simp
  moreover have "verifyClosePayoutRootBinding ex_hash (\<lambda>_. Some (ex_tx (p2shSpkHex ex_hash s))) ''t'' ex_red (hex_encode rt) = Inr (p2shSpkHex ex_hash s, 1)"
    unfolding verifyClosePayoutRootBinding_def s by (rule ex_bind)
  ultimately show ?thesis using core fl by (intro exI conjI) (assumption, simp_all)
qed

lemma ex_pass:
  assumes "br = ex_key (CHR ''1'') \<or> br = ex_key (CHR ''2'')"
  shows "\<exists>key r rq JP p. enforceCloseAttest ex_hash JP (ex_ctx key r) rq = Inr p \<and> rq_psRedeem rq = ex_red \<and> rq_broker_pk rq = Some br"
proof -
  obtain key r core root' s where core: "enforceCloseAttestCore ex_hash (ex_ctx key r) (ex_request key) = Inr core"
    and "derived_root ex_hash (computePariMutuelPayout (map pay_bettor (cr_bettors core)) (cr_direction core) None 0
       (fst (deriveFeeLeaves (bets_pool (cr_bettors core)) FEE_CONFIG (Some br) None (cr_committee core)))) = Inr root'"
    and "verifyClosePayoutRootBinding ex_hash (\<lambda>_. Some (ex_tx (p2shSpkHex ex_hash s))) ''t'' ex_red root' = Inr (p2shSpkHex ex_hash s, 1)"
    using ex_passes [OF assms] by blast
  moreover have "\<not> js_present (rq_predicate (ex_request key))" "rq_fee_rules (ex_request key) = Absent" "rq_psRedeem (ex_request key) = ex_red"
    by (simp_all add: ex_request_def js_present_def)
  ultimately have "enforceCloseAttest ex_hash (\<lambda>_. Some (ex_tx (p2shSpkHex ex_hash s))) (ex_ctx key r)
      ((ex_request key) \<lparr> rq_broker_pk := Some br, rq_introducer_pk := None, rq_claimedRoot := root', rq_tx := ''t'' \<rparr>)
    = Inr \<lparr> cp_direction = cr_direction core, cp_tx_hash = tx_hash ex_hash ''t'', cp_root = root' \<rparr>"
    using any_broker [of "ex_request key"] by simp
  then show ?thesis by (rule_tac exI, rule_tac exI, rule_tac exI, rule_tac exI, rule_tac exI, rule_tac conjI) (assumption, simp add: ex_request_def)
qed

subsection \<open>Properties\<close>

text \<open>C2: a close of the first version that a member signs in a market with shards pays out the pool: the root every covenant
  output of the signed transaction commits to is the root of a list of payments, none negative, that add up to the
  consolidated pool (the one the member was given, or else the one of the spent script) less its seed. Without shards the
  code compares no pool.\<close>
theorem signed_close_pays_pool:
  assumes "enforceCloseAttest H JP c rq = Inr p" "ctx_shards (ec_chain c) \<noteq> Some []"
  shows "\<exists>pool ls s tx. close_pool c rq = Some pool \<and> settlePayoutRoot H ls = Inr (cp_root p)
    \<and> leaf_sum ls = pool - close_seed c \<and> (\<forall>l \<in> set ls. 0 \<le> snd l)
    \<and> splicePayoutCloseRedeem (rq_psRedeem rq) (cp_root p) = Inr s \<and> JP (rq_tx rq) = Some tx
    \<and> cov_outputs tx \<noteq> [] \<and> (\<forall>o' \<in> set (cov_outputs tx). out_spk o' = p2shSpkHex H s)"
  by (rule v1_pays [OF assms])

theorem signed_close_pays_pool_witness:
  "\<exists>key r rq JP p ls. enforceCloseAttest ex_hash JP (ex_ctx key r) rq = Inr p \<and> settlePayoutRoot ex_hash ls = Inr (cp_root p) \<and> leaf_sum ls = 2000000"
proof -
  obtain key r rq JP p where e: "enforceCloseAttest ex_hash JP (ex_ctx key r) rq = Inr p" "rq_psRedeem rq = ex_red" using ex_pass by blast
  have "ctx_shards (ec_chain (ex_ctx key r)) \<noteq> Some []" by (simp add: ex_ctx_def ex_chain_def ctx_shards_def)
  from signed_close_pays_pool [OF e(1) this] obtain pool ls where l: "close_pool (ex_ctx key r) rq = Some pool"
    "settlePayoutRoot ex_hash ls = Inr (cp_root p)" "leaf_sum ls = pool - close_seed (ex_ctx key r)" by blast
  have "leaf_sum ls = 2000000" using l(1,3)
    by (simp add: close_pool_def close_seed_def ex_ctx_def ex_chain_def e(2) ex_red_pool PS_SEED_def)
  then show ?thesis using e(1) l(2) by blast
qed

text \<open>In a market without predicate and fee rules the fee recipients are the settler's: whoever the request names as
  broker and introducer, the member signs a close whose payments include them.\<close>
theorem fee_recipient_unbound:
  assumes "\<not> js_present (rq_predicate rq)" "rq_fee_rules rq = Absent" "enforceCloseAttestCore H c rq = Inr core"
    and "derived_root H (computePariMutuelPayout (map pay_bettor (cr_bettors core)) (cr_direction core) None 0
       (fst (deriveFeeLeaves (bets_pool (cr_bettors core)) FEE_CONFIG b i (cr_committee core)))) = Inr r"
    and "verifyClosePayoutRootBinding H JP t (rq_psRedeem rq) r = Inr x"
  shows "enforceCloseAttest H JP c (rq \<lparr> rq_broker_pk := b, rq_introducer_pk := i, rq_claimedRoot := r, rq_tx := t \<rparr>)
    = Inr \<lparr> cp_direction = cr_direction core, cp_tx_hash = tx_hash H t, cp_root = r \<rparr>"
  by (rule any_broker [OF assms])

theorem fee_recipient_unbound_witness:
  "\<exists>key r JP rq p. enforceCloseAttest ex_hash JP (ex_ctx key r) rq = Inr p \<and> rq_broker_pk rq = Some (ex_key (CHR ''2''))"
proof -
  obtain key r core root' s where core: "enforceCloseAttestCore ex_hash (ex_ctx key r) (ex_request key) = Inr core"
    and d: "derived_root ex_hash (computePariMutuelPayout (map pay_bettor (cr_bettors core)) (cr_direction core) None 0
       (fst (deriveFeeLeaves (bets_pool (cr_bettors core)) FEE_CONFIG (Some (ex_key (CHR ''2''))) None (cr_committee core)))) = Inr root'"
    and v: "verifyClosePayoutRootBinding ex_hash (\<lambda>_. Some (ex_tx (p2shSpkHex ex_hash s))) ''t'' ex_red root' = Inr (p2shSpkHex ex_hash s, 1)"
    using ex_passes by blast
  have q: "\<not> js_present (rq_predicate (ex_request key))" "rq_fee_rules (ex_request key) = Absent" "rq_psRedeem (ex_request key) = ex_red"
    by (simp_all add: ex_request_def js_present_def)
  show ?thesis
    using fee_recipient_unbound [OF q(1,2) core d v [folded q(3)]] by fastforce
qed

end
