(* ===== verification/Consolidate.thy ===== *)
theory Consolidate
  imports Close_Binding Evidence
begin

section \<open>Consolidating the shards of a market\<close>

text \<open>
  The consolidation of \<open>kasia-console/src/lib/pool-shard-settle.mjs\<close>: the shards of a market are absorbed one after
  the other into its payout shard, whose script carries the sum absorbed so far.  A run that broke off is resumed
  from the outputs found on the chain (\<open>autoDetectConsolidateResume\<close>).  The node, the wallet and the table are
  arguments: \<open>utxos\<close> lists the unspent outputs of an address, \<open>send\<close> answers a consolidation with the transaction
  that landed.
\<close>

datatype leaf_col = LeafAbsent | LeafMalformed | Leaf leaf_state

record market_shard =
  ms_index :: nat
  ms_market :: string
  ms_redeem :: hexstr
  ms_leaf :: leaf_col
  ms_outpoint :: string
  ms_status :: string

record payout_shard =
  po_redeem :: hexstr
  po_outpoint :: string

record utxo =
  ut_txid :: string
  ut_index :: int
  ut_amount :: int

record resume =
  rs_from :: nat
  rs_tx :: string
  rs_idx :: int
  rs_pool :: int

datatype cons_error = DeadlineMissing | ShardIncomplete string | LeafParse string | PoolRange | LeafSplice string | NoLand nat

subsection \<open>Checking a script against the chain\<close>

text \<open>The address an indexed output has: \<open>o.address || o.verboseData.scriptPublicKeyAddress || o.scriptPublicKeyAddress\<close>.\<close>

definition observed_address :: "json option \<Rightarrow> json option" where
  "observed_address o' = js_or (opt_get o' ''address'')
     (js_or (opt_get (opt_get o' ''verboseData'') ''scriptPublicKeyAddress'') (opt_get o' ''scriptPublicKeyAddress''))"

definition has_outpoint :: "utxo list \<Rightarrow> string \<Rightarrow> int \<Rightarrow> bool" where
  "has_outpoint us txid idx = list_ex (\<lambda>u. ut_txid u = txid \<and> ut_index u = idx) us"

text \<open>\<open>utxos\<close> is \<open>None\<close> without the fallback; its answer is \<open>None\<close> where the node fails.\<close>

definition verifyRedeemMatchesChainObservedOutput ::
  "(hexstr \<Rightarrow> string option) \<Rightarrow> (string \<Rightarrow> json_col) \<Rightarrow> (string \<Rightarrow> utxo list option) option \<Rightarrow> hexstr \<Rightarrow> string \<Rightarrow> nat \<Rightarrow> bool" where
  "verifyRedeemMatchesChainObservedOutput p2sh outputsOf getUtxos candidateRedeemHex txid idx =
    (case p2sh candidateRedeemHex of None \<Rightarrow> False | Some candidateAddr \<Rightarrow>
      (let fallback = (case getUtxos of None \<Rightarrow> False | Some get \<Rightarrow>
             (case get candidateAddr of None \<Rightarrow> False | Some us \<Rightarrow> has_outpoint us txid (int idx))) in
       case outputsOf txid of
         Parsed (JArr outs) \<Rightarrow>
           (let chainObservedAddr = observed_address (js_idx outs idx) in
            if \<not> js_truthy chainObservedAddr then fallback else chainObservedAddr = Some (JStr candidateAddr))
       | _ \<Rightarrow> fallback))"

subsection \<open>The pool in the script\<close>

text \<open>\<open>writeBigInt64LE(v, 2)\<close> into the script; \<open>None\<close> where it throws.\<close>

definition write_pool :: "buf \<Rightarrow> int \<Rightarrow> buf option" where
  "write_pool b v = (if length b < 10 then None else map_option (\<lambda>x. splice b 2 8 x) (i64LE v))"

definition live_shards :: "market_shard list \<Rightarrow> market_shard list" where
  "live_shards rows = sort_key ms_index (filter (\<lambda>s. ms_status s \<noteq> ''manual_recovery_refunded'') rows)"

subsection \<open>Finding where to resume\<close>

definition at_state :: "(string \<Rightarrow> utxo list) \<Rightarrow> (hexstr \<Rightarrow> string) \<Rightarrow> buf \<Rightarrow> int \<Rightarrow> utxo option" where
  "at_state utxos p2sh redeem pool =
    (case utxos (p2sh (hex_encode redeem)) of [u] \<Rightarrow> if ut_amount u = pool then Some u else None | _ \<Rightarrow> None)"

fun detect_loop :: "(string \<Rightarrow> utxo list) \<Rightarrow> (hexstr \<Rightarrow> string) \<Rightarrow> buf \<Rightarrow> int \<Rightarrow> market_shard list \<Rightarrow> cons_error + resume option" where
  "detect_loop utxos p2sh redeem pool [] = Inr None"
| "detect_loop utxos p2sh redeem pool (s # ss) =
    (case ms_leaf s of LeafMalformed \<Rightarrow> Inr None
     | l \<Rightarrow>
       (let pool' = pool + (case l of Leaf st \<Rightarrow> pool_value st | _ \<Rightarrow> 0) in
        case write_pool redeem pool' of None \<Rightarrow> Inl PoolRange
        | Some redeem' \<Rightarrow>
          (case at_state utxos p2sh redeem' pool' of
             Some u \<Rightarrow> Inr (Some \<lparr> rs_from = ms_index s + 1, rs_tx = ut_txid u, rs_idx = ut_index u, rs_pool = pool' \<rparr>)
           | None \<Rightarrow> detect_loop utxos p2sh redeem' pool' ss)))"

definition autoDetectConsolidateResume ::
  "(string \<Rightarrow> utxo list) \<Rightarrow> (hexstr \<Rightarrow> string) \<Rightarrow> market_shard list \<Rightarrow> payout_shard \<Rightarrow> cons_error + resume option" where
  "autoDetectConsolidateResume utxos p2sh rows payoutShard =
    (let psRedeem = hex_decode (po_redeem payoutShard) in
     if length psRedeem < 10 then Inl PoolRange
     else (let consolidatedPool = readBigInt64LE psRedeem 2 in
       if at_state utxos p2sh psRedeem consolidatedPool \<noteq> None then Inr None
       else detect_loop utxos p2sh psRedeem consolidatedPool (live_shards rows)))"

subsection \<open>Consolidating\<close>

record cons_command =
  cc_lock_time :: int
  cc_redeem :: hexstr
  cc_tx :: string
  cc_idx :: int
  cc_pool :: int
  cc_leaf_redeem :: hexstr
  cc_leaf_outpoint :: string
  cc_value :: int
  cc_fee :: string

record cons_state =
  cn_redeem :: buf
  cn_tx :: string
  cn_idx :: int
  cn_pool :: int
  cn_count :: nat
  cn_settling :: "string list"
  cn_sent :: "cons_command list"

text \<open>One shard; \<open>fee n\<close> is the \<open>n\<close>th transfer to the relay.\<close>

definition consolidate_shard :: "(cons_command \<Rightarrow> string option) \<Rightarrow> (nat \<Rightarrow> string) \<Rightarrow> int \<Rightarrow> market_shard \<Rightarrow> cons_state
    \<Rightarrow> cons_error option \<times> cons_state" where
  "consolidate_shard send fee lockTime s c =
    (if ms_redeem s = [] \<or> ms_leaf s = LeafAbsent then (Some (ShardIncomplete (ms_market s)), c)
     else (case ms_leaf s of LeafMalformed \<Rightarrow> (Some (LeafParse (ms_market s)), c) | LeafAbsent \<Rightarrow> (Some (ShardIncomplete (ms_market s)), c)
     | Leaf st \<Rightarrow>
       (case spliceLeafState (ms_redeem s) st of None \<Rightarrow> (Some (LeafSplice (ms_market s)), c)
        | Some leafRedeem \<Rightarrow>
          (let cmd = \<lparr> cc_lock_time = lockTime, cc_redeem = hex_encode (cn_redeem c), cc_tx = cn_tx c, cc_idx = cn_idx c, cc_pool = cn_pool c,
                 cc_leaf_redeem = leafRedeem, cc_leaf_outpoint = ms_outpoint s, cc_value = pool_value st, cc_fee = fee (cn_count c) \<rparr>;
               sent = c \<lparr> cn_sent := cn_sent c @ [cmd] \<rparr> in
           case send cmd of None \<Rightarrow> (Some (NoLand (ms_index s)), sent)
           | Some tx \<Rightarrow>
             (case write_pool (cn_redeem c) (cn_pool c + pool_value st) of None \<Rightarrow> (Some PoolRange, sent)
              | Some redeem' \<Rightarrow>
                (None, sent \<lparr> cn_redeem := redeem', cn_tx := tx, cn_idx := 0, cn_pool := cn_pool c + pool_value st, cn_count := cn_count c + 1,
                   cn_settling := cn_settling c @ [ms_market s] \<rparr>))))))"

fun consolidate_loop :: "(cons_command \<Rightarrow> string option) \<Rightarrow> (nat \<Rightarrow> string) \<Rightarrow> int \<Rightarrow> market_shard list \<Rightarrow> cons_state
    \<Rightarrow> cons_error option \<times> cons_state" where
  "consolidate_loop send fee lockTime [] c = (None, c)"
| "consolidate_loop send fee lockTime (s # ss) c =
    (case consolidate_shard send fee lockTime s c of (Some e, c') \<Rightarrow> (Some e, c') | (None, c') \<Rightarrow> consolidate_loop send fee lockTime ss c')"

definition outpoint_index :: "string \<Rightarrow> int" where
  "outpoint_index s = int (str_val 0 (takeWhile digit_char (drop 1 (dropWhile (\<lambda>c. c \<noteq> CHR '':'') s))))"

text \<open>The state a run starts in.\<close>

definition cons_start :: "payout_shard \<Rightarrow> resume option \<Rightarrow> cons_error + cons_state" where
  "cons_start payoutShard rs =
    (let redeem = hex_decode (po_redeem payoutShard);
         pool = (case rs of Some r \<Rightarrow> rs_pool r | None \<Rightarrow> readBigInt64LE redeem 2) in
     case write_pool redeem pool of None \<Rightarrow> Inl PoolRange
     | Some redeem' \<Rightarrow> Inr \<lparr> cn_redeem = redeem',
         cn_tx = (case rs of Some r \<Rightarrow> rs_tx r | None \<Rightarrow> takeWhile (\<lambda>c. c \<noteq> CHR '':'') (po_outpoint payoutShard)),
         cn_idx = (case rs of Some r \<Rightarrow> rs_idx r | None \<Rightarrow> outpoint_index (po_outpoint payoutShard)),
         cn_pool = pool, cn_count = 0, cn_settling = [], cn_sent = [] \<rparr>)"

definition consolidateAllShards ::
  "(cons_command \<Rightarrow> string option) \<Rightarrow> (nat \<Rightarrow> string) \<Rightarrow> (string \<Rightarrow> utxo list) option \<Rightarrow> (hexstr \<Rightarrow> string) \<Rightarrow> market_shard list
    \<Rightarrow> payout_shard \<Rightarrow> rat option \<Rightarrow> resume option \<Rightarrow> cons_error + cons_error option \<times> cons_state" where
  "consolidateAllShards send fee getUtxos p2sh rows payoutShard deadline rs0 =
    (case (case (rs0, getUtxos) of (None, Some utxos) \<Rightarrow> autoDetectConsolidateResume utxos p2sh rows payoutShard | _ \<Rightarrow> Inr rs0) of
       Inl e \<Rightarrow> Inl e
     | Inr rs \<Rightarrow>
       (case deadline of None \<Rightarrow> Inl DeadlineMissing | Some d \<Rightarrow>
         if d \<le> 0 then Inl DeadlineMissing
         else (let shards = (case rs of Some r \<Rightarrow> filter (\<lambda>s. rs_from r \<le> ms_index s) (live_shards rows) | None \<Rightarrow> live_shards rows) in
           case cons_start payoutShard rs of Inl e \<Rightarrow> Inl e
           | Inr c \<Rightarrow> Inr (consolidate_loop send fee (\<lfloor>d\<rfloor> * 1000) shards c))))"

subsection \<open>The pool only moves by what was absorbed\<close>

definition leaf_value :: "market_shard \<Rightarrow> int" where
  "leaf_value s = (case ms_leaf s of Leaf st \<Rightarrow> pool_value st | _ \<Rightarrow> 0)"

definition shards_value :: "market_shard list \<Rightarrow> int" where
  "shards_value ss = (\<Sum>s\<leftarrow>ss. leaf_value s)"

lemma shards_value_simps [simp]: "shards_value [] = 0" "shards_value (s # ss) = leaf_value s + shards_value ss"
  "shards_value (ss @ ts) = shards_value ss + shards_value ts"
  by (simp_all add: shards_value_def)

lemma i64LE_length: "i64LE v = Some x \<Longrightarrow> length x = 8"
  by (auto simp: i64LE_def split: if_splits)

lemma write_twice: "write_pool b v = Some b' \<Longrightarrow> write_pool b' u = write_pool b u"
  using length_splice [of _ 8 2 b] splice_twice [of _ 8 2 b]
  by (cases "i64LE u") (auto simp: write_pool_def i64LE_length split: if_splits)

text \<open>Commands that spend each other's output: each carries the pool its script shows.\<close>

fun cmds_chain :: "buf \<Rightarrow> int \<Rightarrow> cons_command list \<Rightarrow> int \<Rightarrow> bool" where
  "cmds_chain g p [] e = (p = e)"
| "cmds_chain g p (c # cs) e = (cc_pool c = p \<and> write_pool g p = Some (hex_decode (cc_redeem c)) \<and> cmds_chain g (p + cc_value c) cs e)"

lemma cmds_chain_append: "cmds_chain g p (cs @ ds) e \<longleftrightarrow> (\<exists>m. cmds_chain g p cs m \<and> cmds_chain g m ds e)"
  by (induction cs arbitrary: p) auto

lemma consolidate_shard_ok:
  assumes "consolidate_shard send fee lt s c = (None, c')" "write_pool g (cn_pool c) = Some (cn_redeem c)" "cmds_chain g p0 (cn_sent c) (cn_pool c)"
  shows "cn_pool c' = cn_pool c + leaf_value s \<and> write_pool g (cn_pool c') = Some (cn_redeem c') \<and> cmds_chain g p0 (cn_sent c') (cn_pool c')
    \<and> cn_settling c' = cn_settling c @ [ms_market s] \<and> cn_count c' = cn_count c + 1"
proof -
  obtain st redeem' lr where st: "ms_leaf s = Leaf st"
    and w: "write_pool (cn_redeem c) (cn_pool c + pool_value st) = Some redeem'"
    and c': "cn_sent c' = cn_sent c @ [\<lparr> cc_lock_time = lt, cc_redeem = hex_encode (cn_redeem c), cc_tx = cn_tx c, cc_idx = cn_idx c,
         cc_pool = cn_pool c, cc_leaf_redeem = lr, cc_leaf_outpoint = ms_outpoint s, cc_value = pool_value st, cc_fee = fee (cn_count c) \<rparr>]"
      "cn_redeem c' = redeem'" "cn_pool c' = cn_pool c + pool_value st"
      "cn_count c' = cn_count c + 1" "cn_settling c' = cn_settling c @ [ms_market s]"
    using assms(1) unfolding consolidate_shard_def Let_def by (auto split: if_splits leaf_col.splits option.splits)
  have "cmds_chain g p0 (cn_sent c') (cn_pool c + pool_value st)"
    using assms(2,3) unfolding c'(1) by (auto simp: cmds_chain_append)
  then show ?thesis using st w write_twice [OF assms(2)] by (simp add: c' leaf_value_def)
qed

lemma consolidate_loop_ok:
  assumes "consolidate_loop send fee lt ss c = (None, c')" "write_pool g (cn_pool c) = Some (cn_redeem c)" "cmds_chain g p0 (cn_sent c) (cn_pool c)"
  shows "cn_pool c' = cn_pool c + shards_value ss \<and> write_pool g (cn_pool c') = Some (cn_redeem c') \<and> cmds_chain g p0 (cn_sent c') (cn_pool c')
    \<and> cn_settling c' = cn_settling c @ map ms_market ss \<and> cn_count c' = cn_count c + length ss"
  using assms
proof (induction ss arbitrary: c)
  case (Cons s ss)
  obtain c1 where s: "consolidate_shard send fee lt s c = (None, c1)" and r: "consolidate_loop send fee lt ss c1 = (None, c')"
    using Cons.prems(1) by (auto split: prod.splits option.splits)
  note k = consolidate_shard_ok [OF s Cons.prems(2,3)]
  from k have "write_pool g (cn_pool c1) = Some (cn_redeem c1)" "cmds_chain g p0 (cn_sent c1) (cn_pool c1)" by blast+
  note i = Cons.IH [OF r this]
  have "cn_pool c' = cn_pool c + shards_value (s # ss)" using i k by simp
  moreover have "cn_settling c' = cn_settling c @ map ms_market (s # ss)" "cn_count c' = cn_count c + length (s # ss)" using i k by simp_all
  ultimately show ?case using i by blast
qed simp

lemma detect_loop_ok:
  assumes "detect_loop utxos p2sh redeem pool ss = Inr (Some r)"
  shows "\<exists>pre s post b. ss = pre @ s # post \<and> rs_from r = ms_index s + 1 \<and> rs_pool r = pool + shards_value (pre @ [s])
    \<and> write_pool redeem (rs_pool r) = Some b \<and> map_option ut_txid (at_state utxos p2sh b (rs_pool r)) = Some (rs_tx r)"
  using assms
proof (induction ss arbitrary: redeem pool)
  case (Cons s ss)
  let ?p = "pool + leaf_value s"
  have nm: "ms_leaf s \<noteq> LeafMalformed" using Cons.prems by auto
  then obtain b where w: "write_pool redeem ?p = Some b" using Cons.prems by (auto simp: leaf_value_def Let_def split: leaf_col.splits option.splits)
  show ?case
  proof (cases "at_state utxos p2sh b ?p")
    case (Some u)
    then have "r = \<lparr> rs_from = ms_index s + 1, rs_tx = ut_txid u, rs_idx = ut_index u, rs_pool = ?p \<rparr>"
      using Cons.prems nm w by (auto simp: leaf_value_def Let_def split: leaf_col.splits)
    then show ?thesis using w Some by (intro exI [of _ "[]"] exI [of _ s] exI [of _ ss] exI [of _ b]) simp
  next
    case None
    then have "detect_loop utxos p2sh b ?p ss = Inr (Some r)"
      using Cons.prems nm w by (auto simp: leaf_value_def Let_def split: leaf_col.splits)
    from Cons.IH [OF this] obtain pre t post b' where h: "ss = pre @ t # post" "rs_from r = ms_index t + 1"
      "rs_pool r = ?p + shards_value (pre @ [t])" "write_pool b (rs_pool r) = Some b'" "map_option ut_txid (at_state utxos p2sh b' (rs_pool r)) = Some (rs_tx r)" by blast
    then show ?thesis using write_twice [OF w] by (intro exI [of _ "s # pre"] exI [of _ t] exI [of _ post] exI [of _ b']) simp
  qed
qed simp

lemma live_sorted: "sorted (map ms_index (live_shards rows))"
  by (simp add: live_shards_def)

lemma resume_rest:
  assumes "distinct (map ms_index (live_shards rows))" "live_shards rows = pre @ s # post"
  shows "filter (\<lambda>t. ms_index s + 1 \<le> ms_index t) (live_shards rows) = post"
proof -
  have so: "sorted (map ms_index (pre @ s # post))" using live_sorted [of rows] assms(2) by simp
  have d: "distinct (map ms_index (pre @ s # post))" using assms by simp
  have "filter (\<lambda>t. ms_index s + 1 \<le> ms_index t) pre = []" using so by (fastforce simp: sorted_append filter_empty_conv)
  moreover have "filter (\<lambda>t. ms_index s + 1 \<le> ms_index t) post = post"
    using so d by (intro filter_True) (force simp: sorted_append image_iff Suc_le_eq order.not_eq_order_implies_strict)
  ultimately show ?thesis by (simp add: assms(2))
qed

definition genesis_pool :: "payout_shard \<Rightarrow> int" where
  "genesis_pool ps = readBigInt64LE (hex_decode (po_redeem ps)) 2"

lemma consolidate_resumed:
  assumes "consolidateAllShards send fee getUtxos p2sh rows ps deadline None = Inr (None, c)" "distinct (map ms_index (live_shards rows))"
  shows "cn_pool c = genesis_pool ps + shards_value (live_shards rows) \<and> write_pool (hex_decode (po_redeem ps)) (cn_pool c) = Some (cn_redeem c)
    \<and> (\<exists>p0. cmds_chain (hex_decode (po_redeem ps)) p0 (cn_sent c) (cn_pool c))"
proof -
  let ?g = "hex_decode (po_redeem ps)"
  obtain rs lt shards c0 where rs: "(case getUtxos of Some utxos \<Rightarrow> autoDetectConsolidateResume utxos p2sh rows ps | None \<Rightarrow> Inr None) = Inr rs"
    and sh: "shards = (case rs of Some r \<Rightarrow> filter (\<lambda>s. rs_from r \<le> ms_index s) (live_shards rows) | None \<Rightarrow> live_shards rows)"
    and c0: "cons_start ps rs = Inr c0" and loop: "consolidate_loop send fee lt shards c0 = (None, c)"
    using assms(1) unfolding consolidateAllShards_def Let_def by (auto split: sum.splits option.splits if_splits)
  have st: "write_pool ?g (cn_pool c0) = Some (cn_redeem c0)" "cn_sent c0 = []" "cn_pool c0 = (case rs of Some r \<Rightarrow> rs_pool r | None \<Rightarrow> genesis_pool ps)"
    using c0 by (auto simp: cons_start_def genesis_pool_def Let_def split: option.splits)
  have c1: "cmds_chain ?g (cn_pool c0) (cn_sent c0) (cn_pool c0)" by (simp add: st(2))
  have k: "cn_pool c = cn_pool c0 + shards_value shards" "write_pool ?g (cn_pool c) = Some (cn_redeem c)" "cmds_chain ?g (cn_pool c0) (cn_sent c) (cn_pool c)"
    using consolidate_loop_ok [OF loop st(1) c1] by blast+
  have "cn_pool c0 + shards_value shards = genesis_pool ps + shards_value (live_shards rows)"
  proof (cases rs)
    case None
    then show ?thesis by (simp add: st(3) sh)
  next
    case (Some r)
    then obtain utxos where "detect_loop utxos p2sh ?g (genesis_pool ps) (live_shards rows) = Inr (Some r)"
      using rs by (auto simp: autoDetectConsolidateResume_def genesis_pool_def Let_def split: option.splits if_splits)
    from detect_loop_ok [OF this] obtain pre s post where p: "live_shards rows = pre @ s # post" "rs_from r = ms_index s + 1"
      "rs_pool r = genesis_pool ps + shards_value (pre @ [s])" by blast
    have "shards = post" using resume_rest [OF assms(2) p(1)] by (simp add: sh Some p(2))
    then show ?thesis using p by (simp add: st(3) Some)
  qed
  then show ?thesis using k by auto
qed

subsection \<open>Properties\<close>

text \<open>C18: a consolidation that completes has absorbed every shard of the market exactly once, also when it resumes a run that
  broke off: the final pool is the genesis pool plus the pools of all live shards, the script carries it, and the
  transactions it sent each spend the pool the one before left.\<close>
theorem consolidation_conserves:
  assumes "consolidateAllShards send fee getUtxos p2sh rows ps deadline None = Inr (None, c)" "distinct (map ms_index (live_shards rows))"
  shows "cn_pool c = genesis_pool ps + shards_value (live_shards rows) \<and> write_pool (hex_decode (po_redeem ps)) (cn_pool c) = Some (cn_redeem c)
    \<and> (\<exists>p0. cmds_chain (hex_decode (po_redeem ps)) p0 (cn_sent c) (cn_pool c))"
  by (rule consolidate_resumed [OF assms])

definition ex_ms :: "nat \<Rightarrow> int \<Rightarrow> market_shard" where
  "ex_ms i v = \<lparr> ms_index = i, ms_market = ''m'', ms_redeem = ''00'',
     ms_leaf = Leaf \<lparr> local_yes = v, local_no = 0, ls_count = 1, pool_value = v \<rparr>, ms_outpoint = ''t:0'', ms_status = ''sealed'' \<rparr>"

definition ex_ps :: payout_shard where
  "ex_ps = \<lparr> po_redeem = hex_encode (replicate 10 0), po_outpoint = ''g:0'' \<rparr>"

definition ex_utxos :: "string \<Rightarrow> utxo list" where
  "ex_utxos a = (if a = hex_encode [0, 0, 5, 0, 0, 0, 0, 0, 0, 0] then [\<lparr> ut_txid = ''u'', ut_index = 0, ut_amount = 5 \<rparr>] else [])"

lemma ex_digits: "i64LE 5 = Some [5, 0, 0, 0, 0, 0, 0, 0]" "i64LE 12 = Some [12, 0, 0, 0, 0, 0, 0, 0]"
  "i64LE 0 = Some [0, 0, 0, 0, 0, 0, 0, 0]" "i64LE 1 = Some [1, 0, 0, 0, 0, 0, 0, 0]" "i64LE 7 = Some [7, 0, 0, 0, 0, 0, 0, 0]"
  by code_simp+

lemma ex_live: "live_shards [ex_ms 1 7, ex_ms 0 5] = [ex_ms 0 5, ex_ms 1 7]"
  by (simp add: live_shards_def ex_ms_def)

lemma ex_detect: "autoDetectConsolidateResume ex_utxos (\<lambda>r. r) [ex_ms 1 7, ex_ms 0 5] ex_ps
    = Inr (Some \<lparr> rs_from = 1, rs_tx = ''u'', rs_idx = 0, rs_pool = 5 \<rparr>)"
proof -
  have g: "hex_decode (po_redeem ex_ps) = [0, 0, 0, 0, 0, 0, 0, 0, 0, 0]" by (simp add: ex_ps_def numeral_eq_Suc)
  have w: "write_pool [0, 0, 0, 0, 0, 0, 0, 0, 0, 0] 5 = Some [0, 0, 5, 0, 0, 0, 0, 0, 0, 0]"
    by (simp add: write_pool_def ex_digits splice_def)
  show ?thesis
    unfolding autoDetectConsolidateResume_def g ex_live
    by (simp add: readBigInt64LE_def at_state_def ex_utxos_def hex_encode_inj w ex_ms_def)
qed

theorem consolidation_conserves_witness:
  "\<exists>c. consolidateAllShards (\<lambda>_. Some ''t'') (\<lambda>_. ''f'') (Some ex_utxos) (\<lambda>r. r) [ex_ms 1 7, ex_ms 0 5] ex_ps (Some 9) None = Inr (None, c)
    \<and> cn_count c = 1 \<and> cn_pool c = 12"
proof -
  have g: "hex_decode (po_redeem ex_ps) = [0, 0, 0, 0, 0, 0, 0, 0, 0, 0]" by (simp add: ex_ps_def numeral_eq_Suc)
  have w: "write_pool [0, 0, 0, 0, 0, 0, 0, 0, 0, 0] 5 = Some [0, 0, 5, 0, 0, 0, 0, 0, 0, 0]"
    "write_pool [0, 0, 5, 0, 0, 0, 0, 0, 0, 0] 12 = Some [0, 0, 12, 0, 0, 0, 0, 0, 0, 0]"
    by (simp_all add: write_pool_def ex_digits splice_def)
  have "\<exists>x. spliceLeafState ''00'' \<lparr> local_yes = 7, local_no = 0, ls_count = 1, pool_value = 7 \<rparr> = Some x"
    by (simp add: spliceLeafState_def ex_digits)
  then obtain x where x: "spliceLeafState ''00'' \<lparr> local_yes = 7, local_no = 0, ls_count = 1, pool_value = 7 \<rparr> = Some x" by blast
  have "\<exists>c. consolidateAllShards (\<lambda>_. Some ''t'') (\<lambda>_. ''f'') (Some ex_utxos) (\<lambda>r. r) [ex_ms 1 7, ex_ms 0 5] ex_ps (Some 9) None = Inr (None, c)
    \<and> cn_count c = 1"
    unfolding consolidateAllShards_def ex_detect ex_live prod.case sum.case option.case g
    by (simp add: cons_start_def g w ex_ms_def consolidate_shard_def x)
  then obtain c where c: "consolidateAllShards (\<lambda>_. Some ''t'') (\<lambda>_. ''f'') (Some ex_utxos) (\<lambda>r. r) [ex_ms 1 7, ex_ms 0 5] ex_ps (Some 9) None = Inr (None, c)"
    "cn_count c = 1" by blast
  have "distinct (map ms_index (live_shards [ex_ms 1 7, ex_ms 0 5]))" unfolding ex_live by (simp add: ex_ms_def)
  moreover have "genesis_pool ex_ps = 0" unfolding genesis_pool_def g by (simp add: readBigInt64LE_def)
  moreover have "shards_value (live_shards [ex_ms 1 7, ex_ms 0 5]) = 12" unfolding ex_live by (simp add: leaf_value_def ex_ms_def)
  ultimately show ?thesis using consolidation_conserves [OF c(1)] c by fastforce
qed

text \<open>Two sources are never played against each other: once the indexed output has an address, the answer is whether it is
  the candidate's, whatever the node lists, and a script without an address is never accepted.\<close>
theorem observed_mismatch_final:
  assumes "outputsOf txid = Parsed (JArr outs)" "js_truthy (observed_address (js_idx outs idx))"
  shows "verifyRedeemMatchesChainObservedOutput p2sh outputsOf getUtxos red txid idx
    = (\<exists>a. p2sh red = Some a \<and> observed_address (js_idx outs idx) = Some (JStr a))"
  using assms by (simp add: verifyRedeemMatchesChainObservedOutput_def split: option.split)

theorem observed_mismatch_final_witness:
  "\<not> verifyRedeemMatchesChainObservedOutput (\<lambda>r. Some r) (\<lambda>_. Parsed (JArr [JObj [(''address'', JStr ''b'')]]))
    (Some (\<lambda>_. Some [\<lparr> ut_txid = ''t'', ut_index = 0, ut_amount = 1 \<rparr>])) ''a'' ''t'' 0"
  by (subst observed_mismatch_final [where outs = "[JObj [(''address'', JStr ''b'')]]"])
    (simp_all add: observed_address_def opt_get_def js_or_def js_idx_def)

end
