(* ===== verification/Exchange.thy ===== *)
theory Exchange
  imports Chain_Event Fund_Lock
begin

section \<open>The exchange machine\<close>

text \<open>
  \<open>kasia-console/src/services/exchange-machine.js\<close>: the offers of the free market (table \<open>exchange_offers\<close>) and the
  handlers that move them.  The database is a record of the tables the machine touches; the columns \<open>verification_meta\<close>
  and \<open>metadata\<close> are JSON texts, kept as their values.  Amount columns are texts, read by \<open>parseFloat\<close>.  Times are
  milliseconds, which order like the ISO texts the code stores.  \<open>xenv\<close> holds what comes from outside: the clock,
  random ids, the hash, the text of a number and the answers of the relay and of the chain verifier.  Messages to
  users and the payment of the maker, which the code starts without waiting for them, are appended to an outbox;
  their wording is not modelled.
\<close>

datatype xstatus = XOpen | XMatched | XVerifying | XDelivering | XVerified | XManual | XOracle
  | XPendingTaker | XHandshakeDone | XAwaitingTakerStake | XCollectingSigs
  | XCompleted | XDisputed | XTimedOut | XFailed | XCancelled | XExpired | XRefunded

fun OFFER_TRANSITIONS :: "xstatus \<Rightarrow> xstatus list" where
  "OFFER_TRANSITIONS XOpen = [XMatched, XCancelled, XExpired, XRefunded, XTimedOut]"
| "OFFER_TRANSITIONS XMatched = [XVerifying, XManual, XOracle, XRefunded]"
| "OFFER_TRANSITIONS XVerifying = [XDelivering, XCollectingSigs, XDisputed, XTimedOut, XRefunded]"
| "OFFER_TRANSITIONS XDelivering = [XCompleted, XVerified, XDisputed, XRefunded]"
| "OFFER_TRANSITIONS XVerified = [XDelivering, XDisputed, XTimedOut, XRefunded]"
| "OFFER_TRANSITIONS XManual = [XCompleted, XDisputed, XTimedOut, XRefunded]"
| "OFFER_TRANSITIONS XOracle = [XCompleted, XFailed, XTimedOut, XRefunded]"
| "OFFER_TRANSITIONS XPendingTaker = [XHandshakeDone, XCancelled, XExpired]"
| "OFFER_TRANSITIONS XHandshakeDone = [XAwaitingTakerStake, XCancelled, XExpired]"
| "OFFER_TRANSITIONS XAwaitingTakerStake = [XMatched, XRefunded, XExpired, XTimedOut]"
| "OFFER_TRANSITIONS XCollectingSigs = [XCompleted, XVerifying, XRefunded, XTimedOut]"
| "OFFER_TRANSITIONS _ = []"

definition OFFER_TERMINAL :: "xstatus list" where
  "OFFER_TERMINAL = [XCompleted, XDisputed, XTimedOut, XFailed, XCancelled, XExpired, XRefunded]"

fun xstatus_text :: "xstatus \<Rightarrow> string" where
  "xstatus_text XOpen = ''open''"
| "xstatus_text XMatched = ''matched''"
| "xstatus_text XVerifying = ''verifying''"
| "xstatus_text XDelivering = ''delivering''"
| "xstatus_text XVerified = ''verified''"
| "xstatus_text XManual = ''awaiting_manual_confirm''"
| "xstatus_text XOracle = ''awaiting_oracle''"
| "xstatus_text XPendingTaker = ''pending_taker''"
| "xstatus_text XHandshakeDone = ''handshake_done''"
| "xstatus_text XAwaitingTakerStake = ''open_awaiting_taker_stake''"
| "xstatus_text XCollectingSigs = ''collecting_sigs''"
| "xstatus_text XCompleted = ''completed''"
| "xstatus_text XDisputed = ''disputed''"
| "xstatus_text XTimedOut = ''timed_out''"
| "xstatus_text XFailed = ''failed''"
| "xstatus_text XCancelled = ''cancelled''"
| "xstatus_text XExpired = ''expired''"
| "xstatus_text XRefunded = ''refunded''"

record xoffer =
  xo_id :: string
  xo_tx :: string
  xo_index :: int
  xo_give_asset :: string
  xo_give_amount :: string
  xo_give_chain :: "string option"
  xo_want_asset :: string
  xo_want_amount :: string
  xo_want_chain :: "string option"
  xo_maker :: string
  xo_expires_at :: "nat option"
  xo_verification :: string
  xo_vmeta :: payload
  xo_metadata :: payload
  xo_status :: xstatus
  xo_observed :: bool
  xo_market_key :: string
  xo_taker :: "string option"
  xo_taker_tx :: "string option"
  xo_commitment :: "string option"
  xo_filled :: rat
  xo_tolerance :: "rat option"
  xo_taker_chain :: "string option"
  xo_taker_addr :: "string option"
  xo_payment_tx :: "string option"
  xo_delivery_tx :: "string option"
  xo_matched_at :: "nat option"
  xo_verifying_at :: "nat option"
  xo_delivering_at :: "nat option"
  xo_completed_at :: "nat option"
  xo_disputed_at :: "nat option"
  xo_timed_out_at :: "nat option"
  xo_cancelled_at :: "nat option"
  xo_maker_confirmed :: "nat option"
  xo_taker_confirmed :: "nat option"
  xo_created_at :: nat
  xo_updated_at :: nat

text \<open>The accept message of the protocol; an accept that comes before its offer is stored until the offer arrives.\<close>

record accept_msg =
  am_offer :: string
  am_from :: string
  am_tx :: "string option"
  am_commitment :: "string option"
  am_receive :: "string option"
  am_evm :: "string option"
  am_chain :: "string option"
  am_amount :: "json option"
  am_price :: "json option"

record orphan =
  or_id :: string
  or_offer :: string
  or_msg :: accept_msg
  or_received_at :: nat

text \<open>The columns of \<open>retail_dex_buy_publications\<close>, \<open>retail_dex_orders\<close> and \<open>relation_states\<close> the machine uses.\<close>

record publication =
  pb_id :: string
  pb_offer :: "string option"
  pb_state :: string
  pb_pay_chain :: string
  pb_total :: string
  pb_filled_at :: "string option"
  pb_delivery_tx :: "string option"
  pb_error :: "string option"

record retail_link =
  rl_id :: string
  rl_offer :: "string option"
  rl_user :: string
  rl_state :: string
  rl_deliver_tx :: "string option"
  rl_created_at :: nat
  rl_updated_at :: nat

record relay_row =
  rn_id :: string
  rn_address :: string
  rn_dex_broker :: bool

text \<open>What is sent or started: a message of a kind to a user, the payment of the maker, a hedge, a broadcast of a type about
  an offer, a transfer of an amount of an asset to an address, a verification of a payment, the automatic taker and the
  automatic payments of a local taker.\<close>

datatype xcommand = DmUser string string | PayGive xoffer | Hedge xoffer
  | Broadcast string string string | Transfer string string string string | Verify string string string nat
  | EvaluateTake string | AutoPay string string | AutoSettle string string

record xdb =
  xd_offers :: "xoffer list"
  xd_orphans :: "orphan list"
  xd_locks :: "lock_row list"
  xd_events :: event_db
  xd_relations :: "(string \<times> string) list"
  xd_pubs :: "publication list"
  xd_retail :: "retail_link list"
  xd_relays :: "relay_row list"
  xd_outbox :: "xcommand list"
  xd_draws :: nat

datatype verdict_tx = TxConfirmed nat | TxNotConfirmed string

record xenv =
  xe_now :: nat
  xe_uuid :: "nat \<Rightarrow> string"
  xe_sha :: "string \<Rightarrow> string"
  xe_num :: "rat \<Rightarrow> json"
  xe_send :: "string \<Rightarrow> xcommand \<Rightarrow> nat \<Rightarrow> string option"
  xe_verify :: "string \<Rightarrow> string \<Rightarrow> rat \<Rightarrow> string option \<Rightarrow> string \<Rightarrow> verdict_tx"
  xe_supported :: "string \<Rightarrow> string \<Rightarrow> bool"
  xe_wallet :: "string \<Rightarrow> string \<Rightarrow> bool"
  xe_pay :: "string \<Rightarrow> string option \<Rightarrow> rat option \<Rightarrow> string + string"

datatype xerror = OfferNotFound | MetaMalformed | MetaNotObject

subsection \<open>JSON columns and lookups\<close>

text \<open>\<open>JSON.parse(column || '{}')\<close>, and the assignment \<open>meta.k = v\<close>, which throws where \<open>meta\<close> is \<open>null\<close> or a plain
  value and is lost in the text where it is an array.\<close>

definition parse_meta :: "payload \<Rightarrow> xerror + json" where
  "parse_meta p = (case p of NoPayload \<Rightarrow> Inr (JObj []) | JsonPayload j \<Rightarrow> Inr j
     | TextPayload t \<Rightarrow> if t = [] then Inr (JObj []) else Inl MetaMalformed)"

fun obj_put :: "string \<Rightarrow> json \<Rightarrow> (string \<times> json) list \<Rightarrow> (string \<times> json) list" where
  "obj_put k v [] = [(k, v)]"
| "obj_put k v ((a, b) # kvs) = (if a = k then (k, v) # kvs else (a, b) # obj_put k v kvs)"

definition put_key :: "string \<Rightarrow> json \<Rightarrow> json \<Rightarrow> xerror + json" where
  "put_key k v j = (case j of JObj kvs \<Rightarrow> Inr (JObj (obj_put k v kvs)) | JArr xs \<Rightarrow> Inr (JArr xs) | _ \<Rightarrow> Inl MetaNotObject)"

fun put_keys :: "(string \<times> json) list \<Rightarrow> json \<Rightarrow> xerror + json" where
  "put_keys [] j = Inr j"
| "put_keys ((k, v) # kvs) j = (case put_key k v j of Inl e \<Rightarrow> Inl e | Inr j' \<Rightarrow> put_keys kvs j')"

definition nonempty :: "string option \<Rightarrow> bool" where
  "nonempty x = (x \<noteq> None \<and> x \<noteq> Some [])"

definition str_or :: "string option \<Rightarrow> string option \<Rightarrow> string option" where
  "str_or a b = (if nonempty a then a else b)"

text \<open>\<open>JSON.stringify\<close> of a column that may be \<open>NULL\<close>, and of a member that may be undefined (it is left out).\<close>

definition null_or :: "string option \<Rightarrow> json" where
  "null_or x = (case x of Some t \<Rightarrow> JStr t | None \<Rightarrow> JNull)"

definition opt_field :: "string \<Rightarrow> string option \<Rightarrow> (string \<times> json) list" where
  "opt_field k x = (case x of Some t \<Rightarrow> [(k, JStr t)] | None \<Rightarrow> [])"

definition find_offer :: "xdb \<Rightarrow> string \<Rightarrow> xoffer option" where
  "find_offer db oid = find (\<lambda>r. xo_id r = oid) (xd_offers db)"

definition update_offer :: "string \<Rightarrow> (xoffer \<Rightarrow> xoffer) \<Rightarrow> xdb \<Rightarrow> xdb" where
  "update_offer oid f db = db\<lparr> xd_offers := update_where (\<lambda>r. xo_id r = oid) f (xd_offers db) \<rparr>"

definition send_out :: "xcommand \<Rightarrow> xdb \<Rightarrow> xdb" where
  "send_out c db = db\<lparr> xd_outbox := xd_outbox db @ [c] \<rparr>"

definition local_relay :: "xdb \<Rightarrow> string \<Rightarrow> relay_row option" where
  "local_relay db address = find (\<lambda>r. rn_address r = address) (xd_relays db)"

definition log_event :: "xenv \<Rightarrow> string option \<Rightarrow> string \<Rightarrow> string option \<Rightarrow> string option \<Rightarrow> json \<Rightarrow> xdb \<Rightarrow> xdb" where
  "log_event env txid type sender receiver payload db =
    db\<lparr> xd_events := recordChainEvent (xd_events db) (xe_uuid env (xd_draws db)) (xe_now env)
          \<lparr> in_txid = (case txid of Some t \<Rightarrow> t | None \<Rightarrow> []), in_type = type, in_from = sender, in_to = receiver,
            in_observed_by = ''system'', in_payload = JsonPayload payload, in_observed_at = None \<rparr>,
        xd_draws := xd_draws db + 1 \<rparr>"

text \<open>A direct \<open>INSERT INTO chain_events\<close>: the table wants a transaction, an observer and no second event of the type for
  the transaction.  \<open>None\<close> stands for the exception.\<close>

definition insert_event :: "xenv \<Rightarrow> string option \<Rightarrow> string \<Rightarrow> string option \<Rightarrow> string option \<Rightarrow> json \<Rightarrow> string option \<Rightarrow> xdb \<Rightarrow> xdb option" where
  "insert_event env txid type sender receiver payload observed_by db =
    (case (txid, observed_by) of
       (Some t, Some o') \<Rightarrow>
         if list_ex (\<lambda>x. (ev_txid x = t \<and> ev_type x = type) \<or> ev_id x = xe_uuid env (xd_draws db)) (db_events (xd_events db)) then None
         else Some (db\<lparr> xd_events := (xd_events db)\<lparr> db_events := db_events (xd_events db) @
                [\<lparr> ev_id = xe_uuid env (xd_draws db), ev_txid = t, ev_from = sender, ev_to = receiver, ev_type = type,
                   ev_payload = JsonPayload payload, ev_observed_by = o', ev_observed_at = xe_now env \<rparr>] \<rparr>,
              xd_draws := xd_draws db + 1 \<rparr>)
     | _ \<Rightarrow> None)"

definition terms_json :: "xoffer \<Rightarrow> (string \<times> json) list" where
  "terms_json r = [(''give_asset'', JStr (xo_give_asset r)), (''give_amount'', JStr (xo_give_amount r)),
     (''want_asset'', JStr (xo_want_asset r)), (''want_amount'', JStr (xo_want_amount r))]"

subsection \<open>One transition\<close>

record match_info =
  mi_taker :: string
  mi_tx :: "string option"
  mi_commitment :: string
  mi_filled :: rat

record extra =
  xt_txHash :: "string option"
  xt_match :: "match_info option"

definition set_offer_time :: "xstatus \<Rightarrow> nat \<Rightarrow> xoffer \<Rightarrow> xoffer" where
  "set_offer_time s now r = (case s of
      XMatched \<Rightarrow> r\<lparr> xo_matched_at := Some now \<rparr>
    | XVerifying \<Rightarrow> r\<lparr> xo_verifying_at := Some now \<rparr>
    | XManual \<Rightarrow> r\<lparr> xo_verifying_at := Some now \<rparr>
    | XOracle \<Rightarrow> r\<lparr> xo_verifying_at := Some now \<rparr>
    | XDelivering \<Rightarrow> r\<lparr> xo_delivering_at := Some now \<rparr>
    | XCompleted \<Rightarrow> r\<lparr> xo_completed_at := Some now \<rparr>
    | XDisputed \<Rightarrow> r\<lparr> xo_disputed_at := Some now \<rparr>
    | XTimedOut \<Rightarrow> r\<lparr> xo_timed_out_at := Some now \<rparr>
    | XCancelled \<Rightarrow> r\<lparr> xo_cancelled_at := Some now \<rparr>
    | _ \<Rightarrow> r)"

text \<open>The \<open>SET\<close> list of the \<open>UPDATE\<close>.\<close>

definition offer_update :: "nat \<Rightarrow> xstatus \<Rightarrow> extra \<Rightarrow> xoffer \<Rightarrow> xoffer" where
  "offer_update now s ex r0 =
    (let r1 = set_offer_time s now (r0\<lparr> xo_status := s, xo_updated_at := now \<rparr>);
         r2 = (if s \<in> set OFFER_TERMINAL then r1\<lparr> xo_observed := True \<rparr> else r1)
     in case xt_match ex of None \<Rightarrow> r2
        | Some m \<Rightarrow> r2\<lparr> xo_taker := Some (mi_taker m), xo_taker_tx := mi_tx m, xo_commitment := Some (mi_commitment m), xo_filled := mi_filled m \<rparr>)"

definition settle_offer_locks :: "nat \<Rightarrow> string \<Rightarrow> xstatus \<Rightarrow> lock_row list \<Rightarrow> lock_row list" where
  "settle_offer_locks now oid s locks =
    (if s \<notin> set OFFER_TERMINAL then locks
     else if s = XCompleted then fst (spendFunds locks now oid) else fst (releaseFunds locks now oid))"

definition dm_kind :: "xstatus \<Rightarrow> string option" where
  "dm_kind s = (case s of XDelivering \<Rightarrow> Some ''dm_payment_verified'' | XCompleted \<Rightarrow> Some ''dm_complete''
     | XTimedOut \<Rightarrow> Some ''dm_timeout'' | XDisputed \<Rightarrow> Some ''dm_failed'' | XFailed \<Rightarrow> Some ''dm_failed'' | _ \<Rightarrow> None)"

text \<open>The message to a taker with a chain address; the one about a dispute reads the reason from \<open>verification_meta\<close>.\<close>

definition notify_taker :: "xoffer \<Rightarrow> xstatus \<Rightarrow> xdb \<Rightarrow> xerror + xdb" where
  "notify_taker offer s db = (case xo_taker offer of None \<Rightarrow> Inr db
     | Some t \<Rightarrow> if take 6 t \<noteq> ''kaspa:'' then Inr db
       else (case (if s = XDisputed then parse_meta (xo_vmeta offer) else Inr JNull) of Inl e \<Rightarrow> Inl e
         | Inr j \<Rightarrow> if s = XDisputed \<and> j = JNull then Inl MetaNotObject
             else (case dm_kind s of None \<Rightarrow> Inr db | Some k \<Rightarrow> Inr (send_out (DmUser k t) db))))"

definition verify_parties :: "xoffer \<Rightarrow> xdb \<Rightarrow> xdb" where
  "verify_parties offer db = (case xo_taker offer of
      Some t \<Rightarrow> if t \<noteq> [] \<and> xo_maker offer \<noteq> []
        then db\<lparr> xd_relations := map (\<lambda>(p, c). (p, if p = xo_maker offer \<or> p = t then ''verified_agent'' else c)) (xd_relations db) \<rparr> else db
    | None \<Rightarrow> db)"

definition move_event :: "xenv \<Rightarrow> xoffer \<Rightarrow> xstatus \<Rightarrow> extra \<Rightarrow> xdb \<Rightarrow> xdb" where
  "move_event env offer s ex db =
    log_event env (str_or (xt_txHash ex) (case xt_match ex of Some m \<Rightarrow> mi_tx m | None \<Rightarrow> None)) (''exchange_'' @ xstatus_text s)
      (Some (xo_maker offer)) (xo_taker offer)
      (JObj ([(''offer_id'', JStr (xo_id offer))] @ terms_json offer @
         [(''from_status'', JStr (xstatus_text (xo_status offer))), (''to_status'', JStr (xstatus_text s))])) db"

text \<open>A refused move returns the offer as it is.  A failing message leaves the move done.\<close>

definition exchangeTransition :: "xenv \<Rightarrow> xdb \<Rightarrow> string \<Rightarrow> xstatus \<Rightarrow> extra \<Rightarrow> xdb \<times> (xerror + xoffer)" where
  "exchangeTransition env db oid s ex =
    (case find_offer db oid of None \<Rightarrow> (db, Inl OfferNotFound)
     | Some offer \<Rightarrow>
       if xo_status offer \<in> set OFFER_TERMINAL \<or> s \<notin> set (OFFER_TRANSITIONS (xo_status offer)) then (db, Inr offer)
       else (let db1 = db\<lparr> xd_locks := settle_offer_locks (xe_now env) oid s (xd_locks db) \<rparr>;
                 db2 = update_offer oid (offer_update (xe_now env) s ex) db1;
                 db3 = move_event env offer s ex db2
             in case notify_taker offer s db3 of Inl e \<Rightarrow> (db3, Inl e)
                | Inr db4 \<Rightarrow>
                  (let db5 = (if s = XCompleted then verify_parties offer db4 else db4);
                       db6 = (if s = XCompleted \<and> xo_give_asset offer = ''USDT'' \<and> nonempty (xo_give_chain offer)
                              then send_out (PayGive offer) db5 else db5)
                   in (db6, Inr (offer_update (xe_now env) s ex offer)))))"

definition move :: "xenv \<Rightarrow> xdb \<Rightarrow> string \<Rightarrow> xstatus \<Rightarrow> xdb" where
  "move env db oid s = fst (exchangeTransition env db oid s \<lparr> xt_txHash = None, xt_match = None \<rparr>)"

subsection \<open>Accepting an offer\<close>

definition number_of :: "json option \<Rightarrow> rat option" where
  "number_of j = (case j of Some v \<Rightarrow> parseFloat (js_String v) | None \<Rightarrow> None)"

definition verification_target :: "string \<Rightarrow> xstatus" where
  "verification_target v = (if v = [] \<or> v = ''manual'' then XManual else if v = ''oracle'' then XOracle else XVerifying)"

definition routeToVerification :: "xenv \<Rightarrow> xdb \<Rightarrow> xoffer \<Rightarrow> xdb \<times> (xerror + xoffer)" where
  "routeToVerification env db offer =
    (if xo_status offer \<noteq> XMatched then (db, Inr offer)
     else exchangeTransition env db (xo_id offer) (verification_target (xo_verification offer)) \<lparr> xt_txHash = None, xt_match = None \<rparr>)"

definition accept_taker :: "accept_msg \<Rightarrow> string" where
  "accept_taker m = (case am_receive m of Some (c # r) \<Rightarrow> c # r | _ \<Rightarrow> am_from m)"

text \<open>The amount the taker asks for, where it is admissible, and the price it offers against the tolerance.\<close>

definition accept_amount :: "xoffer \<Rightarrow> accept_msg \<Rightarrow> rat option" where
  "accept_amount offer m =
    (let give = parseFloat (xo_give_amount offer);
         requested = (if js_present (am_amount m) then number_of (am_amount m) else give)
     in case requested of None \<Rightarrow> None
        | Some q \<Rightarrow> if q \<le> 0 \<or> (case give of Some g \<Rightarrow> g + 1 / 10 ^ 9 < q | None \<Rightarrow> False) then None else Some q)"

definition price_ok :: "xoffer \<Rightarrow> accept_msg \<Rightarrow> bool" where
  "price_ok offer m =
    (case (parseFloat (xo_give_amount offer), parseFloat (xo_want_amount offer), number_of (am_price m)) of
       (Some g, Some w, Some p) \<Rightarrow>
         if js_present (am_price m) \<and> 0 < g \<and> 0 < w / g
         then \<bar>p - w / g\<bar> / (w / g) \<le> (case xo_tolerance offer of Some t \<Rightarrow> t | None \<Rightarrow> 1 / 100) + 1 / 10 ^ 9 else True
     | _ \<Rightarrow> True)"

definition stash_accept :: "xenv \<Rightarrow> xdb \<Rightarrow> accept_msg \<Rightarrow> xdb" where
  "stash_accept env db m =
    (let i = (case am_tx m of Some (c # t) \<Rightarrow> c # t | _ \<Rightarrow> xe_uuid env (xd_draws db))
     in db\<lparr> xd_orphans := filter (\<lambda>x. or_id x \<noteq> i) (xd_orphans db) @
              [\<lparr> or_id = i, or_offer = am_offer m, or_msg = m, or_received_at = xe_now env \<rparr>], xd_draws := xd_draws db + 1 \<rparr>)"

text \<open>The fields of the message that go into \<open>verification_meta\<close>, and the \<open>UPDATE\<close> that stores them.\<close>

definition accept_meta :: "accept_msg \<Rightarrow> (string \<times> json) list" where
  "accept_meta m = concat (map (\<lambda>(k, x). case x of Some (c # r) \<Rightarrow> [(k, JStr (c # r))] | _ \<Rightarrow> [])
     [(''receive_chain'', am_chain m), (''receive_address'', am_receive m), (''evm_recv_address'', am_evm m)])"

definition text_or_null :: "string option \<Rightarrow> string option" where
  "text_or_null x = (if nonempty x then x else None)"

definition store_taker :: "xdb \<Rightarrow> xoffer \<Rightarrow> accept_msg \<Rightarrow> xerror + xdb" where
  "store_taker db offer m =
    (if accept_meta m = [] then Inr db
     else (case parse_meta (xo_vmeta offer) of Inl e \<Rightarrow> Inl e
       | Inr meta \<Rightarrow> (case put_keys (accept_meta m) meta of Inl e \<Rightarrow> Inl e
         | Inr meta' \<Rightarrow> Inr (db\<lparr> xd_offers := update_where (\<lambda>r. xo_id r = xo_id offer \<and> xo_status r = XOpen)
             (\<lambda>r. r\<lparr> xo_taker_chain := text_or_null (am_chain m), xo_taker_addr := text_or_null (am_receive m), xo_vmeta := JsonPayload meta' \<rparr>)
             (xd_offers db) \<rparr>))))"

definition is_tx_text :: "string \<Rightarrow> bool" where
  "is_tx_text h = (length h = 64 \<and> list_all (\<lambda>c. hexval c \<noteq> None) h)"

text \<open>The audit row of a filled chunk; the table refuses a \<open>broker_\<close> row whose transaction is not 64 hex digits.\<close>

definition chunk_event :: "xenv \<Rightarrow> xoffer \<Rightarrow> accept_msg \<Rightarrow> rat \<Rightarrow> xdb \<Rightarrow> xdb" where
  "chunk_event env offer m q db =
    (if am_tx m \<noteq> None \<and> is_tx_text (the (am_tx m))
     then log_event env (am_tx m) ''broker_chunk_filled'' (Some (accept_taker m)) (Some (xo_maker offer))
       (JObj [(''order_id'', JStr (xo_id offer)), (''chunk_qty'', xe_num env q),
          (''chunk_price'', case number_of (am_price m) of Some p \<Rightarrow> xe_num env p | None \<Rightarrow> JNull), (''taker_addr'', JStr (accept_taker m)),
          (''offer_give_amount'', case parseFloat (xo_give_amount offer) of Some g \<Rightarrow> xe_num env g | None \<Rightarrow> JNull),
          (''offer_want_asset'', JStr (xo_want_asset offer)), (''offer_give_asset'', JStr (xo_give_asset offer))]) db
     else db)"

text \<open>\<open>Inr None\<close> is a rejected accept.\<close>

definition processAccept :: "xenv \<Rightarrow> xdb \<Rightarrow> accept_msg \<Rightarrow> xdb \<times> (xerror + xoffer option)" where
  "processAccept env db m =
    (if am_offer m = [] then (db, Inr None)
     else case find_offer db (am_offer m) of None \<Rightarrow> (stash_accept env db m, Inr None)
     | Some offer \<Rightarrow>
       if xo_status offer \<noteq> XOpen then (db, Inr None)
       else if accept_taker m \<noteq> [] \<and> accept_taker m = xo_maker offer then (db, Inr None)
       else if (case xo_expires_at offer of Some t \<Rightarrow> t < xe_now env | None \<Rightarrow> False)
         then (move env db (xo_id offer) XExpired, Inr None)
       else (case accept_amount offer m of None \<Rightarrow> (db, Inr None)
         | Some q \<Rightarrow>
           if \<not> price_ok offer m then (db, Inr None)
           else (case store_taker db offer m of Inl e \<Rightarrow> (db, Inl e)
             | Inr db1 \<Rightarrow>
               (case exchangeTransition env db1 (xo_id offer) XMatched \<lparr> xt_txHash = None, xt_match = Some
                    \<lparr> mi_taker = accept_taker m, mi_tx = am_tx m,
                      mi_commitment = (case am_commitment m of Some (c # r) \<Rightarrow> c # r
                        | _ \<Rightarrow> xe_sha env (am_offer m @ am_from m @ nat_str (xe_now env))), mi_filled = q \<rparr> \<rparr> of
                  (db2, Inl e) \<Rightarrow> (db2, Inl e)
                | (db2, Inr matched) \<Rightarrow>
                  (case routeToVerification env (chunk_event env offer m q db2) matched of
                     (db3, Inl e) \<Rightarrow> (db3, Inl e) | (db3, Inr r) \<Rightarrow> (db3, Inr (Some r)))))))"

subsection \<open>Confirming and cancelling\<close>

text \<open>\<open>cm_from\<close> is the sender of the message on the chain, the other fields are its content.\<close>

record confirm_msg =
  cm_offer :: string
  cm_role :: string
  cm_confirmer :: "string option"
  cm_from :: string

definition processManualConfirm :: "xenv \<Rightarrow> xdb \<Rightarrow> confirm_msg \<Rightarrow> xdb \<times> xoffer option" where
  "processManualConfirm env db m =
    (if cm_offer m = [] \<or> cm_role m = [] then (db, None)
     else case find_offer db (cm_offer m) of None \<Rightarrow> (db, None)
     | Some offer \<Rightarrow>
       if xo_status offer \<noteq> XManual then (db, None)
       else (let isMaker = (cm_role m = ''maker'' \<and> cm_confirmer m = Some (xo_maker offer));
                 isTaker = (cm_role m = ''taker'' \<and> cm_confirmer m \<noteq> None \<and> cm_confirmer m = xo_taker offer)
         in if \<not> isMaker \<and> \<not> isTaker then (db, None)
            else (let db1 = (if isMaker \<and> xo_maker_confirmed offer = None
                    then update_offer (xo_id offer) (\<lambda>r. r\<lparr> xo_maker_confirmed := Some (xe_now env), xo_updated_at := xe_now env \<rparr>) db else db);
                  db2 = (if isTaker \<and> xo_taker_confirmed offer = None
                    then update_offer (xo_id offer) (\<lambda>r. r\<lparr> xo_taker_confirmed := Some (xe_now env), xo_updated_at := xe_now env \<rparr>) db1 else db1)
              in case find_offer db2 (xo_id offer) of None \<Rightarrow> (db2, None)
                 | Some r \<Rightarrow>
                   if xo_maker_confirmed r \<noteq> None \<and> xo_taker_confirmed r \<noteq> None
                   then (let db3 = move env db2 (xo_id offer) XCompleted in (db3, find_offer db3 (xo_id offer)))
                   else (db2, Some r))))"

record cancel_msg =
  xc_offer :: string
  xc_from :: string

definition processCancel :: "xenv \<Rightarrow> xdb \<Rightarrow> cancel_msg \<Rightarrow> xdb \<times> xoffer option" where
  "processCancel env db m =
    (if xc_offer m = [] then (db, None)
     else case find_offer db (xc_offer m) of None \<Rightarrow> (db, None)
     | Some offer \<Rightarrow>
       if xo_status offer \<noteq> XOpen then (db, None)
       else if xo_maker offer \<noteq> xc_from m then (db, None)
       else (let db1 = move env db (xo_id offer) XCancelled in (db1, find_offer db1 (xo_id offer))))"

record dispute_msg =
  dm_offer :: string
  dm_party :: "string option"
  dm_reason :: "string option"

datatype xreply = ReplyOk xstatus | ReplyError string

definition dispute_fields :: "string \<Rightarrow> json \<Rightarrow> json \<Rightarrow> (string \<times> json) list" where
  "dispute_fields reason party t = [(''dispute_reason'', JStr reason), (''dispute_by'', party), (''dispute_at'', t)]"

definition DISPUTABLE :: "xstatus list" where
  "DISPUTABLE = [XVerifying, XManual, XMatched]"

text \<open>The times stored in \<open>verification_meta\<close> are the texts of \<open>xe_num\<close>.  \<open>Inl\<close> is an exception.\<close>

definition processDispute :: "xenv \<Rightarrow> xdb \<Rightarrow> dispute_msg \<Rightarrow> xdb \<times> (xerror + xreply)" where
  "processDispute env db m =
    (case find_offer db (dm_offer m) of None \<Rightarrow> (db, Inr (ReplyError ''offer_not_found''))
     | Some offer \<Rightarrow>
       if Some (xo_maker offer) \<noteq> dm_party m \<and> \<not> (dm_party m \<noteq> None \<and> xo_taker offer = dm_party m) then (db, Inr (ReplyError ''only_parties_can_dispute''))
       else if xo_status offer \<notin> set DISPUTABLE then (db, Inr (ReplyError ''invalid_status''))
       else (case parse_meta (xo_vmeta offer) of Inl e \<Rightarrow> (db, Inl e)
         | Inr meta \<Rightarrow>
           (case put_keys (dispute_fields (case dm_reason m of Some (c # r) \<Rightarrow> c # r | _ \<Rightarrow> ''No reason provided'')
                (case dm_party m of Some p \<Rightarrow> JStr p | None \<Rightarrow> JNull) (xe_num env (of_nat (xe_now env)))) meta of
              Inl e \<Rightarrow> (db, Inl e)
            | Inr meta' \<Rightarrow>
              (let db1 = update_offer (xo_id offer) (\<lambda>r. r\<lparr> xo_vmeta := JsonPayload meta', xo_updated_at := xe_now env \<rparr>) db
               in (move env db1 (xo_id offer) XDisputed, Inr (ReplyOk XDisputed))))))"

subsection \<open>Sweeps\<close>

definition older_than :: "xenv \<Rightarrow> nat \<Rightarrow> nat option \<Rightarrow> bool" where
  "older_than env minutes t = (case t of Some x \<Rightarrow> x div 1000 + minutes * 60 < xe_now env div 1000 | None \<Rightarrow> False)"

text \<open>\<open>received_at < datetime('now', '-1 hour')\<close> compares an ISO text with one that has a blank instead of the T: the
  stored text is smaller only where its day is.\<close>

definition cleanupStaleOrphanAccepts :: "xenv \<Rightarrow> xdb \<Rightarrow> xdb \<times> nat" where
  "cleanupStaleOrphanAccepts env db =
    (let stale = (\<lambda>x. or_received_at x div 86400000 < (xe_now env - 3600000) div 86400000)
     in (db\<lparr> xd_orphans := filter (\<lambda>x. \<not> stale x) (xd_orphans db) \<rparr>, length (filter stale (xd_orphans db))))"

fun moves :: "xenv \<Rightarrow> xstatus \<Rightarrow> string list \<Rightarrow> xdb \<Rightarrow> xdb" where
  "moves env s [] db = db"
| "moves env s (i # is) db = moves env s is (move env db i s)"

definition offer_ids :: "(xoffer \<Rightarrow> bool) \<Rightarrow> xdb \<Rightarrow> string list" where
  "offer_ids p db = map xo_id (filter p (xd_offers db))"

definition expireStale :: "xenv \<Rightarrow> xdb \<Rightarrow> xdb \<times> nat" where
  "expireStale env db =
    (let stale = offer_ids (\<lambda>r. xo_status r = XOpen \<and> (case xo_expires_at r of Some t \<Rightarrow> t < xe_now env | None \<Rightarrow> False)) db
     in (moves env XExpired stale db, length stale))"

fun first_tx :: "(nat \<Rightarrow> string option) \<Rightarrow> nat list \<Rightarrow> string option" where
  "first_tx f [] = None"
| "first_tx f (i # is) = (if nonempty (f i) then f i else first_tx f is)"

text \<open>The timeout broadcast of a local maker must have a transaction before the offer moves.\<close>

definition timeout_broadcast :: "xenv \<Rightarrow> xoffer \<Rightarrow> xdb \<Rightarrow> xdb option" where
  "timeout_broadcast env offer db = (case local_relay db (xo_maker offer) of None \<Rightarrow> Some db
     | Some r \<Rightarrow> (let c = Broadcast (rn_id r) ''kanet_exchange_timeout_v1'' (xo_id offer)
         in case first_tx (xe_send env (rn_id r) c) [1, 2, 3] of None \<Rightarrow> None | Some _ \<Rightarrow> Some (send_out c db)))"

definition emitTimeoutAndTransition :: "xenv \<Rightarrow> xdb \<Rightarrow> string \<Rightarrow> xdb \<times> bool" where
  "emitTimeoutAndTransition env db oid = (case find_offer db oid of None \<Rightarrow> (db, False)
     | Some offer \<Rightarrow> (case timeout_broadcast env offer db of None \<Rightarrow> (db, False)
         | Some db1 \<Rightarrow> (move env db1 oid XTimedOut, True)))"

fun time_out_all :: "xenv \<Rightarrow> string list \<Rightarrow> xdb \<Rightarrow> xdb" where
  "time_out_all env [] db = db"
| "time_out_all env (i # is) db = time_out_all env is (fst (emitTimeoutAndTransition env db i))"

definition timeoutVerifying :: "xenv \<Rightarrow> xdb \<Rightarrow> xdb \<times> nat" where
  "timeoutVerifying env db =
    (let stuck = offer_ids (\<lambda>r. xo_status r \<in> {XVerifying, XManual, XOracle} \<and> older_than env 30 (xo_verifying_at r)) db;
         db1 = time_out_all env stuck db;
         stuckDelivering = offer_ids (\<lambda>r. xo_status r = XDelivering \<and> older_than env 60 (xo_delivering_at r)) db1;
         db2 = moves env XVerified stuckDelivering db1;
         stuckVerified = offer_ids (\<lambda>r. xo_status r = XVerified \<and> older_than env 120 (xo_delivering_at r)) db2
     in (time_out_all env stuckVerified db2, length stuck + length stuckDelivering + length stuckVerified))"

text \<open>Reopening a matched offer: the columns that are reset.\<close>

definition reopen :: "nat \<Rightarrow> xoffer \<Rightarrow> xoffer" where
  "reopen now r = r\<lparr> xo_status := XOpen, xo_taker := None, xo_taker_chain := None, xo_taker_addr := None, xo_payment_tx := None,
     xo_matched_at := None, xo_updated_at := now \<rparr>"

definition reopen_matched :: "xenv \<Rightarrow> xdb \<Rightarrow> string \<Rightarrow> xdb" where
  "reopen_matched env db oid =
    (let db1 = db\<lparr> xd_offers := update_where (\<lambda>r. xo_id r = oid \<and> xo_status r = XMatched) (reopen (xe_now env)) (xd_offers db) \<rparr>
     in db1\<lparr> xd_locks := fst (releaseFunds (xd_locks db1) (xe_now env) oid) \<rparr>)"

fun reopen_all :: "xenv \<Rightarrow> xoffer list \<Rightarrow> xdb \<Rightarrow> xdb" where
  "reopen_all env [] db = db"
| "reopen_all env (r # rs) db = (case timeout_broadcast env r db of None \<Rightarrow> reopen_all env rs db
     | Some db1 \<Rightarrow> reopen_all env rs (reopen_matched env db1 (xo_id r)))"

definition checkMatchedTimeout :: "xenv \<Rightarrow> xdb \<Rightarrow> xdb \<times> nat" where
  "checkMatchedTimeout env db =
    (let stale = filter (\<lambda>r. xo_status r = XMatched \<and> older_than env 30 (xo_matched_at r)) (xd_offers db)
     in (reopen_all env stale db, length stale))"

subsection \<open>Payments\<close>

record payment_msg =
  pm_offer :: string
  pm_tx :: "string option"
  pm_chain :: "string option"

definition tx_in_use :: "xdb \<Rightarrow> string \<Rightarrow> string \<Rightarrow> bool" where
  "tx_in_use db tx oid = list_ex (\<lambda>r. xo_payment_tx r = Some tx \<and> xo_id r \<noteq> oid) (xd_offers db)"

text \<open>The verification that the code starts without waiting is put on the outbox.\<close>

definition processPaymentSubmit :: "xenv \<Rightarrow> xdb \<Rightarrow> payment_msg \<Rightarrow> xdb \<times> (xerror + xreply)" where
  "processPaymentSubmit env db m =
    (case find_offer db (pm_offer m) of None \<Rightarrow> (db, Inr (ReplyError ''offer_not_found''))
     | Some offer \<Rightarrow>
       if xo_status offer \<noteq> XVerifying then (db, Inr (ReplyError ''invalid_status''))
       else (case text_or_null (pm_tx m) of None \<Rightarrow> (db, Inr (ReplyError ''payment_tx_required''))
       | Some tx \<Rightarrow>
         (case text_or_null (str_or (xo_taker_chain offer) (pm_chain m)) of None \<Rightarrow> (db, Inr (ReplyError ''no payment chain on record''))
          | Some chain \<Rightarrow>
            if tx_in_use db tx (xo_id offer) then (db, Inr (ReplyError ''payment_tx_reused''))
            else (case parse_meta (xo_vmeta offer) of Inl e \<Rightarrow> (db, Inl e)
              | Inr meta \<Rightarrow>
                (case put_keys [(''payment_tx'', JStr tx), (''payment_chain'', JStr chain), (''submitted_at'', xe_num env (of_nat (xe_now env)))] meta of
                   Inl e \<Rightarrow> (db, Inl e)
                 | Inr meta' \<Rightarrow>
                   (send_out (Verify (xo_id offer) tx chain 1)
                      (update_offer (xo_id offer) (\<lambda>r. r\<lparr> xo_vmeta := JsonPayload meta', xo_payment_tx := Some tx, xo_updated_at := xe_now env \<rparr>) db),
                    Inr (ReplyOk XVerifying)))))))"

text \<open>Who must have been paid: on \<open>kaspa\<close> the address of the accept, elsewhere the address the maker accepts on the chain.\<close>

definition accepted_address :: "json \<Rightarrow> string \<Rightarrow> json option" where
  "accepted_address meta chain = (case js_get meta ''accepted_chains'' of
      Some (JArr cs) \<Rightarrow>
        (case find (\<lambda>c. js_truthy (Some c) \<and> toLowerCase (case js_get c ''chain'' of Some x \<Rightarrow> js_String x | None \<Rightarrow> ''undefined'') = toLowerCase chain) cs of
           Some c \<Rightarrow> js_get c ''address'' | None \<Rightarrow> None)
    | _ \<Rightarrow> None)"

definition expected_to :: "xoffer \<Rightarrow> json \<Rightarrow> string \<Rightarrow> string option" where
  "expected_to offer meta chain = map_option js_String
    (if chain = ''kaspa'' then js_or (js_get meta ''receive_address'') (js_or (js_get meta ''expected_address'') (Some (JStr (xo_maker offer))))
     else (let a = js_or (accepted_address meta chain) (js_or (js_get meta ''maker_payment_address'') (js_get meta ''expected_address''))
           in if js_truthy a then a else None))"

text \<open>A transaction on \<open>kaspa\<close> counts as confirmed without a look at the chain.\<close>

definition payment_verdict :: "xenv \<Rightarrow> xoffer \<Rightarrow> json \<Rightarrow> string \<Rightarrow> string \<Rightarrow> verdict_tx" where
  "payment_verdict env offer meta tx chain =
    (if chain = ''kaspa'' then TxConfirmed 1
     else xe_verify env tx chain (case parseFloat (xo_want_amount offer) of Some w \<Rightarrow> w | None \<Rightarrow> 0) (expected_to offer meta chain)
       (case js_or (js_get meta ''payment_asset'') (Some (JStr ''usdt'')) of Some a \<Rightarrow> js_String a | None \<Rightarrow> ''usdt''))"

subsection \<open>The order of the retail table\<close>

definition retail_user :: "xoffer \<Rightarrow> string" where
  "retail_user r =
    (let owner = (case parse_meta (xo_metadata r) of Inr j \<Rightarrow>
           (case js_get j ''user_kasia_address'' of Some (JStr a) \<Rightarrow> if take 6 a = ''kaspa:'' then Some a else None | _ \<Rightarrow> None)
         | Inl _ \<Rightarrow> None)
     in case owner of Some a \<Rightarrow> a | None \<Rightarrow> (case xo_taker r of Some t \<Rightarrow> t | None \<Rightarrow> []))"

text \<open>\<open>ORDER BY created_at DESC LIMIT 1\<close>; the times of this table are seconds.\<close>

definition latest_row :: "retail_link list \<Rightarrow> retail_link option" where
  "latest_row rows = (case rev (sort_key rl_created_at (rev rows)) of [] \<Rightarrow> None | r # _ \<Rightarrow> Some r)"

definition retail_target :: "xenv \<Rightarrow> xdb \<Rightarrow> string \<Rightarrow> string \<Rightarrow> string list \<Rightarrow> retail_link option" where
  "retail_target env db oid user states = latest_row (filter (\<lambda>x. (rl_offer x = Some oid
       \<or> (rl_offer x = None \<and> rl_user x = user \<and> xe_now env div 1000 < rl_created_at x + 7200)) \<and> rl_state x \<in> set states) (xd_retail db))"

definition advance_retail :: "xenv \<Rightarrow> string \<Rightarrow> string \<Rightarrow> string list \<Rightarrow> string \<Rightarrow> string option \<Rightarrow> xdb \<Rightarrow> xdb" where
  "advance_retail env oid user states state tx db =
    (case retail_target env db oid user states of None \<Rightarrow> db
     | Some x \<Rightarrow> db\<lparr> xd_retail := update_where (\<lambda>y. rl_id y = rl_id x \<and> rl_state y \<in> set states)
         (\<lambda>y. y\<lparr> rl_state := state, rl_deliver_tx := (case tx of Some t \<Rightarrow> Some t | None \<Rightarrow> rl_deliver_tx y),
             rl_updated_at := xe_now env div 1000 \<rparr>) (xd_retail db) \<rparr>)"

subsection \<open>Verifying a payment\<close>

definition hedge_if_local :: "xdb \<Rightarrow> string \<Rightarrow> xdb" where
  "hedge_if_local db oid = (case find_offer db oid of None \<Rightarrow> db
     | Some r \<Rightarrow> if xo_status r = XCompleted \<and> local_relay db (xo_maker r) \<noteq> None then send_out (Hedge r) db else db)"

text \<open>After a delivery the hedge needs a quantity as well.\<close>

definition hedge_delivered :: "xdb \<Rightarrow> string \<Rightarrow> xdb" where
  "hedge_delivered db oid = (case find_offer db oid of None \<Rightarrow> db
     | Some r \<Rightarrow> if xo_status r = XCompleted \<and> local_relay db (xo_maker r) \<noteq> None
         \<and> (case parseFloat (if xo_give_asset r = ''KAS'' then xo_give_amount r else xo_want_amount r) of Some q \<Rightarrow> 0 < q | None \<Rightarrow> False)
       then send_out (Hedge r) db else db)"

definition with_tx :: "string \<Rightarrow> extra" where
  "with_tx tx = \<lparr> xt_txHash = Some tx, xt_match = None \<rparr>"

text \<open>The offer whose want is \<open>KAS\<close>, already received: it goes straight to completed.  The audit row is refused
  (it names no observer), and the exception skips the rest.\<close>

definition complete_received :: "xenv \<Rightarrow> xdb \<Rightarrow> xoffer \<Rightarrow> string \<Rightarrow> xdb" where
  "complete_received env db offer tx =
    (let oid = xo_id offer;
         db1 = update_offer oid (\<lambda>r. r\<lparr> xo_delivery_tx := Some tx \<rparr>) db;
         db2 = fst (exchangeTransition env db1 oid XDelivering (with_tx tx));
         db3 = fst (exchangeTransition env db2 oid XCompleted (with_tx tx));
         db4 = db3\<lparr> xd_locks := fst (spendFunds (xd_locks db3) (xe_now env) oid) \<rparr>
     in case insert_event env (Some tx) ''exchange_completed'' (Some (xo_maker offer)) (xo_taker offer)
          (JObj ([(''offer_id'', JStr oid)] @ terms_json offer @ [(''payment_tx'', JStr tx), (''verification'', JStr ''kaspa_tx'')])) None db4 of
          None \<Rightarrow> db4 | Some db5 \<Rightarrow> hedge_if_local db5 oid)"

definition MAX_ATTEMPTS :: nat where "MAX_ATTEMPTS = 3"

definition auto_dispute :: "xenv \<Rightarrow> xdb \<Rightarrow> xoffer \<Rightarrow> json \<Rightarrow> string \<Rightarrow> xdb" where
  "auto_dispute env db offer meta err =
    (let reason = ''Auto-dispute: verification failed 3 times. Last error: '' @ err in
     case put_keys (dispute_fields reason (JStr ''system'') (xe_num env (of_nat (xe_now env)))) meta of
       Inl _ \<Rightarrow> db
     | Inr meta' \<Rightarrow>
       (let db1 = update_offer (xo_id offer) (\<lambda>r. r\<lparr> xo_vmeta := JsonPayload meta', xo_updated_at := xe_now env \<rparr>) db;
            db2 = move env db1 (xo_id offer) XDisputed
        in case insert_event env None ''exchange_disputed'' (Some (xo_maker offer)) None
               (JObj [(''offer_id'', JStr (xo_id offer)), (''reason'', JStr reason)]) None db2 of
             None \<Rightarrow> db2 | Some db3 \<Rightarrow> db3))"

text \<open>
  \<open>_verifyAndComplete\<close> up to the delivery, in two steps: the code reads the offer and looks at its status, then waits for the answer of
  the chain, and goes on with the row it read, which can be older than the table.  The move to \<open>delivering\<close> may then be refused; the code
  takes the row it gets back for moved.  The result is the offer that has to be delivered.
\<close>

definition check_payment :: "xdb \<Rightarrow> string \<Rightarrow> (xoffer \<times> json) option" where
  "check_payment db oid =
    (case find_offer db oid of None \<Rightarrow> None
     | Some offer \<Rightarrow>
       if xo_status offer \<noteq> XVerifying then None
       else (case parse_meta (xo_vmeta offer) of Inl _ \<Rightarrow> None
       | Inr meta \<Rightarrow> if meta = JNull then None else Some (offer, meta)))"

definition confirm_payment :: "xenv \<Rightarrow> xdb \<Rightarrow> xoffer \<Rightarrow> json \<Rightarrow> string \<Rightarrow> string \<Rightarrow> nat \<Rightarrow> xdb \<times> xoffer option" where
  "confirm_payment env db offer meta tx chain attempt =
    (let oid = xo_id offer in
     case payment_verdict env offer meta tx chain of
       TxConfirmed n \<Rightarrow>
         (case put_keys [(''verified_tx'', JStr tx), (''verified_at'', xe_num env (of_nat (xe_now env))), (''confirmations'', JInt (int n))] meta of
            Inl _ \<Rightarrow> (db, None)
          | Inr meta' \<Rightarrow>
            (let db1 = update_offer oid (\<lambda>r. r\<lparr> xo_vmeta := JsonPayload meta', xo_updated_at := xe_now env \<rparr>) db in
             if xo_give_asset offer \<noteq> ''KAS'' \<and> chain = ''kaspa'' then (complete_received env db1 offer tx, None)
             else (case exchangeTransition env db1 oid XDelivering \<lparr> xt_txHash = None, xt_match = None \<rparr> of
                 (db2, Inl _) \<Rightarrow> (db2, None)
               | (db2, Inr r) \<Rightarrow> (advance_retail env oid (retail_user r) [''paid'', ''awaiting_payment''] ''executing'' None db2, Some r))))
     | TxNotConfirmed err \<Rightarrow>
         if attempt < MAX_ATTEMPTS then (send_out (Verify oid tx chain (attempt + 1)) db, None)
         else (auto_dispute env db offer meta err, None))"

text \<open>With nothing in between.\<close>

definition verify_payment :: "xenv \<Rightarrow> xdb \<Rightarrow> string \<Rightarrow> string \<Rightarrow> string \<Rightarrow> nat \<Rightarrow> xdb \<times> xoffer option" where
  "verify_payment env db oid tx chain attempt =
    (case check_payment db oid of None \<Rightarrow> (db, None) | Some (offer, meta) \<Rightarrow> confirm_payment env db offer meta tx chain attempt)"

subsection \<open>Delivering\<close>

definition meta_str :: "payload \<Rightarrow> string \<Rightarrow> string option" where
  "meta_str p k = (case parse_meta p of Inr j \<Rightarrow> (case js_get j k of Some (JStr a) \<Rightarrow> if a = [] then None else Some a | _ \<Rightarrow> None) | Inl _ \<Rightarrow> None)"

definition with_prefix :: "string \<Rightarrow> string option \<Rightarrow> string option" where
  "with_prefix p x = (case x of Some a \<Rightarrow> if take (length p) a = p then Some a else None | None \<Rightarrow> None)"

text \<open>A text that does not parse leaves the default: the taker for \<open>KAS\<close>, nothing for other assets.\<close>

definition delivery_target :: "xoffer \<Rightarrow> string option" where
  "delivery_target r =
    (if xo_give_asset r = ''KAS''
     then (case with_prefix ''kaspa:'' (meta_str (xo_vmeta r) ''receive_address'') of Some a \<Rightarrow> Some a | None \<Rightarrow> xo_taker r)
     else (case parse_meta (xo_vmeta r) of Inl _ \<Rightarrow> None
       | Inr j \<Rightarrow> if j = JNull then None
         else (case with_prefix ''0x'' (meta_str (xo_vmeta r) ''evm_recv_address'') of Some a \<Rightarrow> Some a
           | None \<Rightarrow> (case with_prefix ''0x'' (xo_taker_addr r) of Some a \<Rightarrow> Some a
             | None \<Rightarrow> (case meta_str (xo_vmeta r) ''receive_address'' of
                 Some a \<Rightarrow> if take 6 a = ''kaspa:'' then None else Some a | None \<Rightarrow> None)))))"

text \<open>The part of \<open>_verifyAndComplete\<close> that delivers the offer \<open>r\<close> read when it began delivering: the table may have
  changed since.\<close>

definition deliver :: "xenv \<Rightarrow> xdb \<Rightarrow> xoffer \<Rightarrow> xdb" where
  "deliver env db r =
    (let oid = xo_id r in
     if xo_give_asset r = [] \<or> \<not> nonempty (xo_taker r) then hedge_delivered db oid
     else case local_relay db (xo_maker r) of None \<Rightarrow> hedge_delivered db oid
     | Some agent \<Rightarrow>
       (case delivery_target r of None \<Rightarrow> db
        | Some target \<Rightarrow>
          (let transfer = Transfer (rn_id agent) (xo_give_asset r) target (xo_give_amount r) in
           case first_tx (xe_send env (rn_id agent) transfer) [1, 2, 3] of
             None \<Rightarrow>
               (let db1 = move env db oid XVerified in
                case insert_event env None ''exchange_delivery_reverted'' (Some (xo_maker r)) None
                    (JObj [(''offer_id'', JStr oid), (''reason'', JStr ''delivery_failed_3_attempts_reverted'')]) None db1 of
                  None \<Rightarrow> db1 | Some db2 \<Rightarrow> hedge_delivered db2 oid)
           | Some tx \<Rightarrow>
             (let db1 = send_out transfer db; c = Broadcast (rn_id agent) ''kanet_exchange_delivered_v1'' oid in
              case first_tx (xe_send env (rn_id agent) c) [1, 2, 3, 4, 5] of
                None \<Rightarrow>
                  (case insert_event env (Some tx) ''kas_delivery'' (Some (xo_maker r)) (xo_taker r) 
                    (JObj [(''offer_id'', JStr oid), (''amount'', JStr (xo_give_amount r)), (''broadcast_failed'', JBool True)]) None db1 of
                     None \<Rightarrow> db1 | Some db2 \<Rightarrow> hedge_delivered db2 oid)
              | Some btx \<Rightarrow>
                (let db2 = update_offer oid (\<lambda>q. q\<lparr> xo_delivery_tx := Some tx \<rparr>) (send_out c db1);
                     db3 = fst (exchangeTransition env db2 oid XCompleted (with_tx tx));
                     db4 = advance_retail env oid (retail_user r) [''executing'', ''paid'', ''awaiting_payment''] ''completed'' (Some tx) db3
                 in case insert_event env (Some tx) ''kas_delivery'' (Some (xo_maker r)) (xo_taker r) 
                        (JObj [(''offer_id'', JStr oid), (''amount'', JStr (xo_give_amount r)), (''broadcast_tx'', JStr btx)]) None db4 of
                      None \<Rightarrow> db4
                    | Some db5 \<Rightarrow>
                      (let db6 = db5\<lparr> xd_locks := fst (spendFunds (xd_locks db5) (xe_now env) oid) \<rparr> in
                       case insert_event env None ''exchange_completed'' (Some (xo_maker r)) (xo_taker r) 
                          (JObj ([(''offer_id'', JStr oid)] @ terms_json r @ [(''taker_chain'', null_or (xo_taker_chain r)),
                            (''delivery_tx'', JStr tx), (''broadcast_tx'', JStr btx),
                            (''price'', case (parseFloat (xo_want_amount r), parseFloat (xo_give_amount r)) of
                               (Some w, Some g) \<Rightarrow> if g = 0 then (if w = 0 then JInt 0 else JNull) else xe_num env (w / g)
                             | _ \<Rightarrow> JInt 0)])) None db6 of
                         None \<Rightarrow> db6
                       | Some db7 \<Rightarrow> hedge_delivered (send_out (DmUser ''dm_kas_delivered'' target) db7) oid))))))"

definition verifyAndComplete :: "xenv \<Rightarrow> xdb \<Rightarrow> string \<Rightarrow> string \<Rightarrow> string \<Rightarrow> nat \<Rightarrow> xdb" where
  "verifyAndComplete env db oid tx chain attempt =
    (case verify_payment env db oid tx chain attempt of (db1, None) \<Rightarrow> db1 | (db1, Some r) \<Rightarrow> deliver env db1 r)"

subsection \<open>The payment of the maker\<close>

definition makerAutoPayGive :: "xenv \<Rightarrow> xdb \<Rightarrow> xoffer \<Rightarrow> xdb" where
  "makerAutoPayGive env db offer =
    (case find (\<lambda>p. pb_offer p = Some (xo_id offer) \<and> pb_state p = ''filled'') (xd_pubs db) of None \<Rightarrow> db
     | Some pub \<Rightarrow>
       if \<not> xe_wallet env (xo_maker offer) (pb_pay_chain pub) then db
       else (case xe_pay env (pb_pay_chain pub) (xo_taker_addr offer) (parseFloat (pb_total pub)) of
           Inl err \<Rightarrow> db\<lparr> xd_pubs := update_where (\<lambda>p. pb_id p = pb_id pub)
               (\<lambda>p. p\<lparr> pb_state := ''failed'', pb_error := Some (''maker_auto_pay_failed: '' @ err) \<rparr>) (xd_pubs db) \<rparr>
         | Inr tx \<Rightarrow> db\<lparr> xd_pubs := update_where (\<lambda>p. pb_id p = pb_id pub)
               (\<lambda>p. p\<lparr> pb_state := ''completed'', pb_filled_at := Some tx, pb_delivery_tx := Some tx \<rparr>) (xd_pubs db) \<rparr>))"

end
