(* ===== verification/Exchange_Filter.thy ===== *)
theory Exchange_Filter
  imports Exchange
begin

section \<open>The exchange messages of the protocol\<close>

text \<open>
  The exchange handlers of \<open>kasia-console/src/services/trade-protocol-filter.js\<close>: what a node does with the messages of the
  free market it reads from the chain.  The fields of a message are its content, written by whoever sent it; the
  fields \<open>_from\<close> and \<open>_tx\<close> are attached by the reader.  An exception ends the handler and keeps what it has written.
\<close>

record publish_msg =
  pu_id :: "string option"
  pu_index :: int
  pu_give_asset :: string
  pu_give_amount :: string
  pu_give_chain :: "string option"
  pu_want_asset :: string
  pu_want_amount :: string
  pu_want_chain :: "string option"
  pu_expires_at :: "nat option"
  pu_verification :: "string option"
  pu_vmeta :: "json option"
  pu_tx :: string
  pu_from :: string
  pu_at :: "nat option"

definition deriveMarketKey :: "string \<Rightarrow> string \<Rightarrow> string" where
  "deriveMarketKey giveAsset wantAsset = js_join ''|'' (sort [giveAsset, wantAsset])"

text \<open>The accept handler; \<open>relay_of\<close> is the local relay of the taker.\<close>

definition auto_pay :: "xdb \<Rightarrow> xoffer \<Rightarrow> (string \<Rightarrow> xcommand) \<Rightarrow> xdb" where
  "auto_pay db r cmd = (case xo_taker r of None \<Rightarrow> db
     | Some t \<Rightarrow> (case local_relay db t of None \<Rightarrow> db | Some l \<Rightarrow> if rn_dex_broker l then db else send_out (cmd (rn_id l)) db))"

definition handleExchangeAccept :: "xenv \<Rightarrow> xdb \<Rightarrow> accept_msg \<Rightarrow> xdb" where
  "handleExchangeAccept env db m =
    (if am_offer m = [] then db
     else (case processAccept env db m of
       (db1, Inl _) \<Rightarrow> db1
     | (db1, Inr None) \<Rightarrow> db1
     | (db1, Inr (Some r)) \<Rightarrow>
         if xo_status r \<noteq> XManual \<and> xo_status r \<noteq> XVerifying then db1
         else (let db2 = log_event env (am_tx m) ''exchange_matched'' (xo_taker r) (Some (xo_maker r))
                 (JObj ([(''offer_id'', JStr (xo_id r))] @ terms_json r @
                   [(''taker'', null_or (xo_taker r)), (''taker_chain'', null_or (xo_taker_chain r)), (''verification'', JStr (xo_verification r))])) db1 in
               if xo_status r = XManual then db2
               else (let db3 = (if nonempty (xo_taker r) \<and> nonempty (xo_taker_chain r) \<and> xo_verification r = ''cross_chain_tx''
                         then auto_pay db2 r (AutoPay (xo_id r)) else db2)
                 in if nonempty (xo_taker r) \<and> xo_verification r = ''kaspa_tx'' \<and> xo_want_asset r \<noteq> [] \<and> nonempty (xo_want_chain r)
                       \<and> xe_supported env (xo_want_asset r) (case xo_want_chain r of Some c \<Rightarrow> c | None \<Rightarrow> [])
                    then auto_pay db3 r (AutoSettle (xo_id r)) else db3))))"

fun replay_accepts :: "xenv \<Rightarrow> orphan list \<Rightarrow> xdb \<Rightarrow> xdb" where
  "replay_accepts env [] db = db"
| "replay_accepts env (p # ps) db =
    replay_accepts env ps (handleExchangeAccept env (db\<lparr> xd_orphans := filter (\<lambda>x. or_id x \<noteq> or_id p) (xd_orphans db) \<rparr>) (or_msg p))"

definition text_or :: "string \<Rightarrow> string \<Rightarrow> string" where
  "text_or d x = (if x = [] then d else x)"

definition new_offer :: "xenv \<Rightarrow> string \<Rightarrow> publish_msg \<Rightarrow> xoffer" where
  "new_offer env oid m =
    (let now = (case pu_at m of Some t \<Rightarrow> t | None \<Rightarrow> xe_now env) in
     \<lparr> xo_id = oid, xo_tx = pu_tx m, xo_index = pu_index m,
       xo_give_asset = pu_give_asset m, xo_give_amount = text_or ''0'' (pu_give_amount m), xo_give_chain = text_or_null (pu_give_chain m),
       xo_want_asset = pu_want_asset m, xo_want_amount = text_or ''0'' (pu_want_amount m), xo_want_chain = text_or_null (pu_want_chain m),
       xo_maker = pu_from m, xo_expires_at = pu_expires_at m,
       xo_verification = (case text_or_null (pu_verification m) of Some v \<Rightarrow> v | None \<Rightarrow> ''manual''),
       xo_vmeta = JsonPayload (if js_truthy (pu_vmeta m) then the (pu_vmeta m) else JObj []), xo_metadata = JsonPayload (JObj []),
       xo_status = XOpen, xo_observed = False, xo_market_key = deriveMarketKey (pu_give_asset m) (pu_want_asset m),
       xo_taker = None, xo_taker_tx = None, xo_commitment = None, xo_filled = 0, xo_tolerance = Some (1 / 100),
       xo_taker_chain = None, xo_taker_addr = None, xo_payment_tx = None, xo_delivery_tx = None,
       xo_matched_at = None, xo_verifying_at = None, xo_delivering_at = None, xo_completed_at = None, xo_disputed_at = None,
       xo_timed_out_at = None, xo_cancelled_at = None, xo_maker_confirmed = None, xo_taker_confirmed = None,
       xo_created_at = now, xo_updated_at = now \<rparr>)"

definition handleExchange :: "xenv \<Rightarrow> xdb \<Rightarrow> publish_msg \<Rightarrow> xdb" where
  "handleExchange env db m =
    (if pu_give_asset m = [] \<or> pu_want_asset m = [] then db
     else (let oid = (case text_or_null (pu_id m) of Some i \<Rightarrow> i | None \<Rightarrow> xe_uuid env (xd_draws db)) in
       if list_ex (\<lambda>r. xo_tx r = pu_tx m \<and> xo_index r = pu_index m) (xd_offers db) then db
       else if find_offer db oid \<noteq> None then db
       else (let db1 = db\<lparr> xd_offers := xd_offers db @ [new_offer env oid m], xd_draws := xd_draws db + 1 \<rparr>;
                 pending = sort_key or_received_at (filter (\<lambda>p. or_offer p = oid) (xd_orphans db1))
             in send_out (EvaluateTake oid) (replay_accepts env pending db1))))"

subsection \<open>Payment and delivery\<close>

record paid_msg =
  pd_offer :: string
  pd_tx :: "string option"
  pd_chain :: "string option"
  pd_payer :: "string option"
  pd_from :: string
  pd_txid :: "string option"

definition user_of_tx :: "xdb \<Rightarrow> string \<Rightarrow> string \<Rightarrow> (string \<times> json) list" where
  "user_of_tx db tx oid = (case find (\<lambda>r. xo_payment_tx r = Some tx \<and> xo_id r \<noteq> oid) (xd_offers db) of None \<Rightarrow> []
     | Some r \<Rightarrow> [(''original_offer'', JStr (xo_id r)), (''original_taker'', null_or (xo_taker r))])"

definition handleExchangePaid :: "xenv \<Rightarrow> xdb \<Rightarrow> paid_msg \<Rightarrow> xdb" where
  "handleExchangePaid env db m =
    (case text_or_null (pd_tx m) of None \<Rightarrow> db
     | Some tx \<Rightarrow>
       if pd_offer m = [] then db
       else (case find_offer db (pd_offer m) of None \<Rightarrow> db
       | Some offer \<Rightarrow>
         if nonempty (xo_payment_tx offer) then db
         else if tx_in_use db tx (xo_id offer)
         then log_event env (pd_txid m) ''exchange_paid_reuse_rejected'' (text_or_null (Some (pd_from m))) (Some (xo_maker offer))
             (JObj ([(''offer_id'', JStr (xo_id offer)), (''reused_tx'', JStr tx)] @ user_of_tx db tx (xo_id offer) @
               [(''attacker'', null_or (text_or_null (Some (pd_from m))))])) db
         else if xo_status offer \<notin> {XMatched, XVerifying} then db
         else (let db1 = update_offer (xo_id offer) (\<lambda>r. r\<lparr> xo_payment_tx := Some tx \<rparr>) db;
                   db2 = (if nonempty (pd_chain m) \<and> \<not> nonempty (xo_taker_chain offer)
                          then update_offer (xo_id offer) (\<lambda>r. r\<lparr> xo_taker_chain := pd_chain m \<rparr>) db1 else db1);
                   db3 = (if xo_status offer = XMatched then move env db2 (xo_id offer) XVerifying else db2)
               in if xo_status offer = XMatched \<and> (case find_offer db3 (xo_id offer) of Some r \<Rightarrow> xo_status r \<noteq> XVerifying | None \<Rightarrow> True) then db3
                  else (let db4 = log_event env (pd_txid m) ''exchange_paid'' (str_or (pd_payer m) (xo_taker offer)) (Some (xo_maker offer))
                            (JObj ([(''offer_id'', JStr (xo_id offer)), (''payment_tx'', JStr tx)] @ opt_field ''chain'' (pd_chain m))) db3
                        in fst (processPaymentSubmit env db4 \<lparr> pm_offer = xo_id offer, pm_tx = Some tx,
                             pm_chain = str_or (xo_taker_chain offer) (pd_chain m) \<rparr>)))))"

record delivered_msg =
  dl_offer :: string
  dl_tx :: "string option"
  dl_amount :: "string option"
  dl_from :: string

definition handleExchangeDelivered :: "xenv \<Rightarrow> xdb \<Rightarrow> delivered_msg \<Rightarrow> xdb" where
  "handleExchangeDelivered env db m =
    (case text_or_null (dl_tx m) of None \<Rightarrow> db
     | Some tx \<Rightarrow>
       if dl_offer m = [] then db
       else (case find_offer db (dl_offer m) of None \<Rightarrow> db
       | Some offer \<Rightarrow>
         if xo_status offer \<in> {XCompleted, XDisputed, XCancelled, XExpired} then db
         else (let p = (\<lambda>r. xo_id r = xo_id offer \<and> xo_status r \<in> {XMatched, XVerifying, XDelivering});
                   db1 = db\<lparr> xd_offers := update_where p (\<lambda>r. r\<lparr> xo_delivery_tx := Some tx, xo_status := XCompleted,
                           xo_completed_at := Some (xe_now env), xo_observed := True, xo_updated_at := xe_now env \<rparr>) (xd_offers db) \<rparr>;
                   db2 = (if 0 < count_where p (xd_offers db) then db1\<lparr> xd_locks := fst (spendFunds (xd_locks db1) (xe_now env) (xo_id offer)) \<rparr> else db1)
               in log_event env (Some tx) ''exchange_delivered'' (Some (xo_maker offer)) (xo_taker offer)
                    (JObj ([(''offer_id'', JStr (xo_id offer)), (''delivery_tx'', JStr tx)] @ opt_field ''amount'' (dl_amount m))) db2)))"

record timeout_msg =
  tm_offer :: string
  tm_taker :: "string option"
  tm_reason :: "string option"
  tm_from :: string
  tm_txid :: "string option"

definition handleExchangeTimeout :: "xenv \<Rightarrow> xdb \<Rightarrow> timeout_msg \<Rightarrow> xdb" where
  "handleExchangeTimeout env db m =
    (if tm_offer m = [] then db
     else case find_offer db (tm_offer m) of None \<Rightarrow> db
     | Some offer \<Rightarrow>
       if xo_status offer \<noteq> XMatched then db
       else (let db1 = update_offer (xo_id offer) (reopen (xe_now env)) db;
                 db2 = db1\<lparr> xd_locks := fst (releaseFunds (xd_locks db1) (xe_now env) (xo_id offer)) \<rparr>
             in log_event env (tm_txid m) ''exchange_timeout'' (Some (xo_maker offer)) None
               (JObj ([(''offer_id'', JStr (xo_id offer)), (''taker'', null_or (str_or (tm_taker m) (xo_taker offer)))] @
                 opt_field ''reason'' (tm_reason m))) db2))"

subsection \<open>Disputes\<close>

record dispute_bcast =
  db_offer :: string
  db_disputer :: "string option"
  db_reason :: "string option"
  db_raised_at :: "string option"
  db_from :: string
  db_txid :: "string option"

definition is_party :: "xoffer \<Rightarrow> string option \<Rightarrow> bool" where
  "is_party offer x \<longleftrightarrow> x \<noteq> None \<and> (x = Some (xo_maker offer) \<or> x = xo_taker offer)"

definition handleExchangeDispute :: "xenv \<Rightarrow> xdb \<Rightarrow> dispute_bcast \<Rightarrow> xdb" where
  "handleExchangeDispute env db m =
    (if db_offer m = [] then db
     else case find_offer db (db_offer m) of None \<Rightarrow> db
     | Some offer \<Rightarrow>
       if xo_status offer \<in> {XDisputed, XCompleted, XCancelled, XTimedOut, XFailed, XExpired} then db
       else if \<not> is_party offer (db_disputer m) then db
       else (case parse_meta (xo_vmeta offer) of Inl _ \<Rightarrow> db
       | Inr meta \<Rightarrow>
         (case put_keys (dispute_fields (case text_or_null (db_reason m) of Some r \<Rightarrow> r | None \<Rightarrow> ''no_reason_given'')
              (case db_disputer m of Some p \<Rightarrow> JStr p | None \<Rightarrow> JNull)
              (case text_or_null (db_raised_at m) of Some t \<Rightarrow> JStr t | None \<Rightarrow> xe_num env (of_nat (xe_now env)))) meta of
            Inl _ \<Rightarrow> db
          | Inr meta' \<Rightarrow>
            (let db1 = update_offer (xo_id offer) (\<lambda>r. r\<lparr> xo_vmeta := JsonPayload meta', xo_updated_at := xe_now env \<rparr>) db;
                 db2 = move env db1 (xo_id offer) XDisputed
             in log_event env (db_txid m) ''exchange_disputed'' (text_or_null (db_disputer m))
                  (if Some (xo_maker offer) = db_disputer m then xo_taker offer else Some (xo_maker offer))
                  (JObj ([(''offer_id'', JStr (xo_id offer)), (''disputer'', null_or (db_disputer m))] @ opt_field ''reason'' (db_reason m) @
                    [(''from_status'', JStr (xstatus_text (xo_status offer)))])) db2))))"

record resolve_msg =
  rs_offer :: string
  rs_resolver :: "string option"
  rs_outcome :: string
  rs_sender :: string
  rs_txid :: "string option"

text \<open>\<open>json_patch\<close> with an object: a \<open>null\<close> removes the key, a text that is no JSON is an error.\<close>

fun patch_object :: "(string \<times> json) list \<Rightarrow> (string \<times> json) list \<Rightarrow> (string \<times> json) list" where
  "patch_object [] kvs = kvs"
| "patch_object ((k, v) # ps) kvs = patch_object ps (if v = JNull then filter (\<lambda>(a, b). a \<noteq> k) kvs else obj_put k v kvs)"

definition json_patch :: "payload \<Rightarrow> (string \<times> json) list \<Rightarrow> payload option" where
  "json_patch p ps = (case p of NoPayload \<Rightarrow> Some (JsonPayload (JObj (patch_object ps [])))
     | JsonPayload (JObj kvs) \<Rightarrow> Some (JsonPayload (JObj (patch_object ps kvs)))
     | JsonPayload _ \<Rightarrow> Some (JsonPayload (JObj (patch_object ps [])))
     | TextPayload _ \<Rightarrow> None)"

definition handleExchangeResolve :: "xenv \<Rightarrow> xdb \<Rightarrow> resolve_msg \<Rightarrow> xdb" where
  "handleExchangeResolve env db m =
    (if rs_offer m = [] \<or> rs_outcome m = [] then db
     else case find_offer db (rs_offer m) of None \<Rightarrow> db
     | Some offer \<Rightarrow>
       if xo_status offer \<noteq> XDisputed then db
       else (case text_or_null (rs_resolver m) of None \<Rightarrow> db
       | Some resolver \<Rightarrow>
         if resolver \<noteq> xo_maker offer \<and> Some resolver \<noteq> xo_taker offer then db
         else if rs_outcome m \<noteq> (if resolver = xo_maker offer then ''taker_wins'' else ''maker_wins'') then db
         else (let s = (if rs_outcome m = ''maker_wins'' then XCompleted else XCancelled) in
           case json_patch (xo_vmeta offer) [(''resolved_at'', xe_num env (of_nat (xe_now env))), (''resolve_outcome'', JStr (rs_outcome m)),
               (''resolved_by'', JStr resolver), (''resolve_tx'', case text_or_null (rs_txid m) of Some t \<Rightarrow> JStr t | None \<Rightarrow> JNull),
               (''resolve_source'', JStr ''remote_broadcast'')] of
             None \<Rightarrow> db
           | Some meta' \<Rightarrow>
             (let db1 = update_offer (xo_id offer) (\<lambda>r. r\<lparr> xo_status := s, xo_updated_at := xe_now env, xo_vmeta := meta' \<rparr>) db;
                  db2 = db1\<lparr> xd_locks := fst (if rs_outcome m = ''maker_wins'' then spendFunds (xd_locks db1) (xe_now env) (xo_id offer)
                                            else releaseFunds (xd_locks db1) (xe_now env) (xo_id offer)) \<rparr>
              in log_event env (rs_txid m) ''exchange_resolved'' (Some resolver)
                   (if resolver = xo_maker offer then xo_taker offer else Some (xo_maker offer))
                   (JObj [(''offer_id'', JStr (xo_id offer)), (''outcome'', JStr (rs_outcome m)), (''resolver'', JStr resolver),
                     (''from_status'', JStr ''disputed''), (''to_status'', JStr (xstatus_text s)), (''source'', JStr ''remote_broadcast'')]) db2))))"

subsection \<open>The dispatcher\<close>

text \<open>The exchange part of the \<open>switch\<close> in \<open>onBroadcastWritten\<close>.\<close>

datatype exchange_msg = MPublish publish_msg | MAccept accept_msg | MCancel cancel_msg | MConfirm confirm_msg | MPaid paid_msg
  | MDelivered delivered_msg | MTimeout timeout_msg | MDispute dispute_bcast | MResolve resolve_msg

fun dispatch_exchange :: "xenv \<Rightarrow> exchange_msg \<Rightarrow> xdb \<Rightarrow> xdb" where
  "dispatch_exchange env (MPublish m) db = handleExchange env db m"
| "dispatch_exchange env (MAccept m) db = handleExchangeAccept env db m"
| "dispatch_exchange env (MCancel m) db = fst (processCancel env db m)"
| "dispatch_exchange env (MConfirm m) db = fst (processManualConfirm env db m)"
| "dispatch_exchange env (MPaid m) db = handleExchangePaid env db m"
| "dispatch_exchange env (MDelivered m) db = handleExchangeDelivered env db m"
| "dispatch_exchange env (MTimeout m) db = handleExchangeTimeout env db m"
| "dispatch_exchange env (MDispute m) db = handleExchangeDispute env db m"
| "dispatch_exchange env (MResolve m) db = handleExchangeResolve env db m"

end
