(* ===== verification/Exchange_Safety.thy ===== *)
theory Exchange_Safety
  imports Exchange_Filter Status_Machine
begin

section \<open>Safety of the exchange\<close>

text \<open>
  What every handler of the exchange keeps.  A database \<^emph>\<open>evolves\<close> into another when every offer is still there with
  its terms and a status along the graph of moves, and the invariant of the table is kept: ids are unique, a payment
  belongs to one offer, the taker of an offer is not its maker, and a closed offer has no active fund lock.
  Evolving is transitive, so each handler is a chain of its writes; histories then follow from the status locale.
\<close>

definition offer_status :: "xdb \<Rightarrow> string \<Rightarrow> xstatus option" where
  "offer_status db i = map_option xo_status (find_offer db i)"

definition offer_terms :: "xoffer \<Rightarrow> string \<times> string \<times> string \<times> string \<times> string \<times> string" where
  "offer_terms r = (xo_maker r, xo_give_asset r, xo_give_amount r, xo_want_asset r, xo_want_amount r, xo_verification r)"

definition agreed_terms :: "xdb \<Rightarrow> string \<Rightarrow> (string \<times> string \<times> string \<times> string \<times> string \<times> string) option" where
  "agreed_terms db i = map_option offer_terms (find_offer db i)"

text \<open>The moves: the table of the machine, and those the code writes past it.\<close>

definition BYPASS :: "(xstatus \<times> xstatus) list" where
  "BYPASS = [(XMatched, XOpen), (XMatched, XCompleted), (XVerifying, XCompleted), (XDelivering, XCompleted),
     (XDisputed, XCompleted), (XDisputed, XCancelled)]"

definition x_edge :: "xstatus \<Rightarrow> xstatus \<Rightarrow> bool" where
  "x_edge c s \<longleftrightarrow> s \<in> set (OFFER_TRANSITIONS c) \<or> (c, s) \<in> set BYPASS"

definition FINAL :: "xstatus list" where
  "FINAL = [XCompleted, XTimedOut, XFailed, XCancelled, XExpired, XRefunded]"

lemma final_no_edge: "s \<in> set FINAL \<Longrightarrow> \<not> x_edge s t"
  by (cases s) (auto simp: FINAL_def x_edge_def BYPASS_def)

lemma bypass_edges: "x_edge XMatched XOpen" "x_edge XMatched XCompleted" "x_edge XVerifying XCompleted" "x_edge XDelivering XCompleted"
    "x_edge XDisputed XCompleted" "x_edge XDisputed XCancelled"
  by (simp_all add: x_edge_def BYPASS_def)

definition other_party :: "xoffer \<Rightarrow> bool" where
  "other_party r \<longleftrightarrow> (\<forall>t. xo_taker r = Some t \<longrightarrow> t \<noteq> [] \<longrightarrow> t \<noteq> xo_maker r)"

definition paid_once :: "xdb \<Rightarrow> bool" where
  "paid_once db \<longleftrightarrow> (\<forall>r \<in> set (xd_offers db). \<forall>q \<in> set (xd_offers db). xo_payment_tx r \<noteq> None \<longrightarrow> xo_payment_tx r = xo_payment_tx q \<longrightarrow> xo_id r = xo_id q)"

definition exchange_inv :: "xdb \<Rightarrow> bool" where
  "exchange_inv db \<longleftrightarrow> distinct (map xo_id (xd_offers db)) \<and> paid_once db \<and> (\<forall>r \<in> set (xd_offers db). other_party r)
     \<and> (\<forall>r \<in> set (xd_offers db). xo_status r \<in> set OFFER_TERMINAL \<longrightarrow> active_assets (xd_locks db) (xo_id r) = {})"

definition evolves :: "xdb \<Rightarrow> xdb \<Rightarrow> bool" where
  "evolves db db' \<longleftrightarrow> (exchange_inv db \<longrightarrow> exchange_inv db')
     \<and> (\<forall>i s. offer_status db i = Some s \<longrightarrow> (\<exists>s'. offer_status db' i = Some s' \<and> x_edge\<^sup>*\<^sup>* s s'))
     \<and> (\<forall>i t. agreed_terms db i = Some t \<longrightarrow> agreed_terms db' i = Some t)"

named_theorems evolve_intros \<open>writes that evolve\<close>

lemma evolves_refl [evolve_intros]: "evolves db db"
  by (auto simp: evolves_def)

lemma evolves_trans: "evolves a b \<Longrightarrow> evolves b c \<Longrightarrow> evolves a c"
  unfolding evolves_def by (meson rtranclp_trans)

lemma evolves_other:
  assumes "xd_offers db' = xd_offers db" "\<And>i. active_assets (xd_locks db') i \<subseteq> active_assets (xd_locks db) i"
  shows "evolves db db'"
proof -
  have "find_offer db' = find_offer db" using assms(1) by (simp add: find_offer_def fun_eq_iff)
  moreover have "exchange_inv db \<Longrightarrow> exchange_inv db'" using assms by (fastforce simp: exchange_inv_def paid_once_def)
  ultimately show ?thesis by (auto simp: evolves_def offer_status_def agreed_terms_def)
qed

subsection \<open>One row\<close>

text \<open>What a write may do to a row, given the locks after it.\<close>

definition row_ok :: "xdb \<Rightarrow> lock_row list \<Rightarrow> xoffer \<Rightarrow> xoffer \<Rightarrow> bool" where
  "row_ok db locks r r' \<longleftrightarrow> xo_id r' = xo_id r \<and> offer_terms r' = offer_terms r \<and> x_edge\<^sup>*\<^sup>* (xo_status r) (xo_status r')
     \<and> (xo_payment_tx r' = xo_payment_tx r \<or> xo_payment_tx r' = None \<or> \<not> tx_in_use db (the (xo_payment_tx r')) (xo_id r))
     \<and> (other_party r \<longrightarrow> other_party r')
     \<and> (xo_status r' \<in> set OFFER_TERMINAL \<longrightarrow> xo_status r' = xo_status r \<or> active_assets locks (xo_id r) = {})"

lemma find_offer_Some: "find_offer db oid = Some r \<Longrightarrow> r \<in> set (xd_offers db) \<and> xo_id r = oid"
  unfolding find_offer_def by (rule find_key_Some)

lemma only_row: "distinct (map xo_id (xd_offers db)) \<Longrightarrow> r \<in> set (xd_offers db) \<Longrightarrow> find_offer db (xo_id r) = Some r"
  unfolding find_offer_def by (rule find_key_unique) simp_all

text \<open>The invariant after an update of the rows of one id.\<close>

lemma payment_owner:
  assumes "paid_once db" "x \<in> set (xd_offers db)" "y \<in> set (xd_offers db)" "xo_payment_tx x = Some t"
    and "xo_payment_tx y = Some t \<or> \<not> tx_in_use db t (xo_id y)"
  shows "xo_id x = xo_id y"
  using assms(5)
proof
  assume "xo_payment_tx y = Some t"
  then show ?thesis using assms(1-4) unfolding paid_once_def by (metis option.distinct(1))
next
  assume "\<not> tx_in_use db t (xo_id y)"
  then show ?thesis using assms(2,4) unfolding tx_in_use_def list_ex_iff by blast
qed

lemma row_payment: "row_ok db L r r' \<Longrightarrow> xo_payment_tx r' = Some t \<Longrightarrow> xo_payment_tx r = Some t \<or> \<not> tx_in_use db t (xo_id r)"
  unfolding row_ok_def by (metis option.distinct(1) option.sel)

lemma paid_once_update:
  assumes "paid_once db" "xd_offers db' = map g (xd_offers db)"
    and "\<And>r. r \<in> set (xd_offers db) \<Longrightarrow> xo_id r \<noteq> oid \<Longrightarrow> g r = r" and ok: "\<And>r. r \<in> set (xd_offers db) \<Longrightarrow> row_ok db L r (g r)"
  shows "paid_once db'"
  unfolding paid_once_def assms(2) set_map
proof (intro ballI impI, elim imageE)
  fix r' q' r q
  assume rq: "r' = g r" "r \<in> set (xd_offers db)" "q' = g q" "q \<in> set (xd_offers db)"
    and pay: "xo_payment_tx r' \<noteq> None" "xo_payment_tx r' = xo_payment_tx q'"
  obtain t where t: "xo_payment_tx (g r) = Some t" "xo_payment_tx (g q) = Some t" using pay rq(1,3) by (metis option.exhaust)
  have ids: "xo_id (g r) = xo_id r" "xo_id (g q) = xo_id q" using ok [OF rq(2)] ok [OF rq(4)] by (simp_all add: row_ok_def)
  note old = row_payment [OF ok [OF rq(2)] t(1)] row_payment [OF ok [OF rq(4)] t(2)]
  show "xo_id r' = xo_id q'"
  proof (cases "xo_id r = oid \<and> xo_id q = oid")
    case False
    then consider "xo_payment_tx r = Some t" | "xo_payment_tx q = Some t" using assms(3) t rq(2,4) by metis
    then show ?thesis
      by cases (use payment_owner [OF assms(1) rq(2,4) _ old(2)] payment_owner [OF assms(1) rq(4,2) _ old(1)] ids rq(1,3) in simp_all)
  qed (use ids rq(1,3) in simp)
qed

lemma closed_update:
  assumes "row_ok db L r r'" "xo_status r \<in> set OFFER_TERMINAL \<Longrightarrow> active_assets L (xo_id r) = {}" "xo_status r' \<in> set OFFER_TERMINAL"
  shows "active_assets L (xo_id r') = {}"
  using assms unfolding row_ok_def by metis

lemma inv_update:
  assumes "exchange_inv db" "xd_offers db' = map g (xd_offers db)"
    and "\<And>r. r \<in> set (xd_offers db) \<Longrightarrow> xo_id r \<noteq> oid \<Longrightarrow> g r = r"
    and ok: "\<And>r. r \<in> set (xd_offers db) \<Longrightarrow> row_ok db (xd_locks db') r (g r)"
    and less: "\<And>i. active_assets (xd_locks db') i \<subseteq> active_assets (xd_locks db) i"
  shows "exchange_inv db'"
proof -
  have "map xo_id (xd_offers db') = map xo_id (xd_offers db)" using ok unfolding assms(2) row_ok_def by simp
  then have "distinct (map xo_id (xd_offers db'))" using assms(1) by (simp add: exchange_inv_def)
  moreover have "paid_once db'" using paid_once_update [OF _ assms(2,3) ok] assms(1) by (simp add: exchange_inv_def)
  moreover have "other_party r'" if "r' \<in> set (xd_offers db')" for r'
    using that ok assms(1) unfolding assms(2) row_ok_def exchange_inv_def by auto
  moreover have "active_assets (xd_locks db') (xo_id r') = {}" if m: "r' \<in> set (xd_offers db')" and "xo_status r' \<in> set OFFER_TERMINAL" for r'
  proof -
    obtain r where r: "r \<in> set (xd_offers db)" "r' = g r" using m unfolding assms(2) by auto
    have "xo_status r \<in> set OFFER_TERMINAL \<Longrightarrow> active_assets (xd_locks db') (xo_id r) = {}"
      using assms(1) r(1) less [of "xo_id r"] unfolding exchange_inv_def by auto
    then show ?thesis using closed_update ok [OF r(1)] r(2) that(2) by blast
  qed
  ultimately show ?thesis unfolding exchange_inv_def by blast
qed

lemma evolves_row:
  assumes offers: "xd_offers db' = update_where p f (xd_offers db)"
    and one: "\<And>r. p r \<Longrightarrow> xo_id r = oid" and id: "\<And>r. p r \<Longrightarrow> xo_id (f r) = xo_id r"
    and row: "\<And>r. find_offer db oid = Some r \<Longrightarrow> p r \<Longrightarrow> row_ok db (xd_locks db') r (f r)"
    and less: "\<And>i. active_assets (xd_locks db') i \<subseteq> active_assets (xd_locks db) i"
  shows "evolves db db'"
proof -
  define g where "g = (\<lambda>r. if p r then f r else r)"
  have fnd: "find_offer db' i = map_option g (find_offer db i)" for i
    unfolding find_offer_def offers g_def by (rule find_update_where) (rule id)
  have ok: "row_ok db (xd_locks db') r (g r)" if "find_offer db (xo_id r) = Some r" for r
    using row one that unfolding g_def by (cases "p r") (simp_all add: row_ok_def)
  have ok': "row_ok db (xd_locks db') r (g r)" if "find_offer db i = Some r" for i r
    using ok [of r] find_offer_Some [OF that] that by simp
  have offers': "xd_offers db' = map g (xd_offers db)" unfolding offers g_def update_where_def ..
  have "exchange_inv db'" if inv: "exchange_inv db"
  proof (rule inv_update [OF inv offers'])
    show "g r = r" if "xo_id r \<noteq> oid" for r using one that unfolding g_def by auto
    show "row_ok db (xd_locks db') r (g r)" if "r \<in> set (xd_offers db)" for r
      using ok only_row [OF _ that] inv by (simp add: exchange_inv_def)
  qed (rule less)
  moreover have "\<exists>s'. offer_status db' i = Some s' \<and> x_edge\<^sup>*\<^sup>* s s'" if "offer_status db i = Some s" for i s
    using that ok' [of i] unfolding offer_status_def fnd row_ok_def by auto
  moreover have "agreed_terms db' i = Some t" if "agreed_terms db i = Some t" for i t
    using that ok' [of i] unfolding agreed_terms_def fnd row_ok_def by auto
  ultimately show ?thesis unfolding evolves_def by blast
qed

lemma evolves_rows:
  assumes "\<And>r. p r \<Longrightarrow> xo_id r = oid" "\<And>r. p r \<Longrightarrow> xo_id (f r) = xo_id r"
    and "\<And>r. find_offer db oid = Some r \<Longrightarrow> p r \<Longrightarrow> row_ok db (xd_locks db) r (f r)"
  shows "evolves db (db\<lparr> xd_offers := update_where p f (xd_offers db) \<rparr>)"
  by (rule evolves_row [where p = p and f = f and oid = oid]) (use assms in simp_all)

subsection \<open>Writes that leave the offers alone\<close>

lemma evolves_then: "evolves a b \<Longrightarrow> evolves c a \<Longrightarrow> evolves c b"
  by (rule evolves_trans)

lemma keeps_offers [simp]:
  "xd_offers (log_event env t ty a b j db) = xd_offers db" "xd_locks (log_event env t ty a b j db) = xd_locks db"
  "xd_offers (send_out c db) = xd_offers db" "xd_locks (send_out c db) = xd_locks db"
  "xd_offers (verify_parties r db) = xd_offers db" "xd_locks (verify_parties r db) = xd_locks db"
  "xd_offers (move_event env r s ex db) = xd_offers db" "xd_locks (move_event env r s ex db) = xd_locks db"
  "xd_offers (advance_retail env i u ss st tx db) = xd_offers db" "xd_locks (advance_retail env i u ss st tx db) = xd_locks db"
  "xd_offers (stash_accept env db m) = xd_offers db" "xd_locks (stash_accept env db m) = xd_locks db"
  "xd_offers (chunk_event env r m q db) = xd_offers db" "xd_locks (chunk_event env r m q db) = xd_locks db"
  "xd_offers (hedge_if_local db i) = xd_offers db" "xd_locks (hedge_if_local db i) = xd_locks db"
  "xd_offers (hedge_delivered db i) = xd_offers db" "xd_locks (hedge_delivered db i) = xd_locks db"
  "xd_offers (makerAutoPayGive env db r) = xd_offers db" "xd_locks (makerAutoPayGive env db r) = xd_locks db"
  by (simp_all add: log_event_def send_out_def verify_parties_def move_event_def advance_retail_def stash_accept_def Let_def
      chunk_event_def hedge_if_local_def hedge_delivered_def makerAutoPayGive_def split: option.split sum.split)

lemma insert_event_keeps: "insert_event env t ty a b j ob db = Some db' \<Longrightarrow> xd_offers db' = xd_offers db \<and> xd_locks db' = xd_locks db"
  by (auto simp: insert_event_def split: option.splits if_splits)

lemma notify_keeps: "notify_taker r s db = Inr db' \<Longrightarrow> xd_offers db' = xd_offers db \<and> xd_locks db' = xd_locks db"
  unfolding notify_taker_def by (auto split: option.splits if_splits sum.splits)

lemma evolves_same: "xd_offers db' = xd_offers db \<Longrightarrow> xd_locks db' = xd_locks db \<Longrightarrow> evolves db db'"
  by (rule evolves_other) simp_all

lemma evolves_after: "evolves db db' \<Longrightarrow> xd_offers db'' = xd_offers db' \<Longrightarrow> xd_locks db'' = xd_locks db' \<Longrightarrow> evolves db db''"
  using evolves_trans evolves_same by blast

lemma timeout_broadcast_keeps: "timeout_broadcast env r db = Some db' \<Longrightarrow> xd_offers db' = xd_offers db \<and> xd_locks db' = xd_locks db"
  by (auto simp: timeout_broadcast_def Let_def split: option.splits)

lemma close_locks [simp]:
  "active_assets (fst (spendFunds l now i)) j = (if i = j then {} else active_assets l j)"
  "active_assets (fst (releaseFunds l now i)) j = (if i = j then {} else active_assets l j)"
  by (rule spent.active_close released.active_close)+

lemma settle_offer_locks_active:
  "active_assets (settle_offer_locks now oid s l) j = (if s \<in> set OFFER_TERMINAL \<and> oid = j then {} else active_assets l j)"
  by (simp add: settle_offer_locks_def)

lemma evolves_close_locks: "evolves db (db\<lparr> xd_locks := fst (spendFunds l now i) \<rparr>)" if "l = xd_locks db"
  by (rule evolves_other) (simp_all add: that)

subsection \<open>A transition\<close>

lemma offer_update_simps [simp]:
  "xo_id (offer_update now s ex r) = xo_id r" "offer_terms (offer_update now s ex r) = offer_terms r"
  "xo_status (offer_update now s ex r) = s" "xo_payment_tx (offer_update now s ex r) = xo_payment_tx r"
  "xo_maker (offer_update now s ex r) = xo_maker r" "xo_verification (offer_update now s ex r) = xo_verification r"
  "xo_taker (offer_update now s ex r) = (case xt_match ex of None \<Rightarrow> xo_taker r | Some m \<Rightarrow> Some (mi_taker m))"
  by (simp_all add: offer_update_def Let_def set_offer_time_def offer_terms_def split: option.split xstatus.split)

definition may_move :: "xoffer \<Rightarrow> xstatus \<Rightarrow> bool" where
  "may_move r s \<longleftrightarrow> xo_status r \<notin> set OFFER_TERMINAL \<and> s \<in> set (OFFER_TRANSITIONS (xo_status r))"

text \<open>The rows and locks after a transition that is not refused, whether or not a message fails.\<close>

lemma transition_writes:
  assumes "find_offer db oid = Some r" "may_move r s"
  shows "xd_offers (fst (exchangeTransition env db oid s ex)) = update_where (\<lambda>r. xo_id r = oid) (offer_update (xe_now env) s ex) (xd_offers db)
    \<and> xd_locks (fst (exchangeTransition env db oid s ex)) = settle_offer_locks (xe_now env) oid s (xd_locks db)"
  using assms notify_keeps unfolding exchangeTransition_def may_move_def
  by (auto simp: Let_def update_offer_def split: sum.split)

lemma offer_refused:
  "find_offer db oid = None \<Longrightarrow> exchangeTransition env db oid s ex = (db, Inl OfferNotFound)"
  "find_offer db oid = Some r \<Longrightarrow> \<not> may_move r s \<Longrightarrow> exchangeTransition env db oid s ex = (db, Inr r)"
  by (auto simp: exchangeTransition_def may_move_def)

definition fair_match :: "xdb \<Rightarrow> string \<Rightarrow> extra \<Rightarrow> bool" where
  "fair_match db oid ex \<longleftrightarrow> (\<forall>m r. xt_match ex = Some m \<longrightarrow> find_offer db oid = Some r \<longrightarrow> mi_taker m \<noteq> [] \<longrightarrow> mi_taker m \<noteq> xo_maker r)"

lemma may_move_edge: "may_move r s \<Longrightarrow> x_edge\<^sup>*\<^sup>* (xo_status r) s"
  by (auto simp: may_move_def x_edge_def)

lemma transition_evolves:
  assumes "fair_match db oid ex"
  shows "evolves db (fst (exchangeTransition env db oid s ex))"
proof (cases "\<exists>r. find_offer db oid = Some r \<and> may_move r s")
  case False
  then have "fst (exchangeTransition env db oid s ex) = db" using offer_refused by (cases "find_offer db oid") auto
  then show ?thesis by (simp add: evolves_refl)
next
  case True
  then obtain r where r: "find_offer db oid = Some r" "may_move r s" by blast
  note w = transition_writes [OF r, of env ex]
  show ?thesis
  proof (rule evolves_row [where oid = oid and p = "\<lambda>r. xo_id r = oid" and f = "offer_update (xe_now env) s ex"])
    fix q assume "find_offer db oid = Some q"
    then have "q = r" "xo_id r = oid" using r(1) find_offer_Some [OF r(1)] by simp_all
    then show "row_ok db (xd_locks (fst (exchangeTransition env db oid s ex))) q (offer_update (xe_now env) s ex q)"
      using assms r(1) may_move_edge [OF r(2)] unfolding row_ok_def
      by (auto simp: w settle_offer_locks_active other_party_def fair_match_def split: option.split)
  qed (use w settle_offer_locks_active in auto)
qed

lemma plain_fair [simp]: "fair_match db oid \<lparr> xt_txHash = t, xt_match = None \<rparr>" "fair_match db oid (with_tx t')"
  by (simp_all add: fair_match_def with_tx_def)

lemma move_evolves [evolve_intros]: "evolves db (move env db oid s)"
  unfolding move_def by (rule transition_evolves) simp

text \<open>Writes to columns that are neither the status nor part of the invariant.\<close>

lemma evolves_columns:
  assumes "\<And>r. xo_id (f r) = xo_id r \<and> offer_terms (f r) = offer_terms r \<and> xo_status (f r) = xo_status r \<and> xo_taker (f r) = xo_taker r
      \<and> xo_payment_tx (f r) = xo_payment_tx r"
  shows "evolves db (update_offer oid f db)"
proof (rule evolves_row [where oid = oid and p = "\<lambda>r. xo_id r = oid" and f = f])
  fix r show "row_ok db (xd_locks (update_offer oid f db)) r (f r)"
    using assms [of r] by (auto simp: row_ok_def other_party_def offer_terms_def)
qed (use assms in \<open>simp_all add: update_offer_def\<close>)

subsection \<open>The handlers\<close>

lemma evolves_if: "(c \<Longrightarrow> evolves db (fst a)) \<Longrightarrow> (\<not> c \<Longrightarrow> evolves db (fst b)) \<Longrightarrow> evolves db (fst (if c then a else b))"
  by simp

lemma taker_row: "evolves db (db\<lparr> xd_offers := update_where (\<lambda>q. xo_id q = i \<and> xo_status q = XOpen)
    (\<lambda>q. q\<lparr> xo_taker_chain := c, xo_taker_addr := a, xo_vmeta := v \<rparr>) (xd_offers db) \<rparr>)"
  by (rule evolves_rows [where oid = i]) (simp_all add: row_ok_def other_party_def offer_terms_def)

lemma store_taker_evolves: "store_taker db r m = Inr db' \<Longrightarrow> evolves db db'"
  unfolding store_taker_def using taker_row evolves_refl
  by (cases "parse_meta (xo_vmeta r)"; cases "put_keys (accept_meta m) (projr (parse_meta (xo_vmeta r)))") (simp_all split: if_splits, blast+)

lemma evolves_maker: "evolves db db' \<Longrightarrow> find_offer db oid = Some q \<Longrightarrow> \<exists>q'. find_offer db' oid = Some q' \<and> xo_maker q' = xo_maker q"
  unfolding evolves_def agreed_terms_def offer_terms_def by fastforce

lemma route_evolves: "evolves db (fst (routeToVerification env db r))"
  unfolding routeToVerification_def by (auto intro: transition_evolves evolves_refl)

lemma accept_evolves [evolve_intros]: "evolves db (fst (processAccept env db m))"
proof (cases "find_offer db (am_offer m)")
  case None
  then show ?thesis by (auto simp: processAccept_def intro: evolves_refl evolves_same)
next
  case (Some r)
  have id: "xo_id r = am_offer m" using find_offer_Some [OF Some] by simp
  show ?thesis
  proof (cases "accept_taker m \<noteq> [] \<and> accept_taker m = xo_maker r")
    case True
    then show ?thesis using Some by (auto simp: processAccept_def intro: evolves_refl)
  next
    case False
    have step: "evolves db (fst (exchangeTransition env db1 (xo_id r) XMatched \<lparr> xt_txHash = None, xt_match = Some
        \<lparr> mi_taker = accept_taker m, mi_tx = am_tx m, mi_commitment = c, mi_filled = q \<rparr> \<rparr>))"
      if "store_taker db r m = Inr db1" for db1 c q
    proof -
      have "fair_match db1 (xo_id r) \<lparr> xt_txHash = None, xt_match = Some
          \<lparr> mi_taker = accept_taker m, mi_tx = am_tx m, mi_commitment = c, mi_filled = q \<rparr> \<rparr>"
        using False evolves_maker [OF store_taker_evolves [OF that] Some] unfolding fair_match_def id by auto
      then show ?thesis using transition_evolves store_taker_evolves [OF that] evolves_trans by blast
    qed
    have full: "evolves db (fst (routeToVerification env (chunk_event env r m q db2) x))"
      if "store_taker db r m = Inr db1" "exchangeTransition env db1 (xo_id r) XMatched \<lparr> xt_txHash = None, xt_match = Some
        \<lparr> mi_taker = accept_taker m, mi_tx = am_tx m, mi_commitment = c, mi_filled = q \<rparr> \<rparr> = (db2, y)" for db1 db2 c q x y
      using evolves_trans [OF step [OF that(1), of c q] evolves_trans [OF evolves_same route_evolves]] that(2) by simp
    show ?thesis
      unfolding processAccept_def Some option.case
      using False step full by (auto simp: Let_def evolves_refl move_evolves split: option.split sum.split prod.split) (metis fst_conv)+
  qed
qed

lemma confirm_evolves [evolve_intros]: "evolves db (fst (processManualConfirm env db m))"
proof -
  have mk: "evolves d (if c then update_offer oid (\<lambda>r. r\<lparr> xo_maker_confirmed := x, xo_updated_at := t \<rparr>) d else d)"
    and tk: "evolves d (if c then update_offer oid (\<lambda>r. r\<lparr> xo_taker_confirmed := x, xo_updated_at := t \<rparr>) d else d)" for c d oid x t
    by (cases c; simp add: evolves_refl evolves_columns offer_terms_def)+
  have fin: "evolves db d \<Longrightarrow> evolves db (fst (case find_offer d oid of None \<Rightarrow> (d, None)
       | Some r \<Rightarrow> if xo_maker_confirmed r \<noteq> None \<and> xo_taker_confirmed r \<noteq> None
           then (move env d oid XCompleted, find_offer (move env d oid XCompleted) oid) else (d, Some r)))" for d oid
    using evolves_trans [OF _ move_evolves] by (simp split: option.split)
  show ?thesis
  proof (cases "find_offer db (cm_offer m)")
    case None
    then show ?thesis by (simp add: processManualConfirm_def evolves_refl)
  next
    case (Some r)
    show ?thesis unfolding processManualConfirm_def Let_def Some option.case
      by (intro evolves_if) (simp only: fst_conv evolves_refl | rule fin [OF evolves_trans [OF mk tk]])+
  qed
qed

lemma cancel_evolves [evolve_intros]: "evolves db (fst (processCancel env db m))"
  unfolding processCancel_def by (auto simp: Let_def split: option.split intro: evolves_refl move_evolves)

lemma meta_evolves: "evolves db (update_offer oid (\<lambda>r. r\<lparr> xo_vmeta := j, xo_updated_at := t \<rparr>) db)"
  by (rule evolves_columns) (simp add: offer_terms_def)

lemma dispute_evolves [evolve_intros]: "evolves db (fst (processDispute env db m))"
  unfolding processDispute_def
  by (auto simp: Let_def split: option.split sum.split intro: evolves_refl evolves_trans [OF meta_evolves move_evolves])

lemma cleanup_evolves [evolve_intros]: "evolves db (fst (cleanupStaleOrphanAccepts env db))"
  by (rule evolves_same) (simp_all add: cleanupStaleOrphanAccepts_def Let_def)

lemma moves_evolves [evolve_intros]: "evolves db (moves env s is db)"
  by (induction env s "is" db rule: moves.induct) (auto intro: evolves_refl evolves_trans [OF move_evolves])

lemma expire_evolves [evolve_intros]: "evolves db (fst (expireStale env db))"
  by (simp add: expireStale_def Let_def moves_evolves)

lemma emit_evolves: "evolves db (fst (emitTimeoutAndTransition env db oid))"
  unfolding emitTimeoutAndTransition_def
  using timeout_broadcast_keeps by (auto split: option.split intro: evolves_refl evolves_trans [OF evolves_same move_evolves])

lemma time_out_all_evolves [evolve_intros]: "evolves db (time_out_all env is db)"
  by (induction env "is" db rule: time_out_all.induct) (auto intro: evolves_refl evolves_trans [OF emit_evolves])

lemma timeout_evolves [evolve_intros]: "evolves db (fst (timeoutVerifying env db))"
  unfolding timeoutVerifying_def Let_def fst_conv
  by (blast intro: evolves_trans time_out_all_evolves moves_evolves)

lemma reopen_evolves: "evolves db (reopen_matched env db oid)"
  unfolding reopen_matched_def Let_def
proof (rule evolves_trans)
  show "evolves db (db\<lparr> xd_offers := update_where (\<lambda>r. xo_id r = oid \<and> xo_status r = XMatched) (reopen (xe_now env)) (xd_offers db) \<rparr>)"
    by (rule evolves_rows [where oid = oid])
      (simp_all add: row_ok_def reopen_def offer_terms_def other_party_def OFFER_TERMINAL_def r_into_rtranclp bypass_edges)
qed (rule evolves_other, simp_all)

lemma reopen_all_evolves: "evolves db (reopen_all env rs db)"
proof (induction env rs db rule: reopen_all.induct)
  case (2 env r rs db)
  show ?case
  proof (cases "timeout_broadcast env r db")
    case None
    then show ?thesis using "2.IH" by simp
  next
    case (Some d)
    then show ?thesis
      using evolves_trans [OF evolves_same evolves_trans [OF reopen_evolves "2.IH"(2) [OF Some]]] timeout_broadcast_keeps [OF Some] by simp
  qed
qed (simp add: evolves_refl)

lemma matched_timeout_evolves [evolve_intros]: "evolves db (fst (checkMatchedTimeout env db))"
  by (simp add: checkMatchedTimeout_def Let_def reopen_all_evolves)

text \<open>Recording a payment transaction that no other offer has.\<close>

lemma payment_row: "\<not> tx_in_use db tx oid \<Longrightarrow>
    (\<And>r. xo_id (f r) = xo_id r \<and> offer_terms (f r) = offer_terms r \<and> xo_status (f r) = xo_status r \<and> xo_taker (f r) = xo_taker r
      \<and> xo_payment_tx (f r) = Some tx) \<Longrightarrow> evolves db (update_offer oid f db)"
  unfolding update_offer_def
  by (rule evolves_rows [where oid = oid]) (simp_all add: row_ok_def other_party_def offer_terms_def)

lemma submit_evolves [evolve_intros]: "evolves db (fst (processPaymentSubmit env db m))"
proof -
  have pay: "\<not> tx_in_use db tx oid \<Longrightarrow> evolves db (update_offer oid (\<lambda>r. r\<lparr> xo_vmeta := j, xo_payment_tx := Some tx, xo_updated_at := t \<rparr>) db)"
    for tx oid j t by (rule payment_row) (simp_all add: offer_terms_def)
  show ?thesis unfolding processPaymentSubmit_def
    by (auto simp: evolves_refl split: option.split sum.split intro: evolves_after [OF pay])
qed

lemma complete_received_evolves: "evolves db (complete_received env db r tx)"
proof -
  define oid where "oid = xo_id r"
  define db1 where "db1 = update_offer oid (\<lambda>r. r\<lparr> xo_delivery_tx := Some tx \<rparr>) db"
  define db2 where "db2 = fst (exchangeTransition env db1 oid XDelivering (with_tx tx))"
  define db3 where "db3 = fst (exchangeTransition env db2 oid XCompleted (with_tx tx))"
  define db4 where "db4 = db3\<lparr> xd_locks := fst (spendFunds (xd_locks db3) (xe_now env) oid) \<rparr>"
  have "evolves db db1" unfolding db1_def by (rule evolves_columns) (simp add: offer_terms_def)
  moreover have "evolves db1 db2" unfolding db2_def by (rule transition_evolves) simp
  moreover have "evolves db2 db3" unfolding db3_def by (rule transition_evolves) simp
  moreover have "evolves db3 db4" unfolding db4_def by (rule evolves_close_locks) (rule refl)
  ultimately have 4: "evolves db db4" using evolves_trans by blast
  then show ?thesis
    unfolding complete_received_def Let_def oid_def [symmetric] db1_def [symmetric] db2_def [symmetric] db3_def [symmetric] db4_def [symmetric]
    using insert_event_keeps by (auto split: option.split intro: evolves_after [OF 4])
qed

lemma auto_dispute_evolves: "evolves db (auto_dispute env db r meta err)"
proof -
  have m: "evolves db (move env (update_offer oid (\<lambda>r. r\<lparr> xo_vmeta := j, xo_updated_at := t \<rparr>) db) oid s)" for oid j t s
    by (rule evolves_trans [OF meta_evolves move_evolves])
  show ?thesis unfolding auto_dispute_def Let_def
    using insert_event_keeps by (auto simp: evolves_refl m split: sum.split option.split intro: evolves_after [OF m])
qed

lemma confirm_payment_evolves [evolve_intros]: "evolves db (fst (confirm_payment env db r meta tx chain n))"
proof -
  have a: "evolves db (complete_received env (update_offer oid (\<lambda>r. r\<lparr> xo_vmeta := j, xo_updated_at := t \<rparr>) db) r x)" for oid j t r x
    by (rule evolves_trans [OF meta_evolves complete_received_evolves])
  have b: "evolves db (fst (exchangeTransition env (update_offer oid (\<lambda>r. r\<lparr> xo_vmeta := j, xo_updated_at := t \<rparr>) db) oid XDelivering
      \<lparr> xt_txHash = None, xt_match = None \<rparr>))" for oid j t
    by (rule evolves_trans [OF meta_evolves transition_evolves]) simp
  then have c: "exchangeTransition env (update_offer oid (\<lambda>r. r\<lparr> xo_vmeta := j, xo_updated_at := t \<rparr>) db) oid XDelivering
      \<lparr> xt_txHash = None, xt_match = None \<rparr> = (d, y) \<Longrightarrow> evolves db d" for oid j t d y by (metis fst_conv)
  have send: "evolves db (send_out x db)" for x by (rule evolves_same) simp_all
  show ?thesis unfolding confirm_payment_def Let_def
    by (auto simp: evolves_refl a send auto_dispute_evolves split: sum.split prod.split verdict_tx.split intro: c evolves_after [OF c])
qed

lemma verify_payment_evolves [evolve_intros]: "evolves db (fst (verify_payment env db oid tx chain n))"
  unfolding verify_payment_def by (auto simp: evolves_refl confirm_payment_evolves split: option.split)

lemma same_intros: "evolves a b \<Longrightarrow> evolves a (send_out c b)" "evolves a b \<Longrightarrow> evolves a (hedge_if_local b i)"
    "evolves a b \<Longrightarrow> evolves a (hedge_delivered b i)"
    "evolves a b \<Longrightarrow> evolves a (log_event env t ty x y j b)" "evolves a b \<Longrightarrow> evolves a (advance_retail env i u ss st tx b)"
  by (auto intro: evolves_after)

lemma insert_event_evolves: "evolves a b \<Longrightarrow> insert_event env t ty x y j ob b = Some b' \<Longrightarrow> evolves a b'"
  using insert_event_keeps evolves_after by blast

lemma delivered_evolves: "evolves a b \<Longrightarrow> evolves a (fst (exchangeTransition env (update_offer oid (\<lambda>q. q\<lparr> xo_delivery_tx := x \<rparr>) b) oid s (with_tx tx)))"
proof (rule evolves_trans, assumption, rule evolves_trans)
  show "evolves b (update_offer oid (\<lambda>q. q\<lparr> xo_delivery_tx := x \<rparr>) b)" by (rule evolves_columns) (simp add: offer_terms_def)
qed (rule transition_evolves, simp)

lemma spend_evolves: "evolves a b \<Longrightarrow> evolves a (b\<lparr> xd_locks := fst (spendFunds (xd_locks b) t i) \<rparr>)"
  using evolves_trans evolves_close_locks [OF refl] by blast

lemma release_evolves: "evolves a b \<Longrightarrow> evolves a (b\<lparr> xd_locks := fst (releaseFunds (xd_locks b) t i) \<rparr>)"
  by (rule evolves_trans, assumption, rule evolves_other) simp_all

lemma branch_intros:
  "(c \<Longrightarrow> evolves a x) \<Longrightarrow> (\<not> c \<Longrightarrow> evolves a y) \<Longrightarrow> evolves a (if c then x else y)"
  "(z = None \<Longrightarrow> evolves a x) \<Longrightarrow> (\<And>v. z = Some v \<Longrightarrow> evolves a (f v)) \<Longrightarrow> evolves a (case z of None \<Rightarrow> x | Some v \<Rightarrow> f v)"
  by (simp_all split: option.split)

lemma deliver_evolves [evolve_intros]: "evolves db (deliver env db r)"
  unfolding deliver_def Let_def
  by (rule branch_intros same_intros evolves_refl delivered_evolves spend_evolves move_evolves | erule insert_event_evolves [rotated])+

lemma verifyAndComplete_evolves [evolve_intros]: "evolves db (verifyAndComplete env db oid tx chain n)"
  unfolding verifyAndComplete_def using verify_payment_evolves [of db env oid tx chain n] evolves_trans [OF _ deliver_evolves]
  by (auto split: prod.split option.split)

lemma auto_pay_evolves [evolve_intros]: "evolves db (makerAutoPayGive env db r)"
  by (rule evolves_same) simp_all

subsection \<open>The messages\<close>

lemma auto_pay_same: "evolves a b \<Longrightarrow> evolves a (auto_pay b r c)"
  unfolding auto_pay_def by (auto split: option.split intro: same_intros)


lemma handle_accept_fails: "processAccept env db m = (d, Inl e) \<Longrightarrow> evolves db d \<Longrightarrow> evolves db (handleExchangeAccept env db m)"
  unfolding handleExchangeAccept_def by (simp only: prod.case sum.case) (simp add: evolves_refl)

lemma handle_accept_done: "processAccept env db m = (d, Inr x) \<Longrightarrow> evolves db d \<Longrightarrow> evolves db (handleExchangeAccept env db m)"
  apply (unfold handleExchangeAccept_def Let_def)
  apply (simp only: prod.case sum.case)
  apply (rule branch_intros evolves_refl same_intros auto_pay_same | assumption)+
  done

lemma handle_accept_evolves: "evolves db (handleExchangeAccept env db m)"
proof -
  have d: "evolves db (fst (processAccept env db m))" by (rule accept_evolves)
  show ?thesis
    by (cases "snd (processAccept env db m)")
      (rule handle_accept_fails [OF _ d] handle_accept_done [OF _ d], simp add: prod_eq_iff)+
qed

lemma replay_evolves: "evolves db (replay_accepts env ps db)"
proof (induction env ps db rule: replay_accepts.induct)
  case (2 env p ps db)
  have "evolves db (db\<lparr> xd_orphans := q \<rparr>)" for q by (rule evolves_same) simp_all
  then show ?case using 2 handle_accept_evolves evolves_trans by (metis replay_accepts.simps(2))
qed (simp add: evolves_refl)

lemma publish_inv:
  assumes inv: "exchange_inv db" and new: "xo_id r \<notin> xo_id ` set (xd_offers db)" "xo_status r = XOpen" "xo_taker r = None" "xo_payment_tx r = None"
    and d: "xd_offers d = xd_offers db @ [r]" "xd_locks d = xd_locks db"
  shows "exchange_inv d"
proof -
  have mem: "q \<in> set (xd_offers d) \<longleftrightarrow> q = r \<or> q \<in> set (xd_offers db)" for q unfolding d(1) by auto
  have parts: "distinct (map xo_id (xd_offers db))" "paid_once db" "\<And>q. q \<in> set (xd_offers db) \<Longrightarrow> other_party q"
      "\<And>q. q \<in> set (xd_offers db) \<Longrightarrow> xo_status q \<in> set OFFER_TERMINAL \<Longrightarrow> active_assets (xd_locks db) (xo_id q) = {}"
    using inv unfolding exchange_inv_def by blast+
  have "distinct (map xo_id (xd_offers d))" unfolding d(1) using parts(1) new(1) by simp
  moreover have "paid_once d" using parts(2) new(4) unfolding paid_once_def Ball_def mem by metis
  moreover have "other_party q" if "q \<in> set (xd_offers d)" for q
    using that parts(3) new(3) unfolding mem other_party_def by (metis option.distinct(1))
  moreover have "active_assets (xd_locks d) (xo_id q) = {}" if "q \<in> set (xd_offers d)" "xo_status q \<in> set OFFER_TERMINAL" for q
  proof -
    have "q \<noteq> r" using that(2) new(2) by (auto simp: OFFER_TERMINAL_def)
    then show ?thesis using that parts(4) unfolding mem d(2) by blast
  qed
  ultimately show ?thesis unfolding exchange_inv_def by blast
qed

lemma publish_row:
  assumes "find_offer db (xo_id r) = None" "xo_status r = XOpen" "xo_taker r = None" "xo_payment_tx r = None"
    and "xd_offers d = xd_offers db @ [r]" "xd_locks d = xd_locks db"
  shows "evolves db d"
proof -
  have "xo_id q \<noteq> xo_id r" if "q \<in> set (xd_offers db)" for q
    using assms(1) that unfolding find_offer_def find_None_iff by metis
  then have new: "xo_id r \<notin> xo_id ` set (xd_offers db)" by (metis imageE)
  have 1: "exchange_inv db \<longrightarrow> exchange_inv d" by (intro impI publish_inv [OF _ new assms(2-6)])
  have f: "find_offer d i = Some q" if "find_offer db i = Some q" for i q
    using that unfolding find_offer_def assms(5) find_append by (simp only: option.case)
  have "offer_status d i = Some s" if "offer_status db i = Some s" for i s
    using that f [of i] unfolding offer_status_def by (cases "find_offer db i") simp_all
  moreover have "agreed_terms d i = Some t" if "agreed_terms db i = Some t" for i t
    using that f [of i] unfolding agreed_terms_def by (cases "find_offer db i") simp_all
  ultimately show ?thesis using 1 unfolding evolves_def by blast
qed

lemma publish_evolves: "evolves db (handleExchange env db m)"
proof -
  have "evolves db (db\<lparr> xd_offers := xd_offers db @ [new_offer env oid m], xd_draws := n \<rparr>)" if "find_offer db oid = None" for oid n
    by (rule publish_row [where r = "new_offer env oid m"]) (simp_all add: new_offer_def Let_def that)
  then show ?thesis unfolding handleExchange_def Let_def
    by (auto simp: evolves_refl intro!: same_intros evolves_trans [OF _ replay_evolves])
qed

lemma paid_evolves: "evolves db (handleExchangePaid env db m)"
proof -
  have tx: "\<not> tx_in_use d t oid \<Longrightarrow> evolves d (update_offer oid (\<lambda>r. r\<lparr> xo_payment_tx := Some t \<rparr>) d)" for d t oid
    by (rule payment_row) (simp_all add: offer_terms_def)
  have ch: "evolves a b \<Longrightarrow> evolves a (update_offer oid (\<lambda>r. r\<lparr> xo_taker_chain := c \<rparr>) b)" for a b oid c
    by (rule evolves_trans, assumption, rule evolves_columns) (simp add: offer_terms_def)
  have mv: "evolves a b \<Longrightarrow> evolves a (move env b oid s)" for a b oid s
    by (rule evolves_trans [OF _ move_evolves])
  have sub: "evolves a b \<Longrightarrow> evolves a (fst (processPaymentSubmit env b q))" for a b q
    by (rule evolves_trans [OF _ submit_evolves])
  show ?thesis unfolding handleExchangePaid_def Let_def
    by (rule branch_intros sub mv ch tx same_intros evolves_refl | assumption)+
qed

lemma remote_delivery_evolves: "evolves db (handleExchangeDelivered env db m)"
proof (cases "find_offer db (dl_offer m)")
  case None
  then show ?thesis by (simp add: handleExchangeDelivered_def evolves_refl split: option.split)
next
  case (Some r)
  define p where "p = (\<lambda>q :: xoffer. xo_id q = xo_id r \<and> xo_status q \<in> {XMatched, XVerifying, XDelivering})"
  have row: "evolves db d" if d: "xd_offers d = update_where p (\<lambda>q. q\<lparr> xo_delivery_tx := Some tx, xo_status := XCompleted,
          xo_completed_at := Some now, xo_observed := True, xo_updated_at := now \<rparr>) (xd_offers db)"
      and l: "xd_locks d = (if 0 < count_where p (xd_offers db) then fst (spendFunds (xd_locks db) now (xo_id r)) else xd_locks db)" for d tx now
  proof (rule evolves_row [OF d])
    fix q assume q: "find_offer db (xo_id r) = Some q" "p q"
    then have "0 < count_where p (xd_offers db)" using find_offer_Some [OF q(1)] count_where_0 [of p] by fastforce
    then show "row_ok db (xd_locks d) q (q\<lparr> xo_delivery_tx := Some tx, xo_status := XCompleted,
          xo_completed_at := Some now, xo_observed := True, xo_updated_at := now \<rparr>)"
      using q(2) bypass_edges by (auto simp: row_ok_def l p_def offer_terms_def other_party_def)
  qed (simp_all add: p_def l)
  show ?thesis unfolding handleExchangeDelivered_def Some option.case Let_def
    by (simp only: p_def [symmetric]) (rule branch_intros same_intros evolves_refl row | simp)+
qed

lemma remote_timeout_evolves: "evolves db (handleExchangeTimeout env db m)"
proof (cases "find_offer db (tm_offer m)")
  case None
  then show ?thesis by (simp add: handleExchangeTimeout_def evolves_refl)
next
  case (Some r)
  have "evolves db (update_offer (xo_id r) (reopen (xe_now env)) db)" if "xo_status r = XMatched"
    unfolding update_offer_def
  proof (rule evolves_rows [where oid = "xo_id r"])
    fix q assume "find_offer db (xo_id r) = Some q"
    then have "q = r" using Some find_offer_Some [OF Some] by simp
    then show "row_ok db (xd_locks db) q (reopen (xe_now env) q)"
      using that bypass_edges by (simp add: row_ok_def reopen_def offer_terms_def other_party_def OFFER_TERMINAL_def r_into_rtranclp)
  qed (simp_all add: reopen_def)
  then show ?thesis unfolding handleExchangeTimeout_def Some option.case Let_def
    by (simp add: evolves_refl same_intros release_evolves)
qed

lemma remote_dispute_evolves: "evolves db (handleExchangeDispute env db m)"
  unfolding handleExchangeDispute_def Let_def
  by (auto split: option.split sum.split simp: evolves_refl intro!: same_intros evolves_trans [OF meta_evolves move_evolves])

lemma remote_resolve_evolves: "evolves db (handleExchangeResolve env db m)"
proof (cases "find_offer db (rs_offer m)")
  case None
  then show ?thesis by (simp add: handleExchangeResolve_def evolves_refl)
next
  case (Some r)
  have row: "evolves db d" if st: "\<not> xo_status r \<noteq> XDisputed" and s: "s \<in> {XCompleted, XCancelled}"
      and d: "xd_offers d = update_where (\<lambda>q. xo_id q = xo_id r) (\<lambda>q. q\<lparr> xo_status := s, xo_updated_at := t, xo_vmeta := v \<rparr>) (xd_offers db)"
      and l: "active_assets (xd_locks d) (xo_id r) = {}" "\<And>i. active_assets (xd_locks d) i \<subseteq> active_assets (xd_locks db) i" for d s t v
  proof (rule evolves_row [OF d, where oid = "xo_id r"])
    fix q assume "find_offer db (xo_id r) = Some q"
    then have "q = r" using Some find_offer_Some [OF Some] by simp
    then show "row_ok db (xd_locks d) q (q\<lparr> xo_status := s, xo_updated_at := t, xo_vmeta := v \<rparr>)"
      using st s l(1) bypass_edges by (auto simp: row_ok_def offer_terms_def other_party_def)
  qed (use l in simp_all)
  show ?thesis unfolding handleExchangeResolve_def Some option.case Let_def
    by ((rule branch_intros same_intros evolves_refl)+, (rule row, assumption, simp_all add: update_offer_def))
qed

lemma dispatch_evolves [evolve_intros]: "evolves db (dispatch_exchange env m db)"
  by (cases m) (simp_all add: publish_evolves handle_accept_evolves cancel_evolves confirm_evolves paid_evolves remote_delivery_evolves
      remote_timeout_evolves remote_dispute_evolves remote_resolve_evolves)

subsection \<open>Histories\<close>

text \<open>The operations in any order, each with its own clock and answers from outside.  The verification of a payment begins
  with \<open>check_payment\<close>, which changes nothing; its end and the delivery it starts are two steps, since the code waits in between: they
  work on a row \<open>r\<close> read before, whatever the table holds by then.  The page that publishes an offer locks the funds of a new id and writes the row itself.\<close>

inductive exch_step :: "xdb \<Rightarrow> xdb \<Rightarrow> bool" where
  message: "exch_step db (dispatch_exchange env m db)"
| dispute: "exch_step db (fst (processDispute env db d))"
| submit: "exch_step db (fst (processPaymentSubmit env db p))"
| verify: "exch_step db (fst (confirm_payment env db r meta tx chain n))"
| delivery: "exch_step db (deliver env db r)"
| auto_pay: "exch_step db (makerAutoPayGive env db r)"
| orphans: "exch_step db (fst (cleanupStaleOrphanAccepts env db))"
| expire: "exch_step db (fst (expireStale env db))"
| stuck: "exch_step db (fst (timeoutVerifying env db))"
| matched: "exch_step db (fst (checkMatchedTimeout env db))"
| other: "exch_step db (fst (exchangeTransition env db oid s \<lparr> xt_txHash = t, xt_match = None \<rparr>))"
| lock: "find_offer db oid = None \<Longrightarrow> lockFunds (xd_locks db) u now ag oid asset amt bal = (l, res) \<Longrightarrow> exch_step db (db\<lparr> xd_locks := l \<rparr>)"
| release: "exch_step db (db\<lparr> xd_locks := fst (releaseFunds (xd_locks db) now oid) \<rparr>)"
| publish: "find_offer db (xo_id r) = None \<Longrightarrow> xo_status r = XOpen \<Longrightarrow> xo_taker r = None \<Longrightarrow> xo_payment_tx r = None \<Longrightarrow>
    exch_step db (db\<lparr> xd_offers := xd_offers db @ [r] \<rparr>)"

lemma lock_active: "lockFunds l u now ag oid asset amt bal = (l', res) \<Longrightarrow> i \<noteq> oid \<Longrightarrow> active_assets l' i = active_assets l i"
  using lockFunds_cases [of l u now ag oid asset amt bal l' res] by (auto simp: active_assets_def of_order_def)

lemma lock_evolves:
  assumes "find_offer db oid = None" "lockFunds (xd_locks db) u now ag oid asset amt bal = (l, res)"
  shows "evolves db (db\<lparr> xd_locks := l \<rparr>)"
proof -
  have "xo_id r \<noteq> oid" if "r \<in> set (xd_offers db)" for r
    using assms(1) that unfolding find_offer_def find_None_iff by metis
  then have "\<forall>r \<in> set (xd_offers db). active_assets l (xo_id r) = active_assets (xd_locks db) (xo_id r)" using lock_active [OF assms(2)] by blast
  moreover have "paid_once (db\<lparr> xd_locks := l \<rparr>) = paid_once db" by (simp add: paid_once_def)
  ultimately have "exchange_inv db \<longrightarrow> exchange_inv (db\<lparr> xd_locks := l \<rparr>)" by (simp add: exchange_inv_def)
  moreover have "find_offer (db\<lparr> xd_locks := l \<rparr>) = find_offer db" by (simp add: find_offer_def fun_eq_iff)
  ultimately show ?thesis unfolding evolves_def offer_status_def agreed_terms_def by auto
qed

lemma exch_step_evolves: "exch_step db db' \<Longrightarrow> evolves db db'"
proof (induction rule: exch_step.induct)
  case (publish db r)
  show ?case by (rule publish_row [OF publish.hyps]) simp_all
next
  case (other db env oid s t)
  show ?case by (rule transition_evolves) simp
qed (auto intro: evolve_intros lock_evolves release_evolves [OF evolves_refl])

lemma history_evolves: "exch_step\<^sup>*\<^sup>* db db' \<Longrightarrow> evolves db db'"
  by (induction rule: rtranclp_induct) (auto intro: evolves_refl evolves_trans exch_step_evolves)

text \<open>The contract of tables with a status, for the status along the moves and for the terms, which no move changes.\<close>

interpretation offerm: status_machine offer_status exch_step x_edge
  by unfold_locales (use exch_step_evolves in \<open>unfold evolves_def, blast\<close>)

interpretation termsm: status_machine agreed_terms exch_step "\<lambda>_ _. False"
  by unfold_locales (use exch_step_evolves in \<open>unfold evolves_def, blast\<close>)

lemma history_inv: "exch_step\<^sup>*\<^sup>* db db' \<Longrightarrow> exchange_inv db \<Longrightarrow> exchange_inv db'"
  using history_evolves unfolding evolves_def by blast

subsection \<open>Once delivering, never again verifying\<close>

definition past_payment :: "xstatus set" where
  "past_payment = {XDelivering, XVerified, XDisputed} \<union> set FINAL"

lemma past_payment_closed: "s \<in> past_payment \<Longrightarrow> x_edge s t \<Longrightarrow> t \<in> past_payment"
  by (cases s) (auto simp: past_payment_def x_edge_def BYPASS_def FINAL_def)

lemma transition_status:
  assumes "find_offer db oid = Some r" "may_move r s"
  shows "offer_status (fst (exchangeTransition env db oid s ex)) i = (if i = oid then Some s else offer_status db i)"
proof -
  have "find_offer (fst (exchangeTransition env db oid s ex)) i = map_option (\<lambda>r. if xo_id r = oid then offer_update (xe_now env) s ex r else r) (find_offer db i)"
    using transition_writes [OF assms, of env ex] unfolding find_offer_def by (auto intro!: find_update_where)
  then show ?thesis using assms(1) find_offer_Some [of db i] by (cases "find_offer db i") (auto simp: offer_status_def)
qed

lemma find_meta: "find_offer (update_offer oid f db) i = map_option (\<lambda>r. if xo_id r = oid then f r else r) (find_offer db i)"
  if "\<And>r. xo_id (f r) = xo_id r"
  unfolding find_offer_def update_offer_def using that by (auto intro!: find_update_where)

lemma check_Some:
  "check_payment db oid = Some (q, meta) \<longleftrightarrow> find_offer db oid = Some q \<and> xo_status q = XVerifying \<and> parse_meta (xo_vmeta q) = Inr meta \<and> meta \<noteq> JNull"
  by (auto simp: check_payment_def split: option.splits sum.splits)

text \<open>An offer is handed over when the payment is confirmed and need not be received; the offer is moved, unless it has left verification.\<close>

lemma confirmed:
  assumes "confirm_payment env db q meta tx chain n = (db', Some r)"
  obtains k j d where "payment_verdict env q meta tx chain = TxConfirmed k" "\<not> (xo_give_asset q \<noteq> ''KAS'' \<and> chain = ''kaspa'')"
    "put_keys [(''verified_tx'', JStr tx), (''verified_at'', xe_num env (of_nat (xe_now env))), (''confirmations'', JInt (int k))] meta = Inr j"
    "exchangeTransition env (update_offer (xo_id q) (\<lambda>r. r\<lparr> xo_vmeta := JsonPayload j, xo_updated_at := xe_now env \<rparr>) db) (xo_id q) XDelivering
      \<lparr> xt_txHash = None, xt_match = None \<rparr> = (d, Inr r)"
    "xd_offers db' = xd_offers d"
proof -
  obtain k where k: "payment_verdict env q meta tx chain = TxConfirmed k"
    using assms unfolding confirm_payment_def Let_def by (cases "payment_verdict env q meta tx chain") (simp_all split: if_splits)
  let ?kv = "[(''verified_tx'', JStr tx), (''verified_at'', xe_num env (of_nat (xe_now env))), (''confirmations'', JInt (int k))]"
  obtain j where j: "put_keys ?kv meta = Inr j"
    using assms unfolding confirm_payment_def Let_def k verdict_tx.case by (cases "put_keys ?kv meta") simp_all
  let ?t = "exchangeTransition env (update_offer (xo_id q) (\<lambda>r. r\<lparr> xo_vmeta := JsonPayload j, xo_updated_at := xe_now env \<rparr>) db) (xo_id q) XDelivering
      \<lparr> xt_txHash = None, xt_match = None \<rparr>"
  have e: "(if xo_give_asset q \<noteq> ''KAS'' \<and> chain = ''kaspa'' then (complete_received env (update_offer (xo_id q) (\<lambda>r. r\<lparr> xo_vmeta := JsonPayload j, xo_updated_at := xe_now env \<rparr>) db) q tx, None)
     else (case ?t of (db2, Inl _) \<Rightarrow> (db2, None)
        | (db2, Inr r) \<Rightarrow> (advance_retail env (xo_id q) (retail_user r) [''paid'', ''awaiting_payment''] ''executing'' None db2, Some r))) = (db', Some r)"
    using assms unfolding confirm_payment_def Let_def k verdict_tx.case j sum.case .
  obtain d y where t: "?t = (d, y)" by fastforce
  have "\<not> (xo_give_asset q \<noteq> ''KAS'' \<and> chain = ''kaspa'')" "y = Inr r" "xd_offers db' = xd_offers d"
    using e unfolding t by (cases y; auto split: if_splits)+
  then show ?thesis using that k j t by blast
qed

lemma to_delivery:
  assumes "confirm_payment env db q meta tx chain n = (db', Some r)" "offer_status db (xo_id q) = Some XVerifying"
  shows "offer_status db' (xo_id q) = Some XDelivering"
proof -
  obtain j d where t: "exchangeTransition env (update_offer (xo_id q) (\<lambda>r. r\<lparr> xo_vmeta := JsonPayload j, xo_updated_at := xe_now env \<rparr>) db) (xo_id q) XDelivering
      \<lparr> xt_txHash = None, xt_match = None \<rparr> = (d, Inr r)" "xd_offers db' = xd_offers d"
    by (rule confirmed [OF assms(1)]) blast
  obtain o' where o': "find_offer db (xo_id q) = Some o'" "xo_status o' = XVerifying" using assms(2) by (auto simp: offer_status_def)
  let ?db1 = "update_offer (xo_id q) (\<lambda>r. r\<lparr> xo_vmeta := JsonPayload j, xo_updated_at := xe_now env \<rparr>) db"
  have "find_offer ?db1 (xo_id q) = Some (o'\<lparr> xo_vmeta := JsonPayload j, xo_updated_at := xe_now env \<rparr>)"
    using o' find_offer_Some [OF o'(1)] by (simp add: find_meta)
  then have "offer_status d (xo_id q) = Some XDelivering"
    using transition_status [of ?db1 "xo_id q" _ XDelivering env "\<lparr> xt_txHash = None, xt_match = None \<rparr>" "xo_id q"] o'(2) t(1)
    by (simp add: OFFER_TERMINAL_def may_move_def)
  then show ?thesis by (simp add: offer_status_def find_offer_def t(2))
qed

lemma verify_cases:
  assumes "verify_payment env db oid tx chain n = (db', Some r)"
  obtains q meta where "check_payment db oid = Some (q, meta)" "confirm_payment env db q meta tx chain n = (db', Some r)" "xo_id q = oid"
  using assms find_offer_Some [of db oid] unfolding verify_payment_def by (auto simp: check_Some split: option.splits)

text \<open>The row handed over is the row of the table with a new status and annotations.\<close>

lemma delivered_row:
  assumes "confirm_payment env db q meta tx chain n = (db', Some r)" "find_offer db (xo_id q) = Some q'"
  shows "offer_terms r = offer_terms q'"
proof -
  have same_terms: "exchangeTransition env d1 i s ex = (d2, Inr y) \<Longrightarrow> find_offer d1 i = Some x \<Longrightarrow> offer_terms y = offer_terms x" for d1 i x s ex d2 y
    unfolding exchangeTransition_def by (auto simp: Let_def split: if_splits sum.splits)
  obtain j d where t: "exchangeTransition env (update_offer (xo_id q) (\<lambda>r. r\<lparr> xo_vmeta := JsonPayload j, xo_updated_at := xe_now env \<rparr>) db) (xo_id q) XDelivering
      \<lparr> xt_txHash = None, xt_match = None \<rparr> = (d, Inr r)"
    by (rule confirmed [OF assms(1)]) blast
  have "find_offer (update_offer (xo_id q) (\<lambda>r. r\<lparr> xo_vmeta := JsonPayload j, xo_updated_at := xe_now env \<rparr>) db) (xo_id q)
      = Some (q'\<lparr> xo_vmeta := JsonPayload j, xo_updated_at := xe_now env \<rparr>)"
    using find_offer_Some [OF assms(2)] assms(2) by (simp add: find_meta)
  then have "offer_terms r = offer_terms (q'\<lparr> xo_vmeta := JsonPayload j, xo_updated_at := xe_now env \<rparr>)" using same_terms t by blast
  then show ?thesis by (simp add: offer_terms_def)
qed

text \<open>A move that is not in the table of moves gives the row back as it is.\<close>

lemma refused_move: "find_offer db i = Some x \<Longrightarrow> \<not> may_move x s \<Longrightarrow> exchangeTransition env db i s ex = (db, Inr x)"
  by (auto simp: exchangeTransition_def may_move_def)

end
