(* ===== verification/Exchange_Claims.thy ===== *)
theory Exchange_Claims
  imports Exchange_Safety
begin

section \<open>What the exchange guarantees\<close>

text \<open>
  The properties of the exchange machine over all histories of Exchange_Safety, the sweeps, and what leaves the wallet
  of a maker: a transfer needs a verified payment, and an offer handed over for delivery is not verified again; but two
  verifications that overlap deliver twice.
\<close>

subsection \<open>Transfers\<close>

fun is_transfer :: "xcommand \<Rightarrow> bool" where
  "is_transfer (Transfer _ _ _ _) = True"
| "is_transfer _ = False"

definition transfers :: "xdb \<Rightarrow> xcommand list" where
  "transfers db = filter is_transfer (xd_outbox db)"

text \<open>The transfers, with the local relays, which nothing changes.\<close>

definition wallet_view :: "xdb \<Rightarrow> xcommand list \<times> relay_row list" where
  "wallet_view db = (transfers db, xd_relays db)"

lemma wallet_view_keep [simp]:
  "wallet_view (log_event env t ty a b j db) = wallet_view db" "wallet_view (verify_parties r db) = wallet_view db"
  "wallet_view (advance_retail env i u ss st tx db) = wallet_view db" "wallet_view (update_offer i f db) = wallet_view db"
  "wallet_view (send_out (Transfer a1 a2 a3 a4) db) = (fst (wallet_view db) @ [Transfer a1 a2 a3 a4], snd (wallet_view db))"
  "\<not> is_transfer c \<Longrightarrow> wallet_view (send_out c db) = wallet_view db"
  "wallet_view (hedge_if_local db i) = wallet_view db" "wallet_view (hedge_delivered db i) = wallet_view db" "wallet_view (move_event env r s ex db) = wallet_view db"
  "wallet_view (db\<lparr> xd_locks := l \<rparr>) = wallet_view db"
  by (simp_all add: wallet_view_def transfers_def log_event_def verify_parties_def advance_retail_def update_offer_def send_out_def hedge_if_local_def hedge_delivered_def
      move_event_def Let_def split: option.split)

lemma insert_event_wallet_view: "insert_event env t ty a b j ob db = Some db' \<Longrightarrow> wallet_view db' = wallet_view db"
  by (auto simp: insert_event_def wallet_view_def transfers_def split: option.splits if_splits)

lemma notify_wallet_view: "notify_taker r s db = Inr db' \<Longrightarrow> wallet_view db' = wallet_view db"
  unfolding notify_taker_def by (auto split: option.splits if_splits sum.splits)

lemma transition_wallet_view [simp]: "wallet_view (fst (exchangeTransition env db oid s ex)) = wallet_view db"
  unfolding exchangeTransition_def using notify_wallet_view
  by (auto simp: Let_def split: option.split sum.split) 

lemma move_wallet_view [simp]: "wallet_view (move env db oid s) = wallet_view db"
  by (simp add: move_def)

lemma branch_keep:
  "(c \<Longrightarrow> wallet_view (fst x) = t) \<Longrightarrow> (\<not> c \<Longrightarrow> wallet_view (fst y) = t) \<Longrightarrow> wallet_view (fst (if c then x else y)) = t"
  "(\<And>e. z = Inl e \<Longrightarrow> wallet_view (fst (f e)) = t) \<Longrightarrow> (\<And>v. z = Inr v \<Longrightarrow> wallet_view (fst (g v)) = t) \<Longrightarrow> wallet_view (fst (case z of Inl e \<Rightarrow> f e | Inr v \<Rightarrow> g v)) = t"
  "(o' = None \<Longrightarrow> wallet_view (fst x) = t) \<Longrightarrow> (\<And>w. o' = Some w \<Longrightarrow> wallet_view (fst (h w)) = t) \<Longrightarrow> wallet_view (fst (case o' of None \<Rightarrow> x | Some w \<Rightarrow> h w)) = t"
  "(\<And>n. v' = TxConfirmed n \<Longrightarrow> wallet_view (fst (k n)) = t) \<Longrightarrow> (\<And>e. v' = TxNotConfirmed e \<Longrightarrow> wallet_view (fst (l e)) = t)
    \<Longrightarrow> wallet_view (fst (case v' of TxConfirmed n \<Rightarrow> k n | TxNotConfirmed e \<Rightarrow> l e)) = t"
  "(\<And>a b. p = (a, b) \<Longrightarrow> wallet_view (fst (u a b)) = t) \<Longrightarrow> wallet_view (fst (case p of (a, b) \<Rightarrow> u a b)) = t"
  by (simp_all split: sum.split option.split verdict_tx.split prod.split)

lemma verify_payment_wallet_view: "wallet_view (fst (verify_payment env db oid tx chain n)) = wallet_view db"
proof -
  have cr: "wallet_view (complete_received env d r x) = wallet_view d" for d r x
    unfolding complete_received_def Let_def using insert_event_wallet_view by (auto split: option.split)
  have ad: "wallet_view (auto_dispute env d r j e) = wallet_view d" for d r j e
    unfolding auto_dispute_def Let_def using insert_event_wallet_view by (auto split: option.split sum.split)
  have tr: "exchangeTransition env (update_offer i f db) i s ex = (d, x) \<Longrightarrow> wallet_view d = wallet_view db" for i f s ex d x
    using transition_wallet_view [of env "update_offer i f db" i s ex] by simp
  have "wallet_view (fst (confirm_payment env db r meta tx chain n)) = wallet_view db" for r meta
    unfolding confirm_payment_def Let_def
    by (rule branch_keep | (drule tr, simp) | simp add: cr ad)+
  then show ?thesis by (simp add: verify_payment_def split: option.split)
qed

text \<open>What a delivery may add, with the target it computes.\<close>

definition one_transfer :: "xdb \<Rightarrow> xoffer \<Rightarrow> xdb \<Rightarrow> bool" where
  "one_transfer db r db' \<longleftrightarrow> wallet_view db' = wallet_view db \<or>
    (\<exists>agent target. local_relay db (xo_maker r) = Some agent \<and> delivery_target r = Some target
      \<and> wallet_view db' = (fst (wallet_view db) @ [Transfer (rn_id agent) (xo_give_asset r) target (xo_give_amount r)], snd (wallet_view db)))"

lemma branch_one:
  "(c \<Longrightarrow> one_transfer db r x) \<Longrightarrow> (\<not> c \<Longrightarrow> one_transfer db r y) \<Longrightarrow> one_transfer db r (if c then x else y)"
  "(z = None \<Longrightarrow> one_transfer db r x) \<Longrightarrow> (\<And>v. z = Some v \<Longrightarrow> one_transfer db r (f v)) \<Longrightarrow> one_transfer db r (case z of None \<Rightarrow> x | Some v \<Rightarrow> f v)"
  by (simp_all split: option.split)

lemma deliver_transfers: "one_transfer db r (deliver env db r)"
  unfolding deliver_def Let_def
  by (rule branch_one | (drule insert_event_wallet_view)+, simp add: one_transfer_def | simp add: one_transfer_def)+


subsection \<open>Sweeps\<close>

text \<open>What a sweep that moves the offers \<open>is\<close> to \<open>s\<close> leaves: offers in \<open>s\<close>, and unchanged ones that were not listed
  or could not move.\<close>

definition swept :: "xstatus \<Rightarrow> string list \<Rightarrow> xdb \<Rightarrow> xdb \<Rightarrow> bool" where
  "swept s is db db' \<longleftrightarrow> map xo_id (xd_offers db') = map xo_id (xd_offers db)
     \<and> (\<forall>i. i \<notin> set is \<longrightarrow> find_offer db' i = find_offer db i)
     \<and> (\<forall>i r. find_offer db' i = Some r \<longrightarrow> xo_status r = s \<or> (find_offer db i = Some r \<and> (i \<in> set is \<longrightarrow> \<not> may_move r s)))"

lemma swept_nil: "swept s [] db db"
  by (simp add: swept_def)

lemma swept_Cons: "swept s [i] db d \<Longrightarrow> swept s is d db' \<Longrightarrow> swept s (i # is) db db'"
  unfolding swept_def by (simp del: not_None_eq) (metis)

lemma swept_update:
  assumes "xd_offers d = update_where (\<lambda>r. xo_id r = oid) f (xd_offers db)" "\<And>r. xo_id (f r) = xo_id r" "\<And>r. xo_status (f r) = s"
  shows "swept s [oid] db d"
proof -
  have f: "find_offer d i = map_option (\<lambda>r. if xo_id r = oid then f r else r) (find_offer db i)" for i
    unfolding find_offer_def assms(1) by (rule find_update_where) (rule assms(2))
  have "find_offer d i = (if i = oid then map_option f (find_offer db i) else find_offer db i)" for i
    using f [of i] find_offer_Some [of db i] by (cases "find_offer db i") auto
  then show ?thesis unfolding swept_def using assms(2,3) by (auto simp: assms(1) map_update_where)
qed

lemma swept_move: "swept s [oid] db (move env db oid s)"
proof (cases "\<exists>r. find_offer db oid = Some r \<and> may_move r s")
  case False
  then have m: "move env db oid s = db" using offer_refused unfolding move_def by (cases "find_offer db oid") simp_all
  have "\<not> may_move r s" if "find_offer db oid = Some r" for r using False that by blast
  then show ?thesis unfolding m swept_def by simp
next
  case True
  then obtain r where r: "find_offer db oid = Some r" "may_move r s" by blast
  show ?thesis unfolding move_def by (rule swept_update [OF conjunct1 [OF transition_writes [OF r]]]) simp_all
qed

lemma swept_moves: "swept s is db (moves env s is db)"
  by (induction env s "is" db rule: moves.induct) (auto intro: swept_nil swept_Cons swept_move)

lemma swept_same: "swept s is d db' \<Longrightarrow> xd_offers d = xd_offers db \<Longrightarrow> swept s is db db'"
  by (simp add: swept_def find_offer_def)

lemma swept_time_out:
  assumes "\<And>relay c. first_tx (xe_send env relay c) [1, 2, 3] \<noteq> None"
  shows "swept XTimedOut is db (time_out_all env is db)"
proof (induction "is" arbitrary: db)
  case (Cons i "is")
  have "swept XTimedOut [i] db (fst (emitTimeoutAndTransition env db i))"
  proof (cases "find_offer db i")
    case None
    then show ?thesis by (auto simp: emitTimeoutAndTransition_def swept_def)
  next
    case (Some r)
    have "timeout_broadcast env r db \<noteq> None"
      unfolding timeout_broadcast_def Let_def using assms by (simp split: option.split del: first_tx.simps not_None_eq)
    then obtain d where d: "timeout_broadcast env r db = Some d" by blast
    show ?thesis using swept_same [OF swept_move] timeout_broadcast_keeps [OF d] by (simp add: emitTimeoutAndTransition_def Some d)
  qed
  then show ?case using Cons swept_Cons by simp
qed (simp add: swept_nil)

lemma swept_listed:
  assumes "swept s (offer_ids p db) db db'" "find_offer db' i = Some r" "xo_status r \<noteq> s" "may_move r s"
  shows "find_offer db i = Some r \<and> \<not> p r"
proof -
  have r: "find_offer db i = Some r" "i \<notin> set (offer_ids p db)" using assms unfolding swept_def by blast+
  then show ?thesis using find_offer_Some [OF r(1)] by (auto simp: offer_ids_def)
qed

lemma swept_kept: "swept s is db db' \<Longrightarrow> find_offer db' i = Some r \<Longrightarrow> xo_status r \<noteq> s \<Longrightarrow> find_offer db i = Some r"
  unfolding swept_def by blast

lemma unlisted: "distinct (map xo_id (xd_offers db)) \<Longrightarrow> find_offer db i = Some r \<Longrightarrow> \<not> p r \<Longrightarrow> i \<notin> set (offer_ids p db)"
  using only_row [of db] by (auto simp: offer_ids_def)

lemma swept_ids: "swept s is db db' \<Longrightarrow> map xo_id (xd_offers db') = map xo_id (xd_offers db)"
  by (simp add: swept_def)

definition overdue :: "xenv \<Rightarrow> xoffer \<Rightarrow> bool" where
  "overdue env r \<longleftrightarrow> (xo_status r \<in> {XVerifying, XManual, XOracle} \<and> older_than env 30 (xo_verifying_at r))
     \<or> (xo_status r = XDelivering \<and> older_than env 60 (xo_delivering_at r)) \<or> (xo_status r = XVerified \<and> older_than env 120 (xo_delivering_at r))"

lemma timeout_sweep:
  assumes "\<And>relay c. first_tx (xe_send env relay c) [1, 2, 3] \<noteq> None" "distinct (map xo_id (xd_offers db))"
  shows "find_offer (fst (timeoutVerifying env db)) i = Some r \<Longrightarrow> \<not> overdue env r"
    and "find_offer db i = Some r \<Longrightarrow> \<not> overdue env r \<Longrightarrow> find_offer (fst (timeoutVerifying env db)) i = Some r"
proof -
  define p1 where "p1 = (\<lambda>r :: xoffer. xo_status r \<in> {XVerifying, XManual, XOracle} \<and> older_than env 30 (xo_verifying_at r))"
  define p2 where "p2 = (\<lambda>r :: xoffer. xo_status r = XDelivering \<and> older_than env 60 (xo_delivering_at r))"
  define p3 where "p3 = (\<lambda>r :: xoffer. xo_status r = XVerified \<and> older_than env 120 (xo_delivering_at r))"
  define db1 where "db1 = time_out_all env (offer_ids p1 db) db"
  define db2 where "db2 = moves env XVerified (offer_ids p2 db1) db1"
  define db3 where "db3 = time_out_all env (offer_ids p3 db2) db2"
  have e: "fst (timeoutVerifying env db) = db3"
    unfolding timeoutVerifying_def Let_def fst_conv p1_def [symmetric] p2_def [symmetric] p3_def [symmetric] db1_def db2_def db3_def ..
  have s: "swept XTimedOut (offer_ids p1 db) db db1" "swept XVerified (offer_ids p2 db1) db1 db2" "swept XTimedOut (offer_ids p3 db2) db2 db3"
    unfolding db1_def db2_def db3_def by (rule swept_time_out [OF assms(1)] swept_moves)+
  show "\<not> overdue env r" if r: "find_offer (fst (timeoutVerifying env db)) i = Some r"
  proof
    assume "overdue env r"
    then consider "p1 r" | "p2 r" | "p3 r" unfolding overdue_def p1_def p2_def p3_def by blast
    then show False
    proof cases
      case 1
      then have m: "xo_status r \<noteq> XTimedOut" "xo_status r \<noteq> XVerified" "may_move r XTimedOut" by (auto simp: p1_def may_move_def OFFER_TERMINAL_def)
      have "find_offer db1 i = Some r" using swept_kept [OF s(2) swept_kept [OF s(3)]] r m unfolding e by blast
      then show False using swept_listed [OF s(1)] m 1 by blast
    next
      case 2
      then have m: "xo_status r \<noteq> XTimedOut" "xo_status r \<noteq> XVerified" "may_move r XVerified" by (auto simp: p2_def may_move_def OFFER_TERMINAL_def)
      then show False using swept_listed [OF s(2) swept_kept [OF s(3)]] r 2 unfolding e by blast
    next
      case 3
      then have m: "xo_status r \<noteq> XTimedOut" "may_move r XTimedOut" by (auto simp: p3_def may_move_def OFFER_TERMINAL_def)
      then show False using swept_listed [OF s(3)] r 3 unfolding e by blast
    qed
  qed
  show "find_offer (fst (timeoutVerifying env db)) i = Some r" if r: "find_offer db i = Some r" "\<not> overdue env r"
  proof -
    have n: "\<not> p1 r" "\<not> p2 r" "\<not> p3 r" using r(2) unfolding overdue_def p1_def p2_def p3_def by blast+
    have d: "distinct (map xo_id (xd_offers db1))" "distinct (map xo_id (xd_offers db2))"
      using assms(2) swept_ids [OF s(1)] swept_ids [OF s(2)] by simp_all
    have "find_offer db1 i = Some r" using s(1) unlisted [where p = p1, OF assms(2) r(1) n(1)] r(1) unfolding swept_def by metis
    moreover from this have "find_offer db2 i = Some r" using s(2) unlisted [where p = p2, OF d(1) _ n(2)] unfolding swept_def by metis
    moreover from this have "find_offer db3 i = Some r" using s(3) unlisted [where p = p3, OF d(2) _ n(3)] unfolding swept_def by metis
    ultimately show ?thesis unfolding e by blast
  qed
qed

subsection \<open>A small exchange\<close>

definition ex_xoffer :: "string \<Rightarrow> xstatus \<Rightarrow> xoffer" where
  "ex_xoffer i s = \<lparr> xo_id = i, xo_tx = i, xo_index = 0, xo_give_asset = ''KAS'', xo_give_amount = ''10'', xo_give_chain = None,
     xo_want_asset = ''USDT'', xo_want_amount = ''1'', xo_want_chain = Some ''bnb'', xo_maker = ''kaspa:m'', xo_expires_at = Some 50,
     xo_verification = ''manual'', xo_vmeta = JsonPayload (JObj []), xo_metadata = NoPayload, xo_status = s, xo_observed = False,
     xo_market_key = ''K'', xo_taker = None, xo_taker_tx = None, xo_commitment = None, xo_filled = 0, xo_tolerance = None,
     xo_taker_chain = None, xo_taker_addr = None, xo_payment_tx = None, xo_delivery_tx = None, xo_matched_at = None,
     xo_verifying_at = None, xo_delivering_at = None, xo_completed_at = None, xo_disputed_at = None, xo_timed_out_at = None,
     xo_cancelled_at = None, xo_maker_confirmed = None, xo_taker_confirmed = None, xo_created_at = 0, xo_updated_at = 0 \<rparr>"

definition ex_exchange :: "xoffer list \<Rightarrow> xdb" where
  "ex_exchange rows = \<lparr> xd_offers = rows, xd_orphans = [], xd_locks = [], xd_events = \<lparr> db_events = [], db_reputation = [] \<rparr>,
     xd_relations = [], xd_pubs = [], xd_retail = [], xd_relays = [\<lparr> rn_id = ''n'', rn_address = ''kaspa:m'', rn_dex_broker = False \<rparr>],
     xd_outbox = [], xd_draws = 0 \<rparr>"

definition ex_xenv :: "nat \<Rightarrow> xenv" where
  "ex_xenv now = \<lparr> xe_now = now, xe_uuid = nat_str, xe_sha = (\<lambda>x. x), xe_num = (\<lambda>_. JInt 1), xe_send = (\<lambda>_ _ _. Some ''t''),
     xe_verify = (\<lambda>_ _ _ _ _. TxConfirmed 1), xe_supported = (\<lambda>_ _. True), xe_wallet = (\<lambda>_ _. True), xe_pay = (\<lambda>_ _ _. Inr ''p'') \<rparr>"

lemma ex_xfind [simp]: "find_offer (ex_exchange [ex_xoffer ''o'' s]) ''o'' = Some (ex_xoffer ''o'' s)"
  by (simp add: find_offer_def ex_exchange_def ex_xoffer_def)

lemma ex_status [simp]: "offer_status (ex_exchange [ex_xoffer ''o'' s]) ''o'' = Some s"
  by (simp add: offer_status_def) (simp add: ex_xoffer_def)

subsection \<open>Properties\<close>

text \<open>C15: an offer that is completed, cancelled, expired, timed out, failed or refunded keeps that status whatever messages,
  sweeps, payments and deliveries follow, and no step ever changes maker, assets, amounts or the way of verification of an offer.\<close>

theorem exchange_offers_final:
  assumes "exch_step\<^sup>*\<^sup>* db db'" "offer_status db i = Some s" "s \<in> set FINAL"
  shows "offer_status db' i = Some s \<and> agreed_terms db' i = agreed_terms db i"
proof
  show "offer_status db' i = Some s" using offerm.terminal_absorbing [OF assms(1,2)] final_no_edge [OF assms(3)] .
  obtain r where "find_offer db i = Some r" using assms(2) by (auto simp: offer_status_def)
  then have "agreed_terms db i = Some (offer_terms r)" by (simp add: agreed_terms_def)
  then show "agreed_terms db' i = agreed_terms db i" using termsm.terminal_absorbing [OF assms(1)] by simp
qed

theorem exchange_offers_final_witness:
  "offer_status (fst (expireStale (ex_xenv 100) (ex_exchange [ex_xoffer ''o'' XCancelled]))) ''o'' = Some XCancelled"
  using exchange_offers_final [OF r_into_rtranclp, OF exch_step.expire, of "ex_exchange [ex_xoffer ''o'' XCancelled]" "''o''" XCancelled "ex_xenv 100"]
  by (simp add: FINAL_def)

text \<open>In every history that starts without offers a payment transaction is recorded for one offer at most.\<close>

theorem payment_of_one_offer:
  assumes "exch_step\<^sup>*\<^sup>* db db'" "xd_offers db = []"
  shows "length (filter (\<lambda>r. xo_payment_tx r = Some tx) (xd_offers db')) \<le> 1"
proof -
  have "exchange_inv db" using assms(2) by (simp add: exchange_inv_def paid_once_def)
  then have inv: "exchange_inv db'" using history_inv [OF assms(1)] by blast
  then have d: "distinct (map xo_id (xd_offers db'))" "paid_once db'" by (simp_all add: exchange_inv_def)
  have "r = q" if m: "r \<in> set (xd_offers db')" "q \<in> set (xd_offers db')" and t: "xo_payment_tx r = Some tx" "xo_payment_tx q = Some tx" for r q
  proof -
    have "xo_id r = xo_id q" using d(2) m t unfolding paid_once_def by (metis option.distinct(1))
    then show ?thesis using only_row [OF d(1)] m by (metis option.inject)
  qed
  then have "card (set (filter (\<lambda>r. xo_payment_tx r = Some tx) (xd_offers db'))) \<le> 1" by (intro card_le_Suc0_iff_eq [THEN iffD2, folded One_nat_def]) auto
  moreover have "distinct (filter (\<lambda>r. xo_payment_tx r = Some tx) (xd_offers db'))" using d(1) distinct_map distinct_filter by blast
  ultimately show ?thesis using distinct_card by metis
qed

text \<open>In every history that starts without offers a closed offer (completed, disputed, timed out, failed, cancelled, expired or
  refunded) has no active fund lock, and the taker of an offer is never its maker.\<close>

theorem closed_offer_unlocked:
  assumes "exch_step\<^sup>*\<^sup>* db db'" "xd_offers db = []" "r \<in> set (xd_offers db')" "xo_status r \<in> set OFFER_TERMINAL"
  shows "active_assets (xd_locks db') (xo_id r) = {} \<and> (xo_taker r = None \<or> xo_taker r = Some [] \<or> xo_taker r \<noteq> Some (xo_maker r))"
proof -
  have "exchange_inv db" using assms(2) by (simp add: exchange_inv_def paid_once_def)
  then have inv: "exchange_inv db'" using history_inv [OF assms(1)] by blast
  then have "other_party r" "active_assets (xd_locks db') (xo_id r) = {}" using assms(3,4) unfolding exchange_inv_def by blast+
  then show ?thesis by (cases "xo_taker r") (auto simp: other_party_def)
qed

text \<open>Verifying a payment and delivering makes at most one transfer, of exactly the amount the offer gives, from the relay of its
  maker; and it makes one only for an offer in verification whose payment is confirmed: by the verifier of the chain, for the
  amount the offer wants and an address the offer names, or on \<open>kaspa\<close>, where nothing is looked up.\<close>

theorem delivery_needs_payment:
  assumes "c \<in> set (transfers (verifyAndComplete env db oid tx chain n))" "transfers db = []"
  shows "\<exists>r meta agent target. find_offer db oid = Some r \<and> xo_status r = XVerifying \<and> parse_meta (xo_vmeta r) = Inr meta
    \<and> local_relay db (xo_maker r) = Some agent \<and> transfers (verifyAndComplete env db oid tx chain n) = [c] \<and> c = Transfer (rn_id agent) (xo_give_asset r) target (xo_give_amount r)
    \<and> (chain = ''kaspa'' \<or> (\<exists>k. xe_verify env tx chain (case parseFloat (xo_want_amount r) of Some w \<Rightarrow> w | None \<Rightarrow> 0) (expected_to r meta chain)
         (case js_or (js_get meta ''payment_asset'') (Some (JStr ''usdt'')) of Some a \<Rightarrow> js_String a | None \<Rightarrow> ''usdt'') = TxConfirmed k))"
proof -
  obtain db1 where v: "verify_payment env db oid tx chain n = (db1, None) \<or> (\<exists>q. verify_payment env db oid tx chain n = (db1, Some q))"
    by (metis option.exhaust prod.exhaust)
  have t1: "transfers db1 = []" "xd_relays db1 = xd_relays db"
    using verify_payment_wallet_view [of env db oid tx chain n] v assms(2) by (auto simp: wallet_view_def)
  then obtain q where q: "verify_payment env db oid tx chain n = (db1, Some q)" using v assms(1) t1(1) by (auto simp: verifyAndComplete_def)
  obtain r meta where c: "check_payment db oid = Some (r, meta)" "confirm_payment env db r meta tx chain n = (db1, Some q)" "xo_id r = oid"
    by (rule verify_cases [OF q])
  obtain k where "payment_verdict env r meta tx chain = TxConfirmed k" by (rule confirmed [OF c(2)])
  then have r: "find_offer db oid = Some r" "parse_meta (xo_vmeta r) = Inr meta" "payment_verdict env r meta tx chain = TxConfirmed k"
    and st: "xo_status r = XVerifying" using c(1) by (simp_all add: check_Some)
  have same: "xo_give_asset q = xo_give_asset r" "xo_give_amount q = xo_give_amount r" "xo_maker q = xo_maker r"
    using delivered_row [OF c(2)] c(3) r(1) by (simp_all add: offer_terms_def)
  have d: "verifyAndComplete env db oid tx chain n = deliver env db1 q" by (simp add: verifyAndComplete_def q)
  have "transfers (deliver env db1 q) \<noteq> transfers db1" using assms(1) t1(1) d by auto
  then obtain agent :: relay_row and target where a: "local_relay db (xo_maker r) = Some agent"
    "transfers (verifyAndComplete env db oid tx chain n) = [Transfer (rn_id agent) (xo_give_asset q) target (xo_give_amount q)]"
    using deliver_transfers [of db1 q env] unfolding one_transfer_def wallet_view_def fst_conv snd_conv d t1 append_Nil local_relay_def same(3) prod.inject by blast
  then have "transfers (verifyAndComplete env db oid tx chain n) = [c]" "c = Transfer (rn_id agent) (xo_give_asset r) target (xo_give_amount r)"
    using assms(1) same a(2) by simp_all
  moreover have "chain = ''kaspa'' \<or> (\<exists>k. xe_verify env tx chain (case parseFloat (xo_want_amount r) of Some w \<Rightarrow> w | None \<Rightarrow> 0) (expected_to r meta chain)
         (case js_or (js_get meta ''payment_asset'') (Some (JStr ''usdt'')) of Some a \<Rightarrow> js_String a | None \<Rightarrow> ''usdt'') = TxConfirmed k)"
    using r(3) unfolding payment_verdict_def by (simp only: if_split_eq1 split: if_splits) blast+
  ultimately show ?thesis using r(1,2) st a(1) by blast
qed

text \<open>C16: once an offer in verification is handed over for delivery, no verification of it, of whatever payment, ever begins again,
  whatever happens in between.  Verifications that had begun before are not stopped.\<close>

theorem delivered_once:
  assumes "confirm_payment env db offer meta tx chain n = (db1, Some r)" "offer_status db (xo_id offer) = Some XVerifying" "exch_step\<^sup>*\<^sup>* db1 db2"
  shows "check_payment db2 (xo_id offer) = None"
proof -
  have "offer_status db1 (xo_id offer) = Some XDelivering" by (rule to_delivery [OF assms(1,2)])
  then obtain s where s: "offer_status db2 (xo_id offer) = Some s" "s \<in> past_payment"
    using offerm.closed_set [OF assms(3), of "xo_id offer" XDelivering past_payment] past_payment_closed by (auto simp: past_payment_def)
  then have "s \<noteq> XVerifying" by (auto simp: past_payment_def FINAL_def)
  then show ?thesis using s(1) by (auto simp: check_payment_def offer_status_def)
qed

lemma put_keys_same: "put_keys [(a, x), (b, y), (c, z)] j = Inr i \<Longrightarrow> \<exists>i'. put_keys [(a, x'), (b, y'), (c, z')] j = Inr i'"
  by (cases j) (auto simp: put_key_def)

text \<open>Two verifications that wait for the chain at the same time both hand the offer over: the second one is refused the move to
  \<open>delivering\<close>, takes the row it gets back for moved and delivers again.\<close>

theorem delivered_twice:
  assumes "check_payment db oid = Some (offer, meta)" "confirm_payment env db offer meta tx chain n = (db1, Some r)"
    and "payment_verdict env' offer meta tx' chain' = TxConfirmed k" "xo_give_asset offer = ''KAS'' \<or> chain' \<noteq> ''kaspa''"
  shows "\<exists>db2 r'. confirm_payment env' db1 offer meta tx' chain' n' = (db2, Some r') \<and> offer_terms r' = offer_terms offer"
proof -
  have q: "find_offer db oid = Some offer" "xo_status offer = XVerifying" using assms(1) by (simp_all add: check_Some)
  have oid: "xo_id offer = oid" using find_offer_Some [OF q(1)] by simp
  have "offer_status db (xo_id offer) = Some XVerifying" using q oid by (simp add: offer_status_def)
  then have "offer_status db1 oid = Some XDelivering" using to_delivery [OF assms(2)] oid by simp
  then obtain q1 where q1: "find_offer db1 oid = Some q1" "xo_status q1 = XDelivering" by (auto simp: offer_status_def)
  obtain j where j: "put_keys [(''verified_tx'', JStr tx'), (''verified_at'', xe_num env' (of_nat (xe_now env'))), (''confirmations'', JInt (int k))] meta = Inr j"
    by (rule confirmed [OF assms(2)]) (use put_keys_same in blast)
  define db2 where "db2 = update_offer oid (\<lambda>r. r\<lparr> xo_vmeta := JsonPayload j, xo_updated_at := xe_now env' \<rparr>) db1"
  have q2: "find_offer db2 oid = Some (q1\<lparr> xo_vmeta := JsonPayload j, xo_updated_at := xe_now env' \<rparr>)"
    using find_offer_Some [OF q1(1)] q1(1) by (simp add: db2_def find_meta)
  have "\<not> may_move (q1\<lparr> xo_vmeta := JsonPayload j, xo_updated_at := xe_now env' \<rparr>) XDelivering" using q1(2) by (simp add: may_move_def)
  note t = refused_move [OF q2 this, of env' "\<lparr> xt_txHash = None, xt_match = None \<rparr>"]
  obtain db3 r' where c: "confirm_payment env' db1 offer meta tx' chain' n' = (db3, Some r')"
    using assms(4) unfolding confirm_payment_def Let_def assms(3) verdict_tx.case j sum.case oid db2_def [symmetric] t prod.case by auto
  have "exch_step db db1" using exch_step.verify [of db env offer meta tx chain n] assms(2) by simp
  moreover have "agreed_terms db oid = Some (offer_terms offer)" using q(1) by (simp add: agreed_terms_def)
  ultimately have "agreed_terms db1 oid = Some (offer_terms offer)" using termsm.terminal_absorbing [OF r_into_rtranclp, of db db1] by blast
  then have "offer_terms q1 = offer_terms offer" using q1(1) by (simp add: agreed_terms_def)
  then show ?thesis using c delivered_row [OF c] q1(1) oid by auto
qed

text \<open>C17: when its broadcasts get a transaction within three attempts, the sweep of stuck offers leaves none that has been in
  verification for more than 30 minutes, delivering for more than 60 or waiting for a new delivery for more than 120, and
  leaves every offer that is not overdue as it is.\<close>

theorem stuck_offers_swept:
  assumes "\<And>relay c. first_tx (xe_send env relay c) [1, 2, 3] \<noteq> None" "distinct (map xo_id (xd_offers db))"
    and "find_offer (fst (timeoutVerifying env db)) i = Some r"
  shows "\<not> overdue env r \<and> (\<forall>q. find_offer db i = Some q \<longrightarrow> overdue env q \<or> q = r)"
  using timeout_sweep [OF assms(1,2), where i = i] assms(3) by auto

text \<open>The handler of delivery messages looks at neither the sender nor the transaction: any text from anyone completes a matched
  offer of others, before any payment, and its funds count as spent.\<close>

theorem anyone_completes:
  assumes "find_offer db (dl_offer m) = Some r" "xo_status r \<in> {XMatched, XVerifying, XDelivering}" "dl_offer m \<noteq> []" "dl_tx m = Some (c # t)"
  shows "offer_status (handleExchangeDelivered env db m) (dl_offer m) = Some XCompleted
    \<and> active_assets (xd_locks (handleExchangeDelivered env db m)) (dl_offer m) = {}"
proof -
  have id: "xo_id r = dl_offer m" using find_offer_Some [OF assms(1)] by simp
  define p where "p = (\<lambda>q :: xoffer. xo_id q = xo_id r \<and> xo_status q \<in> {XMatched, XVerifying, XDelivering})"
  define f where "f = (\<lambda>q :: xoffer. q\<lparr> xo_delivery_tx := Some (c # t), xo_status := XCompleted,
      xo_completed_at := Some (xe_now env), xo_observed := True, xo_updated_at := xe_now env \<rparr>)"
  have "p r" using assms(2) by (simp add: p_def)
  then have n: "0 < count_where p (xd_offers db)" using find_offer_Some [OF assms(1)] count_where_0 [of p] by fastforce
  have "xo_status r \<notin> {XCompleted, XDisputed, XCancelled, XExpired}" using assms(2) by auto
  then have h: "xd_offers (handleExchangeDelivered env db m) = update_where p f (xd_offers db)"
      "xd_locks (handleExchangeDelivered env db m) = fst (spendFunds (xd_locks db) (xe_now env) (xo_id r))"
    using assms(1,3,4) n unfolding handleExchangeDelivered_def Let_def p_def f_def by (simp_all add: text_or_null_def nonempty_def)
  have "find_offer (handleExchangeDelivered env db m) (dl_offer m) = map_option (\<lambda>r. if p r then f r else r) (find_offer db (dl_offer m))"
    unfolding find_offer_def h(1) by (rule find_update_where) (simp add: f_def)
  then have "offer_status (handleExchangeDelivered env db m) (dl_offer m) = Some XCompleted"
    using \<open>p r\<close> by (simp add: assms(1) offer_status_def f_def)
  then show ?thesis by (simp add: h(2) id)
qed

subsection \<open>Witnesses\<close>

lemma ex_publish: "exch_step (ex_exchange rows) (ex_exchange (rows @ [ex_xoffer i XOpen]))" if "i \<notin> set (map xo_id rows)"
proof -
  have "exch_step (ex_exchange rows) ((ex_exchange rows)\<lparr> xd_offers := xd_offers (ex_exchange rows) @ [ex_xoffer i XOpen] \<rparr>)"
    by (rule exch_step.publish) (use that in \<open>auto simp: ex_xoffer_def ex_exchange_def find_offer_def find_None_iff\<close>)
  then show ?thesis by (simp add: ex_exchange_def)
qed

theorem payment_of_one_offer_witness:
  "length (filter (\<lambda>r. xo_payment_tx r = Some ''x'') (xd_offers (handleExchangePaid (ex_xenv 100)
    (move (ex_xenv 100) (ex_exchange [ex_xoffer ''o'' XOpen, ex_xoffer ''p'' XOpen]) ''o'' XMatched)
    \<lparr> pd_offer = ''o'', pd_tx = Some ''x'', pd_chain = Some ''kaspa'', pd_payer = None, pd_from = ''z'', pd_txid = None \<rparr>))) \<le> 1"
proof (rule payment_of_one_offer)
  let ?two = "ex_exchange [ex_xoffer ''o'' XOpen, ex_xoffer ''p'' XOpen]"
  let ?m = "\<lparr> pd_offer = ''o'', pd_tx = Some ''x'', pd_chain = Some ''kaspa'', pd_payer = None, pd_from = ''z'', pd_txid = None \<rparr>"
  have "exch_step (ex_exchange []) (ex_exchange [ex_xoffer ''o'' XOpen])" using ex_publish [of "''o''" "[]"] by simp
  moreover have "exch_step (ex_exchange [ex_xoffer ''o'' XOpen]) ?two"
    using ex_publish [of "''p''" "[ex_xoffer ''o'' XOpen]"] by (simp add: ex_xoffer_def)
  moreover have "exch_step ?two (move (ex_xenv 100) ?two ''o'' XMatched)" unfolding move_def by (rule exch_step.other)
  moreover have "exch_step d (handleExchangePaid (ex_xenv 100) d ?m)" for d using exch_step.message [of d "ex_xenv 100" "MPaid ?m"] by simp
  ultimately show "exch_step\<^sup>*\<^sup>* (ex_exchange []) (handleExchangePaid (ex_xenv 100) (move (ex_xenv 100) ?two ''o'' XMatched) ?m)"
    by (meson r_into_rtranclp rtranclp.rtrancl_into_rtrancl)
qed (simp add: ex_exchange_def)

definition ex_lock :: lock_row where
  "ex_lock = \<lparr> lk_id = ''l'', lk_agent = ''kaspa:m'', lk_order = ''o'', lk_asset = ''KAS'', lk_amount = 10, lk_status = Locked,
     lk_created_at = 0, lk_released_at = None \<rparr>"

theorem closed_offer_unlocked_witness:
  "active_assets (xd_locks (move (ex_xenv 100) ((ex_exchange [ex_xoffer ''o'' XOpen])\<lparr> xd_locks := [ex_lock] \<rparr>) ''o'' XCancelled)) ''o'' = {}"
proof -
  let ?db = "(ex_exchange [])\<lparr> xd_locks := [ex_lock] \<rparr>" and ?db1 = "(ex_exchange [ex_xoffer ''o'' XOpen])\<lparr> xd_locks := [ex_lock] \<rparr>"
  let ?r = "offer_update 100 XCancelled \<lparr> xt_txHash = None, xt_match = None \<rparr> (ex_xoffer ''o'' XOpen)"
  have "exch_step ?db (?db\<lparr> xd_offers := xd_offers ?db @ [ex_xoffer ''o'' XOpen] \<rparr>)"
    by (rule exch_step.publish) (simp_all add: ex_xoffer_def ex_exchange_def find_offer_def)
  moreover have "?db\<lparr> xd_offers := xd_offers ?db @ [ex_xoffer ''o'' XOpen] \<rparr> = ?db1" by (simp add: ex_exchange_def)
  ultimately have "exch_step ?db ?db1" by simp
  moreover have "exch_step ?db1 (move (ex_xenv 100) ?db1 ''o'' XCancelled)" unfolding move_def by (rule exch_step.other)
  ultimately have h: "exch_step\<^sup>*\<^sup>* ?db (move (ex_xenv 100) ?db1 ''o'' XCancelled)" by (meson r_into_rtranclp rtranclp.rtrancl_into_rtrancl)
  have fnd: "find_offer ?db1 ''o'' = Some (ex_xoffer ''o'' XOpen)" by (simp add: find_offer_def ex_exchange_def ex_xoffer_def)
  have may: "may_move (ex_xoffer ''o'' XOpen) XCancelled" by (simp add: may_move_def ex_xoffer_def OFFER_TERMINAL_def)
  have "xd_offers (move (ex_xenv 100) ?db1 ''o'' XCancelled) = [?r]"
    unfolding move_def conjunct1 [OF transition_writes [OF fnd may]] by (simp add: ex_exchange_def) (simp add: ex_xoffer_def ex_xenv_def)
  moreover have "xo_id ?r = ''o''" by simp (simp add: ex_xoffer_def)
  ultimately show ?thesis using closed_offer_unlocked [OF h, of ?r] by (simp add: ex_exchange_def OFFER_TERMINAL_def)
qed

definition ex_taken :: xoffer where
  "ex_taken = (ex_xoffer ''o'' XVerifying)\<lparr> xo_taker := Some ''kaspa:t'', xo_verifying_at := Some 0 \<rparr>"

theorem delivery_needs_payment_witness:
  "transfers (verifyAndComplete (ex_xenv 100) (ex_exchange [ex_taken]) ''o'' ''any'' ''kaspa'' 1) = [Transfer ''n'' ''KAS'' ''kaspa:t'' ''10'']"
proof -
  have "Transfer ''n'' ''KAS'' ''kaspa:t'' ''10'' \<in> set (transfers (verifyAndComplete (ex_xenv 100) (ex_exchange [ex_taken]) ''o'' ''any'' ''kaspa'' 1))"
    by code_simp
  moreover have "transfers (ex_exchange [ex_taken]) = []" by (simp add: transfers_def ex_exchange_def)
  ultimately show ?thesis using delivery_needs_payment by blast
qed

abbreviation ex_confirm :: "nat \<Rightarrow> xdb \<Rightarrow> xdb \<times> xoffer option" where
  "ex_confirm t db \<equiv> confirm_payment (ex_xenv t) db ex_taken (JObj []) ''any'' ''kaspa'' 1"

lemma ex_handed: "ex_confirm 100 (ex_exchange [ex_taken]) = (fst (ex_confirm 100 (ex_exchange [ex_taken])), Some (the (snd (ex_confirm 100 (ex_exchange [ex_taken])))))"
proof -
  have "snd (ex_confirm 100 (ex_exchange [ex_taken])) \<noteq> None" by code_simp
  then show ?thesis by (simp add: prod_eq_iff)
qed

lemma ex_checked: "check_payment (ex_exchange [ex_taken]) ''o'' = Some (ex_taken, JObj [])" "xo_id ex_taken = ''o''" "xo_give_asset ex_taken = ''KAS''"
  by code_simp+

theorem delivered_once_witness:
  "check_payment (fst (timeoutVerifying (ex_xenv 500) (fst (ex_confirm 100 (ex_exchange [ex_taken]))))) ''o'' = None"
proof -
  have st: "offer_status (ex_exchange [ex_taken]) (xo_id ex_taken) = Some XVerifying" using ex_checked(1,2) by (simp add: check_Some offer_status_def)
  have "exch_step\<^sup>*\<^sup>* (fst (ex_confirm 100 (ex_exchange [ex_taken]))) (fst (timeoutVerifying (ex_xenv 500) (fst (ex_confirm 100 (ex_exchange [ex_taken])))))"
    by (rule r_into_rtranclp, rule exch_step.stuck)
  from delivered_once [OF ex_handed st this] show ?thesis by (simp add: ex_checked(2))
qed

theorem delivered_twice_witness:
  "\<exists>db2 r'. ex_confirm 200 (fst (ex_confirm 100 (ex_exchange [ex_taken]))) = (db2, Some r') \<and> offer_terms r' = offer_terms ex_taken"
proof -
  have "payment_verdict (ex_xenv 200) ex_taken (JObj []) ''any'' ''kaspa'' = TxConfirmed 1" by (simp add: payment_verdict_def)
  from delivered_twice [OF ex_checked(1) ex_handed this] show ?thesis by (simp add: ex_checked(3))
qed

theorem stuck_offers_swept_witness:
  "\<not> overdue (ex_xenv 10000000) (the (find_offer (fst (timeoutVerifying (ex_xenv 10000000) (ex_exchange [ex_taken]))) ''o''))"
proof -
  let ?d = "fst (timeoutVerifying (ex_xenv 10000000) (ex_exchange [ex_taken]))"
  have "find_offer (ex_exchange [ex_taken]) ''o'' \<noteq> None" by (simp add: find_offer_def ex_exchange_def ex_taken_def ex_xoffer_def)
  then have "find_offer ?d ''o'' \<noteq> None"
    using timeout_evolves [of "ex_exchange [ex_taken]" "ex_xenv 10000000"] unfolding evolves_def offer_status_def by fastforce
  then obtain r where r: "find_offer ?d ''o'' = Some r" by blast
  have "first_tx (xe_send (ex_xenv 10000000) relay c) [1, 2, 3] \<noteq> None" for relay c by (simp add: ex_xenv_def nonempty_def)
  moreover have "distinct (map xo_id (xd_offers (ex_exchange [ex_taken])))" by (simp add: ex_exchange_def)
  ultimately show ?thesis using stuck_offers_swept [OF _ _ r] r by simp
qed

theorem anyone_completes_witness:
  "offer_status (handleExchangeDelivered (ex_xenv 100) (ex_exchange [ex_xoffer ''o'' XMatched])
     \<lparr> dl_offer = ''o'', dl_tx = Some ''?'', dl_amount = None, dl_from = ''stranger'' \<rparr>) ''o'' = Some XCompleted"
proof -
  have "xo_status (ex_xoffer ''o'' XMatched) = XMatched" by (simp add: ex_xoffer_def)
  then show ?thesis
    using anyone_completes [of "ex_exchange [ex_xoffer ''o'' XMatched]" "\<lparr> dl_offer = ''o'', dl_tx = Some ''?'', dl_amount = None, dl_from = ''stranger'' \<rparr>"
      "ex_xoffer ''o'' XMatched" "CHR ''?''" "[]" "ex_xenv 100"] by simp
qed

end
