(* ===== verification/Trade_Filter.thy ===== *)
theory Trade_Filter
  imports Trade_Limits
begin

section \<open>The order messages of the protocol\<close>

text \<open>
  The handlers of \<open>kasia-console/src/services/trade-protocol-filter.js\<close> for orders of the over-the-counter market: what a node does
  with the messages it reads from the chain.  The fields of a message are its content; \<open>_from\<close> and \<open>_tx\<close> are attached
  by the reader.  The address columns of \<open>mm_orders\<close>, which nothing in the order machine reads, are a table of their own;
  amounts are numbers.  An exception ends a handler and keeps what it has written.  \<open>fe_parse\<close> is \<open>JSON.parse\<close>,
  \<open>fe_since\<close> the local midnight.
\<close>

record bmsg =
  bm_channel :: string
  bm_content :: string
  bm_sender :: string
  bm_tx :: "string option"
  bm_created :: nat

record filter_db =
  fd_trade :: trade_db
  fd_columns :: "(string \<times> string \<times> string) list"
  fd_config :: config
  fd_relays :: "(string \<times> string) list"
  fd_messages :: "bmsg list"

record filter_env =
  fe_env :: env
  fe_since :: nat
  fe_parse :: "string \<Rightarrow> json option"

definition on_trade :: "(trade_db \<Rightarrow> trade_db) \<Rightarrow> filter_db \<Rightarrow> filter_db" where
  "on_trade f db = db\<lparr> fd_trade := f (fd_trade db) \<rparr>"

definition full :: "string option \<Rightarrow> string option" where
  "full x = (if truthy x then x else None)"

text \<open>\<open>UPDATE mm_orders SET column = ? WHERE id = ?\<close> for an address column.\<close>

definition set_column :: "string \<Rightarrow> string \<Rightarrow> string \<Rightarrow> filter_db \<Rightarrow> filter_db" where
  "set_column oid col v db = (if find_order (fd_trade db) oid = None then db
     else db\<lparr> fd_columns := filter (\<lambda>(i, c, w). \<not> (i = oid \<and> c = col)) (fd_columns db) @ [(oid, col, v)] \<rparr>)"

definition findLocalRelay :: "filter_db \<Rightarrow> string \<Rightarrow> string option" where
  "findLocalRelay db kasAddress = (if kasAddress = [] then None else map_of (fd_relays db) kasAddress)"

definition relay_or_remote :: "filter_db \<Rightarrow> string \<Rightarrow> string" where
  "relay_or_remote db a = (case full (findLocalRelay db a) of Some r \<Rightarrow> r | None \<Rightarrow> ''__remote__'')"

definition create_order :: "filter_env \<Rightarrow> order_args \<Rightarrow> filter_db \<Rightarrow> filter_db option" where
  "create_order fe a db = (case createOrder (fe_env fe) (fd_trade db) a of Inl _ \<Rightarrow> None
     | Inr (t, i) \<Rightarrow> Some (db\<lparr> fd_trade := t \<rparr>))"

definition move_order :: "filter_env \<Rightarrow> string \<Rightarrow> order_status \<Rightarrow> opts \<Rightarrow> filter_db \<Rightarrow> filter_db" where
  "move_order fe oid s op db = on_trade (\<lambda>t. fst (transition (fe_env fe) t oid s op)) db"

definition peer_start :: "filter_env \<Rightarrow> string \<Rightarrow> string \<Rightarrow> filter_db \<Rightarrow> filter_db option" where
  "peer_start fe agent oid db =
    (case quickStart (td_execs (fd_trade db)) (env_uuid (fe_env fe) (td_draws (fd_trade db))) (env_now (fe_env fe))
       \<lparr> ea_order = Some oid, ea_type = ''accept_order'', ea_source = ''peer'', ea_agent = agent, ea_permission = ''owner'',
         ea_amount = None, ea_asset = None, ea_intent = None, ea_input_txid = None, ea_approval_timeout = 15,
         ea_display_summary = None, ea_action_details = None, ea_approval_deadline = None \<rparr> of
       Inl _ \<Rightarrow> None
     | Inr (rows, i) \<Rightarrow> Some (on_trade (\<lambda>t. t\<lparr> td_execs := rows, td_draws := td_draws t + 1 \<rparr>) db))"

definition note_event :: "filter_env \<Rightarrow> string \<Rightarrow> string \<Rightarrow> string \<Rightarrow> string option \<Rightarrow> json \<Rightarrow> filter_db \<Rightarrow> filter_db" where
  "note_event fe tx type sender receiver payload db = on_trade (\<lambda>t.
     t\<lparr> td_events := recordChainEvent (td_events t) (env_uuid (fe_env fe) (td_draws t)) (env_now (fe_env fe))
          \<lparr> in_txid = tx, in_type = type, in_from = Some sender, in_to = receiver, in_observed_by = ''protocol'',
            in_payload = JsonPayload payload, in_observed_at = None \<rparr>, td_draws := td_draws t + 1 \<rparr>) db"

subsection \<open>Publishing\<close>

record order_msg =
  om_sell :: bool
  om_id :: string
  om_amt :: "rat option"
  om_price :: "rat option"
  om_chain :: "string option"
  om_recv :: "string option"
  om_pay_from :: "string option"
  om_from :: string
  om_tx :: "string option"

definition or_zero :: "rat option \<Rightarrow> rat" where
  "or_zero x = (case x of Some q \<Rightarrow> q | None \<Rightarrow> 0)"

definition chain_or :: "string option \<Rightarrow> string option \<Rightarrow> string" where
  "chain_or a b = (case full a of Some c \<Rightarrow> c | None \<Rightarrow> (case full b of Some c \<Rightarrow> c | None \<Rightarrow> ''bnb''))"

definition backfill :: "string \<Rightarrow> string option \<Rightarrow> trade_db \<Rightarrow> trade_db" where
  "backfill oid tx t = (if truthy tx then t\<lparr> td_orders := update_where (\<lambda>r. od_id r = oid) (\<lambda>r. r\<lparr> od_broadcast := tx \<rparr>) (td_orders t) \<rparr> else t)"

definition set_if :: "bool \<Rightarrow> string \<Rightarrow> string \<Rightarrow> string option \<Rightarrow> filter_db \<Rightarrow> filter_db" where
  "set_if c oid col v db = (if c then (case full v of Some x \<Rightarrow> set_column oid col x db | None \<Rightarrow> db) else db)"

definition handleOrder :: "filter_env \<Rightarrow> filter_db \<Rightarrow> order_msg \<Rightarrow> filter_db" where
  "handleOrder fe db m =
    (if om_id m = [] then db
     else case find_order (fd_trade db) (om_id m) of
       Some r \<Rightarrow> if truthy (od_broadcast r) then db else on_trade (backfill (om_id m) (om_tx m)) db
     | None \<Rightarrow>
       (case create_order fe \<lparr> oa_id = Some (om_id m), oa_relay = relay_or_remote db (om_from m), oa_agent = om_from m,
            oa_side = (if om_sell m then ''sell'' else ''buy''), oa_kas = or_zero (om_amt m), oa_price = or_zero (om_price m),
            oa_chain = chain_or (om_chain m) None, oa_peer = None, oa_counter = None, oa_broadcast = om_tx m, oa_mode = [],
            oa_timeout = 30 \<rparr> db of
          None \<Rightarrow> db
        | Some db1 \<Rightarrow> set_if (\<not> om_sell m) (om_id m) ''customer_pay_address'' (om_pay_from m)
             (set_if (om_sell m) (om_id m) ''mm_receive_address'' (om_recv m) db1)))"

subsection \<open>Accepting\<close>

record otc_accept =
  oc_ref :: string
  oc_counter :: "string option"
  oc_kas_addr :: "string option"
  oc_pay_from :: "string option"
  oc_chain :: "string option"
  oc_from :: string
  oc_tx :: "string option"

definition tx_opts :: "string option \<Rightarrow> bool \<Rightarrow> opts" where
  "tx_opts tx force = \<lparr> op_txHash = tx, op_reason = None, op_force = force \<rparr>"

text \<open>The order of the taker, linked to the order it answers and accepted by force.\<close>

definition counter_order :: "filter_env \<Rightarrow> order \<Rightarrow> otc_accept \<Rightarrow> string \<Rightarrow> filter_db \<Rightarrow> filter_db" where
  "counter_order fe r m cid db =
    (let side = (if od_side r = ''sell'' then ''buy'' else ''sell'') in
     case create_order fe \<lparr> oa_id = Some cid, oa_relay = relay_or_remote db (oc_from m), oa_agent = oc_from m, oa_side = side,
          oa_kas = od_kas r, oa_price = od_price r, oa_chain = chain_or (oc_chain m) (Some (od_chain r)), oa_peer = Some (od_agent r),
          oa_counter = Some (oc_ref m), oa_broadcast = oc_tx m, oa_mode = [], oa_timeout = 30 \<rparr> db of
       None \<Rightarrow> db
     | Some db1 \<Rightarrow>
       (let db2 = set_if True (if side = ''buy'' then cid else oc_ref m) ''customer_pay_address'' (oc_pay_from m) db1;
            db3 = on_trade (\<lambda>t. linkOrders t (oc_ref m) cid) db2;
            db4 = move_order fe cid OAccepted (tx_opts (oc_tx m) True) db3
        in case peer_start fe (oc_from m) cid db4 of None \<Rightarrow> db4 | Some db5 \<Rightarrow> db5))"

definition handleAccept :: "filter_env \<Rightarrow> filter_db \<Rightarrow> otc_accept \<Rightarrow> filter_db" where
  "handleAccept fe db m =
    (if oc_ref m = [] then db
     else case find_order (fd_trade db) (oc_ref m) of None \<Rightarrow> db
     | Some r \<Rightarrow>
       if od_status r \<noteq> OPublished then db
       else if checkLimits (fd_config db) (td_orders (fd_trade db)) (fe_since fe) (oc_from m) (od_kas r) (od_kas r * od_price r)
            (if od_mode r = [] then ''manual'' else od_mode r) \<noteq> None then db
       else (case transition (fe_env fe) (fd_trade db) (oc_ref m) OAccepted (tx_opts (oc_tx m) False) of
         (t, Inl _) \<Rightarrow> db\<lparr> fd_trade := t \<rparr>
       | (t, Inr _) \<Rightarrow>
         (let db1 = on_trade (\<lambda>t. t\<lparr> td_orders := update_where (\<lambda>q. od_id q = oc_ref m) (\<lambda>q. q\<lparr> od_peer := Some (oc_from m) \<rparr>) (td_orders t) \<rparr>)
                (db\<lparr> fd_trade := t \<rparr>);
              db2 = set_if True (oc_ref m) ''customer_address'' (oc_kas_addr m) db1
          in case peer_start fe (od_agent r) (oc_ref m) db2 of None \<Rightarrow> db2
             | Some db3 \<Rightarrow> (case full (oc_counter m) of None \<Rightarrow> db3 | Some cid \<Rightarrow> counter_order fe r m cid db3))))"

subsection \<open>Payment, delivery, cancellation\<close>

record transfer_msg =
  tr_id :: string
  tr_tx :: "string option"
  tr_to :: "string option"
  tr_chain :: "string option"
  tr_from :: string

definition handlePaid :: "filter_env \<Rightarrow> filter_db \<Rightarrow> transfer_msg \<Rightarrow> filter_db" where
  "handlePaid fe db m =
    (case full (tr_tx m) of None \<Rightarrow> db
     | Some tx \<Rightarrow>
       if tr_id m = [] then db
       else (case find_order (fd_trade db) (tr_id m) of None \<Rightarrow> db
       | Some r \<Rightarrow>
         if od_status r \<in> {OPaid, OVerified, ODelivering, OCompleted} then db
         else note_event fe tx ''payment'' (tr_from m) (tr_to m)
           (JObj ([(''orderId'', JStr (tr_id m))] @ (case tr_chain m of Some c \<Rightarrow> [(''chain'', JStr c)] | None \<Rightarrow> [])))
           (move_order fe (tr_id m) OPaid (tx_opts (Some tx) False) db)))"

definition handleDelivered :: "filter_env \<Rightarrow> filter_db \<Rightarrow> transfer_msg \<Rightarrow> filter_db" where
  "handleDelivered fe db m =
    (case full (tr_tx m) of None \<Rightarrow> db
     | Some tx \<Rightarrow>
       if tr_id m = [] then db
       else (case find_order (fd_trade db) (tr_id m) of None \<Rightarrow> db
       | Some r \<Rightarrow>
         if od_status r = OCompleted then db
         else note_event fe tx ''kas_delivery'' (tr_from m) (tr_to m) (JObj [(''orderId'', JStr (tr_id m))])
           (move_order fe (tr_id m) OCompleted (tx_opts (Some tx) False) db)))"

record stop_msg =
  st_id :: string
  st_reason :: "string option"
  st_who :: "string option"
  st_from :: string

definition reason_opts :: "string \<Rightarrow> bool \<Rightarrow> opts" where
  "reason_opts t force = \<lparr> op_txHash = None, op_reason = Some t, op_force = force \<rparr>"

definition handleCancel :: "filter_env \<Rightarrow> filter_db \<Rightarrow> stop_msg \<Rightarrow> filter_db" where
  "handleCancel fe db m =
    (if st_id m = [] then db
     else case find_order (fd_trade db) (st_id m) of None \<Rightarrow> db
     | Some r \<Rightarrow>
       if od_agent r \<noteq> st_from m then db
       else move_order fe (st_id m) OCancelled
         (reason_opts (case full (st_reason m) of Some t \<Rightarrow> t | None \<Rightarrow> ''Cancelled via protocol broadcast'') False) db)"

subsection \<open>Timeouts\<close>

text \<open>\<open>LIKE\<close>: \<open>%\<close> stands for any text, \<open>_\<close> for any character, and the case of letters does not matter.\<close>

fun sql_like :: "string \<Rightarrow> string \<Rightarrow> bool" where
  "sql_like [] t = (t = [])"
| "sql_like (c # p) [] = (c = CHR ''%'' \<and> sql_like p [])"
| "sql_like (c # p) (d # t) = (if c = CHR ''%'' then sql_like p (d # t) \<or> sql_like (c # p) t
     else (c = CHR ''_'' \<or> lower_char c = lower_char d) \<and> sql_like p t)"

definition quoted :: "string \<Rightarrow> string" where
  "quoted t = [CHR 0x22] @ t @ [CHR 0x22]"

text \<open>The pattern \<open>%"k":"v"%\<close>.\<close>

definition like_member :: "string \<Rightarrow> string \<Rightarrow> string" where
  "like_member k v = ''%'' @ quoted k @ '':'' @ quoted v @ ''%''"

definition text_field :: "json \<Rightarrow> string \<Rightarrow> string option" where
  "text_field j k = (case js_get j k of Some (JStr a) \<Rightarrow> Some a | _ \<Rightarrow> None)"

definition channel_messages :: "filter_db \<Rightarrow> string \<Rightarrow> string \<Rightarrow> bmsg list" where
  "channel_messages db channel p = filter (\<lambda>b. bm_channel b = channel \<and> sql_like p (bm_content b)) (fd_messages db)"

definition timed_out_senders :: "filter_env \<Rightarrow> filter_db \<Rightarrow> string \<Rightarrow> string list" where
  "timed_out_senders fe db oid = concat (map (\<lambda>b. case fe_parse fe (bm_content b) of None \<Rightarrow> []
       | Some j \<Rightarrow> (case full (text_field j ''who'') of Some w \<Rightarrow> [w] | None \<Rightarrow> []))
     (channel_messages db oid (like_member ''t'' ''kanet_timeout_v1'')))"

definition read_accept :: "json \<Rightarrow> bmsg \<Rightarrow> otc_accept" where
  "read_accept j b = \<lparr> oc_ref = (case text_field j ''ref'' of Some r \<Rightarrow> r | None \<Rightarrow> []), oc_counter = text_field j ''counter_id'',
     oc_kas_addr = text_field j ''kas_addr'', oc_pay_from = text_field j ''pay_from'', oc_chain = text_field j ''chain'',
     oc_from = bm_sender b, oc_tx = bm_tx b \<rparr>"

text \<open>A stored accept that does not parse throws, which ends the search.\<close>

fun try_accepts :: "filter_env \<Rightarrow> string \<Rightarrow> string list \<Rightarrow> bmsg list \<Rightarrow> filter_db \<Rightarrow> filter_db" where
  "try_accepts fe oid out [] db = db"
| "try_accepts fe oid out (b # bs) db =
    (if bm_sender b \<in> set out then try_accepts fe oid out bs db
     else (case fe_parse fe (bm_content b) of None \<Rightarrow> db
     | Some j \<Rightarrow>
       (let db1 = handleAccept fe db (read_accept j b)
        in if map_option od_status (find_order (fd_trade db1) oid) = Some OAccepted then db1 else try_accepts fe oid out bs db1)))"

definition tryNextAccept :: "filter_env \<Rightarrow> string \<Rightarrow> filter_db \<Rightarrow> filter_db" where
  "tryNextAccept fe oid db =
    (if map_option od_status (find_order (fd_trade db) oid) \<noteq> Some OPublished then db
     else try_accepts fe oid (timed_out_senders fe db oid)
       (sort_key bm_created (channel_messages db oid (like_member ''t'' ''kanet_accept_v1''))) db)"

definition js_text :: "string option \<Rightarrow> string" where
  "js_text x = (case x of Some t \<Rightarrow> t | None \<Rightarrow> ''undefined'')"

definition handleTimeout :: "filter_env \<Rightarrow> filter_db \<Rightarrow> stop_msg \<Rightarrow> filter_db" where
  "handleTimeout fe db m =
    (if st_id m = [] then db
     else case find_order (fd_trade db) (st_id m) of None \<Rightarrow> db
     | Some r \<Rightarrow> tryNextAccept fe (st_id m)
         (move_order fe (st_id m) OPublished (reason_opts (''Timeout: '' @ js_text (st_reason m) @ '' ('' @ js_text (st_who m) @ '')'') True) db))"

datatype otc_msg = OtcOrder order_msg | OtcAccept otc_accept | OtcPaid transfer_msg | OtcDelivered transfer_msg
  | OtcCancel stop_msg | OtcTimeout stop_msg

fun dispatch_otc :: "filter_env \<Rightarrow> otc_msg \<Rightarrow> filter_db \<Rightarrow> filter_db" where
  "dispatch_otc fe (OtcOrder m) db = handleOrder fe db m"
| "dispatch_otc fe (OtcAccept m) db = handleAccept fe db m"
| "dispatch_otc fe (OtcPaid m) db = handlePaid fe db m"
| "dispatch_otc fe (OtcDelivered m) db = handleDelivered fe db m"
| "dispatch_otc fe (OtcCancel m) db = handleCancel fe db m"
| "dispatch_otc fe (OtcTimeout m) db = handleTimeout fe db m"

end
