(* ===== verification/Trade_Filter_Safety.thy ===== *)
theory Trade_Filter_Safety
  imports Trade_Filter Order_Safety
begin

section \<open>Orders under messages from the chain\<close>

text \<open>
  Which moves the messages of the protocol can make, whoever sends them: all but the timeout message keep to the graph of the
  order machine, so closed orders stay closed; the timeout message moves any order back to the market.
\<close>

definition moves_along :: "filter_db \<Rightarrow> filter_db \<Rightarrow> bool" where
  "moves_along db db' \<longleftrightarrow> (\<forall>i c. order_state (fd_trade db) i = Some c \<longrightarrow> (\<exists>c'. order_state (fd_trade db') i = Some c' \<and> order_edge\<^sup>*\<^sup>* c c'))"

lemma moves_refl: "moves_along db db"
  by (auto simp: moves_along_def)

lemma moves_trans: "moves_along a b \<Longrightarrow> moves_along b c \<Longrightarrow> moves_along a c"
  unfolding moves_along_def by (meson rtranclp_trans)

lemma moves_same: "(\<And>i. order_state (fd_trade db') i = order_state (fd_trade db) i) \<Longrightarrow> moves_along a db \<Longrightarrow> moves_along a db'"
  by (simp add: moves_along_def)

subsection \<open>The writes\<close>

lemma row_state: "order_state (t\<lparr> td_orders := update_where (\<lambda>r. od_id r = oid) f (td_orders t) \<rparr>) i = order_state t i"
  if "\<And>r. od_id (f r) = od_id r" "\<And>r. od_status (f r) = od_status r"
proof -
  have "find (\<lambda>r. od_id r = i) (update_where (\<lambda>r. od_id r = oid) f (td_orders t))
      = map_option (\<lambda>r. if od_id r = oid then f r else r) (find (\<lambda>r. od_id r = i) (td_orders t))"
    by (rule find_update_where) (rule that(1))
  then show ?thesis using that(2) by (cases "find (\<lambda>r. od_id r = i) (td_orders t)") (auto simp: order_state_def find_order_def)
qed

lemma same_orders: "td_orders t' = td_orders t \<Longrightarrow> order_state t' i = order_state t i"
  by (simp add: order_state_def find_order_def)

lemma states_keep [simp]:
  "fd_trade (set_column oid col v db) = fd_trade db" "fd_trade (set_if b oid col w db) = fd_trade db"
  "order_state (backfill oid tx t) i = order_state t i"
  "order_state (fd_trade (note_event fe x ty s r j db)) i = order_state (fd_trade db) i"
  by (auto simp: set_column_def set_if_def backfill_def note_event_def on_trade_def row_state intro!: same_orders split: option.split)

lemma start_state: "peer_start fe ag oid db = Some db' \<Longrightarrow> order_state (fd_trade db') i = order_state (fd_trade db) i"
  by (auto simp: peer_start_def on_trade_def intro!: same_orders split: sum.splits)

lemma create_moves:
  assumes "create_order fe a db = Some db'" "moves_along b db"
  shows "moves_along b db'"
proof -
  obtain t j where c: "createOrder (fe_env fe) (fd_trade db) a = Inr (t, j)" "db' = db\<lparr> fd_trade := t \<rparr>"
    using assms(1) by (auto simp: create_order_def split: sum.splits prod.splits)
  have "order_state (fd_trade db') i = Some s" if "order_state (fd_trade db) i = Some s" for i s
    using create_state [OF c(1) that] by (simp add: c(2))
  then have "moves_along db db'" unfolding moves_along_def by (meson rtranclp.rtrancl_refl)
  then show ?thesis by (rule moves_trans [OF assms(2)])
qed

lemma plain_moves: "op_force op = False \<Longrightarrow> moves_along a db \<Longrightarrow> moves_along a (move_order fe oid s op db)"
proof (rule moves_trans, assumption)
  assume op: "op_force op = False"
  show "moves_along db (move_order fe oid s op db)" unfolding moves_along_def
  proof (intro allI impI)
    fix i c assume "order_state (fd_trade db) i = Some c"
    then show "\<exists>c'. order_state (fd_trade (move_order fe oid s op db)) i = Some c' \<and> order_edge\<^sup>*\<^sup>* c c'"
      using transition_moves_along [OF disjI1 [OF op], where db = "fd_trade db" and i = i and c = c and oid = oid and env = "fe_env fe" and s = s] by (auto simp: move_order_def on_trade_def)
  qed
qed

text \<open>Accepting by force an order that is on the market is the ordinary move.\<close>

lemma forced_accept:
  assumes "order_state (fd_trade db) oid = Some OPublished" "moves_along a db"
  shows "moves_along a (move_order fe oid OAccepted op db)"
proof (rule moves_trans [OF assms(2)])
  have "cascade_ok (fd_trade db) (fst (transition (fe_env fe) (fd_trade db) oid OAccepted op)) oid OAccepted"
    using cascade assms(1) by (simp add: accepted_def)
  moreover have "\<not> synced c OAccepted" for c by (simp add: synced_def SYNC_STATES_def)
  moreover have "order_edge OPublished OAccepted" by (simp add: order_edge_def)
  ultimately show "moves_along db (move_order fe oid OAccepted op db)"
    using assms(1) unfolding moves_along_def move_order_def on_trade_def cascade_ok_def
    by simp (metis option.inject r_into_rtranclp rtranclp.rtrancl_refl)
qed

subsection \<open>The handlers\<close>

lemma handle_order_moves: "moves_along db (handleOrder fe db m)"
  unfolding handleOrder_def
  by (auto simp: on_trade_def moves_refl intro: moves_same [OF _ moves_refl] moves_same [OF _ create_moves [OF _ moves_refl]] split: option.split)

lemma new_order_state:
  assumes "create_order fe a db = Some db'" "oa_id a = Some (c # cs)"
  shows "order_state (fd_trade db') (c # cs) = Some OPublished"
proof -
  have n: "c # cs \<notin> od_id ` set (td_orders (fd_trade db))"
    and d: "fd_trade db' = (fd_trade db)\<lparr> td_orders := td_orders (fd_trade db) @ [new_order (c # cs) (env_now (fe_env fe)) a] \<rparr>"
    using assms by (auto simp: create_order_def createOrder_def split: sum.splits prod.splits if_splits)
  have "find (\<lambda>r. od_id r = c # cs) (td_orders (fd_trade db)) = None" unfolding find_None_iff using n by (metis imageI)
  then show ?thesis unfolding d by (simp add: order_state_def find_order_def find_append new_order_def)
qed

lemma counter_moves:
  assumes "cid \<noteq> []"
  shows "moves_along db (counter_order fe r m cid db)"
proof -
  obtain c cs where cid: "cid = c # cs" using assms by (cases cid) auto
  have link: "moves_along a d \<Longrightarrow> moves_along a (on_trade (\<lambda>t. linkOrders t i j) d)" for a d i j
    by (erule moves_same [rotated]) (simp add: on_trade_def)
  define s where "s = (if od_side r = ''sell'' then ''buy'' else ''sell'')"
  show ?thesis
  proof (cases "create_order fe \<lparr> oa_id = Some cid, oa_relay = relay_or_remote db (oc_from m), oa_agent = oc_from m, oa_side = s,
          oa_kas = od_kas r, oa_price = od_price r, oa_chain = chain_or (oc_chain m) (Some (od_chain r)), oa_peer = Some (od_agent r),
          oa_counter = Some (oc_ref m), oa_broadcast = oc_tx m, oa_mode = [], oa_timeout = 30 \<rparr> db")
    case None
    then show ?thesis by (simp add: counter_order_def s_def moves_refl)
  next
    case (Some db1)
    define db3 where "db3 = on_trade (\<lambda>t. linkOrders t (oc_ref m) cid)
        (set_if True (if s = ''buy'' then cid else oc_ref m) ''customer_pay_address'' (oc_pay_from m) db1)"
    have 1: "moves_along db db1" by (rule create_moves [OF Some moves_refl])
    have 3: "moves_along db db3" unfolding db3_def by (rule link) (rule moves_same [OF _ 1], simp)
    have "order_state (fd_trade db1) cid = Some OPublished" unfolding cid by (rule new_order_state [OF Some [unfolded cid]]) simp
    then have "order_state (fd_trade db3) cid = Some OPublished" by (simp add: db3_def on_trade_def)
    then have 4: "moves_along db (move_order fe cid OAccepted op db3)" for op using forced_accept 3 by blast
    show ?thesis unfolding counter_order_def Let_def s_def [symmetric] Some option.case db3_def [symmetric]
      using 4 start_state by (auto split: option.split intro: moves_same)
  qed
qed

lemma accept_moves: "moves_along db (handleAccept fe db m)"
proof -
  have mv: "moves_along db (db\<lparr> fd_trade := t \<rparr>)" if "transition (fe_env fe) (fd_trade db) (oc_ref m) OAccepted (tx_opts x False) = (t, y)" for t x y
    using plain_moves [of "tx_opts x False" db db fe "oc_ref m" OAccepted] moves_refl that by (simp add: tx_opts_def move_order_def on_trade_def)
  define upd where "upd = (\<lambda>db. on_trade (\<lambda>t. t\<lparr> td_orders := update_where (\<lambda>q. od_id q = oc_ref m) (\<lambda>q. q\<lparr> od_peer := Some (oc_from m) \<rparr>) (td_orders t) \<rparr>) db)"
  have peer: "moves_along a d \<Longrightarrow> moves_along a (set_if b i col v (upd d))" for a d b i col v
    by (erule moves_same [rotated]) (simp add: upd_def on_trade_def row_state)
  have st: "peer_start fe ag oid d = Some d' \<Longrightarrow> moves_along a d \<Longrightarrow> moves_along a d'" for ag oid d d' a
    using start_state moves_same by metis
  have cn: "moves_along a d \<Longrightarrow> cid \<noteq> [] \<Longrightarrow> moves_along a (counter_order fe r m cid d)" for a d r cid
    using counter_moves moves_trans by blast
  have ne: "full x = Some cid \<Longrightarrow> cid \<noteq> []" for x cid by (auto simp: full_def truthy_def split: if_splits)
  show ?thesis unfolding handleAccept_def Let_def upd_def [symmetric]
    by (auto simp: moves_refl split: option.split prod.split sum.split intro: mv peer [OF mv] st [OF _ peer [OF mv]] cn [OF st [OF _ peer [OF mv]] ne])
qed

lemma paid_moves: "moves_along db (handlePaid fe db m)"
  unfolding handlePaid_def
  by (auto simp: moves_refl tx_opts_def split: option.split intro!: moves_same [OF states_keep(4)] plain_moves)

lemma delivered_moves: "moves_along db (handleDelivered fe db m)"
  unfolding handleDelivered_def
  by (auto simp: moves_refl tx_opts_def split: option.split intro!: moves_same [OF states_keep(4)] plain_moves)

lemma cancel_moves: "moves_along db (handleCancel fe db m)"
  unfolding handleCancel_def by (auto simp: moves_refl reason_opts_def split: option.split intro!: plain_moves)

subsection \<open>Histories without timeouts\<close>

text \<open>The operations of the order machine may force the orders in \<open>F\<close>.\<close>

inductive otc_step :: "string set \<Rightarrow> filter_db \<Rightarrow> filter_db \<Rightarrow> bool" for F where
  message: "(\<And>q. m \<noteq> OtcTimeout q) \<Longrightarrow> otc_step F db (dispatch_otc fe m db)"
| machine: "market_step F (fd_trade db) t \<Longrightarrow> otc_step F db (db\<lparr> fd_trade := t \<rparr>)"
| stored: "otc_step F db (db\<lparr> fd_messages := ms, fd_config := cfg, fd_relays := rs \<rparr>)"

lemma dispatch_moves: "(\<And>q. m \<noteq> OtcTimeout q) \<Longrightarrow> moves_along db (dispatch_otc fe m db)"
  by (cases m) (auto intro: handle_order_moves accept_moves paid_moves delivered_moves cancel_moves)

lemma otc_step_moves: "otc_step F db db' \<Longrightarrow> order_state (fd_trade db) i = Some c \<Longrightarrow> i \<notin> F \<Longrightarrow>
    \<exists>c'. order_state (fd_trade db') i = Some c' \<and> order_edge\<^sup>*\<^sup>* c c'"
proof (induction rule: otc_step.induct)
  case (message m db fe)
  then show ?case using dispatch_moves [OF message(1), of db fe] by (simp add: moves_along_def)
next
  case (machine db t)
  then show ?case using market_step_edge by simp
qed auto

interpretation otcm: status_machine "\<lambda>db. unforced_state F (fd_trade db)" "otc_step F" order_edge for F
  by unfold_locales (use otc_step_moves in \<open>auto simp: unforced_state_def split: if_splits\<close>)

subsection \<open>Properties\<close>

text \<open>C31: no message of the protocol but the timeout, from whomever, and no operation of the order machine in between, moves a
  completed, cancelled, expired or resolved order that the node itself does not force: forced moves of other orders do not reach it.\<close>

theorem messages_keep_closed_orders:
  assumes "(otc_step F)\<^sup>*\<^sup>* db db'" "i \<notin> F" "order_state (fd_trade db) i = Some c" "c \<in> {OCompleted, OCancelled, OExpired, OResolved}"
  shows "order_state (fd_trade db') i = Some c"
proof -
  have "unforced_state F (fd_trade db) i = Some c" using assms(2,3) by (simp add: unforced_state_def)
  then have "unforced_state F (fd_trade db') i = Some c"
    by (rule otcm.terminal_absorbing [OF assms(1)]) (use assms(4) in \<open>auto simp: order_edge_def synced_def TERMINAL_STATES_def\<close>)
  then show ?thesis by (simp add: unforced_state_def split: if_splits)
qed

text \<open>The timeout message is forced and its sender is not looked at: with no other accept in its channel it puts any order back on
  the market, a completed or cancelled one too, and no fund of it stays locked.\<close>

theorem timeout_message_reopens:
  assumes "order_state (fd_trade db) (st_id m) = Some c" "st_id m \<noteq> []" "fd_messages db = []"
  shows "order_state (fd_trade (handleTimeout fe db m)) (st_id m) = Some OPublished
    \<and> active_assets (td_locks (fd_trade (handleTimeout fe db m))) (st_id m) = {}"
proof -
  obtain r where r: "find_order (fd_trade db) (st_id m) = Some r" using assms(1) by (auto simp: order_state_def)
  define op where "op = reason_opts (''Timeout: '' @ js_text (st_reason m) @ '' ('' @ js_text (st_who m) @ '')'') True"
  have "accepted (fd_trade db) (st_id m) OPublished op" using assms(1) by (simp add: accepted_def op_def reason_opts_def)
  then have ok: "cascade_ok (fd_trade db) (fst (transition (fe_env fe) (fd_trade db) (st_id m) OPublished op)) (st_id m) OPublished"
    using cascade by blast
  have "tryNextAccept fe (st_id m) d = d" if "fd_messages d = []" for d
    using that by (simp add: tryNextAccept_def channel_messages_def)
  then have "handleTimeout fe db m = move_order fe (st_id m) OPublished op db"
    using assms(2,3) r by (simp add: handleTimeout_def op_def move_order_def on_trade_def)
  then show ?thesis using ok by (simp add: cascade_ok_def move_order_def on_trade_def closing_def)
qed

text \<open>An accept message changes the status of the order it answers only when it found it on the market and the amounts, with those
  of the sender so far, pass the limits of the node.\<close>

theorem accept_message_checked:
  assumes "order_state (fd_trade db) (oc_ref m) = Some c" "order_state (fd_trade (handleAccept fe db m)) (oc_ref m) \<noteq> Some c"
  shows "c = OPublished \<and> (\<exists>r. find_order (fd_trade db) (oc_ref m) = Some r
    \<and> checkLimits (fd_config db) (td_orders (fd_trade db)) (fe_since fe) (oc_from m) (od_kas r) (od_kas r * od_price r)
        (if od_mode r = [] then ''manual'' else od_mode r) = None)"
proof -
  obtain r where r: "find_order (fd_trade db) (oc_ref m) = Some r" "od_status r = c" using assms(1) by (auto simp: order_state_def)
  have "handleAccept fe db m \<noteq> db" using assms by auto
  then have "od_status r = OPublished \<and> checkLimits (fd_config db) (td_orders (fd_trade db)) (fe_since fe) (oc_from m) (od_kas r) (od_kas r * od_price r)
        (if od_mode r = [] then ''manual'' else od_mode r) = None"
    unfolding handleAccept_def r(1) option.case by presburger
  then show ?thesis using r by blast
qed

text \<open>A payment message for an order that is accepted does not move it, since the table knows no such move: the order stays
  accepted although the payment is recorded as an event.\<close>

theorem payment_message_lost:
  assumes "order_state (fd_trade db) (tr_id m) = Some OAccepted"
  shows "order_state (fd_trade (handlePaid fe db m)) (tr_id m) = Some OAccepted"
proof -
  have "\<not> accepted (fd_trade db) (tr_id m) OPaid (tx_opts tx False)" for tx using assms by (auto simp: accepted_def tx_opts_def)
  then have "move_order fe (tr_id m) OPaid (tx_opts tx False) db = db" for tx
    using not_accepted by (simp add: move_order_def on_trade_def)
  then show ?thesis using assms by (auto simp: handlePaid_def split: option.split)
qed

subsection \<open>Witnesses\<close>

definition ex_filter :: "order_status \<Rightarrow> filter_db" where
  "ex_filter s = \<lparr> fd_trade = ex_market [ex_order ''A'' s None], fd_columns = [], fd_config = [], fd_relays = [], fd_messages = [] \<rparr>"

definition ex_fenv :: filter_env where
  "ex_fenv = \<lparr> fe_env = ex_env, fe_since = 0, fe_parse = (\<lambda>_. None) \<rparr>"

lemma ex_filter_state [simp]: "order_state (fd_trade (ex_filter s)) ''A'' = Some s"
  by (simp add: ex_filter_def order_state_def find_order_def ex_market_def ex_order_def)

lemma ex_filter_parts [simp]: "fd_config (ex_filter s) = []" "fd_messages (ex_filter s) = []" "fe_since ex_fenv = 0"
  "od_kas (ex_order i s c) = 10" "od_price (ex_order i s c) = 1 / 10" "od_mode (ex_order i s c) = ''manual''" "od_status (ex_order i s c) = s"
  by (simp_all add: ex_filter_def ex_fenv_def ex_order_def)

abbreviation ex_payment :: transfer_msg where
  "ex_payment \<equiv> \<lparr> tr_id = ''A'', tr_tx = Some ''x'', tr_to = None, tr_chain = None, tr_from = ''peer'' \<rparr>"

theorem messages_keep_closed_orders_witness:
  "order_state (fd_trade (handlePaid ex_fenv (ex_filter OCancelled) ex_payment)) ''A'' = Some OCancelled"
  by (rule messages_keep_closed_orders [of "{''B''}" "ex_filter OCancelled"])
    (use otc_step.message [of "OtcPaid ex_payment" "{''B''}" "ex_filter OCancelled" ex_fenv] in \<open>auto intro: r_into_rtranclp\<close>)

theorem timeout_message_reopens_witness:
  "order_state (fd_trade (handleTimeout ex_fenv (ex_filter OCompleted) \<lparr> st_id = ''A'', st_reason = None, st_who = None, st_from = ''stranger'' \<rparr>)) ''A''
     = Some OPublished"
  using timeout_message_reopens [of "ex_filter OCompleted" "\<lparr> st_id = ''A'', st_reason = None, st_who = None, st_from = ''stranger'' \<rparr>" OCompleted ex_fenv] by simp

abbreviation ex_take :: otc_accept where
  "ex_take \<equiv> \<lparr> oc_ref = ''A'', oc_counter = None, oc_kas_addr = None, oc_pay_from = None, oc_chain = None, oc_from = ''peer'', oc_tx = None \<rparr>"

lemma accept_succeeds:
  assumes "find_order (fd_trade db) (oc_ref m) = Some r" "od_status r = OPublished" "oc_ref m \<noteq> []" "oc_counter m = None"
    and "checkLimits (fd_config db) (td_orders (fd_trade db)) (fe_since fe) (oc_from m) (od_kas r) (od_kas r * od_price r)
        (if od_mode r = [] then ''manual'' else od_mode r) = None"
  shows "order_state (fd_trade (handleAccept fe db m)) (oc_ref m) = Some OAccepted"
proof -
  let ?t = "transition (fe_env fe) (fd_trade db) (oc_ref m) OAccepted (tx_opts (oc_tx m) False)"
  have "accepted (fd_trade db) (oc_ref m) OAccepted (tx_opts (oc_tx m) False)"
    using assms(1,2) by (auto simp: accepted_def order_state_def)
  note ok = cascade [OF this, of "fe_env fe"]
  obtain t q where t: "?t = (t, Inr q)" using ok by (metis prod.exhaust_sel)
  have "order_state t (oc_ref m) = Some OAccepted" using ok t by (simp add: cascade_ok_def)
  then have st: "order_state (fd_trade (set_if True (oc_ref m) ''customer_address'' (oc_kas_addr m)
      (on_trade (\<lambda>t. t\<lparr> td_orders := update_where (\<lambda>q. od_id q = oc_ref m) (\<lambda>q. q\<lparr> od_peer := Some (oc_from m) \<rparr>) (td_orders t) \<rparr>)
                (db\<lparr> fd_trade := t \<rparr>)))) (oc_ref m) = Some OAccepted"
    by (simp add: on_trade_def row_state)
  have n: "full (oc_counter m) = None" by (simp add: full_def truthy_def assms(4))
  show ?thesis unfolding handleAccept_def Let_def assms(1,5) option.case t prod.case sum.case n
    using st start_state by (simp add: assms(2,3) split: option.split)
qed

theorem accept_message_checked_witness:
  "checkLimits [] (td_orders (fd_trade (ex_filter OPublished))) 0 ''peer'' 10 1 ''manual'' = None"
proof -
  have f: "find_order (fd_trade (ex_filter OPublished)) ''A'' = Some (ex_order ''A'' OPublished None)"
    by (simp add: find_order_def ex_filter_def ex_market_def ex_order_def)
  have ck: "checkLimits [] (td_orders (fd_trade (ex_filter OPublished))) 0 ''peer'' 10 1 ''manual'' = None"
    by (simp add: checkLimits_def ex_default_limits js_gt_def getDailyUsage_def of_today_def ex_filter_def ex_market_def ex_order_def Let_def)
  have "order_state (fd_trade (handleAccept ex_fenv (ex_filter OPublished) ex_take)) ''A'' = Some OAccepted"
    using accept_succeeds [of "ex_filter OPublished" ex_take "ex_order ''A'' OPublished None" ex_fenv] f ck by simp
  then show ?thesis
    using accept_message_checked [of "ex_filter OPublished" ex_take OPublished ex_fenv] f by simp
qed

theorem payment_message_lost_witness:
  "order_state (fd_trade (handlePaid ex_fenv (ex_filter OAccepted) ex_payment)) ''A'' = Some OAccepted"
  by (rule payment_message_lost [of "ex_filter OAccepted" ex_payment, simplified])

end
