(* ===== verification/Pool_Chunks.thy ===== *)
theory Pool_Chunks
  imports Evidence
begin

section \<open>Long broadcasts in chunks\<close>

text \<open>
  \<open>kasia-console/src/lib/pool-broadcast.mjs\<close>, which cuts a long payload into chunks, and the part of
  \<open>kasia-console/src/services/trade-protocol-filter.js\<close> that puts them together again: the cache of incomplete payloads, its
  eviction and \<open>handlePoolMarketChunk\<close> up to the reassembled text.  \<open>H\<close> is the hexadecimal \<open>sha256\<close> of a text; a character
  is a code unit.  The hash of a chunk is a text (with any other value a chunk never completes).  Times are in milliseconds.
\<close>

subsection \<open>Sending\<close>

definition SAFE_CHUNK_BUDGET :: nat where "SAFE_CHUNK_BUDGET = 450"
definition CHUNK_DATA_BUDGET :: nat where "CHUNK_DATA_BUDGET = 340"
definition CHUNK_EXHAUSTION_MAX_RETRY :: nat where "CHUNK_EXHAUSTION_MAX_RETRY = 8"

text \<open>The answer of the relay: a transaction, or an error text (a rejected call answers with its message).\<close>

datatype send_answer = Sent string | Refused string

fun has_part :: "string \<Rightarrow> string \<Rightarrow> bool" where
  "has_part p [] = (p = [])"
| "has_part p (c # t) = (take (length p) (c # t) = p \<or> has_part p t)"

definition utxos_exhausted :: "string \<Rightarrow> bool" where
  "utxos_exhausted e = (has_part ''no utxos available'' (toLowerCase e) \<or> has_part ''all spent by pending'' (toLowerCase e))"

definition chunk_total :: "string \<Rightarrow> nat" where
  "chunk_total payload = (length payload + CHUNK_DATA_BUDGET - 1) div CHUNK_DATA_BUDGET"

definition chunk_part :: "string \<Rightarrow> nat \<Rightarrow> string" where
  "chunk_part payload ord = take CHUNK_DATA_BUDGET (drop (ord * CHUNK_DATA_BUDGET) payload)"

definition chunk_envelope :: "(string \<Rightarrow> string) \<Rightarrow> string \<Rightarrow> nat \<Rightarrow> json" where
  "chunk_envelope H payload ord = JObj [(''t'', JStr ''pool_market_chunk_v1''), (''hash'', JStr (H payload)),
     (''ord'', JInt (int ord)), (''total'', JInt (int (chunk_total payload))), (''data'', JStr (chunk_part payload ord))]"

text \<open>One chunk: \<open>ask m k\<close> is the answer to the attempt number \<open>k\<close>; only exhaustion is tried again, up to \<open>n\<close> more times.\<close>

fun send_chunk :: "(string \<Rightarrow> nat \<Rightarrow> send_answer) \<Rightarrow> string \<Rightarrow> nat \<Rightarrow> nat \<Rightarrow> string option" where
  "send_chunk ask m k n = (case ask m k of
      Sent t \<Rightarrow> if t = [] then None else Some t
    | Refused e \<Rightarrow> (case n of 0 \<Rightarrow> None | Suc n' \<Rightarrow> if utxos_exhausted e then send_chunk ask m (k + 1) n' else None))"

fun send_chunks :: "(string \<Rightarrow> nat \<Rightarrow> send_answer) \<Rightarrow> string list \<Rightarrow> string list \<times> string list option" where
  "send_chunks ask [] = ([], Some [])"
| "send_chunks ask (m # ms) = (case send_chunk ask m 0 CHUNK_EXHAUSTION_MAX_RETRY of
      None \<Rightarrow> ([], None)
    | Some t \<Rightarrow> (case send_chunks ask ms of (out, r) \<Rightarrow> (m # out, map_option ((#) t) r)))"

datatype broadcast_result = Direct send_answer | InChunks string nat string | ChunkFailed

text \<open>The messages that went out, and what the caller gets.\<close>

definition sendBroadcastChunked :: "(string \<Rightarrow> string) \<Rightarrow> (string \<Rightarrow> nat \<Rightarrow> send_answer) \<Rightarrow> string \<Rightarrow> string list \<times> broadcast_result" where
  "sendBroadcastChunked H ask payload =
    (if length payload \<le> SAFE_CHUNK_BUDGET
     then (case ask payload 0 of Sent t \<Rightarrow> ([payload], Direct (Sent t)) | Refused e \<Rightarrow> ([], Direct (Refused e)))
     else (case send_chunks ask (map (\<lambda>ord. json_text (chunk_envelope H payload ord)) [0..<chunk_total payload]) of
         (out, Some txs) \<Rightarrow> (out, InChunks (js_join '','' txs) (chunk_total payload) (H payload))
       | (out, None) \<Rightarrow> (out, ChunkFailed)))"

subsection \<open>The cache of incomplete payloads\<close>

record chunk_entry =
  ce_total :: int
  ce_parts :: "(int \<times> json) list"
  ce_first :: nat

type_synonym chunk_cache = "(string \<times> chunk_entry) list"

definition POOL_CHUNK_TTL_MS :: nat where "POOL_CHUNK_TTL_MS = 30 * 60 * 1000"
definition POOL_CHUNK_MAX_ENTRIES :: nat where "POOL_CHUNK_MAX_ENTRIES = 200"

definition evictExpiredChunks :: "nat \<Rightarrow> chunk_cache \<Rightarrow> chunk_cache" where
  "evictExpiredChunks now cache =
    (let live = filter (\<lambda>(h, e). now \<le> ce_first e + POOL_CHUNK_TTL_MS) cache in
     if length live > POOL_CHUNK_MAX_ENTRIES
     then (let old = map fst (take (length live - POOL_CHUNK_MAX_ENTRIES) (sort_key (\<lambda>(h, e). ce_first e) live))
       in filter (\<lambda>(h, e). h \<notin> set old) live)
     else live)"

text \<open>\<open>Map.set\<close> keeps the place of a key, \<open>Map.delete\<close>.\<close>

fun map_set :: "'k \<Rightarrow> 'v \<Rightarrow> ('k \<times> 'v) list \<Rightarrow> ('k \<times> 'v) list" where
  "map_set k v [] = [(k, v)]"
| "map_set k v ((a, b) # m) = (if a = k then (k, v) # m else (a, b) # map_set k v m)"

definition map_del :: "'k \<Rightarrow> ('k \<times> 'v) list \<Rightarrow> ('k \<times> 'v) list" where
  "map_del k m = filter (\<lambda>(a, b). a \<noteq> k) m"

text \<open>\<open>ordered.join('')\<close>; \<open>None\<close> when an ordinal is missing.\<close>

definition join_text :: "json \<Rightarrow> string" where
  "join_text v = (if v = JNull then [] else js_String v)"

fun join_parts :: "(int \<times> json) list \<Rightarrow> nat list \<Rightarrow> string option" where
  "join_parts parts [] = Some []"
| "join_parts parts (i # is) = (case map_of parts (int i) of None \<Rightarrow> None
     | Some v \<Rightarrow> map_option ((@) (join_text v)) (join_parts parts is))"

definition fresh_entry :: "nat \<Rightarrow> int \<Rightarrow> chunk_entry option \<Rightarrow> chunk_entry" where
  "fresh_entry now tot e = (case e of Some x \<Rightarrow> x | None \<Rightarrow> \<lparr> ce_total = tot, ce_parts = [], ce_first = now \<rparr>)"

text \<open>\<open>handlePoolMarketChunk\<close> up to the reassembled text.\<close>

definition store_chunk :: "(string \<Rightarrow> string) \<Rightarrow> nat \<Rightarrow> string \<Rightarrow> int \<Rightarrow> int \<Rightarrow> json \<Rightarrow> chunk_cache \<Rightarrow> chunk_cache \<times> string option" where
  "store_chunk H now h ord tot data cache =
    (let e = fresh_entry now tot (map_of cache h) in
     if ce_total e \<noteq> tot then (cache, None)
     else (let parts = map_set ord data (ce_parts e); cache' = map_set h (e\<lparr> ce_parts := parts \<rparr>) cache in
       if int (length parts) < tot then (cache', None)
       else (case join_parts parts [0..<nat tot] of None \<Rightarrow> (cache', None)
         | Some t \<Rightarrow> (map_del h cache', if H t = h then Some t else None))))"

definition handleChunk :: "(string \<Rightarrow> string) \<Rightarrow> nat \<Rightarrow> json \<Rightarrow> chunk_cache \<Rightarrow> chunk_cache \<times> string option" where
  "handleChunk H now m cache =
    (let c1 = evictExpiredChunks now cache in
     case (js_get m ''hash'', js_get m ''ord'', js_get m ''data'') of
       (Some (JStr h), Some ord, Some data) \<Rightarrow>
         if h = [] \<or> \<not> js_truthy (js_get m ''total'') then (c1, None)
         else (case (js_Integer (js_get m ''total''), js_Integer (Some ord)) of
             (Some n, Some i) \<Rightarrow> if 0 < n \<and> 0 \<le> i \<and> i < n then store_chunk H now h i n data c1 else (c1, None)
           | _ \<Rightarrow> (c1, None))
     | _ \<Rightarrow> (c1, None))"

text \<open>A sequence of chunk messages with their times of arrival, and the texts they complete.\<close>

fun feed_chunks :: "(string \<Rightarrow> string) \<Rightarrow> (nat \<times> json) list \<Rightarrow> chunk_cache \<Rightarrow> chunk_cache \<times> string list" where
  "feed_chunks H [] cache = (cache, [])"
| "feed_chunks H ((now, m) # ms) cache = (case handleChunk H now m cache of
     (c1, r) \<Rightarrow> (case feed_chunks H ms c1 of (c2, out) \<Rightarrow> (c2, (case r of Some t \<Rightarrow> [t] | None \<Rightarrow> []) @ out)))"

declare send_chunk.simps [simp del]

subsection \<open>Maps\<close>

lemma map_of_map_set: "map_of (map_set k v m) j = (if j = k then Some v else map_of m j)"
  by (induction k v m rule: map_set.induct) auto

lemma length_map_set: "length (map_set k v m) \<le> Suc (length m)"
  by (induction k v m rule: map_set.induct) auto

lemma length_map_set_new: "map_of m k = None \<Longrightarrow> length (map_set k v m) = Suc (length m)"
  by (induction k v m rule: map_set.induct) (auto split: if_splits)

lemma length_map_set_old: "map_of m k \<noteq> None \<Longrightarrow> length (map_set k v m) = length m"
  by (induction k v m rule: map_set.induct) (auto split: if_splits)

lemma keys_map_set: "fst ` set (map_set k v m) = insert k (fst ` set m)"
  by (induction k v m rule: map_set.induct) auto

lemma distinct_map_set: "distinct (map fst m) \<Longrightarrow> distinct (map fst (map_set k v m))"
  by (induction k v m rule: map_set.induct) (auto simp: keys_map_set)

lemma map_of_map_del: "map_of (map_del k m) j = (if j = k then None else map_of m j)"
  by (induction m) (auto simp: map_del_def)

lemma map_of_filter_keep: "map_of m k = Some v \<Longrightarrow> P (k, v) \<Longrightarrow> map_of (filter P m) k = Some v"
  by (induction m) (auto split: if_splits)

lemma map_of_filter_None: "map_of m k = None \<Longrightarrow> map_of (filter P m) k = None"
  by (induction m) (auto split: if_splits)

subsection \<open>Chunks\<close>

lemma concat_chunks: "concat (map (chunk_part p) [0..<n]) = take (n * CHUNK_DATA_BUDGET) p"
proof (induction n)
  case (Suc n)
  have "take (n * CHUNK_DATA_BUDGET + CHUNK_DATA_BUDGET) p = take (n * CHUNK_DATA_BUDGET) p @ chunk_part p n"
    by (simp only: take_add chunk_part_def)
  then show ?case using Suc by (simp add: add.commute)
qed simp

lemma chunks_cover: "length p \<le> chunk_total p * CHUNK_DATA_BUDGET"
  by (simp add: chunk_total_def CHUNK_DATA_BUDGET_def)

lemma chunk_total_pos: "p \<noteq> [] \<Longrightarrow> 0 < chunk_total p"
  using chunks_cover [of p] by (cases "chunk_total p") auto

lemma join_chunks:
  assumes "\<And>i. i \<in> set is \<Longrightarrow> map_of parts (int i) = Some (JStr (chunk_part p i))"
  shows "join_parts parts is = Some (concat (map (chunk_part p) is))"
  using assms by (induction "is") (auto simp: join_text_def)

lemma reassembled:
  assumes "\<And>i. i < chunk_total p \<Longrightarrow> map_of parts (int i) = Some (JStr (chunk_part p i))"
  shows "join_parts parts [0..<chunk_total p] = Some p"
  using join_chunks [of "[0..<chunk_total p]" parts p] assms chunks_cover [of p] by (simp add: concat_chunks)

subsection \<open>Eviction\<close>

lemma evict_small: "length cache \<le> POOL_CHUNK_MAX_ENTRIES \<Longrightarrow>
    evictExpiredChunks now cache = filter (\<lambda>(h, e). now \<le> ce_first e + POOL_CHUNK_TTL_MS) cache"
proof -
  assume "length cache \<le> POOL_CHUNK_MAX_ENTRIES"
  then have "\<not> POOL_CHUNK_MAX_ENTRIES < length (filter (\<lambda>(h, e). now \<le> ce_first e + POOL_CHUNK_TTL_MS) cache)"
    using length_filter_le [of "\<lambda>(h, e). now \<le> ce_first e + POOL_CHUNK_TTL_MS" cache] by linarith
  then show ?thesis by (simp only: evictExpiredChunks_def Let_def if_False)
qed

lemma evict_subset: "set (evictExpiredChunks now cache) \<subseteq> set cache"
  by (auto simp: evictExpiredChunks_def Let_def)

lemma evict_fresh: "(h, e) \<in> set (evictExpiredChunks now cache) \<Longrightarrow> now \<le> ce_first e + POOL_CHUNK_TTL_MS"
  by (auto simp: evictExpiredChunks_def Let_def split: if_splits)

lemma length_evict: "length (evictExpiredChunks now cache) \<le> length cache"
  by (simp add: evictExpiredChunks_def Let_def)

lemma distinct_evict: "distinct (map fst cache) \<Longrightarrow> distinct (map fst (evictExpiredChunks now cache))"
  by (simp add: evictExpiredChunks_def Let_def distinct_map_filter)

text \<open>An entry that is young enough stays when the cache is not full.\<close>

lemma evict_keeps:
  assumes "length cache \<le> POOL_CHUNK_MAX_ENTRIES" "map_of cache h = Some e" "now \<le> ce_first e + POOL_CHUNK_TTL_MS"
  shows "map_of (evictExpiredChunks now cache) h = Some e"
  using assms by (simp add: evict_small map_of_filter_keep)

lemma evict_none: "map_of cache h = None \<Longrightarrow> map_of (evictExpiredChunks now cache) h = None"
  by (auto simp: evictExpiredChunks_def Let_def map_of_filter_None)

subsection \<open>Gathering a payload\<close>

text \<open>The cache holds exactly the chunks \<open>S\<close> of the payload, from no earlier than \<open>t0\<close>.\<close>

definition gathers :: "(string \<Rightarrow> string) \<Rightarrow> string \<Rightarrow> chunk_cache \<Rightarrow> nat set \<Rightarrow> nat \<Rightarrow> bool" where
  "gathers H p cache S t0 \<longleftrightarrow> (if S = {} then map_of cache (H p) = None
     else \<exists>e. map_of cache (H p) = Some e \<and> ce_total e = int (chunk_total p) \<and> t0 \<le> ce_first e \<and> distinct (map fst (ce_parts e))
       \<and> fst ` set (ce_parts e) = int ` S \<and> (\<forall>i \<in> S. map_of (ce_parts e) (int i) = Some (JStr (chunk_part p i))))"

lemma gathers_evict:
  assumes "gathers H p cache S t0" "length cache \<le> POOL_CHUNK_MAX_ENTRIES" "now \<le> t0 + POOL_CHUNK_TTL_MS"
  shows "gathers H p (evictExpiredChunks now cache) S t0"
proof (cases "S = {}")
  case True
  then show ?thesis using assms(1) by (simp add: gathers_def evict_none)
next
  case False
  then obtain e where e: "map_of cache (H p) = Some e" "t0 \<le> ce_first e"
    using assms(1) by (auto simp: gathers_def)
  then have "map_of (evictExpiredChunks now cache) (H p) = Some e" using evict_keeps [OF assms(2) e(1), of now] assms(3) by simp
  then show ?thesis using assms(1) False e by (simp add: gathers_def)
qed

lemma gathers_other: "gathers H p cache S t0 \<Longrightarrow> map_of cache' (H p) = map_of cache (H p) \<Longrightarrow> gathers H p cache' S t0"
  by (simp add: gathers_def)

lemma store_other:
  assumes "h \<noteq> k"
  shows "map_of (fst (store_chunk H now h ord tot data cache)) k = map_of cache k"
  using assms by (simp add: store_chunk_def Let_def map_of_map_set map_of_map_del split: option.split)

lemma length_store: "length (fst (store_chunk H now h ord tot data cache)) \<le> Suc (length cache)"
proof -
  have "length (map_del h m) \<le> length m" for m :: chunk_cache by (simp add: map_del_def)
  then show ?thesis using length_map_set [of h _ cache]
    by (auto simp: store_chunk_def Let_def split: option.split intro: order_trans)
qed

lemma length_handle: "length (fst (handleChunk H now m cache)) \<le> Suc (length cache)"
proof -
  have e: "length (evictExpiredChunks now cache) \<le> Suc (length cache)" using length_evict [of now cache] by simp
  have s: "length (fst (store_chunk H now h i n d (evictExpiredChunks now cache))) \<le> Suc (length cache)" for h i n d
    using length_store [of H now h i n d "evictExpiredChunks now cache"] length_evict [of now cache] by linarith
  show ?thesis using e s by (simp add: handleChunk_def Let_def split: option.split json.split)
qed

lemma handle_other:
  assumes "js_get m ''hash'' \<noteq> Some (JStr h)"
  shows "map_of (fst (handleChunk H now m cache)) h = map_of (evictExpiredChunks now cache) h"
proof -
  have "map_of (fst (store_chunk H now k i n d (evictExpiredChunks now cache))) h = map_of (evictExpiredChunks now cache) h"
    if "js_get m ''hash'' = Some (JStr k)" for k i n d using that assms by (intro store_other) auto
  then show ?thesis by (simp add: handleChunk_def Let_def split: option.split json.split)
qed

lemma handle_own:
  assumes "i < chunk_total p" "H p \<noteq> []"
  shows "handleChunk H now (chunk_envelope H p i) cache
    = store_chunk H now (H p) (int i) (int (chunk_total p)) (JStr (chunk_part p i)) (evictExpiredChunks now cache)"
  using assms by (simp add: handleChunk_def chunk_envelope_def js_Integer_def js_Number_def Let_def)

lemma store_own:
  assumes "gathers H p cache S t0" "S \<subseteq> {..<chunk_total p}" "i < chunk_total p" "t0 \<le> now"
  shows "if insert i S = {..<chunk_total p}
    then snd (store_chunk H now (H p) (int i) (int (chunk_total p)) (JStr (chunk_part p i)) cache) = Some p
    else snd (store_chunk H now (H p) (int i) (int (chunk_total p)) (JStr (chunk_part p i)) cache) = None
      \<and> gathers H p (fst (store_chunk H now (H p) (int i) (int (chunk_total p)) (JStr (chunk_part p i)) cache)) (insert i S) t0"
proof -
  let ?n = "int (chunk_total p)" and ?d = "JStr (chunk_part p i)"
  define e where "e = fresh_entry now ?n (map_of cache (H p))"
  define parts where "parts = map_set (int i) ?d (ce_parts e)"
  have e: "ce_total e = ?n" "t0 \<le> ce_first e" "distinct (map fst (ce_parts e))" "fst ` set (ce_parts e) = int ` S"
    "\<forall>j \<in> S. map_of (ce_parts e) (int j) = Some (JStr (chunk_part p j))"
  proof -
    consider "S = {}" "map_of cache (H p) = None" | x where "S \<noteq> {}" "map_of cache (H p) = Some x"
      using assms(1) by (cases "S = {}") (auto simp: gathers_def)
    then have "ce_total e = ?n \<and> t0 \<le> ce_first e \<and> distinct (map fst (ce_parts e)) \<and> fst ` set (ce_parts e) = int ` S
        \<and> (\<forall>j \<in> S. map_of (ce_parts e) (int j) = Some (JStr (chunk_part p j)))"
    proof cases
      case 1
      then show ?thesis using assms(4) by (simp add: e_def fresh_entry_def)
    next
      case 2
      then show ?thesis using assms(1) by (simp add: e_def fresh_entry_def gathers_def)
    qed
    then show "ce_total e = ?n" "t0 \<le> ce_first e" "distinct (map fst (ce_parts e))" "fst ` set (ce_parts e) = int ` S"
      "\<forall>j \<in> S. map_of (ce_parts e) (int j) = Some (JStr (chunk_part p j))" by blast+
  qed
  have keys: "fst ` set parts = int ` insert i S" using e(4) by (simp add: parts_def keys_map_set)
  have dist: "distinct (map fst parts)" using e(3) by (simp add: parts_def distinct_map_set)
  have vals: "\<forall>j \<in> insert i S. map_of parts (int j) = Some (JStr (chunk_part p j))"
    using e(5) by (simp add: parts_def map_of_map_set)
  have "length parts = card (set (map fst parts))" using distinct_card [OF dist] by simp
  also have "set (map fst parts) = int ` insert i S" using keys by simp
  also have "card (int ` insert i S) = card (insert i S)" by (rule card_image) (simp add: inj_on_def)
  finally have len: "length parts = card (insert i S)" .
  have sub: "insert i S \<subseteq> {..<chunk_total p}" using assms(2,3) by simp
  have st: "store_chunk H now (H p) (int i) ?n ?d cache = (let cache' = map_set (H p) (e\<lparr> ce_parts := parts \<rparr>) cache in
       if int (length parts) < ?n then (cache', None)
       else (case join_parts parts [0..<chunk_total p] of None \<Rightarrow> (cache', None)
         | Some t \<Rightarrow> (map_del (H p) cache', if H t = H p then Some t else None)))"
    using e(1) by (simp add: store_chunk_def e_def [symmetric] parts_def [symmetric] Let_def)
  show ?thesis
  proof (cases "insert i S = {..<chunk_total p}")
    case True
    then have "join_parts parts [0..<chunk_total p] = Some p" using vals by (intro reassembled) auto
    moreover have "length parts = chunk_total p" using len True by simp
    ultimately show ?thesis using True st by simp
  next
    case False
    then have "card (insert i S) < chunk_total p"
      using psubset_card_mono [of "{..<chunk_total p}" "insert i S"] sub by (simp add: psubset_eq)
    then have "store_chunk H now (H p) (int i) ?n ?d cache = (map_set (H p) (e\<lparr> ce_parts := parts \<rparr>) cache, None)"
      using st len by simp
    then show ?thesis using False e(1,2) keys dist vals by (simp add: gathers_def map_of_map_set)
  qed
qed

lemma feed_reassembles:
  assumes "gathers H p cache S t0" "S \<subseteq> {..<chunk_total p}" "S \<noteq> {..<chunk_total p}" "H p \<noteq> []"
    and "length cache + length ms \<le> POOL_CHUNK_MAX_ENTRIES"
    and "\<And>t m. (t, m) \<in> set ms \<Longrightarrow> t0 \<le> t \<and> t \<le> t0 + POOL_CHUNK_TTL_MS
          \<and> (js_get m ''hash'' \<noteq> Some (JStr (H p)) \<or> (\<exists>i < chunk_total p. m = chunk_envelope H p i))"
    and "{..<chunk_total p} \<subseteq> S \<union> {i. i < chunk_total p \<and> chunk_envelope H p i \<in> snd ` set ms}"
  shows "p \<in> set (snd (feed_chunks H ms cache))"
  using assms
proof (induction ms arbitrary: cache S)
  case Nil
  then show ?case by auto
next
  case (Cons x ms)
  obtain t m where x: "x = (t, m)" by fastforce
  obtain c1 r where h: "handleChunk H t m cache = (c1, r)" by fastforce
  have out: "snd (feed_chunks H (x # ms) cache) = (case r of Some y \<Rightarrow> [y] | None \<Rightarrow> []) @ snd (feed_chunks H ms c1)"
    using x h by (simp split: prod.split)
  have t: "t0 \<le> t" "t \<le> t0 + POOL_CHUNK_TTL_MS" using Cons.prems(6) [of t m] x by auto
  have small: "length cache \<le> POOL_CHUNK_MAX_ENTRIES" "length c1 + length ms \<le> POOL_CHUNK_MAX_ENTRIES"
    using Cons.prems(5) length_handle [of H t m cache] h by auto
  have ev: "gathers H p (evictExpiredChunks t cache) S t0" by (rule gathers_evict [OF Cons.prems(1) small(1) t(2)])
  have rest: "\<And>u k. (u, k) \<in> set ms \<Longrightarrow> t0 \<le> u \<and> u \<le> t0 + POOL_CHUNK_TTL_MS
      \<and> (js_get k ''hash'' \<noteq> Some (JStr (H p)) \<or> (\<exists>i < chunk_total p. k = chunk_envelope H p i))"
    using Cons.prems(6) by (meson list.set_intros(2))
  show ?case
  proof (cases "\<exists>i < chunk_total p. m = chunk_envelope H p i")
    case True
    then obtain i where i: "i < chunk_total p" "m = chunk_envelope H p i" by blast
    have st: "store_chunk H t (H p) (int i) (int (chunk_total p)) (JStr (chunk_part p i)) (evictExpiredChunks t cache) = (c1, r)"
      using handle_own [of i p H t cache] i Cons.prems(4) h by simp
    note own = store_own [OF ev Cons.prems(2) i(1) t(1), unfolded st fst_conv snd_conv]
    show ?thesis
    proof (cases "insert i S = {..<chunk_total p}")
      case True
      then show ?thesis using own out by simp
    next
      case False
      have "p \<in> set (snd (feed_chunks H ms c1))"
      proof (rule Cons.IH [where S = "insert i S"])
        show "gathers H p c1 (insert i S) t0" using own False by simp
        show "insert i S \<subseteq> {..<chunk_total p}" using Cons.prems(2) i(1) by simp
        have "j = i" if "chunk_envelope H p j = m" for j using that i(2) by (simp add: chunk_envelope_def)
        then show "{..<chunk_total p} \<subseteq> insert i S \<union> {j. j < chunk_total p \<and> chunk_envelope H p j \<in> snd ` set ms}"
          using Cons.prems(7) x by auto
      qed (use False Cons.prems(4) small(2) rest in auto)
      then show ?thesis using out by simp
    qed
  next
    case False
    then have oth: "js_get m ''hash'' \<noteq> Some (JStr (H p))" using Cons.prems(6) [of t m] x by auto
    have "p \<in> set (snd (feed_chunks H ms c1))"
    proof (rule Cons.IH [where S = S])
      show "gathers H p c1 S t0" using gathers_other [OF ev] handle_other [OF oth, of H t cache] h by simp
      show "{..<chunk_total p} \<subseteq> S \<union> {j. j < chunk_total p \<and> chunk_envelope H p j \<in> snd ` set ms}"
        using Cons.prems(7) x False by auto
    qed (use Cons.prems(2-4) small(2) rest in auto)
    then show ?thesis using out by simp
  qed
qed

lemma send_chunks_all: "send_chunks ask ms = (out, Some txs) \<Longrightarrow> out = ms \<and> length txs = length ms"
proof (induction ms arbitrary: out txs)
  case (Cons m ms)
  then obtain t where t: "send_chunk ask m 0 CHUNK_EXHAUSTION_MAX_RETRY = Some t" by (cases "send_chunk ask m 0 CHUNK_EXHAUSTION_MAX_RETRY") auto
  obtain o' r where r: "send_chunks ask ms = (o', r)" by fastforce
  then obtain txs' where "r = Some txs'" "out = m # o'" "txs = t # txs'" using Cons.prems t by (cases r) auto
  then show ?case using Cons.IH [of o' txs'] r by simp
qed simp

lemma sent_in_chunks:
  assumes "sendBroadcastChunked H ask p = (out, InChunks txs n h)"
  shows "out = map (\<lambda>i. json_text (chunk_envelope H p i)) [0..<chunk_total p] \<and> SAFE_CHUNK_BUDGET < length p"
proof -
  have long: "\<not> length p \<le> SAFE_CHUNK_BUDGET" using assms by (auto simp: sendBroadcastChunked_def split: send_answer.splits)
  obtain o' r where r: "send_chunks ask (map (\<lambda>ord. json_text (chunk_envelope H p ord)) [0..<chunk_total p]) = (o', r)" by fastforce
  then have "r \<noteq> None \<and> o' = out" using assms long by (cases r) (simp_all add: sendBroadcastChunked_def)
  then show ?thesis using send_chunks_all [of ask _ out] r long by auto
qed

lemma envelope_wf: "json_wf (chunk_envelope H p i)"
  by (simp add: chunk_envelope_def)

lemma json_text_inj:
  assumes "json_wf v" "json_wf w" "json_text v = json_text w"
  shows "v = w"
  using json_text_prefix [of v w "[]" "[]"] assms by (simp add: stops_def)

subsection \<open>What the cache guarantees\<close>

lemma handle_hashed:
  assumes "snd (handleChunk H now m cache) = Some t"
  shows "js_get m ''hash'' = Some (JStr (H t))"
proof -
  obtain h where h: "js_get m ''hash'' = Some (JStr h)"
    using assms by (auto simp: handleChunk_def Let_def split: option.splits json.splits)
  have "H t = h" if "snd (store_chunk H now h i n d c) = Some t" for i n d c
    using that by (auto simp: store_chunk_def Let_def split: if_splits option.splits)
  then show ?thesis using assms h
    by (auto simp: handleChunk_def Let_def split: option.splits if_splits)
qed

lemma feed_hashed: "t \<in> set (snd (feed_chunks H ms cache)) \<Longrightarrow> \<exists>u m. (u, m) \<in> set ms \<and> js_get m ''hash'' = Some (JStr (H t))"
proof (induction ms arbitrary: cache)
  case (Cons x ms)
  obtain u m where x: "x = (u, m)" by fastforce
  obtain c1 r where h: "handleChunk H u m cache = (c1, r)" by fastforce
  consider "r = Some t" | "t \<in> set (snd (feed_chunks H ms c1))"
    using Cons.prems x h by (auto split: prod.splits option.splits)
  then show ?case
  proof cases
    case 1
    then show ?thesis using handle_hashed [of H u m cache t] h x by auto
  next
    case 2
    then show ?thesis using Cons.IH by fastforce
  qed
qed simp

definition cache_ok :: "chunk_cache \<Rightarrow> bool" where
  "cache_ok cache \<longleftrightarrow> length cache \<le> POOL_CHUNK_MAX_ENTRIES + 1 \<and> distinct (map fst cache)
     \<and> (\<forall>(h, e) \<in> set cache. distinct (map fst (ce_parts e)) \<and> int (length (ce_parts e)) < ce_total e
          \<and> (\<forall>(i, d) \<in> set (ce_parts e). 0 \<le> i \<and> i < ce_total e))"

lemma length_filter_keys:
  assumes "distinct (map fst m)" "distinct ks" "set ks \<subseteq> fst ` set m"
  shows "length (filter (\<lambda>(h, e). h \<notin> set ks) m) = length m - length ks"
proof -
  have d: "distinct m" using assms(1) by (simp add: distinct_map)
  have inj: "inj_on fst (set m)" using assms(1) by (simp add: distinct_map)
  let ?in = "filter (\<lambda>(h, e). h \<in> set ks) m"
  have "length ?in = card (set ?in)" using distinct_card [OF distinct_filter [OF d]] by simp
  also have "\<dots> = card (fst ` set ?in)" by (rule card_image [symmetric]) (use inj in \<open>auto intro: inj_on_subset\<close>)
  also have "fst ` set ?in = set ks" using assms(3) by force
  finally have "length ?in = length ks" using assms(2) by (simp add: distinct_card)
  moreover have "length ?in + length (filter (\<lambda>(h, e). h \<notin> set ks) m) = length m"
    by (induction m) auto
  ultimately show ?thesis by linarith
qed

lemma length_evict_cap:
  assumes "distinct (map fst cache)"
  shows "length (evictExpiredChunks now cache) \<le> POOL_CHUNK_MAX_ENTRIES"
proof -
  define live where "live = filter (\<lambda>(h, e). now \<le> ce_first e + POOL_CHUNK_TTL_MS) cache"
  define old where "old = map fst (take (length live - POOL_CHUNK_MAX_ENTRIES) (sort_key (\<lambda>(h, e). ce_first e) live))"
  have d: "distinct (map fst live)" using assms by (simp add: live_def distinct_map_filter)
  have "mset (map fst (sort_key (\<lambda>(h, e). ce_first e) live)) = mset (map fst live)" by simp
  then have "distinct (map fst (sort_key (\<lambda>(h, e). ce_first e) live))" using d mset_eq_imp_distinct_iff by blast
  then have do: "distinct old" by (simp add: old_def take_map [symmetric] distinct_take)
  have "set old \<subseteq> fst ` set (sort_key (\<lambda>(h, e). ce_first e) live)" by (simp only: old_def set_map) (rule image_mono, rule set_take_subset)
  then have "length (filter (\<lambda>(h, e). h \<notin> set old) live) = length live - length old"
    using length_filter_keys [OF d do] by simp
  moreover have "length old = length live - POOL_CHUNK_MAX_ENTRIES" by (simp add: old_def)
  ultimately show ?thesis by (simp add: evictExpiredChunks_def Let_def live_def [symmetric] old_def [symmetric])
qed

lemma cache_ok_evict: "cache_ok cache \<Longrightarrow> cache_ok (evictExpiredChunks now cache) \<and> length (evictExpiredChunks now cache) \<le> POOL_CHUNK_MAX_ENTRIES"
  using length_evict_cap [of cache now] distinct_evict [of cache now] evict_subset [of now cache] unfolding cache_ok_def by fastforce

lemma set_map_set: "x \<in> set (map_set k v m) \<Longrightarrow> x = (k, v) \<or> x \<in> set m"
  by (induction k v m rule: map_set.induct) (auto split: if_splits)

lemma join_parts_None: "join_parts parts is = None \<longleftrightarrow> (\<exists>i \<in> set is. map_of parts (int i) = None)"
  by (induction "is") (auto split: option.split)

lemma map_del_set: "map_del k (map_set k v m) = map_del k m"
  by (induction k v m rule: map_set.induct) (auto simp: map_del_def)

lemma cache_ok_store:
  assumes "cache_ok cache" "length cache \<le> POOL_CHUNK_MAX_ENTRIES" "0 \<le> i" "i < n"
  shows "cache_ok (fst (store_chunk H now h i n d cache))"
proof -
  define e where "e = fresh_entry now n (map_of cache h)"
  define parts where "parts = map_set i d (ce_parts e)"
  define cache' where "cache' = map_set h (e\<lparr> ce_parts := parts \<rparr>) cache"
  have len: "length cache' \<le> POOL_CHUNK_MAX_ENTRIES + 1" using length_map_set [of h "e\<lparr> ce_parts := parts \<rparr>" cache] assms(2) by (simp add: cache'_def)
  have dist: "distinct (map fst cache')" using assms(1) by (simp add: cache'_def cache_ok_def distinct_map_set)
  have e: "distinct (map fst (ce_parts e))" "\<forall>(j, x) \<in> set (ce_parts e). 0 \<le> j \<and> j < ce_total e" if "0 < ce_total e"
    using assms(1) map_of_SomeD [of cache h] by (auto simp: e_def fresh_entry_def cache_ok_def split: option.splits)
  have ok: "cache_ok cache'" if "ce_total e = n" "int (length parts) < n"
  proof -
    have p: "distinct (map fst parts)" "\<forall>(j, x) \<in> set parts. 0 \<le> j \<and> j < n"
      using e that assms(3,4) set_map_set [of _ i d "ce_parts e"] by (auto simp: parts_def distinct_map_set)
    have "distinct (map fst (ce_parts y)) \<and> int (length (ce_parts y)) < ce_total y \<and> (\<forall>(j, x) \<in> set (ce_parts y). 0 \<le> j \<and> j < ce_total y)"
      if "(k, y) \<in> set cache'" for k y
    proof (cases "(k, y) \<in> set cache")
      case True
      then show ?thesis using assms(1) unfolding cache_ok_def by blast
    next
      case False
      then have "y = e\<lparr> ce_parts := parts \<rparr>" using set_map_set [of "(k, y)" h _ cache] that by (simp add: cache'_def)
      then show ?thesis using p \<open>ce_total e = n\<close> \<open>int (length parts) < n\<close> by simp
    qed
    then show ?thesis using len dist unfolding cache_ok_def by blast
  qed
  have full: "join_parts parts [0..<nat n] \<noteq> None" if "ce_total e = n" "\<not> int (length parts) < n"
  proof -
    have p: "distinct (map fst parts)" "\<forall>(j, x) \<in> set parts. 0 \<le> j \<and> j < n"
      using e that assms(3,4) set_map_set [of _ i d "ce_parts e"] by (auto simp: parts_def distinct_map_set)
    have "fst ` set parts \<subseteq> {0..<n}" using p(2) by auto
    moreover have "card (fst ` set parts) = length parts" using distinct_card [OF p(1)] by simp
    ultimately have "fst ` set parts = {0..<n}" using that(2) card_subset_eq [of "{0..<n}" "fst ` set parts"]
      card_mono [of "{0..<n}" "fst ` set parts"] by simp
    then have "map_of parts (int j) \<noteq> None" if "j < nat n" for j
      using that by (simp add: map_of_eq_None_iff)
    then show ?thesis by (simp add: join_parts_None)
  qed
  have "cache_ok (filter (\<lambda>(k, x). k \<noteq> h) cache)"
    using assms(1) le_trans [OF length_filter_le [of "\<lambda>(k, x). k \<noteq> h" cache]] by (auto simp: cache_ok_def distinct_map_filter)
  moreover have "map_del h cache' = filter (\<lambda>(k, x). k \<noteq> h) cache" by (simp add: cache'_def map_del_set) (simp add: map_del_def)
  ultimately have del: "cache_ok (map_del h cache')" by simp
  have "store_chunk H now h i n d cache = (if ce_total e \<noteq> n then (cache, None) else if int (length parts) < n then (cache', None)
       else (case join_parts parts [0..<nat n] of None \<Rightarrow> (cache', None)
         | Some t \<Rightarrow> (map_del h cache', if H t = h then Some t else None)))"
    unfolding store_chunk_def Let_def e_def [symmetric] parts_def [symmetric] cache'_def [symmetric] by (rule refl)
  then show ?thesis using assms(1) ok del full by auto
qed

lemma cache_ok_handle: "cache_ok cache \<Longrightarrow> cache_ok (fst (handleChunk H now m cache))"
  using cache_ok_evict [of cache now] cache_ok_store [of "evictExpiredChunks now cache"]
  by (simp add: handleChunk_def Let_def split: option.split json.split)

lemma cache_ok_feed: "cache_ok cache \<Longrightarrow> cache_ok (fst (feed_chunks H ms cache))"
proof (induction ms arbitrary: cache)
  case (Cons x ms)
  obtain u m where x: "x = (u, m)" by fastforce
  obtain c1 r where h: "handleChunk H u m cache = (c1, r)" by fastforce
  have "cache_ok (fst (feed_chunks H ms c1))" using cache_ok_handle [OF Cons.prems, of H u m] h Cons.IH by simp
  moreover have "fst (feed_chunks H (x # ms) cache) = fst (feed_chunks H ms c1)" using x h by (simp split: prod.splits)
  ultimately show ?case by simp
qed simp

subsection \<open>Properties\<close>

text \<open>C29: a payload sent in chunks comes out of the cache of every node that reads the chunks within half an hour: in any order,
  repeated or not, and with up to 200 chunks of anything else in between.\<close>

theorem payload_reassembled:
  assumes "sendBroadcastChunked H ask p = (out, InChunks txs n h)" "H p \<noteq> []"
    and "set out \<subseteq> (\<lambda>(t, m). json_text m) ` set ms"
    and "\<And>t m. (t, m) \<in> set ms \<Longrightarrow> json_wf m \<and> t0 \<le> t \<and> t \<le> t0 + POOL_CHUNK_TTL_MS \<and> (json_text m \<in> set out \<or> js_get m ''hash'' \<noteq> Some (JStr (H p)))"
    and "map_of cache (H p) = None" "length cache + length ms \<le> POOL_CHUNK_MAX_ENTRIES"
  shows "p \<in> set (snd (feed_chunks H ms cache))"
proof (rule feed_reassembles [of H p cache "{}" t0])
  note sent = sent_in_chunks [OF assms(1)]
  have pos: "0 < chunk_total p" using sent chunk_total_pos [of p] by fastforce
  show "gathers H p cache {} t0" using assms(5) by (simp add: gathers_def)
  show "{} \<noteq> {..<chunk_total p}" using pos by auto
  fix t m assume m: "(t, m) \<in> set ms"
  have "\<exists>i < chunk_total p. m = chunk_envelope H p i" if "json_text m \<in> set out"
    using that sent assms(4) [OF m] json_text_inj [OF _ envelope_wf, of m H p] by fastforce
  then show "t0 \<le> t \<and> t \<le> t0 + POOL_CHUNK_TTL_MS \<and> (js_get m ''hash'' \<noteq> Some (JStr (H p)) \<or> (\<exists>i < chunk_total p. m = chunk_envelope H p i))"
    using assms(4) [OF m] by blast
next
  have "chunk_envelope H p i \<in> snd ` set ms" if "i < chunk_total p" for i
  proof -
    have "json_text (chunk_envelope H p i) \<in> set out" using sent_in_chunks [OF assms(1)] that by simp
    then obtain t m where m: "(t, m) \<in> set ms" "json_text (chunk_envelope H p i) = json_text m" using assms(3) by fastforce
    then have "m = chunk_envelope H p i" using json_text_inj [OF _ envelope_wf] assms(4) [OF m(1)] by metis
    then show ?thesis using m(1) by force
  qed
  then show "{..<chunk_total p} \<subseteq> {} \<union> {i. i < chunk_total p \<and> chunk_envelope H p i \<in> snd ` set ms}" by auto
qed (use assms in auto)

text \<open>Whatever chunks anyone sends, a text that comes out of the cache has the hash its chunks name, and the cache never holds more
  than 201 entries, each with fewer chunks than it needs and all of them in range.\<close>

theorem chunk_cache_sound:
  "H ` set (snd (feed_chunks H ms [])) \<subseteq> {h. \<exists>u m. (u, m) \<in> set ms \<and> js_get m ''hash'' = Some (JStr h)}
    \<and> cache_ok (fst (feed_chunks H ms []))"
  using feed_hashed [of _ H ms "[]"] cache_ok_feed [of "[]" H ms] by (fastforce simp: cache_ok_def)

theorem payload_reassembled_witness:
  "replicate 451 (CHR ''x'') \<in> set (snd (feed_chunks (\<lambda>_. ''h'') [(5, chunk_envelope (\<lambda>_. ''h'') (replicate 451 (CHR ''x'')) 1),
     (6, JObj []), (7, chunk_envelope (\<lambda>_. ''h'') (replicate 451 (CHR ''x'')) 0)] []))"
proof -
  let ?p = "replicate 451 (CHR ''x'')" and ?H = "\<lambda>_. ''h''" and ?ask = "\<lambda>m k. Sent ''tx''"
  let ?ms = "[(5, chunk_envelope ?H ?p 1), (6, JObj []), (7, chunk_envelope ?H ?p 0)]"
  let ?out = "[json_text (chunk_envelope ?H ?p 0), json_text (chunk_envelope ?H ?p 1)]"
  have n: "chunk_total ?p = 2" by (simp add: chunk_total_def CHUNK_DATA_BUDGET_def)
  then have r: "[0..<chunk_total ?p] = [0, 1]" by (simp add: numeral_2_eq_2)
  have s: "sendBroadcastChunked ?H ?ask ?p = (?out, InChunks ''tx,tx'' 2 ''h'')"
    unfolding sendBroadcastChunked_def r by (simp add: SAFE_CHUNK_BUDGET_def send_chunk.simps n)
  show ?thesis
    by (rule payload_reassembled [OF s, of ?ms 5 "[]"])
      (auto simp: envelope_wf POOL_CHUNK_TTL_MS_def POOL_CHUNK_MAX_ENTRIES_def)
qed

end
