(* ===== verification/Pool_Script.thy ===== *)
theory Pool_Script
  imports Committee Chain_Event
begin

section \<open>The scripts of a pool market\<close>

text \<open>
  The addresses of the contracts of a pool market: \<open>pool-p2sh.mjs\<close>, \<open>pool-p2sh-v06.mjs\<close>, \<open>pool-p2sh-v07.mjs\<close> and
  \<open>oracle-stake-v1.mjs\<close> under \<open>kasia-console/src/lib/\<close>.  Each checks its arguments, writes them down as the constructor
  arguments of a contract and has the contract compiled.  The compiler and the library for addresses are not part of the
  repository: \<open>pt_compile\<close> gives the bytes of the script for a contract and its constructor arguments (\<open>None\<close> where it
  fails), \<open>pt_address\<close> the address that pays to a script, \<open>pt_hash\<close> is \<open>blake2b\<close> with 32 bytes.  The disk cache
  of compiled scripts is not modelled.  An exception is \<open>None\<close>.
\<close>

record pool_tools =
  pt_compile :: "string \<Rightarrow> json \<Rightarrow> buf option"
  pt_address :: "buf \<Rightarrow> string \<Rightarrow> string option"
  pt_hash :: "buf \<Rightarrow> buf"

record script =
  sc_addr :: string
  sc_redeem :: string
  sc_hash :: string

type_synonym ctor_args = "string \<Rightarrow> json option"

subsection \<open>Arguments\<close>

definition validateHashHex :: "json option \<Rightarrow> string option" where
  "validateHashHex v = (case v of Some (JStr s) \<Rightarrow>
      (let clean = strip_0x s in if length clean = 64 \<and> list_all is_hex_char clean then Some clean else None)
    | _ \<Rightarrow> None)"

definition validatePubkeyHex :: "json option \<Rightarrow> string option" where
  "validatePubkeyHex v = (case v of Some (JStr s) \<Rightarrow>
      (let clean = strip_0x s in if length clean = 64 \<and> list_all is_hex_char clean then Some clean else None)
    | _ \<Rightarrow> None)"

text \<open>\<open>parseInt(v, 10)\<close>; \<open>None\<close> is \<open>NaN\<close>.\<close>

definition parse_int :: "string \<Rightarrow> int option" where
  "parse_int s = (let (neg, r) = strip_sign (dropWhile space_char s); d = takeWhile digit_char r in
     if d = [] then None else Some (if neg then - int (str_val 0 d) else int (str_val 0 d)))"

definition js_parseInt :: "json option \<Rightarrow> int option" where
  "js_parseInt v = (case v of None \<Rightarrow> None | Some j \<Rightarrow> parse_int (js_String j))"

definition MAX_SAFE_INTEGER :: int where "MAX_SAFE_INTEGER = 2 ^ 53 - 1"

definition validateInt :: "json option \<Rightarrow> int \<Rightarrow> int \<Rightarrow> int option" where
  "validateInt v lo hi = (case js_parseInt v of Some n \<Rightarrow> if lo \<le> n \<and> n \<le> hi then Some n else None | None \<Rightarrow> None)"

definition bytes32Expr :: "string \<Rightarrow> json" where
  "bytes32Expr hexStr = JObj [(''kind'', JStr ''array''),
     (''data'', JArr (map (\<lambda>b. JObj [(''kind'', JStr ''byte''), (''data'', JInt (int (unat b)))]) (hex_decode hexStr)))]"

definition intExpr :: "int \<Rightarrow> json" where
  "intExpr n = JObj [(''kind'', JStr ''int''), (''data'', JInt n)]"

definition compileAndComputeP2SH :: "pool_tools \<Rightarrow> string \<Rightarrow> json option list \<Rightarrow> string \<Rightarrow> script option" where
  "compileAndComputeP2SH P contractName ctor network =
    (case those ctor of None \<Rightarrow> None
     | Some args \<Rightarrow> if network = [] then None
       else (case pt_compile P contractName (JArr args) of None \<Rightarrow> None
         | Some bytes \<Rightarrow> if bytes = [] then None
           else map_option (\<lambda>a. \<lparr> sc_addr = a, sc_redeem = hex_encode bytes, sc_hash = hex_encode (pt_hash P bytes) \<rparr>)
             (pt_address P bytes network)))"

definition pk_arg :: "ctor_args \<Rightarrow> string \<Rightarrow> json option" where
  "pk_arg a k = map_option bytes32Expr (validatePubkeyHex (a k))"

definition hash_arg :: "ctor_args \<Rightarrow> string \<Rightarrow> json option" where
  "hash_arg a k = map_option bytes32Expr (validateHashHex (a k))"

definition int_arg :: "ctor_args \<Rightarrow> string \<Rightarrow> int \<Rightarrow> int \<Rightarrow> json option" where
  "int_arg a k lo hi = map_option intExpr (validateInt (a k) lo hi)"

subsection \<open>The contracts\<close>

text \<open>The three oracle keys of the first version; they have to be different texts.\<close>

definition oracle_pks :: "ctor_args \<Rightarrow> string list option" where
  "oracle_pks a = (case a ''oraclePks'' of Some (JArr [x, y, z]) \<Rightarrow> those (map (\<lambda>v. validatePubkeyHex (Some v)) [x, y, z]) | _ \<Rightarrow> None)"

definition computeSpineP2SH :: "pool_tools \<Rightarrow> ctor_args \<Rightarrow> string \<Rightarrow> script option" where
  "computeSpineP2SH P a network =
    (case (validatePubkeyHex (a ''makerPk''), validatePubkeyHex (a ''brokerPk''), oracle_pks a) of
       (Some makerPk, Some brokerPk, Some oraclePks) \<Rightarrow>
         if \<not> distinct oraclePks \<or> makerPk \<in> set oraclePks \<or> brokerPk \<in> set oraclePks then None
         else compileAndComputeP2SH P ''PoolSpine''
           ([Some (bytes32Expr makerPk), Some (bytes32Expr brokerPk)] @ map (\<lambda>k. Some (bytes32Expr k)) oraclePks @
            [int_arg a ''deadline'' 1 MAX_SAFE_INTEGER, int_arg a ''minerFee'' 1 10000000, int_arg a ''brokerFeePct'' 0 9999,
             int_arg a ''oracleFeePct'' 0 9999, int_arg a ''oracleBondAmount'' 1 MAX_SAFE_INTEGER,
             int_arg a ''makerStakeAmount'' 1 MAX_SAFE_INTEGER, hash_arg a ''marketMetadataHash'']) network
     | _ \<Rightarrow> None)"

definition computeSideP2SH :: "pool_tools \<Rightarrow> ctor_args \<Rightarrow> string \<Rightarrow> script option" where
  "computeSideP2SH P a network =
    (case oracle_pks a of None \<Rightarrow> None
     | Some oraclePks \<Rightarrow> compileAndComputeP2SH P ''PoolSide''
         ([pk_arg a ''bettorPk'', hash_arg a ''spineP2shHash''] @ map (\<lambda>k. Some (bytes32Expr k)) oraclePks @
          [hash_arg a ''marketMetadataHash'', int_arg a ''direction'' 0 1, int_arg a ''stakeAmount'' 1 MAX_SAFE_INTEGER,
           int_arg a ''deadline'' 1 MAX_SAFE_INTEGER]) network)"

definition spine_args :: "ctor_args \<Rightarrow> int \<Rightarrow> json option list" where
  "spine_args a maxFee = [pk_arg a ''makerPk'', pk_arg a ''brokerPk'', hash_arg a ''poolMerkleRoot'', int_arg a ''deadline'' 1 MAX_SAFE_INTEGER,
     int_arg a ''minerFee'' 1 maxFee, int_arg a ''brokerFeePct'' 0 9999, int_arg a ''oracleFeePct'' 0 9999,
     int_arg a ''oracleBondAmount'' 1 MAX_SAFE_INTEGER, int_arg a ''makerStakeAmount'' 1 MAX_SAFE_INTEGER, hash_arg a ''marketMetadataHash'']"

definition computeSpineP2SH_v06 :: "pool_tools \<Rightarrow> ctor_args \<Rightarrow> string \<Rightarrow> script option" where
  "computeSpineP2SH_v06 P a network = compileAndComputeP2SH P ''PoolSpine_v06'' (spine_args a 10000000) network"

definition computeSpineP2SH_v07 :: "pool_tools \<Rightarrow> ctor_args \<Rightarrow> string \<Rightarrow> script option" where
  "computeSpineP2SH_v07 P a network =
    (case (validateInt (a ''shard_id'') 0 MAX_SAFE_INTEGER, validateInt (a ''shard_count'') 1 MAX_SAFE_INTEGER) of
       (Some i, Some n) \<Rightarrow> if n \<le> i then None
         else compileAndComputeP2SH P ''PoolSpine_v07'' (spine_args a 99999999 @ [Some (intExpr i), Some (intExpr n), hash_arg a ''market_id'']) network
     | _ \<Rightarrow> None)"

definition side_args :: "ctor_args \<Rightarrow> json option list" where
  "side_args a = [pk_arg a ''bettorPk'', hash_arg a ''spineP2shHash'', hash_arg a ''poolMerkleRoot'', hash_arg a ''marketMetadataHash'',
     int_arg a ''direction'' 0 1, int_arg a ''deadline'' 1 MAX_SAFE_INTEGER]"

definition computeSideP2SH_v06 :: "pool_tools \<Rightarrow> ctor_args \<Rightarrow> string \<Rightarrow> script option" where
  "computeSideP2SH_v06 P a network = compileAndComputeP2SH P ''PoolSide_v06'' (side_args a) network"

definition computeSideP2SH_v07 :: "pool_tools \<Rightarrow> ctor_args \<Rightarrow> string \<Rightarrow> script option" where
  "computeSideP2SH_v07 P a network = compileAndComputeP2SH P ''PoolSide_v07'' (side_args a) network"

definition computeStakeP2SH_v1 :: "pool_tools \<Rightarrow> string \<Rightarrow> int \<Rightarrow> string \<Rightarrow> script option" where
  "computeStakeP2SH_v1 P stakerPkX lockUntilDaa network =
    compileAndComputeP2SH P ''OracleStake_v1'' [map_option bytes32Expr (validatePubkeyHex (Some (JStr stakerPkX))),
      map_option intExpr (validateInt (Some (JInt lockUntilDaa)) 1 MAX_SAFE_INTEGER)] network"

definition deriveMarketIdHash :: "pool_tools \<Rightarrow> (string \<Rightarrow> buf) \<Rightarrow> json option \<Rightarrow> string option" where
  "deriveMarketIdHash P utf8 v = (case v of Some (JStr s) \<Rightarrow> if s = [] then None else Some (hex_encode (pt_hash P (utf8 s))) | _ \<Rightarrow> None)"

subsection \<open>What an address binds\<close>

lemma hexval_lower: "hexval c = Some n \<Longrightarrow> n < 16 \<and> lower_char c = char_of (if n < 10 then n + 48 else n + 87)"
proof -
  assume h: "hexval c = Some n"
  define k where "k = (of_char c :: nat)"
  have c: "char_of k = c" by (simp add: k_def)
  have l: "lower_char c = (if 65 \<le> k \<and> k \<le> 90 then char_of (k + 32) else char_of k)"
    using c by (simp add: lower_char_def k_def [symmetric] Let_def)
  have "hexval c = (if 48 \<le> k \<and> k \<le> 57 then Some (k - 48) else if 97 \<le> k \<and> k \<le> 102 then Some (k - 87)
     else if 65 \<le> k \<and> k \<le> 70 then Some (k - 55) else None)"
    by (simp only: hexval_def k_def Let_def)
  then consider "48 \<le> k" "k \<le> 57" "n = k - 48" | "97 \<le> k" "k \<le> 102" "n = k - 87" | "65 \<le> k" "k \<le> 70" "n = k - 55"
    using h by (auto split: if_splits)
  then show ?thesis
  proof cases
    case 3
    then have "n + 87 = k + 32" "\<not> n < 10" "n < 16" by linarith+
    then show ?thesis using l 3 by simp
  next
    case 2
    then have "n + 87 = k" "\<not> n < 10" "n < 16" by linarith+
    then show ?thesis using l 2 by simp
  qed (use l in simp)
qed

lemma hex_pair_inj:
  assumes "hexval a = Some x" "hexval b = Some y" "hexval c = Some z" "hexval d = Some w"
    "(of_nat (16 * x + y) :: byte) = of_nat (16 * z + w)"
  shows "lower_char a = lower_char c \<and> lower_char b = lower_char d"
proof -
  have v: "x < 16 \<and> lower_char a = char_of (if x < 10 then x + 48 else x + 87)" "y < 16 \<and> lower_char b = char_of (if y < 10 then y + 48 else y + 87)"
    "z < 16 \<and> lower_char c = char_of (if z < 10 then z + 48 else z + 87)" "w < 16 \<and> lower_char d = char_of (if w < 10 then w + 48 else w + 87)"
    using assms(1-4) by (simp_all add: hexval_lower)
  have "unat (of_nat (16 * x + y) :: byte) = unat (of_nat (16 * z + w) :: byte)" using assms(5) by (rule arg_cong)
  then have eq: "(16 * x + y) mod 256 = (16 * z + w) mod 256" by (simp only: unat_of_nat) simp
  have "16 * x + y < 256" "16 * z + w < 256" using v by linarith+
  then have "16 * x + y = 16 * z + w" using eq by simp
  moreover have "(16 * x + y) div 16 = x" "(16 * z + w) div 16 = z" using v by simp_all
  ultimately have "x = z" by simp
  then have "x = z \<and> y = w" using \<open>16 * x + y = 16 * z + w\<close> by simp
  then show ?thesis using v by simp
qed

lemma hex_decode_inj:
  "list_all is_hex_char s \<Longrightarrow> list_all is_hex_char t \<Longrightarrow> even (length s) \<Longrightarrow> length s = length t \<Longrightarrow> hex_decode s = hex_decode t
    \<Longrightarrow> toLowerCase s = toLowerCase t"
proof (induction s arbitrary: t rule: hex_decode.induct)
  case (1 a b r)
  then obtain c d u where t: "t = c # d # u" by (cases t rule: hex_decode.cases) auto
  obtain x y z w where v: "hexval a = Some x" "hexval b = Some y" "hexval c = Some z" "hexval d = Some w"
    using 1(2,3) t by (auto simp: is_hex_char_def)
  have eq: "(of_nat (16 * x + y) :: byte) = of_nat (16 * z + w)" "hex_decode r = hex_decode u" using 1(6) t v by simp_all
  have "toLowerCase r = toLowerCase u" using 1(1) [OF refl v(1,2), of u] 1(2-5) eq(2) t by simp
  then show ?case using hex_pair_inj [OF v eq(1)] t by (simp add: toLowerCase_def)
qed auto

lemma bytes32_inj:
  assumes "bytes32Expr s = bytes32Expr t" "length s = 64" "length t = 64" "list_all is_hex_char s" "list_all is_hex_char t"
  shows "toLowerCase s = toLowerCase t"
proof -
  have "map (\<lambda>b. JObj [(''kind'', JStr ''byte''), (''data'', JInt (int (unat b)))]) (hex_decode s)
      = map (\<lambda>b. JObj [(''kind'', JStr ''byte''), (''data'', JInt (int (unat b)))]) (hex_decode t)" using assms(1) by (simp add: bytes32Expr_def)
  then have "hex_decode s = hex_decode t" by (rule map_injective) (simp add: inj_on_def word_uint_eq_iff)
  then show ?thesis using hex_decode_inj [of s t] assms by simp
qed

lemma validated_hash: "validateHashHex v = Some s \<Longrightarrow> length s = 64 \<and> list_all is_hex_char s"
  by (auto simp: validateHashHex_def Let_def split: option.splits json.splits if_splits)

lemma validated_pk: "validatePubkeyHex v = Some s \<Longrightarrow> length s = 64 \<and> list_all is_hex_char s"
  by (auto simp: validatePubkeyHex_def Let_def split: option.splits json.splits if_splits)

lemma those_Cons: "those (x # xs) = Some ys \<longleftrightarrow> (\<exists>z zs. x = Some z \<and> those xs = Some zs \<and> ys = z # zs)"
  by (auto split: option.splits)

lemma those_Nil: "those [] = Some ys \<longleftrightarrow> ys = []"
  by auto

lemma hash_arg_inj: "hash_arg a k = Some x \<Longrightarrow> hash_arg b k = Some x \<Longrightarrow>
    map_option toLowerCase (validateHashHex (a k)) = map_option toLowerCase (validateHashHex (b k))"
proof -
  assume "hash_arg a k = Some x" "hash_arg b k = Some x"
  then obtain s t where "validateHashHex (a k) = Some s" "validateHashHex (b k) = Some t" "bytes32Expr s = bytes32Expr t"
    by (auto simp: hash_arg_def)
  then show ?thesis using validated_hash [of "a k" s] validated_hash [of "b k" t] bytes32_inj [of s t] by simp
qed

lemma pk_arg_inj: "pk_arg a k = Some x \<Longrightarrow> pk_arg b k = Some x \<Longrightarrow>
    map_option toLowerCase (validatePubkeyHex (a k)) = map_option toLowerCase (validatePubkeyHex (b k))"
proof -
  assume "pk_arg a k = Some x" "pk_arg b k = Some x"
  then obtain s t where "validatePubkeyHex (a k) = Some s" "validatePubkeyHex (b k) = Some t" "bytes32Expr s = bytes32Expr t"
    by (auto simp: pk_arg_def)
  then show ?thesis using validated_pk [of "a k" s] validated_pk [of "b k" t] bytes32_inj [of s t] by simp
qed

lemma int_arg_inj: "int_arg a k lo hi = Some x \<Longrightarrow> int_arg b k lo hi = Some x \<Longrightarrow> validateInt (a k) lo hi = validateInt (b k) lo hi"
  by (auto simp: int_arg_def intExpr_def)

text \<open>One address for two sets of constructor arguments: an explicit collision.\<close>

definition script_collision :: "pool_tools \<Rightarrow> string \<Rightarrow> bool" where
  "script_collision P contract \<longleftrightarrow>
     (\<exists>x y. x \<noteq> y \<and> pt_compile P contract x = pt_compile P contract y \<and> pt_compile P contract x \<noteq> None)
   \<or> (\<exists>x y n n'. x \<noteq> y \<and> pt_address P x n = pt_address P y n' \<and> pt_address P x n \<noteq> None)"

lemma compiled_inj:
  assumes "compileAndComputeP2SH P c xs n = Some s" "compileAndComputeP2SH P c ys n' = Some s'" "sc_addr s = sc_addr s'"
  shows "(\<exists>args. those xs = Some args \<and> those ys = Some args) \<or> script_collision P c"
proof -
  obtain as b where a: "those xs = Some as" "pt_compile P c (JArr as) = Some b" "pt_address P b n = Some (sc_addr s)"
    using assms(1) by (auto simp: compileAndComputeP2SH_def split: option.splits if_splits)
  obtain as' b' where a': "those ys = Some as'" "pt_compile P c (JArr as') = Some b'" "pt_address P b' n' = Some (sc_addr s')"
    using assms(2) by (auto simp: compileAndComputeP2SH_def split: option.splits if_splits)
  consider "as = as'" | "as \<noteq> as'" "b = b'" | "b \<noteq> b'" by blast
  then show ?thesis
  proof cases
    case 1
    then show ?thesis using a(1) a'(1) by blast
  next
    case 2
    then have "JArr as \<noteq> JArr as' \<and> pt_compile P c (JArr as) = pt_compile P c (JArr as') \<and> pt_compile P c (JArr as) \<noteq> None" using a a' by simp
    then show ?thesis unfolding script_collision_def by blast
  next
    case 3
    then have "b \<noteq> b' \<and> pt_address P b n = pt_address P b' n' \<and> pt_address P b n \<noteq> None" using a a' assms(3) by simp
    then show ?thesis unfolding script_collision_def by blast
  qed
qed

subsection \<open>Property\<close>

definition same_side_bet :: "ctor_args \<Rightarrow> ctor_args \<Rightarrow> bool" where
  "same_side_bet a b \<longleftrightarrow> map_option toLowerCase (validatePubkeyHex (a ''bettorPk'')) = map_option toLowerCase (validatePubkeyHex (b ''bettorPk''))
     \<and> map_option toLowerCase (validateHashHex (a ''spineP2shHash'')) = map_option toLowerCase (validateHashHex (b ''spineP2shHash''))
     \<and> map_option toLowerCase (validateHashHex (a ''poolMerkleRoot'')) = map_option toLowerCase (validateHashHex (b ''poolMerkleRoot''))
     \<and> map_option toLowerCase (validateHashHex (a ''marketMetadataHash'')) = map_option toLowerCase (validateHashHex (b ''marketMetadataHash''))
     \<and> validateInt (a ''direction'') 0 1 = validateInt (b ''direction'') 0 1
     \<and> validateInt (a ''deadline'') 1 MAX_SAFE_INTEGER = validateInt (b ''deadline'') 1 MAX_SAFE_INTEGER"

text \<open>C30: the address of a bet fixes its bettor, spine, direction, market, oracle pool and deadline: two bets of the last version (0.7) with
  one address agree in all of them, or the compiler or the address function collides.\<close>

theorem side_address_binds:
  assumes "computeSideP2SH_v07 P a n = Some s" "computeSideP2SH_v07 P b n' = Some s'" "sc_addr s = sc_addr s'"
  shows "same_side_bet a b \<or> script_collision P ''PoolSide_v07''"
proof -
  have "same_side_bet a b" if eqs: "those (side_args a) = Some xs" "those (side_args b) = Some xs" for xs
  proof -
    obtain x1 x2 x3 x4 x5 x6 where xs: "xs = [x1, x2, x3, x4, x5, x6]" "pk_arg a ''bettorPk'' = Some x1" "hash_arg a ''spineP2shHash'' = Some x2"
      "hash_arg a ''poolMerkleRoot'' = Some x3" "hash_arg a ''marketMetadataHash'' = Some x4" "int_arg a ''direction'' 0 1 = Some x5"
      "int_arg a ''deadline'' 1 MAX_SAFE_INTEGER = Some x6"
      using eqs(1) unfolding side_args_def those_Cons those_Nil by blast
    then have "pk_arg b ''bettorPk'' = Some x1" "hash_arg b ''spineP2shHash'' = Some x2" "hash_arg b ''poolMerkleRoot'' = Some x3"
      "hash_arg b ''marketMetadataHash'' = Some x4" "int_arg b ''direction'' 0 1 = Some x5" "int_arg b ''deadline'' 1 MAX_SAFE_INTEGER = Some x6"
      using eqs(2) xs(1) unfolding side_args_def those_Cons those_Nil by blast+
    then show ?thesis unfolding same_side_bet_def using xs(2-) by (intro conjI) (rule pk_arg_inj hash_arg_inj int_arg_inj; assumption)+
  qed
  then show ?thesis using compiled_inj [of P _ "side_args a" n s "side_args b" n' s'] assms by (auto simp: computeSideP2SH_v07_def)
qed

definition ex_tools :: pool_tools where
  "ex_tools = \<lparr> pt_compile = (\<lambda>c j. Some (map (\<lambda>x. of_nat (of_char x)) (json_text j))), pt_address = (\<lambda>b n. Some (hex_encode b)), pt_hash = id \<rparr>"

definition ex_side :: "string \<Rightarrow> json option" where
  "ex_side k = (if k = ''direction'' then Some (JStr ''1abc'') else if k = ''deadline'' then Some (JInt 9) else Some (JStr (replicate 64 (CHR ''a''))))"

lemma ex_hex_a: "validateHashHex (Some (JStr (replicate 64 (CHR ''a'')))) = Some (replicate 64 (CHR ''a''))"
  "validatePubkeyHex (Some (JStr (replicate 64 (CHR ''a'')))) = Some (replicate 64 (CHR ''a''))"
  by code_simp+

lemma ex_validate: "validateInt (Some (JStr ''1abc'')) 0 1 = Some 1" "validateInt (Some (JInt 9)) 1 MAX_SAFE_INTEGER = Some 9"
  by code_simp+

lemma ex_side_script: "\<exists>s. computeSideP2SH_v07 ex_tools ex_side ''mainnet'' = Some s"
proof -
  define A where "A = bytes32Expr (replicate 64 (CHR ''a''))"
  have "side_args ex_side = map Some [A, A, A, A, intExpr 1, intExpr 9]"
    by (simp add: side_args_def pk_arg_def hash_arg_def int_arg_def ex_side_def ex_hex_a ex_validate A_def)
  then have t: "those (side_args ex_side) = Some [A, A, A, A, intExpr 1, intExpr 9]" by simp
  have "json_text (JArr [A, A, A, A, intExpr 1, intExpr 9]) \<noteq> []" by simp
  then show ?thesis unfolding computeSideP2SH_v07_def compileAndComputeP2SH_def t by (simp add: ex_tools_def)
qed

theorem side_address_binds_witness:
  "\<exists>s. computeSideP2SH_v07 ex_tools ex_side ''mainnet'' = Some s \<and> (same_side_bet ex_side ex_side \<or> script_collision ex_tools ''PoolSide_v07'')"
proof -
  obtain s where s: "computeSideP2SH_v07 ex_tools ex_side ''mainnet'' = Some s" using ex_side_script by blast
  then show ?thesis using side_address_binds [OF s s refl] by blast
qed

text \<open>The keys of the oracles are compared as texts: one key in two spellings counts as two oracles.\<close>

lemma same_oracle_twice:
  "map_option (map hex_decode) (oracle_pks (\<lambda>_. Some (JArr [JStr (replicate 64 (CHR ''a'')), JStr (replicate 64 (CHR ''A'')), JStr (replicate 64 (CHR ''b''))])))
    = Some [hex_decode (replicate 64 (CHR ''a'')), hex_decode (replicate 64 (CHR ''a'')), hex_decode (replicate 64 (CHR ''b''))]"
  "distinct [replicate 64 (CHR ''a''), replicate 64 (CHR ''A''), replicate 64 (CHR ''b'')]"
  by code_simp+

end
