(* ===== verification/Pool_Ingest.thy ===== *)
theory Pool_Ingest
  imports Pool_Chunks Pool_Script Trade_Filter
begin

section \<open>The pool messages of the protocol\<close>

text \<open>
  The pool handlers of \<open>kasia-console/src/services/trade-protocol-filter.js\<close>: what a node does with the broadcasts about pool
  markets, their bets, their oracles and their votes, with \<open>ensurePoolSnapshot\<close> and \<open>derivePoolMerkleRoot\<close> of
  \<open>pool-market-settler-v06.mjs\<close>.  A message is the object its content parses to, with the members \<open>_tx\<close>, \<open>_from\<close>,
  \<open>_channel\<close> and \<open>_at\<close> attached.  Members that are texts in the protocol (identifiers, addresses, transactions) have to be
  texts; a message where they are not is taken as rejected.  Columns keep the values they are given.  What leaves the database
  is a command on an outbox.  The libraries and services the code calls are the functions of \<open>pool_env\<close>: \<open>pe_verify\<close> is
  \<open>kaspa.verifyMessage\<close> (\<open>None\<close> where it throws), \<open>pe_utxos\<close> the transactions of the unspent outputs of an address
  (\<open>None\<close> without connection), \<open>pe_block\<close> and \<open>pe_tip\<close> the answers of the node.
\<close>

subsection \<open>Tables\<close>

record pool_row =
  pr_id :: string
  pr_maker_relay :: string
  pr_spine :: string
  pr_spine_tx :: string
  pr_meta_hash :: string
  pr_oracles :: "json list"
  pr_broker :: json
  pr_maker :: string
  pr_deadline :: json
  pr_miner_fee :: json
  pr_broker_pct :: json
  pr_bond :: json
  pr_maker_stake :: json
  pr_source :: json
  pr_condition :: json
  pr_token :: json
  pr_side :: json
  pr_rule :: json
  pr_category :: json
  pr_version :: json
  pr_root :: json
  pr_deadline_daa :: json
  pr_metadata :: payload
  pr_status :: string
  pr_settle_tx :: "string option"
  pr_refund_tx :: "string option"
  pr_relays :: payload
  pr_broker_relay :: "string option"
  pr_sides_root :: json
  pr_updated :: nat

record pool_bet =
  br_market :: string
  br_bettor :: string
  br_direction :: json
  br_stake :: json
  br_side :: string
  br_tx :: string
  br_index :: json
  br_redeem :: string
  br_daa :: "nat option"

record enrollment =
  er_pk :: string
  er_lock :: int
  er_addr :: string
  er_hash :: string
  er_redeem :: string
  er_outpoint :: "(string \<times> nat \<times> string) option"
  er_source :: string
  er_active :: bool
  er_relay :: "string option"

record pool_relay =
  pl_id :: string
  pl_address :: string
  pl_oracle :: bool

record chain_view =
  cv_daa :: nat
  cv_leaves :: "(string \<times> string) list"
  cv_root :: string
  cv_size :: nat

record snapshot_row =
  sn_market :: string
  sn_root :: string
  sn_size :: nat
  sn_pks :: "string list"
  sn_stakes :: "string list"
  sn_daa :: nat

datatype pool_command = DispatchRefund string | CatchUp nat | SignResp string json

record pool_db =
  pb_markets :: "pool_row list"
  pb_bets :: "pool_bet list"
  pb_committee :: "(string \<times> json option) list"
  pb_events :: "chain_event list"
  pb_enroll :: "enrollment list"
  pb_relays :: "pool_relay list"
  pb_messages :: "bmsg list"
  pb_txlog :: "(string \<times> string option) list"
  pb_daa_index :: "(nat \<times> string) list"
  pb_coverage :: "(nat \<times> nat) list"
  pb_views :: "chain_view list"
  pb_snapshots :: "snapshot_row list"
  pb_cache :: chunk_cache
  pb_catchup :: nat
  pb_draws :: nat
  pb_outbox :: "pool_command list"

record dag_block =
  bd_daa :: "nat option"
  bd_txs :: "string list"
  bd_parent :: "string option"

record pool_env =
  pe_tools :: pool_tools
  pe_sha256 :: "string \<Rightarrow> string"
  pe_parse :: "string \<Rightarrow> json option"
  pe_iso :: "nat \<Rightarrow> string"
  pe_now :: nat
  pe_uuid :: "nat \<Rightarrow> string"
  pe_verify :: "string \<Rightarrow> json \<Rightarrow> string \<Rightarrow> bool option"
  pe_utxos :: "string \<Rightarrow> string list option"
  pe_rpc :: bool
  pe_connect :: bool
  pe_block :: "string \<Rightarrow> dag_block option"
  pe_tip :: "(string option \<times> nat) option"
  pe_relay_pk :: "string \<Rightarrow> string option"
  pe_pubkey :: "string \<Rightarrow> string option"
  pe_sign :: "string \<Rightarrow> json \<Rightarrow> nat \<Rightarrow> json option"
  pe_send :: "string \<Rightarrow> string \<Rightarrow> string option"

subsection \<open>Messages\<close>

text \<open>\<open>CURRENT_TIMESTAMP\<close>, which has whole seconds.\<close>

definition sql_now :: "pool_env \<Rightarrow> nat" where
  "sql_now env = pe_now env div 1000 * 1000"

definition has_member :: "json \<Rightarrow> string \<Rightarrow> bool" where
  "has_member m k = (js_get m k \<noteq> None \<and> js_get m k \<noteq> Some JNull)"

definition member_or_null :: "json \<Rightarrow> string \<Rightarrow> json" where
  "member_or_null m k = (case js_get m k of Some v \<Rightarrow> v | None \<Rightarrow> JNull)"

text \<open>\<open>msg[k] || null\<close>\<close>

definition truthy_or_null :: "json option \<Rightarrow> json" where
  "truthy_or_null v = (if js_truthy v then the v else JNull)"

text \<open>A value the database takes as a parameter.\<close>

definition bindable :: "json \<Rightarrow> bool" where
  "bindable v = (case v of JBool b \<Rightarrow> False | JArr xs \<Rightarrow> False | JObj kvs \<Rightarrow> False | _ \<Rightarrow> True)"

definition attach :: "pool_env \<Rightarrow> bmsg \<Rightarrow> json \<Rightarrow> json" where
  "attach env b m = (case m of JObj kvs \<Rightarrow> JObj (map_set ''_at'' (JStr (pe_iso env (bm_created b))) (map_set ''_channel'' (JStr (bm_channel b))
      (map_set ''_from'' (JStr (bm_sender b)) (map_set ''_tx'' (case bm_tx b of Some t \<Rightarrow> JStr t | None \<Rightarrow> JNull) kvs)))) | _ \<Rightarrow> m)"

text \<open>What was signed: the message without its signature and what the reader attached.\<close>

definition unsigned_text :: "json \<Rightarrow> string" where
  "unsigned_text m = (case m of
      JObj kvs \<Rightarrow> json_text (JObj (filter (\<lambda>(k, v). k \<notin> {''signature'', ''_tx'', ''_from'', ''_channel'', ''_at''}) kvs))
    | _ \<Rightarrow> json_text m)"

definition signed_by :: "pool_env \<Rightarrow> json \<Rightarrow> string \<Rightarrow> bool" where
  "signed_by env m pk = (pe_verify env (unsigned_text m) (member_or_null m ''signature'') pk = Some True)"

text \<open>\<open>String(v || '').toLowerCase()\<close>\<close>

definition lower_member :: "json \<Rightarrow> string \<Rightarrow> string" where
  "lower_member m k = toLowerCase (if js_truthy (js_get m k) then js_String (member_or_null m k) else [])"

definition find_pool :: "pool_db \<Rightarrow> string \<Rightarrow> pool_row option" where
  "find_pool db i = find (\<lambda>r. pr_id r = i) (pb_markets db)"

text \<open>\<open>INSERT OR IGNORE INTO chain_events\<close>\<close>

definition ingest_event :: "pool_env \<Rightarrow> json \<Rightarrow> string \<Rightarrow> string option \<Rightarrow> pool_db \<Rightarrow> pool_db" where
  "ingest_event env m type receiver db =
    (case text_field m ''_tx'' of None \<Rightarrow> db
     | Some t \<Rightarrow> if list_ex (\<lambda>x. (ev_txid x = t \<and> ev_type x = type) \<or> ev_id x = pe_uuid env (pb_draws db)) (pb_events db) then db
       else db\<lparr> pb_events := pb_events db @ [\<lparr> ev_id = pe_uuid env (pb_draws db), ev_txid = t, ev_from = full (text_field m ''_from''),
                ev_to = receiver, ev_type = type, ev_payload = JsonPayload m, ev_observed_by = ''scout-ingest'', ev_observed_at = pe_now env \<rparr>],
              pb_draws := pb_draws db + 1 \<rparr>)"

definition relay_address :: "pool_db \<Rightarrow> string \<Rightarrow> string option" where
  "relay_address db rid = map_option pl_address (find (\<lambda>r. pl_id r = rid) (pb_relays db))"

definition pool_out :: "pool_command \<Rightarrow> pool_db \<Rightarrow> pool_db" where
  "pool_out c db = db\<lparr> pb_outbox := pb_outbox db @ [c] \<rparr>"

subsection \<open>Refund requests\<close>

definition cross_node :: "string \<Rightarrow> bool" where
  "cross_node rid = (take 11 rid = ''cross-node:'')"

definition payload_json :: "payload \<Rightarrow> json" where
  "payload_json p = (case p of JsonPayload j \<Rightarrow> j | _ \<Rightarrow> JObj [])"

definition handlePoolRefundRequest :: "pool_env \<Rightarrow> json \<Rightarrow> pool_db \<Rightarrow> pool_db" where
  "handlePoolRefundRequest env m db =
    (case text_field m ''market_id'' of None \<Rightarrow> db
     | Some i \<Rightarrow>
       if i = [] \<or> \<not> js_truthy (js_get m ''maker_pk'') then db
       else (case find_pool db i of None \<Rightarrow> db
       | Some r \<Rightarrow>
         if cross_node (pr_maker_relay r) then db
         else if payload_json (pr_metadata r) = JNull \<or> js_truthy (js_get (payload_json (pr_metadata r)) ''refund_dispatched_at'') then db
         else (case full (relay_address db (pr_maker_relay r)) of
             None \<Rightarrow> pool_out (DispatchRefund i) db
           | Some a \<Rightarrow> (case pe_relay_pk env a of None \<Rightarrow> db
               | Some pk \<Rightarrow> if toLowerCase pk \<noteq> toLowerCase (js_String (member_or_null m ''maker_pk'')) then db
                   else pool_out (DispatchRefund i) db))))"

subsection \<open>Votes and signatures of the committee\<close>

definition committee_pks :: "pool_db \<Rightarrow> string \<Rightarrow> string list" where
  "committee_pks db i = (case map_of (pb_committee db) i of Some (Some (JArr xs)) \<Rightarrow> map (\<lambda>v. toLowerCase (js_String v)) xs | _ \<Rightarrow> [])"

definition assigned_pks :: "pool_db \<Rightarrow> pool_row \<Rightarrow> string list" where
  "assigned_pks db r = (if pr_version r \<in> {JStr ''v0.6'', JStr ''v0.7''} then committee_pks db (pr_id r)
     else map (\<lambda>v. toLowerCase (js_String v)) (filter (\<lambda>v. js_truthy (Some v)) (pr_oracles r)))"

definition handlePoolOracleVote :: "pool_env \<Rightarrow> json \<Rightarrow> pool_db \<Rightarrow> pool_db" where
  "handlePoolOracleVote env m db =
    (case text_field m ''market_id'' of None \<Rightarrow> db
     | Some i \<Rightarrow>
       if i = [] \<or> \<not> (\<forall>k \<in> set [''voter_pubkey'', ''outcome'', ''signature'']. js_truthy (js_get m k)) then db
       else (case find_pool db i of None \<Rightarrow> pool_out (CatchUp 24) db
       | Some r \<Rightarrow>
         if lower_member m ''voter_pubkey'' \<notin> set (assigned_pks db r) then db
         else if \<not> signed_by env m (js_String (member_or_null m ''voter_pubkey'')) then db
         else ingest_event env m ''pool_oracle_vote'' (relay_address db (pr_maker_relay r)) db))"

definition handlePoolOracleTxSignResp :: "pool_env \<Rightarrow> json \<Rightarrow> pool_db \<Rightarrow> pool_db" where
  "handlePoolOracleTxSignResp env m db =
    (if \<not> (\<forall>k \<in> set [''market_id'', ''voter_pubkey'', ''signature'', ''input_index'']. has_member m k) then db
     else (case text_field m ''market_id'' of None \<Rightarrow> db
     | Some i \<Rightarrow> if \<not> hex64 (lower_member m ''voter_pubkey'') then db
         else if lower_member m ''voter_pubkey'' \<notin> set (committee_pks db i) then db
         else ingest_event env m ''pool_oracle_tx_sig'' None db))"

subsection \<open>Requests for signatures\<close>

definition payload_text :: "payload \<Rightarrow> string option" where
  "payload_text p = (case p of NoPayload \<Rightarrow> None | JsonPayload j \<Rightarrow> Some (json_text j) | TextPayload t \<Rightarrow> Some t)"

text \<open>The signature is looked up by three patterns on the text of the recorded messages.\<close>

definition already_signed :: "pool_db \<Rightarrow> string \<Rightarrow> nat \<Rightarrow> string \<Rightarrow> bool" where
  "already_signed db i idx pk = list_ex (\<lambda>x. ev_type x = ''pool_oracle_tx_sig'' \<and> (case payload_text (ev_payload x) of None \<Rightarrow> False
     | Some t \<Rightarrow> sql_like (like_member ''market_id'' i) t \<and> sql_like (''%'' @ quoted ''input_index'' @ '':'' @ nat_str idx @ ''%'') t
         \<and> sql_like (like_member ''voter_pubkey'' pk) t)) (pb_events db)"

definition sign_resp :: "string \<Rightarrow> string \<Rightarrow> nat \<Rightarrow> json \<Rightarrow> json \<Rightarrow> json" where
  "sign_resp i pk idx winner sig = JObj [(''t'', JStr ''kanet_pool_oracle_tx_sign_resp_v1''), (''market_id'', JStr i), (''voter_pubkey'', JStr pk),
     (''input_index'', JInt (int idx)), (''winner'', winner), (''signature'', sig), (''epoch'', JInt 1)]"

fun sign_inputs :: "pool_env \<Rightarrow> string \<Rightarrow> json \<Rightarrow> json \<Rightarrow> pool_relay \<Rightarrow> string \<Rightarrow> nat list \<Rightarrow> pool_db \<Rightarrow> pool_db" where
  "sign_inputs env i tx_obj winner oracle pk [] db = db"
| "sign_inputs env i tx_obj winner oracle pk (k # ks) db =
    sign_inputs env i tx_obj winner oracle pk ks
      (if already_signed db i k pk then db
       else (case pe_sign env (pl_id oracle) tx_obj k of None \<Rightarrow> db
         | Some sig \<Rightarrow> if \<not> js_truthy (Some sig) \<or> full (pe_send env (pl_id oracle) (json_text (sign_resp i pk k winner sig))) = None then db
             else pool_out (SignResp (pl_id oracle) (sign_resp i pk k winner sig)) db))"

definition index_of :: "'a \<Rightarrow> 'a list \<Rightarrow> nat option" where
  "index_of x xs = (let n = length (takeWhile (\<lambda>y. y \<noteq> x) xs) in if n < length xs then Some n else None)"

definition silent_index :: "json \<Rightarrow> int option" where
  "silent_index m = (if js_get m ''unanimous'' \<in> {Some (JBool False), Some (JStr ''false'')}
     then (case js_get m ''silent_oracle_index'' of Some (JInt i) \<Rightarrow> Some i | _ \<Rightarrow> None) else None)"

text \<open>\<open>Number(msg.spine_input_count) || 1\<close>; the loop runs over the indices below it.\<close>

definition spine_inputs :: "json \<Rightarrow> nat list" where
  "spine_inputs m = (case js_Number (js_get m ''spine_input_count'') of
      Some q \<Rightarrow> if q = 0 then [0] else [0..<nat \<lceil>q\<rceil>] | None \<Rightarrow> [0])"

fun sign_oracles :: "pool_env \<Rightarrow> string \<Rightarrow> json \<Rightarrow> json \<Rightarrow> pool_relay list \<Rightarrow> pool_db \<Rightarrow> pool_db" where
  "sign_oracles env i tx_obj m [] db = db"
| "sign_oracles env i tx_obj m (oracle # os) db =
    sign_oracles env i tx_obj m os
      (case full (pe_pubkey env (pl_id oracle)) of None \<Rightarrow> db
       | Some pk0 \<Rightarrow> (let pk = toLowerCase pk0 in
           case index_of pk (committee_pks db i) of None \<Rightarrow> db
           | Some k \<Rightarrow> if silent_index m = Some (int k) then db
               else sign_inputs env i tx_obj (member_or_null m ''winner'') oracle pk (spine_inputs m) db))"

definition handlePoolOracleTxSignReq :: "pool_env \<Rightarrow> json \<Rightarrow> pool_db \<Rightarrow> pool_db" where
  "handlePoolOracleTxSignReq env m db =
    (if \<not> (\<forall>k \<in> set [''market_id'', ''winner'', ''input_count'', ''spine_input_count'']. has_member m k) then db
     else (case text_field m ''market_id'' of None \<Rightarrow> db
     | Some i \<Rightarrow> (case find_pool db i of None \<Rightarrow> db
       | Some r \<Rightarrow>
         if \<not> js_truthy (js_get m ''phase2_tx_obj'') \<and> payload_json (pr_metadata r) = JNull then db
         else (let tx_obj = js_or (js_get m ''phase2_tx_obj'') (js_get (payload_json (pr_metadata r)) ''phase2_tx_obj'') in
           if \<not> js_truthy tx_obj \<or> committee_pks db i = [] then db
           else sign_oracles env i (the tx_obj) m (filter pl_oracle (pb_relays db)) db))))"

subsection \<open>Stakes of the oracles\<close>

definition network_of :: "string \<Rightarrow> string" where
  "network_of a = (if take 10 a = ''kaspatest:'' then ''testnet-12'' else ''mainnet'')"

definition upsert_enrollment :: "string \<Rightarrow> int \<Rightarrow> script \<Rightarrow> string option \<Rightarrow> pool_db \<Rightarrow> pool_db" where
  "upsert_enrollment pk lock s relay db =
    (if list_ex (\<lambda>r. er_pk r = pk) (pb_enroll db)
     then db\<lparr> pb_enroll := update_where (\<lambda>r. er_pk r = pk) (\<lambda>r. r\<lparr> er_lock := lock, er_addr := sc_addr s, er_hash := sc_hash s,
            er_redeem := sc_redeem s, er_source := ''chain_envelope'', er_active := True,
            er_relay := (case relay of Some a \<Rightarrow> Some a | None \<Rightarrow> er_relay r) \<rparr>) (pb_enroll db) \<rparr>
     else db\<lparr> pb_enroll := pb_enroll db @ [\<lparr> er_pk = pk, er_lock = lock, er_addr = sc_addr s, er_hash = sc_hash s, er_redeem = sc_redeem s,
            er_outpoint = None, er_source = ''chain_envelope'', er_active = True, er_relay = relay \<rparr>] \<rparr>)"

definition handleOracleStakeEnroll :: "pool_env \<Rightarrow> json \<Rightarrow> pool_db \<Rightarrow> pool_db" where
  "handleOracleStakeEnroll env m db =
    (if \<not> (\<forall>k \<in> set [''staker_pk_x'', ''lock_until_daa'', ''p2sh_addr'', ''signature'']. has_member m k) then db
     else (let pk = toLowerCase (js_String (member_or_null m ''staker_pk_x'')) in
       if \<not> hex64 pk then db
       else (case (js_parseInt (js_get m ''lock_until_daa''), text_field m ''p2sh_addr'') of
         (Some lock, Some addr) \<Rightarrow>
           if lock \<le> 0 then db
           else (case computeStakeP2SH_v1 (pe_tools env) pk lock (network_of addr) of None \<Rightarrow> db
           | Some s \<Rightarrow>
             if sc_addr s \<noteq> addr \<or> \<not> signed_by env m pk then db
             else upsert_enrollment pk lock s (full (text_field m ''relay_address'')) (ingest_event env m ''oracle_stake_enroll'' (Some addr) db))
       | _ \<Rightarrow> db)))"

definition handleOracleStakeWithdraw :: "pool_env \<Rightarrow> json \<Rightarrow> pool_db \<Rightarrow> pool_db" where
  "handleOracleStakeWithdraw env m db =
    (if js_get m ''staker_pk_x'' = None \<or> js_get m ''signature'' = None then db
     else (let pk = toLowerCase (js_String (member_or_null m ''staker_pk_x'')) in
       if \<not> hex64 pk \<or> \<not> signed_by env m pk then db
       else (let db1 = ingest_event env m ''oracle_stake_withdraw'' None db in
         db1\<lparr> pb_enroll := update_where (\<lambda>r. er_pk r = pk) (\<lambda>r. r\<lparr> er_active := False \<rparr>) (pb_enroll db1) \<rparr>)))"

subsection \<open>The snapshot of the oracle pool\<close>

datatype snapshot_error = MarketIdRequired | BadRoot | NoChainView | RootMismatch | SnapshotDaaRequired

definition find_view :: "pool_db \<Rightarrow> nat \<Rightarrow> chain_view option" where
  "find_view db d = find (\<lambda>v. cv_daa v = d) (pb_views db)"

definition derivePoolMerkleRoot :: "pool_db \<Rightarrow> nat option \<Rightarrow> snapshot_error + chain_view" where
  "derivePoolMerkleRoot db daa = (case daa of None \<Rightarrow> Inl SnapshotDaaRequired
     | Some d \<Rightarrow> (case find_view db d of Some v \<Rightarrow> if 0 < cv_size v then Inr v else Inl NoChainView | None \<Rightarrow> Inl NoChainView))"

definition ensurePoolSnapshot :: "pool_db \<Rightarrow> string \<Rightarrow> string \<Rightarrow> nat option \<Rightarrow> snapshot_error + pool_db" where
  "ensurePoolSnapshot db marketId expected daa =
    (if marketId = [] then Inl MarketIdRequired
     else if \<not> hex64 (toLowerCase expected) then Inl BadRoot
     else (case daa of None \<Rightarrow> Inl SnapshotDaaRequired
     | Some d \<Rightarrow> (case find_view db d of None \<Rightarrow> Inl NoChainView
       | Some v \<Rightarrow> if toLowerCase (cv_root v) \<noteq> toLowerCase expected then Inl RootMismatch
           else Inr (db\<lparr> pb_snapshots := filter (\<lambda>s. sn_market s \<noteq> marketId) (pb_snapshots db) @
             [\<lparr> sn_market = marketId, sn_root = cv_root v, sn_size = cv_size v, sn_pks = map (\<lambda>(pk, s). toLowerCase pk) (cv_leaves v),
                sn_stakes = map snd (cv_leaves v), sn_daa = d \<rparr>] \<rparr>))))"

subsection \<open>Markets\<close>

definition market_required :: "string list" where
  "market_required = [''market_id'', ''spine_p2sh'', ''market_metadata_hash'', ''maker_relay_pk'', ''signature'', ''outcome_market_source'',
     ''outcome_condition_id'', ''outcome_token_id'', ''outcome_side'', ''resolution_rule_spec'', ''deadline'']"

text \<open>The text whose hash a market quotes, from its source, condition, token, side, deadline and rule.\<close>

definition meta_input :: "json \<Rightarrow> json \<Rightarrow> json \<Rightarrow> json \<Rightarrow> json \<Rightarrow> json \<Rightarrow> string" where
  "meta_input source condition token side deadline rule = json_text (JObj [(''source'', source), (''condition'', condition),
     (''token'', token), (''side'', side), (''end'', deadline), (''rule'', rule)])"

definition nth_or_null :: "json option \<Rightarrow> nat \<Rightarrow> json" where
  "nth_or_null v i = (case v of Some (JArr xs) \<Rightarrow> if i < length xs then truthy_or_null (Some (xs ! i)) else JNull | _ \<Rightarrow> JNull)"

definition new_market :: "nat \<Rightarrow> json \<Rightarrow> string \<Rightarrow> string \<Rightarrow> string \<Rightarrow> string \<Rightarrow> string \<Rightarrow> pool_row" where
  "new_market now m i spine tx hash maker =
    \<lparr> pr_id = i, pr_maker_relay = ''cross-node:'' @ maker, pr_spine = spine, pr_spine_tx = tx, pr_meta_hash = hash,
      pr_oracles = map (nth_or_null (js_get m ''oracle_relay_pks'')) [0, 1, 2], pr_broker = member_or_null m ''broker_pk'', pr_maker = maker,
      pr_deadline = member_or_null m ''deadline'', pr_miner_fee = member_or_null m ''miner_fee'', pr_broker_pct = member_or_null m ''broker_fee_pct'',
      pr_bond = member_or_null m ''oracle_bond_amount'', pr_maker_stake = member_or_null m ''maker_stake_amount'',
      pr_source = member_or_null m ''outcome_market_source'', pr_condition = member_or_null m ''outcome_condition_id'',
      pr_token = member_or_null m ''outcome_token_id'', pr_side = member_or_null m ''outcome_side'',
      pr_rule = member_or_null m ''resolution_rule_spec'', pr_category = member_or_null m ''category'',
      pr_version = (if js_truthy (js_get m ''protocol_version'') then member_or_null m ''protocol_version'' else JStr ''v0.5''),
      pr_root = member_or_null m ''pool_merkle_root'', pr_deadline_daa = truthy_or_null (js_get m ''deadline_daa''),
      pr_metadata = JsonPayload (JObj ([(''cross_node_origin'', JBool True), (''source_tx'', member_or_null m ''_tx''),
         (''source_addr'', member_or_null m ''_from'')] @ (case js_get m ''published_at'' of Some v \<Rightarrow> [(''published_at'', v)] | None \<Rightarrow> []))),
      pr_status = ''pending_bettors'', pr_settle_tx = None, pr_refund_tx = None, pr_relays = JsonPayload (JArr []),
      pr_broker_relay = Some (''cross-node:'' @ maker), pr_sides_root = JStr [], pr_updated = now \<rparr>"

definition market_values :: "pool_row \<Rightarrow> json list" where
  "market_values r = pr_oracles r @ [pr_broker r, pr_deadline r, pr_miner_fee r, pr_broker_pct r, pr_bond r, pr_maker_stake r, pr_source r,
     pr_condition r, pr_token r, pr_side r, pr_rule r, pr_category r, pr_version r, pr_root r, pr_deadline_daa r]"

text \<open>What is checked before a published market is stored.\<close>

definition market_accepted :: "pool_env \<Rightarrow> json \<Rightarrow> pool_row option" where
  "market_accepted env m =
    (if \<not> (\<forall>k \<in> set market_required. has_member m k) then None
     else (case (text_field m ''market_id'', text_field m ''spine_p2sh'', text_field m ''market_metadata_hash'', text_field m ''maker_relay_pk'',
             text_field m ''spine_lock_tx'') of
       (Some i, Some spine, Some hash, Some maker, Some tx) \<Rightarrow>
         (let r = new_market (sql_now env) m i spine tx hash maker in
          if pe_sha256 env (meta_input (pr_source r) (pr_condition r) (pr_token r) (pr_side r) (pr_deadline r) (pr_rule r)) \<noteq> hash then None
          else if \<not> signed_by env m (toLowerCase maker) then None
          else (case pe_utxos env spine of None \<Rightarrow> None
            | Some txs \<Rightarrow> if tx \<notin> set txs \<or> \<not> list_all bindable (market_values r) then None else Some r))
     | _ \<Rightarrow> None))"

definition latest_view :: "pool_db \<Rightarrow> string \<Rightarrow> nat option" where
  "latest_view db merkle_root = (case filter (\<lambda>v. cv_root v = merkle_root) (sort_key cv_daa (pb_views db)) of [] \<Rightarrow> None
     | vs \<Rightarrow> if cv_daa (last vs) = 0 then None else Some (cv_daa (last vs)))"

definition bake_snapshot :: "pool_row \<Rightarrow> pool_db \<Rightarrow> pool_db" where
  "bake_snapshot r db = (if pr_version r \<notin> {JStr ''v0.6'', JStr ''v0.7''} then db
     else (case pr_root r of JStr rt \<Rightarrow>
         if rt = [] then db
         else (case ensurePoolSnapshot db (pr_id r) rt (latest_view db (toLowerCase rt)) of Inl _ \<Rightarrow> db | Inr db1 \<Rightarrow> db1)
       | _ \<Rightarrow> db))"

text \<open>Bets that were read before their market.\<close>

definition orphan_bets :: "pool_db \<Rightarrow> string \<Rightarrow> bmsg list" where
  "orphan_bets db i = sort_key bm_created (filter (\<lambda>b. bm_channel b = ''kanet-prediction''
     \<and> sql_like ''%pool_bet_registered_v1%'' (bm_content b) \<and> sql_like (like_member ''market_id'' i) (bm_content b)) (pb_messages db))"

text \<open>\<open>replay\<close> reads one stored broadcast again.\<close>

definition handlePoolMarketPublished :: "pool_env \<Rightarrow> (bmsg \<Rightarrow> pool_db \<Rightarrow> pool_db) \<Rightarrow> json \<Rightarrow> pool_db \<Rightarrow> pool_db" where
  "handlePoolMarketPublished env replay m db =
    (case market_accepted env m of None \<Rightarrow> db
     | Some r \<Rightarrow> if find_pool db (pr_id r) \<noteq> None then db
         else (let db1 = bake_snapshot r (db\<lparr> pb_markets := pb_markets db @ [r] \<rparr>) in fold replay (orphan_bets db1 (pr_id r)) db1))"

definition handlePoolMarketSettled :: "pool_env \<Rightarrow> json \<Rightarrow> pool_db \<Rightarrow> pool_db" where
  "handlePoolMarketSettled env m db =
    (if \<not> (\<forall>k \<in> set [''market_id'', ''settle_txid'', ''winner'']. has_member m k) then db
     else (case (text_field m ''market_id'', text_field m ''settle_txid'') of
       (Some i, Some tx) \<Rightarrow>
         (case find_pool db i of None \<Rightarrow> db
          | Some r \<Rightarrow> if pr_status r \<noteq> ''verifying'' \<and> pr_status r \<noteq> ''collecting_sigs'' then db
              else db\<lparr> pb_markets := update_where (\<lambda>q. pr_id q = i) (\<lambda>q. q\<lparr> pr_settle_tx := Some tx, pr_status := ''completed'', pr_updated := sql_now env \<rparr>) (pb_markets db) \<rparr>)
     | _ \<Rightarrow> db))"

subsection \<open>The block a bet was accepted in\<close>

definition CAPTURE_FINALITY_DEPTH :: nat where "CAPTURE_FINALITY_DEPTH = 50"
definition CAPTURE_MAX_STEPS :: nat where "CAPTURE_MAX_STEPS = 10000"

datatype capture = Captured nat | NoRpc | RpcFail | NoBlockHash | DaaUnresolved | NotFinal

datatype scan = Found dag_block | Lost | ScanFails

fun scan_back :: "pool_env \<Rightarrow> nat \<Rightarrow> string \<Rightarrow> string \<Rightarrow> scan" where
  "scan_back env 0 tx cursor = Lost"
| "scan_back env (Suc n) tx cursor = (case pe_block env cursor of None \<Rightarrow> ScanFails
     | Some b \<Rightarrow> if tx \<in> set (bd_txs b) then Found b
         else (case full (bd_parent b) of None \<Rightarrow> Lost | Some p \<Rightarrow> if p = replicate 64 (CHR ''0'') then Lost else scan_back env n tx p))"

text \<open>The index answers when it covers the hint; otherwise the walk starts at the tip.\<close>

definition resolveStartCursor :: "pool_env \<Rightarrow> pool_db \<Rightarrow> nat option \<Rightarrow> string option option" where
  "resolveStartCursor env db hint =
    (let at_tip = map_option fst (pe_tip env) in
     case hint of None \<Rightarrow> at_tip
     | Some d \<Rightarrow> (case sort_key fst (filter (\<lambda>(s, h). d \<le> s) (pb_daa_index db)) of
           (s, h) # _ \<Rightarrow> if h \<noteq> [] \<and> list_ex (\<lambda>(lo, hi). lo \<le> d \<and> d \<le> hi) (pb_coverage db) then Some (Some h) else at_tip
         | [] \<Rightarrow> at_tip))"

definition scanBackwardForTx :: "pool_env \<Rightarrow> pool_db \<Rightarrow> string \<Rightarrow> nat option \<Rightarrow> scan" where
  "scanBackwardForTx env db tx hint = (case resolveStartCursor env db hint of None \<Rightarrow> ScanFails
     | Some c \<Rightarrow> (case full c of None \<Rightarrow> Lost | Some h \<Rightarrow> scan_back env CAPTURE_MAX_STEPS tx h))"

definition captureSideLockDaa :: "pool_env \<Rightarrow> pool_db \<Rightarrow> string \<Rightarrow> nat option \<Rightarrow> capture" where
  "captureSideLockDaa env db tx hint =
    (if \<not> pe_rpc env then NoRpc
     else if \<not> pe_connect env then RpcFail
     else (let s = (case map_of (pb_txlog db) tx of
             Some (Some h) \<Rightarrow> if h = [] then scanBackwardForTx env db tx hint
               else (case pe_block env h of Some b \<Rightarrow> Found b | None \<Rightarrow> ScanFails)
           | _ \<Rightarrow> scanBackwardForTx env db tx hint) in
       case s of ScanFails \<Rightarrow> RpcFail | Lost \<Rightarrow> NoBlockHash
       | Found b \<Rightarrow> (case pe_tip env of None \<Rightarrow> RpcFail
           | Some (sink, tip) \<Rightarrow> (case bd_daa b of None \<Rightarrow> DaaUnresolved
               | Some d \<Rightarrow> if int tip - int d < int CAPTURE_FINALITY_DEPTH then NotFinal else Captured d))))"

subsection \<open>Bets\<close>

text \<open>\<open>BigInt(v)\<close>; \<open>None\<close> where it throws.\<close>

fun radix_val :: "nat \<Rightarrow> nat \<Rightarrow> string \<Rightarrow> nat option" where
  "radix_val b a [] = Some a"
| "radix_val b a (c # s) = (case hexval c of Some d \<Rightarrow> if d < b then radix_val b (b * a + d) s else None | None \<Rightarrow> None)"

definition big_text :: "string \<Rightarrow> int option" where
  "big_text s = (let t = strip s; p = toLowerCase (take 2 t); d = drop 2 t in
     if t = [] then Some 0
     else if p \<in> {''0x'', ''0o'', ''0b''} then (if d = [] then None
       else map_option int (radix_val (if p = ''0x'' then 16 else if p = ''0o'' then 8 else 2) 0 d))
     else (let (neg, r) = strip_sign t in if r = [] \<or> \<not> list_all digit_char r then None
       else Some (if neg then - int (str_val 0 r) else int (str_val 0 r))))"

definition js_BigInt :: "json option \<Rightarrow> int option" where
  "js_BigInt v = (case v of None \<Rightarrow> None | Some JNull \<Rightarrow> None | Some (JBool b) \<Rightarrow> Some (if b then 1 else 0) | Some (JInt i) \<Rightarrow> Some i
     | Some (JFrac t) \<Rightarrow> js_Integer v | Some (JStr s) \<Rightarrow> big_text s | Some (JArr xs) \<Rightarrow> big_text (js_String (JArr xs)) | Some (JObj _) \<Rightarrow> None)"

definition BETTOR_MIN_STAKE_POLICY_SOMPI :: int where "BETTOR_MIN_STAKE_POLICY_SOMPI = 100000000"

definition bet_required :: "string list" where
  "bet_required = [''market_id'', ''bettor_pk'', ''direction'', ''stake_amount'', ''side_p2sh'', ''side_lock_tx'']"

definition bet_args :: "pool_env \<Rightarrow> json \<Rightarrow> pool_row \<Rightarrow> ctor_args" where
  "bet_args env m r k = (if k = ''bettorPk'' then js_get m ''bettor_pk''
     else if k = ''spineP2shHash'' then Some (JStr (pe_sha256 env (pr_spine r)))
     else if k = ''poolMerkleRoot'' then Some (pr_root r)
     else if k = ''marketMetadataHash'' then Some (JStr (pr_meta_hash r))
     else if k = ''direction'' then js_get m ''direction''
     else if k = ''deadline'' then Some (pr_deadline r) else None)"

definition side_script :: "pool_env \<Rightarrow> json \<Rightarrow> pool_row \<Rightarrow> script option" where
  "side_script env m r = (let ver = (if js_truthy (js_get m ''protocol_version'') then member_or_null m ''protocol_version'' else pr_version r) in
     if ver = JStr ''v0.7'' then computeSideP2SH_v07 (pe_tools env) (bet_args env m r) (network_of (pr_spine r))
     else if ver = JStr ''v0.6'' then computeSideP2SH_v06 (pe_tools env) (bet_args env m r) (network_of (pr_spine r))
     else None)"

definition insert_bet :: "pool_bet \<Rightarrow> pool_db \<Rightarrow> pool_db" where
  "insert_bet b db = (if list_ex (\<lambda>q. br_tx q = br_tx b) (pb_bets db) \<or> \<not> list_all bindable [br_direction b, br_stake b, br_index b] then db
     else db\<lparr> pb_bets := pb_bets db @ [b] \<rparr>)"

definition handlePoolBetRegistered :: "pool_env \<Rightarrow> json \<Rightarrow> pool_db \<Rightarrow> pool_db" where
  "handlePoolBetRegistered env m db =
    (if \<not> (\<forall>k \<in> set bet_required. has_member m k) then db
     else (case (js_BigInt (js_get m ''stake_amount''), text_field m ''market_id'', text_field m ''bettor_pk'', text_field m ''side_p2sh'',
             text_field m ''side_lock_tx'') of
       (Some stake, Some i, Some bettor, Some side, Some tx) \<Rightarrow>
         if stake < BETTOR_MIN_STAKE_POLICY_SOMPI then db
         else if list_ex (\<lambda>q. br_tx q = tx) (pb_bets db) then db
         else (case find_pool db i of None \<Rightarrow> pool_out (CatchUp 24) db
         | Some r \<Rightarrow> (case side_script env m r of None \<Rightarrow> db
           | Some s \<Rightarrow>
             if sc_addr s \<noteq> side then db
             else (let cap = captureSideLockDaa env db tx None in
               if cap \<in> {NoRpc, RpcFail} then db
               else insert_bet \<lparr> br_market = i, br_bettor = bettor, br_direction = member_or_null m ''direction'',
                   br_stake = member_or_null m ''stake_amount'', br_side = side, br_tx = tx, br_index = truthy_or_null (js_get m ''merkle_index''),
                   br_redeem = sc_redeem s, br_daa = (case cap of Captured d \<Rightarrow> Some d | _ \<Rightarrow> None) \<rparr> db)))
     | _ \<Rightarrow> db))"

subsection \<open>The dispatcher\<close>

text \<open>The \<open>switch\<close> on the type of a message; a text that its chunks complete is a message of its own.\<close>

definition dispatch_inner :: "pool_env \<Rightarrow> (bmsg \<Rightarrow> pool_db \<Rightarrow> pool_db) \<Rightarrow> json \<Rightarrow> pool_db \<Rightarrow> pool_db" where
  "dispatch_inner env replay m db = (case text_field m ''t'' of None \<Rightarrow> db
     | Some t \<Rightarrow>
       if t = ''pool_market_published_v1'' then handlePoolMarketPublished env replay m db
       else if t = ''oracle_stake_enroll_v1'' then handleOracleStakeEnroll env m db
       else if t = ''oracle_stake_withdraw_v1'' then handleOracleStakeWithdraw env m db
       else if t = ''pool_oracle_vote_v1'' then handlePoolOracleVote env m db
       else if t = ''pool_bet_registered_v1'' then handlePoolBetRegistered env m db
       else if t = ''kanet_pool_oracle_tx_sign_req_v1'' then handlePoolOracleTxSignReq env m db
       else if t = ''kanet_pool_oracle_tx_sign_resp_v1'' then handlePoolOracleTxSignResp env m db
       else if t = ''pool_refund_request_v1'' then handlePoolRefundRequest env m db
       else db)"

definition copy_meta :: "json \<Rightarrow> json \<Rightarrow> json" where
  "copy_meta m inner = (case inner of JObj kvs \<Rightarrow> JObj (fold (\<lambda>k. map_set k (member_or_null m k)) [''_tx'', ''_from'', ''_channel'', ''_at''] kvs)
     | _ \<Rightarrow> inner)"

definition handlePoolMarketChunk :: "pool_env \<Rightarrow> (bmsg \<Rightarrow> pool_db \<Rightarrow> pool_db) \<Rightarrow> json \<Rightarrow> pool_db \<Rightarrow> pool_db" where
  "handlePoolMarketChunk env replay m db = (case handleChunk (pe_sha256 env) (pe_now env) m (pb_cache db) of
      (c, None) \<Rightarrow> db\<lparr> pb_cache := c \<rparr>
    | (c, Some t) \<Rightarrow> (case pe_parse env t of None \<Rightarrow> db\<lparr> pb_cache := c \<rparr>
        | Some inner \<Rightarrow> dispatch_inner env replay (copy_meta m inner) (db\<lparr> pb_cache := c \<rparr>)))"

definition dispatch_pool :: "pool_env \<Rightarrow> (bmsg \<Rightarrow> pool_db \<Rightarrow> pool_db) \<Rightarrow> json \<Rightarrow> pool_db \<Rightarrow> pool_db" where
  "dispatch_pool env replay m db = (case text_field m ''t'' of None \<Rightarrow> db
     | Some t \<Rightarrow>
       if t = ''pool_market_chunk_v1'' then handlePoolMarketChunk env replay m db
       else if t = ''pool_market_settled_v1'' then handlePoolMarketSettled env m db
       else if t = ''pool_refund_request_v1'' then db
       else dispatch_inner env replay m db)"

definition protocol_prefix :: "string \<Rightarrow> bool" where
  "protocol_prefix c = list_ex (\<lambda>p. take (length p) c = p)
     (map (\<lambda>n. CHR ''{'' # quoted ''t'' @ '':'' @ [CHR 0x22] @ n) [''kanet_'', ''pool_'', ''oracle_''])"

text \<open>\<open>onBroadcastWritten\<close>.  A published market makes the node read the bets that came before it again, which can be messages of any
  type; \<open>n\<close> bounds how deep such readings nest (every level stores a market that was missing).\<close>

fun onPoolBroadcast :: "pool_env \<Rightarrow> nat \<Rightarrow> bmsg \<Rightarrow> pool_db \<Rightarrow> pool_db" where
  "onPoolBroadcast env 0 b db = db"
| "onPoolBroadcast env (Suc n) b db =
    (if \<not> protocol_prefix (bm_content b) then db
     else (case pe_parse env (bm_content b) of None \<Rightarrow> db
       | Some m \<Rightarrow> dispatch_pool env (onPoolBroadcast env n) (attach env b m) db))"

subsection \<open>Markets that were missed\<close>

definition CATCHUP_THROTTLE_MS :: nat where "CATCHUP_THROTTLE_MS = 30000"

record catchup_state =
  cu_db :: pool_db
  cu_scanned :: nat
  cu_rebuilt :: nat

definition tryDispatch :: "pool_env \<Rightarrow> (bmsg \<Rightarrow> pool_db \<Rightarrow> pool_db) \<Rightarrow> json \<Rightarrow> bmsg \<Rightarrow> catchup_state \<Rightarrow> catchup_state" where
  "tryDispatch env replay inner b s =
    (case (text_field inner ''t'', full (text_field inner ''market_id'')) of
       (Some t, Some i) \<Rightarrow>
         if t \<noteq> ''pool_market_published_v1'' then s
         else if find_pool (cu_db s) i \<noteq> None then s\<lparr> cu_scanned := cu_scanned s + 1 \<rparr>
         else (let db1 = handlePoolMarketPublished env replay (attach env b inner) (cu_db s) in
           \<lparr> cu_db = db1, cu_scanned = cu_scanned s + 1, cu_rebuilt = cu_rebuilt s + (if find_pool db1 i \<noteq> None then 1 else 0) \<rparr>)
     | _ \<Rightarrow> s)"

fun dispatch_singles :: "pool_env \<Rightarrow> (bmsg \<Rightarrow> pool_db \<Rightarrow> pool_db) \<Rightarrow> bmsg list \<Rightarrow> catchup_state \<Rightarrow> catchup_state" where
  "dispatch_singles env replay [] s = s"
| "dispatch_singles env replay (b # bs) s = dispatch_singles env replay bs
     (case pe_parse env (bm_content b) of None \<Rightarrow> s | Some m \<Rightarrow> tryDispatch env replay m b s)"

text \<open>The stored chunks by their hash: the number the first chunk names, the parts, the first row.  Ordinals are not checked here.\<close>

record chunk_group =
  cg_total :: "int option"
  cg_parts :: "(rat option \<times> json option) list"
  cg_row :: bmsg

fun group_chunks :: "pool_env \<Rightarrow> bmsg list \<Rightarrow> (string \<times> chunk_group) list \<Rightarrow> (string \<times> chunk_group) list" where
  "group_chunks env [] g = g"
| "group_chunks env (b # bs) g = group_chunks env bs
     (case pe_parse env (bm_content b) of None \<Rightarrow> g
      | Some c \<Rightarrow> (case (text_field c ''t'', full (text_field c ''hash''), js_get c ''ord'') of
          (Some t, Some h, Some ord) \<Rightarrow>
            if t \<noteq> ''pool_market_chunk_v1'' \<or> \<not> js_truthy (js_get c ''total'') then g
            else (let e = (case map_of g h of Some e \<Rightarrow> e
                    | None \<Rightarrow> \<lparr> cg_total = js_Integer (js_get c ''total''), cg_parts = [], cg_row = b \<rparr>) in
              map_set h (e\<lparr> cg_parts := map_set (js_Number (Some ord)) (js_get c ''data'') (cg_parts e) \<rparr>) g)
        | _ \<Rightarrow> g))"

definition join_group :: "chunk_group \<Rightarrow> string option" where
  "join_group e = (case cg_total e of None \<Rightarrow> None
     | Some n \<Rightarrow> if int (length (cg_parts e)) < n then None
         else map_option concat (those (map (\<lambda>i. case map_of (cg_parts e) (Some (of_nat i)) of Some (Some v) \<Rightarrow> Some (join_text v) | _ \<Rightarrow> None) [0..<nat n])))"

fun dispatch_groups :: "pool_env \<Rightarrow> (bmsg \<Rightarrow> pool_db \<Rightarrow> pool_db) \<Rightarrow> (string \<times> chunk_group) list \<Rightarrow> catchup_state \<Rightarrow> catchup_state" where
  "dispatch_groups env replay [] s = s"
| "dispatch_groups env replay ((h, e) # gs) s = dispatch_groups env replay gs
     (case join_group e of None \<Rightarrow> s
      | Some t \<Rightarrow> if pe_sha256 env t \<noteq> h then s
          else (case pe_parse env t of None \<Rightarrow> s | Some m \<Rightarrow> tryDispatch env replay m (cg_row e) s))"

definition prediction_rows :: "pool_db \<Rightarrow> string \<Rightarrow> nat \<Rightarrow> bmsg list" where
  "prediction_rows db p since = filter (\<lambda>b. bm_channel b = ''kanet-prediction'' \<and> sql_like p (bm_content b) \<and> since < bm_created b) (pb_messages db)"

definition catchUpUningestedMarkets :: "pool_env \<Rightarrow> (bmsg \<Rightarrow> pool_db \<Rightarrow> pool_db) \<Rightarrow> nat \<Rightarrow> bool \<Rightarrow> pool_db \<Rightarrow> catchup_state" where
  "catchUpUningestedMarkets env replay windowHours force db =
    (if \<not> force \<and> pe_now env < pb_catchup db + CATCHUP_THROTTLE_MS then \<lparr> cu_db = db, cu_scanned = 0, cu_rebuilt = 0 \<rparr>
     else (let since = pe_now env - windowHours * 3600 * 1000; db1 = db\<lparr> pb_catchup := pe_now env \<rparr>;
               singles = rev (sort_key bm_created (filter (\<lambda>b. \<not> sql_like ''%pool_market_chunk%'' (bm_content b))
                 (prediction_rows db1 ''%pool_market_published_v1%'' since)));
               s1 = dispatch_singles env replay singles \<lparr> cu_db = db1, cu_scanned = 0, cu_rebuilt = 0 \<rparr>;
               chunks = sort_key bm_created (prediction_rows (cu_db s1) ''%pool_market_chunk_v1%'' since)
           in dispatch_groups env replay (group_chunks env chunks []) s1))"

end
