(* ===== verification/Pool_Safety.thy ===== *)
theory Pool_Safety
  imports Pool_Ingest Status_Machine
begin

section \<open>What the messages of a pool can do\<close>

text \<open>
  What reading broadcasts does to the tables of a node: the relation \<open>grows\<close> holds for every handler, for reading again and
  for the search for missed markets, and it is transitive.  It says that markets keep their terms and bets stay, and that every
  new market, vote and enrollment was checked.
\<close>

named_theorems grow_intros

subsection \<open>Growth\<close>

definition pool_terms :: "pool_row \<Rightarrow> pool_row" where
  "pool_terms r = r\<lparr> pr_status := [], pr_settle_tx := None, pr_refund_tx := None, pr_relays := NoPayload, pr_sides_root := JNull, pr_updated := 0, pr_metadata := NoPayload \<rparr>"

definition market_edge :: "string \<Rightarrow> string \<Rightarrow> bool" where
  "market_edge s t \<longleftrightarrow> s \<in> {''verifying'', ''collecting_sigs''} \<and> t = ''completed''"

text \<open>What a broadcast does to the row of a market.\<close>

definition row_step :: "pool_row \<Rightarrow> pool_row \<Rightarrow> bool" where
  "row_step r r' \<longleftrightarrow> pr_status r \<in> {''verifying'', ''collecting_sigs''}
     \<and> (\<exists>tx now. r' = r\<lparr> pr_settle_tx := Some tx, pr_status := ''completed'', pr_updated := now \<rparr>)"

definition vote_ok :: "pool_env \<Rightarrow> pool_db \<Rightarrow> chain_event \<Rightarrow> bool" where
  "vote_ok env db e \<longleftrightarrow> (\<exists>m i r. ev_payload e = JsonPayload m \<and> text_field m ''market_id'' = Some i \<and> find_pool db i = Some r
     \<and> lower_member m ''voter_pubkey'' \<in> set (assigned_pks db r) \<and> signed_by env m (js_String (member_or_null m ''voter_pubkey'')))"

definition event_ok :: "pool_env \<Rightarrow> pool_db \<Rightarrow> chain_event \<Rightarrow> bool" where
  "event_ok env db e \<longleftrightarrow> (ev_type e = ''pool_oracle_vote'' \<longrightarrow> vote_ok env db e)"

definition grows :: "pool_env \<Rightarrow> pool_db \<Rightarrow> pool_db \<Rightarrow> bool" where
  "grows env db db' \<longleftrightarrow>
     (\<forall>i r. find_pool db i = Some r \<longrightarrow> (\<exists>r'. find_pool db' i = Some r' \<and> pool_terms r' = pool_terms r \<and> market_edge\<^sup>*\<^sup>* (pr_status r) (pr_status r')))
   \<and> (\<forall>r' \<in> set (pb_markets db'). (\<exists>r \<in> set (pb_markets db). pool_terms r' = pool_terms r)
        \<or> (\<exists>m r. market_accepted env m = Some r \<and> pool_terms r' = pool_terms r))
   \<and> (distinct (map pr_id (pb_markets db)) \<longrightarrow>
        (\<forall>r' \<in> set (pb_markets db'). (\<exists>r \<in> set (pb_markets db). row_step\<^sup>*\<^sup>* r r') \<or> (\<exists>m. market_accepted env m = Some r')))
   \<and> (distinct (map pr_id (pb_markets db)) \<longrightarrow> distinct (map pr_id (pb_markets db')))
   \<and> set (pb_bets db) \<subseteq> set (pb_bets db') \<and> (distinct (map br_tx (pb_bets db)) \<longrightarrow> distinct (map br_tx (pb_bets db')))
   \<and> pb_committee db' = pb_committee db
   \<and> (\<forall>e \<in> set (pb_events db'). e \<in> set (pb_events db) \<or> event_ok env db' e)
   \<and> (\<forall>e \<in> set (pb_enroll db'). e \<in> set (pb_enroll db) \<or> (\<exists>m. signed_by env m (er_pk e)))"

lemma pool_terms_simps:
  "pool_terms r' = pool_terms r \<Longrightarrow> pr_id r' = pr_id r \<and> pr_version r' = pr_version r \<and> pr_oracles r' = pr_oracles r"
  by (metis pool_row.select_convs pool_row.update_convs pool_terms_def pool_row.surjective)

lemma assigned_terms: "pool_terms r' = pool_terms r \<Longrightarrow> pb_committee db' = pb_committee db \<Longrightarrow> assigned_pks db' r' = assigned_pks db r"
  using pool_terms_simps [of r' r] by (simp add: assigned_pks_def committee_pks_def)

lemma event_ok_mono:
  assumes "event_ok env db e" "pb_committee db' = pb_committee db"
    and "\<And>i r. find_pool db i = Some r \<Longrightarrow> \<exists>r'. find_pool db' i = Some r' \<and> pool_terms r' = pool_terms r"
  shows "event_ok env db' e"
proof -
  have "vote_ok env db' e" if v: "vote_ok env db e"
  proof -
    obtain m i r where m: "ev_payload e = JsonPayload m" "text_field m ''market_id'' = Some i" "find_pool db i = Some r"
      "lower_member m ''voter_pubkey'' \<in> set (assigned_pks db r)" "signed_by env m (js_String (member_or_null m ''voter_pubkey''))"
      using v unfolding vote_ok_def by blast
    obtain r' where r': "find_pool db' i = Some r'" "pool_terms r' = pool_terms r" using assms(3) [OF m(3)] by blast
    then show ?thesis unfolding vote_ok_def using m assigned_terms [OF r'(2) assms(2)] by auto
  qed
  then show ?thesis using assms(1) by (simp add: event_ok_def)
qed

lemma accepted_stays: "market_accepted env m = Some r \<Longrightarrow> row_step\<^sup>*\<^sup>* r r' \<Longrightarrow> r' = r"
proof (erule converse_rtranclpE)
  fix y assume "market_accepted env m = Some r" "row_step r y"
  moreover have "pr_status r = ''pending_bettors''" if "market_accepted env m = Some r"
    using that by (auto simp: market_accepted_def new_market_def Let_def split: if_splits option.splits)
  ultimately show "r' = r" by (simp add: row_step_def)
qed simp

lemma grows_trans:
  assumes "grows env a b" "grows env b c"
  shows "grows env a c"
proof -
  have m1: "\<exists>r'. find_pool c i = Some r' \<and> pool_terms r' = pool_terms r \<and> market_edge\<^sup>*\<^sup>* (pr_status r) (pr_status r')"
    if r: "find_pool a i = Some r" for i r
  proof -
    obtain r1 where r1: "find_pool b i = Some r1" "pool_terms r1 = pool_terms r" "market_edge\<^sup>*\<^sup>* (pr_status r) (pr_status r1)"
      using assms(1) r unfolding grows_def by blast
    obtain r2 where "find_pool c i = Some r2" "pool_terms r2 = pool_terms r1" "market_edge\<^sup>*\<^sup>* (pr_status r1) (pr_status r2)"
      using assms(2) r1(1) unfolding grows_def by blast
    then show ?thesis using r1 rtranclp_trans by metis
  qed
  have m2: "(\<exists>r \<in> set (pb_markets a). pool_terms r' = pool_terms r) \<or> (\<exists>m r. market_accepted env m = Some r \<and> pool_terms r' = pool_terms r)"
    if "r' \<in> set (pb_markets c)" for r'
    using assms that unfolding grows_def by metis
  have m3: "(\<exists>r \<in> set (pb_markets a). row_step\<^sup>*\<^sup>* r r') \<or> (\<exists>m. market_accepted env m = Some r')" if c: "r' \<in> set (pb_markets c)" and d: "distinct (map pr_id (pb_markets a))" for r'
  proof -
    have "distinct (map pr_id (pb_markets b))" using assms(1) d unfolding grows_def by blast
    then consider r where "r \<in> set (pb_markets b)" "row_step\<^sup>*\<^sup>* r r'" | m where "market_accepted env m = Some r'"
      using assms(2) c unfolding grows_def by blast
    then show ?thesis
    proof cases
      case 1
      then consider q where "q \<in> set (pb_markets a)" "row_step\<^sup>*\<^sup>* q r" | m where "market_accepted env m = Some r"
        using assms(1) d unfolding grows_def by blast
      then show ?thesis
      proof cases
        case (1 q)
        then show ?thesis using \<open>row_step\<^sup>*\<^sup>* r r'\<close> rtranclp_trans by metis
      next
        case (2 m)
        then show ?thesis using accepted_stays [OF _ \<open>row_step\<^sup>*\<^sup>* r r'\<close>] by blast
      qed
    qed blast
  qed
  have com: "pb_committee c = pb_committee b" "pb_committee b = pb_committee a" using assms unfolding grows_def by blast+
  have ev: "e \<in> set (pb_events a) \<or> event_ok env c e" if e: "e \<in> set (pb_events c)" for e
  proof -
    have "e \<in> set (pb_events a) \<or> event_ok env b e \<or> event_ok env c e" using assms e unfolding grows_def by blast
    moreover have "event_ok env c e" if "event_ok env b e"
      by (rule event_ok_mono [OF that com(1)]) (use assms(2) in \<open>unfold grows_def, blast\<close>)
    ultimately show ?thesis by blast
  qed
  have en: "e \<in> set (pb_enroll a) \<or> (\<exists>m. signed_by env m (er_pk e))" if "e \<in> set (pb_enroll c)" for e
    using assms that unfolding grows_def by blast
  have rest: "distinct (map pr_id (pb_markets a)) \<longrightarrow> distinct (map pr_id (pb_markets c))" "set (pb_bets a) \<subseteq> set (pb_bets c)"
    "distinct (map br_tx (pb_bets a)) \<longrightarrow> distinct (map br_tx (pb_bets c))"
    using assms unfolding grows_def by blast+
  show ?thesis unfolding grows_def using m1 m2 m3 rest com ev en by auto
qed

lemma grows_same:
  assumes "pb_markets db' = pb_markets db" "pb_bets db' = pb_bets db" "pb_committee db' = pb_committee db" "pb_events db' = pb_events db"
    "pb_enroll db' = pb_enroll db"
  shows "grows env db db'"
  unfolding grows_def find_pool_def assms by auto

lemma grows_refl [grow_intros]: "grows env db db"
  by (rule grows_same) simp_all

subsection \<open>One write\<close>

lemma branch_grows:
  "(c \<Longrightarrow> grows env a x) \<Longrightarrow> (\<not> c \<Longrightarrow> grows env a y) \<Longrightarrow> grows env a (if c then x else y)"
  "(z = None \<Longrightarrow> grows env a x) \<Longrightarrow> (\<And>v. z = Some v \<Longrightarrow> grows env a (f v)) \<Longrightarrow> grows env a (case z of None \<Rightarrow> x | Some v \<Rightarrow> f v)"
  by (simp_all split: option.split)

lemma out_grows [grow_intros]: "grows env db (pool_out c db)"
  by (rule grows_same) (simp_all add: pool_out_def)

lemma event_grows:
  assumes "type = ''pool_oracle_vote'' \<Longrightarrow> \<exists>i r. text_field m ''market_id'' = Some i \<and> find_pool db i = Some r
     \<and> lower_member m ''voter_pubkey'' \<in> set (assigned_pks db r) \<and> signed_by env m (js_String (member_or_null m ''voter_pubkey''))"
  shows "grows env db (ingest_event env m type receiver db)"
proof -
  have f: "find_pool (ingest_event env m type receiver db) = find_pool db" "pb_markets (ingest_event env m type receiver db) = pb_markets db"
    "pb_bets (ingest_event env m type receiver db) = pb_bets db" "pb_committee (ingest_event env m type receiver db) = pb_committee db"
    "pb_enroll (ingest_event env m type receiver db) = pb_enroll db"
    by (auto simp: ingest_event_def find_pool_def fun_eq_iff split: option.split)
  have "assigned_pks (ingest_event env m type receiver db) r = assigned_pks db r" for r
    by (rule assigned_terms) (simp_all add: f)
  then have ok: "event_ok env (ingest_event env m type receiver db) e" if "ev_type e = type" "ev_payload e = JsonPayload m" for e
    using that assms unfolding event_ok_def vote_ok_def f by auto
  have "e \<in> set (pb_events db) \<or> (ev_type e = type \<and> ev_payload e = JsonPayload m)"
    if "e \<in> set (pb_events (ingest_event env m type receiver db))" for e
    using that by (auto simp: ingest_event_def split: option.splits if_splits)
  then show ?thesis unfolding grows_def f using ok by blast
qed

lemma plain_event_grows [grow_intros]: "type \<noteq> ''pool_oracle_vote'' \<Longrightarrow> grows env db (ingest_event env m type receiver db)"
  by (rule event_grows) simp

lemma bet_grows [grow_intros]: "grows env db (insert_bet b db)"
proof -
  have f: "find_pool (insert_bet b db) = find_pool db" "pb_markets (insert_bet b db) = pb_markets db" "pb_committee (insert_bet b db) = pb_committee db"
    "pb_events (insert_bet b db) = pb_events db" "pb_enroll (insert_bet b db) = pb_enroll db"
    by (simp_all add: insert_bet_def find_pool_def fun_eq_iff)
  have "set (pb_bets db) \<subseteq> set (pb_bets (insert_bet b db))" by (auto simp: insert_bet_def)
  moreover have "distinct (map br_tx (pb_bets db)) \<longrightarrow> distinct (map br_tx (pb_bets (insert_bet b db)))"
    by (auto simp: insert_bet_def list_ex_iff)
  ultimately show ?thesis unfolding grows_def f by blast
qed

lemma markets_grow:
  assumes "\<And>i q. find_pool db i = Some q \<Longrightarrow> \<exists>r'. find_pool (db\<lparr> pb_markets := rows \<rparr>) i = Some r' \<and> pool_terms r' = pool_terms q
       \<and> market_edge\<^sup>*\<^sup>* (pr_status q) (pr_status r')"
    and "\<And>r'. r' \<in> set rows \<Longrightarrow> (\<exists>r \<in> set (pb_markets db). pool_terms r' = pool_terms r) \<or> (\<exists>m r. market_accepted env m = Some r \<and> pool_terms r' = pool_terms r)"
    and "distinct (map pr_id (pb_markets db)) \<Longrightarrow> distinct (map pr_id rows)"
    and "\<And>r'. distinct (map pr_id (pb_markets db)) \<Longrightarrow> r' \<in> set rows \<Longrightarrow> (\<exists>r \<in> set (pb_markets db). row_step\<^sup>*\<^sup>* r r') \<or> (\<exists>m. market_accepted env m = Some r')"
  shows "grows env db (db\<lparr> pb_markets := rows \<rparr>)"
proof -
  have f: "pb_markets (db\<lparr> pb_markets := rows \<rparr>) = rows" "pb_bets (db\<lparr> pb_markets := rows \<rparr>) = pb_bets db"
    "pb_committee (db\<lparr> pb_markets := rows \<rparr>) = pb_committee db" "pb_events (db\<lparr> pb_markets := rows \<rparr>) = pb_events db"
    "pb_enroll (db\<lparr> pb_markets := rows \<rparr>) = pb_enroll db" by simp_all
  show ?thesis unfolding grows_def f using assms by blast
qed

lemma market_grows:
  assumes "market_accepted env m = Some r" "find_pool db (pr_id r) = None"
  shows "grows env db (db\<lparr> pb_markets := pb_markets db @ [r] \<rparr>)"
proof -
  have f: "find_pool (db\<lparr> pb_markets := pb_markets db @ [r] \<rparr>) i = (case find_pool db i of Some q \<Rightarrow> Some q | None \<Rightarrow> if pr_id r = i then Some r else None)" for i
    by (simp add: find_pool_def find_append split: option.split)
  have new: "pr_id r \<notin> pr_id ` set (pb_markets db)" using assms(2) by (auto simp: find_pool_def find_None_iff)
  have "\<exists>r'. find_pool (db\<lparr> pb_markets := pb_markets db @ [r] \<rparr>) i = Some r' \<and> pool_terms r' = pool_terms q \<and> market_edge\<^sup>*\<^sup>* (pr_status q) (pr_status r')"
    if "find_pool db i = Some q" for i q
    using that f by simp
  then show ?thesis by (rule markets_grow) (use assms(1) new in auto)
qed

lemma settle_grows_aux:
  assumes "find_pool db i = Some r" "market_edge (pr_status r) (pr_status (g r))" "\<And>q. pool_terms (g q) = pool_terms q" "\<And>q. pr_id (g q) = pr_id q"
    and "row_step r (g r)"
  shows "grows env db (db\<lparr> pb_markets := update_where (\<lambda>q. pr_id q = i) g (pb_markets db) \<rparr>)"
proof (rule markets_grow)
  fix j q assume q: "find_pool db j = Some q"
  have f: "find_pool (db\<lparr> pb_markets := update_where (\<lambda>q. pr_id q = i) g (pb_markets db) \<rparr>) j
      = map_option (\<lambda>q. if pr_id q = i then g q else q) (find_pool db j)"
  proof -
    have rows: "pb_markets (db\<lparr> pb_markets := update_where (\<lambda>q. pr_id q = i) g (pb_markets db) \<rparr>) = update_where (\<lambda>q. pr_id q = i) g (pb_markets db)"
      by simp
    show ?thesis unfolding find_pool_def rows by (rule find_update_where [where p = "\<lambda>q. pr_id q = i" and key = pr_id and f = g and k = j]) (rule assms(4))
  qed
  have j: "pr_id q = j" using find_key_Some [of pr_id j "pb_markets db" q] q unfolding find_pool_def by blast
  show "\<exists>r'. find_pool (db\<lparr> pb_markets := update_where (\<lambda>q. pr_id q = i) g (pb_markets db) \<rparr>) j = Some r' \<and> pool_terms r' = pool_terms q
      \<and> market_edge\<^sup>*\<^sup>* (pr_status q) (pr_status r')"
  proof (cases "j = i")
    case True
    then have "q = r" using q assms(1) by (simp only: option.inject)
    have "find_pool (db\<lparr> pb_markets := update_where (\<lambda>q. pr_id q = i) g (pb_markets db) \<rparr>) j = Some (g q)"
      unfolding f q option.map j if_P [OF True] by (rule refl)
    moreover have "market_edge\<^sup>*\<^sup>* (pr_status q) (pr_status (g q))" using r_into_rtranclp [of market_edge, OF assms(2)] \<open>q = r\<close> by (simp only:)
    ultimately show ?thesis using assms(3) by blast
  next
    case False
    have "find_pool (db\<lparr> pb_markets := update_where (\<lambda>q. pr_id q = i) g (pb_markets db) \<rparr>) j = Some q"
      unfolding f q option.map j if_not_P [OF False] by (rule refl)
    then show ?thesis by blast
  qed
next
  fix r' assume "r' \<in> set (update_where (\<lambda>q. pr_id q = i) g (pb_markets db))"
  then obtain q where "q \<in> set (pb_markets db)" "r' = (if pr_id q = i then g q else q)" unfolding set_update_where by blast
  then have "q \<in> set (pb_markets db) \<and> pool_terms r' = pool_terms q" using assms(3) by (simp only: if_split) blast
  then show "(\<exists>r \<in> set (pb_markets db). pool_terms r' = pool_terms r) \<or> (\<exists>m r. market_accepted env m = Some r \<and> pool_terms r' = pool_terms r)" by blast
next
  have "map pr_id (update_where (\<lambda>q. pr_id q = i) g (pb_markets db)) = map pr_id (pb_markets db)" by (rule map_update_where) (rule assms(4))
  then show "distinct (map pr_id (pb_markets db)) \<Longrightarrow> distinct (map pr_id (update_where (\<lambda>q. pr_id q = i) g (pb_markets db)))" by simp
next
  fix r' assume d: "distinct (map pr_id (pb_markets db))" and "r' \<in> set (update_where (\<lambda>q. pr_id q = i) g (pb_markets db))"
  then obtain q where q: "q \<in> set (pb_markets db)" "r' = (if pr_id q = i then g q else q)" unfolding set_update_where by blast
  have "q = r" if "pr_id q = i" using find_key_unique [OF d q(1) that] assms(1) unfolding find_pool_def by simp
  then have "row_step\<^sup>*\<^sup>* q r'" unfolding q(2) using assms(5) by auto
  then show "(\<exists>r \<in> set (pb_markets db). row_step\<^sup>*\<^sup>* r r') \<or> (\<exists>m. market_accepted env m = Some r')" using q(1) by blast
qed

lemma settle_grows:
  assumes "find_pool db i = Some r" "pr_status r = ''verifying'' \<or> pr_status r = ''collecting_sigs''"
  shows "grows env db (db\<lparr> pb_markets := update_where (\<lambda>q. pr_id q = i) (\<lambda>q. q\<lparr> pr_settle_tx := Some tx, pr_status := ''completed'', pr_updated := now \<rparr>) (pb_markets db) \<rparr>)"
  by (rule settle_grows_aux [OF assms(1)]) (use assms(2) in \<open>auto simp: market_edge_def pool_terms_def row_step_def\<close>)

lemma enroll_grows:
  assumes "\<And>e. e \<in> set rows \<Longrightarrow> e \<in> set (pb_enroll db) \<or> (\<exists>m. signed_by env m (er_pk e))"
  shows "grows env db (db\<lparr> pb_enroll := rows \<rparr>)"
proof -
  have "find_pool (db\<lparr> pb_enroll := rows \<rparr>) = find_pool db" by (simp add: find_pool_def fun_eq_iff)
  then show ?thesis unfolding grows_def using assms by auto
qed

subsection \<open>Handlers\<close>

lemma refund_grows [grow_intros]: "grows env db (handlePoolRefundRequest env m db)"
  unfolding handlePoolRefundRequest_def by (rule branch_grows grow_intros)+

lemma vote_grows [grow_intros]: "grows env db (handlePoolOracleVote env m db)"
  unfolding handlePoolOracleVote_def
  by (rule branch_grows out_grows grows_refl event_grows | blast)+

lemma resp_grows [grow_intros]: "grows env db (handlePoolOracleTxSignResp env m db)"
  unfolding handlePoolOracleTxSignResp_def by (rule branch_grows grow_intros | simp)+

lemma sign_inputs_grows: "grows env db (sign_inputs env i x w o' pk ks db)"
proof (induction ks arbitrary: db)
  case (Cons k ks)
  show ?case unfolding sign_inputs.simps by (rule grows_trans [OF _ Cons.IH]) (rule branch_grows grow_intros)+
qed (simp add: grows_refl)

lemma sign_oracles_grows: "grows env db (sign_oracles env i x m os db)"
proof (induction os arbitrary: db)
  case (Cons o' os)
  show ?case unfolding sign_oracles.simps Let_def
    by (rule grows_trans [OF _ Cons.IH]) (rule branch_grows grow_intros sign_inputs_grows)+
qed (simp add: grows_refl)

lemma req_grows [grow_intros]: "grows env db (handlePoolOracleTxSignReq env m db)"
  unfolding handlePoolOracleTxSignReq_def Let_def by (rule branch_grows grow_intros sign_oracles_grows)+

lemma upsert_grows:
  assumes "signed_by env m pk"
  shows "grows env db (upsert_enrollment pk lock s relay db)"
  unfolding upsert_enrollment_def
  by (intro branch_grows enroll_grows) (use assms in \<open>auto simp: set_update_where\<close>)

lemma enroll_message_grows [grow_intros]: "grows env db (handleOracleStakeEnroll env m db)"
proof -
  have "grows env db (upsert_enrollment pk lock s relay (ingest_event env m ''oracle_stake_enroll'' a db))" if "signed_by env m pk" for pk lock s relay a
    using grows_trans [OF plain_event_grows upsert_grows [OF that]] by simp
  then show ?thesis unfolding handleOracleStakeEnroll_def Let_def
    by (auto simp: grows_refl split: option.split prod.split)
qed

lemma withdraw_grows [grow_intros]: "grows env db (handleOracleStakeWithdraw env m db)"
proof -
  define pk where "pk = toLowerCase (js_String (member_or_null m ''staker_pk_x''))"
  define db1 where "db1 = ingest_event env m ''oracle_stake_withdraw'' None db"
  have "grows env db (db1\<lparr> pb_enroll := update_where (\<lambda>r. er_pk r = pk) (\<lambda>r. r\<lparr> er_active := False \<rparr>) (pb_enroll db1) \<rparr>)" if "signed_by env m pk"
  proof (rule grows_trans)
    show "grows env db db1" by (simp add: db1_def plain_event_grows)
    show "grows env db1 (db1\<lparr> pb_enroll := update_where (\<lambda>r. er_pk r = pk) (\<lambda>r. r\<lparr> er_active := False \<rparr>) (pb_enroll db1) \<rparr>)"
      by (rule enroll_grows) (use that in \<open>auto simp: set_update_where\<close>)
  qed
  then show ?thesis unfolding handleOracleStakeWithdraw_def pk_def [symmetric] db1_def [symmetric] Let_def by (auto simp: grows_refl)
qed

lemma settled_grows [grow_intros]: "grows env db (handlePoolMarketSettled env' m db)"
  unfolding handlePoolMarketSettled_def
  by (auto simp: grows_refl settle_grows split: option.split)

lemma bet_message_grows [grow_intros]: "grows env db (handlePoolBetRegistered env m db)"
  unfolding handlePoolBetRegistered_def Let_def by (auto simp: grows_refl bet_grows out_grows split: option.split)

subsection \<open>Reading again\<close>

text \<open>The contract of the reader that a published market calls.\<close>

locale pool_reader =
  fixes env :: pool_env and replay :: "bmsg \<Rightarrow> pool_db \<Rightarrow> pool_db"
  assumes replay_grows: "grows env db (replay b db)"
begin

lemma fold_grows: "grows env db (fold replay bs db)"
proof (induction bs arbitrary: db)
  case (Cons b bs)
  show ?case using grows_trans [OF replay_grows Cons.IH] by simp
qed (simp add: grows_refl)

lemma published_grows: "grows env db (handlePoolMarketPublished env replay m db)"
proof -
  have "grows env db (fold replay bs (bake_snapshot r (db\<lparr> pb_markets := pb_markets db @ [r] \<rparr>)))"
    if "market_accepted env m = Some r" "find_pool db (pr_id r) = None" for r bs
  proof -
    have "grows env d (bake_snapshot r d)" for d
      by (rule grows_same) (auto simp: bake_snapshot_def ensurePoolSnapshot_def Let_def split: json.split sum.split option.split)
    then show ?thesis using grows_trans [OF market_grows [OF that]] grows_trans fold_grows by blast
  qed
  then show ?thesis unfolding handlePoolMarketPublished_def Let_def by (auto simp: grows_refl split: option.split)
qed

lemma inner_grows: "grows env db (dispatch_inner env replay m db)"
  unfolding dispatch_inner_def by (rule branch_grows grow_intros published_grows)+

lemma chunk_grows: "grows env db (handlePoolMarketChunk env replay m db)"
proof -
  have c: "grows env db (db\<lparr> pb_cache := c \<rparr>)" for c by (rule grows_same) simp_all
  then have "grows env db (dispatch_inner env replay x (db\<lparr> pb_cache := c \<rparr>))" for x c using grows_trans inner_grows by blast
  then show ?thesis unfolding handlePoolMarketChunk_def using c by (auto split: prod.split option.split)
qed

lemma dispatch_grows: "grows env db (dispatch_pool env replay m db)"
  unfolding dispatch_pool_def by (rule branch_grows grow_intros chunk_grows inner_grows)+

lemma try_grows: "grows env (cu_db s) (cu_db (tryDispatch env replay m b s))"
  unfolding tryDispatch_def Let_def using published_grows by (auto simp: grows_refl split: option.split)

lemma singles_grows: "grows env (cu_db s) (cu_db (dispatch_singles env replay bs s))"
proof (induction bs arbitrary: s)
  case (Cons b bs)
  show ?case using grows_trans [OF try_grows Cons.IH] Cons.IH by (simp split: option.split)
qed (simp add: grows_refl)

lemma groups_grows: "grows env (cu_db s) (cu_db (dispatch_groups env replay gs s))"
proof (induction gs arbitrary: s)
  case (Cons g gs)
  obtain h e where g: "g = (h, e)" by fastforce
  show ?case unfolding g dispatch_groups.simps using grows_trans [OF try_grows Cons.IH] Cons.IH by (auto split: option.split)
qed (simp add: grows_refl)

lemma catch_up_grows: "grows env db (cu_db (catchUpUningestedMarkets env replay w force db))"
proof -
  have c: "grows env db (db\<lparr> pb_catchup := c \<rparr>)" for c by (rule grows_same) simp_all
  have s: "grows env db (cu_db (dispatch_singles env replay bs \<lparr> cu_db = db\<lparr> pb_catchup := c \<rparr>, cu_scanned = 0, cu_rebuilt = 0 \<rparr>))" for bs c
    using grows_trans [OF c singles_grows [of "\<lparr> cu_db = db\<lparr> pb_catchup := c \<rparr>, cu_scanned = 0, cu_rebuilt = 0 \<rparr>", simplified]] .
  show ?thesis unfolding catchUpUningestedMarkets_def Let_def
    using grows_trans [OF s groups_grows] by (simp add: grows_refl)
qed

end

lemma broadcast_grows: "grows env db (onPoolBroadcast env n b db)"
proof (induction n arbitrary: b db)
  case (Suc n)
  then have "pool_reader env (onPoolBroadcast env n)" by unfold_locales
  then show ?case unfolding onPoolBroadcast.simps
    by (intro branch_grows grows_refl) (rule pool_reader.dispatch_grows)
qed (simp add: grows_refl)

interpretation reader: pool_reader env "onPoolBroadcast env n"
  by unfold_locales (rule broadcast_grows)

end
