(* ===== verification/Pool_Claims.thy ===== *)
theory Pool_Claims
  imports Pool_Safety
begin

section \<open>Properties of the pool messages\<close>

text \<open>
  Histories of a node that reads pool broadcasts, and what holds in all of them: markets keep their terms, which their hash fixes;
  bets stay; new markets, votes and enrollments were signed; the block of a bet is final.  The last part shows what the handlers
  do not check.
\<close>

subsection \<open>What was checked\<close>

definition meta_bound :: "(string \<Rightarrow> string) \<Rightarrow> pool_row \<Rightarrow> bool" where
  "meta_bound S r \<longleftrightarrow> S (meta_input (pr_source r) (pr_condition r) (pr_token r) (pr_side r) (pr_deadline r) (pr_rule r)) = pr_meta_hash r"

lemma accepted_checks:
  assumes "market_accepted env m = Some r"
  shows "meta_bound (pe_sha256 env) r \<and> signed_by env m (toLowerCase (pr_maker r)) \<and> (\<exists>txs. pe_utxos env (pr_spine r) = Some txs \<and> pr_spine_tx r \<in> set txs)"
proof -
  obtain i spine hash maker tx where f: "text_field m ''market_id'' = Some i" "text_field m ''spine_p2sh'' = Some spine"
    "text_field m ''market_metadata_hash'' = Some hash" "text_field m ''maker_relay_pk'' = Some maker" "text_field m ''spine_lock_tx'' = Some tx"
    using assms by (auto simp: market_accepted_def split: if_splits option.splits)
  define q where "q = new_market (sql_now env) m i spine tx hash maker"
  have q: "pr_meta_hash q = hash" "pr_maker q = maker" "pr_spine q = spine" "pr_spine_tx q = tx" by (simp_all add: q_def new_market_def)
  have "(if \<not> (\<forall>k \<in> set market_required. has_member m k) then None
      else if pe_sha256 env (meta_input (pr_source q) (pr_condition q) (pr_token q) (pr_side q) (pr_deadline q) (pr_rule q)) \<noteq> hash then None
      else if \<not> signed_by env m (toLowerCase maker) then None
      else (case pe_utxos env spine of None \<Rightarrow> None | Some txs \<Rightarrow> if tx \<notin> set txs \<or> \<not> list_all bindable (market_values q) then None else Some q)) = Some r"
    using assms unfolding market_accepted_def f q_def [symmetric] option.case prod.case Let_def by simp
  then have "meta_bound (pe_sha256 env) q" "signed_by env m (toLowerCase maker)" "\<exists>txs. pe_utxos env spine = Some txs \<and> tx \<in> set txs" "r = q"
    unfolding meta_bound_def q by (auto split: if_splits option.splits)
  then show ?thesis using q by simp
qed

lemma meta_bound_terms: "pool_terms r' = pool_terms r \<Longrightarrow> meta_bound S r' = meta_bound S r"
  by (cases r; cases r') (simp add: pool_terms_def meta_bound_def)

lemma maker_terms: "pool_terms r' = pool_terms r \<Longrightarrow> pr_maker r' = pr_maker r \<and> pr_spine r' = pr_spine r \<and> pr_spine_tx r' = pr_spine_tx r"
  by (cases r; cases r') (simp add: pool_terms_def)

subsection \<open>Histories\<close>

text \<open>
  \<open>S\<close> is \<open>sha256\<close>; the clock and the services may answer differently at every step.  The endpoints of \<open>api/pool.js\<close> insert markets,
  with the hash of the values they store, and bets, under a unique index on their transactions.  The settler fills in the missing lock
  scores of bets (\<open>recaptureSideLockDaaForMarket\<close>) and moves markets on; the other components of the node leave the terms of
  the markets and the bets alone.
\<close>

definition scored :: "pool_bet \<Rightarrow> pool_bet \<Rightarrow> bool" where
  "scored b b' \<longleftrightarrow> b' = b \<or> (br_daa b = None \<and> (\<exists>d. b' = b\<lparr> br_daa := Some d \<rparr>))"

lemma scored_refl [simp]: "scored b b"
  by (simp add: scored_def)

lemma scored_trans: "scored a b \<Longrightarrow> scored b c \<Longrightarrow> scored a c"
  by (auto simp: scored_def)

lemma all_scored: "set bs \<subseteq> set bs' \<Longrightarrow> \<forall>b \<in> set bs. \<exists>b' \<in> set bs'. scored b b'"
  using scored_refl by blast

lemma each_scored: "list_all2 scored bs bs' \<Longrightarrow> \<forall>b \<in> set bs. \<exists>b' \<in> set bs'. scored b b'"
  by (induction rule: list_all2_induct) auto

lemma scored_tx: "scored b b' \<Longrightarrow> br_tx b' = br_tx b"
  by (auto simp: scored_def)

inductive pool_step :: "(string \<Rightarrow> string) \<Rightarrow> pool_db \<Rightarrow> pool_db \<Rightarrow> bool" for S where
  reads: "pe_sha256 env = S \<Longrightarrow> pool_step S db (onPoolBroadcast env n b db)"
| catches_up: "pe_sha256 env = S \<Longrightarrow> pool_step S db (cu_db (catchUpUningestedMarkets env (onPoolBroadcast env n) w force db))"
| creates: "meta_bound S r \<Longrightarrow> pr_id r \<notin> pr_id ` set (pb_markets db) \<Longrightarrow> pool_step S db (db\<lparr> pb_markets := pb_markets db @ [r] \<rparr>)"
| registers: "br_tx b \<notin> br_tx ` set (pb_bets db) \<Longrightarrow> pool_step S db (db\<lparr> pb_bets := pb_bets db @ [b] \<rparr>)"
| elsewhere: "map pool_terms (pb_markets db') = map pool_terms (pb_markets db) \<Longrightarrow> list_all2 scored (pb_bets db) (pb_bets db') \<Longrightarrow> pool_step S db db'"

definition pool_inv :: "(string \<Rightarrow> string) \<Rightarrow> pool_db \<Rightarrow> bool" where
  "pool_inv S db \<longleftrightarrow> distinct (map pr_id (pb_markets db)) \<and> distinct (map br_tx (pb_bets db)) \<and> (\<forall>r \<in> set (pb_markets db). meta_bound S r)"

definition terms_kept :: "pool_db \<Rightarrow> pool_db \<Rightarrow> bool" where
  "terms_kept db db' \<longleftrightarrow> (\<forall>i r. find_pool db i = Some r \<longrightarrow> (\<exists>r'. find_pool db' i = Some r' \<and> pool_terms r' = pool_terms r))
     \<and> (\<forall>b \<in> set (pb_bets db). \<exists>b' \<in> set (pb_bets db'). scored b b')"

lemma grows_inv:
  assumes "grows env db db'" "pool_inv (pe_sha256 env) db"
  shows "pool_inv (pe_sha256 env) db' \<and> terms_kept db db'"
proof -
  have "meta_bound (pe_sha256 env) r'" if r': "r' \<in> set (pb_markets db')" for r'
  proof -
    consider r where "r \<in> set (pb_markets db)" "pool_terms r' = pool_terms r" | m r where "market_accepted env m = Some r" "pool_terms r' = pool_terms r"
      using assms(1) r' unfolding grows_def by blast
    then show ?thesis
    proof cases
      case 1
      then show ?thesis using assms(2) meta_bound_terms unfolding pool_inv_def by blast
    next
      case 2
      then show ?thesis using accepted_checks meta_bound_terms by blast
    qed
  qed
  moreover have "distinct (map pr_id (pb_markets db'))" "distinct (map br_tx (pb_bets db'))"
    using assms unfolding grows_def pool_inv_def by blast+
  moreover have "terms_kept db db'" using assms(1) scored_refl unfolding grows_def terms_kept_def by blast
  ultimately show ?thesis unfolding pool_inv_def by blast
qed

lemma find_terms:
  assumes "map pool_terms rows' = map pool_terms rows" "find (\<lambda>r. pr_id r = i) rows = Some r"
  shows "\<exists>r'. find (\<lambda>r. pr_id r = i) rows' = Some r' \<and> pool_terms r' = pool_terms r"
  using assms
proof (induction rows arbitrary: rows')
  case (Cons a rows)
  obtain b bs where b: "rows' = b # bs" "pool_terms b = pool_terms a" "map pool_terms bs = map pool_terms rows" using Cons.prems(1) by auto
  have "pr_id b = pr_id a" using pool_terms_simps [OF b(2)] by simp
  then show ?case using Cons b by (cases "pr_id a = i") auto
qed simp

lemma elsewhere_inv:
  assumes "map pool_terms (pb_markets db') = map pool_terms (pb_markets db)" "list_all2 scored (pb_bets db) (pb_bets db')" "pool_inv S db"
  shows "pool_inv S db' \<and> terms_kept db db'"
proof -
  have ids: "map pr_id rows = map (\<lambda>r. pr_id (pool_terms r)) rows" for rows by (simp add: pool_terms_def)
  have "map pr_id (pb_markets db') = map pr_id (pb_markets db)"
    using arg_cong [OF assms(1), of "map pr_id"] ids [of "pb_markets db"] ids [of "pb_markets db'"] by (simp add: comp_def)
  moreover have "meta_bound S r'" if r': "r' \<in> set (pb_markets db')" for r'
  proof -
    have "pool_terms r' \<in> set (map pool_terms (pb_markets db))" using r' assms(1) by (metis imageI set_map)
    then obtain r where "r \<in> set (pb_markets db)" "pool_terms r' = pool_terms r" by auto
    then show ?thesis using assms(3) meta_bound_terms unfolding pool_inv_def by blast
  qed
  moreover have "\<forall>b \<in> set (pb_bets db). \<exists>b' \<in> set (pb_bets db'). scored b b'"
    by (rule each_scored [OF assms(2)])
  then have "terms_kept db db'" using find_terms [OF assms(1)] unfolding terms_kept_def find_pool_def by simp
  moreover have "map br_tx (pb_bets db') = map br_tx (pb_bets db)"
    using assms(2) scored_tx by (auto simp: list_all2_conv_all_nth intro: nth_equalityI)
  ultimately show ?thesis using assms(3) unfolding pool_inv_def by simp
qed

lemma creates_inv: "pool_inv S db \<Longrightarrow> meta_bound S r \<Longrightarrow> pr_id r \<notin> pr_id ` set (pb_markets db) \<Longrightarrow>
    pool_inv S (db\<lparr> pb_markets := pb_markets db @ [r] \<rparr>) \<and> terms_kept db (db\<lparr> pb_markets := pb_markets db @ [r] \<rparr>)"
  using all_scored [OF subset_refl] by (auto simp: pool_inv_def terms_kept_def find_pool_def find_append)

lemma registers_inv: "pool_inv S db \<Longrightarrow> br_tx b \<notin> br_tx ` set (pb_bets db) \<Longrightarrow>
    pool_inv S (db\<lparr> pb_bets := pb_bets db @ [b] \<rparr>) \<and> terms_kept db (db\<lparr> pb_bets := pb_bets db @ [b] \<rparr>)"
  using all_scored [of "pb_bets db" "pb_bets db @ [b]"] by (auto simp: pool_inv_def terms_kept_def find_pool_def)

lemma step_inv:
  assumes "pool_step S db db'" "pool_inv S db"
  shows "pool_inv S db' \<and> terms_kept db db'"
  using assms
proof cases
  case (reads env n b)
  then show ?thesis using grows_inv [OF broadcast_grows] assms(2) by blast
next
  case (catches_up env n w force)
  then show ?thesis using grows_inv [OF reader.catch_up_grows] assms(2) by blast
next
  case (creates r)
  then show ?thesis using creates_inv assms(2) by blast
next
  case (registers b)
  then show ?thesis using registers_inv assms(2) by blast
next
  case elsewhere
  then show ?thesis using elsewhere_inv assms(2) by blast
qed

lemma terms_kept_trans: "terms_kept a b \<Longrightarrow> terms_kept b c \<Longrightarrow> terms_kept a c"
proof -
  assume ab: "terms_kept a b" and bc: "terms_kept b c"
  have "\<exists>r'. find_pool c i = Some r' \<and> pool_terms r' = pool_terms r" if r: "find_pool a i = Some r" for i r
  proof -
    obtain r1 where r1: "find_pool b i = Some r1" "pool_terms r1 = pool_terms r" using ab r unfolding terms_kept_def by blast
    obtain r2 where "find_pool c i = Some r2" "pool_terms r2 = pool_terms r1" using bc r1(1) unfolding terms_kept_def by blast
    then show ?thesis using r1(2) by simp
  qed
  moreover have "\<exists>x' \<in> set (pb_bets c). scored x x'" if x: "x \<in> set (pb_bets a)" for x
  proof -
    obtain x1 where x1: "x1 \<in> set (pb_bets b)" "scored x x1" using ab x unfolding terms_kept_def by blast
    obtain x2 where "x2 \<in> set (pb_bets c)" "scored x1 x2" using bc x1(1) unfolding terms_kept_def by blast
    then show ?thesis using scored_trans [OF x1(2)] by blast
  qed
  ultimately show ?thesis unfolding terms_kept_def by blast
qed

lemma history_pool_inv:
  assumes "(pool_step S)\<^sup>*\<^sup>* db db'" "pool_inv S db"
  shows "pool_inv S db' \<and> terms_kept db db'"
  using assms
proof (induction rule: rtranclp_induct)
  case base
  then show ?case using all_scored [OF subset_refl] by (simp add: terms_kept_def)
next
  case (step y z)
  then show ?case using step_inv [OF step.hyps(2)] terms_kept_trans by blast
qed

text \<open>The messages alone move the status of a market only to completed, and only while it is being settled.\<close>

definition market_status :: "pool_db \<Rightarrow> string \<Rightarrow> string option" where
  "market_status db i = map_option pr_status (find_pool db i)"

inductive read_step :: "pool_db \<Rightarrow> pool_db \<Rightarrow> bool" where
  "read_step db (onPoolBroadcast env n b db)"
| "read_step db (cu_db (catchUpUningestedMarkets env (onPoolBroadcast env n) w force db))"

lemma read_grows: "read_step db db' \<Longrightarrow> \<exists>env. grows env db db'"
  by (induction rule: read_step.induct) (use broadcast_grows reader.catch_up_grows in blast)+

interpretation poolm: status_machine market_status read_step market_edge
proof
  fix db db' i s assume "read_step db db'" "market_status db i = Some s"
  moreover obtain r where "find_pool db i = Some r" "pr_status r = s" using \<open>market_status db i = Some s\<close> by (auto simp: market_status_def)
  moreover obtain env where "grows env db db'" using read_grows [OF \<open>read_step db db'\<close>] by blast
  ultimately have "grows env db db'" "find_pool db i = Some r" "pr_status r = s" by simp_all
  then show "\<exists>s'. market_status db' i = Some s' \<and> market_edge\<^sup>*\<^sup>* s s'" unfolding grows_def market_status_def by fastforce
qed

subsection \<open>Properties\<close>


lemma filter_key: "distinct (map key rows) \<Longrightarrow> b \<in> set rows \<Longrightarrow> filter (\<lambda>q. key q = key b) rows = [b]"
proof (induction rows)
  case (Cons a rows)
  show ?case
  proof (cases "b = a")
    case True
    have "filter (\<lambda>q. key q = key a) rows = []" using Cons.prems(1) by (auto simp: filter_empty_conv) (metis imageI)
    then show ?thesis using True by simp
  next
    case False
    then have "b \<in> set rows" "key a \<noteq> key b" using Cons.prems by auto
    then show ?thesis using Cons by simp
  qed
qed simp


text \<open>Reading a broadcast, with everything it makes the node read again, stores only markets that quote the hash of their terms,
  that their maker signed and whose stake is unspent at their address.\<close>

theorem new_markets_checked:
  assumes "r \<in> set (pb_markets (onPoolBroadcast env n b db))" "pool_terms r \<notin> pool_terms ` set (pb_markets db)"
  shows "meta_bound (pe_sha256 env) r \<and> (\<exists>m. signed_by env m (toLowerCase (pr_maker r)))
    \<and> (\<exists>txs. pe_utxos env (pr_spine r) = Some txs \<and> pr_spine_tx r \<in> set txs)"
proof -
  have "grows env db (onPoolBroadcast env n b db)" by (rule broadcast_grows)
  then obtain m q where q: "market_accepted env m = Some q" "pool_terms r = pool_terms q"
    using assms unfolding grows_def by blast
  show ?thesis using accepted_checks [OF q(1)] meta_bound_terms [OF q(2)] maker_terms [OF q(2)] by auto
qed

text \<open>C27: reading a broadcast records only votes that a member of the committee of their market (or, in the first version, one of its
  oracles) signed.\<close>

theorem recorded_votes_signed:
  assumes "e \<in> set (pb_events (onPoolBroadcast env n b db))" "e \<notin> set (pb_events db)" "ev_type e = ''pool_oracle_vote''"
  shows "vote_ok env (onPoolBroadcast env n b db) e"
proof -
  have "grows env db (onPoolBroadcast env n b db)" by (rule broadcast_grows)
  then have "event_ok env (onPoolBroadcast env n b db) e" using assms(1,2) unfolding grows_def by blast
  then show ?thesis using assms(3) by (simp add: event_ok_def)
qed

text \<open>An enrollment row is added or changed by a broadcast only if its own key signed a message.\<close>

theorem enrollments_signed:
  assumes "e \<in> set (pb_enroll (onPoolBroadcast env n b db))" "e \<notin> set (pb_enroll db)"
  shows "\<exists>m. signed_by env m (er_pk e)"
  using broadcast_grows [of env db n b] assms unfolding grows_def by blast

text \<open>No broadcast marks a market completed that is not being settled: a refunded, cancelled or open market keeps its status
  whatever is read.\<close>

theorem messages_keep_other_markets:
  assumes "read_step\<^sup>*\<^sup>* db db'" "market_status db i = Some s" "s \<noteq> ''verifying''" "s \<noteq> ''collecting_sigs''"
  shows "market_status db' i = Some s"
  by (rule poolm.terminal_absorbing [OF assms(1,2)]) (use assms(3,4) in \<open>simp add: market_edge_def\<close>)

subsection \<open>The block of a bet\<close>

text \<open>\<open>b\<close> is the first block with the transaction, \<open>n\<close> selected parents behind the block \<open>h\<close>.\<close>

inductive behind :: "pool_env \<Rightarrow> string \<Rightarrow> string \<Rightarrow> dag_block \<Rightarrow> nat \<Rightarrow> bool" for env tx where
  here: "pe_block env h = Some b \<Longrightarrow> tx \<in> set (bd_txs b) \<Longrightarrow> behind env tx h b 0"
| parent: "pe_block env h = Some c \<Longrightarrow> tx \<notin> set (bd_txs c) \<Longrightarrow> full (bd_parent c) = Some p \<Longrightarrow> p \<noteq> replicate 64 (CHR ''0'')
    \<Longrightarrow> behind env tx p b n \<Longrightarrow> behind env tx h b (Suc n)"

lemma scan_behind: "behind env tx h b n \<Longrightarrow> scan_back env k tx h = (if n < k then Found b else Lost)"
proof (induction arbitrary: k rule: behind.induct)
  case (here h b)
  then show ?case by (cases k) simp_all
next
  case (parent h c p b n)
  then show ?case by (cases k) simp_all
qed

lemma scan_found: "scan_back env k tx h = Found b \<Longrightarrow> tx \<in> set (bd_txs b)"
  by (induction env k tx h rule: scan_back.induct) (auto split: option.splits if_splits)

text \<open>The walk back from a block finds a transaction exactly when it is fewer than 10000 selected parents away; beyond that it ends
  without a block.\<close>

theorem scan_reaches_10000:
  assumes "behind env tx h b n" "resolveStartCursor env db hint = Some (Some h)" "h \<noteq> []"
  shows "scanBackwardForTx env db tx hint = (if n < 10000 then Found b else Lost)"
  using scan_behind [OF assms(1)] assms(2,3) by (simp add: scanBackwardForTx_def full_def truthy_def CAPTURE_MAX_STEPS_def)

text \<open>C28: the score recorded for a bet is that of the block which the node's transaction log names for its transaction, or else of one
  which contains the transaction, at least 50 below the tip.\<close>

theorem captured_block_final:
  assumes "captureSideLockDaa env db tx hint = Captured d"
  shows "\<exists>b sink tip. pe_tip env = Some (sink, tip) \<and> d + 50 \<le> tip \<and> bd_daa b = Some d
    \<and> (tx \<in> set (bd_txs b) \<or> (\<exists>h. map_of (pb_txlog db) tx = Some (Some h) \<and> pe_block env h = Some b))"
proof -
  define s where "s = (case map_of (pb_txlog db) tx of
             Some (Some h) \<Rightarrow> if h = [] then scanBackwardForTx env db tx hint
               else (case pe_block env h of Some b \<Rightarrow> Found b | None \<Rightarrow> ScanFails)
           | _ \<Rightarrow> scanBackwardForTx env db tx hint)"
  have c: "(case s of ScanFails \<Rightarrow> RpcFail | Lost \<Rightarrow> NoBlockHash
       | Found b \<Rightarrow> (case pe_tip env of None \<Rightarrow> RpcFail
           | Some (sink, tip) \<Rightarrow> (case bd_daa b of None \<Rightarrow> DaaUnresolved
               | Some d \<Rightarrow> if int tip - int d < int CAPTURE_FINALITY_DEPTH then NotFinal else Captured d))) = Captured d"
    using assms unfolding captureSideLockDaa_def s_def Let_def by (simp split: if_splits)
  then obtain b where b: "s = Found b" by (cases s) simp_all
  then obtain sink tip where t: "pe_tip env = Some (sink, tip)" "bd_daa b = Some d" "d + 50 \<le> tip"
    using c by (auto simp: CAPTURE_FINALITY_DEPTH_def split: option.splits if_splits)
  have "tx \<in> set (bd_txs b)" if "scanBackwardForTx env db tx hint = Found b"
    using that scan_found by (auto simp: scanBackwardForTx_def split: option.splits)
  then have "tx \<in> set (bd_txs b) \<or> (\<exists>h. map_of (pb_txlog db) tx = Some (Some h) \<and> pe_block env h = Some b)"
    using b by (auto simp: s_def split: option.splits if_splits)
  then show ?thesis using t by blast
qed

subsection \<open>What is not checked\<close>

text \<open>A bet whose transaction no block contains is recorded with whatever stake its message claims, as long as the address is
  derived correctly: nothing compares the stake with the chain.\<close>

theorem unpaid_bet_recorded:
  assumes "\<forall>k \<in> set bet_required. has_member m k" "js_get m ''stake_amount'' = Some (JInt k)" "100000000 \<le> k"
    and "text_field m ''market_id'' = Some i" "text_field m ''bettor_pk'' = Some pk" "text_field m ''side_lock_tx'' = Some tx"
    and "find_pool db i = Some r" "side_script env m r = Some s" "text_field m ''side_p2sh'' = Some (sc_addr s)"
    and "tx \<notin> br_tx ` set (pb_bets db)" "captureSideLockDaa env db tx None = NoBlockHash"
    and "bindable (member_or_null m ''direction'')" "bindable (truthy_or_null (js_get m ''merkle_index''))"
  shows "\<exists>b \<in> set (pb_bets (handlePoolBetRegistered env m db)). br_market b = i \<and> br_bettor b = pk \<and> br_tx b = tx \<and> br_stake b = JInt k \<and> br_daa b = None"
proof -
  define b where "b = \<lparr> br_market = i, br_bettor = pk, br_direction = member_or_null m ''direction'', br_stake = JInt k, br_side = sc_addr s,
     br_tx = tx, br_index = truthy_or_null (js_get m ''merkle_index''), br_redeem = sc_redeem s, br_daa = None \<rparr>"
  have st: "js_BigInt (js_get m ''stake_amount'') = Some k" "member_or_null m ''stake_amount'' = JInt k"
    using assms(2) by (simp_all add: js_BigInt_def member_or_null_def)
  have new: "\<not> list_ex (\<lambda>q. br_tx q = tx) (pb_bets db)" using assms(10) by (auto simp: list_ex_iff)
  have "\<not> k < BETTOR_MIN_STAKE_POLICY_SOMPI" using assms(3) by (simp add: BETTOR_MIN_STAKE_POLICY_SOMPI_def)
  then have "handlePoolBetRegistered env m db = insert_bet b db"
    unfolding handlePoolBetRegistered_def using assms(1,4-9,11) st new by (simp add: Let_def b_def)
  moreover have "insert_bet b db = db\<lparr> pb_bets := pb_bets db @ [b] \<rparr>"
    using new assms(12,13) by (simp add: insert_bet_def b_def bindable_def [of "JInt k"])
  ultimately show ?thesis by (simp add: b_def)
qed

text \<open>A valid envelope of an oracle that enrolls, and one that withdraws.\<close>

definition enrolls :: "pool_env \<Rightarrow> json \<Rightarrow> string \<Rightarrow> bool" where
  "enrolls env m pk \<longleftrightarrow> (\<forall>k \<in> set [''staker_pk_x'', ''lock_until_daa'', ''p2sh_addr'', ''signature'']. has_member m k)
     \<and> pk = toLowerCase (js_String (member_or_null m ''staker_pk_x'')) \<and> hex64 pk \<and> signed_by env m pk
     \<and> (\<exists>lock s. js_parseInt (js_get m ''lock_until_daa'') = Some lock \<and> 0 < lock \<and> text_field m ''p2sh_addr'' = Some (sc_addr s)
          \<and> computeStakeP2SH_v1 (pe_tools env) pk lock (network_of (sc_addr s)) = Some s)"

definition withdraws :: "pool_env \<Rightarrow> json \<Rightarrow> string \<Rightarrow> bool" where
  "withdraws env m pk \<longleftrightarrow> js_get m ''staker_pk_x'' \<noteq> None \<and> js_get m ''signature'' \<noteq> None
     \<and> pk = toLowerCase (js_String (member_or_null m ''staker_pk_x'')) \<and> hex64 pk \<and> signed_by env m pk"

definition active_oracle :: "pool_db \<Rightarrow> string \<Rightarrow> bool" where
  "active_oracle db pk \<longleftrightarrow> (\<exists>e \<in> set (pb_enroll db). er_pk e = pk \<and> er_active e)"

lemma upsert_active: "active_oracle (upsert_enrollment pk lock s relay db) pk"
proof (cases "list_ex (\<lambda>r. er_pk r = pk) (pb_enroll db)")
  case True
  then obtain r where r: "r \<in> set (pb_enroll db)" "er_pk r = pk" by (auto simp: list_ex_iff)
  define g where "g = (\<lambda>r :: enrollment. r\<lparr> er_lock := lock, er_addr := sc_addr s, er_hash := sc_hash s,
            er_redeem := sc_redeem s, er_source := ''chain_envelope'', er_active := True,
            er_relay := (case relay of Some a \<Rightarrow> Some a | None \<Rightarrow> er_relay r) \<rparr>)"
  have "g r \<in> set (update_where (\<lambda>r. er_pk r = pk) g (pb_enroll db))" using r by (auto simp: update_where_def)
  moreover have "er_pk (g r) = pk" "er_active (g r)" using r(2) by (simp_all add: g_def)
  moreover have "pb_enroll (upsert_enrollment pk lock s relay db) = update_where (\<lambda>r. er_pk r = pk) g (pb_enroll db)"
    using True by (simp add: upsert_enrollment_def g_def)
  ultimately show ?thesis unfolding active_oracle_def by auto
next
  case False
  then show ?thesis by (simp add: active_oracle_def upsert_enrollment_def)
qed

lemma enroll_active: "enrolls env m pk \<Longrightarrow> active_oracle (handleOracleStakeEnroll env m db) pk"
  using upsert_active by (auto simp: enrolls_def handleOracleStakeEnroll_def Let_def)

lemma withdraw_inactive: "withdraws env m pk \<Longrightarrow> \<not> active_oracle (handleOracleStakeWithdraw env m db) pk"
proof -
  assume w: "withdraws env m pk"
  define db1 where "db1 = ingest_event env m ''oracle_stake_withdraw'' None db"
  have "pb_enroll (handleOracleStakeWithdraw env m db) = update_where (\<lambda>r. er_pk r = pk) (\<lambda>r. r\<lparr> er_active := False \<rparr>) (pb_enroll db1)"
    using w by (auto simp: withdraws_def handleOracleStakeWithdraw_def Let_def db1_def)
  moreover have "\<not> (er_pk e = pk \<and> er_active e)" if e: "e \<in> set (update_where (\<lambda>r. er_pk r = pk) (\<lambda>r. r\<lparr> er_active := False \<rparr>) (pb_enroll db1))" for e
  proof -
    obtain q where "e = (if er_pk q = pk then q\<lparr> er_active := False \<rparr> else q)" using e unfolding set_update_where by blast
    then show ?thesis by (cases "er_pk q = pk") simp_all
  qed
  ultimately show ?thesis unfolding active_oracle_def by auto
qed

text \<open>Which of two signed envelopes of an oracle is read last decides whether it belongs to the pool: enrolling and then
  withdrawing leaves it out, the same two the other way round leaves it in.\<close>

theorem last_envelope_decides:
  assumes "enrolls env m pk" "withdraws env w pk"
  shows "\<not> active_oracle (handleOracleStakeWithdraw env w (handleOracleStakeEnroll env m db)) pk
    \<and> active_oracle (handleOracleStakeEnroll env m (handleOracleStakeWithdraw env w db)) pk"
  using withdraw_inactive [OF assms(2)] enroll_active [OF assms(1)] by blast

text \<open>A market that is being settled is marked completed, with whatever transaction it names, by a message that nobody signs.\<close>

theorem settled_by_anyone:
  assumes "text_field m ''market_id'' = Some i" "text_field m ''settle_txid'' = Some tx" "has_member m ''winner''"
    and "find_pool db i = Some r" "pr_status r \<in> {''verifying'', ''collecting_sigs''}"
  shows "\<exists>r'. find_pool (handlePoolMarketSettled env m db) i = Some r' \<and> pr_status r' = ''completed'' \<and> pr_settle_tx r' = Some tx"
proof -
  define g where "g = (\<lambda>q :: pool_row. q\<lparr> pr_settle_tx := Some tx, pr_status := ''completed'', pr_updated := sql_now env \<rparr>)"
  have "has_member m ''market_id''" "has_member m ''settle_txid''" using assms(1,2) by (auto simp: has_member_def text_field_def split: option.splits)
  then have h: "handlePoolMarketSettled env m db = db\<lparr> pb_markets := update_where (\<lambda>q. pr_id q = i) g (pb_markets db) \<rparr>"
    using assms by (auto simp: handlePoolMarketSettled_def g_def)
  have "pr_id r = i" using find_key_Some [of pr_id i "pb_markets db" r] assms(4) unfolding find_pool_def by blast
  then have "find_pool (handlePoolMarketSettled env m db) i = Some (g r)"
    unfolding h using find_update_where [of "\<lambda>q. pr_id q = i" pr_id g i "pb_markets db"] assms(4) by (simp add: find_pool_def g_def)
  then show ?thesis by (simp add: g_def)
qed

subsection \<open>Requests for signatures\<close>

lemma sign_inputs_keeps:
  "pb_events (sign_inputs env i x w o' pk ks db) = pb_events db \<and> pb_committee (sign_inputs env i x w o' pk ks db) = pb_committee db
    \<and> set (pb_outbox db) \<subseteq> set (pb_outbox (sign_inputs env i x w o' pk ks db))"
proof (induction ks arbitrary: db)
  case (Cons k ks)
  define db1 where "db1 = (if already_signed db i k pk then db
       else (case pe_sign env (pl_id o') x k of None \<Rightarrow> db
         | Some sig \<Rightarrow> if \<not> js_truthy (Some sig) \<or> full (pe_send env (pl_id o') (json_text (sign_resp i pk k w sig))) = None then db
             else pool_out (SignResp (pl_id o') (sign_resp i pk k w sig)) db))"
  have "pb_events db1 = pb_events db \<and> pb_committee db1 = pb_committee db \<and> set (pb_outbox db) \<subseteq> set (pb_outbox db1)"
    by (auto simp: db1_def pool_out_def split: option.split)
  moreover have "sign_inputs env i x w o' pk (k # ks) db = sign_inputs env i x w o' pk ks db1" by (simp add: db1_def)
  ultimately show ?case using Cons.IH [of db1] by auto
qed simp

lemma already_signed_events: "pb_events db' = pb_events db \<Longrightarrow> already_signed db' i k pk = already_signed db i k pk"
  by (simp add: already_signed_def)

lemma sign_inputs_signs:
  assumes "k \<in> set ks" "\<not> already_signed db i k pk" "pe_sign env (pl_id o') x k = Some sig" "js_truthy (Some sig)"
    and "full (pe_send env (pl_id o') (json_text (sign_resp i pk k w sig))) \<noteq> None"
  shows "SignResp (pl_id o') (sign_resp i pk k w sig) \<in> set (pb_outbox (sign_inputs env i x w o' pk ks db))"
  using assms(1,2)
proof (induction ks arbitrary: db)
  case (Cons j js)
  show ?case
  proof (cases "j = k")
    case True
    then have "sign_inputs env i x w o' pk (j # js) db = sign_inputs env i x w o' pk js (pool_out (SignResp (pl_id o') (sign_resp i pk k w sig)) db)"
      using Cons.prems(2) assms(3-5) by (simp only: sign_inputs.simps if_False option.case) simp
    then show ?thesis using sign_inputs_keeps [of env i x w o' pk js "pool_out (SignResp (pl_id o') (sign_resp i pk k w sig)) db"]
      by (auto simp: pool_out_def)
  next
    case False
    define db1 where "db1 = sign_inputs env i x w o' pk [j] db"
    have "pb_events db1 = pb_events db" using sign_inputs_keeps [of env i x w o' pk "[j]" db] by (simp add: db1_def)
    then have "\<not> already_signed db1 i k pk" using Cons.prems(2) already_signed_events by blast
    moreover have "sign_inputs env i x w o' pk (j # js) db = sign_inputs env i x w o' pk js db1" by (simp add: db1_def)
    ultimately show ?thesis using Cons.IH [of db1] Cons.prems(1) False by simp
  qed
qed simp

lemma sign_oracles_keeps:
  "pb_events (sign_oracles env i x m os db) = pb_events db \<and> pb_committee (sign_oracles env i x m os db) = pb_committee db
    \<and> set (pb_outbox db) \<subseteq> set (pb_outbox (sign_oracles env i x m os db))"
proof (induction os arbitrary: db)
  case (Cons o' os)
  define db1 where "db1 = sign_oracles env i x m [o'] db"
  have "pb_events db1 = pb_events db \<and> pb_committee db1 = pb_committee db \<and> set (pb_outbox db) \<subseteq> set (pb_outbox db1)"
    using sign_inputs_keeps by (auto simp: db1_def Let_def split: option.split)
  moreover have "sign_oracles env i x m (o' # os) db = sign_oracles env i x m os db1" by (simp add: db1_def)
  ultimately show ?case using Cons.IH [of db1] by auto
qed simp

text \<open>A member of the committee signs every input of the transaction a request carries: neither the sender of the request nor the
  transaction is compared with anything the node knows of the market.\<close>

theorem any_transaction_signed:
  assumes "\<forall>k \<in> set [''market_id'', ''winner'', ''input_count'', ''spine_input_count'']. has_member m k" "text_field m ''market_id'' = Some i"
    and "find_pool db i \<noteq> None" "js_get m ''phase2_tx_obj'' = Some x" "js_truthy (Some x)"
    and "oracle \<in> set (pb_relays db)" "pl_oracle oracle" "full (pe_pubkey env (pl_id oracle)) = Some pk"
    and "index_of (toLowerCase pk) (committee_pks db i) = Some c" "silent_index m \<noteq> Some (int c)"
    and "k \<in> set (spine_inputs m)" "\<not> already_signed db i k (toLowerCase pk)" "pe_sign env (pl_id oracle) x k = Some sig" "js_truthy (Some sig)"
    and "full (pe_send env (pl_id oracle) (json_text (sign_resp i (toLowerCase pk) k (member_or_null m ''winner'') sig))) \<noteq> None"
  shows "SignResp (pl_id oracle) (sign_resp i (toLowerCase pk) k (member_or_null m ''winner'') sig)
    \<in> set (pb_outbox (handlePoolOracleTxSignReq env m db))"
proof -
  obtain r where r: "find_pool db i = Some r" using assms(3) by blast
  have "committee_pks db i \<noteq> []" using assms(9) by (auto simp: index_of_def)
  then have h: "handlePoolOracleTxSignReq env m db = sign_oracles env i x m (filter pl_oracle (pb_relays db)) db"
    using assms(1,2,4,5) r by (simp add: handlePoolOracleTxSignReq_def js_or_def Let_def)
  have "oracle \<in> set (filter pl_oracle (pb_relays db))" using assms(6,7) by simp
  then obtain a b where os: "filter pl_oracle (pb_relays db) = a @ oracle # b" by (meson split_list)
  have app: "sign_oracles env i x m (a @ bs) d = sign_oracles env i x m bs (sign_oracles env i x m a d)" for a bs d
    by (induction a arbitrary: d) simp_all
  define d where "d = sign_oracles env i x m a db"
  have d: "pb_events d = pb_events db" "committee_pks d i = committee_pks db i"
    using sign_oracles_keeps [of env i x m a db] by (simp_all add: d_def committee_pks_def)
  have "sign_oracles env i x m [oracle] d = sign_inputs env i x (member_or_null m ''winner'') oracle (toLowerCase pk) (spine_inputs m) d"
    using assms(8-10) d(2) by simp
  moreover have "\<not> already_signed d i k (toLowerCase pk)" using assms(12) already_signed_events [OF d(1)] by simp
  ultimately have "SignResp (pl_id oracle) (sign_resp i (toLowerCase pk) k (member_or_null m ''winner'') sig) \<in> set (pb_outbox (sign_oracles env i x m [oracle] d))"
    using sign_inputs_signs [OF assms(11) _ assms(13-15)] by simp
  moreover have "handlePoolOracleTxSignReq env m db = sign_oracles env i x m b (sign_oracles env i x m [oracle] d)"
    using h os app [of a "oracle # b" db] app [of "[oracle]" b d] by (simp add: d_def)
  ultimately show ?thesis using sign_oracles_keeps [of env i x m b "sign_oracles env i x m [oracle] d"] by auto
qed

subsection \<open>Concrete instances\<close>

definition ex_const_tools :: pool_tools where
  "ex_const_tools = \<lparr> pt_compile = (\<lambda>c j. Some [1]), pt_address = (\<lambda>b n. Some ''addr''), pt_hash = id \<rparr>"

definition ex_a64 :: string where "ex_a64 = replicate 64 (CHR ''a'')"

definition ex_penv :: "json \<Rightarrow> pool_env" where
  "ex_penv m = \<lparr> pe_tools = ex_const_tools, pe_sha256 = (\<lambda>_. ex_a64), pe_parse = (\<lambda>_. Some m), pe_iso = (\<lambda>_. ''now''), pe_now = 5, pe_uuid = nat_str,
     pe_verify = (\<lambda>_ _ _. Some True), pe_utxos = (\<lambda>_. Some [''tx'']), pe_rpc = True, pe_connect = True,
     pe_block = (\<lambda>h. if h = ''tip'' then Some \<lparr> bd_daa = Some 100, bd_txs = [''other''], bd_parent = Some ''old'' \<rparr>
        else if h = ''old'' then Some \<lparr> bd_daa = Some 40, bd_txs = [''deep''], bd_parent = None \<rparr> else None),
     pe_tip = Some (Some ''tip'', 100), pe_relay_pk = (\<lambda>_. None), pe_pubkey = (\<lambda>_. Some ex_a64), pe_sign = (\<lambda>_ _ _. Some (JStr ''sig'')),
     pe_send = (\<lambda>_ _. Some ''tx'') \<rparr>"

definition ex_pdb :: "pool_row list \<Rightarrow> pool_db" where
  "ex_pdb ms = \<lparr> pb_markets = ms, pb_bets = [], pb_committee = [(''m'', Some (JArr [JStr ex_a64]))], pb_events = [], pb_enroll = [],
     pb_relays = [\<lparr> pl_id = ''r'', pl_address = ''a'', pl_oracle = True \<rparr>], pb_messages = [], pb_txlog = [], pb_daa_index = [], pb_coverage = [],
     pb_views = [], pb_snapshots = [], pb_cache = [], pb_catchup = 0, pb_draws = 0, pb_outbox = [] \<rparr>"

definition ex_prow :: bmsg where
  "ex_prow = \<lparr> bm_channel = ''kanet-prediction'', bm_content = CHR ''{'' # quoted ''t'' @ '':'' @ [CHR 0x22] @ ''pool_'', bm_sender = ''s'',
     bm_tx = Some ''b'', bm_created = 1 \<rparr>"

definition ex_market_msg :: json where
  "ex_market_msg = JObj [(''t'', JStr ''pool_market_published_v1''), (''market_id'', JStr ''m''), (''spine_p2sh'', JStr ''kaspa:s''), (''spine_lock_tx'', JStr ''tx''),
     (''market_metadata_hash'', JStr ex_a64), (''maker_relay_pk'', JStr ''mk''), (''signature'', JStr ''sig''), (''outcome_market_source'', JStr ''espn''),
     (''outcome_condition_id'', JStr ''c''), (''outcome_token_id'', JStr ''y''), (''outcome_side'', JStr ''YES''), (''resolution_rule_spec'', JStr ''r''),
     (''deadline'', JInt 9), (''protocol_version'', JStr ''v0.7''), (''pool_merkle_root'', JStr ex_a64)]"

definition ex_market_db :: pool_db where
  "ex_market_db = onPoolBroadcast (ex_penv ex_market_msg) 1 ex_prow (ex_pdb [])"

definition ex_pool :: pool_row where
  "ex_pool = new_market 0 ex_market_msg ''m'' ''kaspa:s'' ''tx'' ex_a64 ''mk''"

lemma ex_published: "map (\<lambda>r. (pr_id r, pr_status r, pr_source r, pr_condition r, pr_token r, pr_side r, pr_deadline r, pr_rule r)) (pb_markets ex_market_db)
    = [(''m'', ''pending_bettors'', JStr ''espn'', JStr ''c'', JStr ''y'', JStr ''YES'', JInt 9, JStr ''r'')]"
  by code_simp

lemma ex_pool_member: "\<exists>r. pb_markets ex_market_db = [r] \<and> list_all json_wf [pr_source r, pr_condition r, pr_token r, pr_side r, pr_deadline r, pr_rule r]"
  using ex_published by (auto simp: map_eq_Cons_conv)

lemma ex_pool_history: "(pool_step (\<lambda>_. ex_a64))\<^sup>*\<^sup>* (ex_pdb []) ex_market_db"
  unfolding ex_market_db_def by (rule r_into_rtranclp) (rule reads, simp add: ex_penv_def)


theorem new_markets_checked_witness:
  "\<exists>r. pb_markets ex_market_db = [r] \<and> meta_bound (pe_sha256 (ex_penv ex_market_msg)) r"
proof -
  obtain r where r: "pb_markets ex_market_db = [r]" using ex_pool_member by blast
  then show ?thesis using new_markets_checked [of r "ex_penv ex_market_msg" 1 ex_prow "ex_pdb []"] unfolding ex_market_db_def
    by (simp add: ex_pdb_def)
qed

theorem messages_keep_other_markets_witness:
  "market_status (onPoolBroadcast (ex_penv (JObj [(''t'', JStr ''pool_market_settled_v1''), (''market_id'', JStr ''m''), (''settle_txid'', JStr ''x''), (''winner'', JInt 1)]))
     1 ex_prow (ex_pdb [ex_pool])) ''m'' = Some ''pending_bettors''"
  by (rule messages_keep_other_markets [OF r_into_rtranclp [of read_step, OF read_step.intros(1), of "ex_pdb [ex_pool]"]])
    (simp_all add: market_status_def find_pool_def ex_pdb_def ex_pool_def new_market_def)

definition ex_bet :: pool_bet where
  "ex_bet = \<lparr> br_market = ''m'', br_bettor = ''p'', br_direction = JInt 1, br_stake = JInt 5, br_side = ''addr'', br_tx = ''t'', br_index = JNull,
     br_redeem = [], br_daa = None \<rparr>"


definition ex_vote :: json where
  "ex_vote = JObj [(''t'', JStr ''pool_oracle_vote_v1''), (''market_id'', JStr ''m''), (''voter_pubkey'', JStr ex_a64), (''outcome'', JInt 1), (''signature'', JStr ''sig'')]"

lemma ex_vote_recorded: "map ev_type (pb_events (onPoolBroadcast (ex_penv ex_vote) 1 ex_prow (ex_pdb [ex_pool]))) = [''pool_oracle_vote'']"
  by code_simp

theorem recorded_votes_signed_witness:
  "\<exists>e. pb_events (onPoolBroadcast (ex_penv ex_vote) 1 ex_prow (ex_pdb [ex_pool])) = [e]
    \<and> vote_ok (ex_penv ex_vote) (onPoolBroadcast (ex_penv ex_vote) 1 ex_prow (ex_pdb [ex_pool])) e"
proof -
  obtain e where e: "pb_events (onPoolBroadcast (ex_penv ex_vote) 1 ex_prow (ex_pdb [ex_pool])) = [e]" "ev_type e = ''pool_oracle_vote''"
    using ex_vote_recorded by (auto simp: map_eq_Cons_conv)
  moreover have "e \<notin> set (pb_events (ex_pdb [ex_pool]))" by (simp add: ex_pdb_def)
  ultimately show ?thesis using recorded_votes_signed [of e "ex_penv ex_vote" 1 ex_prow "ex_pdb [ex_pool]"] by auto
qed

definition ex_enroll :: json where
  "ex_enroll = JObj [(''t'', JStr ''oracle_stake_enroll_v1''), (''staker_pk_x'', JStr ex_a64), (''lock_until_daa'', JInt 9), (''p2sh_addr'', JStr ''addr''), (''signature'', JStr ''sig'')]"

lemma ex_enrolled: "map er_pk (pb_enroll (onPoolBroadcast (ex_penv ex_enroll) 1 ex_prow (ex_pdb []))) = [ex_a64]"
  by code_simp

theorem enrollments_signed_witness:
  "\<exists>e m. pb_enroll (onPoolBroadcast (ex_penv ex_enroll) 1 ex_prow (ex_pdb [])) = [e] \<and> signed_by (ex_penv ex_enroll) m (er_pk e)"
proof -
  obtain e where e: "pb_enroll (onPoolBroadcast (ex_penv ex_enroll) 1 ex_prow (ex_pdb [])) = [e]" using ex_enrolled by (auto simp: map_eq_Cons_conv)
  moreover have "e \<notin> set (pb_enroll (ex_pdb []))" by (simp add: ex_pdb_def)
  ultimately show ?thesis using enrollments_signed [of e "ex_penv ex_enroll" 1 ex_prow "ex_pdb []"] by auto
qed

theorem scan_reaches_10000_witness:
  "\<exists>b. scanBackwardForTx (ex_penv JNull) (ex_pdb []) ''deep'' None = Found b"
proof -
  let ?e = "ex_penv JNull" and ?old = "\<lparr> bd_daa = Some 40, bd_txs = [''deep''], bd_parent = None \<rparr>"
  let ?tip = "\<lparr> bd_daa = Some 100, bd_txs = [''other''], bd_parent = Some ''old'' \<rparr>"
  have "behind ?e ''deep'' ''old'' ?old 0" by (rule behind.here) (simp_all add: ex_penv_def)
  then have b: "behind ?e ''deep'' ''tip'' ?old (Suc 0)"
    by (rule behind.parent [where c = ?tip and p = "''old''", rotated 4]) (simp_all add: ex_penv_def full_def truthy_def, code_simp)
  have c: "resolveStartCursor (ex_penv JNull) (ex_pdb []) None = Some (Some ''tip'')" by (simp add: resolveStartCursor_def ex_penv_def)
  show ?thesis using scan_reaches_10000 [OF b c] by simp
qed

theorem captured_block_final_witness:
  "captureSideLockDaa (ex_penv JNull) (ex_pdb []) ''deep'' None = Captured 40 \<and> (\<exists>tip. pe_tip (ex_penv JNull) = Some (Some ''tip'', tip) \<and> 40 + 50 \<le> tip)"
proof -
  have c: "captureSideLockDaa (ex_penv JNull) (ex_pdb []) ''deep'' None = Captured 40" by code_simp
  show ?thesis using captured_block_final [OF c] c by (auto simp: ex_penv_def)
qed

definition ex_request :: json where
  "ex_request = JObj [(''t'', JStr ''pool_oracle_tx_sign_req_v1''), (''market_id'', JStr ''m''), (''winner'', JInt 1), (''input_count'', JInt 1),
     (''spine_input_count'', JInt 1), (''phase2_tx_obj'', JObj [])]"

theorem any_transaction_signed_witness:
  "SignResp ''r'' (sign_resp ''m'' ex_a64 0 (JInt 1) (JStr ''sig'')) \<in> set (pb_outbox (handlePoolOracleTxSignReq (ex_penv JNull) ex_request (ex_pdb [ex_pool])))"
proof -
  have "toLowerCase ex_a64 = ex_a64" by code_simp
  moreover have "SignResp (pl_id \<lparr> pl_id = ''r'', pl_address = ''a'', pl_oracle = True \<rparr>) (sign_resp ''m'' (toLowerCase ex_a64) 0 (member_or_null ex_request ''winner'') (JStr ''sig''))
    \<in> set (pb_outbox (handlePoolOracleTxSignReq (ex_penv JNull) ex_request (ex_pdb [ex_pool])))"
    by (rule any_transaction_signed [where x = "JObj []" and pk = ex_a64 and c = 0]; code_simp)
  moreover have "member_or_null ex_request ''winner'' = JInt 1" by code_simp
  ultimately show ?thesis by simp
qed

definition ex_bet_msg :: json where
  "ex_bet_msg = JObj [(''t'', JStr ''pool_bet_registered_v1''), (''market_id'', JStr ''m''), (''bettor_pk'', JStr ex_a64), (''direction'', JInt 1),
     (''stake_amount'', JInt 500000000), (''side_p2sh'', JStr ''addr''), (''side_lock_tx'', JStr ''nowhere''), (''merkle_index'', JInt 0)]"

theorem unpaid_bet_recorded_witness:
  "\<exists>b \<in> set (pb_bets (handlePoolBetRegistered (ex_penv JNull) ex_bet_msg (ex_pdb [ex_pool]))). br_market b = ''m'' \<and> br_bettor b = ex_a64 \<and> br_tx b = ''nowhere''
     \<and> br_stake b = JInt 500000000 \<and> br_daa b = None"
proof -
  have "map_option sc_addr (side_script (ex_penv JNull) ex_bet_msg ex_pool) = Some ''addr''" by code_simp
  then obtain s where "side_script (ex_penv JNull) ex_bet_msg ex_pool = Some s" "sc_addr s = ''addr''" by auto
  moreover have "text_field ex_bet_msg ''side_p2sh'' = Some ''addr''" by code_simp
  ultimately have s: "side_script (ex_penv JNull) ex_bet_msg ex_pool = Some s" "text_field ex_bet_msg ''side_p2sh'' = Some (sc_addr s)" by simp_all
  have f: "find_pool (ex_pdb [ex_pool]) ''m'' = Some ex_pool" by code_simp
  have c: "captureSideLockDaa (ex_penv JNull) (ex_pdb [ex_pool]) ''nowhere'' None = NoBlockHash" by code_simp
  show ?thesis by (rule unpaid_bet_recorded [OF _ _ _ _ _ _ f s _ c]; code_simp)
qed

theorem settled_by_anyone_witness:
  "\<exists>r. find_pool (handlePoolMarketSettled (ex_penv JNull) (JObj [(''market_id'', JStr ''m''), (''settle_txid'', JStr ''forged''), (''winner'', JInt 0)])
     (ex_pdb [ex_pool\<lparr> pr_status := ''verifying'' \<rparr>])) ''m'' = Some r \<and> pr_status r = ''completed'' \<and> pr_settle_tx r = Some ''forged''"
proof -
  have f: "find_pool (ex_pdb [ex_pool\<lparr> pr_status := ''verifying'' \<rparr>]) ''m'' = Some (ex_pool\<lparr> pr_status := ''verifying'' \<rparr>)" by code_simp
  show ?thesis by (rule settled_by_anyone [OF _ _ _ f]; code_simp)
qed

end
