(* ===== verification/Pool_Consensus.thy ===== *)
theory Pool_Consensus
  imports Pool_Claims "HOL-Library.Sublist"
begin

section \<open>What the votes of a market decide\<close>

text \<open>
  \<open>decideConsensus\<close> and \<open>decideConsensusV06\<close> of \<open>kasia-console/src/services/pool-market-settler.js\<close>: the votes recorded for
  a market are looked up by patterns on the text of the messages, and decide whether it is settled, refunded, disputed or left
  waiting.  The time limits, which the code reads from its environment, are \<open>settle_conf\<close>; \<open>ck_time\<close> is \<open>Date\<close> on a
  text (\<open>None\<close> where the date is invalid).  The reason of a decision is a constructor instead of its wording.
\<close>

subsection \<open>Decisions\<close>

record settle_conf =
  cf_silent :: nat
  cf_disagreement :: nat
  cf_dispute :: nat
  cf_watchdog :: nat
  cf_quorum_sec :: nat
  cf_giveup :: nat
  cf_timebox :: nat

record clock =
  ck_now :: nat
  ck_time :: "string \<Rightarrow> int option"

datatype reason = ZeroBets | AllSilent | OneVote | AbstainSlot | AbstainMajority | SplitVotes | ThreeDissent | TwoDissent
  | Commingled | MinPot | DoomedHeal | ThinMarket | StorageMass | Unrecoverable | NoCommittee | DisputeGrace | QuorumTimeout | SigsTimeout | SubmitGiveup | PeerRequest

datatype decision = Consensus nat bool "nat option" | Refund reason | RefundDisagreement int reason | Dispute reason | Pending "int option"

datatype ballot = Silent | Malformed | Abstain | Yes | No

subsection \<open>The votes\<close>

text \<open>The first recorded vote whose text names the market and the voter.\<close>

definition first_vote :: "pool_db \<Rightarrow> string \<Rightarrow> string \<Rightarrow> string \<Rightarrow> chain_event option" where
  "first_vote db i key voter =
    (case sort_key ev_observed_at (filter (\<lambda>x. ev_type x = ''pool_oracle_vote'' \<and> (case payload_text (ev_payload x) of None \<Rightarrow> False
        | Some t \<Rightarrow> sql_like (like_member ''market_id'' i) t \<and> sql_like (like_member key voter) t)) (pb_events db)) of
       [] \<Rightarrow> None | e # _ \<Rightarrow> Some e)"

definition read_ballot :: "payload \<Rightarrow> ballot" where
  "read_ballot p = (case p of JsonPayload j \<Rightarrow>
       if js_get j ''outcome'' = Some (JStr ''YES'') then Yes
       else if js_get j ''outcome'' = Some (JStr ''NO'') then No
       else if js_get j ''outcome'' = Some (JStr ''ABSTAIN'') then Abstain else Malformed
     | _ \<Rightarrow> Malformed)"

definition ballot_of :: "pool_db \<Rightarrow> string \<Rightarrow> string \<Rightarrow> string \<Rightarrow> ballot" where
  "ballot_of db i key voter = (case first_vote db i key voter of None \<Rightarrow> Silent | Some e \<Rightarrow> read_ballot (ev_payload e))"

definition count_ballots :: "ballot \<Rightarrow> ballot list \<Rightarrow> nat" where
  "count_ballots b bs = length (filter (\<lambda>x. x = b) bs)"

subsection \<open>Three oracles\<close>

text \<open>\<open>parseSqliteUtc\<close> of a member of the metadata; \<open>None\<close> where nothing usable is there.\<close>

fun replace_blank :: "string \<Rightarrow> string" where
  "replace_blank [] = []"
| "replace_blank (c # s) = (if c = CHR '' '' then CHR ''T'' # s else c # replace_blank s)"

definition parseSqliteUtc :: "clock \<Rightarrow> json \<Rightarrow> int option" where
  "parseSqliteUtc clk v = (case v of
      JStr s \<Rightarrow> (let iso = if CHR ''T'' \<in> set s then s else replace_blank s in
        ck_time clk (if iso \<noteq> [] \<and> last iso = CHR ''Z'' then iso else iso @ ''Z''))
    | JInt n \<Rightarrow> Some n | _ \<Rightarrow> None)"

text \<open>When the disagreement was first seen; zero counts as never.\<close>

definition disagreement_at :: "clock \<Rightarrow> pool_row \<Rightarrow> int option" where
  "disagreement_at clk r = (case js_get (payload_json (pr_metadata r)) ''disagreement_detected_at'' of
      Some v \<Rightarrow> if \<not> js_truthy (Some v) then None
        else (case parseSqliteUtc clk v of Some t \<Rightarrow> if t = 0 then None else Some t | None \<Rightarrow> None)
    | None \<Rightarrow> None)"

definition dissent :: "settle_conf \<Rightarrow> clock \<Rightarrow> pool_row \<Rightarrow> int \<Rightarrow> reason \<Rightarrow> decision" where
  "dissent conf clk r silent why = (case disagreement_at clk r of None \<Rightarrow> Pending (Some silent)
     | Some t \<Rightarrow> if int (cf_disagreement conf) \<le> int (ck_now clk) - t then RefundDisagreement silent why else Pending None)"

definition relay_ids :: "pool_row \<Rightarrow> json list" where
  "relay_ids r = (case pr_relays r of JsonPayload (JArr xs) \<Rightarrow> xs | _ \<Rightarrow> [])"

definition age_of :: "clock \<Rightarrow> pool_row \<Rightarrow> int" where
  "age_of clk r = int (ck_now clk) - int (pr_updated r)"

definition decide3 :: "settle_conf \<Rightarrow> clock \<Rightarrow> pool_row \<Rightarrow> ballot list \<Rightarrow> decision" where
  "decide3 conf clk r bs =
    (let votes = filter (\<lambda>(i, b). b \<in> {Yes, No}) (enumerate 0 bs); past = int (cf_silent conf) \<le> age_of clk r;
         winner = (if map snd votes ! 0 = Yes then 0 else 1 :: nat); same = card (snd ` set votes) = 1 in
     if length votes = 3 then (if same then Consensus winner True None else dissent conf clk r (- 1) ThreeDissent)
     else if length votes = 2 \<and> past then
       (case filter (\<lambda>i. i \<notin> fst ` set votes) [0, 1, 2] of
          silent # _ \<Rightarrow> if same then Consensus winner False (Some silent) else dissent conf clk r (int silent) TwoDissent
        | [] \<Rightarrow> Pending None)
     else if length votes \<le> 1 \<and> past then Refund (if votes = [] then AllSilent else OneVote)
     else Pending None)"

subsection \<open>A committee of five\<close>

fun first_such :: "('a \<Rightarrow> bool) \<Rightarrow> 'a list \<Rightarrow> nat option" where
  "first_such P [] = None"
| "first_such P (x # xs) = (if P x then Some 0 else map_option Suc (first_such P xs))"

text \<open>Who loses the bond when four agree: a silent member, else one with a malformed vote, else one who voted otherwise.\<close>

definition silent_for :: "ballot list \<Rightarrow> ballot \<Rightarrow> nat option" where
  "silent_for bs w = (case first_such (\<lambda>b. b = Silent) bs of Some i \<Rightarrow> Some i
     | None \<Rightarrow> (case first_such (\<lambda>b. b = Malformed) bs of Some i \<Rightarrow> Some i
       | None \<Rightarrow> first_such (\<lambda>b. b \<in> {Yes, No} \<and> b \<noteq> w) bs))"

definition four_agree :: "ballot list \<Rightarrow> ballot \<Rightarrow> nat \<Rightarrow> decision" where
  "four_agree bs w winner = (if count_ballots w bs = 5 then Consensus winner True None
     else (case silent_for bs w of None \<Rightarrow> Refund AbstainSlot | Some i \<Rightarrow> Consensus winner False (Some i)))"

definition decide5 :: "settle_conf \<Rightarrow> clock \<Rightarrow> pool_row \<Rightarrow> ballot list \<Rightarrow> decision" where
  "decide5 conf clk r bs =
    (if 4 \<le> count_ballots Yes bs then four_agree bs Yes 0
     else if 4 \<le> count_ballots No bs then four_agree bs No 1
     else if 4 \<le> count_ballots Abstain bs then Refund AbstainMajority
     else if count_ballots Silent bs = 0 \<or> int (cf_silent conf) \<le> age_of clk r then Dispute SplitVotes
     else Pending None)"

definition bet_count :: "pool_db \<Rightarrow> string \<Rightarrow> nat" where
  "bet_count db i = length (filter (\<lambda>b. br_market b = i) (pb_bets db))"

definition decideConsensusV06 :: "settle_conf \<Rightarrow> clock \<Rightarrow> pool_db \<Rightarrow> pool_row \<Rightarrow> decision" where
  "decideConsensusV06 conf clk db r =
    (if bet_count db (pr_id r) = 0 then Refund ZeroBets
     else if length (relay_ids r) \<noteq> 5 then Pending None
     else if length (committee_pks db (pr_id r)) \<noteq> 5 then Pending None
     else decide5 conf clk r (map (ballot_of db (pr_id r) ''voter_pubkey'') (committee_pks db (pr_id r))))"

definition committee_version :: "pool_row \<Rightarrow> bool" where
  "committee_version r = (pr_version r \<in> {JStr ''v0.6'', JStr ''v0.7''})"

definition decideConsensus :: "settle_conf \<Rightarrow> clock \<Rightarrow> pool_db \<Rightarrow> pool_row \<Rightarrow> decision" where
  "decideConsensus conf clk db r =
    (if committee_version r then decideConsensusV06 conf clk db r
     else if length (relay_ids r) \<noteq> 3 then Pending None
     else decide3 conf clk r (map (\<lambda>v. ballot_of db (pr_id r) ''voter_relay_id'' (js_String v)) (relay_ids r)))"

subsection \<open>Two nodes\<close>

definition winner_of :: "decision \<Rightarrow> nat option" where
  "winner_of d = (case d of Consensus w _ _ \<Rightarrow> Some w | _ \<Rightarrow> None)"

definition ballot_for :: "nat \<Rightarrow> ballot" where
  "ballot_for w = (if w = 0 then Yes else No)"

text \<open>A rule that names a winner only when \<open>q\<close> of the \<open>n\<close> ballots are for it.\<close>

locale quorum_rule =
  fixes rule :: "ballot list \<Rightarrow> nat option" and n q :: nat
  assumes decides: "length bs = n \<Longrightarrow> rule bs = Some w \<Longrightarrow> q \<le> count_ballots (ballot_for w) bs"
begin

lemma positions: "length bs = n \<Longrightarrow> rule bs = Some w \<Longrightarrow> q \<le> card {i. i < n \<and> bs ! i = ballot_for w}"
  using decides [of bs w] by (simp add: count_ballots_def length_filter_conv_card)

end

locale two_quorums = a: quorum_rule rule n q + b: quorum_rule rule' n q
  for rule rule' :: "ballot list \<Rightarrow> nat option" and n q :: nat
begin

lemma overlap:
  assumes "length bs = n" "rule bs = Some w" "length bs' = n" "rule' bs' = Some w'"
  shows "2 * q - n \<le> card {i. i < n \<and> bs ! i = ballot_for w \<and> bs' ! i = ballot_for w'}"
proof -
  let ?A = "{i. i < n \<and> bs ! i = ballot_for w}" and ?B = "{i. i < n \<and> bs' ! i = ballot_for w'}"
  have "?A \<union> ?B \<subseteq> {..<n}" by auto
  then have u: "card (?A \<union> ?B) \<le> n" using card_mono [of "{..<n}" "?A \<union> ?B"] by simp
  have "card ?A + card ?B = card (?A \<union> ?B) + card (?A \<inter> ?B)" by (rule card_Un_Int) auto
  moreover have "?A \<inter> ?B = {i. i < n \<and> bs ! i = ballot_for w \<and> bs' ! i = ballot_for w'}" by auto
  ultimately show ?thesis using u a.positions [OF assms(1,2)] b.positions [OF assms(3,4)] by simp
qed

end

definition rule5 :: "settle_conf \<Rightarrow> clock \<Rightarrow> pool_row \<Rightarrow> ballot list \<Rightarrow> nat option" where
  "rule5 conf clk r bs = winner_of (decide5 conf clk r bs)"

lemma four_agree_winner: "winner_of (four_agree bs w v) = Some u \<Longrightarrow> u = v"
  by (auto simp: four_agree_def winner_of_def split: if_splits option.splits)

interpretation five: quorum_rule "rule5 conf clk r" 5 4
proof
  fix bs :: "ballot list" and w assume "length bs = 5" "rule5 conf clk r bs = Some w"
  then show "4 \<le> count_ballots (ballot_for w) bs"
    by (auto simp: rule5_def decide5_def ballot_for_def winner_of_def [of "Refund _"] winner_of_def [of "Dispute _"] winner_of_def [of "Pending _"]
        dest: four_agree_winner split: if_splits)
qed

interpretation fives: two_quorums "rule5 conf clk r" "rule5 conf' clk' r'" 5 4
  by unfold_locales

lemma consensus_ballots:
  assumes "committee_version r" "decideConsensus conf clk db r = Consensus w u s"
  shows "length (committee_pks db (pr_id r)) = 5 \<and> rule5 conf clk r (map (ballot_of db (pr_id r) ''voter_pubkey'') (committee_pks db (pr_id r))) = Some w"
  using assms by (auto simp: decideConsensus_def decideConsensusV06_def rule5_def winner_of_def split: if_splits)

text \<open>C4: Two nodes that have sampled the same committee and settle a market for opposite winners disagree about the votes of at least
  three of its five members: each of these has a Yes recorded on one node and a No on the other.\<close>

theorem opposite_winners_need_double_votes:
  assumes "committee_version r" "committee_version r'" "pr_id r' = pr_id r" "committee_pks db' (pr_id r) = committee_pks db (pr_id r)"
    and "decideConsensus conf clk db r = Consensus w u s" "decideConsensus conf' clk' db' r' = Consensus w' u' s'" "w \<noteq> w'"
  shows "3 \<le> card {i. i < 5 \<and> (let b = ballot_of db (pr_id r) ''voter_pubkey'' (committee_pks db (pr_id r) ! i);
      b' = ballot_of db' (pr_id r) ''voter_pubkey'' (committee_pks db (pr_id r) ! i) in {b, b'} = {Yes, No})}"
proof -
  let ?pks = "committee_pks db (pr_id r)"
  let ?bs = "map (ballot_of db (pr_id r) ''voter_pubkey'') ?pks" and ?bs' = "map (ballot_of db' (pr_id r) ''voter_pubkey'') ?pks"
  have a: "length ?pks = 5" "rule5 conf clk r ?bs = Some w" and b: "rule5 conf' clk' r' ?bs' = Some w'"
    using consensus_ballots [OF assms(1,5)] consensus_ballots [OF assms(2,6)] assms(3,4) by auto
  have w: "w \<in> {0, 1}" "w' \<in> {0, 1}" using a b
    by (auto simp: rule5_def decide5_def winner_of_def [of "Refund _"] winner_of_def [of "Dispute _"] winner_of_def [of "Pending _"]
        dest!: four_agree_winner split: if_splits)
  have "3 \<le> card {i. i < 5 \<and> ?bs ! i = ballot_for w \<and> ?bs' ! i = ballot_for w'}"
    using fives.overlap [of ?bs conf clk r w ?bs' conf' clk' r' w'] a b by simp
  also have "\<dots> \<le> card {i. i < 5 \<and> (let b = ballot_of db (pr_id r) ''voter_pubkey'' (?pks ! i);
      b' = ballot_of db' (pr_id r) ''voter_pubkey'' (?pks ! i) in {b, b'} = {Yes, No})}"
    using assms(7) w a(1) by (intro card_mono) (auto simp: ballot_for_def Let_def)
  finally show ?thesis .
qed

subsection \<open>Waiting\<close>

text \<open>C20: Once the committee is sampled and the silent timeout has passed, a market is not left waiting, whatever was voted.\<close>

theorem no_endless_wait:
  assumes "committee_version r" "length (relay_ids r) = 5" "length (committee_pks db (pr_id r)) = 5"
    and "int (cf_silent conf) \<le> age_of clk r"
  shows "decideConsensus conf clk db r \<noteq> Pending x"
  using assms by (auto simp: decideConsensus_def decideConsensusV06_def decide5_def four_agree_def split: option.splits)

lemma count_le: "count_ballots b bs \<le> length bs"
  by (simp add: count_ballots_def)

lemma count_two: "b \<noteq> b' \<Longrightarrow> count_ballots b bs + count_ballots b' bs \<le> length bs"
proof -
  assume "b \<noteq> b'"
  then have "count_ballots b bs + count_ballots b' bs = length (filter (\<lambda>x. x = b \<or> x = b') bs)"
    unfolding count_ballots_def by (induction bs) auto
  then show ?thesis by simp
qed

lemma first_such_none: "first_such P xs = None \<longleftrightarrow> (\<forall>x \<in> set xs. \<not> P x)"
  by (induction xs) auto

text \<open>Four members for the same winner and an abstention refund the market: one member can cancel what the other four decided.\<close>

theorem one_abstention_refunds:
  assumes "committee_version r" "length (relay_ids r) = 5" "length (committee_pks db (pr_id r)) = 5" "bet_count db (pr_id r) \<noteq> 0"
    and "map (ballot_of db (pr_id r) ''voter_pubkey'') (committee_pks db (pr_id r)) = bs"
    and "count_ballots w bs = 4" "w \<in> {Yes, No}" "count_ballots Abstain bs = 1"
  shows "decideConsensus conf clk db r = Refund AbstainSlot"
proof -
  have l: "length bs = 5" using assms(3,5) by auto
  have split: "\<And>b. b \<in> set bs \<Longrightarrow> b = w \<or> b = Abstain"
  proof (rule ccontr)
    fix b assume b: "b \<in> set bs" "\<not> (b = w \<or> b = Abstain)"
    have "length (filter (\<lambda>x. x = w) bs) + length (filter (\<lambda>x. x = Abstain) bs) + length (filter (\<lambda>x. x = b) bs) \<le> length bs"
      using b(2) assms(7) by (induction bs) auto
    moreover have "0 < length (filter (\<lambda>x. x = b) bs)" using b(1) by (simp add: length_greater_0_conv filter_empty_conv)
    ultimately show False using assms(6,8) l by (simp add: count_ballots_def)
  qed
  have "silent_for bs w = None" 
  proof -
    have "first_such (\<lambda>b. b = Silent) bs = None" "first_such (\<lambda>b. b = Malformed) bs = None" "first_such (\<lambda>b. b \<in> {Yes, No} \<and> b \<noteq> w) bs = None"
      using split assms(7) unfolding first_such_none by blast+
    then show ?thesis by (simp add: silent_for_def)
  qed
  moreover have "w = No \<Longrightarrow> count_ballots Yes bs = 0" using split by (auto simp: count_ballots_def filter_empty_conv)
  ultimately have "decide5 conf clk r bs = Refund AbstainSlot" using assms(6,7)
    by (auto simp: decide5_def four_agree_def)
  then show ?thesis using assms(1-5) by (simp add: decideConsensus_def decideConsensusV06_def)
qed

subsection \<open>Later votes\<close>

definition votes_after :: "pool_db \<Rightarrow> pool_db \<Rightarrow> bool" where
  "votes_after db db' = (\<exists>es. pb_events db' = pb_events db @ es \<and> (\<forall>e \<in> set es. \<forall>d \<in> set (pb_events db). ev_observed_at d \<le> ev_observed_at e))"

lemma sort_append_head:
  assumes "xs \<noteq> []" "\<forall>y \<in> set ys. \<forall>x \<in> set xs. f x \<le> (f y :: nat)"
  shows "hd (sort_key f (xs @ ys)) = hd (sort_key f xs)"
proof -
  have stable: "filter (\<lambda>x. f k = f x) (sort_key f zs) = filter (\<lambda>x. f k = f x) zs" for k zs
  proof -
    have "(\<lambda>x. f k = f x) = (\<lambda>x. f x = f k)" by auto
    then show ?thesis by (simp add: sort_key_stable)
  qed
  have "sort_key f (xs @ ys) = sort_key f xs @ sort_key f ys"
    by (rule properties_for_sort_key) (use assms(2) in \<open>auto simp: sorted_append stable\<close>)
  then show ?thesis using assms(1) by simp
qed

lemma first_vote_kept:
  assumes "votes_after db db'" "first_vote db i key v = Some e"
  shows "first_vote db' i key v = Some e"
proof -
  obtain es where es: "pb_events db' = pb_events db @ es" "\<forall>e \<in> set es. \<forall>d \<in> set (pb_events db). ev_observed_at d \<le> ev_observed_at e"
    using assms(1) unfolding votes_after_def by blast
  define P where "P = (\<lambda>x :: chain_event. ev_type x = ''pool_oracle_vote'' \<and> (case payload_text (ev_payload x) of None \<Rightarrow> False
        | Some t \<Rightarrow> sql_like (like_member ''market_id'' i) t \<and> sql_like (like_member key v) t))"
  have f: "first_vote d i key v = (case sort_key ev_observed_at (filter P (pb_events d)) of [] \<Rightarrow> None | e # _ \<Rightarrow> Some e)" for d
    unfolding first_vote_def P_def ..
  have ne: "filter P (pb_events db) \<noteq> []" and hd: "hd (sort_key ev_observed_at (filter P (pb_events db))) = e"
    using assms(2) unfolding f by (cases "sort_key ev_observed_at (filter P (pb_events db))"; force)+
  have "hd (sort_key ev_observed_at (filter P (pb_events db) @ filter P es)) = e"
    using sort_append_head [OF ne, of "filter P es" ev_observed_at] es(2) hd by auto
  moreover have "filter P (pb_events db) @ filter P es \<noteq> []" using ne by simp
  ultimately show ?thesis unfolding f es(1)
    by (cases "sort_key ev_observed_at (filter P (pb_events db) @ filter P es)") (auto simp: sort_key_eq_Nil)
qed

lemma ballot_kept: "votes_after db db' \<Longrightarrow> ballot_of db i key v \<noteq> Silent \<Longrightarrow> ballot_of db' i key v = ballot_of db i key v"
  using first_vote_kept by (auto simp: ballot_of_def split: option.splits)


lemma count_kept: "(\<And>i. i < length bs \<Longrightarrow> bs ! i = b \<Longrightarrow> bs' ! i = b) \<Longrightarrow> length bs' = length bs \<Longrightarrow> count_ballots b bs \<le> count_ballots b bs'"
  unfolding count_ballots_def length_filter_conv_card by (rule card_mono) auto

lemma four_agree_cases: "four_agree bs w v = Consensus v (count_ballots w bs = 5) (if count_ballots w bs = 5 then None else silent_for bs w) \<or> four_agree bs w v = Refund AbstainSlot"
  by (auto simp: four_agree_def split: option.split)

text \<open>C10: Votes that arrive after a market of a committee of five (versions 0.6 and 0.7) was decided never turn it: whatever votes are
  recorded later than those it was decided with, and whatever the clock says, the decision is for the same winner or, when the missing
  member abstains, a refund.  The committee stays the one that was sampled and the market keeps a bet.\<close>

theorem decided_winner_stays:
  assumes "committee_version r" "decideConsensus conf clk db r = Consensus w u s"
    and "votes_after db db'" "pb_committee db' = pb_committee db" "bet_count db' (pr_id r) \<noteq> 0"
  shows "(\<exists>u' s'. decideConsensus conf' clk' db' r = Consensus w u' s') \<or> decideConsensus conf' clk' db' r = Refund AbstainSlot"
proof -
  let ?pks = "committee_pks db (pr_id r)"
  let ?b = "\<lambda>d. map (ballot_of d (pr_id r) ''voter_pubkey'') ?pks"
  have pk: "committee_pks db' (pr_id r) = ?pks" using assms(4) by (simp add: committee_pks_def)
  have a: "length ?pks = 5" "rule5 conf clk r (?b db) = Some w" "length (relay_ids r) = 5"
    using consensus_ballots [OF assms(1,2)] assms(1,2) by (auto simp: decideConsensus_def decideConsensusV06_def split: if_splits)
  have w: "w \<in> {0, 1}" using a(2)
    by (auto simp: rule5_def decide5_def winner_of_def [of "Refund _"] winner_of_def [of "Dispute _"] winner_of_def [of "Pending _"]
        dest!: four_agree_winner split: if_splits)
  have "4 \<le> count_ballots (ballot_for w) (?b db)" using five.decides [of "?b db" conf clk r w] a by simp
  also have "\<dots> \<le> count_ballots (ballot_for w) (?b db')"
    by (rule count_kept) (use a(1) ballot_kept [OF assms(3)] in \<open>auto simp: ballot_for_def split: if_splits\<close>)
  finally have c: "4 \<le> count_ballots (ballot_for w) (?b db')" .
  have "\<not> 4 \<le> count_ballots Yes (?b db')" if "w = 1"
    using count_two [of Yes No "?b db'"] c that a(1) by (auto simp: ballot_for_def)
  then have "decide5 conf' clk' r (?b db') = four_agree (?b db') (ballot_for w) w"
    using c w by (auto simp: decide5_def ballot_for_def)
  moreover have "decideConsensus conf' clk' db' r = decide5 conf' clk' r (?b db')"
    using assms(1,5) a pk by (simp add: decideConsensus_def decideConsensusV06_def)
  ultimately show ?thesis using four_agree_cases by metis
qed

subsection \<open>A vote that matches every member\<close>

fun mentions :: "string \<Rightarrow> string \<Rightarrow> json \<Rightarrow> bool" where
  "mentions k v (JObj kvs) = list_ex (\<lambda>(a, x). (a = k \<and> x = JStr v) \<or> mentions k v x) kvs"
| "mentions k v (JArr xs) = list_ex (mentions k v) xs"
| "mentions k v j = False"

definition plain_text :: "string \<Rightarrow> bool" where
  "plain_text s = (js_quote s = quoted s)"

lemma like_any: "sql_like p t \<Longrightarrow> sql_like (CHR ''%'' # p) (s @ t)"
  by (induction s) (cases t; auto)+

lemma like_tail: "sql_like (p @ ''%'') (p @ t)"
proof (induction p)
  case Nil show ?case using like_any [of "[]" "[]" t] by simp
next
  case (Cons c p) then show ?case using like_any [OF Cons.IH, of "[]"] by auto
qed

lemma like_within: "sublist p t \<Longrightarrow> sql_like (''%'' @ p @ ''%'') t"
  using like_any [OF like_tail] by (auto simp: sublist_def)

lemma sublist_join: "x \<in> set xs \<Longrightarrow> sublist x (js_join sep xs)"
proof (induction sep xs rule: js_join.induct)
  case (3 sep x y r) then show ?case by (auto simp: sublist_append intro: sublist_append_leftI)
qed auto

lemma mentions_text: "mentions k v j \<Longrightarrow> plain_text k \<Longrightarrow> plain_text v \<Longrightarrow> sublist (quoted k @ '':'' @ quoted v) (json_text j)"
proof (induction k v j rule: mentions.induct)
  case (1 k v kvs)
  let ?f = "\<lambda>(a, x). js_quote a @ '':'' @ json_text x"
  obtain a x where m: "(a, x) \<in> set kvs" "(a = k \<and> x = JStr v) \<or> mentions k v x" using "1.prems"(1) by (auto simp: list_ex_iff)
  have "sublist (quoted k @ '':'' @ quoted v) (?f (a, x))"
  proof (cases "a = k \<and> x = JStr v")
    case True then show ?thesis using "1.prems"(2,3) by (simp add: plain_text_def)
  next
    case False
    then have "sublist (quoted k @ '':'' @ quoted v) (json_text x)" using m "1.IH" [OF m(1) refl] "1.prems"(2,3) by blast
    also have "sublist (json_text x) (?f (a, x))" using sublist_append_leftI [of "json_text x" "js_quote a @ '':''"] by simp
    finally show ?thesis .
  qed
  also have "sublist \<dots> (js_join '','' (map ?f kvs))" by (rule sublist_join) (use m(1) in force)
  also have "sublist \<dots> (json_text (JObj kvs))" by (simp add: sublist_append sublist_Cons_right)
  finally show ?case .
next
  case (2 k v xs)
  obtain x where x: "x \<in> set xs" "mentions k v x" using "2.prems"(1) by (auto simp: list_ex_iff)
  have "sublist (quoted k @ '':'' @ quoted v) (json_text x)" using "2.IH" x "2.prems"(2,3) by blast
  also have "sublist \<dots> (js_join '','' (map json_text xs))" by (rule sublist_join) (use x(1) in simp)
  also have "sublist \<dots> (json_text (JArr xs))" by (simp add: sublist_append sublist_Cons_right)
  finally show ?case .
qed auto

lemma mentions_like: "mentions k v j \<Longrightarrow> plain_text k \<Longrightarrow> plain_text v \<Longrightarrow> sql_like (like_member k v) (json_text j)"
  using like_within [OF mentions_text] by (simp add: like_member_def)

lemma head_of_sorted:
  "(case sort_key f (filter P xs) of [] \<Rightarrow> None | e # _ \<Rightarrow> Some e) = None \<Longrightarrow> P e \<Longrightarrow>
   (case sort_key f (filter P (xs @ [e])) of [] \<Rightarrow> None | e # _ \<Rightarrow> Some e) = Some e"
proof -
  assume h: "(case sort_key f (filter P xs) of [] \<Rightarrow> None | e # _ \<Rightarrow> Some e) = None" and e: "P e"
  have "sort_key f (filter P xs) = []" using h by (cases "sort_key f (filter P xs)") simp_all
  then have "filter P xs = []" by (metis length_0_conv length_sort)
  then show ?thesis using e by simp
qed

lemma first_added:
  assumes "first_vote db i key v = None" "pb_events db' = pb_events db @ [e]" "ev_type e = ''pool_oracle_vote''"
    and "case payload_text (ev_payload e) of None \<Rightarrow> False | Some t \<Rightarrow> sql_like (like_member ''market_id'' i) t \<and> sql_like (like_member key v) t"
  shows "first_vote db' i key v = Some e"
proof -
  define P :: "chain_event \<Rightarrow> bool" where "P x \<longleftrightarrow> ev_type x = ''pool_oracle_vote'' \<and> (case payload_text (ev_payload x) of None \<Rightarrow> False
    | Some t \<Rightarrow> sql_like (like_member ''market_id'' i) t \<and> sql_like (like_member key v) t)" for x
  have f: "first_vote d i key v = (case sort_key ev_observed_at (filter P (pb_events d)) of [] \<Rightarrow> None | e # _ \<Rightarrow> Some e)" for d
    unfolding first_vote_def P_def [abs_def] by (rule refl)
  have "P e" unfolding P_def by (rule conjI [OF assms(3,4)])
  then show ?thesis using head_of_sorted [of ev_observed_at P "pb_events db" e] assms(1) by (simp only: f assms(2) simp_thms)
qed

text \<open>C33: One member of the committee is enough: in a market with a bet and a sampled committee of which nobody's vote is recorded yet, a
  new Yes or No vote that is accepted from one member and whose text also names the other four decides the market unanimously; the
  identifiers of market and members need no escapes in JSON.\<close>

theorem one_message_decides:
  assumes market: "find_pool db i = Some r" "committee_version r" "length (relay_ids r) = 5" "bet_count db i \<noteq> 0"
    and committee: "length (committee_pks db i) = 5" "\<forall>pk \<in> set (committee_pks db i). plain_text pk \<and> mentions ''voter_pubkey'' pk m"
    and first: "\<forall>pk \<in> set (committee_pks db i). first_vote db i ''voter_pubkey'' pk = None" "plain_text i"
      "\<forall>x \<in> set (pb_events db). (ev_txid x \<noteq> tx \<or> ev_type x \<noteq> ''pool_oracle_vote'') \<and> ev_id x \<noteq> pe_uuid env (pb_draws db)"
    and vote: "text_field m ''market_id'' = Some i" "i \<noteq> []" "js_get m ''outcome'' = Some (JStr out)" "out \<in> {''YES'', ''NO''}" "js_truthy (js_get m ''signature'')"
      "text_field m ''voter_pubkey'' = Some pk" "pk \<noteq> []" "toLowerCase pk \<in> set (committee_pks db i)" "signed_by env m pk" "text_field m ''_tx'' = Some tx"
  shows "decideConsensus conf clk (handlePoolOracleVote env m db) r = Consensus (if out = ''YES'' then 0 else 1) True None"
proof -
  have i: "pr_id r = i" using market(1) find_Some_iff [of "\<lambda>q. pr_id q = i" "pb_markets db" r] by (auto simp: find_pool_def)
  have pk: "js_get m ''voter_pubkey'' = Some (JStr pk)" and mi: "js_get m ''market_id'' = Some (JStr i)"
    using vote(1,6) by (auto simp: text_field_def split: option.splits json.splits)
  have lower: "lower_member m ''voter_pubkey'' = toLowerCase pk" "js_String (member_or_null m ''voter_pubkey'') = pk"
    using pk vote(7) by (simp_all add: lower_member_def member_or_null_def)
  have assigned: "assigned_pks db r = committee_pks db i" using market(2) i by (simp add: assigned_pks_def committee_version_def)
  have out: "out \<noteq> []" using vote(4) by auto
  have "handlePoolOracleVote env m db = ingest_event env m ''pool_oracle_vote'' (relay_address db (pr_maker_relay r)) db"
    using vote(1-3,5,7-9) out market(1) pk lower assigned by (simp add: handlePoolOracleVote_def)
  moreover have fresh: "\<not> list_ex (\<lambda>x. (ev_txid x = tx \<and> ev_type x = ''pool_oracle_vote'') \<or> ev_id x = pe_uuid env (pb_draws db)) (pb_events db)"
    using first(3) by (auto simp: list_ex_iff)
  ultimately obtain e where e: "pb_events (handlePoolOracleVote env m db) = pb_events db @ [e]" "ev_type e = ''pool_oracle_vote''" "ev_payload e = JsonPayload m"
    and keep: "pb_committee (handlePoolOracleVote env m db) = pb_committee db" "pb_bets (handlePoolOracleVote env m db) = pb_bets db"
    using vote(10) by (auto simp: ingest_event_def)
  let ?d = "handlePoolOracleVote env m db"
  have "mentions ''market_id'' i m" using mi by (cases m) (auto simp: list_ex_iff dest!: map_of_SomeD)
  then have mk: "sql_like (like_member ''market_id'' i) (json_text m)" by (rule mentions_like) (use first(2) in \<open>simp_all add: plain_text_def, code_simp\<close>)
  define b where "b = (if out = ''YES'' then Yes else No)"
  have one: "ballot_of ?d i ''voter_pubkey'' p = b" if "p \<in> set (committee_pks db i)" for p
  proof -
    have "sql_like (like_member ''voter_pubkey'' p) (json_text m)"
      by (rule mentions_like) (use committee(2) that in \<open>simp_all add: plain_text_def, code_simp\<close>)
    then have "first_vote ?d i ''voter_pubkey'' p = Some e" using first_added [OF _ e(1,2)] first(1) that mk e(3)
      by (simp add: payload_text_def)
    then show ?thesis using e(3) vote(3,4) by (auto simp: ballot_of_def read_ballot_def b_def)
  qed
  have pks: "committee_pks ?d i = committee_pks db i" using keep(1) by (simp add: committee_pks_def)
  have all: "map (ballot_of ?d i ''voter_pubkey'') (committee_pks db i) = replicate 5 b"
    using one committee(1) by (simp add: map_replicate_const cong: map_cong)
  have "decide5 conf clk r (replicate 5 b) = Consensus (if out = ''YES'' then 0 else 1) True None"
    by (simp add: b_def decide5_def four_agree_def count_ballots_def numeral_eq_Suc)
  then show ?thesis using market(2-4) committee(1) keep(2) i pks all
    by (simp add: decideConsensus_def decideConsensusV06_def bet_count_def)
qed

subsection \<open>Concrete instances\<close>

definition ex_members :: "string list" where
  "ex_members = [''1'', ''2'', ''3'', ''4'', ''5'']"

definition ex_ballot :: "nat \<Rightarrow> string \<Rightarrow> string \<Rightarrow> chain_event" where
  "ex_ballot t pk out = \<lparr> ev_id = nat_str t, ev_txid = pk @ out, ev_from = None, ev_to = None, ev_type = ''pool_oracle_vote'',
     ev_payload = JsonPayload (JObj [(''market_id'', JStr ''m''), (''voter_pubkey'', JStr pk), (''outcome'', JStr out)]),
     ev_observed_by = ''s'', ev_observed_at = t \<rparr>"

definition ex_voting_pool :: pool_row where
  "ex_voting_pool = ex_pool\<lparr> pr_status := ''verifying'', pr_relays := JsonPayload (JArr (map JStr ex_members)) \<rparr>"

definition ex_votes_db :: "string list \<Rightarrow> pool_db" where
  "ex_votes_db outs = (ex_pdb [ex_voting_pool])\<lparr> pb_committee := [(''m'', Some (JArr (map JStr ex_members)))], pb_bets := [ex_bet],
     pb_events := map2 (\<lambda>pk out. ex_ballot 7 pk out) ex_members outs \<rparr>"

definition ex_conf :: settle_conf where
  "ex_conf = \<lparr> cf_silent = 3, cf_disagreement = 12, cf_dispute = 1, cf_watchdog = 6, cf_quorum_sec = 1, cf_giveup = 10, cf_timebox = 3 \<rparr>"

definition ex_clock :: "nat \<Rightarrow> clock" where
  "ex_clock n = \<lparr> ck_now = n, ck_time = (\<lambda>_. Some 0) \<rparr>"

lemma like_needs_digit: "sql_like p t \<Longrightarrow> d \<in> set p \<Longrightarrow> digit_char d \<Longrightarrow> d \<in> set t"
proof (induction p t rule: sql_like.induct)
  case (3 c p e t)
  have "c = e" if "digit_char c" "lower_char c = lower_char e"
    using that by (auto simp: lower_char_def digit_char_def split: if_splits)
  then show ?case using 3 by (auto split: if_splits simp: digit_char_def)
qed (auto split: if_splits simp: digit_char_def)

lemma ex_plain:
  "plain_text ''market_id''" "plain_text ''voter_pubkey''" "plain_text ''outcome''" "plain_text ''m''" "plain_text ''YES''" "plain_text ''NO''" "plain_text ''ABSTAIN''"
  "list_all plain_text ex_members"
  by code_simp+

lemma ex_like:
  assumes "out \<in> {''YES'', ''NO'', ''ABSTAIN''}" "p \<in> set ex_members" "pk \<in> set ex_members"
  shows "sql_like (like_member ''voter_pubkey'' p) (json_text (JObj [(''market_id'', JStr ''m''), (''voter_pubkey'', JStr pk), (''outcome'', JStr out)])) \<longleftrightarrow> p = pk"
    (is "sql_like ?l ?t \<longleftrightarrow> _")
proof
  assume l: "sql_like ?l ?t"
  have q: "js_quote pk = quoted pk" "js_quote out = quoted out" using assms(1,3) ex_plain by (auto simp: plain_text_def list_all_iff)
  have "set ?t \<subseteq> set pk \<union> set out \<union> {c. \<not> digit_char c}"
    by (simp add: q ex_plain [unfolded plain_text_def]) (auto simp: quoted_def digit_char_def)
  moreover have "\<not> digit_char c" if "c \<in> set out" for c using that assms(1) by (auto simp: digit_char_def)
  moreover have d: "digit_char (hd p) \<and> hd p \<in> set ?l" using assms(2) by (auto simp: ex_members_def digit_char_def quoted_def like_member_def)
  ultimately have "hd p \<in> set pk" using like_needs_digit [OF l] by blast
  then show "p = pk" using assms(2,3) by (auto simp: ex_members_def)
next
  assume "p = pk"
  moreover have "plain_text pk" using assms(3) ex_plain by (auto simp: list_all_iff)
  ultimately show "sql_like ?l ?t" by (intro mentions_like) (auto simp: ex_plain)
qed

lemma ex_like_market:
  "sql_like (like_member ''market_id'' ''m'') (json_text (JObj [(''market_id'', JStr ''m''), (''voter_pubkey'', JStr pk), (''outcome'', JStr out)]))"
  by (rule mentions_like; (simp; fail | code_simp))

lemmas ex_eval = ex_votes_db_def ex_ballot_def ex_members_def ballot_of_def first_vote_def payload_text_def ex_like_market
  ex_like [unfolded ex_members_def] read_ballot_def

lemma ex_four_yes: "map (ballot_of (ex_votes_db [''YES'', ''YES'', ''YES'', ''YES'']) ''m'' ''voter_pubkey'') ex_members = [Yes, Yes, Yes, Yes, Silent]"
  by (simp add: ex_eval del: json_text.simps)

lemma ex_five_no: "map (ballot_of (ex_votes_db [''NO'', ''NO'', ''NO'', ''NO'', ''NO'']) ''m'' ''voter_pubkey'') ex_members = [No, No, No, No, No]"
  by (simp add: ex_eval del: json_text.simps)

lemma ex_abstention: "map (ballot_of (ex_votes_db [''YES'', ''YES'', ''ABSTAIN'', ''YES'', ''YES'']) ''m'' ''voter_pubkey'') ex_members = [Yes, Yes, Abstain, Yes, Yes]"
  by (simp add: ex_eval del: json_text.simps)

lemma ex_pks: "committee_pks (ex_votes_db outs) ''m'' = ex_members" "pr_id ex_voting_pool = ''m''" "committee_version ex_voting_pool"
    "length (relay_ids ex_voting_pool) = 5" "bet_count (ex_votes_db outs) ''m'' = 1" "length ex_members = 5"
  by (simp_all add: committee_pks_def ex_votes_db_def bet_count_def, (simp add: ex_bet_def | code_simp)+)

lemma ex_decide: "decideConsensus conf clk (ex_votes_db outs) ex_voting_pool
    = decide5 conf clk ex_voting_pool (map (ballot_of (ex_votes_db outs) ''m'' ''voter_pubkey'') ex_members)"
  by (simp add: decideConsensus_def decideConsensusV06_def ex_pks)

lemma ex_decisions:
  "decideConsensus conf clk (ex_votes_db [''YES'', ''YES'', ''YES'', ''YES'']) ex_voting_pool = Consensus 0 False (Some 4)"
  "decideConsensus conf clk (ex_votes_db [''NO'', ''NO'', ''NO'', ''NO'', ''NO'']) ex_voting_pool = Consensus 1 True None"
  unfolding ex_decide ex_four_yes ex_five_no by (simp_all add: decide5_def four_agree_def silent_for_def count_ballots_def)

theorem opposite_winners_need_double_votes_witness:
  "3 \<le> card {i. i < 5 \<and> (let b = ballot_of (ex_votes_db [''YES'', ''YES'', ''YES'', ''YES'']) (pr_id ex_voting_pool) ''voter_pubkey''
        (committee_pks (ex_votes_db [''YES'', ''YES'', ''YES'', ''YES'']) (pr_id ex_voting_pool) ! i);
      b' = ballot_of (ex_votes_db [''NO'', ''NO'', ''NO'', ''NO'', ''NO'']) (pr_id ex_voting_pool) ''voter_pubkey''
        (committee_pks (ex_votes_db [''YES'', ''YES'', ''YES'', ''YES'']) (pr_id ex_voting_pool) ! i) in {b, b'} = {Yes, No})}"
  by (rule opposite_winners_need_double_votes [OF _ _ _ _ ex_decisions(1) [of ex_conf "ex_clock 0"] ex_decisions(2) [of ex_conf "ex_clock 0"]])
    (simp_all add: ex_pks)

theorem no_endless_wait_witness:
  "decideConsensus ex_conf (ex_clock 3) (ex_votes_db [''YES'']) ex_voting_pool \<noteq> Pending None"
  by (rule no_endless_wait; code_simp)

theorem one_abstention_refunds_witness:
  "decideConsensus ex_conf (ex_clock 0) (ex_votes_db [''YES'', ''YES'', ''ABSTAIN'', ''YES'', ''YES'']) ex_voting_pool = Refund AbstainSlot"
  by (rule one_abstention_refunds [where w = Yes and bs = "[Yes, Yes, Abstain, Yes, Yes]"]) (simp_all add: ex_pks ex_abstention count_ballots_def)

lemma ex_later_vote: "votes_after (ex_votes_db [''YES'', ''YES'', ''YES'', ''YES'']) (ex_votes_db [''YES'', ''YES'', ''YES'', ''YES'', ''NO''])"
  unfolding votes_after_def by (rule exI [of _ "[ex_ballot 7 ''5'' ''NO'']"]) (simp add: ex_votes_db_def ex_members_def ex_ballot_def)

theorem decided_winner_stays_witness:
  "(\<exists>u s. decideConsensus ex_conf (ex_clock 0) (ex_votes_db [''YES'', ''YES'', ''YES'', ''YES'', ''NO'']) ex_voting_pool = Consensus 0 u s)
   \<or> decideConsensus ex_conf (ex_clock 0) (ex_votes_db [''YES'', ''YES'', ''YES'', ''YES'', ''NO'']) ex_voting_pool = Refund AbstainSlot"
  by (rule decided_winner_stays [OF ex_pks(3) ex_decisions(1) [of ex_conf "ex_clock 0"] ex_later_vote]) (simp_all add: ex_pks, simp add: ex_votes_db_def)

definition ex_stuffed_vote :: json where
  "ex_stuffed_vote = JObj [(''t'', JStr ''pool_oracle_vote_v1''), (''market_id'', JStr ''m''), (''voter_pubkey'', JStr ''1''), (''outcome'', JStr ''YES''),
     (''signature'', JStr ''sig''), (''more'', JArr (map (\<lambda>p. JObj [(''voter_pubkey'', JStr p)]) (tl ex_members))), (''_tx'', JStr ''b'')]"

theorem one_message_decides_witness:
  "decideConsensus ex_conf (ex_clock 0) (handlePoolOracleVote (ex_penv JNull) ex_stuffed_vote (ex_votes_db [])) ex_voting_pool = Consensus 0 True None"
  by (rule one_message_decides [where i = "''m''" and pk = "''1''" and tx = "''b''" and out = "''YES''", simplified]; code_simp)

end
