(* ===== verification/Pool_Payouts.thy ===== *)
theory Pool_Payouts
  imports Pool_Consensus Mass Solvency Committee
begin

section \<open>What a settled market pays\<close>

text \<open>
  \<open>computePoolPayouts\<close> of \<open>kasia-console/src/services/pool-market-settler.js\<close>, the outputs \<open>dispatchPhase2\<close> builds from it and the
  fee it estimates, and \<open>computeV06Payouts\<close> of \<open>pool-market-settler-v06.mjs\<close>.  Amounts are BigInt and hence \<open>int\<close>; the copies the
  code keeps as Numbers agree with them up to \<open>2 ^ 53\<close> sompi, more than there are.  The outputs are an instance of the contract
  \<open>pool_split\<close> of \<open>Solvency\<close>.
\<close>

subsection \<open>The shares\<close>

record participant =
  pa_addr :: string
  pa_stake :: int
  pa_dir :: json
  pa_maker :: bool

record payout_args =
  pg_parts :: "participant list"
  pg_winner :: nat
  pg_broker_pct :: int
  pg_oracle_pct :: "int option"
  pg_maker_pct :: "int option"
  pg_bond :: int
  pg_miner :: int
  pg_unanimous :: bool
  pg_silent :: "nat option"
  pg_count :: "nat option"
  pg_committee :: bool
  pg_min_broker :: "int option"

record pool_payouts =
  po_broker :: int
  po_oracle :: int
  po_maker :: int
  po_winners :: "(nat \<times> bool \<times> int) list"
  po_extra :: "int option"
  po_bonds :: "(nat \<times> int) list"
  po_total :: int
  po_distributable :: int

datatype pool_payout_error = MinerFeeRequired | NoWinners | PoolBelowMinerFee | DistributableNegative

definition on_side :: "nat \<Rightarrow> participant \<Rightarrow> bool" where
  "on_side w p = (pa_dir p = JInt (int w))"

definition side_stake :: "(participant \<Rightarrow> bool) \<Rightarrow> participant list \<Rightarrow> int" where
  "side_stake P ps = (\<Sum>p\<leftarrow>filter P ps. pa_stake p)"

definition bps_of :: "int \<Rightarrow> int \<Rightarrow> int" where
  "bps_of v bps = bigdiv (v * bps) 10000"

definition or_default :: "'a option \<Rightarrow> 'a \<Rightarrow> 'a" where
  "or_default v d = (case v of None \<Rightarrow> d | Some x \<Rightarrow> x)"

definition total_pool :: "payout_args \<Rightarrow> int" where
  "total_pool a = side_stake (on_side (pg_winner a)) (pg_parts a) + side_stake (\<lambda>p. \<not> on_side (pg_winner a) p) (pg_parts a)"

definition broker_fee :: "payout_args \<Rightarrow> int" where
  "broker_fee a = max (bps_of (total_pool a) (pg_broker_pct a)) (or_default (pg_min_broker a) MIN_BROKER_FEE_FLOOR)"

definition bond_reserve :: "payout_args \<Rightarrow> int" where
  "bond_reserve a = (if pg_committee a then int (or_default (pg_count a) 3) * pg_bond a else 0)"

definition distributable_pool :: "payout_args \<Rightarrow> int" where
  "distributable_pool a = total_pool a - broker_fee a - bps_of (total_pool a) (or_default (pg_oracle_pct a) 100)
     - bps_of (total_pool a) (or_default (pg_maker_pct a) 10) - bond_reserve a - pg_miner a"

text \<open>The bond of a silent oracle: half to the winners, a quarter to the maker, the rest to the two others.\<close>

definition forfeit_shares :: "payout_args \<Rightarrow> int \<times> int \<times> int" where
  "forfeit_shares a = (if \<not> pg_unanimous a \<and> pg_silent a \<noteq> None \<and> \<not> pg_committee a
     then (let w = bigdiv (pg_bond a * 50) 100; m = bigdiv (pg_bond a * 25) 100; r = bigdiv (bigdiv (pg_bond a * 25) 100) 2
           in (w, m + (pg_bond a - (w + m + r * 2)), r))
     else (0, 0, 0))"

definition winner_shares :: "payout_args \<Rightarrow> int \<Rightarrow> (nat \<times> bool \<times> int) list" where
  "winner_shares a pool =
    (let ws = filter (\<lambda>(i, p). on_side (pg_winner a) p) (enumerate 0 (pg_parts a)); t = side_stake (on_side (pg_winner a)) (pg_parts a);
         shares = map (\<lambda>(i, p). if 0 < t then bigdiv (pool * pa_stake p) t else 0) ws; dust = pool - sum_list shares;
         extra = fst (snd (forfeit_shares a))
     in map (\<lambda>(k, (i, p), s). (i, pa_maker p, s + (if k = 0 then dust else 0) + (if pa_maker p then extra else 0))) (enumerate 0 (zip ws shares)))"

definition bond_returns :: "payout_args \<Rightarrow> (nat \<times> int) list" where
  "bond_returns a = map (\<lambda>i. (i, if pg_committee a then pg_bond a else pg_bond a + snd (snd (forfeit_shares a))))
     (filter (\<lambda>i. \<not> (\<not> pg_committee a \<and> \<not> pg_unanimous a \<and> pg_silent a = Some i)) [0..<or_default (pg_count a) 3])"

definition computePoolPayouts :: "payout_args \<Rightarrow> pool_payout_error + pool_payouts" where
  "computePoolPayouts a =
    (if pg_miner a < 0 then Inl MinerFeeRequired
     else if filter (on_side (pg_winner a)) (pg_parts a) = [] then Inl NoWinners
     else if total_pool a \<le> pg_miner a then Inl PoolBelowMinerFee
     else if distributable_pool a < 0 then Inl DistributableNegative
     else (case forfeit_shares a of (fw, fm, fo) \<Rightarrow> Inr \<lparr>
       po_broker = broker_fee a,
       po_oracle = bps_of (total_pool a) (or_default (pg_oracle_pct a) 100),
       po_maker = bps_of (total_pool a) (or_default (pg_maker_pct a) 10),
       po_winners = winner_shares a (distributable_pool a + fw),
       po_extra = (if \<not> list_ex (\<lambda>p. on_side (pg_winner a) p \<and> pa_maker p) (pg_parts a) \<and> 0 < fm then Some fm else None),
       po_bonds = bond_returns a,
       po_total = total_pool a,
       po_distributable = distributable_pool a \<rparr>))"

subsection \<open>The outputs\<close>

text \<open>The oracle fee: half evenly, half by stake, what remains to the first member.\<close>

definition oracle_shares :: "int \<Rightarrow> nat \<Rightarrow> int list \<Rightarrow> int list" where
  "oracle_shares v divisor stakes =
    (let half = bigdiv v 2; each = bigdiv half (int divisor); t = sum_list stakes;
         fees = map (\<lambda>s. each + (if 0 < t then bigdiv ((v - half) * s) t else 0)) stakes; dust = v - sum_list fees
     in case fees of [] \<Rightarrow> [] | f # fs \<Rightarrow> (f + dust) # fs)"

text \<open>\<open>getCommitteeStakesCanonical\<close>: the stakes of the snapshot in the order of the committee; zeros where it fails.\<close>

definition stake_in :: "snapshot_row \<Rightarrow> string \<Rightarrow> int option" where
  "stake_in s pk = (case index_of pk (map toLowerCase (sn_pks s)) of
      Some i \<Rightarrow> if i < length (sn_stakes s) then big_text (sn_stakes s ! i) else Some 0 | None \<Rightarrow> Some 0)"

definition getCommitteeStakesCanonical :: "pool_db \<Rightarrow> string \<Rightarrow> nat \<Rightarrow> int list" where
  "getCommitteeStakesCanonical db i divisor = (case find (\<lambda>s. sn_market s = i) (pb_snapshots db) of
      None \<Rightarrow> replicate divisor 0
    | Some s \<Rightarrow> (case map_of (pb_committee db) i of
        Some (Some (JArr pks)) \<Rightarrow> (case those (map (stake_in s) (committee_pks db i)) of Some xs \<Rightarrow> xs | None \<Rightarrow> replicate divisor 0)
      | Some None \<Rightarrow> []
      | _ \<Rightarrow> replicate divisor 0))"

definition oracle_output :: "string list \<Rightarrow> int list \<Rightarrow> nat \<times> int \<Rightarrow> leaf" where
  "oracle_output addrs fees = (\<lambda>(i, bond). (addrs ! i, bond + (if i < length fees then fees ! i else 0)))"

definition settle_outputs :: "bool \<Rightarrow> participant list \<Rightarrow> string \<Rightarrow> string \<Rightarrow> string list \<Rightarrow> int list \<Rightarrow> pool_payouts \<Rightarrow> leaf list" where
  "settle_outputs committee ps broker maker addrs fees po =
    (if 0 < po_broker po then [(broker, po_broker po)] else [])
    @ (if committee then map (oracle_output addrs fees) (po_bonds po) else [])
    @ map (\<lambda>(i, m, v). (pa_addr (ps ! i), v)) (po_winners po)
    @ (if 0 < po_maker po then [(maker, po_maker po)] else [])
    @ (case po_extra po of Some v \<Rightarrow> if v \<noteq> 0 then [(maker, v)] else [] | None \<Rightarrow> [])
    @ (if committee then [] else map (oracle_output addrs fees) (po_bonds po))"

text \<open>The assertion on the outputs that were built.\<close>

definition outputs_conserve :: "bool \<Rightarrow> int \<Rightarrow> pool_payouts \<Rightarrow> leaf list \<Rightarrow> bool" where
  "outputs_conserve committee miner po outs = (committee \<longrightarrow> leaf_sum outs = po_total po - miner)"

subsection \<open>The fee of the transaction\<close>

definition N_COMMITTEE :: nat where "N_COMMITTEE = 5"
definition STORAGE_MASS_MARGIN :: int where "STORAGE_MASS_MARGIN = 1000000"

definition thinThreshold :: "int \<Rightarrow> int" where
  "thinThreshold bond = int N_COMMITTEE * bond + MIN_BROKER_FEE_FLOOR + STORAGE_MASS_MARGIN"

text \<open>The bytes estimated for the transaction: the query does not read the scripts of the sides, so every side counts 2000.\<close>

definition txByteEstimate :: "bool \<Rightarrow> nat \<Rightarrow> nat \<Rightarrow> nat \<Rightarrow> int" where
  "txByteEstimate v07 spineRedeemSize sides winners =
    (let overhead = (66 * 5 + 33 * 5) + 2 * 5 + 33 * 40 + 36 + (if v07 then 60 else 0)
     in int (45 + overhead + spineRedeemSize + sides * (45 + 4 + 2000) + (1 + 5 + winners) * 50 + 80))"

definition settle_mass :: "bool \<Rightarrow> nat \<Rightarrow> nat \<Rightarrow> nat \<Rightarrow> int" where
  "settle_mass v07 spineRedeemSize sides winners = ceil_div (txByteEstimate v07 spineRedeemSize sides winners * 30) 10"

definition settle_fee :: "int \<Rightarrow> int" where
  "settle_fee mass = (let fee = max 2000000 ((mass + estimateStorageMass (computeDynamicMinBrokerFee mass)) * 110)
     in if MAX_TX_FEE_SOMPI < fee then MAX_TX_FEE_SOMPI else fee)"

subsection \<open>The earlier rule\<close>

datatype v06_error = BadWinner | BadMakerDirection | NoWinningSide | NoLosingSide | FeesAboveLosingPool | BalanceFails

record v06_args =
  vg_maker_stake :: int
  vg_maker_dir :: json
  vg_broker_pct :: int
  vg_oracle_pct :: int
  vg_bond :: int
  vg_miner :: int
  vg_winner :: json
  vg_bettors :: "(string \<times> json \<times> int) list"

record v06_payouts =
  vo_broker :: int
  vo_oracle :: int
  vo_per_committee :: int
  vo_winners :: "(string \<times> int \<times> int) list"
  vo_miner :: int
  vo_distributable :: int
  vo_losing :: int
  vo_winning :: int

definition binary_side :: "json \<Rightarrow> bool" where
  "binary_side j = (j \<in> {JInt 0, JInt 1})"

definition computeV06Payouts :: "v06_args \<Rightarrow> v06_error + v06_payouts" where
  "computeV06Payouts a =
    (if \<not> binary_side (vg_winner a) then Inl BadWinner
     else if \<not> binary_side (vg_maker_dir a) then Inl BadMakerDirection
     else (let all = (''__maker__'', vg_maker_dir a, vg_maker_stake a) # vg_bettors a; won = filter (\<lambda>(pk, d, s). d = vg_winner a) all;
         winning = (\<Sum>(pk, d, s)\<leftarrow>won. s); losing = (\<Sum>(pk, d, s)\<leftarrow>filter (\<lambda>(pk, d, s). d \<noteq> vg_winner a) all. s) in
       if winning = 0 then Inl NoWinningSide
       else if losing = 0 then Inl NoLosingSide
       else (let broker = max (bigdiv (losing * vg_broker_pct a) 10000) MIN_BROKER_FEE_FLOOR; oracle = bigdiv (losing * vg_oracle_pct a) 10000;
           per = bigdiv oracle (int COMMITTEE_SIZE) in
         if losing < broker + vg_miner a + oracle then Inl FeesAboveLosingPool
         else (let dist = losing - vg_miner a - broker - oracle; outs = map (\<lambda>(pk, d, s). (pk, s, s + bigdiv (dist * s) winning)) won;
             diff = (vg_maker_stake a + (\<Sum>(pk, d, s)\<leftarrow>vg_bettors a. s) + int COMMITTEE_SIZE * vg_bond a)
               - ((\<Sum>(pk, s, v)\<leftarrow>outs. v) + int COMMITTEE_SIZE * (vg_bond a + per) + broker + vg_miner a);
             tol = int (length outs + COMMITTEE_SIZE) in
           if diff < - tol \<or> tol < diff then Inl BalanceFails
           else Inr \<lparr> vo_broker = broker, vo_oracle = oracle, vo_per_committee = per, vo_winners = outs, vo_miner = vg_miner a,
             vo_distributable = dist, vo_losing = losing, vo_winning = winning \<rparr>))))"

subsection \<open>Sums\<close>

lemma filter_enumerate: "map (\<lambda>(i, p). f p) (filter (\<lambda>(i, p). P p) (enumerate n xs)) = map f (filter P xs)"
  by (induction xs arbitrary: n) auto

lemma filter_enumerate_snd: "map snd (filter (\<lambda>(i, p). P p) (enumerate n xs)) = filter P xs"
  by (induction xs arbitrary: n) auto

lemma sum_enumerate_later: "0 < n \<Longrightarrow> (\<Sum>(k, x)\<leftarrow>enumerate n xs. f x + (if k = 0 then d else 0)) = (\<Sum>x\<leftarrow>xs. (f x :: int))"
  by (induction xs arbitrary: n) auto

lemma sum_enumerate_first: "xs \<noteq> [] \<Longrightarrow> (\<Sum>(k, x)\<leftarrow>enumerate 0 xs. f x + (if k = 0 then d else 0)) = (\<Sum>x\<leftarrow>xs. (f x :: int)) + d"
  using sum_enumerate_later [of "Suc 0"] by (cases xs) auto

lemma side_stakes: "side_stake P ps + side_stake (\<lambda>p. \<not> P p) ps = (\<Sum>p\<leftarrow>ps. pa_stake p)"
  unfolding side_stake_def by (induction ps) auto

lemma total_pool_sum: "total_pool a = (\<Sum>p\<leftarrow>pg_parts a. pa_stake p)"
  unfolding total_pool_def by (rule side_stakes)

definition share_of :: "payout_args \<Rightarrow> int \<Rightarrow> participant \<Rightarrow> int" where
  "share_of a pool p = (let t = side_stake (on_side (pg_winner a)) (pg_parts a) in if 0 < t then bigdiv (pool * pa_stake p) t else 0)"

definition winners :: "payout_args \<Rightarrow> participant list" where
  "winners a = filter (on_side (pg_winner a)) (pg_parts a)"

lemma sum_map_eq: "map f xs = map g ys \<Longrightarrow> (\<Sum>x\<leftarrow>xs. f x) = (\<Sum>y\<leftarrow>ys. g y)"
  by simp

lemma winner_amounts:
  "map (\<lambda>(i, m, v). v) (winner_shares a pool)
    = map (\<lambda>(k, p). (share_of a pool p + (if pa_maker p then fst (snd (forfeit_shares a)) else 0))
        + (if k = 0 then pool - (\<Sum>p\<leftarrow>winners a. share_of a pool p) else 0)) (enumerate 0 (winners a))"
proof -
  let ?ws = "filter (\<lambda>(i, p). on_side (pg_winner a) p) (enumerate 0 (pg_parts a))"
  have sh: "map (\<lambda>(i, p). if 0 < side_stake (on_side (pg_winner a)) (pg_parts a) then bigdiv (pool * pa_stake p) (side_stake (on_side (pg_winner a)) (pg_parts a)) else 0) ?ws
      = map (share_of a pool) (winners a)"
    by (simp add: filter_enumerate share_of_def winners_def Let_def)
  have ws: "winners a = map snd ?ws" by (simp add: filter_enumerate_snd winners_def)
  show ?thesis unfolding winner_shares_def Let_def sh
    by (rule nth_equalityI) (auto simp: ws nth_enumerate_eq split: prod.splits)
qed

lemma makers_sum: "(\<Sum>p\<leftarrow>ps. f p + (if Q p then (e :: int) else 0)) = (\<Sum>p\<leftarrow>ps. f p) + int (length (filter Q ps)) * e"
  by (induction ps) (auto simp: algebra_simps)

lemma winner_sum:
  assumes "winners a \<noteq> []"
  shows "(\<Sum>(i, m, v)\<leftarrow>winner_shares a pool. v) = pool + int (length (filter pa_maker (winners a))) * fst (snd (forfeit_shares a))"
proof -
  have "(\<Sum>(i, m, v)\<leftarrow>winner_shares a pool. v) = (\<Sum>(k, p)\<leftarrow>enumerate 0 (winners a). (share_of a pool p + (if pa_maker p then fst (snd (forfeit_shares a)) else 0))
        + (if k = 0 then pool - (\<Sum>p\<leftarrow>winners a. share_of a pool p) else 0))"
    using winner_amounts [of a pool] by (rule arg_cong)
  also have "\<dots> = (\<Sum>p\<leftarrow>winners a. share_of a pool p + (if pa_maker p then fst (snd (forfeit_shares a)) else 0)) + (pool - (\<Sum>p\<leftarrow>winners a. share_of a pool p))"
    by (rule sum_enumerate_first [OF assms])
  finally show ?thesis by (simp add: makers_sum)
qed

lemma oracle_shares_sum: "stakes \<noteq> [] \<Longrightarrow> sum_list (oracle_shares v d stakes) = v"
  unfolding oracle_shares_def by (cases stakes) (auto simp: Let_def)

lemma length_oracle_shares [simp]: "length (oracle_shares v d stakes) = length stakes"
  unfolding oracle_shares_def by (cases stakes) (auto simp: Let_def)

lemma sum_fees: "length fees \<le> n \<Longrightarrow> (\<Sum>i\<leftarrow>[0..<n]. if i < length fees then fees ! i else (0::int)) = sum_list fees"
proof -
  assume l: "length fees \<le> n"
  have "(\<Sum>i\<leftarrow>[0..<n]. if i < length fees then fees ! i else (0::int)) = (\<Sum>i\<leftarrow>[0..<length fees] @ [length fees..<n]. if i < length fees then fees ! i else 0)"
    using upt_add_eq_append [of 0 "length fees" "n - length fees"] l by simp
  also have "\<dots> = (\<Sum>i\<leftarrow>[0..<length fees]. fees ! i)"
  proof -
    have a: "map (\<lambda>i. if i < length fees then fees ! i else 0) [0..<length fees] = map ((!) fees) [0..<length fees]" by simp
    have b: "map (\<lambda>i. if i < length fees then fees ! i else 0) [length fees..<n] = map (\<lambda>_. 0) [length fees..<n]" by simp
    show ?thesis unfolding map_append sum_list_append a b by simp
  qed
  finally show ?thesis by (simp add: map_nth)
qed

lemma payouts_cases:
  assumes "computePoolPayouts a = Inr po"
  shows "0 \<le> pg_miner a" "winners a \<noteq> []" "pg_miner a < total_pool a" "0 \<le> distributable_pool a"
    and "po_broker po = broker_fee a" "po_oracle po = bps_of (total_pool a) (or_default (pg_oracle_pct a) 100)"
      "po_maker po = bps_of (total_pool a) (or_default (pg_maker_pct a) 10)" "po_total po = total_pool a" "po_distributable po = distributable_pool a"
      "po_winners po = winner_shares a (distributable_pool a + fst (forfeit_shares a))" "po_bonds po = bond_returns a"
      "po_extra po = (if filter pa_maker (winners a) = [] \<and> 0 < fst (snd (forfeit_shares a)) then Some (fst (snd (forfeit_shares a))) else None)"
  using assms by (auto simp: computePoolPayouts_def winners_def list_ex_iff filter_empty_conv split: if_splits prod.splits)


subsection \<open>A committee of five\<close>

definition outputs_of :: "payout_args \<Rightarrow> string \<Rightarrow> string \<Rightarrow> string list \<Rightarrow> int list \<Rightarrow> pool_payouts \<Rightarrow> leaf list" where
  "outputs_of a broker maker addrs stakes po =
    settle_outputs (pg_committee a) (pg_parts a) broker maker addrs (oracle_shares (po_oracle po) (if pg_committee a then 5 else 3) stakes) po"

definition fair_args :: "payout_args \<Rightarrow> bool" where
  "fair_args a = (list_all (\<lambda>p. 0 \<le> pa_stake p) (pg_parts a) \<and> 0 \<le> pg_bond a \<and> 0 \<le> pg_broker_pct a \<and> 0 \<le> or_default (pg_oracle_pct a) 100
     \<and> 0 \<le> or_default (pg_maker_pct a) 10 \<and> 0 \<le> or_default (pg_min_broker a) MIN_BROKER_FEE_FLOOR)"

lemma bps_nonneg: "0 \<le> v \<Longrightarrow> 0 \<le> b \<Longrightarrow> 0 \<le> bps_of v b"
  by (simp add: bps_of_def bigdiv_ge_0)

lemma committee_forfeits: "pg_committee a \<Longrightarrow> forfeit_shares a = (0, 0, 0)"
  by (simp add: forfeit_shares_def)

lemma skipped: "0 \<le> v \<Longrightarrow> leaf_sum (if 0 < v then [(p, v)] else []) = v"
  by auto

lemma fee_total:
  "po_broker po + po_oracle po + po_maker po + bond_reserve a + po_distributable po + pg_miner a = total_pool a" if "computePoolPayouts a = Inr po"
  using payouts_cases [OF that] by (simp add: distributable_pool_def)

lemma leaf_sum_winners: "leaf_sum (map (\<lambda>(i, m, v). (pa_addr (ps ! i), v)) ws) = (\<Sum>(i, m, v)\<leftarrow>ws. v)"
  by (induction ws) auto

lemma leaf_sum_oracles: "leaf_sum (map (oracle_output addrs fees) bs) = (\<Sum>(i, b)\<leftarrow>bs. b) + (\<Sum>(i, b)\<leftarrow>bs. if i < length fees then fees ! i else 0)"
  by (induction bs) (auto simp: oracle_output_def)

lemma outputs_sum:
  assumes po: "computePoolPayouts a = Inr po" and fair: "fair_args a" and fees: "length fees \<le> n" "sum_list fees = po_oracle po"
    and bonds: "(\<Sum>(i, b)\<leftarrow>po_bonds po. if i < length fees then fees ! i else 0) = sum_list fees"
  shows "leaf_sum (settle_outputs c ps broker maker addrs fees po)
    = po_broker po + po_oracle po + po_maker po + (\<Sum>(i, m, v)\<leftarrow>po_winners po. v) + (\<Sum>(i, b)\<leftarrow>po_bonds po. b) + or_default (po_extra po) 0"
proof -
  have t: "0 < total_pool a" using payouts_cases(1,3) [OF po] by simp
  have m: "0 \<le> po_maker po" using payouts_cases(7) [OF po] fair t bps_nonneg by (simp add: fair_args_def)
  have b: "0 \<le> po_broker po" using payouts_cases(5) [OF po] fair by (simp add: broker_fee_def fair_args_def le_max_iff_disj)
  have x: "leaf_sum (case po_extra po of Some v \<Rightarrow> if v \<noteq> 0 then [(maker, v)] else [] | None \<Rightarrow> []) = or_default (po_extra po) 0"
    by (simp add: or_default_def split: option.split)
  show ?thesis
    unfolding settle_outputs_def map_append sum_list_append skipped [OF m] skipped [OF b] x leaf_sum_winners
    using fees(2) bonds leaf_sum_oracles [of addrs fees "po_bonds po"] by simp
qed

lemma committee_bonds: "pg_committee a \<Longrightarrow> pg_count a = Some n \<Longrightarrow> bond_returns a = map (\<lambda>i. (i, pg_bond a)) [0..<n]"
  by (simp add: bond_returns_def or_default_def)

lemma committee_sum:
  assumes po: "computePoolPayouts a = Inr po" and fair: "fair_args a" and c: "pg_committee a" "pg_count a = Some 5"
    and stakes: "stakes \<noteq> []" "length stakes \<le> 5"
  shows "leaf_sum (outputs_of a broker maker addrs stakes po) = total_pool a - pg_miner a"
proof -
  let ?fees = "oracle_shares (po_oracle po) 5 stakes"
  have b: "po_bonds po = map (\<lambda>i. (i, pg_bond a)) [0..<5]" using payouts_cases(11) [OF po] committee_bonds [OF c] by simp
  have "(\<Sum>(i, b)\<leftarrow>po_bonds po. if i < length ?fees then ?fees ! i else 0) = sum_list ?fees"
    using sum_fees [of ?fees 5] stakes(2) unfolding b by (simp add: comp_def del: upt_rec_numeral)
  then have "leaf_sum (settle_outputs True (pg_parts a) broker maker addrs ?fees po)
      = po_broker po + po_oracle po + po_maker po + (\<Sum>(i, m, v)\<leftarrow>po_winners po. v) + (\<Sum>(i, b)\<leftarrow>po_bonds po. b) + or_default (po_extra po) 0"
    using stakes by (intro outputs_sum [OF po fair, of _ 5]) (simp_all add: oracle_shares_sum)
  moreover have "(\<Sum>(i, m, v)\<leftarrow>po_winners po. v) = po_distributable po"
    using winner_sum [OF payouts_cases(2) [OF po]] payouts_cases(9,10) [OF po] committee_forfeits [OF c(1)] by simp
  moreover have "or_default (po_extra po) 0 = 0" using payouts_cases(12) [OF po] committee_forfeits [OF c(1)] by (simp add: or_default_def)
  moreover have "(\<Sum>(i, b)\<leftarrow>po_bonds po. b) = bond_reserve a" unfolding b using c by (simp add: bond_reserve_def or_default_def comp_def sum_list_triv)
  ultimately show ?thesis using fee_total [OF po] c(1) by (simp add: outputs_of_def)
qed


subsection \<open>No output is negative\<close>

lemma winners_stakes: "side_stake (on_side (pg_winner a)) (pg_parts a) = (\<Sum>p\<leftarrow>winners a. pa_stake p)"
  by (simp add: side_stake_def winners_def)

lemma share_nonneg: "fair_args a \<Longrightarrow> 0 \<le> d \<Longrightarrow> p \<in> set (winners a) \<Longrightarrow> 0 \<le> share_of a d p"
  by (auto simp: share_of_def Let_def fair_args_def winners_def list_all_iff intro!: bigdiv_ge_0)

lemma share_sum_le: "fair_args a \<Longrightarrow> 0 \<le> d \<Longrightarrow> (\<Sum>p\<leftarrow>winners a. share_of a d p) \<le> d"
proof (cases "0 < (\<Sum>p\<leftarrow>winners a. pa_stake p)")
  case True
  let ?t = "\<Sum>p\<leftarrow>winners a. pa_stake p"
  assume f: "fair_args a" and d: "0 \<le> d"
  have nn: "\<And>p. p \<in> set (winners a) \<Longrightarrow> 0 \<le> pa_stake p" using f by (auto simp: fair_args_def winners_def list_all_iff)
  have "(\<Sum>p\<leftarrow>winners a. share_of a d p) = (\<Sum>p\<leftarrow>winners a. (pa_stake p * d) div ?t)"
    using True d nn by (intro sum_map_eq map_cong) (auto simp: share_of_def winners_stakes bigdiv_nonneg mult.commute)
  moreover have "(\<Sum>p\<leftarrow>winners a. (pa_stake p * d) div ?t) * ?t \<le> ?t * d" by (rule floor_shares_le [OF nn d True])
  ultimately show ?thesis using True by (simp add: mult.commute)
next
  case False
  assume "0 \<le> d"
  then show ?thesis using False by (simp add: share_of_def winners_stakes sum_list_0)
qed

lemma in_map_snd: "x \<in> set xs \<Longrightarrow> (case x of (i, m, v) \<Rightarrow> v) \<in> set (map (\<lambda>(i, m, v). v) xs)"
  by force

lemma winner_nonneg:
  assumes "fair_args a" "0 \<le> d" "0 \<le> fst (snd (forfeit_shares a))" "(i, m, v) \<in> set (winner_shares a d)"
  shows "0 \<le> v"
proof -
  have "v \<in> set (map (\<lambda>(i, m, v). v) (winner_shares a d))" using in_map_snd [OF assms(4)] by simp
  then obtain x where x: "x \<in> set (enumerate 0 (winners a))" "v = (case x of (k, p) \<Rightarrow> (share_of a d p + (if pa_maker p then fst (snd (forfeit_shares a)) else 0))
      + (if k = 0 then d - (\<Sum>p\<leftarrow>winners a. share_of a d p) else 0))" unfolding winner_amounts list.set_map by (elim imageE)
  obtain k p where kp: "x = (k, p)" by fastforce
  have "p \<in> set (winners a)" using x(1) kp by (auto simp: in_set_enumerate_eq)
  then show ?thesis using x(2) kp share_nonneg [OF assms(1,2)] share_sum_le [OF assms(1,2)] assms(3) by simp
qed

lemma oracle_share_nonneg:
  assumes "0 \<le> v" "0 < d" "\<forall>s \<in> set stakes. 0 \<le> s" "length stakes \<le> d" "x \<in> set (oracle_shares v d stakes)"
  shows "0 \<le> x"
proof -
  define e where "e = bigdiv (bigdiv v 2) (int d)"
  define t where "t = sum_list stakes"
  define g where "g = (\<lambda>s. if 0 < t then bigdiv ((v - bigdiv v 2) * s) t else 0)"
  have h: "0 \<le> bigdiv v 2" "bigdiv v 2 \<le> v" using assms(1) by (auto simp: bigdiv_nonneg)
  have e0: "0 \<le> e" unfolding e_def by (rule bigdiv_ge_0 [OF h(1)]) simp
  have "e = bigdiv v 2 div int d" unfolding e_def by (rule bigdiv_nonneg [OF h(1)]) (use assms(2) in simp)
  then have "e * int d + bigdiv v 2 mod int d = bigdiv v 2" by (metis div_mult_mod_eq)
  moreover have "0 \<le> bigdiv v 2 mod int d" by (rule pos_mod_sign) (use assms(2) in simp)
  ultimately have e: "0 \<le> e" "e * int d \<le> bigdiv v 2" using e0 by linarith+
  have g: "0 \<le> g s" if "s \<in> set stakes" for s using that assms(3) h by (auto simp: g_def bigdiv_ge_0)
  have gs: "(\<Sum>s\<leftarrow>stakes. g s) \<le> v - bigdiv v 2"
  proof (cases "0 < t")
    case True
    have "(\<Sum>s\<leftarrow>stakes. g s) = (\<Sum>s\<leftarrow>stakes. (s * (v - bigdiv v 2)) div t)"
      using True h assms(3) by (intro sum_map_eq map_cong) (auto simp: g_def bigdiv_nonneg mult.commute)
    moreover have "(\<Sum>s\<leftarrow>stakes. (s * (v - bigdiv v 2)) div t) * t \<le> (\<Sum>s\<leftarrow>stakes. s) * (v - bigdiv v 2)"
      by (rule floor_shares_le) (use assms(3) h True in auto)
    ultimately show ?thesis using True by (simp add: t_def mult.commute)
  next
    case False then show ?thesis using h by (simp add: g_def sum_list_0)
  qed
  let ?fees = "map (\<lambda>s. e + g s) stakes"
  have "sum_list ?fees = int (length stakes) * e + (\<Sum>s\<leftarrow>stakes. g s)" by (induction stakes) (auto simp: algebra_simps)
  also have "\<dots> \<le> v" using gs e mult_right_mono [of "int (length stakes)" "int d" e] assms(4) by (simp add: mult.commute)
  finally have dust: "0 \<le> v - sum_list ?fees" by simp
  have "oracle_shares v d stakes = (case ?fees of [] \<Rightarrow> [] | f # fs \<Rightarrow> (f + (v - sum_list ?fees)) # fs)"
    unfolding oracle_shares_def Let_def e_def g_def t_def ..
  moreover obtain s ss where ss: "stakes = s # ss" using assms(5) by (cases stakes) (auto simp: oracle_shares_def)
  ultimately have "x = e + g s + (v - sum_list ?fees) \<or> (\<exists>u \<in> set ss. x = e + g u)" using assms(5) by auto
  moreover have "0 \<le> g s" "\<And>u. u \<in> set ss \<Longrightarrow> 0 \<le> g u" using g ss by auto
  ultimately show ?thesis using dust e(1) by (auto intro: add_nonneg_nonneg)
qed


subsection \<open>The contract of a splitter\<close>

definition settle_split :: "payout_args \<times> string \<times> string \<times> string list \<times> int list \<Rightarrow> leaf list option" where
  "settle_split = (\<lambda>(a, broker, maker, addrs, stakes). case computePoolPayouts a of Inl e \<Rightarrow> None | Inr po \<Rightarrow> Some (outputs_of a broker maker addrs stakes po))"

definition settle_rest :: "payout_args \<times> string \<times> string \<times> string list \<times> int list \<Rightarrow> int" where
  "settle_rest = (\<lambda>(a, x). total_pool a - pg_miner a)"

definition committee_args :: "payout_args \<times> string \<times> string \<times> string list \<times> int list \<Rightarrow> bool" where
  "committee_args = (\<lambda>(a, broker, maker, addrs, stakes). fair_args a \<and> pg_committee a \<and> pg_count a = Some 5 \<and> stakes \<noteq> [] \<and> length stakes \<le> 5 \<and> list_all (\<lambda>s. 0 \<le> s) stakes)"

lemma output_nonneg:
  assumes po: "computePoolPayouts a = Inr po" and ok: "committee_args (a, broker, maker, addrs, stakes)" and l: "l \<in> set (outputs_of a broker maker addrs stakes po)"
  shows "0 \<le> snd l"
proof -
  have a: "fair_args a" "pg_committee a" "pg_count a = Some 5" "length stakes \<le> 5" "\<forall>s \<in> set stakes. 0 \<le> s" using ok by (auto simp: committee_args_def list_all_iff)
  have t: "0 \<le> total_pool a" using payouts_cases(1,3) [OF po] by simp
  let ?fees = "oracle_shares (po_oracle po) 5 stakes"
  have fee: "0 \<le> x" if "x \<in> set ?fees" for x
    by (rule oracle_share_nonneg [OF _ _ a(5,4) that]) (use payouts_cases(6) [OF po] t a(1) bps_nonneg in \<open>auto simp: fair_args_def\<close>)
  have w: "0 \<le> v" if "(i, m, v) \<in> set (po_winners po)" for i m v
    by (rule winner_nonneg [OF a(1) payouts_cases(4) [OF po]])
      (use that payouts_cases(10) [OF po] committee_forfeits [OF a(2)] in simp_all)
  have o: "0 \<le> snd (oracle_output addrs ?fees b)" if b: "b \<in> set (po_bonds po)" for b
  proof -
    obtain i where "b = (i, pg_bond a)" using b payouts_cases(11) [OF po] committee_bonds [OF a(2,3)] by auto
    then show ?thesis using a(1) fee nth_mem [of i ?fees] by (auto simp: oracle_output_def fair_args_def)
  qed
  show ?thesis using l a(2) w o payouts_cases(12) [OF po] committee_forfeits [OF a(2)]
    unfolding outputs_of_def settle_outputs_def by (auto split: if_splits prod.splits)
qed

interpretation settled: pool_split settle_split settle_rest committee_args
proof
  fix x ls l assume s: "settle_split x = Some ls" and ok: "committee_args x"
  obtain a broker maker addrs stakes where x: "x = (a, broker, maker, addrs, stakes)" by (cases x) auto
  obtain po where po: "computePoolPayouts a = Inr po" "ls = outputs_of a broker maker addrs stakes po"
    using s x by (auto simp: settle_split_def split: sum.splits)
  show "leaf_sum ls = settle_rest x" using committee_sum [OF po(1)] ok po(2) by (simp add: x settle_rest_def committee_args_def)
  show "l \<in> set ls \<Longrightarrow> 0 \<le> snd l" using output_nonneg [OF po(1)] ok po(2) x by blast
qed


text \<open>C19: In a market of a committee of five the check on the outputs never fails: whatever was staked, they sum to the pool less the fee of
  the transaction, none is negative, and paying them in any order leaves nothing.\<close>

theorem settle_outputs_solvent:
  assumes "computePoolPayouts a = Inr po" "committee_args (a, broker, maker, addrs, stakes)"
    and "mset outs = mset (outputs_of a broker maker addrs stakes po)"
  shows "outputs_conserve (pg_committee a) (pg_miner a) po outs \<and> pay_claims (po_total po - pg_miner a) outs = Some 0"
proof -
  have s: "settle_split (a, broker, maker, addrs, stakes) = Some (outputs_of a broker maker addrs stakes po)" using assms(1) by (simp add: settle_split_def)
  have "leaf_sum outs = leaf_sum (outputs_of a broker maker addrs stakes po)" using assms(3) by (metis mset_map sum_mset_sum_list)
  then show ?thesis using settled.claims_complete [OF s assms(2,3)] settled.conserved [OF s assms(2)] payouts_cases(8) [OF assms(1)]
    by (simp add: outputs_conserve_def settle_rest_def)
qed

text \<open>In a market of a committee the winners together get their stakes and those of the losers less the fees, the five bonds and the
  fee of the transaction; they get back less than they staked exactly when the losers staked less than that.\<close>

theorem winners_lose_iff:
  assumes "computePoolPayouts a = Inr po" "pg_committee a"
  shows "(\<Sum>(i, m, v)\<leftarrow>po_winners po. v) < side_stake (on_side (pg_winner a)) (pg_parts a)
    \<longleftrightarrow> side_stake (\<lambda>p. \<not> on_side (pg_winner a) p) (pg_parts a) < po_broker po + po_oracle po + po_maker po + bond_reserve a + pg_miner a"
proof -
  have "(\<Sum>(i, m, v)\<leftarrow>po_winners po. v) = po_distributable po"
    using winner_sum [OF payouts_cases(2) [OF assms(1)]] payouts_cases(9,10) [OF assms(1)] committee_forfeits [OF assms(2)] by simp
  then show ?thesis using fee_total [OF assms(1)] unfolding total_pool_def by linarith
qed

text \<open>Every winner gets at least its share, rounded down, of what is left of the pool.\<close>

theorem winner_gets_share:
  assumes "computePoolPayouts a = Inr po" "fair_args a" "pg_committee a" "k < length (winners a)"
  shows "(case po_winners po ! k of (i, m, v) \<Rightarrow> share_of a (po_distributable po) (winners a ! k) \<le> v) \<and> length (po_winners po) = length (winners a)"
proof -
  let ?d = "po_distributable po"
  have w: "po_winners po = winner_shares a ?d" "0 \<le> ?d" using payouts_cases(4,9,10) [OF assms(1)] committee_forfeits [OF assms(3)] by simp_all
  have l: "length (winner_shares a ?d) = length (winners a)" using arg_cong [OF winner_amounts [of a ?d], of length] by simp
  have "(\<lambda>(i, m, v). v) (winner_shares a ?d ! k) = map (\<lambda>(i, m, v). v) (winner_shares a ?d) ! k" using assms(4) l by simp
  also have "\<dots> = share_of a ?d (winners a ! k) + (if k = 0 then ?d - (\<Sum>p\<leftarrow>winners a. share_of a ?d p) else 0)"
    unfolding winner_amounts using assms(4) committee_forfeits [OF assms(3)] by (simp add: nth_enumerate_eq)
  finally show ?thesis using share_sum_le [OF assms(2) w(2)] w(1) l by (auto split: prod.splits)
qed

subsection \<open>Three oracles\<close>

lemma three_returns: "\<not> pg_committee a \<Longrightarrow> pg_count a = Some 3 \<Longrightarrow> \<not> pg_unanimous a \<Longrightarrow> pg_silent a = Some k \<Longrightarrow> k < 3
    \<Longrightarrow> bond_returns a = map (\<lambda>i. (i, pg_bond a + snd (snd (forfeit_shares a)))) (filter (\<lambda>i. i \<noteq> k) [0, 1, 2])"
  by (auto simp: bond_returns_def or_default_def upt_rec)

lemma forfeit_parts: "\<not> pg_committee a \<Longrightarrow> \<not> pg_unanimous a \<Longrightarrow> pg_silent a = Some k \<Longrightarrow> forfeit_shares a = (w, m, r) \<Longrightarrow> w + m + 2 * r = pg_bond a"
  by (auto simp: forfeit_shares_def Let_def)

lemma forfeit_nonneg:
  assumes "0 \<le> pg_bond a" "forfeit_shares a = (w, m, r)"
  shows "0 \<le> w \<and> 0 \<le> m \<and> 0 \<le> r"
proof -
  let ?b = "pg_bond a"
  have b: "bigdiv (?b * 50) 100 = ?b * 50 div 100" "bigdiv (?b * 25) 100 = ?b * 25 div 100" using assms(1) by (simp_all add: bigdiv_nonneg)
  moreover have "bigdiv (?b * 25 div 100) 2 = ?b * 25 div 100 div 2" using assms(1) by (intro bigdiv_nonneg) auto
  ultimately show ?thesis using assms by (auto simp: forfeit_shares_def Let_def split: if_splits)
qed

text \<open>With three oracles, one of them silent, the fee share of the silent oracle is paid to nobody: the outputs sum to the pool and
  the three bonds less the fee of the transaction and that share.\<close>

theorem silent_fee_unpaid:
  assumes po: "computePoolPayouts a = Inr po" and fair: "fair_args a" and three: "\<not> pg_committee a" "pg_count a = Some 3"
    and silent: "\<not> pg_unanimous a" "pg_silent a = Some k" "k < 3" and maker: "length (filter pa_maker (winners a)) \<le> 1" and stakes: "length stakes = 3"
  shows "leaf_sum (outputs_of a broker maker addrs stakes po)
    = total_pool a + 3 * pg_bond a - pg_miner a - oracle_shares (po_oracle po) 3 stakes ! k"
proof -
  obtain w m r where f: "forfeit_shares a = (w, m, r)" by (cases "forfeit_shares a") auto
  let ?fees = "oracle_shares (po_oracle po) 3 stakes"
  have nn: "0 \<le> m" using forfeit_nonneg [OF _ f] fair by (simp add: fair_args_def)
  have t: "0 < total_pool a" using payouts_cases(1,3) [OF po] by simp
  have pos: "0 \<le> po_maker po" "0 \<le> po_broker po" using payouts_cases(5,7) [OF po] fair t bps_nonneg by (simp_all add: fair_args_def broker_fee_def le_max_iff_disj)
  have x: "leaf_sum (case po_extra po of Some v \<Rightarrow> if v \<noteq> 0 then [(maker, v)] else [] | None \<Rightarrow> []) = (if filter pa_maker (winners a) = [] then m else 0)"
    using payouts_cases(12) [OF po] nn f by auto
  have winners: "(\<Sum>(i, m, v)\<leftarrow>po_winners po. v) = po_distributable po + w + (if filter pa_maker (winners a) = [] then 0 else m)"
    using winner_sum [OF payouts_cases(2) [OF po]] payouts_cases(9,10) [OF po] f maker by (cases "filter pa_maker (winners a)") simp_all
  have len: "length ?fees = 3" using stakes by simp
  define fs where "fs = ?fees"
  obtain x y z where "fs = [x, y, z]" using len unfolding fs_def [symmetric] by (auto simp: numeral_3_eq_3 length_Suc_conv)
  then have xyz: "?fees = [x, y, z]" unfolding fs_def .
  have "x + y + z = po_oracle po" using oracle_shares_sum [of stakes "po_oracle po" 3] stakes xyz by (cases stakes) auto
  moreover have "(\<Sum>(i, b)\<leftarrow>po_bonds po. b) = 2 * (pg_bond a + r)" "(\<Sum>(i, b)\<leftarrow>po_bonds po. if i < length ?fees then ?fees ! i else 0) = x + y + z - ?fees ! k"
    using payouts_cases(11) [OF po] three_returns [OF three silent] f silent(3) unfolding xyz by (auto simp: numeral_3_eq_3 less_Suc_eq)
  ultimately show ?thesis using three(1) fee_total [OF po] forfeit_parts [OF three(1) silent(1,2) f] winners
    unfolding outputs_of_def settle_outputs_def map_append sum_list_append skipped [OF pos(1)] skipped [OF pos(2)] x leaf_sum_winners
      if_not_P [OF three(1)] leaf_sum_oracles by (simp add: bond_reserve_def)
qed

text \<open>Where no stakes are known the oracle fee is not split evenly: the first member takes the half meant for the stakes.\<close>

theorem first_takes_half:
  assumes "0 \<le> v"
  shows "oracle_shares v (Suc n) (replicate (Suc n) 0) = (v - int n * (v div 2 div int (Suc n))) # replicate n (v div 2 div int (Suc n))"
proof -
  have "bigdiv v 2 = v div 2" "bigdiv (v div 2) (int (Suc n)) = v div 2 div int (Suc n)" using assms by (auto intro!: bigdiv_nonneg simp del: of_nat_Suc)
  then show ?thesis by (simp add: oracle_shares_def Let_def sum_list_replicate del: of_nat_Suc)
qed

subsection \<open>The earlier rule\<close>

text \<open>The balance check of the earlier rule never fails: for stakes, fees and bonds that are not negative, what comes in exceeds what
  goes out by less than one sompi for each winner and each member of the committee.\<close>

theorem v06_balance_holds:
  assumes "0 \<le> vg_maker_stake a" "\<forall>(pk, d, s) \<in> set (vg_bettors a). 0 \<le> s" "0 \<le> vg_oracle_pct a"
  shows "computeV06Payouts a \<noteq> Inl BalanceFails"
proof -
  define all where "all = (''__maker__'', vg_maker_dir a, vg_maker_stake a) # vg_bettors a"
  define won where "won = filter (\<lambda>(pk, d, s). d = vg_winner a) all"
  define winning where "winning = (\<Sum>(pk, d, s)\<leftarrow>won. s)"
  define losing where "losing = (\<Sum>(pk, d, s)\<leftarrow>filter (\<lambda>(pk, d, s). d \<noteq> vg_winner a) all. s)"
  define broker where "broker = max (bigdiv (losing * vg_broker_pct a) 10000) MIN_BROKER_FEE_FLOOR"
  define orc where "orc = bigdiv (losing * vg_oracle_pct a) 10000"
  define per where "per = bigdiv orc (int COMMITTEE_SIZE)"
  define dist where "dist = losing - vg_miner a - broker - orc"
  define outs where "outs = map (\<lambda>(pk, d, s). (pk, s, s + bigdiv (dist * s) winning)) won"
  define diff where "diff = (vg_maker_stake a + (\<Sum>(pk, d, s)\<leftarrow>vg_bettors a. s) + int COMMITTEE_SIZE * vg_bond a)
      - ((\<Sum>(pk, s, v)\<leftarrow>outs. v) + int COMMITTEE_SIZE * (vg_bond a + per) + broker + vg_miner a)"
  have nn: "0 \<le> s" if "(pk, d, s) \<in> set all" for pk d s using that assms(1,2) by (auto simp: all_def)
  have stakes: "vg_maker_stake a + (\<Sum>(pk, d, s)\<leftarrow>vg_bettors a. s) = winning + losing"
  proof -
    have "(\<Sum>(pk, d, s)\<leftarrow>xs. s) = (\<Sum>(pk, d, s)\<leftarrow>filter (\<lambda>(pk, d, s). d = vg_winner a) xs. s) + (\<Sum>(pk, d, s)\<leftarrow>filter (\<lambda>(pk, d, s). d \<noteq> vg_winner a) xs. s)"
      for xs :: "(string \<times> json \<times> int) list" by (induction xs) auto
    from this [of all] show ?thesis unfolding winning_def losing_def won_def all_def by simp
  qed
  have small: "- int (length outs + COMMITTEE_SIZE) \<le> diff \<and> diff \<le> int (length outs + COMMITTEE_SIZE)"
    if w: "winning \<noteq> 0" and d: "0 \<le> dist"
  proof -
    let ?f = "\<lambda>(pk, d, s). (s :: int)"
    have sn: "\<And>x. x \<in> set won \<Longrightarrow> 0 \<le> ?f x" using nn by (auto simp: won_def)
    have wp: "0 < winning" using w sum_list_nonneg_int [of won ?f, OF sn] unfolding winning_def by linarith
    have ne: "won \<noteq> []" using w by (auto simp: winning_def)
    have lp: "0 \<le> losing" unfolding losing_def using nn by (intro sum_list_nonneg_int) auto
    have op: "0 \<le> orc" unfolding orc_def using lp assms(3) by (intro bigdiv_ge_0) auto
    have per: "per = orc div 5" unfolding per_def using op by (simp add: bigdiv_nonneg COMMITTEE_SIZE_def)
    let ?s = "\<Sum>x\<leftarrow>won. (?f x * dist) div winning"
    have "(\<Sum>(pk, s, v)\<leftarrow>outs. v) = winning + (\<Sum>x\<leftarrow>won. bigdiv (dist * ?f x) winning)"
    proof -
      have "(\<Sum>(pk, s, v)\<leftarrow>map (\<lambda>(pk, d, s). (pk, s, s + bigdiv (dist * s) t)) xs. v) = (\<Sum>x\<leftarrow>xs. ?f x) + (\<Sum>x\<leftarrow>xs. bigdiv (dist * ?f x) t)"
        for xs :: "(string \<times> json \<times> int) list" and t by (induction xs) auto
      then show ?thesis unfolding outs_def winning_def .
    qed
    also have "(\<Sum>x\<leftarrow>won. bigdiv (dist * ?f x) winning) = ?s"
      using sn d wp by (intro sum_map_eq map_cong) (auto simp: bigdiv_nonneg mult.commute)
    finally have out: "(\<Sum>(pk, s, v)\<leftarrow>outs. v) = winning + ?s" .
    have sumf: "(\<Sum>x\<leftarrow>won. ?f x) = winning" by (simp add: winning_def)
    have "?s * winning \<le> winning * dist" using floor_shares_le [of won ?f dist winning, OF sn d wp] unfolding sumf .
    then have lo: "?s \<le> dist" using wp by (simp add: mult.commute)
    have "winning * dist < ?s * winning + int (length won) * winning" using floor_shares_gt [OF ne wp, of ?f dist] unfolding sumf .
    then have "winning * dist < winning * (?s + int (length won))" by (simp add: algebra_simps)
    then have hi: "dist < ?s + int (length won)" using wp by simp
    have "diff = dist - ?s + (orc - 5 * per)" using stakes out unfolding diff_def by (simp add: dist_def COMMITTEE_SIZE_def)
    moreover have "0 \<le> orc - 5 * per" "orc - 5 * per < 5" unfolding per by presburger+
    ultimately show ?thesis using lo hi by (simp add: outs_def COMMITTEE_SIZE_def)
  qed
  show ?thesis
    unfolding computeV06Payouts_def Let_def all_def [symmetric] won_def [symmetric] winning_def [symmetric] losing_def [symmetric]
      broker_def [symmetric] orc_def [symmetric] per_def [symmetric] dist_def [symmetric] outs_def [symmetric] diff_def [symmetric]
    using small unfolding dist_def by auto
qed

subsection \<open>Concrete instances\<close>

text \<open>Two bettors of 300 and 200 KAS on the winning side, the maker with 100 KAS on the other.\<close>

definition ex_parts :: "participant list" where
  "ex_parts = [\<lparr> pa_addr = ''maker'', pa_stake = 10000000000, pa_dir = JInt 1, pa_maker = True \<rparr>,
     \<lparr> pa_addr = ''b1'', pa_stake = 30000000000, pa_dir = JInt 0, pa_maker = False \<rparr>,
     \<lparr> pa_addr = ''b2'', pa_stake = 20000000000, pa_dir = JInt 0, pa_maker = False \<rparr>]"

definition ex_args :: payout_args where
  "ex_args = \<lparr> pg_parts = ex_parts, pg_winner = 0, pg_broker_pct = 190, pg_oracle_pct = Some 100, pg_maker_pct = Some 10, pg_bond = 100000000,
     pg_miner = 5000000, pg_unanimous = False, pg_silent = Some 2, pg_count = Some 5, pg_committee = True, pg_min_broker = Some 30000000 \<rparr>"

definition ex_payouts :: pool_payouts where
  "ex_payouts = \<lparr> po_broker = 1140000000, po_oracle = 600000000, po_maker = 60000000,
     po_winners = [(1, False, 34617000000), (2, False, 23078000000)], po_extra = None,
     po_bonds = map (\<lambda>i. (i, 100000000)) [0..<5], po_total = 60000000000, po_distributable = 57695000000 \<rparr>"

lemma ex_computed: "computePoolPayouts ex_args = Inr ex_payouts"
  by code_simp

theorem settle_outputs_solvent_witness:
  "outputs_conserve (pg_committee ex_args) (pg_miner ex_args) ex_payouts (outputs_of ex_args ''br'' ''maker'' [''o1'', ''o2'', ''o3'', ''o4'', ''o5''] [5, 4, 3, 2, 1] ex_payouts)
   \<and> pay_claims (po_total ex_payouts - pg_miner ex_args) (outputs_of ex_args ''br'' ''maker'' [''o1'', ''o2'', ''o3'', ''o4'', ''o5''] [5, 4, 3, 2, 1] ex_payouts) = Some 0"
  by (rule settle_outputs_solvent [OF ex_computed _ refl]) code_simp

theorem winners_lose_iff_witness:
  "(\<Sum>(i, m, v)\<leftarrow>po_winners ex_payouts. v) < side_stake (on_side (pg_winner ex_args)) (pg_parts ex_args)
    \<longleftrightarrow> side_stake (\<lambda>p. \<not> on_side (pg_winner ex_args) p) (pg_parts ex_args)
        < po_broker ex_payouts + po_oracle ex_payouts + po_maker ex_payouts + bond_reserve ex_args + pg_miner ex_args"
  by (rule winners_lose_iff [OF ex_computed]) code_simp

theorem winner_gets_share_witness:
  "(case po_winners ex_payouts ! 1 of (i, m, v) \<Rightarrow> share_of ex_args (po_distributable ex_payouts) (winners ex_args ! 1) \<le> v)
    \<and> length (po_winners ex_payouts) = length (winners ex_args)"
  by (rule winner_gets_share [OF ex_computed]) code_simp+

definition ex_three :: payout_args where
  "ex_three = ex_args\<lparr> pg_committee := False, pg_count := Some 3 \<rparr>"

lemma ex_three_computed: "\<exists>po. computePoolPayouts ex_three = Inr po"
proof -
  have "(case computePoolPayouts ex_three of Inr po \<Rightarrow> True | Inl e \<Rightarrow> False)" by code_simp
  then show ?thesis by (auto split: sum.splits)
qed

theorem silent_fee_unpaid_witness:
  "\<exists>po. computePoolPayouts ex_three = Inr po \<and> leaf_sum (outputs_of ex_three ''br'' ''maker'' [''o1'', ''o2'', ''o3''] [1, 1, 1] po)
    = total_pool ex_three + 3 * pg_bond ex_three - pg_miner ex_three - oracle_shares (po_oracle po) 3 [1, 1, 1] ! 2"
proof -
  obtain po where po: "computePoolPayouts ex_three = Inr po" using ex_three_computed by blast
  have h: "fair_args ex_three" "\<not> pg_committee ex_three" "pg_count ex_three = Some 3" "\<not> pg_unanimous ex_three" "pg_silent ex_three = Some 2"
    "length (filter pa_maker (winners ex_three)) \<le> 1" by code_simp+
  show ?thesis using silent_fee_unpaid [OF po h(1-5) _ h(6), of "[1, 1, 1]"] po by auto
qed

theorem first_takes_half_witness: "oracle_shares 100 (Suc 4) (replicate (Suc 4) 0) = (100 - int 4 * (100 div 2 div int (Suc 4))) # replicate 4 (100 div 2 div int (Suc 4))"
  by (rule first_takes_half) simp

definition ex_v06 :: v06_args where
  "ex_v06 = \<lparr> vg_maker_stake = 10000000000, vg_maker_dir = JInt 1, vg_broker_pct = 100, vg_oracle_pct = 50, vg_bond = 100000000, vg_miner = 3000000,
     vg_winner = JInt 0, vg_bettors = [(''p'', JInt 0, 3000000001), (''q'', JInt 0, 2000000000)] \<rparr>"

theorem v06_balance_holds_witness: "computeV06Payouts ex_v06 \<noteq> Inl BalanceFails"
  by (rule v06_balance_holds) code_simp+

end
