(* ===== verification/Pool_Dispatch.thy ===== *)
theory Pool_Dispatch
  imports Pool_Payouts Shards
begin

section \<open>Building the transactions of a decided market\<close>

text \<open>
  \<open>dispatchPhase2\<close>, \<open>dispatchRefund\<close>, \<open>dispatchRefundDisagreement\<close> and \<open>handleRefunding\<close> of
  \<open>kasia-console/src/services/pool-market-settler.js\<close>, with \<open>loadPoolSnapshot\<close> of \<open>pool-market-settler-v06.mjs\<close>.  Each gets a
  row of \<open>pool_markets\<close> as its caller read it, which can be older than the table, and writes the table.  The state is \<open>settle_db\<close>:
  the database of \<open>Pool_Ingest\<close>, the markets that have shards, the transactions the node has seen spend an address, the history of
  the oracles, the memory of the watchdog, and the commands the relays were given (of a broadcast in chunks, the chunks that went out).  \<open>sv_ipc\<close> is
  \<open>sendCommandAsync\<close> to a relay (\<open>Inl\<close> where it throws; the number makes answers to equal commands independent), \<open>sv_addr\<close> the
  address of a public key (\<open>None\<close> where it throws), \<open>sv_words\<close> the wording of a reason, \<open>sv_live\<close> the relays with a process, \<open>sv_alive\<close> those that answer, \<open>sv_safe_json\<close> what kaspa-wasm
  writes for a transaction, \<open>sv_rebroadcast\<close> and \<open>sv_hold\<close> the settings \<open>SIGN_REQ_REBROADCAST_MS\<close> and \<open>POOL_V07_COMMINGLE_HOLD\<close>, \<open>sv_members\<close> the rows of
  the abandoned table \<open>oracle_pool_membership\<close>.  The clock
  stands still while a market is handled.  Metadata that is no object counts as empty.
\<close>

subsection \<open>State\<close>

record settle_env =
  sv_conf :: settle_conf
  sv_clock :: clock
  sv_iso :: "nat \<Rightarrow> string"
  sv_addr :: "string \<Rightarrow> string \<Rightarrow> string option"
  sv_ipc :: "string \<Rightarrow> json \<Rightarrow> nat \<Rightarrow> string + json"
  sv_hash :: "buf \<Rightarrow> buf"
  sv_sha256 :: "string \<Rightarrow> string"
  sv_blob :: "nat \<Rightarrow> string"
  sv_words :: "reason \<Rightarrow> string"
  sv_live :: "string list"
  sv_alive :: "string \<Rightarrow> bool"
  sv_safe_json :: "json \<Rightarrow> json option"
  sv_rebroadcast :: nat
  sv_hold :: bool
  sv_members :: "(string \<times> string) list"

record spend =
  sp_address :: string
  sp_tx :: string
  sp_outputs :: nat
  sp_time :: nat

record history_row =
  hi_market :: string
  hi_vote :: "string option"
  hi_reward :: "int option"

record settle_db =
  sd_pool :: pool_db
  sd_shards :: "string list"
  sd_spends :: "spend list"
  sd_history :: "history_row list"
  sd_backoff :: "(string \<times> nat) list"
  sd_sent :: "(string \<times> json) list"

definition on_pool :: "(pool_db \<Rightarrow> pool_db) \<Rightarrow> settle_db \<Rightarrow> settle_db" where
  "on_pool f s = s\<lparr> sd_pool := f (sd_pool s) \<rparr>"

definition sql_time :: "settle_env \<Rightarrow> nat" where
  "sql_time sv = ck_now (sv_clock sv) div 1000 * 1000"

definition iso_now :: "settle_env \<Rightarrow> json" where
  "iso_now sv = JStr (sv_iso sv (ck_now (sv_clock sv)))"

text \<open>\<open>UPDATE pool_markets SET ..., updated_at = CURRENT_TIMESTAMP WHERE id = ?\<close>\<close>

definition write_row :: "settle_env \<Rightarrow> string \<Rightarrow> (pool_row \<Rightarrow> pool_row) \<Rightarrow> settle_db \<Rightarrow> settle_db" where
  "write_row sv i f = on_pool (\<lambda>p. p\<lparr> pb_markets := update_where (\<lambda>q. pr_id q = i) (\<lambda>q. (f q)\<lparr> pr_updated := sql_time sv \<rparr>) (pb_markets p) \<rparr>)"

definition meta_kvs :: "pool_row \<Rightarrow> (string \<times> json) list" where
  "meta_kvs r = (case payload_json (pr_metadata r) of JObj kvs \<Rightarrow> kvs | _ \<Rightarrow> [])"

definition meta :: "pool_row \<Rightarrow> string \<Rightarrow> json option" where
  "meta r k = map_of (meta_kvs r) k"

definition set_meta :: "(string \<times> json) list \<Rightarrow> pool_row \<Rightarrow> pool_row" where
  "set_meta kvs q = q\<lparr> pr_metadata := JsonPayload (JObj kvs) \<rparr>"

definition set_status :: "string \<Rightarrow> pool_row \<Rightarrow> pool_row" where
  "set_status t q = q\<lparr> pr_status := t \<rparr>"

text \<open>\<open>{...kvs, k: v, ...}\<close> and \<open>delete\<close>\<close>

definition assign :: "(string \<times> json) list \<Rightarrow> (string \<times> json) list \<Rightarrow> (string \<times> json) list" where
  "assign kvs new = fold (\<lambda>(k, v). map_set k v) new kvs"

definition without :: "string \<Rightarrow> (string \<times> json) list \<Rightarrow> (string \<times> json) list" where
  "without k kvs = filter (\<lambda>(a, v). a \<noteq> k) kvs"

text \<open>\<open>INSERT INTO chain_events\<close>; \<open>None\<close> where a row with the transaction and the type is there.\<close>

definition add_event :: "settle_env \<Rightarrow> string \<Rightarrow> string \<Rightarrow> json \<Rightarrow> settle_db \<Rightarrow> settle_db option" where
  "add_event sv tx type j s = (let p = sd_pool s in
    if list_ex (\<lambda>x. (ev_txid x = tx \<and> ev_type x = type) \<or> ev_id x = sv_blob sv (pb_draws p)) (pb_events p) then None
    else Some (on_pool (\<lambda>p. p\<lparr> pb_events := pb_events p @ [\<lparr> ev_id = sv_blob sv (pb_draws p), ev_txid = tx, ev_from = None, ev_to = None,
      ev_type = type, ev_payload = JsonPayload j, ev_observed_by = ''pool-settler'', ev_observed_at = sql_time sv \<rparr>], pb_draws := pb_draws p + 1 \<rparr>) s))"

text \<open>\<open>sendCommandAsync\<close>, and the member of an answer that is \<open>ok\<close>.\<close>

definition right :: "'e + 'a \<Rightarrow> 'a option" where
  "right x = (case x of Inl e \<Rightarrow> None | Inr a \<Rightarrow> Some a)"

definition ask :: "settle_env \<Rightarrow> string \<Rightarrow> json \<Rightarrow> settle_db \<Rightarrow> json option \<times> settle_db" where
  "ask sv relay cmd s = (right (sv_ipc sv relay cmd (pb_draws (sd_pool s))), (on_pool (\<lambda>p. p\<lparr> pb_draws := pb_draws p + 1 \<rparr>) s)\<lparr> sd_sent := sd_sent s @ [(relay, cmd)] \<rparr>)"

definition answered :: "json option \<Rightarrow> string \<Rightarrow> json option" where
  "answered a k = (case a of None \<Rightarrow> None
     | Some j \<Rightarrow> if js_truthy (js_get j ''ok'') \<and> js_truthy (js_get j k) then js_get j k else None)"

definition hand_over :: "string \<Rightarrow> json \<Rightarrow> settle_db \<Rightarrow> settle_db" where
  "hand_over relay cmd s = s\<lparr> sd_sent := sd_sent s @ [(relay, cmd)] \<rparr>"

text \<open>\<open>parseInt(v, 10) || d\<close>\<close>

definition int_or :: "json \<Rightarrow> int \<Rightarrow> int" where
  "int_or v d = (case js_parseInt (Some v) of Some n \<Rightarrow> if n = 0 then d else n | None \<Rightarrow> d)"

text \<open>A value read back from an INTEGER column: a text that is a whole number was stored as a number.\<close>

definition int_column :: "json \<Rightarrow> json" where
  "int_column v = (case v of JStr t \<Rightarrow> (let (neg, r) = strip_sign t in if r \<noteq> [] \<and> list_all digit_char r
      then JInt (if neg then - int (str_val 0 r) else int (str_val 0 r)) else v) | _ \<Rightarrow> v)"

definition maker_stake :: "pool_row \<Rightarrow> int" where
  "maker_stake r = int_or (pr_maker_stake r) 0"

definition output_json :: "leaf \<Rightarrow> json" where
  "output_json l = JObj [(''address'', JStr (fst l)), (''amountSompi'', JStr (int_str (snd l)))]"

definition outpoint :: "string \<Rightarrow> json" where
  "outpoint tx = JObj [(''outpointTxid'', JStr tx), (''outpointIndex'', JInt 0)]"

text \<open>A market id or key, shortened for the synthetic transaction of an event.\<close>

definition event_tx :: "settle_env \<Rightarrow> string \<Rightarrow> string list \<Rightarrow> string" where
  "event_tx sv kind parts = js_join '':'' ([kind] @ map (take 12) parts @ [nat_str (ck_now (sv_clock sv))])"

subsection \<open>The refund of the maker\<close>

definition redeem_hex :: "pool_row \<Rightarrow> string" where
  "redeem_hex r = (case meta r ''spine_redeem_script_hex'' of Some (JStr h) \<Rightarrow> h | _ \<Rightarrow> [])"

definition computeMassAwareV07RefundFee :: "pool_row \<Rightarrow> int option" where
  "computeMassAwareV07RefundFee r = (if redeem_hex r = [] then None
     else (let size = int (45 + (70 + length (hex_decode (redeem_hex r))) + 50 + 80);
         mass = bigdiv (size * 25) 10 + estimateStorageMass (if maker_stake r = 0 then 100000000 else maker_stake r) in
       Some (min MAX_TX_FEE_SOMPI (max 50000 (mass * SOMPI_PER_MASS)))))"

definition refund_fee :: "pool_row \<Rightarrow> int option" where
  "refund_fee r = (if pr_version r = JStr ''v0.7'' then computeMassAwareV07RefundFee r else Some (int_or (pr_miner_fee r) 20000))"

definition refund_amount :: "pool_row \<Rightarrow> int \<Rightarrow> int" where
  "refund_amount r fee = (if committee_version r then maker_stake r - fee else maker_stake r + int_or (pr_bond r) 0 * 3 - fee)"

definition preimage_command :: "json \<Rightarrow> json list \<Rightarrow> leaf list \<Rightarrow> (string \<times> json) list \<Rightarrow> json" where
  "preimage_command addr inputs outs extra = JObj ([(''type'', JStr ''prediction_settle_build_preimage''), (''p2sh_address'', addr),
     (''required_input_outpoints'', JArr inputs), (''outputs'', JArr (map output_json outs))] @ extra)"

definition buildMakerRefundPreimage :: "settle_env \<Rightarrow> pool_row \<Rightarrow> settle_db \<Rightarrow> (json \<times> int) option \<times> settle_db" where
  "buildMakerRefundPreimage sv r s =
    (case full (relay_address (sd_pool s) (pr_maker_relay r)) of None \<Rightarrow> (None, s)
     | Some addr \<Rightarrow> (case refund_fee r of None \<Rightarrow> (None, s)
       | Some fee \<Rightarrow> (let v = refund_amount r fee in
           if v \<le> 0 then (None, s)
           else (let (a, s1) = ask sv (pr_maker_relay r) (preimage_command (JStr (pr_spine r)) [outpoint (pr_spine_tx r)] [(addr, v)] []) s in
             (map_option (\<lambda>tx. (tx, v)) (answered a ''tx_obj''), s1)))))"

definition dispatchRefund :: "settle_env \<Rightarrow> pool_row \<Rightarrow> reason \<Rightarrow> settle_db \<Rightarrow> settle_db" where
  "dispatchRefund sv r why s =
    (if pr_id r \<in> set (sd_shards s) then s
     else (case buildMakerRefundPreimage sv r s of (None, s1) \<Rightarrow> s1
       | (Some (tx, v), s1) \<Rightarrow> write_row sv (pr_id r) (set_status ''refunding'' \<circ> set_meta (assign (meta_kvs r)
           [(''refund_tx_obj'', tx), (''refund_reason'', JStr (sv_words sv why)), (''refund_dispatched_at'', iso_now sv), (''refund_amount'', JInt v)])) s1))"

definition REFUND_GRACE_SEC :: int where "REFUND_GRACE_SEC = 7200"

definition refund_command :: "pool_row \<Rightarrow> string \<Rightarrow> int \<Rightarrow> json \<Rightarrow> json \<Rightarrow> json" where
  "refund_command r addr lock tx amount = JObj [(''type'', JStr ''pool_refund_maker_unjoined_tx''), (''spine_p2sh_address'', JStr (pr_spine r)),
     (''spine_redeem_script_hex'', member_or_null (JObj (meta_kvs r)) ''spine_redeem_script_hex''),
     (''required_input_outpoint'', outpoint (pr_spine_tx r)),
     (''output'', JObj [(''address'', JStr addr), (''amountSompi'', JStr (js_String amount))]), (''lock_time'', JStr (int_str lock)), (''tx_obj_preimage'', tx)]"

definition handleRefunding :: "settle_env \<Rightarrow> pool_row \<Rightarrow> settle_db \<Rightarrow> settle_db" where
  "handleRefunding sv r s =
    (if \<not> committee_version r \<or> \<not> js_truthy (meta r ''refund_tx_obj'') \<or> \<not> js_truthy (meta r ''spine_redeem_script_hex'')
       \<or> \<not> has_member (JObj (meta_kvs r)) ''refund_amount'' \<or> cross_node (pr_maker_relay r) then s
     else (case (full (relay_address (sd_pool s) (pr_maker_relay r)), js_BigInt (Some (pr_deadline r))) of
       (Some addr, Some d) \<Rightarrow>
         (case ask sv (pr_maker_relay r) (refund_command r addr ((d + REFUND_GRACE_SEC) * 1000) (the (meta r ''refund_tx_obj'')) (the (meta r ''refund_amount''))) s of
            (a, s1) \<Rightarrow> (case answered a ''txId'' of
              Some (JStr tx) \<Rightarrow> write_row sv (pr_id r) (set_status ''refunded'' \<circ> (\<lambda>q. q\<lparr> pr_refund_tx := Some tx \<rparr>)) s1
            | _ \<Rightarrow> s1))
     | _ \<Rightarrow> s))"

subsection \<open>Cancelling\<close>

definition market_sides :: "pool_db \<Rightarrow> string \<Rightarrow> pool_bet list" where
  "market_sides p i = filter (\<lambda>b. br_market b = i) (pb_bets p)"

definition side_refund_json :: "string \<Rightarrow> string \<Rightarrow> pool_bet \<Rightarrow> json" where
  "side_refund_json i why b = JObj [(''market_id'', JStr i), (''bettor_pk'', JStr (br_bettor b)), (''side_p2sh'', JStr (br_side b)),
     (''side_lock_tx'', JStr (br_tx b)), (''stake'', int_column (br_stake b)), (''direction'', int_column (br_direction b)), (''reason'', JStr why),
     (''claim_entry'', JStr ''PoolSide_v07 entry 2 refund_market_cancelled'')]"

text \<open>One event for every bet; \<open>False\<close> where an insertion fails, which leaves the rest out.\<close>

fun emit_refunds :: "settle_env \<Rightarrow> string \<Rightarrow> string \<Rightarrow> pool_bet list \<Rightarrow> settle_db \<Rightarrow> bool \<times> settle_db" where
  "emit_refunds sv i why [] s = (True, s)"
| "emit_refunds sv i why (b # bs) s =
    (case add_event sv (event_tx sv ''bettor_refund'' [i, br_bettor b]) ''bettor_refund_available'' (side_refund_json i why b) s of
       None \<Rightarrow> (False, s) | Some s1 \<Rightarrow> emit_refunds sv i why bs s1)"

definition cancel_and_refund :: "settle_env \<Rightarrow> pool_row \<Rightarrow> (pool_row \<Rightarrow> pool_row) \<Rightarrow> string \<Rightarrow> (string \<times> json) list \<Rightarrow> reason \<Rightarrow> string \<Rightarrow> pool_bet list
    \<Rightarrow> settle_db \<Rightarrow> bool \<times> settle_db" where
  "cancel_and_refund sv r f what extra why side_why sides s =
    (let s1 = write_row sv (pr_id r) (set_status ''cancelled'' \<circ> f) s in
     case add_event sv (event_tx sv ''market_cancelled'' [pr_id r]) ''market_cancelled''
         (JObj ([(''market_id'', JStr (pr_id r)), (''reason'', JStr what)] @ extra @ [(''cancelled_at'', iso_now sv)])) s1 of
       None \<Rightarrow> (False, s1)
     | Some s2 \<Rightarrow> emit_refunds sv (pr_id r) side_why sides (dispatchRefund sv r why s2))"

subsection \<open>Settling\<close>

definition index_class :: "json \<Rightarrow> nat" where
  "index_class v = (case int_column v of JNull \<Rightarrow> 0 | JInt i \<Rightarrow> 1 | JFrac t \<Rightarrow> 1 | _ \<Rightarrow> 2)"

definition index_value :: "json \<Rightarrow> rat" where
  "index_value v = (case int_column v of JInt i \<Rightarrow> of_int i | JFrac t \<Rightarrow> (case js_Number (Some v) of Some q \<Rightarrow> q | None \<Rightarrow> 0) | _ \<Rightarrow> 0)"

text \<open>\<open>ORDER BY merkle_index ASC\<close>: rows without an index come first.\<close>

definition by_index :: "pool_bet list \<Rightarrow> pool_bet list" where
  "by_index bs = sort_key (index_class \<circ> br_index) (sort_key (index_value \<circ> br_index) bs)"

definition payout_network :: "pool_row \<Rightarrow> string" where
  "payout_network r = network_of (pr_spine r)"

text \<open>The addresses a settlement pays: the members of the committee, the broker, the maker, the bettors; \<open>None\<close> where one is missing.\<close>

definition oracle_addresses :: "pool_row \<Rightarrow> string list option" where
  "oracle_addresses r = (case pr_relays r of NoPayload \<Rightarrow> Some []
     | JsonPayload (JArr xs) \<Rightarrow> if list_all (\<lambda>v. js_truthy (Some v)) xs then Some (map js_String xs) else None
     | _ \<Rightarrow> None)"

definition broker_address :: "settle_env \<Rightarrow> pool_row \<Rightarrow> string option" where
  "broker_address sv r = (if js_truthy (Some (pr_broker r)) then full (sv_addr sv (js_String (pr_broker r)) (payout_network r)) else None)"

definition maker_address :: "settle_env \<Rightarrow> pool_db \<Rightarrow> pool_row \<Rightarrow> string option" where
  "maker_address sv p r =
    (let pk = (if pr_maker r \<noteq> [] then pr_maker r else if cross_node (pr_maker_relay r) then drop 11 (pr_maker_relay r) else []) in
     case (if pk = [] then None else full (sv_addr sv pk (payout_network r))) of
       Some a \<Rightarrow> Some a | None \<Rightarrow> full (relay_address p (pr_maker_relay r)))"

definition maker_side :: "pool_row \<Rightarrow> nat" where
  "maker_side r = (if pr_side r = JStr ''YES'' then 0 else 1)"

definition settle_parts :: "settle_env \<Rightarrow> pool_row \<Rightarrow> string \<Rightarrow> string list \<Rightarrow> pool_bet list \<Rightarrow> participant list" where
  "settle_parts sv r maker addrs sides = \<lparr> pa_addr = maker, pa_stake = maker_stake r, pa_dir = JInt (int (maker_side r)), pa_maker = True \<rparr>
     # map2 (\<lambda>a b. \<lparr> pa_addr = a, pa_stake = int_or (br_stake b) 0, pa_dir = int_column (br_direction b), pa_maker = False \<rparr>) addrs sides"

record settle_targets =
  st_oracles :: "string list"
  st_broker :: string
  st_maker :: string
  st_parts :: "participant list"

definition settle_targets_of :: "settle_env \<Rightarrow> pool_db \<Rightarrow> pool_row \<Rightarrow> pool_bet list \<Rightarrow> settle_targets option" where
  "settle_targets_of sv p r sides =
    (case (oracle_addresses r, broker_address sv r, those (map (\<lambda>b. full (sv_addr sv (br_bettor b) (payout_network r))) sides), maker_address sv p r) of
       (Some os, Some b, Some as, Some m) \<Rightarrow> Some \<lparr> st_oracles = os, st_broker = b, st_maker = m, st_parts = settle_parts sv r m as sides \<rparr>
     | _ \<Rightarrow> None)"

definition redeem_size :: "pool_row \<Rightarrow> nat" where
  "redeem_size r = (if redeem_hex r = [] then 2100 else length (hex_decode (redeem_hex r)))"

definition phase2_mass :: "pool_row \<Rightarrow> nat \<Rightarrow> participant list \<Rightarrow> int" where
  "phase2_mass r w ps = settle_mass (pr_version r = JStr ''v0.7'') (redeem_size r) (length ps - 1) (length (filter (on_side w) ps))"

definition phase2_fee :: "pool_row \<Rightarrow> nat \<Rightarrow> participant list \<Rightarrow> int" where
  "phase2_fee r w ps = (if committee_version r then settle_fee (phase2_mass r w ps) else int_or (pr_miner_fee r) 20000)"

text \<open>The fees of the oracles and the maker have no column of their own, so they are always the defaults.\<close>

definition phase2_args :: "pool_row \<Rightarrow> nat \<Rightarrow> bool \<Rightarrow> nat option \<Rightarrow> participant list \<Rightarrow> payout_args" where
  "phase2_args r w unanimous silent ps = \<lparr> pg_parts = ps, pg_winner = w, pg_broker_pct = int_or (pr_broker_pct r) 0, pg_oracle_pct = Some 100,
     pg_maker_pct = Some 10, pg_bond = int_or (pr_bond r) 0, pg_miner = phase2_fee r w ps, pg_unanimous = unanimous, pg_silent = silent,
     pg_count = Some (if committee_version r then 5 else 3), pg_committee = committee_version r,
     pg_min_broker = Some (computeDynamicMinBrokerFee (phase2_mass r w ps)) \<rparr>"

definition committee_count :: "pool_row \<Rightarrow> nat" where
  "committee_count r = (if committee_version r then 5 else 3)"

text \<open>The outputs; \<open>None\<close> where the code throws: an oracle without an address, or outputs that do not sum to the pool less the fee.\<close>

definition phase2_outputs :: "pool_db \<Rightarrow> pool_row \<Rightarrow> nat \<Rightarrow> settle_targets \<Rightarrow> pool_payouts \<Rightarrow> leaf list option" where
  "phase2_outputs p r w st po =
    (let fees = oracle_shares (po_oracle po) (committee_count r) (getCommitteeStakesCanonical p (pr_id r) (committee_count r));
         outs = settle_outputs (committee_version r) (st_parts st) (st_broker st) (st_maker st) (st_oracles st) fees po in
     if list_all (\<lambda>(i, b). i < length (st_oracles st)) (po_bonds po) \<and> outputs_conserve (committee_version r) (phase2_fee r w (st_parts st)) po outs
     then Some outs else None)"

text \<open>The bonds of the oracles, from the recorded deposits.\<close>

definition deposit_outpoint :: "payload \<Rightarrow> json option" where
  "deposit_outpoint p = (case p of JsonPayload j \<Rightarrow> if j = JNull then None
       else Some (JObj ((case js_get j ''deposit_tx'' of Some v \<Rightarrow> [(''outpointTxid'', v)] | None \<Rightarrow> []) @ [(''outpointIndex'', JInt 0)]))
     | _ \<Rightarrow> None)"

definition market_payloads :: "pool_db \<Rightarrow> string \<Rightarrow> string \<Rightarrow> payload list" where
  "market_payloads p type i = map ev_payload (filter (\<lambda>x. ev_type x = type \<and> (case payload_text (ev_payload x) of
      None \<Rightarrow> False | Some t \<Rightarrow> sql_like (like_member ''market_id'' i) t)) (pb_events p))"

definition deposit_outpoints :: "pool_db \<Rightarrow> string \<Rightarrow> json list option" where
  "deposit_outpoints p i = those (map deposit_outpoint (market_payloads p ''pool_oracle_deposit'' i))"

definition settle_inputs :: "pool_row \<Rightarrow> json list \<Rightarrow> pool_bet list \<Rightarrow> json list" where
  "settle_inputs r deposits sides = outpoint (pr_spine_tx r) # deposits @ map (outpoint \<circ> br_tx) sides"

definition phase2_est_mass :: "pool_row \<Rightarrow> json list \<Rightarrow> pool_bet list \<Rightarrow> leaf list \<Rightarrow> int" where
  "phase2_est_mass r deposits sides outs = estimateMultiOutputStorageMass
     (maker_stake r # map (\<lambda>_. int_or (pr_bond r) 0) deposits @ map (\<lambda>b. int_or (br_stake b) 0) sides) (map snd outs)"

text \<open>\<open>loadPoolSnapshot\<close>, and the members of the committee in the tree of the snapshot.\<close>

definition loadPoolSnapshot :: "pool_db \<Rightarrow> string \<Rightarrow> snapshot_row option" where
  "loadPoolSnapshot p i = (case find (\<lambda>s. sn_market s = i) (pb_snapshots p) of None \<Rightarrow> None
     | Some s \<Rightarrow> if length (sn_pks s) = sn_size s \<and> length (sn_stakes s) = sn_size s then Some s else None)"

definition proof_json :: "pool_tree \<Rightarrow> nat \<Rightarrow> json option" where
  "proof_json tree i = Option.bind (right (getPoolMerkleProof tree (int i))) (\<lambda>bs. map_option (\<lambda>hs. JArr (map (JStr \<circ> hex_encode) hs)) (those bs))"

definition committee_meta :: "settle_env \<Rightarrow> pool_db \<Rightarrow> pool_row \<Rightarrow> (string \<times> json) list option" where
  "committee_meta sv p r =
    (case (map_of (pb_committee p) (pr_id r), loadPoolSnapshot p (pr_id r)) of
       (Some (Some (JArr pks)), Some sn) \<Rightarrow>
         if length pks \<noteq> 5 then None
         else (case buildPoolMerkleTree (sv_hash sv) (map toLowerCase (sn_pks sn)) of Inl e \<Rightarrow> None
         | Inr tree \<Rightarrow> (case those (map (\<lambda>v. index_of (toLowerCase (js_String v)) (tr_sortedPks tree)) pks) of None \<Rightarrow> None
           | Some is \<Rightarrow> (case (those (map (proof_json tree) is), deriveCommitteePkHash (sv_hash sv) (map js_String pks)) of
               (Some proofs, Inr h) \<Rightarrow> Some [(''phase2_committee_pks'', JArr pks), (''phase2_committee_indices'', JArr (map (JInt \<circ> int) is)),
                  (''phase2_committee_merkle_proofs'', JArr proofs), (''phase2_committee_pk_hash'', JStr (hex_encode h))]
             | _ \<Rightarrow> None)))
     | _ \<Rightarrow> None)"

text \<open>The totals of both sides and the commitment to them, for version 0.7.\<close>

definition side_total :: "nat \<Rightarrow> participant list \<Rightarrow> int" where
  "side_total d ps = side_stake (on_side d) ps"

definition shard_count :: "pool_row \<Rightarrow> int option" where
  "shard_count r = (case js_Number (meta r ''v07_shard_count'') of None \<Rightarrow> Some 1
     | Some q \<Rightarrow> if q = 0 then Some 1 else if of_int \<lfloor>q\<rfloor> = q then Some \<lfloor>q\<rfloor> else None)"

definition global_meta :: "settle_env \<Rightarrow> pool_row \<Rightarrow> participant list \<Rightarrow> (string \<times> json) list option" where
  "global_meta sv r ps =
    (case (meta r ''v07_market_id_hash'', shard_count r) of
       (Some (JStr h), Some n) \<Rightarrow>
         if length h \<noteq> 64 \<or> \<not> list_all is_hex_char h then None
         else (case foldRootCommitHex (sv_hash sv) (side_total 0 ps) (side_total 1 ps) h n of Inl e \<Rightarrow> None
         | Inr c \<Rightarrow> Some [(''phase2_global_yes_sompi'', JInt (side_total 0 ps)), (''phase2_global_no_sompi'', JInt (side_total 1 ps)),
             (''phase2_global_commit_id'', JStr c)])
     | _ \<Rightarrow> None)"

definition nat_json :: "nat option \<Rightarrow> json" where
  "nat_json v = (case v of None \<Rightarrow> JNull | Some n \<Rightarrow> JInt (int n))"

definition phase2_meta :: "settle_env \<Rightarrow> pool_db \<Rightarrow> pool_row \<Rightarrow> nat \<Rightarrow> bool \<Rightarrow> nat option \<Rightarrow> settle_targets \<Rightarrow> pool_payouts \<Rightarrow> json list \<Rightarrow> nat
    \<Rightarrow> leaf list \<Rightarrow> json \<Rightarrow> (string \<times> json) list" where
  "phase2_meta sv p r w unanimous silent st po inputs spine outs tx =
    [(''phase2_tx_obj'', tx), (''phase2_winner'', JInt (int w)), (''phase2_unanimous'', JBool unanimous), (''phase2_silent_oracle_index'', nat_json silent),
     (''phase2_dispatched_at'', iso_now sv), (''phase2_input_count'', JInt (int (length inputs))), (''phase2_spine_input_count'', JInt (int spine)),
     (''phase2_output_count'', JInt (int (length outs))), (''phase2_broker_fee_sompi'', JInt (po_broker po)),
     (''phase2_oracle_reward_per_sig'', JInt (po_oracle po div int (committee_count r))),
     (''phase2_maker_payout_sompi'', JInt (\<Sum>l\<leftarrow>filter (\<lambda>l. Some (fst l) = relay_address p (pr_maker_relay r)) outs. snd l)),
     (''phase2_outputs'', JArr (map output_json outs))]"

definition sign_request :: "pool_row \<Rightarrow> nat \<Rightarrow> bool \<Rightarrow> nat option \<Rightarrow> nat \<Rightarrow> nat \<Rightarrow> json \<Rightarrow> json" where
  "sign_request r w unanimous silent inputs spine tx = JObj [(''t'', JStr ''kanet_pool_oracle_tx_sign_req_v1''), (''market_id'', JStr (pr_id r)),
     (''winner'', JInt (int w)), (''unanimous'', JBool unanimous), (''silent_oracle_index'', nat_json silent), (''input_count'', JInt (int inputs)),
     (''spine_input_count'', JInt (int spine)), (''phase2_tx_obj'', tx)]"

definition broadcast_command :: "string \<Rightarrow> json" where
  "broadcast_command t = JObj [(''type'', JStr ''send_broadcast''), (''channel'', JStr ''kanet-prediction''), (''message'', JStr t)]"

text \<open>\<open>sendBroadcastChunked\<close> through the relay: the messages that went out are recorded, and \<open>False\<close> where it throws.\<close>

definition chunk_answer :: "settle_env \<Rightarrow> string \<Rightarrow> nat \<Rightarrow> string \<Rightarrow> nat \<Rightarrow> send_answer" where
  "chunk_answer sv relay n t k = (case sv_ipc sv relay (broadcast_command t) (n + k) of Inl e \<Rightarrow> Refused e
     | Inr j \<Rightarrow> if js_truthy (js_get j ''txId'') then Sent (js_String (the (js_get j ''txId'')))
         else Refused (case js_get j ''error'' of None \<Rightarrow> [] | Some v \<Rightarrow> if js_truthy (Some v) then js_String v else []))"

definition broadcast_chunked :: "settle_env \<Rightarrow> string \<Rightarrow> json \<Rightarrow> settle_db \<Rightarrow> bool \<times> settle_db" where
  "broadcast_chunked sv relay m s =
    (let n = pb_draws (sd_pool s); t = json_text m;
         (out, res) = sendBroadcastChunked (sv_sha256 sv) (chunk_answer sv relay n) t;
         s1 = (on_pool (\<lambda>p. p\<lparr> pb_draws := n + 1 + CHUNK_EXHAUSTION_MAX_RETRY \<rparr>) s)\<lparr> sd_sent := sd_sent s @ map (\<lambda>x. (relay, broadcast_command x)) out \<rparr> in
     (if length t \<le> SAFE_CHUNK_BUDGET then right (sv_ipc sv relay (broadcast_command t) n) \<noteq> None else res \<noteq> ChunkFailed, s1))"

definition phase2_preimage :: "pool_row \<Rightarrow> pool_bet list \<Rightarrow> json list \<Rightarrow> nat \<Rightarrow> leaf list \<Rightarrow> json" where
  "phase2_preimage r sides inputs spine outs = preimage_command (JArr (JStr (pr_spine r) # map (JStr \<circ> br_side) sides)) inputs outs
     [(''sig_op_counts'', JArr (map (\<lambda>i. JInt (if i < spine then (if committee_version r then 8 else 3) else 0)) [0..<length inputs]))]"

definition phase2_submit :: "settle_env \<Rightarrow> pool_row \<Rightarrow> nat \<Rightarrow> bool \<Rightarrow> nat option \<Rightarrow> pool_bet list \<Rightarrow> settle_targets \<Rightarrow> pool_payouts \<Rightarrow> json list \<Rightarrow> leaf list
    \<Rightarrow> settle_db \<Rightarrow> settle_db" where
  "phase2_submit sv r w unanimous silent sides st po deposits outs s =
    (let inputs = settle_inputs r deposits sides; spine = 1 + length deposits in
     case ask sv (pr_maker_relay r) (phase2_preimage r sides inputs spine outs) s of (a, s1) \<Rightarrow>
       (case answered a ''tx_obj'' of None \<Rightarrow> s1
        | Some tx \<Rightarrow>
          (case (if committee_version r then committee_meta sv (sd_pool s1) r else Some [], if pr_version r = JStr ''v0.7'' then global_meta sv r (st_parts st) else Some []) of
             (Some c, Some g) \<Rightarrow> (let req = sign_request r w unanimous silent (length inputs) spine tx in
               snd (broadcast_chunked sv (pr_maker_relay r) req
                 (write_row sv (pr_id r) (set_status ''collecting_sigs'' \<circ> set_meta (assign (meta_kvs r)
                   (phase2_meta sv (sd_pool s1) r w unanimous silent st po inputs spine outs tx @ c @ g @ [(''phase2_request_payload'', req)]))) s1)))
           | _ \<Rightarrow> s1)))"

text \<open>A settlement that is too thin, or whose outputs are too small, is cancelled.\<close>

definition cancel_thin :: "settle_env \<Rightarrow> pool_row \<Rightarrow> nat \<Rightarrow> int \<Rightarrow> int \<Rightarrow> pool_bet list \<Rightarrow> settle_db \<Rightarrow> settle_db" where
  "cancel_thin sv r w losing threshold sides s = snd (cancel_and_refund sv r id ''thin_losing_side'' [(''losing_pool'', JInt losing), (''threshold'', JInt threshold),
     (''losing_direction'', JInt (1 - int w)), (''winner'', JInt (int w))] ThinMarket ''market_cancelled_thin_losing_side'' sides s)"

definition cancel_heavy :: "settle_env \<Rightarrow> pool_row \<Rightarrow> nat \<Rightarrow> int \<Rightarrow> pool_bet list \<Rightarrow> settle_db \<Rightarrow> settle_db" where
  "cancel_heavy sv r w mass sides s =
    (if committee_version r
     then snd (cancel_and_refund sv r id ''storage_mass_exceed_cap'' [(''est_storage_mass'', JInt mass), (''cap'', JInt STORAGE_MASS_CAP),
         (''threshold'', JInt STORAGE_MASS_SAFE_THRESHOLD), (''winner'', JInt (int w))] StorageMass ''market_cancelled_storage_mass_exceed_cap'' sides s)
     else write_row sv (pr_id r) (set_meta (assign (meta_kvs r) [(''needs_larger_pot'', JBool True), (''est_storage_mass'', JInt mass)])) s)"

definition dispatchPhase2 :: "settle_env \<Rightarrow> pool_row \<Rightarrow> nat \<Rightarrow> bool \<Rightarrow> nat option \<Rightarrow> settle_db \<Rightarrow> settle_db" where
  "dispatchPhase2 sv r w unanimous silent s =
    (let sides = by_index (market_sides (sd_pool s) (pr_id r)) in
     if sides = [] then dispatchRefund sv r ZeroBets s
     else (case settle_targets_of sv (sd_pool s) r sides of None \<Rightarrow> s
     | Some st \<Rightarrow>
       (let losing = side_stake (on_side (1 - w)) (st_parts st); threshold = thinThreshold (int_or (pr_bond r) 100000000) in
        if committee_version r \<and> losing < threshold then cancel_thin sv r w losing threshold sides s
        else (case computePoolPayouts (phase2_args r w unanimous silent (st_parts st)) of
          Inl e \<Rightarrow> if e = NoWinners then dispatchRefund sv r ZeroBets s else s
        | Inr po \<Rightarrow> (case (phase2_outputs (sd_pool s) r w st po, deposit_outpoints (sd_pool s) (pr_id r)) of
            (Some outs, Some deposits) \<Rightarrow>
              if pr_version r = JStr ''v0.8'' then s
              else if STORAGE_MASS_SAFE_THRESHOLD < phase2_est_mass r deposits sides outs
              then cancel_heavy sv r w (phase2_est_mass r deposits sides outs) sides s
              else phase2_submit sv r w unanimous silent sides st po deposits outs s
          | _ \<Rightarrow> s)))))"

subsection \<open>The refund of a market whose oracles disagree\<close>

definition disagreement_mass :: "pool_row \<Rightarrow> int \<Rightarrow> int" where
  "disagreement_mass r silent = ceil_div (int (4 * (45 + (132 + 1 + 3 + redeem_size r)) + (if silent = - 1 then 4 else 3) * 50 + 80) * 30) 10"

definition disagreement_fee :: "pool_row \<Rightarrow> int \<Rightarrow> int" where
  "disagreement_fee r silent = (if committee_version r
     then fq_dynamicFee (computeMultiOutputFee (disagreement_mass r silent) (int_or (pr_bond r) 0) (if silent = - 1 then 3 else 2) 2000000 MAX_TX_FEE_SOMPI)
     else int_or (pr_miner_fee r) 20000)"

definition signing_pair :: "int \<Rightarrow> int" where
  "signing_pair silent = (if silent = - 1 then 0 else 2 - silent)"

definition disagreement_outputs :: "pool_row \<Rightarrow> int \<Rightarrow> string \<Rightarrow> string list \<Rightarrow> leaf list" where
  "disagreement_outputs r silent maker orcs = (maker, maker_stake r - disagreement_fee r silent)
     # map (\<lambda>i. (orcs ! i, int_or (pr_bond r) 0)) (filter (\<lambda>i. silent \<noteq> int i) [0, 1, 2])"

definition disagreement_request :: "pool_row \<Rightarrow> int \<Rightarrow> nat \<Rightarrow> json" where
  "disagreement_request r silent inputs = JObj [(''t'', JStr ''kanet_pool_oracle_refund_disagreement_sign_req_v1''), (''market_id'', JStr (pr_id r)),
     (''silent_oracle_index'', JInt silent), (''signing_pair'', JInt (signing_pair silent)), (''input_count'', JInt (int inputs))]"

definition disagreement_signers :: "int \<Rightarrow> nat list" where
  "disagreement_signers silent = (if silent = - 1 then [0, 1] else filter (\<lambda>i. silent \<noteq> int i) [0, 1, 2])"

definition message_command :: "string \<Rightarrow> json \<Rightarrow> json" where
  "message_command target m = JObj [(''type'', JStr ''send_message''), (''target'', JStr target), (''message'', JStr (json_text m))]"

definition dispatchRefundDisagreement :: "settle_env \<Rightarrow> pool_row \<Rightarrow> int \<Rightarrow> settle_db \<Rightarrow> settle_db" where
  "dispatchRefundDisagreement sv r silent s =
    (if silent < - 1 \<or> 2 < silent then s
     else (case (full (relay_address (sd_pool s) (pr_maker_relay r)), oracle_addresses r, deposit_outpoints (sd_pool s) (pr_id r), js_parseInt (Some (pr_deadline r))) of
       (Some maker, Some orcs, Some deposits, Some d) \<Rightarrow>
         if maker_stake r - disagreement_fee r silent \<le> 0 \<or> \<not> list_all (\<lambda>i. silent = int i \<or> i < length orcs) [0, 1, 2] \<or> d \<le> 0 then s
         else (let outs = disagreement_outputs r silent maker orcs; inputs = outpoint (pr_spine_tx r) # deposits; lock = (d + REFUND_GRACE_SEC) * 1000 in
           case ask sv (pr_maker_relay r) (preimage_command (JStr (pr_spine r)) inputs outs [(''lock_time'', JInt lock)]) s of (a, s1) \<Rightarrow>
             (case answered a ''tx_obj'' of None \<Rightarrow> s1
              | Some tx \<Rightarrow> fold (\<lambda>i. hand_over (pr_maker_relay r) (message_command (orcs ! i) (disagreement_request r silent (length inputs)))) (disagreement_signers silent)
                  (write_row sv (pr_id r) (set_status ''collecting_sigs'' \<circ> set_meta (assign (meta_kvs r)
                    [(''refund_disagreement_tx_obj'', tx), (''refund_disagreement_silent_oracle_index'', JInt silent), (''refund_disagreement_signing_pair'', JInt (signing_pair silent)),
                     (''refund_disagreement_dispatched_at'', iso_now sv), (''refund_disagreement_outputs'', JArr (map output_json outs)),
                     (''refund_disagreement_input_count'', JInt (int (length inputs))), (''refund_disagreement_lock_time'', JInt lock)])) s1)))
     | _ \<Rightarrow> s))"

end
