(* ===== verification/Pool_Collect.thy ===== *)
theory Pool_Collect
  imports Pool_Dispatch
begin

section \<open>Collecting the signatures of the committee\<close>

text \<open>
  \<open>handleCollectingSigs\<close> and \<open>handleCollectingSigsRefundDisagreement\<close> of \<open>kasia-console/src/services/pool-market-settler.js\<close>: the
  recorded signatures are sorted by input and signer, the request is broadcast again while some are missing, and the transaction is
  handed to the relay of the maker once every input of the spine has enough.  The counters and sizes in the metadata are the whole numbers
  that \<open>dispatchPhase2\<close> and these handlers write.  A handler that throws leaves what it has written.
\<close>

subsection \<open>The signatures\<close>

definition signer_key :: "json \<Rightarrow> string" where
  "signer_key j = (if js_truthy (js_get j ''voter_pubkey'') then lower_member j ''voter_pubkey'' else lower_member j ''voter_relay_id'')"

definition sig_of :: "string \<Rightarrow> nat \<Rightarrow> payload \<Rightarrow> ((nat \<times> string) \<times> json) option" where
  "sig_of t n p = (case p of JsonPayload j \<Rightarrow>
       if js_get j ''t'' \<noteq> Some (JStr t) \<or> signer_key j = [] \<or> \<not> js_truthy (js_get j ''signature'') then None
       else (case js_parseInt (js_get j ''input_index'') of None \<Rightarrow> None
         | Some i \<Rightarrow> if i < 0 \<or> int n \<le> i then None else Some ((nat i, signer_key j), the (js_get j ''signature'')))
     | _ \<Rightarrow> None)"

text \<open>The first entry of every key.\<close>

fun first_of_each :: "('k \<times> 'v) list \<Rightarrow> ('k \<times> 'v) list" where
  "first_of_each [] = []"
| "first_of_each ((k, v) # xs) = (k, v) # filter (\<lambda>(a, b). a \<noteq> k) (first_of_each xs)"

type_synonym sigs = "((nat \<times> string) \<times> json) list"

definition recorded_sigs :: "string \<Rightarrow> string \<Rightarrow> nat \<Rightarrow> pool_db \<Rightarrow> string \<Rightarrow> sigs" where
  "recorded_sigs type t n p i = first_of_each (List.map_filter (sig_of t n) (market_payloads p type i))"

definition settle_sigs :: "nat \<Rightarrow> pool_db \<Rightarrow> string \<Rightarrow> sigs" where
  "settle_sigs = recorded_sigs ''pool_oracle_tx_sig'' ''kanet_pool_oracle_tx_sign_resp_v1''"

definition signers :: "nat \<Rightarrow> sigs \<Rightarrow> string list" where
  "signers k sigs = map (snd \<circ> fst) (filter (\<lambda>e. fst (fst e) = k) sigs)"

text \<open>A signature that no key made, for a member that did not sign.\<close>

definition DUMMY_SIG_PUSH_HEX :: string where
  "DUMMY_SIG_PUSH_HEX = ''41'' @ ''79be667ef9dcbbac55a06295ce870b07029bfcdb2dce28d959f2815b16f81798'' @ concat (replicate 32 ''01'') @ ''01''"

definition ordered_sigs :: "string list \<Rightarrow> sigs \<Rightarrow> nat \<Rightarrow> json list" where
  "ordered_sigs pks sigs k = map (\<lambda>pk. case map_of sigs (k, pk) of Some v \<Rightarrow> v | None \<Rightarrow> JStr DUMMY_SIG_PUSH_HEX) pks"

subsection \<open>Who has to sign\<close>

definition count_of :: "pool_row \<Rightarrow> string \<Rightarrow> nat" where
  "count_of r k = (case meta r k of Some (JInt n) \<Rightarrow> nat n | _ \<Rightarrow> 0)"

definition spine_count :: "pool_row \<Rightarrow> nat" where
  "spine_count r = (if count_of r ''phase2_spine_input_count'' = 0 then 1 else count_of r ''phase2_spine_input_count'')"

definition signing_oracles :: "pool_row \<Rightarrow> nat list" where
  "signing_oracles r = (let n = (case relay_ids r of [] \<Rightarrow> 3 | xs \<Rightarrow> length xs) in
     if js_truthy (meta r ''phase2_unanimous'') then [0..<n]
     else filter (\<lambda>i. meta r ''phase2_silent_oracle_index'' \<noteq> Some (JInt (int i))) [0..<n])"

definition sigs_complete :: "pool_row \<Rightarrow> sigs \<Rightarrow> bool" where
  "sigs_complete r sigs = list_all (\<lambda>k. length (signing_oracles r) \<le> length (signers k sigs)) [0..<spine_count r]"

subsection \<open>Asking again\<close>

definition date_ms :: "clock \<Rightarrow> json option \<Rightarrow> int option" where
  "date_ms clk v = (case v of Some (JStr s) \<Rightarrow> ck_time clk s | Some (JInt n) \<Rightarrow> Some n | _ \<Rightarrow> None)"

definition oracle_name :: "string list \<Rightarrow> json list \<Rightarrow> nat \<Rightarrow> string option" where
  "oracle_name pks ids i = (if i < length pks \<and> pks ! i \<noteq> [] then Some (pks ! i)
     else if i < length ids then (case ids ! i of JStr a \<Rightarrow> Some a | _ \<Rightarrow> None) else None)"

definition missing_oracles :: "pool_db \<Rightarrow> pool_row \<Rightarrow> sigs \<Rightarrow> nat list" where
  "missing_oracles p r sigs = filter (\<lambda>i. case oracle_name (committee_pks p (pr_id r)) (relay_ids r) i of None \<Rightarrow> True
     | Some a \<Rightarrow> a \<notin> set (signers 0 sigs)) (signing_oracles r)"

definition effThrottle :: "settle_env \<Rightarrow> pool_row \<Rightarrow> nat" where
  "effThrottle sv r = sv_rebroadcast sv * min (2 ^ count_of r ''sign_req_fail_count'') 8"

definition redm_due :: "settle_env \<Rightarrow> pool_row \<Rightarrow> bool" where
  "redm_due sv r = (js_truthy (meta r ''phase2_request_payload'') \<and>
     (case (if js_truthy (meta r ''last_sign_req_redm_at'') then date_ms (sv_clock sv) (meta r ''last_sign_req_redm_at'') else Some 0) of
        None \<Rightarrow> False | Some t \<Rightarrow> int (effThrottle sv r) < int (ck_now (sv_clock sv)) - t))"

definition obj_kvs :: "json option \<Rightarrow> (string \<times> json) list" where
  "obj_kvs v = (case v of Some (JObj kvs) \<Rightarrow> kvs | _ \<Rightarrow> [])"

definition rebroadcast :: "settle_env \<Rightarrow> pool_row \<Rightarrow> sigs \<Rightarrow> settle_db \<Rightarrow> settle_db" where
  "rebroadcast sv r sigs s =
    (if \<not> redm_due sv r \<or> missing_oracles (sd_pool s) r sigs = [] then s
     else (case broadcast_chunked sv (pr_maker_relay r)
             (JObj (assign (obj_kvs (meta r ''phase2_request_payload'')) [(''phase2_tx_obj'', member_or_null (JObj (meta_kvs r)) ''phase2_tx_obj'')])) s of
       (ok, s1) \<Rightarrow> write_row sv (pr_id r) (set_meta (assign (meta_kvs r) [(''last_sign_req_redm_at'', iso_now sv),
         (''sign_req_fail_count'', JInt (if ok then 0 else int (count_of r ''sign_req_fail_count'') + 1))])) s1))"

subsection \<open>The settlement transaction\<close>

definition optional :: "string \<Rightarrow> json option \<Rightarrow> (string \<times> json) list" where
  "optional k v = (case v of None \<Rightarrow> [] | Some j \<Rightarrow> [(k, j)])"

definition fresh_total :: "pool_db \<Rightarrow> pool_row \<Rightarrow> nat \<Rightarrow> int" where
  "fresh_total p r d = (if maker_side r = d then maker_stake r else 0)
     + (\<Sum>b\<leftarrow>filter (\<lambda>b. int_column (br_direction b) = JInt (int d)) (market_sides p (pr_id r)). int_or (br_stake b) 0)"

definition global_members :: "settle_env \<Rightarrow> pool_db \<Rightarrow> pool_row \<Rightarrow> (string \<times> json) list" where
  "global_members sv p r =
    (if pr_version r = JStr ''v0.7'' \<and> meta r ''phase2_global_yes_sompi'' \<in> {None, Some JNull}
     then [(''global_yes_total_sompi'', JInt (fresh_total p r 0)), (''global_no_total_sompi'', JInt (fresh_total p r 1)),
           (''global_commit_id'', JStr (sv_sha256 sv (pr_id r)))]
     else optional ''global_yes_total_sompi'' (meta r ''phase2_global_yes_sompi'') @ optional ''global_no_total_sompi'' (meta r ''phase2_global_no_sompi'')
       @ optional ''global_commit_id'' (meta r ''phase2_global_commit_id''))"

definition v06Extras :: "settle_env \<Rightarrow> pool_db \<Rightarrow> pool_row \<Rightarrow> (string \<times> json) list" where
  "v06Extras sv p r = (if committee_version r
     then (''protocol_version'', pr_version r) # concat (map (\<lambda>k. optional k (meta r (''phase2_'' @ k)))
       [''committee_pks'', ''committee_indices'', ''committee_merkle_proofs'', ''committee_pk_hash'']) @ global_members sv p r
     else [])"

definition settle_command :: "settle_env \<Rightarrow> pool_db \<Rightarrow> pool_row \<Rightarrow> pool_bet list \<Rightarrow> json list \<Rightarrow> sigs \<Rightarrow> json \<Rightarrow> json" where
  "settle_command sv p r sides deposits sigs tx = JObj ([(''type'', JStr ''pool_settle_tx''), (''spine_p2sh_address'', JStr (pr_spine r)),
     (''side_p2sh_addresses'', JArr (map (JStr \<circ> br_side) sides)), (''spine_redeem_script_hex'', member_or_null (JObj (meta_kvs r)) ''spine_redeem_script_hex''),
     (''side_redeem_script_hexes'', JArr (map (JStr \<circ> br_redeem) sides)), (''required_input_outpoints'', JArr (settle_inputs r deposits sides)),
     (''outputs'', member_or_null (JObj (meta_kvs r)) ''phase2_outputs''), (''spine_input_count'', JInt (int (spine_count r))),
     (''spine_sigs_by_input'', JArr (map (\<lambda>k. JArr (ordered_sigs (committee_pks p (pr_id r)) sigs k)) [0..<spine_count r]))]
     @ optional ''winner'' (meta r ''phase2_winner'') @ [(''sides_merkle_root'', pr_sides_root r)] @ optional ''unanimous'' (meta r ''phase2_unanimous'')
     @ [(''tx_obj_preimage'', tx), (''tx_obj_preimage_safe_json'', JBool True)] @ v06Extras sv p r)"

text \<open>Every failed submission makes the next one wait longer; after \<open>SETTLE_SUBMIT_GIVEUP\<close> of them the market is cancelled.\<close>

definition backoff_sec :: "nat \<Rightarrow> nat" where
  "backoff_sec n = min (60 * 2 ^ (n - 1)) 3600"

definition submit_error :: "json \<Rightarrow> json option" where
  "submit_error j = (case js_get j ''error'' of None \<Rightarrow> Some (JStr []) | Some v \<Rightarrow>
     if \<not> js_truthy (Some v) then Some (JStr []) else (case v of JStr e \<Rightarrow> Some (JStr (take 200 e)) | JArr xs \<Rightarrow> Some (JArr (take 200 xs)) | _ \<Rightarrow> None))"

definition submit_failed :: "settle_env \<Rightarrow> pool_row \<Rightarrow> json \<Rightarrow> settle_db \<Rightarrow> settle_db" where
  "submit_failed sv r j s = (case submit_error j of None \<Rightarrow> s
     | Some e \<Rightarrow>
       (let n = count_of r ''submit_fail_count'' + 1;
            cur = assign (meta_kvs r) [(''submit_fail_count'', JInt (int n)), (''submit_last_err'', e)] in
        if cf_giveup (sv_conf sv) \<le> n \<and> \<not> js_truthy (meta r ''refund_dispatched_at'')
        then dispatchRefund sv r SubmitGiveup (write_row sv (pr_id r) (set_status ''cancelled'' \<circ>
               set_meta (assign cur [(''cancel_reason'', JStr ''settle_submit_giveup''), (''cancelled_at'', iso_now sv)])) s)
        else write_row sv (pr_id r) (set_meta (assign cur [(''skip_until_ms'', JInt (int (ck_now (sv_clock sv) + backoff_sec n * 1000)))])) s))"

definition record_reward :: "pool_row \<Rightarrow> settle_db \<Rightarrow> settle_db" where
  "record_reward r s = (case meta r ''phase2_oracle_reward_per_sig'' of
      Some (JInt v) \<Rightarrow> if 0 < v then s\<lparr> sd_history := update_where (\<lambda>h. hi_market h = pr_id r \<and> hi_vote h \<noteq> None \<and> hi_reward h \<in> {None, Some 0})
        (\<lambda>h. h\<lparr> hi_reward := Some v \<rparr>) (sd_history s) \<rparr> else s
    | _ \<Rightarrow> s)"

definition announce :: "settle_env \<Rightarrow> json \<Rightarrow> settle_db \<Rightarrow> json option \<times> settle_db" where
  "announce sv m s = (case find (sv_alive sv) (sv_live sv) of None \<Rightarrow> (None, s) | Some relay \<Rightarrow> ask sv relay (broadcast_command (json_text m)) s)"

definition settled_json :: "settle_env \<Rightarrow> pool_row \<Rightarrow> string \<Rightarrow> json" where
  "settled_json sv r tx = JObj ([(''t'', JStr ''pool_market_settled_v1''), (''market_id'', JStr (pr_id r)), (''settle_txid'', JStr tx)]
     @ optional ''winner'' (meta r ''phase2_winner'') @ [(''settled_at'', iso_now sv)])"

definition submit_settlement :: "settle_env \<Rightarrow> pool_row \<Rightarrow> pool_bet list \<Rightarrow> json list \<Rightarrow> sigs \<Rightarrow> json \<Rightarrow> settle_db \<Rightarrow> settle_db" where
  "submit_settlement sv r sides deposits sigs tx s =
    (case ask sv (pr_maker_relay r) (settle_command sv (sd_pool s) r sides deposits sigs tx) s of
       (None, s1) \<Rightarrow> s1
     | (Some j, s1) \<Rightarrow> (case answered (Some j) ''txId'' of
         None \<Rightarrow> submit_failed sv r j s1
       | Some (JStr t) \<Rightarrow> snd (announce sv (settled_json sv r t) (record_reward r
           (write_row sv (pr_id r) (set_status ''completed'' \<circ> (\<lambda>q. q\<lparr> pr_settle_tx := Some t \<rparr>)) s1)))
       | _ \<Rightarrow> s1))"

definition can_assemble :: "pool_row \<Rightarrow> pool_bet list \<Rightarrow> bool" where
  "can_assemble r sides = (js_truthy (meta r ''spine_redeem_script_hex'')
     \<and> (case meta r ''phase2_outputs'' of Some (JArr (x # xs)) \<Rightarrow> True | _ \<Rightarrow> False)
     \<and> list_all (\<lambda>b. br_redeem b \<noteq> []) sides
     \<and> (js_truthy (meta r ''phase2_unanimous'') \<or> committee_version r))"

subsection \<open>The refund of a disagreement\<close>

definition disagreement_sigs :: "pool_row \<Rightarrow> pool_db \<Rightarrow> sigs" where
  "disagreement_sigs r p = recorded_sigs ''pool_oracle_refund_disagreement_tx_sig'' ''kanet_pool_oracle_refund_disagreement_tx_sig_v1''
     (count_of r ''refund_disagreement_input_count'') p (pr_id r)"

text \<open>The signatures of an input in the order they were recorded: the code sorts them by a member they do not have.\<close>

definition sigs_at :: "nat \<Rightarrow> sigs \<Rightarrow> json list" where
  "sigs_at k sigs = map snd (filter (\<lambda>e. fst (fst e) = k) sigs)"

definition disagreement_command :: "pool_row \<Rightarrow> json list \<Rightarrow> sigs \<Rightarrow> json" where
  "disagreement_command r deposits sigs = JObj ([(''type'', JStr ''pool_refund_disagreement_tx''), (''spine_p2sh_address'', JStr (pr_spine r))]
     @ optional ''spine_redeem_script_hex'' (meta r ''spine_redeem_script_hex'')
     @ [(''required_input_outpoints'', JArr (outpoint (pr_spine_tx r) # deposits))] @ optional ''outputs'' (meta r ''refund_disagreement_outputs'')
     @ [(''spine_sigs_by_input'', JArr (map (\<lambda>k. JArr (sigs_at k sigs)) [0..<count_of r ''refund_disagreement_input_count'']))]
     @ optional ''silent_oracle_index'' (meta r ''refund_disagreement_silent_oracle_index'') @ optional ''signing_pair'' (meta r ''refund_disagreement_signing_pair'')
     @ optional ''tx_obj_preimage'' (meta r ''refund_disagreement_tx_obj'') @ [(''lock_time'', JInt (int (count_of r ''refund_disagreement_lock_time'')))])"

definition handleCollectingSigsRefundDisagreement :: "settle_env \<Rightarrow> pool_row \<Rightarrow> settle_db \<Rightarrow> settle_db" where
  "handleCollectingSigsRefundDisagreement sv r s =
    (let sigs = disagreement_sigs r (sd_pool s) in
     if \<not> list_all (\<lambda>k. 2 \<le> length (signers k sigs)) [0..<count_of r ''refund_disagreement_input_count''] then s
     else (case deposit_outpoints (sd_pool s) (pr_id r) of None \<Rightarrow> s
     | Some deposits \<Rightarrow> (case ask sv (pr_maker_relay r) (disagreement_command r deposits sigs) s of (a, s1) \<Rightarrow>
         (case answered a ''txId'' of
            Some (JStr t) \<Rightarrow> write_row sv (pr_id r) (set_status ''refunded'' \<circ> (\<lambda>q. q\<lparr> pr_refund_tx := Some t \<rparr>)) s1
          | _ \<Rightarrow> s1))))"

subsection \<open>The handler\<close>

definition handleCollectingSigs :: "settle_env \<Rightarrow> pool_row \<Rightarrow> settle_db \<Rightarrow> settle_db" where
  "handleCollectingSigs sv r s =
    (if js_truthy (meta r ''refund_disagreement_dispatched_at'') \<and> js_truthy (meta r ''refund_disagreement_tx_obj'')
     then handleCollectingSigsRefundDisagreement sv r s
     else if \<not> js_truthy (meta r ''phase2_tx_obj'') \<or> count_of r ''phase2_input_count'' = 0 \<or> count_of r ''phase2_input_count'' < spine_count r then s
     else (let sigs = settle_sigs (count_of r ''phase2_input_count'') (sd_pool s) (pr_id r); sides = by_index (market_sides (sd_pool s) (pr_id r)) in
       if \<not> sigs_complete r sigs then rebroadcast sv r sigs s
       else if \<not> can_assemble r sides then s
       else (case (deposit_outpoints (sd_pool s) (pr_id r), Option.bind (meta r ''phase2_tx_obj'') (sv_safe_json sv)) of
           (Some deposits, Some tx) \<Rightarrow> submit_settlement sv r sides deposits sigs tx s
         | _ \<Rightarrow> s)))"

end
