(* ===== verification/Pool_Sampling.thy ===== *)
theory Pool_Sampling
  imports Pool_Collect
begin

section \<open>Sampling the committee of a market\<close>

text \<open>
  \<open>fetchEndBlockHashCanonical\<close>, \<open>sampleAndStoreCommittee\<close>, \<open>recaptureSideLockDaaForMarket\<close> and \<open>ensurePoolSnapshotByRoot\<close> of
  \<open>pool-market-settler-v06.mjs\<close>, \<open>resolveOracleAddresses\<close> of \<open>lib/oracle-pool-source.mjs\<close>, the chain reader of
  \<open>relay-chain-reader.mjs\<close> and the part of \<open>poolSettlerTick\<close> that calls them.  \<open>None\<close> is an error thrown.  Scores are whole numbers.
\<close>

subsection \<open>Reading the chain through a relay\<close>

definition chain_relay :: "settle_env \<Rightarrow> pool_row \<Rightarrow> string option" where
  "chain_relay sv r = (if pr_maker_relay r \<noteq> [] \<and> sv_alive sv (pr_maker_relay r) then Some (pr_maker_relay r) else full (find (sv_alive sv) (sv_live sv)))"

definition getCurrentDaaScore :: "settle_env \<Rightarrow> string \<Rightarrow> settle_db \<Rightarrow> int option \<times> settle_db" where
  "getCurrentDaaScore sv relay s = (case ask sv relay (JObj [(''type'', JStr ''chain_get_current_daa_score'')]) s of
      (None, s1) \<Rightarrow> (None, s1)
    | (Some j, s1) \<Rightarrow> (if \<not> js_truthy (js_get j ''ok'') then None
        else (case js_Integer (js_get j ''daa_score'') of Some n \<Rightarrow> if n < 0 then None else Some n | None \<Rightarrow> None), s1))"

definition getBlockAtDaa :: "settle_env \<Rightarrow> string \<Rightarrow> int \<Rightarrow> settle_db \<Rightarrow> (string \<times> int) option \<times> settle_db" where
  "getBlockAtDaa sv relay d s = (case ask sv relay (JObj [(''type'', JStr ''chain_get_block_at_daa''), (''min_daa_score'', JInt d)]) s of
      (None, s1) \<Rightarrow> (None, s1)
    | (Some j, s1) \<Rightarrow> (if \<not> js_truthy (js_get j ''ok'') then None
        else (case (js_get j ''hash'', js_Integer (js_get j ''daaScore'')) of
            (Some (JStr h), Some b) \<Rightarrow> if length h \<noteq> 64 then None else Some (h, b) | _ \<Rightarrow> None), s1))"

definition DEFAULT_FINALITY_DEPTH :: int where "DEFAULT_FINALITY_DEPTH = 50"

text \<open>The block whose hash draws the committee, once it is deep enough.\<close>

definition fetchEndBlockHashCanonical :: "settle_env \<Rightarrow> string \<Rightarrow> int \<Rightarrow> settle_db \<Rightarrow> string option \<times> settle_db" where
  "fetchEndBlockHashCanonical sv relay d s =
    (if d \<le> 0 then (None, s)
     else (case getBlockAtDaa sv relay d s of (None, s1) \<Rightarrow> (None, s1)
     | (Some (h, b), s1) \<Rightarrow> (case getCurrentDaaScore sv relay s1 of (None, s2) \<Rightarrow> (None, s2)
       | (Some now, s2) \<Rightarrow> (if now < b \<or> now - b < DEFAULT_FINALITY_DEPTH then None else Some h, s2))))"

subsection \<open>The snapshot and the bets\<close>

definition ensurePoolSnapshotByRoot :: "string \<Rightarrow> json \<Rightarrow> pool_db \<Rightarrow> pool_db" where
  "ensurePoolSnapshotByRoot i expected p =
    (case expected of JStr rt \<Rightarrow>
       if i = [] \<or> \<not> hex64 (toLowerCase rt) \<or> list_ex (\<lambda>s. sn_market s = i) (pb_snapshots p) then p
       else (case filter (\<lambda>v. toLowerCase (cv_root v) = toLowerCase rt) (rev (sort_key cv_daa (pb_views p))) of [] \<Rightarrow> p
         | v # _ \<Rightarrow> p\<lparr> pb_snapshots := pb_snapshots p @ [\<lparr> sn_market = i, sn_root = cv_root v, sn_size = cv_size v,
             sn_pks = map (\<lambda>(pk, s). toLowerCase pk) (cv_leaves v), sn_stakes = map snd (cv_leaves v), sn_daa = cv_daa v \<rparr>] \<rparr>)
     | _ \<Rightarrow> p)"

definition daa_hint :: "pool_row \<Rightarrow> nat option" where
  "daa_hint r = (case int_column (pr_deadline_daa r) of JInt n \<Rightarrow> Some (nat n) | _ \<Rightarrow> None)"

definition recapture :: "pool_env \<Rightarrow> pool_db \<Rightarrow> nat option \<Rightarrow> pool_bet \<Rightarrow> pool_bet" where
  "recapture env p hint b = (case captureSideLockDaa env p (br_tx b) hint of Captured d \<Rightarrow> b\<lparr> br_daa := Some d \<rparr> | _ \<Rightarrow> b)"

definition recaptureSideLockDaaForMarket :: "pool_env \<Rightarrow> string \<Rightarrow> pool_db \<Rightarrow> pool_db" where
  "recaptureSideLockDaaForMarket env i p = p\<lparr> pb_bets := update_where (\<lambda>b. br_market b = i \<and> br_daa b = None)
     (recapture env p (Option.bind (find_pool p i) daa_hint)) (pb_bets p) \<rparr>"

subsection \<open>Who may not sit on the committee\<close>

definition enrolled_at :: "pool_db \<Rightarrow> string \<Rightarrow> string list" where
  "enrolled_at p a = (case find (\<lambda>e. er_relay e = Some a) (pb_enroll p) of Some e \<Rightarrow> if er_pk e = [] then [] else [toLowerCase (er_pk e)] | None \<Rightarrow> [])"

definition maker_addr :: "pool_db \<Rightarrow> pool_row \<Rightarrow> string option" where
  "maker_addr p r = full (relay_address p (pr_maker_relay r))"

definition broker_addr :: "pool_db \<Rightarrow> pool_row \<Rightarrow> string option" where
  "broker_addr p r = full (Option.bind (pr_broker_relay r) (relay_address p))"

definition party_pks :: "pool_db \<Rightarrow> pool_row \<Rightarrow> string list" where
  "party_pks p r = (if js_truthy (Some (pr_broker r)) then [toLowerCase (js_String (pr_broker r))] else [])
     @ (if pr_maker r \<noteq> [] then [toLowerCase (pr_maker r)] else [])
     @ (case maker_addr p r of Some a \<Rightarrow> enrolled_at p a | None \<Rightarrow> [])
     @ (case broker_addr p r of Some a \<Rightarrow> if maker_addr p r = Some a then [] else enrolled_at p a | None \<Rightarrow> [])"

text \<open>The bettors whose bet was locked by the deadline; \<open>None\<close> where the time of one is unknown.\<close>

definition bettor_pks :: "pool_db \<Rightarrow> pool_row \<Rightarrow> rat \<Rightarrow> string list option" where
  "bettor_pks p r d = map_option concat (those (map (\<lambda>b. case br_daa b of None \<Rightarrow> None
     | Some n \<Rightarrow> Some (if br_bettor b \<noteq> [] \<and> of_nat n \<le> d then [toLowerCase (br_bettor b)] else [])) (filter (\<lambda>b. br_market b = pr_id r) (pb_bets p))))"

definition excludePks :: "pool_db \<Rightarrow> pool_row \<Rightarrow> string list option" where
  "excludePks p r = (case js_Number (Some (pr_deadline_daa r)) of None \<Rightarrow> None
     | Some d \<Rightarrow> if d \<le> 0 then None else map_option (\<lambda>bs. party_pks p r @ bs) (bettor_pks p r d))"

subsection \<open>The draw\<close>

definition resolveOracleAddresses :: "settle_env \<Rightarrow> pool_db \<Rightarrow> string list \<Rightarrow> string \<Rightarrow> string option" where
  "resolveOracleAddresses sv p pks pk =
    (if \<not> hex64 pk \<or> pk \<notin> set (map toLowerCase pks) then None
     else (case find (\<lambda>e. er_active e \<and> er_pk e = pk \<and> full (er_relay e) \<noteq> None) (rev (pb_enroll p)) of
         Some e \<Rightarrow> er_relay e | None \<Rightarrow> full (map_of (rev (sv_members sv)) pk)))"

definition snapshot_members :: "snapshot_row \<Rightarrow> member list option" where
  "snapshot_members sn = those (map2 (\<lambda>pk st. map_option (\<lambda>v. \<lparr> m_pk = pk, m_stake = v \<rparr>) (js_BigInt (Some (JStr st)))) (sn_pks sn) (sn_stakes sn))"

definition draw_committee :: "settle_env \<Rightarrow> pool_db \<Rightarrow> pool_row \<Rightarrow> string \<Rightarrow> string list option" where
  "draw_committee sv p r h =
    (case (loadPoolSnapshot p (pr_id r), excludePks p r) of
       (Some sn, Some ex) \<Rightarrow> (case (right (deriveCommitteeSeed (sv_hash sv) (pr_id r) h (sn_root sn)), snapshot_members sn) of
           (Some seed, Some ms) \<Rightarrow> map_option (map m_pk \<circ> fst) (right (selectCommittee (sv_hash sv) ms seed ex))
         | _ \<Rightarrow> None)
     | _ \<Rightarrow> None)"

definition sampleAndStoreCommittee :: "settle_env \<Rightarrow> string \<Rightarrow> string \<Rightarrow> pool_db \<Rightarrow> (string list \<times> pool_db) option" where
  "sampleAndStoreCommittee sv i h p =
    (case find_pool p i of None \<Rightarrow> None
     | Some r \<Rightarrow> (case draw_committee sv p r h of None \<Rightarrow> None
       | Some pks \<Rightarrow> (case those (map (resolveOracleAddresses sv p (case loadPoolSnapshot p i of Some sn \<Rightarrow> sn_pks sn | None \<Rightarrow> [])) pks) of None \<Rightarrow> None
         | Some addrs \<Rightarrow> if right (deriveCommitteePkHash (sv_hash sv) pks) = None then None
             else Some (addrs, p\<lparr> pb_committee := (i, Some (JArr (map JStr pks))) # filter (\<lambda>c. fst c \<noteq> i) (pb_committee p) \<rparr>))))"

subsection \<open>Sampling in a tick\<close>

definition REFUND_THRESHOLD :: int where "REFUND_THRESHOLD = 50000 - 100"
definition MAX_SAMPLE_FAIL :: nat where "MAX_SAMPLE_FAIL = 20"

text \<open>The score of the deadline: the column, or an estimate from the clock for markets that have none.\<close>

definition deadline_score :: "settle_env \<Rightarrow> string \<Rightarrow> pool_row \<Rightarrow> settle_db \<Rightarrow> int option \<times> settle_db" where
  "deadline_score sv relay r s =
    (if js_truthy (Some (int_column (pr_deadline_daa r))) then (case int_column (pr_deadline_daa r) of JInt n \<Rightarrow> Some n | _ \<Rightarrow> None, s)
     else (case getCurrentDaaScore sv relay s of (None, s1) \<Rightarrow> (None, s1)
       | (Some cur, s1) \<Rightarrow> (case int_column (pr_deadline r) of
             JInt dl \<Rightarrow> Some (max 1 (cur - max 0 ((int (ck_now (sv_clock sv) div 1000) - dl) * 10))) | _ \<Rightarrow> None, s1)))"

datatype sampling = Sampled | TooOld | SampleFails

definition read_end_block :: "settle_env \<Rightarrow> pool_row \<Rightarrow> settle_db \<Rightarrow> (sampling \<times> string) \<times> settle_db" where
  "read_end_block sv r s =
    (case chain_relay sv r of None \<Rightarrow> ((SampleFails, []), s)
     | Some relay \<Rightarrow> (case deadline_score sv relay r s of (None, s1) \<Rightarrow> ((SampleFails, []), s1)
       | (Some d, s1) \<Rightarrow> (case getCurrentDaaScore sv relay s1 of (None, s2) \<Rightarrow> ((SampleFails, []), s2)
         | (Some tip, s2) \<Rightarrow> if REFUND_THRESHOLD < tip - d then ((TooOld, []), s2)
             else (case fetchEndBlockHashCanonical sv relay d s2 of (None, s3) \<Rightarrow> ((SampleFails, []), s3)
               | (Some h, s3) \<Rightarrow> ((Sampled, h), s3)))))"

definition sample_market :: "settle_env \<Rightarrow> pool_env \<Rightarrow> pool_row \<Rightarrow> settle_db \<Rightarrow> sampling \<times> settle_db" where
  "sample_market sv env r s =
    (case read_end_block sv r s of
       ((Sampled, h), s1) \<Rightarrow>
         (let s2 = on_pool (recaptureSideLockDaaForMarket env (pr_id r) \<circ> ensurePoolSnapshotByRoot (pr_id r) (pr_root r)) s1 in
          case sampleAndStoreCommittee sv (pr_id r) h (sd_pool s2) of None \<Rightarrow> (SampleFails, s2)
          | Some (addrs, p) \<Rightarrow> (Sampled, write_row sv (pr_id r) (\<lambda>q. q\<lparr> pr_relays := JsonPayload (JArr (map JStr addrs)) \<rparr>) (on_pool (\<lambda>_. p) s2)))
     | ((o1, _), s1) \<Rightarrow> (o1, s1))"

definition too_old :: "settle_env \<Rightarrow> pool_row \<Rightarrow> settle_db \<Rightarrow> settle_db" where
  "too_old sv r s = dispatchRefund sv r Unrecoverable (write_row sv (pr_id r) (set_meta (assign (meta_kvs r)
     [(''unrecoverable'', JBool True), (''unrecoverable_reason'', JStr (sv_words sv Unrecoverable)), (''unrecoverable_at'', iso_now sv)])) s)"

definition sample_failed :: "settle_env \<Rightarrow> pool_row \<Rightarrow> settle_db \<Rightarrow> settle_db" where
  "sample_failed sv r s =
    (let n = count_of r ''sample_fail_count'' + 1;
         cur = assign (meta_kvs r) [(''sample_fail_count'', JInt (int n)), (''sample_last_err'', JStr (sv_words sv NoCommittee))] in
     if MAX_SAMPLE_FAIL \<le> n
     then snd (emit_refunds sv (pr_id r) ''committee_unformed'' (market_sides (sd_pool s) (pr_id r))
            (dispatchRefund sv r NoCommittee (write_row sv (pr_id r) (set_meta cur) s)))
     else write_row sv (pr_id r) (set_meta (assign cur [(''skip_until_ms'', JInt (int (ck_now (sv_clock sv) + backoff_sec n * 1000)))])) s)"

end
