(* ===== verification/Pool_Tick.thy ===== *)
theory Pool_Tick
  imports Pool_Sampling
begin

section \<open>The tick of the settler\<close>

text \<open>
  \<open>poolSettlerTick\<close> of \<open>kasia-console/src/services/pool-market-settler.js\<close> without the refund builder for old markets before it and
  the notice of broker fees after it: the deadline watcher, the loop over the markets that are due, the watchdogs and the
  reconciliation with the chain, with \<open>isCommingledSpine\<close> of \<open>lib/pool-commingle-detect.mjs\<close>.  The rows of the loop are read when it starts, so a handler sees what
  its market was then; refunds that are not awaited are taken to be done at once.  Columns of numbers hold numbers, or texts that are
  none.  A step that throws inside the \<open>try\<close> of the loop keeps what it wrote; outside of it the tick ends, which is \<open>False\<close>.
\<close>

definition due_by :: "json \<Rightarrow> nat \<Rightarrow> bool" where
  "due_by v now = (case int_column v of JInt d \<Rightarrow> d \<le> int now | JFrac t \<Rightarrow> (case js_Number (Some v) of Some q \<Rightarrow> q \<le> of_nat now | None \<Rightarrow> False) | _ \<Rightarrow> False)"

definition now_sec :: "settle_env \<Rightarrow> nat" where
  "now_sec sv = ck_now (sv_clock sv) div 1000"

definition has_shards :: "settle_db \<Rightarrow> string \<Rightarrow> bool" where
  "has_shards s i = (i \<in> set (sd_shards s))"

definition flagged :: "pool_row \<Rightarrow> string \<Rightarrow> bool" where
  "flagged r k = js_truthy (meta r k)"

definition deadline_watcher :: "settle_env \<Rightarrow> settle_db \<Rightarrow> settle_db" where
  "deadline_watcher sv = on_pool (\<lambda>p. p\<lparr> pb_markets := update_where (\<lambda>q. pr_status q = ''pending_bettors'' \<and> due_by (pr_deadline q) (now_sec sv) \<and> committee_version q)
     (\<lambda>q. q\<lparr> pr_status := ''verifying'', pr_updated := sql_time sv \<rparr>) (pb_markets p) \<rparr>)"

subsection \<open>Markets that cannot be settled\<close>

definition isCommingledSpine :: "pool_db \<Rightarrow> string \<Rightarrow> bool" where
  "isCommingledSpine p a = (a \<noteq> [] \<and> 1 < length (filter (\<lambda>q. pr_spine q = a \<and> pr_version q = JStr ''v0.7'') (pb_markets p)))"

definition cancel_commingled :: "settle_env \<Rightarrow> pool_row \<Rightarrow> settle_db \<Rightarrow> bool \<times> settle_db" where
  "cancel_commingled sv r s = cancel_and_refund sv r
     (set_meta (without ''skip_until_ms'' (assign (meta_kvs r) [(''cancel_reason'', JStr ''commingled_spine_finding2''), (''commingled_cancelled_at'', iso_now sv)])))
     ''commingled_spine_finding2'' [(''spine_p2sh'', JStr (pr_spine r))] Commingled ''market_cancelled_commingled_spine_finding2'' (market_sides (sd_pool s) (pr_id r)) s"

definition MIN_POT_SOMPI :: int where "MIN_POT_SOMPI = 10000000000"

definition getBettorSumSompi :: "pool_db \<Rightarrow> string \<Rightarrow> int" where
  "getBettorSumSompi p i = (\<Sum>b\<leftarrow>market_sides p i. int_or (br_stake b) 0)"

definition pot_of :: "pool_db \<Rightarrow> pool_row \<Rightarrow> int option" where
  "pot_of p r = map_option (\<lambda>v. v + getBettorSumSompi p (pr_id r)) (if js_truthy (Some (pr_maker_stake r)) then js_BigInt (Some (pr_maker_stake r)) else Some 0)"

definition cancel_min_pot :: "settle_env \<Rightarrow> pool_row \<Rightarrow> bool \<Rightarrow> int \<Rightarrow> settle_db \<Rightarrow> settle_db" where
  "cancel_min_pot sv r clear pot s =
    (let kvs = assign (meta_kvs r) [(''cancel_reason'', JStr ''min_pot_undersize''), (''cancel_pool_sompi'', JStr (int_str pot)), (''cancelled_at'', iso_now sv)] in
     dispatchRefund sv r MinPot (write_row sv (pr_id r) (set_status ''cancelled'' \<circ> set_meta (if clear then without ''skip_until_ms'' kvs else kvs)) s))"

definition waiting :: "settle_env \<Rightarrow> pool_row \<Rightarrow> bool" where
  "waiting sv r = (case meta r ''skip_until_ms'' of Some (JInt n) \<Rightarrow> n \<noteq> 0 \<and> int (ck_now (sv_clock sv)) < n | _ \<Rightarrow> False)"

definition heal_doomed :: "settle_env \<Rightarrow> pool_row \<Rightarrow> settle_db \<Rightarrow> settle_db" where
  "heal_doomed sv r s =
    (if committee_version r \<and> \<not> flagged r ''refund_dispatched_at'' \<and> pr_status r = ''verifying''
     then snd (cancel_and_refund sv r
       (set_meta (assign (without ''legacy_est_storage_mass'' (without ''needs_larger_pot'' (meta_kvs r)))
          ((''legacy_doomed_self_heal_at'', iso_now sv) # optional ''legacy_est_storage_mass'' (meta r ''est_storage_mass''))))
       ''legacy_doomed_needs_larger_pot_self_heal'' (optional ''est_storage_mass'' (meta r ''est_storage_mass'')) DoomedHeal
       ''market_cancelled_legacy_doomed_self_heal'' (market_sides (sd_pool s) (pr_id r)) s)
     else s)"

subsection \<open>Markets without a bet\<close>

definition request_due :: "settle_env \<Rightarrow> pool_row \<Rightarrow> bool" where
  "request_due sv r = (\<not> flagged r ''refund_dispatched_at'' \<and> (\<not> flagged r ''refund_request_broadcasted_at''
     \<or> (case date_ms (sv_clock sv) (meta r ''refund_request_broadcasted_at'') of None \<Rightarrow> False | Some t \<Rightarrow> 60 * 60 * 1000 < int (ck_now (sv_clock sv)) - t)))"

definition refund_request_json :: "settle_env \<Rightarrow> pool_row \<Rightarrow> json" where
  "refund_request_json sv r = JObj [(''t'', JStr ''pool_refund_request_v1''), (''market_id'', JStr (pr_id r)), (''maker_pk'', JStr (drop 11 (pr_maker_relay r))),
     (''protocol_version'', pr_version r), (''reason'', JStr ''0-bet cross-node maker refund (settler watchdog)''), (''requested_at'', iso_now sv)]"

definition request_refund :: "settle_env \<Rightarrow> pool_row \<Rightarrow> settle_db \<Rightarrow> settle_db" where
  "request_refund sv r s = (case announce sv (refund_request_json sv r) s of (a, s1) \<Rightarrow>
     (case answered a ''txId'' of None \<Rightarrow> s1
      | Some t \<Rightarrow> write_row sv (pr_id r) (set_meta (assign (meta_kvs r) [(''refund_request_broadcasted_at'', iso_now sv), (''refund_request_txid'', t)])) s1))"

text \<open>\<open>None\<close> where the loop goes on with this market.\<close>

definition without_bets :: "settle_env \<Rightarrow> pool_row \<Rightarrow> settle_db \<Rightarrow> settle_db option" where
  "without_bets sv r s =
    (if pr_status r \<noteq> ''verifying'' \<or> \<not> committee_version r \<or> bet_count (sd_pool s) (pr_id r) \<noteq> 0 then None
     else if \<not> cross_node (pr_maker_relay r) then Some (if flagged r ''refund_dispatched_at'' then s else dispatchRefund sv r ZeroBets s)
     else if request_due sv r then Some (request_refund sv r s) else None)"

subsection \<open>Messages that were missed\<close>

definition orphans :: "pool_db \<Rightarrow> string \<Rightarrow> string \<Rightarrow> string \<Rightarrow> bmsg list" where
  "orphans p i word type = sort_key bm_created (filter (\<lambda>b. bm_channel b = ''kanet-prediction'' \<and> sql_like (''%'' @ word @ ''%'') (bm_content b)
     \<and> sql_like (like_member ''market_id'' i) (bm_content b)
     \<and> (case bm_tx b of None \<Rightarrow> False | Some t \<Rightarrow> t \<notin> ev_txid ` set (filter (\<lambda>x. ev_type x = type) (pb_events p)))) (pb_messages p))"

definition replay_orphans :: "pool_env \<Rightarrow> string \<Rightarrow> string \<Rightarrow> string \<Rightarrow> pool_db \<Rightarrow> pool_db" where
  "replay_orphans env i word type p = fold (onPoolBroadcast env (Suc (length (pb_messages p)))) (orphans p i word type) p"

definition replay_votes :: "pool_env \<Rightarrow> string \<Rightarrow> pool_db \<Rightarrow> pool_db" where
  "replay_votes env i = replay_orphans env i ''pool_oracle_vote_v1'' ''pool_oracle_vote''"

definition replay_sigs :: "pool_env \<Rightarrow> string \<Rightarrow> pool_db \<Rightarrow> pool_db" where
  "replay_sigs env i = replay_orphans env i ''kanet_pool_oracle_tx_sign_resp_v1'' ''pool_oracle_tx_sig''"

definition rescan :: "pool_env \<Rightarrow> pool_row \<Rightarrow> settle_db \<Rightarrow> settle_db" where
  "rescan env r s = (if committee_version r \<and> pr_status r \<in> {''verifying'', ''collecting_sigs''}
     then on_pool (replay_sigs env (pr_id r) \<circ> replay_votes env (pr_id r)) s else s)"

subsection \<open>Acting on the votes\<close>

definition stash_disagreement :: "settle_env \<Rightarrow> pool_row \<Rightarrow> int \<Rightarrow> settle_db \<Rightarrow> bool \<times> settle_db" where
  "stash_disagreement sv r silent s =
    (let s1 = write_row sv (pr_id r) (set_meta (assign (meta_kvs r) [(''disagreement_detected_at'', iso_now sv)])) s in
     case add_event sv (event_tx sv ''disagreement_detected'' [pr_id r]) ''disagreement_detected''
         (JObj [(''market_id'', JStr (pr_id r)), (''detected_at'', iso_now sv), (''silent_oracle_index'', JInt silent)]) s1 of
       None \<Rightarrow> (False, s1) | Some s2 \<Rightarrow> (True, s2))"

definition quorum_timeout :: "settle_env \<Rightarrow> pool_row \<Rightarrow> settle_db \<Rightarrow> settle_db" where
  "quorum_timeout sv r s =
    (case int_column (pr_deadline r) of
       JInt d \<Rightarrow> if d \<noteq> 0 \<and> int (cf_quorum_sec (sv_conf sv)) < int (now_sec sv) - d \<and> \<not> flagged r ''refund_dispatched_at'' \<and> \<not> flagged r ''quorum_timeout_refund_at''
         then dispatchRefund sv r QuorumTimeout (write_row sv (pr_id r) (set_meta (assign (meta_kvs r)
           [(''quorum_timeout_refund_at'', iso_now sv), (''quorum_timeout_reason'', JStr (sv_words sv QuorumTimeout))])) s)
         else s
     | _ \<Rightarrow> s)"

definition open_dispute :: "settle_env \<Rightarrow> pool_row \<Rightarrow> reason \<Rightarrow> settle_db \<Rightarrow> settle_db" where
  "open_dispute sv r why = write_row sv (pr_id r) (set_status ''disputed'' \<circ>
     set_meta (assign (meta_kvs r) [(''dispute_started_at'', iso_now sv), (''dispute_reason'', JStr (sv_words sv why))]))"

definition handle_dispute :: "settle_env \<Rightarrow> pool_row \<Rightarrow> reason \<Rightarrow> settle_db \<Rightarrow> settle_db" where
  "handle_dispute sv r why s =
    (if \<not> flagged r ''dispute_started_at'' then open_dispute sv r why s
     else (case Option.bind (meta r ''dispute_started_at'') (parseSqliteUtc (sv_clock sv)) of
       Some t \<Rightarrow> if int (cf_dispute (sv_conf sv)) \<le> int (ck_now (sv_clock sv)) - t \<and> \<not> flagged r ''refund_dispatched_at'' then dispatchRefund sv r DisputeGrace s else s
     | None \<Rightarrow> s))"

definition settle_decided :: "settle_env \<Rightarrow> pool_row \<Rightarrow> nat \<Rightarrow> bool \<Rightarrow> nat option \<Rightarrow> settle_db \<Rightarrow> settle_db" where
  "settle_decided sv r w unanimous silent s =
    (if committee_version r \<and> (case pot_of (sd_pool s) r of None \<Rightarrow> True | Some pot \<Rightarrow> pot < MIN_POT_SOMPI)
     then (case pot_of (sd_pool s) r of None \<Rightarrow> s | Some pot \<Rightarrow> cancel_min_pot sv r False pot s)
     else if flagged r ''phase2_dispatched_at'' then s else dispatchPhase2 sv r w unanimous silent s)"

definition act :: "settle_env \<Rightarrow> pool_row \<Rightarrow> decision \<Rightarrow> settle_db \<Rightarrow> settle_db" where
  "act sv r d s = (case d of
      Consensus w u k \<Rightarrow> settle_decided sv r w u k s
    | Refund why \<Rightarrow> if flagged r ''refund_dispatched_at'' then s else dispatchRefund sv r why s
    | RefundDisagreement silent why \<Rightarrow> if flagged r ''refund_disagreement_dispatched_at'' then s else dispatchRefundDisagreement sv r silent s
    | Dispute why \<Rightarrow> handle_dispute sv r why s
    | Pending None \<Rightarrow> quorum_timeout sv r s
    | Pending (Some silent) \<Rightarrow> (case stash_disagreement sv r silent s of (False, s1) \<Rightarrow> s1 | (True, s1) \<Rightarrow> quorum_timeout sv r s1))"

definition decide_and_act :: "settle_env \<Rightarrow> pool_env \<Rightarrow> pool_row \<Rightarrow> settle_db \<Rightarrow> settle_db" where
  "decide_and_act sv env r s = (let s1 = rescan env r s in act sv r (decideConsensus (sv_conf sv) (sv_clock sv) (sd_pool s1) r) s1)"

subsection \<open>One market\<close>

definition no_committee_yet :: "pool_row \<Rightarrow> bool" where
  "no_committee_yet r = (committee_version r \<and> pr_relays r \<in> {NoPayload, TextPayload [], JsonPayload (JArr [])})"

definition sample_and_decide :: "settle_env \<Rightarrow> pool_env \<Rightarrow> pool_row \<Rightarrow> settle_db \<Rightarrow> settle_db" where
  "sample_and_decide sv env r s =
    (if no_committee_yet r \<and> map_of (pb_committee (sd_pool s)) (pr_id r) = None
     then (case sample_market sv env r s of
       (TooOld, s1) \<Rightarrow> too_old sv r s1
     | (SampleFails, s1) \<Rightarrow> sample_failed sv r s1
     | (Sampled, s1) \<Rightarrow> (let s2 = on_pool (replay_votes env (pr_id r)) s1 in
         decide_and_act sv env (case find_pool (sd_pool s2) (pr_id r) of Some r2 \<Rightarrow> r2 | None \<Rightarrow> r) s2))
     else decide_and_act sv env r s)"

definition collect :: "settle_env \<Rightarrow> pool_row \<Rightarrow> settle_db \<Rightarrow> settle_db" where
  "collect sv r s =
    (if committee_version r \<and> (case pot_of (sd_pool s) r of None \<Rightarrow> True | Some pot \<Rightarrow> pot < MIN_POT_SOMPI)
     then (case pot_of (sd_pool s) r of None \<Rightarrow> s | Some pot \<Rightarrow> cancel_min_pot sv r False pot s)
     else handleCollectingSigs sv r s)"

definition step_inside :: "settle_env \<Rightarrow> pool_env \<Rightarrow> pool_row \<Rightarrow> settle_db \<Rightarrow> settle_db" where
  "step_inside sv env r s =
    (if flagged r ''needs_larger_pot'' \<and> pr_status r \<noteq> ''refunding'' \<and> pr_status r \<noteq> ''cancelled'' then heal_doomed sv r s
     else (case without_bets sv r s of Some s1 \<Rightarrow> s1
     | None \<Rightarrow> if pr_status r = ''refunding'' then handleRefunding sv r s
         else if pr_status r = ''collecting_sigs'' then collect sv r s
         else sample_and_decide sv env r s))"

definition step_market :: "settle_env \<Rightarrow> pool_env \<Rightarrow> pool_row \<Rightarrow> settle_db \<Rightarrow> bool \<times> settle_db" where
  "step_market sv env r s =
    (if has_shards s (pr_id r) then (True, s)
     else if sv_hold sv \<and> pr_status r \<in> {''verifying'', ''collecting_sigs'', ''disputed''} \<and> isCommingledSpine (sd_pool s) (pr_spine r) then cancel_commingled sv r s
     else if pr_status r \<in> {''verifying'', ''collecting_sigs''} \<and> committee_version r \<and> pot_of (sd_pool s) r = None then (False, s)
     else if pr_status r \<in> {''verifying'', ''collecting_sigs''} \<and> committee_version r \<and> the (pot_of (sd_pool s) r) < MIN_POT_SOMPI
       \<and> meta r ''cancel_reason'' \<noteq> Some (JStr ''min_pot_undersize'')
     then (True, cancel_min_pot sv r True (the (pot_of (sd_pool s) r)) s)
     else if waiting sv r \<and> pr_status r \<in> {''verifying'', ''collecting_sigs''} then (True, s)
     else (True, step_inside sv env r s))"

fun step_markets :: "settle_env \<Rightarrow> pool_env \<Rightarrow> pool_row list \<Rightarrow> settle_db \<Rightarrow> bool \<times> settle_db" where
  "step_markets sv env [] s = (True, s)"
| "step_markets sv env (r # rs) s = (case step_market sv env r s of (False, s1) \<Rightarrow> (False, s1) | (True, s1) \<Rightarrow> step_markets sv env rs s1)"

definition due_markets :: "settle_env \<Rightarrow> string list \<Rightarrow> pool_db \<Rightarrow> pool_row list" where
  "due_markets sv states p = filter (\<lambda>q. pr_status q \<in> set states \<and> due_by (pr_deadline q) (now_sec sv)) (pb_markets p)"

subsection \<open>The watchdogs\<close>

definition WATCHDOG_BACKOFF_MS :: nat where "WATCHDOG_BACKOFF_MS = 600000"

definition remember :: "settle_env \<Rightarrow> string \<Rightarrow> settle_db \<Rightarrow> settle_db" where
  "remember sv i s = (let now = ck_now (sv_clock sv); m = map_set i now (sd_backoff s) in
     s\<lparr> sd_backoff := if 5000 < length m then filter (\<lambda>(k, t). now - WATCHDOG_BACKOFF_MS \<le> t) m else m \<rparr>)"

definition backed_off :: "settle_env \<Rightarrow> string \<Rightarrow> settle_db \<Rightarrow> bool" where
  "backed_off sv i s = (int (ck_now (sv_clock sv)) - (case map_of (sd_backoff s) i of Some t \<Rightarrow> int t | None \<Rightarrow> 0) < int WATCHDOG_BACKOFF_MS)"

definition past_due :: "settle_env \<Rightarrow> pool_row \<Rightarrow> bool" where
  "past_due sv r = (case int_column (pr_deadline r) of JInt d \<Rightarrow> 30 < (int (now_sec sv) - d) div 60 | _ \<Rightarrow> False)"

definition force_decision :: "settle_env \<Rightarrow> pool_row \<Rightarrow> settle_db \<Rightarrow> settle_db" where
  "force_decision sv r s = (case decideConsensus (sv_conf sv) (sv_clock sv) (sd_pool s) r of
      Consensus w u k \<Rightarrow> dispatchPhase2 sv r w u k s
    | Refund why \<Rightarrow> if flagged r ''refund_dispatched_at'' then s else dispatchRefund sv r why s
    | _ \<Rightarrow> s)"

definition sig_count :: "pool_db \<Rightarrow> string \<Rightarrow> nat" where
  "sig_count p i = length (market_payloads p ''pool_oracle_tx_sig'' i)"

definition sigs_overdue :: "settle_env \<Rightarrow> pool_row \<Rightarrow> settle_db \<Rightarrow> bool" where
  "sigs_overdue sv r s = (flagged r ''phase2_dispatched_at''
     \<and> (case date_ms (sv_clock sv) (meta r ''phase2_dispatched_at'') of None \<Rightarrow> False | Some t \<Rightarrow> int (cf_watchdog (sv_conf sv)) < int (ck_now (sv_clock sv)) - t)
     \<and> sig_count (sd_pool s) (pr_id r) < 4 \<and> \<not> flagged r ''refund_dispatched_at'')"

definition cancel_unsigned :: "settle_env \<Rightarrow> pool_row \<Rightarrow> settle_db \<Rightarrow> settle_db" where
  "cancel_unsigned sv r s = dispatchRefund sv r SigsTimeout (write_row sv (pr_id r) (set_status ''cancelled'' \<circ>
     set_meta (assign (meta_kvs r) [(''cancel_reason'', JStr ''collecting_sigs_silent_timeout''), (''cancelled_at'', iso_now sv)])) s)"

definition watch_market :: "settle_env \<Rightarrow> pool_row \<Rightarrow> settle_db \<Rightarrow> settle_db" where
  "watch_market sv r s =
    (if has_shards s (pr_id r) then s
     else if pr_status r = ''verifying'' \<and> \<not> flagged r ''phase2_dispatched_at'' \<and> past_due sv r
     then (if backed_off sv (pr_id r) s then s else force_decision sv r (remember sv (pr_id r) s))
     else if pr_status r = ''collecting_sigs'' \<and> sigs_overdue sv r s then cancel_unsigned sv r s
     else s)"

definition watchdogs :: "settle_env \<Rightarrow> settle_db \<Rightarrow> settle_db" where
  "watchdogs sv s = fold (watch_market sv) (due_markets sv [''verifying'', ''collecting_sigs''] (sd_pool s)) s"

subsection \<open>The chain\<close>

definition last_spend :: "settle_db \<Rightarrow> string \<Rightarrow> spend option" where
  "last_spend s a = (case rev (sort_key sp_time (filter (\<lambda>x. sp_address x = a) (sd_spends s))) of [] \<Rightarrow> None | x # _ \<Rightarrow> Some x)"

definition reconcile :: "settle_env \<Rightarrow> pool_row \<Rightarrow> settle_db \<Rightarrow> settle_db" where
  "reconcile sv r s =
    (if has_shards s (pr_id r) then s
     else (case last_spend s (pr_spine r) of None \<Rightarrow> s
     | Some x \<Rightarrow> if 2 \<le> sp_outputs x then write_row sv (pr_id r) (set_status ''completed'' \<circ> (\<lambda>q. q\<lparr> pr_settle_tx := Some (sp_tx x) \<rparr>)) s
         else if sp_outputs x = 1 then write_row sv (pr_id r) (set_status ''refunded'' \<circ> (\<lambda>q. q\<lparr> pr_refund_tx := Some (sp_tx x) \<rparr>)) s
         else s))"

definition path_b :: "settle_env \<Rightarrow> settle_db \<Rightarrow> settle_db" where
  "path_b sv s = fold (reconcile sv) (filter (\<lambda>q. pr_status q \<in> {''verifying'', ''collecting_sigs''} \<and> sql_like ''cross-node:%'' (pr_maker_relay q)
     \<and> pr_settle_tx q = None \<and> pr_refund_tx q = None) (pb_markets (sd_pool s))) s"

subsection \<open>The tick\<close>

text \<open>\<open>n\<close> is the number of markets the time allows.\<close>

definition poolSettlerTick :: "settle_env \<Rightarrow> pool_env \<Rightarrow> nat \<Rightarrow> settle_db \<Rightarrow> settle_db" where
  "poolSettlerTick sv env n s =
    (let s1 = deadline_watcher sv s;
         rows = rev (sort_key pr_updated (due_markets sv [''verifying'', ''collecting_sigs'', ''refunding'', ''disputed''] (sd_pool s1))) in
     if rows = [] then s1
     else (case step_markets sv env (take n rows) s1 of (False, s2) \<Rightarrow> s2 | (True, s2) \<Rightarrow> path_b sv (watchdogs sv s2)))"

end
