(* ===== verification/Settler_Safety.thy ===== *)
theory Settler_Safety
  imports Pool_Tick
begin

section \<open>What the settler does to the table of markets\<close>

text \<open>
  Every handler of the settler writes the row of one market only, and leaves it in a status whose handler has what it needs.  The
  steps of a node (its settler, the broadcasts it hears, the notices of broker fees) are a \<open>status_machine\<close>, and closed rows stay also
  under the refunds that peers ask for.
\<close>

subsection \<open>Rows\<close>

abbreviation rows :: "settle_db \<Rightarrow> pool_row list" where
  "rows s \<equiv> pb_markets (sd_pool s)"

text \<open>What the step of a status needs to be there.\<close>

definition row_backed :: "pool_row \<Rightarrow> bool" where
  "row_backed q \<longleftrightarrow> (pr_status q = ''completed'' \<longrightarrow> pr_settle_tx q \<noteq> None) \<and> (pr_status q = ''refunded'' \<longrightarrow> pr_refund_tx q \<noteq> None)
     \<and> (pr_status q = ''refunding'' \<longrightarrow> flagged q ''refund_tx_obj'' \<and> (\<exists>v>0. meta q ''refund_amount'' = Some (JInt v)))
     \<and> (pr_status q = ''collecting_sigs'' \<longrightarrow> flagged q ''phase2_tx_obj'' \<or> flagged q ''refund_disagreement_tx_obj'')"

definition tx_members :: "string list" where
  "tx_members = [''phase2_tx_obj'', ''refund_disagreement_tx_obj'', ''refund_tx_obj'', ''refund_amount'']"

definition noted :: "pool_row \<Rightarrow> pool_row \<Rightarrow> pool_row \<Rightarrow> bool" where
  "noted r q q' \<longleftrightarrow> q' = q \<or> (pool_terms q' = pool_terms q \<and> pr_status q' = pr_status q \<and> pr_settle_tx q' = pr_settle_tx q \<and> pr_refund_tx q' = pr_refund_tx q
     \<and> (\<forall>k \<in> set tx_members. meta q' k = meta r k))"

definition turned :: "string set \<Rightarrow> pool_row \<Rightarrow> pool_row \<Rightarrow> bool" where
  "turned T q q' \<longleftrightarrow> q' = q \<or> (pool_terms q' = pool_terms q \<and> pr_status q' \<in> T \<and> row_backed q')"

definition becomes :: "pool_row \<Rightarrow> string set \<Rightarrow> pool_row \<Rightarrow> pool_row \<Rightarrow> bool" where
  "becomes r T q q' \<longleftrightarrow> noted r q q' \<or> turned T q q'"

lemma becomes_mono: "becomes r T q q' \<Longrightarrow> T \<subseteq> T' \<Longrightarrow> becomes r T' q q'"
  by (auto simp: becomes_def turned_def)

lemma becomes_ok: "becomes r T r q' \<Longrightarrow> row_backed r \<Longrightarrow> row_backed q' \<and> (pr_status q' = pr_status r \<or> pr_status q' \<in> T) \<and> pool_terms q' = pool_terms r"
proof -
  assume b: "becomes r T r q'" and ok: "row_backed r"
  consider "q' = r" | "q' \<noteq> r" "noted r r q'" | "pool_terms q' = pool_terms r" "pr_status q' \<in> T" "row_backed q'"
    using b unfolding becomes_def turned_def by blast
  then show "row_backed q' \<and> (pr_status q' = pr_status r \<or> pr_status q' \<in> T) \<and> pool_terms q' = pool_terms r"
  proof cases
    case 2
    then have same: "pool_terms q' = pool_terms r" "pr_status q' = pr_status r" "pr_settle_tx q' = pr_settle_tx r" "pr_refund_tx q' = pr_refund_tx r"
      and m: "\<forall>k \<in> set tx_members. meta q' k = meta r k"
      unfolding noted_def by blast+
    have "row_backed q' = row_backed r" unfolding row_backed_def flagged_def same using m by (simp add: tx_members_def)
    then show ?thesis using same ok by simp
  qed (use ok in simp_all)
qed

subsection \<open>Tables\<close>

definition frame :: "settle_db \<Rightarrow> settle_db \<Rightarrow> bool" where
  "frame s s' \<longleftrightarrow> sd_shards s' = sd_shards s \<and> pb_messages (sd_pool s') = pb_messages (sd_pool s) \<and> set (pb_events (sd_pool s)) \<subseteq> set (pb_events (sd_pool s'))"

lemma frame_refl [simp]: "frame s s"
  by (simp add: frame_def)

lemma frame_trans: "frame a b \<Longrightarrow> frame b c \<Longrightarrow> frame a c"
  by (auto simp: frame_def)

definition row_moves :: "string \<Rightarrow> (pool_row \<Rightarrow> pool_row \<Rightarrow> bool) \<Rightarrow> settle_db \<Rightarrow> settle_db \<Rightarrow> bool" where
  "row_moves i R s s' \<longleftrightarrow> frame s s' \<and> (\<exists>g. rows s' = update_where (\<lambda>q. pr_id q = i) g (rows s) \<and> (\<forall>q. pr_id (g q) = pr_id q \<and> R q (g q)))"

lemma movesI: "frame s s' \<Longrightarrow> rows s' = update_where (\<lambda>q. pr_id q = i) g (rows s) \<Longrightarrow> (\<And>q. pr_id (g q) = pr_id q) \<Longrightarrow> (\<And>q. R q (g q)) \<Longrightarrow> row_moves i R s s'"
  unfolding row_moves_def by blast

lemma update_id: "update_where p id xs = xs"
  by (induction xs) simp_all

lemma moves_quiet: "frame s s' \<Longrightarrow> rows s' = rows s \<Longrightarrow> (\<And>q. R q q) \<Longrightarrow> row_moves i R s s'"
  by (rule movesI [where g = id]) (simp_all add: update_id)

lemma moves_comp:
  assumes "row_moves i R a b" "row_moves i Q b c" "\<And>x y z. R x y \<Longrightarrow> Q y z \<Longrightarrow> S x z"
  shows "row_moves i S a c"
proof -
  obtain f where f: "rows b = update_where (\<lambda>q. pr_id q = i) f (rows a)" "\<And>q. pr_id (f q) = pr_id q" "\<And>q. R q (f q)" "frame a b"
    using assms(1) unfolding row_moves_def by blast
  obtain g where g: "rows c = update_where (\<lambda>q. pr_id q = i) g (rows b)" "\<And>q. pr_id (g q) = pr_id q" "\<And>q. Q q (g q)" "frame b c"
    using assms(2) unfolding row_moves_def by blast
  show ?thesis
  proof (rule movesI [where g = "g \<circ> f"])
    show "rows c = update_where (\<lambda>q. pr_id q = i) (g \<circ> f) (rows a)" unfolding g(1) f(1) update_where_def using f(2) by simp
    show "frame a c" by (rule frame_trans [OF f(4) g(4)])
    show "pr_id ((g \<circ> f) q) = pr_id q" for q using f(2) g(2) by simp
    show "S q ((g \<circ> f) q)" for q unfolding comp_def by (rule assms(3) [OF f(3) g(3)])
  qed
qed

lemma moves_mono: "row_moves i R a b \<Longrightarrow> (\<And>q q'. R q q' \<Longrightarrow> S q q') \<Longrightarrow> row_moves i S a b"
  unfolding row_moves_def by blast

lemma rels_refl [simp]: "noted r q q" "turned T q q" "becomes r T q q"
  by (simp_all add: noted_def turned_def becomes_def)

lemma noted_then:
  assumes "row_moves i (noted r) a b" "row_moves i (becomes r T) b c"
  shows "row_moves i (becomes r T) a c"
  by (rule moves_comp [OF assms]) (auto simp: becomes_def noted_def turned_def)

lemma turned_then:
  assumes "row_moves i (turned T) a b" "row_moves i (turned T) b c"
  shows "row_moves i (turned T) a c"
  by (rule moves_comp [OF assms]) (auto simp: turned_def)

lemma turned_becomes: "row_moves i (turned T) a b \<Longrightarrow> T \<subseteq> T' \<Longrightarrow> row_moves i (becomes r T') a b"
  by (erule moves_mono) (auto simp: becomes_def turned_def)

lemma turned_more: "row_moves i (turned T) a b \<Longrightarrow> T \<subseteq> T' \<Longrightarrow> row_moves i (turned T') a b"
  by (erule moves_mono) (auto simp: turned_def)

lemma becomes_more: "row_moves i (becomes r T) a b \<Longrightarrow> T \<subseteq> T' \<Longrightarrow> row_moves i (becomes r T') a b"
  by (erule moves_mono) (auto intro: becomes_mono)

subsection \<open>Writes\<close>

lemma rows_write: "rows (write_row sv i f s) = update_where (\<lambda>q. pr_id q = i) (\<lambda>q. (f q)\<lparr> pr_updated := sql_time sv \<rparr>) (rows s)"
  by (simp add: write_row_def on_pool_def)

lemma frame_write [simp]: "frame s (write_row sv i f s)"
  by (simp add: frame_def write_row_def on_pool_def)

lemma write_moves: "(\<And>q. pr_id (f q) = pr_id q) \<Longrightarrow> (\<And>q. R q ((f q)\<lparr> pr_updated := sql_time sv \<rparr>)) \<Longrightarrow> row_moves i R s (write_row sv i f s)"
  by (rule movesI [OF frame_write rows_write]) simp_all

lemma map_of_assign: "map_of (assign kvs new) j = (case map_of (rev new) j of Some v \<Rightarrow> Some v | None \<Rightarrow> map_of kvs j)"
  unfolding assign_def
proof (induction new arbitrary: kvs)
  case (Cons a new)
  show ?case by (cases a) (simp add: Cons.IH map_of_map_set map_of_append map_add_def split: option.split)
qed simp

lemma map_of_without: "map_of (without k kvs) j = (if j = k then None else map_of kvs j)"
  by (induction kvs) (auto simp: without_def)

lemma meta_set_meta [simp]: "meta (set_meta kvs q) k = map_of kvs k"
  by (simp add: meta_def set_meta_def meta_kvs_def payload_json_def)

lemma meta_upd [simp]:
  "meta (q\<lparr> pr_updated := t \<rparr>) k = meta q k" "meta (set_status u q) k = meta q k"
  "meta (q\<lparr> pr_settle_tx := x \<rparr>) k = meta q k" "meta (q\<lparr> pr_refund_tx := x \<rparr>) k = meta q k" "meta (q\<lparr> pr_relays := y \<rparr>) k = meta q k"
  by (simp_all add: meta_def meta_kvs_def set_status_def)

lemma set_sel [simp]:
  "pr_id (set_meta kvs q) = pr_id q" "pr_id (set_status u q) = pr_id q" "pr_status (set_meta kvs q) = pr_status q" "pr_status (set_status u q) = u"
  "pr_settle_tx (set_meta kvs q) = pr_settle_tx q" "pr_settle_tx (set_status u q) = pr_settle_tx q" "pr_refund_tx (set_meta kvs q) = pr_refund_tx q"
  "pr_refund_tx (set_status u q) = pr_refund_tx q" "pool_terms (set_meta kvs q) = pool_terms q" "pool_terms (set_status u q) = pool_terms q"
  "pool_terms (q\<lparr> pr_updated := t \<rparr>) = pool_terms q" "pool_terms (q\<lparr> pr_settle_tx := x \<rparr>) = pool_terms q" "pool_terms (q\<lparr> pr_refund_tx := x \<rparr>) = pool_terms q"
  "pool_terms (q\<lparr> pr_relays := y \<rparr>) = pool_terms q"
  by (simp_all add: set_meta_def set_status_def pool_terms_def)

lemma meta_of: "meta r k = map_of (meta_kvs r) k"
  by (simp add: meta_def)

lemma note_moves:
  assumes "\<And>k. k \<in> set tx_members \<Longrightarrow> map_of kvs k = meta r k"
  shows "row_moves i (noted r) s (write_row sv i (set_meta kvs) s)"
  by (rule write_moves) (use assms in \<open>auto simp: noted_def\<close>)

lemma turn_moves:
  assumes "\<And>q. pr_id (f q) = pr_id q" "\<And>q. pool_terms (f q) = pool_terms q" "\<And>q. pr_status (f q) \<in> T" "\<And>q. row_backed (f q)"
  shows "row_moves i (turned T) s (write_row sv i f s)"
proof (rule write_moves)
  fix q
  have "row_backed ((f q)\<lparr> pr_updated := sql_time sv \<rparr>)" using assms(4) [of q] by (simp add: row_backed_def flagged_def)
  then show "turned T q ((f q)\<lparr> pr_updated := sql_time sv \<rparr>)" using assms(2,3) by (simp add: turned_def)
qed (rule assms(1))

subsection \<open>Steps that write no market\<close>

definition quiet :: "settle_db \<Rightarrow> settle_db \<Rightarrow> bool" where
  "quiet s s' \<longleftrightarrow> frame s s' \<and> rows s' = rows s"

lemma quiet_refl [simp]: "quiet s s"
  by (simp add: quiet_def)

lemma quiet_trans: "quiet a b \<Longrightarrow> quiet b c \<Longrightarrow> quiet a c"
  using frame_trans by (auto simp: quiet_def)

lemma quiet_before: "quiet a b \<Longrightarrow> row_moves i R b c \<Longrightarrow> row_moves i R a c"
proof -
  assume q: "quiet a b" and m: "row_moves i R b c"
  have "frame a c" using m q frame_trans unfolding row_moves_def quiet_def by blast
  then show ?thesis using m q unfolding row_moves_def quiet_def by simp
qed

lemma quiet_after: "row_moves i R a b \<Longrightarrow> quiet b c \<Longrightarrow> row_moves i R a c"
proof -
  assume m: "row_moves i R a b" and q: "quiet b c"
  have "frame a c" using m q frame_trans unfolding row_moves_def quiet_def by blast
  then show ?thesis using m q unfolding row_moves_def quiet_def by simp
qed

lemma quiet_moves: "quiet a b \<Longrightarrow> (\<And>q. R q q) \<Longrightarrow> row_moves i R a b"
  unfolding quiet_def by (rule moves_quiet) auto

lemma same_moves: "(\<And>q. R q q) \<Longrightarrow> row_moves i R s s"
  by (rule quiet_moves) simp_all

lemma same_moves_rel [simp]: "row_moves i (noted r) s s" "row_moves i (turned T) s s" "row_moves i (becomes r T) s s"
  by (rule same_moves, simp)+

lemma ask_quiet: "quiet s (snd (ask sv relay cmd s))"
  by (simp add: quiet_def frame_def ask_def on_pool_def)

lemma ask_quietD: "ask sv relay cmd s = (a, s') \<Longrightarrow> quiet s s'"
  using ask_quiet [of s sv relay cmd] by simp

lemma event_quiet: "add_event sv tx type j s = Some s' \<Longrightarrow> quiet s s'"
  by (auto simp: quiet_def frame_def add_event_def on_pool_def Let_def split: if_splits)

lemma announce_quiet: "quiet s (snd (announce sv m s))"
  by (simp add: announce_def ask_quiet split: option.split)

lemma out_quiet: "quiet s (hand_over relay cmd s)"
  by (simp add: quiet_def frame_def hand_over_def)

lemma fold_quiet: "(\<And>x s. quiet s (f x s)) \<Longrightarrow> quiet s (fold f xs s)"
proof (induction xs arbitrary: s)
  case (Cons x xs)
  show ?case using quiet_trans [OF Cons.prems Cons.IH] Cons.prems by simp
qed simp

lemma broadcast_quiet: "quiet s (snd (broadcast_chunked sv relay m s))"
  by (simp add: quiet_def frame_def broadcast_chunked_def on_pool_def Let_def split: prod.split)

lemma reward_quiet: "quiet s (record_reward r s)"
  by (simp add: quiet_def frame_def record_reward_def split: option.split json.split)

lemma remember_quiet: "quiet s (remember sv i s)"
  by (simp add: quiet_def frame_def remember_def Let_def)

lemma refunds_quiet: "quiet s (snd (emit_refunds sv i why bs s))"
proof (induction bs arbitrary: s)
  case (Cons b bs)
  show ?case
  proof (cases "add_event sv (event_tx sv ''bettor_refund'' [i, br_bettor b]) ''bettor_refund_available'' (side_refund_json i why b) s")
    case (Some s1)
    then show ?thesis using quiet_trans [OF event_quiet [OF Some] Cons.IH] by simp
  qed simp
qed simp

subsection \<open>Refunds\<close>

lemma answered_truthy: "answered a k = Some v \<Longrightarrow> js_truthy (Some v)"
  by (auto simp: answered_def split: option.splits if_splits)

lemma preimage_refund:
  assumes "buildMakerRefundPreimage sv r s = (Some (tx, v), s')"
  shows "js_truthy (Some tx) \<and> 0 < v \<and> (\<exists>fee. refund_fee r = Some fee \<and> v = refund_amount r fee)"
  using assms answered_truthy by (auto simp: buildMakerRefundPreimage_def Let_def split: option.splits if_splits prod.splits)

lemma preimage_quiet: "quiet s (snd (buildMakerRefundPreimage sv r s))"
  by (auto simp: buildMakerRefundPreimage_def Let_def split: option.split prod.split dest: ask_quietD)

lemma refund_moves: "row_moves (pr_id r) (turned {''refunding''}) s (dispatchRefund sv r why s)"
proof (cases "pr_id r \<in> set (sd_shards s)")
  case False
  obtain p s1 where p: "buildMakerRefundPreimage sv r s = (p, s1)" by fastforce
  have q: "quiet s s1" using preimage_quiet [of s sv r] by (simp add: p)
  show ?thesis
  proof (cases p)
    case None
    then show ?thesis using False p by (simp add: dispatchRefund_def quiet_moves [OF q])
  next
    case (Some t)
    obtain tx v where t: "p = Some (tx, v)" using Some by (cases t) auto
    have ok: "js_truthy (Some tx)" "0 < v" using preimage_refund p t by blast+
    show ?thesis unfolding dispatchRefund_def p t using False
      by (simp only: if_False prod.case option.case)
        (rule quiet_before [OF q turn_moves]; use ok in \<open>simp add: row_backed_def flagged_def map_of_assign\<close>)
  qed
qed (simp add: dispatchRefund_def)

lemma cancel_row_ok: "pr_status q = ''cancelled'' \<Longrightarrow> row_backed q"
  by (simp add: row_backed_def)

lemma cancel_write_moves:
  assumes "\<And>q. pr_id (f q) = pr_id q" "\<And>q. pool_terms (f q) = pool_terms q"
  shows "row_moves i (turned {''cancelled'', ''refunding''}) s (write_row sv i (set_status ''cancelled'' \<circ> f) s)"
  by (rule turn_moves) (simp_all add: assms cancel_row_ok)

lemma cancel_then_refund:
  assumes "\<And>q. pr_id (f q) = pr_id q" "\<And>q. pool_terms (f q) = pool_terms q"
  shows "row_moves (pr_id r) (turned {''cancelled'', ''refunding''}) s (dispatchRefund sv r why (write_row sv (pr_id r) (set_status ''cancelled'' \<circ> f) s))"
  by (rule turned_then [OF cancel_write_moves [OF assms] turned_more [OF refund_moves]]) simp

lemma cancelled_moves:
  assumes "\<And>q. pr_id (f q) = pr_id q" "\<And>q. pool_terms (f q) = pool_terms q"
  shows "row_moves (pr_id r) (turned {''cancelled'', ''refunding''}) s (snd (cancel_and_refund sv r f what extra why side_why sides s))"
proof -
  define s1 where "s1 = write_row sv (pr_id r) (set_status ''cancelled'' \<circ> f) s"
  have m: "row_moves (pr_id r) (turned {''cancelled'', ''refunding''}) s s1" unfolding s1_def by (rule cancel_write_moves [OF assms])
  show ?thesis unfolding cancel_and_refund_def Let_def s1_def [symmetric]
  proof (split option.split, intro conjI impI allI)
    show "row_moves (pr_id r) (turned {''cancelled'', ''refunding''}) s (snd (False, s1))" using m by simp
  next
    fix s2
    assume "add_event sv (event_tx sv ''market_cancelled'' [pr_id r]) ''market_cancelled''
       (JObj ([(''market_id'', JStr (pr_id r)), (''reason'', JStr what)] @ extra @ [(''cancelled_at'', iso_now sv)])) s1 = Some s2"
    then have "row_moves (pr_id r) (turned {''cancelled'', ''refunding''}) s s2" using quiet_after [OF m event_quiet] by blast
    then have "row_moves (pr_id r) (turned {''cancelled'', ''refunding''}) s (dispatchRefund sv r why s2)"
      by (rule turned_then) (rule turned_more [OF refund_moves], simp)
    then show "row_moves (pr_id r) (turned {''cancelled'', ''refunding''}) s (snd (emit_refunds sv (pr_id r) side_why sides (dispatchRefund sv r why s2)))"
      by (rule quiet_after) (rule refunds_quiet)
  qed
qed

lemma refunding_moves: "row_moves (pr_id r) (turned {''refunded''}) s (handleRefunding sv r s)"
proof -
  have w: "row_moves (pr_id r) (turned {''refunded''}) s1 (write_row sv (pr_id r) (set_status ''refunded'' \<circ> (\<lambda>q. q\<lparr> pr_refund_tx := Some tx \<rparr>)) s1)" for s1 tx
    by (rule turn_moves) (simp_all add: row_backed_def set_status_def pool_terms_def)
  show ?thesis unfolding handleRefunding_def
    by (auto split: option.split prod.split json.split dest!: ask_quietD intro: quiet_before [OF _ w] quiet_moves)
qed

subsection \<open>Settlements\<close>

abbreviation open_states :: "string set" where
  "open_states \<equiv> {''collecting_sigs'', ''cancelled'', ''refunding''}"

lemma note_then: "(\<And>k. k \<in> set tx_members \<Longrightarrow> map_of kvs k = meta r k) \<Longrightarrow> row_moves i (becomes r T) s (write_row sv i (set_meta kvs) s)"
  by (rule moves_mono [OF note_moves]) (auto simp: becomes_def)

lemma other_members: "(\<And>k. k \<in> set tx_members \<Longrightarrow> k \<notin> fst ` set new) \<Longrightarrow> k \<in> set tx_members \<Longrightarrow> map_of (assign (meta_kvs r) new) k = meta r k"
  by (simp add: map_of_assign meta_of map_of_eq_None_iff image_Un split: option.split)
    (metis image_set map_of_eq_None_iff option.distinct(1) rev_map set_rev)

lemma phase2_members: "map_of (assign kvs (phase2_meta sv p r w u k st po ins n outs tx @ c @ g @ [(''phase2_request_payload'', q)])) ''phase2_tx_obj''
    = (case map_of (rev (c @ g)) ''phase2_tx_obj'' of Some v \<Rightarrow> Some v | None \<Rightarrow> Some tx)"
  by (simp add: map_of_assign phase2_meta_def map_add_def split: option.split)

lemma committee_keys: "committee_meta sv p r = Some c \<Longrightarrow> ''phase2_tx_obj'' \<notin> fst ` set c"
  by (auto simp: committee_meta_def split: option.splits json.splits sum.splits if_splits)

lemma global_keys: "global_meta sv r ps = Some g \<Longrightarrow> ''phase2_tx_obj'' \<notin> fst ` set g"
  by (auto simp: global_meta_def split: option.splits json.splits sum.splits if_splits)

lemma submit_moves: "row_moves (pr_id r) (turned {''collecting_sigs''}) s (phase2_submit sv r w u k sides st po deposits outs s)"
proof -
  obtain a s1 where a: "ask sv (pr_maker_relay r) (phase2_preimage r sides (settle_inputs r deposits sides) (1 + length deposits) outs) s = (a, s1)" by fastforce
  have q: "quiet s s1" by (rule ask_quietD [OF a])
  define cm where "cm = (if committee_version r then committee_meta sv (sd_pool s1) r else Some [])"
  define gm where "gm = (if pr_version r = JStr ''v0.7'' then global_meta sv r (st_parts st) else Some [])"
  show ?thesis
  proof (cases "\<exists>tx c g. answered a ''tx_obj'' = Some tx \<and> cm = Some c \<and> gm = Some g")
    case False
    then have "phase2_submit sv r w u k sides st po deposits outs s = s1"
      unfolding phase2_submit_def Let_def a prod.case cm_def [symmetric] gm_def [symmetric] by (cases cm; cases gm) (auto split: option.split)
    then show ?thesis by (simp add: quiet_moves [OF q])
  next
    case True
    then obtain tx c g where t: "answered a ''tx_obj'' = Some tx" and c: "cm = Some c" and g: "gm = Some g" by blast
    have keys: "''phase2_tx_obj'' \<notin> fst ` set c" "''phase2_tx_obj'' \<notin> fst ` set g"
      using c g committee_keys global_keys unfolding cm_def gm_def by (auto split: if_splits)
    then have none: "map_of (rev (c @ g)) ''phase2_tx_obj'' = None" by (simp add: map_of_eq_None_iff image_Un map_add_None)
    define req where "req = sign_request r w u k (length (settle_inputs r deposits sides)) (1 + length deposits) tx"
    define f where "f = set_status ''collecting_sigs'' \<circ> set_meta (assign (meta_kvs r)
      (phase2_meta sv (sd_pool s1) r w u k st po (settle_inputs r deposits sides) (1 + length deposits) outs tx @ c @ g @ [(''phase2_request_payload'', req)]))"
    have "row_moves (pr_id r) (turned {''collecting_sigs''}) s1 (write_row sv (pr_id r) f s1)"
      by (rule turn_moves) (use answered_truthy [OF t] none in \<open>simp_all add: f_def row_backed_def flagged_def phase2_members map_add_def\<close>)
    then have m: "row_moves (pr_id r) (turned {''collecting_sigs''}) s (write_row sv (pr_id r) f s1)" by (rule quiet_before [OF q])
    have "phase2_submit sv r w u k sides st po deposits outs s = snd (broadcast_chunked sv (pr_maker_relay r) req (write_row sv (pr_id r) f s1))"
      unfolding phase2_submit_def Let_def a cm_def [symmetric] gm_def [symmetric] prod.case t c g option.case req_def [symmetric] f_def [symmetric] by (rule refl)
    then show ?thesis by (simp add: quiet_after [OF m broadcast_quiet])
  qed
qed

lemma dispatched_moves: "row_moves (pr_id r) (becomes r open_states) s (dispatchPhase2 sv r w u k s)"
proof -
  have refund: "row_moves (pr_id r) (becomes r open_states) s (dispatchRefund sv r why s)" for why
    by (rule turned_becomes [OF refund_moves]) simp
  have cancel: "row_moves (pr_id r) (becomes r open_states) s (snd (cancel_and_refund sv r id what extra why side_why sides s))" for what extra why side_why sides
    by (rule turned_becomes [OF cancelled_moves]) simp_all
  have submit: "row_moves (pr_id r) (becomes r open_states) s (phase2_submit sv r w u k sides st po deposits outs s)" for sides st po deposits outs
    by (rule turned_becomes [OF submit_moves]) simp
  have noting: "row_moves (pr_id r) (becomes r open_states) s
      (write_row sv (pr_id r) (set_meta (assign (meta_kvs r) [(''needs_larger_pot'', JBool True), (''est_storage_mass'', JInt m)])) s)" for m
    by (rule note_then) (rule other_members, auto simp: tx_members_def)
  show ?thesis unfolding dispatchPhase2_def Let_def cancel_thin_def cancel_heavy_def
    by (auto split: option.split sum.split simp: refund cancel submit noting)
qed

lemma disagreement_moves: "row_moves (pr_id r) (turned {''collecting_sigs''}) s (dispatchRefundDisagreement sv r silent s)"
proof -
  have w: "row_moves (pr_id r) (turned {''collecting_sigs''}) s1 (fold (\<lambda>i. hand_over (pr_maker_relay r) (c i)) is
      (write_row sv (pr_id r) (set_status ''collecting_sigs'' \<circ> set_meta (assign (meta_kvs r) ((''refund_disagreement_tx_obj'', tx) # more))) s1))"
    if "js_truthy (Some tx)" "''refund_disagreement_tx_obj'' \<notin> fst ` set more" for s1 c "is" tx more
  proof (rule quiet_after [OF turn_moves fold_quiet])
    have "map_of (rev more) ''refund_disagreement_tx_obj'' = None" using that(2) by (simp add: map_of_eq_None_iff)
    then show "row_backed ((set_status ''collecting_sigs'' \<circ> set_meta (assign (meta_kvs r) ((''refund_disagreement_tx_obj'', tx) # more))) q)" for q
      using that(1) by (simp add: row_backed_def flagged_def map_of_assign map_add_def)
  qed (simp_all add: out_quiet)
  show ?thesis unfolding dispatchRefundDisagreement_def Let_def
    by (auto split: option.split prod.split dest!: ask_quietD dest: answered_truthy intro!: quiet_before [OF _ w] intro: quiet_moves)
qed

subsection \<open>Collecting signatures\<close>

abbreviation paid_states :: "string set" where
  "paid_states \<equiv> {''completed'', ''refunded'', ''cancelled'', ''refunding''}"

lemma failed_moves: "row_moves (pr_id r) (becomes r {''cancelled'', ''refunding''}) s (submit_failed sv r j s)"
proof -
  have noting: "row_moves (pr_id r) (becomes r {''cancelled'', ''refunding''}) s (write_row sv (pr_id r)
      (set_meta (assign (assign (meta_kvs r) [(''submit_fail_count'', n), (''submit_last_err'', e)]) [(''skip_until_ms'', m)])) s)" for n e m
    by (rule note_then) (auto simp: map_of_assign meta_of tx_members_def)
  have "row_moves (pr_id r) (becomes r {''cancelled'', ''refunding''}) s (dispatchRefund sv r why (write_row sv (pr_id r) (set_status ''cancelled'' \<circ> set_meta kvs) s))" for why kvs
    by (rule turned_becomes [OF cancel_then_refund]) simp_all
  then show ?thesis unfolding submit_failed_def Let_def using noting by (simp split: option.split)
qed

lemma settlement_moves: "row_moves (pr_id r) (becomes r paid_states) s (submit_settlement sv r sides deposits sigs tx s)"
proof -
  obtain a s1 where a: "ask sv (pr_maker_relay r) (settle_command sv (sd_pool s) r sides deposits sigs tx) s = (a, s1)" by fastforce
  have q: "quiet s s1" by (rule ask_quietD [OF a])
  have quiet1: "row_moves (pr_id r) (becomes r paid_states) s s1" by (rule quiet_moves [OF q]) simp
  have failed: "row_moves (pr_id r) (becomes r paid_states) s (submit_failed sv r j s1)" for j
    by (rule quiet_before [OF q], rule becomes_more [OF failed_moves]) simp
  have finish: "row_moves (pr_id r) (becomes r paid_states) s (snd (announce sv m (record_reward r
      (write_row sv (pr_id r) (set_status ''completed'' \<circ> (\<lambda>q. q\<lparr> pr_settle_tx := Some t \<rparr>)) s1))))" for m t
  proof -
    have "row_moves (pr_id r) (turned {''completed''}) s1 (write_row sv (pr_id r) (set_status ''completed'' \<circ> (\<lambda>q. q\<lparr> pr_settle_tx := Some t \<rparr>)) s1)"
      by (rule turn_moves) (simp_all add: row_backed_def set_status_def pool_terms_def)
    then have "row_moves (pr_id r) (becomes r paid_states) s1 (write_row sv (pr_id r) (set_status ''completed'' \<circ> (\<lambda>q. q\<lparr> pr_settle_tx := Some t \<rparr>)) s1)"
      by (rule turned_becomes) simp
    then show ?thesis by (rule quiet_before [OF q quiet_after [OF _ quiet_trans [OF reward_quiet announce_quiet]]])
  qed
  show ?thesis unfolding submit_settlement_def a prod.case
    by (auto split: option.split json.split simp: quiet1 failed finish)
qed

lemma rebroadcast_moves: "row_moves (pr_id r) (becomes r T) s (rebroadcast sv r sigs s)"
proof (cases "\<not> redm_due sv r \<or> missing_oracles (sd_pool s) r sigs = []")
  case False
  define m where "m = JObj (assign (obj_kvs (meta r ''phase2_request_payload'')) [(''phase2_tx_obj'', member_or_null (JObj (meta_kvs r)) ''phase2_tx_obj'')])"
  obtain ok s1 where b: "broadcast_chunked sv (pr_maker_relay r) m s = (ok, s1)" by fastforce
  have q: "quiet s s1" using broadcast_quiet [of s sv "pr_maker_relay r" m] by (simp add: b)
  have w: "row_moves (pr_id r) (becomes r T) s1 (write_row sv (pr_id r) (set_meta (assign (meta_kvs r) [(''last_sign_req_redm_at'', t), (''sign_req_fail_count'', n)])) s1)" for t n
    by (rule note_then) (rule other_members, auto simp: tx_members_def)
  show ?thesis unfolding rebroadcast_def m_def [symmetric] if_not_P [OF False] b prod.case by (rule quiet_before [OF q w])
qed (simp add: rebroadcast_def)

lemma collect_disagreement_moves: "row_moves (pr_id r) (turned {''refunded''}) s (handleCollectingSigsRefundDisagreement sv r s)"
proof -
  have w: "row_moves (pr_id r) (turned {''refunded''}) s1 (write_row sv (pr_id r) (set_status ''refunded'' \<circ> (\<lambda>q. q\<lparr> pr_refund_tx := Some tx \<rparr>)) s1)" for s1 tx
    by (rule turn_moves) (simp_all add: row_backed_def set_status_def pool_terms_def)
  show ?thesis unfolding handleCollectingSigsRefundDisagreement_def Let_def
    by (auto split: option.split prod.split json.split dest!: ask_quietD intro: quiet_before [OF _ w] quiet_moves)
qed

lemma collecting_moves: "row_moves (pr_id r) (becomes r paid_states) s (handleCollectingSigs sv r s)"
proof -
  have "row_moves (pr_id r) (becomes r paid_states) s (handleCollectingSigsRefundDisagreement sv r s)"
    by (rule turned_becomes [OF collect_disagreement_moves]) simp
  then show ?thesis unfolding handleCollectingSigs_def Let_def
    by (auto split: option.split simp: rebroadcast_moves settlement_moves)
qed

subsection \<open>Acting on a decision\<close>

abbreviation decided_states :: "string set" where
  "decided_states \<equiv> {''collecting_sigs'', ''cancelled'', ''refunding'', ''disputed''}"

lemma refund_becomes: "''refunding'' \<in> T \<Longrightarrow> row_moves (pr_id r) (becomes r T) s (dispatchRefund sv r why s)"
  by (rule turned_becomes [OF refund_moves]) simp

lemma note_refund:
  assumes "\<And>k. k \<in> set tx_members \<Longrightarrow> map_of kvs k = meta r k" "''refunding'' \<in> T"
  shows "row_moves (pr_id r) (becomes r T) s (dispatchRefund sv r why (write_row sv (pr_id r) (set_meta kvs) s))"
  by (rule noted_then [OF note_moves refund_becomes]) (use assms in auto)

lemma quorum_moves: "''refunding'' \<in> T \<Longrightarrow> row_moves (pr_id r) (becomes r T) s (quorum_timeout sv r s)"
  unfolding quorum_timeout_def
  by (auto split: json.split intro!: note_refund other_members simp: tx_members_def)

lemma stash_moves: "row_moves (pr_id r) (noted r) s (snd (stash_disagreement sv r silent s))"
proof -
  define s1 where "s1 = write_row sv (pr_id r) (set_meta (assign (meta_kvs r) [(''disagreement_detected_at'', iso_now sv)])) s"
  have m: "row_moves (pr_id r) (noted r) s s1" unfolding s1_def by (rule note_moves) (rule other_members, auto simp: tx_members_def)
  show ?thesis unfolding stash_disagreement_def Let_def s1_def [symmetric]
    by (auto split: option.split simp: m dest: event_quiet intro: quiet_after [OF m])
qed

lemma min_pot_moves: "{''cancelled'', ''refunding''} \<subseteq> T \<Longrightarrow> row_moves (pr_id r) (becomes r T) s (cancel_min_pot sv r c pot s)"
  unfolding cancel_min_pot_def Let_def by (rule turned_becomes [OF cancel_then_refund]) simp_all

lemma dispute_moves: "{''refunding'', ''disputed''} \<subseteq> T \<Longrightarrow> row_moves (pr_id r) (becomes r T) s (handle_dispute sv r why s)"
proof -
  assume T: "{''refunding'', ''disputed''} \<subseteq> T"
  have "row_moves (pr_id r) (turned {''disputed''}) s (open_dispute sv r why s)"
    unfolding open_dispute_def by (rule turn_moves) (simp_all add: row_backed_def)
  then have "row_moves (pr_id r) (becomes r T) s (open_dispute sv r why s)" by (rule turned_becomes) (use T in simp)
  then show ?thesis unfolding handle_dispute_def using T by (auto split: option.split intro: refund_becomes)
qed

lemma act_moves: "row_moves (pr_id r) (becomes r decided_states) s (act sv r d s)"
proof (cases d)
  case (Consensus w u k)
  have "row_moves (pr_id r) (becomes r decided_states) s (dispatchPhase2 sv r w u k s)" by (rule becomes_more [OF dispatched_moves]) auto
  then show ?thesis unfolding Consensus act_def settle_decided_def by (auto split: option.split intro: min_pot_moves)
next
  case (Refund why)
  then show ?thesis by (simp add: act_def refund_becomes)
next
  case (RefundDisagreement silent why)
  have "row_moves (pr_id r) (becomes r decided_states) s (dispatchRefundDisagreement sv r silent s)" by (rule turned_becomes [OF disagreement_moves]) simp
  then show ?thesis unfolding RefundDisagreement act_def by simp
next
  case (Dispute why)
  then show ?thesis by (simp add: act_def dispute_moves)
next
  case (Pending f)
  show ?thesis
  proof (cases f)
    case None
    then show ?thesis using Pending by (simp add: act_def quorum_moves)
  next
    case (Some silent)
    obtain ok s1 where st: "stash_disagreement sv r silent s = (ok, s1)" by fastforce
    have m: "row_moves (pr_id r) (noted r) s s1" using stash_moves [of r s sv silent] by (simp add: st)
    have "row_moves (pr_id r) (becomes r decided_states) s s1" by (rule moves_mono [OF m]) (simp add: becomes_def)
    moreover have "row_moves (pr_id r) (becomes r decided_states) s (quorum_timeout sv r s1)" by (rule noted_then [OF m quorum_moves]) simp
    ultimately show ?thesis by (cases ok) (simp_all add: act_def Pending Some st)
  qed
qed

subsection \<open>The other branches of the loop\<close>

lemma heal_moves: "row_moves (pr_id r) (becomes r decided_states) s (heal_doomed sv r s)"
proof -
  have "row_moves (pr_id r) (becomes r decided_states) s (snd (cancel_and_refund sv r (set_meta kvs) what extra why side_why sides s))" for kvs what extra why side_why sides
    by (rule turned_becomes [OF cancelled_moves]) simp_all
  then show ?thesis unfolding heal_doomed_def by simp
qed

lemma commingled_moves: "row_moves (pr_id r) (becomes r {''cancelled'', ''refunding''}) s (snd (cancel_commingled sv r s))"
  unfolding cancel_commingled_def by (rule turned_becomes [OF cancelled_moves]) simp_all

lemma without_moves: "without_bets sv r s = Some s' \<Longrightarrow> row_moves (pr_id r) (becomes r decided_states) s s'"
proof -
  have req: "row_moves (pr_id r) (becomes r decided_states) s (request_refund sv r s)"
  proof -
    obtain a s1 where a: "announce sv (refund_request_json sv r) s = (a, s1)" by fastforce
    have q: "quiet s s1" using announce_quiet [of s sv "refund_request_json sv r"] by (simp add: a)
    have "row_moves (pr_id r) (becomes r decided_states) s1 (write_row sv (pr_id r) (set_meta (assign (meta_kvs r)
        [(''refund_request_broadcasted_at'', x), (''refund_request_txid'', y)])) s1)" for x y
      by (rule note_then) (rule other_members, auto simp: tx_members_def)
    then show ?thesis unfolding request_refund_def a prod.case by (auto split: option.split intro: quiet_before [OF q] quiet_moves [OF q])
  qed
  assume "without_bets sv r s = Some s'"
  then show ?thesis using req refund_becomes by (auto simp: without_bets_def split: if_splits)
qed

lemma sample_failed_moves: "row_moves (pr_id r) (becomes r decided_states) s (sample_failed sv r s)"
proof -
  have keep: "map_of (assign (assign (meta_kvs r) [(''sample_fail_count'', n), (''sample_last_err'', e)]) more) k = meta r k"
    if "more \<in> {[], [(''skip_until_ms'', m)]}" "k \<in> set tx_members" for n e more m k
    using that by (auto simp: map_of_assign meta_of tx_members_def)
  have keep0: "map_of (assign (meta_kvs r) [(''sample_fail_count'', n), (''sample_last_err'', e)]) k = meta r k" if "k \<in> set tx_members" for n e k
    using that by (auto simp: map_of_assign meta_of tx_members_def)
  have last: "row_moves (pr_id r) (becomes r decided_states) s (snd (emit_refunds sv (pr_id r) y bs (dispatchRefund sv r why
      (write_row sv (pr_id r) (set_meta (assign (meta_kvs r) [(''sample_fail_count'', n), (''sample_last_err'', e)])) s))))" for y bs why n e
    by (rule quiet_after [OF note_refund refunds_quiet]) (simp_all add: keep0)
  have again: "row_moves (pr_id r) (becomes r decided_states) s (write_row sv (pr_id r)
      (set_meta (assign (assign (meta_kvs r) [(''sample_fail_count'', n), (''sample_last_err'', e)]) [(''skip_until_ms'', m)])) s)" for n e m
    by (rule note_then, rule keep) auto
  show ?thesis unfolding sample_failed_def Let_def using last again by simp
qed

lemma too_old_moves: "row_moves (pr_id r) (becomes r decided_states) s (too_old sv r s)"
  unfolding too_old_def by (rule note_refund) (rule other_members, auto simp: tx_members_def)

lemma collect_moves: "row_moves (pr_id r) (becomes r paid_states) s (collect sv r s)"
  unfolding collect_def by (auto split: option.split simp: collecting_moves min_pot_moves)

subsection \<open>One step on a market\<close>

text \<open>No stored broadcast with a vote or a signature is missing among the events.\<close>

definition caught_up :: "settle_db \<Rightarrow> bool" where
  "caught_up s \<longleftrightarrow> (\<forall>i. orphans (sd_pool s) i ''pool_oracle_vote_v1'' ''pool_oracle_vote'' = []
     \<and> orphans (sd_pool s) i ''kanet_pool_oracle_tx_sign_resp_v1'' ''pool_oracle_tx_sig'' = [])"

lemma orphans_frame:
  assumes "frame s s'" "orphans (sd_pool s) i w t = []"
  shows "orphans (sd_pool s') i w t = []"
proof -
  have m: "pb_messages (sd_pool s') = pb_messages (sd_pool s)" "set (pb_events (sd_pool s)) \<subseteq> set (pb_events (sd_pool s'))"
    using assms(1) by (auto simp: frame_def)
  show ?thesis using assms(2) m(2) unfolding orphans_def m(1) by (fastforce simp: filter_empty_conv split: option.splits)
qed

lemma caught_up_frame: "caught_up s \<Longrightarrow> frame s s' \<Longrightarrow> caught_up s'"
  using orphans_frame unfolding caught_up_def by blast

lemma caught_up_rescan: "caught_up s \<Longrightarrow> rescan env r s = s" "caught_up s \<Longrightarrow> on_pool (replay_votes env i) s = s"
  by (simp_all add: rescan_def on_pool_def replay_votes_def replay_sigs_def replay_orphans_def caught_up_def)

definition lands :: "pool_row \<Rightarrow> string set \<Rightarrow> settle_db \<Rightarrow> settle_db \<Rightarrow> bool" where
  "lands r T s s' \<longleftrightarrow> frame s s' \<and> (\<exists>g. rows s' = update_where (\<lambda>q. pr_id q = pr_id r) g (rows s) \<and> (\<forall>q. pr_id (g q) = pr_id q)
     \<and> (row_backed r \<longrightarrow> row_backed (g r) \<and> (pr_status (g r) = pr_status r \<or> pr_status (g r) \<in> T) \<and> pool_terms (g r) = pool_terms r))"

lemma moves_lands: "row_moves (pr_id r) (becomes r T) s s' \<Longrightarrow> lands r T s s'"
  unfolding row_moves_def lands_def using becomes_ok by blast

lemma same_lands [simp]: "lands r T s s"
  by (rule moves_lands) simp

lemma quiet_lands: "quiet a b \<Longrightarrow> lands r T b c \<Longrightarrow> lands r T a c"
proof -
  assume q: "quiet a b" and l: "lands r T b c"
  have "frame a c" using q l frame_trans unfolding quiet_def lands_def by blast
  then show ?thesis using q l unfolding quiet_def lands_def by simp
qed

text \<open>Writing the members of the committee into the row first changes nothing that matters.\<close>

definition seat :: "nat \<Rightarrow> payload \<Rightarrow> pool_row \<Rightarrow> pool_row" where
  "seat t js q = q\<lparr> pr_relays := js, pr_updated := t \<rparr>"

lemma seat_simps [simp]: "pr_id (seat t js q) = pr_id q" "pr_status (seat t js q) = pr_status q" "pool_terms (seat t js q) = pool_terms q"
    "row_backed (seat t js q) = row_backed q"
  by (simp_all add: seat_def pool_terms_def row_backed_def flagged_def meta_def meta_kvs_def)

lemma seat_lands:
  assumes "rows b = update_where (\<lambda>q. pr_id q = pr_id r) (seat t js) (rows a)" "frame a b" "lands (seat t js r) T b c"
  shows "lands r T a c"
proof -
  obtain g where g: "rows c = update_where (\<lambda>q. pr_id q = pr_id r) g (rows b)" "\<forall>q. pr_id (g q) = pr_id q" "frame b c"
    "row_backed r \<longrightarrow> row_backed (g (seat t js r)) \<and> (pr_status (g (seat t js r)) = pr_status r \<or> pr_status (g (seat t js r)) \<in> T)
       \<and> pool_terms (g (seat t js r)) = pool_terms r"
    using assms(3) unfolding lands_def by auto
  have "rows c = update_where (\<lambda>q. pr_id q = pr_id r) (g \<circ> seat t js) (rows a)" unfolding g(1) assms(1) update_where_def by simp
  moreover have "frame a c" by (rule frame_trans [OF assms(2) g(3)])
  ultimately show ?thesis using g(2,4) unfolding lands_def by (metis comp_apply seat_simps(1))
qed

lemma decide_lands: "caught_up s \<Longrightarrow> lands r decided_states s (decide_and_act sv env r s)"
  by (simp add: decide_and_act_def Let_def caught_up_rescan moves_lands [OF act_moves])

lemma end_block_quiet: "read_end_block sv r s = (x, s1) \<Longrightarrow> quiet s s1"
proof -
  have daa: "quiet a b" if "getCurrentDaaScore sv relay a = (x, b)" for relay a x b
    using that by (auto simp: getCurrentDaaScore_def split: prod.splits option.splits dest: ask_quietD)
  have blk: "quiet a b" if "getBlockAtDaa sv relay d a = (x, b)" for relay d a x b
    using that by (auto simp: getBlockAtDaa_def split: prod.splits option.splits dest: ask_quietD)
  have score: "quiet a b" if "deadline_score sv relay r a = (x, b)" for relay a x b
    using that by (auto simp: deadline_score_def split: prod.splits option.splits if_splits dest: daa)
  have fetch: "quiet a b" if "fetchEndBlockHashCanonical sv relay d a = (x, b)" for relay d a x b
    using that by (auto simp: fetchEndBlockHashCanonical_def split: prod.splits option.splits if_splits dest!: daa blk intro: quiet_trans)
  assume "read_end_block sv r s = (x, s1)"
  then show ?thesis
    by (auto simp: read_end_block_def split: prod.splits option.splits if_splits dest!: daa score fetch intro: quiet_trans)
qed

lemma pool_quiet: "(\<And>p. pb_markets (f p) = pb_markets p \<and> pb_messages (f p) = pb_messages p \<and> pb_events (f p) = pb_events p) \<Longrightarrow> quiet s (on_pool f s)"
  by (simp add: quiet_def frame_def on_pool_def)

lemma prepare_same:
  "pb_markets (recaptureSideLockDaaForMarket env i p) = pb_markets p" "pb_messages (recaptureSideLockDaaForMarket env i p) = pb_messages p"
  "pb_events (recaptureSideLockDaaForMarket env i p) = pb_events p" "pb_markets (ensurePoolSnapshotByRoot i j p) = pb_markets p"
  "pb_messages (ensurePoolSnapshotByRoot i j p) = pb_messages p" "pb_events (ensurePoolSnapshotByRoot i j p) = pb_events p"
  by (simp_all add: recaptureSideLockDaaForMarket_def ensurePoolSnapshotByRoot_def split: json.split list.split)

lemma stored_same: "sampleAndStoreCommittee sv i h p = Some (a, p') \<Longrightarrow> pb_markets p' = pb_markets p \<and> pb_messages p' = pb_messages p \<and> pb_events p' = pb_events p"
  by (auto simp: sampleAndStoreCommittee_def split: option.splits if_splits)

lemma sample_cases:
  assumes "sample_market sv env r s = (x, s1)"
  shows "quiet s s1 \<or> (x = Sampled \<and> frame s s1 \<and> (\<exists>js. rows s1 = update_where (\<lambda>q. pr_id q = pr_id r) (seat (sql_time sv) js) (rows s)))"
proof -
  obtain o1 h s0 where e: "read_end_block sv r s = ((o1, h), s0)" by (metis prod.collapse)
  have q: "quiet s s0" by (rule end_block_quiet [OF e])
  define s2 where "s2 = on_pool (recaptureSideLockDaaForMarket env (pr_id r) \<circ> ensurePoolSnapshotByRoot (pr_id r) (pr_root r)) s0"
  have q2: "quiet s s2" unfolding s2_def by (rule quiet_trans [OF q pool_quiet]) (simp add: prepare_same)
  show ?thesis
  proof (cases "o1 = Sampled")
    case True
    show ?thesis
    proof (cases "sampleAndStoreCommittee sv (pr_id r) h (sd_pool s2)")
      case None
      then have "s1 = s2" using assms True by (simp add: sample_market_def e Let_def s2_def [symmetric])
      then show ?thesis using q2 by simp
    next
      case (Some ap)
      obtain a p where ap: "ap = (a, p)" by fastforce
      have "s1 = write_row sv (pr_id r) (\<lambda>q. q\<lparr> pr_relays := JsonPayload (JArr (map JStr a)) \<rparr>) (on_pool (\<lambda>_. p) s2)" "x = Sampled"
        using assms True Some ap by (simp_all add: sample_market_def e Let_def s2_def [symmetric])
      moreover have "pb_markets p = rows s2 \<and> pb_messages p = pb_messages (sd_pool s2) \<and> pb_events p = pb_events (sd_pool s2)"
        using stored_same Some ap by blast
      moreover from this have "frame s (on_pool (\<lambda>_. p) s2)" using q2 by (simp add: quiet_def frame_def on_pool_def)
      ultimately show ?thesis using q2 frame_trans [OF _ frame_write] by (auto simp: rows_write quiet_def seat_def [abs_def] on_pool_def)
    qed
  next
    case False
    then have "s1 = s0" using assms by (cases o1) (simp_all add: sample_market_def e)
    then show ?thesis using q by simp
  qed
qed

lemma sample_lands:
  assumes "caught_up s" "find_pool (sd_pool s) (pr_id r) = Some r"
  shows "lands r decided_states s (sample_and_decide sv env r s)"
proof (cases "no_committee_yet r \<and> map_of (pb_committee (sd_pool s)) (pr_id r) = None")
  case True
  obtain x s1 where x: "sample_market sv env r s = (x, s1)" by fastforce
  note c = sample_cases [OF x]
  have up: "caught_up s1" using c caught_up_frame [OF assms(1)] by (auto simp: quiet_def)
  have eq: "sample_and_decide sv env r s = (case x of TooOld \<Rightarrow> too_old sv r s1 | SampleFails \<Rightarrow> sample_failed sv r s1
     | Sampled \<Rightarrow> decide_and_act sv env (case find_pool (sd_pool s1) (pr_id r) of Some r2 \<Rightarrow> r2 | None \<Rightarrow> r) s1)"
    using True by (cases x) (simp_all add: sample_and_decide_def x Let_def caught_up_rescan(2) [OF up])
  show ?thesis
  proof (cases "quiet s s1")
    case True
    then have "find_pool (sd_pool s1) (pr_id r) = Some r" using assms(2) by (simp add: quiet_def find_pool_def)
    then show ?thesis unfolding eq
      by (cases x) (auto intro!: quiet_lands [OF True] simp: decide_lands [OF up] moves_lands [OF too_old_moves] moves_lands [OF sample_failed_moves])
  next
    case False
    then obtain js where js: "rows s1 = update_where (\<lambda>q. pr_id q = pr_id r) (seat (sql_time sv) js) (rows s)" "frame s s1" and S: "x = Sampled"
      using c by blast
    have "find (\<lambda>q. pr_id q = pr_id r) (rows s1) = map_option (\<lambda>q. if pr_id q = pr_id r then seat (sql_time sv) js q else q) (find (\<lambda>q. pr_id q = pr_id r) (rows s))"
      unfolding js(1) by (rule find_update_where) simp
    then have "find_pool (sd_pool s1) (pr_id r) = Some (seat (sql_time sv) js r)" using assms(2) by (simp add: find_pool_def)
    then have "sample_and_decide sv env r s = decide_and_act sv env (seat (sql_time sv) js r) s1" using eq S by simp
    then show ?thesis using seat_lands [OF js decide_lands [OF up]] by simp
  qed
next
  case False
  then show ?thesis using decide_lands [OF assms(1)] by (simp only: sample_and_decide_def if_False)
qed

definition next_states :: "string \<Rightarrow> string set" where
  "next_states t = (if t = ''pending_bettors'' then {''verifying''}
     else if t = ''verifying'' then {''collecting_sigs'', ''cancelled'', ''refunding'', ''disputed'', ''completed'', ''refunded''}
     else if t = ''collecting_sigs'' then {''completed'', ''refunded'', ''cancelled'', ''refunding''}
     else if t = ''disputed'' then {''collecting_sigs'', ''cancelled'', ''refunding''}
     else if t = ''refunding'' then {''refunded''} else {})"

lemma inside_lands:
  assumes "caught_up s" "find_pool (sd_pool s) (pr_id r) = Some r" "pr_status r \<in> {''verifying'', ''collecting_sigs'', ''refunding'', ''disputed''}"
  shows "lands r (insert (pr_status r) (next_states (pr_status r))) s (step_inside sv env r s)"
proof -
  have more: "lands r T s x \<Longrightarrow> T \<subseteq> T' \<Longrightarrow> lands r T' s x" for T T' x unfolding lands_def by blast
  have dec: "decided_states \<subseteq> insert (pr_status r) (next_states (pr_status r))" if "pr_status r = ''verifying'' \<or> pr_status r = ''disputed''"
    using that by (auto simp: next_states_def)
  consider (heal) "flagged r ''needs_larger_pot''" "pr_status r \<noteq> ''refunding''" | (none) s1 where "\<not> (flagged r ''needs_larger_pot'' \<and> pr_status r \<noteq> ''refunding'')" "without_bets sv r s = Some s1"
    | (refunding) "pr_status r = ''refunding''" "without_bets sv r s = None" | (collecting) "\<not> (flagged r ''needs_larger_pot'' \<and> pr_status r \<noteq> ''refunding'')" "pr_status r = ''collecting_sigs''" "without_bets sv r s = None"
    | (rest) "\<not> (flagged r ''needs_larger_pot'' \<and> pr_status r \<noteq> ''refunding'')" "pr_status r = ''verifying'' \<or> pr_status r = ''disputed''" "without_bets sv r s = None"
    using assms(3) by (cases "without_bets sv r s") auto
  then show ?thesis
  proof cases
    case heal
    then have e: "step_inside sv env r s = heal_doomed sv r s" using assms(3) by (auto simp: step_inside_def)
    show ?thesis
    proof (cases "pr_status r = ''verifying''")
      case True
      then show ?thesis unfolding e using more [OF moves_lands [OF heal_moves] dec] by blast
    next
      case False
      then show ?thesis unfolding e by (simp add: heal_doomed_def)
    qed
  next
    case none
    then have "pr_status r = ''verifying''" by (auto simp: without_bets_def split: if_splits)
    moreover have "step_inside sv env r s = s1" using none assms(3) by (auto simp: step_inside_def)
    ultimately show ?thesis using more [OF moves_lands [OF without_moves [OF none(2)]] dec] by simp
  next
    case refunding
    then have "step_inside sv env r s = handleRefunding sv r s" by (simp add: step_inside_def)
    moreover have "lands r {''refunded''} s (handleRefunding sv r s)" by (rule moves_lands [OF turned_becomes [OF refunding_moves]]) simp
    ultimately show ?thesis using more refunding(1) by (simp add: next_states_def)
  next
    case collecting
    then have "step_inside sv env r s = collect sv r s" by (auto simp: step_inside_def)
    then show ?thesis using more [OF moves_lands [OF collect_moves]] collecting(2) by (auto simp: next_states_def)
  next
    case rest
    then have "step_inside sv env r s = sample_and_decide sv env r s" by (auto simp: step_inside_def)
    then show ?thesis using more [OF sample_lands [OF assms(1,2)] dec [OF rest(2)]] by simp
  qed
qed

lemma lands_more: "lands r T s s' \<Longrightarrow> T \<subseteq> T' \<Longrightarrow> lands r T' s s'"
  unfolding lands_def by blast

lemma step_lands:
  assumes "caught_up s" "find_pool (sd_pool s) (pr_id r) = Some r" "pr_status r \<in> {''verifying'', ''collecting_sigs'', ''refunding'', ''disputed''}"
  shows "lands r (insert (pr_status r) (next_states (pr_status r))) s (snd (step_market sv env r s))"
proof -
  have com: "lands r (insert (pr_status r) (next_states (pr_status r))) s (snd (cancel_commingled sv r s))" if "pr_status r \<in> {''verifying'', ''collecting_sigs'', ''disputed''}"
    by (rule lands_more [OF moves_lands [OF commingled_moves]]) (use that in \<open>auto simp: next_states_def\<close>)
  have pot: "lands r (insert (pr_status r) (next_states (pr_status r))) s (cancel_min_pot sv r c pot s)" if "pr_status r \<in> {''verifying'', ''collecting_sigs''}" for c pot
    by (rule lands_more [OF moves_lands [OF min_pot_moves [OF subset_refl]]]) (use that in \<open>auto simp: next_states_def\<close>)
  show ?thesis unfolding step_market_def using com pot inside_lands [OF assms] by simp
qed

lemma watch_lands:
  assumes "pr_status r \<in> {''verifying'', ''collecting_sigs''}"
  shows "lands r (next_states (pr_status r)) s (watch_market sv r s)"
proof -
  have force: "lands r (next_states (pr_status r)) a (force_decision sv r a)" if "pr_status r = ''verifying''" for a
  proof -
    have "lands r (next_states (pr_status r)) a (dispatchPhase2 sv r w u k a)" for w u k
      by (rule lands_more [OF moves_lands [OF dispatched_moves]]) (use that in \<open>auto simp: next_states_def\<close>)
    moreover have "lands r (next_states (pr_status r)) a (dispatchRefund sv r why a)" for why
      by (rule lands_more [OF moves_lands [OF refund_becomes [OF insertI1]]]) (use that in \<open>auto simp: next_states_def\<close>)
    ultimately show ?thesis unfolding force_decision_def by (simp split: decision.split)
  qed
  have unsigned: "lands r (next_states (pr_status r)) s (cancel_unsigned sv r s)" if "pr_status r = ''collecting_sigs''"
  proof -
    have "row_moves (pr_id r) (turned {''cancelled'', ''refunding''}) s (cancel_unsigned sv r s)" unfolding cancel_unsigned_def by (rule cancel_then_refund) simp_all
    then show ?thesis by (rule lands_more [OF moves_lands [OF turned_becomes [OF _ subset_refl]]]) (use that in \<open>auto simp: next_states_def\<close>)
  qed
  show ?thesis unfolding watch_market_def using force quiet_lands [OF remember_quiet force] unsigned by simp
qed

lemma reconcile_lands:
  assumes "pr_status r \<in> {''verifying'', ''collecting_sigs''}"
  shows "lands r (next_states (pr_status r)) s (reconcile sv r s)"
proof -
  have done1: "row_moves (pr_id r) (turned {''completed''}) s (write_row sv (pr_id r) (set_status ''completed'' \<circ> (\<lambda>q. q\<lparr> pr_settle_tx := Some tx \<rparr>)) s)" for tx
    by (rule turn_moves) (simp_all add: row_backed_def set_status_def pool_terms_def)
  have done2: "row_moves (pr_id r) (turned {''refunded''}) s (write_row sv (pr_id r) (set_status ''refunded'' \<circ> (\<lambda>q. q\<lparr> pr_refund_tx := Some tx \<rparr>)) s)" for tx
    by (rule turn_moves) (simp_all add: row_backed_def set_status_def pool_terms_def)
  have "{''completed'', ''refunded''} \<subseteq> next_states (pr_status r)" using assms by (auto simp: next_states_def)
  then have "lands r (next_states (pr_status r)) s (write_row sv (pr_id r) (set_status ''completed'' \<circ> (\<lambda>q. q\<lparr> pr_settle_tx := Some tx \<rparr>)) s)"
    "lands r (next_states (pr_status r)) s (write_row sv (pr_id r) (set_status ''refunded'' \<circ> (\<lambda>q. q\<lparr> pr_refund_tx := Some tx \<rparr>)) s)" for tx
    using moves_lands [OF turned_becomes [OF done1]] moves_lands [OF turned_becomes [OF done2]] by simp_all
  then show ?thesis unfolding reconcile_def by (simp split: option.split)
qed

subsection \<open>The steps of a node\<close>

text \<open>
  A node hears broadcasts, runs the tick of the settler, and notes the notice of a broker fee (\<open>markEmitted\<close> of
  \<open>broker-fee-emit.mjs\<close>); these are the steps of the settler.  The table may also be changed by a peer that asks for the refund of a
  market, whose command \<open>handlePoolRefundRequest\<close> leaves in the outbox: \<open>dispatchRefund\<close> with the row as it is, whatever its status.
  Ticks, broadcasts and requests are taken one after the other, and a tick begins when no vote or signature waits to be replayed.
\<close>

definition FEE_NOTICE :: string where "FEE_NOTICE = ''broker_fee_landed_emitted_at''"

definition json_set_meta :: "string \<Rightarrow> json \<Rightarrow> pool_row \<Rightarrow> pool_row" where
  "json_set_meta k v q = (case payload_json (pr_metadata q) of JObj kvs \<Rightarrow> set_meta (map_set k v kvs) q | _ \<Rightarrow> q)"

definition markEmitted :: "string \<Rightarrow> json \<Rightarrow> settle_db \<Rightarrow> settle_db" where
  "markEmitted i stamp = on_pool (\<lambda>p. p\<lparr> pb_markets := update_where (\<lambda>q. pr_id q = i) (json_set_meta FEE_NOTICE stamp) (pb_markets p) \<rparr>)"

definition refund_requestable :: "pool_row \<Rightarrow> bool" where
  "refund_requestable r \<longleftrightarrow> \<not> cross_node (pr_maker_relay r) \<and> \<not> flagged r ''refund_dispatched_at''"

inductive settler_step :: "settle_db \<Rightarrow> settle_db \<Rightarrow> bool" where
  hears: "settler_step s (on_pool (onPoolBroadcast env n b) s)"
| ticks: "caught_up s \<Longrightarrow> settler_step s (poolSettlerTick sv env n s)"
| notices: "settler_step s (markEmitted i stamp s)"

inductive node_step :: "settle_db \<Rightarrow> settle_db \<Rightarrow> bool" where
  settles: "settler_step s s' \<Longrightarrow> node_step s s'"
| refunds: "find_pool (sd_pool s) (pr_id r) = Some r \<Longrightarrow> refund_requestable r \<Longrightarrow> node_step s (dispatchRefund sv r PeerRequest s)"

definition table_ok :: "settle_db \<Rightarrow> bool" where
  "table_ok s \<longleftrightarrow> distinct (map pr_id (rows s)) \<and> (\<forall>q \<in> set (rows s). row_backed q)"

definition row_status :: "settle_db \<Rightarrow> string \<Rightarrow> string option" where
  "row_status s i = (if table_ok s then map_option pr_status (find_pool (sd_pool s) i) else None)"

definition settler_edge :: "string \<Rightarrow> string \<Rightarrow> bool" where
  "settler_edge t u \<longleftrightarrow> u \<in> next_states t"

lemma lands_table:
  assumes "lands r T s s'" "table_ok s" "find_pool (sd_pool s) (pr_id r) = Some r"
  shows "table_ok s'"
    and "find_pool (sd_pool s) i = Some q \<Longrightarrow> \<exists>q'. find_pool (sd_pool s') i = Some q' \<and> pool_terms q' = pool_terms q
      \<and> (q' = q \<or> (q = r \<and> (pr_status q' = pr_status r \<or> pr_status q' \<in> T)))"
proof -
  obtain g where g: "rows s' = update_where (\<lambda>q. pr_id q = pr_id r) g (rows s)" "\<And>q. pr_id (g q) = pr_id q"
    "row_backed r \<Longrightarrow> row_backed (g r) \<and> (pr_status (g r) = pr_status r \<or> pr_status (g r) \<in> T) \<and> pool_terms (g r) = pool_terms r"
    using assms(1) unfolding lands_def by blast
  have d: "distinct (map pr_id (rows s))" using assms(2) by (simp add: table_ok_def)
  have ok: "row_backed q" if "q \<in> set (rows s)" for q using assms(2) that by (simp add: table_ok_def)
  have r: "r \<in> set (rows s)" using find_key_Some [of pr_id "pr_id r" "rows s" r] assms(3) by (simp add: find_pool_def)
  note gr = g(3) [OF ok [OF r]]
  have one: "q = r" if "q \<in> set (rows s)" "pr_id q = pr_id r" for q
    using find_key_unique [OF d that] find_key_unique [OF d r refl] by simp
  have "map pr_id (rows s') = map pr_id (rows s)" unfolding g(1) by (rule map_update_where) (rule g(2))
  moreover have "row_backed q'" if q': "q' \<in> set (rows s')" for q'
  proof -
    obtain q where q: "q \<in> set (rows s)" "q' = (if pr_id q = pr_id r then g q else q)" using q' unfolding g(1) set_update_where by blast
    show ?thesis
    proof (cases "pr_id q = pr_id r")
      case True
      then show ?thesis using one [OF q(1) True] gr q(2) by simp
    next
      case False
      then show ?thesis using ok [OF q(1)] q(2) by simp
    qed
  qed
  ultimately show "table_ok s'" using d by (simp add: table_ok_def)
  show "\<exists>q'. find_pool (sd_pool s') i = Some q' \<and> pool_terms q' = pool_terms q \<and> (q' = q \<or> (q = r \<and> (pr_status q' = pr_status r \<or> pr_status q' \<in> T)))"
    if q: "find_pool (sd_pool s) i = Some q"
  proof -
    have "find (\<lambda>q. pr_id q = i) (rows s') = map_option (\<lambda>q. if pr_id q = pr_id r then g q else q) (find (\<lambda>q. pr_id q = i) (rows s))"
      unfolding g(1) by (rule find_update_where) (rule g(2))
    then have f: "find_pool (sd_pool s') i = Some (if pr_id q = pr_id r then g q else q)" using q by (simp add: find_pool_def)
    have "q \<in> set (rows s)" using find_key_Some [of pr_id i "rows s" q] q by (simp add: find_pool_def)
    then show ?thesis using f gr one [of q] by (cases "pr_id q = pr_id r") simp_all
  qed
qed

lemma row_step_ok: "row_step\<^sup>*\<^sup>* r r' \<Longrightarrow> row_backed r \<Longrightarrow> row_backed r'"
proof (induction rule: rtranclp_induct)
  case (step y z)
  obtain tx now where "z = y\<lparr> pr_settle_tx := Some tx, pr_status := ''completed'', pr_updated := now \<rparr>" using step.hyps(2) unfolding row_step_def by blast
  then show ?case by (simp add: row_backed_def)
qed

lemma row_step_stuck: "row_step\<^sup>*\<^sup>* r r' \<Longrightarrow> pr_status r \<notin> {''verifying'', ''collecting_sigs''} \<Longrightarrow> r' = r"
  by (erule converse_rtranclpE) (auto simp: row_step_def)

lemma market_settler_edge: "market_edge\<^sup>*\<^sup>* t u \<Longrightarrow> settler_edge\<^sup>*\<^sup>* t u"
  by (erule rtranclp_mono [THEN predicate2D, rotated]) (auto simp: market_edge_def settler_edge_def next_states_def)

lemma accepted_pending: "market_accepted env m = Some r \<Longrightarrow> pr_status r = ''pending_bettors''"
  by (auto simp: market_accepted_def new_market_def Let_def split: if_splits option.splits)

lemma grows_find: "grows env p p' \<Longrightarrow> find_pool p i = Some q \<Longrightarrow> \<exists>q'. find_pool p' i = Some q' \<and> market_edge\<^sup>*\<^sup>* (pr_status q) (pr_status q')"
  by (drule grows_def [THEN iffD1, THEN conjunct1]) blast

lemma grows_rows:
  assumes "grows env p p'" "distinct (map pr_id (pb_markets p))" "q' \<in> set (pb_markets p')"
  obtains q where "q \<in> set (pb_markets p)" "row_step\<^sup>*\<^sup>* q q'" | m where "market_accepted env m = Some q'"
proof -
  note g = assms(1) [unfolded grows_def]
  have "\<forall>r'\<in>set (pb_markets p'). (\<exists>r\<in>set (pb_markets p). row_step\<^sup>*\<^sup>* r r') \<or> (\<exists>m. market_accepted env m = Some r')"
    using g [THEN conjunct2, THEN conjunct2, THEN conjunct1] assms(2) by (rule mp)
  then show ?thesis using assms(3) that by blast
qed

lemma grows_distinct: "grows env p p' \<Longrightarrow> distinct (map pr_id (pb_markets p)) \<Longrightarrow> distinct (map pr_id (pb_markets p'))"
  by (drule grows_def [THEN iffD1, THEN conjunct2, THEN conjunct2, THEN conjunct2, THEN conjunct1]) (rule mp)

lemma hear_table:
  assumes "grows env p p'" "distinct (map pr_id (pb_markets p))" "\<And>q. q \<in> set (pb_markets p) \<Longrightarrow> row_backed q"
  shows "distinct (map pr_id (pb_markets p'))" and "q \<in> set (pb_markets p') \<Longrightarrow> row_backed q"
proof -
  show "distinct (map pr_id (pb_markets p'))" by (rule grows_distinct [OF assms(1,2)])
  show "row_backed q" if "q \<in> set (pb_markets p')"
    using grows_rows [OF assms(1,2) that]
  proof cases
    case (1 q0)
    then show ?thesis using row_step_ok assms(3) by blast
  next
    case (2 m)
    then show ?thesis using accepted_pending by (simp add: row_backed_def)
  qed
qed

lemma hear_status: "grows env p p' \<Longrightarrow> find_pool p i = Some q \<Longrightarrow> \<exists>q'. find_pool p' i = Some q' \<and> settler_edge\<^sup>*\<^sup>* (pr_status q) (pr_status q')"
  using grows_find market_settler_edge by blast

abbreviation closed_states :: "string set" where
  "closed_states \<equiv> {''completed'', ''refunded'', ''cancelled''}"

lemma hear_closed:
  assumes "grows env p p'" "distinct (map pr_id (pb_markets p))" "find_pool p i = Some q" "pr_status q \<in> closed_states"
  shows "find_pool p' i = Some q"
proof -
  obtain q' where q': "find_pool p' i = Some q'" "settler_edge\<^sup>*\<^sup>* (pr_status q) (pr_status q')" using hear_status [OF assms(1,3)] by blast
  have s: "pr_status q' = pr_status q" using q'(2) assms(4) by (auto elim: converse_rtranclpE simp: settler_edge_def next_states_def)
  have in': "q' \<in> set (pb_markets p') \<and> pr_id q' = i" using find_key_Some [of pr_id i "pb_markets p'" q'] q'(1) by (simp add: find_pool_def)
  show ?thesis using grows_rows [OF assms(1,2) conjunct1 [OF in']]
  proof cases
    case (1 q0)
    have "pr_id q' = pr_id q0" using 1(2) by (induction rule: rtranclp_induct) (auto simp: row_step_def)
    then have "q0 = q" using find_key_unique [OF assms(2) 1(1), of i] in' assms(3) by (simp add: find_pool_def)
    then show ?thesis using row_step_stuck [OF 1(2)] assms(4) q'(1) by auto
  next
    case (2 m)
    then show ?thesis using accepted_pending s assms(4) by auto
  qed
qed

lemma deadline_rows: "rows (deadline_watcher sv s) = update_where (\<lambda>q. pr_status q = ''pending_bettors'' \<and> due_by (pr_deadline q) (now_sec sv) \<and> committee_version q)
     (\<lambda>q. q\<lparr> pr_status := ''verifying'', pr_updated := sql_time sv \<rparr>) (rows s)"
  by (simp add: deadline_watcher_def on_pool_def)

lemma deadline_find: "find_pool (sd_pool (deadline_watcher sv s)) i = map_option (\<lambda>q. if pr_status q = ''pending_bettors'' \<and> due_by (pr_deadline q) (now_sec sv) \<and> committee_version q
    then q\<lparr> pr_status := ''verifying'', pr_updated := sql_time sv \<rparr> else q) (find_pool (sd_pool s) i)"
  unfolding find_pool_def deadline_rows by (rule find_update_where) simp

lemma deadline_table: "table_ok s \<Longrightarrow> table_ok (deadline_watcher sv s)"
proof -
  assume t: "table_ok s"
  have "map pr_id (rows (deadline_watcher sv s)) = map pr_id (rows s)" unfolding deadline_rows by (rule map_update_where) simp
  moreover have "row_backed q'" if q': "q' \<in> set (rows (deadline_watcher sv s))" for q'
  proof -
    obtain q where "q \<in> set (rows s)" "q' = q \<or> pr_status q' = ''verifying''"
      using q' unfolding deadline_rows set_update_where by auto
    moreover have "row_backed q'" if "pr_status q' = ''verifying''" using that by (simp add: row_backed_def)
    ultimately show ?thesis using t unfolding table_ok_def by blast
  qed
  ultimately show ?thesis using t by (simp add: table_ok_def)
qed

subsection \<open>A whole tick\<close>

text \<open>What a series of handlers does to the markets: the table stays sound, every market keeps its terms and moves along the graph, a
  closed one stays as it is.\<close>

definition carries :: "settle_db \<Rightarrow> settle_db \<Rightarrow> bool" where
  "carries s s' \<longleftrightarrow> table_ok s' \<and> caught_up s' \<and> (\<forall>i q. find_pool (sd_pool s) i = Some q \<longrightarrow>
     (\<exists>q'. find_pool (sd_pool s') i = Some q' \<and> pool_terms q' = pool_terms q \<and> settler_edge\<^sup>*\<^sup>* (pr_status q) (pr_status q')
        \<and> (pr_status q \<in> closed_states \<longrightarrow> q' = q)))"

lemma carries_refl: "table_ok s \<Longrightarrow> caught_up s \<Longrightarrow> carries s s"
  by (simp add: carries_def)

lemma carries_trans:
  assumes "carries a b" "carries b c"
  shows "carries a c"
  unfolding carries_def
proof (intro conjI allI impI)
  show "table_ok c" "caught_up c" using assms(2) by (simp_all add: carries_def)
  fix i q assume "find_pool (sd_pool a) i = Some q"
  then obtain q1 where q1: "find_pool (sd_pool b) i = Some q1" "pool_terms q1 = pool_terms q" "settler_edge\<^sup>*\<^sup>* (pr_status q) (pr_status q1)"
    "pr_status q \<in> closed_states \<longrightarrow> q1 = q" using assms(1) unfolding carries_def by blast
  obtain q2 where q2: "find_pool (sd_pool c) i = Some q2" "pool_terms q2 = pool_terms q1" "settler_edge\<^sup>*\<^sup>* (pr_status q1) (pr_status q2)"
    "pr_status q1 \<in> closed_states \<longrightarrow> q2 = q1" using assms(2) q1(1) unfolding carries_def by blast
  show "\<exists>q'. find_pool (sd_pool c) i = Some q' \<and> pool_terms q' = pool_terms q \<and> settler_edge\<^sup>*\<^sup>* (pr_status q) (pr_status q')
      \<and> (pr_status q \<in> closed_states \<longrightarrow> q' = q)"
    using q1 q2 rtranclp_trans [OF q1(3) q2(3)] by (intro exI [of _ q2]) auto
qed

text \<open>A row a loop has read is the one in the table, and open.\<close>

definition fresh :: "settle_db \<Rightarrow> pool_row \<Rightarrow> bool" where
  "fresh s r \<longleftrightarrow> find_pool (sd_pool s) (pr_id r) = Some r \<and> pr_status r \<in> {''verifying'', ''collecting_sigs'', ''refunding'', ''disputed''}"

lemma lands_carries:
  assumes "lands r (insert (pr_status r) (next_states (pr_status r))) s s'" "table_ok s" "caught_up s" "fresh s r"
  shows "carries s s'" and "fresh s r' \<Longrightarrow> pr_id r' \<noteq> pr_id r \<Longrightarrow> fresh s' r'"
proof -
  have f: "find_pool (sd_pool s) (pr_id r) = Some r" "pr_status r \<notin> closed_states" using assms(4) by (auto simp: fresh_def)
  note t = lands_table [OF assms(1,2) f(1)]
  have "caught_up s'" using caught_up_frame [OF assms(3)] assms(1) by (simp add: lands_def)
  moreover have "\<exists>q'. find_pool (sd_pool s') i = Some q' \<and> pool_terms q' = pool_terms q \<and> settler_edge\<^sup>*\<^sup>* (pr_status q) (pr_status q')
      \<and> (pr_status q \<in> closed_states \<longrightarrow> q' = q)" if "find_pool (sd_pool s) i = Some q" for i q
    using t(2) [OF that] f(2) unfolding settler_edge_def by auto
  ultimately show "carries s s'" using t(1) by (simp add: carries_def)
  show "fresh s' r'" if "fresh s r'" "pr_id r' \<noteq> pr_id r"
    using t(2) [of "pr_id r'" r'] that unfolding fresh_def by auto
qed

lemma fold_carries:
  assumes "\<And>r s. r \<in> set rs \<Longrightarrow> lands r (insert (pr_status r) (next_states (pr_status r))) s (f r s)"
    and "table_ok s" "caught_up s" "\<forall>r \<in> set rs. fresh s r" "distinct (map pr_id rs)"
  shows "carries s (fold f rs s)"
  using assms
proof (induction rs arbitrary: s)
  case (Cons r rs)
  have l: "lands r (insert (pr_status r) (next_states (pr_status r))) s (f r s)" by (rule Cons.prems(1)) simp
  have f: "fresh s r" using Cons.prems(4) by simp
  note c = lands_carries [OF l Cons.prems(2,3) f]
  have fr: "\<forall>r' \<in> set rs. fresh (f r s) r'"
  proof
    fix r' assume r': "r' \<in> set rs"
    then have "pr_id r' \<noteq> pr_id r" using Cons.prems(5) by (metis distinct.simps(2) image_eqI list.simps(9) list.set_map)
    then show "fresh (f r s) r'" using c(2) Cons.prems(4) r' by simp
  qed
  have "carries (f r s) (fold f rs (f r s))"
    by (rule Cons.IH) (use Cons.prems(1,5) c(1) fr in \<open>simp_all add: carries_def\<close>)
  then show ?case using carries_trans [OF c(1)] by simp
qed (simp add: carries_refl)

lemma markets_carry:
  assumes "table_ok s" "caught_up s" "\<forall>r \<in> set rs. fresh s r" "distinct (map pr_id rs)"
  shows "carries s (snd (step_markets sv env rs s))"
  using assms
proof (induction rs arbitrary: s)
  case (Cons r rs)
  have f: "fresh s r" using Cons.prems(3) by simp
  have l: "lands r (insert (pr_status r) (next_states (pr_status r))) s (snd (step_market sv env r s))"
    using step_lands [OF Cons.prems(2)] f by (simp add: fresh_def)
  note c = lands_carries [OF l Cons.prems(1,2) f]
  obtain b s1 where b: "step_market sv env r s = (b, s1)" by fastforce
  have fr: "\<forall>r' \<in> set rs. fresh s1 r'"
  proof
    fix r' assume r': "r' \<in> set rs"
    then have "pr_id r' \<noteq> pr_id r" using Cons.prems(4) by (metis distinct.simps(2) image_eqI list.simps(9) list.set_map)
    then show "fresh s1 r'" using c(2) Cons.prems(3) r' b by simp
  qed
  have "carries s1 (snd (step_markets sv env rs s1))"
    by (rule Cons.IH) (use Cons.prems(4) c(1) fr b in \<open>simp_all add: carries_def\<close>)
  then show ?case using carries_trans c(1) b by (cases b) auto
qed (simp add: carries_refl)

lemma filter_fresh:
  assumes "table_ok s" "\<And>q. P q \<Longrightarrow> pr_status q \<in> {''verifying'', ''collecting_sigs'', ''refunding'', ''disputed''}"
  shows "\<forall>r \<in> set (filter P (rows s)). fresh s r" "distinct (map pr_id (filter P (rows s)))"
proof -
  have d: "distinct (map pr_id (rows s))" using assms(1) by (simp add: table_ok_def)
  then show "distinct (map pr_id (filter P (rows s)))" by (simp add: distinct_map_filter)
  show "\<forall>r \<in> set (filter P (rows s)). fresh s r"
    using assms(2) find_key_unique [OF d _ refl] by (auto simp: fresh_def find_pool_def)
qed

lemma watchdogs_carry: "table_ok s \<Longrightarrow> caught_up s \<Longrightarrow> carries s (watchdogs sv s)"
  unfolding watchdogs_def due_markets_def
  by (intro fold_carries filter_fresh) (auto intro: lands_more [OF watch_lands])

lemma path_b_carries: "table_ok s \<Longrightarrow> caught_up s \<Longrightarrow> carries s (path_b sv s)"
  unfolding path_b_def by (intro fold_carries filter_fresh) (auto intro: lands_more [OF reconcile_lands])

lemma deadlines_carry: "table_ok s \<Longrightarrow> caught_up s \<Longrightarrow> carries s (deadline_watcher sv s)"
proof -
  assume t: "table_ok s" and c: "caught_up s"
  have "frame s (deadline_watcher sv s)" by (simp add: frame_def deadline_watcher_def on_pool_def)
  moreover have "settler_edge\<^sup>*\<^sup>* ''pending_bettors'' ''verifying''" by (rule r_into_rtranclp) (simp add: settler_edge_def next_states_def)
  ultimately show ?thesis using deadline_table [OF t] caught_up_frame [OF c] by (simp add: carries_def deadline_find pool_terms_def)
qed

lemma due_take:
  assumes "table_ok s" and rs_def: "rs = rev (sort_key pr_updated (due_markets sv [''verifying'', ''collecting_sigs'', ''refunding'', ''disputed''] (sd_pool s)))"
  shows "\<forall>r \<in> set (take n rs). fresh s r" "distinct (map pr_id (take n rs))"
proof -
  let ?ds = "due_markets sv [''verifying'', ''collecting_sigs'', ''refunding'', ''disputed''] (sd_pool s)"
  have f: "\<forall>r \<in> set ?ds. fresh s r" "distinct (map pr_id ?ds)"
    unfolding due_markets_def by (rule filter_fresh [OF assms(1)]; simp)+
  have "mset (map pr_id rs) = mset (map pr_id ?ds)" by (simp add: rs_def)
  then have "distinct (map pr_id rs)" using f(2) mset_eq_imp_distinct_iff by blast
  then show "distinct (map pr_id (take n rs))" by (simp add: take_map [symmetric])
  show "\<forall>r \<in> set (take n rs). fresh s r" using f(1) in_set_takeD by (fastforce simp: rs_def)
qed

lemma tick_carries:
  assumes "table_ok s" "caught_up s"
  shows "carries s (poolSettlerTick sv env n s)"
proof -
  define s1 where "s1 = deadline_watcher sv s"
  define rs where "rs = rev (sort_key pr_updated (due_markets sv [''verifying'', ''collecting_sigs'', ''refunding'', ''disputed''] (sd_pool s1)))"
  have c1: "carries s s1" unfolding s1_def by (rule deadlines_carry [OF assms])
  then have t1: "table_ok s1" "caught_up s1" by (simp_all add: carries_def)
  obtain b s2 where b: "step_markets sv env (take n rs) s1 = (b, s2)" by fastforce
  have "carries s1 s2" using markets_carry [OF t1 due_take [OF t1(1) rs_def], of sv env n] by (simp add: b)
  with c1 have c2: "carries s s2" by (rule carries_trans)
  then have t2: "table_ok s2" "caught_up s2" by (simp_all add: carries_def)
  note c3 = carries_trans [OF c2 watchdogs_carry [OF t2, of sv]]
  then have t3: "table_ok (watchdogs sv s2)" "caught_up (watchdogs sv s2)" by (simp_all add: carries_def)
  note c4 = carries_trans [OF c3 path_b_carries [OF t3, of sv]]
  have "poolSettlerTick sv env n s = (if rs = [] then s1 else if b then path_b sv (watchdogs sv s2) else s2)"
    unfolding poolSettlerTick_def Let_def s1_def [symmetric] rs_def [symmetric] b by (cases b) simp_all
  then show ?thesis using c1 c2 c4 by simp
qed

subsection \<open>The notice of a fee\<close>

text \<open>Two rows that differ in the notice only.\<close>

definition noticed :: "pool_row \<Rightarrow> pool_row \<Rightarrow> bool" where
  "noticed q q' \<longleftrightarrow> q'\<lparr> pr_metadata := pr_metadata q \<rparr> = q \<and> (\<forall>k. k \<noteq> FEE_NOTICE \<longrightarrow> meta q' k = meta q k)"

lemma noticed_refl [simp]: "noticed q q"
  by (simp add: noticed_def)

lemma noticed_trans: "noticed a b \<Longrightarrow> noticed b c \<Longrightarrow> noticed a c"
  by (cases a; cases b; cases c) (simp add: noticed_def)

lemma noticed_same:
  assumes "noticed q q'"
  shows "pr_id q' = pr_id q" "pr_status q' = pr_status q" "pr_settle_tx q' = pr_settle_tx q" "pr_refund_tx q' = pr_refund_tx q"
    "row_backed q' = row_backed q" "refund_requestable q' = refund_requestable q"
proof -
  show same: "pr_id q' = pr_id q" "pr_status q' = pr_status q" "pr_settle_tx q' = pr_settle_tx q" "pr_refund_tx q' = pr_refund_tx q"
    using assms by (cases q; cases q'; simp add: noticed_def)+
  have m: "meta q' k = meta q k" if "k \<noteq> FEE_NOTICE" for k using assms that by (simp add: noticed_def)
  have r: "pr_maker_relay q' = pr_maker_relay q" using assms by (cases q; cases q'; simp add: noticed_def)
  show "row_backed q' = row_backed q" "refund_requestable q' = refund_requestable q"
    by (simp_all add: row_backed_def refund_requestable_def flagged_def same r m FEE_NOTICE_def)
qed

lemma json_set_noticed: "noticed q (json_set_meta FEE_NOTICE v q)"
proof (cases "payload_json (pr_metadata q)")
  case (JObj kvs)
  then have "meta (json_set_meta FEE_NOTICE v q) k = map_of (map_set FEE_NOTICE v kvs) k" "meta q k = map_of kvs k" for k
    by (simp_all add: json_set_meta_def) (simp add: meta_def meta_kvs_def)
  then show ?thesis using JObj by (simp add: noticed_def map_of_map_set) (simp add: json_set_meta_def set_meta_def)
qed (simp_all add: json_set_meta_def)

lemma marked_rows: "rows (markEmitted i v s) = update_where (\<lambda>q. pr_id q = i) (json_set_meta FEE_NOTICE v) (rows s)"
  by (simp add: markEmitted_def on_pool_def)

lemma marked_find: "find_pool (sd_pool (markEmitted i v s)) j = map_option (\<lambda>q. if pr_id q = i then json_set_meta FEE_NOTICE v q else q) (find_pool (sd_pool s) j)"
  unfolding find_pool_def marked_rows by (rule find_update_where) (rule noticed_same(1) [OF json_set_noticed])

lemma marked_table: "table_ok s \<Longrightarrow> table_ok (markEmitted i v s)"
  unfolding table_ok_def marked_rows
  using map_update_where [of "\<lambda>q. pr_id q = i" pr_id "json_set_meta FEE_NOTICE v" "rows s"] noticed_same(1,5) [OF json_set_noticed]
  by (auto simp: set_update_where)

subsection \<open>Every step\<close>

lemma step_table: "settler_step s s' \<Longrightarrow> table_ok s \<Longrightarrow> table_ok s'"
proof (induction rule: settler_step.induct)
  case (hears s env n b)
  then show ?case using hear_table [OF broadcast_grows [of env "sd_pool s" n b]] by (simp add: table_ok_def on_pool_def)
next
  case (ticks s sv env n)
  then show ?case using tick_carries by (simp add: carries_def)
qed (rule marked_table)

lemma step_status:
  assumes "settler_step s s'" "table_ok s" "find_pool (sd_pool s) i = Some q"
  shows "\<exists>q'. find_pool (sd_pool s') i = Some q' \<and> settler_edge\<^sup>*\<^sup>* (pr_status q) (pr_status q')"
  using assms(1)
proof cases
  case (hears env n b)
  then show ?thesis using hear_status [OF broadcast_grows assms(3)] by (simp add: on_pool_def)
next
  case (ticks sv env n)
  then show ?thesis using tick_carries [OF assms(2) ticks(2)] assms(3) unfolding carries_def by blast
next
  case (notices j v)
  then show ?thesis using assms(3) noticed_same(2) [OF json_set_noticed] by (simp add: marked_find)
qed

lemma step_closed:
  assumes "settler_step s s'" "table_ok s" "find_pool (sd_pool s) i = Some q" "pr_status q \<in> closed_states"
  shows "\<exists>q'. find_pool (sd_pool s') i = Some q' \<and> noticed q q'"
  using assms(1)
proof cases
  case (hears env n b)
  then show ?thesis using hear_closed [OF broadcast_grows _ assms(3,4)] assms(2) by (simp add: on_pool_def table_ok_def)
next
  case (ticks sv env n)
  then show ?thesis using tick_carries [OF assms(2) ticks(2)] assms(3,4) noticed_refl unfolding carries_def by blast
next
  case (notices j v)
  then show ?thesis using assms(3) json_set_noticed by (simp add: marked_find)
qed

lemma turned_frames: "row_moves i (turned T) s s' \<Longrightarrow> find_pool (sd_pool s) j = Some q \<Longrightarrow> j \<noteq> i \<Longrightarrow> find_pool (sd_pool s') j = Some q"
proof -
  assume m: "row_moves i (turned T) s s'" and q: "find_pool (sd_pool s) j = Some q" "j \<noteq> i"
  obtain g where g: "rows s' = update_where (\<lambda>q. pr_id q = i) g (rows s)" "\<And>q. pr_id (g q) = pr_id q" using m unfolding row_moves_def by blast
  have "find (\<lambda>q. pr_id q = j) (rows s') = map_option (\<lambda>q. if pr_id q = i then g q else q) (find (\<lambda>q. pr_id q = j) (rows s))"
    unfolding g(1) by (rule find_update_where) (rule g(2))
  moreover have "pr_id q = j" using find_key_Some [of pr_id j "rows s" q] q(1) by (simp add: find_pool_def)
  ultimately show ?thesis using q by (simp add: find_pool_def)
qed

lemma node_table: "node_step s s' \<Longrightarrow> table_ok s \<Longrightarrow> table_ok s'"
proof (induction rule: node_step.induct)
  case (refunds s r sv)
  have "lands r {''refunding''} s (dispatchRefund sv r PeerRequest s)" by (rule moves_lands [OF turned_becomes [OF refund_moves subset_refl]])
  then show ?case by (rule lands_table(1) [OF _ refunds(3,1)])
qed (rule step_table)

lemma node_closed:
  assumes "node_step s s'" "table_ok s" "find_pool (sd_pool s) i = Some q" "pr_status q \<in> closed_states" "\<not> refund_requestable q"
  shows "\<exists>q'. find_pool (sd_pool s') i = Some q' \<and> noticed q q'"
  using assms(1)
proof cases
  case settles
  then show ?thesis by (rule step_closed [OF _ assms(2-4)])
next
  case (refunds r sv)
  have "i \<noteq> pr_id r" using refunds(2,3) assms(3,5) by auto
  then have "find_pool (sd_pool s') i = Some q" unfolding refunds(1) by (rule turned_frames [OF refund_moves assms(3)])
  then show ?thesis by simp
qed

text \<open>What is left of a row without the notice.\<close>

definition without_notice :: "pool_row \<Rightarrow> pool_row \<times> (string \<Rightarrow> json option)" where
  "without_notice q = (q\<lparr> pr_metadata := NoPayload \<rparr>, (meta q)(FEE_NOTICE := None))"

lemma noticed_iff: "without_notice q' = without_notice q \<longleftrightarrow> noticed q q'"
  by (cases q; cases q') (auto simp: without_notice_def noticed_def fun_eq_iff)

definition closed_row :: "(pool_row \<Rightarrow> bool) \<Rightarrow> settle_db \<Rightarrow> string \<Rightarrow> (pool_row \<times> (string \<Rightarrow> json option)) option" where
  "closed_row P s i = (if table_ok s then (case find_pool (sd_pool s) i of
     Some q \<Rightarrow> if pr_status q \<in> closed_states \<and> P q then Some (without_notice q) else None | None \<Rightarrow> None) else None)"

lemma closed_row_Some: "closed_row P s i = Some v \<longleftrightarrow> table_ok s \<and> (\<exists>q. find_pool (sd_pool s) i = Some q \<and> pr_status q \<in> closed_states \<and> P q \<and> v = without_notice q)"
  by (auto simp: closed_row_def split: option.splits if_splits)

lemma closed_row_next:
  assumes "closed_row P s i = Some v" "table_ok s \<Longrightarrow> table_ok s'" "\<And>q q'. noticed q q' \<Longrightarrow> P q \<Longrightarrow> P q'"
    and "\<And>q. table_ok s \<Longrightarrow> find_pool (sd_pool s) i = Some q \<Longrightarrow> pr_status q \<in> closed_states \<Longrightarrow> P q \<Longrightarrow> \<exists>q'. find_pool (sd_pool s') i = Some q' \<and> noticed q q'"
  shows "closed_row P s' i = Some v"
proof -
  obtain q where q: "table_ok s" "find_pool (sd_pool s) i = Some q" "pr_status q \<in> closed_states" "P q" "v = without_notice q"
    using assms(1) unfolding closed_row_Some by blast
  obtain q' where q': "find_pool (sd_pool s') i = Some q'" "noticed q q'" using assms(4) [OF q(1-4)] by blast
  have "without_notice q' = v" using q'(2) q(5) by (simp add: noticed_iff)
  moreover have "pr_status q' \<in> closed_states" using q(3) noticed_same(2) [OF q'(2)] by simp
  ultimately show ?thesis unfolding closed_row_Some using assms(2) [OF q(1)] assms(3) [OF q'(2) q(4)] q'(1) by blast
qed

interpretation settlem: status_machine row_status settler_step settler_edge
proof
  fix s s' i t assume "settler_step s s'" "row_status s i = Some t"
  then show "\<exists>u. row_status s' i = Some u \<and> settler_edge\<^sup>*\<^sup>* t u"
    using step_table step_status by (fastforce simp: row_status_def split: if_splits)
qed

text \<open>Without requests of peers every closed market stays, with them those stay that have none to fear.\<close>

interpretation closedm: status_machine "closed_row (\<lambda>_. True)" settler_step "\<lambda>_ _. False"
proof
  fix s s' i v assume st: "settler_step s s'" and c: "closed_row (\<lambda>_. True) s i = Some v"
  have "closed_row (\<lambda>_. True) s' i = Some v" by (rule closed_row_next [OF c step_table [OF st]]) (auto intro: step_closed [OF st])
  then show "\<exists>u. closed_row (\<lambda>_. True) s' i = Some u \<and> (\<lambda>_ _. False)\<^sup>*\<^sup>* v u" by blast
qed

interpretation sealedm: status_machine "closed_row (\<lambda>q. \<not> refund_requestable q)" node_step "\<lambda>_ _. False"
proof
  fix s s' i v assume st: "node_step s s'" and c: "closed_row (\<lambda>q. \<not> refund_requestable q) s i = Some v"
  have "closed_row (\<lambda>q. \<not> refund_requestable q) s' i = Some v"
    by (rule closed_row_next [OF c node_table [OF st]]) (auto intro: node_closed [OF st] simp: noticed_same(6))
  then show "\<exists>u. closed_row (\<lambda>q. \<not> refund_requestable q) s' i = Some u \<and> (\<lambda>_ _. False)\<^sup>*\<^sup>* v u" by blast
qed

lemma reach_table: "node_step\<^sup>*\<^sup>* s s' \<Longrightarrow> table_ok s \<Longrightarrow> table_ok s'"
  by (induction rule: rtranclp_induct) (auto intro: node_table)

end
