(* ===== verification/Settler_Claims.thy ===== *)
theory Settler_Claims
  imports Settler_Safety
begin

section \<open>What the settler guarantees\<close>

text \<open>
  The properties of the settler: what a market that is closed, being settled or being refunded holds, what a settlement and a refund
  pay, which signatures are submitted and when the settler gives up, who sits on a committee, and where stakes stay behind.
\<close>

subsection \<open>Statuses\<close>

text \<open>C5: A market that is completed, refunded or cancelled, and whose refund a peer cannot ask for (its maker is on another node, or
  a refund was dispatched), never changes again but for the notice of the fee of its broker: not by a tick of the settler, a broadcast
  or a request for a refund of any market, when these run one after the other and no vote or signature waits to be replayed when a
  tick begins.\<close>

theorem closed_markets_stay:
  assumes "node_step\<^sup>*\<^sup>* s s'" "table_ok s" "find_pool (sd_pool s) i = Some q" "pr_status q \<in> {''completed'', ''refunded'', ''cancelled''}"
    and "\<not> refund_requestable q"
  shows "\<exists>q'. find_pool (sd_pool s') i = Some q' \<and> q'\<lparr> pr_metadata := pr_metadata q \<rparr> = q \<and> (\<forall>k. k \<noteq> FEE_NOTICE \<longrightarrow> meta q' k = meta q k)"
proof -
  have "closed_row (\<lambda>q. \<not> refund_requestable q) s i = Some (without_notice q)" using assms(2-5) unfolding closed_row_Some by blast
  then have "closed_row (\<lambda>q. \<not> refund_requestable q) s' i = Some (without_notice q)" by (rule sealedm.terminal_absorbing [OF assms(1)]) simp
  then show ?thesis unfolding closed_row_Some using noticed_iff noticed_def by metis
qed

text \<open>C11: Every market has what its status needs, after any history of ticks, broadcasts and requests for refunds that run one after
  the other, with no vote or signature waiting to be replayed when a tick begins: a completed or refunded one its transaction, a market
  that is being refunded the prepared transaction and a positive amount, one that collects signatures the transaction to be signed; and
  no two markets get the same identifier.\<close>

theorem statuses_supported:
  assumes "node_step\<^sup>*\<^sup>* s s'" "distinct (map pr_id (rows s))" "list_all row_backed (rows s)"
  shows "distinct (map pr_id (rows s')) \<and> list_all row_backed (rows s')"
proof -
  have "table_ok s" using assms(2,3) by (simp add: table_ok_def list_all_iff)
  then show ?thesis using reach_table [OF assms(1)] by (simp add: table_ok_def list_all_iff)
qed

text \<open>The status of a market only moves forward: it reaches no status that the graph of the settler does not lead to.\<close>

theorem statuses_move_forward:
  assumes "settler_step\<^sup>*\<^sup>* s s'" "table_ok s" "find_pool (sd_pool s) i = Some q"
  shows "\<exists>q'. find_pool (sd_pool s') i = Some q' \<and> settler_edge\<^sup>*\<^sup>* (pr_status q) (pr_status q')"
proof -
  have "row_status s i = Some (pr_status q)" using assms(2,3) by (simp add: row_status_def)
  then obtain t where "row_status s' i = Some t" "settler_edge\<^sup>*\<^sup>* (pr_status q) t" using settlem.path [OF assms(1)] by blast
  then show ?thesis by (auto simp: row_status_def split: if_splits)
qed

subsection \<open>Money\<close>

lemma write_find:
  assumes "find_pool (sd_pool s) i = Some r" "\<And>q. pr_id (f q) = pr_id q"
  shows "find_pool (sd_pool (write_row sv i f s)) i = Some ((f r)\<lparr> pr_updated := sql_time sv \<rparr>)"
proof -
  have "find (\<lambda>q. pr_id q = i) (rows (write_row sv i f s)) = map_option (\<lambda>q. if pr_id q = i then (f q)\<lparr> pr_updated := sql_time sv \<rparr> else q) (find (\<lambda>q. pr_id q = i) (rows s))"
    unfolding rows_write by (rule find_update_where) (simp add: assms(2))
  moreover have "pr_id r = i" using find_key_Some [of pr_id i "rows s" r] assms(1) by (simp add: find_pool_def)
  ultimately show ?thesis using assms(1) by (simp add: find_pool_def)
qed

lemma quiet_find: "quiet s s' \<Longrightarrow> find_pool (sd_pool s') i = find_pool (sd_pool s) i"
  by (simp add: quiet_def find_pool_def)

lemma moves_find:
  assumes "row_moves (pr_id r) R s s'" "find_pool (sd_pool s) (pr_id r) = Some r"
  obtains q where "find_pool (sd_pool s') (pr_id r) = Some q" "R r q"
proof -
  obtain g where g: "rows s' = update_where (\<lambda>q. pr_id q = pr_id r) g (rows s)" "\<And>q. pr_id (g q) = pr_id q" "\<And>q. R q (g q)"
    using assms(1) unfolding row_moves_def by blast
  have "find (\<lambda>q. pr_id q = pr_id r) (rows s') = map_option (\<lambda>q. if pr_id q = pr_id r then g q else q) (find (\<lambda>q. pr_id q = pr_id r) (rows s))"
    unfolding g(1) by (rule find_update_where) (rule g(2))
  then have "find_pool (sd_pool s') (pr_id r) = Some (g r)" using assms(2) by (simp add: find_pool_def)
  then show ?thesis using that g(3) by blast
qed

text \<open>A request of a peer is carried out whatever the status: a completed market can begin to be refunded.\<close>

theorem request_reopens:
  assumes "find_pool (sd_pool s) (pr_id r) = Some r" "refund_requestable r" "pr_id r \<notin> set (sd_shards s)"
    and "buildMakerRefundPreimage sv r s = (Some (tx, v), s1)"
  shows "\<exists>s' q. node_step s s' \<and> find_pool (sd_pool s') (pr_id r) = Some q \<and> pr_status q = ''refunding''"
proof -
  have "node_step s (dispatchRefund sv r PeerRequest s)" by (rule refunds [OF assms(1,2)])
  moreover have "find_pool (sd_pool s1) (pr_id r) = Some r" using quiet_find [OF preimage_quiet [of s sv r]] assms(1,4) by simp
  ultimately show ?thesis using write_find [of s1 "pr_id r" r] assms(3,4) by (force simp: dispatchRefund_def)
qed

text \<open>C13: What the refund of a maker pays: its stake, and in a market of three oracles their three bonds, less the fee of the
  transaction, which for version 0.7 lies between 50000 sompi and 1 KAS and for the others is the fee of the market, or 20000 sompi;
  and it is positive.\<close>

theorem refund_pays_stake_less_fee:
  assumes "find_pool (sd_pool s) (pr_id r) = Some r" "pr_status r \<noteq> ''refunding''"
    and "find_pool (sd_pool (dispatchRefund sv r why s)) (pr_id r) = Some q" "pr_status q = ''refunding''"
  shows "\<exists>v fee. meta q ''refund_amount'' = Some (JInt v) \<and> 0 < v
    \<and> v = maker_stake r + (if committee_version r then 0 else 3 * int_or (pr_bond r) 0) - fee
    \<and> (if pr_version r = JStr ''v0.7'' then 50000 \<le> fee \<and> fee \<le> 100000000 else fee = int_or (pr_miner_fee r) 20000)"
proof -
  have shards: "pr_id r \<notin> set (sd_shards s)" using assms by (auto simp: dispatchRefund_def)
  obtain p s1 where p: "buildMakerRefundPreimage sv r s = (p, s1)" by fastforce
  have q1: "find_pool (sd_pool s1) (pr_id r) = Some r" using quiet_find [OF preimage_quiet [of s sv r]] assms(1) by (simp add: p)
  obtain tx v where t: "p = Some (tx, v)"
    using assms(2-4) q1 shards by (cases p) (auto simp: dispatchRefund_def p)
  define f where "f = set_status ''refunding'' \<circ> set_meta (assign (meta_kvs r)
     [(''refund_tx_obj'', tx), (''refund_reason'', JStr (sv_words sv why)), (''refund_dispatched_at'', iso_now sv), (''refund_amount'', JInt v)])"
  have d: "dispatchRefund sv r why s = write_row sv (pr_id r) f s1" using shards by (simp add: dispatchRefund_def p t f_def)
  have "find_pool (sd_pool (write_row sv (pr_id r) f s1)) (pr_id r) = Some ((f r)\<lparr> pr_updated := sql_time sv \<rparr>)"
    by (rule write_find [OF q1]) (simp add: f_def)
  then have "q = (f r)\<lparr> pr_updated := sql_time sv \<rparr>" using assms(3) by (simp add: d)
  then have m: "meta q ''refund_amount'' = Some (JInt v)" by (simp add: f_def map_of_assign)
  obtain fee where fee: "0 < v" "refund_fee r = Some fee" "v = refund_amount r fee" using preimage_refund p t by blast
  have "v = maker_stake r + (if committee_version r then 0 else 3 * int_or (pr_bond r) 0) - fee" using fee(3) by (simp add: refund_amount_def)
  moreover have "if pr_version r = JStr ''v0.7'' then 50000 \<le> fee \<and> fee \<le> 100000000 else fee = int_or (pr_miner_fee r) 20000"
    using fee(2) by (auto simp: refund_fee_def computeMassAwareV07RefundFee_def Let_def MAX_TX_FEE_SOMPI_def split: if_splits)
  ultimately show ?thesis using m fee(1) by blast
qed

lemma turned_status:
  assumes "row_moves (pr_id r) (turned T) s s'" "find_pool (sd_pool s) (pr_id r) = Some r" "find_pool (sd_pool s') (pr_id r) = Some q"
  shows "pr_status q = pr_status r \<or> pr_status q \<in> T"
  using moves_find [OF assms(1,2)] assms(3) by (auto simp: turned_def)

lemma other_keys:
  "committee_meta sv p r = Some c \<Longrightarrow> ''phase2_outputs'' \<notin> fst ` set c"
  "global_meta sv r ps = Some g \<Longrightarrow> ''phase2_outputs'' \<notin> fst ` set g"
  by (auto simp: committee_meta_def global_meta_def split: option.splits json.splits sum.splits if_splits)

lemma phase2_outputs_member: "map_of (assign kvs (phase2_meta sv p r w u k st po ins n outs tx @ c @ g @ [(''phase2_request_payload'', q)])) ''phase2_outputs''
    = (case map_of (rev (c @ g)) ''phase2_outputs'' of Some v \<Rightarrow> Some v | None \<Rightarrow> Some (JArr (map output_json outs)))"
  by (simp add: map_of_assign phase2_meta_def map_add_def split: option.split)

lemma submitted_outputs:
  assumes "find_pool (sd_pool s) (pr_id r) = Some r" "pr_status r \<noteq> ''collecting_sigs''"
    and "find_pool (sd_pool (phase2_submit sv r w u k sides st po deposits outs s)) (pr_id r) = Some q" "pr_status q = ''collecting_sigs''"
  shows "meta q ''phase2_outputs'' = Some (JArr (map output_json outs))"
proof -
  obtain a s1 where a: "ask sv (pr_maker_relay r) (phase2_preimage r sides (settle_inputs r deposits sides) (1 + length deposits) outs) s = (a, s1)" by fastforce
  define cm where "cm = (if committee_version r then committee_meta sv (sd_pool s1) r else Some [])"
  define gm where "gm = (if pr_version r = JStr ''v0.7'' then global_meta sv r (st_parts st) else Some [])"
  have f1: "find_pool (sd_pool s1) (pr_id r) = Some r" using quiet_find [OF ask_quietD [OF a]] assms(1) by simp
  have "phase2_submit sv r w u k sides st po deposits outs s \<noteq> s1" using f1 assms(2-4) by auto
  then obtain tx c g where t: "answered a ''tx_obj'' = Some tx" and c: "cm = Some c" and g: "gm = Some g"
    unfolding phase2_submit_def Let_def a prod.case cm_def [symmetric] gm_def [symmetric] by (auto split: option.splits)
  have keys: "''phase2_outputs'' \<notin> fst ` set c" "''phase2_outputs'' \<notin> fst ` set g"
    using c g other_keys unfolding cm_def gm_def by (auto split: if_splits)
  then have none: "map_of (rev (c @ g)) ''phase2_outputs'' = None" by (simp add: map_of_eq_None_iff image_Un map_add_None)
  define req where "req = sign_request r w u k (length (settle_inputs r deposits sides)) (1 + length deposits) tx"
  define f where "f = set_status ''collecting_sigs'' \<circ> set_meta (assign (meta_kvs r)
    (phase2_meta sv (sd_pool s1) r w u k st po (settle_inputs r deposits sides) (1 + length deposits) outs tx @ c @ g @ [(''phase2_request_payload'', req)]))"
  have e: "phase2_submit sv r w u k sides st po deposits outs s = snd (broadcast_chunked sv (pr_maker_relay r) req (write_row sv (pr_id r) f s1))"
    unfolding phase2_submit_def Let_def a cm_def [symmetric] gm_def [symmetric] prod.case t c g option.case req_def [symmetric] f_def [symmetric] by (rule refl)
  have "find_pool (sd_pool (write_row sv (pr_id r) f s1)) (pr_id r) = Some ((f r)\<lparr> pr_updated := sql_time sv \<rparr>)"
    by (rule write_find [OF f1]) (simp add: f_def)
  then have "q = (f r)\<lparr> pr_updated := sql_time sv \<rparr>" using assms(3) by (simp add: e quiet_find [OF broadcast_quiet])
  then show ?thesis using none by (simp add: f_def phase2_outputs_member map_add_def split: option.split)
qed

lemma dispatch_submits:
  assumes "find_pool (sd_pool s) (pr_id r) = Some r" "committee_version r" "pr_status r \<noteq> ''collecting_sigs''"
    and "find_pool (sd_pool (dispatchPhase2 sv r w u k s)) (pr_id r) = Some q" "pr_status q = ''collecting_sigs''"
  obtains st po outs where "settle_targets_of sv (sd_pool s) r (by_index (market_sides (sd_pool s) (pr_id r))) = Some st"
    "computePoolPayouts (phase2_args r w u k (st_parts st)) = Inr po" "phase2_outputs (sd_pool s) r w st po = Some outs"
    "thinThreshold (int_or (pr_bond r) 100000000) \<le> side_stake (on_side (1 - w)) (st_parts st)"
    "meta q ''phase2_outputs'' = Some (JArr (map output_json outs))"
proof -
  have refund: "dispatchPhase2 sv r w u k s \<noteq> dispatchRefund sv r why s" for why
    using turned_status [OF refund_moves assms(1)] assms(3-5) by fastforce
  have cancel: "dispatchPhase2 sv r w u k s \<noteq> snd (cancel_and_refund sv r id what extra why side_why sides s)" for what extra why side_why sides
  proof
    assume e: "dispatchPhase2 sv r w u k s = snd (cancel_and_refund sv r id what extra why side_why sides s)"
    have "pr_status q = pr_status r \<or> pr_status q \<in> {''cancelled'', ''refunding''}"
      by (rule turned_status [OF cancelled_moves assms(1) assms(4) [unfolded e]]) simp_all
    then show False using assms(3,5) by simp
  qed
  have same: "dispatchPhase2 sv r w u k s \<noteq> s" using assms by auto
  define sides where "sides = by_index (market_sides (sd_pool s) (pr_id r))"
  have ne: "sides \<noteq> []" using refund [of ZeroBets] by (auto simp: dispatchPhase2_def sides_def [symmetric])
  obtain st where st: "settle_targets_of sv (sd_pool s) r sides = Some st"
    using same ne by (cases "settle_targets_of sv (sd_pool s) r sides") (auto simp: dispatchPhase2_def sides_def [symmetric])
  have thin: "thinThreshold (int_or (pr_bond r) 100000000) \<le> side_stake (on_side (1 - w)) (st_parts st)" (is ?thin)
  proof (rule ccontr)
    assume "\<not> ?thin"
    then have "dispatchPhase2 sv r w u k s = cancel_thin sv r w (side_stake (on_side (1 - w)) (st_parts st)) (thinThreshold (int_or (pr_bond r) 100000000)) sides s"
      using ne st assms(2) by (simp add: dispatchPhase2_def Let_def sides_def [symmetric] not_le)
    then show False using cancel by (simp add: cancel_thin_def)
  qed
  obtain po where po: "computePoolPayouts (phase2_args r w u k (st_parts st)) = Inr po"
    using same refund ne st thin by (cases "computePoolPayouts (phase2_args r w u k (st_parts st))")
      (auto simp: dispatchPhase2_def sides_def [symmetric] Let_def split: if_splits)
  obtain outs deposits where o: "phase2_outputs (sd_pool s) r w st po = Some outs" "deposit_outpoints (sd_pool s) (pr_id r) = Some deposits"
    using same ne st thin po by (cases "phase2_outputs (sd_pool s) r w st po"; cases "deposit_outpoints (sd_pool s) (pr_id r)")
      (auto simp: dispatchPhase2_def sides_def [symmetric] Let_def)
  have heavy: "dispatchPhase2 sv r w u k s \<noteq> cancel_heavy sv r w m sides s" for m using cancel assms(2) by (simp add: cancel_heavy_def)
  have "dispatchPhase2 sv r w u k s = phase2_submit sv r w u k sides st po deposits outs s"
    using same heavy ne st thin po o assms(2) by (auto simp: dispatchPhase2_def Let_def sides_def [symmetric] split: if_splits)
  then have "meta q ''phase2_outputs'' = Some (JArr (map output_json outs))" using submitted_outputs [OF assms(1,3) _ assms(5)] assms(4) by simp
  then show ?thesis using that st po o(1) thin by (simp add: sides_def)
qed

lemma settle_fee_range: "2000000 \<le> settle_fee m \<and> settle_fee m \<le> 100000000"
  by (auto simp: settle_fee_def Let_def MAX_TX_FEE_SOMPI_def)

lemma those_map: "those xs = Some ys \<Longrightarrow> map Some ys = xs"
  by (induction xs arbitrary: ys) (auto split: option.splits)

lemma those_length: "those xs = Some ys \<Longrightarrow> length ys = length xs"
  by (induction xs arbitrary: ys) (auto split: option.splits)

lemma sum_by_index: "(\<Sum>b\<leftarrow>by_index bs. f b) = (\<Sum>b\<leftarrow>bs. (f b :: int))"
proof -
  have "mset (map f (by_index bs)) = mset (map f bs)" by (simp add: by_index_def)
  then show ?thesis by (metis sum_mset_sum_list)
qed

lemma parts_stakes:
  assumes "settle_targets_of sv p r sides = Some st"
  shows "(\<Sum>x\<leftarrow>st_parts st. pa_stake x) = maker_stake r + (\<Sum>b\<leftarrow>sides. int_or (br_stake b) 0)"
proof -
  obtain m as where a: "those (map (\<lambda>b. full (sv_addr sv (br_bettor b) (payout_network r))) sides) = Some as" "st_parts st = settle_parts sv r m as sides"
    using assms by (auto simp: settle_targets_of_def split: option.splits)
  have "length as = length sides" using those_length [OF a(1)] by simp
  then have "(\<Sum>x\<leftarrow>map2 (\<lambda>a b. \<lparr> pa_addr = a, pa_stake = int_or (br_stake b) 0, pa_dir = int_column (br_direction b), pa_maker = False \<rparr>) as sides. pa_stake x)
      = (\<Sum>b\<leftarrow>sides. int_or (br_stake b) 0)"
    by (induction as sides rule: list_induct2) auto
  then show ?thesis by (simp add: a(2) settle_parts_def)
qed

text \<open>C3: The transaction of the settlement of a market with a committee (versions 0.6 and 0.7) pays out the whole pool: the outputs
  recorded for a market whose signatures start to be collected sum to the stake of the maker and those of all bets, less a fee between 0.02 and 1 KAS.\<close>

theorem settlement_pays_pool:
  assumes "find_pool (sd_pool s) (pr_id r) = Some r" "committee_version r" "pr_status r \<noteq> ''collecting_sigs''"
    and "find_pool (sd_pool (dispatchPhase2 sv r w u k s)) (pr_id r) = Some q" "pr_status q = ''collecting_sigs''"
  shows "\<exists>outs fee. meta q ''phase2_outputs'' = Some (JArr (map output_json outs)) \<and> 2000000 \<le> fee \<and> fee \<le> 100000000
    \<and> leaf_sum outs = maker_stake r + (\<Sum>b\<leftarrow>market_sides (sd_pool s) (pr_id r). int_or (br_stake b) 0) - fee"
proof -
  obtain st po outs where d: "settle_targets_of sv (sd_pool s) r (by_index (market_sides (sd_pool s) (pr_id r))) = Some st"
      "computePoolPayouts (phase2_args r w u k (st_parts st)) = Inr po" "phase2_outputs (sd_pool s) r w st po = Some outs"
      "meta q ''phase2_outputs'' = Some (JArr (map output_json outs))"
    using dispatch_submits [OF assms] by metis
  have "leaf_sum outs = po_total po - phase2_fee r w (st_parts st)"
    using d(3) assms(2) by (auto simp: phase2_outputs_def outputs_conserve_def Let_def split: if_splits)
  moreover have "po_total po = (\<Sum>x\<leftarrow>st_parts st. pa_stake x)"
    using payouts_cases(8) [OF d(2)] by (simp add: total_pool_sum phase2_args_def)
  ultimately have "leaf_sum outs = maker_stake r + (\<Sum>b\<leftarrow>market_sides (sd_pool s) (pr_id r). int_or (br_stake b) 0) - phase2_fee r w (st_parts st)"
    by (simp add: parts_stakes [OF d(1)] sum_by_index)
  then show ?thesis using d(4) assms(2) settle_fee_range by (auto simp: phase2_fee_def)
qed

text \<open>C21: \<open>dispatchPhase2\<close> settles a market with a committee (versions 0.6 and 0.7) only if it is worth it: when it makes the
  market collect signatures, the losing side holds at least five bonds,
  the least fee of the broker and the margin for storage, some bet was placed and somebody has won.\<close>

theorem settled_market_viable:
  assumes "find_pool (sd_pool s) (pr_id r) = Some r" "committee_version r" "pr_status r \<noteq> ''collecting_sigs''"
    and "find_pool (sd_pool (dispatchPhase2 sv r w u k s)) (pr_id r) = Some q" "pr_status q = ''collecting_sigs''"
  shows "\<exists>st. settle_targets_of sv (sd_pool s) r (by_index (market_sides (sd_pool s) (pr_id r))) = Some st
    \<and> thinThreshold (int_or (pr_bond r) 100000000) \<le> side_stake (on_side (1 - w)) (st_parts st) \<and> filter (on_side w) (st_parts st) \<noteq> []"
proof -
  obtain st po where d: "settle_targets_of sv (sd_pool s) r (by_index (market_sides (sd_pool s) (pr_id r))) = Some st"
      "computePoolPayouts (phase2_args r w u k (st_parts st)) = Inr po"
      "thinThreshold (int_or (pr_bond r) 100000000) \<le> side_stake (on_side (1 - w)) (st_parts st)"
    using dispatch_submits [OF assms] by metis
  have "filter (on_side w) (st_parts st) \<noteq> []" using payouts_cases(2) [OF d(2)] by (simp add: winners_def phase2_args_def)
  then show ?thesis using d by blast
qed

subsection \<open>Giving up\<close>

lemma moves_row:
  assumes "row_moves i R s s'" "find_pool (sd_pool s) i = Some r"
  obtains q where "find_pool (sd_pool s') i = Some q" "R r q"
proof -
  have "pr_id r = i" using find_key_Some [of pr_id i "rows s" r] assms(2) by (simp add: find_pool_def)
  then show ?thesis using moves_find [of r R s s'] assms that by auto
qed

text \<open>A market whose signatures are complete submits again and again, and the relay refuses.\<close>

definition submit_again :: "settle_env \<Rightarrow> string \<Rightarrow> json \<Rightarrow> settle_db \<Rightarrow> settle_db" where
  "submit_again sv i j s = (case find_pool (sd_pool s) i of None \<Rightarrow> s
     | Some r \<Rightarrow> if pr_status r = ''collecting_sigs'' then submit_failed sv r j s else s)"

definition submitting :: "nat \<Rightarrow> pool_row \<Rightarrow> bool" where
  "submitting n q \<longleftrightarrow> pr_status q = ''collecting_sigs'' \<and> \<not> flagged q ''refund_dispatched_at'' \<and> count_of q ''submit_fail_count'' = n"

lemma submit_fails_once:
  assumes "find_pool (sd_pool s) i = Some r" "submitting n r" "submit_error j \<noteq> None"
  obtains q where "find_pool (sd_pool (submit_again sv i j s)) i = Some q"
    "pr_status q \<in> {''cancelled'', ''refunding''} \<or> (submitting (Suc n) q \<and> Suc n < cf_giveup (sv_conf sv))"
proof -
  obtain e where e: "submit_error j = Some e" using assms(3) by blast
  have i: "pr_id r = i" using find_key_Some [of pr_id i "rows s" r] assms(1) by (simp add: find_pool_def)
  have r: "pr_status r = ''collecting_sigs''" "\<not> js_truthy (meta r ''refund_dispatched_at'')" "count_of r ''submit_fail_count'' = n"
    using assms(2) by (auto simp: submitting_def flagged_def)
  define kvs where "kvs = assign (meta_kvs r) [(''submit_fail_count'', JInt (int (Suc n))), (''submit_last_err'', e)]"
  show ?thesis
  proof (cases "cf_giveup (sv_conf sv) \<le> Suc n")
    case True
    define f where "f = set_status ''cancelled'' \<circ> set_meta (assign kvs [(''cancel_reason'', JStr ''settle_submit_giveup''), (''cancelled_at'', iso_now sv)])"
    have d: "submit_again sv i j s = dispatchRefund sv r SubmitGiveup (write_row sv (pr_id r) f s)"
      using True r e assms(1) by (simp add: submit_again_def submit_failed_def Let_def kvs_def f_def i)
    have "find_pool (sd_pool (write_row sv (pr_id r) f s)) i = Some ((f r)\<lparr> pr_updated := sql_time sv \<rparr>)"
      unfolding i by (rule write_find [OF assms(1)]) (simp add: f_def)
    from moves_row [OF refund_moves [of r, unfolded i] this]
    obtain q where "find_pool (sd_pool (submit_again sv i j s)) i = Some q" "turned {''refunding''} ((f r)\<lparr> pr_updated := sql_time sv \<rparr>) q"
      unfolding d i by blast
    then show ?thesis using that by (auto simp: turned_def f_def)
  next
    case False
    define f where "f = set_meta (assign kvs [(''skip_until_ms'', JInt (int (ck_now (sv_clock sv) + backoff_sec (Suc n) * 1000)))])"
    have d: "submit_again sv i j s = write_row sv i f s"
      using False r e assms(1) by (simp add: submit_again_def submit_failed_def Let_def kvs_def f_def i)
    have "find_pool (sd_pool (submit_again sv i j s)) i = Some ((f r)\<lparr> pr_updated := sql_time sv \<rparr>)"
      unfolding d by (rule write_find [OF assms(1)]) (simp add: f_def)
    moreover have "submitting (Suc n) ((f r)\<lparr> pr_updated := sql_time sv \<rparr>)"
      proof -
      have "meta ((f r)\<lparr> pr_updated := sql_time sv \<rparr>) ''refund_dispatched_at'' = meta r ''refund_dispatched_at''"
        "meta ((f r)\<lparr> pr_updated := sql_time sv \<rparr>) ''submit_fail_count'' = Some (JInt (int (Suc n)))"
        by (simp_all add: f_def kvs_def map_of_assign flip: meta_of)
      then show ?thesis using r by (simp add: submitting_def flagged_def count_of_def f_def)
    qed
    ultimately show ?thesis using that False by simp
  qed
qed

lemma closed_submits_nothing: "find_pool (sd_pool s) i = Some q \<Longrightarrow> pr_status q \<in> {''cancelled'', ''refunding''} \<Longrightarrow> fold (submit_again sv i) js s = s"
  by (induction js) (auto simp: submit_again_def)

lemma submit_fails_often:
  assumes "find_pool (sd_pool s) i = Some r" "submitting n r" "\<forall>j \<in> set js. submit_error j \<noteq> None" "n < cf_giveup (sv_conf sv)"
  shows "\<exists>q. find_pool (sd_pool (fold (submit_again sv i) js s)) i = Some q
    \<and> (pr_status q \<in> {''cancelled'', ''refunding''} \<or> (submitting (n + length js) q \<and> n + length js < cf_giveup (sv_conf sv)))"
  using assms
proof (induction js arbitrary: s r n)
  case (Cons j js)
  obtain q where q: "find_pool (sd_pool (submit_again sv i j s)) i = Some q"
      "pr_status q \<in> {''cancelled'', ''refunding''} \<or> (submitting (Suc n) q \<and> Suc n < cf_giveup (sv_conf sv))"
    using submit_fails_once [OF Cons.prems(1,2)] Cons.prems(3) by (metis list.set_intros(1))
  show ?case
  proof (cases "pr_status q \<in> {''cancelled'', ''refunding''}")
    case True
    show ?thesis unfolding fold_Cons comp_apply closed_submits_nothing [OF q(1) True] using q(1) True by blast
  next
    case False
    then show ?thesis using Cons.IH [OF q(1), of "Suc n"] q(2) Cons.prems(3) by simp
  qed
qed auto

text \<open>C12: Submitting does not go on for ever: a market whose signatures are complete is cancelled, or its refund has begun, after as many
  refused submissions as the node allows.\<close>

theorem submissions_end:
  assumes "find_pool (sd_pool s) i = Some r" "pr_status r = ''collecting_sigs''" "\<not> flagged r ''refund_dispatched_at''"
    and "count_of r ''submit_fail_count'' < cf_giveup (sv_conf sv)"
    and "\<forall>j \<in> set js. submit_error j \<noteq> None" "cf_giveup (sv_conf sv) \<le> length js"
  shows "\<exists>q. find_pool (sd_pool (fold (submit_again sv i) js s)) i = Some q \<and> pr_status q \<in> {''cancelled'', ''refunding''}"
  using submit_fails_often [OF assms(1) _ assms(5,4)] assms(2,3,6) by (fastforce simp: submitting_def)

subsection \<open>Stakes that stay behind\<close>

lemma silent_relays: "(\<And>relay cmd n. sv_ipc sv relay cmd n = Inl e) \<Longrightarrow> dispatchRefund sv r why s = s \<or> rows (dispatchRefund sv r why s) = rows s"
  by (auto simp: dispatchRefund_def buildMakerRefundPreimage_def ask_def right_def answered_def Let_def on_pool_def split: option.split)

text \<open>C34: A market that \<open>cancel_min_pot\<close> cancels for its small pot while no relay answers keeps the stake of its maker: it stays
  cancelled, with no transaction for a refund, whatever the node hears and however many ticks it runs, as long as no peer asks for the
  refund.\<close>

theorem stake_left_behind:
  assumes "\<And>relay cmd n. sv_ipc sv relay cmd n = Inl e" "table_ok s" "find_pool (sd_pool s) (pr_id r) = Some r" "pr_refund_tx r = None"
    and "settler_step\<^sup>*\<^sup>* (cancel_min_pot sv r clear pot s) s'"
  shows "\<exists>q. find_pool (sd_pool s') (pr_id r) = Some q \<and> pr_status q = ''cancelled'' \<and> pr_refund_tx q = None"
proof -
  define f where "f = set_status ''cancelled'' \<circ> set_meta (let kvs = assign (meta_kvs r) [(''cancel_reason'', JStr ''min_pot_undersize''),
    (''cancel_pool_sompi'', JStr (int_str pot)), (''cancelled_at'', iso_now sv)] in if clear then without ''skip_until_ms'' kvs else kvs)"
  define s1 where "s1 = cancel_min_pot sv r clear pot s"
  define c where "c = (f r)\<lparr> pr_updated := sql_time sv \<rparr>"
  have s1: "s1 = dispatchRefund sv r MinPot (write_row sv (pr_id r) f s)" by (simp add: s1_def cancel_min_pot_def f_def Let_def)
  have same: "rows s1 = rows (write_row sv (pr_id r) f s)" unfolding s1 using silent_relays [OF assms(1)] by metis
  have "find_pool (sd_pool (write_row sv (pr_id r) f s)) (pr_id r) = Some c"
    unfolding c_def by (rule write_find [OF assms(3)]) (simp add: f_def)
  then have q: "find_pool (sd_pool s1) (pr_id r) = Some c" by (simp add: find_pool_def same)
  have "lands r {''cancelled'', ''refunding''} s s1" unfolding s1_def by (rule moves_lands [OF min_pot_moves]) simp
  then have t: "table_ok s1" by (rule lands_table(1) [OF _ assms(2,3)])
  have c: "pr_status c = ''cancelled''" "pr_refund_tx c = None" using assms(4) by (simp_all add: c_def f_def set_status_def set_meta_def)
  then have "closed_row (\<lambda>_. True) s1 (pr_id r) = Some (without_notice c)" using t q unfolding closed_row_Some by simp
  then have "closed_row (\<lambda>_. True) s' (pr_id r) = Some (without_notice c)"
    using closedm.terminal_absorbing [OF assms(5) [folded s1_def]] by blast
  then obtain q where q: "find_pool (sd_pool s') (pr_id r) = Some q" "noticed c q" unfolding closed_row_Some using noticed_iff by metis
  then show ?thesis using c noticed_same(2,4) [OF q(2)] by simp
qed

subsection \<open>Signatures\<close>

lemma map_of_filter_key: "map_of (filter (\<lambda>(a, b). a \<noteq> k) xs) j = (if j = k then None else map_of xs j)"
  by (induction xs) auto

lemma map_of_first_of_each: "map_of (first_of_each xs) = map_of xs"
  by (rule ext, induction xs rule: first_of_each.induct) (auto simp: map_of_filter_key)

lemma payloads_append: "market_payloads (p\<lparr> pb_events := pb_events p @ es \<rparr>) type i = market_payloads p type i @ map ev_payload (filter (\<lambda>x. ev_type x = type
    \<and> (case payload_text (ev_payload x) of None \<Rightarrow> False | Some t \<Rightarrow> sql_like (like_member ''market_id'' i) t)) es)"
  by (simp add: market_payloads_def)

text \<open>C32: The first signature recorded for an input and a member is the one that is submitted: whatever arrives later, the transaction
  carries it at the place of that member.\<close>

theorem first_signature_submitted:
  assumes "map_of (settle_sigs n p i) (k, pk) = Some v" "committee_pks p i ! m = pk" "m < length (committee_pks p i)"
  shows "ordered_sigs (committee_pks p i) (settle_sigs n (p\<lparr> pb_events := pb_events p @ es \<rparr>) i) k ! m = v"
proof -
  have "map_of (settle_sigs n (p\<lparr> pb_events := pb_events p @ es \<rparr>) i) (k, pk) = Some v"
    using assms(1) by (simp add: settle_sigs_def recorded_sigs_def map_of_first_of_each payloads_append map_filter_def map_add_def)
  then show ?thesis using assms(2,3) by (simp add: ordered_sigs_def)
qed

subsection \<open>The committee\<close>

lemma sampled_member:
  assumes "draw_committee sv p r h = Some pks"
  obtains sn ex where "loadPoolSnapshot p (pr_id r) = Some sn" "excludePks p r = Some ex" "length pks = 5"
    "\<And>pk. pk \<in> set pks \<Longrightarrow> pk \<in> set (map toLowerCase (sn_pks sn)) \<and> pk \<notin> set (map toLowerCase ex)"
proof -
  obtain sn ex seed ms sel rds where d: "loadPoolSnapshot p (pr_id r) = Some sn" "excludePks p r = Some ex" "snapshot_members sn = Some ms"
      "selectCommittee (sv_hash sv) ms seed ex = Inr (sel, rds)" "pks = map m_pk sel"
    using assms by (auto simp: draw_committee_def right_def split: option.splits sum.splits)
  note sel = selectCommittee_Inr [OF d(4)]
  have keys: "m_pk m \<in> set (sn_pks sn)" if m: "m \<in> set ms" for m
  proof -
    have "map Some ms = map2 (\<lambda>pk st. map_option (\<lambda>v. \<lparr> m_pk = pk, m_stake = v \<rparr>) (js_BigInt (Some (JStr st)))) (sn_pks sn) (sn_stakes sn)"
      using d(3) unfolding snapshot_members_def by (rule those_map)
    moreover have "Some m \<in> set (map Some ms)" using m by simp
    ultimately have "Some m \<in> set (map2 (\<lambda>pk st. map_option (\<lambda>v. \<lparr> m_pk = pk, m_stake = v \<rparr>) (js_BigInt (Some (JStr st)))) (sn_pks sn) (sn_stakes sn))" by simp
    then obtain a b where "(a, b) \<in> set (zip (sn_pks sn) (sn_stakes sn))" "m_pk m = a"
      by (fastforce simp: eq_commute [of "Some m"])
    then show ?thesis by (metis in_set_zipE)
  qed
  have "pk \<in> set (map toLowerCase (sn_pks sn)) \<and> pk \<notin> set (map toLowerCase ex)" if pk: "pk \<in> set pks" for pk
  proof -
    obtain m where m: "m \<in> set sel" "pk = m_pk m" using pk d(5) by auto
    have "set sel \<subseteq> set (sorted_members ms ex)" using sel(3) by (metis set_mset_mono set_mset_mset)
    then have "m \<in> set (sorted_members ms ex)" using m(1) by blast
    then show ?thesis using sorted_members_key [of m ms ex] keys m(2) by (auto simp: sorted_members_set)
  qed
  then show ?thesis using that d sel(2) by (simp add: COMMITTEE_SIZE_def)
qed

lemma excluded_keys:
  assumes "excludePks p r = Some ex"
  shows "pr_maker r \<noteq> [] \<Longrightarrow> toLowerCase (pr_maker r) \<in> set ex"
    and "js_truthy (Some (pr_broker r)) \<Longrightarrow> toLowerCase (js_String (pr_broker r)) \<in> set ex"
    and "b \<in> set (pb_bets p) \<Longrightarrow> br_market b = pr_id r \<Longrightarrow> \<exists>n d. br_daa b = Some n \<and> js_Number (Some (pr_deadline_daa r)) = Some d
      \<and> (br_bettor b \<noteq> [] \<and> of_nat n \<le> d \<longrightarrow> toLowerCase (br_bettor b) \<in> set ex)"
proof -
  obtain d bs where d: "js_Number (Some (pr_deadline_daa r)) = Some d" "bettor_pks p r d = Some bs" "ex = party_pks p r @ bs"
    using assms by (auto simp: excludePks_def split: option.splits if_splits)
  show "pr_maker r \<noteq> [] \<Longrightarrow> toLowerCase (pr_maker r) \<in> set ex" by (simp add: d(3) party_pks_def)
  show "js_truthy (Some (pr_broker r)) \<Longrightarrow> toLowerCase (js_String (pr_broker r)) \<in> set ex" by (simp add: d(3) party_pks_def)
  define one where "one = (\<lambda>b :: pool_bet. case br_daa b of None \<Rightarrow> None | Some n \<Rightarrow> Some (if br_bettor b \<noteq> [] \<and> of_nat n \<le> d then [toLowerCase (br_bettor b)] else []))"
  obtain xs where xs: "those (map one (filter (\<lambda>b. br_market b = pr_id r) (pb_bets p))) = Some xs" "bs = concat xs"
    using d(2) by (auto simp: bettor_pks_def one_def)
  show "\<exists>n d. br_daa b = Some n \<and> js_Number (Some (pr_deadline_daa r)) = Some d \<and> (br_bettor b \<noteq> [] \<and> of_nat n \<le> d \<longrightarrow> toLowerCase (br_bettor b) \<in> set ex)"
    if "b \<in> set (pb_bets p)" "br_market b = pr_id r"
  proof -
    have "one b \<in> set (map one (filter (\<lambda>b. br_market b = pr_id r) (pb_bets p)))" using that by simp
    then have "one b \<in> set (map Some xs)" unfolding those_map [OF xs(1)] .
    then obtain x where x: "one b = Some x" "x \<in> set xs" by auto
    then obtain n where n: "br_daa b = Some n" "x = (if br_bettor b \<noteq> [] \<and> of_nat n \<le> d then [toLowerCase (br_bettor b)] else [])"
      by (auto simp: one_def split: option.splits)
    have "br_bettor b \<noteq> [] \<and> of_nat n \<le> d \<longrightarrow> toLowerCase (br_bettor b) \<in> set ex" using n(2) x(2) by (metis UN_I d(3) list.set_intros(1) set_append set_concat UnI2 xs(2))
    then show ?thesis using n(1) d(1) by blast
  qed
qed

text \<open>C6: Whoever has money in a market does not judge it: a committee that is drawn has five members, all of the pool the market was
  created with, and neither the maker, nor the broker, nor a bettor whose bet was locked by the deadline is one of them; and no committee
  is drawn while the time of a bet is unknown.\<close>

theorem drawn_committee_disinterested:
  assumes "draw_committee sv p r h = Some pks"
  shows "length pks = 5 \<and> (\<exists>sn. loadPoolSnapshot p (pr_id r) = Some sn \<and> set pks \<subseteq> set (map toLowerCase (sn_pks sn)))
    \<and> (pr_maker r \<noteq> [] \<longrightarrow> toLowerCase (pr_maker r) \<notin> set pks)
    \<and> (js_truthy (Some (pr_broker r)) \<longrightarrow> toLowerCase (js_String (pr_broker r)) \<notin> set pks)
    \<and> (\<forall>b \<in> set (pb_bets p). br_market b = pr_id r \<longrightarrow> (\<exists>n d. br_daa b = Some n \<and> js_Number (Some (pr_deadline_daa r)) = Some d
        \<and> (br_bettor b \<noteq> [] \<and> of_nat n \<le> d \<longrightarrow> toLowerCase (br_bettor b) \<notin> set pks)))"
proof -
  obtain sn ex where d: "loadPoolSnapshot p (pr_id r) = Some sn" "excludePks p r = Some ex" "length pks = 5"
      "\<And>pk. pk \<in> set pks \<Longrightarrow> pk \<in> set (map toLowerCase (sn_pks sn)) \<and> pk \<notin> set (map toLowerCase ex)"
    using sampled_member [OF assms] by metis
  have out: "toLowerCase x \<notin> set pks" if "toLowerCase x \<in> set ex" for x
  proof
    assume "toLowerCase x \<in> set pks"
    then have "toLowerCase x \<notin> toLowerCase ` set ex" using d(4) by simp
    moreover have "toLowerCase (toLowerCase x) \<in> toLowerCase ` set ex" by (rule imageI) (rule that)
    ultimately show False by simp
  qed
  have pool: "set pks \<subseteq> set (map toLowerCase (sn_pks sn))" using d(4) by blast
  show ?thesis
  proof (intro conjI ballI impI)
    show "\<exists>sn. loadPoolSnapshot p (pr_id r) = Some sn \<and> set pks \<subseteq> set (map toLowerCase (sn_pks sn))" using d(1) pool by blast
    show "\<exists>n d. br_daa b = Some n \<and> js_Number (Some (pr_deadline_daa r)) = Some d \<and> (br_bettor b \<noteq> [] \<and> of_nat n \<le> d \<longrightarrow> toLowerCase (br_bettor b) \<notin> set pks)"
      if "b \<in> set (pb_bets p)" "br_market b = pr_id r" for b
      using excluded_keys(3) [OF d(2) that] out by blast
  qed (use d(3) excluded_keys(1,2) [OF d(2)] out in simp_all)
qed

subsection \<open>Concrete instances\<close>

text \<open>A market with 100 KAS of its maker on No and a bet of 300 KAS on Yes, a committee of five, and relays that always answer.\<close>

definition ex_keys :: "string list" where
  "ex_keys = map (replicate 64) ''12345''"

definition ex_row :: "string \<Rightarrow> string \<Rightarrow> pool_row" where
  "ex_row t v = ex_pool\<lparr> pr_status := t, pr_version := JStr v, pr_maker_relay := ''r'', pr_maker := replicate 64 (CHR ''7''), pr_side := JStr ''NO'',
     pr_broker := JStr (replicate 64 (CHR ''6'')), pr_bond := JInt 100000000, pr_maker_stake := JInt 10000000000, pr_broker_pct := JInt 190,
     pr_relays := JsonPayload (JArr (map JStr [''o1'', ''o2'', ''o3'', ''o4'', ''o5''])), pr_deadline_daa := JInt 50,
     pr_metadata := JsonPayload (JObj [(''spine_redeem_script_hex'', JStr ''51'')]) \<rparr>"

definition ex_stake :: pool_bet where
  "ex_stake = ex_bet\<lparr> br_bettor := replicate 64 (CHR ''8''), br_direction := JInt 0, br_stake := JInt 30000000000, br_daa := Some 40 \<rparr>"

definition ex_snapshot :: snapshot_row where
  "ex_snapshot = \<lparr> sn_market = ''m'', sn_root = ex_a64, sn_size = 5, sn_pks = ex_keys, sn_stakes = replicate 5 ''100'', sn_daa = 1 \<rparr>"

definition ex_sdb :: "pool_row list \<Rightarrow> settle_db" where
  "ex_sdb rs = \<lparr> sd_pool = (ex_pdb rs)\<lparr> pb_committee := [(''m'', Some (JArr (map JStr ex_keys)))], pb_bets := [ex_stake], pb_snapshots := [ex_snapshot] \<rparr>,
     sd_shards = [], sd_spends = [], sd_history = [], sd_backoff = [], sd_sent = [] \<rparr>"

definition ex_answer :: json where
  "ex_answer = JObj [(''ok'', JBool True), (''tx_obj'', JStr ''tx''), (''error'', JStr ''no'')]"

definition ex_sv :: "string + json \<Rightarrow> settle_env" where
  "ex_sv a = \<lparr> sv_conf = ex_conf, sv_clock = ex_clock 5, sv_iso = (\<lambda>_. ''now''), sv_addr = (\<lambda>pk net. Some (''kaspa:'' @ take 1 pk)), sv_ipc = (\<lambda>_ _ _. a),
     sv_hash = (\<lambda>_. replicate 32 0), sv_sha256 = (\<lambda>_. ex_a64), sv_blob = nat_str, sv_words = (\<lambda>_. ''w''), sv_live = [''r''], sv_alive = (\<lambda>_. True),
     sv_safe_json = Some, sv_rebroadcast = 1, sv_hold = False, sv_members = [] \<rparr>"

lemma ex_found: "find_pool (sd_pool (ex_sdb [ex_row t v])) ''m'' = Some (ex_row t v)" "pr_id (ex_row t v) = ''m''" "pr_status (ex_row t v) = t"
  "pr_version (ex_row t v) = JStr v" "pr_refund_tx (ex_row t v) = None"
  by (simp_all add: find_pool_def ex_sdb_def ex_pdb_def ex_row_def ex_pool_def new_market_def)

lemma digit_bare: "digit_char c \<Longrightarrow> \<not> space_char c \<and> c \<noteq> CHR ''-'' \<and> c \<noteq> CHR ''+''"
  by (auto simp: digit_char_def space_char_def Let_def)

lemma take_digits: "takeWhile digit_char (nat_str n) = nat_str n"
  by (rule takeWhile_eq_all_conv [THEN iffD2]) (use nat_str_digits in blast)

lemma parse_nat_str: "parse_int (nat_str n) = Some (int n)"
proof -
  obtain c s where c: "nat_str n = c # s" "digit_char c" using nat_str_Cons by blast
  have "dropWhile space_char (nat_str n) = nat_str n" "strip_sign (nat_str n) = (False, nat_str n)"
    using c(1) digit_bare [OF c(2)] by (simp_all add: strip_sign_def)
  then show ?thesis by (simp add: parse_int_def Let_def take_digits str_val_nat_str)
qed

lemma parse_JInt [simp]: "js_parseInt (Some (JInt n)) = Some n"
proof (cases "n < 0")
  case True
  then show ?thesis
    by (simp add: js_parseInt_def int_str_def parse_int_def strip_sign_def space_char_def Let_def take_digits str_val_nat_str)
next
  case False
  then show ?thesis using parse_nat_str [of "nat n"] by (simp add: js_parseInt_def int_str_def)
qed

lemma int_or_JInt [simp]: "int_or (JInt n) d = (if n = 0 then d else n)"
  by (simp add: int_or_def)

lemma ex_sums: "maker_stake (ex_row t v) = 10000000000" "int_or (pr_bond (ex_row t v)) d = 100000000" "int_or (pr_broker_pct (ex_row t v)) d = 190"
    "int_or (br_stake ex_stake) d = 30000000000"
  by (simp_all add: maker_stake_def ex_row_def ex_stake_def)

lemma ex_script: "redeem_hex (ex_row t v) = ''51''" by (simp add: redeem_hex_def ex_row_def meta_def meta_kvs_def payload_json_def)
lemma ex_relay: "full (relay_address (sd_pool (ex_sdb rs)) (pr_maker_relay (ex_row t v))) = Some ''a''" by code_simp
lemma ex_oracles: "oracle_addresses (ex_row t v) = Some [''o1'', ''o2'', ''o3'', ''o4'', ''o5'']" by code_simp
lemma ex_sorted: "by_index [ex_stake] = [ex_stake]" by (simp add: by_index_def)
lemma ex_sides: "market_sides (sd_pool (ex_sdb rs)) ''m'' = [ex_stake]" by (simp add: market_sides_def ex_sdb_def ex_stake_def ex_bet_def)
lemma ex_targets: "settle_targets_of (ex_sv a) (sd_pool (ex_sdb rs)) (ex_row t v) [ex_stake] = 
  Some \<lparr> st_oracles = [''o1'', ''o2'', ''o3'', ''o4'', ''o5''], st_broker = ''kaspa:6'', st_maker = ''kaspa:7'',
    st_parts = settle_parts (ex_sv a) (ex_row t v) ''kaspa:7'' [''kaspa:8''] [ex_stake] \<rparr>"
proof -
  have b: "broker_address (ex_sv a) (ex_row t v) = Some ''kaspa:6''"
    by (simp add: broker_address_def ex_sv_def full_def truthy_def ex_row_def)
  have m: "maker_address (ex_sv a) (sd_pool (ex_sdb rs)) (ex_row t v) = Some ''kaspa:7''"
    by (simp add: maker_address_def ex_sv_def full_def truthy_def ex_row_def)
  have o: "those (map (\<lambda>b. full (sv_addr (ex_sv a) (br_bettor b) (payout_network (ex_row t v)))) [ex_stake]) = Some [''kaspa:8'']"
    by (simp add: ex_sv_def full_def truthy_def ex_stake_def)
  show ?thesis unfolding settle_targets_of_def b m o ex_oracles by simp
qed

definition ex_sides_paid :: "participant list" where
  "ex_sides_paid = [\<lparr> pa_addr = ''kaspa:7'', pa_stake = 10000000000, pa_dir = JInt 1, pa_maker = True \<rparr>,
     \<lparr> pa_addr = ''kaspa:8'', pa_stake = 30000000000, pa_dir = JInt 0, pa_maker = False \<rparr>]"

lemma ex_divided: "settle_parts (ex_sv a) (ex_row t v) ''kaspa:7'' [''kaspa:8''] [ex_stake] = ex_sides_paid"
proof -
  have "maker_side (ex_row t v) = 1" "int_column (br_direction ex_stake) = JInt 0" by (simp_all add: maker_side_def ex_row_def ex_stake_def int_column_def)
  then show ?thesis by (simp add: settle_parts_def ex_sums ex_sides_paid_def)
qed

lemma ex_mass: "phase2_mass (ex_row t ''v0.6'') 0 ex_sides_paid = 13158"
proof -
  have "filter (on_side 0) ex_sides_paid = [ex_sides_paid ! 1]" "length ex_sides_paid = 2" by (simp_all add: ex_sides_paid_def on_side_def)
  moreover have "redeem_size (ex_row t ''v0.6'') = 1" by (simp add: redeem_size_def ex_script hexval_def)
  ultimately show ?thesis by (simp add: phase2_mass_def settle_mass_def txByteEstimate_def ex_found ceil_div_def)
qed

lemma ex_fee: "settle_fee 13158 = 2894760" "computeDynamicMinBrokerFee 13158 = 75999393"
  by code_simp+

definition ex_quote :: payout_args where
  "ex_quote = \<lparr> pg_parts = ex_sides_paid, pg_winner = 0, pg_broker_pct = 190, pg_oracle_pct = Some 100, pg_maker_pct = Some 10, pg_bond = 100000000,
     pg_miner = 2894760, pg_unanimous = True, pg_silent = None, pg_count = Some 5, pg_committee = True, pg_min_broker = Some 75999393 \<rparr>"

definition ex_paid :: pool_payouts where
  "ex_paid = \<lparr> po_broker = 760000000, po_oracle = 400000000, po_maker = 40000000, po_winners = [(1, False, 38297105240)], po_extra = None,
     po_bonds = map (\<lambda>i. (i, 100000000)) [0..<5], po_total = 40000000000, po_distributable = 38297105240 \<rparr>"

definition ex_outs :: "leaf list" where
  "ex_outs = [(''kaspa:6'', 760000000), (''o1'', 180000000), (''o2'', 180000000), (''o3'', 180000000), (''o4'', 180000000), (''o5'', 180000000),
     (''kaspa:8'', 38297105240), (''kaspa:7'', 40000000)]"

lemma ex_quoted: "phase2_args (ex_row t ''v0.6'') 0 True None ex_sides_paid = ex_quote"
proof -
  have "phase2_fee (ex_row t ''v0.6'') 0 ex_sides_paid = 2894760" by (simp add: phase2_fee_def committee_version_def ex_found ex_mass ex_fee)
  then show ?thesis by (simp add: phase2_args_def ex_quote_def committee_version_def ex_found ex_mass ex_fee ex_sums)
qed

lemma ex_payable: "computePoolPayouts ex_quote = Inr ex_paid"
  by code_simp

lemma ex_oracle_stakes: "getCommitteeStakesCanonical (sd_pool (ex_sdb rs)) ''m'' 5 = [100, 100, 100, 100, 100]"
  by code_simp

lemma ex_laid_out: "phase2_outputs (sd_pool (ex_sdb rs)) (ex_row t ''v0.6'') 0 \<lparr> st_oracles = [''o1'', ''o2'', ''o3'', ''o4'', ''o5''], st_broker = ''kaspa:6'',
    st_maker = ''kaspa:7'', st_parts = ex_sides_paid \<rparr> ex_paid = Some ex_outs"
proof -
  have c: "committee_version (ex_row t ''v0.6'')" "committee_count (ex_row t ''v0.6'') = 5" by (simp_all add: committee_count_def committee_version_def ex_found)
  have f: "phase2_fee (ex_row t ''v0.6'') 0 ex_sides_paid = 2894760" by (simp add: phase2_fee_def c ex_mass ex_fee)
  have sh: "oracle_shares (po_oracle ex_paid) 5 [100, 100, 100, 100, 100] = [80000000, 80000000, 80000000, 80000000, 80000000]" by code_simp
  have o: "settle_outputs True ex_sides_paid ''kaspa:6'' ''kaspa:7'' [''o1'', ''o2'', ''o3'', ''o4'', ''o5''] [80000000, 80000000, 80000000, 80000000, 80000000] ex_paid = ex_outs"
    by code_simp
  have ok: "list_all (\<lambda>(i, b). i < length [''o1'', ''o2'', ''o3'', ''o4'', ''o5'']) (po_bonds ex_paid)" "outputs_conserve True 2894760 ex_paid ex_outs" by code_simp+
  show ?thesis unfolding phase2_outputs_def settle_targets.simps Let_def c ex_found(2) ex_oracle_stakes sh f using c(1) o ok by simp
qed

lemma ex_light: "phase2_est_mass (ex_row t v) [] [ex_stake] ex_outs \<le> STORAGE_MASS_SAFE_THRESHOLD"
proof -
  have "estimateMultiOutputStorageMass [10000000000, 30000000000] (map snd ex_outs) \<le> STORAGE_MASS_SAFE_THRESHOLD" by code_simp
  then show ?thesis by (simp add: phase2_est_mass_def ex_sums)
qed

lemma proof_json_total:
  assumes "buildPoolMerkleTree H pks = Inr t" "i < POOL_MAX_SIZE"
  shows "proof_json t i \<noteq> None"
proof -
  have root: "pool_root H pks = Some (tr_root t)" by (simp add: pool_root_def assms(1) right_opt_def)
  have i: "i < 2 ^ POOL_DEPTH" using assms(2) by (simp add: POOL_MAX_SIZE_def)
  obtain ss where ss: "the (right_opt (getPoolMerkleProof t (int i))) = map Some ss" using opool.opens [OF root i] by (auto simp: assms(1) right_opt_def)
  have "those (map Some ss) = Some ss" by (induction ss) auto
  then show ?thesis using ss assms(2) by (auto simp: proof_json_def right_def right_opt_def getPoolMerkleProof_def split: if_splits)
qed

lemma ex_tree: "\<exists>t. buildPoolMerkleTree (\<lambda>_. replicate 32 0) (map toLowerCase (sn_pks ex_snapshot)) = Inr t \<and> tr_sortedPks t = ex_keys"
proof -
  have keys: "map (\<lambda>s. toLowerCase (strip_0x s)) (map toLowerCase (sn_pks ex_snapshot)) = ex_keys" "sort ex_keys = ex_keys" by code_simp+
  have "mapE (hashPoolLeaf (\<lambda>_. replicate 32 0)) ex_keys = Inr (replicate 5 (replicate 32 0))" by code_simp
  moreover have "map toLowerCase (sn_pks ex_snapshot) \<noteq> []" "length (map toLowerCase (sn_pks ex_snapshot)) \<le> POOL_MAX_SIZE"
    by (simp_all add: ex_snapshot_def ex_keys_def POOL_MAX_SIZE_def POOL_DEPTH_def)
  ultimately show ?thesis unfolding buildPoolMerkleTree_def Let_def keys by simp
qed

lemma ex_committee:
  assumes "map_of (pb_committee p) ''m'' = Some (Some (JArr (map JStr ex_keys)))" "pb_snapshots p = [ex_snapshot]"
  shows "committee_meta (ex_sv a) p (ex_row t v) \<noteq> None"
proof -
  obtain tree where tree: "buildPoolMerkleTree (\<lambda>_. replicate 32 0) (map toLowerCase (sn_pks ex_snapshot)) = Inr tree" "tr_sortedPks tree = ex_keys"
    using ex_tree by blast
  have sn: "loadPoolSnapshot p ''m'' = Some ex_snapshot"
    by (simp add: loadPoolSnapshot_def assms(2) ex_found ex_snapshot_def ex_keys_def)
  have ids: "those (map (\<lambda>v. index_of (toLowerCase (js_String v)) ex_keys) (map JStr ex_keys)) = Some [0, 1, 2, 3, 4]" by code_simp
  have proofs: "proof_json tree i \<noteq> None" if "i < 5" for i
    by (rule proof_json_total [OF tree(1)]) (use that in \<open>simp add: POOL_MAX_SIZE_def POOL_DEPTH_def\<close>)
  obtain p0 p1 p2 p3 p4 where ps: "proof_json tree 0 = Some p0" "proof_json tree 1 = Some p1" "proof_json tree 2 = Some p2" "proof_json tree 3 = Some p3"
      "proof_json tree 4 = Some p4"
    using proofs [of 0] proofs [of 1] proofs [of 2] proofs [of 3] proofs [of 4] by auto
  have h: "deriveCommitteePkHash (\<lambda>_. replicate 32 0) (map js_String (map JStr ex_keys)) = Inr (replicate 32 0)" by code_simp
  have five: "length (map JStr ex_keys) = 5" by (simp add: ex_keys_def)
  have H: "sv_hash (ex_sv a) = (\<lambda>_. replicate 32 0)" by (simp add: ex_sv_def)
  show ?thesis unfolding committee_meta_def H ex_found(2) assms(1)
    by (simp add: sn tree ids ps ps(2) [unfolded One_nat_def] h five del: map_map length_map)
qed

lemma submit_found:
  assumes "find_pool (sd_pool s) (pr_id r) = Some r"
    and "ask sv (pr_maker_relay r) (phase2_preimage r sides (settle_inputs r deposits sides) (1 + length deposits) outs) s = (a, s1)" "answered a ''tx_obj'' = Some tx"
    and "committee_version r" "pr_version r \<noteq> JStr ''v0.7''" "committee_meta sv (sd_pool s1) r \<noteq> None"
  shows "\<exists>q. find_pool (sd_pool (phase2_submit sv r w u k sides st po deposits outs s)) (pr_id r) = Some q \<and> pr_status q = ''collecting_sigs''"
proof -
  obtain c where c: "committee_meta sv (sd_pool s1) r = Some c" using assms(6) by blast
  define req where "req = sign_request r w u k (length (settle_inputs r deposits sides)) (1 + length deposits) tx"
  define f where "f = set_status ''collecting_sigs'' \<circ> set_meta (assign (meta_kvs r)
    (phase2_meta sv (sd_pool s1) r w u k st po (settle_inputs r deposits sides) (1 + length deposits) outs tx @ c @ [] @ [(''phase2_request_payload'', req)]))"
  have e: "phase2_submit sv r w u k sides st po deposits outs s = snd (broadcast_chunked sv (pr_maker_relay r) req (write_row sv (pr_id r) f s1))"
    unfolding phase2_submit_def Let_def assms(2) prod.case assms(3) option.case if_P [OF assms(4)] if_not_P [OF assms(5)] c req_def [symmetric] f_def [symmetric]
    by (rule refl)
  have "find_pool (sd_pool s1) (pr_id r) = Some r" using quiet_find [OF ask_quietD [OF assms(2)]] assms(1) by simp
  then have "find_pool (sd_pool (write_row sv (pr_id r) f s1)) (pr_id r) = Some ((f r)\<lparr> pr_updated := sql_time sv \<rparr>)"
    by (rule write_find) (simp add: f_def)
  then show ?thesis by (simp add: e quiet_find [OF broadcast_quiet] f_def)
qed

lemma ex_dispatched: "\<exists>q. find_pool (sd_pool (dispatchPhase2 (ex_sv (Inr ex_answer)) (ex_row ''verifying'' ''v0.6'') 0 True None (ex_sdb [ex_row ''verifying'' ''v0.6'']))) ''m'' = Some q
    \<and> pr_status q = ''collecting_sigs''"
proof -
  let ?sv = "ex_sv (Inr ex_answer)" and ?r = "ex_row ''verifying'' ''v0.6''" and ?s = "ex_sdb [ex_row ''verifying'' ''v0.6'']"
  let ?st = "\<lparr> st_oracles = [''o1'', ''o2'', ''o3'', ''o4'', ''o5''], st_broker = ''kaspa:6'', st_maker = ''kaspa:7'', st_parts = ex_sides_paid \<rparr>"
  have c: "committee_version ?r" by (simp add: committee_version_def ex_found)
  have thick: "\<not> side_stake (on_side (1 - 0)) ex_sides_paid < thinThreshold (int_or (pr_bond ?r) 100000000)"
  proof -
    have "\<not> side_stake (on_side (1 - 0)) ex_sides_paid < thinThreshold 100000000" by code_simp
    then show ?thesis by (simp add: ex_sums)
  qed
  have dep: "deposit_outpoints (sd_pool ?s) ''m'' = Some []" by (simp add: deposit_outpoints_def market_payloads_def ex_sdb_def ex_pdb_def)
  have st: "settle_targets_of ?sv (sd_pool ?s) ?r [ex_stake] = Some ?st" by (simp add: ex_targets ex_divided)
  have light: "\<not> STORAGE_MASS_SAFE_THRESHOLD < phase2_est_mass ?r [] [ex_stake] ex_outs" using ex_light by (simp add: not_less)
  have e: "dispatchPhase2 ?sv ?r 0 True None ?s = phase2_submit ?sv ?r 0 True None [ex_stake] ?st ex_paid [] ex_outs ?s"
    unfolding dispatchPhase2_def Let_def ex_found(2) ex_sides ex_sorted st option.case settle_targets.simps ex_quoted ex_payable sum.case ex_laid_out dep prod.case
    using c thick light by (simp add: ex_found)
  define cmd where "cmd = phase2_preimage ?r [ex_stake] (settle_inputs ?r [] [ex_stake]) (1 + length ([] :: json list)) ex_outs"
  obtain a s1 where a: "ask ?sv (pr_maker_relay ?r) cmd ?s = (a, s1)" by fastforce
  have "a = Some ex_answer" "pb_committee (sd_pool s1) = pb_committee (sd_pool ?s)" "pb_snapshots (sd_pool s1) = [ex_snapshot]"
    using a by (auto simp: ask_def right_def ex_sv_def on_pool_def ex_sdb_def)
  moreover have "answered (Some ex_answer) ''tx_obj'' = Some (JStr ''tx'')" by code_simp
  moreover have "map_of (pb_committee (sd_pool ?s)) ''m'' = Some (Some (JArr (map JStr ex_keys)))" by (simp add: ex_sdb_def)
  ultimately show ?thesis using submit_found [of ?s ?r ?sv "[ex_stake]" "[]" ex_outs a s1] ex_committee [of "sd_pool s1"] c a
    by (simp add: e ex_found cmd_def)
qed

theorem settlement_pays_pool_witness:
  "\<exists>q outs fee. meta q ''phase2_outputs'' = Some (JArr (map output_json outs)) \<and> pr_status q = ''collecting_sigs'' \<and> leaf_sum outs = 40000000000 - fee \<and> 2000000 \<le> (fee :: int)"
proof -
  obtain q where q: "find_pool (sd_pool (dispatchPhase2 (ex_sv (Inr ex_answer)) (ex_row ''verifying'' ''v0.6'') 0 True None (ex_sdb [ex_row ''verifying'' ''v0.6''])))
      (pr_id (ex_row ''verifying'' ''v0.6'')) = Some q" "pr_status q = ''collecting_sigs''"
    using ex_dispatched by (auto simp: ex_found)
  from settlement_pays_pool [OF _ _ _ q] show ?thesis using q(2)
    by (simp add: ex_found committee_version_def ex_sides ex_sums) blast
qed

theorem settled_market_viable_witness:
  "\<exists>st. settle_targets_of (ex_sv (Inr ex_answer)) (sd_pool (ex_sdb [ex_row ''verifying'' ''v0.6''])) (ex_row ''verifying'' ''v0.6'') [ex_stake] = Some st
    \<and> thinThreshold 100000000 \<le> side_stake (on_side 1) (st_parts st) \<and> filter (on_side 0) (st_parts st) \<noteq> []"
proof -
  obtain q where q: "find_pool (sd_pool (dispatchPhase2 (ex_sv (Inr ex_answer)) (ex_row ''verifying'' ''v0.6'') 0 True None (ex_sdb [ex_row ''verifying'' ''v0.6''])))
      (pr_id (ex_row ''verifying'' ''v0.6'')) = Some q" "pr_status q = ''collecting_sigs''"
    using ex_dispatched by (auto simp: ex_found)
  from settled_market_viable [OF _ _ _ q] show ?thesis by (simp add: ex_found committee_version_def ex_sides ex_sorted ex_sums)
qed

lemma ex_table: "t \<in> {''verifying'', ''cancelled''} \<Longrightarrow> table_ok ((ex_sdb [ex_row t v])\<lparr> sd_spends := xs \<rparr>)"
  by (auto simp: table_ok_def ex_sdb_def ex_pdb_def row_backed_def ex_found)

definition abroad :: pool_row where
  "abroad = (ex_row ''cancelled'' ''v0.6'')\<lparr> pr_maker_relay := ''cross-node:r'' \<rparr>"

lemma ex_abroad: "find_pool (sd_pool (ex_sdb [abroad])) ''m'' = Some abroad" "pr_status abroad = ''cancelled''" "\<not> refund_requestable abroad"
    "table_ok (ex_sdb [abroad])"
  using ex_table [of "''cancelled''" "[]" "''v0.6''"]
  by (simp_all add: abroad_def refund_requestable_def cross_node_def find_pool_def ex_sdb_def ex_pdb_def ex_found table_ok_def row_backed_def)

lemma ex_up: "caught_up (ex_sdb rs)"
  by (simp add: caught_up_def orphans_def ex_sdb_def ex_pdb_def)

lemma ex_requestable: "refund_requestable (ex_row t v)"
  by (simp add: refund_requestable_def cross_node_def flagged_def meta_def meta_kvs_def payload_json_def ex_row_def)

lemma ex_tick: "settler_step (ex_sdb rs) (poolSettlerTick sv env n (ex_sdb rs))"
  by (rule ticks [OF ex_up])

theorem closed_markets_stay_witness:
  "\<exists>q. find_pool (sd_pool (poolSettlerTick (ex_sv (Inr JNull)) (ex_penv JNull) 5 (ex_sdb [abroad]))) ''m'' = Some q \<and> pr_status q = ''cancelled''"
proof -
  from closed_markets_stay [OF r_into_rtranclp, OF settles, OF ex_tick ex_abroad(4,1) _ ex_abroad(3)]
  obtain q where "find_pool (sd_pool (poolSettlerTick (ex_sv (Inr JNull)) (ex_penv JNull) 5 (ex_sdb [abroad]))) ''m'' = Some q"
    "q\<lparr> pr_metadata := pr_metadata abroad \<rparr> = abroad" using ex_abroad(2) by force
  moreover from this(2) have "pr_status (q\<lparr> pr_metadata := pr_metadata abroad \<rparr>) = pr_status abroad" by (rule arg_cong)
  then have "pr_status q = ''cancelled''" using ex_abroad(2) by (simp del: pool_row.surjective)
  ultimately show ?thesis by blast
qed

theorem statuses_supported_witness:
  "list_all row_backed (rows (dispatchRefund (ex_sv (Inr ex_answer)) (ex_row ''verifying'' ''v0.7'') PeerRequest (ex_sdb [ex_row ''verifying'' ''v0.7''])))"
proof -
  let ?s = "ex_sdb [ex_row ''verifying'' ''v0.7'']"
  have t: "table_ok ?s" using ex_table [of "''verifying''" "[]" "''v0.7''"] by (simp add: ex_sdb_def)
  have "node_step ?s (dispatchRefund (ex_sv (Inr ex_answer)) (ex_row ''verifying'' ''v0.7'') PeerRequest ?s)"
    by (rule refunds) (simp_all add: ex_found ex_requestable)
  from statuses_supported [OF r_into_rtranclp, OF this] show ?thesis using t by (simp add: table_ok_def list_all_iff)
qed

theorem statuses_move_forward_witness:
  "\<exists>q. find_pool (sd_pool (poolSettlerTick (ex_sv (Inr JNull)) (ex_penv JNull) 5 (ex_sdb [ex_row ''verifying'' ''v0.6'']))) ''m'' = Some q
    \<and> settler_edge\<^sup>*\<^sup>* ''verifying'' (pr_status q)"
proof -
  have "table_ok (ex_sdb [ex_row ''verifying'' ''v0.6''])" using ex_table [of "''verifying''" "[]" "''v0.6''"] by (simp add: ex_sdb_def)
  from statuses_move_forward [OF r_into_rtranclp, OF ex_tick this ex_found(1)] show ?thesis by (simp add: ex_found)
qed

lemma ex_preimage: "\<exists>s1. buildMakerRefundPreimage (ex_sv (Inr ex_answer)) (ex_row t ''v0.7'') (ex_sdb rs) = (Some (JStr ''tx'', 9999921350), s1)"
proof -
  let ?sv = "ex_sv (Inr ex_answer)" and ?r = "ex_row t ''v0.7''" and ?s = "ex_sdb rs"
  have m: "estimateStorageMass 10000000000 = 100" by code_simp
  have "refund_fee ?r = Some (78650 :: int)"
    by (simp add: refund_fee_def computeMassAwareV07RefundFee_def ex_found ex_script ex_sums Let_def m hexval_def bigdiv_def SOMPI_PER_MASS_def MAX_TX_FEE_SOMPI_def)
  moreover have "refund_amount ?r 78650 = 9999921350" by (simp add: refund_amount_def committee_version_def ex_found ex_sums)
  moreover have "answered (Some ex_answer) ''tx_obj'' = Some (JStr ''tx'')" by code_simp
  moreover have "fst (ask ?sv relay cmd ?s) = Some ex_answer" for relay cmd by (simp add: ask_def right_def ex_sv_def)
  ultimately have "fst (buildMakerRefundPreimage ?sv ?r ?s) = Some (JStr ''tx'', 9999921350)"
    by (simp add: buildMakerRefundPreimage_def ex_relay Let_def case_prod_beta)
  then show ?thesis by (metis prod.collapse)
qed

lemma ex_paid_back: "\<exists>q. find_pool (sd_pool (dispatchRefund (ex_sv (Inr ex_answer)) (ex_row ''verifying'' ''v0.7'') ZeroBets (ex_sdb [ex_row ''verifying'' ''v0.7'']))) ''m'' = Some q
    \<and> pr_status q = ''refunding''"
proof -
  let ?sv = "ex_sv (Inr ex_answer)" and ?r = "ex_row ''verifying'' ''v0.7''" and ?s = "ex_sdb [ex_row ''verifying'' ''v0.7'']"
  obtain s1 where b: "buildMakerRefundPreimage ?sv ?r ?s = (Some (JStr ''tx'', 9999921350), s1)" using ex_preimage by blast
  have f: "find_pool (sd_pool s1) ''m'' = Some ?r" using quiet_find [OF preimage_quiet [of ?s ?sv ?r]] by (simp add: b ex_found)
  have "\<not> ''m'' \<in> set (sd_shards ?s)" by (simp add: ex_sdb_def)
  then show ?thesis unfolding dispatchRefund_def b ex_found(2) by (simp add: write_find [OF f])
qed

theorem refund_pays_stake_less_fee_witness:
  "\<exists>q v fee. meta q ''refund_amount'' = Some (JInt v) \<and> pr_status q = ''refunding'' \<and> 0 < v \<and> v = 10000000000 - fee \<and> 50000 \<le> fee \<and> fee \<le> 100000000"
proof -
  obtain q where q: "find_pool (sd_pool (dispatchRefund (ex_sv (Inr ex_answer)) (ex_row ''verifying'' ''v0.7'') ZeroBets (ex_sdb [ex_row ''verifying'' ''v0.7''])))
      (pr_id (ex_row ''verifying'' ''v0.7'')) = Some q" "pr_status q = ''refunding''"
    using ex_paid_back by (auto simp: ex_found)
  from refund_pays_stake_less_fee [OF _ _ q] show ?thesis using q(2) by (simp add: ex_found ex_sums committee_version_def) blast
qed

theorem submissions_end_witness:
  "\<exists>q. find_pool (sd_pool (fold (submit_again (ex_sv (Inr ex_answer)) ''m'') (replicate 10 ex_answer) (ex_sdb [ex_row ''collecting_sigs'' ''v0.6'']))) ''m'' = Some q
    \<and> pr_status q \<in> {''cancelled'', ''refunding''}"
proof (rule submissions_end [OF ex_found(1)])
  have g: "cf_giveup (sv_conf (ex_sv (Inr ex_answer))) = 10" by (simp add: ex_sv_def ex_conf_def)
  show "\<not> flagged (ex_row ''collecting_sigs'' ''v0.6'') ''refund_dispatched_at''" by code_simp
  show "count_of (ex_row ''collecting_sigs'' ''v0.6'') ''submit_fail_count'' < cf_giveup (sv_conf (ex_sv (Inr ex_answer)))"
    unfolding g by (simp add: count_of_def meta_def meta_kvs_def payload_json_def ex_row_def)
  have "submit_error ex_answer \<noteq> None" by code_simp
  then show "\<forall>j \<in> set (replicate 10 ex_answer). submit_error j \<noteq> None" by simp
  show "cf_giveup (sv_conf (ex_sv (Inr ex_answer))) \<le> length (replicate 10 ex_answer)" unfolding g by simp
qed (simp add: ex_found)

theorem stake_left_behind_witness:
  "\<exists>q. find_pool (sd_pool (markEmitted ''m'' JNull (cancel_min_pot (ex_sv (Inl ''down'')) (ex_row ''verifying'' ''v0.6'') True 5 (ex_sdb [ex_row ''verifying'' ''v0.6''])))) ''m'' = Some q
    \<and> pr_status q = ''cancelled'' \<and> pr_refund_tx q = None"
proof -
  have t: "table_ok (ex_sdb [ex_row ''verifying'' ''v0.6''])" using ex_table [of "''verifying''" "[]" "''v0.6''"] by (simp add: ex_sdb_def)
  have f: "find_pool (sd_pool (ex_sdb [ex_row ''verifying'' ''v0.6''])) (pr_id (ex_row ''verifying'' ''v0.6'')) = Some (ex_row ''verifying'' ''v0.6'')" by (simp add: ex_found)
  have "sv_ipc (ex_sv (Inl ''down'')) relay cmd n = Inl ''down''" for relay cmd n by (simp add: ex_sv_def)
  from stake_left_behind [OF this t f ex_found(5) r_into_rtranclp, OF notices] show ?thesis by (simp add: ex_found)
qed

theorem request_reopens_witness:
  "\<exists>s' q. node_step (ex_sdb [ex_row ''completed'' ''v0.7'']) s' \<and> find_pool (sd_pool s') ''m'' = Some q \<and> pr_status q = ''refunding''"
proof -
  obtain s1 where b: "buildMakerRefundPreimage (ex_sv (Inr ex_answer)) (ex_row ''completed'' ''v0.7'') (ex_sdb [ex_row ''completed'' ''v0.7''])
      = (Some (JStr ''tx'', 9999921350), s1)" using ex_preimage by blast
  have f: "find_pool (sd_pool (ex_sdb [ex_row ''completed'' ''v0.7''])) (pr_id (ex_row ''completed'' ''v0.7'')) = Some (ex_row ''completed'' ''v0.7'')" by (simp add: ex_found)
  have "pr_id (ex_row ''completed'' ''v0.7'') \<notin> set (sd_shards (ex_sdb [ex_row ''completed'' ''v0.7'']))" by (simp add: ex_sdb_def)
  from request_reopens [OF f ex_requestable this b] show ?thesis by (simp add: ex_found)
qed

definition ex_signed :: "string \<Rightarrow> chain_event" where
  "ex_signed sig = \<lparr> ev_id = ''e'', ev_txid = sig, ev_from = None, ev_to = None, ev_type = ''pool_oracle_tx_sig'',
     ev_payload = JsonPayload (JObj [(''t'', JStr ''kanet_pool_oracle_tx_sign_resp_v1''), (''market_id'', JStr ''m''), (''voter_pubkey'', JStr ''1''),
       (''signature'', JStr sig), (''input_index'', JInt 0)]), ev_observed_by = ''s'', ev_observed_at = 1 \<rparr>"

lemma ex_sig_of: "sig_of ''kanet_pool_oracle_tx_sign_resp_v1'' 1 (ev_payload (ex_signed ''forged'')) = Some ((0, ''1''), JStr ''forged'')"
  by code_simp

lemma ex_sig_like: "case payload_text (ev_payload (ex_signed ''forged'')) of None \<Rightarrow> False | Some t \<Rightarrow> sql_like (like_member ''market_id'' ''m'') t"
  by code_simp

theorem first_signature_submitted_witness:
  "ordered_sigs [''1''] (settle_sigs 1 (ex_votes_db []\<lparr> pb_committee := [(''m'', Some (JArr [JStr ''1'']))], pb_events := [ex_signed ''forged'', ex_signed ''good''] \<rparr>) ''m'') 0
    = [JStr ''forged'']"
proof -
  let ?p = "ex_votes_db []\<lparr> pb_committee := [(''m'', Some (JArr [JStr ''1'']))], pb_events := [ex_signed ''forged''] \<rparr>"
  have "market_payloads ?p ''pool_oracle_tx_sig'' ''m'' = [ev_payload (ex_signed ''forged'')]"
    using ex_sig_like by (simp add: market_payloads_def) (simp add: ex_signed_def)
  then have m: "map_of (settle_sigs 1 ?p ''m'') (0, ''1'') = Some (JStr ''forged'')"
    using ex_sig_of by (simp add: settle_sigs_def recorded_sigs_def map_filter_def)
  have c: "committee_pks ?p ''m'' = [''1'']" by code_simp
  have "?p\<lparr> pb_events := pb_events ?p @ [ex_signed ''good''] \<rparr> = ex_votes_db []\<lparr> pb_committee := [(''m'', Some (JArr [JStr ''1'']))], pb_events := [ex_signed ''forged'', ex_signed ''good''] \<rparr>"
    by simp
  with first_signature_submitted [OF m, of 0 "[ex_signed ''good'']"] c show ?thesis by (simp add: ordered_sigs_def)
qed

lemma ex_excluded: "excludePks (sd_pool (ex_sdb [])) (ex_row ''verifying'' ''v0.6'') = Some [replicate 64 (CHR ''6''), replicate 64 (CHR ''7''), replicate 64 (CHR ''8'')]"
  by code_simp

lemma ex_members_read: "snapshot_members ex_snapshot = Some (map (\<lambda>pk. \<lparr> m_pk = pk, m_stake = 100 \<rparr>) ex_keys)"
  by code_simp

lemma ex_drawn: "\<exists>pks. draw_committee (ex_sv a) (sd_pool (ex_sdb [])) (ex_row ''verifying'' ''v0.6'') (replicate 64 (CHR ''1'')) = Some pks"
proof -
  let ?ms = "map (\<lambda>pk. \<lparr> m_pk = pk, m_stake = 100 \<rparr>) ex_keys" and ?ex = "[replicate 64 (CHR ''6''), replicate 64 (CHR ''7''), replicate 64 (CHR ''8'')]"
  have "COMMITTEE_SIZE \<le> length (sorted_members ?ms ?ex)" by code_simp
  then obtain sel rds where sel: "selectCommittee (\<lambda>_. replicate 32 0) ?ms (replicate 32 0) ?ex = Inr (sel, rds)"
    using selectCommittee_total [of "replicate 32 0" ?ms ?ex "\<lambda>_. replicate 32 0"] by (auto simp del: replicate.simps)
  have sn: "loadPoolSnapshot (sd_pool (ex_sdb [])) ''m'' = Some ex_snapshot" by (simp add: loadPoolSnapshot_def ex_sdb_def ex_snapshot_def ex_keys_def)
  have seed: "deriveCommitteeSeed (\<lambda>_. replicate 32 0) ''m'' (replicate 64 (CHR ''1'')) (sn_root ex_snapshot) = Inr (replicate 32 0)" by code_simp
  have H: "sv_hash (ex_sv a) = (\<lambda>_. replicate 32 0)" by (simp add: ex_sv_def)
  show ?thesis unfolding draw_committee_def H ex_found(2) sn ex_excluded by (simp add: seed ex_members_read right_def sel)
qed

theorem drawn_committee_disinterested_witness:
  "\<exists>pks. draw_committee (ex_sv (Inr JNull)) (sd_pool (ex_sdb [])) (ex_row ''verifying'' ''v0.6'') (replicate 64 (CHR ''1'')) = Some pks
    \<and> length pks = 5 \<and> toLowerCase (pr_maker (ex_row ''verifying'' ''v0.6'')) \<notin> set pks"
proof -
  obtain pks where pks: "draw_committee (ex_sv (Inr JNull)) (sd_pool (ex_sdb [])) (ex_row ''verifying'' ''v0.6'') (replicate 64 (CHR ''1'')) = Some pks"
    using ex_drawn by blast
  have "pr_maker (ex_row ''verifying'' ''v0.6'') \<noteq> []" by (simp add: ex_row_def)
  then show ?thesis using drawn_committee_disinterested [OF pks] pks by blast
qed

end
