(* ===== verification/Spec2Isabelle.thy ===== *)
theory Spec2Isabelle
  imports Fee_Split Payout Payout_Root Committee Mass Shards Allocator Order_Safety Trade_Limits Broker_Safety Broker_Menu Close_Enforce Consolidate
    Exchange_Claims Trade_Filter_Safety Settler_Claims
begin

section \<open>A verification library of the settlement core of KANet\<close>

text \<open>
  KANet runs prediction markets, an over-the-counter market and a retail broker on the Kaspa block DAG.  A node is a
  process (\<open>kasia-console\<close>) with a SQLite database; nodes talk by broadcasts on the chain, and money sits in addresses
  of compiled contracts.  This library models the code that decides about money and state: how a pool is divided, what a
  committee signs, which message moves which row.  Unless another path is given, files are under
  \<open>kasia-console/src/\<close>.

  \<^bold>\<open>The parts of the program and their theories.\<close>

  Foundations.
  \<^item> \<open>Prelude\<close>: JavaScript values and operators, byte buffers, lists, sums, sorting.
  \<^item> \<open>Json\<close>: JSON values, \<open>JSON.stringify\<close> and the two canonical serialisers (\<open>canonicalPredicate\<close>, \<open>_canonicalJson\<close>).
  \<^item> \<open>Status_Machine\<close>: the contract of every table with a status (locale \<open>status_machine\<close>): a step moves a row along a graph
    or leaves it, and deletes none; hence final states and paths.  It is interpreted for fund locks, executions, orders, shards,
    retail orders, offers, the terms of offers, orders under messages, pool markets under messages, and markets under the
    settler (their status, and the rows of closed ones).
  \<^item> \<open>Solvency\<close>: the contract of a splitter of a pool (locale \<open>pool_split\<close>): leaves are not negative and sum to the pool;
    then no order of claims overdraws the vault.  It is interpreted for \<open>feeSplit\<close>, the pari-mutuel payout and the settlement.
  \<^item> \<open>Merkle\<close>: the tree loop, proofs and the climb, and the contract of a commitment (locale \<open>commitment_tree\<close>),
    interpreted for the payout tree of a shard, the tree of a market and the tree of the oracle keys.

  Prediction markets: money.
  \<^item> \<open>Fee_Rules\<close>, \<open>Fee_Split\<close>: \<open>lib/fee-split.mjs\<close>, the schema of fee rules, their commitment, the division of a pool.
  \<^item> \<open>Payout\<close>, \<open>Payout_Root\<close>: \<open>lib/pool-shard-settle.mjs\<close>, \<open>lib/pool-payout-parimutuel.mjs\<close> and
    \<open>lib/pool-payout-root.mjs\<close>, the payouts of both settlement paths, the payout trees, the hash chain over the bets.
  \<^item> \<open>Mass\<close>: \<open>lib/kip9-mass.mjs\<close>, \<open>lib/pool-settle-chunks.mjs\<close>, the mass and the fee of a transaction and the plan that cuts a
    settlement into a chain of transactions.
  \<^item> \<open>Shards\<close>, \<open>Allocator\<close>, \<open>Consolidate\<close>: \<open>lib/pool-fold.mjs\<close>, \<open>lib/pool-shard-state-serialize.mjs\<close>,
    \<open>lib/shard-allocator.mjs\<close> and the consolidation of \<open>lib/pool-shard-settle.mjs\<close>: where bets go, how the shards are folded, the
    state bytes in a script, and the run that absorbs all shards, resumed after a crash.

  Prediction markets: judgement.
  \<^item> \<open>Judgeline\<close>: \<open>lib/judgeline.mjs\<close>, the function every member judges with; \<open>Evidence\<close>:
    \<open>lib/oracle-evidence-extractors.mjs\<close>, the fields it judges by; \<open>Market_Commit\<close>: the hash of the terms in a script.
  \<^item> \<open>Committee\<close>: \<open>services/pool-merkle-v06.mjs\<close>, \<open>services/pool-committee-sampler.mjs\<close>: the tree of the oracle keys and the
    weighted draw of five members.
  \<^item> \<open>Close_Binding\<close>, \<open>Close_Chain\<close>, \<open>Close_Enforce\<close>: \<open>lib/bshard-close-enforce.mjs\<close>, what a member
    recomputes before it signs the close of a market: state bytes, evidence, committee, bets, payouts.

  Prediction markets: messages.
  \<^item> \<open>Pool_Chunks\<close>: \<open>lib/pool-broadcast.mjs\<close> and the chunk cache of \<open>services/trade-protocol-filter.js\<close>.
  \<^item> \<open>Pool_Script\<close>: \<open>lib/pool-p2sh.mjs\<close>, \<open>lib/pool-p2sh-v06.mjs\<close>, \<open>lib/pool-p2sh-v07.mjs\<close>, \<open>lib/oracle-stake-v1.mjs\<close>: the
    addresses of the contracts.
  \<^item> \<open>Pool_Ingest\<close>: the pool handlers of \<open>services/trade-protocol-filter.js\<close> (markets, bets, votes, signatures, enrollments,
    refunds, the block of a bet, missed markets).  \<open>Pool_Safety\<close> shows what every handler keeps (locale
    \<open>pool_reader\<close>: what a reader of one broadcast guarantees to the code that reads stored broadcasts again),
    \<open>Pool_Claims\<close> what holds in all histories, and what the handlers leave unchecked.

  Prediction markets: settlement (\<open>services/pool-market-settler.js\<close> and \<open>services/pool-market-settler-v06.mjs\<close>).
  \<^item> \<open>Pool_Consensus\<close>: \<open>decideConsensus\<close>, how votes are looked up and what they decide.
  \<^item> \<open>Pool_Payouts\<close>: \<open>computePoolPayouts\<close>, the outputs built from it and the fee of the transaction.
  \<^item> \<open>Pool_Dispatch\<close>: \<open>dispatchPhase2\<close>, \<open>dispatchRefund\<close>, \<open>dispatchRefundDisagreement\<close>, \<open>handleRefunding\<close>; it holds the
    state of the settler (\<open>settle_db\<close>: the tables of \<open>Pool_Ingest\<close>, spends, history, memory, commands sent) and what it calls
    (\<open>settle_env\<close>).
  \<^item> \<open>Pool_Collect\<close>: \<open>handleCollectingSigs\<close>; \<open>Pool_Sampling\<close>: the committee of a market, drawn from a final block.
  \<^item> \<open>Pool_Tick\<close>: \<open>poolSettlerTick\<close>, which runs them over the markets that are due, with its watchdogs.
  \<^item> \<open>Settler_Safety\<close>: each handler writes one row and leaves it in a status that has what it needs; the steps of a node.
    \<open>Settler_Claims\<close>: what follows in all histories, what is paid and to whom, when the settler gives up, and which stakes
    stay behind.

  The over-the-counter market.
  \<^item> \<open>Chain_Event\<close>: \<open>services/chain-event.js\<close>; \<open>Fund_Lock\<close>: \<open>services/fund-lock.js\<close> (with the locale \<open>fund_ledger\<close> of what
    releasing and spending a lock does to the sums); \<open>Execution\<close>: \<open>services/execution-state.js\<close>;
    \<open>Trade_Limits\<close>: \<open>services/trade-limits.js\<close>.
  \<^item> \<open>Orders\<close>: \<open>services/order-machine.js\<close>, whose transitions touch all of them; \<open>Order_Safety\<close> follows one transition and
    all it causes.
  \<^item> \<open>Exchange\<close>, \<open>Exchange_Filter\<close>: \<open>services/exchange-machine.js\<close> and the exchange handlers of
    \<open>services/trade-protocol-filter.js\<close>; \<open>Exchange_Safety\<close> and \<open>Exchange_Claims\<close> follow offers through all histories.
  \<^item> \<open>Trade_Filter\<close>, \<open>Trade_Filter_Safety\<close>: the order handlers of \<open>services/trade-protocol-filter.js\<close>.

  The retail broker.
  \<^item> \<open>Broker_Orders\<close>, \<open>Broker_Drafts\<close>, \<open>Broker_Safety\<close>: \<open>services/broker-state-machine.js\<close>, \<open>db/state-transitions.js\<close>,
    \<open>services/broker-v2/state.js\<close>, \<open>services/broker-refund-dedup.js\<close>.
  \<^item> \<open>Broker_Menu\<close>: \<open>services/broker-v3/state-machine.js\<close> and \<open>services/broker-v3/router.js\<close>.

  \<^bold>\<open>How code corresponds to definitions.\<close>
  A table is a list of rows (a \<open>record\<close> with the columns the code reads or writes) in insertion order; a database is a record of
  tables; \<open>INSERT OR IGNORE\<close>, unique indices and \<open>UPDATE ... WHERE\<close> are written out.  A handler is a function from the database
  to the database, with its early returns in the order of the code.  An exception that ends a function is the \<open>Inl\<close> of a sum or
  \<open>None\<close>; one that a handler catches leaves what had been written.  Effects that leave the database (messages, transfers,
  calls of other services) are commands on an outbox.  \<open>BigInt\<close> and integers below \<open>2 ^ 53\<close> are \<open>int\<close> or \<open>nat\<close>;
  amounts the code keeps in doubles are rationals, so rounding is not part of the model; bytes are \<open>8 word\<close>, and the 8-byte
  fields of a script state are written out byte by byte with the range checks of \<open>writeBigUInt64LE\<close>.

  \<^bold>\<open>Histories.\<close>
  A theorem about histories is about a step relation, and holds for the writers the relation names.
  \<^item> The settler (\<open>settler_step\<close>, \<open>node_step\<close> in \<open>Settler_Safety\<close>): broadcasts, ticks, the mark that the notice of a broker fee
    leaves on a market (\<open>services/broker-fee-emit.mjs\<close>) and, in \<open>node_step\<close>, the refund a peer asks for, on a market of whatever
    status.  They run one after the other, and a tick begins when no vote or signature waits to be replayed.
  \<^item> Pool tables (\<open>pool_step\<close> in \<open>Pool_Claims\<close>): broadcasts, markets and bets made at the node itself, and the settler, which fills in the
    score of a lock.
  \<^item> Locks (\<open>lock_step\<close> in \<open>Fund_Lock\<close>): every call may report another balance.
  \<^item> Orders (\<open>market_step\<close> in \<open>Order_Safety\<close>, \<open>otc_step\<close> in \<open>Trade_Filter_Safety\<close>): the moves of the order machine; forced moves only
    of the orders in a given set.
  \<^item> Offers (\<open>exch_step\<close> in \<open>Exchange_Safety\<close>): the verification of a payment waits for an answer between its check of the status
    (\<open>check_payment\<close>) and the rest (\<open>confirm_payment\<close>), and any other step may come in between.
  \<^item> Retail orders (\<open>retail_step\<close> in \<open>Broker_Safety\<close>): the state machine, its sweep, the refund wrapper and the drafts.  The updates of other
    files that write the state of an order without the state machine (\<open>broker-v2/router.js\<close>, \<open>broker-state-authority.js\<close>,
    \<open>exchange-machine.js\<close>, \<open>api/conversations.js\<close>) are no steps of it; the first two are the definitions \<open>markPurchasesPaid\<close> and \<open>resetConvoState\<close>, and
    \<open>paid_without_transaction\<close> shows what they break.

  \<^bold>\<open>Parameters.\<close>
  Code outside the repository is an argument of the definitions: hashes (\<open>blake2b\<close>, \<open>sha256\<close>), \<open>JSON.parse\<close>, the URL parser,
  \<open>localeCompare\<close>, clocks and random ids, \<open>verifyMessage\<close>, the compiler of contracts and the address library, the answers of the
  node, of wallets, relays, explorers and exchanges.  Nothing is assumed of a hash: where a result needs it to be free of
  collisions, the statement says that otherwise two different texts with one hash exist.

  \<^bold>\<open>Bounds and termination.\<close>
  Loops are structural recursion or have a termination proof; the rest carries the bound the code has: the walk along selected
  parents takes 10000 steps (\<open>CAPTURE_MAX_STEPS\<close>, with a theorem that it finds exactly what is nearer), a chunk is sent 9 times
  at most, the tree of a shard has depth 10, that of the oracle keys depth 8.  Reading a broadcast can make the node read stored
  broadcasts again; \<open>onPoolBroadcast env n\<close> nests at most \<open>n\<close> deep, and every theorem about it holds for all \<open>n\<close>.  A level of nesting
  is entered only by storing a market that was missing, so as many levels as there are stored messages are enough.

  \<^bold>\<open>What the theorems show.\<close>
  Money: splits sum to the pool and no leaf is negative, both settlement paths agree up to the letter case of keys, the plan of a settlement and the
  consolidation lose nothing, locks never exceed the largest balance reported, a shard keeps its caps.  Commitments: an opening of another leaf, another
  bet list or other terms exhibits a collision; state bytes read back.  Judgement: a validated predicate is always
  decided, evidence fixes the fields, the drawn committee has five different members without interest, and a member signs only a
  close that pays out the pool.  State: final states stay, funds follow the status, a payment
  belongs to one offer, a delivery needs a payment, no verification begins once an offer was handed over, a sweep clears what timed out.  Messages: a long payload
  arrives, recorded votes were signed, markets with one hash agree on their terms, the block of a bet is final.
  Settlement: nodes settle for opposite winners only if members vote twice, later votes turn no winner of a committee, a settlement of a committee
  pays out the whole pool less its fee, closed markets stay closed unless a peer may ask for a refund, waiting and submitting come to an end; and, where the code falls short, one
  message can decide, the first signature wins, a cancelled market can keep a stake, a request for a refund reopens a completed
  market, overlapping verifications deliver twice, and an order is marked paid without a transaction.

  \<^bold>\<open>Not modelled.\<close>
  The HTTP endpoints (\<open>api/\<close>) and the services that only schedule, log and call (\<open>bshard-auto-settler.mjs\<close> and its daemon, the voters, the relay manager, bots, the scout, market making): their decisions
  are those of the modules above or rest on the answers of other processes.  The schema (\<open>db/migrate.js\<close>) appears as the
  constraints the tables keep.  Transaction building and signing (\<open>kasia-relay/src/lib/p2sh.mjs\<close>) rests on \<open>kaspa-wasm\<close>, which is not part
  of the repository.  The contracts (\<open>.sil\<close>) are in another language.  The language-model parts of the agents and the broker have no
  specification.  \<open>kanet-tn12/\<close> and \<open>packages/\<close> hold copies.  Of the modelled files: the legacy \<open>enforceCommitteeSign\<close>, the auto-taker,
  hedging and auto-pay code of \<open>services/trade-protocol-filter.js\<close>, \<open>legacyRefundBuilderTick\<close> and the notice of broker fees (but for its mark), and \<open>kanet_prediction_params_v1\<close> messages are left out.
\<close>

end
